(* ===== verification/Prelude.thy ===== *)
theory Prelude
  imports Main "HOL-Library.Word" "HOL-Library.Finite_Map" "HOL-Library.List_Lexorder"
    "HOL-Library.Char_ord" "HOL-Library.Sublist"
begin

text \<open>
  Shared vocabulary of the development: the fixed-width integer types of the Rust sources and the
  checked, saturating and wrapping operations they use; little- and big-endian byte encodings;
  decimal printing and parsing of \<open>u128\<close>; results as values (\<open>Ok\<close>, \<open>Err\<close>, \<open>Panic\<close>) with a
  state-passing sequencing operator that keeps the writes made before an error; serialisers as
  parameters (\<open>codec\<close>); and the generic lemmas every component uses.

  Arithmetic written with the plain operators \<open>+\<close>, \<open>-\<close>, \<open>*\<close> in the sources is modelled as it
  behaves in the shipped release profile (\<open>Cargo.toml\<close> sets no \<open>overflow-checks\<close>): it wraps. A
  division by zero panics in every profile, and \<open>panic = "abort"\<close> stops the process.
\<close>

section \<open>Fixed-width integers\<close>

type_synonym u8 = "8 word"
type_synonym u16 = "16 word"
type_synonym u32 = "32 word"
type_synonym u64 = "64 word"
type_synonym u128 = "128 word"
type_synonym bytes = "u8 list"

named_theorems rust_arith \<open>reading checked and saturating word arithmetic as arithmetic on nat\<close>

definition checked_add :: "'a::len word \<Rightarrow> 'a word \<Rightarrow> 'a word option" where
  "checked_add a b = (if unat a + unat b < 2 ^ LENGTH('a) then Some (a + b) else None)"

definition saturating_add :: "'a::len word \<Rightarrow> 'a word \<Rightarrow> 'a word" where
  "saturating_add a b = (if unat a + unat b < 2 ^ LENGTH('a) then a + b else - 1)"

definition saturating_sub :: "'a::len word \<Rightarrow> 'a word \<Rightarrow> 'a word" where
  "saturating_sub a b = (if a < b then 0 else a - b)"

definition saturating_mul :: "'a::len word \<Rightarrow> 'a word \<Rightarrow> 'a word" where
  "saturating_mul a b = (if unat a * unat b < 2 ^ LENGTH('a) then a * b else - 1)"

section \<open>Byte strings\<close>

primrec le_bytes :: "nat \<Rightarrow> nat \<Rightarrow> bytes" where
  "le_bytes 0 x = []"
| "le_bytes (Suc n) x = of_nat (x mod 256) # le_bytes n (x div 256)"

primrec le_value :: "bytes \<Rightarrow> nat" where
  "le_value [] = 0"
| "le_value (b # bs) = unat b + 256 * le_value bs"

definition u64_to_le_bytes :: "u64 \<Rightarrow> bytes" where
  "u64_to_le_bytes w = le_bytes 8 (unat w)"

definition u32_to_le_bytes :: "u32 \<Rightarrow> bytes" where
  "u32_to_le_bytes w = le_bytes 4 (unat w)"

definition u64_from_le_bytes :: "bytes \<Rightarrow> u64" where
  "u64_from_le_bytes bs = of_nat (le_value bs)"

definition u64_to_be_bytes :: "u64 \<Rightarrow> bytes" where
  "u64_to_be_bytes w = rev (le_bytes 8 (unat w))"

definition u128_to_be_bytes :: "u128 \<Rightarrow> bytes" where
  "u128_to_be_bytes w = rev (le_bytes 16 (unat w))"

definition u32_to_be_bytes :: "u32 \<Rightarrow> bytes" where
  "u32_to_be_bytes w = rev (le_bytes 4 (unat w))"

definition u16_to_le_bytes :: "u16 \<Rightarrow> bytes" where
  "u16_to_le_bytes w = le_bytes 2 (unat w)"

definition u128_to_le_bytes :: "u128 \<Rightarrow> bytes" where
  "u128_to_le_bytes w = le_bytes 16 (unat w)"

definition u64_from_be_bytes :: "bytes \<Rightarrow> u64" where
  "u64_from_be_bytes bs = of_nat (le_value (rev bs))"

text \<open>
  A Rust \<open>String\<close> is a sequence of UTF-8 bytes; \<open>string\<close> has one 8-bit character per byte. The byte
  \<open>0xff\<close> never occurs in UTF-8, which \<open>utf8_free_ff\<close> records where a lemma depends on it.
\<close>

definition as_bytes :: "string \<Rightarrow> bytes" where
  "as_bytes s = map of_char s"

definition utf8_free_ff :: "string \<Rightarrow> bool" where
  "utf8_free_ff s \<longleftrightarrow> 255 \<notin> set (as_bytes s)"

section \<open>Decimal text of u128\<close>

fun decimal :: "nat \<Rightarrow> string" where
  "decimal n = (if n < 10 then [char_of (48 + n)] else decimal (n div 10) @ [char_of (48 + n mod 10)])"

declare decimal.simps [simp del]

text \<open>\<open>[String]::join\<close>\<close>

fun join_with :: "string \<Rightarrow> string list \<Rightarrow> string" where
  "join_with sep [] = []"
| "join_with sep [s] = s"
| "join_with sep (s # t # ss) = s @ sep @ join_with sep (t # ss)"

definition u128_to_string :: "u128 \<Rightarrow> string" where
  "u128_to_string v = decimal (unat v)"

definition digit_of :: "char \<Rightarrow> nat option" where
  "digit_of c = (let n = (of_char c :: nat) in if 48 \<le> n \<and> n \<le> 57 then Some (n - 48) else None)"

fun parse_digits :: "nat \<Rightarrow> string \<Rightarrow> nat option" where
  "parse_digits acc [] = Some acc"
| "parse_digits acc (c # cs) =
     (case digit_of c of
        None \<Rightarrow> None
      | Some d \<Rightarrow> if acc * 10 + d < 2 ^ 128 then parse_digits (acc * 10 + d) cs else None)"

text \<open>
  \<open>str::parse::<u128>\<close>: an optional leading plus sign, then at least one decimal digit; an empty
  string, another character or a value beyond \<open>u128::MAX\<close> is an error.
\<close>

definition parse_u128 :: "string \<Rightarrow> u128 option" where
  "parse_u128 s =
     (let ds = (case s of c # cs \<Rightarrow> if c = CHR ''+'' then cs else s | [] \<Rightarrow> [])
      in if ds = [] then None else map_option of_nat (parse_digits 0 ds))"

section \<open>Results and state passing\<close>

datatype ('e, 'a) outcome = Ok 'a | Err 'e | Panic

type_synonym ('s, 'e, 'a) act = "'s \<Rightarrow> ('e, 'a) outcome \<times> 's"

definition ret :: "'a \<Rightarrow> ('s, 'e, 'a) act" where
  "ret x = (\<lambda>s. (Ok x, s))"

definition raise :: "'e \<Rightarrow> ('s, 'e, 'a) act" where
  "raise e = (\<lambda>s. (Err e, s))"

definition panic :: "('s, 'e, 'a) act" where
  "panic = (\<lambda>s. (Panic, s))"

definition gets :: "('s \<Rightarrow> 'a) \<Rightarrow> ('s, 'e, 'a) act" where
  "gets f = (\<lambda>s. (Ok (f s), s))"

definition modify :: "('s \<Rightarrow> 's) \<Rightarrow> ('s, 'e, unit) act" where
  "modify f = (\<lambda>s. (Ok (), f s))"

definition ensure :: "bool \<Rightarrow> 'e \<Rightarrow> ('s, 'e, unit) act" where
  "ensure b e = (if b then ret () else raise e)"

text \<open>Sequencing: the question mark operator stops at the first error; writes made before it stay.\<close>

definition andthen :: "('s, 'e, 'a) act \<Rightarrow> ('a \<Rightarrow> ('s, 'e, 'b) act) \<Rightarrow> ('s, 'e, 'b) act" where
  "andthen m f = (\<lambda>s. case m s of
      (Ok x, s') \<Rightarrow> f x s'
    | (Err e, s') \<Rightarrow> (Err e, s')
    | (Panic, s') \<Rightarrow> (Panic, s'))"

definition of_option :: "'e \<Rightarrow> 'a option \<Rightarrow> ('s, 'e, 'a) act" where
  "of_option e x = (case x of None \<Rightarrow> raise e | Some v \<Rightarrow> ret v)"

definition map_err :: "('e \<Rightarrow> 'f) \<Rightarrow> ('s, 'e, 'a) act \<Rightarrow> ('s, 'f, 'a) act" where
  "map_err g m = (\<lambda>s. case m s of
      (Ok x, s') \<Rightarrow> (Ok x, s')
    | (Err e, s') \<Rightarrow> (Err (g e), s')
    | (Panic, s') \<Rightarrow> (Panic, s'))"

text \<open>Division of unsigned words: a zero divisor panics.\<close>

definition div_or_panic :: "'w::len word \<Rightarrow> 'w word \<Rightarrow> ('s, 'e, 'w word) act" where
  "div_or_panic a b = (if b = 0 then panic else ret (a div b))"

section \<open>Serialisers as parameters\<close>

text \<open>
  \<open>serde_json\<close> is not part of the repository. A value of type \<open>'a\<close> is written and read through a
  \<open>codec\<close>: \<open>to_vec\<close> and \<open>from_slice\<close> at that type, with the library's error message on the left.
  \<open>codec_ok\<close> is the documented round trip of a derived \<open>Serialize\<close>/\<open>Deserialize\<close> pair.
\<close>

record 'a codec =
  to_vec :: "'a \<Rightarrow> string + bytes"
  from_slice :: "bytes \<Rightarrow> string + 'a"

definition codec_ok :: "'a codec \<Rightarrow> bool" where
  "codec_ok c \<longleftrightarrow> (\<forall>x. \<exists>b. to_vec c x = Inr b \<and> from_slice c b = Inr x)"

text \<open>\<open>serde_json::to_vec(x).unwrap_or_default()\<close>\<close>

definition to_vec_or_default :: "'a codec \<Rightarrow> 'a \<Rightarrow> bytes" where
  "to_vec_or_default c x = (case to_vec c x of Inr b \<Rightarrow> b | Inl _ \<Rightarrow> [])"

section \<open>Lemmas\<close>

lemma unat_checked_add [rust_arith]:
  "checked_add a b = Some c \<Longrightarrow> unat c = unat a + unat b"
  by (auto simp: checked_add_def unat_word_ariths split: if_splits)

lemma checked_add_None_iff:
  fixes a b :: "'a::len word"
  shows "checked_add a b = None \<longleftrightarrow> 2 ^ LENGTH('a) \<le> unat a + unat b"
  by (auto simp: checked_add_def)

lemma checked_add_Some_iff:
  fixes a b c :: "'a::len word"
  shows "checked_add a b = Some c \<longleftrightarrow> unat a + unat b < 2 ^ LENGTH('a) \<and> c = a + b"
  by (auto simp: checked_add_def)

lemma unat_minus_one_max: "unat (- 1 :: 'a::len word) = 2 ^ LENGTH('a) - 1"
  by (simp add: unsigned_minus_1_eq_mask mask_eq_exp_minus_1)

lemma unat_saturating_add [rust_arith]:
  fixes a b :: "'a::len word"
  shows "unat (saturating_add a b) = min (unat a + unat b) (2 ^ LENGTH('a) - 1)"
proof (cases "unat a + unat b < 2 ^ LENGTH('a)")
  case True
  then show ?thesis by (simp add: saturating_add_def unat_word_ariths)
next
  case False
  then show ?thesis by (simp add: saturating_add_def unat_minus_one_max)
qed

lemma unat_saturating_sub [rust_arith]: "unat (saturating_sub a b) = unat a - unat b"
  by (auto simp: saturating_sub_def unat_sub word_less_nat_alt word_le_nat_alt not_less)

lemma unat_saturating_mul [rust_arith]:
  fixes a b :: "'a::len word"
  shows "unat (saturating_mul a b) = min (unat a * unat b) (2 ^ LENGTH('a) - 1)"
proof (cases "unat a * unat b < 2 ^ LENGTH('a)")
  case True
  then show ?thesis by (simp add: saturating_mul_def unat_word_ariths)
next
  case False
  then show ?thesis by (simp add: saturating_mul_def unat_minus_one_max)
qed

lemma saturating_add_eq: "unat a + unat b < 2 ^ LENGTH('a) \<Longrightarrow> saturating_add a (b :: 'a::len word) = a + b"
  by (rule word_unat_eq_iff [THEN iffD2]) (simp add: unat_saturating_add unat_word_ariths)

lemma saturating_add_pos: "a \<noteq> 0 \<or> b \<noteq> 0 \<Longrightarrow> saturating_add a b \<noteq> (0 :: 'a::len word)"
proof -
  assume "a \<noteq> 0 \<or> b \<noteq> 0"
  then have "0 < unat a + unat b" by (auto simp: unat_gt_0)
  moreover have "0 < (2 :: nat) ^ LENGTH('a) - 1"
    using one_less_power [of "2 :: nat" "LENGTH('a)"] by simp
  ultimately have "unat (saturating_add a b) \<noteq> 0" by (simp add: unat_saturating_add)
  then show ?thesis by (metis unat_0)
qed

lemma unat_succ [rust_arith]: "(n :: 'a::len word) \<noteq> - 1 \<Longrightarrow> unat (n + 1) = Suc (unat n)"
  by (metis add.commute add.inverse_unique unatSuc)

lemma word_succ:
  assumes "(n :: 'a::len word) \<noteq> - 1"
  shows "n < n + 1" "n \<le> n + 1" "n + 1 \<noteq> 0"
  using unat_succ [OF assms] by (auto simp: word_less_nat_alt word_le_nat_alt)

lemma unat_lt_max: "unat (a :: 'a::len word) \<le> 2 ^ LENGTH('a) - 1"
  using unsigned_less [where 'a = nat and w = a] by linarith

lemma unat_sum_list_words [rust_arith]:
  fixes ws :: "'a::len word list"
  assumes "sum_list (map unat ws) < 2 ^ LENGTH('a)"
  shows "unat (sum_list ws) = sum_list (map unat ws)"
  using assms by (induction ws) (simp_all add: unat_word_ariths)

lemma length_le_bytes [simp]: "length (le_bytes n x) = n"
  by (induction n arbitrary: x) auto

lemma le_value_le_bytes: "le_value (le_bytes n x) = x mod 256 ^ n"
proof (induction n arbitrary: x)
  case 0
  show ?case by simp
next
  case (Suc n)
  have "le_value (le_bytes (Suc n) x) = x mod 256 + 256 * (x div 256 mod 256 ^ n)"
    by (simp add: Suc.IH unat_of_nat)
  also have "\<dots> = x mod (256 * 256 ^ n)"
    by (simp add: mod_mult2_eq)
  finally show ?case by simp
qed

lemma u64_le_roundtrip: "u64_from_le_bytes (u64_to_le_bytes w) = w"
proof -
  have "unat w < 256 ^ 8"
    using unsigned_less [where 'a = nat and w = w] by simp
  then show ?thesis
    by (simp add: u64_from_le_bytes_def u64_to_le_bytes_def le_value_le_bytes)
qed

lemma u64_be_roundtrip: "u64_from_be_bytes (u64_to_be_bytes w) = w"
proof -
  have "unat w < 256 ^ 8"
    using unsigned_less [where 'a = nat and w = w] by simp
  then show ?thesis
    by (simp add: u64_from_be_bytes_def u64_to_be_bytes_def le_value_le_bytes)
qed

lemma u64_to_le_bytes_inj [simp]: "u64_to_le_bytes a = u64_to_le_bytes b \<longleftrightarrow> a = b"
  by (metis u64_le_roundtrip)

lemma length_u64_to_le_bytes [simp]: "length (u64_to_le_bytes w) = 8"
  by (simp add: u64_to_le_bytes_def)

lemma length_u32_to_le_bytes [simp]: "length (u32_to_le_bytes w) = 4"
  by (simp add: u32_to_le_bytes_def)

lemma u32_to_le_bytes_inj [simp]: "u32_to_le_bytes a = u32_to_le_bytes b \<longleftrightarrow> a = b"
proof
  assume "u32_to_le_bytes a = u32_to_le_bytes b"
  then have "le_value (le_bytes 4 (unat a)) = le_value (le_bytes 4 (unat b))"
    by (simp add: u32_to_le_bytes_def)
  moreover have "unat a < 256 ^ 4" "unat b < 256 ^ 4"
    using unsigned_less [where 'a = nat and w = a] unsigned_less [where 'a = nat and w = b] by simp_all
  ultimately show "a = b"
    by (simp add: le_value_le_bytes word_unat_eq_iff)
qed simp

lemma of_char_u8_inj [simp]: "(of_char c :: u8) = of_char d \<longleftrightarrow> c = d"
proof
  assume "(of_char c :: u8) = of_char d"
  then have "unat (of_nat (of_char c) :: u8) = unat (of_nat (of_char d) :: u8)"
    by (simp add: of_nat_of_char)
  then have "(of_char c :: nat) mod 256 = of_char d mod 256"
    by (simp add: unat_of_nat)
  then show "c = d" by simp
qed simp

lemma as_bytes_inj [simp]: "as_bytes s = as_bytes t \<longleftrightarrow> s = t"
  unfolding as_bytes_def by (rule inj_map_eq_map) (simp add: inj_def)

lemma as_bytes_simps [simp]:
  "as_bytes [] = []" "as_bytes (c # cs) = of_char c # as_bytes cs"
  "as_bytes (s @ t) = as_bytes s @ as_bytes t" "length (as_bytes s) = length s"
  by (simp_all add: as_bytes_def)

subsection \<open>Decimal text\<close>

lemma digit_of_char_of [simp]: "d < 10 \<Longrightarrow> digit_of (char_of (48 + d)) = Some d"
  by (simp add: digit_of_def Let_def)

lemma parse_digits_append:
  "parse_digits acc (s @ t) = Option.bind (parse_digits acc s) (\<lambda>a. parse_digits a t)"
  by (induction acc s rule: parse_digits.induct) (auto split: option.splits)

lemma parse_digits_decimal: "n < 2 ^ 128 \<Longrightarrow> parse_digits 0 (decimal n) = Some n"
proof (induction n rule: decimal.induct)
  case (1 n)
  show ?case
  proof (cases "n < 10")
    case True
    then show ?thesis by (simp add: decimal.simps [of n])
  next
    case False
    with "1" have "parse_digits 0 (decimal (n div 10)) = Some (n div 10)"
      by simp
    moreover have "n div 10 * 10 + n mod 10 = n"
      by simp
    ultimately show ?thesis
      using False "1.prems" by (simp add: decimal.simps [of n] parse_digits_append)
  qed
qed

lemma decimal_inj: "m < 2 ^ 128 \<Longrightarrow> n < 2 ^ 128 \<Longrightarrow> decimal m = decimal n \<longleftrightarrow> m = n"
  by (metis option.inject parse_digits_decimal)

lemma decimal_u64_inj [simp]: "decimal (unat (a :: u64)) = decimal (unat b) \<longleftrightarrow> a = b"
proof -
  have "unat a < 2 ^ 128" "unat b < 2 ^ 128"
    using unsigned_less [where 'a = nat and w = a] unsigned_less [where 'a = nat and w = b] by (simp_all add: order.strict_trans)
  then show ?thesis by (simp add: decimal_inj word_unat_eq_iff)
qed

lemma decimal_not_Nil [simp]: "decimal n \<noteq> []"
  by (simp add: decimal.simps [of n])

lemma hd_decimal: "\<exists>d < (10::nat). hd (decimal n) = char_of (48 + d)"
proof (induction n rule: decimal.induct)
  case (1 n)
  then show ?case
    by (cases "n < 10") (auto simp: decimal.simps [of n] hd_append)
qed

lemma hd_decimal_not_plus: "hd (decimal n) \<noteq> CHR ''+''"
proof
  assume plus: "hd (decimal n) = CHR ''+''"
  obtain d where "d < (10::nat)" and "hd (decimal n) = char_of (48 + d)"
    using hd_decimal by blast
  then have "(of_char (hd (decimal n)) :: nat) = 48 + d"
    by simp
  with plus show False by simp
qed

lemma parse_u128_to_string [simp]: "parse_u128 (u128_to_string v) = Some v"
proof -
  obtain c cs where ccs: "decimal (unat v) = c # cs"
    by (cases "decimal (unat v)") auto
  with hd_decimal_not_plus [of "unat v"] have "c \<noteq> CHR ''+''"
    by simp
  moreover have "parse_digits 0 (c # cs) = Some (unat v)"
    using parse_digits_decimal [of "unat v"] ccs unsigned_less [of v] by simp
  ultimately show ?thesis
    by (simp add: parse_u128_def u128_to_string_def ccs Let_def)
qed

subsection \<open>Sequencing\<close>

named_theorems act_simps \<open>unfolding of the state-passing operators\<close>

lemma andthen_simps [act_simps]:
  "m s = (Ok x, s') \<Longrightarrow> andthen m f s = f x s'"
  "m s = (Err e, s') \<Longrightarrow> andthen m f s = (Err e, s')"
  "m s = (Panic, s') \<Longrightarrow> andthen m f s = (Panic, s')"
  by (simp_all add: andthen_def)

lemma ret_run [simp]: "ret x s = (Ok x, s)"
  by (simp add: ret_def)

lemma raise_run [simp]: "raise e s = (Err e, s)"
  by (simp add: raise_def)

lemma panic_run [simp]: "panic s = (Panic, s)"
  by (simp add: panic_def)

lemma gets_run [simp]: "gets g s = (Ok (g s), s)"
  by (simp add: gets_def)

lemma modify_run [simp]: "modify h s = (Ok (), h s)"
  by (simp add: modify_def)

lemma ensure_run [simp]: "ensure b e s = (if b then (Ok (), s) else (Err e, s))"
  by (simp add: ensure_def)

lemma of_option_run [simp]:
  "of_option e y s = (case y of None \<Rightarrow> (Err e, s) | Some v \<Rightarrow> (Ok v, s))"
  by (simp add: of_option_def split: option.splits)

lemma div_or_panic_run [simp]:
  "div_or_panic a b s = (if b = 0 then (Panic, s) else (Ok (a div b), s))"
  by (simp add: div_or_panic_def)

lemma andthen_ret [simp]: "andthen (ret x) f = f x"
  by (simp add: andthen_def)

lemma andthen_raise [simp]: "andthen (raise e) f s = (Err e, s)"
  by (simp add: andthen_def)

lemma andthen_panic [simp]: "andthen panic f s = (Panic, s)"
  by (simp add: andthen_def)

text \<open>A constant action is a partial application of the pair constructor after simplification.\<close>

lemma andthen_Pair [simp]:
  "andthen (Pair (Ok x)) f = f x" "andthen (Pair (Err e)) f = Pair (Err e)"
  "andthen (Pair Panic) f = Pair Panic"
  by (simp_all add: andthen_def fun_eq_iff)

lemma map_err_Pair [simp]:
  "map_err g (Pair (Ok x)) = Pair (Ok x)" "map_err g (Pair (Err e)) = Pair (Err (g e))"
  "map_err g (Pair Panic) = Pair Panic"
  by (simp_all add: map_err_def fun_eq_iff)

lemma andthen_gets [simp]: "andthen (gets g) f s = f (g s) s"
  by (simp add: andthen_def)

lemma andthen_modify [simp]: "andthen (modify h) f s = f () (h s)"
  by (simp add: andthen_def)

lemma andthen_ensure [simp]: "andthen (ensure b e) f s = (if b then f () s else (Err e, s))"
  by (simp add: andthen_def)

lemma andthen_of_option [simp]:
  "andthen (of_option e y) f s = (case y of None \<Rightarrow> (Err e, s) | Some v \<Rightarrow> f v s)"
  by (simp add: andthen_def split: option.splits)

lemma andthen_div_or_panic [simp]:
  "andthen (div_or_panic a b) f s = (if b = 0 then (Panic, s) else f (a div b) s)"
  by (simp add: andthen_def)

lemma map_err_modify [simp]: "map_err g (modify h) = modify h"
  by (simp add: map_err_def modify_def)

lemma map_err_simps [act_simps]:
  "m s = (Ok x, s') \<Longrightarrow> map_err g m s = (Ok x, s')"
  "m s = (Err e, s') \<Longrightarrow> map_err g m s = (Err (g e), s')"
  "m s = (Panic, s') \<Longrightarrow> map_err g m s = (Panic, s')"
  by (simp_all add: map_err_def)

lemma map_err_Ok_iff [simp]: "map_err g m s = (Ok x, s') \<longleftrightarrow> m s = (Ok x, s')"
  by (auto simp: map_err_def split: outcome.splits prod.splits)

lemma andthen_Ok_iff:
  "andthen m f s = (Ok y, s') \<longleftrightarrow> (\<exists>x s1. m s = (Ok x, s1) \<and> f x s1 = (Ok y, s'))"
  by (auto simp: andthen_def split: outcome.splits prod.splits)

lemma case_option_Ok_iff:
  "(case y of None \<Rightarrow> (Err e, s) | Some v \<Rightarrow> f v) = (Ok x, s') \<longleftrightarrow> (\<exists>v. y = Some v \<and> f v = (Ok x, s'))"
  by (cases y) auto

lemma if_Ok_iff:
  "(if b then z else (Err e, s)) = (Ok x, s') \<longleftrightarrow> b \<and> z = (Ok x, s')"
  "(if b then (Err e, s) else z) = (Ok x, s') \<longleftrightarrow> \<not> b \<and> z = (Ok x, s')"
  "(if b then (Panic, s) else z) = (Ok x, s') \<longleftrightarrow> \<not> b \<and> z = (Ok x, s')"
  by auto

lemmas ok_iffs = andthen_Ok_iff case_option_Ok_iff if_Ok_iff not_less

lemma andthen_assoc: "andthen (andthen m f) g = andthen m (\<lambda>x. andthen (f x) g)"
  by (auto simp: andthen_def fun_eq_iff split: outcome.splits prod.splits)

lemma andthen_OkE:
  assumes "andthen m f s = (Ok y, s')"
  obtains x s1 where "m s = (Ok x, s1)" and "f x s1 = (Ok y, s')"
  using assms by (auto simp: andthen_def split: outcome.splits prod.splits)

text \<open>
  \<open>keeps P m\<close>: running \<open>m\<close> keeps the state property \<open>P\<close>, whether it returns, fails or panics. The
  rules are compositional, so that an invariant of a whole handler is one \<open>intro\<close> away from the
  invariant of the writes it makes.
\<close>

definition keeps :: "('s \<Rightarrow> bool) \<Rightarrow> ('s, 'e, 'a) act \<Rightarrow> bool" where
  "keeps P m \<longleftrightarrow> (\<forall>s. P s \<longrightarrow> P (snd (m s)))"

named_theorems keeps_intros \<open>compositional preservation rules\<close>

lemma keepsD: "keeps P m \<Longrightarrow> P s \<Longrightarrow> m s = (r, s') \<Longrightarrow> P s'"
  by (metis keeps_def snd_conv)

lemma keeps_pure [keeps_intros, simp]:
  "keeps P (ret x)" "keeps P (raise e)" "keeps P panic" "keeps P (gets g)"
  "keeps P (ensure b e')" "keeps P (of_option e'' y)" "keeps P (div_or_panic a d)"
  by (auto simp: keeps_def split: option.splits)

lemma keeps_Pair [keeps_intros, simp]: "keeps P (Pair r)"
  by (simp add: keeps_def)

lemma keeps_modify [keeps_intros]: "(\<And>s. P s \<Longrightarrow> P (h s)) \<Longrightarrow> keeps P (modify h)"
  by (simp add: keeps_def)

lemma keeps_andthen [keeps_intros]:
  assumes "keeps P m" and "\<And>x. keeps P (f x)"
  shows "keeps P (andthen m f)"
  unfolding keeps_def
proof (intro allI impI)
  fix s assume "P s"
  obtain r s1 where r: "m s = (r, s1)" by force
  with \<open>P s\<close> assms(1) have "P s1" by (auto dest: keepsD)
  with r assms(2) show "P (snd (andthen m f s))"
    by (cases r) (auto simp: andthen_def keeps_def)
qed

lemma keeps_map_err [keeps_intros]: "keeps P m \<Longrightarrow> keeps P (map_err g m)"
  by (auto simp: keeps_def map_err_def split: outcome.splits prod.splits)

lemma keeps_if [keeps_intros]: "keeps P m \<Longrightarrow> keeps P n \<Longrightarrow> keeps P (if b then m else n)"
  by simp

lemma keeps_option [keeps_intros]:
  "keeps P m \<Longrightarrow> (\<And>x. keeps P (f x)) \<Longrightarrow> keeps P (case y of None \<Rightarrow> m | Some x \<Rightarrow> f x)"
  by (cases y) auto

lemma keeps_sum [keeps_intros]:
  "(\<And>x. keeps P (f x)) \<Longrightarrow> (\<And>x. keeps P (g x)) \<Longrightarrow> keeps P (case y of Inl x \<Rightarrow> f x | Inr x \<Rightarrow> g x)"
  by (cases y) auto

lemma keeps_prod [keeps_intros]: "(\<And>a b. keeps P (f a b)) \<Longrightarrow> keeps P (case y of (a, b) \<Rightarrow> f a b)"
  by (cases y) auto

lemma keeps_let [keeps_intros]: "keeps P (f x) \<Longrightarrow> keeps P (let y = x in f y)"
  by simp

text \<open>
  \<open>no_panic m s\<close>: running \<open>m\<close> from \<open>s\<close> returns or fails, but does not panic. The rule for sequencing hands
  the second part the result of the first.
\<close>

definition no_panic :: "('s, 'e, 'a) act \<Rightarrow> 's \<Rightarrow> bool" where
  "no_panic m s \<longleftrightarrow> fst (m s) \<noteq> Panic"

named_theorems no_panic_intros \<open>compositional rules for the absence of panics\<close>

lemma no_panic_pure [no_panic_intros, simp]:
  "no_panic (ret x) s" "no_panic (raise e) s" "no_panic (gets g) s" "no_panic (modify h) s"
  "no_panic (ensure b e') s" "no_panic (of_option e'' y) s"
  by (auto simp: no_panic_def split: option.splits)

lemma no_panic_div [no_panic_intros]: "b \<noteq> 0 \<Longrightarrow> no_panic (div_or_panic a b) s"
  by (simp add: no_panic_def)

lemma no_panic_Pair: "no_panic (Pair r) s \<longleftrightarrow> r \<noteq> Panic"
  by (simp add: no_panic_def)

lemma no_panic_andthen [no_panic_intros]:
  assumes "no_panic m s" and "\<And>x s'. m s = (Ok x, s') \<Longrightarrow> no_panic (f x) s'"
  shows "no_panic (andthen m f) s"
proof -
  obtain r s' where r: "m s = (r, s')" by force
  with assms show ?thesis by (cases r) (auto simp: no_panic_def andthen_def)
qed

lemma no_panic_map_err [no_panic_intros]: "no_panic m s \<Longrightarrow> no_panic (map_err g m) s"
  by (auto simp: no_panic_def map_err_def split: outcome.splits prod.splits)

lemma no_panic_if [no_panic_intros]:
  "(b \<Longrightarrow> no_panic m s) \<Longrightarrow> (\<not> b \<Longrightarrow> no_panic n s) \<Longrightarrow> no_panic (if b then m else n) s"
  by simp

lemma no_panic_option [no_panic_intros]:
  "(y = None \<Longrightarrow> no_panic m s) \<Longrightarrow> (\<And>x. y = Some x \<Longrightarrow> no_panic (f x) s) \<Longrightarrow>
   no_panic (case y of None \<Rightarrow> m | Some x \<Rightarrow> f x) s"
  by (cases y) auto

lemma no_panic_sum [no_panic_intros]:
  "(\<And>x. y = Inl x \<Longrightarrow> no_panic (f x) s) \<Longrightarrow> (\<And>x. y = Inr x \<Longrightarrow> no_panic (g x) s) \<Longrightarrow>
   no_panic (case y of Inl x \<Rightarrow> f x | Inr x \<Rightarrow> g x) s"
  by (cases y) auto

lemma no_panic_prod [no_panic_intros]:
  "(\<And>a b. y = (a, b) \<Longrightarrow> no_panic (f a b) s) \<Longrightarrow> no_panic (case y of (a, b) \<Rightarrow> f a b) s"
  by (cases y) auto

subsection \<open>Serialisers\<close>

lemma codec_okD:
  assumes "codec_ok c"
  shows to_vec_ok: "to_vec c x = Inr (to_vec_or_default c x)"
    and from_slice_ok: "from_slice c (to_vec_or_default c x) = Inr x"
proof -
  obtain b where "to_vec c x = Inr b" "from_slice c b = Inr x"
    using assms by (auto simp: codec_ok_def)
  then show "to_vec c x = Inr (to_vec_or_default c x)"
    and "from_slice c (to_vec_or_default c x) = Inr x"
    by (simp_all add: to_vec_or_default_def)
qed

end
