(* ===== verification/Codecs.thy ===== *)
theory Codecs
  imports Prelude
begin

text \<open>
  A concrete family of byte serialisers. The programs never depend on it: the operations of the model
  take their serialisers as parameters, under the hypothesis \<open>codec_ok\<close>. This theory shows that the
  hypothesis can be met, type by type, so that the theorems that assume it can be applied at
  concrete inputs. A \<open>coder\<close> writes a value and reads it back from the front of a byte string; coders
  are built by combinators for numbers, words, characters, pairs, lists, sums and isomorphic types.
\<close>

record 'a coder =
  put_one :: "'a \<Rightarrow> bytes"
  get_one :: "bytes \<Rightarrow> ('a \<times> bytes) option"

definition coder_ok :: "'a coder \<Rightarrow> bool" where
  "coder_ok p \<longleftrightarrow> (\<forall>x r. get_one p (put_one p x @ r) = Some (x, r))"

definition codec_of :: "'a coder \<Rightarrow> 'a codec" where
  "codec_of p = \<lparr>to_vec = (\<lambda>x. Inr (put_one p x)),
     from_slice = (\<lambda>b. case get_one p b of
         Some (x, []) \<Rightarrow> Inr x
       | _ \<Rightarrow> Inl ''invalid input'')\<rparr>"

fun get_nat :: "bytes \<Rightarrow> (nat \<times> bytes) option" where
  "get_nat [] = None"
| "get_nat (b # bs) =
     (if b = 0 then Some (0, bs) else map_option (\<lambda>(n, r). (Suc n, r)) (get_nat bs))"

definition nat_coder :: "nat coder" where
  "nat_coder = \<lparr>put_one = (\<lambda>n. replicate n 1 @ [0]), get_one = get_nat\<rparr>"

definition iso_coder :: "('b \<Rightarrow> 'a) \<Rightarrow> ('a \<Rightarrow> 'b) \<Rightarrow> 'a coder \<Rightarrow> 'b coder" where
  "iso_coder f g p = \<lparr>put_one = (\<lambda>y. put_one p (f y)),
     get_one = (\<lambda>b. map_option (\<lambda>(x, r). (g x, r)) (get_one p b))\<rparr>"

definition pair_coder :: "'a coder \<Rightarrow> 'b coder \<Rightarrow> ('a \<times> 'b) coder" where
  "pair_coder p q = \<lparr>put_one = (\<lambda>(x, y). put_one p x @ put_one q y),
     get_one = (\<lambda>b. case get_one p b of
         None \<Rightarrow> None
       | Some (x, r) \<Rightarrow> map_option (\<lambda>(y, r'). ((x, y), r')) (get_one q r))\<rparr>"

fun get_many :: "'a coder \<Rightarrow> nat \<Rightarrow> bytes \<Rightarrow> ('a list \<times> bytes) option" where
  "get_many p 0 b = Some ([], b)"
| "get_many p (Suc n) b =
     (case get_one p b of
        None \<Rightarrow> None
      | Some (x, r) \<Rightarrow> map_option (\<lambda>(xs, r'). (x # xs, r')) (get_many p n r))"

definition list_coder :: "'a coder \<Rightarrow> 'a list coder" where
  "list_coder p = \<lparr>put_one = (\<lambda>xs. put_one nat_coder (length xs) @ concat (map (put_one p) xs)),
     get_one = (\<lambda>b. case get_nat b of None \<Rightarrow> None | Some (n, r) \<Rightarrow> get_many p n r)\<rparr>"

definition sum_coder :: "'a coder \<Rightarrow> 'b coder \<Rightarrow> ('a + 'b) coder" where
  "sum_coder p q = \<lparr>put_one = (\<lambda>z. case z of Inl x \<Rightarrow> 0 # put_one p x | Inr y \<Rightarrow> 1 # put_one q y),
     get_one = (\<lambda>b. case b of
         [] \<Rightarrow> None
       | t # r \<Rightarrow> if t = 0 then map_option (\<lambda>(x, r'). (Inl x, r')) (get_one p r)
                 else map_option (\<lambda>(y, r'). (Inr y, r')) (get_one q r))\<rparr>"

definition word_coder :: "'w::len word coder" where
  "word_coder = iso_coder unat of_nat nat_coder"

definition bool_coder :: "bool coder" where
  "bool_coder = iso_coder (\<lambda>b. if b then 1 else 0) (\<lambda>n. n = 1) nat_coder"

definition unit_coder :: "unit coder" where
  "unit_coder = iso_coder (\<lambda>_. 0) (\<lambda>_. ()) nat_coder"

definition char_coder :: "char coder" where
  "char_coder = iso_coder of_char char_of nat_coder"

definition string_coder :: "string coder" where
  "string_coder = list_coder char_coder"

definition bytes_coder :: "bytes coder" where
  "bytes_coder = list_coder word_coder"

definition option_coder :: "'a coder \<Rightarrow> 'a option coder" where
  "option_coder p = iso_coder (\<lambda>z. case z of None \<Rightarrow> Inl () | Some x \<Rightarrow> Inr x)
     (\<lambda>z. case z of Inl _ \<Rightarrow> None | Inr x \<Rightarrow> Some x) (sum_coder unit_coder p)"

section \<open>Every combinator keeps the round trip\<close>

named_theorems coder_intros \<open>round-trip rules of the coder combinators\<close>

lemma codec_of_ok: "codec_ok (codec_of p)" if "coder_ok p"
proof -
  have "get_one p (put_one p x) = Some (x, [])" for x
    using that by (metis append_Nil2 coder_ok_def)
  then show ?thesis by (simp add: codec_ok_def codec_of_def)
qed

lemma nat_coder_ok [coder_intros]: "coder_ok nat_coder"
proof -
  have "get_nat (replicate n 1 @ 0 # r) = Some (n, r)" for n r
    by (induction n) auto
  then show ?thesis by (simp add: coder_ok_def nat_coder_def)
qed

lemma iso_coder_ok [coder_intros]:
  "coder_ok p \<Longrightarrow> (\<And>y. g (f y) = y) \<Longrightarrow> coder_ok (iso_coder f g p)"
  by (simp add: coder_ok_def iso_coder_def)

lemma pair_coder_ok [coder_intros]: "coder_ok p \<Longrightarrow> coder_ok q \<Longrightarrow> coder_ok (pair_coder p q)"
  by (auto simp: coder_ok_def pair_coder_def)

lemma get_many_ok:
  assumes "coder_ok p"
  shows "get_many p (length xs) (concat (map (put_one p) xs) @ r) = Some (xs, r)"
  using assms by (induction xs) (auto simp: coder_ok_def)

lemma list_coder_ok [coder_intros]: "coder_ok p \<Longrightarrow> coder_ok (list_coder p)"
  using nat_coder_ok by (auto simp: coder_ok_def list_coder_def nat_coder_def get_many_ok
      [unfolded coder_ok_def])

lemma sum_coder_ok [coder_intros]: "coder_ok p \<Longrightarrow> coder_ok q \<Longrightarrow> coder_ok (sum_coder p q)"
  by (auto simp: coder_ok_def sum_coder_def split: sum.splits)

lemma word_coder_ok [coder_intros]: "coder_ok word_coder"
  unfolding word_coder_def by (intro coder_intros) simp

lemma bool_coder_ok [coder_intros]: "coder_ok bool_coder"
  unfolding bool_coder_def by (intro coder_intros) simp

lemma unit_coder_ok [coder_intros]: "coder_ok unit_coder"
  unfolding unit_coder_def by (intro coder_intros) simp

lemma char_coder_ok [coder_intros]: "coder_ok char_coder"
  unfolding char_coder_def by (intro coder_intros) simp

lemma string_coder_ok [coder_intros]: "coder_ok string_coder"
  unfolding string_coder_def by (intro coder_intros)

lemma bytes_coder_ok [coder_intros]: "coder_ok bytes_coder"
  unfolding bytes_coder_def by (intro coder_intros)

lemma option_coder_ok [coder_intros]: "coder_ok p \<Longrightarrow> coder_ok (option_coder p)"
  unfolding option_coder_def by (intro coder_intros) (auto split: option.splits)

definition fmap_coder :: "'k::linorder coder \<Rightarrow> 'v coder \<Rightarrow> ('k, 'v) fmap coder" where
  "fmap_coder p q = iso_coder sorted_list_of_fmap fmap_of_list (list_coder (pair_coder p q))"

lemma fmap_coder_ok [coder_intros]: "coder_ok p \<Longrightarrow> coder_ok q \<Longrightarrow> coder_ok (fmap_coder p q)"
  unfolding fmap_coder_def by (intro coder_intros) (simp_all add: fmap_ext fmlookup_of_list)

end
