(* ===== verification/Kernel_Crypto.thy ===== *)
theory Kernel_Crypto
  imports Codecs
begin

text \<open>
  \<open>kernel/src/crypto.rs\<close>: the 32-byte hash, its domain-separated commitment, the Merkle root of a
  list of leaves, membership proofs and their verification. BLAKE3 and the \<open>hex\<close> crate are not part
  of the repository: they are the fields of \<open>hash_ext\<close>, and \<open>hash_ext_ok\<close> states what the code relies
  on (a 32-byte digest; hexadecimal text that decodes to what was encoded). Soundness statements
  about hashing are reductions: either the claim holds, or two different strings with one digest are among the strings that the two
  computations compared in the statement feed to BLAKE3, at the same position (\<open>collides\<close>). That some collision exists is no
  content, since the hash maps all strings to 32 bytes.
\<close>

section \<open>Parameters\<close>

record hash_ext =
  blake3 :: "bytes \<Rightarrow> bytes"
  hex_encode :: "bytes \<Rightarrow> string"
  hex_decode :: "string \<Rightarrow> bytes option"

definition hex_digits :: "char set" where
  "hex_digits = set ''0123456789abcdef''"

definition hash_ext_ok :: "'x hash_ext_scheme \<Rightarrow> bool" where
  "hash_ext_ok X \<longleftrightarrow>
     (\<forall>b. length (blake3 X b) = 32) \<and>
     (\<forall>b. set (hex_encode X b) \<subseteq> hex_digits) \<and>
     (\<forall>b. hex_decode X (hex_encode X b) = Some b)"

definition collides :: "'x hash_ext_scheme \<Rightarrow> bytes list \<Rightarrow> bytes list \<Rightarrow> bool" where
  "collides X xs ys \<longleftrightarrow> list_ex (\<lambda>(a, b). a \<noteq> b \<and> blake3 X a = blake3 X b) (zip xs ys)"

section \<open>Hash\<close>

datatype hash = Hash (hash_bytes: bytes)

definition wf_hash :: "hash \<Rightarrow> bool" where
  "wf_hash h \<longleftrightarrow> length (hash_bytes h) = 32"

definition ZERO :: hash where
  "ZERO = Hash (replicate 32 0)"

definition digest :: "'x hash_ext_scheme \<Rightarrow> bytes \<Rightarrow> hash" where
  "digest X b = Hash (blake3 X b)"

definition combine :: "'x hash_ext_scheme \<Rightarrow> hash \<Rightarrow> hash \<Rightarrow> hash" where
  "combine X l r = Hash (blake3 X (hash_bytes l @ hash_bytes r))"

definition commit_preimage :: "string \<Rightarrow> bytes list \<Rightarrow> bytes" where
  "commit_preimage domain parts =
     as_bytes domain @ [255] @ concat (map (\<lambda>p. u64_to_le_bytes (of_nat (length p)) @ p) parts)"

definition commit :: "'x hash_ext_scheme \<Rightarrow> string \<Rightarrow> bytes list \<Rightarrow> hash" where
  "commit X domain parts = Hash (blake3 X (commit_preimage domain parts))"

definition to_hex :: "'x hash_ext_scheme \<Rightarrow> hash \<Rightarrow> string" where
  "to_hex X h = ''0x'' @ hex_encode X (hash_bytes h)"

text \<open>\<open>trim_start_matches("0x")\<close> removes the prefix as often as it occurs.\<close>

fun trim_start_0x :: "string \<Rightarrow> string" where
  "trim_start_0x (a # b # s) = (if a = CHR ''0'' \<and> b = CHR ''x'' then trim_start_0x s else a # b # s)"
| "trim_start_0x s = s"

definition from_hex :: "'x hash_ext_scheme \<Rightarrow> string \<Rightarrow> hash option" where
  "from_hex X s =
     (case hex_decode X (trim_start_0x s) of
        None \<Rightarrow> None
      | Some b \<Rightarrow> if length b \<noteq> 32 then None else Some (Hash b))"

section \<open>Merkle trees\<close>

fun merkle_level :: "'x hash_ext_scheme \<Rightarrow> hash list \<Rightarrow> hash list" where
  "merkle_level X [] = []"
| "merkle_level X [a] = [combine X a a]"
| "merkle_level X (a # b # rest) = combine X a b # merkle_level X rest"

lemma length_merkle_level: "length (merkle_level X xs) = (length xs + 1) div 2"
  by (induction X xs rule: merkle_level.induct) auto

function merkle_loop :: "'x hash_ext_scheme \<Rightarrow> hash list \<Rightarrow> hash list" where
  "merkle_loop X level = (if 1 < length level then merkle_loop X (merkle_level X level) else level)"
  by pat_completeness auto
termination
  by (relation "measure (\<lambda>(X, level). length level)") (auto simp: length_merkle_level)

declare merkle_loop.simps [simp del]

definition merkle_root :: "'x hash_ext_scheme \<Rightarrow> hash list \<Rightarrow> hash" where
  "merkle_root X leaves = (if leaves = [] then ZERO else hd (merkle_loop X leaves))"

record merkle_step =
  sibling :: hash
  sibling_on_right :: bool

definition proof_step :: "hash list \<Rightarrow> nat \<Rightarrow> merkle_step" where
  "proof_step level idx =
     (let sibling_idx = (if idx mod 2 = 0 then idx + 1 else idx - 1)
      in \<lparr>sibling = (if sibling_idx < length level then level ! sibling_idx else level ! idx),
          sibling_on_right = (idx mod 2 = 0)\<rparr>)"

function proof_loop :: "'x hash_ext_scheme \<Rightarrow> hash list \<Rightarrow> nat \<Rightarrow> merkle_step list" where
  "proof_loop X level idx =
     (if 1 < length level
      then proof_step level idx # proof_loop X (merkle_level X level) (idx div 2)
      else [])"
  by pat_completeness auto
termination
  by (relation "measure (\<lambda>(X, level, idx). length level)") (auto simp: length_merkle_level)

declare proof_loop.simps [simp del]

definition merkle_proof :: "'x hash_ext_scheme \<Rightarrow> hash list \<Rightarrow> nat \<Rightarrow> merkle_step list" where
  "merkle_proof X leaves index =
     (if length leaves \<le> index then [] else proof_loop X leaves index)"

fun walk :: "'x hash_ext_scheme \<Rightarrow> hash \<Rightarrow> merkle_step list \<Rightarrow> hash" where
  "walk X acc [] = acc"
| "walk X acc (st # rest) =
     walk X (if sibling_on_right st then combine X acc (sibling st) else combine X (sibling st) acc) rest"

definition verify_merkle_proof :: "'x hash_ext_scheme \<Rightarrow> hash \<Rightarrow> merkle_step list \<Rightarrow> hash \<Rightarrow> bool" where
  "verify_merkle_proof X leaf prf root \<longleftrightarrow> walk X leaf prf = root"

text \<open>The strings that \<open>walk\<close> hashes, from the leaf to the root\<close>

fun walk_inputs :: "'x hash_ext_scheme \<Rightarrow> hash \<Rightarrow> merkle_step list \<Rightarrow> bytes list" where
  "walk_inputs X acc [] = []"
| "walk_inputs X acc (st # rest) =
     (let input = (if sibling_on_right st then hash_bytes acc @ hash_bytes (sibling st) else hash_bytes (sibling st) @ hash_bytes acc)
      in input # walk_inputs X (Hash (blake3 X input)) rest)"

lemma collides_simps [simp]:
  "\<not> collides X [] ys" "collides X (a # xs) (b # ys) \<longleftrightarrow> a \<noteq> b \<and> blake3 X a = blake3 X b \<or> collides X xs ys"
  by (simp_all add: collides_def)

lemma not_collides_self [simp]: "\<not> collides X xs xs"
  by (induction xs) auto

lemma collides_append: "length xs = length ys \<Longrightarrow> collides X (xs @ us) (ys @ vs) \<longleftrightarrow> collides X xs ys \<or> collides X us vs"
  by (simp add: collides_def)

section \<open>Lemmas on hashes\<close>

lemma wf_hash_results [simp]:
  assumes "hash_ext_ok X"
  shows "wf_hash (combine X l r)" "wf_hash (commit X d ps)" "wf_hash (digest X b)"
  using assms by (simp_all add: wf_hash_def hash_ext_ok_def combine_def commit_def digest_def)

lemma wf_ZERO [simp]: "wf_hash ZERO"
  by (simp add: wf_hash_def ZERO_def)

lemma trim_start_0x_hex: "CHR ''x'' \<notin> set s \<Longrightarrow> trim_start_0x s = s"
  by (cases s rule: trim_start_0x.cases) auto

lemma hex_encode_no_x:
  assumes "hash_ext_ok X"
  shows "CHR ''x'' \<notin> set (hex_encode X b)" "CHR ''/'' \<notin> set (hex_encode X b)"
  using assms by (auto simp: hash_ext_ok_def hex_digits_def subset_iff)

lemma to_hex_no_slash: "hash_ext_ok X \<Longrightarrow> CHR ''/'' \<notin> set (to_hex X h)"
  by (simp add: to_hex_def hex_encode_no_x)

lemma to_hex_inj: "hash_ext_ok X \<Longrightarrow> to_hex X h = to_hex X h' \<longleftrightarrow> h = h'"
  by (metis append_same_eq hash.expand hash_ext_ok_def option.inject same_append_eq to_hex_def)

lemma split_at_marker:
  assumes "a @ x # b = a' @ x # b'" and "x \<notin> set a" and "x \<notin> set a'"
  shows "a = a' \<and> b = b'"
  using assms
proof (induction a arbitrary: a')
  case Nil
  then show ?case by (cases a') auto
next
  case (Cons y a)
  then show ?case by (cases a') auto
qed

lemma hex_slash_split:
  assumes "hash_ext_ok X"
  shows "to_hex X i @ ''/'' @ a = to_hex X j @ ''/'' @ b \<longleftrightarrow> i = j \<and> a = b"
proof
  assume "to_hex X i @ ''/'' @ a = to_hex X j @ ''/'' @ b"
  then have "to_hex X i = to_hex X j \<and> a = b"
    using split_at_marker [of "to_hex X i" "CHR ''/''" a "to_hex X j" b] to_hex_no_slash [OF assms]
    by simp
  then show "i = j \<and> a = b" by (simp add: to_hex_inj [OF assms])
qed simp

lemma commit_parts_inj:
  assumes "concat (map (\<lambda>p. u64_to_le_bytes (of_nat (length p)) @ p) ps) =
           concat (map (\<lambda>p. u64_to_le_bytes (of_nat (length p)) @ p) qs)"
    and "\<forall>p \<in> set ps. length p < 2 ^ 64" and "\<forall>q \<in> set qs. length q < 2 ^ 64"
  shows "ps = qs"
  using assms
proof (induction ps arbitrary: qs)
  case Nil
  then show ?case
    by (cases qs) (auto dest: arg_cong [where f = length])
next
  case (Cons p ps)
  from Cons.prems(1) have "qs \<noteq> []"
    by (auto dest: arg_cong [where f = length])
  then obtain q qs' where qs: "qs = q # qs'"
    by (cases qs) auto
  let ?len = "\<lambda>p. u64_to_le_bytes (of_nat (length p))"
  from Cons.prems(1) qs have eq: "?len p @ (p @ concat (map (\<lambda>p. ?len p @ p) ps)) =
      ?len q @ (q @ concat (map (\<lambda>p. ?len p @ p) qs'))"
    by simp
  then have "(of_nat (length p) :: u64) = of_nat (length q)"
    and rest: "p @ concat (map (\<lambda>p. ?len p @ p) ps) = q @ concat (map (\<lambda>p. ?len p @ p) qs')"
    by (auto simp: append_eq_append_conv)
  moreover have "length p < 2 ^ 64" "length q < 2 ^ 64"
    using Cons.prems(2,3) qs by auto
  ultimately have "length p = length q"
    by (simp add: word_of_nat_eq_iff take_bit_nat_eq_self)
  with rest have "p = q" and "concat (map (\<lambda>p. ?len p @ p) ps) = concat (map (\<lambda>p. ?len p @ p) qs')"
    by (auto simp: append_eq_append_conv)
  then show ?case
    using Cons.IH [of qs'] Cons.prems(2,3) qs by auto
qed

lemma commit_preimage_inj:
  assumes "commit_preimage d ps = commit_preimage e qs"
    and "utf8_free_ff d" and "utf8_free_ff e"
    and "\<forall>p \<in> set ps. length p < 2 ^ 64" and "\<forall>q \<in> set qs. length q < 2 ^ 64"
  shows "d = e \<and> ps = qs"
proof -
  have "as_bytes d = as_bytes e" and
    parts: "concat (map (\<lambda>p. u64_to_le_bytes (of_nat (length p)) @ p) ps) =
      concat (map (\<lambda>p. u64_to_le_bytes (of_nat (length p)) @ p) qs)"
    using split_at_marker [of "as_bytes d" 255 _ "as_bytes e"] assms(1-3)
    by (auto simp: commit_preimage_def utf8_free_ff_def)
  then show ?thesis
    using commit_parts_inj [OF parts assms(4,5)] by simp
qed

section \<open>Lemmas on Merkle trees\<close>

lemma merkle_loop_small [simp]: "length xs \<le> 1 \<Longrightarrow> merkle_loop X xs = xs"
  by (simp add: merkle_loop.simps [of X xs])

lemma proof_loop_small [simp]: "length xs \<le> 1 \<Longrightarrow> proof_loop X xs i = []"
  by (simp add: proof_loop.simps [of X xs i])

lemma merkle_loop_step: "1 < length xs \<Longrightarrow> merkle_loop X xs = merkle_loop X (merkle_level X xs)"
  by (simp add: merkle_loop.simps [of X xs])

lemma merkle_level_eq_Nil [simp]: "merkle_level X xs = [] \<longleftrightarrow> xs = []"
  by (cases "(X, xs)" rule: merkle_level.cases) auto

lemma merkle_loop_singleton:
  assumes "xs \<noteq> []"
  shows "length (merkle_loop X xs) = 1"
  using assms
proof (induction X xs rule: merkle_loop.induct)
  case (1 X level)
  show ?case
  proof (cases "1 < length level")
    case True
    with "1" show ?thesis by (simp add: merkle_loop_step)
  next
    case False
    with "1.prems" show ?thesis by (simp add: le_Suc_eq not_less)
  qed
qed

lemma merkle_level_nth:
  "i < length xs \<Longrightarrow>
   merkle_level X xs ! (i div 2) =
     (if i mod 2 = 0
      then combine X (xs ! i) (if i + 1 < length xs then xs ! (i + 1) else xs ! i)
      else combine X (xs ! (i - 1)) (xs ! i))"
proof (induction X xs arbitrary: i rule: merkle_level.induct)
  case (3 X a b rest)
  show ?case
  proof (cases "i < 2")
    case True
    then show ?thesis by (cases i) (auto simp: less_2_cases_iff)
  next
    case False
    then obtain j where i: "i = Suc (Suc j)"
      by (metis add_2_eq_Suc le_add_diff_inverse not_less)
    moreover have "j < length rest" using "3.prems" i by simp
    ultimately show ?thesis
      using "3.IH" [of j] by (cases j) auto
  qed
qed auto

lemma walk_proof_loop:
  "i < length xs \<Longrightarrow> walk X (xs ! i) (proof_loop X xs i) = hd (merkle_loop X xs)"
proof (induction X xs i rule: proof_loop.induct)
  case (1 X level idx)
  show ?case
  proof (cases "1 < length level")
    case True
    have lt: "idx div 2 < length (merkle_level X level)"
      using "1.prems" by (simp add: length_merkle_level)
    have "walk X (level ! idx) (proof_step level idx # proof_loop X (merkle_level X level) (idx div 2)) =
        walk X (merkle_level X level ! (idx div 2)) (proof_loop X (merkle_level X level) (idx div 2))"
      using "1.prems" by (auto simp: merkle_level_nth proof_step_def Let_def)
    then show ?thesis
      using True "1.IH" [OF True lt]
      by (simp add: proof_loop.simps [of X level idx] merkle_loop_step)
  next
    case False
    with "1.prems" show ?thesis
      by (cases level) auto
  qed
qed

lemma combine_inj_or_collision:
  assumes "combine X a b = combine X c d" and "wf_hash a" and "wf_hash c"
  shows "(a = c \<and> b = d) \<or>
    (hash_bytes a @ hash_bytes b \<noteq> hash_bytes c @ hash_bytes d \<and> blake3 X (hash_bytes a @ hash_bytes b) = blake3 X (hash_bytes c @ hash_bytes d))"
proof (cases "hash_bytes a @ hash_bytes b = hash_bytes c @ hash_bytes d")
  case True
  with assms(2,3) have "hash_bytes a = hash_bytes c \<and> hash_bytes b = hash_bytes d"
    by (simp add: wf_hash_def append_eq_append_conv)
  then show ?thesis by (simp add: hash.expand)
next
  case False
  with assms(1) show ?thesis
    by (auto simp: combine_def)
qed

lemma walk_inj_or_collision:
  assumes "hash_ext_ok X" and "walk X a ps = walk X b qs"
    and "map sibling_on_right ps = map sibling_on_right qs"
    and "wf_hash a" and "wf_hash b"
    and "\<forall>p \<in> set ps. wf_hash (sibling p)" and "\<forall>q \<in> set qs. wf_hash (sibling q)"
  shows "(a = b \<and> ps = qs) \<or> collides X (walk_inputs X a ps) (walk_inputs X b qs)"
proof -
  have "length ps = length qs"
    using assms(3) by (rule map_eq_imp_length_eq)
  then show ?thesis
    using assms(2-)
  proof (induction ps qs arbitrary: a b rule: list_induct2)
    case Nil
    then show ?case by simp
  next
    case (Cons p ps q qs)
    let ?up = "\<lambda>acc st. if sibling_on_right st then combine X acc (sibling st)
                         else combine X (sibling st) acc"
    have up: "walk_inputs X acc (st # rest) = (if sibling_on_right st then hash_bytes acc @ hash_bytes (sibling st)
        else hash_bytes (sibling st) @ hash_bytes acc) # walk_inputs X (?up acc st) rest" for acc st rest
      by (simp add: combine_def Let_def)
    have "(?up a p = ?up b q \<and> ps = qs) \<or> collides X (walk_inputs X (?up a p) ps) (walk_inputs X (?up b q) qs)"
      using Cons.prems \<open>hash_ext_ok X\<close> by (intro Cons.IH) (auto simp: wf_hash_results)
    moreover have "(a = b \<and> sibling p = sibling q) \<or> collides X (walk_inputs X a (p # ps)) (walk_inputs X b (q # qs))" if "?up a p = ?up b q"
      using Cons.prems combine_inj_or_collision [of X a "sibling p" b "sibling q"] combine_inj_or_collision [of X "sibling p" a "sibling q" b] that
      unfolding up by (cases "sibling_on_right p") auto
    ultimately show ?case
      using Cons.prems(2) unfolding up by auto
  qed
qed

lemma merkle_level_wf:
  assumes "hash_ext_ok X"
  shows "\<forall>h \<in> set (merkle_level X xs). wf_hash h"
  using assms by (induction X xs rule: merkle_level.induct) auto

lemma merkle_level_snoc_dup:
  "even (length xs) \<Longrightarrow> merkle_level X (xs @ [x]) = merkle_level X (xs @ [x, x])"
  by (induction X xs rule: merkle_level.induct) auto

lemma proof_loop_wf:
  assumes "hash_ext_ok X" and "\<forall>h \<in> set xs. wf_hash h" and "i < length xs"
  shows "\<forall>p \<in> set (proof_loop X xs i). wf_hash (sibling p)"
  using assms
proof (induction X xs i rule: proof_loop.induct)
  case (1 X level idx)
  show ?case
  proof (cases "1 < length level")
    case True
    have "wf_hash (sibling (proof_step level idx))"
      using "1.prems" by (auto simp: proof_step_def Let_def)
    moreover have "\<forall>p \<in> set (proof_loop X (merkle_level X level) (idx div 2)). wf_hash (sibling p)"
      using "1.prems" by (intro "1.IH" [OF True] merkle_level_wf) (auto simp: length_merkle_level)
    ultimately show ?thesis
      by (auto simp: proof_loop.simps [of X level idx])
  qed simp
qed

lemma proof_binding:
  assumes "hash_ext_ok X" and "i < length leaves" and "\<forall>h \<in> set leaves. wf_hash h"
    and "wf_hash leaf" and "\<forall>p \<in> set prf. wf_hash (sibling p)"
    and "map sibling_on_right prf = map sibling_on_right (merkle_proof X leaves i)"
    and "verify_merkle_proof X leaf prf (merkle_root X leaves)"
  shows "(leaf = leaves ! i \<and> prf = merkle_proof X leaves i) \<or>
    collides X (walk_inputs X leaf prf) (walk_inputs X (leaves ! i) (merkle_proof X leaves i))"
proof -
  have "leaves \<noteq> []" using assms(2) by auto
  then have "walk X leaf prf = walk X (leaves ! i) (proof_loop X leaves i)"
    using assms(2,7) by (simp add: verify_merkle_proof_def merkle_root_def walk_proof_loop)
  moreover have "merkle_proof X leaves i = proof_loop X leaves i" using assms(2) by (simp add: merkle_proof_def)
  ultimately show ?thesis
    using assms proof_loop_wf [OF assms(1,3,2)] by (intro walk_inj_or_collision) auto
qed

section \<open>A concrete instance of the parameters\<close>

definition hex_char :: "nat \<Rightarrow> char" where
  "hex_char n = ''0123456789abcdef'' ! n"

definition hex_value :: "char \<Rightarrow> nat option" where
  "hex_value c = find (\<lambda>n. hex_char n = c) [0..<16]"

definition ref_hex_encode :: "bytes \<Rightarrow> string" where
  "ref_hex_encode b = concat (map (\<lambda>w. [hex_char (unat w div 16), hex_char (unat w mod 16)]) b)"

fun ref_hex_decode :: "string \<Rightarrow> bytes option" where
  "ref_hex_decode [] = Some []"
| "ref_hex_decode [c] = None"
| "ref_hex_decode (c # d # s) =
     (case (hex_value c, hex_value d) of
        (Some m, Some n) \<Rightarrow> map_option (\<lambda>b. of_nat (16 * m + n) # b) (ref_hex_decode s)
      | _ \<Rightarrow> None)"

definition ref_hash_ext :: hash_ext where
  "ref_hash_ext = \<lparr>blake3 = (\<lambda>b. take 32 (b @ replicate 32 0)),
     hex_encode = ref_hex_encode, hex_decode = ref_hex_decode\<rparr>"

lemma hex_value_char: "n < 16 \<Longrightarrow> hex_value (hex_char n) = Some n"
proof -
  have "\<forall>n \<in> set [0..<16]. hex_value (hex_char n) = Some n"
    by (simp add: hex_value_def hex_char_def upt_rec)
  then show "n < 16 \<Longrightarrow> hex_value (hex_char n) = Some n" by simp
qed

lemma hex_char_digit: "n < 16 \<Longrightarrow> hex_char n \<in> hex_digits"
  unfolding hex_char_def hex_digits_def by (rule nth_mem) simp

lemma ref_hex_roundtrip: "ref_hex_decode (ref_hex_encode b) = Some b"
proof (induction b)
  case Nil
  show ?case by (simp add: ref_hex_encode_def)
next
  case (Cons w b)
  have "unat w < 256"
    using unsigned_less [where 'a = nat and w = w] by simp
  then have "unat w div 16 < 16" by auto
  with Cons show ?case
    by (simp add: ref_hex_encode_def hex_value_char)
qed

lemma ref_hash_ext_ok: "hash_ext_ok ref_hash_ext"
proof -
  have "unat (w :: u8) div 16 < 16" for w
    using unsigned_less [where 'a = nat and w = w] by auto
  then have "set (ref_hex_encode b) \<subseteq> hex_digits" for b
    by (auto simp: ref_hex_encode_def hex_char_digit)
  then show ?thesis
    by (auto simp: hash_ext_ok_def ref_hash_ext_def ref_hex_roundtrip min_def)
qed

section \<open>Properties\<close>

text \<open>
  C12. Completeness of membership proofs. For every list of leaves and every position in it, the
  proof that \<open>merkle_proof\<close> builds is accepted by \<open>verify_merkle_proof\<close> against the root that
  \<open>merkle_root\<close> computes, odd levels included. Nothing is assumed of the hash function.
\<close>

theorem merkle_proof_complete:
  assumes "i < length leaves"
  shows "verify_merkle_proof X (leaves ! i) (merkle_proof X leaves i) (merkle_root X leaves)"
proof -
  have "leaves \<noteq> []" using assms by auto
  then show ?thesis
    using assms walk_proof_loop [OF assms, of X]
    by (simp add: verify_merkle_proof_def merkle_proof_def merkle_root_def)
qed

theorem merkle_proof_complete_witness:
  "verify_merkle_proof ref_hash_ext ([ZERO, Hash [1], ZERO] ! 2)
     (merkle_proof ref_hash_ext [ZERO, Hash [1], ZERO] 2)
     (merkle_root ref_hash_ext [ZERO, Hash [1], ZERO])"
  by (rule merkle_proof_complete) simp

text \<open>
  C13. Soundness of membership proofs. Whoever presents a leaf and a proof that has the shape of the
  honest proof for position \<open>i\<close> (the same sides) and that verifies against the root either presents
  exactly the leaf at \<open>i\<close> with the honest siblings, or shows a BLAKE3 collision: at some level, the string that
  the presented proof hashes and the string that the honest proof hashes differ and have the same digest.
\<close>

theorem merkle_proof_binding:
  assumes "hash_ext_ok X" and "i < length leaves" and "\<forall>h \<in> set leaves. wf_hash h"
    and "wf_hash leaf" and "\<forall>p \<in> set prf. wf_hash (sibling p)"
    and "map sibling_on_right prf = map sibling_on_right (merkle_proof X leaves i)"
    and "verify_merkle_proof X leaf prf (merkle_root X leaves)"
  shows "(leaf = leaves ! i \<and> prf = merkle_proof X leaves i) \<or>
    collides X (walk_inputs X leaf prf) (walk_inputs X (leaves ! i) (merkle_proof X leaves i))"
  using assms by (rule proof_binding)

text \<open>With the concrete instance, a forged sibling for a tree of two leaves is a collision in the string hashed at the root.\<close>

definition forged_leaves :: "hash list" where
  "forged_leaves = [ZERO, Hash (replicate 32 1)]"

theorem merkle_proof_binding_witness:
  "collides ref_hash_ext (walk_inputs ref_hash_ext ZERO [\<lparr>sibling = Hash (replicate 32 2), sibling_on_right = True\<rparr>])
     (walk_inputs ref_hash_ext (forged_leaves ! 0) (merkle_proof ref_hash_ext forged_leaves 0))"
proof -
  let ?pr = "[\<lparr>sibling = Hash (replicate 32 2), sibling_on_right = True\<rparr>]"
  have h: "merkle_proof ref_hash_ext forged_leaves 0 = [\<lparr>sibling = Hash (replicate 32 1), sibling_on_right = True\<rparr>]"
    by code_simp
  have "verify_merkle_proof ref_hash_ext ZERO ?pr (merkle_root ref_hash_ext forged_leaves)" by code_simp
  then have "(ZERO = forged_leaves ! 0 \<and> ?pr = merkle_proof ref_hash_ext forged_leaves 0) \<or>
      collides ref_hash_ext (walk_inputs ref_hash_ext ZERO ?pr) (walk_inputs ref_hash_ext (forged_leaves ! 0) (merkle_proof ref_hash_ext forged_leaves 0))"
    by (intro merkle_proof_binding [OF ref_hash_ext_ok]) (simp_all add: h, simp_all add: forged_leaves_def wf_hash_def ZERO_def)
  moreover have "?pr \<noteq> merkle_proof ref_hash_ext forged_leaves 0" by (simp add: h)
  ultimately show ?thesis by blast
qed

text \<open>
  The byte string that \<open>Hash::commit\<close> feeds to the hash function determines its arguments: two
  commitments with equal pre-images have the same domain (a UTF-8 string, so free of the separator
  byte) and the same list of parts. The length prefix of each part is what makes this true.
\<close>

theorem commit_preimage_injective:
  assumes "commit_preimage d ps = commit_preimage e qs"
    and "utf8_free_ff d" and "utf8_free_ff e"
    and "\<forall>p \<in> set ps. length p < 2 ^ 64" and "\<forall>q \<in> set qs. length q < 2 ^ 64"
  shows "d = e \<and> ps = qs"
  using assms by (rule commit_preimage_inj)

theorem commit_preimage_injective_witness:
  "''kv'' = ''kv'' \<and> [[1], [2, 3]] = [[1 :: u8], [2, 3]]"
  by (rule commit_preimage_injective) (simp_all add: utf8_free_ff_def)

text \<open>
  The Merkle root does not determine the number of leaves. Whenever the list has odd length
  greater than one, repeating its last leaf gives a longer list with the same root, because an
  unpaired node is combined with itself. The command root of a block is such a root.
\<close>

theorem merkle_root_duplicate_last:
  assumes "even (length xs)" and "xs \<noteq> []"
  shows "merkle_root X (xs @ [x]) = merkle_root X (xs @ [x, x])"
proof -
  have "1 < length (xs @ [x])" and "1 < length (xs @ [x, x])"
    using assms(2) by (simp_all add: Suc_lessI)
  then show ?thesis
    using merkle_level_snoc_dup [OF assms(1), of X x]
    by (simp add: merkle_root_def merkle_loop_step)
qed

theorem merkle_root_duplicate_last_witness:
  "merkle_root ref_hash_ext ([ZERO, Hash [1]] @ [Hash [2]]) =
   merkle_root ref_hash_ext ([ZERO, Hash [1]] @ [Hash [2], Hash [2]])"
  by (rule merkle_root_duplicate_last) simp_all

text \<open>
  Hexadecimal text of a hash reads back as the hash, for every well-formed (32-byte) value.
\<close>

theorem hash_hex_roundtrip:
  assumes "hash_ext_ok X" and "wf_hash h"
  shows "from_hex X (to_hex X h) = Some h"
proof -
  have "trim_start_0x (to_hex X h) = hex_encode X (hash_bytes h)"
    using hex_encode_no_x(1) [OF assms(1)] by (simp add: to_hex_def trim_start_0x_hex)
  then show ?thesis
    using assms by (simp add: from_hex_def hash_ext_ok_def wf_hash_def)
qed

theorem hash_hex_roundtrip_witness:
  "from_hex ref_hash_ext (to_hex ref_hash_ext ZERO) = Some ZERO"
  by (rule hash_hex_roundtrip) (simp_all add: ref_hash_ext_ok)

end
