(* ===== verification/Kernel_Types.thy ===== *)
theory Kernel_Types
  imports Kernel_Crypto
begin

text \<open>
  \<open>kernel/src/types.rs\<close>: parties, visibility, commands, events and blocks, their content identifiers
  and the byte strings that are signed.
\<close>

section \<open>Data\<close>

datatype party_id = PartyId (party_name: string)

instantiation party_id :: linorder
begin

definition less_eq_party_id :: "party_id \<Rightarrow> party_id \<Rightarrow> bool" where
  "less_eq_party_id a b \<longleftrightarrow> party_name a \<le> party_name b"

definition less_party_id :: "party_id \<Rightarrow> party_id \<Rightarrow> bool" where
  "less_party_id a b \<longleftrightarrow> party_name a < party_name b"

instance
  by standard (auto simp: less_eq_party_id_def less_party_id_def party_id.expand)

end

datatype visibility = Public | Parties "party_id list"

record command =
  cmd_prism :: string
  cmd_submitter :: party_id
  cmd_visibility :: visibility
  cmd_payload :: bytes
  cmd_nonce :: u64

record signed_command =
  sc_command :: command
  sc_public_key :: bytes
  sc_signature :: bytes
  sc_chain_id :: u64

record event =
  ev_source_command :: hash
  ev_prism :: string
  ev_visibility :: visibility
  ev_payload :: bytes

record block =
  blk_height :: u64
  blk_parent :: hash
  blk_events_root :: hash
  blk_state_root :: hash
  blk_timestamp :: u64
  blk_proposer :: party_id
  blk_events :: "event list"
  blk_commands :: "command list"

section \<open>Parameters\<close>

text \<open>
  The serialisers the kernel itself uses. JSON text is UTF-8, so the text of a visibility never holds
  the separator byte \<open>0xff\<close>.
\<close>

record kernel_ext = hash_ext +
  js_string :: "string codec"
  js_visibility :: "visibility codec"

definition kernel_ext_ok :: "'x kernel_ext_scheme \<Rightarrow> bool" where
  "kernel_ext_ok X \<longleftrightarrow> hash_ext_ok X \<and> codec_ok (js_string X) \<and> codec_ok (js_visibility X)"

section \<open>Operations\<close>

definition id_hash :: "'x kernel_ext_scheme \<Rightarrow> party_id \<Rightarrow> hash" where
  "id_hash X p = commit X ''party'' [as_bytes (party_name p)]"

definition vis_includes :: "visibility \<Rightarrow> party_id \<Rightarrow> bool" where
  "vis_includes v party = (case v of Public \<Rightarrow> True | Parties ps \<Rightarrow> party \<in> set ps)"

definition stakeholders :: "visibility \<Rightarrow> party_id list" where
  "stakeholders v = (case v of Public \<Rightarrow> [] | Parties ps \<Rightarrow> ps)"

definition command_id :: "'x kernel_ext_scheme \<Rightarrow> command \<Rightarrow> hash" where
  "command_id X c = commit X ''command''
     [as_bytes (cmd_prism c), as_bytes (party_name (cmd_submitter c)),
      u64_to_le_bytes (cmd_nonce c), cmd_payload c]"

definition signing_bytes :: "'x kernel_ext_scheme \<Rightarrow> command \<Rightarrow> bytes" where
  "signing_bytes X c =
     as_bytes ''veilux/command/v1'' @ [255] @
     as_bytes (cmd_prism c) @ [255] @
     as_bytes (party_name (cmd_submitter c)) @ [255] @
     u64_to_le_bytes (cmd_nonce c) @
     to_vec_or_default (js_visibility X) (cmd_visibility c) @ [255] @
     cmd_payload c"

definition signing_bytes_for_chain :: "'x kernel_ext_scheme \<Rightarrow> command \<Rightarrow> u64 \<Rightarrow> bytes" where
  "signing_bytes_for_chain X c chain_id =
     signing_bytes X c @
     (if chain_id \<noteq> 0 then [255] @ as_bytes ''chain'' @ u64_to_le_bytes chain_id else [])"

definition event_id :: "'x kernel_ext_scheme \<Rightarrow> event \<Rightarrow> hash" where
  "event_id X e = commit X ''event''
     [hash_bytes (ev_source_command e), as_bytes (ev_prism e),
      to_vec_or_default (js_visibility X) (ev_visibility e), ev_payload e]"

definition commitment :: "'x kernel_ext_scheme \<Rightarrow> event \<Rightarrow> hash" where
  "commitment X e = event_id X e"

definition commands_root :: "'x kernel_ext_scheme \<Rightarrow> block \<Rightarrow> hash" where
  "commands_root X b = merkle_root X (map (command_id X) (blk_commands b))"

definition compute_events_root :: "'x kernel_ext_scheme \<Rightarrow> block \<Rightarrow> hash" where
  "compute_events_root X b = merkle_root X (map (commitment X) (blk_events b))"

definition block_hash :: "'x kernel_ext_scheme \<Rightarrow> block \<Rightarrow> hash" where
  "block_hash X b = commit X ''block''
     [u64_to_le_bytes (blk_height b), hash_bytes (blk_parent b), hash_bytes (blk_events_root b),
      hash_bytes (blk_state_root b), hash_bytes (commands_root X b),
      u64_to_le_bytes (blk_timestamp b), as_bytes (party_name (blk_proposer b))]"

definition genesis :: "party_id \<Rightarrow> u64 \<Rightarrow> block" where
  "genesis proposer timestamp = \<lparr>blk_height = 0, blk_parent = ZERO, blk_events_root = ZERO,
     blk_state_root = ZERO, blk_timestamp = timestamp, blk_proposer = proposer,
     blk_events = [], blk_commands = []\<rparr>"

definition deterministic_genesis :: block where
  "deterministic_genesis = \<lparr>blk_height = 0, blk_parent = ZERO, blk_events_root = ZERO,
     blk_state_root = ZERO, blk_timestamp = 0, blk_proposer = PartyId ''genesis'',
     blk_events = [], blk_commands = []\<rparr>"

section \<open>A concrete instance of the parameters\<close>

definition visibility_coder :: "visibility coder" where
  "visibility_coder = iso_coder
     (\<lambda>v. case v of Public \<Rightarrow> Inl () | Parties ps \<Rightarrow> Inr (map party_name ps))
     (\<lambda>z. case z of Inl _ \<Rightarrow> Public | Inr ns \<Rightarrow> Parties (map PartyId ns))
     (sum_coder unit_coder (list_coder string_coder))"

definition hash_coder :: "hash coder" where
  "hash_coder = iso_coder hash_bytes Hash bytes_coder"

definition party_coder :: "party_id coder" where
  "party_coder = iso_coder party_name PartyId string_coder"

definition ref_kernel_ext :: kernel_ext where
  "ref_kernel_ext = hash_ext.extend ref_hash_ext
     (kernel_ext.fields (codec_of string_coder) (codec_of visibility_coder))"

lemma visibility_coder_ok [coder_intros]: "coder_ok visibility_coder"
  unfolding visibility_coder_def
  by (intro coder_intros) (auto split: visibility.splits simp: o_def)

lemma hash_coder_ok [coder_intros]: "coder_ok hash_coder"
  unfolding hash_coder_def by (intro coder_intros) simp

lemma party_coder_ok [coder_intros]: "coder_ok party_coder"
  unfolding party_coder_def by (intro coder_intros) simp

lemma ref_kernel_ext_sel [simp]:
  "blake3 ref_kernel_ext = blake3 ref_hash_ext"
  "hex_encode ref_kernel_ext = hex_encode ref_hash_ext"
  "hex_decode ref_kernel_ext = hex_decode ref_hash_ext"
  "js_string ref_kernel_ext = codec_of string_coder"
  "js_visibility ref_kernel_ext = codec_of visibility_coder"
  by (simp_all add: ref_kernel_ext_def hash_ext.defs kernel_ext.defs)

lemma ref_kernel_ext_ok: "kernel_ext_ok ref_kernel_ext"
  using ref_hash_ext_ok
  by (simp add: kernel_ext_ok_def hash_ext_ok_def codec_of_ok coder_intros)

section \<open>Lemmas\<close>

lemma kernel_ext_okD:
  assumes "kernel_ext_ok X"
  shows "hash_ext_ok X" "codec_ok (js_string X)" "codec_ok (js_visibility X)"
  using assms by (simp_all add: kernel_ext_ok_def)

definition vis_free_ff :: "'x kernel_ext_scheme \<Rightarrow> bool" where
  "vis_free_ff X \<longleftrightarrow> (\<forall>v. 255 \<notin> set (to_vec_or_default (js_visibility X) v))"

definition wf_command :: "command \<Rightarrow> bool" where
  "wf_command c \<longleftrightarrow> utf8_free_ff (cmd_prism c) \<and> utf8_free_ff (party_name (cmd_submitter c))"

lemma signing_bytes_inj:
  assumes ok: "kernel_ext_ok X" "vis_free_ff X" and wf: "wf_command c" "wf_command d"
    and eq: "signing_bytes X c = signing_bytes X d"
  shows "c = d"
proof -
  let ?v = "\<lambda>c. to_vec_or_default (js_visibility X) (cmd_visibility c)"
  let ?tail = "\<lambda>c. u64_to_le_bytes (cmd_nonce c) @ ?v c @ 255 # cmd_payload c"
  let ?s = "\<lambda>c. as_bytes (party_name (cmd_submitter c)) @ 255 # ?tail c"
  have "as_bytes (cmd_prism c) @ 255 # ?s c = as_bytes (cmd_prism d) @ 255 # ?s d"
    using eq by (simp add: signing_bytes_def)
  then have p: "cmd_prism c = cmd_prism d" and "?s c = ?s d"
    using split_at_marker [of "as_bytes (cmd_prism c)" 255 "?s c" "as_bytes (cmd_prism d)" "?s d"] wf
    by (auto simp: wf_command_def utf8_free_ff_def)
  then have u: "cmd_submitter c = cmd_submitter d" and "?tail c = ?tail d"
    using split_at_marker [of "as_bytes (party_name (cmd_submitter c))" 255 "?tail c"
        "as_bytes (party_name (cmd_submitter d))" "?tail d"] wf
    by (auto simp: wf_command_def utf8_free_ff_def party_id.expand)
  then have n: "cmd_nonce c = cmd_nonce d" and
    "?v c @ 255 # cmd_payload c = ?v d @ 255 # cmd_payload d"
    by (simp_all add: append_eq_append_conv)
  then have v: "?v c = ?v d" and pl: "cmd_payload c = cmd_payload d"
    using split_at_marker [of "?v c" 255 "cmd_payload c" "?v d" "cmd_payload d"] ok(2)
    by (auto simp: vis_free_ff_def)
  from v have "cmd_visibility c = cmd_visibility d"
    using kernel_ext_okD(3) [OF ok(1)] by (metis from_slice_ok sum.inject(2))
  with p u n pl show ?thesis by simp
qed

section \<open>Properties\<close>

text \<open>
  Signatures bind the command and the chain. Between chains with non-zero identifiers, equal
  signing bytes come from the same command on the same chain: prism, submitter, nonce, visibility,
  payload and chain identifier are all determined.
\<close>

theorem signing_bytes_for_chain_injective:
  assumes "kernel_ext_ok X" and "vis_free_ff X" and "wf_command c" and "wf_command d"
    and "k \<noteq> 0" and "l \<noteq> 0"
    and "signing_bytes_for_chain X c k = signing_bytes_for_chain X d l"
  shows "c = d \<and> k = l"
proof -
  let ?t = "\<lambda>k. 255 # as_bytes ''chain'' @ u64_to_le_bytes k"
  have "signing_bytes X c @ ?t k = signing_bytes X d @ ?t l"
    using assms(5-7) by (simp add: signing_bytes_for_chain_def)
  then have "signing_bytes X c = signing_bytes X d" and "?t k = ?t l"
    by (auto simp: append_eq_append_conv)
  then show ?thesis
    using signing_bytes_inj assms by auto
qed

definition demo_command :: command where
  "demo_command = \<lparr>cmd_prism = ''token'', cmd_submitter = PartyId ''alice'',
     cmd_visibility = Public, cmd_payload = [1, 2], cmd_nonce = 7\<rparr>"

lemma put_one_nat_coder_ff: "255 \<notin> set (put_one nat_coder n)"
  by (auto simp: nat_coder_def)

lemma list_coder_ff: "(\<And>x. 255 \<notin> set (put_one p x)) \<Longrightarrow> 255 \<notin> set (put_one (list_coder p) xs)"
  using put_one_nat_coder_ff by (auto simp: list_coder_def)

lemma ref_vis_free_ff: "vis_free_ff ref_kernel_ext"
proof -
  have "255 \<notin> set (put_one string_coder s)" for s
    unfolding string_coder_def
    by (rule list_coder_ff) (simp add: char_coder_def iso_coder_def put_one_nat_coder_ff)
  then have "255 \<notin> set (put_one (list_coder string_coder) ns)" for ns
    by (rule list_coder_ff)
  moreover have "255 \<notin> set (put_one unit_coder u)" for u
    by (simp add: unit_coder_def iso_coder_def put_one_nat_coder_ff)
  ultimately have "255 \<notin> set (put_one visibility_coder v)" for v
    by (auto simp: visibility_coder_def iso_coder_def sum_coder_def split: visibility.splits)
  then show ?thesis
    by (simp add: vis_free_ff_def to_vec_or_default_def codec_of_def)
qed

theorem signing_bytes_for_chain_injective_witness:
  "demo_command = demo_command \<and> (1 :: u64) = 1"
  by (rule signing_bytes_for_chain_injective [OF ref_kernel_ext_ok ref_vis_free_ff])
    (simp_all add: demo_command_def wf_command_def utf8_free_ff_def)

text \<open>
  Chain 0 does not separate itself from the others. The bytes signed for a command on any chain
  \<open>k \<noteq> 0\<close> are also the bytes signed on chain 0 for the command whose payload carries the chain
  suffix, so a signature made for chain \<open>k\<close> verifies for that other command on chain 0.
\<close>

theorem chain_suffix_ambiguity:
  assumes "k \<noteq> 0"
  shows "signing_bytes_for_chain X c k =
         signing_bytes_for_chain X
           (c\<lparr>cmd_payload := cmd_payload c @ 255 # as_bytes ''chain'' @ u64_to_le_bytes k\<rparr>) 0"
  using assms by (simp add: signing_bytes_for_chain_def signing_bytes_def)

theorem chain_suffix_ambiguity_witness:
  "signing_bytes_for_chain ref_kernel_ext demo_command 5 =
   signing_bytes_for_chain ref_kernel_ext
     (demo_command\<lparr>cmd_payload := cmd_payload demo_command @ 255 # as_bytes ''chain'' @ u64_to_le_bytes 5\<rparr>) 0"
  by (rule chain_suffix_ambiguity) simp

text \<open>The string that is hashed for a block\<close>

definition block_preimage :: "'x kernel_ext_scheme \<Rightarrow> block \<Rightarrow> bytes" where
  "block_preimage X b = commit_preimage ''block''
     [u64_to_le_bytes (blk_height b), hash_bytes (blk_parent b), hash_bytes (blk_events_root b),
      hash_bytes (blk_state_root b), hash_bytes (commands_root X b),
      u64_to_le_bytes (blk_timestamp b), as_bytes (party_name (blk_proposer b))]"

text \<open>
  Block identity binds its header. Two blocks with the same hash agree on height, parent, event
  root, state root, command root, timestamp and proposer, or the strings hashed for them are a BLAKE3 collision.
\<close>

theorem block_hash_binds_header:
  assumes "hash_ext_ok X" and "block_hash X a = block_hash X b"
    and "length (party_name (blk_proposer a)) < 2 ^ 64" and "length (party_name (blk_proposer b)) < 2 ^ 64"
    and "wf_hash (blk_parent a)" "wf_hash (blk_events_root a)" "wf_hash (blk_state_root a)"
    and "wf_hash (blk_parent b)" "wf_hash (blk_events_root b)" "wf_hash (blk_state_root b)"
    and "wf_hash (commands_root X a)" and "wf_hash (commands_root X b)"
  shows "(blk_height a = blk_height b \<and> blk_parent a = blk_parent b \<and>
          blk_events_root a = blk_events_root b \<and> blk_state_root a = blk_state_root b \<and>
          commands_root X a = commands_root X b \<and> blk_timestamp a = blk_timestamp b \<and>
          blk_proposer a = blk_proposer b) \<or> collides X [block_preimage X a] [block_preimage X b]"
proof -
  let ?parts = "\<lambda>b. [u64_to_le_bytes (blk_height b), hash_bytes (blk_parent b),
      hash_bytes (blk_events_root b), hash_bytes (blk_state_root b),
      hash_bytes (commands_root X b), u64_to_le_bytes (blk_timestamp b),
      as_bytes (party_name (blk_proposer b))]"
  show ?thesis
  proof (cases "commit_preimage ''block'' (?parts a) = commit_preimage ''block'' (?parts b)")
    case True
    have "''block'' = ''block'' \<and> ?parts a = ?parts b"
      by (rule commit_preimage_inj [OF True])
        (use assms in \<open>auto simp: utf8_free_ff_def wf_hash_def\<close>)
    then show ?thesis by (simp add: hash.expand party_id.expand)
  next
    case False
    with assms(2) show ?thesis
      by (auto simp: block_hash_def commit_def block_preimage_def)
  qed
qed

theorem block_hash_binds_header_witness:
  "(blk_height deterministic_genesis = blk_height deterministic_genesis \<and>
    blk_parent deterministic_genesis = blk_parent deterministic_genesis \<and>
    blk_events_root deterministic_genesis = blk_events_root deterministic_genesis \<and>
    blk_state_root deterministic_genesis = blk_state_root deterministic_genesis \<and>
    commands_root ref_kernel_ext deterministic_genesis =
      commands_root ref_kernel_ext deterministic_genesis \<and>
    blk_timestamp deterministic_genesis = blk_timestamp deterministic_genesis \<and>
    blk_proposer deterministic_genesis = blk_proposer deterministic_genesis) \<or>
   collides ref_kernel_ext [block_preimage ref_kernel_ext deterministic_genesis] [block_preimage ref_kernel_ext deterministic_genesis]"
  by (rule block_hash_binds_header)
    (simp_all add: kernel_ext_okD(1) [OF ref_kernel_ext_ok] deterministic_genesis_def
      commands_root_def merkle_root_def)

end
