(* ===== verification/Kernel_State.thy ===== *)
theory Kernel_State
  imports Kernel_Types
begin

text \<open>
  \<open>kernel/src/state.rs\<close>: the content-addressed key/value state. The \<open>BTreeMap\<close> is a finite map whose
  entries are enumerated in ascending byte order of the key (\<open>sorted_list_of_fmap\<close>); JSON values go
  through a \<open>codec\<close>. The locale \<open>keyed_store\<close> is the contract the prisms rely on.
\<close>

section \<open>Data and operations\<close>

datatype state_error = St_NotFound string | St_Serialization string

definition state_error_to_string :: "state_error \<Rightarrow> string" where
  "state_error_to_string e = (case e of
      St_NotFound k \<Rightarrow> ''key not found: '' @ k
    | St_Serialization m \<Rightarrow> ''serialization error: '' @ m)"

record state_tree =
  entries :: "(string, bytes) fmap"

definition st_new :: state_tree where
  "st_new = \<lparr>entries = fmempty\<rparr>"

definition st_put :: "string \<Rightarrow> bytes \<Rightarrow> state_tree \<Rightarrow> state_tree" where
  "st_put key v s = s\<lparr>entries := fmupd key v (entries s)\<rparr>"

definition st_get :: "state_tree \<Rightarrow> string \<Rightarrow> bytes option" where
  "st_get s key = fmlookup (entries s) key"

definition st_remove :: "string \<Rightarrow> state_tree \<Rightarrow> bytes option \<times> state_tree" where
  "st_remove key s = (fmlookup (entries s) key, s\<lparr>entries := fmdrop key (entries s)\<rparr>)"

definition st_contains :: "state_tree \<Rightarrow> string \<Rightarrow> bool" where
  "st_contains s key \<longleftrightarrow> fmlookup (entries s) key \<noteq> None"

definition put_json :: "'a codec \<Rightarrow> string \<Rightarrow> 'a \<Rightarrow> (state_tree, state_error, unit) act" where
  "put_json c key v =
     (case to_vec c v of
        Inl m \<Rightarrow> raise (St_Serialization m)
      | Inr b \<Rightarrow> modify (st_put key b))"

definition get_json :: "'a codec \<Rightarrow> state_tree \<Rightarrow> string \<Rightarrow> state_error + 'a option" where
  "get_json c s key =
     (case fmlookup (entries s) key of
        Some b \<Rightarrow> (case from_slice c b of Inl m \<Rightarrow> Inl (St_Serialization m) | Inr v \<Rightarrow> Inr (Some v))
      | None \<Rightarrow> Inr None)"

definition iter_prefix :: "state_tree \<Rightarrow> string \<Rightarrow> (string \<times> bytes) list" where
  "iter_prefix s pre =
     takeWhile (\<lambda>(k, _). prefix pre k) (dropWhile (\<lambda>(k, _). k < pre) (sorted_list_of_fmap (entries s)))"

definition st_len :: "state_tree \<Rightarrow> nat" where
  "st_len s = length (sorted_list_of_fmap (entries s))"

definition st_is_empty :: "state_tree \<Rightarrow> bool" where
  "st_is_empty s \<longleftrightarrow> st_len s = 0"

definition leaf_hash :: "'x hash_ext_scheme \<Rightarrow> string \<Rightarrow> bytes \<Rightarrow> hash" where
  "leaf_hash X key v = commit X ''kv'' [as_bytes key, v]"

definition state_leaves :: "'x hash_ext_scheme \<Rightarrow> state_tree \<Rightarrow> hash list" where
  "state_leaves X s = map (\<lambda>(k, v). commit X ''kv'' [as_bytes k, v]) (sorted_list_of_fmap (entries s))"

definition state_root :: "'x hash_ext_scheme \<Rightarrow> state_tree \<Rightarrow> hash" where
  "state_root X s = (if st_is_empty s then ZERO else merkle_root X (state_leaves X s))"

fun position :: "('a \<Rightarrow> bool) \<Rightarrow> 'a list \<Rightarrow> nat option" where
  "position P [] = None"
| "position P (x # xs) = (if P x then Some 0 else map_option Suc (position P xs))"

definition prove :: "'x hash_ext_scheme \<Rightarrow> state_tree \<Rightarrow> string \<Rightarrow> (bytes \<times> merkle_step list) option" where
  "prove X s key =
     (case fmlookup (entries s) key of
        None \<Rightarrow> None
      | Some v \<Rightarrow>
          (case position (\<lambda>k. k = key) (map fst (sorted_list_of_fmap (entries s))) of
             None \<Rightarrow> None
           | Some index \<Rightarrow> Some (v, merkle_proof X (state_leaves X s) index)))"

section \<open>The store contract\<close>

locale keyed_store =
  fixes new :: 's
    and get :: "'s \<Rightarrow> 'k \<Rightarrow> 'v option"
    and put :: "'k \<Rightarrow> 'v \<Rightarrow> 's \<Rightarrow> 's"
    and del :: "'k \<Rightarrow> 's \<Rightarrow> 's"
  assumes get_new: "get new k = None"
    and get_put: "get (put k v s) k' = (if k = k' then Some v else get s k')"
    and get_del: "get (del k s) k' = (if k = k' then None else get s k')"
    and get_ext: "(\<And>k. get s k = get t k) \<Longrightarrow> s = t"
begin

lemma put_put: "put k v (put k w s) = put k v s"
  by (rule get_ext) (simp add: get_put)

lemma put_commute: "k \<noteq> l \<Longrightarrow> put k v (put l w s) = put l w (put k v s)"
  by (rule get_ext) (auto simp: get_put)

lemma put_same: "get s k = Some v \<Longrightarrow> put k v s = s"
  by (rule get_ext) (auto simp: get_put)

lemma del_put: "del k (put k v s) = del k s"
  by (rule get_ext) (auto simp: get_put get_del)

lemma put_del_restore: "get s k = Some v \<Longrightarrow> put k v (del k s) = s"
  by (rule get_ext) (auto simp: get_put get_del)

lemma del_absent: "get s k = None \<Longrightarrow> del k s = s"
  by (rule get_ext) (auto simp: get_del)

lemma get_writes:
  "get (fold (\<lambda>(k, v). put k v) ws s) k =
     (case map_of (rev ws) k of None \<Rightarrow> get s k | Some v \<Rightarrow> Some v)"
  by (induction ws arbitrary: s) (auto simp: get_put map_add_def split: option.splits)

end

lemma state_tree_ext: "(\<And>k. st_get s k = st_get t k) \<Longrightarrow> s = (t :: state_tree)"
  by (cases s; cases t) (auto simp: st_get_def intro: fmap_ext)

interpretation st: keyed_store st_new st_get st_put "\<lambda>k s. snd (st_remove k s)"
proof
  show "s = t" if "\<And>k. st_get s k = st_get t k" for s t
    using that by (rule state_tree_ext)
qed (auto simp: st_new_def st_get_def st_put_def st_remove_def)

lemmas st_simps [simp] = st.get_new st.get_put st.get_del st.put_put

lemma st_contains_get: "st_contains s k \<longleftrightarrow> st_get s k \<noteq> None"
  by (simp add: st_contains_def st_get_def)

lemma st_contains_put [simp]: "st_contains (st_put k v s) k' \<longleftrightarrow> k = k' \<or> st_contains s k'"
  by (simp add: st_contains_get)

lemma get_json_get: "get_json c s key = (case st_get s key of
    Some b \<Rightarrow> (case from_slice c b of Inl m \<Rightarrow> Inl (St_Serialization m) | Inr v \<Rightarrow> Inr (Some v))
  | None \<Rightarrow> Inr None)"
  by (simp add: get_json_def st_get_def)

lemma put_json_ok [simp]:
  "codec_ok c \<Longrightarrow> put_json c k v = modify (st_put k (to_vec_or_default c v))"
  by (simp add: put_json_def to_vec_ok)

lemma get_json_put:
  "codec_ok c \<Longrightarrow> get_json c (st_put k (to_vec_or_default c v) s) k' =
     (if k = k' then Inr (Some v) else get_json c s k')"
  by (simp add: get_json_get from_slice_ok)

lemma get_json_frame [simp]: "k \<noteq> k' \<Longrightarrow> get_json c (st_put k b s) k' = get_json c s k'"
  by (simp add: get_json_get)

lemma get_json_new [simp]: "get_json c st_new k = Inr None"
  by (simp add: get_json_get)

section \<open>Ordered iteration\<close>

lemma prefix_imp_le: "prefix p k \<Longrightarrow> p \<le> (k :: string)"
  by (induction p arbitrary: k) (auto simp: prefix_def)

lemma prefix_convex:
  assumes "p \<le> k" and "k \<le> k'" and "prefix p (k' :: string)"
  shows "prefix p k"
  using assms
proof (induction p arbitrary: k k')
  case Nil
  show ?case by simp
next
  case (Cons a p)
  then obtain r' where k': "k' = a # r'" and r': "prefix p r'"
    by (cases k') auto
  from Cons.prems(1) obtain b r where k: "k = b # r"
    by (cases k) auto
  with Cons.prems(1,2) k' have "b = a" and "p \<le> r" and "r \<le> r'"
    by (auto simp: order.order_iff_strict)
  with Cons.IH r' k show ?case by auto
qed

lemma filter_sorted_range:
  assumes "sorted xs"
  shows "takeWhile (prefix p) (dropWhile (\<lambda>k. k < p) xs) = filter (prefix p) (xs :: string list)"
  using assms
proof (induction xs)
  case Nil
  show ?case by simp
next
  case (Cons k xs)
  show ?case
  proof (cases "k < p")
    case True
    then have "\<not> prefix p k"
      using prefix_imp_le [of p k] by (auto simp: not_less)
    with True Cons show ?thesis by simp
  next
    case False
    then have "p \<le> k" by simp
    then have ge: "\<forall>x \<in> set xs. p \<le> x"
      using Cons.prems by auto
    then have dw: "dropWhile (\<lambda>k. k < p) xs = xs"
      by (cases xs) (auto simp: not_less)
    show ?thesis
    proof (cases "prefix p k")
      case True
      then show ?thesis using False Cons dw by simp
    next
      case no: False
      have "\<not> prefix p x" if "x \<in> set xs" for x
        using prefix_convex [OF \<open>p \<le> k\<close>, of x] Cons.prems that no by auto
      then have "filter (prefix p) xs = []"
        by (simp add: filter_empty_conv)
      with no False show ?thesis by simp
    qed
  qed
qed

lemma position_distinct:
  "distinct xs \<Longrightarrow> i < length xs \<Longrightarrow> position (\<lambda>k. k = xs ! i) xs = Some i"
proof (induction xs arbitrary: i)
  case (Cons x xs)
  then show ?case by (cases i) auto
qed simp

lemma sorted_list_of_fmap_keys:
  "map fst (sorted_list_of_fmap m) = sorted_list_of_fset (fmdom m)"
  by (simp add: sorted_list_of_fmap_def o_def)

lemma sorted_keys: "sorted (map fst (sorted_list_of_fmap m))"
  and distinct_keys: "distinct (map fst (sorted_list_of_fmap m))"
  by (simp_all add: sorted_list_of_fmap_keys sorted_list_of_fset.rep_eq)

lemma state_entry_at:
  assumes "st_get s key = Some v"
  obtains i where "i < length (sorted_list_of_fmap (entries s))"
    and "sorted_list_of_fmap (entries s) ! i = (key, v)"
    and "position (\<lambda>k. k = key) (map fst (sorted_list_of_fmap (entries s))) = Some i"
proof -
  let ?L = "sorted_list_of_fmap (entries s)"
  have "map_of ?L key = Some v"
    using assms by (simp add: st_get_def)
  then have "(key, v) \<in> set ?L" by (rule map_of_SomeD)
  then obtain i where i: "i < length ?L" "?L ! i = (key, v)"
    by (auto simp: in_set_conv_nth)
  moreover have "position (\<lambda>k. k = map fst ?L ! i) (map fst ?L) = Some i"
    using i(1) distinct_keys by (intro position_distinct) auto
  ultimately show thesis using that by simp
qed

lemma state_proof_at:
  assumes "st_get s key = Some v"
  obtains i where "i < length (state_leaves X s)" and "state_leaves X s ! i = leaf_hash X key v"
    and "prove X s key = Some (v, merkle_proof X (state_leaves X s) i)"
    and "state_root X s = merkle_root X (state_leaves X s)"
proof -
  obtain i where i: "i < length (sorted_list_of_fmap (entries s))"
    "sorted_list_of_fmap (entries s) ! i = (key, v)"
    "position (\<lambda>k. k = key) (map fst (sorted_list_of_fmap (entries s))) = Some i"
    using state_entry_at [OF assms] by blast
  then have "\<not> st_is_empty s"
    by (auto simp: st_is_empty_def st_len_def)
  with i assms that [of i] show thesis
    by (simp add: state_leaves_def leaf_hash_def prove_def st_get_def state_root_def)
qed

text \<open>The strings that are hashed to verify an entry, from its leaf to the root\<close>

definition leaf_preimage :: "string \<Rightarrow> bytes \<Rightarrow> bytes" where
  "leaf_preimage k v = commit_preimage ''kv'' [as_bytes k, v]"

definition entry_inputs :: "'x hash_ext_scheme \<Rightarrow> string \<Rightarrow> bytes \<Rightarrow> merkle_step list \<Rightarrow> bytes list" where
  "entry_inputs X k v prf = leaf_preimage k v # walk_inputs X (leaf_hash X k v) prf"

lemma leaf_hash_inj:
  assumes "leaf_hash X k v = leaf_hash X k' v'"
    and "length k < 2 ^ 64" "length k' < 2 ^ 64" "length v < 2 ^ 64" "length v' < 2 ^ 64"
  shows "(k = k' \<and> v = v') \<or> collides X [leaf_preimage k v] [leaf_preimage k' v']"
proof (cases "commit_preimage ''kv'' [as_bytes k, v] = commit_preimage ''kv'' [as_bytes k', v']")
  case True
  have "''kv'' = ''kv'' \<and> [as_bytes k, v] = [as_bytes k', v']"
    by (rule commit_preimage_inj [OF True]) (use assms in \<open>auto simp: utf8_free_ff_def\<close>)
  then show ?thesis by simp
next
  case False
  with assms(1) show ?thesis
    by (auto simp: leaf_hash_def commit_def leaf_preimage_def)
qed

section \<open>Properties\<close>

text \<open>
  Prefix iteration is complete and exact: the range scan that stops at the first key without the
  prefix returns every entry whose key has the prefix, in key order, and nothing else.
\<close>

theorem iter_prefix_exact:
  "iter_prefix s pre = filter (\<lambda>(k, _). prefix pre k) (sorted_list_of_fmap (entries s))"
proof -
  let ?L = "sorted_list_of_fmap (entries s)"
  have fst_case: "(\<lambda>(k, _). P k) = P \<circ> fst" for P :: "string \<Rightarrow> bool"
    by auto
  have by_fst: "xs = ys" if "map fst xs = map fst ys" and "set xs \<subseteq> set ?L" and "set ys \<subseteq> set ?L" for xs ys
  proof (rule nth_equalityI)
    show len: "length xs = length ys" using that(1) by (rule map_eq_imp_length_eq)
    fix i assume i: "i < length xs"
    with that(1) len have "fst (xs ! i) = fst (ys ! i)"
      by (metis nth_map)
    moreover have "xs ! i \<in> set ?L" and "ys ! i \<in> set ?L"
      using that i len by (auto intro: nth_mem dest!: subsetD)
    ultimately show "xs ! i = ys ! i"
      using distinct_keys by (metis eq_key_imp_eq_value prod.collapse)
  qed
  have "map fst (iter_prefix s pre) = takeWhile (prefix pre) (dropWhile (\<lambda>k. k < pre) (map fst ?L))"
    by (simp add: iter_prefix_def fst_case takeWhile_map dropWhile_map o_def case_prod_beta')
  also have "\<dots> = filter (prefix pre) (map fst ?L)"
    using sorted_keys by (rule filter_sorted_range)
  also have "\<dots> = map fst (filter (\<lambda>(k, _). prefix pre k) ?L)"
    by (simp add: filter_map fst_case o_def)
  finally show ?thesis
    by (rule by_fst) (auto simp: iter_prefix_def dest: set_takeWhileD set_dropWhileD)
qed

text \<open>
  State proofs are complete: for every key in the state, \<open>prove\<close> returns its value and a Merkle
  proof that verifies against the state root; for an absent key it returns nothing.
\<close>

theorem prove_complete:
  "case st_get s key of
     None \<Rightarrow> prove X s key = None
   | Some v \<Rightarrow> \<exists>prf. prove X s key = Some (v, prf) \<and>
       verify_merkle_proof X (leaf_hash X key v) prf (state_root X s)"
proof (cases "st_get s key")
  case None
  then show ?thesis by (simp add: prove_def st_get_def)
next
  case (Some v)
  obtain i where i: "i < length (state_leaves X s)" "state_leaves X s ! i = leaf_hash X key v"
    "prove X s key = Some (v, merkle_proof X (state_leaves X s) i)"
    "state_root X s = merkle_root X (state_leaves X s)"
    using state_proof_at [OF Some] by blast
  then have "state_leaves X s \<noteq> []" by auto
  then have "verify_merkle_proof X (leaf_hash X key v) (merkle_proof X (state_leaves X s) i) (state_root X s)"
    using i walk_proof_loop [OF i(1), of X]
    by (simp add: verify_merkle_proof_def merkle_proof_def merkle_root_def)
  with Some i(3) show ?thesis by auto
qed

text \<open>
  C14. State proofs are sound: a value \<open>v'\<close> that verifies for a key of the state along the path of the
  honest proof is the value stored there, or the strings hashed to verify it and those hashed for the stored value contain
  a BLAKE3 collision at the same level. Keys and values are shorter than \<open>2 ^ 64\<close> bytes and the siblings are 32 bytes long.
\<close>

theorem prove_sound:
  assumes "hash_ext_ok X" and "prove X s key = Some (v, prf)"
    and "verify_merkle_proof X (leaf_hash X key v') prf' (state_root X s)"
    and "map sibling_on_right prf' = map sibling_on_right prf"
    and "\<forall>p \<in> set prf'. wf_hash (sibling p)"
    and "length key < 2 ^ 64" "length v < 2 ^ 64" "length v' < 2 ^ 64"
  shows "st_get s key = Some v' \<or> collides X (entry_inputs X key v' prf') (entry_inputs X key v prf)"
proof -
  from assms(2) have get: "st_get s key = Some v"
    by (auto simp: prove_def st_get_def split: option.splits)
  obtain i where i: "i < length (state_leaves X s)" "state_leaves X s ! i = leaf_hash X key v"
    "prf = merkle_proof X (state_leaves X s) i"
    "state_root X s = merkle_root X (state_leaves X s)"
    using state_proof_at [OF get, of X] assms(2) by auto
  have "(leaf_hash X key v' = state_leaves X s ! i \<and> prf' = prf) \<or>
      collides X (walk_inputs X (leaf_hash X key v') prf') (walk_inputs X (state_leaves X s ! i) prf)"
    unfolding i(3) using assms i
    by (intro proof_binding) (auto simp: state_leaves_def leaf_hash_def)
  then show ?thesis
    using leaf_hash_inj [of X key v' key v] i(2) get assms(6-8) by (auto simp: entry_inputs_def)
qed

definition demo_state :: state_tree where
  "demo_state = st_put ''b'' [2] (st_put ''a'' [1] st_new)"

lemma demo_state_entries: "sorted_list_of_fmap (entries demo_state) = [(''a'', [1]), (''b'', [2])]"
proof -
  have "sorted_list_of_set {''b'', ''a''} = [''a'', ''b'']"
    by simp
  then show ?thesis
    by (simp add: demo_state_def sorted_list_of_fmap_def st_put_def st_new_def
        sorted_list_of_fset.rep_eq insert_commute)
qed

theorem prove_sound_witness:
  "\<exists>prf. prove ref_hash_ext demo_state ''a'' = Some ([1], prf) \<and> st_get demo_state ''a'' = Some [1]"
proof -
  let ?pr = "merkle_proof ref_hash_ext (state_leaves ref_hash_ext demo_state) 0"
  have p: "prove ref_hash_ext demo_state ''a'' =
      Some ([1], merkle_proof ref_hash_ext (state_leaves ref_hash_ext demo_state) 0)"
  proof -
    have "fmlookup (entries demo_state) ''a'' = Some [1]"
      by (simp add: demo_state_def st_put_def st_new_def)
    then show ?thesis by (simp add: prove_def demo_state_entries)
  qed
  have r: "state_root ref_hash_ext demo_state = merkle_root ref_hash_ext (state_leaves ref_hash_ext demo_state)"
    by (simp add: state_root_def st_is_empty_def st_len_def demo_state_entries)
  have l: "length (state_leaves ref_hash_ext demo_state) = 2"
    "state_leaves ref_hash_ext demo_state ! 0 = leaf_hash ref_hash_ext ''a'' [1]"
    by (simp_all add: state_leaves_def demo_state_entries leaf_hash_def)
  have w: "\<forall>h \<in> set (state_leaves ref_hash_ext demo_state). wf_hash h"
    using ref_hash_ext_ok by (auto simp: state_leaves_def)
  have "st_get demo_state ''a'' = Some [1] \<or>
      collides ref_hash_ext (entry_inputs ref_hash_ext ''a'' [1] ?pr) (entry_inputs ref_hash_ext ''a'' [1] ?pr)"
    by (rule prove_sound [OF ref_hash_ext_ok p])
      (use l r w ref_hash_ext_ok walk_proof_loop [of 0 "state_leaves ref_hash_ext demo_state" ref_hash_ext]
        proof_loop_wf [of ref_hash_ext "state_leaves ref_hash_ext demo_state" 0] in
        \<open>auto simp: verify_merkle_proof_def merkle_proof_def merkle_root_def\<close>)
  then show ?thesis using p by simp
qed

end
