(* ===== verification/Kernel_Cascade.thy ===== *)
theory Kernel_Cascade
  imports Kernel_State
begin

text \<open>
  \<open>kernel/src/prism.rs\<close> and \<open>kernel/src/cascade.rs\<close>: the interface of an add-on (a prism), and the
  pipeline that dispatches a command to its prism and then, breadth first and at most eight levels
  deep, the commands the prisms derive. A handler mutates the state it is given, so an error keeps
  the writes made before it; callers that need atomicity work on a copy of the state.
\<close>

section \<open>Prisms\<close>

datatype prism_error =
    InvalidPayload string
  | Unauthorized string
  | LimitExceeded string
  | NotFound string
  | Internal string

record prism_info =
  info_name :: string
  info_description :: string
  info_version :: string

record prism_output =
  out_events :: "event list"
  out_derived_commands :: "command list"
  out_cost :: u64

definition single_output :: "event \<Rightarrow> u64 \<Rightarrow> prism_output" where
  "single_output e cost = \<lparr>out_events = [e], out_derived_commands = [], out_cost = cost\<rparr>"

type_synonym handler = "command \<Rightarrow> (state_tree, prism_error, prism_output) act"

record prism =
  pr_info :: prism_info
  pr_handle :: handler
  pr_estimate :: "command \<Rightarrow> state_tree \<Rightarrow> u64"

definition default_estimate :: "command \<Rightarrow> state_tree \<Rightarrow> u64" where
  "default_estimate c s = 1000"

text \<open>The idiom \<open>put_json(..).map_err(|e| PrismError::Internal(e.to_string()))\<close> of every prism.\<close>

definition put_json_internal :: "'a codec \<Rightarrow> string \<Rightarrow> 'a \<Rightarrow> (state_tree, prism_error, unit) act" where
  "put_json_internal c key v = map_err (\<lambda>e. Internal (state_error_to_string e)) (put_json c key v)"

text \<open>The idiom \<open>get_json(..).map_err(internal)?.ok_or_else(|| NotFound(msg))?\<close>.\<close>

definition get_json_or :: "'a codec \<Rightarrow> string \<Rightarrow> prism_error \<Rightarrow> (state_tree, prism_error, 'a) act" where
  "get_json_or c key missing = andthen (gets (\<lambda>s. get_json c s key)) (\<lambda>r.
     case r of
       Inl e \<Rightarrow> raise (Internal (state_error_to_string e))
     | Inr v \<Rightarrow> of_option missing v)"

text \<open>The idiom \<open>get_json(..).ok().flatten()\<close>.\<close>

definition get_json_opt :: "'a codec \<Rightarrow> state_tree \<Rightarrow> string \<Rightarrow> 'a option" where
  "get_json_opt c s key = (case get_json c s key of Inl _ \<Rightarrow> None | Inr v \<Rightarrow> v)"

text \<open>The idiom \<open>serde_json::from_slice(&command.payload).map_err(InvalidPayload)?\<close>.\<close>

definition parse_payload :: "'a codec \<Rightarrow> bytes \<Rightarrow> (state_tree, prism_error, 'a) act" where
  "parse_payload c b = (case from_slice c b of Inl m \<Rightarrow> raise (InvalidPayload m) | Inr v \<Rightarrow> ret v)"

section \<open>The cascade\<close>

datatype cascade_error = UnknownPrism string | DepthExceeded nat | PrismErr prism_error

record cascade_receipt =
  rc_events :: "event list"
  rc_total_cost :: u64
  rc_depth :: nat

record cascade =
  prisms :: "string \<rightharpoonup> prism"
  order :: "string list"

definition MAX_CASCADE_DEPTH :: nat where
  "MAX_CASCADE_DEPTH = 8"

definition cascade_new :: cascade where
  "cascade_new = \<lparr>prisms = Map.empty, order = []\<rparr>"

definition install :: "prism \<Rightarrow> cascade \<Rightarrow> cascade" where
  "install p c =
     (let name = info_name (pr_info p)
      in \<lparr>prisms = (prisms c)(name \<mapsto> p),
          order = (if prisms c name = None then order c @ [name] else order c)\<rparr>)"

definition cascade_has :: "cascade \<Rightarrow> string \<Rightarrow> bool" where
  "cascade_has c name \<longleftrightarrow> prisms c name \<noteq> None"

definition installed :: "cascade \<Rightarrow> prism_info list" where
  "installed c = map pr_info (List.map_filter (prisms c) (order c))"

definition cascade_estimate :: "cascade \<Rightarrow> command \<Rightarrow> state_tree \<Rightarrow> cascade_error + u64" where
  "cascade_estimate c cmd s =
     (case prisms c (cmd_prism cmd) of
        None \<Rightarrow> Inl (UnknownPrism (cmd_prism cmd))
      | Some p \<Rightarrow> Inr (pr_estimate p cmd s))"

fun run_level ::
  "cascade \<Rightarrow> command list \<Rightarrow> cascade_receipt \<Rightarrow> command list \<Rightarrow>
   (state_tree, cascade_error, cascade_receipt \<times> command list) act" where
  "run_level c [] rc next = ret (rc, next)"
| "run_level c (cmd # cmds) rc next =
     (case prisms c (cmd_prism cmd) of
        None \<Rightarrow> raise (UnknownPrism (cmd_prism cmd))
      | Some p \<Rightarrow> andthen (map_err PrismErr (pr_handle p cmd)) (\<lambda>out.
          run_level c cmds
            (rc\<lparr>rc_total_cost := rc_total_cost rc + out_cost out,
                rc_events := rc_events rc @ out_events out\<rparr>)
            (next @ out_derived_commands out)))"

function cascade_loop ::
  "cascade \<Rightarrow> nat \<Rightarrow> command list \<Rightarrow> cascade_receipt \<Rightarrow>
   (state_tree, cascade_error, cascade_receipt) act" where
  "cascade_loop c depth frontier rc =
     (if frontier = [] then ret (rc\<lparr>rc_depth := depth\<rparr>)
      else if MAX_CASCADE_DEPTH \<le> depth then raise (DepthExceeded MAX_CASCADE_DEPTH)
      else andthen (run_level c frontier rc []) (\<lambda>(rc', next). cascade_loop c (depth + 1) next rc'))"
  by pat_completeness auto
termination
  by (relation "measure (\<lambda>(c, depth, frontier, rc). MAX_CASCADE_DEPTH - depth)") auto

declare cascade_loop.simps [simp del]

definition cascade_apply :: "cascade \<Rightarrow> command \<Rightarrow> (state_tree, cascade_error, cascade_receipt) act" where
  "cascade_apply c cmd = cascade_loop c 0 [cmd] \<lparr>rc_events = [], rc_total_cost = 0, rc_depth = 0\<rparr>"

section \<open>Specification: a breadth-first run\<close>

text \<open>
  \<open>level_run c cmds s outs s'\<close>: the handlers of \<open>cmds\<close>, in order, all succeed from \<open>s\<close> to \<open>s'\<close> with the
  outputs \<open>outs\<close>. \<open>cascade_run\<close> repeats it on the derived commands until a level derives none.
\<close>

inductive level_run :: "cascade \<Rightarrow> command list \<Rightarrow> state_tree \<Rightarrow> prism_output list \<Rightarrow> state_tree \<Rightarrow> bool"
  for c where
  level_nil: "level_run c [] s [] s"
| level_cons: "prisms c (cmd_prism cmd) = Some p \<Longrightarrow> pr_handle p cmd s = (Ok out, s1) \<Longrightarrow>
    level_run c cmds s1 outs s2 \<Longrightarrow> level_run c (cmd # cmds) s (out # outs) s2"

inductive cascade_run :: "cascade \<Rightarrow> command list \<Rightarrow> state_tree \<Rightarrow> prism_output list list \<Rightarrow> state_tree \<Rightarrow> bool"
  for c where
  cascade_done: "cascade_run c [] s [] s"
| cascade_next: "frontier \<noteq> [] \<Longrightarrow> level_run c frontier s outs s1 \<Longrightarrow>
    cascade_run c (concat (map out_derived_commands outs)) s1 levels s2 \<Longrightarrow>
    cascade_run c frontier s (outs # levels) s2"

inductive_simps level_run_Nil [simp]: "level_run c [] s outs s'"
inductive_simps level_run_Cons: "level_run c (cmd # cmds) s outs s'"
inductive_simps cascade_run_Nil [simp]: "cascade_run c [] s levels s'"
inductive_cases cascade_runE: "cascade_run c frontier s levels s'"

definition receipt_of :: "prism_output list list \<Rightarrow> cascade_receipt" where
  "receipt_of levels = \<lparr>rc_events = concat (map out_events (concat levels)),
     rc_total_cost = sum_list (map out_cost (concat levels)), rc_depth = length levels\<rparr>"

section \<open>The prism contract\<close>

text \<open>
  What the pipeline relies on: a handler writes only below the key prefixes it owns (also on its error
  paths), and every event it emits carries its own name, the identifier of the command and the
  visibility the command asked for, so that a private command never emits a wider event.
\<close>

definition outside :: "string list \<Rightarrow> string \<Rightarrow> bool" where
  "outside W k \<longleftrightarrow> (\<forall>p \<in> set W. \<not> prefix p k)"

definition event_of :: "'x kernel_ext_scheme \<Rightarrow> string \<Rightarrow> command \<Rightarrow> event \<Rightarrow> bool" where
  "event_of X name cmd e \<longleftrightarrow> ev_prism e = name \<and> ev_source_command e = command_id X cmd \<and>
     ev_visibility e = cmd_visibility cmd"

text \<open>The event every prism builds from its command: own name, own visibility, serialised payload.\<close>

definition emit :: "'x kernel_ext_scheme \<Rightarrow> string \<Rightarrow> command \<Rightarrow> bytes \<Rightarrow> event" where
  "emit X name cmd payload = \<lparr>ev_source_command = command_id X cmd, ev_prism = name,
     ev_visibility = cmd_visibility cmd, ev_payload = payload\<rparr>"

locale prism_contract =
  fixes handle :: "'x kernel_ext_scheme \<Rightarrow> handler"
    and name :: string
    and writes :: "string list"
  assumes frame: "outside writes k \<Longrightarrow> keeps (\<lambda>s. st_get s k = v) (handle X cmd)"
    and events: "handle X cmd s = (Ok out, s') \<Longrightarrow> \<forall>e \<in> set (out_events out). event_of X name cmd e"
begin

lemma get_outside: "outside writes k \<Longrightarrow> handle X cmd s = (r, s') \<Longrightarrow> st_get s' k = st_get s k"
  by (rule keepsD [OF frame]) simp_all

lemma keeps_outside:
  assumes "\<And>s t. P s \<Longrightarrow> (\<And>k. outside writes k \<Longrightarrow> st_get t k = st_get s k) \<Longrightarrow> P t"
  shows "keeps P (handle X cmd)"
  unfolding keeps_def using assms get_outside by (metis prod.collapse)

lemma no_widening:
  assumes "handle X cmd s = (Ok out, s')" and "e \<in> set (out_events out)"
    and "vis_includes (ev_visibility e) party"
  shows "vis_includes (cmd_visibility cmd) party"
  using events [OF assms(1)] assms(2,3) by (auto simp: event_of_def)

end

section \<open>Lemmas\<close>

lemma event_of_emit [simp]: "event_of X name cmd (emit X name cmd b)"
  by (simp add: event_of_def emit_def)

lemma st_put_outside:
  "outside W k \<Longrightarrow> prefix p key \<Longrightarrow> p \<in> set W \<Longrightarrow> st_get (st_put key b s) k = st_get s k"
  by (auto simp: outside_def)

lemma keeps_put_json_internal [keeps_intros]:
  "(\<And>b s. P s \<Longrightarrow> P (st_put key b s)) \<Longrightarrow> keeps P (put_json_internal c key v)"
  unfolding put_json_internal_def put_json_def by (intro keeps_intros) auto

lemma keeps_get_json_or [keeps_intros]: "keeps P (get_json_or c key e)"
  unfolding get_json_or_def by (intro keeps_intros)

lemma keeps_parse_payload [keeps_intros]: "keeps P (parse_payload c b)"
  unfolding parse_payload_def by (intro keeps_intros)

lemma no_panic_cells [no_panic_intros]:
  "no_panic (put_json_internal c key v) s" "no_panic (get_json_or c' key e) s" "no_panic (parse_payload c'' b) s"
  unfolding put_json_internal_def put_json_def get_json_or_def parse_payload_def
  by (intro no_panic_intros)+

lemma put_json_internal_ok [simp]:
  "codec_ok c \<Longrightarrow> put_json_internal c k v = modify (st_put k (to_vec_or_default c v))"
  by (simp add: put_json_internal_def)

lemma get_json_opt_put:
  "codec_ok c \<Longrightarrow> get_json_opt c (st_put k (to_vec_or_default c v) s) k' =
     (if k = k' then Some v else get_json_opt c s k')"
  by (simp add: get_json_opt_def get_json_put)

lemma get_json_opt_frame [simp]: "k \<noteq> k' \<Longrightarrow> get_json_opt c (st_put k b s) k' = get_json_opt c s k'"
  by (simp add: get_json_opt_def)

lemma get_json_opt_cong: "st_get s' k = st_get s k \<Longrightarrow> get_json_opt c s' k = get_json_opt c s k"
  by (simp add: get_json_opt_def get_json_def st_get_def)

lemma get_json_opt_new [simp]: "get_json_opt c st_new k = None"
  by (simp add: get_json_opt_def)

lemma get_json_or_run: "get_json_or c k e s =
    (case get_json c s k of
       Inl x \<Rightarrow> (Err (Internal (state_error_to_string x)), s)
     | Inr None \<Rightarrow> (Err e, s)
     | Inr (Some v) \<Rightarrow> (Ok v, s))"
  by (simp add: get_json_or_def split: sum.splits option.splits)

lemma get_json_opt_SomeD: "get_json_opt c s k = Some v \<Longrightarrow> get_json_or c k e s = (Ok v, s)"
  by (auto simp: get_json_or_run get_json_opt_def split: sum.splits option.splits)

lemma get_json_or_Ok_iff: "get_json_or c k e s = (Ok v, s') \<longleftrightarrow> s' = s \<and> get_json_opt c s k = Some v"
  by (auto simp: get_json_or_run get_json_opt_def split: sum.splits option.splits)

lemma parse_payload_Ok_iff: "parse_payload c b s = (Ok v, s') \<longleftrightarrow> s' = s \<and> from_slice c b = Inr v"
  by (auto simp: parse_payload_def split: sum.splits)

lemma parse_payload_ok [simp]: "codec_ok c \<Longrightarrow> parse_payload c (to_vec_or_default c v) = ret v"
  by (simp add: parse_payload_def from_slice_ok)

lemma ex_cons_split:
  "(\<exists>xs. (\<exists>x t ys. xs = x # ys \<and> P x t \<and> Q t ys) \<and> R xs \<and> S xs) \<longleftrightarrow>
   (\<exists>x t ys. P x t \<and> Q t ys \<and> R (x # ys) \<and> S (x # ys))"
  by blast

lemma run_level_iff:
  "run_level c cmds rc next s = (Ok (rc', next'), s') \<longleftrightarrow>
   (\<exists>outs. level_run c cmds s outs s' \<and>
      rc' = rc\<lparr>rc_total_cost := rc_total_cost rc + sum_list (map out_cost outs),
               rc_events := rc_events rc @ concat (map out_events outs)\<rparr> \<and>
      next' = next @ concat (map out_derived_commands outs))"
proof (induction cmds arbitrary: rc "next" s)
  case Nil
  then show ?case by auto
next
  case (Cons cmd cmds)
  show ?case
  proof (cases "prisms c (cmd_prism cmd)")
    case None
    then show ?thesis by (auto simp: level_run_Cons)
  next
    case (Some p)
    then have "run_level c (cmd # cmds) rc next s = (Ok (rc', next'), s') \<longleftrightarrow>
        (\<exists>out s1. pr_handle p cmd s = (Ok out, s1) \<and>
           run_level c cmds (rc\<lparr>rc_total_cost := rc_total_cost rc + out_cost out,
             rc_events := rc_events rc @ out_events out\<rparr>) (next @ out_derived_commands out) s1 =
             (Ok (rc', next'), s'))"
      by (simp add: andthen_Ok_iff)
    also have "\<dots> \<longleftrightarrow> (\<exists>out s1 outs. pr_handle p cmd s = (Ok out, s1) \<and> level_run c cmds s1 outs s' \<and>
        rc' = rc\<lparr>rc_total_cost := rc_total_cost rc + sum_list (map out_cost (out # outs)),
                 rc_events := rc_events rc @ concat (map out_events (out # outs))\<rparr> \<and>
        next' = next @ concat (map out_derived_commands (out # outs)))"
      by (simp add: Cons.IH add.assoc)
    also have "\<dots> \<longleftrightarrow> (\<exists>all. level_run c (cmd # cmds) s all s' \<and>
        rc' = rc\<lparr>rc_total_cost := rc_total_cost rc + sum_list (map out_cost all),
                 rc_events := rc_events rc @ concat (map out_events all)\<rparr> \<and>
        next' = next @ concat (map out_derived_commands all))"
    proof -
      have "level_run c (cmd # cmds) s all s' \<longleftrightarrow> (\<exists>out s1 outs. all = out # outs \<and>
          pr_handle p cmd s = (Ok out, s1) \<and> level_run c cmds s1 outs s')" for all
        using Some by (simp add: level_run_Cons)
      then show ?thesis by (simp only: ex_cons_split conj_assoc)
    qed
    finally show ?thesis .
  qed
qed

lemma cascade_loop_Nil: "cascade_loop c depth [] rc s =
    (Ok \<lparr>rc_events = rc_events rc, rc_total_cost = rc_total_cost rc, rc_depth = depth\<rparr>, s)"
  by (subst cascade_loop.simps) simp

lemma cascade_loop_iff:
  "cascade_loop c depth frontier rc s = (Ok r, s') \<longleftrightarrow>
   (\<exists>levels. cascade_run c frontier s levels s' \<and>
      (levels = [] \<or> depth + length levels \<le> MAX_CASCADE_DEPTH) \<and>
      r = \<lparr>rc_events = rc_events rc @ concat (map out_events (concat levels)),
           rc_total_cost = rc_total_cost rc + sum_list (map out_cost (concat levels)),
           rc_depth = depth + length levels\<rparr>)"
proof (induction "MAX_CASCADE_DEPTH - depth" arbitrary: depth frontier rc s rule: less_induct)
  case less
  consider "frontier = []" | "frontier \<noteq> []" "MAX_CASCADE_DEPTH \<le> depth"
    | "frontier \<noteq> []" "depth < MAX_CASCADE_DEPTH"
    by linarith
  then show ?case
  proof cases
    case 1
    then show ?thesis by (auto simp: cascade_loop_Nil)
  next
    case 2
    then show ?thesis
      by (auto simp: cascade_loop.simps [of c depth frontier rc] elim: cascade_runE)
  next
    case 3
    then have "cascade_loop c depth frontier rc s = (Ok r, s') \<longleftrightarrow>
        (\<exists>rc' next s1. run_level c frontier rc [] s = (Ok (rc', next), s1) \<and>
           cascade_loop c (depth + 1) next rc' s1 = (Ok r, s'))"
      by (auto simp: cascade_loop.simps [of c depth frontier rc] andthen_Ok_iff)
    also have "\<dots> \<longleftrightarrow> (\<exists>outs s1. level_run c frontier s outs s1 \<and>
         cascade_loop c (depth + 1) (concat (map out_derived_commands outs))
           (rc\<lparr>rc_total_cost := rc_total_cost rc + sum_list (map out_cost outs),
               rc_events := rc_events rc @ concat (map out_events outs)\<rparr>) s1 = (Ok r, s'))"
      unfolding run_level_iff append_Nil by blast
    also have "\<dots> \<longleftrightarrow> (\<exists>outs s1 levels. level_run c frontier s outs s1 \<and>
         cascade_run c (concat (map out_derived_commands outs)) s1 levels s' \<and>
         (levels = [] \<or> depth + 1 + length levels \<le> MAX_CASCADE_DEPTH) \<and>
         r = \<lparr>rc_events = rc_events rc @ concat (map out_events (concat (outs # levels))),
              rc_total_cost = rc_total_cost rc + sum_list (map out_cost (concat (outs # levels))),
              rc_depth = depth + length (outs # levels)\<rparr>)"
      using 3 by (simp add: less add.assoc)
    also have "\<dots> \<longleftrightarrow> (\<exists>levels. cascade_run c frontier s levels s' \<and>
      (levels = [] \<or> depth + length levels \<le> MAX_CASCADE_DEPTH) \<and>
      r = \<lparr>rc_events = rc_events rc @ concat (map out_events (concat levels)),
           rc_total_cost = rc_total_cost rc + sum_list (map out_cost (concat levels)),
           rc_depth = depth + length levels\<rparr>)"
      (is "(\<exists>outs s1 levels. ?A outs s1 \<and> ?B outs s1 levels \<and> ?C levels \<and> ?D (outs # levels)) \<longleftrightarrow>
           (\<exists>levels. ?E levels \<and> ?F levels \<and> ?D levels)")
    proof
      assume "\<exists>outs s1 levels. ?A outs s1 \<and> ?B outs s1 levels \<and> ?C levels \<and> ?D (outs # levels)"
      then obtain outs s1 levels where "?A outs s1" "?B outs s1 levels" "?C levels" "?D (outs # levels)"
        by blast
      then have "?E (outs # levels) \<and> ?F (outs # levels) \<and> ?D (outs # levels)"
        using 3 by (auto intro: cascade_next)
      then show "\<exists>levels. ?E levels \<and> ?F levels \<and> ?D levels" by blast
    next
      assume "\<exists>levels. ?E levels \<and> ?F levels \<and> ?D levels"
      then obtain levels where l: "?E levels" "?F levels" "?D levels" by blast
      from l(1) 3 obtain outs s1 rest where "levels = outs # rest" "?A outs s1" "?B outs s1 rest"
        by (auto elim: cascade_runE)
      with l(2,3) show "\<exists>outs s1 levels. ?A outs s1 \<and> ?B outs s1 levels \<and> ?C levels \<and> ?D (outs # levels)"
        by auto
    qed
    finally show ?thesis .
  qed
qed

lemma keeps_run_level:
  assumes "\<And>name p cmd. prisms c name = Some p \<Longrightarrow> keeps P (pr_handle p cmd)"
  shows "keeps P (run_level c cmds rc next)"
proof (induction cmds arbitrary: rc "next")
  case Nil
  then show ?case by (simp add: keeps_intros)
next
  case (Cons cmd cmds)
  then show ?case
    using assms by (auto intro!: keeps_intros split: option.splits)
qed

lemma keeps_cascade_loop:
  assumes "\<And>name p cmd. prisms c name = Some p \<Longrightarrow> keeps P (pr_handle p cmd)"
  shows "keeps P (cascade_loop c depth frontier rc)"
  using assms
proof (induction c depth frontier rc rule: cascade_loop.induct)
  case (1 c depth frontier rc)
  then show ?case
    unfolding cascade_loop.simps [of c depth frontier rc]
    by (auto intro!: keeps_intros keeps_run_level split: prod.splits)
qed

section \<open>Properties\<close>

text \<open>
  C17. The pipeline refines the breadth-first specification: it succeeds exactly on the runs of at
  most eight levels in which every handler succeeds, ends in the state of that run, and its receipt
  holds the events in execution order, the wrapped sum of the costs and the number of levels.
\<close>

theorem cascade_apply_refines:
  "cascade_apply c cmd s = (Ok r, s') \<longleftrightarrow>
   (\<exists>levels. cascade_run c [cmd] s levels s' \<and> length levels \<le> MAX_CASCADE_DEPTH \<and> r = receipt_of levels)"
  unfolding cascade_apply_def cascade_loop_iff receipt_of_def by auto

text \<open>
  Whatever state property every installed handler keeps, the whole pipeline keeps, on success, on
  error and on panic alike.
\<close>

theorem cascade_apply_keeps:
  assumes "\<And>name p cmd. prisms c name = Some p \<Longrightarrow> keeps P (pr_handle p cmd)"
    and "P s" and "cascade_apply c cmd s = (r, s')"
  shows "P s'"
proof -
  have "keeps P (cascade_apply c cmd)"
    unfolding cascade_apply_def using assms(1) by (rule keeps_cascade_loop)
  then show ?thesis using assms(2,3) by (rule keepsD)
qed

theorem cascade_apply_keeps_witness:
  "st_get (snd (cascade_apply cascade_new demo_command demo_state)) ''a'' = Some [1]"
  by (rule cascade_apply_keeps [where P = "\<lambda>s. st_get s ''a'' = Some [1]" and s = demo_state
        and c = cascade_new and cmd = demo_command
        and r = "fst (cascade_apply cascade_new demo_command demo_state)"])
    (simp_all add: cascade_new_def demo_state_def)

text \<open>
  A command for a prism that is not installed is rejected with its name, before any write.
\<close>

theorem cascade_apply_unknown:
  assumes "\<not> cascade_has c (cmd_prism cmd)"
  shows "cascade_apply c cmd s = (Err (UnknownPrism (cmd_prism cmd)), s)"
  using assms by (simp add: cascade_apply_def cascade_loop.simps cascade_has_def MAX_CASCADE_DEPTH_def
      andthen_def)

theorem cascade_apply_unknown_witness:
  "cascade_apply cascade_new demo_command st_new = (Err (UnknownPrism (cmd_prism demo_command)), st_new)"
  by (rule cascade_apply_unknown) (simp add: cascade_has_def cascade_new_def)

end
