(* ===== verification/Ledger.thy ===== *)
theory Ledger
  imports Kernel_Cascade
begin

text \<open>
  The interface of a book of \<open>u128\<close> amounts kept in the state: reading after writing, and finitely
  many non-zero entries. The locale proves once what the ledgers of the prisms need: how the total
  of the book moves under a write, that moving an amount between two entries keeps it, and that no
  entry exceeds it.
\<close>

definition book_total :: "('k \<Rightarrow> u128) \<Rightarrow> nat" where
  "book_total f = (\<Sum>k | f k \<noteq> 0. unat (f k))"

lemma book_total_superset:
  assumes "finite A" and "{k. f k \<noteq> 0} \<subseteq> A"
  shows "book_total f = (\<Sum>k \<in> A. unat (f k))"
  unfolding book_total_def using assms by (intro sum.mono_neutral_left) auto

lemma book_total_upd:
  assumes "finite {k. f k \<noteq> 0}"
  shows "book_total (f(k := v)) + unat (f k) = book_total f + unat v"
proof -
  let ?A = "insert k {k. f k \<noteq> 0}"
  have fin: "finite ?A" using assms by simp
  have "book_total (f(k := v)) = (\<Sum>j \<in> ?A. unat ((f(k := v)) j))"
    by (rule book_total_superset [OF fin]) auto
  also have "\<dots> = unat v + (\<Sum>j \<in> ?A - {k}. unat (f j))"
    using fin by (simp add: sum.remove [of ?A k])
  finally have 1: "book_total (f(k := v)) = unat v + (\<Sum>j \<in> ?A - {k}. unat (f j))" .
  have "book_total f = (\<Sum>j \<in> ?A. unat (f j))"
    by (rule book_total_superset [OF fin]) auto
  also have "\<dots> = unat (f k) + (\<Sum>j \<in> ?A - {k}. unat (f j))"
    using fin by (simp add: sum.remove [of ?A k])
  finally show ?thesis using 1 by simp
qed

lemma book_total_zero: "(\<And>k. f k = 0) \<Longrightarrow> book_total f = 0"
  by (simp add: book_total_def)

lemma entry_le_book_total:
  assumes "finite {k. f k \<noteq> 0}"
  shows "unat (f k) \<le> book_total f"
proof (cases "f k = 0")
  case False
  then show ?thesis
    unfolding book_total_def using assms by (intro member_le_sum) auto
qed simp

lemma two_entries_le_book_total:
  assumes "finite {k. f k \<noteq> 0}" and "k \<noteq> l"
  shows "unat (f k) + unat (f l) \<le> book_total f"
proof -
  let ?A = "insert k (insert l {k. f k \<noteq> 0})"
  have "unat (f k) + unat (f l) = (\<Sum>j \<in> {k, l}. unat (f j))"
    using assms(2) by simp
  also have "\<dots> \<le> (\<Sum>j \<in> ?A. unat (f j))"
    using assms(1) by (intro sum_mono2) auto
  also have "\<dots> = book_total f"
    using assms(1) by (intro book_total_superset [symmetric]) auto
  finally show ?thesis .
qed

locale u128_book =
  fixes ok :: "'e \<Rightarrow> bool"
    and rd :: "'e \<Rightarrow> 's \<Rightarrow> 'k \<Rightarrow> u128"
    and wr :: "'e \<Rightarrow> 'k \<Rightarrow> u128 \<Rightarrow> 's \<Rightarrow> 's"
  assumes rd_wr: "ok e \<Longrightarrow> rd e (wr e k v s) = (rd e s)(k := v)"
    and finite_support: "ok e \<Longrightarrow> finite {k. rd e s k \<noteq> 0}"
begin

lemma total_wr:
  "ok e \<Longrightarrow> book_total (rd e (wr e k v s)) + unat (rd e s k) = book_total (rd e s) + unat v"
  by (simp add: rd_wr book_total_upd finite_support)

lemma total_debit:
  assumes "ok e" and "a \<le> rd e s k"
  shows "book_total (rd e (wr e k (rd e s k - a) s)) + unat a = book_total (rd e s)"
proof -
  have "unat (rd e s k - a) = unat (rd e s k) - unat a" and "unat a \<le> unat (rd e s k)"
    using assms(2) by (simp_all add: unat_sub word_le_nat_alt)
  then show ?thesis
    using total_wr [OF assms(1), of k "rd e s k - a" s] by linarith
qed

lemma total_credit:
  assumes "ok e" and "checked_add (rd e s k) a = Some v"
  shows "book_total (rd e (wr e k v s)) = book_total (rd e s) + unat a"
  using total_wr [OF assms(1), of k v s] unat_checked_add [OF assms(2)] by linarith

lemma total_move:
  assumes "ok e" and "a \<le> rd e s k"
    and "checked_add (rd e (wr e k (rd e s k - a) s) l) a = Some v"
  shows "book_total (rd e (wr e l v (wr e k (rd e s k - a) s))) = book_total (rd e s)"
  using total_credit [OF assms(1,3)] total_debit [OF assms(1,2)] by simp

lemma entry_le_total: "ok e \<Longrightarrow> unat (rd e s k) \<le> book_total (rd e s)"
  by (simp add: entry_le_book_total finite_support)

lemma credit_fits:
  assumes "ok e" and "book_total (rd e s) < 2 ^ 128" and "k \<noteq> l" and "a \<le> rd e s k"
  shows "checked_add (rd e s l) a = Some (rd e s l + a)"
proof -
  have "unat (rd e s k) + unat (rd e s l) \<le> book_total (rd e s)"
    using assms(1,3) by (simp add: two_entries_le_book_total finite_support)
  moreover have "unat a \<le> unat (rd e s k)"
    using assms(4) by (simp add: word_le_nat_alt)
  ultimately show ?thesis
    using assms(2) by (simp add: checked_add_def)
qed

end

end
