(* ===== verification/Identity.thy ===== *)
theory Identity
  imports Kernel_Types
begin

text \<open>
  \<open>veil/src/identity.rs\<close>: party identities and signature checks. The Ed25519 primitives of
  \<open>ed25519_dalek\<close> are parameters: key validity (\<open>VerifyingKey::from_bytes\<close>), verification, the public
  key of a seed and signing.
\<close>

record identity_ext = kernel_ext +
  ed_key_valid :: "bytes \<Rightarrow> bool"
  ed_verify :: "bytes \<Rightarrow> bytes \<Rightarrow> bytes \<Rightarrow> bool"
  ed_public :: "bytes \<Rightarrow> bytes"
  ed_sign :: "bytes \<Rightarrow> bytes \<Rightarrow> bytes"

text \<open>What the library documents: the sizes of keys and signatures, and that signatures verify.\<close>

definition identity_ext_ok :: "'x identity_ext_scheme \<Rightarrow> bool" where
  "identity_ext_ok X \<longleftrightarrow> kernel_ext_ok X \<and>
     (\<forall>seed. length (ed_public X seed) = 32 \<and> ed_key_valid X (ed_public X seed)) \<and>
     (\<forall>seed m. length (ed_sign X seed m) = 64 \<and> ed_verify X (ed_public X seed) m (ed_sign X seed m))"

datatype identity_error = BadPublicKey | BadSignature | VerificationFailed | PartyKeyMismatch

definition identity_error_to_string :: "identity_error \<Rightarrow> string" where
  "identity_error_to_string e = (case e of
      BadPublicKey \<Rightarrow> ''malformed public key''
    | BadSignature \<Rightarrow> ''malformed signature''
    | VerificationFailed \<Rightarrow> ''signature verification failed''
    | PartyKeyMismatch \<Rightarrow> ''submitter party does not match signing key'')"

record party_identity =
  pi_party :: party_id
  pi_signing_key :: bytes

definition from_seed :: "string \<Rightarrow> bytes \<Rightarrow> party_identity" where
  "from_seed label seed = \<lparr>pi_party = PartyId label, pi_signing_key = seed\<rparr>"

definition public_key :: "'x identity_ext_scheme \<Rightarrow> party_identity \<Rightarrow> bytes" where
  "public_key X i = ed_public X (pi_signing_key i)"

definition sign_for_chain :: "'x identity_ext_scheme \<Rightarrow> party_identity \<Rightarrow> command \<Rightarrow> u64 \<Rightarrow> signed_command" where
  "sign_for_chain X i c chain_id =
     \<lparr>sc_command = c, sc_public_key = public_key X i,
      sc_signature = ed_sign X (pi_signing_key i) (signing_bytes_for_chain X c chain_id),
      sc_chain_id = chain_id\<rparr>"

definition sign_command :: "'x identity_ext_scheme \<Rightarrow> party_identity \<Rightarrow> command \<Rightarrow> signed_command" where
  "sign_command X i c = sign_for_chain X i c 0"

definition sign_bytes :: "'x identity_ext_scheme \<Rightarrow> party_identity \<Rightarrow> bytes \<Rightarrow> bytes" where
  "sign_bytes X i m = ed_sign X (pi_signing_key i) m"

definition verify_bytes :: "'x identity_ext_scheme \<Rightarrow> bytes \<Rightarrow> bytes \<Rightarrow> bytes \<Rightarrow> identity_error + unit" where
  "verify_bytes X pk message signature =
     (if length pk \<noteq> 32 then Inl BadPublicKey
      else if \<not> ed_key_valid X pk then Inl BadPublicKey
      else if length signature \<noteq> 64 then Inl BadSignature
      else if ed_verify X pk message signature then Inr ()
      else Inl VerificationFailed)"

definition verify_signed :: "'x identity_ext_scheme \<Rightarrow> signed_command \<Rightarrow> identity_error + unit" where
  "verify_signed X sc =
     (if length (sc_public_key sc) \<noteq> 32 then Inl BadPublicKey
      else if \<not> ed_key_valid X (sc_public_key sc) then Inl BadPublicKey
      else if length (sc_signature sc) \<noteq> 64 then Inl BadSignature
      else if ed_verify X (sc_public_key sc)
                (signing_bytes_for_chain X (sc_command sc) (sc_chain_id sc)) (sc_signature sc)
      then Inr () else Inl VerificationFailed)"

definition verify_signed_batch :: "'x identity_ext_scheme \<Rightarrow> signed_command list \<Rightarrow> (identity_error + unit) list" where
  "verify_signed_batch X = map (verify_signed X)"

section \<open>Lemmas\<close>

lemma identity_ext_okD:
  assumes "identity_ext_ok X"
  shows "kernel_ext_ok X" "hash_ext_ok X" "length (ed_public X seed) = 32"
    "ed_key_valid X (ed_public X seed)" "length (ed_sign X seed m) = 64"
    "ed_verify X (ed_public X seed) m (ed_sign X seed m)"
  using assms by (simp_all add: identity_ext_ok_def kernel_ext_ok_def)

lemma verify_signed_bytes:
  "verify_signed X sc = verify_bytes X (sc_public_key sc)
     (signing_bytes_for_chain X (sc_command sc) (sc_chain_id sc)) (sc_signature sc)"
  by (simp add: verify_signed_def verify_bytes_def)

lemma verify_bytes_Inr_iff: "verify_bytes X pk m sg = Inr u \<longleftrightarrow>
    length pk = 32 \<and> ed_key_valid X pk \<and> length sg = 64 \<and> ed_verify X pk m sg"
  by (simp add: verify_bytes_def)

lemma verify_sign_bytes: "identity_ext_ok X \<Longrightarrow> verify_bytes X (public_key X i) m (sign_bytes X i m) = Inr ()"
  by (simp add: verify_bytes_Inr_iff public_key_def sign_bytes_def identity_ext_okD)

text \<open>
  A concrete instance of the primitives: a signature repeats the seed and the length of the message.
\<close>

definition pad :: "nat \<Rightarrow> bytes \<Rightarrow> bytes" where
  "pad n b = take n (b @ replicate n 0)"

definition ref_identity_ext :: identity_ext where
  "ref_identity_ext = kernel_ext.extend ref_kernel_ext
     (identity_ext.fields (\<lambda>_. True) (\<lambda>pk m sg. sg = pad 64 (pk @ m)) (pad 32) (\<lambda>seed m. pad 64 (pad 32 seed @ m)))"

lemma length_pad [simp]: "length (pad n b) = n"
  by (simp add: pad_def)

lemma ref_identity_ext_ok: "identity_ext_ok ref_identity_ext"
  using ref_kernel_ext_ok
  by (simp add: identity_ext_ok_def kernel_ext_ok_def hash_ext_ok_def ref_identity_ext_def
      kernel_ext.defs identity_ext.defs)

section \<open>Properties\<close>

text \<open>
  Signing and verifying agree: a command signed for a chain verifies, a changed signature
  length or key length is reported as such, and verification depends on the command only through its
  signing bytes.
\<close>

theorem sign_verify_roundtrip:
  assumes "identity_ext_ok X"
  shows "verify_signed X (sign_for_chain X i c chain_id) = Inr () \<and>
    verify_signed X ((sign_for_chain X i c chain_id)\<lparr>sc_signature := sg\<rparr>) =
      verify_bytes X (public_key X i) (signing_bytes_for_chain X c chain_id) sg"
  using assms verify_sign_bytes [OF assms, of i]
  by (simp add: verify_signed_bytes sign_for_chain_def sign_bytes_def)

theorem sign_verify_roundtrip_witness:
  "verify_signed ref_identity_ext (sign_for_chain ref_identity_ext (from_seed ''alice'' [1]) demo_command 7) = Inr ()"
  using sign_verify_roundtrip [OF ref_identity_ext_ok] by simp

end
