(* ===== verification/Veil.thy ===== *)
theory Veil
  imports Identity
begin

text \<open>
  \<open>veil/src/lib.rs\<close>, \<open>view.rs\<close>, \<open>projection.rs\<close>, \<open>ledger.rs\<close> and \<open>disclosure.rs\<close>: per-party encrypted views of
  events, the projection of a block into them, the sub-ledger a party rebuilds from its views, and the
  grants that disclose selected views to an auditor. ChaCha20-Poly1305 and X25519 are library code: they
  are the parameters \<open>aead_seal\<close>, \<open>aead_open\<close>, \<open>x25519_base\<close> and \<open>x25519_dh\<close>. Keys have the array type
  \<open>[u8; 32]\<close> in the sources; the errors of building a cipher and of running it are mapped to the same
  variant, so the parameters cover both.
\<close>

section \<open>Parameters\<close>

record veil_ext = identity_ext +
  aead_seal :: "bytes \<Rightarrow> bytes \<Rightarrow> bytes \<Rightarrow> bytes \<Rightarrow> string + bytes"
  aead_open :: "bytes \<Rightarrow> bytes \<Rightarrow> bytes \<Rightarrow> bytes \<Rightarrow> bytes option"
  x25519_base :: "bytes \<Rightarrow> bytes"
  x25519_dh :: "bytes \<Rightarrow> bytes \<Rightarrow> bytes"
  js_event :: "event codec"
  js_command :: "command codec"

text \<open>
  What the libraries document: with a key of 32 bytes and a nonce of 12, what is sealed under some associated
  data opens under the same data; both ends of a Diffie-Hellman exchange compute the same secret.
\<close>

definition veil_ext_ok :: "'x veil_ext_scheme \<Rightarrow> bool" where
  "veil_ext_ok X \<longleftrightarrow> identity_ext_ok X \<and> codec_ok (js_event X) \<and> codec_ok (js_command X) \<and>
     (\<forall>k n a m. length k = 32 \<and> length n = 12 \<longrightarrow>
        (\<exists>c. aead_seal X k n a m = Inr c \<and> aead_open X k n a c = Some m)) \<and>
     (\<forall>a b. x25519_dh X a (x25519_base X b) = x25519_dh X b (x25519_base X a))"

section \<open>Views\<close>

datatype view_error = Decryption | Encryption string | Serialization string | NoKey string

record encrypted_view =
  vw_commitment :: hash
  vw_recipient :: party_id
  vw_nonce :: bytes
  vw_ciphertext :: bytes

record view_keyring =
  kr_party :: party_id
  kr_seed :: bytes

definition derive_view_key :: "'x hash_ext_scheme \<Rightarrow> bytes \<Rightarrow> hash \<Rightarrow> bytes" where
  "derive_view_key X party_seed view_id =
     blake3 X (as_bytes ''veilux/veil/view-key/v1'' @ party_seed @ hash_bytes view_id)"

definition derive_nonce :: "'x hash_ext_scheme \<Rightarrow> hash \<Rightarrow> party_id \<Rightarrow> bytes" where
  "derive_nonce X c recipient =
     take 12 (blake3 X (as_bytes ''veilux/veil/nonce'' @ hash_bytes c @ as_bytes (party_name recipient)))"

definition view_seal :: "'x veil_ext_scheme \<Rightarrow> event \<Rightarrow> party_id \<Rightarrow> bytes \<Rightarrow> view_error + encrypted_view" where
  "view_seal X event recipient key =
     (let c = commitment X event in
      case to_vec (js_event X) event of
        Inl e \<Rightarrow> Inl (Serialization e)
      | Inr plaintext \<Rightarrow>
          let nonce = derive_nonce X c recipient in
          case aead_seal X key nonce (hash_bytes c) plaintext of
            Inl e \<Rightarrow> Inl (Encryption e)
          | Inr ciphertext \<Rightarrow>
              Inr \<lparr>vw_commitment = c, vw_recipient = recipient, vw_nonce = nonce, vw_ciphertext = ciphertext\<rparr>)"

definition view_open :: "'x veil_ext_scheme \<Rightarrow> encrypted_view \<Rightarrow> bytes \<Rightarrow> view_error + event" where
  "view_open X view key =
     (case aead_open X key (vw_nonce view) (hash_bytes (vw_commitment view)) (vw_ciphertext view) of
        None \<Rightarrow> Inl Decryption
      | Some plaintext \<Rightarrow>
          case from_slice (js_event X) plaintext of
            Inl e \<Rightarrow> Inl (Serialization e)
          | Inr event \<Rightarrow> Inr event)"

definition from_passphrase :: "'x hash_ext_scheme \<Rightarrow> party_id \<Rightarrow> string \<Rightarrow> view_keyring" where
  "from_passphrase X party passphrase = \<lparr>kr_party = party, kr_seed = blake3 X (as_bytes passphrase)\<rparr>"

definition key_for :: "'x hash_ext_scheme \<Rightarrow> view_keyring \<Rightarrow> hash \<Rightarrow> bytes" where
  "key_for X k view_id = derive_view_key X (kr_seed k) view_id"

definition x25519_secret :: "'x hash_ext_scheme \<Rightarrow> view_keyring \<Rightarrow> bytes" where
  "x25519_secret X k = blake3 X (as_bytes ''veilux/veil/x25519-static/v1'' @ kr_seed k)"

definition x25519_public :: "'x veil_ext_scheme \<Rightarrow> view_keyring \<Rightarrow> bytes" where
  "x25519_public X k = x25519_base X (x25519_secret X k)"

definition kr_seal :: "'x veil_ext_scheme \<Rightarrow> view_keyring \<Rightarrow> event \<Rightarrow> view_error + encrypted_view" where
  "kr_seal X k event = view_seal X event (kr_party k) (key_for X k (commitment X event))"

definition kr_open :: "'x veil_ext_scheme \<Rightarrow> view_keyring \<Rightarrow> encrypted_view \<Rightarrow> view_error + event" where
  "kr_open X k view =
     (if vw_recipient view \<noteq> kr_party k then Inl (NoKey (party_name (vw_recipient view)))
      else view_open X view (key_for X k (vw_commitment view)))"

section \<open>Projection of a block\<close>

record projection =
  pj_commitments :: "hash list"
  pj_events_root :: hash
  pj_views_by_party :: "(party_id, encrypted_view list) fmap"

definition view_count :: "projection \<Rightarrow> nat" where
  "view_count p = sum_list (map (length \<circ> snd) (sorted_list_of_fmap (pj_views_by_party p)))"

definition keyring_of :: "view_keyring list \<Rightarrow> party_id \<Rightarrow> view_keyring option" where
  "keyring_of keyrings party = find (\<lambda>k. kr_party k = party) keyrings"

definition event_parties :: "view_keyring list \<Rightarrow> event \<Rightarrow> party_id list" where
  "event_parties keyrings event = (case ev_visibility event of
      Public \<Rightarrow> map kr_party keyrings
    | Parties ps \<Rightarrow> ps)"

definition views_at :: "(party_id, encrypted_view list) fmap \<Rightarrow> party_id \<Rightarrow> encrypted_view list" where
  "views_at m p = (case fmlookup m p of None \<Rightarrow> [] | Some vs \<Rightarrow> vs)"

fun project_parties ::
  "'x veil_ext_scheme \<Rightarrow> view_keyring list \<Rightarrow> event \<Rightarrow> party_id list \<Rightarrow> (party_id, encrypted_view list) fmap \<Rightarrow>
   view_error + (party_id, encrypted_view list) fmap" where
  "project_parties X ks event [] m = Inr m"
| "project_parties X ks event (p # ps) m =
     (case keyring_of ks p of
        None \<Rightarrow> project_parties X ks event ps m
      | Some k \<Rightarrow>
          case kr_seal X k event of
            Inl e \<Rightarrow> Inl e
          | Inr view \<Rightarrow> project_parties X ks event ps (fmupd p (views_at m p @ [view]) m))"

fun project_events ::
  "'x veil_ext_scheme \<Rightarrow> view_keyring list \<Rightarrow> event list \<Rightarrow> hash list \<times> (party_id, encrypted_view list) fmap \<Rightarrow>
   view_error + hash list \<times> (party_id, encrypted_view list) fmap" where
  "project_events X ks [] acc = Inr acc"
| "project_events X ks (event # events) (cs, m) =
     (case project_parties X ks event (event_parties ks event) m of
        Inl e \<Rightarrow> Inl e
      | Inr m' \<Rightarrow> project_events X ks events (cs @ [commitment X event], m'))"

definition project_block :: "'x veil_ext_scheme \<Rightarrow> block \<Rightarrow> view_keyring list \<Rightarrow> view_error + projection" where
  "project_block X b keyrings =
     (case project_events X keyrings (blk_events b) ([], fmempty) of
        Inl e \<Rightarrow> Inl e
      | Inr (cs, m) \<Rightarrow>
          Inr \<lparr>pj_commitments = cs, pj_events_root = merkle_root X cs, pj_views_by_party = m\<rparr>)"

section \<open>Sub-ledgers\<close>

record sub_ledger_entry =
  sle_height :: u64
  sle_commitment :: hash
  sle_event :: event

record sub_ledger =
  sl_party :: "party_id option"
  sl_entries :: "sub_ledger_entry list"
  sl_validated_root :: hash
  sl_height :: u64

definition sub_ledger_new :: "party_id \<Rightarrow> sub_ledger" where
  "sub_ledger_new party = \<lparr>sl_party = Some party, sl_entries = [], sl_validated_root = ZERO, sl_height = 0\<rparr>"

fun apply_loop ::
  "'x veil_ext_scheme \<Rightarrow> u64 \<Rightarrow> view_keyring \<Rightarrow> encrypted_view list \<Rightarrow> nat \<Rightarrow> (sub_ledger, view_error, nat) act" where
  "apply_loop X height k [] applied = ret applied"
| "apply_loop X height k (view # views) applied =
     (case kr_open X k view of
        Inl e \<Rightarrow> raise e
      | Inr event \<Rightarrow>
          andthen (modify (\<lambda>l. l\<lparr>sl_entries := sl_entries l @
            [\<lparr>sle_height = height, sle_commitment = vw_commitment view, sle_event = event\<rparr>]\<rparr>)) (\<lambda>_.
          apply_loop X height k views (applied + 1)))"

definition apply_views ::
  "'x veil_ext_scheme \<Rightarrow> u64 \<Rightarrow> hash \<Rightarrow> encrypted_view list \<Rightarrow> view_keyring \<Rightarrow> (sub_ledger, view_error, nat) act" where
  "apply_views X height expected_root views k =
     andthen (apply_loop X height k views 0) (\<lambda>applied.
     andthen (modify (\<lambda>l. l\<lparr>sl_height := height, sl_validated_root := expected_root\<rparr>)) (\<lambda>_.
     ret applied))"

definition entries_for_prism :: "sub_ledger \<Rightarrow> string \<Rightarrow> sub_ledger_entry list" where
  "entries_for_prism l name = filter (\<lambda>e. ev_prism (sle_event e) = name) (sl_entries l)"

definition contains_commitment :: "sub_ledger \<Rightarrow> hash \<Rightarrow> bool" where
  "contains_commitment l c \<longleftrightarrow> (\<exists>e \<in> set (sl_entries l). sle_commitment e = c)"

section \<open>Disclosure\<close>

datatype grant_scope = All | ScopePrism string | HeightRange u64 u64 | Events "hash list"

record disclosure_grant =
  dg_grantor :: party_id
  dg_grantee :: party_id
  dg_scope :: grant_scope
  dg_keys :: "(hash \<times> bytes) list"
  dg_justification :: string

record auditable_entry =
  ae_height :: u64
  ae_prism :: string
  ae_view :: encrypted_view

definition covers :: "disclosure_grant \<Rightarrow> hash \<Rightarrow> bool" where
  "covers g c \<longleftrightarrow> (\<exists>(d, k) \<in> set (dg_keys g). d = c)"

definition disclosed_count :: "disclosure_grant \<Rightarrow> nat" where
  "disclosed_count g = length (dg_keys g)"

definition scope_matches :: "grant_scope \<Rightarrow> auditable_entry \<Rightarrow> bool" where
  "scope_matches scope entry = (case scope of
      All \<Rightarrow> True
    | ScopePrism p \<Rightarrow> ae_prism entry = p
    | HeightRange lo hi \<Rightarrow> ae_height entry \<ge> lo \<and> ae_height entry \<le> hi
    | Events cs \<Rightarrow> vw_commitment (ae_view entry) \<in> set cs)"

definition grant_disclosure ::
  "'x hash_ext_scheme \<Rightarrow> view_keyring \<Rightarrow> party_id \<Rightarrow> grant_scope \<Rightarrow> auditable_entry list \<Rightarrow> string \<Rightarrow> disclosure_grant" where
  "grant_disclosure X k grantee scope entries justification =
     \<lparr>dg_grantor = kr_party k, dg_grantee = grantee, dg_scope = scope,
      dg_keys = map (\<lambda>entry. (vw_commitment (ae_view entry), key_for X k (vw_commitment (ae_view entry))))
                  (filter (scope_matches scope) entries),
      dg_justification = justification\<rparr>"

fun audit_open :: "'x veil_ext_scheme \<Rightarrow> disclosure_grant \<Rightarrow> encrypted_view list \<Rightarrow> view_error + event list" where
  "audit_open X g [] = Inr []"
| "audit_open X g (view # views) =
     (case find (\<lambda>(c, _). c = vw_commitment view) (dg_keys g) of
        None \<Rightarrow> audit_open X g views
      | Some (_, key) \<Rightarrow>
          case view_open X view key of
            Inl e \<Rightarrow> Inl e
          | Inr event \<Rightarrow> map_sum id ((#) event) (audit_open X g views))"

section \<open>Sealing and opening\<close>

lemma veil_ext_okD:
  assumes "veil_ext_ok X"
  shows "identity_ext_ok X" "kernel_ext_ok X" "hash_ext_ok X" "codec_ok (js_event X)" "codec_ok (js_command X)"
  using assms by (simp_all add: veil_ext_ok_def identity_ext_okD)

lemma length_blake3: "hash_ext_ok X \<Longrightarrow> length (blake3 X b) = 32"
  by (simp add: hash_ext_ok_def)

lemma length_derived:
  assumes "hash_ext_ok X"
  shows "length (key_for X k c) = 32" "length (derive_nonce X c p) = 12"
  using assms by (simp_all add: key_for_def derive_view_key_def derive_nonce_def length_blake3)

definition sealed :: "'x veil_ext_scheme \<Rightarrow> view_keyring \<Rightarrow> event \<Rightarrow> encrypted_view" where
  "sealed X k e = projr (kr_seal X k e)"

lemma kr_seal_ok:
  assumes "veil_ext_ok X"
  shows "kr_seal X k e = Inr (sealed X k e)" "vw_commitment (sealed X k e) = commitment X e"
    "vw_recipient (sealed X k e) = kr_party k" "kr_open X k (sealed X k e) = Inr e"
    "view_open X (sealed X k e) (key_for X k (commitment X e)) = Inr e"
proof -
  note h = veil_ext_okD(3) [OF assms] and j = codec_okD [OF veil_ext_okD(4) [OF assms]]
  let ?c = "commitment X e"
  obtain ct where ct: "aead_seal X (key_for X k ?c) (derive_nonce X ?c (kr_party k)) (hash_bytes ?c)
      (to_vec_or_default (js_event X) e) = Inr ct"
    "aead_open X (key_for X k ?c) (derive_nonce X ?c (kr_party k)) (hash_bytes ?c) ct =
      Some (to_vec_or_default (js_event X) e)"
    using assms length_derived [OF h] unfolding veil_ext_ok_def by blast
  have s: "kr_seal X k e = Inr \<lparr>vw_commitment = ?c, vw_recipient = kr_party k, vw_nonce = derive_nonce X ?c (kr_party k),
      vw_ciphertext = ct\<rparr>"
    by (simp add: kr_seal_def view_seal_def Let_def j(1) ct(1))
  then show "kr_seal X k e = Inr (sealed X k e)" "vw_commitment (sealed X k e) = ?c" "vw_recipient (sealed X k e) = kr_party k"
    by (simp_all add: sealed_def)
  show "view_open X (sealed X k e) (key_for X k ?c) = Inr e" "kr_open X k (sealed X k e) = Inr e"
    using s ct(2) j(2) by (simp_all add: sealed_def kr_open_def view_open_def)
qed

section \<open>Projection\<close>

lemma views_at_upd: "views_at (fmupd p vs m) q = (if p = q then vs else views_at m q)"
  by (simp add: views_at_def)

definition party_views :: "'x veil_ext_scheme \<Rightarrow> view_keyring list \<Rightarrow> party_id \<Rightarrow> event \<Rightarrow> encrypted_view list" where
  "party_views X ks p e = (case keyring_of ks p of None \<Rightarrow> [] | Some k \<Rightarrow>
     replicate (count_list (event_parties ks e) p) (sealed X k e))"

lemma project_parties_ok:
  assumes "veil_ext_ok X"
  shows "\<exists>m'. project_parties X ks e ps m = Inr m' \<and> (\<forall>p. views_at m' p = views_at m p @
    (case keyring_of ks p of None \<Rightarrow> [] | Some k \<Rightarrow> replicate (count_list ps p) (sealed X k e)))"
proof (induction ps arbitrary: m)
  case Nil
  then show ?case by (simp split: option.splits)
next
  case (Cons q ps)
  show ?case
  proof (cases "keyring_of ks q")
    case None
    then obtain m' where m': "project_parties X ks e ps m = Inr m'" "\<And>p. views_at m' p = views_at m p @
      (case keyring_of ks p of None \<Rightarrow> [] | Some k \<Rightarrow> replicate (count_list ps p) (sealed X k e))"
      using Cons.IH [of m] by blast
    then show ?thesis using None by (auto split: option.splits)
  next
    case (Some k)
    let ?m = "fmupd q (views_at m q @ [sealed X k e]) m"
    obtain m' where m': "project_parties X ks e ps ?m = Inr m'" "\<And>p. views_at m' p = views_at ?m p @
      (case keyring_of ks p of None \<Rightarrow> [] | Some k \<Rightarrow> replicate (count_list ps p) (sealed X k e))"
      using Cons.IH [of ?m] by blast
    then show ?thesis
      using Some kr_seal_ok(1) [OF assms] by (auto simp: views_at_upd split: option.splits)
  qed
qed

lemma project_events_ok:
  assumes "veil_ext_ok X"
  shows "\<exists>m'. project_events X ks es (cs, m) = Inr (cs @ map (commitment X) es, m') \<and>
    (\<forall>p. views_at m' p = views_at m p @ concat (map (party_views X ks p) es))"
proof (induction es arbitrary: cs m)
  case Nil
  then show ?case by simp
next
  case (Cons e es)
  obtain m1 where m1: "project_parties X ks e (event_parties ks e) m = Inr m1"
    "\<And>p. views_at m1 p = views_at m p @ party_views X ks p e"
    unfolding party_views_def using project_parties_ok [OF assms] by blast
  obtain m' where "project_events X ks es (cs @ [commitment X e], m1) = Inr ((cs @ [commitment X e]) @ map (commitment X) es, m')"
    "\<And>p. views_at m' p = views_at m1 p @ concat (map (party_views X ks p) es)"
    using Cons.IH [of "cs @ [commitment X e]" m1] by blast
  with m1 show ?case by simp
qed

lemma keyring_ofD: "keyring_of ks p = Some k \<Longrightarrow> k \<in> set ks \<and> kr_party k = p"
  by (auto simp: keyring_of_def find_Some_iff)

lemma keyring_of_mem:
  "distinct (map kr_party ks) \<Longrightarrow> k \<in> set ks \<Longrightarrow> keyring_of ks (kr_party k) = Some k"
  by (induction ks) (auto simp: keyring_of_def)

lemma count_list_distinct: "distinct xs \<Longrightarrow> count_list xs x = (if x \<in> set xs then 1 else 0)"
  by (induction xs) auto

lemma party_views_visible:
  assumes "distinct (map kr_party ks)" and "distinct (stakeholders (ev_visibility e))" and "keyring_of ks p = Some k"
  shows "party_views X ks p e = (if vis_includes (ev_visibility e) p then [sealed X k e] else [])"
proof -
  have "distinct (event_parties ks e)" and "p \<in> set (event_parties ks e) \<longleftrightarrow> vis_includes (ev_visibility e) p"
    using assms keyring_ofD [OF assms(3)]
    by (auto simp: event_parties_def stakeholders_def vis_includes_def split: visibility.splits)
  then show ?thesis by (simp add: party_views_def assms(3) count_list_distinct)
qed

lemma concat_if: "concat (map (\<lambda>x. if P x then [f x] else []) xs) = map f (filter P xs)"
  by (induction xs) auto

lemma apply_loop_ok:
  assumes "veil_ext_ok X"
  shows "apply_loop X h k (map (sealed X k) es) n l = (Ok (n + length es), l\<lparr>sl_entries := sl_entries l @
    map (\<lambda>e. \<lparr>sle_height = h, sle_commitment = commitment X e, sle_event = e\<rparr>) es\<rparr>)"
  by (induction es arbitrary: n l) (simp_all add: kr_seal_ok [OF assms])

section \<open>Disclosure\<close>

lemma covers_grant:
  "covers (grant_disclosure X k grantee scope entries why) c \<longleftrightarrow>
     (\<exists>entry \<in> set entries. scope_matches scope entry \<and> vw_commitment (ae_view entry) = c)"
  by (auto simp: covers_def grant_disclosure_def)

lemma grant_key:
  "find (\<lambda>(d, _). d = c) (dg_keys (grant_disclosure X k grantee scope entries why)) =
     (if covers (grant_disclosure X k grantee scope entries why) c then Some (c, key_for X k c) else None)"
proof -
  have "find (\<lambda>(d, _). d = c) (map (\<lambda>entry. (vw_commitment (ae_view entry), key_for X k (vw_commitment (ae_view entry)))) es) =
      (if \<exists>entry \<in> set es. vw_commitment (ae_view entry) = c then Some (c, key_for X k c) else None)" for es
    by (induction es) auto
  from this [of "filter (scope_matches scope) entries"] show ?thesis
    unfolding covers_grant by (auto simp: grant_disclosure_def)
qed

lemma audit_open_grant:
  assumes "veil_ext_ok X"
  shows "audit_open X (grant_disclosure X k grantee scope entries why) (map (sealed X k) es) =
    Inr (filter (\<lambda>e. covers (grant_disclosure X k grantee scope entries why) (commitment X e)) es)"
  by (induction es) (simp_all add: grant_key kr_seal_ok [OF assms])

section \<open>A concrete instance of the parameters\<close>

definition event_coder :: "event coder" where
  "event_coder = iso_coder (\<lambda>e. (ev_source_command e, ev_prism e, ev_visibility e, ev_payload e))
     (\<lambda>(h, p, v, b). \<lparr>ev_source_command = h, ev_prism = p, ev_visibility = v, ev_payload = b\<rparr>)
     (pair_coder hash_coder (pair_coder string_coder (pair_coder visibility_coder bytes_coder)))"

definition command_coder :: "command coder" where
  "command_coder = iso_coder (\<lambda>c. (cmd_prism c, cmd_submitter c, cmd_visibility c, cmd_payload c, cmd_nonce c))
     (\<lambda>(p, s, v, b, n). \<lparr>cmd_prism = p, cmd_submitter = s, cmd_visibility = v, cmd_payload = b, cmd_nonce = n\<rparr>)
     (pair_coder string_coder (pair_coder party_coder (pair_coder visibility_coder (pair_coder bytes_coder word_coder))))"

definition ref_veil_ext :: veil_ext where
  "ref_veil_ext = identity_ext.extend ref_identity_ext (veil_ext.fields
     (\<lambda>k n a m. Inr (k @ m)) (\<lambda>k n a c. if take 32 c = k then Some (drop 32 c) else None)
     (\<lambda>a. a) (\<lambda>a b. map (\<lambda>(x, y). x + y) (zip a b)) (codec_of event_coder) (codec_of command_coder))"

lemma veil_coders_ok [coder_intros]: "coder_ok event_coder" "coder_ok command_coder"
  unfolding event_coder_def command_coder_def by (intro coder_intros; auto)+

lemma ref_dh_commutes: "map (\<lambda>(x, y). x + y) (zip a b) = map (\<lambda>(x, y). x + y) (zip b (a :: bytes))"
  by (induction a b rule: list_induct2') (simp_all add: add.commute)

lemma ref_veil_ext_sel:
  "aead_seal ref_veil_ext = (\<lambda>k n a m. Inr (k @ m))"
  "aead_open ref_veil_ext = (\<lambda>k n a c. if take 32 c = k then Some (drop 32 c) else None)"
  "x25519_base ref_veil_ext = (\<lambda>a. a)" "x25519_dh ref_veil_ext = (\<lambda>a b. map (\<lambda>(x, y). x + y) (zip a b))"
  "js_event ref_veil_ext = codec_of event_coder" "js_command ref_veil_ext = codec_of command_coder"
  by (simp_all add: ref_veil_ext_def identity_ext.defs veil_ext.defs)

lemma ref_veil_ext_ok: "veil_ext_ok ref_veil_ext"
proof -
  have "identity_ext_ok ref_veil_ext"
    using ref_identity_ext_ok
    by (simp add: identity_ext_ok_def kernel_ext_ok_def hash_ext_ok_def ref_veil_ext_def identity_ext.defs veil_ext.defs)
  then show ?thesis
    using ref_dh_commutes by (simp add: veil_ext_ok_def ref_veil_ext_sel codec_of_ok coder_intros)
qed

section \<open>Properties\<close>

text \<open>
  Projection delivers to each party exactly what it may see. When no party has two keyrings and no event
  lists a party twice, projecting a block succeeds with the events root of the block; a party without
  a keyring gets no view; and a party that applies its views to its sub-ledger appends, in block order,
  exactly the events of the block that are visible to it.
\<close>

theorem project_block_delivers:
  assumes "veil_ext_ok X" and "distinct (map kr_party ks)"
    and "\<forall>e \<in> set (blk_events b). distinct (stakeholders (ev_visibility e))"
  shows "\<exists>pr. project_block X b ks = Inr pr \<and> pj_events_root pr = compute_events_root X b \<and>
    (\<forall>p. p \<notin> set (map kr_party ks) \<longrightarrow> views_at (pj_views_by_party pr) p = []) \<and>
    (\<forall>k l h root. k \<in> set ks \<longrightarrow>
      (let seen = filter (\<lambda>e. vis_includes (ev_visibility e) (kr_party k)) (blk_events b) in
       apply_views X h root (views_at (pj_views_by_party pr) (kr_party k)) k l =
         (Ok (length seen),
          l\<lparr>sl_entries := sl_entries l @ map (\<lambda>e. \<lparr>sle_height = h, sle_commitment = commitment X e, sle_event = e\<rparr>) seen,
            sl_height := h, sl_validated_root := root\<rparr>)))"
proof -
  obtain m where m: "project_events X ks (blk_events b) ([], fmempty) = Inr (map (commitment X) (blk_events b), m)"
    "\<And>p. views_at m p = concat (map (party_views X ks p) (blk_events b))"
    using project_events_ok [OF assms(1), of ks "blk_events b" "[]" fmempty] by (auto simp: views_at_def)
  have none: "views_at m p = []" if "p \<notin> set (map kr_party ks)" for p
  proof -
    have "keyring_of ks p = None" using that by (auto simp: keyring_of_def find_None_iff)
    then show ?thesis by (simp add: m(2) party_views_def)
  qed
  have mine: "views_at m (kr_party k) = map (sealed X k) (filter (\<lambda>e. vis_includes (ev_visibility e) (kr_party k)) (blk_events b))"
    if "k \<in> set ks" for k
  proof -
    have "map (party_views X ks (kr_party k)) (blk_events b) =
        map (\<lambda>e. if vis_includes (ev_visibility e) (kr_party k) then [sealed X k e] else []) (blk_events b)"
      using party_views_visible [OF assms(2) _ keyring_of_mem [OF assms(2) that], where X = X] assms(3) by auto
    then show ?thesis unfolding m(2) by (simp only: concat_if)
  qed
  show ?thesis
    by (intro exI [of _ "\<lparr>pj_commitments = map (commitment X) (blk_events b),
        pj_events_root = merkle_root X (map (commitment X) (blk_events b)), pj_views_by_party = m\<rparr>"])
      (simp add: project_block_def m(1) none mine compute_events_root_def Let_def apply_views_def andthen_def
        apply_loop_ok [OF assms(1)])
qed

definition demo_event :: event where
  "demo_event = \<lparr>ev_source_command = ZERO, ev_prism = ''token'', ev_visibility = Parties [PartyId ''alice''], ev_payload = [1]\<rparr>"

definition demo_block :: block where
  "demo_block = \<lparr>blk_height = 1, blk_parent = ZERO, blk_events_root = ZERO, blk_state_root = ZERO, blk_timestamp = 0,
     blk_proposer = PartyId ''alice'', blk_events = [demo_event], blk_commands = []\<rparr>"

definition demo_keyring :: "string \<Rightarrow> view_keyring" where
  "demo_keyring name = \<lparr>kr_party = PartyId name, kr_seed = replicate 32 1\<rparr>"

theorem project_block_delivers_witness:
  "\<exists>pr. project_block ref_veil_ext demo_block [demo_keyring ''alice'', demo_keyring ''bob''] = Inr pr \<and>
    fst (apply_views ref_veil_ext 1 ZERO (views_at (pj_views_by_party pr) (PartyId ''alice'')) (demo_keyring ''alice'')
      (sub_ledger_new (PartyId ''alice''))) = Ok 1 \<and>
    fst (apply_views ref_veil_ext 1 ZERO (views_at (pj_views_by_party pr) (PartyId ''bob'')) (demo_keyring ''bob'')
      (sub_ledger_new (PartyId ''bob''))) = Ok 0"
proof -
  let ?ks = "[demo_keyring ''alice'', demo_keyring ''bob'']"
  have hyps: "distinct (map kr_party ?ks)" "\<forall>e \<in> set (blk_events demo_block). distinct (stakeholders (ev_visibility e))"
    by (simp_all add: demo_keyring_def demo_block_def demo_event_def stakeholders_def)
  obtain pr where pr: "project_block ref_veil_ext demo_block ?ks = Inr pr"
    and run: "\<forall>k l h root. k \<in> set ?ks \<longrightarrow>
      (let seen = filter (\<lambda>e. vis_includes (ev_visibility e) (kr_party k)) (blk_events demo_block) in
       apply_views ref_veil_ext h root (views_at (pj_views_by_party pr) (kr_party k)) k l =
         (Ok (length seen), l\<lparr>sl_entries := sl_entries l @
            map (\<lambda>e. \<lparr>sle_height = h, sle_commitment = commitment ref_veil_ext e, sle_event = e\<rparr>) seen,
            sl_height := h, sl_validated_root := root\<rparr>))"
    using project_block_delivers [OF ref_veil_ext_ok hyps] by (elim exE conjE) (rule that)
  show ?thesis
    using pr run [rule_format, of "demo_keyring ''alice''" 1 ZERO "sub_ledger_new (PartyId ''alice'')"]
      run [rule_format, of "demo_keyring ''bob''" 1 ZERO "sub_ledger_new (PartyId ''bob'')"]
    by (simp add: demo_keyring_def demo_block_def demo_event_def vis_includes_def Let_def)
qed

text \<open>
  A disclosure grant reveals its scope and nothing else. Of the views a party sealed, the grantee opens, in
  order and without error, exactly the events whose commitment belongs to an entry in the scope of the
  grant; the grant holds the keys of those commitments only.
\<close>

theorem disclosure_exact:
  assumes "veil_ext_ok X" and "g = grant_disclosure X k grantee scope entries why"
  shows "audit_open X g (map (\<lambda>e. projr (kr_seal X k e)) events) =
      Inr (filter (\<lambda>e. \<exists>entry \<in> set entries. scope_matches scope entry \<and> vw_commitment (ae_view entry) = commitment X e) events) \<and>
    (\<forall>(c, key) \<in> set (dg_keys g). key = key_for X k c \<and>
      (\<exists>entry \<in> set entries. scope_matches scope entry \<and> vw_commitment (ae_view entry) = c))"
  using audit_open_grant [OF assms(1), of k grantee scope entries why events] unfolding assms(2) covers_grant
  by (auto simp: sealed_def [symmetric, abs_def] grant_disclosure_def)

theorem disclosure_exact_witness:
  "let k = demo_keyring ''alice''; v = projr (kr_seal ref_veil_ext k demo_event);
       g = grant_disclosure ref_veil_ext k (PartyId ''auditor'') (HeightRange 1 2)
             [\<lparr>ae_height = 2, ae_prism = ''token'', ae_view = v\<rparr>] ''audit'' in
   audit_open ref_veil_ext g [v] = Inr [demo_event]"
  using disclosure_exact [OF ref_veil_ext_ok refl, of "demo_keyring ''alice''" "PartyId ''auditor''" "HeightRange 1 2"
      "[\<lparr>ae_height = 2, ae_prism = ''token'', ae_view = projr (kr_seal ref_veil_ext (demo_keyring ''alice'') demo_event)\<rparr>]"
      "''audit''" "[demo_event]"]
    kr_seal_ok(2) [OF ref_veil_ext_ok, of "demo_keyring ''alice''" demo_event]
  by (simp add: Let_def scope_matches_def sealed_def)

end
