(* ===== verification/Token.thy ===== *)
theory Token
  imports Ledger Veil
begin

text \<open>
  \<open>prisms/token/src/lib.rs\<close>: fungible tokens. Token metadata, balances and allowances live in the
  state under \<open>token/meta/\<close>, \<open>token/bal/\<close> and \<open>token/allow/\<close>; amounts are stored as the JSON of their
  decimal text. The command handler is split into one definition per command; the helpers other
  prisms and the node call (\<open>credit\<close>, \<open>debit\<close>, \<open>move_balance\<close>, \<open>burn_from\<close>, \<open>collect_fee\<close>,
  \<open>seed_native_token\<close>) follow.
\<close>

section \<open>Data\<close>

record token_meta =
  tm_token_id :: hash
  tm_name :: string
  tm_symbol :: string
  tm_decimals :: u8
  tm_total_supply :: u128
  tm_owner :: party_id
  tm_mintable :: bool

datatype token_command =
    TkCreate string string u8 u128 bool
  | TkTransfer hash party_id u128
  | TkApprove hash party_id u128
  | TkTransferFrom hash party_id party_id u128
  | TkMint hash party_id u128
  | TkBurn hash u128

datatype token_event =
    TeCreated hash string u128
  | TeTransfer hash party_id party_id u128
  | TeApproval hash party_id party_id u128
  | TeMint hash party_id u128
  | TeBurn hash party_id u128

record fee_outcome =
  fee_charged :: u128
  fee_burned :: u128
  fee_rewarded :: u128

record token_ext = veil_ext +
  js_token_meta :: "token_meta codec"
  js_token_command :: "token_command codec"
  js_token_event :: "token_event codec"

definition token_ext_ok :: "'x token_ext_scheme \<Rightarrow> bool" where
  "token_ext_ok X \<longleftrightarrow> kernel_ext_ok X \<and> codec_ok (js_token_meta X) \<and>
     codec_ok (js_token_command X) \<and> codec_ok (js_token_event X)"

section \<open>Amounts as text\<close>

text \<open>The serde module \<open>u128_dec\<close>, repeated in several prisms, and the decimal cells of the state.\<close>

definition u128_dec_serialize :: "u128 \<Rightarrow> string" where
  "u128_dec_serialize v = u128_to_string v"

definition u128_dec_deserialize :: "string \<Rightarrow> u128 option" where
  "u128_dec_deserialize t = parse_u128 t"

definition read_u128 :: "'x kernel_ext_scheme \<Rightarrow> state_tree \<Rightarrow> string \<Rightarrow> u128" where
  "read_u128 X s key =
     (case Option.bind (get_json_opt (js_string X) s key) parse_u128 of None \<Rightarrow> 0 | Some v \<Rightarrow> v)"

definition write_u128 :: "'x kernel_ext_scheme \<Rightarrow> string \<Rightarrow> u128 \<Rightarrow> (state_tree, prism_error, unit) act" where
  "write_u128 X key v = put_json_internal (js_string X) key (u128_to_string v)"

section \<open>Keys and cells\<close>

definition native_token_id :: "'x kernel_ext_scheme \<Rightarrow> hash" where
  "native_token_id X = commit X ''veilux/native-token'' []"

definition meta_key :: "'x kernel_ext_scheme \<Rightarrow> hash \<Rightarrow> string" where
  "meta_key X tid = ''token/meta/'' @ to_hex X tid"

definition bal_key :: "'x kernel_ext_scheme \<Rightarrow> hash \<Rightarrow> party_id \<Rightarrow> string" where
  "bal_key X tid who = ''token/bal/'' @ to_hex X tid @ ''/'' @ party_name who"

definition allow_key :: "'x kernel_ext_scheme \<Rightarrow> hash \<Rightarrow> party_id \<Rightarrow> party_id \<Rightarrow> string" where
  "allow_key X tid owner spender =
     ''token/allow/'' @ to_hex X tid @ ''/'' @ party_name owner @ ''/'' @ party_name spender"

definition balance :: "'x kernel_ext_scheme \<Rightarrow> state_tree \<Rightarrow> hash \<Rightarrow> party_id \<Rightarrow> u128" where
  "balance X s tid who = read_u128 X s (bal_key X tid who)"

definition set_balance ::
  "'x kernel_ext_scheme \<Rightarrow> hash \<Rightarrow> party_id \<Rightarrow> u128 \<Rightarrow> (state_tree, prism_error, unit) act" where
  "set_balance X tid who v = write_u128 X (bal_key X tid who) v"

definition allowance :: "'x kernel_ext_scheme \<Rightarrow> state_tree \<Rightarrow> hash \<Rightarrow> party_id \<Rightarrow> party_id \<Rightarrow> u128" where
  "allowance X s tid owner spender = read_u128 X s (allow_key X tid owner spender)"

definition set_allowance ::
  "'x kernel_ext_scheme \<Rightarrow> hash \<Rightarrow> party_id \<Rightarrow> party_id \<Rightarrow> u128 \<Rightarrow> (state_tree, prism_error, unit) act" where
  "set_allowance X tid owner spender v = write_u128 X (allow_key X tid owner spender) v"

definition load_meta :: "'x token_ext_scheme \<Rightarrow> hash \<Rightarrow> (state_tree, prism_error, token_meta) act" where
  "load_meta X tid = get_json_or (js_token_meta X) (meta_key X tid) (NotFound (''token '' @ to_hex X tid))"

definition save_meta :: "'x token_ext_scheme \<Rightarrow> hash \<Rightarrow> token_meta \<Rightarrow> (state_tree, prism_error, unit) act" where
  "save_meta X tid m = put_json_internal (js_token_meta X) (meta_key X tid) m"

definition token_emit :: "'x token_ext_scheme \<Rightarrow> command \<Rightarrow> token_event \<Rightarrow> event" where
  "token_emit X cmd payload = emit X ''token'' cmd (to_vec_or_default (js_token_event X) payload)"

section \<open>Commands\<close>

definition token_create ::
  "'x token_ext_scheme \<Rightarrow> command \<Rightarrow> string \<Rightarrow> string \<Rightarrow> u8 \<Rightarrow> u128 \<Rightarrow> bool \<Rightarrow>
   (state_tree, prism_error, prism_output) act" where
  "token_create X cmd name symbol decimals initial_supply mintable =
     (let token_id = commit X ''token/id''
            [as_bytes (party_name (cmd_submitter cmd)), as_bytes symbol, as_bytes name]
      in andthen (gets (\<lambda>s. st_contains s (meta_key X token_id))) (\<lambda>exists.
         andthen (ensure (\<not> exists) (InvalidPayload ''token already exists'')) (\<lambda>_.
         andthen (save_meta X token_id
           \<lparr>tm_token_id = token_id, tm_name = name, tm_symbol = symbol, tm_decimals = decimals,
            tm_total_supply = initial_supply, tm_owner = cmd_submitter cmd, tm_mintable = mintable\<rparr>) (\<lambda>_.
         andthen (set_balance X token_id (cmd_submitter cmd) initial_supply) (\<lambda>_.
         ret (single_output (token_emit X cmd (TeCreated token_id symbol initial_supply)) 5000))))))"

definition token_transfer ::
  "'x token_ext_scheme \<Rightarrow> command \<Rightarrow> hash \<Rightarrow> party_id \<Rightarrow> u128 \<Rightarrow> (state_tree, prism_error, prism_output) act" where
  "token_transfer X cmd token_id to amount =
     andthen (load_meta X token_id) (\<lambda>_.
     let from = cmd_submitter cmd in
     andthen (gets (\<lambda>s. balance X s token_id from)) (\<lambda>from_bal.
     andthen (ensure (\<not> from_bal < amount) (LimitExceeded ''insufficient balance'')) (\<lambda>_.
     andthen (gets (\<lambda>s. balance X s token_id to)) (\<lambda>to_bal.
     andthen (set_balance X token_id from (from_bal - amount)) (\<lambda>_.
     andthen (of_option (Internal ''balance overflow'') (checked_add to_bal amount)) (\<lambda>new_to.
     andthen (set_balance X token_id to new_to) (\<lambda>_.
     ret (single_output (token_emit X cmd (TeTransfer token_id from to amount)) 1000))))))))"

definition token_approve ::
  "'x token_ext_scheme \<Rightarrow> command \<Rightarrow> hash \<Rightarrow> party_id \<Rightarrow> u128 \<Rightarrow> (state_tree, prism_error, prism_output) act" where
  "token_approve X cmd token_id spender amount =
     andthen (load_meta X token_id) (\<lambda>_.
     let owner = cmd_submitter cmd in
     andthen (set_allowance X token_id owner spender amount) (\<lambda>_.
     ret (single_output (token_emit X cmd (TeApproval token_id owner spender amount)) 800)))"

definition token_transfer_from ::
  "'x token_ext_scheme \<Rightarrow> command \<Rightarrow> hash \<Rightarrow> party_id \<Rightarrow> party_id \<Rightarrow> u128 \<Rightarrow>
   (state_tree, prism_error, prism_output) act" where
  "token_transfer_from X cmd token_id from to amount =
     andthen (load_meta X token_id) (\<lambda>_.
     let spender = cmd_submitter cmd in
     andthen (gets (\<lambda>s. allowance X s token_id from spender)) (\<lambda>allowed.
     andthen (ensure (\<not> allowed < amount) (Unauthorized ''allowance exceeded'')) (\<lambda>_.
     andthen (gets (\<lambda>s. balance X s token_id from)) (\<lambda>from_bal.
     andthen (ensure (\<not> from_bal < amount) (LimitExceeded ''insufficient balance'')) (\<lambda>_.
     andthen (gets (\<lambda>s. balance X s token_id to)) (\<lambda>to_bal.
     andthen (set_balance X token_id from (from_bal - amount)) (\<lambda>_.
     andthen (of_option (Internal ''balance overflow'') (checked_add to_bal amount)) (\<lambda>new_to.
     andthen (set_balance X token_id to new_to) (\<lambda>_.
     andthen (set_allowance X token_id from spender (allowed - amount)) (\<lambda>_.
     ret (single_output (token_emit X cmd (TeTransfer token_id from to amount)) 1200)))))))))))"

definition token_mint ::
  "'x token_ext_scheme \<Rightarrow> command \<Rightarrow> hash \<Rightarrow> party_id \<Rightarrow> u128 \<Rightarrow> (state_tree, prism_error, prism_output) act" where
  "token_mint X cmd token_id to amount =
     andthen (load_meta X token_id) (\<lambda>meta.
     andthen (ensure (tm_mintable meta) (Unauthorized ''token not mintable'')) (\<lambda>_.
     andthen (ensure (\<not> tm_owner meta \<noteq> cmd_submitter cmd) (Unauthorized ''only owner can mint'')) (\<lambda>_.
     andthen (gets (\<lambda>s. balance X s token_id to)) (\<lambda>to_bal.
     andthen (of_option (Internal ''balance overflow'') (checked_add to_bal amount)) (\<lambda>new_to.
     andthen (set_balance X token_id to new_to) (\<lambda>_.
     andthen (of_option (Internal ''supply overflow'') (checked_add (tm_total_supply meta) amount)) (\<lambda>supply.
     andthen (save_meta X token_id (meta\<lparr>tm_total_supply := supply\<rparr>)) (\<lambda>_.
     ret (single_output (token_emit X cmd (TeMint token_id to amount)) 2000)))))))))"

definition token_burn ::
  "'x token_ext_scheme \<Rightarrow> command \<Rightarrow> hash \<Rightarrow> u128 \<Rightarrow> (state_tree, prism_error, prism_output) act" where
  "token_burn X cmd token_id amount =
     andthen (load_meta X token_id) (\<lambda>meta.
     let from = cmd_submitter cmd in
     andthen (gets (\<lambda>s. balance X s token_id from)) (\<lambda>bal.
     andthen (ensure (\<not> bal < amount) (LimitExceeded ''insufficient balance to burn'')) (\<lambda>_.
     andthen (set_balance X token_id from (bal - amount)) (\<lambda>_.
     andthen (save_meta X token_id
       (meta\<lparr>tm_total_supply := saturating_sub (tm_total_supply meta) amount\<rparr>)) (\<lambda>_.
     ret (single_output (token_emit X cmd (TeBurn token_id from amount)) 1500))))))"

definition token_dispatch ::
  "'x token_ext_scheme \<Rightarrow> command \<Rightarrow> token_command \<Rightarrow> (state_tree, prism_error, prism_output) act" where
  "token_dispatch X cmd c = (case c of
      TkCreate name symbol decimals supply mintable \<Rightarrow> token_create X cmd name symbol decimals supply mintable
    | TkTransfer token_id to amount \<Rightarrow> token_transfer X cmd token_id to amount
    | TkApprove token_id spender amount \<Rightarrow> token_approve X cmd token_id spender amount
    | TkTransferFrom token_id from to amount \<Rightarrow> token_transfer_from X cmd token_id from to amount
    | TkMint token_id to amount \<Rightarrow> token_mint X cmd token_id to amount
    | TkBurn token_id amount \<Rightarrow> token_burn X cmd token_id amount)"

definition token_handle :: "'x token_ext_scheme \<Rightarrow> handler" where
  "token_handle X cmd =
     andthen (parse_payload (js_token_command X) (cmd_payload cmd)) (\<lambda>c. token_dispatch X cmd c)"

definition token_estimate :: "'x token_ext_scheme \<Rightarrow> command \<Rightarrow> state_tree \<Rightarrow> u64" where
  "token_estimate X cmd s =
     (case from_slice (js_token_command X) (cmd_payload cmd) of
        Inr (TkCreate _ _ _ _ _) \<Rightarrow> 5000
      | Inr _ \<Rightarrow> 1200
      | Inl _ \<Rightarrow> 1000)"

definition token_prism :: "'x token_ext_scheme \<Rightarrow> prism" where
  "token_prism X = \<lparr>pr_info = \<lparr>info_name = ''token'',
       info_description = ''Fungible tokens with transfer, approve, mint and burn'',
       info_version = ''1.0''\<rparr>,
     pr_handle = token_handle X, pr_estimate = token_estimate X\<rparr>"

section \<open>Command builders\<close>

definition create_command ::
  "'x token_ext_scheme \<Rightarrow> party_id \<Rightarrow> visibility \<Rightarrow> u64 \<Rightarrow> string \<Rightarrow> string \<Rightarrow> u8 \<Rightarrow> u128 \<Rightarrow> bool \<Rightarrow> command" where
  "create_command X submitter vis nonce name symbol decimals initial_supply mintable =
     \<lparr>cmd_prism = ''token'', cmd_submitter = submitter, cmd_visibility = vis,
      cmd_payload = to_vec_or_default (js_token_command X)
        (TkCreate name symbol decimals initial_supply mintable),
      cmd_nonce = nonce\<rparr>"

definition transfer_command ::
  "'x token_ext_scheme \<Rightarrow> party_id \<Rightarrow> visibility \<Rightarrow> u64 \<Rightarrow> hash \<Rightarrow> party_id \<Rightarrow> u128 \<Rightarrow> command" where
  "transfer_command X submitter vis nonce token_id to amount =
     \<lparr>cmd_prism = ''token'', cmd_submitter = submitter, cmd_visibility = vis,
      cmd_payload = to_vec_or_default (js_token_command X) (TkTransfer token_id to amount),
      cmd_nonce = nonce\<rparr>"

section \<open>Helpers for other components\<close>

definition balance_of :: "'x kernel_ext_scheme \<Rightarrow> state_tree \<Rightarrow> hash \<Rightarrow> party_id \<Rightarrow> u128" where
  "balance_of X s token_id who = balance X s token_id who"

definition meta_of :: "'x token_ext_scheme \<Rightarrow> state_tree \<Rightarrow> hash \<Rightarrow> token_meta option" where
  "meta_of X s token_id = get_json_opt (js_token_meta X) s (meta_key X token_id)"

definition credit :: "'x token_ext_scheme \<Rightarrow> hash \<Rightarrow> party_id \<Rightarrow> u128 \<Rightarrow> (state_tree, prism_error, unit) act" where
  "credit X token_id who amount =
     andthen (gets (\<lambda>s. balance X s token_id who)) (\<lambda>bal.
     andthen (of_option (Internal ''balance overflow'') (checked_add bal amount)) (\<lambda>v.
     andthen (set_balance X token_id who v) (\<lambda>_.
     andthen (gets (\<lambda>s. meta_of X s token_id)) (\<lambda>m.
     case m of
       Some meta \<Rightarrow> save_meta X token_id
         (meta\<lparr>tm_total_supply := saturating_add (tm_total_supply meta) amount\<rparr>)
     | None \<Rightarrow> ret ()))))"

definition debit :: "'x kernel_ext_scheme \<Rightarrow> hash \<Rightarrow> party_id \<Rightarrow> u128 \<Rightarrow> (state_tree, prism_error, unit) act" where
  "debit X token_id who amount =
     andthen (gets (\<lambda>s. balance X s token_id who)) (\<lambda>bal.
     andthen (ensure (\<not> bal < amount) (LimitExceeded ''insufficient balance'')) (\<lambda>_.
     set_balance X token_id who (bal - amount)))"

definition move_balance ::
  "'x kernel_ext_scheme \<Rightarrow> hash \<Rightarrow> party_id \<Rightarrow> party_id \<Rightarrow> u128 \<Rightarrow> (state_tree, prism_error, unit) act" where
  "move_balance X token_id from to amount =
     andthen (debit X token_id from amount) (\<lambda>_.
     andthen (gets (\<lambda>s. balance X s token_id to)) (\<lambda>to_bal.
     andthen (of_option (Internal ''balance overflow'') (checked_add to_bal amount)) (\<lambda>v.
     set_balance X token_id to v)))"

definition burn_from :: "'x token_ext_scheme \<Rightarrow> hash \<Rightarrow> party_id \<Rightarrow> u128 \<Rightarrow> (state_tree, prism_error, unit) act" where
  "burn_from X token_id who amount =
     andthen (debit X token_id who amount) (\<lambda>_.
     andthen (gets (\<lambda>s. meta_of X s token_id)) (\<lambda>m.
     case m of
       Some meta \<Rightarrow> save_meta X token_id
         (meta\<lparr>tm_total_supply := saturating_sub (tm_total_supply meta) amount\<rparr>)
     | None \<Rightarrow> ret ()))"

definition collect_fee ::
  "'x token_ext_scheme \<Rightarrow> hash \<Rightarrow> party_id \<Rightarrow> party_id \<Rightarrow> u128 \<Rightarrow> u16 \<Rightarrow>
   (state_tree, prism_error, fee_outcome) act" where
  "collect_fee X token_id payer proposer fee burn_bps =
     andthen (gets (\<lambda>s. balance X s token_id payer)) (\<lambda>bal.
     let charged = min fee bal in
     if charged = 0 then ret \<lparr>fee_charged = 0, fee_burned = 0, fee_rewarded = 0\<rparr>
     else
       let burned = charged * ucast (min burn_bps 10000) div 10000;
           rewarded = charged - burned in
       andthen (set_balance X token_id payer (bal - charged)) (\<lambda>_.
       andthen (if rewarded > 0
                then andthen (gets (\<lambda>s. balance X s token_id proposer)) (\<lambda>pbal.
                     andthen (of_option (Internal ''reward overflow'') (checked_add pbal rewarded)) (\<lambda>v.
                     set_balance X token_id proposer v))
                else ret ()) (\<lambda>_.
       andthen (if burned > 0
                then andthen (gets (\<lambda>s. meta_of X s token_id)) (\<lambda>m.
                     case m of
                       Some meta \<Rightarrow> save_meta X token_id
                         (meta\<lparr>tm_total_supply := saturating_sub (tm_total_supply meta) burned\<rparr>)
                     | None \<Rightarrow> ret ())
                else ret ()) (\<lambda>_.
       ret \<lparr>fee_charged = charged, fee_burned = burned, fee_rewarded = rewarded\<rparr>))))"

fun seed_allocations ::
  "'x kernel_ext_scheme \<Rightarrow> hash \<Rightarrow> (party_id \<times> u128) list \<Rightarrow> (state_tree, prism_error, unit) act" where
  "seed_allocations X token_id [] = ret ()"
| "seed_allocations X token_id ((who, amount) # rest) =
     andthen (gets (\<lambda>s. balance X s token_id who)) (\<lambda>cur.
     andthen (of_option (Internal ''allocation overflow'') (checked_add cur amount)) (\<lambda>v.
     andthen (set_balance X token_id who v) (\<lambda>_.
     seed_allocations X token_id rest)))"

definition seed_native_token ::
  "'x token_ext_scheme \<Rightarrow> string \<Rightarrow> string \<Rightarrow> u8 \<Rightarrow> party_id \<Rightarrow> (party_id \<times> u128) list \<Rightarrow>
   (state_tree, prism_error, hash) act" where
  "seed_native_token X name symbol decimals treasury allocations =
     (let token_id = native_token_id X in
      andthen (gets (\<lambda>s. st_contains s (meta_key X token_id))) (\<lambda>exists.
      if exists then ret token_id
      else
        let total = sum_list (map snd allocations) in
        andthen (save_meta X token_id
          \<lparr>tm_token_id = token_id, tm_name = name, tm_symbol = symbol, tm_decimals = decimals,
           tm_total_supply = total, tm_owner = treasury, tm_mintable = True\<rparr>) (\<lambda>_.
        andthen (seed_allocations X token_id allocations) (\<lambda>_.
        ret token_id))))"

section \<open>Reading and writing the cells\<close>

text \<open>What a successful write does to the state, with the serialisers behaving as documented.\<close>

definition put_u128 :: "'x kernel_ext_scheme \<Rightarrow> string \<Rightarrow> u128 \<Rightarrow> state_tree \<Rightarrow> state_tree" where
  "put_u128 X key v s = st_put key (to_vec_or_default (js_string X) (u128_to_string v)) s"

definition put_meta :: "'x token_ext_scheme \<Rightarrow> hash \<Rightarrow> token_meta \<Rightarrow> state_tree \<Rightarrow> state_tree" where
  "put_meta X tid m s = st_put (meta_key X tid) (to_vec_or_default (js_token_meta X) m) s"

abbreviation put_balance :: "'x kernel_ext_scheme \<Rightarrow> hash \<Rightarrow> party_id \<Rightarrow> u128 \<Rightarrow> state_tree \<Rightarrow> state_tree" where
  "put_balance X tid who v s \<equiv> put_u128 X (bal_key X tid who) v s"

abbreviation put_allowance ::
  "'x kernel_ext_scheme \<Rightarrow> hash \<Rightarrow> party_id \<Rightarrow> party_id \<Rightarrow> u128 \<Rightarrow> state_tree \<Rightarrow> state_tree" where
  "put_allowance X tid owner spender v s \<equiv> put_u128 X (allow_key X tid owner spender) v s"

lemma token_ext_okD:
  assumes "token_ext_ok X"
  shows "kernel_ext_ok X" "hash_ext_ok X" "codec_ok (js_string X)" "codec_ok (js_token_meta X)"
    "codec_ok (js_token_command X)" "codec_ok (js_token_event X)"
  using assms by (simp_all add: token_ext_ok_def kernel_ext_ok_def)

lemma write_u128_ok: "kernel_ext_ok X \<Longrightarrow> write_u128 X key v = modify (put_u128 X key v)"
  by (simp add: write_u128_def put_u128_def [abs_def] kernel_ext_okD)

lemma read_u128_put:
  "kernel_ext_ok X \<Longrightarrow> read_u128 X (put_u128 X key v s) k = (if key = k then v else read_u128 X s k)"
  by (simp add: read_u128_def put_u128_def get_json_opt_put kernel_ext_okD)

lemma read_u128_frame: "key \<noteq> k \<Longrightarrow> read_u128 X (st_put key b s) k = read_u128 X s k"
  by (simp add: read_u128_def)

lemma read_u128_new [simp]: "read_u128 X st_new k = 0"
  by (simp add: read_u128_def)

lemma read_u128_stored: "read_u128 X s k \<noteq> 0 \<Longrightarrow> k \<in> fmdom' (entries s)"
  by (cases "fmlookup (entries s) k")
    (auto simp: read_u128_def get_json_opt_def get_json_def intro: fmdom'I)

lemma set_balance_ok: "kernel_ext_ok X \<Longrightarrow> set_balance X tid who v = modify (put_balance X tid who v)"
  by (simp add: set_balance_def write_u128_ok)

lemma set_allowance_ok:
  "kernel_ext_ok X \<Longrightarrow> set_allowance X tid owner spender v = modify (put_allowance X tid owner spender v)"
  by (simp add: set_allowance_def write_u128_ok)

lemma save_meta_ok: "token_ext_ok X \<Longrightarrow> save_meta X tid m = modify (put_meta X tid m)"
  by (simp add: save_meta_def put_meta_def [abs_def] token_ext_okD)

lemma load_meta_Ok_iff: "load_meta X tid s = (Ok m, s') \<longleftrightarrow> s' = s \<and> meta_of X s tid = Some m"
  by (simp add: load_meta_def get_json_or_Ok_iff meta_of_def)

lemma load_meta_SomeD: "meta_of X s tid = Some m \<Longrightarrow> load_meta X tid s = (Ok m, s)"
  by (simp add: load_meta_Ok_iff)

subsection \<open>Keys\<close>

lemma bal_key_inj: "hash_ext_ok X \<Longrightarrow> bal_key X i w = bal_key X j u \<longleftrightarrow> i = j \<and> w = u"
  using hex_slash_split [of X i "party_name w" j "party_name u"]
  by (auto simp: bal_key_def party_id.expand)

lemma meta_key_inj: "hash_ext_ok X \<Longrightarrow> meta_key X i = meta_key X j \<longleftrightarrow> i = j"
  by (simp add: meta_key_def to_hex_inj)

lemma token_keys_distinct [simp]:
  "bal_key X i w \<noteq> meta_key X j" "meta_key X j \<noteq> bal_key X i w"
  "bal_key X i w \<noteq> allow_key X j a b" "allow_key X j a b \<noteq> bal_key X i w"
  "meta_key X i \<noteq> allow_key X j a b" "allow_key X j a b \<noteq> meta_key X i"
  by (simp_all add: bal_key_def meta_key_def allow_key_def)

lemma token_key_prefix:
  "prefix ''token/'' (bal_key X i w)" "prefix ''token/'' (meta_key X i)" "prefix ''token/'' (allow_key X i a b)"
  by (simp_all add: bal_key_def meta_key_def allow_key_def)

subsection \<open>Balances, allowances and metadata after a write\<close>

named_theorems token_cells \<open>reading the token cells after a write\<close>

lemma balance_put_balance [token_cells]:
  "kernel_ext_ok X \<Longrightarrow> balance X (put_balance X i w v s) j u = (if i = j \<and> w = u then v else balance X s j u)"
  by (simp add: balance_def read_u128_put bal_key_inj kernel_ext_okD)

lemma balance_put_meta [token_cells]: "balance X (put_meta X i m s) j u = balance X s j u"
  by (simp add: balance_def put_meta_def read_u128_frame)

lemma balance_put_allowance [token_cells]:
  "balance X (put_allowance X i a b v s) j u = balance X s j u"
  by (simp add: balance_def put_u128_def read_u128_frame)

lemma meta_of_put_u128 [token_cells]:
  "meta_of X (put_balance X i w v s) j = meta_of X s j"
  "meta_of X (put_allowance X i a b v s) j = meta_of X s j"
  by (simp_all add: meta_of_def put_u128_def)

lemma meta_of_put_meta [token_cells]:
  "token_ext_ok X \<Longrightarrow> meta_of X (put_meta X i m s) j = (if i = j then Some m else meta_of X s j)"
  by (simp add: meta_of_def put_meta_def get_json_opt_put meta_key_inj token_ext_okD)

lemma allowance_put_allowance [token_cells]:
  "kernel_ext_ok X \<Longrightarrow> allowance X (put_allowance X i a b v s) i a b = v"
  by (simp add: allowance_def read_u128_put)

lemma allowance_put_other [token_cells]:
  "allowance X (put_balance X i w v s) j a b = allowance X s j a b"
  "allowance X (put_meta X i m s) j a b = allowance X s j a b"
  by (simp_all add: allowance_def put_u128_def put_meta_def read_u128_frame)

lemma finite_holders:
  assumes "kernel_ext_ok X"
  shows "finite {who. balance X s tid who \<noteq> 0}"
proof -
  have "inj (bal_key X tid)"
    using assms by (auto simp: inj_def bal_key_inj kernel_ext_okD)
  then have "finite {who. bal_key X tid who \<in> fmdom' (entries s)}"
    using finite_vimageI [of "fmdom' (entries s)" "bal_key X tid"] by (simp add: vimage_def)
  then show ?thesis
    by (rule rev_finite_subset) (auto simp: balance_def dest: read_u128_stored)
qed

text \<open>Balances are a book in the sense of \<open>u128_book\<close>, one per token.\<close>

interpretation bal: u128_book "\<lambda>(X, tid). kernel_ext_ok X"
  "\<lambda>(X, tid) s who. balance X s tid who" "\<lambda>(X, tid) who v s. put_balance X tid who v s"
  by unfold_locales (auto simp: fun_eq_iff token_cells finite_holders)

lemmas bal_debit = bal.total_debit [of "(X, tid)" for X tid, simplified]
lemmas bal_credit = bal.total_credit [of "(X, tid)" for X tid, simplified]
lemmas bal_move = bal.total_move [of "(X, tid)" for X tid, simplified]
lemmas bal_le_total = bal.entry_le_total [of "(X, tid)" for X tid, simplified]
lemmas bal_credit_fits = bal.credit_fits [of "(X, tid)" for X tid, simplified]
lemmas bal_wr = bal.total_wr [of "(X, tid)" for X tid, simplified]

abbreviation circulating :: "'x kernel_ext_scheme \<Rightarrow> state_tree \<Rightarrow> hash \<Rightarrow> nat" where
  "circulating X s tid \<equiv> book_total (balance X s tid)"

section \<open>What each command does when it succeeds\<close>

lemmas token_run = ok_iffs load_meta_Ok_iff set_balance_ok set_allowance_ok save_meta_ok
  token_ext_okD Let_def

lemma token_create_Ok:
  assumes "token_ext_ok X"
    and "token_create X cmd name symbol decimals supply mintable s = (Ok out, s')"
  shows "\<exists>tid m. \<not> st_contains s (meta_key X tid) \<and> tm_total_supply m = supply \<and>
    s' = put_balance X tid (cmd_submitter cmd) supply (put_meta X tid m s)"
  using assms unfolding token_create_def
  by (auto simp: token_run intro!: exI)

lemma token_transfer_Ok:
  assumes "token_ext_ok X"
  shows "token_transfer X cmd tid to amount s = (Ok out, s') \<longleftrightarrow>
    (let from = cmd_submitter cmd; from_bal = balance X s tid from in
     \<exists>m v. meta_of X s tid = Some m \<and> amount \<le> from_bal \<and>
       checked_add (balance X s tid to) amount = Some v \<and>
       s' = put_balance X tid to v (put_balance X tid from (from_bal - amount) s) \<and>
       out = single_output (token_emit X cmd (TeTransfer tid from to amount)) 1000)"
  using assms by (auto simp: token_transfer_def token_run)

lemma token_approve_Ok:
  assumes "token_ext_ok X"
  shows "token_approve X cmd tid spender amount s = (Ok out, s') \<longleftrightarrow>
    (\<exists>m. meta_of X s tid = Some m) \<and> s' = put_allowance X tid (cmd_submitter cmd) spender amount s \<and>
    out = single_output (token_emit X cmd (TeApproval tid (cmd_submitter cmd) spender amount)) 800"
  using assms by (auto simp: token_approve_def token_run)

lemma token_transfer_from_Ok:
  assumes "token_ext_ok X"
  shows "token_transfer_from X cmd tid from to amount s = (Ok out, s') \<longleftrightarrow>
    (let spender = cmd_submitter cmd; from_bal = balance X s tid from;
         allowed = allowance X s tid from spender in
     \<exists>m v. meta_of X s tid = Some m \<and> amount \<le> allowed \<and> amount \<le> from_bal \<and>
       checked_add (balance X s tid to) amount = Some v \<and>
       s' = put_allowance X tid from spender (allowed - amount)
              (put_balance X tid to v (put_balance X tid from (from_bal - amount) s)) \<and>
       out = single_output (token_emit X cmd (TeTransfer tid from to amount)) 1200)"
  using assms by (auto simp: token_transfer_from_def token_run)

lemma token_mint_Ok:
  assumes "token_ext_ok X"
  shows "token_mint X cmd tid to amount s = (Ok out, s') \<longleftrightarrow>
    (\<exists>m v supply. meta_of X s tid = Some m \<and> tm_mintable m \<and> tm_owner m = cmd_submitter cmd \<and>
       checked_add (balance X s tid to) amount = Some v \<and>
       checked_add (tm_total_supply m) amount = Some supply \<and>
       s' = put_meta X tid (m\<lparr>tm_total_supply := supply\<rparr>) (put_balance X tid to v s) \<and>
       out = single_output (token_emit X cmd (TeMint tid to amount)) 2000)"
  using assms by (auto simp: token_mint_def token_run)

lemma token_burn_Ok:
  assumes "token_ext_ok X"
  shows "token_burn X cmd tid amount s = (Ok out, s') \<longleftrightarrow>
    (let from = cmd_submitter cmd; bal = balance X s tid from in
     \<exists>m. meta_of X s tid = Some m \<and> amount \<le> bal \<and>
       s' = put_meta X tid (m\<lparr>tm_total_supply := saturating_sub (tm_total_supply m) amount\<rparr>)
              (put_balance X tid from (bal - amount) s) \<and>
       out = single_output (token_emit X cmd (TeBurn tid from amount)) 1500)"
  using assms by (auto simp: token_burn_def token_run)

lemma debit_Ok:
  assumes "kernel_ext_ok X"
  shows "debit X tid who amount s = (Ok u, s') \<longleftrightarrow>
    amount \<le> balance X s tid who \<and> s' = put_balance X tid who (balance X s tid who - amount) s"
  using assms by (auto simp: debit_def set_balance_ok ok_iffs)

lemma move_balance_Ok:
  assumes "kernel_ext_ok X"
  shows "move_balance X tid from to amount s = (Ok u, s') \<longleftrightarrow>
    (let s1 = put_balance X tid from (balance X s tid from - amount) s in
     amount \<le> balance X s tid from \<and>
     (\<exists>v. checked_add (balance X s1 tid to) amount = Some v \<and> s' = put_balance X tid to v s1))"
  using assms
  by (auto simp: move_balance_def ok_iffs debit_Ok set_balance_ok Let_def)

definition bump_supply :: "'x token_ext_scheme \<Rightarrow> hash \<Rightarrow> (u128 \<Rightarrow> u128) \<Rightarrow> state_tree \<Rightarrow> state_tree" where
  "bump_supply X tid f s = (case meta_of X s tid of
      None \<Rightarrow> s
    | Some m \<Rightarrow> put_meta X tid (m\<lparr>tm_total_supply := f (tm_total_supply m)\<rparr>) s)"

lemma credit_Ok:
  assumes "token_ext_ok X"
  shows "credit X tid who amount s = (Ok u, s') \<longleftrightarrow>
    (\<exists>v. checked_add (balance X s tid who) amount = Some v \<and>
       s' = bump_supply X tid (\<lambda>t. saturating_add t amount) (put_balance X tid who v s))"
  using assms
  by (auto simp: credit_def token_run bump_supply_def split: option.splits)

lemma burn_from_Ok:
  assumes "token_ext_ok X"
  shows "burn_from X tid who amount s = (Ok u, s') \<longleftrightarrow>
    amount \<le> balance X s tid who \<and>
    s' = bump_supply X tid (\<lambda>t. saturating_sub t amount)
           (put_balance X tid who (balance X s tid who - amount) s)"
  using assms
  by (auto simp: burn_from_def andthen_Ok_iff debit_Ok bump_supply_def save_meta_ok
      token_ext_okD split: option.splits)

lemma bump_supply_cells [token_cells]:
  "balance X (bump_supply X i f s) j u = balance X s j u"
  "token_ext_ok X \<Longrightarrow> meta_of X (bump_supply X i f s) j =
     (if i = j then map_option (\<lambda>m. m\<lparr>tm_total_supply := f (tm_total_supply m)\<rparr>) (meta_of X s i)
      else meta_of X s j)"
  by (auto simp: bump_supply_def token_cells split: option.splits)

section \<open>The supply invariant\<close>

text \<open>
  For every token, the recorded supply is the sum of its balances; a token without metadata has no
  balance.
\<close>

definition supply_ok :: "'x token_ext_scheme \<Rightarrow> state_tree \<Rightarrow> bool" where
  "supply_ok X s \<longleftrightarrow> (\<forall>tid. case meta_of X s tid of
      Some m \<Rightarrow> unat (tm_total_supply m) = circulating X s tid
    | None \<Rightarrow> st_contains s (meta_key X tid) \<or> circulating X s tid = 0)"

lemma balance_fun_other:
  "kernel_ext_ok X \<Longrightarrow> i \<noteq> j \<Longrightarrow> balance X (put_balance X i w v s) j = balance X s j"
  by (simp add: fun_eq_iff token_cells)

lemma balance_fun_frame [simp]:
  "balance X (put_meta X i m s) = balance X s"
  "balance X (put_allowance X i a b v s) = balance X s"
  "balance X (bump_supply X i f s) = balance X s"
  by (simp_all add: fun_eq_iff token_cells)

lemma st_contains_cells [simp]:
  "st_contains (put_balance X i w v s) (meta_key X j) = st_contains s (meta_key X j)"
  "st_contains (put_allowance X i a b v s) (meta_key X j) = st_contains s (meta_key X j)"
  "hash_ext_ok X \<Longrightarrow> st_contains (put_meta X i m s) (meta_key X j) \<longleftrightarrow> i = j \<or> st_contains s (meta_key X j)"
  by (simp_all add: put_u128_def put_meta_def meta_key_inj)

lemma meta_of_contains: "meta_of X s tid = Some m \<Longrightarrow> st_contains s (meta_key X tid)"
  by (auto simp: meta_of_def get_json_opt_def get_json_def st_contains_def split: option.splits sum.splits)

lemma supply_ok_step:
  assumes "supply_ok X s" and "token_ext_ok X"
    and other: "\<And>j. j \<noteq> tid \<Longrightarrow> balance X s' j = balance X s j \<and> meta_of X s' j = meta_of X s j \<and>
      st_contains s' (meta_key X j) = st_contains s (meta_key X j)"
    and this: "\<exists>m. meta_of X s' tid = Some m \<and> unat (tm_total_supply m) = circulating X s' tid"
  shows "supply_ok X s'"
  unfolding supply_ok_def
proof
  fix j
  show "case meta_of X s' j of
      Some m \<Rightarrow> unat (tm_total_supply m) = circulating X s' j
    | None \<Rightarrow> st_contains s' (meta_key X j) \<or> circulating X s' j = 0"
  proof (cases "j = tid")
    case True
    with assms(4) show ?thesis by auto
  next
    case False
    have "case meta_of X s j of
        Some m \<Rightarrow> unat (tm_total_supply m) = circulating X s j
      | None \<Rightarrow> st_contains s (meta_key X j) \<or> circulating X s j = 0"
      using assms(1) unfolding supply_ok_def by blast
    with other [OF False] show ?thesis by (auto split: option.splits)
  qed
qed

lemma supply_okD: "supply_ok X s \<Longrightarrow> meta_of X s tid = Some m \<Longrightarrow> unat (tm_total_supply m) = circulating X s tid"
  by (auto simp: supply_ok_def dest: spec [where x = tid])

lemma supply_ok_absent:
  assumes "supply_ok X s" and "token_ext_ok X" and "\<not> st_contains s (meta_key X tid)"
  shows "balance X s tid who = 0"
proof -
  have "meta_of X s tid = None"
    using assms(3) meta_of_contains by fastforce
  with assms(1,3) have "circulating X s tid = 0"
    by (auto simp: supply_ok_def dest: spec [where x = tid])
  then show ?thesis
    using bal_le_total [OF token_ext_okD(1) [OF assms(2)], of s tid who] by (simp add: unat_eq_0)
qed

lemma move_distinct_total:
  assumes "kernel_ext_ok X" and "from \<noteq> to" and "amount \<le> balance X s tid from"
    and "checked_add (balance X s tid to) amount = Some v"
  shows "circulating X (put_balance X tid to v
      (put_balance X tid from (balance X s tid from - amount) s)) tid = circulating X s tid"
  using assms by (intro bal_move) (simp_all add: token_cells)

lemma supply_ok_create:
  assumes X: "token_ext_ok X" and inv: "supply_ok X s"
    and run: "token_create X cmd name symbol decimals tot mintable s = (Ok out, s')"
  shows "supply_ok X s'"
proof -
  note k = token_ext_okD(1) [OF X] and h = token_ext_okD(2) [OF X]
  obtain tid m where c: "\<not> st_contains s (meta_key X tid)" "tm_total_supply m = tot"
    "s' = put_balance X tid (cmd_submitter cmd) tot (put_meta X tid m s)"
    using token_create_Ok [OF X run] by blast
  have zero: "balance X s tid w = 0" for w
    using supply_ok_absent [OF inv X c(1)] .
  have "circulating X s' tid + unat (balance X (put_meta X tid m s) tid (cmd_submitter cmd)) =
      circulating X (put_meta X tid m s) tid + unat tot"
    unfolding c(3) using k by (rule bal_wr)
  then have "circulating X s' tid = unat tot"
    by (simp add: zero token_cells book_total_zero)
  then show ?thesis
    by (intro supply_ok_step [OF inv X, where tid = tid])
      (use k h c in \<open>auto simp: token_cells X balance_fun_other\<close>)
qed

lemma supply_ok_move:
  assumes X: "token_ext_ok X" and inv: "supply_ok X s" and m: "meta_of X s tid = Some m"
    and "src \<noteq> dst" and "amount \<le> balance X s tid src"
    and "checked_add (balance X s tid dst) amount = Some v"
  shows "supply_ok X (put_balance X tid dst v (put_balance X tid src (balance X s tid src - amount) s))"
proof -
  note k = token_ext_okD(1) [OF X]
  have "circulating X (put_balance X tid dst v
      (put_balance X tid src (balance X s tid src - amount) s)) tid = circulating X s tid"
    using k assms(4-6) by (rule move_distinct_total)
  with supply_okD [OF inv m] m k show ?thesis
    by (intro supply_ok_step [OF inv X, where tid = tid]) (auto simp: token_cells balance_fun_other)
qed

lemma supply_ok_allowance:
  assumes X: "token_ext_ok X" and inv: "supply_ok X s" and m: "meta_of X s tid = Some m"
  shows "supply_ok X (put_allowance X tid owner spender v s)"
  using supply_okD [OF inv m] m
  by (intro supply_ok_step [OF inv X, where tid = tid]) (auto simp: token_cells)

lemma supply_ok_mint:
  assumes X: "token_ext_ok X" and inv: "supply_ok X s"
    and run: "token_mint X cmd tid to amount s = (Ok out, s')"
  shows "supply_ok X s'"
proof -
  note k = token_ext_okD(1) [OF X] and h = token_ext_okD(2) [OF X]
  obtain m v tot where t: "meta_of X s tid = Some m"
    "checked_add (balance X s tid to) amount = Some v"
    "checked_add (tm_total_supply m) amount = Some tot"
    "s' = put_meta X tid (m\<lparr>tm_total_supply := tot\<rparr>) (put_balance X tid to v s)"
    using run by (auto simp: token_mint_Ok [OF X])
  have "circulating X s' tid = circulating X s tid + unat amount"
    unfolding t(4) balance_fun_frame using k t(2) by (rule bal_credit)
  with supply_okD [OF inv t(1)] unat_checked_add [OF t(3)] show ?thesis
    by (intro supply_ok_step [OF inv X, where tid = tid])
      (use k h t(4) in \<open>auto simp: token_cells X balance_fun_other\<close>)
qed

lemma supply_ok_burn:
  assumes X: "token_ext_ok X" and inv: "supply_ok X s" and m: "meta_of X s tid = Some m"
    and a: "amount \<le> balance X s tid who"
  shows "supply_ok X (put_meta X tid (m\<lparr>tm_total_supply := saturating_sub (tm_total_supply m) amount\<rparr>)
    (put_balance X tid who (balance X s tid who - amount) s))" (is "supply_ok X ?s'")
proof -
  note k = token_ext_okD(1) [OF X] and h = token_ext_okD(2) [OF X]
  have "circulating X ?s' tid + unat amount = circulating X s tid"
    unfolding balance_fun_frame using k a by (rule bal_debit)
  with supply_okD [OF inv m] show ?thesis
    by (intro supply_ok_step [OF inv X, where tid = tid])
      (use k h in \<open>auto simp: token_cells X balance_fun_other unat_saturating_sub\<close>)
qed

section \<open>Fees and genesis allocations\<close>

lemma burned_le_charged:
  fixes charged bps :: u128
  assumes "bps \<le> 10000"
  shows "charged * bps div 10000 \<le> charged"
proof -
  have "unat (charged * bps) \<le> unat charged * 10000"
  proof -
    have "unat (charged * bps) \<le> unat charged * unat bps"
      by (simp add: unat_word_ariths)
    also have "\<dots> \<le> unat charged * 10000"
      using assms by (simp add: word_le_nat_alt)
    finally show ?thesis .
  qed
  then have "unat (charged * bps) div 10000 \<le> unat charged"
    by linarith
  then show ?thesis
    by (simp add: word_le_nat_alt unat_div)
qed

lemma bps_capped: "ucast (min bps 10000 :: u16) \<le> (10000 :: u128)"
proof -
  have "unat (ucast (min bps 10000 :: u16) :: u128) = unat (min bps 10000)"
    using unsigned_less [of "min bps 10000", where ?'a = nat]
    by (simp add: unsigned_ucast_eq take_bit_nat_eq_self order.strict_trans)
  moreover have "min bps 10000 \<le> 10000" by simp
  ultimately show ?thesis by (simp add: word_le_nat_alt)
qed

lemma supply_ok_burned_move:
  assumes X: "token_ext_ok X" and inv: "supply_ok X s" and m: "meta_of X s tid = Some m"
    and bal: "\<And>j. j \<noteq> tid \<Longrightarrow> balance X s1 j = balance X s j" and meta: "\<And>j. meta_of X s1 j = meta_of X s j"
    and cont: "\<And>j. st_contains s1 (meta_key X j) = st_contains s (meta_key X j)"
    and circ: "circulating X s1 tid + unat burned = circulating X s tid"
  shows "supply_ok X (put_meta X tid (m\<lparr>tm_total_supply := saturating_sub (tm_total_supply m) burned\<rparr>) s1)"
  using supply_okD [OF inv m] circ X token_ext_okD(2) [OF X]
  by (intro supply_ok_step [OF inv X, where tid = tid])
    (auto simp: token_cells bal meta cont unat_saturating_sub)

lemma seed_allocations_runs:
  assumes "kernel_ext_ok X" and "circulating X s tid + (\<Sum>(_, a) \<leftarrow> allocs. unat a) < 2 ^ 128"
  shows "\<exists>s'. seed_allocations X tid allocs s = (Ok (), s') \<and>
    circulating X s' tid = circulating X s tid + (\<Sum>(_, a) \<leftarrow> allocs. unat a) \<and>
    (\<forall>w. unat (balance X s' tid w) = unat (balance X s tid w) + (\<Sum>(u, a) \<leftarrow> allocs. if u = w then unat a else 0)) \<and>
    (\<forall>j. j \<noteq> tid \<longrightarrow> balance X s' j = balance X s j) \<and>
    (\<forall>j. st_get s' (meta_key X j) = st_get s (meta_key X j))"
  using assms(2)
proof (induction allocs arbitrary: s)
  case (Cons p rest)
  obtain who a where p: "p = (who, a)" by force
  have "unat (balance X s tid who) \<le> circulating X s tid"
    using assms(1) by (rule bal_le_total)
  with Cons.prems p have chk: "checked_add (balance X s tid who) a = Some (balance X s tid who + a)"
    by (simp add: checked_add_def)
  let ?s1 = "put_balance X tid who (balance X s tid who + a) s"
  have c1: "circulating X ?s1 tid = circulating X s tid + unat a"
    using assms(1) chk by (rule bal_credit)
  with Cons.prems p have "circulating X ?s1 tid + (\<Sum>(_, a) \<leftarrow> rest. unat a) < 2 ^ 128"
    by simp
  from Cons.IH [OF this] obtain s' where s': "seed_allocations X tid rest ?s1 = (Ok (), s')"
    "circulating X s' tid = circulating X ?s1 tid + (\<Sum>(_, a) \<leftarrow> rest. unat a)"
    "\<forall>w. unat (balance X s' tid w) = unat (balance X ?s1 tid w) + (\<Sum>(u, a) \<leftarrow> rest. if u = w then unat a else 0)"
    "\<forall>j. j \<noteq> tid \<longrightarrow> balance X s' j = balance X ?s1 j"
    "\<forall>j. st_get s' (meta_key X j) = st_get ?s1 (meta_key X j)"
    by blast
  moreover have "seed_allocations X tid (p # rest) s = seed_allocations X tid rest ?s1"
    using assms(1) chk by (simp add: p set_balance_ok)
  moreover have "\<forall>j. st_get ?s1 (meta_key X j) = st_get s (meta_key X j)"
    by (simp add: put_u128_def)
  ultimately show ?case
    using assms(1) c1 unat_checked_add [OF chk] p by (auto simp: token_cells balance_fun_other)
qed simp

lemma reward_step:
  assumes k: "kernel_ext_ok X" and b: "charged = burned + rewarded" "burned \<le> charged"
    and c: "charged \<le> balance X s tid payer" and small: "circulating X s tid < 2 ^ 128"
    and s1: "s1 = put_balance X tid payer (balance X s tid payer - charged) s"
  shows "checked_add (balance X s1 tid proposer) rewarded = Some (balance X s1 tid proposer + rewarded) \<and>
    circulating X (put_balance X tid proposer (balance X s1 tid proposer + rewarded) s1) tid + unat burned
      = circulating X s tid \<and> circulating X s1 tid + unat charged = circulating X s tid"
proof -
  have u: "unat charged = unat burned + unat rewarded"
  proof -
    have "rewarded = charged - burned" using b(1) by simp
    then show ?thesis using b(2) by (simp add: unat_sub word_le_nat_alt)
  qed
  have c1: "circulating X s1 tid + unat charged = circulating X s tid"
    unfolding s1 using k c by (rule bal_debit)
  have "unat (balance X s1 tid proposer) \<le> circulating X s1 tid"
    using k by (rule bal_le_total)
  with c1 u small have chk: "checked_add (balance X s1 tid proposer) rewarded = Some (balance X s1 tid proposer + rewarded)"
    by (simp add: checked_add_def)
  show ?thesis
    using bal_credit [OF k chk] chk c1 u by simp
qed

lemma collect_fee_run:
  assumes X: "token_ext_ok X" and m: "meta_of X s tid = Some m"
    and c: "charged = min fee (balance X s tid payer)" and pos: "charged \<noteq> 0"
    and b: "burned = charged * ucast (min bps 10000) div 10000"
    and s1: "s1 = put_balance X tid payer (balance X s tid payer - charged) s"
    and s2: "s2 = (if charged - burned > 0
               then put_balance X tid proposer (balance X s1 tid proposer + (charged - burned)) s1 else s1)"
    and fits: "checked_add (balance X s1 tid proposer) (charged - burned) =
      Some (balance X s1 tid proposer + (charged - burned))"
  shows "collect_fee X tid payer proposer fee bps s =
    (Ok \<lparr>fee_charged = charged, fee_burned = burned, fee_rewarded = charged - burned\<rparr>,
     if burned > 0 then put_meta X tid (m\<lparr>tm_total_supply := saturating_sub (tm_total_supply m) burned\<rparr>) s2
     else s2)"
proof -
  note k = token_ext_okD(1) [OF X]
  have "meta_of X s2 tid = Some m" using m by (simp add: s2 s1 token_cells)
  moreover have pos': "min fee (balance X s tid payer) \<noteq> 0" using pos c by simp
  ultimately show ?thesis
    unfolding collect_fee_def andthen_gets Let_def if_not_P [OF pos'] c [symmetric] b [symmetric]
    using fits k X by (auto simp: andthen_def set_balance_ok save_meta_ok s1 s2 split: if_splits)
qed

lemma unat_sum_list:
  fixes allocs :: "(party_id \<times> u128) list"
  assumes "(\<Sum>(_, a) \<leftarrow> allocs. unat a) < 2 ^ 128"
  shows "unat (sum_list (map snd allocs)) = (\<Sum>(_, a) \<leftarrow> allocs. unat a)"
  using assms unat_sum_list_words [of "map snd allocs"] by (simp add: comp_def case_prod_beta')

lemma allow_key_shift:
  "allow_key X tid (PartyId (a @ ''/'' @ b)) (PartyId c) = allow_key X tid (PartyId a) (PartyId (b @ ''/'' @ c))"
  by (simp add: allow_key_def)

lemma token_no_panic [no_panic_intros]:
  "no_panic (set_balance X tid who v) s" "no_panic (set_allowance X tid who to v) s"
  "no_panic (save_meta Y tid m) s" "no_panic (load_meta Y tid) s" "no_panic (debit X tid who a) s"
  "no_panic (move_balance X tid who to a) s" "no_panic (credit Y tid who a) s" "no_panic (burn_from Y tid who a) s"
  unfolding set_balance_def set_allowance_def write_u128_def save_meta_def load_meta_def debit_def
    move_balance_def credit_def burn_from_def
  by (intro no_panic_intros)+

section \<open>The prism contract\<close>

lemma keeps_write_u128 [keeps_intros]:
  "(\<And>b s. P s \<Longrightarrow> P (st_put key b s)) \<Longrightarrow> keeps P (write_u128 X key v)"
  unfolding write_u128_def by (rule keeps_put_json_internal)

text \<open>
  A property of the state that no write to the token cells disturbs is kept by every operation
  of the prism. The frame condition and the invariants of other components are instances.
\<close>

definition token_stable :: "(state_tree \<Rightarrow> bool) \<Rightarrow> bool" where
  "token_stable P \<longleftrightarrow> (\<forall>k b s. prefix ''token/'' k \<longrightarrow> P s \<longrightarrow> P (st_put k b s))"

lemma token_stable_write:
  assumes "token_stable P" and "P s"
  shows "P (st_put (bal_key X i w) b s)" "P (st_put (meta_key X i) b s)" "P (st_put (allow_key X i u v) b s)"
  using assms token_key_prefix unfolding token_stable_def by blast+

lemma token_cells_stable [keeps_intros]:
  assumes "token_stable P"
  shows "keeps P (set_balance X tid who v)" and "keeps P (set_allowance X tid who to v)"
    and "keeps P (save_meta Y tid m)"
  unfolding set_balance_def set_allowance_def save_meta_def
  by (intro keeps_intros token_stable_write [OF assms]; assumption)+

lemma token_helpers_stable [keeps_intros]:
  assumes "token_stable P"
  shows "keeps P (debit X tid who a)" and "keeps P (move_balance X tid who to a)"
    and "keeps P (credit Y tid who a)" and "keeps P (burn_from Y tid who a)"
    and "keeps P (collect_fee Y tid who to a bps)"
  unfolding debit_def move_balance_def credit_def burn_from_def collect_fee_def Let_def
  by (intro keeps_intros assms)+

lemma token_handle_stable:
  assumes "token_stable P"
  shows "keeps P (token_handle X cmd)"
proof -
  have "keeps P (token_dispatch X cmd c)" for c
    unfolding token_dispatch_def token_create_def token_transfer_def token_approve_def
      token_transfer_from_def token_mint_def token_burn_def load_meta_def Let_def
    by (cases c; simp only: token_command.case; intro keeps_intros assms)
  then show ?thesis
    unfolding token_handle_def by (intro keeps_intros)
qed

lemma token_stable_get: "\<not> prefix ''token/'' k \<Longrightarrow> token_stable (\<lambda>s. st_get s k = v)"
  by (auto simp: token_stable_def)

lemma token_handle_frame: "outside [''token/''] k \<Longrightarrow> keeps (\<lambda>s. st_get s k = v) (token_handle X cmd)"
  by (intro token_handle_stable token_stable_get) (simp add: outside_def)

lemma token_handle_events:
  assumes "token_handle X cmd s = (Ok out, s')"
  shows "\<forall>e \<in> set (out_events out). event_of X ''token'' cmd e"
proof -
  obtain c where "token_dispatch X cmd c s = (Ok out, s')"
    using assms by (auto simp: token_handle_def andthen_Ok_iff parse_payload_Ok_iff)
  then show ?thesis
    by (cases c)
      (auto simp: token_dispatch_def token_create_def token_transfer_def token_approve_def
        token_transfer_from_def token_mint_def token_burn_def Let_def ok_iffs single_output_def token_emit_def)
qed

interpretation token: prism_contract token_handle "''token''" "[''token/'']"
  by unfold_locales (use token_handle_frame token_handle_events in \<open>blast+\<close>)

section \<open>A concrete instance of the parameters\<close>

definition token_meta_coder :: "token_meta coder" where
  "token_meta_coder = iso_coder
     (\<lambda>m. (tm_token_id m, tm_name m, tm_symbol m, tm_decimals m, tm_total_supply m, tm_owner m, tm_mintable m))
     (\<lambda>(i, n, y, d, t, w, b). \<lparr>tm_token_id = i, tm_name = n, tm_symbol = y, tm_decimals = d,
        tm_total_supply = t, tm_owner = w, tm_mintable = b\<rparr>)
     (pair_coder hash_coder (pair_coder string_coder (pair_coder string_coder (pair_coder word_coder
       (pair_coder word_coder (pair_coder party_coder bool_coder))))))"

definition token_command_coder :: "token_command coder" where
  "token_command_coder = iso_coder
     (\<lambda>c. case c of
        TkCreate n y d t b \<Rightarrow> Inl (n, y, d, t, b)
      | TkTransfer i p a \<Rightarrow> Inr (Inl (i, p, a))
      | TkApprove i p a \<Rightarrow> Inr (Inr (Inl (i, p, a)))
      | TkTransferFrom i p q a \<Rightarrow> Inr (Inr (Inr (Inl (i, p, q, a))))
      | TkMint i p a \<Rightarrow> Inr (Inr (Inr (Inr (Inl (i, p, a)))))
      | TkBurn i a \<Rightarrow> Inr (Inr (Inr (Inr (Inr (i, a))))))
     (\<lambda>z. case z of
        Inl (n, y, d, t, b) \<Rightarrow> TkCreate n y d t b
      | Inr (Inl (i, p, a)) \<Rightarrow> TkTransfer i p a
      | Inr (Inr (Inl (i, p, a))) \<Rightarrow> TkApprove i p a
      | Inr (Inr (Inr (Inl (i, p, q, a)))) \<Rightarrow> TkTransferFrom i p q a
      | Inr (Inr (Inr (Inr (Inl (i, p, a))))) \<Rightarrow> TkMint i p a
      | Inr (Inr (Inr (Inr (Inr (i, a))))) \<Rightarrow> TkBurn i a)
     (let ipa = pair_coder hash_coder (pair_coder party_coder word_coder) in
      sum_coder (pair_coder string_coder (pair_coder string_coder (pair_coder word_coder
          (pair_coder word_coder bool_coder))))
        (sum_coder ipa (sum_coder ipa
          (sum_coder (pair_coder hash_coder (pair_coder party_coder (pair_coder party_coder word_coder)))
            (sum_coder ipa (pair_coder hash_coder word_coder))))))"

definition token_event_coder :: "token_event coder" where
  "token_event_coder = iso_coder
     (\<lambda>c. case c of
        TeCreated i n a \<Rightarrow> Inl (i, n, a)
      | TeTransfer i p q a \<Rightarrow> Inr (Inl (i, p, q, a))
      | TeApproval i p q a \<Rightarrow> Inr (Inr (Inl (i, p, q, a)))
      | TeMint i p a \<Rightarrow> Inr (Inr (Inr (Inl (i, p, a))))
      | TeBurn i p a \<Rightarrow> Inr (Inr (Inr (Inr (i, p, a)))))
     (\<lambda>z. case z of
        Inl (i, n, a) \<Rightarrow> TeCreated i n a
      | Inr (Inl (i, p, q, a)) \<Rightarrow> TeTransfer i p q a
      | Inr (Inr (Inl (i, p, q, a))) \<Rightarrow> TeApproval i p q a
      | Inr (Inr (Inr (Inl (i, p, a)))) \<Rightarrow> TeMint i p a
      | Inr (Inr (Inr (Inr (i, p, a)))) \<Rightarrow> TeBurn i p a)
     (let ipqa = pair_coder hash_coder (pair_coder party_coder (pair_coder party_coder word_coder));
          ipa = pair_coder hash_coder (pair_coder party_coder word_coder) in
      sum_coder (pair_coder hash_coder (pair_coder string_coder word_coder))
        (sum_coder ipqa (sum_coder ipqa (sum_coder ipa ipa))))"

definition ref_token_ext :: token_ext where
  "ref_token_ext = veil_ext.extend ref_veil_ext
     (token_ext.fields (codec_of token_meta_coder) (codec_of token_command_coder)
       (codec_of token_event_coder))"

lemma token_coders_ok [coder_intros]:
  "coder_ok token_meta_coder" "coder_ok token_command_coder" "coder_ok token_event_coder"
  unfolding token_meta_coder_def token_command_coder_def token_event_coder_def Let_def
  by (intro coder_intros; auto split: token_command.splits token_event.splits)+

lemma ref_token_ext_ok: "token_ext_ok ref_token_ext"
  using veil_ext_okD(2) [OF ref_veil_ext_ok]
  by (simp add: token_ext_ok_def kernel_ext_ok_def hash_ext_ok_def ref_token_ext_def
      veil_ext.defs token_ext.defs codec_of_ok coder_intros)

lemma ref_token_veil_ok: "veil_ext_ok ref_token_ext"
  using ref_veil_ext_ok
  by (simp add: veil_ext_ok_def identity_ext_ok_def kernel_ext_ok_def hash_ext_ok_def ref_token_ext_def veil_ext.defs token_ext.defs)

definition demo_meta :: token_meta where
  "demo_meta = \<lparr>tm_token_id = ZERO, tm_name = ''Gold'', tm_symbol = ''GLD'', tm_decimals = 0,
     tm_total_supply = 100, tm_owner = PartyId ''alice'', tm_mintable = True\<rparr>"

definition demo_ledger :: state_tree where
  "demo_ledger = put_balance ref_token_ext ZERO (PartyId ''alice'') 100 (put_meta ref_token_ext ZERO demo_meta st_new)"

lemma balance_new [simp]: "balance X st_new tid who = 0"
  by (simp add: balance_def)

lemma meta_of_new [simp]: "meta_of X st_new tid = None"
  by (simp add: meta_of_def)

lemma supply_ok_new: "supply_ok X st_new"
  by (simp add: supply_ok_def book_total_zero)

lemma demo_ledger_cells [simp]:
  "balance ref_token_ext demo_ledger j u = (if j = ZERO \<and> u = PartyId ''alice'' then 100 else 0)"
  "meta_of ref_token_ext demo_ledger j = (if j = ZERO then Some demo_meta else None)"
  using ref_token_ext_ok token_ext_okD(1) [OF ref_token_ext_ok]
  by (auto simp: demo_ledger_def token_cells)

lemma supply_ok_demo: "supply_ok ref_token_ext demo_ledger"
proof (rule supply_ok_step [OF supply_ok_new ref_token_ext_ok, where tid = ZERO])
  have "circulating ref_token_ext demo_ledger ZERO + unat (balance ref_token_ext (put_meta ref_token_ext ZERO demo_meta st_new) ZERO (PartyId ''alice'')) =
      circulating ref_token_ext (put_meta ref_token_ext ZERO demo_meta st_new) ZERO + unat (100 :: u128)"
    unfolding demo_ledger_def using token_ext_okD(1) [OF ref_token_ext_ok] by (rule bal_wr)
  then have "circulating ref_token_ext demo_ledger ZERO = 100"
    by (simp add: token_cells book_total_zero)
  then show "\<exists>m. meta_of ref_token_ext demo_ledger ZERO = Some m \<and>
      unat (tm_total_supply m) = circulating ref_token_ext demo_ledger ZERO"
    by (simp add: demo_meta_def)
qed (simp add: demo_ledger_def fun_eq_iff token_ext_okD [OF ref_token_ext_ok] token_cells ref_token_ext_ok)

lemma demo_submitter [simp]: "cmd_submitter demo_command = PartyId ''alice''"
  by (simp add: demo_command_def)

lemma demo_transfer_runs:
  "\<exists>out s'. token_transfer ref_token_ext demo_command ZERO (PartyId ''bob'') 40 demo_ledger = (Ok out, s')"
  by (simp add: token_transfer_Ok [OF ref_token_ext_ok] Let_def checked_add_def)

definition approved_ledger :: state_tree where
  "approved_ledger = put_allowance ref_token_ext ZERO (PartyId ''carol'') (PartyId ''alice'') 30
     (put_balance ref_token_ext ZERO (PartyId ''carol'') 70 demo_ledger)"

lemma approved_transfer_runs:
  "\<exists>out s'. token_transfer_from ref_token_ext demo_command ZERO (PartyId ''carol'') (PartyId ''bob'') 20 approved_ledger = (Ok out, s')"
  using token_ext_okD(1) [OF ref_token_ext_ok]
  by (simp add: token_transfer_from_Ok [OF ref_token_ext_ok] approved_ledger_def token_cells Let_def checked_add_def)

section \<open>Properties\<close>

text \<open>
  Amounts survive their text form: the decimal text \<open>u128_dec\<close> writes is parsed back to the same
  \<open>u128\<close>, over the whole range of the type.
\<close>

theorem u128_dec_roundtrip: "u128_dec_deserialize (u128_dec_serialize v) = Some v"
  by (simp add: u128_dec_deserialize_def u128_dec_serialize_def)

text \<open>
  A successful transfer between two different accounts moves exactly the amount: the sender
  loses it, the receiver gains it without overflow, every other balance of every token and every
  token's metadata stay as they were, and the circulating amount is unchanged.
\<close>

theorem token_transfer_moves:
  assumes "token_ext_ok X" and "token_transfer X cmd tid to amount s = (Ok out, s')"
    and "cmd_submitter cmd \<noteq> to"
  shows "unat (balance X s' tid (cmd_submitter cmd)) + unat amount = unat (balance X s tid (cmd_submitter cmd)) \<and>
    unat (balance X s' tid to) = unat (balance X s tid to) + unat amount \<and>
    (\<forall>j w. (j, w) \<noteq> (tid, cmd_submitter cmd) \<and> (j, w) \<noteq> (tid, to) \<longrightarrow> balance X s' j w = balance X s j w) \<and>
    (\<forall>j. meta_of X s' j = meta_of X s j) \<and>
    circulating X s' tid = circulating X s tid"
proof -
  note k = token_ext_okD(1) [OF assms(1)]
  let ?from = "cmd_submitter cmd"
  obtain v where v: "amount \<le> balance X s tid ?from" "checked_add (balance X s tid to) amount = Some v"
    "s' = put_balance X tid to v (put_balance X tid ?from (balance X s tid ?from - amount) s)"
    using assms(2) by (auto simp: token_transfer_Ok [OF assms(1)] Let_def)
  have "unat (balance X s tid ?from - amount) + unat amount = unat (balance X s tid ?from)"
    using v(1) by (simp add: unat_sub word_le_nat_alt)
  moreover have "circulating X s' tid = circulating X s tid"
    unfolding v(3) using k assms(3) v(1,2) by (rule move_distinct_total)
  ultimately show ?thesis
    using k assms(3) v unat_checked_add [OF v(2)] by (auto simp: token_cells)
qed

theorem token_transfer_moves_witness:
  "\<exists>out s'. token_transfer ref_token_ext demo_command ZERO (PartyId ''bob'') 40 demo_ledger = (Ok out, s') \<and>
    unat (balance ref_token_ext s' ZERO (PartyId ''alice'')) + 40 = 100 \<and>
    unat (balance ref_token_ext s' ZERO (PartyId ''bob'')) = 40"
proof -
  obtain out s' where run:
    "token_transfer ref_token_ext demo_command ZERO (PartyId ''bob'') 40 demo_ledger = (Ok out, s')"
    using demo_transfer_runs by blast
  show ?thesis
    using run token_transfer_moves [OF ref_token_ext_ok run] by auto
qed

text \<open>
  A transfer to oneself creates money. When the sender is the receiver, the handler adds the
  amount to the balance it read before the debit: the account ends up richer by the amount, the
  circulating amount grows by it, and the recorded supply does not change.
\<close>

theorem token_self_transfer_inflates:
  assumes "token_ext_ok X" and "meta_of X s tid = Some m"
    and "amount \<le> balance X s tid (cmd_submitter cmd)"
    and "unat (balance X s tid (cmd_submitter cmd)) + unat amount < 2 ^ 128"
  shows "\<exists>out s'. token_transfer X cmd tid (cmd_submitter cmd) amount s = (Ok out, s') \<and>
    unat (balance X s' tid (cmd_submitter cmd)) = unat (balance X s tid (cmd_submitter cmd)) + unat amount \<and>
    circulating X s' tid = circulating X s tid + unat amount \<and> meta_of X s' tid = Some m"
proof -
  note k = token_ext_okD(1) [OF assms(1)]
  let ?me = "cmd_submitter cmd"
  let ?b = "balance X s tid ?me"
  let ?s1 = "put_balance X tid ?me (?b - amount) s"
  let ?s' = "put_balance X tid ?me (?b + amount) ?s1"
  have chk: "checked_add ?b amount = Some (?b + amount)"
    using assms(4) by (simp add: checked_add_def)
  have "circulating X ?s' tid + unat (balance X ?s1 tid ?me) = circulating X ?s1 tid + unat (?b + amount)"
    using k by (rule bal_wr)
  moreover have "circulating X ?s1 tid + unat amount = circulating X s tid"
    using k assms(3) by (rule bal_debit)
  moreover have "unat (?b - amount) = unat ?b - unat amount" and "unat amount \<le> unat ?b"
    using assms(3) by (simp_all add: unat_sub word_le_nat_alt)
  moreover have "unat (?b + amount) = unat ?b + unat amount"
    using unat_checked_add [OF chk] .
  ultimately have "circulating X ?s' tid = circulating X s tid + unat amount"
    using k by (simp add: token_cells)
  moreover have "token_transfer X cmd tid ?me amount s =
      (Ok (single_output (token_emit X cmd (TeTransfer tid ?me ?me amount)) 1000), ?s')"
    using assms chk by (auto simp: token_transfer_Ok [OF assms(1)] Let_def)
  ultimately show ?thesis
    using k assms(2) unat_checked_add [OF chk] by (auto simp: token_cells)
qed

theorem token_self_transfer_inflates_witness:
  "\<exists>out s'. token_transfer ref_token_ext demo_command ZERO (PartyId ''alice'') 100 demo_ledger = (Ok out, s') \<and>
    unat (balance ref_token_ext s' ZERO (PartyId ''alice'')) = 200 \<and>
    circulating ref_token_ext s' ZERO = circulating ref_token_ext demo_ledger ZERO + 100 \<and>
    meta_of ref_token_ext s' ZERO = Some demo_meta"
  using token_self_transfer_inflates [OF ref_token_ext_ok, of demo_ledger ZERO demo_meta 100 demo_command] by simp

text \<open>
  A successful \<open>TransferFrom\<close> between different accounts spends the allowance: amount and
  allowance both suffice beforehand, the allowance of the caller falls by the amount, the amount
  moves, and the circulating amount is unchanged.
\<close>

theorem token_transfer_from_spends:
  assumes "token_ext_ok X" and "token_transfer_from X cmd tid from to amount s = (Ok out, s')"
    and "from \<noteq> to"
  shows "unat (allowance X s' tid from (cmd_submitter cmd)) + unat amount =
      unat (allowance X s tid from (cmd_submitter cmd)) \<and>
    unat (balance X s' tid from) + unat amount = unat (balance X s tid from) \<and>
    unat (balance X s' tid to) = unat (balance X s tid to) + unat amount \<and>
    circulating X s' tid = circulating X s tid"
proof -
  note k = token_ext_okD(1) [OF assms(1)]
  let ?a = "allowance X s tid from (cmd_submitter cmd)"
  obtain v where v: "amount \<le> ?a" "amount \<le> balance X s tid from"
    "checked_add (balance X s tid to) amount = Some v"
    "s' = put_allowance X tid from (cmd_submitter cmd) (?a - amount)
       (put_balance X tid to v (put_balance X tid from (balance X s tid from - amount) s))"
    using assms(2) by (auto simp: token_transfer_from_Ok [OF assms(1)] Let_def)
  have "unat (?a - amount) + unat amount = unat ?a"
    and "unat (balance X s tid from - amount) + unat amount = unat (balance X s tid from)"
    using v(1,2) by (simp_all add: unat_sub word_le_nat_alt)
  moreover have "circulating X s' tid = circulating X s tid"
    unfolding v(4) balance_fun_frame using k assms(3) v(2,3) by (rule move_distinct_total)
  ultimately show ?thesis
    using k assms(3) v(4) unat_checked_add [OF v(3)] by (auto simp: token_cells)
qed

theorem token_transfer_from_spends_witness:
  "\<exists>out s'. token_transfer_from ref_token_ext demo_command ZERO (PartyId ''carol'') (PartyId ''bob'') 20
      approved_ledger = (Ok out, s') \<and>
    unat (allowance ref_token_ext s' ZERO (PartyId ''carol'') (PartyId ''alice'')) + 20 = 30"
proof -
  obtain out s' where run: "token_transfer_from ref_token_ext demo_command ZERO (PartyId ''carol'')
      (PartyId ''bob'') 20 approved_ledger = (Ok out, s')"
    using approved_transfer_runs by blast
  have "allowance ref_token_ext approved_ledger ZERO (PartyId ''carol'') (PartyId ''alice'') = 30"
    using token_ext_okD(1) [OF ref_token_ext_ok] by (simp add: approved_ledger_def token_cells)
  then show ?thesis
    using run token_transfer_from_spends [OF ref_token_ext_ok run] by auto
qed

text \<open>
  C24. Supply invariant of the token prism. Every successful token command that is not a transfer of
  an account to itself keeps, for every token, the recorded supply equal to the sum of the balances.
\<close>

theorem token_handle_supply_ok:
  assumes "token_ext_ok X" and "supply_ok X s" and "token_dispatch X cmd c s = (Ok out, s')"
    and "\<And>tid to a. c = TkTransfer tid to a \<Longrightarrow> to \<noteq> cmd_submitter cmd"
    and "\<And>tid from to a. c = TkTransferFrom tid from to a \<Longrightarrow> from \<noteq> to"
  shows "supply_ok X s'"
proof (cases c)
  case (TkCreate name symbol decimals tot mintable)
  with assms show ?thesis by (auto simp: token_dispatch_def intro: supply_ok_create)
next
  case (TkTransfer tid to amount)
  with assms show ?thesis
    by (auto simp: token_dispatch_def token_transfer_Ok Let_def intro: supply_ok_move)
next
  case (TkApprove tid spender amount)
  with assms show ?thesis
    by (auto simp: token_dispatch_def token_approve_Ok intro: supply_ok_allowance)
next
  case (TkTransferFrom tid src dst amount)
  with assms(1-3) assms(5) [OF TkTransferFrom] show ?thesis
    by (auto simp: token_dispatch_def token_transfer_from_Ok Let_def token_cells
        intro!: supply_ok_allowance supply_ok_move)
next
  case (TkMint tid to amount)
  with assms show ?thesis by (auto simp: token_dispatch_def intro: supply_ok_mint)
next
  case (TkBurn tid amount)
  with assms show ?thesis
    by (auto simp: token_dispatch_def token_burn_Ok Let_def intro: supply_ok_burn)
qed

theorem token_handle_supply_ok_witness:
  "\<exists>out s'. token_dispatch ref_token_ext demo_command (TkTransfer ZERO (PartyId ''bob'') 40) demo_ledger =
    (Ok out, s') \<and> supply_ok ref_token_ext s'"
proof -
  obtain out s' where run:
    "token_dispatch ref_token_ext demo_command (TkTransfer ZERO (PartyId ''bob'') 40) demo_ledger = (Ok out, s')"
    using demo_transfer_runs by (auto simp: token_dispatch_def)
  show ?thesis
    using run token_handle_supply_ok [OF ref_token_ext_ok supply_ok_demo run] by simp
qed

text \<open>
  Transaction fees. On a ledger whose supply is in order, collecting a fee never fails: it
  charges the fee or the whole balance if that is less, splits the charge into a burned and a
  rewarded part without remainder (also when \<open>charged * burn_bps\<close> wraps around), takes exactly the
  burned part out of circulation and out of the recorded supply, and moves the rest to the proposer.
\<close>

theorem collect_fee_splits:
  assumes "token_ext_ok X" and "supply_ok X s" and "meta_of X s tid = Some m"
  shows "\<exists>f s'. collect_fee X tid payer proposer fee bps s = (Ok f, s') \<and>
    fee_charged f = min fee (balance X s tid payer) \<and>
    unat (fee_burned f) + unat (fee_rewarded f) = unat (fee_charged f) \<and>
    circulating X s' tid + unat (fee_burned f) = circulating X s tid \<and> supply_ok X s'"
proof (cases "min fee (balance X s tid payer) = 0")
  case True
  then have "collect_fee X tid payer proposer fee bps s =
      (Ok \<lparr>fee_charged = 0, fee_burned = 0, fee_rewarded = 0\<rparr>, s)"
    by (simp add: collect_fee_def Let_def)
  with True assms(2) show ?thesis by simp
next
  case False
  note k = token_ext_okD(1) [OF assms(1)]
  define charged where "charged = min fee (balance X s tid payer)"
  define burned where "burned = charged * ucast (min bps 10000) div 10000"
  define s1 where "s1 = put_balance X tid payer (balance X s tid payer - charged) s"
  let ?r = "charged - burned"
  define s2 where "s2 = (if ?r > 0 then put_balance X tid proposer (balance X s1 tid proposer + ?r) s1 else s1)"
  have "burned \<le> charged" unfolding burned_def by (rule burned_le_charged) (rule bps_capped)
  have small: "circulating X s tid < 2 ^ 128"
    using supply_okD [OF assms(2,3)] unsigned_less [of "tm_total_supply m", where ?'a = nat] by simp
  have r: "checked_add (balance X s1 tid proposer) ?r = Some (balance X s1 tid proposer + ?r)"
    "circulating X (put_balance X tid proposer (balance X s1 tid proposer + ?r) s1) tid + unat burned
       = circulating X s tid" "circulating X s1 tid + unat charged = circulating X s tid"
    using reward_step [OF k _ \<open>burned \<le> charged\<close> _ small s1_def, of ?r proposer] by (simp_all add: charged_def)
  have split: "unat burned + unat ?r = unat charged"
    using \<open>burned \<le> charged\<close> by (simp add: unat_sub word_le_nat_alt)
  then have c2: "circulating X s2 tid + unat burned = circulating X s tid"
    using r by (auto simp: s2_def word_gt_0 word_less_nat_alt)
  note run = collect_fee_run [OF assms(1,3) charged_def False [folded charged_def] burned_def s1_def s2_def r(1)]
  have ok: "supply_ok X (put_meta X tid (m\<lparr>tm_total_supply := saturating_sub (tm_total_supply m) burned\<rparr>) s2)"
    by (rule supply_ok_burned_move [OF assms(1-3) _ _ _ c2])
      (auto simp: s2_def s1_def balance_fun_other k token_cells)
  have ok0: "burned = 0 \<Longrightarrow> supply_ok X s2"
    using c2 supply_okD [OF assms(2,3)] assms(3)
    by (intro supply_ok_step [OF assms(2,1), where tid = tid])
      (auto simp: s2_def s1_def balance_fun_other k token_cells)
  show ?thesis
    unfolding run using split c2 ok ok0
    by (cases "burned = 0") (auto simp: charged_def [symmetric] word_gt_0)
qed

theorem collect_fee_splits_witness:
  "\<exists>f s'. collect_fee ref_token_ext ZERO (PartyId ''alice'') (PartyId ''bob'') 10 5000 demo_ledger = (Ok f, s') \<and>
    fee_charged f = min 10 (balance ref_token_ext demo_ledger ZERO (PartyId ''alice'')) \<and>
    unat (fee_burned f) + unat (fee_rewarded f) = unat (fee_charged f) \<and>
    circulating ref_token_ext s' ZERO + unat (fee_burned f) = circulating ref_token_ext demo_ledger ZERO \<and>
    supply_ok ref_token_ext s'"
  by (rule collect_fee_splits [OF ref_token_ext_ok supply_ok_demo, where m = demo_meta]) simp

text \<open>
  Genesis. Seeding the native token on a fresh ledger with allocations that fit in \<open>u128\<close>
  succeeds, gives every party the sum of its allocations and establishes the supply invariant.
\<close>

theorem seed_native_token_establishes:
  assumes "token_ext_ok X" and "supply_ok X s" and "\<not> st_contains s (meta_key X (native_token_id X))"
    and "(\<Sum>(_, a) \<leftarrow> allocs. unat a) < 2 ^ 128"
  shows "\<exists>s'. seed_native_token X name symbol decimals treasury allocs s = (Ok (native_token_id X), s') \<and>
    supply_ok X s' \<and> circulating X s' (native_token_id X) = (\<Sum>(_, a) \<leftarrow> allocs. unat a) \<and>
    (\<forall>w. unat (balance X s' (native_token_id X) w) = (\<Sum>(u, a) \<leftarrow> allocs. if u = w then unat a else 0))"
proof -
  note k = token_ext_okD(1) [OF assms(1)] and h = token_ext_okD(2) [OF assms(1)]
  let ?t = "native_token_id X"
  define m where "m = \<lparr>tm_token_id = ?t, tm_name = name, tm_symbol = symbol, tm_decimals = decimals,
    tm_total_supply = sum_list (map snd allocs), tm_owner = treasury, tm_mintable = True\<rparr>"
  let ?s0 = "put_meta X ?t m s"
  have zero: "balance X ?s0 ?t w = 0" for w
    using supply_ok_absent [OF assms(2,1,3)] by simp
  then have c0: "circulating X ?s0 ?t = 0" by (simp add: book_total_zero)
  with assms(4) have "circulating X ?s0 ?t + (\<Sum>(_, a) \<leftarrow> allocs. unat a) < 2 ^ 128" by simp
  from seed_allocations_runs [OF k this] obtain s' where s': "seed_allocations X ?t allocs ?s0 = (Ok (), s')"
    "circulating X s' ?t = circulating X ?s0 ?t + (\<Sum>(_, a) \<leftarrow> allocs. unat a)"
    "\<forall>w. unat (balance X s' ?t w) = unat (balance X ?s0 ?t w) + (\<Sum>(u, a) \<leftarrow> allocs. if u = w then unat a else 0)"
    "\<forall>j. j \<noteq> ?t \<longrightarrow> balance X s' j = balance X ?s0 j"
    "\<forall>j. st_get s' (meta_key X j) = st_get ?s0 (meta_key X j)"
    by (elim exE conjE that)
  have run: "seed_native_token X name symbol decimals treasury allocs s = (Ok ?t, s')"
    using assms(1,3) s'(1) unfolding seed_native_token_def Let_def m_def
    by (simp add: save_meta_ok andthen_def)
  have meta: "meta_of X s' j = meta_of X ?s0 j" and cont: "st_contains s' (meta_key X j) = st_contains ?s0 (meta_key X j)" for j
    using s'(5) [rule_format, of j] unfolding meta_of_def st_contains_get
    by (simp_all only: get_json_opt_cong [OF s'(5) [rule_format]])
  have own: "meta_of X s' ?t = Some m" using assms(1) by (simp add: meta token_cells)
  have tot: "unat (tm_total_supply m) = circulating X s' ?t"
    using s'(2) c0 unat_sum_list [OF assms(4)] by (simp add: m_def)
  have other: "balance X s' j = balance X s j \<and> meta_of X s' j = meta_of X s j \<and>
      st_contains s' (meta_key X j) = st_contains s (meta_key X j)" if "j \<noteq> ?t" for j
    using s'(4) that h assms(1) by (auto simp: meta cont token_cells)
  have "supply_ok X s'"
    by (rule supply_ok_step [OF assms(2,1) other]) (use own tot in blast)+
  moreover have "circulating X s' ?t = (\<Sum>(_, a) \<leftarrow> allocs. unat a)"
    using s'(2) c0 by simp
  moreover have "\<forall>w. unat (balance X s' ?t w) = (\<Sum>(u, a) \<leftarrow> allocs. if u = w then unat a else 0)"
    using s'(3) unfolding zero by simp
  ultimately show ?thesis using run by (intro exI conjI)
qed

theorem seed_native_token_establishes_witness:
  "let allocs = [(PartyId ''alice'', 60), (PartyId ''bob'', 40)] in
   \<exists>s'. seed_native_token ref_token_ext ''Lux'' ''LUX'' 18 (PartyId ''alice'') allocs st_new =
       (Ok (native_token_id ref_token_ext), s') \<and> supply_ok ref_token_ext s' \<and>
     circulating ref_token_ext s' (native_token_id ref_token_ext) = (\<Sum>(_, a) \<leftarrow> allocs. unat a) \<and>
     (\<forall>w. unat (balance ref_token_ext s' (native_token_id ref_token_ext) w) =
        (\<Sum>(u, a) \<leftarrow> allocs. if u = w then unat a else 0))"
  unfolding Let_def
  by (rule seed_native_token_establishes [OF ref_token_ext_ok supply_ok_new]) (simp_all add: st_contains_def st_new_def)

text \<open>
  Allowances of different owners share a key. The allowance key joins owner and spender with a
  slash, and both may contain slashes: an approval by \<open>a\<close> for the spender \<open>b/c\<close> is an allowance of
  \<open>a/b\<close> for \<open>c\<close>. Anyone who controls the names \<open>a\<close> and \<open>c\<close> can therefore empty an account
  called \<open>a/b\<close>, such as the escrow accounts of the prisms, without its approval.
\<close>

theorem allowance_key_confusion:
  assumes "token_ext_ok X" and "meta_of X s tid = Some m"
    and "cmd_submitter cmd1 = PartyId a" and "cmd_submitter cmd2 = PartyId c"
    and "PartyId (a @ ''/'' @ b) \<noteq> to" and "amount \<le> balance X s tid (PartyId (a @ ''/'' @ b))"
    and "unat (balance X s tid to) + unat amount < 2 ^ 128"
  shows "\<exists>out1 out2 s1 s2. token_approve X cmd1 tid (PartyId (b @ ''/'' @ c)) amount s = (Ok out1, s1) \<and>
    token_transfer_from X cmd2 tid (PartyId (a @ ''/'' @ b)) to amount s1 = (Ok out2, s2) \<and>
    balance X s2 tid (PartyId (a @ ''/'' @ b)) = balance X s tid (PartyId (a @ ''/'' @ b)) - amount \<and>
    balance X s2 tid to = balance X s tid to + amount"
proof -
  note k = token_ext_okD(1) [OF assms(1)]
  let ?v = "PartyId (a @ ''/'' @ b)"
  let ?s1 = "put_allowance X tid (PartyId a) (PartyId (b @ ''/'' @ c)) amount s"
  have "checked_add (balance X s tid to) amount = Some (balance X s tid to + amount)"
    using assms(7) by (simp add: checked_add_def)
  moreover have "allowance X ?s1 tid ?v (PartyId c) = amount"
    unfolding allowance_def allow_key_shift using k by (simp add: read_u128_put)
  ultimately show ?thesis
    using assms k by (auto simp: token_approve_Ok token_transfer_from_Ok token_cells Let_def)
qed

definition escrow_ledger :: state_tree where
  "escrow_ledger = put_balance ref_token_ext ZERO (PartyId ''staking/escrow'') 50 demo_ledger"

theorem allowance_key_confusion_witness:
  "\<exists>out1 out2 s1 s2. token_approve ref_token_ext (demo_command\<lparr>cmd_submitter := PartyId ''staking''\<rparr>) ZERO
      (PartyId ''escrow/mallory'') 50 escrow_ledger = (Ok out1, s1) \<and>
    token_transfer_from ref_token_ext (demo_command\<lparr>cmd_submitter := PartyId ''mallory''\<rparr>) ZERO
      (PartyId ''staking/escrow'') (PartyId ''mallory'') 50 s1 = (Ok out2, s2) \<and>
    balance ref_token_ext s2 ZERO (PartyId ''staking/escrow'') = 0 \<and>
    balance ref_token_ext s2 ZERO (PartyId ''mallory'') = 50"
  using allowance_key_confusion [of ref_token_ext escrow_ledger ZERO demo_meta
      "demo_command\<lparr>cmd_submitter := PartyId ''staking''\<rparr>" "''staking''"
      "demo_command\<lparr>cmd_submitter := PartyId ''mallory''\<rparr>" "''mallory''" "''escrow''" "PartyId ''mallory''" 50]
    ref_token_ext_ok token_ext_okD(1) [OF ref_token_ext_ok]
  by (simp add: escrow_ledger_def token_cells)

end
