(* ===== verification/Dex.thy ===== *)
theory Dex
  imports Token
begin

text \<open>
  \<open>prisms/dex/src/lib.rs\<close>: a constant-product exchange. A pool holds the reserves of two tokens and the
  liquidity shares of its providers; the handler is split into one definition per command. The
  integer square root is the loop of the source, a value of type \<open>outcome\<close> since it divides.
\<close>

section \<open>Data\<close>

record pool =
  pool_id :: hash
  pool_token_a :: hash
  pool_token_b :: hash
  pool_reserve_a :: u128
  pool_reserve_b :: u128
  pool_total_shares :: u128
  pool_shares :: "(string, u128) fmap"

datatype dex_command =
    DxCreatePool hash hash
  | DxAddLiquidity hash u128 u128
  | DxRemoveLiquidity hash u128
  | DxSwap hash hash u128 u128

datatype dex_event =
    DePoolCreated hash hash hash
  | DeLiquidityAdded hash party_id u128
  | DeLiquidityRemoved hash party_id u128 u128
  | DeSwapped hash party_id hash u128 hash u128

record dex_ext = token_ext +
  js_pool :: "pool codec"
  js_dex_command :: "dex_command codec"
  js_dex_event :: "dex_event codec"

definition dex_ext_ok :: "'x dex_ext_scheme \<Rightarrow> bool" where
  "dex_ext_ok X \<longleftrightarrow> token_ext_ok X \<and> codec_ok (js_pool X) \<and> codec_ok (js_dex_command X) \<and> codec_ok (js_dex_event X)"

section \<open>Integer square root\<close>

function isqrt_loop :: "u128 \<Rightarrow> u128 \<Rightarrow> u128 \<Rightarrow> ('e, u128) outcome" where
  "isqrt_loop n x y =
     (if y < x then if y = 0 then Panic else isqrt_loop n y ((y + n div y) div 2)
      else Ok x)"
  by pat_completeness auto

termination
  by (relation "measure (\<lambda>(n, x, y). unat x)") (auto simp: word_less_nat_alt)

definition isqrt :: "u128 \<Rightarrow> ('e, u128) outcome" where
  "isqrt n = (if n = 0 then Ok 0 else isqrt_loop n n ((n + 1) div 2))"

section \<open>Pools\<close>

definition pool_key :: "'x kernel_ext_scheme \<Rightarrow> hash \<Rightarrow> string" where
  "pool_key X pid = ''dex/pool/'' @ to_hex X pid"

definition pool_load :: "'x dex_ext_scheme \<Rightarrow> hash \<Rightarrow> (state_tree, prism_error, pool) act" where
  "pool_load X pid = get_json_or (js_pool X) (pool_key X pid) (NotFound (''pool '' @ to_hex X pid))"

definition pool_save :: "'x dex_ext_scheme \<Rightarrow> pool \<Rightarrow> (state_tree, prism_error, unit) act" where
  "pool_save X p = put_json_internal (js_pool X) (pool_key X (pool_id p)) p"

definition dex_emit :: "'x dex_ext_scheme \<Rightarrow> command \<Rightarrow> dex_event \<Rightarrow> event" where
  "dex_emit X cmd payload = emit X ''dex'' cmd (to_vec_or_default (js_dex_event X) payload)"

definition FEE_BPS :: u128 where
  "FEE_BPS = 30"

definition quote_out :: "u128 \<Rightarrow> u128 \<Rightarrow> u128 \<Rightarrow> u128" where
  "quote_out reserve_in reserve_out amount_in =
     (if reserve_in = 0 \<or> reserve_out = 0 \<or> amount_in = 0 then 0
      else
        let amount_in_after_fee = saturating_mul amount_in (10000 - FEE_BPS);
            numerator = saturating_mul amount_in_after_fee reserve_out;
            denominator = saturating_add (saturating_mul reserve_in 10000) amount_in_after_fee in
        numerator div denominator)"

definition share_of :: "pool \<Rightarrow> party_id \<Rightarrow> u128" where
  "share_of p who = (case fmlookup (pool_shares p) (party_name who) of None \<Rightarrow> 0 | Some v \<Rightarrow> v)"

section \<open>Commands\<close>

definition dex_create_pool ::
  "'x dex_ext_scheme \<Rightarrow> command \<Rightarrow> hash \<Rightarrow> hash \<Rightarrow> (state_tree, prism_error, prism_output) act" where
  "dex_create_pool X cmd token_a0 token_b0 =
     andthen (ensure (token_a0 \<noteq> token_b0) (InvalidPayload ''pool needs two distinct tokens'')) (\<lambda>_.
     let (token_a, token_b) =
           (if to_hex X token_a0 \<le> to_hex X token_b0 then (token_a0, token_b0) else (token_b0, token_a0));
         pid = commit X ''dex/pool-id'' [as_bytes (to_hex X token_a), as_bytes (to_hex X token_b)] in
     andthen (gets (\<lambda>s. st_contains s (pool_key X pid))) (\<lambda>exists.
     andthen (ensure (\<not> exists) (InvalidPayload ''pool already exists'')) (\<lambda>_.
     andthen (pool_save X \<lparr>pool_id = pid, pool_token_a = token_a, pool_token_b = token_b,
        pool_reserve_a = 0, pool_reserve_b = 0, pool_total_shares = 0, pool_shares = fmempty\<rparr>) (\<lambda>_.
     ret (single_output (dex_emit X cmd (DePoolCreated pid token_a token_b)) 4000)))))"

definition minted_shares :: "pool \<Rightarrow> u128 \<Rightarrow> u128 \<Rightarrow> (state_tree, prism_error, u128) act" where
  "minted_shares p amount_a amount_b =
     (if pool_total_shares p = 0 then Pair (isqrt (saturating_mul amount_a amount_b))
      else
        andthen (div_or_panic (saturating_mul amount_a (pool_total_shares p)) (pool_reserve_a p)) (\<lambda>by_a.
        andthen (div_or_panic (saturating_mul amount_b (pool_total_shares p)) (pool_reserve_b p)) (\<lambda>by_b.
        ret (min by_a by_b))))"

definition dex_add_liquidity ::
  "'x dex_ext_scheme \<Rightarrow> command \<Rightarrow> hash \<Rightarrow> u128 \<Rightarrow> u128 \<Rightarrow> (state_tree, prism_error, prism_output) act" where
  "dex_add_liquidity X cmd pid amount_a amount_b =
     andthen (pool_load X pid) (\<lambda>p.
     andthen (ensure (\<not> (amount_a = 0 \<or> amount_b = 0)) (InvalidPayload ''amounts must be > 0'')) (\<lambda>_.
     andthen (minted_shares p amount_a amount_b) (\<lambda>minted.
     andthen (ensure (minted \<noteq> 0) (InvalidPayload ''liquidity too small to mint shares'')) (\<lambda>_.
     let caller = cmd_submitter cmd in
     andthen (debit X (pool_token_a p) caller amount_a) (\<lambda>_.
     andthen (debit X (pool_token_b p) caller amount_b) (\<lambda>_.
     andthen (pool_save X (p\<lparr>
         pool_reserve_a := saturating_add (pool_reserve_a p) amount_a,
         pool_reserve_b := saturating_add (pool_reserve_b p) amount_b,
         pool_total_shares := saturating_add (pool_total_shares p) minted,
         pool_shares := fmupd (party_name caller) (saturating_add (share_of p caller) minted) (pool_shares p)\<rparr>)) (\<lambda>_.
     ret (single_output (dex_emit X cmd (DeLiquidityAdded pid caller minted)) 3000))))))))"

definition dex_remove_liquidity ::
  "'x dex_ext_scheme \<Rightarrow> command \<Rightarrow> hash \<Rightarrow> u128 \<Rightarrow> (state_tree, prism_error, prism_output) act" where
  "dex_remove_liquidity X cmd pid shares =
     andthen (pool_load X pid) (\<lambda>p.
     let caller = cmd_submitter cmd; held = share_of p caller in
     andthen (ensure (\<not> (shares = 0 \<or> shares > held)) (LimitExceeded ''not enough shares'')) (\<lambda>_.
     andthen (div_or_panic (saturating_mul (pool_reserve_a p) shares) (pool_total_shares p)) (\<lambda>amount_a.
     andthen (div_or_panic (saturating_mul (pool_reserve_b p) shares) (pool_total_shares p)) (\<lambda>amount_b.
     let remaining = held - shares;
         p' = p\<lparr>
           pool_reserve_a := saturating_sub (pool_reserve_a p) amount_a,
           pool_reserve_b := saturating_sub (pool_reserve_b p) amount_b,
           pool_total_shares := saturating_sub (pool_total_shares p) shares,
           pool_shares := (if remaining = 0 then fmdrop (party_name caller) (pool_shares p)
                           else fmupd (party_name caller) remaining (pool_shares p))\<rparr> in
     andthen (credit X (pool_token_a p) caller amount_a) (\<lambda>_.
     andthen (credit X (pool_token_b p) caller amount_b) (\<lambda>_.
     andthen (pool_save X p') (\<lambda>_.
     ret (single_output (dex_emit X cmd (DeLiquidityRemoved pid caller amount_a amount_b)) 2500))))))))"

definition swap_sides :: "pool \<Rightarrow> hash \<Rightarrow> (u128 \<times> u128 \<times> hash) option" where
  "swap_sides p token_in =
     (if token_in = pool_token_a p then Some (pool_reserve_a p, pool_reserve_b p, pool_token_b p)
      else if token_in = pool_token_b p then Some (pool_reserve_b p, pool_reserve_a p, pool_token_a p)
      else None)"

definition swap_update :: "pool \<Rightarrow> hash \<Rightarrow> u128 \<Rightarrow> u128 \<Rightarrow> pool" where
  "swap_update p token_in amount_in amount_out =
     (if token_in = pool_token_a p
      then p\<lparr>pool_reserve_a := saturating_add (pool_reserve_a p) amount_in,
             pool_reserve_b := saturating_sub (pool_reserve_b p) amount_out\<rparr>
      else p\<lparr>pool_reserve_b := saturating_add (pool_reserve_b p) amount_in,
             pool_reserve_a := saturating_sub (pool_reserve_a p) amount_out\<rparr>)"

definition dex_swap ::
  "'x dex_ext_scheme \<Rightarrow> command \<Rightarrow> hash \<Rightarrow> hash \<Rightarrow> u128 \<Rightarrow> u128 \<Rightarrow> (state_tree, prism_error, prism_output) act" where
  "dex_swap X cmd pid token_in amount_in min_out =
     andthen (pool_load X pid) (\<lambda>p.
     andthen (ensure (amount_in \<noteq> 0) (InvalidPayload ''amount_in must be > 0'')) (\<lambda>_.
     andthen (of_option (InvalidPayload ''token not in pool'') (swap_sides p token_in)) (\<lambda>(reserve_in, reserve_out, token_out).
     let amount_out = quote_out reserve_in reserve_out amount_in; caller = cmd_submitter cmd in
     andthen (ensure (\<not> (amount_out = 0 \<or> amount_out < min_out))
       (LimitExceeded ''slippage: output below min_out'')) (\<lambda>_.
     andthen (debit X token_in caller amount_in) (\<lambda>_.
     andthen (credit X token_out caller amount_out) (\<lambda>_.
     andthen (pool_save X (swap_update p token_in amount_in amount_out)) (\<lambda>_.
     ret (single_output (dex_emit X cmd (DeSwapped pid caller token_in amount_in token_out amount_out)) 2000)))))))) "

definition dex_dispatch ::
  "'x dex_ext_scheme \<Rightarrow> command \<Rightarrow> dex_command \<Rightarrow> (state_tree, prism_error, prism_output) act" where
  "dex_dispatch X cmd c = (case c of
      DxCreatePool a b \<Rightarrow> dex_create_pool X cmd a b
    | DxAddLiquidity pid a b \<Rightarrow> dex_add_liquidity X cmd pid a b
    | DxRemoveLiquidity pid n \<Rightarrow> dex_remove_liquidity X cmd pid n
    | DxSwap pid t a m \<Rightarrow> dex_swap X cmd pid t a m)"

definition dex_handle :: "'x dex_ext_scheme \<Rightarrow> handler" where
  "dex_handle X cmd = andthen (parse_payload (js_dex_command X) (cmd_payload cmd)) (dex_dispatch X cmd)"

definition dex_estimate :: "'x dex_ext_scheme \<Rightarrow> command \<Rightarrow> state_tree \<Rightarrow> u64" where
  "dex_estimate X cmd s =
     (case from_slice (js_dex_command X) (cmd_payload cmd) of
        Inr (DxCreatePool _ _) \<Rightarrow> 4000
      | Inr (DxAddLiquidity _ _ _) \<Rightarrow> 3000
      | Inr (DxRemoveLiquidity _ _) \<Rightarrow> 2500
      | Inr (DxSwap _ _ _ _) \<Rightarrow> 2000
      | Inl _ \<Rightarrow> 1000)"

definition dex_prism :: "'x dex_ext_scheme \<Rightarrow> prism" where
  "dex_prism X = \<lparr>pr_info = \<lparr>info_name = ''dex'',
       info_description = ''Constant-product (x*y=k) AMM: pools, liquidity and swaps'',
       info_version = ''1.0''\<rparr>,
     pr_handle = dex_handle X, pr_estimate = dex_estimate X\<rparr>"

definition pool_of :: "'x dex_ext_scheme \<Rightarrow> state_tree \<Rightarrow> hash \<Rightarrow> pool option" where
  "pool_of X s pid = get_json_opt (js_pool X) s (pool_key X pid)"

definition dex_command_of :: "'x dex_ext_scheme \<Rightarrow> party_id \<Rightarrow> visibility \<Rightarrow> u64 \<Rightarrow> dex_command \<Rightarrow> command" where
  "dex_command_of X submitter vis nonce c =
     \<lparr>cmd_prism = ''dex'', cmd_submitter = submitter, cmd_visibility = vis,
      cmd_payload = to_vec_or_default (js_dex_command X) c, cmd_nonce = nonce\<rparr>"

definition create_pool_command ::
  "'x dex_ext_scheme \<Rightarrow> party_id \<Rightarrow> visibility \<Rightarrow> u64 \<Rightarrow> hash \<Rightarrow> hash \<Rightarrow> command" where
  "create_pool_command X submitter vis nonce token_a token_b =
     dex_command_of X submitter vis nonce (DxCreatePool token_a token_b)"

definition add_liquidity_command ::
  "'x dex_ext_scheme \<Rightarrow> party_id \<Rightarrow> visibility \<Rightarrow> u64 \<Rightarrow> hash \<Rightarrow> u128 \<Rightarrow> u128 \<Rightarrow> command" where
  "add_liquidity_command X submitter vis nonce pid amount_a amount_b =
     dex_command_of X submitter vis nonce (DxAddLiquidity pid amount_a amount_b)"

definition swap_command ::
  "'x dex_ext_scheme \<Rightarrow> party_id \<Rightarrow> visibility \<Rightarrow> u64 \<Rightarrow> hash \<Rightarrow> hash \<Rightarrow> u128 \<Rightarrow> u128 \<Rightarrow> command" where
  "swap_command X submitter vis nonce pid token_in amount_in min_out =
     dex_command_of X submitter vis nonce (DxSwap pid token_in amount_in min_out)"

section \<open>Lemmas on the arithmetic\<close>

lemma newton_upper:
  fixes n x :: nat
  assumes "0 < x"
  shows "n < ((x + n div x) div 2 + 1)\<^sup>2"
proof -
  define q where "q = n div x"
  define y where "y = (x + q) div 2 + 1"
  have nx: "n < x * (q + 1)"
    using assms unfolding q_def by (metis Suc_eq_plus1 dividend_less_times_div mult_Suc_right add.commute)
  have "x + q + 1 \<le> 2 * y" unfolding y_def by presburger
  then have "(x + q + 1)\<^sup>2 \<le> (2 * y)\<^sup>2" by (rule power_mono) simp
  moreover have "4 * (x * (q + 1)) \<le> (x + (q + 1))\<^sup>2"
  proof -
    have "int (4 * (x * (q + 1))) \<le> int ((x + (q + 1))\<^sup>2)"
      using zero_le_power2 [of "int x - (int q + 1)"] by (simp add: power2_eq_square algebra_simps)
    then show ?thesis by (simp only: of_nat_le_iff)
  qed
  ultimately have "4 * n < 4 * y\<^sup>2"
    using nx by (simp add: power_mult_distrib)
  then show ?thesis by (simp add: y_def q_def)
qed

lemma newton_step:
  assumes "0 < x" and "x \<le> n" and "unat n < 2 ^ 128 - 1"
  shows "unat ((x + n div x) div 2 :: u128) = (unat x + unat n div unat x) div 2"
proof -
  have x: "0 < unat x" "unat x \<le> unat n"
    using assms by (simp_all add: word_le_nat_alt word_less_nat_alt)
  have "unat x + unat n div unat x \<le> unat n + 1"
  proof -
    have "unat n div unat x * unat x \<le> unat n" by simp
    then have "(unat x - 1) * (unat n div unat x - 1) + unat x + unat n div unat x \<le> unat n + 1"
      using x by (cases "unat x"; cases "unat n div unat x") (auto simp: algebra_simps)
    then show ?thesis by linarith
  qed
  then have "unat (x + n div x) = unat x + unat n div unat x"
    using assms(3) by (simp add: unat_word_ariths(1) unat_div)
  then show ?thesis by (simp add: unat_div)
qed

lemma isqrt_loop_correct:
  assumes "0 < x" and "x \<le> n" and "unat n < 2 ^ 128 - 1" and "y = (x + n div x) div 2" and "unat n < (unat x + 1)\<^sup>2"
  shows "\<exists>r. isqrt_loop n x y = Ok r \<and> (unat r)\<^sup>2 \<le> unat n \<and> unat n < (unat r + 1)\<^sup>2"
  using assms
proof (induction n x y rule: isqrt_loop.induct)
  case (1 n x y)
  have x: "0 < unat x" "unat x \<le> unat n"
    using "1.prems"(1,2) by (simp_all add: word_le_nat_alt word_less_nat_alt)
  have y: "unat y = (unat x + unat n div unat x) div 2"
    using newton_step [OF "1.prems"(1-3)] "1.prems"(4) by simp
  have q: "0 < unat n div unat x" using x by (simp add: div_greater_zero_iff)
  with x y have y0: "0 < unat y" by linarith
  show ?case
  proof (cases "y < x")
    case True
    have "y \<le> n" using True "1.prems"(2) by simp
    moreover have "unat n < (unat y + 1)\<^sup>2" using newton_upper [OF x(1), of "unat n"] y by simp
    moreover have "0 < y" "y \<noteq> 0" using y0 by (simp_all add: word_less_nat_alt unat_gt_0)
    ultimately show ?thesis
      using "1.IH" [OF True _ _ _ "1.prems"(3) refl] True by (subst isqrt_loop.simps) simp
  next
    case False
    then have "unat x \<le> unat y" by (simp add: word_less_nat_alt)
    with y have "unat x \<le> unat n div unat x" by linarith
    then have "unat x * unat x \<le> unat n div unat x * unat x" by (rule mult_le_mono1)
    also have "\<dots> \<le> unat n" by simp
    finally show ?thesis
      using False "1.prems"(5) by (subst isqrt_loop.simps) (simp add: power2_eq_square)
  qed
qed

lemma isqrt_ok:
  assumes "unat n < 2 ^ 128 - 1"
  shows "\<exists>r. isqrt n = Ok r \<and> (unat r)\<^sup>2 \<le> unat n \<and> unat n < (unat r + 1)\<^sup>2"
proof (cases "n = 0")
  case False
  then have "0 < n" by (simp add: word_gt_0)
  moreover have "unat n < (unat n + 1)\<^sup>2" by (simp add: power2_eq_square)
  moreover have "(n + 1) div 2 = (n + n div n) div 2"
  proof -
    have "unat (n div n) = 1" using \<open>0 < n\<close> by (simp add: unat_div word_less_nat_alt)
    then have "n div n = 1" by (simp add: word_unat_eq_iff)
    then show ?thesis by simp
  qed
  ultimately show ?thesis
    using isqrt_loop_correct [of n n "(n + 1) div 2"] assms False by (simp add: isqrt_def)
qed (simp add: isqrt_def)

lemma isqrt_max: "isqrt (- 1) = Panic"
proof -
  have "(0 :: u128) < - 1" by (simp add: word_less_nat_alt unat_minus_one_max)
  then show ?thesis by (simp add: isqrt_def isqrt_loop.simps [of "- 1" "- 1"])
qed

lemma quote_out_value:
  assumes "unat reserve_in * 10000 + unat amount_in * 9970 < 2 ^ 128"
    and "reserve_in \<noteq> 0" and "reserve_out \<noteq> 0" and "amount_in \<noteq> 0"
  shows "unat (quote_out reserve_in reserve_out amount_in) =
    min (unat amount_in * 9970 * unat reserve_out) (2 ^ 128 - 1) div (unat reserve_in * 10000 + unat amount_in * 9970)"
proof -
  have f: "unat (saturating_mul amount_in 9970) = unat amount_in * 9970"
    and r: "unat (saturating_mul reserve_in 10000) = unat reserve_in * 10000"
    using assms(1) by (simp_all add: unat_saturating_mul)
  have "unat (saturating_add (saturating_mul reserve_in 10000) (saturating_mul amount_in 9970)) =
      unat reserve_in * 10000 + unat amount_in * 9970"
    using assms(1) by (simp add: unat_saturating_add f r)
  then show ?thesis
    using assms(2-4) f
    by (simp add: quote_out_def Let_def FEE_BPS_def unat_div unat_saturating_mul [of "saturating_mul amount_in 9970"])
qed

lemma constant_product:
  fixes ri ro a out :: nat
  assumes "out * (ri * 10000 + a * 9970) \<le> a * 9970 * ro" and "0 < ri" and "0 < ro"
  shows "out < ro" and "ri * ro \<le> (ri + a) * (ro - out)"
proof -
  show lt: "out < ro"
  proof (rule ccontr)
    assume "\<not> out < ro"
    then have "ro * (ri * 10000 + a * 9970) \<le> out * (ri * 10000 + a * 9970)" by (intro mult_le_mono1) simp
    also note assms(1)
    finally have "ro * ri * 10000 + a * 9970 * ro \<le> a * 9970 * ro" by (simp add: algebra_simps)
    with assms(2,3) show False by simp
  qed
  define k where "k = ro - out"
  have ro: "ro = k + out" using lt by (simp add: k_def)
  have "out * ri * 10000 \<le> a * 9970 * k"
    using assms(1) unfolding ro by (simp add: algebra_simps)
  also have "\<dots> \<le> a * k * 10000" by simp
  finally have "out * ri \<le> a * k" by simp
  then show "ri * ro \<le> (ri + a) * (ro - out)"
    unfolding k_def [symmetric] unfolding ro by (simp add: algebra_simps)
qed

lemma quote_out_product:
  assumes "unat reserve_in * 10000 + unat amount_in * 9970 < 2 ^ 128" and "quote_out reserve_in reserve_out amount_in \<noteq> 0"
  shows "quote_out reserve_in reserve_out amount_in < reserve_out"
    and "unat reserve_in * unat reserve_out \<le>
      (unat reserve_in + unat amount_in) * (unat reserve_out - unat (quote_out reserve_in reserve_out amount_in))"
proof -
  have nz: "reserve_in \<noteq> 0" "reserve_out \<noteq> 0" "amount_in \<noteq> 0"
    using assms(2) by (auto simp: quote_out_def)
  let ?d = "unat reserve_in * 10000 + unat amount_in * 9970"
  have "unat (quote_out reserve_in reserve_out amount_in) * ?d \<le> min (unat amount_in * 9970 * unat reserve_out) (2 ^ 128 - 1)"
    unfolding quote_out_value [OF assms(1) nz] by (rule div_times_less_eq_dividend)
  also have "\<dots> \<le> unat amount_in * 9970 * unat reserve_out" by simp
  finally have le: "unat (quote_out reserve_in reserve_out amount_in) * ?d \<le> unat amount_in * 9970 * unat reserve_out" .
  have "0 < unat reserve_in" and "0 < unat reserve_out" using nz by (simp_all add: unat_gt_0)
  from constant_product [OF le this] show "quote_out reserve_in reserve_out amount_in < reserve_out"
    and "unat reserve_in * unat reserve_out \<le>
      (unat reserve_in + unat amount_in) * (unat reserve_out - unat (quote_out reserve_in reserve_out amount_in))"
    by (simp_all add: word_less_nat_alt)
qed

section \<open>Pools in the state\<close>

definition put_pool :: "'x dex_ext_scheme \<Rightarrow> pool \<Rightarrow> state_tree \<Rightarrow> state_tree" where
  "put_pool X p s = st_put (pool_key X (pool_id p)) (to_vec_or_default (js_pool X) p) s"

lemma dex_ext_okD:
  assumes "dex_ext_ok X"
  shows "token_ext_ok X" "kernel_ext_ok X" "hash_ext_ok X" "codec_ok (js_pool X)"
  using assms by (simp_all add: dex_ext_ok_def token_ext_okD)

lemma pool_key_inj: "hash_ext_ok X \<Longrightarrow> pool_key X i = pool_key X j \<longleftrightarrow> i = j"
  by (simp add: pool_key_def to_hex_inj)

lemma pool_key_distinct [simp]:
  "pool_key X i \<noteq> bal_key X j w" "pool_key X i \<noteq> meta_key X j" "bal_key X j w \<noteq> pool_key X i" "meta_key X j \<noteq> pool_key X i"
  by (simp_all add: pool_key_def bal_key_def meta_key_def)

lemma pool_load_Ok_iff: "pool_load X pid s = (Ok p, s') \<longleftrightarrow> s' = s \<and> pool_of X s pid = Some p"
  by (simp add: pool_load_def get_json_or_Ok_iff pool_of_def)

lemma pool_save_ok: "dex_ext_ok X \<Longrightarrow> pool_save X p = modify (put_pool X p)"
  by (simp add: pool_save_def put_pool_def [abs_def] dex_ext_okD)

named_theorems dex_cells \<open>reading pools and balances after a write\<close>

lemma pool_of_put_pool [dex_cells]:
  "dex_ext_ok X \<Longrightarrow> pool_of X (put_pool X p s) j = (if pool_id p = j then Some p else pool_of X s j)"
  by (simp add: pool_of_def put_pool_def get_json_opt_put pool_key_inj dex_ext_okD)

lemma pool_of_token_write [dex_cells]:
  "pool_of X (put_balance X i w v s) j = pool_of X s j" "pool_of X (put_meta X i m s) j = pool_of X s j"
  "pool_of X (bump_supply X i f s) j = pool_of X s j"
  by (simp_all add: pool_of_def put_u128_def put_meta_def bump_supply_def split: option.splits)

lemma token_put_pool [dex_cells, simp]:
  "balance X (put_pool X p s) = balance X s" "meta_of X (put_pool X p s) i = meta_of X s i"
  by (simp_all add: fun_eq_iff balance_def put_pool_def read_u128_frame meta_of_def)

text \<open>The shares of a pool are a book.\<close>

definition share_at :: "(string, u128) fmap \<Rightarrow> string \<Rightarrow> u128" where
  "share_at m k = (case fmlookup m k of None \<Rightarrow> 0 | Some v \<Rightarrow> v)"

lemma finite_shares: "finite {k. share_at m k \<noteq> 0}"
  by (rule finite_subset [of _ "fmdom' m"]) (auto simp: share_at_def fmlookup_dom'_iff split: option.splits)

interpretation sh: u128_book "\<lambda>_ :: unit. True" "\<lambda>_. share_at" "\<lambda>_. fmupd"
  by unfold_locales (simp add: share_at_def fun_eq_iff, rule finite_shares)

lemma share_of_share_at: "share_of p who = share_at (pool_shares p) (party_name who)"
  by (simp add: share_of_def share_at_def)

lemma share_at_drop: "share_at (fmdrop k m) = share_at (fmupd k 0 m)"
  by (auto simp: share_at_def fun_eq_iff)

definition pool_ok :: "pool \<Rightarrow> bool" where
  "pool_ok p \<longleftrightarrow> book_total (share_at (pool_shares p)) = unat (pool_total_shares p) \<and>
     (pool_total_shares p \<noteq> 0 \<longrightarrow> pool_reserve_a p \<noteq> 0 \<and> pool_reserve_b p \<noteq> 0)"

definition pools_ok :: "'x dex_ext_scheme \<Rightarrow> state_tree \<Rightarrow> bool" where
  "pools_ok X s \<longleftrightarrow> (\<forall>pid p. pool_of X s pid = Some p \<longrightarrow> pool_id p = pid \<and> pool_token_a p \<noteq> pool_token_b p \<and> pool_ok p)"

lemma pools_okD: "pools_ok X s \<Longrightarrow> pool_of X s pid = Some p \<Longrightarrow> pool_id p = pid \<and> pool_token_a p \<noteq> pool_token_b p \<and> pool_ok p"
  by (simp add: pools_ok_def)

lemma pools_ok_put:
  assumes "dex_ext_ok X" and "pools_ok X s" and "\<And>j. pool_of X s1 j = pool_of X s j"
    and "pool_token_a p \<noteq> pool_token_b p" and "pool_ok p"
  shows "pools_ok X (put_pool X p s1)"
  using assms by (auto simp: pools_ok_def dex_cells)

section \<open>What each command does when it succeeds\<close>

lemma dex_swap_Ok:
  assumes "dex_ext_ok X" and "dex_swap X cmd pid token_in amount_in min_out s = (Ok out, s')"
  shows "\<exists>p ri ro token_out v. pool_of X s pid = Some p \<and> amount_in \<noteq> 0 \<and>
    swap_sides p token_in = Some (ri, ro, token_out) \<and>
    quote_out ri ro amount_in \<noteq> 0 \<and> min_out \<le> quote_out ri ro amount_in \<and>
    (let me = cmd_submitter cmd; s1 = put_balance X token_in me (balance X s token_in me - amount_in) s in
     amount_in \<le> balance X s token_in me \<and>
     checked_add (balance X s1 token_out me) (quote_out ri ro amount_in) = Some v \<and>
     s' = put_pool X (swap_update p token_in amount_in (quote_out ri ro amount_in))
       (bump_supply X token_out (\<lambda>t. saturating_add t (quote_out ri ro amount_in)) (put_balance X token_out me v s1)))"
  using assms(2) unfolding dex_swap_def
  by (auto simp: andthen_Ok_iff if_Ok_iff not_less case_option_Ok_iff pool_load_Ok_iff pool_save_ok Let_def debit_Ok credit_Ok dex_ext_okD assms(1)
      split: prod.splits)

lemma dex_add_liquidity_Ok:
  assumes "dex_ext_ok X" and "dex_add_liquidity X cmd pid a b s = (Ok out, s')"
  shows "\<exists>p minted. pool_of X s pid = Some p \<and> a \<noteq> 0 \<and> b \<noteq> 0 \<and> minted \<noteq> 0 \<and>
    minted_shares p a b s = (Ok minted, s) \<and>
    (let me = cmd_submitter cmd; s1 = put_balance X (pool_token_a p) me (balance X s (pool_token_a p) me - a) s in
     a \<le> balance X s (pool_token_a p) me \<and> b \<le> balance X s1 (pool_token_b p) me \<and>
     s' = put_pool X (p\<lparr>pool_reserve_a := saturating_add (pool_reserve_a p) a,
         pool_reserve_b := saturating_add (pool_reserve_b p) b,
         pool_total_shares := saturating_add (pool_total_shares p) minted,
         pool_shares := fmupd (party_name me) (saturating_add (share_of p me) minted) (pool_shares p)\<rparr>)
       (put_balance X (pool_token_b p) me (balance X s1 (pool_token_b p) me - b) s1))"
proof -
  have pure: "minted_shares p a b t = (Ok m, t') \<Longrightarrow> t' = t" for p t m t'
    by (auto simp: minted_shares_def ok_iffs split: if_splits)
  show ?thesis
    using assms(2) unfolding dex_add_liquidity_def
    by (auto simp: andthen_Ok_iff if_Ok_iff pool_load_Ok_iff pool_save_ok Let_def debit_Ok dex_ext_okD assms(1) dest: pure)
qed

lemma dex_remove_liquidity_Ok:
  assumes "dex_ext_ok X" and "dex_remove_liquidity X cmd pid n s = (Ok out, s')"
  shows "\<exists>p va vb. pool_of X s pid = Some p \<and> n \<noteq> 0 \<and> pool_total_shares p \<noteq> 0 \<and>
    (let me = cmd_submitter cmd; held = share_of p me;
         a = saturating_mul (pool_reserve_a p) n div pool_total_shares p;
         b = saturating_mul (pool_reserve_b p) n div pool_total_shares p;
         s1 = bump_supply X (pool_token_a p) (\<lambda>t. saturating_add t a) (put_balance X (pool_token_a p) me va s) in
     n \<le> held \<and> checked_add (balance X s (pool_token_a p) me) a = Some va \<and>
     checked_add (balance X s1 (pool_token_b p) me) b = Some vb \<and>
     s' = put_pool X (p\<lparr>pool_reserve_a := saturating_sub (pool_reserve_a p) a,
         pool_reserve_b := saturating_sub (pool_reserve_b p) b,
         pool_total_shares := saturating_sub (pool_total_shares p) n,
         pool_shares := (if held - n = 0 then fmdrop (party_name me) (pool_shares p)
                         else fmupd (party_name me) (held - n) (pool_shares p))\<rparr>)
       (bump_supply X (pool_token_b p) (\<lambda>t. saturating_add t b) (put_balance X (pool_token_b p) me vb s1)))"
  using assms(2) unfolding dex_remove_liquidity_def
  by (auto simp: andthen_Ok_iff if_Ok_iff not_less pool_load_Ok_iff pool_save_ok Let_def credit_Ok dex_ext_okD assms(1))

section \<open>The pool invariant\<close>

lemma pool_ok_swap:
  assumes "pool_ok p" and "swap_sides p token_in = Some (ri, ro, token_out)"
    and "quote_out ri ro a \<noteq> 0" and "unat ri * 10000 + unat a * 9970 < 2 ^ 128"
  shows "pool_ok (swap_update p token_in a (quote_out ri ro a))"
proof -
  have lt: "unat (quote_out ri ro a) < unat ro"
    using quote_out_product(1) [OF assms(4,3)] by (simp add: word_less_nat_alt)
  then have "unat (saturating_sub ro (quote_out ri ro a)) \<noteq> 0"
    by (simp add: unat_saturating_sub)
  then have "saturating_sub ro (quote_out ri ro a) \<noteq> 0" by (metis unat_0)
  moreover have "saturating_add ri a \<noteq> 0"
    using assms(3) by (intro saturating_add_pos) (auto simp: quote_out_def)
  ultimately show ?thesis
    using assms(1,2) by (auto simp: pool_ok_def swap_update_def swap_sides_def split: if_splits)
qed

lemma pool_ok_add:
  assumes "pool_ok p" and "a \<noteq> 0" and "b \<noteq> 0" and "unat (pool_total_shares p) + unat minted < 2 ^ 128"
  shows "pool_ok (p\<lparr>pool_reserve_a := saturating_add (pool_reserve_a p) a,
         pool_reserve_b := saturating_add (pool_reserve_b p) b,
         pool_total_shares := saturating_add (pool_total_shares p) minted,
         pool_shares := fmupd (party_name me) (saturating_add (share_of p me) minted) (pool_shares p)\<rparr>)"
proof -
  let ?h = "share_at (pool_shares p) (party_name me)"
  have "unat ?h \<le> book_total (share_at (pool_shares p))" by (rule sh.entry_le_total) simp
  with assms(1,4) have "unat ?h + unat minted < 2 ^ 128" by (simp add: pool_ok_def)
  then have chk: "checked_add ?h minted = Some (saturating_add ?h minted)"
    by (simp add: checked_add_def saturating_add_eq)
  have "book_total (share_at (fmupd (party_name me) (saturating_add ?h minted) (pool_shares p))) =
      book_total (share_at (pool_shares p)) + unat minted"
    by (rule sh.total_credit [OF _ chk]) simp
  moreover have "unat (saturating_add (pool_total_shares p) minted) = unat (pool_total_shares p) + unat minted"
    using assms(4) by (simp add: unat_saturating_add)
  ultimately show ?thesis
    using assms(1-3) by (simp add: pool_ok_def share_of_share_at saturating_add_pos)
qed

lemma withdrawal_less:
  fixes r n tot :: u128
  assumes "n < tot" and "r \<noteq> 0"
  shows "unat (saturating_mul r n div tot) < unat r"
proof -
  have n: "unat n < unat tot" and r: "0 < unat r"
    using assms by (simp_all add: word_less_nat_alt unat_gt_0)
  have "unat (saturating_mul r n div tot) \<le> unat r * unat n div unat tot"
    by (simp add: unat_div unat_saturating_mul div_le_mono)
  also have "\<dots> < unat r"
    using n r by (simp add: less_mult_imp_div_less)
  finally show ?thesis .
qed

lemma withdrawal_le:
  fixes r n tot :: u128
  assumes "n \<le> tot"
  shows "saturating_mul r n div tot \<le> r"
proof (cases "n = tot \<or> r = 0")
  case True
  have "unat r * unat n div unat tot \<le> unat r"
    using True assms by (auto simp: word_le_nat_alt)
  moreover have "unat (saturating_mul r n div tot) \<le> unat r * unat n div unat tot"
    by (simp add: unat_div unat_saturating_mul div_le_mono)
  ultimately show ?thesis by (simp add: word_le_nat_alt)
next
  case False
  then show ?thesis
    using withdrawal_less [of n tot r] assms by (simp add: word_le_nat_alt less_le)
qed

lemma pool_ok_remove:
  assumes "pool_ok p" and "n \<le> share_of p me" and "n \<noteq> 0"
    and "a = saturating_mul (pool_reserve_a p) n div pool_total_shares p"
    and "b = saturating_mul (pool_reserve_b p) n div pool_total_shares p"
  shows "pool_ok (p\<lparr>pool_reserve_a := saturating_sub (pool_reserve_a p) a,
         pool_reserve_b := saturating_sub (pool_reserve_b p) b,
         pool_total_shares := saturating_sub (pool_total_shares p) n,
         pool_shares := (if share_of p me - n = 0 then fmdrop (party_name me) (pool_shares p)
                         else fmupd (party_name me) (share_of p me - n) (pool_shares p))\<rparr>)"
proof -
  let ?m = "pool_shares p" and ?k = "party_name me"
  have h: "n \<le> share_at ?m ?k" using assms(2) by (simp add: share_of_share_at)
  have sh: "share_at (if share_of p me - n = 0 then fmdrop ?k ?m else fmupd ?k (share_of p me - n) ?m) =
      share_at (fmupd ?k (share_at ?m ?k - n) ?m)"
    by (auto simp: share_of_share_at share_at_drop)
  have tot: "book_total (share_at (fmupd ?k (share_at ?m ?k - n) ?m)) + unat n = unat (pool_total_shares p)"
    using sh.total_debit [OF _ h] assms(1) by (simp add: pool_ok_def)
  then have le: "unat n \<le> unat (pool_total_shares p)" by linarith
  have pos: "saturating_sub r (saturating_mul r n div pool_total_shares p) \<noteq> 0"
    if "r \<noteq> 0" and "unat n < unat (pool_total_shares p)" for r
  proof -
    have "unat (saturating_mul r n div pool_total_shares p) < unat r"
      by (rule withdrawal_less) (use that in \<open>simp_all add: word_less_nat_alt\<close>)
    then have "unat (saturating_sub r (saturating_mul r n div pool_total_shares p)) \<noteq> 0"
      by (simp add: unat_saturating_sub)
    then show ?thesis by (metis unat_0)
  qed
  have "saturating_sub (pool_total_shares p) n \<noteq> 0 \<Longrightarrow> unat n < unat (pool_total_shares p)"
    using le by (simp add: unat_saturating_sub flip: unat_gt_0)
  moreover have "pool_total_shares p \<noteq> 0" using tot assms(3) by (auto simp: unat_eq_0)
  ultimately have "saturating_sub (pool_total_shares p) n \<noteq> 0 \<longrightarrow>
      saturating_sub (pool_reserve_a p) a \<noteq> 0 \<and> saturating_sub (pool_reserve_b p) b \<noteq> 0"
    using assms(1) pos unfolding assms(4,5) pool_ok_def by blast
  moreover have "book_total (share_at (if share_of p me - n = 0 then fmdrop ?k ?m else fmupd ?k (share_of p me - n) ?m)) =
      unat (saturating_sub (pool_total_shares p) n)"
    unfolding sh using tot by (simp add: unat_saturating_sub)
  ultimately show ?thesis unfolding pool_ok_def by simp
qed

section \<open>The prism contract\<close>

lemma pool_key_prefix: "prefix ''dex/'' (pool_key X i)"
  by (simp add: pool_key_def)

definition dex_stable :: "(state_tree \<Rightarrow> bool) \<Rightarrow> bool" where
  "dex_stable P \<longleftrightarrow> token_stable P \<and> (\<forall>k b s. prefix ''dex/'' k \<longrightarrow> P s \<longrightarrow> P (st_put k b s))"

lemma dex_stable_token: "dex_stable P \<Longrightarrow> token_stable P"
  by (simp add: dex_stable_def)

lemma pool_save_stable [keeps_intros]: "dex_stable P \<Longrightarrow> keeps P (pool_save X p)"
  unfolding pool_save_def using pool_key_prefix [of X "pool_id p"] by (intro keeps_intros) (auto simp: dex_stable_def)

lemma dex_handle_stable:
  assumes "dex_stable P"
  shows "keeps P (dex_handle X cmd)"
proof -
  note intros = keeps_intros dex_stable_token [OF assms] assms
  have "keeps P (dex_dispatch X cmd c)" for c
    unfolding dex_dispatch_def dex_create_pool_def dex_add_liquidity_def dex_remove_liquidity_def
      dex_swap_def minted_shares_def pool_load_def Let_def
    by (cases c; simp only: dex_command.case; intro intros)
  then show ?thesis
    unfolding dex_handle_def by (intro keeps_intros)
qed

lemma dex_handle_events:
  assumes "dex_handle X cmd s = (Ok out, s')"
  shows "\<forall>e \<in> set (out_events out). event_of X ''dex'' cmd e"
proof -
  obtain c s1 where "dex_dispatch X cmd c s1 = (Ok out, s')"
    using assms by (auto simp: dex_handle_def andthen_Ok_iff)
  then show ?thesis
    by (cases c)
      (auto simp: dex_dispatch_def dex_create_pool_def dex_add_liquidity_def dex_remove_liquidity_def
        dex_swap_def Let_def ok_iffs single_output_def dex_emit_def split: prod.splits)
qed

lemma dex_stable_get: "outside [''dex/'', ''token/''] k \<Longrightarrow> dex_stable (\<lambda>s. st_get s k = v)"
  by (auto simp: dex_stable_def token_stable_def outside_def)

interpretation dex: prism_contract dex_handle "''dex''" "[''dex/'', ''token/'']"
  by unfold_locales (use dex_handle_stable dex_stable_get dex_handle_events in \<open>blast+\<close>)

section \<open>A concrete instance of the parameters\<close>

definition pool_coder :: "pool coder" where
  "pool_coder = iso_coder
     (\<lambda>p. (pool_id p, pool_token_a p, pool_token_b p, pool_reserve_a p, pool_reserve_b p, pool_total_shares p, pool_shares p))
     (\<lambda>(i, a, b, ra, rb, t, m). \<lparr>pool_id = i, pool_token_a = a, pool_token_b = b, pool_reserve_a = ra,
        pool_reserve_b = rb, pool_total_shares = t, pool_shares = m\<rparr>)
     (pair_coder hash_coder (pair_coder hash_coder (pair_coder hash_coder (pair_coder word_coder
       (pair_coder word_coder (pair_coder word_coder (fmap_coder string_coder word_coder)))))))"

definition dex_command_coder :: "dex_command coder" where
  "dex_command_coder = iso_coder
     (\<lambda>c. case c of
        DxCreatePool a b \<Rightarrow> Inl (a, b)
      | DxAddLiquidity i a b \<Rightarrow> Inr (Inl (i, a, b))
      | DxRemoveLiquidity i n \<Rightarrow> Inr (Inr (Inl (i, n)))
      | DxSwap i t a m \<Rightarrow> Inr (Inr (Inr (i, t, a, m))))
     (\<lambda>z. case z of
        Inl (a, b) \<Rightarrow> DxCreatePool a b
      | Inr (Inl (i, a, b)) \<Rightarrow> DxAddLiquidity i a b
      | Inr (Inr (Inl (i, n))) \<Rightarrow> DxRemoveLiquidity i n
      | Inr (Inr (Inr (i, t, a, m))) \<Rightarrow> DxSwap i t a m)
     (sum_coder (pair_coder hash_coder hash_coder)
       (sum_coder (pair_coder hash_coder (pair_coder word_coder word_coder))
         (sum_coder (pair_coder hash_coder word_coder)
           (pair_coder hash_coder (pair_coder hash_coder (pair_coder word_coder word_coder))))))"

definition dex_event_coder :: "dex_event coder" where
  "dex_event_coder = iso_coder
     (\<lambda>e. case e of
        DePoolCreated i a b \<Rightarrow> Inl (i, a, b)
      | DeLiquidityAdded i p n \<Rightarrow> Inr (Inl (i, p, n))
      | DeLiquidityRemoved i p a b \<Rightarrow> Inr (Inr (Inl (i, p, a, b)))
      | DeSwapped i p ti a to_ b \<Rightarrow> Inr (Inr (Inr (i, p, ti, a, to_, b))))
     (\<lambda>z. case z of
        Inl (i, a, b) \<Rightarrow> DePoolCreated i a b
      | Inr (Inl (i, p, n)) \<Rightarrow> DeLiquidityAdded i p n
      | Inr (Inr (Inl (i, p, a, b))) \<Rightarrow> DeLiquidityRemoved i p a b
      | Inr (Inr (Inr (i, p, ti, a, to_, b))) \<Rightarrow> DeSwapped i p ti a to_ b)
     (sum_coder (pair_coder hash_coder (pair_coder hash_coder hash_coder))
       (sum_coder (pair_coder hash_coder (pair_coder party_coder word_coder))
         (sum_coder (pair_coder hash_coder (pair_coder party_coder (pair_coder word_coder word_coder)))
           (pair_coder hash_coder (pair_coder party_coder (pair_coder hash_coder (pair_coder word_coder
             (pair_coder hash_coder word_coder))))))))"

definition ref_dex_ext :: dex_ext where
  "ref_dex_ext = token_ext.extend ref_token_ext
     (dex_ext.fields (codec_of pool_coder) (codec_of dex_command_coder) (codec_of dex_event_coder))"

lemma dex_coders_ok [coder_intros]:
  "coder_ok pool_coder" "coder_ok dex_command_coder" "coder_ok dex_event_coder"
  unfolding pool_coder_def dex_command_coder_def dex_event_coder_def
  by (intro coder_intros; auto split: dex_command.splits dex_event.splits)+

lemma ref_dex_ext_ok: "dex_ext_ok ref_dex_ext"
  using ref_token_ext_ok
  by (simp add: dex_ext_ok_def token_ext_ok_def kernel_ext_ok_def hash_ext_ok_def ref_dex_ext_def
      token_ext.defs dex_ext.defs codec_of_ok coder_intros)

definition demo_pool :: pool where
  "demo_pool = \<lparr>pool_id = ZERO, pool_token_a = ZERO, pool_token_b = Hash [1], pool_reserve_a = 1000,
     pool_reserve_b = 1000, pool_total_shares = 1000, pool_shares = fmupd ''bob'' 1000 fmempty\<rparr>"

definition demo_exchange :: state_tree where
  "demo_exchange = put_pool ref_dex_ext demo_pool
     (put_balance ref_dex_ext ZERO (PartyId ''alice'') 100 (put_meta ref_dex_ext ZERO demo_meta st_new))"

lemma demo_pool_ok: "pool_ok demo_pool"
proof -
  have "book_total (share_at (fmupd ''bob'' 1000 fmempty)) + unat (share_at fmempty ''bob'') =
      book_total (share_at fmempty) + unat (1000 :: u128)"
    by (rule sh.total_wr) simp
  then show ?thesis by (simp add: pool_ok_def demo_pool_def share_at_def book_total_zero)
qed

lemma pool_of_new [simp]: "pool_of X st_new j = None"
  by (simp add: pool_of_def)

lemma short_hash [simp]: "Hash [x] \<noteq> ZERO" "ZERO \<noteq> Hash [x]"
  by (auto simp: ZERO_def dest: arg_cong [where f = length])

lemma demo_exchange_cells [simp]:
  "pool_of ref_dex_ext demo_exchange j = (if j = ZERO then Some demo_pool else None)"
  "balance ref_dex_ext demo_exchange j u = (if j = ZERO \<and> u = PartyId ''alice'' then 100 else 0)"
  "meta_of ref_dex_ext demo_exchange j = (if j = ZERO then Some demo_meta else None)"
  using ref_dex_ext_ok dex_ext_okD [OF ref_dex_ext_ok]
  by (auto simp: demo_exchange_def dex_cells token_cells demo_pool_def)

lemma demo_pools_ok: "pools_ok ref_dex_ext demo_exchange"
  using demo_pool_ok by (simp add: pools_ok_def) (simp add: demo_pool_def)

section \<open>Properties\<close>

text \<open>
  The square root loop is correct and terminates: for every \<open>n\<close> below \<open>u128::MAX\<close> it returns the
  integer square root. At \<open>u128::MAX\<close> itself the first step wraps to zero and the loop divides by it.
\<close>

theorem isqrt_correct:
  "if n = - 1 then isqrt n = Panic
   else \<exists>r. isqrt n = Ok r \<and> (unat r)\<^sup>2 \<le> unat n \<and> unat n < (unat r + 1)\<^sup>2"
proof (cases "n = - 1")
  case True
  then show ?thesis by (simp add: isqrt_max)
next
  case False
  then have "unat n \<noteq> unat (- 1 :: u128)" by (simp add: word_unat_eq_iff)
  with unat_lt_max [of n] have "unat n < 2 ^ 128 - 1" by (simp add: unat_minus_one_max)
  with False isqrt_ok [of n] show ?thesis by simp
qed

text \<open>
  Anyone can make the exchange panic: adding liquidity to an empty pool with two amounts whose
  product does not fit below \<open>u128::MAX\<close> panics in the square root, before any balance is looked at.
\<close>

theorem add_liquidity_panics:
  assumes "pool_of X s pid = Some p" and "pool_total_shares p = 0" and "2 ^ 128 - 1 \<le> unat a * unat b"
  shows "fst (dex_add_liquidity X cmd pid a b s) = Panic"
proof -
  have "unat (saturating_mul a b) = unat (- 1 :: u128)"
    using assms(3) by (simp add: unat_saturating_mul unat_minus_one_max)
  then have "saturating_mul a b = - 1" by (simp add: word_unat_eq_iff)
  moreover have "a \<noteq> 0" and "b \<noteq> 0" using assms(3) by auto
  moreover have "pool_load X pid s = (Ok p, s)" using assms(1) by (simp add: pool_load_Ok_iff)
  ultimately show ?thesis
    using assms(2) by (simp add: dex_add_liquidity_def andthen_def minted_shares_def isqrt_max)
qed

theorem add_liquidity_panics_witness:
  "fst (dex_add_liquidity ref_dex_ext demo_command ZERO (2 ^ 64) (2 ^ 64)
     (put_pool ref_dex_ext (demo_pool\<lparr>pool_total_shares := 0\<rparr>) demo_exchange)) = Panic"
  by (rule add_liquidity_panics [where p = "demo_pool\<lparr>pool_total_shares := 0\<rparr>"])
    (simp_all add: dex_cells ref_dex_ext_ok, simp add: demo_pool_def)

text \<open>
  C25. Swaps never lose value to the trader. In a state with the pool invariant, and while the reserves plus the amount times 10000 are below
  \<open>2 ^ 128\<close>, a successful swap takes exactly the amount from the trader and pays the trader the quoted amount of the other token, which is positive, at
  least the demanded minimum and less than the reserve. It keeps the product of the reserves from falling, and moves tokens between
  the trader and the pool without creating any: for both tokens the circulating amount plus the reserve is unchanged.
\<close>

theorem dex_swap_constant_product:
  assumes "dex_ext_ok X" and "pools_ok X s" and "pool_of X s pid = Some p"
    and "dex_swap X cmd pid token_in amount_in min_out s = (Ok out, s')"
    and "(unat (pool_reserve_a p) + unat (pool_reserve_b p) + unat amount_in) * 10000 < 2 ^ 128"
  shows "\<exists>p' ri ro token_out. pool_of X s' pid = Some p' \<and> swap_sides p token_in = Some (ri, ro, token_out) \<and>
    0 < quote_out ri ro amount_in \<and> min_out \<le> quote_out ri ro amount_in \<and> quote_out ri ro amount_in < ro \<and>
    unat (balance X s' token_in (cmd_submitter cmd)) + unat amount_in = unat (balance X s token_in (cmd_submitter cmd)) \<and>
    unat (balance X s' token_out (cmd_submitter cmd)) = unat (balance X s token_out (cmd_submitter cmd)) + unat (quote_out ri ro amount_in) \<and>
    unat (pool_reserve_a p) * unat (pool_reserve_b p) \<le> unat (pool_reserve_a p') * unat (pool_reserve_b p') \<and>
    circulating X s' (pool_token_a p) + unat (pool_reserve_a p') = circulating X s (pool_token_a p) + unat (pool_reserve_a p) \<and>
    circulating X s' (pool_token_b p) + unat (pool_reserve_b p') = circulating X s (pool_token_b p) + unat (pool_reserve_b p) \<and>
    pool_ok p'"
proof -
  note k = dex_ext_okD(2) [OF assms(1)]
  let ?me = "cmd_submitter cmd" and ?ti = token_in and ?a = amount_in
  obtain ri ro tout v where sw: "swap_sides p ?ti = Some (ri, ro, tout)" "quote_out ri ro ?a \<noteq> 0"
    "?a \<le> balance X s ?ti ?me"
    "checked_add (balance X (put_balance X ?ti ?me (balance X s ?ti ?me - ?a) s) tout ?me) (quote_out ri ro ?a) = Some v"
    "s' = put_pool X (swap_update p ?ti ?a (quote_out ri ro ?a))
       (bump_supply X tout (\<lambda>t. saturating_add t (quote_out ri ro ?a))
         (put_balance X tout ?me v (put_balance X ?ti ?me (balance X s ?ti ?me - ?a) s)))"
    and slip: "min_out \<le> quote_out ri ro ?a"
    using dex_swap_Ok [OF assms(1,4)] assms(3) by (auto simp: Let_def)
  let ?o = "quote_out ri ro ?a" and ?s1 = "put_balance X ?ti ?me (balance X s ?ti ?me - ?a) s"
  have pid: "pool_id p = pid" and ne: "pool_token_a p \<noteq> pool_token_b p" and ok: "pool_ok p"
    using pools_okD [OF assms(2,3)] by blast+
  have room: "unat ri * 10000 + unat ?a * 9970 < 2 ^ 128"
    using assms(5) sw(1) by (auto simp: swap_sides_def split: if_splits)
  note prod = quote_out_product [OF room sw(2)]
  have tne: "?ti \<noteq> tout" using sw(1) ne by (auto simp: swap_sides_def split: if_splits)
  have cin: "circulating X s' ?ti + unat ?a = circulating X s ?ti"
    unfolding sw(5) using bal_debit [OF k sw(3)] tne by (simp add: balance_fun_other k)
  have cout: "circulating X s' tout = circulating X s tout + unat ?o"
    unfolding sw(5) using bal_credit [OF k sw(4)] tne by (simp add: balance_fun_other k)
  have ri': "unat (saturating_add ri ?a) = unat ri + unat ?a"
    using room by (simp add: unat_saturating_add)
  have ro': "unat (saturating_sub ro ?o) + unat ?o = unat ro"
    using prod(1) by (simp add: unat_saturating_sub word_less_nat_alt)
  have "pool_of X s' pid = Some (swap_update p ?ti ?a ?o)"
    unfolding sw(5) using pid by (simp add: dex_cells assms(1)) (simp add: swap_update_def)
  moreover have "pool_ok (swap_update p ?ti ?a ?o)"
    using pool_ok_swap [OF ok sw(1,2) room] .
  moreover have "unat (balance X s' ?ti ?me) + unat ?a = unat (balance X s ?ti ?me)"
    unfolding sw(5) using sw(3) tne by (simp add: dex_cells token_cells k assms(1) unat_sub word_le_nat_alt)
  moreover have "unat (balance X s' tout ?me) = unat (balance X s tout ?me) + unat ?o"
    unfolding sw(5) using sw(4) tne by (simp add: dex_cells token_cells k assms(1) unat_checked_add)
  ultimately show ?thesis
    using sw(1,2) ne prod cin cout ri' ro' slip
    by (auto simp: swap_sides_def swap_update_def unat_saturating_sub mult.commute word_gt_0 split: if_splits)
qed

lemma demo_quote: "quote_out 1000 1000 100 = 90"
  by (simp add: quote_out_def FEE_BPS_def saturating_mul_def saturating_add_def)

lemma demo_swap_runs:
  "\<exists>out s'. dex_swap ref_dex_ext demo_command ZERO ZERO 100 1 demo_exchange = (Ok out, s')"
proof -
  have "pool_load ref_dex_ext ZERO demo_exchange = (Ok demo_pool, demo_exchange)"
    by (simp add: pool_load_Ok_iff)
  moreover have "\<exists>s1. debit ref_dex_ext ZERO (PartyId ''alice'') 100 demo_exchange = (Ok (), s1) \<and>
      (\<exists>s2. credit ref_dex_ext (Hash [1]) (PartyId ''alice'') 90 s1 = (Ok (), s2))"
    using dex_ext_okD [OF ref_dex_ext_ok] by (simp add: debit_Ok credit_Ok token_cells checked_add_def)
  ultimately show ?thesis
    by (auto simp: dex_swap_def andthen_def swap_sides_def demo_pool_def Let_def demo_quote pool_save_ok ref_dex_ext_ok)
qed

theorem dex_swap_constant_product_witness:
  "\<exists>out s' p'. dex_swap ref_dex_ext demo_command ZERO ZERO 100 1 demo_exchange = (Ok out, s') \<and>
    pool_of ref_dex_ext s' ZERO = Some p' \<and> 1000 * 1000 \<le> unat (pool_reserve_a p') * unat (pool_reserve_b p')"
proof -
  obtain out s' where run: "dex_swap ref_dex_ext demo_command ZERO ZERO 100 1 demo_exchange = (Ok out, s')"
    using demo_swap_runs by blast
  have "pool_of ref_dex_ext demo_exchange ZERO = Some demo_pool" by simp
  moreover have "(unat (pool_reserve_a demo_pool) + unat (pool_reserve_b demo_pool) + unat (100 :: u128)) * 10000 < 2 ^ 128"
    by (simp add: demo_pool_def)
  ultimately show ?thesis
    using dex_swap_constant_product [OF ref_dex_ext_ok demo_pools_ok _ run, of demo_pool] run
    by (auto simp: demo_pool_def)
qed

text \<open>
  Swaps put the recorded supply out of step. The tokens a trader pays are debited without
  lowering the supply of their token, and the tokens paid out are credited as if newly minted: on a
  ledger where supply and balances agree, every successful swap of a token with metadata ends in a
  ledger where they do not.
\<close>

theorem dex_swap_breaks_supply:
  assumes "dex_ext_ok X" and "pools_ok X s" and "supply_ok X s" and "meta_of X s token_in = Some m"
    and "dex_swap X cmd pid token_in amount_in min_out s = (Ok out, s')"
  shows "\<not> supply_ok X s'"
proof
  assume inv: "supply_ok X s'"
  note k = dex_ext_okD(2) [OF assms(1)]
  let ?me = "cmd_submitter cmd"
  obtain p ri ro tout v where sw: "pool_of X s pid = Some p" "amount_in \<noteq> 0" "swap_sides p token_in = Some (ri, ro, tout)"
    "amount_in \<le> balance X s token_in ?me"
    "s' = put_pool X (swap_update p token_in amount_in (quote_out ri ro amount_in))
       (bump_supply X tout (\<lambda>t. saturating_add t (quote_out ri ro amount_in))
         (put_balance X tout ?me v (put_balance X token_in ?me (balance X s token_in ?me - amount_in) s)))"
    using dex_swap_Ok [OF assms(1,5)] by (auto simp: Let_def)
  have ne: "tout \<noteq> token_in"
    using pools_okD [OF assms(2) sw(1)] sw(3) by (auto simp: swap_sides_def split: if_splits)
  have "circulating X s' token_in + unat amount_in = circulating X s token_in"
    unfolding sw(5) using bal_debit [OF k sw(4)] ne by (simp add: balance_fun_other k)
  moreover have "meta_of X s' token_in = Some m"
    unfolding sw(5) using assms(4) ne by (simp add: token_cells dex_ext_okD [OF assms(1)])
  ultimately show False
    using supply_okD [OF inv] supply_okD [OF assms(3,4)] sw(2) by (simp add: unat_eq_0)
qed

lemma supply_ok_exchange: "supply_ok ref_dex_ext demo_exchange"
proof (rule supply_ok_step [OF supply_ok_new dex_ext_okD(1) [OF ref_dex_ext_ok], where tid = ZERO])
  have "circulating ref_dex_ext demo_exchange ZERO + unat (balance ref_dex_ext (put_meta ref_dex_ext ZERO demo_meta st_new) ZERO (PartyId ''alice'')) =
      circulating ref_dex_ext (put_meta ref_dex_ext ZERO demo_meta st_new) ZERO + unat (100 :: u128)"
    unfolding demo_exchange_def token_put_pool using dex_ext_okD(2) [OF ref_dex_ext_ok] by (rule bal_wr)
  then have "circulating ref_dex_ext demo_exchange ZERO = 100" by (simp add: book_total_zero)
  then show "\<exists>m. meta_of ref_dex_ext demo_exchange ZERO = Some m \<and>
      unat (tm_total_supply m) = circulating ref_dex_ext demo_exchange ZERO"
    by (simp add: demo_meta_def)
next
  fix j assume "j \<noteq> ZERO"
  then have "\<not> st_contains demo_exchange (meta_key ref_dex_ext j)"
    by (simp add: demo_exchange_def put_pool_def put_u128_def put_meta_def meta_key_inj
        dex_ext_okD [OF ref_dex_ext_ok] st_contains_get)
  with \<open>j \<noteq> ZERO\<close> show "balance ref_dex_ext demo_exchange j = balance ref_dex_ext st_new j \<and>
      meta_of ref_dex_ext demo_exchange j = meta_of ref_dex_ext st_new j \<and>
      st_contains demo_exchange (meta_key ref_dex_ext j) = st_contains st_new (meta_key ref_dex_ext j)"
    by (simp add: fun_eq_iff st_contains_get)
qed

theorem dex_swap_breaks_supply_witness:
  "supply_ok ref_dex_ext demo_exchange \<and>
   (\<exists>out s'. dex_swap ref_dex_ext demo_command ZERO ZERO 100 1 demo_exchange = (Ok out, s') \<and> \<not> supply_ok ref_dex_ext s')"
proof -
  obtain out s' where run: "dex_swap ref_dex_ext demo_command ZERO ZERO 100 1 demo_exchange = (Ok out, s')"
    using demo_swap_runs by blast
  have "meta_of ref_dex_ext demo_exchange ZERO = Some demo_meta" by simp
  with run supply_ok_exchange dex_swap_breaks_supply [OF ref_dex_ext_ok demo_pools_ok supply_ok_exchange _ run] show ?thesis
    by blast
qed

text \<open>
  Room for the computations of a command: the first liquidity of a pool has a product of amounts below \<open>u128::MAX\<close>, the shares of a pool do not
  exceed \<open>u128\<close>, and the reserves and the amount of a swap can be multiplied by the fee base.
\<close>

definition dex_headroom :: "'x dex_ext_scheme \<Rightarrow> state_tree \<Rightarrow> dex_command \<Rightarrow> bool" where
  "dex_headroom X s c = (case c of
      DxAddLiquidity pid a b \<Rightarrow> (\<forall>p. pool_of X s pid = Some p \<longrightarrow> pool_total_shares p = 0 \<longrightarrow> unat a * unat b < 2 ^ 128 - 1) \<and>
        (\<forall>p m. pool_of X s pid = Some p \<longrightarrow> fst (minted_shares p a b s) = Ok m \<longrightarrow>
           unat (pool_total_shares p) + unat m < 2 ^ 128)
    | DxSwap pid t a m \<Rightarrow> \<forall>p. pool_of X s pid = Some p \<longrightarrow>
        (unat (pool_reserve_a p) + unat (pool_reserve_b p) + unat a) * 10000 < 2 ^ 128
    | _ \<Rightarrow> True)"

lemma dex_create_pool_ok:
  assumes "dex_ext_ok X" and "pools_ok X s" and "dex_create_pool X cmd a b s = (Ok out, s')"
  shows "pools_ok X s'"
proof -
  obtain pid ta tb where "s' = put_pool X \<lparr>pool_id = pid, pool_token_a = ta, pool_token_b = tb,
      pool_reserve_a = 0, pool_reserve_b = 0, pool_total_shares = 0, pool_shares = fmempty\<rparr> s" and "ta \<noteq> tb"
    using assms(3) unfolding dex_create_pool_def
    by (cases "to_hex X a \<le> to_hex X b") (auto simp: ok_iffs pool_save_ok assms(1) Let_def)
  then show ?thesis
    using assms(1,2) by (auto intro!: pools_ok_put simp: pool_ok_def share_at_def book_total_zero)
qed

lemma dex_swap_pools_ok:
  assumes "dex_ext_ok X" and "pools_ok X s" and "dex_swap X cmd pid t a m s = (Ok out, s')"
    and "dex_headroom X s (DxSwap pid t a m)"
  shows "pools_ok X s'"
proof -
  obtain p ri ro tout v where sw: "pool_of X s pid = Some p" "swap_sides p t = Some (ri, ro, tout)" "quote_out ri ro a \<noteq> 0"
    "s' = put_pool X (swap_update p t a (quote_out ri ro a))
       (bump_supply X tout (\<lambda>t. saturating_add t (quote_out ri ro a))
         (put_balance X tout (cmd_submitter cmd) v
           (put_balance X t (cmd_submitter cmd) (balance X s t (cmd_submitter cmd) - a) s)))"
    using dex_swap_Ok [OF assms(1,3)] by (auto simp: Let_def)
  have "(unat (pool_reserve_a p) + unat (pool_reserve_b p) + unat a) * 10000 < 2 ^ 128"
    using assms(4) sw(1) by (simp add: dex_headroom_def)
  then have "unat ri * 10000 + unat a * 9970 < 2 ^ 128"
    using sw(2) by (auto simp: swap_sides_def split: if_splits)
  then have "pool_ok (swap_update p t a (quote_out ri ro a))"
    using pools_okD [OF assms(2) sw(1)] by (intro pool_ok_swap [OF _ sw(2,3)]) auto
  moreover have "pool_token_a (swap_update p t a n) \<noteq> pool_token_b (swap_update p t a n)" for n
    using pools_okD [OF assms(2) sw(1)] by (simp add: swap_update_def)
  ultimately show ?thesis
    unfolding sw(4) by (intro pools_ok_put [OF assms(1,2)]) (simp_all add: dex_cells)
qed

lemma dex_liquidity_pools_ok:
  assumes "dex_ext_ok X" and "pools_ok X s"
  shows "dex_add_liquidity X cmd pid a b s = (Ok out, s') \<Longrightarrow> dex_headroom X s (DxAddLiquidity pid a b) \<Longrightarrow> pools_ok X s'"
    and "dex_remove_liquidity X cmd pid n s = (Ok out, s') \<Longrightarrow> pools_ok X s'"
proof -
  assume run: "dex_add_liquidity X cmd pid a b s = (Ok out, s')" and room: "dex_headroom X s (DxAddLiquidity pid a b)"
  obtain p minted where p: "pool_of X s pid = Some p" "a \<noteq> 0" "b \<noteq> 0" "minted_shares p a b s = (Ok minted, s)"
    "\<exists>i u v j w x. s' = put_pool X (p\<lparr>pool_reserve_a := saturating_add (pool_reserve_a p) a,
         pool_reserve_b := saturating_add (pool_reserve_b p) b,
         pool_total_shares := saturating_add (pool_total_shares p) minted,
         pool_shares := fmupd (party_name (cmd_submitter cmd)) (saturating_add (share_of p (cmd_submitter cmd)) minted) (pool_shares p)\<rparr>)
       (put_balance X i u v (put_balance X j w x s))"
    using dex_add_liquidity_Ok [OF assms(1) run] unfolding Let_def by blast
  have "unat (pool_total_shares p) + unat minted < 2 ^ 128"
    using room p(1,4) by (simp add: dex_headroom_def)
  with p pools_okD [OF assms(2) p(1)] show "pools_ok X s'"
    by (auto simp: dex_cells intro!: pools_ok_put [OF assms] pool_ok_add)
next
  assume run: "dex_remove_liquidity X cmd pid n s = (Ok out, s')"
  obtain p where p: "pool_of X s pid = Some p" "n \<noteq> 0" "n \<le> share_of p (cmd_submitter cmd)"
    "\<exists>i f u v g w x j k. s' = put_pool X (p\<lparr>pool_reserve_a := saturating_sub (pool_reserve_a p) (saturating_mul (pool_reserve_a p) n div pool_total_shares p),
         pool_reserve_b := saturating_sub (pool_reserve_b p) (saturating_mul (pool_reserve_b p) n div pool_total_shares p),
         pool_total_shares := saturating_sub (pool_total_shares p) n,
         pool_shares := (if share_of p (cmd_submitter cmd) - n = 0 then fmdrop (party_name (cmd_submitter cmd)) (pool_shares p)
                         else fmupd (party_name (cmd_submitter cmd)) (share_of p (cmd_submitter cmd) - n) (pool_shares p))\<rparr>)
       (bump_supply X i f (put_balance X i u v (bump_supply X j g (put_balance X j w x s))))"
    using dex_remove_liquidity_Ok [OF assms(1) run] unfolding Let_def by blast
  with pools_okD [OF assms(2) p(1)] show "pools_ok X s'"
    by (auto simp: dex_cells intro!: pools_ok_put [OF assms] pool_ok_remove simp del: right_minus_eq)
qed

lemma minted_no_panic:
  assumes "pool_ok p" and "pool_total_shares p = 0 \<Longrightarrow> unat a * unat b < 2 ^ 128 - 1"
  shows "no_panic (minted_shares p a b) s"
proof (cases "pool_total_shares p = 0")
  case True
  have "unat (saturating_mul a b) < 2 ^ 128 - 1"
    using assms(2) True by (simp add: unat_saturating_mul)
  then have "\<exists>r. (isqrt (saturating_mul a b) :: (prism_error, u128) outcome) = Ok r"
    using isqrt_ok by blast
  with True show ?thesis
    by (auto simp: minted_shares_def no_panic_def)
next
  case False
  then show ?thesis
    using assms(1) unfolding minted_shares_def by (auto simp: pool_ok_def intro!: no_panic_intros)
qed

lemma dex_no_panic:
  assumes "pools_ok X s" and "dex_headroom X s c"
  shows "no_panic (dex_dispatch X cmd c) s"
proof (cases c)
  case (DxCreatePool a b)
  show ?thesis
    unfolding DxCreatePool dex_dispatch_def dex_command.case dex_create_pool_def pool_save_def Let_def
    by (intro no_panic_intros)
next
  case (DxAddLiquidity pid a b)
  have "no_panic (minted_shares p a b) s" if "pool_of X s pid = Some p" for p
    using pools_okD [OF assms(1) that] assms(2) that DxAddLiquidity by (intro minted_no_panic) (auto simp: dex_headroom_def)
  then show ?thesis
    unfolding dex_dispatch_def dex_add_liquidity_def pool_save_def Let_def DxAddLiquidity dex_command.case
    by (intro no_panic_andthen) (auto simp: pool_load_Ok_iff if_Ok_iff split: if_splits intro!: no_panic_intros,
      simp add: pool_load_def no_panic_intros)
next
  case (DxRemoveLiquidity pid n)
  have "pool_total_shares p \<noteq> 0" if "pool_of X s pid = Some p" "n \<noteq> 0" "\<not> share_of p w < n" for p w
  proof
    assume "pool_total_shares p = 0"
    with pools_okD [OF assms(1) that(1)] sh.entry_le_total [of "pool_shares p" "party_name w"]
    have "share_of p w = 0" by (simp add: pool_ok_def share_of_share_at unat_eq_0)
    with that(2,3) show False by (simp add: word_gt_0 not_less)
  qed
  then show ?thesis
    unfolding dex_dispatch_def dex_remove_liquidity_def pool_save_def Let_def DxRemoveLiquidity dex_command.case
    by (intro no_panic_andthen) (auto simp: pool_load_Ok_iff if_Ok_iff split: if_splits intro!: no_panic_intros,
      simp add: pool_load_def no_panic_intros)
next
  case (DxSwap pid t a m)
  show ?thesis
    unfolding DxSwap dex_dispatch_def dex_command.case dex_swap_def pool_save_def pool_load_def Let_def
    by (intro no_panic_intros)
qed

text \<open>
  C26. The pool invariant and the absence of panics. Every pool's liquidity shares add up to its
  total, and a pool with shares has both reserves. Every successful exchange command keeps this for all pools, and no command
  panics, under three bounds: the amounts of the first liquidity of a pool have a product below \<open>2 ^ 128 - 1\<close> (beyond it \<open>isqrt\<close> divides by zero), the
  shares of a pool after adding liquidity are below \<open>2 ^ 128\<close>, and for a swap the reserves plus the amount times 10000 are below \<open>2 ^ 128\<close>.
\<close>

theorem dex_pool_invariant:
  assumes "dex_ext_ok X" and "pools_ok X s" and "dex_headroom X s c" and "dex_dispatch X cmd c s = (r, s')"
  shows "r \<noteq> Panic \<and> (\<forall>out. r = Ok out \<longrightarrow> pools_ok X s')"
proof (intro conjI allI impI)
  show "r \<noteq> Panic" using dex_no_panic [OF assms(2,3), of cmd] assms(4) by (simp add: no_panic_def)
  fix out assume "r = Ok out"
  with assms show "pools_ok X s'"
    by (cases c) (auto simp: dex_dispatch_def intro: dex_create_pool_ok dex_swap_pools_ok dex_liquidity_pools_ok)
qed

theorem dex_pool_invariant_witness:
  "\<exists>out s'. dex_dispatch ref_dex_ext demo_command (DxSwap ZERO ZERO 100 1) demo_exchange = (Ok out, s') \<and> pools_ok ref_dex_ext s'"
proof -
  obtain out s' where run: "dex_dispatch ref_dex_ext demo_command (DxSwap ZERO ZERO 100 1) demo_exchange = (Ok out, s')"
    using demo_swap_runs by (auto simp: dex_dispatch_def)
  have "dex_headroom ref_dex_ext demo_exchange (DxSwap ZERO ZERO 100 1)"
    by (simp add: dex_headroom_def) (simp add: demo_pool_def)
  from dex_pool_invariant [OF ref_dex_ext_ok demo_pools_ok this run] run show ?thesis by blast
qed

end
