(* ===== verification/Vesting.thy ===== *)
theory Vesting
  imports Token
begin

text \<open>
  \<open>prisms/vesting/src/lib.rs\<close>: tokens locked under a schedule and released to a beneficiary over time.
  The chain time is read from the state cell \<open>chain/now\<close>, which the node writes.
\<close>

section \<open>Data\<close>

record schedule =
  sch_id :: hash
  sch_token_id :: hash
  sch_funder :: party_id
  sch_beneficiary :: party_id
  sch_total :: u128
  sch_released :: u128
  sch_start :: u64
  sch_cliff :: u64
  sch_duration :: u64
  sch_revocable :: bool
  sch_revoked :: bool

datatype vesting_command =
    VcCreate hash party_id u128 u64 u64 u64 bool
  | VcRelease hash
  | VcRevoke hash

datatype vesting_event =
    VeCreated hash party_id u128
  | VeReleased hash party_id u128
  | VeRevoked hash u128

record vesting_ext = token_ext +
  js_u64 :: "u64 codec"
  js_schedule :: "schedule codec"
  js_vesting_command :: "vesting_command codec"
  js_vesting_event :: "vesting_event codec"

definition vesting_ext_ok :: "'x vesting_ext_scheme \<Rightarrow> bool" where
  "vesting_ext_ok X \<longleftrightarrow> token_ext_ok X \<and> codec_ok (js_u64 X) \<and> codec_ok (js_schedule X) \<and>
     codec_ok (js_vesting_command X) \<and> codec_ok (js_vesting_event X)"

section \<open>Operations\<close>

definition vested :: "schedule \<Rightarrow> u64 \<Rightarrow> u128" where
  "vested sc now =
     (if sch_duration sc = 0 then sch_total sc
      else if now < saturating_add (sch_start sc) (sch_cliff sc) then 0
      else
        let elapsed = saturating_sub now (sch_start sc) in
        if elapsed \<ge> sch_duration sc then sch_total sc
        else
          let num = saturating_mul (sch_total sc) (ucast elapsed) in
          num div ucast (sch_duration sc))"

definition releasable :: "schedule \<Rightarrow> u64 \<Rightarrow> u128" where
  "releasable sc now = saturating_sub (vested sc now) (sch_released sc)"

definition sched_key :: "'x kernel_ext_scheme \<Rightarrow> hash \<Rightarrow> string" where
  "sched_key X i = ''vesting/sched/'' @ to_hex X i"

definition vesting_now :: "'x vesting_ext_scheme \<Rightarrow> state_tree \<Rightarrow> u64" where
  "vesting_now X s = (case get_json_opt (js_u64 X) s ''chain/now'' of None \<Rightarrow> 0 | Some t \<Rightarrow> t)"

definition sched_load :: "'x vesting_ext_scheme \<Rightarrow> hash \<Rightarrow> (state_tree, prism_error, schedule) act" where
  "sched_load X i = get_json_or (js_schedule X) (sched_key X i) (NotFound (''vesting schedule '' @ to_hex X i))"

definition sched_save :: "'x vesting_ext_scheme \<Rightarrow> hash \<Rightarrow> schedule \<Rightarrow> (state_tree, prism_error, unit) act" where
  "sched_save X i sc = put_json_internal (js_schedule X) (sched_key X i) sc"

definition vesting_emit :: "'x vesting_ext_scheme \<Rightarrow> command \<Rightarrow> vesting_event \<Rightarrow> event" where
  "vesting_emit X cmd payload = emit X ''vesting'' cmd (to_vec_or_default (js_vesting_event X) payload)"

definition vesting_create ::
  "'x vesting_ext_scheme \<Rightarrow> command \<Rightarrow> hash \<Rightarrow> party_id \<Rightarrow> u128 \<Rightarrow> u64 \<Rightarrow> u64 \<Rightarrow> u64 \<Rightarrow> bool \<Rightarrow>
   (state_tree, prism_error, prism_output) act" where
  "vesting_create X cmd token_id beneficiary total0 start cliff duration revocable =
     (let caller = cmd_submitter cmd in
      andthen (ensure (total0 \<noteq> 0) (InvalidPayload ''total must be > 0'')) (\<lambda>_.
      andthen (ensure (\<not> cliff > duration) (InvalidPayload ''cliff must not exceed duration'')) (\<lambda>_.
      let i = commit X ''vesting/id'' [as_bytes (party_name caller), as_bytes (party_name beneficiary),
            as_bytes (to_hex X token_id), u64_to_be_bytes start, u128_to_be_bytes total0] in
      andthen (gets (\<lambda>s. st_contains s (sched_key X i))) (\<lambda>exists.
      andthen (ensure (\<not> exists) (InvalidPayload ''schedule already exists'')) (\<lambda>_.
      andthen (debit X token_id caller total0) (\<lambda>_.
      andthen (sched_save X i \<lparr>sch_id = i, sch_token_id = token_id, sch_funder = caller, sch_beneficiary = beneficiary,
         sch_total = total0, sch_released = 0, sch_start = start, sch_cliff = cliff, sch_duration = duration,
         sch_revocable = revocable, sch_revoked = False\<rparr>) (\<lambda>_.
      ret (single_output (vesting_emit X cmd (VeCreated i beneficiary total0)) 4000))))))))"

definition vesting_release ::
  "'x vesting_ext_scheme \<Rightarrow> command \<Rightarrow> hash \<Rightarrow> (state_tree, prism_error, prism_output) act" where
  "vesting_release X cmd i =
     andthen (sched_load X i) (\<lambda>sc.
     andthen (ensure (\<not> sch_revoked sc) (InvalidPayload ''schedule revoked'')) (\<lambda>_.
     andthen (gets (vesting_now X)) (\<lambda>now.
     let amount = releasable sc now in
     andthen (ensure (amount \<noteq> 0) (LimitExceeded ''nothing vested yet'')) (\<lambda>_.
     let sc' = sc\<lparr>sch_released := saturating_add (sch_released sc) amount\<rparr> in
     andthen (credit X (sch_token_id sc) (sch_beneficiary sc) amount) (\<lambda>_.
     andthen (sched_save X i sc') (\<lambda>_.
     ret (single_output (vesting_emit X cmd (VeReleased i (sch_beneficiary sc) amount)) 1500)))))))"

definition vesting_revoke ::
  "'x vesting_ext_scheme \<Rightarrow> command \<Rightarrow> hash \<Rightarrow> (state_tree, prism_error, prism_output) act" where
  "vesting_revoke X cmd i =
     andthen (sched_load X i) (\<lambda>sc.
     andthen (ensure (sch_revocable sc) (Unauthorized ''schedule is not revocable'')) (\<lambda>_.
     andthen (ensure (\<not> sch_funder sc \<noteq> cmd_submitter cmd) (Unauthorized ''only funder can revoke'')) (\<lambda>_.
     andthen (ensure (\<not> sch_revoked sc) (InvalidPayload ''already revoked'')) (\<lambda>_.
     andthen (gets (vesting_now X)) (\<lambda>now.
     let owed = saturating_sub (vested sc now) (sch_released sc) in
     andthen (if owed > 0
              then andthen (credit X (sch_token_id sc) (sch_beneficiary sc) owed) (\<lambda>_.
                   ret (sc\<lparr>sch_released := saturating_add (sch_released sc) owed\<rparr>))
              else ret sc) (\<lambda>sc1.
     let refund = saturating_sub (sch_total sc1) (sch_released sc1) in
     andthen (if refund > 0 then credit X (sch_token_id sc1) (sch_funder sc1) refund else ret ()) (\<lambda>_.
     andthen (sched_save X i (sc1\<lparr>sch_revoked := True\<rparr>)) (\<lambda>_.
     ret (single_output (vesting_emit X cmd (VeRevoked i refund)) 1500)))))))))"

definition vesting_dispatch ::
  "'x vesting_ext_scheme \<Rightarrow> command \<Rightarrow> vesting_command \<Rightarrow> (state_tree, prism_error, prism_output) act" where
  "vesting_dispatch X cmd c = (case c of
      VcCreate token_id beneficiary total0 start cliff duration revocable \<Rightarrow>
        vesting_create X cmd token_id beneficiary total0 start cliff duration revocable
    | VcRelease i \<Rightarrow> vesting_release X cmd i
    | VcRevoke i \<Rightarrow> vesting_revoke X cmd i)"

definition vesting_handle :: "'x vesting_ext_scheme \<Rightarrow> handler" where
  "vesting_handle X cmd =
     andthen (parse_payload (js_vesting_command X) (cmd_payload cmd)) (vesting_dispatch X cmd)"

definition vesting_estimate :: "'x vesting_ext_scheme \<Rightarrow> command \<Rightarrow> state_tree \<Rightarrow> u64" where
  "vesting_estimate X cmd s =
     (case from_slice (js_vesting_command X) (cmd_payload cmd) of
        Inr (VcCreate _ _ _ _ _ _ _) \<Rightarrow> 4000
      | Inr _ \<Rightarrow> 1500
      | Inl _ \<Rightarrow> 1000)"

definition vesting_prism :: "'x vesting_ext_scheme \<Rightarrow> prism" where
  "vesting_prism X = \<lparr>pr_info = \<lparr>info_name = ''vesting'',
       info_description = ''Time-locked token release schedules (cliff + linear) with optional revoke'',
       info_version = ''1.0''\<rparr>,
     pr_handle = vesting_handle X, pr_estimate = vesting_estimate X\<rparr>"

definition schedule_of :: "'x vesting_ext_scheme \<Rightarrow> state_tree \<Rightarrow> hash \<Rightarrow> schedule option" where
  "schedule_of X s i = get_json_opt (js_schedule X) s (sched_key X i)"

definition vesting_command_of :: "'x vesting_ext_scheme \<Rightarrow> party_id \<Rightarrow> visibility \<Rightarrow> u64 \<Rightarrow> vesting_command \<Rightarrow> command" where
  "vesting_command_of X submitter vis nonce c =
     \<lparr>cmd_prism = ''vesting'', cmd_submitter = submitter, cmd_visibility = vis,
      cmd_payload = to_vec_or_default (js_vesting_command X) c, cmd_nonce = nonce\<rparr>"

definition vesting_create_command ::
  "'x vesting_ext_scheme \<Rightarrow> party_id \<Rightarrow> visibility \<Rightarrow> u64 \<Rightarrow> hash \<Rightarrow> party_id \<Rightarrow> u128 \<Rightarrow> u64 \<Rightarrow> u64 \<Rightarrow> u64 \<Rightarrow> bool \<Rightarrow> command" where
  "vesting_create_command X submitter vis nonce token_id beneficiary total0 start cliff duration revocable =
     vesting_command_of X submitter vis nonce (VcCreate token_id beneficiary total0 start cliff duration revocable)"

definition vesting_release_command :: "'x vesting_ext_scheme \<Rightarrow> party_id \<Rightarrow> visibility \<Rightarrow> u64 \<Rightarrow> hash \<Rightarrow> command" where
  "vesting_release_command X submitter vis nonce i = vesting_command_of X submitter vis nonce (VcRelease i)"

section \<open>The vesting curve\<close>

lemma linear_part:
  fixes e d :: u64 and t :: u128
  assumes "d \<noteq> 0"
  shows "unat (saturating_mul t (ucast e) div ucast d) = min (unat t * unat e) (2 ^ 128 - 1) div unat d"
proof -
  have u: "unat (ucast w :: u128) = unat w" for w :: u64
    using unsigned_less [of w, where ?'a = nat] by (simp add: unsigned_ucast_eq take_bit_nat_eq_self order.strict_trans)
  show ?thesis by (simp add: unat_div unat_saturating_mul u)
qed

lemma linear_le:
  assumes "(e :: nat) \<le> d"
  shows "min (t * e) m div d \<le> t"
proof -
  have "min (t * e) m div d \<le> t * e div d" by (rule div_le_mono) simp
  also have "\<dots> \<le> t * d div d" using assms by (intro div_le_mono mult_le_mono2)
  also have "\<dots> \<le> t" by (cases "d = 0") auto
  finally show ?thesis .
qed

lemma vested_le_total: "unat (vested sc now) \<le> unat (sch_total sc)"
  by (auto simp: vested_def Let_def linear_part word_le_nat_alt not_le intro!: linear_le)

lemma vested_mono:
  assumes "now \<le> later"
  shows "unat (vested sc now) \<le> unat (vested sc later)"
proof -
  let ?cl = "saturating_add (sch_start sc) (sch_cliff sc)"
  have le: "unat (saturating_sub now (sch_start sc)) \<le> unat (saturating_sub later (sch_start sc))"
    using assms by (simp add: unat_saturating_sub word_le_nat_alt diff_le_mono)
  consider "sch_duration sc = 0" | "now < ?cl" | "sch_duration sc \<noteq> 0" "\<not> now < ?cl" "\<not> later < ?cl"
    using assms by fastforce
  then show ?thesis
  proof cases
    case 3
    let ?e1 = "saturating_sub now (sch_start sc)" and ?e2 = "saturating_sub later (sch_start sc)"
    show ?thesis
    proof (cases "sch_duration sc \<le> ?e2")
      case True
      then have "vested sc later = sch_total sc" using 3 by (simp add: vested_def Let_def)
      then show ?thesis using vested_le_total by simp
    next
      case False
      with le have e1: "\<not> sch_duration sc \<le> ?e1" by (simp add: word_le_nat_alt)
      have "min (unat (sch_total sc) * unat ?e1) (2 ^ 128 - 1) \<le> min (unat (sch_total sc) * unat ?e2) (2 ^ 128 - 1)"
        using le by (intro min.mono mult_le_mono2) auto
      then show ?thesis
        using 3 False e1 by (simp add: vested_def Let_def linear_part div_le_mono)
    qed
  qed (simp_all add: vested_def)
qed

section \<open>Schedules in the state\<close>

definition put_sched :: "'x vesting_ext_scheme \<Rightarrow> hash \<Rightarrow> schedule \<Rightarrow> state_tree \<Rightarrow> state_tree" where
  "put_sched X i sc s = st_put (sched_key X i) (to_vec_or_default (js_schedule X) sc) s"

text \<open>What a schedule still holds of a token, over all schedules.\<close>

definition locked_amount :: "hash \<Rightarrow> schedule \<Rightarrow> u128" where
  "locked_amount tid sc = (if sch_token_id sc = tid \<and> \<not> sch_revoked sc then sch_total sc - sch_released sc else 0)"

definition locked :: "'x vesting_ext_scheme \<Rightarrow> state_tree \<Rightarrow> hash \<Rightarrow> hash \<Rightarrow> u128" where
  "locked X s tid i = (case schedule_of X s i of None \<Rightarrow> 0 | Some sc \<Rightarrow> locked_amount tid sc)"

abbreviation vesting_locked :: "'x vesting_ext_scheme \<Rightarrow> state_tree \<Rightarrow> hash \<Rightarrow> nat" where
  "vesting_locked X s tid \<equiv> book_total (locked X s tid)"

definition schedules_ok :: "'x vesting_ext_scheme \<Rightarrow> state_tree \<Rightarrow> bool" where
  "schedules_ok X s \<longleftrightarrow> (\<forall>i sc. schedule_of X s i = Some sc \<longrightarrow> sch_released sc \<le> sch_total sc)"

lemma vesting_ext_okD:
  assumes "vesting_ext_ok X"
  shows "token_ext_ok X" "kernel_ext_ok X" "hash_ext_ok X" "codec_ok (js_schedule X)" "codec_ok (js_u64 X)"
  using assms by (simp_all add: vesting_ext_ok_def token_ext_okD)

lemma sched_key_inj: "hash_ext_ok X \<Longrightarrow> sched_key X i = sched_key X j \<longleftrightarrow> i = j"
  by (simp add: sched_key_def to_hex_inj)

lemma sched_key_distinct [simp]:
  "sched_key X i \<noteq> bal_key X j w" "bal_key X j w \<noteq> sched_key X i"
  "sched_key X i \<noteq> meta_key X j" "meta_key X j \<noteq> sched_key X i"
  by (simp_all add: sched_key_def bal_key_def meta_key_def)

lemma sched_save_ok: "vesting_ext_ok X \<Longrightarrow> sched_save X i sc = modify (put_sched X i sc)"
  by (simp add: sched_save_def put_sched_def [abs_def] vesting_ext_okD)

lemma sched_load_Ok_iff: "sched_load X i s = (Ok sc, s') \<longleftrightarrow> s' = s \<and> schedule_of X s i = Some sc"
  by (simp add: sched_load_def get_json_or_Ok_iff schedule_of_def)

named_theorems vesting_cells \<open>reading schedules and balances after a write\<close>

lemma schedule_of_writes [vesting_cells]:
  "vesting_ext_ok X \<Longrightarrow> schedule_of X (put_sched X i sc s) j = (if i = j then Some sc else schedule_of X s j)"
  "schedule_of X (put_balance X t w v s) j = schedule_of X s j"
  "schedule_of X (bump_supply X t f s) j = schedule_of X s j"
  by (auto simp: schedule_of_def put_sched_def put_u128_def bump_supply_def put_meta_def get_json_opt_put sched_key_inj
      vesting_ext_okD split: option.splits)

lemma balance_put_sched [vesting_cells]: "balance X (put_sched X i sc s) = balance X s"
  by (simp add: fun_eq_iff balance_def put_sched_def read_u128_frame)

lemma locked_writes [vesting_cells]:
  "vesting_ext_ok X \<Longrightarrow> locked X (put_sched X i sc s) tid = (locked X s tid)(i := locked_amount tid sc)"
  "locked X (put_balance X t w v s) = locked X s"
  "locked X (bump_supply X t f s) = locked X s"
  by (auto simp: locked_def fun_eq_iff vesting_cells)

lemma finite_locked: "hash_ext_ok X \<Longrightarrow> finite {i. locked X s tid i \<noteq> 0}"
proof -
  assume "hash_ext_ok X"
  then have "inj_on (sched_key X) {i. locked X s tid i \<noteq> 0}" by (simp add: inj_on_def sched_key_inj)
  moreover have "sched_key X ` {i. locked X s tid i \<noteq> 0} \<subseteq> fmdom' (entries s)"
    by (auto simp: locked_def schedule_of_def get_json_opt_def get_json_def fmlookup_dom'_iff split: option.splits sum.splits)
  ultimately show ?thesis by (meson finite_fmdom' finite_subset inj_on_finite)
qed

lemma vesting_locked_put:
  assumes "vesting_ext_ok X"
  shows "vesting_locked X (put_sched X i sc s) tid + unat (locked X s tid i) =
    vesting_locked X s tid + unat (locked_amount tid sc)"
  using book_total_upd [OF finite_locked [OF vesting_ext_okD(3) [OF assms]]] by (simp add: locked_writes assms)

lemma schedules_ok_put:
  "vesting_ext_ok X \<Longrightarrow> schedules_ok X s \<Longrightarrow> sch_released sc \<le> sch_total sc \<Longrightarrow> schedules_ok X (put_sched X i sc s)"
  by (auto simp: schedules_ok_def vesting_cells)

lemma schedules_ok_frame [simp]:
  "schedules_ok X (put_balance X t w v s) = schedules_ok X s" "schedules_ok X (bump_supply X t f s) = schedules_ok X s"
  by (simp_all add: schedules_ok_def vesting_cells)

section \<open>What each command does when it succeeds\<close>

text \<open>The credited state: the balance grows, and the recorded supply with it.\<close>

definition credited :: "'x token_ext_scheme \<Rightarrow> hash \<Rightarrow> party_id \<Rightarrow> u128 \<Rightarrow> state_tree \<Rightarrow> state_tree" where
  "credited X tid who a s = bump_supply X tid (\<lambda>t. saturating_add t a) (put_balance X tid who (balance X s tid who + a) s)"

lemma credit_credited:
  "token_ext_ok X \<Longrightarrow> credit X tid who a s = (Ok u, s') \<longleftrightarrow>
     unat (balance X s tid who) + unat a < 2 ^ 128 \<and> s' = credited X tid who a s"
  by (auto simp: credit_Ok checked_add_Some_iff credited_def)

lemma credited_cells [vesting_cells]:
  "kernel_ext_ok X \<Longrightarrow> balance X (credited X t w a s) j u =
     (if t = j \<and> w = u then balance X s t w + a else balance X s j u)"
  "schedule_of X (credited X t w a s) j = schedule_of X s j"
  "locked X (credited X t w a s) = locked X s"
  "schedules_ok X (credited X t w a s) = schedules_ok X s"
  by (simp_all add: credited_def token_cells vesting_cells)

lemma circulating_credited:
  assumes "kernel_ext_ok X" and "unat (balance X s t w) + unat a < 2 ^ 128"
  shows "circulating X (credited X t w a s) j = circulating X s j + (if t = j then unat a else 0)"
proof (cases "t = j")
  case True
  then show ?thesis
    using bal_credit [OF assms(1), of s t w a "balance X s t w + a"] assms(2)
    by (simp add: credited_def checked_add_Some_iff)
next
  case False
  then show ?thesis by (simp add: credited_def balance_fun_other assms(1))
qed

lemma vesting_create_Ok:
  assumes "vesting_ext_ok X" and "vesting_create X cmd t b tot start cliff duration rv s = (Ok out, s')"
  shows "\<exists>i sc. tot \<noteq> 0 \<and> cliff \<le> duration \<and> schedule_of X s i = None \<and> tot \<le> balance X s t (cmd_submitter cmd) \<and>
    sch_token_id sc = t \<and> sch_funder sc = cmd_submitter cmd \<and> sch_beneficiary sc = b \<and> sch_total sc = tot \<and>
    sch_released sc = 0 \<and> \<not> sch_revoked sc \<and>
    s' = put_sched X i sc (put_balance X t (cmd_submitter cmd) (balance X s t (cmd_submitter cmd) - tot) s)"
proof -
  have absent: "schedule_of X s i = None" if "\<not> st_contains s (sched_key X i)" for i
    using that by (auto simp: schedule_of_def get_json_opt_def get_json_get st_contains_get split: option.splits)
  show ?thesis
    using assms(2) unfolding vesting_create_def Let_def
    by (auto simp: ok_iffs sched_save_ok debit_Ok assms(1) vesting_ext_okD [OF assms(1)] intro!: exI absent)
qed

lemma vesting_release_Ok:
  assumes "vesting_ext_ok X"
  shows "vesting_release X cmd i s = (Ok out, s') \<longleftrightarrow>
    (\<exists>sc. schedule_of X s i = Some sc \<and> \<not> sch_revoked sc \<and> releasable sc (vesting_now X s) \<noteq> 0 \<and>
       unat (balance X s (sch_token_id sc) (sch_beneficiary sc)) + unat (releasable sc (vesting_now X s)) < 2 ^ 128 \<and>
       s' = put_sched X i (sc\<lparr>sch_released := saturating_add (sch_released sc) (releasable sc (vesting_now X s))\<rparr>)
              (credited X (sch_token_id sc) (sch_beneficiary sc) (releasable sc (vesting_now X s)) s) \<and>
       out = single_output (vesting_emit X cmd (VeReleased i (sch_beneficiary sc) (releasable sc (vesting_now X s)))) 1500)"
  unfolding vesting_release_def Let_def
  by (auto simp: ok_iffs sched_load_Ok_iff sched_save_ok assms credit_credited vesting_ext_okD [OF assms])

text \<open>A payment made only when there is something to pay.\<close>

definition paid :: "'x token_ext_scheme \<Rightarrow> hash \<Rightarrow> party_id \<Rightarrow> u128 \<Rightarrow> state_tree \<Rightarrow> state_tree" where
  "paid X tid who a s = (if a > 0 then credited X tid who a s else s)"

definition pay_fits :: "'x kernel_ext_scheme \<Rightarrow> hash \<Rightarrow> party_id \<Rightarrow> u128 \<Rightarrow> state_tree \<Rightarrow> bool" where
  "pay_fits X tid who a s \<longleftrightarrow> unat (balance X s tid who) + unat a < 2 ^ 128"

lemma pay_fits_0 [simp]: "pay_fits X tid who 0 s"
  using unsigned_less [of "balance X s tid who", where ?'a = nat] by (simp add: pay_fits_def)

lemma paid_cells [vesting_cells]:
  "kernel_ext_ok X \<Longrightarrow> balance X (paid X t w a s) j u = (if t = j \<and> w = u then balance X s t w + a else balance X s j u)"
  "schedule_of X (paid X t w a s) j = schedule_of X s j"
  "locked X (paid X t w a s) = locked X s"
  "schedules_ok X (paid X t w a s) = schedules_ok X s"
  by (auto simp: paid_def vesting_cells word_neq_0_conv [symmetric])

lemma circulating_paid:
  "kernel_ext_ok X \<Longrightarrow> pay_fits X t w a s \<Longrightarrow>
   circulating X (paid X t w a s) j = circulating X s j + (if t = j then unat a else 0)"
  by (auto simp: paid_def pay_fits_def circulating_credited word_neq_0_conv [symmetric])

lemma pay_step:
  "token_ext_ok X \<Longrightarrow> (if a > 0 then credit X t w a s = (Ok (), s') else s' = s) \<longleftrightarrow> pay_fits X t w a s \<and> s' = paid X t w a s"
  by (cases "a = 0") (auto simp: credit_credited paid_def pay_fits_def word_neq_0_conv [symmetric] pay_fits_0 [unfolded pay_fits_def, simplified])

definition settled :: "schedule \<Rightarrow> u64 \<Rightarrow> schedule" where
  "settled sc now = (let owed = releasable sc now in
     if owed > 0 then sc\<lparr>sch_released := saturating_add (sch_released sc) owed\<rparr> else sc)"

lemma settled_fields [simp]:
  "sch_token_id (settled sc now) = sch_token_id sc" "sch_funder (settled sc now) = sch_funder sc"
  "sch_beneficiary (settled sc now) = sch_beneficiary sc" "sch_total (settled sc now) = sch_total sc"
  "sch_revoked (settled sc now) = sch_revoked sc"
  by (simp_all add: settled_def Let_def)

lemma unat_releasable: "unat (releasable sc now) = unat (vested sc now) - unat (sch_released sc)"
  by (simp add: releasable_def unat_saturating_sub)

lemma released_after:
  assumes "sch_released sc \<le> sch_total sc"
  shows "unat (saturating_add (sch_released sc) (releasable sc now)) = max (unat (sch_released sc)) (unat (vested sc now))"
proof -
  have "unat (vested sc now) < 2 ^ 128" "unat (sch_released sc) < 2 ^ 128"
    using unsigned_less [of "vested sc now", where ?'a = nat] unsigned_less [of "sch_released sc", where ?'a = nat]
    by simp_all
  then show ?thesis by (simp add: unat_saturating_add unat_releasable)
qed

lemma settled_released:
  assumes "sch_released sc \<le> sch_total sc"
  shows "unat (sch_released (settled sc now)) = max (unat (sch_released sc)) (unat (vested sc now))"
proof (cases "releasable sc now > 0")
  case True
  then show ?thesis using released_after [OF assms] by (simp add: settled_def Let_def)
next
  case False
  then have "unat (vested sc now) \<le> unat (sch_released sc)"
    using unat_releasable [of sc now] by (simp add: word_neq_0_conv [symmetric])
  with False show ?thesis by (simp add: settled_def Let_def)
qed

lemma vesting_revoke_Ok:
  assumes "vesting_ext_ok X" and "vesting_revoke X cmd i s = (Ok out, s')"
  shows "\<exists>sc. schedule_of X s i = Some sc \<and> sch_revocable sc \<and> sch_funder sc = cmd_submitter cmd \<and> \<not> sch_revoked sc \<and>
    (let now = vesting_now X s; owed = releasable sc now; sc1 = settled sc now;
         s1 = paid X (sch_token_id sc) (sch_beneficiary sc) owed s;
         refund = saturating_sub (sch_total sc) (sch_released sc1) in
     pay_fits X (sch_token_id sc) (sch_beneficiary sc) owed s \<and> pay_fits X (sch_token_id sc) (sch_funder sc) refund s1 \<and>
     s' = put_sched X i (sc1\<lparr>sch_revoked := True\<rparr>) (paid X (sch_token_id sc) (sch_funder sc) refund s1) \<and>
     out = single_output (vesting_emit X cmd (VeRevoked i refund)) 1500)"
proof -
  let ?now = "vesting_now X s"
  obtain sc where sc: "schedule_of X s i = Some sc" "sch_revocable sc" "sch_funder sc = cmd_submitter cmd" "\<not> sch_revoked sc"
    using assms(2) by (auto simp: vesting_revoke_def ok_iffs sched_load_Ok_iff)
  have load: "sched_load X i s = (Ok sc, s)" using sc(1) by (simp add: sched_load_Ok_iff)
  obtain s1 s2 where r: "(if releasable sc ?now > 0 then credit X (sch_token_id sc) (sch_beneficiary sc) (releasable sc ?now) s = (Ok (), s1)
        else s1 = s)"
      "(if saturating_sub (sch_total sc) (sch_released (settled sc ?now)) > 0
        then credit X (sch_token_id sc) (sch_funder sc) (saturating_sub (sch_total sc) (sch_released (settled sc ?now))) s1 = (Ok (), s2)
        else s2 = s1)"
      "s' = put_sched X i ((settled sc ?now)\<lparr>sch_revoked := True\<rparr>) s2"
      "out = single_output (vesting_emit X cmd (VeRevoked i (saturating_sub (sch_total sc) (sch_released (settled sc ?now))))) 1500"
    using assms(2) sc(2-4) load
    by (cases "releasable sc ?now > 0")
      (auto simp: vesting_revoke_def ok_iffs sched_save_ok assms(1) Let_def settled_def
        releasable_def [symmetric] split: if_splits)
  show ?thesis
    using sc r(1,2) [unfolded pay_step [OF vesting_ext_okD(1) [OF assms(1)]]] r(3,4) by (auto simp: Let_def)
qed

section \<open>Conservation\<close>

definition vesting_conserved :: "'x vesting_ext_scheme \<Rightarrow> state_tree \<Rightarrow> state_tree \<Rightarrow> bool" where
  "vesting_conserved X s s' \<longleftrightarrow> schedules_ok X s' \<and>
     (\<forall>tid. circulating X s' tid + vesting_locked X s' tid = circulating X s tid + vesting_locked X s tid)"

lemma locked_amount_nat:
  "sch_released sc \<le> sch_total sc \<Longrightarrow> unat (locked_amount tid sc) =
     (if sch_token_id sc = tid \<and> \<not> sch_revoked sc then unat (sch_total sc) - unat (sch_released sc) else 0)"
  by (simp add: locked_amount_def unat_sub)

lemma locked_revoked [simp]: "locked_amount tid (sc\<lparr>sch_revoked := True\<rparr>) = 0"
  by (simp add: locked_amount_def)

lemma locked_present: "schedule_of X s i = Some sc \<Longrightarrow> locked X s tid i = locked_amount tid sc"
  by (simp add: locked_def)

lemma vesting_locked_update:
  assumes "vesting_ext_ok X" and "schedule_of X s i = Some sc" and "locked X s1 = locked X s"
  shows "vesting_locked X (put_sched X i sc' s1) j + unat (locked_amount j sc) = vesting_locked X s j + unat (locked_amount j sc')"
  using vesting_locked_put [OF assms(1), of i sc' s1 j] by (simp add: assms(3) locked_present [OF assms(2)])

lemma vesting_create_conserves:
  assumes X: "vesting_ext_ok X" and inv: "schedules_ok X s"
    and run: "vesting_create X cmd t b tot start cliff duration rv s = (Ok out, s')"
  shows "vesting_conserved X s s'"
proof -
  note k = vesting_ext_okD(2) [OF X]
  let ?who = "cmd_submitter cmd" and ?s1 = "put_balance X t (cmd_submitter cmd) (balance X s t (cmd_submitter cmd) - tot) s"
  obtain i sc where c: "schedule_of X s i = None" "tot \<le> balance X s t ?who" "sch_token_id sc = t" "sch_total sc = tot"
    "sch_released sc = 0" "\<not> sch_revoked sc" and s': "s' = put_sched X i sc ?s1"
    using vesting_create_Ok [OF X run] by blast
  have circ: "circulating X s' j + (if t = j then unat tot else 0) = circulating X s j" for j
    using bal_debit [OF k c(2)] k by (cases "t = j") (simp_all add: s' vesting_cells balance_fun_other)
  have lock: "vesting_locked X s' j = vesting_locked X s j + (if t = j then unat tot else 0)" for j
    using vesting_locked_put [OF X, of i sc ?s1 j] c(1,3-6)
    by (cases "t = j") (simp_all add: s' vesting_cells locked_def locked_amount_def)
  have "circulating X s' j + vesting_locked X s' j = circulating X s j + vesting_locked X s j" for j
    using circ [of j] lock [of j] by linarith
  then show ?thesis
    unfolding vesting_conserved_def using inv c(5) by (auto simp: s' intro!: schedules_ok_put [OF X])
qed

lemma vesting_release_conserves:
  assumes X: "vesting_ext_ok X" and inv: "schedules_ok X s" and run: "vesting_release X cmd i s = (Ok out, s')"
  shows "vesting_conserved X s s'"
proof -
  note k = vesting_ext_okD(2) [OF X]
  let ?a = "\<lambda>sc. releasable sc (vesting_now X s)"
  obtain sc where sc: "schedule_of X s i = Some sc" "\<not> sch_revoked sc"
    and fits: "unat (balance X s (sch_token_id sc) (sch_beneficiary sc)) + unat (?a sc) < 2 ^ 128"
    and s': "s' = put_sched X i (sc\<lparr>sch_released := saturating_add (sch_released sc) (?a sc)\<rparr>)
      (credited X (sch_token_id sc) (sch_beneficiary sc) (?a sc) s)"
    using run by (auto simp: vesting_release_Ok [OF X])
  let ?sc' = "sc\<lparr>sch_released := saturating_add (sch_released sc) (?a sc)\<rparr>"
  have le: "sch_released sc \<le> sch_total sc" using inv sc(1) by (simp add: schedules_ok_def)
  note rel = released_after [OF le, of "vesting_now X s"] and v = vested_le_total [of sc "vesting_now X s"]
  have le': "sch_released ?sc' \<le> sch_total ?sc'" using le rel v by (simp add: word_le_nat_alt)
  have lock: "vesting_locked X s' j + unat (locked_amount j sc) = vesting_locked X s j + unat (locked_amount j ?sc')" for j
    unfolding s' by (intro vesting_locked_update [OF X sc(1)]) (simp add: vesting_cells)
  have amt: "unat (locked_amount j ?sc') + (if sch_token_id sc = j then unat (?a sc) else 0) = unat (locked_amount j sc)" for j
    unfolding locked_amount_nat [OF le] locked_amount_nat [OF le']
    using rel v le sc(2) by (auto simp: unat_releasable word_le_nat_alt)
  have circ: "circulating X s' j = circulating X s j + (if sch_token_id sc = j then unat (?a sc) else 0)" for j
    by (simp add: s' vesting_cells circulating_credited [OF k fits])
  have "circulating X s' j + vesting_locked X s' j = circulating X s j + vesting_locked X s j" for j
    using circ [of j] lock [of j] amt [of j] by linarith
  then show ?thesis
    unfolding vesting_conserved_def using inv le' by (auto simp: s' vesting_cells intro!: schedules_ok_put [OF X])
qed

lemma vesting_revoke_conserves:
  assumes X: "vesting_ext_ok X" and inv: "schedules_ok X s" and run: "vesting_revoke X cmd i s = (Ok out, s')"
  shows "vesting_conserved X s s'"
proof -
  note k = vesting_ext_okD(2) [OF X]
  let ?now = "vesting_now X s"
  obtain sc where sc: "schedule_of X s i = Some sc" "\<not> sch_revoked sc"
    and fits: "pay_fits X (sch_token_id sc) (sch_beneficiary sc) (releasable sc ?now) s"
      "pay_fits X (sch_token_id sc) (sch_funder sc) (saturating_sub (sch_total sc) (sch_released (settled sc ?now)))
         (paid X (sch_token_id sc) (sch_beneficiary sc) (releasable sc ?now) s)"
    and s': "s' = put_sched X i ((settled sc ?now)\<lparr>sch_revoked := True\<rparr>)
      (paid X (sch_token_id sc) (sch_funder sc) (saturating_sub (sch_total sc) (sch_released (settled sc ?now)))
         (paid X (sch_token_id sc) (sch_beneficiary sc) (releasable sc ?now) s))"
    using vesting_revoke_Ok [OF X run] unfolding Let_def by blast
  have le: "sch_released sc \<le> sch_total sc" using inv sc(1) by (simp add: schedules_ok_def)
  note rel = settled_released [OF le, of ?now] and v = vested_le_total [of sc ?now]
  have le': "sch_released (settled sc ?now) \<le> sch_total sc" using le rel v by (simp add: word_le_nat_alt)
  have lock: "vesting_locked X s' j + unat (locked_amount j sc) = vesting_locked X s j" for j
  proof -
    have "locked X (paid X (sch_token_id sc) (sch_funder sc) (saturating_sub (sch_total sc) (sch_released (settled sc ?now)))
        (paid X (sch_token_id sc) (sch_beneficiary sc) (releasable sc ?now) s)) = locked X s"
      by (simp add: vesting_cells)
    from vesting_locked_update [OF X sc(1) this, of "(settled sc ?now)\<lparr>sch_revoked := True\<rparr>" j]
    show ?thesis by (simp add: s')
  qed
  have "unat (releasable sc ?now) + unat (saturating_sub (sch_total sc) (sch_released (settled sc ?now))) =
      unat (sch_total sc) - unat (sch_released sc)"
    using rel v le by (auto simp: unat_releasable unat_saturating_sub word_le_nat_alt)
  then have circ: "circulating X s' j = circulating X s j + unat (locked_amount j sc)" for j
    unfolding locked_amount_nat [OF le]
    using sc(2) by (simp add: s' vesting_cells circulating_paid [OF k fits(1)] circulating_paid [OF k fits(2)])
  have "circulating X s' j + vesting_locked X s' j = circulating X s j + vesting_locked X s j" for j
    using circ [of j] lock [of j] by linarith
  then show ?thesis
    unfolding vesting_conserved_def using inv le' by (auto simp: s' vesting_cells intro!: schedules_ok_put [OF X])
qed

section \<open>The prism contract\<close>

lemma vesting_handle_frame:
  assumes "outside [''vesting/'', ''token/''] k"
  shows "keeps (\<lambda>s. st_get s k = v) (vesting_handle X cmd)"
proof -
  have k: "sched_key X i \<noteq> k" for i using assms by (auto simp: outside_def sched_key_def)
  have t: "token_stable (\<lambda>s. st_get s k = v)" using assms by (simp add: outside_def token_stable_get)
  have "keeps (\<lambda>s. st_get s k = v) (vesting_dispatch X cmd c)" for c
    unfolding vesting_dispatch_def vesting_create_def vesting_release_def vesting_revoke_def sched_load_def sched_save_def Let_def
    by (cases c) (auto intro!: keeps_intros t simp: k)
  then show ?thesis unfolding vesting_handle_def by (intro keeps_intros)
qed

lemma vesting_handle_events:
  assumes "vesting_handle X cmd s = (Ok out, s')"
  shows "\<forall>e \<in> set (out_events out). event_of X ''vesting'' cmd e"
proof -
  obtain c s1 where "vesting_dispatch X cmd c s1 = (Ok out, s')"
    using assms by (auto simp: vesting_handle_def andthen_Ok_iff)
  then show ?thesis
    by (cases c) (auto simp: vesting_dispatch_def vesting_create_def vesting_release_def vesting_revoke_def Let_def ok_iffs
        single_output_def vesting_emit_def)
qed

interpretation vesting: prism_contract vesting_handle "''vesting''" "[''vesting/'', ''token/'']"
  by unfold_locales (use vesting_handle_frame vesting_handle_events in \<open>blast+\<close>)

section \<open>A concrete instance of the parameters\<close>

definition schedule_coder :: "schedule coder" where
  "schedule_coder = iso_coder
     (\<lambda>x. (sch_id x, sch_token_id x, sch_funder x, sch_beneficiary x, sch_total x, sch_released x, sch_start x, sch_cliff x,
           sch_duration x, sch_revocable x, sch_revoked x))
     (\<lambda>(i, t, f, b, tot, r, s, c, d, rv, rd). \<lparr>sch_id = i, sch_token_id = t, sch_funder = f, sch_beneficiary = b, sch_total = tot,
        sch_released = r, sch_start = s, sch_cliff = c, sch_duration = d, sch_revocable = rv, sch_revoked = rd\<rparr>)
     (pair_coder hash_coder (pair_coder hash_coder (pair_coder party_coder (pair_coder party_coder
       (pair_coder word_coder (pair_coder word_coder (pair_coder word_coder (pair_coder word_coder
         (pair_coder word_coder (pair_coder bool_coder bool_coder))))))))))"

definition vesting_command_coder :: "vesting_command coder" where
  "vesting_command_coder = iso_coder
     (\<lambda>c. case c of VcCreate t b tot s cl d r \<Rightarrow> Inl (t, b, tot, s, cl, d, r) | VcRelease i \<Rightarrow> Inr (Inl i) | VcRevoke i \<Rightarrow> Inr (Inr i))
     (\<lambda>z. case z of Inl (t, b, tot, s, cl, d, r) \<Rightarrow> VcCreate t b tot s cl d r | Inr (Inl i) \<Rightarrow> VcRelease i | Inr (Inr i) \<Rightarrow> VcRevoke i)
     (sum_coder (pair_coder hash_coder (pair_coder party_coder (pair_coder word_coder (pair_coder word_coder
        (pair_coder word_coder (pair_coder word_coder bool_coder)))))) (sum_coder hash_coder hash_coder))"

definition vesting_event_coder :: "vesting_event coder" where
  "vesting_event_coder = iso_coder
     (\<lambda>e. case e of VeCreated i b v \<Rightarrow> Inl (i, b, v) | VeReleased i b v \<Rightarrow> Inr (Inl (i, b, v)) | VeRevoked i v \<Rightarrow> Inr (Inr (i, v)))
     (\<lambda>z. case z of Inl (i, b, v) \<Rightarrow> VeCreated i b v | Inr (Inl (i, b, v)) \<Rightarrow> VeReleased i b v | Inr (Inr (i, v)) \<Rightarrow> VeRevoked i v)
     (sum_coder (pair_coder hash_coder (pair_coder party_coder word_coder))
       (sum_coder (pair_coder hash_coder (pair_coder party_coder word_coder)) (pair_coder hash_coder word_coder)))"

definition ref_vesting_ext :: vesting_ext where
  "ref_vesting_ext = token_ext.extend ref_token_ext (vesting_ext.fields (codec_of word_coder) (codec_of schedule_coder)
     (codec_of vesting_command_coder) (codec_of vesting_event_coder))"

lemma vesting_coders_ok [coder_intros]:
  "coder_ok schedule_coder" "coder_ok vesting_command_coder" "coder_ok vesting_event_coder"
  unfolding schedule_coder_def vesting_command_coder_def vesting_event_coder_def
  by (intro coder_intros; auto split: vesting_command.splits vesting_event.splits)+

lemma ref_vesting_ext_ok: "vesting_ext_ok ref_vesting_ext"
  using ref_token_ext_ok
  by (simp add: vesting_ext_ok_def token_ext_ok_def kernel_ext_ok_def hash_ext_ok_def ref_vesting_ext_def
      token_ext.defs vesting_ext.defs codec_of_ok coder_intros)

definition demo_schedule :: schedule where
  "demo_schedule = \<lparr>sch_id = Hash [], sch_token_id = Hash [], sch_funder = PartyId ''alice'', sch_beneficiary = PartyId ''bob'',
     sch_total = 1000, sch_released = 100, sch_start = 0, sch_cliff = 10, sch_duration = 100, sch_revocable = True,
     sch_revoked = False\<rparr>"

definition vesting_ledger :: state_tree where
  "vesting_ledger = put_sched ref_vesting_ext (Hash []) demo_schedule
     (st_put ''chain/now'' (to_vec_or_default (js_u64 ref_vesting_ext) 50) st_new)"

lemma vesting_ledger_cells [simp]:
  "schedule_of ref_vesting_ext vesting_ledger i = (if i = Hash [] then Some demo_schedule else None)"
  "balance ref_vesting_ext vesting_ledger t w = 0" "vesting_now ref_vesting_ext vesting_ledger = 50"
  "schedules_ok ref_vesting_ext vesting_ledger"
proof -
  note X = ref_vesting_ext_ok
  have k: "sched_key ref_vesting_ext i \<noteq> ''chain/now''" for i by (simp add: sched_key_def)
  show sc: "schedule_of ref_vesting_ext vesting_ledger i = (if i = Hash [] then Some demo_schedule else None)" for i
    using k [of i] by (auto simp: vesting_ledger_def vesting_cells X) (simp add: schedule_of_def)
  show "schedules_ok ref_vesting_ext vesting_ledger" by (simp add: schedules_ok_def sc demo_schedule_def)
  show "balance ref_vesting_ext vesting_ledger t w = 0"
    by (simp add: vesting_ledger_def vesting_cells) (simp add: balance_def read_u128_frame bal_key_def)
  show "vesting_now ref_vesting_ext vesting_ledger = 50"
    using k vesting_ext_okD(5) [OF X]
    by (simp add: vesting_now_def vesting_ledger_def put_sched_def get_json_opt_put)
qed

lemma demo_vested [simp]: "vested demo_schedule 50 = 500" "releasable demo_schedule 50 = 400"
  by (simp_all add: releasable_def vested_def demo_schedule_def saturating_add_def saturating_sub_def saturating_mul_def Let_def)

section \<open>Properties\<close>

text \<open>
  C37. The vesting curve. For a schedule with a positive duration, a cliff within the duration and \<open>start + cliff\<close> below \<open>2 ^ 64\<close>: nothing is
  vested before the cliff, everything once the duration has passed, the exact linear share in between whenever the product of total and duration fits
  \<open>u128\<close>; the vested amount is monotone in time and never above the total.
\<close>

theorem vesting_curve:
  assumes "sch_duration sc \<noteq> 0" and "unat (sch_start sc) + unat (sch_cliff sc) < 2 ^ 64"
    and "unat (sch_cliff sc) \<le> unat (sch_duration sc)" and "now \<le> later"
  shows "unat (vested sc now) \<le> unat (vested sc later) \<and> unat (vested sc now) \<le> unat (sch_total sc) \<and>
    (unat now < unat (sch_start sc) + unat (sch_cliff sc) \<longrightarrow> vested sc now = 0) \<and>
    (unat (sch_start sc) + unat (sch_duration sc) \<le> unat now \<longrightarrow> vested sc now = sch_total sc) \<and>
    (unat (sch_start sc) + unat (sch_cliff sc) \<le> unat now \<and> unat now < unat (sch_start sc) + unat (sch_duration sc) \<and>
     unat (sch_total sc) * unat (sch_duration sc) < 2 ^ 128 \<longrightarrow>
       unat (vested sc now) = unat (sch_total sc) * (unat now - unat (sch_start sc)) div unat (sch_duration sc))"
proof (intro conjI impI)
  have cl: "now < saturating_add (sch_start sc) (sch_cliff sc) \<longleftrightarrow> unat now < unat (sch_start sc) + unat (sch_cliff sc)"
    using assms(2) by (simp add: word_less_nat_alt unat_saturating_add min_def)
  have el: "sch_duration sc \<le> saturating_sub now (sch_start sc) \<longleftrightarrow> unat (sch_duration sc) \<le> unat now - unat (sch_start sc)"
    by (simp add: word_le_nat_alt unat_saturating_sub)
  show "unat (vested sc now) \<le> unat (vested sc later)" using assms(4) by (rule vested_mono)
  show "unat (vested sc now) \<le> unat (sch_total sc)" by (rule vested_le_total)
  show "vested sc now = 0" if "unat now < unat (sch_start sc) + unat (sch_cliff sc)"
    using that assms(1) cl by (simp add: vested_def)
  show "vested sc now = sch_total sc" if "unat (sch_start sc) + unat (sch_duration sc) \<le> unat now"
    using le_diff_conv2 [of "unat (sch_start sc)" "unat now" "unat (sch_duration sc)"] that assms(3) cl el
    by (simp add: vested_def Let_def add.commute)
  show "unat (vested sc now) = unat (sch_total sc) * (unat now - unat (sch_start sc)) div unat (sch_duration sc)"
    if "unat (sch_start sc) + unat (sch_cliff sc) \<le> unat now \<and> unat now < unat (sch_start sc) + unat (sch_duration sc) \<and>
      unat (sch_total sc) * unat (sch_duration sc) < 2 ^ 128"
  proof -
    have "unat (sch_total sc) * (unat now - unat (sch_start sc)) \<le> unat (sch_total sc) * unat (sch_duration sc)"
      using that by (intro mult_le_mono2) linarith
    with that have "unat (sch_total sc) * (unat now - unat (sch_start sc)) < 2 ^ 128" by (meson le_less_trans)
    then have "min (unat (sch_total sc) * (unat now - unat (sch_start sc))) (2 ^ 128 - 1) =
        unat (sch_total sc) * (unat now - unat (sch_start sc))"
      by (intro min.absorb1) simp
    moreover have "\<not> sch_duration sc \<le> saturating_sub now (sch_start sc)" using el that by linarith
    ultimately show ?thesis
      using that assms(1) cl by (simp add: vested_def Let_def linear_part unat_saturating_sub)
  qed
qed

theorem vesting_curve_witness: "vested demo_schedule 9 = 0 \<and> vested demo_schedule 100 = 1000 \<and> unat (vested demo_schedule 55) = 550"
  using vesting_curve [of demo_schedule 9 9] vesting_curve [of demo_schedule 100 100] vesting_curve [of demo_schedule 55 55]
  by (simp add: demo_schedule_def)

text \<open>
  Vesting conserves money. For every token, what circulates plus what the schedules still hold is the same
  after every successful vesting command, and no schedule releases more than its total.
\<close>

theorem vesting_conserves:
  assumes "vesting_ext_ok X" and "schedules_ok X s" and "vesting_dispatch X cmd c s = (Ok out, s')"
  shows "schedules_ok X s' \<and>
    (\<forall>tid. circulating X s' tid + vesting_locked X s' tid = circulating X s tid + vesting_locked X s tid)"
proof -
  have "vesting_conserved X s s'"
    using assms(3) vesting_create_conserves [OF assms(1,2)] vesting_release_conserves [OF assms(1,2)]
      vesting_revoke_conserves [OF assms(1,2)]
    by (cases c) (auto simp: vesting_dispatch_def)
  then show ?thesis by (simp add: vesting_conserved_def)
qed

lemma demo_release_runs:
  "\<exists>out s'. vesting_dispatch ref_vesting_ext demo_command (VcRelease (Hash [])) vesting_ledger = (Ok out, s')"
  by (simp add: vesting_dispatch_def vesting_release_Ok [OF ref_vesting_ext_ok] demo_vested(2)) (simp add: demo_schedule_def)

theorem vesting_conserves_witness:
  "\<exists>out s'. vesting_dispatch ref_vesting_ext demo_command (VcRelease (Hash [])) vesting_ledger = (Ok out, s') \<and>
    schedules_ok ref_vesting_ext s'"
  using demo_release_runs vesting_conserves [OF ref_vesting_ext_ok vesting_ledger_cells(4)] by blast

text \<open>
  A revocation takes back only what has not vested. It succeeds only for the funder of a revocable schedule;
  the beneficiary receives exactly the vested part not yet released, the funder the rest of the total, and
  the schedule is closed: no later command on it succeeds.
\<close>

theorem vesting_revoke_splits:
  assumes "vesting_ext_ok X" and "schedules_ok X s" and "schedule_of X s i = Some sc"
    and "sch_beneficiary sc \<noteq> sch_funder sc" and "vesting_revoke X cmd i s = (Ok out, s')"
  shows "sch_revocable sc \<and> cmd_submitter cmd = sch_funder sc \<and>
    (let t = sch_token_id sc; v = max (unat (sch_released sc)) (unat (vested sc (vesting_now X s))) in
     unat (balance X s' t (sch_beneficiary sc)) = unat (balance X s t (sch_beneficiary sc)) + (v - unat (sch_released sc)) \<and>
     unat (balance X s' t (sch_funder sc)) = unat (balance X s t (sch_funder sc)) + (unat (sch_total sc) - v)) \<and>
    (\<forall>cmd' r s''. vesting_release X cmd' i s' \<noteq> (Ok r, s'') \<and> vesting_revoke X cmd' i s' \<noteq> (Ok r, s''))"
proof -
  note k = vesting_ext_okD(2) [OF assms(1)]
  let ?now = "vesting_now X s" and ?t = "sch_token_id sc"
  let ?owed = "releasable sc ?now" and ?refund = "saturating_sub (sch_total sc) (sch_released (settled sc ?now))"
  let ?s1 = "paid X ?t (sch_beneficiary sc) ?owed s"
  have r: "sch_revocable sc" "sch_funder sc = cmd_submitter cmd" "pay_fits X ?t (sch_beneficiary sc) ?owed s"
    "pay_fits X ?t (sch_funder sc) ?refund ?s1"
    "s' = put_sched X i ((settled sc ?now)\<lparr>sch_revoked := True\<rparr>) (paid X ?t (sch_funder sc) ?refund ?s1)"
    using vesting_revoke_Ok [OF assms(1,5)] unfolding Let_def assms(3) by auto
  have "sch_released sc \<le> sch_total sc" using assms(2,3) by (simp add: schedules_ok_def)
  note rel = settled_released [OF this, of ?now]
  have closed: "schedule_of X s' i = Some ((settled sc ?now)\<lparr>sch_revoked := True\<rparr>)"
    by (simp add: r(5) vesting_cells assms(1))
  have "vesting_release X cmd' i s' \<noteq> (Ok q, s'')" for cmd' q s''
    by (simp add: vesting_release_Ok [OF assms(1)] closed)
  moreover have "vesting_revoke X cmd' i s' \<noteq> (Ok q, s'')" for cmd' q s''
    using vesting_revoke_Ok [OF assms(1), of cmd' i s' q s''] by (auto simp: closed)
  moreover have "unat (balance X s' ?t (sch_beneficiary sc)) = unat (balance X s ?t (sch_beneficiary sc)) + unat ?owed"
    using r(3) assms(4) k by (auto simp: r(5) vesting_cells pay_fits_def unat_word_ariths)
  moreover have "unat (balance X s' ?t (sch_funder sc)) = unat (balance X s ?t (sch_funder sc)) + unat ?refund"
    using r(4) assms(4) k by (auto simp: r(5) vesting_cells pay_fits_def unat_word_ariths)
  ultimately show ?thesis
    using r(1,2) rel by (simp add: Let_def unat_releasable unat_saturating_sub)
qed

lemma demo_revoke_runs: "\<exists>out s'. vesting_revoke ref_vesting_ext demo_command (Hash []) vesting_ledger = (Ok out, s')"
proof -
  note X = vesting_ext_okD(1,2) [OF ref_vesting_ext_ok]
  have load: "sched_load ref_vesting_ext (Hash []) vesting_ledger = (Ok demo_schedule, vesting_ledger)"
    by (simp add: sched_load_Ok_iff)
  have c: "credit ref_vesting_ext t w a s = (Ok (), credited ref_vesting_ext t w a s)"
    if "unat (balance ref_vesting_ext s t w) + unat a < 2 ^ 128" for t w a s
    using that by (simp add: credit_credited X)
  have owed: "saturating_sub (vested demo_schedule 50) (sch_released demo_schedule) = 400"
    using demo_vested(2) by (simp add: releasable_def)
  show ?thesis
    unfolding vesting_revoke_def Let_def
    by (simp add: load andthen_simps owed c) (simp add: demo_schedule_def c vesting_cells X andthen_simps saturating_add_def
        saturating_sub_def sched_save_ok [OF ref_vesting_ext_ok])
qed

theorem vesting_revoke_splits_witness:
  "\<exists>out s'. vesting_revoke ref_vesting_ext demo_command (Hash []) vesting_ledger = (Ok out, s') \<and>
    unat (balance ref_vesting_ext s' (Hash []) (PartyId ''bob'')) = 400 \<and>
    unat (balance ref_vesting_ext s' (Hash []) (PartyId ''alice'')) = 500"
proof -
  obtain out s' where run: "vesting_revoke ref_vesting_ext demo_command (Hash []) vesting_ledger = (Ok out, s')"
    using demo_revoke_runs by blast
  have ne: "sch_beneficiary demo_schedule \<noteq> sch_funder demo_schedule"
    and sc: "schedule_of ref_vesting_ext vesting_ledger (Hash []) = Some demo_schedule"
    by (simp_all add: demo_schedule_def)
  show ?thesis
    using run vesting_revoke_splits [OF ref_vesting_ext_ok vesting_ledger_cells(4) sc ne run]
    by (simp add: Let_def) (simp add: demo_schedule_def)
qed

text \<open>
  A schedule with duration zero, which \<open>Create\<close> accepts, is vested as a whole even before its start.
\<close>

theorem zero_duration_vests_at_once:
  assumes "sch_duration sc = 0"
  shows "vested sc now = sch_total sc"
  using assms by (simp add: vested_def)

theorem zero_duration_vests_at_once_witness:
  "vested (demo_schedule\<lparr>sch_duration := 0, sch_start := 1000, sch_cliff := 0\<rparr>) 0 = 1000"
  using zero_duration_vests_at_once [of "demo_schedule\<lparr>sch_duration := 0, sch_start := 1000, sch_cliff := 0\<rparr>" 0] by (simp add: demo_schedule_def)

end
