(* ===== verification/Contract_VM.thy ===== *)
theory Contract_VM
  imports Prelude
begin

text \<open>
  \<open>prisms/contract/src/vm.rs\<close>: PhotonVM, the stack machine of the contract prism. The machine state is
  a record; the operand stack is a list with the top at its head (the source pushes at the end of a
  vector). One turn of the loop of \<open>run\<close> is \<open>vm_step\<close>; the loop itself is a partial function whose value
  \<open>None\<close> would mean that it never returns. \<open>usize\<close> is unbounded, since program counters stay below
  the code length.
\<close>

section \<open>Data\<close>

datatype vm_error =
    StackUnderflow
  | StackOverflow
  | OutOfGas u64 u64
  | InvalidOpcode u8
  | InvalidJump nat
  | DivByZero
  | Reverted string
  | PcOutOfBounds
  | TruncatedOperand

abbreviation (input) "STOP \<equiv> (0x00 :: u8)"
abbreviation (input) "ADD \<equiv> (0x01 :: u8)"
abbreviation (input) "SUB \<equiv> (0x02 :: u8)"
abbreviation (input) "MUL \<equiv> (0x03 :: u8)"
abbreviation (input) "DIV \<equiv> (0x04 :: u8)"
abbreviation (input) "MOD \<equiv> (0x05 :: u8)"
abbreviation (input) "LT \<equiv> (0x10 :: u8)"
abbreviation (input) "GT \<equiv> (0x11 :: u8)"
abbreviation (input) "EQ \<equiv> (0x12 :: u8)"
abbreviation (input) "ISZERO \<equiv> (0x13 :: u8)"
abbreviation (input) "OP_AND \<equiv> (0x16 :: u8)"
abbreviation (input) "OP_OR \<equiv> (0x17 :: u8)"
abbreviation (input) "OP_NOT \<equiv> (0x19 :: u8)"
abbreviation (input) "POP \<equiv> (0x50 :: u8)"
abbreviation (input) "DUP \<equiv> (0x51 :: u8)"
abbreviation (input) "SWAP \<equiv> (0x52 :: u8)"
abbreviation (input) "SLOAD \<equiv> (0x54 :: u8)"
abbreviation (input) "SSTORE \<equiv> (0x55 :: u8)"
abbreviation (input) "JUMP \<equiv> (0x56 :: u8)"
abbreviation (input) "JUMPI \<equiv> (0x57 :: u8)"
abbreviation (input) "JUMPDEST \<equiv> (0x5b :: u8)"
abbreviation (input) "PUSH8 \<equiv> (0x60 :: u8)"
abbreviation (input) "CALLER \<equiv> (0x33 :: u8)"
abbreviation (input) "CALLVALUE \<equiv> (0x34 :: u8)"
abbreviation (input) "ARG \<equiv> (0x35 :: u8)"
abbreviation (input) "LOG \<equiv> (0xa0 :: u8)"
abbreviation (input) "RETURN \<equiv> (0xf3 :: u8)"
abbreviation (input) "REVERT \<equiv> (0xfd :: u8)"

abbreviation (input) "MAX_STACK \<equiv> (1024 :: nat)"

record exec_context =
  caller_hash :: u64
  call_value :: u64
  call_args :: "u64 list"

record exec_result =
  return_value :: "u64 option"
  gas_used :: u64
  exec_logs :: "u64 list"
  exec_reverted :: bool

record vm =
  vm_stack :: "u64 list"
  vm_pc :: nat
  vm_gas :: u64
  vm_storage :: "(u64, u64) fmap"
  vm_logs :: "u64 list"

type_synonym 'a vm_act = "(vm, vm_error, 'a) act"

definition vm_new :: "(u64, u64) fmap \<Rightarrow> vm" where
  "vm_new storage = \<lparr>vm_stack = [], vm_pc = 0, vm_gas = 0, vm_storage = storage, vm_logs = []\<rparr>"

definition jumpdests :: "bytes \<Rightarrow> nat list" where
  "jumpdests code = map fst (filter (\<lambda>(_, b). b = JUMPDEST) (enumerate 0 code))"

section \<open>Operations\<close>

definition opcode_gas :: "u8 \<Rightarrow> u64" where
  "opcode_gas opc =
     (if opc = STOP \<or> opc = JUMPDEST then 1
      else if opc = SLOAD then 200
      else if opc = SSTORE then 5000
      else if opc = PUSH8 \<or> opc = DUP \<or> opc = SWAP \<or> opc = POP then 3
      else if opc = JUMP \<or> opc = JUMPI then 8
      else if opc = LOG then 375
      else 5)"

definition charge :: "u64 \<Rightarrow> u64 \<Rightarrow> unit vm_act" where
  "charge limit amount =
     andthen (modify (\<lambda>m. m\<lparr>vm_gas := vm_gas m + amount\<rparr>)) (\<lambda>_.
     andthen (gets vm_gas) (\<lambda>g. ensure (\<not> g > limit) (OutOfGas g limit)))"

definition vm_push :: "u64 \<Rightarrow> unit vm_act" where
  "vm_push v =
     andthen (gets (\<lambda>m. length (vm_stack m))) (\<lambda>n.
     andthen (ensure (\<not> n \<ge> MAX_STACK) StackOverflow) (\<lambda>_.
     modify (\<lambda>m. m\<lparr>vm_stack := v # vm_stack m\<rparr>)))"

definition vm_pop :: "u64 vm_act" where
  "vm_pop m = (case vm_stack m of [] \<Rightarrow> (Err StackUnderflow, m) | v # st \<Rightarrow> (Ok v, m\<lparr>vm_stack := st\<rparr>))"

definition vm_pop2 :: "(u64 \<times> u64) vm_act" where
  "vm_pop2 = andthen vm_pop (\<lambda>b. andthen vm_pop (\<lambda>a. ret (a, b)))"

definition jump_to :: "bytes \<Rightarrow> nat \<Rightarrow> unit vm_act" where
  "jump_to code dest =
     andthen (ensure (dest \<in> set (jumpdests code)) (InvalidJump dest)) (\<lambda>_.
     modify (\<lambda>m. m\<lparr>vm_pc := dest\<rparr>))"

definition finish :: "u64 option \<Rightarrow> bool \<Rightarrow> vm \<Rightarrow> exec_result" where
  "finish r reverted m = \<lparr>return_value = r, gas_used = vm_gas m, exec_logs = vm_logs m, exec_reverted = reverted\<rparr>"

text \<open>How an instruction ends: the loop advances the counter, jumps, or returns.\<close>

datatype flow = Advance | Goto | Halt exec_result

definition binop :: "(u64 \<Rightarrow> u64 \<Rightarrow> u64) \<Rightarrow> flow vm_act" where
  "binop f = andthen vm_pop2 (\<lambda>(a, b). andthen (vm_push (f a b)) (\<lambda>_. ret Advance))"

definition divop :: "(u64 \<Rightarrow> u64 \<Rightarrow> u64) \<Rightarrow> flow vm_act" where
  "divop f = andthen vm_pop2 (\<lambda>(a, b).
     andthen (ensure (b \<noteq> 0) DivByZero) (\<lambda>_.
     andthen (vm_push (f a b)) (\<lambda>_. ret Advance)))"

definition unop :: "(u64 \<Rightarrow> u64) \<Rightarrow> flow vm_act" where
  "unop f = andthen vm_pop (\<lambda>a. andthen (vm_push (f a)) (\<lambda>_. ret Advance))"

definition bit_of :: "bool \<Rightarrow> u64" where
  "bit_of b = (if b then 1 else 0)"

definition vm_swap :: "unit vm_act" where
  "vm_swap m = (case vm_stack m of
      x # y # rest \<Rightarrow> (Ok (), m\<lparr>vm_stack := y # x # rest\<rparr>)
    | _ \<Rightarrow> (Err StackUnderflow, m))"

definition exec_stack_op :: "bytes \<Rightarrow> u8 \<Rightarrow> flow vm_act" where
  "exec_stack_op code opc =
     (if opc = POP then andthen vm_pop (\<lambda>_. ret Advance)
      else if opc = DUP then
        andthen (gets vm_stack) (\<lambda>st. case st of
          [] \<Rightarrow> raise StackUnderflow
        | x # _ \<Rightarrow> andthen (vm_push x) (\<lambda>_. ret Advance))
      else if opc = SWAP then
        andthen vm_swap (\<lambda>_. ret Advance)
      else
        andthen (gets vm_pc) (\<lambda>pc.
        let start = pc + 1; stop = start + 8 in
        andthen (ensure (\<not> stop > length code) TruncatedOperand) (\<lambda>_.
        andthen (vm_push (u64_from_be_bytes (take 8 (drop start code)))) (\<lambda>_.
        andthen (modify (\<lambda>m. m\<lparr>vm_pc := stop\<rparr>)) (\<lambda>_. ret Goto)))))"

definition exec_op :: "bytes \<Rightarrow> exec_context \<Rightarrow> u8 \<Rightarrow> flow vm_act" where
  "exec_op code ctx opc =
     (if opc = STOP then andthen (gets (finish None False)) (\<lambda>r. ret (Halt r))
      else if opc = ADD then binop (\<lambda>a b. a + b)
      else if opc = SUB then binop (\<lambda>a b. a - b)
      else if opc = MUL then binop (\<lambda>a b. a * b)
      else if opc = DIV then divop (\<lambda>a b. a div b)
      else if opc = MOD then divop (\<lambda>a b. a mod b)
      else if opc = LT then binop (\<lambda>a b. bit_of (a < b))
      else if opc = GT then binop (\<lambda>a b. bit_of (a > b))
      else if opc = EQ then binop (\<lambda>a b. bit_of (a = b))
      else if opc = ISZERO then unop (\<lambda>a. bit_of (a = 0))
      else if opc = OP_AND then binop (\<lambda>a b. and a b)
      else if opc = OP_OR then binop (\<lambda>a b. or a b)
      else if opc = OP_NOT then unop (\<lambda>a. not a)
      else if opc = POP \<or> opc = DUP \<or> opc = SWAP \<or> opc = PUSH8 then exec_stack_op code opc
      else if opc = SLOAD then
        andthen vm_pop (\<lambda>key.
        andthen (gets (\<lambda>m. case fmlookup (vm_storage m) key of None \<Rightarrow> 0 | Some v \<Rightarrow> v)) (\<lambda>v.
        andthen (vm_push v) (\<lambda>_. ret Advance)))
      else if opc = SSTORE then
        andthen vm_pop (\<lambda>key.
        andthen vm_pop (\<lambda>val.
        andthen (modify (\<lambda>m. m\<lparr>vm_storage := fmupd key val (vm_storage m)\<rparr>)) (\<lambda>_. ret Advance)))
      else if opc = JUMP then
        andthen vm_pop (\<lambda>dest. andthen (jump_to code (unat dest)) (\<lambda>_. ret Goto))
      else if opc = JUMPI then
        andthen vm_pop (\<lambda>dest.
        andthen vm_pop (\<lambda>cond.
        if cond \<noteq> 0 then andthen (jump_to code (unat dest)) (\<lambda>_. ret Goto) else ret Advance))
      else if opc = JUMPDEST then ret Advance
      else if opc = CALLER then andthen (vm_push (caller_hash ctx)) (\<lambda>_. ret Advance)
      else if opc = CALLVALUE then andthen (vm_push (call_value ctx)) (\<lambda>_. ret Advance)
      else if opc = ARG then
        andthen vm_pop (\<lambda>idx.
        andthen (vm_push (if unat idx < length (call_args ctx) then call_args ctx ! unat idx else 0)) (\<lambda>_. ret Advance))
      else if opc = LOG then
        andthen vm_pop (\<lambda>v. andthen (modify (\<lambda>m. m\<lparr>vm_logs := vm_logs m @ [v]\<rparr>)) (\<lambda>_. ret Advance))
      else if opc = RETURN then
        andthen vm_pop (\<lambda>v. andthen (gets (finish (Some v) False)) (\<lambda>r. ret (Halt r)))
      else if opc = REVERT then raise (Reverted ''REVERT opcode'')
      else raise (InvalidOpcode opc))"

text \<open>One turn of the loop: \<open>None\<close> to go on, \<open>Some\<close> to return.\<close>

definition vm_step :: "bytes \<Rightarrow> exec_context \<Rightarrow> u64 \<Rightarrow> exec_result option vm_act" where
  "vm_step code ctx limit =
     andthen (gets vm_pc) (\<lambda>pc.
     if pc \<ge> length code then andthen (gets (finish None False)) (\<lambda>r. ret (Some r))
     else
       let opc = code ! pc in
       andthen (charge limit (opcode_gas opc)) (\<lambda>_.
       andthen (exec_op code ctx opc) (\<lambda>f. case f of
         Halt r \<Rightarrow> ret (Some r)
       | Goto \<Rightarrow> ret None
       | Advance \<Rightarrow> andthen (modify (\<lambda>m. m\<lparr>vm_pc := vm_pc m + 1\<rparr>)) (\<lambda>_. ret None))))"

partial_function (option) vm_run ::
  "bytes \<Rightarrow> exec_context \<Rightarrow> u64 \<Rightarrow> vm \<Rightarrow> ((vm_error, exec_result) outcome \<times> vm) option" where
  "vm_run code ctx limit m =
     (case vm_step code ctx limit m of
        (Ok None, m') \<Rightarrow> vm_run code ctx limit m'
      | (Ok (Some r), m') \<Rightarrow> Some (Ok r, m')
      | (Err e, m') \<Rightarrow> Some (Err e, m')
      | (Panic, m') \<Rightarrow> Some (Panic, m'))"

section \<open>Lemmas\<close>

lemma jumpdests_iff: "d \<in> set (jumpdests code) \<longleftrightarrow> d < length code \<and> code ! d = JUMPDEST"
  by (auto simp: jumpdests_def in_set_enumerate_eq image_iff)

subsection \<open>What instructions keep\<close>

lemma keeps_vm_push [keeps_intros]:
  "(\<And>m. P m \<Longrightarrow> length (vm_stack m) < 1024 \<Longrightarrow> P (m\<lparr>vm_stack := v # vm_stack m\<rparr>)) \<Longrightarrow> keeps P (vm_push v)"
  by (auto simp: keeps_def vm_push_def)

lemma keeps_vm_pop [keeps_intros]:
  "(\<And>m v st. P m \<Longrightarrow> vm_stack m = v # st \<Longrightarrow> P (m\<lparr>vm_stack := st\<rparr>)) \<Longrightarrow> keeps P vm_pop"
  by (auto simp: keeps_def vm_pop_def split: list.splits)

lemma keeps_vm_swap [keeps_intros]:
  "(\<And>m x y st. P m \<Longrightarrow> vm_stack m = x # y # st \<Longrightarrow> P (m\<lparr>vm_stack := y # x # st\<rparr>)) \<Longrightarrow> keeps P vm_swap"
  by (auto simp: keeps_def vm_swap_def split: list.splits)

lemma keeps_list [keeps_intros]:
  "keeps P a \<Longrightarrow> (\<And>x xs. keeps P (f x xs)) \<Longrightarrow> keeps P (case st of [] \<Rightarrow> a | x # xs \<Rightarrow> f x xs)"
  by (cases st) auto

lemmas exec_unfold = exec_op_def exec_stack_op_def binop_def divop_def unop_def vm_pop2_def jump_to_def Let_def

lemma exec_op_gas: "keeps (\<lambda>m. vm_gas m = g) (exec_op code ctx opc)"
  unfolding exec_unfold by (intro keeps_intros; simp)

lemma exec_op_stack: "keeps (\<lambda>m. length (vm_stack m) \<le> 1024) (exec_op code ctx opc)"
  unfolding exec_unfold by (intro keeps_intros; simp)

lemma vm_no_panic [no_panic_intros]:
  "no_panic vm_pop m" "no_panic vm_swap m" "no_panic (vm_push v) m" "no_panic (charge l c) m"
  by (auto simp: no_panic_def vm_pop_def vm_swap_def vm_push_def charge_def split: list.splits)

lemma no_panic_list [no_panic_intros]:
  "no_panic a m \<Longrightarrow> (\<And>x xs. no_panic (f x xs) m) \<Longrightarrow> no_panic (case st of [] \<Rightarrow> a | x # xs \<Rightarrow> f x xs) m"
  by (cases st) auto

lemma no_panic_flow [no_panic_intros]:
  "(\<And>r. no_panic (h r) m) \<Longrightarrow> no_panic a m \<Longrightarrow> no_panic g m \<Longrightarrow>
   no_panic (case f of Advance \<Rightarrow> a | Goto \<Rightarrow> g | Halt r \<Rightarrow> h r) m"
  by (cases f) auto

lemma exec_op_no_panic [no_panic_intros]: "no_panic (exec_op code ctx opc) m"
  unfolding exec_unfold by (intro no_panic_intros)

lemma vm_step_no_panic: "no_panic (vm_step code ctx limit) m"
  unfolding vm_step_def Let_def by (intro no_panic_intros)

subsection \<open>What instructions return\<close>

lemma vm_pop_Ok: "vm_pop m = (Ok v, m') \<longleftrightarrow> (\<exists>st. vm_stack m = v # st \<and> m' = m\<lparr>vm_stack := st\<rparr>)"
  by (auto simp: vm_pop_def split: list.splits)

lemma vm_push_Ok: "vm_push v m = (Ok u, m') \<longleftrightarrow> length (vm_stack m) < 1024 \<and> m' = m\<lparr>vm_stack := v # vm_stack m\<rparr>"
  by (auto simp: vm_push_def ok_iffs)

lemma vm_pop2_Ok: "vm_pop2 m = (Ok (a, b), m') \<longleftrightarrow> (\<exists>st. vm_stack m = b # a # st \<and> m' = m\<lparr>vm_stack := st\<rparr>)"
  by (auto simp: vm_pop2_def ok_iffs vm_pop_Ok)

lemma vm_swap_Ok: "vm_swap m = (Ok u, m') \<longleftrightarrow> (\<exists>x y st. vm_stack m = x # y # st \<and> m' = m\<lparr>vm_stack := y # x # st\<rparr>)"
  by (auto simp: vm_swap_def split: list.splits)

lemma arith_flow:
  "binop f m = (Ok fl, m') \<Longrightarrow> fl = Advance \<and> vm_pc m' = vm_pc m"
  "divop f m = (Ok fl, m') \<Longrightarrow> fl = Advance \<and> vm_pc m' = vm_pc m"
  "unop g m = (Ok fl, m') \<Longrightarrow> fl = Advance \<and> vm_pc m' = vm_pc m"
  by (auto simp: binop_def divop_def unop_def ok_iffs vm_pop2_Ok vm_pop_Ok vm_push_Ok split: prod.splits)

lemma stack_op_flow:
  assumes "exec_stack_op code opc m = (Ok fl, m')" and "opc \<in> {POP, DUP, SWAP, PUSH8}"
  shows "fl = Advance \<and> vm_pc m' = vm_pc m \<or>
    fl = Goto \<and> opc = PUSH8 \<and> vm_pc m' = vm_pc m + 9 \<and> vm_pc m' \<le> length code"
  using assms
  by (auto simp: exec_stack_op_def ok_iffs vm_pop_Ok vm_push_Ok vm_swap_Ok Let_def split: list.splits)

lemma jump_flow:
  "jump_to code d m = (Ok u, m') \<longleftrightarrow> d < length code \<and> code ! d = JUMPDEST \<and> m' = m\<lparr>vm_pc := d\<rparr>"
  by (auto simp: jump_to_def ok_iffs jumpdests_iff)

text \<open>How each instruction moves the program counter, and what a halting one reports.\<close>

lemma exec_op_flow:
  assumes "exec_op code ctx opc m = (Ok fl, m')"
  shows "case fl of
      Advance \<Rightarrow> vm_pc m' = vm_pc m
    | Goto \<Rightarrow> opc = PUSH8 \<and> vm_pc m' = vm_pc m + 9 \<and> vm_pc m' \<le> length code \<or>
        opc \<in> {JUMP, JUMPI} \<and> vm_pc m' < length code \<and> code ! vm_pc m' = JUMPDEST
    | Halt r \<Rightarrow> gas_used r = vm_gas m' \<and> exec_logs r = vm_logs m' \<and> \<not> exec_reverted r"
proof (cases "opc \<in> {POP, DUP, SWAP, PUSH8}")
  case True
  then have "exec_stack_op code opc m = (Ok fl, m')"
    using assms by (auto simp: exec_op_def)
  from stack_op_flow [OF this True] show ?thesis by auto
next
  case False
  with assms show ?thesis
    unfolding exec_op_def
    by (auto simp: ok_iffs vm_pop_Ok vm_push_Ok jump_flow finish_def dest!: arith_flow split: if_splits)
qed

subsection \<open>Steps and runs\<close>

lemma opcode_gas_bounds: "0 < unat (opcode_gas opc)" "unat (opcode_gas opc) \<le> 5000"
  by (simp_all add: opcode_gas_def)

lemma charge_run:
  "charge limit c m = (let m1 = m\<lparr>vm_gas := vm_gas m + c\<rparr> in
     if vm_gas m1 > limit then (Err (OutOfGas (vm_gas m1) limit), m1) else (Ok (), m1))"
  by (simp add: charge_def Let_def)

lemma vm_step_end:
  "length code \<le> vm_pc m \<Longrightarrow> vm_step code ctx limit m = (Ok (Some (finish None False m)), m)"
  by (simp add: vm_step_def)

lemma vm_step_Ok:
  assumes "vm_step code ctx limit m = (Ok res, m')" and "vm_pc m < length code"
  defines "opc \<equiv> code ! vm_pc m"
  shows "vm_gas m' = vm_gas m + opcode_gas opc \<and> vm_gas m' \<le> limit \<and>
    (case res of
       Some r \<Rightarrow> gas_used r = vm_gas m' \<and> exec_logs r = vm_logs m' \<and> \<not> exec_reverted r
     | None \<Rightarrow> vm_pc m' = vm_pc m + 1 \<or>
         opc = PUSH8 \<and> vm_pc m' = vm_pc m + 9 \<and> vm_pc m' \<le> length code \<or>
         opc \<in> {JUMP, JUMPI} \<and> vm_pc m' < length code \<and> code ! vm_pc m' = JUMPDEST)"
proof -
  let ?m1 = "m\<lparr>vm_gas := vm_gas m + opcode_gas opc\<rparr>"
  obtain fl m2 where ex: "exec_op code ctx opc ?m1 = (Ok fl, m2)" and le: "vm_gas m + opcode_gas opc \<le> limit"
    and cont: "((case fl of Halt r \<Rightarrow> ret (Some r) | Goto \<Rightarrow> ret None
       | Advance \<Rightarrow> andthen (modify (\<lambda>m. m\<lparr>vm_pc := vm_pc m + 1\<rparr>)) (\<lambda>_. ret None)) :: exec_result option vm_act) m2 = (Ok res, m')"
    using assms(1,2) unfolding vm_step_def opc_def
    by (auto simp: andthen_Ok_iff charge_run Let_def not_less simp del: One_nat_def add_Suc_right split: if_splits)
  have fin: "(res, m') = (case fl of Halt r \<Rightarrow> (Some r, m2) | Goto \<Rightarrow> (None, m2)
       | Advance \<Rightarrow> (None, m2\<lparr>vm_pc := vm_pc m2 + 1\<rparr>))"
    using cont by (cases fl) auto
  have "vm_gas m2 = vm_gas m + opcode_gas opc"
    using keepsD [OF exec_op_gas [where g = "vm_gas m + opcode_gas opc"] _ ex] by simp
  then show ?thesis
    using exec_op_flow [OF ex] fin le by (auto split: flow.splits)
qed

lemma vm_step_stack:
  assumes "length (vm_stack m) \<le> 1024" and "vm_step code ctx limit m = (r, m')"
  shows "length (vm_stack m') \<le> 1024"
proof -
  have "keeps (\<lambda>m. length (vm_stack m) \<le> 1024) (vm_step code ctx limit)"
  proof -
    have fl: "keeps P (case f of Advance \<Rightarrow> a | Goto \<Rightarrow> g | Halt r \<Rightarrow> h r)"
      if "keeps P a" "keeps P g" "\<And>r. keeps P (h r)" for P :: "vm \<Rightarrow> bool" and a g h f
      using that by (cases f) auto
    show ?thesis
      unfolding vm_step_def charge_def Let_def
      by (intro keeps_intros exec_op_stack fl; simp)
  qed
  from keepsD [OF this assms] show ?thesis .
qed

text \<open>Every turn costs gas, so the gas left is a measure of the loop.\<close>

lemma vm_run_result:
  assumes "unat limit + 5000 < 2 ^ 64" and "vm_gas m \<le> limit" and "length (vm_stack m) \<le> 1024"
  shows "\<exists>r m'. vm_run code ctx limit m = Some (r, m') \<and> r \<noteq> Panic \<and> length (vm_stack m') \<le> 1024 \<and>
    (\<forall>x. r = Ok x \<longrightarrow> gas_used x = vm_gas m' \<and> gas_used x \<le> limit \<and> exec_logs x = vm_logs m' \<and> \<not> exec_reverted x)"
  using assms(2,3)
proof (induction "unat limit - unat (vm_gas m)" arbitrary: m rule: less_induct)
  case less
  obtain res m1 where step: "vm_step code ctx limit m = (res, m1)" by force
  have st: "length (vm_stack m1) \<le> 1024" using vm_step_stack [OF less.prems(2) step] .
  have np: "res \<noteq> Panic" using vm_step_no_panic [of code ctx limit m] step by (simp add: no_panic_def)
  show ?case
  proof (cases "vm_pc m < length code")
    case False
    then show ?thesis
      using less.prems vm_step_end [of code m ctx limit] by (simp add: vm_run.simps finish_def)
  next
    case True
    show ?thesis
    proof (cases res)
      case (Ok o1)
      note ok = vm_step_Ok [OF step [unfolded Ok] True]
      show ?thesis
      proof (cases o1)
        case None
        let ?c = "opcode_gas (code ! vm_pc m)"
        have "unat (vm_gas m) + unat ?c < 2 ^ 64"
          using less.prems(1) assms(1) opcode_gas_bounds(2) [of "code ! vm_pc m"] by (simp add: word_le_nat_alt)
        then have "unat (vm_gas m1) = unat (vm_gas m) + unat ?c"
          using ok by (simp add: unat_word_ariths(1))
        moreover have "unat (vm_gas m1) \<le> unat limit" using ok unfolding word_le_nat_alt by blast
        ultimately have "unat limit - unat (vm_gas m1) < unat limit - unat (vm_gas m)"
          using opcode_gas_bounds(1) [of "code ! vm_pc m"] by linarith
        moreover have "vm_gas m1 \<le> limit" using ok by blast
        ultimately show ?thesis
          using less.hyps [of m1] st by (subst vm_run.simps) (simp add: step Ok None)
      next
        case (Some r)
        then show ?thesis using ok st by (subst vm_run.simps) (auto simp: step Ok)
      qed
    qed (use st np in \<open>simp_all add: vm_run.simps [of code ctx limit m] step\<close>)
  qed
qed

section \<open>Properties\<close>

text \<open>
  C27. PhotonVM always stops. With a gas limit that leaves room for one more instruction in \<open>u64\<close>,
  running any code on any storage returns, without panicking; the stack never exceeds its bound; and
  a successful run reports the gas it was charged, which does not exceed the limit, and the logs of
  the machine.
\<close>

theorem vm_run_terminates:
  assumes "unat limit + 5000 < 2 ^ 64"
  shows "\<exists>r m'. vm_run code ctx limit (vm_new storage) = Some (r, m') \<and> r \<noteq> Panic \<and> length (vm_stack m') \<le> 1024 \<and>
    (\<forall>x. r = Ok x \<longrightarrow> gas_used x = vm_gas m' \<and> gas_used x \<le> limit \<and> exec_logs x = vm_logs m' \<and> \<not> exec_reverted x)"
  by (rule vm_run_result [OF assms]) (simp_all add: vm_new_def)

theorem vm_run_terminates_witness:
  "\<exists>r m'. vm_run [JUMPDEST, PUSH8, 0, 0, 0, 0, 0, 0, 0, 0, JUMP] \<lparr>caller_hash = 0, call_value = 0, call_args = []\<rparr>
      10000000 (vm_new fmempty) = Some (r, m') \<and> r \<noteq> Panic"
  using vm_run_terminates [of 10000000 "[JUMPDEST, PUSH8, 0, 0, 0, 0, 0, 0, 0, 0, JUMP]"
      "\<lparr>caller_hash = 0, call_value = 0, call_args = []\<rparr>" fmempty] by auto

text \<open>
  Control flow of PhotonVM. When the loop goes on after an instruction, the program counter has
  moved to the next byte, past the eight operand bytes of a \<open>PUSH8\<close>, or, after a jump, to a byte
  of the code that is \<open>JUMPDEST\<close>; and the instruction was paid for within the limit.
\<close>

theorem vm_control_flow:
  assumes "vm_step code ctx limit m = (Ok None, m')"
  shows "vm_pc m < length code \<and> vm_gas m' = vm_gas m + opcode_gas (code ! vm_pc m) \<and> vm_gas m' \<le> limit \<and>
    (vm_pc m' = vm_pc m + 1 \<or>
     code ! vm_pc m = PUSH8 \<and> vm_pc m' = vm_pc m + 9 \<and> vm_pc m' \<le> length code \<or>
     code ! vm_pc m \<in> {JUMP, JUMPI} \<and> vm_pc m' < length code \<and> code ! vm_pc m' = JUMPDEST)"
proof -
  have pc: "vm_pc m < length code"
  proof (rule ccontr)
    assume "\<not> vm_pc m < length code"
    with assms vm_step_end [of code m ctx limit] show False by simp
  qed
  show ?thesis using pc vm_step_Ok [OF assms pc] unfolding option.case by blast
qed

theorem vm_control_flow_witness:
  "let code = [JUMPDEST]; ctx = \<lparr>caller_hash = 0, call_value = 0, call_args = []\<rparr>; m = vm_new fmempty in
   \<exists>m'. vm_step code ctx 10 m = (Ok None, m') \<and> vm_gas m' = 1 \<and> vm_pc m' = 1"
proof -
  let ?ctx = "\<lparr>caller_hash = 0, call_value = 0, call_args = []\<rparr>"
  have run: "vm_step [JUMPDEST] ?ctx 10 (vm_new fmempty) = (Ok None, (vm_new fmempty)\<lparr>vm_gas := 1, vm_pc := 1\<rparr>)"
    by (simp add: vm_step_def vm_new_def charge_run opcode_gas_def exec_op_def Let_def andthen_def)
  show ?thesis
    using vm_control_flow [OF run] run by (simp add: opcode_gas_def)
qed

end
