(* ===== verification/Contract.thy ===== *)
theory Contract
  imports Kernel_Cascade Contract_VM
begin

text \<open>
  \<open>prisms/contract/src/lib.rs\<close>: deploying and calling PhotonVM contracts. The storage of a contract is a
  \<open>HashMap\<close>, whose iteration order the standard library leaves unspecified and randomises per map; it is
  a parameter, since the order reaches the serialised bytes.
\<close>

section \<open>Data\<close>

record contract_meta =
  cm_address :: hash
  cm_deployer :: party_id
  cm_code :: bytes
  cm_code_size :: nat

datatype contract_command =
    CcDeploy bytes
  | CcCall hash "u64 list" u64 u64

datatype contract_event =
    CeDeployed hash nat
  | CeCalled hash "u64 option" u64 "u64 list" bool

text \<open>
  \<open>hash_order\<close> is the iteration order of the \<open>HashMap\<close> that holds a contract's storage, as a function of its content. In the source the order is random
  for every map, so results for one \<open>hash_order\<close> are results about one run; \<open>contract_storage_order_matters\<close> compares two orders.
\<close>

record contract_ext = kernel_ext +
  js_contract_meta :: "contract_meta codec"
  js_storage :: "(u64 \<times> u64) list codec"
  js_contract_command :: "contract_command codec"
  js_contract_event :: "contract_event codec"
  hash_order :: "(u64, u64) fmap \<Rightarrow> (u64 \<times> u64) list"

definition order_ok :: "((u64, u64) fmap \<Rightarrow> (u64 \<times> u64) list) \<Rightarrow> bool" where
  "order_ok f \<longleftrightarrow> (\<forall>m. distinct (map fst (f m)) \<and> (\<forall>k v. (k, v) \<in> set (f m) \<longleftrightarrow> fmlookup m k = Some v))"

definition contract_ext_ok :: "'x contract_ext_scheme \<Rightarrow> bool" where
  "contract_ext_ok X \<longleftrightarrow> kernel_ext_ok X \<and> codec_ok (js_contract_meta X) \<and> codec_ok (js_storage X) \<and>
     codec_ok (js_contract_command X) \<and> codec_ok (js_contract_event X) \<and> order_ok (hash_order X)"

section \<open>Operations\<close>

abbreviation (input) "MAX_CODE_SIZE \<equiv> (48 * 1024 :: nat)"

definition code_key :: "'x kernel_ext_scheme \<Rightarrow> hash \<Rightarrow> string" where
  "code_key X addr = ''contract/code/'' @ to_hex X addr"

definition store_key :: "'x kernel_ext_scheme \<Rightarrow> hash \<Rightarrow> string" where
  "store_key X addr = ''contract/store/'' @ to_hex X addr"

definition collect_map :: "('k \<times> 'v) list \<Rightarrow> ('k, 'v) fmap" where
  "collect_map kvs = foldl (\<lambda>m (k, v). fmupd k v m) fmempty kvs"

definition load_storage :: "'x contract_ext_scheme \<Rightarrow> state_tree \<Rightarrow> hash \<Rightarrow> (u64, u64) fmap" where
  "load_storage X s addr =
     (case get_json_opt (js_storage X) s (store_key X addr) of None \<Rightarrow> fmempty | Some kvs \<Rightarrow> collect_map kvs)"

definition save_storage ::
  "'x contract_ext_scheme \<Rightarrow> hash \<Rightarrow> (u64, u64) fmap \<Rightarrow> (state_tree, prism_error, unit) act" where
  "save_storage X addr storage = put_json_internal (js_storage X) (store_key X addr) (hash_order X storage)"

definition contract_emit :: "'x contract_ext_scheme \<Rightarrow> command \<Rightarrow> contract_event \<Rightarrow> event" where
  "contract_emit X cmd payload = emit X ''contract'' cmd (to_vec_or_default (js_contract_event X) payload)"

definition contract_deploy ::
  "'x contract_ext_scheme \<Rightarrow> command \<Rightarrow> bytes \<Rightarrow> (state_tree, prism_error, prism_output) act" where
  "contract_deploy X cmd code =
     andthen (ensure (\<not> length code > MAX_CODE_SIZE)
       (LimitExceeded (''code size '' @ decimal (length code) @ '' exceeds max '' @ decimal MAX_CODE_SIZE))) (\<lambda>_.
     let address = commit X ''contract/address''
           [as_bytes (party_name (cmd_submitter cmd)), u64_to_le_bytes (cmd_nonce cmd), code] in
     andthen (put_json_internal (js_contract_meta X) (code_key X address)
       \<lparr>cm_address = address, cm_deployer = cmd_submitter cmd, cm_code = code, cm_code_size = length code\<rparr>) (\<lambda>_.
     ret (single_output (contract_emit X cmd (CeDeployed address (length code)))
       (32000 + of_nat (length code) * 200))))"

definition load_contract :: "'x contract_ext_scheme \<Rightarrow> hash \<Rightarrow> (state_tree, prism_error, contract_meta) act" where
  "load_contract X address =
     get_json_or (js_contract_meta X) (code_key X address) (NotFound (''contract '' @ to_hex X address))"

definition caller_word :: "'x kernel_ext_scheme \<Rightarrow> party_id \<Rightarrow> u64" where
  "caller_word X who = u64_from_be_bytes (take 8 (hash_bytes (id_hash X who)))"

definition contract_settle ::
  "'x contract_ext_scheme \<Rightarrow> command \<Rightarrow> hash \<Rightarrow> u64 \<Rightarrow> ((vm_error, exec_result) outcome \<times> vm) option \<Rightarrow>
   (state_tree, prism_error, prism_output) act" where
  "contract_settle X cmd address capped_gas result = (case result of
       Some (Ok exec, m) \<Rightarrow>
         andthen (save_storage X address (vm_storage m)) (\<lambda>_.
         ret (single_output (contract_emit X cmd
             (CeCalled address (return_value exec) (gas_used exec) (exec_logs exec) False)) (gas_used exec)))
     | Some (Err _, _) \<Rightarrow>
         ret (single_output (contract_emit X cmd (CeCalled address None capped_gas [] True)) 500)
     | Some (Panic, _) \<Rightarrow> panic
     | None \<Rightarrow> panic)"

definition contract_call ::
  "'x contract_ext_scheme \<Rightarrow> command \<Rightarrow> hash \<Rightarrow> u64 list \<Rightarrow> u64 \<Rightarrow> u64 \<Rightarrow>
   (state_tree, prism_error, prism_output) act" where
  "contract_call X cmd address args value gas_limit =
     andthen (load_contract X address) (\<lambda>meta.
     andthen (gets (\<lambda>s. load_storage X s address)) (\<lambda>storage.
     let ctx = \<lparr>caller_hash = caller_word X (cmd_submitter cmd), call_value = value, call_args = args\<rparr>;
         capped_gas = min gas_limit 10000000 in
     contract_settle X cmd address capped_gas (vm_run (cm_code meta) ctx capped_gas (vm_new storage))))"

definition contract_dispatch ::
  "'x contract_ext_scheme \<Rightarrow> command \<Rightarrow> contract_command \<Rightarrow> (state_tree, prism_error, prism_output) act" where
  "contract_dispatch X cmd c = (case c of
      CcDeploy code \<Rightarrow> contract_deploy X cmd code
    | CcCall address args value gas_limit \<Rightarrow> contract_call X cmd address args value gas_limit)"

definition contract_handle :: "'x contract_ext_scheme \<Rightarrow> handler" where
  "contract_handle X cmd =
     andthen (parse_payload (js_contract_command X) (cmd_payload cmd)) (contract_dispatch X cmd)"

definition contract_estimate :: "'x contract_ext_scheme \<Rightarrow> command \<Rightarrow> state_tree \<Rightarrow> u64" where
  "contract_estimate X cmd s =
     (case from_slice (js_contract_command X) (cmd_payload cmd) of
        Inr (CcDeploy code) \<Rightarrow> 32000 + of_nat (length code) * 200
      | Inr (CcCall _ _ _ gas_limit) \<Rightarrow> min gas_limit 100000
      | Inl _ \<Rightarrow> 1000)"

definition contract_prism :: "'x contract_ext_scheme \<Rightarrow> prism" where
  "contract_prism X = \<lparr>pr_info = \<lparr>info_name = ''contract'',
       info_description = ''PhotonVM: deterministic stack-based smart contract execution'',
       info_version = ''1.0''\<rparr>,
     pr_handle = contract_handle X, pr_estimate = contract_estimate X\<rparr>"

definition deploy_command :: "'x contract_ext_scheme \<Rightarrow> party_id \<Rightarrow> visibility \<Rightarrow> u64 \<Rightarrow> bytes \<Rightarrow> command" where
  "deploy_command X submitter vis nonce code =
     \<lparr>cmd_prism = ''contract'', cmd_submitter = submitter, cmd_visibility = vis,
      cmd_payload = to_vec_or_default (js_contract_command X) (CcDeploy code), cmd_nonce = nonce\<rparr>"

definition call_command ::
  "'x contract_ext_scheme \<Rightarrow> party_id \<Rightarrow> visibility \<Rightarrow> u64 \<Rightarrow> hash \<Rightarrow> u64 list \<Rightarrow> u64 \<Rightarrow> u64 \<Rightarrow> command" where
  "call_command X submitter vis nonce address args value gas_limit =
     \<lparr>cmd_prism = ''contract'', cmd_submitter = submitter, cmd_visibility = vis,
      cmd_payload = to_vec_or_default (js_contract_command X) (CcCall address args value gas_limit),
      cmd_nonce = nonce\<rparr>"

section \<open>Lemmas\<close>

lemma contract_ext_okD:
  assumes "contract_ext_ok X"
  shows "kernel_ext_ok X" "hash_ext_ok X" "codec_ok (js_contract_meta X)" "codec_ok (js_storage X)" "order_ok (hash_order X)"
  using assms by (simp_all add: contract_ext_ok_def kernel_ext_okD)

lemma foldl_insert_lookup:
  "distinct (map fst kvs) \<Longrightarrow> fmlookup (foldl (\<lambda>m (k, v). fmupd k v m) m kvs) k =
     (case map_of kvs k of None \<Rightarrow> fmlookup m k | Some v \<Rightarrow> Some v)"
proof (induction kvs arbitrary: m)
  case (Cons kv kvs)
  obtain a b where kv: "kv = (a, b)" by force
  with Cons.prems have "map_of kvs a = None" by (simp add: map_of_eq_None_iff)
  with Cons kv show ?case by (auto split: option.splits)
qed simp

lemma collect_hash_order:
  assumes "order_ok f"
  shows "collect_map (f m) = m"
proof (rule fmap_ext)
  fix k
  have d: "distinct (map fst (f m))" and e: "\<And>v. (k, v) \<in> set (f m) \<longleftrightarrow> fmlookup m k = Some v"
    using assms by (auto simp: order_ok_def)
  have "map_of (f m) k = fmlookup m k"
    using d e map_of_eq_Some_iff [OF d, of k] by (cases "fmlookup m k"; cases "map_of (f m) k") auto
  then show "fmlookup (collect_map (f m)) k = fmlookup m k"
    by (simp add: collect_map_def foldl_insert_lookup [OF d] split: option.splits)
qed

lemma load_save_storage:
  assumes "contract_ext_ok X" and "save_storage X addr st s = (Ok u, s')"
  shows "load_storage X s' addr = st"
  using assms contract_ext_okD [OF assms(1)]
  by (auto simp: save_storage_def load_storage_def get_json_opt_put collect_hash_order)

lemma save_storage_Ok:
  "contract_ext_ok X \<Longrightarrow> save_storage X addr st = modify (st_put (store_key X addr) (to_vec_or_default (js_storage X) (hash_order X st)))"
  by (simp add: save_storage_def contract_ext_okD)

definition contract_of :: "'x contract_ext_scheme \<Rightarrow> state_tree \<Rightarrow> hash \<Rightarrow> contract_meta option" where
  "contract_of X s addr = get_json_opt (js_contract_meta X) s (code_key X addr)"

lemma load_contract_Ok_iff: "load_contract X addr s = (Ok m, s') \<longleftrightarrow> s' = s \<and> contract_of X s addr = Some m"
  by (simp add: load_contract_def get_json_or_Ok_iff contract_of_def)

lemma capped_gas_room: "unat (min g 10000000 :: u64) + 5000 < 2 ^ 64"
proof -
  have "min g 10000000 \<le> (10000000 :: u64)" by simp
  then have "unat (min g 10000000 :: u64) \<le> unat (10000000 :: u64)" by (simp only: word_le_nat_alt)
  then show ?thesis by simp
qed

lemma vm_result_cases:
  obtains (diverged) "r = None" | (returned) x m where "r = Some (Ok x, m)"
  | (failed) e m where "r = Some (Err e, m)" | (panicked) m where "r = Some (Panic, m)"
proof (cases r)
  case (Some y)
  obtain o1 m where "y = (o1, m)" by force
  with Some that show ?thesis by (cases o1) auto
qed (rule that)

lemma contract_settle_event:
  "contract_settle X cmd a g r s = (Ok out, s') \<Longrightarrow> \<exists>p c. out = single_output (contract_emit X cmd p) c"
  by (cases r rule: vm_result_cases) (auto simp: contract_settle_def ok_iffs)

section \<open>The prism contract\<close>

lemma contract_handle_frame:
  assumes "outside [''contract/''] k"
  shows "keeps (\<lambda>s. st_get s k = v) (contract_handle X cmd)"
proof -
  have k: "code_key X a \<noteq> k" "store_key X a \<noteq> k" for a
    using assms by (auto simp: outside_def code_key_def store_key_def)
  have settle: "keeps (\<lambda>s. st_get s k = v) (contract_settle X cmd a g r)" for a g r
    using k(2) [of a] by (cases r rule: vm_result_cases)
      (auto simp: contract_settle_def save_storage_def intro!: keeps_intros)
  have "keeps (\<lambda>s. st_get s k = v) (contract_dispatch X cmd c)" for c
    using k unfolding contract_dispatch_def contract_deploy_def contract_call_def load_contract_def Let_def
    by (auto intro!: keeps_intros settle split: contract_command.splits)
  then show ?thesis
    unfolding contract_handle_def by (intro keeps_intros)
qed

lemma contract_handle_events:
  assumes "contract_handle X cmd s = (Ok out, s')"
  shows "\<forall>e \<in> set (out_events out). event_of X ''contract'' cmd e"
proof -
  obtain c s1 where "contract_dispatch X cmd c s1 = (Ok out, s')"
    using assms by (auto simp: contract_handle_def andthen_Ok_iff)
  then show ?thesis
    by (cases c)
      (auto simp: contract_dispatch_def contract_deploy_def contract_call_def Let_def ok_iffs
        single_output_def contract_emit_def dest!: contract_settle_event)
qed

interpretation contract: prism_contract contract_handle "''contract''" "[''contract/'']"
  by unfold_locales (use contract_handle_frame contract_handle_events in \<open>blast+\<close>)

section \<open>A concrete instance of the parameters\<close>

definition contract_meta_coder :: "contract_meta coder" where
  "contract_meta_coder = iso_coder
     (\<lambda>m. (cm_address m, cm_deployer m, cm_code m, cm_code_size m))
     (\<lambda>(a, d, c, n). \<lparr>cm_address = a, cm_deployer = d, cm_code = c, cm_code_size = n\<rparr>)
     (pair_coder hash_coder (pair_coder party_coder (pair_coder bytes_coder nat_coder)))"

definition contract_command_coder :: "contract_command coder" where
  "contract_command_coder = iso_coder
     (\<lambda>c. case c of CcDeploy b \<Rightarrow> Inl b | CcCall a xs v g \<Rightarrow> Inr (a, xs, v, g))
     (\<lambda>z. case z of Inl b \<Rightarrow> CcDeploy b | Inr (a, xs, v, g) \<Rightarrow> CcCall a xs v g)
     (sum_coder bytes_coder (pair_coder hash_coder (pair_coder (list_coder word_coder) (pair_coder word_coder word_coder))))"

definition contract_event_coder :: "contract_event coder" where
  "contract_event_coder = iso_coder
     (\<lambda>e. case e of CeDeployed a n \<Rightarrow> Inl (a, n) | CeCalled a r g ls b \<Rightarrow> Inr (a, r, g, ls, b))
     (\<lambda>z. case z of Inl (a, n) \<Rightarrow> CeDeployed a n | Inr (a, r, g, ls, b) \<Rightarrow> CeCalled a r g ls b)
     (sum_coder (pair_coder hash_coder nat_coder)
       (pair_coder hash_coder (pair_coder (option_coder word_coder) (pair_coder word_coder
         (pair_coder (list_coder word_coder) bool_coder)))))"

definition ref_contract_ext :: "((u64, u64) fmap \<Rightarrow> (u64 \<times> u64) list) \<Rightarrow> contract_ext" where
  "ref_contract_ext f = kernel_ext.extend ref_kernel_ext
     (contract_ext.fields (codec_of contract_meta_coder) (codec_of (list_coder (pair_coder word_coder word_coder)))
       (codec_of contract_command_coder) (codec_of contract_event_coder) f)"

lemma contract_coders_ok [coder_intros]:
  "coder_ok contract_meta_coder" "coder_ok contract_command_coder" "coder_ok contract_event_coder"
  unfolding contract_meta_coder_def contract_command_coder_def contract_event_coder_def
  by (intro coder_intros; auto split: contract_command.splits contract_event.splits)+

lemma ref_contract_ext_ok: "order_ok f \<Longrightarrow> contract_ext_ok (ref_contract_ext f)"
  using ref_kernel_ext_ok
  by (simp add: contract_ext_ok_def kernel_ext_ok_def hash_ext_ok_def ref_contract_ext_def
      kernel_ext.defs contract_ext.defs codec_of_ok coder_intros)

lemma sorted_order_ok: "order_ok sorted_list_of_fmap"
proof -
  have "(k, v) \<in> set (sorted_list_of_fmap m) \<longleftrightarrow> fmlookup m k = Some v" for k v and m :: "(u64, u64) fmap"
    by (auto simp: sorted_list_of_fmap_def sorted_list_of_fset.rep_eq fmlookup_dom_iff)
  moreover have "distinct (map fst (sorted_list_of_fmap m))" for m :: "(u64, u64) fmap"
    by (simp add: sorted_list_of_fmap_def o_def sorted_list_of_fset.rep_eq)
  ultimately show ?thesis by (simp add: order_ok_def)
qed

lemma rev_order_ok: "order_ok f \<Longrightarrow> order_ok (\<lambda>m. rev (f m))"
  by (simp add: order_ok_def flip: rev_map)

section \<open>Properties\<close>

text \<open>
  Calling a contract. A call of a deployed contract always succeeds as a command: it neither
  fails nor panics, whatever the code. Either the machine returned, then the charge is the gas used,
  at most ten million, and the only change of the state is the contract's own storage cell, from
  which the machine's final storage is read back; or the machine failed, then the state is unchanged
  and the charge is 500.
\<close>

theorem contract_call_effect:
  assumes "contract_ext_ok X" and "contract_of X s address = Some meta"
  shows "\<exists>out s' r m. contract_call X cmd address args value gas_limit s = (Ok out, s') \<and>
    vm_run (cm_code meta) \<lparr>caller_hash = caller_word X (cmd_submitter cmd), call_value = value, call_args = args\<rparr>
      (min gas_limit 10000000) (vm_new (load_storage X s address)) = Some (r, m) \<and>
    (\<forall>k. k \<noteq> store_key X address \<longrightarrow> st_get s' k = st_get s k) \<and>
    (case r of
       Ok exec \<Rightarrow> load_storage X s' address = vm_storage m \<and> out_cost out = gas_used exec \<and> out_cost out \<le> 10000000
     | _ \<Rightarrow> s' = s \<and> out_cost out = 500)"
proof -
  let ?ctx = "\<lparr>caller_hash = caller_word X (cmd_submitter cmd), call_value = value, call_args = args\<rparr>"
  let ?g = "min gas_limit 10000000"
  obtain r m where run: "vm_run (cm_code meta) ?ctx ?g (vm_new (load_storage X s address)) = Some (r, m)"
    and np: "r \<noteq> Panic" and le: "\<forall>x. r = Ok x \<longrightarrow> gas_used x \<le> ?g"
    using vm_run_result [OF capped_gas_room, of "vm_new (load_storage X s address)" gas_limit "cm_code meta" ?ctx]
    by (auto simp: vm_new_def)
  have load: "load_contract X address s = (Ok meta, s)" using assms(2) by (simp add: load_contract_Ok_iff)
  have call: "contract_call X cmd address args value gas_limit s = contract_settle X cmd address ?g (Some (r, m)) s"
    by (simp add: contract_call_def andthen_def load Let_def run)
  show ?thesis
  proof (cases r)
    case (Ok x)
    let ?s' = "st_put (store_key X address) (to_vec_or_default (js_storage X) (hash_order X (vm_storage m))) s"
    have "load_storage X ?s' address = vm_storage m"
      using load_save_storage [OF assms(1), of address "vm_storage m" s "()" ?s'] by (simp add: save_storage_Ok [OF assms(1)])
    moreover have "gas_used x \<le> 10000000"
      using le Ok min.cobounded2 order.trans by blast
    ultimately show ?thesis
      using call run Ok by (auto simp: contract_settle_def save_storage_Ok [OF assms(1)] single_output_def)
  next
    case (Err e)
    then show ?thesis using call run by (auto simp: contract_settle_def single_output_def)
  qed (use np in simp)
qed

definition demo_contract :: contract_meta where
  "demo_contract = \<lparr>cm_address = ZERO, cm_deployer = PartyId ''alice'', cm_code = [REVERT], cm_code_size = 1\<rparr>"

definition demo_contract_state :: "contract_ext \<Rightarrow> state_tree" where
  "demo_contract_state X = st_put (code_key X ZERO) (to_vec_or_default (js_contract_meta X) demo_contract) st_new"

lemma demo_contract_of: "contract_ext_ok X \<Longrightarrow> contract_of X (demo_contract_state X) ZERO = Some demo_contract"
  by (simp add: contract_of_def demo_contract_state_def get_json_opt_put contract_ext_okD)

theorem contract_call_effect_witness:
  "\<exists>out s'. contract_call (ref_contract_ext sorted_list_of_fmap) demo_command ZERO [] 0 100
     (demo_contract_state (ref_contract_ext sorted_list_of_fmap)) = (Ok out, s')"
  using contract_call_effect [OF ref_contract_ext_ok [OF sorted_order_ok] demo_contract_of [OF ref_contract_ext_ok [OF sorted_order_ok]]]
  by blast

text \<open>
  Contract storage is not written deterministically. The storage of a contract is serialised in the
  iteration order of a \<open>HashMap\<close>. Two nodes that run the same successful call on the same state but
  iterate the resulting storage in different orders, which the standard library allows, end with
  different bytes in the state, hence different state entries under the same key, although both read
  the same storage back.
\<close>

theorem contract_storage_order_matters:
  assumes "contract_ext_ok X" and "order_ok g" and "hash_order X st \<noteq> g st"
    and "save_storage X addr st s = (Ok u, s1)" and "save_storage (X\<lparr>hash_order := g\<rparr>) addr st s = (Ok u', s2)"
  shows "st_get s1 (store_key X addr) \<noteq> st_get s2 (store_key X addr) \<and>
    load_storage X s1 addr = st \<and> load_storage X s2 addr = st"
proof -
  let ?Y = "X\<lparr>hash_order := g\<rparr>"
  have Y: "contract_ext_ok ?Y" using assms(1,2) by (simp add: contract_ext_ok_def kernel_ext_ok_def hash_ext_ok_def)
  have key: "store_key ?Y addr = store_key X addr" by (simp add: store_key_def to_hex_def)
  have s: "s1 = st_put (store_key X addr) (to_vec_or_default (js_storage X) (hash_order X st)) s"
    "s2 = st_put (store_key X addr) (to_vec_or_default (js_storage X) (g st)) s"
    using assms(4,5) by (simp_all add: save_storage_Ok [OF assms(1)] save_storage_Ok [OF Y] key)
  have "to_vec_or_default (js_storage X) (hash_order X st) \<noteq> to_vec_or_default (js_storage X) (g st)"
    using assms(3) from_slice_ok [OF contract_ext_okD(4) [OF assms(1)]] by (metis sum.inject(2))
  moreover have "load_storage X s2 addr = load_storage ?Y s2 addr"
    by (simp add: load_storage_def key)
  ultimately show ?thesis
    using load_save_storage [OF assms(1,4)] load_save_storage [OF Y assms(5)] by (simp add: s)
qed

definition demo_storage :: "(u64, u64) fmap" where
  "demo_storage = fmupd 2 20 (fmupd 1 10 fmempty)"

lemma demo_storage_sorted: "sorted_list_of_fmap demo_storage = [(1, 10), (2, 20)]"
proof -
  have "sorted_list_of_set {2, 1 :: u64} = [1, 2]" by (simp add: sorted_list_of_set_insert_remove word_le_nat_alt)
  then show ?thesis
    by (simp add: demo_storage_def sorted_list_of_fmap_def sorted_list_of_fset.rep_eq insert_commute)
qed

theorem contract_storage_order_matters_witness:
  "let X = ref_contract_ext sorted_list_of_fmap; Y = X\<lparr>hash_order := (\<lambda>m. rev (sorted_list_of_fmap m))\<rparr> in
   \<exists>s1 s2. save_storage X ZERO demo_storage st_new = (Ok (), s1) \<and> save_storage Y ZERO demo_storage st_new = (Ok (), s2) \<and>
     st_get s1 (store_key X ZERO) \<noteq> st_get s2 (store_key X ZERO)"
proof -
  let ?X = "ref_contract_ext sorted_list_of_fmap"
  let ?Y = "?X\<lparr>hash_order := (\<lambda>m. rev (sorted_list_of_fmap m))\<rparr>"
  note X = ref_contract_ext_ok [OF sorted_order_ok] and g = rev_order_ok [OF sorted_order_ok]
  have Y: "contract_ext_ok ?Y" using X g by (simp add: contract_ext_ok_def kernel_ext_ok_def hash_ext_ok_def)
  obtain s1 s2 where s: "save_storage ?X ZERO demo_storage st_new = (Ok (), s1)"
    "save_storage ?Y ZERO demo_storage st_new = (Ok (), s2)"
    by (simp add: save_storage_Ok [OF X] save_storage_Ok [OF Y])
  have "hash_order ?X demo_storage \<noteq> rev (sorted_list_of_fmap demo_storage)"
    by (simp add: ref_contract_ext_def kernel_ext.defs contract_ext.defs demo_storage_sorted)
  from contract_storage_order_matters [OF X g this s] s show ?thesis
    unfolding Let_def by blast
qed

end
