(* ===== verification/Storage.thy ===== *)
theory Storage
  imports Kernel_Cascade
begin

text \<open>
  \<open>prisms/storage/src/lib.rs\<close>: content-addressed blobs with reference-counted pins.
\<close>

section \<open>Data\<close>

datatype storage_op = StPin hash | StUnpin hash

datatype storage_command = StPut string bytes | StOp storage_op

datatype storage_event =
    SeStored hash u64 string
  | SeStoredPrivate hash u64 string bytes
  | SePinned hash u64
  | SeUnpinned hash u64 bool

record pin_record =
  pin_refcount :: u64
  pin_size :: u64
  pin_public :: bool
  pin_owner :: "party_id option"

record storage_ext = kernel_ext +
  js_pin_record :: "pin_record codec"
  js_storage_command :: "storage_command codec"
  js_storage_event :: "storage_event codec"

definition storage_ext_ok :: "'x storage_ext_scheme \<Rightarrow> bool" where
  "storage_ext_ok X \<longleftrightarrow> kernel_ext_ok X \<and> codec_ok (js_pin_record X) \<and> codec_ok (js_storage_command X) \<and>
     codec_ok (js_storage_event X)"

section \<open>Operations\<close>

abbreviation (input) "MAX_BLOB_SIZE \<equiv> (1024 * 1024 :: nat)"

definition default_pin :: pin_record where
  "default_pin = \<lparr>pin_refcount = 0, pin_size = 0, pin_public = False, pin_owner = None\<rparr>"

definition blob_key :: "'x kernel_ext_scheme \<Rightarrow> hash \<Rightarrow> string" where
  "blob_key X cid = ''storage/blob/'' @ to_hex X cid"

definition pin_key :: "'x kernel_ext_scheme \<Rightarrow> hash \<Rightarrow> string" where
  "pin_key X cid = ''storage/pin/'' @ to_hex X cid"

definition load_pin :: "'x storage_ext_scheme \<Rightarrow> state_tree \<Rightarrow> hash \<Rightarrow> pin_record" where
  "load_pin X s cid = (case get_json_opt (js_pin_record X) s (pin_key X cid) of None \<Rightarrow> default_pin | Some p \<Rightarrow> p)"

definition save_pin :: "'x storage_ext_scheme \<Rightarrow> hash \<Rightarrow> pin_record \<Rightarrow> (state_tree, prism_error, unit) act" where
  "save_pin X cid pin = put_json_internal (js_pin_record X) (pin_key X cid) pin"

definition storage_emit :: "'x storage_ext_scheme \<Rightarrow> command \<Rightarrow> storage_event \<Rightarrow> event" where
  "storage_emit X cmd payload = emit X ''storage'' cmd (to_vec_or_default (js_storage_event X) payload)"

definition storage_put ::
  "'x storage_ext_scheme \<Rightarrow> command \<Rightarrow> string \<Rightarrow> bytes \<Rightarrow> (state_tree, prism_error, prism_output) act" where
  "storage_put X cmd key data =
     andthen (ensure (\<not> length data > MAX_BLOB_SIZE)
       (LimitExceeded (''blob of '' @ decimal (length data) @ '' bytes exceeds max '' @ decimal MAX_BLOB_SIZE))) (\<lambda>_.
     let cid = digest X data; size = of_nat (length data) :: u64; public = (cmd_visibility cmd = Public) in
     andthen (gets (\<lambda>s. st_contains s (blob_key X cid))) (\<lambda>present.
     andthen (if public \<and> \<not> present then modify (st_put (blob_key X cid) data) else ret ()) (\<lambda>_.
     andthen (gets (\<lambda>s. load_pin X s cid)) (\<lambda>pin.
     andthen (save_pin X cid (pin\<lparr>pin_refcount := pin_refcount pin + 1, pin_size := size, pin_public := public,
       pin_owner := Some (cmd_submitter cmd)\<rparr>)) (\<lambda>_.
     ret (single_output (storage_emit X cmd
         (if public then SeStored cid size key else SeStoredPrivate cid size key data)) (100 + size * 2)))))))"

definition storage_pin :: "'x storage_ext_scheme \<Rightarrow> command \<Rightarrow> hash \<Rightarrow> (state_tree, prism_error, prism_output) act" where
  "storage_pin X cmd cid =
     andthen (gets (\<lambda>s. st_contains s (blob_key X cid))) (\<lambda>present.
     andthen (ensure present (NotFound (''blob '' @ to_hex X cid))) (\<lambda>_.
     andthen (gets (\<lambda>s. load_pin X s cid)) (\<lambda>pin.
     let pin' = pin\<lparr>pin_refcount := pin_refcount pin + 1\<rparr> in
     andthen (save_pin X cid pin') (\<lambda>_.
     ret (single_output (storage_emit X cmd (SePinned cid (pin_refcount pin'))) 200)))))"

definition storage_unpin :: "'x storage_ext_scheme \<Rightarrow> command \<Rightarrow> hash \<Rightarrow> (state_tree, prism_error, prism_output) act" where
  "storage_unpin X cmd cid =
     andthen (gets (\<lambda>s. load_pin X s cid)) (\<lambda>pin.
     andthen (ensure (pin_refcount pin \<noteq> 0) (NotFound (''no pin for '' @ to_hex X cid))) (\<lambda>_.
     let pin' = pin\<lparr>pin_refcount := pin_refcount pin - 1\<rparr>; removed = (pin_refcount pin' = 0) in
     andthen (if removed
              then andthen (modify (\<lambda>s. snd (st_remove (blob_key X cid) s))) (\<lambda>_.
                   modify (\<lambda>s. snd (st_remove (pin_key X cid) s)))
              else save_pin X cid pin') (\<lambda>_.
     ret (single_output (storage_emit X cmd (SeUnpinned cid (pin_refcount pin') removed)) 150))))"

definition storage_dispatch ::
  "'x storage_ext_scheme \<Rightarrow> command \<Rightarrow> storage_command \<Rightarrow> (state_tree, prism_error, prism_output) act" where
  "storage_dispatch X cmd c = (case c of
      StPut key data \<Rightarrow> storage_put X cmd key data
    | StOp (StPin cid) \<Rightarrow> storage_pin X cmd cid
    | StOp (StUnpin cid) \<Rightarrow> storage_unpin X cmd cid)"

definition storage_handle :: "'x storage_ext_scheme \<Rightarrow> handler" where
  "storage_handle X cmd =
     andthen (parse_payload (js_storage_command X) (cmd_payload cmd)) (storage_dispatch X cmd)"

definition storage_estimate :: "'x storage_ext_scheme \<Rightarrow> command \<Rightarrow> state_tree \<Rightarrow> u64" where
  "storage_estimate X cmd s =
     (case from_slice (js_storage_command X) (cmd_payload cmd) of
        Inr (StPut _ data) \<Rightarrow> 100 + of_nat (length data) * 2
      | Inr (StOp _) \<Rightarrow> 200
      | Inl _ \<Rightarrow> 1000)"

definition storage_prism :: "'x storage_ext_scheme \<Rightarrow> prism" where
  "storage_prism X = \<lparr>pr_info = \<lparr>info_name = ''storage'',
       info_description = ''Content-addressed blob storage with reference-counted pinning'',
       info_version = ''1.0''\<rparr>,
     pr_handle = storage_handle X, pr_estimate = storage_estimate X\<rparr>"

definition put_command :: "'x storage_ext_scheme \<Rightarrow> party_id \<Rightarrow> visibility \<Rightarrow> u64 \<Rightarrow> string \<Rightarrow> bytes \<Rightarrow> command" where
  "put_command X submitter vis nonce key data =
     \<lparr>cmd_prism = ''storage'', cmd_submitter = submitter, cmd_visibility = vis,
      cmd_payload = to_vec_or_default (js_storage_command X) (StPut key data), cmd_nonce = nonce\<rparr>"

definition read_blob :: "'x kernel_ext_scheme \<Rightarrow> state_tree \<Rightarrow> hash \<Rightarrow> bytes option" where
  "read_blob X s cid = st_get s (blob_key X cid)"

section \<open>Lemmas\<close>

lemma storage_ext_okD:
  assumes "storage_ext_ok X"
  shows "kernel_ext_ok X" "hash_ext_ok X" "codec_ok (js_pin_record X)"
  using assms by (simp_all add: storage_ext_ok_def kernel_ext_okD)

lemma storage_keys [simp]:
  "blob_key X i \<noteq> pin_key X j" "pin_key X j \<noteq> blob_key X i"
  by (simp_all add: blob_key_def pin_key_def)

lemma storage_key_inj:
  "hash_ext_ok X \<Longrightarrow> blob_key X i = blob_key X j \<longleftrightarrow> i = j" "hash_ext_ok X \<Longrightarrow> pin_key X i = pin_key X j \<longleftrightarrow> i = j"
  by (simp_all add: blob_key_def pin_key_def to_hex_inj)

definition put_pin :: "'x storage_ext_scheme \<Rightarrow> hash \<Rightarrow> pin_record \<Rightarrow> state_tree \<Rightarrow> state_tree" where
  "put_pin X cid pin s = st_put (pin_key X cid) (to_vec_or_default (js_pin_record X) pin) s"

definition drop_blob :: "'x storage_ext_scheme \<Rightarrow> hash \<Rightarrow> state_tree \<Rightarrow> state_tree" where
  "drop_blob X cid s = snd (st_remove (pin_key X cid) (snd (st_remove (blob_key X cid) s)))"

lemma save_pin_ok: "storage_ext_ok X \<Longrightarrow> save_pin X cid pin = modify (put_pin X cid pin)"
  by (simp add: save_pin_def put_pin_def [abs_def] storage_ext_okD)

named_theorems storage_cells \<open>reading blobs and pins after a write\<close>

lemma read_blob_writes [storage_cells]:
  "read_blob X (put_pin X i pin s) j = read_blob X s j"
  "hash_ext_ok X \<Longrightarrow> read_blob X (st_put (blob_key X i) d s) j = (if i = j then Some d else read_blob X s j)"
  "hash_ext_ok X \<Longrightarrow> read_blob X (drop_blob X i s) j = (if i = j then None else read_blob X s j)"
  by (auto simp: read_blob_def put_pin_def drop_blob_def storage_key_inj)

lemma load_pin_writes [storage_cells]:
  "storage_ext_ok X \<Longrightarrow> load_pin X (put_pin X i pin s) j = (if i = j then pin else load_pin X s j)"
  "load_pin X (st_put (blob_key X i) d s) j = load_pin X s j"
  by (simp_all add: load_pin_def put_pin_def get_json_opt_put storage_key_inj storage_ext_okD)

lemma get_json_opt_del: "get_json_opt c (snd (st_remove k s)) k' = (if k = k' then None else get_json_opt c s k')"
  by (simp add: get_json_opt_def get_json_get)

lemma load_pin_drop [storage_cells]:
  "hash_ext_ok X \<Longrightarrow> load_pin X (drop_blob X i s) j = (if i = j then default_pin else load_pin X s j)"
  by (simp add: load_pin_def drop_blob_def get_json_opt_del storage_key_inj)

lemma storage_put_Ok:
  assumes "storage_ext_ok X" and "storage_put X cmd key data s = (Ok out, s')"
  shows "let cid = digest X data; s1 = (if cmd_visibility cmd = Public \<and> \<not> st_contains s (blob_key X cid)
       then st_put (blob_key X cid) data s else s) in
     length data \<le> MAX_BLOB_SIZE \<and>
     (\<exists>n. s' = put_pin X cid ((load_pin X s1 cid)\<lparr>pin_refcount := pin_refcount (load_pin X s1 cid) + 1, pin_size := n,
       pin_public := (cmd_visibility cmd = Public), pin_owner := Some (cmd_submitter cmd)\<rparr>) s1)"
  using assms(2) unfolding storage_put_def
  by (auto simp: ok_iffs save_pin_ok assms(1) Let_def split: if_splits)

lemma storage_pin_Ok:
  assumes "storage_ext_ok X" and "storage_pin X cmd cid s = (Ok out, s')"
  shows "read_blob X s cid \<noteq> None \<and>
    s' = put_pin X cid ((load_pin X s cid)\<lparr>pin_refcount := pin_refcount (load_pin X s cid) + 1\<rparr>) s"
  using assms(2) unfolding storage_pin_def
  by (auto simp: ok_iffs save_pin_ok assms(1) Let_def st_contains_get read_blob_def split: if_splits)

lemma storage_unpin_Ok:
  assumes "storage_ext_ok X"
  shows "storage_unpin X cmd cid s = (Ok out, s') \<longleftrightarrow>
    (let n = pin_refcount (load_pin X s cid) in
     n \<noteq> 0 \<and> s' = (if n = 1 then drop_blob X cid s else put_pin X cid ((load_pin X s cid)\<lparr>pin_refcount := n - 1\<rparr>) s) \<and>
     out = single_output (storage_emit X cmd (SeUnpinned cid (n - 1) (n = 1))) 150)"
  unfolding storage_unpin_def Let_def
  by (cases "pin_refcount (load_pin X s cid) = 1")
    (auto simp: ok_iffs save_pin_ok assms drop_blob_def andthen_def split: if_splits)

section \<open>Invariants\<close>

text \<open>
  Every stored blob hashes to its identifier, and a stored blob has a positive reference count.
\<close>

definition blobs_ok :: "'x storage_ext_scheme \<Rightarrow> state_tree \<Rightarrow> bool" where
  "blobs_ok X s \<longleftrightarrow> (\<forall>cid d. read_blob X s cid = Some d \<longrightarrow> digest X d = cid \<and> pin_refcount (load_pin X s cid) \<noteq> 0)"

definition pin_headroom :: "'x storage_ext_scheme \<Rightarrow> state_tree \<Rightarrow> bool" where
  "pin_headroom X s \<longleftrightarrow> (\<forall>cid. pin_refcount (load_pin X s cid) \<noteq> - 1)"

lemma blobs_okD: "blobs_ok X s \<Longrightarrow> read_blob X s cid = Some d \<Longrightarrow> digest X d = cid \<and> pin_refcount (load_pin X s cid) \<noteq> 0"
  by (simp add: blobs_ok_def)

lemma blobs_ok_put_pin:
  assumes "storage_ext_ok X" and "\<And>j d. read_blob X s j = Some d \<Longrightarrow> digest X d = j \<and> (j \<noteq> cid \<longrightarrow> pin_refcount (load_pin X s j) \<noteq> 0)"
    and "pin_refcount pin \<noteq> 0"
  shows "blobs_ok X (put_pin X cid pin s)"
  unfolding blobs_ok_def using assms by (auto simp: storage_cells)

lemma storage_put_ok:
  assumes "storage_ext_ok X" and "blobs_ok X s" and "pin_headroom X s" and "storage_put X cmd key data s = (Ok out, s')"
  shows "blobs_ok X s'"
proof -
  note h = storage_ext_okD(2) [OF assms(1)]
  let ?cid = "digest X data"
  define s1 where "s1 = (if cmd_visibility cmd = Public \<and> \<not> st_contains s (blob_key X ?cid)
       then st_put (blob_key X ?cid) data s else s)"
  obtain n where s': "s' = put_pin X ?cid ((load_pin X s1 ?cid)\<lparr>pin_refcount := pin_refcount (load_pin X s1 ?cid) + 1, pin_size := n,
       pin_public := (cmd_visibility cmd = Public), pin_owner := Some (cmd_submitter cmd)\<rparr>) s1"
    using storage_put_Ok [OF assms(1,4)] by (auto simp: Let_def s1_def)
  have pin: "load_pin X s1 j = load_pin X s j" for j by (simp add: s1_def storage_cells)
  have blob: "digest X d = j \<and> (j \<noteq> ?cid \<longrightarrow> pin_refcount (load_pin X s1 j) \<noteq> 0)" if "read_blob X s1 j = Some d" for j d
    using that blobs_okD [OF assms(2)] h unfolding pin by (auto simp: s1_def storage_cells split: if_splits)
  have "pin_refcount (load_pin X s1 ?cid) + 1 \<noteq> 0"
    using assms(3) unfolding pin pin_headroom_def by (intro word_succ(3)) simp
  then show ?thesis
    unfolding s' by (intro blobs_ok_put_pin [OF assms(1) blob]) simp_all
qed

lemma storage_pins_ok:
  assumes "storage_ext_ok X" and "blobs_ok X s" and "pin_headroom X s"
  shows "storage_pin X cmd cid s = (Ok out, s') \<Longrightarrow> blobs_ok X s'"
    and "storage_unpin X cmd cid s = (Ok out, s') \<Longrightarrow> blobs_ok X s'"
proof -
  note h = storage_ext_okD(2) [OF assms(1)]
  have old: "digest X d = j \<and> (j \<noteq> cid \<longrightarrow> pin_refcount (load_pin X s j) \<noteq> 0)" if "read_blob X s j = Some d" for j d
    using blobs_okD [OF assms(2) that] by simp
  show "blobs_ok X s'" if "storage_pin X cmd cid s = (Ok out, s')"
    using storage_pin_Ok [OF assms(1) that] assms(3) word_succ(3) [of "pin_refcount (load_pin X s cid)"]
    by (auto simp: pin_headroom_def intro!: blobs_ok_put_pin [OF assms(1) old])
  show "blobs_ok X s'" if run: "storage_unpin X cmd cid s = (Ok out, s')"
  proof (cases "pin_refcount (load_pin X s cid) = 1")
    case True
    then have "s' = drop_blob X cid s" using run by (simp add: storage_unpin_Ok [OF assms(1)] Let_def)
    then show ?thesis using assms(2) h by (auto simp: blobs_ok_def storage_cells split: if_splits)
  next
    case False
    then have "s' = put_pin X cid ((load_pin X s cid)\<lparr>pin_refcount := pin_refcount (load_pin X s cid) - 1\<rparr>) s"
      using run by (simp add: storage_unpin_Ok [OF assms(1)] Let_def)
    with False show ?thesis by (auto intro!: blobs_ok_put_pin [OF assms(1) old])
  qed
qed

section \<open>The prism contract\<close>

lemma storage_handle_frame:
  assumes "outside [''storage/''] k"
  shows "keeps (\<lambda>s. st_get s k = v) (storage_handle X cmd)"
proof -
  have k: "blob_key X a \<noteq> k" "pin_key X a \<noteq> k" for a
    using assms by (auto simp: outside_def blob_key_def pin_key_def)
  have "keeps (\<lambda>s. st_get s k = v) (storage_put X cmd key d)"
    and "keeps (\<lambda>s. st_get s k = v) (storage_pin X cmd cid)"
    and "keeps (\<lambda>s. st_get s k = v) (storage_unpin X cmd cid)" for key d cid
    unfolding storage_put_def storage_pin_def storage_unpin_def save_pin_def Let_def
    by (intro keeps_intros; simp add: k)+
  then have "keeps (\<lambda>s. st_get s k = v) (storage_dispatch X cmd c)" for c
    by (auto simp: storage_dispatch_def split: storage_command.splits storage_op.splits)
  then show ?thesis
    unfolding storage_handle_def by (intro keeps_intros)
qed

lemma storage_handle_events:
  assumes "storage_handle X cmd s = (Ok out, s')"
  shows "\<forall>e \<in> set (out_events out). event_of X ''storage'' cmd e"
proof -
  obtain c s1 where "storage_dispatch X cmd c s1 = (Ok out, s')"
    using assms by (auto simp: storage_handle_def andthen_Ok_iff)
  then show ?thesis
    by (auto simp: storage_dispatch_def storage_put_def storage_pin_def storage_unpin_def Let_def ok_iffs
        single_output_def storage_emit_def split: storage_command.splits storage_op.splits)
qed

interpretation storage: prism_contract storage_handle "''storage''" "[''storage/'']"
  by unfold_locales (use storage_handle_frame storage_handle_events in \<open>blast+\<close>)

section \<open>A concrete instance of the parameters\<close>

definition pin_record_coder :: "pin_record coder" where
  "pin_record_coder = iso_coder (\<lambda>p. (pin_refcount p, pin_size p, pin_public p, pin_owner p))
     (\<lambda>(r, n, b, w). \<lparr>pin_refcount = r, pin_size = n, pin_public = b, pin_owner = w\<rparr>)
     (pair_coder word_coder (pair_coder word_coder (pair_coder bool_coder (option_coder party_coder))))"

definition storage_command_coder :: "storage_command coder" where
  "storage_command_coder = iso_coder
     (\<lambda>c. case c of StPut k d \<Rightarrow> Inl (k, d) | StOp (StPin h) \<Rightarrow> Inr (Inl h) | StOp (StUnpin h) \<Rightarrow> Inr (Inr h))
     (\<lambda>z. case z of Inl (k, d) \<Rightarrow> StPut k d | Inr (Inl h) \<Rightarrow> StOp (StPin h) | Inr (Inr h) \<Rightarrow> StOp (StUnpin h))
     (sum_coder (pair_coder string_coder bytes_coder) (sum_coder hash_coder hash_coder))"

definition storage_event_coder :: "storage_event coder" where
  "storage_event_coder = iso_coder
     (\<lambda>e. case e of SeStored h n k \<Rightarrow> Inl (h, n, k) | SeStoredPrivate h n k d \<Rightarrow> Inr (Inl (h, n, k, d))
      | SePinned h n \<Rightarrow> Inr (Inr (Inl (h, n))) | SeUnpinned h n b \<Rightarrow> Inr (Inr (Inr (h, n, b))))
     (\<lambda>z. case z of Inl (h, n, k) \<Rightarrow> SeStored h n k | Inr (Inl (h, n, k, d)) \<Rightarrow> SeStoredPrivate h n k d
      | Inr (Inr (Inl (h, n))) \<Rightarrow> SePinned h n | Inr (Inr (Inr (h, n, b))) \<Rightarrow> SeUnpinned h n b)
     (sum_coder (pair_coder hash_coder (pair_coder word_coder string_coder))
       (sum_coder (pair_coder hash_coder (pair_coder word_coder (pair_coder string_coder bytes_coder)))
         (sum_coder (pair_coder hash_coder word_coder) (pair_coder hash_coder (pair_coder word_coder bool_coder)))))"

definition ref_storage_ext :: storage_ext where
  "ref_storage_ext = kernel_ext.extend ref_kernel_ext
     (storage_ext.fields (codec_of pin_record_coder) (codec_of storage_command_coder) (codec_of storage_event_coder))"

lemma storage_coders_ok [coder_intros]:
  "coder_ok pin_record_coder" "coder_ok storage_command_coder" "coder_ok storage_event_coder"
  unfolding pin_record_coder_def storage_command_coder_def storage_event_coder_def
  by (intro coder_intros; auto split: storage_command.splits storage_op.splits storage_event.splits)+

lemma ref_storage_ext_ok: "storage_ext_ok ref_storage_ext"
  using ref_kernel_ext_ok
  by (simp add: storage_ext_ok_def kernel_ext_ok_def hash_ext_ok_def ref_storage_ext_def
      kernel_ext.defs storage_ext.defs codec_of_ok coder_intros)

lemma storage_empty:
  "read_blob X st_new cid = None" "load_pin X st_new cid = default_pin" "blobs_ok X st_new" "pin_headroom X st_new"
  by (simp_all add: read_blob_def load_pin_def blobs_ok_def pin_headroom_def default_pin_def)

section \<open>Properties\<close>

text \<open>
  Storage is content-addressed. Every successful storage command keeps the invariant that each
  stored blob hashes to the identifier it is stored under and has a positive reference count, as
  long as no count is at its maximum; and after a public put the data is read back under its digest,
  unless a blob with a colliding digest was there before.
\<close>

theorem storage_content_addressed:
  assumes "storage_ext_ok X" and "blobs_ok X s" and "pin_headroom X s" and "storage_dispatch X cmd c s = (Ok out, s')"
  shows "blobs_ok X s' \<and>
    (\<forall>key data. c = StPut key data \<and> cmd_visibility cmd = Public \<longrightarrow>
       (\<exists>d. read_blob X s' (digest X data) = Some d \<and> digest X d = digest X data))"
proof
  show inv: "blobs_ok X s'"
    using assms(4) storage_put_ok [OF assms(1-3)] storage_pins_ok [OF assms(1-3)]
    by (auto simp: storage_dispatch_def split: storage_command.splits storage_op.splits)
  show "\<forall>key data. c = StPut key data \<and> cmd_visibility cmd = Public \<longrightarrow>
       (\<exists>d. read_blob X s' (digest X data) = Some d \<and> digest X d = digest X data)"
  proof (intro allI impI)
    fix key data assume c: "c = StPut key data \<and> cmd_visibility cmd = Public"
    with assms(4) have "storage_put X cmd key data s = (Ok out, s')" by (simp add: storage_dispatch_def)
    from storage_put_Ok [OF assms(1) this] c have "read_blob X s' (digest X data) \<noteq> None"
      using storage_ext_okD(2) [OF assms(1)]
      by (auto simp: Let_def storage_cells st_contains_get) (auto simp: read_blob_def split: if_splits)
    then show "\<exists>d. read_blob X s' (digest X data) = Some d \<and> digest X d = digest X data"
      using blobs_okD [OF inv] by auto
  qed
qed

text \<open>
  Pins are not owned. A pin record names an owner, but unpinning does not look at it: whoever
  submits the command, the count falls, and at the last pin the blob and its record are gone.
\<close>

theorem storage_unpin_by_anyone:
  assumes "storage_ext_ok X" and "pin_refcount (load_pin X s cid) = 1" and "pin_owner (load_pin X s cid) = Some who"
    and "cmd_submitter cmd \<noteq> who"
  shows "\<exists>out s'. storage_unpin X cmd cid s = (Ok out, s') \<and> read_blob X s' cid = None \<and> load_pin X s' cid = default_pin"
proof -
  obtain out where "storage_unpin X cmd cid s = (Ok out, drop_blob X cid s)"
    using assms(2) by (simp add: storage_unpin_Ok [OF assms(1)] Let_def)
  then show ?thesis
    using storage_ext_okD(2) [OF assms(1)] by (auto simp: storage_cells)
qed

lemma demo_put_runs:
  "\<exists>out s'. storage_put ref_storage_ext demo_command ''k'' [1, 2, 3] st_new = (Ok out, s')"
  by (simp add: storage_put_def Let_def save_pin_ok [OF ref_storage_ext_ok] andthen_def)

theorem storage_content_addressed_witness:
  "\<exists>out s'. storage_dispatch ref_storage_ext demo_command (StPut ''k'' [1, 2, 3]) st_new = (Ok out, s') \<and>
    blobs_ok ref_storage_ext s'"
proof -
  obtain out s' where run: "storage_dispatch ref_storage_ext demo_command (StPut ''k'' [1, 2, 3]) st_new = (Ok out, s')"
    using demo_put_runs by (auto simp: storage_dispatch_def)
  show ?thesis
    using run storage_content_addressed [OF ref_storage_ext_ok storage_empty(3,4) run] by blast
qed

theorem storage_unpin_by_anyone_witness:
  "let X = ref_storage_ext; cid = digest X [1, 2, 3];
       s = put_pin X cid \<lparr>pin_refcount = 1, pin_size = 3, pin_public = True, pin_owner = Some (PartyId ''bob'')\<rparr>
             (st_put (blob_key X cid) [1, 2, 3] st_new) in
   read_blob X s cid = Some [1, 2, 3] \<and>
   (\<exists>out s'. storage_unpin X demo_command cid s = (Ok out, s') \<and> read_blob X s' cid = None)"
proof -
  let ?X = ref_storage_ext and ?cid = "digest ref_storage_ext [1, 2, 3]"
  let ?pin = "\<lparr>pin_refcount = 1, pin_size = 3, pin_public = True, pin_owner = Some (PartyId ''bob'')\<rparr>"
  let ?s = "put_pin ?X ?cid ?pin (st_put (blob_key ?X ?cid) [1, 2, 3] st_new)"
  have pin: "load_pin ?X ?s ?cid = ?pin" and blob: "read_blob ?X ?s ?cid = Some [1, 2, 3]"
    using ref_storage_ext_ok storage_ext_okD(2) [OF ref_storage_ext_ok] by (simp_all add: storage_cells)
  show ?thesis
    using storage_unpin_by_anyone [OF ref_storage_ext_ok, of ?s ?cid "PartyId ''bob''" demo_command] blob
    by (auto simp: pin Let_def demo_command_def)
qed

end
