(* ===== verification/Veil_Private.thy ===== *)
theory Veil_Private
  imports Veil
begin

text \<open>
  \<open>veil/src/private.rs\<close> and \<open>veil/src/attest.rs\<close>: confidential commands sealed to a list of recipients under one
  commitment, and the book of signed attestations of the private state root they lead to. The
  ephemeral secret that the sources draw from the operating system is an argument of the model.
\<close>

section \<open>Private envelopes\<close>

record recipient =
  rp_party :: party_id
  rp_x25519_public :: bytes

record sealed_share =
  ss_recipient :: party_id
  ss_nonce :: bytes
  ss_ciphertext :: bytes

record private_envelope =
  pe_commitment :: hash
  pe_salt :: hash
  pe_ephemeral_public :: bytes
  pe_stakeholders :: "party_id list"
  pe_shares :: "sealed_share list"

definition is_stakeholder :: "private_envelope \<Rightarrow> party_id \<Rightarrow> bool" where
  "is_stakeholder env party \<longleftrightarrow> party \<in> set (pe_stakeholders env)"

definition expected_commitment ::
  "'x hash_ext_scheme \<Rightarrow> hash \<Rightarrow> bytes \<Rightarrow> party_id list \<Rightarrow> sealed_share list \<Rightarrow> hash" where
  "expected_commitment X salt ephemeral_public holders shares =
     commit X ''private-envelope''
       ([as_bytes ''veilux/veil/private-commit/v1'', hash_bytes salt, ephemeral_public] @
        map (\<lambda>p. as_bytes (party_name p)) holders @
        concat (map (\<lambda>s. [as_bytes (party_name (ss_recipient s)), ss_nonce s, ss_ciphertext s]) shares))"

definition verify_commitment :: "'x hash_ext_scheme \<Rightarrow> private_envelope \<Rightarrow> bool" where
  "verify_commitment X env \<longleftrightarrow>
     expected_commitment X (pe_salt env) (pe_ephemeral_public env) (pe_stakeholders env) (pe_shares env) = pe_commitment env"

definition shared_key :: "'x hash_ext_scheme \<Rightarrow> bytes \<Rightarrow> hash \<Rightarrow> party_id \<Rightarrow> bytes" where
  "shared_key X shared salt party =
     blake3 X (as_bytes ''veilux/veil/private-x25519/v1'' @ shared @ hash_bytes salt @ as_bytes (party_name party))"

definition share_nonce :: "'x hash_ext_scheme \<Rightarrow> hash \<Rightarrow> party_id \<Rightarrow> bytes" where
  "share_nonce X salt party =
     take 12 (blake3 X (as_bytes ''veilux/veil/private-nonce/v1'' @ hash_bytes salt @ as_bytes (party_name party)))"

definition recipients_from_keyrings :: "'x veil_ext_scheme \<Rightarrow> party_id list \<Rightarrow> view_keyring list \<Rightarrow> recipient list" where
  "recipients_from_keyrings X parties keyrings =
     List.map_filter (\<lambda>p. map_option (\<lambda>k. \<lparr>rp_party = p, rp_x25519_public = x25519_public X k\<rparr>) (keyring_of keyrings p)) parties"

definition seal_share :: "'x veil_ext_scheme \<Rightarrow> bytes \<Rightarrow> hash \<Rightarrow> bytes \<Rightarrow> recipient \<Rightarrow> view_error + sealed_share" where
  "seal_share X ephemeral salt plaintext r =
     (let shared = x25519_dh X ephemeral (rp_x25519_public r); key = shared_key X shared salt (rp_party r);
          nonce = share_nonce X salt (rp_party r) in
      case aead_seal X key nonce (hash_bytes salt) plaintext of
        Inl e \<Rightarrow> Inl (Encryption e)
      | Inr ct \<Rightarrow> Inr \<lparr>ss_recipient = rp_party r, ss_nonce = nonce, ss_ciphertext = ct\<rparr>)"

fun seal_shares :: "'x veil_ext_scheme \<Rightarrow> bytes \<Rightarrow> hash \<Rightarrow> bytes \<Rightarrow> recipient list \<Rightarrow> view_error + sealed_share list" where
  "seal_shares X ephemeral salt plaintext [] = Inr []"
| "seal_shares X ephemeral salt plaintext (r # rs) =
     (case seal_share X ephemeral salt plaintext r of
        Inl e \<Rightarrow> Inl e
      | Inr s \<Rightarrow> map_sum id ((#) s) (seal_shares X ephemeral salt plaintext rs))"

definition seal_private_to ::
  "'x veil_ext_scheme \<Rightarrow> bytes \<Rightarrow> command \<Rightarrow> recipient list \<Rightarrow> hash \<Rightarrow> view_error + private_envelope" where
  "seal_private_to X ephemeral inner recipients salt =
     (case to_vec (js_command X) inner of
        Inl e \<Rightarrow> Inl (Serialization e)
      | Inr plaintext \<Rightarrow>
          let ephemeral_public = x25519_base X ephemeral in
          case seal_shares X ephemeral salt plaintext recipients of
            Inl e \<Rightarrow> Inl e
          | Inr shares \<Rightarrow>
              let holders = map rp_party recipients in
              Inr \<lparr>pe_commitment = expected_commitment X salt ephemeral_public holders shares, pe_salt = salt,
                   pe_ephemeral_public = ephemeral_public, pe_stakeholders = holders, pe_shares = shares\<rparr>)"

definition seal_private ::
  "'x veil_ext_scheme \<Rightarrow> bytes \<Rightarrow> command \<Rightarrow> party_id list \<Rightarrow> view_keyring list \<Rightarrow> hash \<Rightarrow> view_error + private_envelope" where
  "seal_private X ephemeral inner holders keyrings salt =
     seal_private_to X ephemeral inner (recipients_from_keyrings X holders keyrings) salt"

definition open_private :: "'x veil_ext_scheme \<Rightarrow> private_envelope \<Rightarrow> view_keyring \<Rightarrow> view_error + command" where
  "open_private X env k =
     (case find (\<lambda>s. ss_recipient s = kr_party k) (pe_shares env) of
        None \<Rightarrow> Inl (NoKey (party_name (kr_party k)))
      | Some share \<Rightarrow>
          let shared = x25519_dh X (x25519_secret X k) (pe_ephemeral_public env);
              key = shared_key X shared (pe_salt env) (kr_party k) in
          case aead_open X key (ss_nonce share) (hash_bytes (pe_salt env)) (ss_ciphertext share) of
            None \<Rightarrow> Inl Decryption
          | Some plaintext \<Rightarrow>
              case from_slice (js_command X) plaintext of
                Inl e \<Rightarrow> Inl (Serialization e)
              | Inr c \<Rightarrow> Inr c)"

section \<open>Attestations\<close>

record root_attestation =
  ra_party :: party_id
  ra_commitment :: hash
  ra_private_root :: hash
  ra_public_key :: bytes
  ra_signature :: bytes

definition attestation_message :: "hash \<Rightarrow> hash \<Rightarrow> party_id \<Rightarrow> bytes" where
  "attestation_message c private_root party =
     as_bytes ''veilux/veil/private-root-attestation/v1'' @ [255] @ hash_bytes c @ [255] @ hash_bytes private_root @ [255] @
     as_bytes (party_name party)"

definition attestation_create :: "'x identity_ext_scheme \<Rightarrow> party_identity \<Rightarrow> hash \<Rightarrow> hash \<Rightarrow> root_attestation" where
  "attestation_create X identity c private_root =
     (let party = pi_party identity; msg = attestation_message c private_root party in
      \<lparr>ra_party = party, ra_commitment = c, ra_private_root = private_root,
       ra_public_key = public_key X identity, ra_signature = sign_bytes X identity msg\<rparr>)"

definition signed_message :: "root_attestation \<Rightarrow> bytes" where
  "signed_message a = attestation_message (ra_commitment a) (ra_private_root a) (ra_party a)"

definition attestation_verify :: "'x identity_ext_scheme \<Rightarrow> root_attestation \<Rightarrow> identity_error + unit" where
  "attestation_verify X a =
     verify_bytes X (ra_public_key a) (attestation_message (ra_commitment a) (ra_private_root a) (ra_party a)) (ra_signature a)"

type_synonym attestation_book = "root_attestation list"

datatype attestation_outcome = Recorded | Duplicate | Divergence hash hash | Invalid

record equivocating_pair =
  eq_party :: party_id
  eq_public_key :: bytes
  eq_a :: root_attestation
  eq_b :: root_attestation

definition same_slot :: "root_attestation \<Rightarrow> root_attestation \<Rightarrow> bool" where
  "same_slot e a \<longleftrightarrow> ra_commitment e = ra_commitment a \<and> ra_party e = ra_party a"

definition record_attestation ::
  "'x identity_ext_scheme \<Rightarrow> root_attestation \<Rightarrow> attestation_book \<Rightarrow> attestation_outcome \<times> attestation_book" where
  "record_attestation X a book =
     (case attestation_verify X a of
        Inl _ \<Rightarrow> (Invalid, book)
      | Inr _ \<Rightarrow>
          case find (\<lambda>e. same_slot e a) book of
            Some e \<Rightarrow>
              if ra_private_root e = ra_private_root a then (Duplicate, book)
              else (Divergence (ra_private_root e) (ra_private_root a), book)
          | None \<Rightarrow>
              case find (\<lambda>e. ra_commitment e = ra_commitment a \<and> ra_party e \<noteq> ra_party a) book of
                Some peer \<Rightarrow>
                  if ra_private_root peer \<noteq> ra_private_root a
                  then (Divergence (ra_private_root peer) (ra_private_root a), book @ [a])
                  else (Recorded, book @ [a])
              | None \<Rightarrow> (Recorded, book @ [a]))"

definition self_equivocation :: "attestation_book \<Rightarrow> root_attestation \<Rightarrow> equivocating_pair option" where
  "self_equivocation book incoming =
     map_option (\<lambda>e. \<lparr>eq_party = ra_party incoming, eq_public_key = ra_public_key incoming, eq_a = e, eq_b = incoming\<rparr>)
       (find (\<lambda>e. ra_commitment e = ra_commitment incoming \<and> ra_party e = ra_party incoming \<and>
                  ra_private_root e \<noteq> ra_private_root incoming) book)"

definition agreement :: "attestation_book \<Rightarrow> hash \<Rightarrow> root_attestation list" where
  "agreement book c = filter (\<lambda>e. ra_commitment e = c) book"

fun consistent_loop :: "hash option \<Rightarrow> root_attestation list \<Rightarrow> bool" where
  "consistent_loop root [] = True"
| "consistent_loop root (e # es) =
     (case root of
        None \<Rightarrow> consistent_loop (Some (ra_private_root e)) es
      | Some r \<Rightarrow> if r \<noteq> ra_private_root e then False else consistent_loop root es)"

definition is_consistent :: "attestation_book \<Rightarrow> hash \<Rightarrow> bool" where
  "is_consistent book c = consistent_loop None (filter (\<lambda>e. ra_commitment e = c) book)"

fun tally_root :: "hash \<Rightarrow> (hash \<times> nat) list \<Rightarrow> (hash \<times> nat) list" where
  "tally_root r [] = [(r, 1)]"
| "tally_root r ((s, n) # t) = (if s = r then (s, n + 1) # t else (s, n) # tally_root r t)"

text \<open>\<open>sort_by(|a, b| b.1.cmp(&a.1))\<close> is a stable sort by descending count.\<close>

definition canonical_root :: "attestation_book \<Rightarrow> hash \<Rightarrow> nat \<Rightarrow> hash option" where
  "canonical_root book c stakeholder_count =
     (let votes = agreement book c in
      if votes = [] then None
      else
        let tally = fold (\<lambda>v. tally_root (ra_private_root v)) votes [];
            (top_root, top_count) = hd (sort_key (\<lambda>(_, n). - int n) tally);
            threshold = stakeholder_count div 2 + 1 in
        if threshold \<le> top_count then Some top_root else None)"

definition minority_offenders :: "attestation_book \<Rightarrow> hash \<Rightarrow> nat \<Rightarrow> root_attestation list" where
  "minority_offenders book c stakeholder_count =
     (case canonical_root book c stakeholder_count of
        Some canonical \<Rightarrow> filter (\<lambda>e. ra_commitment e = c \<and> ra_private_root e \<noteq> canonical) book
      | None \<Rightarrow> [])"

section \<open>Sealing to many recipients\<close>

definition sealed_share_of :: "'x veil_ext_scheme \<Rightarrow> bytes \<Rightarrow> hash \<Rightarrow> bytes \<Rightarrow> recipient \<Rightarrow> sealed_share" where
  "sealed_share_of X eph salt m r = projr (seal_share X eph salt m r)"

lemma seal_share_ok:
  assumes "veil_ext_ok X"
  shows "seal_share X eph salt m r = Inr (sealed_share_of X eph salt m r)"
    "ss_recipient (sealed_share_of X eph salt m r) = rp_party r"
    "ss_nonce (sealed_share_of X eph salt m r) = share_nonce X salt (rp_party r)"
    "aead_open X (shared_key X (x25519_dh X eph (rp_x25519_public r)) salt (rp_party r))
       (ss_nonce (sealed_share_of X eph salt m r)) (hash_bytes salt) (ss_ciphertext (sealed_share_of X eph salt m r)) = Some m"
proof -
  let ?k = "shared_key X (x25519_dh X eph (rp_x25519_public r)) salt (rp_party r)" and ?n = "share_nonce X salt (rp_party r)"
  have "length ?k = 32" "length ?n = 12"
    using veil_ext_okD(3) [OF assms] by (simp_all add: shared_key_def share_nonce_def length_blake3)
  then obtain ct where ct: "aead_seal X ?k ?n (hash_bytes salt) m = Inr ct" "aead_open X ?k ?n (hash_bytes salt) ct = Some m"
    using assms unfolding veil_ext_ok_def by blast
  then have s: "seal_share X eph salt m r = Inr \<lparr>ss_recipient = rp_party r, ss_nonce = ?n, ss_ciphertext = ct\<rparr>"
    by (simp add: seal_share_def Let_def)
  then show "seal_share X eph salt m r = Inr (sealed_share_of X eph salt m r)"
    "ss_recipient (sealed_share_of X eph salt m r) = rp_party r" "ss_nonce (sealed_share_of X eph salt m r) = ?n"
    by (simp_all add: sealed_share_of_def)
  show "aead_open X ?k (ss_nonce (sealed_share_of X eph salt m r)) (hash_bytes salt) (ss_ciphertext (sealed_share_of X eph salt m r)) = Some m"
    using s ct(2) by (simp add: sealed_share_of_def)
qed

lemma seal_shares_ok:
  "veil_ext_ok X \<Longrightarrow> seal_shares X eph salt m rs = Inr (map (sealed_share_of X eph salt m) rs)"
  by (induction rs) (simp_all add: seal_share_ok(1))

lemma find_map_recipient:
  assumes "veil_ext_ok X"
  shows "find (\<lambda>s. ss_recipient s = p) (map (sealed_share_of X eph salt m) rs) =
    map_option (sealed_share_of X eph salt m) (find (\<lambda>r. rp_party r = p) rs)"
  by (induction rs) (simp_all add: seal_share_ok(2) [OF assms])

section \<open>Counting votes\<close>

definition votes_for :: "attestation_book \<Rightarrow> hash \<Rightarrow> hash \<Rightarrow> nat" where
  "votes_for book c r = length (filter (\<lambda>e. ra_commitment e = c \<and> ra_private_root e = r) book)"

definition tally_ok :: "(hash \<times> nat) list \<Rightarrow> (hash \<Rightarrow> nat) \<Rightarrow> bool" where
  "tally_ok t f \<longleftrightarrow> distinct (map fst t) \<and> (\<forall>r n. (r, n) \<in> set t \<longleftrightarrow> n = f r \<and> 0 < n)"

lemma tally_root_set:
  "distinct (map fst t) \<Longrightarrow> distinct (map fst (tally_root r t)) \<and> fst ` set (tally_root r t) = insert r (fst ` set t) \<and>
    (\<forall>s n. (s, n) \<in> set (tally_root r t) \<longleftrightarrow>
      (if s = r then (n = 1 \<and> r \<notin> fst ` set t) \<or> (\<exists>k. (r, k) \<in> set t \<and> n = k + 1) else (s, n) \<in> set t))"
proof (induction r t rule: tally_root.induct)
  case (1 r)
  then show ?case by auto
next
  case (2 r s n t)
  show ?case
  proof (cases "s = r")
    case True
    with 2 show ?thesis by (force simp: image_iff)
  next
    case False
    with 2 have ih: "distinct (map fst (tally_root r t))" "fst ` set (tally_root r t) = insert r (fst ` set t)"
      "\<And>s n. (s, n) \<in> set (tally_root r t) \<longleftrightarrow>
        (if s = r then (n = 1 \<and> r \<notin> fst ` set t) \<or> (\<exists>k. (r, k) \<in> set t \<and> n = k + 1) else (s, n) \<in> set t)"
      by auto
    with False 2(2) show ?thesis by auto
  qed
qed

lemma tally_ok_step: "tally_ok t f \<Longrightarrow> tally_ok (tally_root r t) (f(r := f r + 1))"
proof -
  assume t: "tally_ok t f"
  then have d: "distinct (map fst t)" and m: "\<And>s n. (s, n) \<in> set t \<longleftrightarrow> n = f s \<and> 0 < n" by (auto simp: tally_ok_def)
  have z: "r \<notin> fst ` set t \<longleftrightarrow> f r = 0" using m by (force simp: image_iff)
  show ?thesis
    using tally_root_set [OF d, of r] unfolding tally_ok_def m z by auto
qed

lemma tally_ok_fold:
  "tally_ok t f \<Longrightarrow> tally_ok (fold (\<lambda>v. tally_root (ra_private_root v)) vs t)
     (\<lambda>r. f r + length (filter (\<lambda>v. ra_private_root v = r) vs))"
proof (induction vs arbitrary: t f)
  case (Cons v vs)
  let ?g = "f(ra_private_root v := f (ra_private_root v) + 1)"
  have "(\<lambda>r. ?g r + length (filter (\<lambda>v. ra_private_root v = r) vs)) = (\<lambda>r. f r + length (filter (\<lambda>v. ra_private_root v = r) (v # vs)))"
    by (auto simp: fun_eq_iff)
  with Cons.IH [OF tally_ok_step [OF Cons.prems, of "ra_private_root v"]] show ?case by simp
qed simp

lemma tally_ok_votes: "tally_ok (fold (\<lambda>v. tally_root (ra_private_root v)) (agreement book c) []) (votes_for book c)"
proof -
  have "tally_ok [] (\<lambda>_. 0)" by (auto simp: tally_ok_def)
  from tally_ok_fold [OF this, of "agreement book c"] show ?thesis
    by (simp add: votes_for_def [abs_def] agreement_def conj_commute)
qed

lemma sort_key_hd_le:
  assumes "y \<in> set xs"
  shows "f (hd (sort_key f xs)) \<le> f y"
proof -
  have "y \<in> set (sort_key f xs)" and "sorted (map f (sort_key f xs))" using assms by simp_all
  then show ?thesis by (cases "sort_key f xs") auto
qed

lemma canonical_root_top:
  assumes "agreement book c \<noteq> []"
  obtains r where "canonical_root book c n = (if n div 2 + 1 \<le> votes_for book c r then Some r else None)"
    and "\<And>s. votes_for book c s \<le> votes_for book c r"
proof -
  let ?t = "fold (\<lambda>v. tally_root (ra_private_root v)) (agreement book c) []"
  let ?key = "\<lambda>(_ :: hash, n). - int n"
  have t: "\<And>r n. (r, n) \<in> set ?t \<longleftrightarrow> n = votes_for book c r \<and> 0 < n"
    using tally_ok_votes [of book c] by (simp add: tally_ok_def)
  obtain v vs where "agreement book c = v # vs" using assms by (cases "agreement book c") auto
  then have "0 < votes_for book c (ra_private_root v)"
    unfolding votes_for_def agreement_def by (auto simp: filter_eq_Cons_iff)
  then have ne: "?t \<noteq> []" using t [of "ra_private_root v"] by force
  obtain r k where hd: "hd (sort_key ?key ?t) = (r, k)" by force
  moreover have "hd (sort_key ?key ?t) \<in> set ?t"
    using ne by (metis hd_in_set length_0_conv length_sort set_sort)
  ultimately have k: "k = votes_for book c r" using t by simp
  have "votes_for book c s \<le> votes_for book c r" for s
  proof (cases "votes_for book c s = 0")
    case False
    then have "(s, votes_for book c s) \<in> set ?t" using t by simp
    from sort_key_hd_le [OF this, of ?key] show ?thesis by (simp add: hd k)
  qed simp
  moreover have "canonical_root book c n = (if n div 2 + 1 \<le> votes_for book c r then Some r else None)"
    using assms hd k by (simp add: canonical_root_def Let_def)
  ultimately show ?thesis using that by blast
qed

lemma canonical_root_empty: "agreement book c = [] \<Longrightarrow> canonical_root book c n = None \<and> votes_for book c r = 0"
  by (auto simp: canonical_root_def votes_for_def agreement_def filter_empty_conv)

lemma two_roots_le: "r \<noteq> s \<Longrightarrow> votes_for book c r + votes_for book c s \<le> length (agreement book c)"
  unfolding votes_for_def agreement_def by (induction book) auto

section \<open>The book\<close>

definition book_ok :: "'x identity_ext_scheme \<Rightarrow> attestation_book \<Rightarrow> bool" where
  "book_ok X book \<longleftrightarrow> distinct (map (\<lambda>e. (ra_commitment e, ra_party e)) book) \<and>
     (\<forall>e \<in> set book. attestation_verify X e = Inr ())"

lemma consistent_loop_iff:
  "consistent_loop root es \<longleftrightarrow> (\<forall>e \<in> set es. \<forall>f \<in> set es. ra_private_root e = ra_private_root f) \<and>
     (case root of None \<Rightarrow> True | Some r \<Rightarrow> \<forall>e \<in> set es. ra_private_root e = r)"
  by (induction root es rule: consistent_loop.induct) (auto split: option.splits)

lemma is_consistent_iff:
  "is_consistent book c \<longleftrightarrow> (\<forall>e \<in> set book. \<forall>f \<in> set book. ra_commitment e = c \<and> ra_commitment f = c \<longrightarrow>
     ra_private_root e = ra_private_root f)"
  by (auto simp: is_consistent_def consistent_loop_iff)

section \<open>Properties\<close>

text \<open>
  C36. Sealing and opening agree. A command sealed to recipients whose parties are distinct and hold the listed
  X25519 keys produces an envelope that passes its own commitment check and lists exactly the
  recipients; every recipient opens it to the command, and anyone else is told it has no key.
\<close>

theorem private_roundtrip:
  assumes "veil_ext_ok X"
    and "\<forall>k \<in> set ks. \<lparr>rp_party = kr_party k, rp_x25519_public = x25519_public X k\<rparr> \<in> set rs"
    and "distinct (map rp_party rs)"
  shows "\<exists>env. seal_private_to X eph inner rs salt = Inr env \<and> verify_commitment X env \<and>
    pe_stakeholders env = map rp_party rs \<and> (\<forall>k \<in> set ks. open_private X env k = Inr inner) \<and>
    (\<forall>k. kr_party k \<notin> set (map rp_party rs) \<longrightarrow> open_private X env k = Inl (NoKey (party_name (kr_party k))))"
proof -
  note j = codec_okD [OF veil_ext_okD(5) [OF assms(1)]]
  let ?m = "to_vec_or_default (js_command X) inner"
  let ?env = "\<lparr>pe_commitment = expected_commitment X salt (x25519_base X eph) (map rp_party rs) (map (sealed_share_of X eph salt ?m) rs),
     pe_salt = salt, pe_ephemeral_public = x25519_base X eph, pe_stakeholders = map rp_party rs,
     pe_shares = map (sealed_share_of X eph salt ?m) rs\<rparr>"
  have seal: "seal_private_to X eph inner rs salt = Inr ?env"
    by (simp add: seal_private_to_def j(1) seal_shares_ok [OF assms(1)] Let_def)
  have dh: "x25519_dh X (x25519_secret X k) (x25519_base X eph) = x25519_dh X eph (x25519_public X k)" for k
    using assms(1) by (simp add: veil_ext_ok_def x25519_public_def)
  have opened: "open_private X ?env k = Inr inner" if "k \<in> set ks" for k
  proof -
    let ?r = "\<lparr>rp_party = kr_party k, rp_x25519_public = x25519_public X k\<rparr>"
    have "?r \<in> set rs" using assms(2) that by blast
    with assms(3) have "find (\<lambda>r. rp_party r = kr_party k) rs = Some ?r"
      by (induction rs) (auto simp: image_iff)
    then show ?thesis
      using seal_share_ok(4) [OF assms(1), of eph ?r salt ?m]
      by (simp add: open_private_def find_map_recipient [OF assms(1)] dh j(2))
  qed
  have "open_private X ?env k = Inl (NoKey (party_name (kr_party k)))" if "kr_party k \<notin> set (map rp_party rs)" for k
  proof -
    have "find (\<lambda>r. rp_party r = kr_party k) rs = None" using that by (auto simp: find_None_iff image_iff)
    then show ?thesis by (simp add: open_private_def find_map_recipient [OF assms(1)])
  qed
  then show ?thesis
    using seal opened by (intro exI [of _ ?env]) (simp add: verify_commitment_def)
qed

theorem private_roundtrip_witness:
  "\<exists>env. seal_private_to ref_veil_ext [3] demo_command
      [\<lparr>rp_party = PartyId ''bob'', rp_x25519_public = x25519_public ref_veil_ext (demo_keyring ''bob'')\<rparr>] ZERO = Inr env \<and>
    open_private ref_veil_ext env (demo_keyring ''bob'') = Inr demo_command \<and>
    open_private ref_veil_ext env (demo_keyring ''eve'') = Inl (NoKey ''eve'')"
proof -
  let ?rs = "[\<lparr>rp_party = PartyId ''bob'', rp_x25519_public = x25519_public ref_veil_ext (demo_keyring ''bob'')\<rparr>]"
  have "\<forall>k \<in> set [demo_keyring ''bob'']. \<lparr>rp_party = kr_party k, rp_x25519_public = x25519_public ref_veil_ext k\<rparr> \<in> set ?rs"
    by (simp add: demo_keyring_def)
  from private_roundtrip [OF ref_veil_ext_ok this, of "[3]" demo_command ZERO] obtain env where
    "seal_private_to ref_veil_ext [3] demo_command ?rs ZERO = Inr env"
    "\<forall>k \<in> set [demo_keyring ''bob'']. open_private ref_veil_ext env k = Inr demo_command"
    "\<forall>k. kr_party k \<notin> set (map rp_party ?rs) \<longrightarrow> open_private ref_veil_ext env k = Inl (NoKey (party_name (kr_party k)))"
    by auto
  then show ?thesis by (intro exI [of _ env]) (simp add: demo_keyring_def)
qed

text \<open>
  The envelope commitment does not bind the list of stakeholders. Stakeholders and shares are hashed as one
  sequence of parts without a count, so the last three stakeholders of an envelope can be read as
  a further share (the second name must have the twelve bytes of a nonce): the commitment is the
  same and the check passes, with fewer stakeholders.
\<close>

theorem envelope_commitment_ambiguous:
  assumes "pe_stakeholders env = ps @ [a, b, c]" and "length (party_name b) = 12" and "verify_commitment X env"
  shows "\<exists>env'. verify_commitment X env' \<and> pe_commitment env' = pe_commitment env \<and> pe_stakeholders env' = ps \<and>
    (\<forall>s \<in> set (pe_shares env'). s \<in> set (pe_shares env) \<or> length (ss_nonce s) = 12)"
proof -
  let ?s = "\<lparr>ss_recipient = a, ss_nonce = as_bytes (party_name b), ss_ciphertext = as_bytes (party_name c)\<rparr>"
  let ?env = "env\<lparr>pe_stakeholders := ps, pe_shares := ?s # pe_shares env\<rparr>"
  have "verify_commitment X ?env"
    using assms(1,3) by (simp add: verify_commitment_def expected_commitment_def)
  then show ?thesis using assms(2) by (intro exI [of _ ?env]) auto
qed

theorem envelope_commitment_ambiguous_witness:
  "\<exists>env env'. verify_commitment ref_veil_ext env \<and> verify_commitment ref_veil_ext env' \<and>
    pe_commitment env' = pe_commitment env \<and> length (pe_stakeholders env) = 4 \<and> length (pe_stakeholders env') = 1"
proof -
  let ?ps = "[PartyId ''eve'', PartyId ''alice'', PartyId ''bob.bob.bob.'', PartyId ''carol'']"
  let ?env = "\<lparr>pe_commitment = expected_commitment ref_veil_ext ZERO [] ?ps [], pe_salt = ZERO, pe_ephemeral_public = [],
    pe_stakeholders = ?ps, pe_shares = []\<rparr>"
  have "verify_commitment ref_veil_ext ?env" by (simp add: verify_commitment_def)
  moreover obtain env' where "verify_commitment ref_veil_ext env'" "pe_commitment env' = pe_commitment ?env"
    "pe_stakeholders env' = [PartyId ''eve'']"
    using envelope_commitment_ambiguous [of ?env "[PartyId ''eve'']" "PartyId ''alice''" "PartyId ''bob.bob.bob.''"
        "PartyId ''carol''" ref_veil_ext] \<open>verify_commitment ref_veil_ext ?env\<close> by auto
  ultimately show ?thesis by (intro exI [of _ ?env] exI [of _ env']) simp
qed

text \<open>
  The canonical private root is a majority root. It is found exactly when some root has more than half of
  the stakeholders as votes; it then has the most votes, and when no more parties voted than
  there are stakeholders it is the only such root.
\<close>

theorem canonical_root_majority:
  shows "(canonical_root book c n \<noteq> None \<longleftrightarrow> (\<exists>r. n div 2 + 1 \<le> votes_for book c r)) \<and>
    (\<forall>r. canonical_root book c n = Some r \<longrightarrow> n div 2 + 1 \<le> votes_for book c r \<and>
       (\<forall>s. votes_for book c s \<le> votes_for book c r) \<and>
       (length (agreement book c) \<le> n \<longrightarrow> (\<forall>s. n div 2 + 1 \<le> votes_for book c s \<longrightarrow> s = r)))"
proof (cases "agreement book c = []")
  case True
  then show ?thesis using canonical_root_empty [OF True] by simp
next
  case False
  obtain r where r: "canonical_root book c n = (if n div 2 + 1 \<le> votes_for book c r then Some r else None)"
    "\<And>s. votes_for book c s \<le> votes_for book c r"
    using canonical_root_top [OF False, of n] by blast
  have "s = r" if "length (agreement book c) \<le> n" "n div 2 + 1 \<le> votes_for book c s" for s
  proof (rule ccontr)
    assume "s \<noteq> r"
    from two_roots_le [OF this, of book c] that r(2) [of s] show False by linarith
  qed
  with r show ?thesis by (auto intro: le_trans)
qed

theorem canonical_root_majority_witness:
  "let a = (\<lambda>p r. \<lparr>ra_party = PartyId p, ra_commitment = ZERO, ra_private_root = Hash [r], ra_public_key = [], ra_signature = []\<rparr>) in
   canonical_root [a ''x'' 1, a ''y'' 2, a ''z'' 2] ZERO 3 \<noteq> None"
  using canonical_root_majority [of "[\<lparr>ra_party = PartyId ''x'', ra_commitment = ZERO, ra_private_root = Hash [1], ra_public_key = [], ra_signature = []\<rparr>,
      \<lparr>ra_party = PartyId ''y'', ra_commitment = ZERO, ra_private_root = Hash [2], ra_public_key = [], ra_signature = []\<rparr>,
      \<lparr>ra_party = PartyId ''z'', ra_commitment = ZERO, ra_private_root = Hash [2], ra_public_key = [], ra_signature = []\<rparr>]" ZERO 3]
  by (auto simp: Let_def votes_for_def intro!: exI [of _ "Hash [2]"])

text \<open>
  The attestation book keeps one verified attestation per party and commitment. Recording keeps that
  invariant; an attestation it rejects, repeats or contradicts by the same party leaves the book as it
  was; and as long as the book is consistent, an attestation that would break the agreement is
  reported as a divergence.
\<close>

theorem attestation_book_invariant:
  assumes "book_ok X book" and "record_attestation X a book = (res, book')"
  shows "book_ok X book' \<and> (res = Invalid \<or> res = Duplicate \<longrightarrow> book' = book) \<and>
    (res = Recorded \<longrightarrow> book' = book @ [a] \<and> attestation_verify X a = Inr ()) \<and>
    (is_consistent book (ra_commitment a) \<and> \<not> is_consistent book' (ra_commitment a) \<longrightarrow>
       (\<exists>r. res = Divergence r (ra_private_root a) \<and> r \<noteq> ra_private_root a))"
proof -
  consider "res = Invalid" "book' = book" | "res = Duplicate" "book' = book"
    | r where "res = Divergence r (ra_private_root a)" "book' = book"
    | (new) "attestation_verify X a = Inr ()" "find (\<lambda>e. same_slot e a) book = None" "book' = book @ [a]"
      "(\<exists>r. res = Divergence r (ra_private_root a) \<and> r \<noteq> ra_private_root a) \<or>
       (res = Recorded \<and> (\<forall>e. find (\<lambda>e. ra_commitment e = ra_commitment a \<and> ra_party e \<noteq> ra_party a) book = Some e \<longrightarrow>
          ra_private_root e = ra_private_root a))"
    using assms(2) by (auto simp: record_attestation_def split: sum.splits option.splits if_splits)
  then show ?thesis
  proof cases
    case new
    have fresh: "\<not> same_slot e a" if "e \<in> set book" for e using new(2) that by (auto simp: find_None_iff)
    then have "(ra_commitment a, ra_party a) \<notin> set (map (\<lambda>e. (ra_commitment e, ra_party e)) book)"
      by (auto simp: same_slot_def) metis
    then have "book_ok X book'" using assms(1) new(1) by (auto simp: book_ok_def new(3))
    moreover have "is_consistent book' (ra_commitment a)" if "res = Recorded" and c: "is_consistent book (ra_commitment a)"
    proof -
      have "ra_private_root e = ra_private_root a" if e: "e \<in> set book" "ra_commitment e = ra_commitment a" for e
      proof -
        have "ra_party e \<noteq> ra_party a" using fresh [OF e(1)] e(2) by (simp add: same_slot_def)
        then obtain f where f: "find (\<lambda>e. ra_commitment e = ra_commitment a \<and> ra_party e \<noteq> ra_party a) book = Some f"
          using e by (metis (mono_tags, lifting) find_None_iff not_Some_eq)
        then have "f \<in> set book" "ra_commitment f = ra_commitment a" by (auto simp: find_Some_iff)
        moreover have "ra_private_root f = ra_private_root a" using new(4) f \<open>res = Recorded\<close> by auto
        ultimately show ?thesis using c e by (metis is_consistent_iff)
      qed
      then show ?thesis using c by (auto simp: is_consistent_iff new(3))
    qed
    ultimately show ?thesis using new(1,3,4) by auto
  qed (use assms(1) in auto)
qed

definition demo_attestation :: root_attestation where
  "demo_attestation = attestation_create ref_identity_ext (from_seed ''alice'' [1]) ZERO ZERO"

theorem attestation_book_invariant_witness:
  "book_ok ref_identity_ext [] \<and> record_attestation ref_identity_ext demo_attestation [] = (Recorded, [demo_attestation]) \<and>
    book_ok ref_identity_ext [demo_attestation]"
proof -
  have v: "attestation_verify ref_identity_ext demo_attestation = Inr ()"
    using verify_sign_bytes [OF ref_identity_ext_ok]
    by (simp add: attestation_verify_def demo_attestation_def attestation_create_def Let_def)
  have run: "record_attestation ref_identity_ext demo_attestation [] = (Recorded, [demo_attestation])"
    by (simp add: record_attestation_def v)
  moreover have "book_ok ref_identity_ext []" by (simp add: book_ok_def)
  ultimately show ?thesis using attestation_book_invariant by blast
qed

end
