(* ===== verification/Staking.thy ===== *)
theory Staking
  imports Token Veil_Private
begin

text \<open>
  \<open>prisms/staking/src/lib.rs\<close>: staking and delegation of the native token, rewards by an accumulator, slashing
  on equivocation or quorum-fraud proofs, and stake-weighted governance. Signed 128-bit arithmetic
  (\<open>cur as i128 + delta\<close>) is arithmetic on the same bits, read as two's complement by \<open>sint\<close>.
\<close>

section \<open>Data\<close>

datatype proposal_status = Active | Passed | Rejected | Executed

record stake_record =
  sr_owner :: party_id
  sr_self_bonded :: u128
  sr_delegated_in :: u128

record proposal =
  gp_id :: hash
  gp_proposer :: party_id
  gp_title :: string
  gp_description :: string
  gp_status :: proposal_status
  gp_yes_power :: u128
  gp_no_power :: u128
  gp_deadline_height :: u64

record equivocation_proof =
  ep_offender :: party_id
  ep_public_key :: string
  ep_message_a :: string
  ep_signature_a :: string
  ep_message_b :: string
  ep_signature_b :: string

record attestation_statement =
  as_party :: party_id
  as_public_key :: string
  as_signature :: string
  as_root :: string

record quorum_fraud_proof =
  qp_offender :: party_id
  qp_envelope :: private_envelope
  qp_offender_stmt :: attestation_statement
  qp_majority :: "attestation_statement list"

datatype staking_command =
    ScStake u128
  | ScUnstake u128
  | ScDelegate party_id u128
  | ScUndelegate party_id u128
  | ScPropose string string u64
  | ScVote hash bool
  | ScFinalize hash
  | ScSlash equivocation_proof
  | ScSlashQuorum quorum_fraud_proof
  | ScFundRewards u128
  | ScClaimRewards

datatype staking_event =
    SkStaked party_id u128 u128
  | SkUnstaked party_id u128 u128
  | SkDelegated party_id party_id u128
  | SkUndelegated party_id party_id u128
  | SkProposalOpened hash party_id string u64
  | SkVoted hash party_id bool u128
  | SkProposalFinalized hash proposal_status u128 u128
  | SkSlashed party_id u128 u128
  | SkRewardsFunded party_id u128
  | SkRewardsClaimed party_id u128

record staking_ext = token_ext +
  js_bool :: "bool codec"
  js_stake_record :: "stake_record codec"
  js_proposal :: "proposal codec"
  js_staking_command :: "staking_command codec"
  js_staking_event :: "staking_event codec"

definition staking_ext_ok :: "'x staking_ext_scheme \<Rightarrow> bool" where
  "staking_ext_ok X \<longleftrightarrow> token_ext_ok X \<and> codec_ok (js_bool X) \<and> codec_ok (js_stake_record X) \<and> codec_ok (js_proposal X) \<and>
     codec_ok (js_staking_command X) \<and> codec_ok (js_staking_event X)"

section \<open>Cells\<close>

definition escrow_account :: party_id where
  "escrow_account = PartyId ''staking/escrow''"

definition reward_pool_account :: party_id where
  "reward_pool_account = PartyId ''staking/rewards''"

definition ACC_SCALE :: u128 where
  "ACC_SCALE = 1000000000000"

definition DEFAULT_SLASH_BPS :: u16 where
  "DEFAULT_SLASH_BPS = 2000"

definition stake_empty :: "party_id \<Rightarrow> stake_record" where
  "stake_empty owner = \<lparr>sr_owner = owner, sr_self_bonded = 0, sr_delegated_in = 0\<rparr>"

definition voting_power :: "stake_record \<Rightarrow> u128" where
  "voting_power rec = sr_self_bonded rec + sr_delegated_in rec"

definition split_height :: "bytes \<Rightarrow> bytes \<times> u64" where
  "split_height payload =
     (if length payload < 8 then (payload, 0)
      else let n = length payload - 8 in (take n payload, u64_from_le_bytes (drop n payload)))"

definition stake_key :: "party_id \<Rightarrow> string" where
  "stake_key p = ''staking/stake/'' @ party_name p"

definition deleg_key :: "party_id \<Rightarrow> party_id \<Rightarrow> string" where
  "deleg_key delegator validator = ''staking/delegation/'' @ party_name delegator @ ''/'' @ party_name validator"

definition proposal_key :: "'x kernel_ext_scheme \<Rightarrow> hash \<Rightarrow> string" where
  "proposal_key X i = ''gov/proposal/'' @ to_hex X i"

definition vote_key :: "'x kernel_ext_scheme \<Rightarrow> hash \<Rightarrow> party_id \<Rightarrow> string" where
  "vote_key X i voter = ''gov/vote/'' @ to_hex X i @ ''/'' @ party_name voter"

definition slash_key :: "'x kernel_ext_scheme \<Rightarrow> hash \<Rightarrow> string" where
  "slash_key X offence = ''staking/slashed/'' @ to_hex X offence"

definition reward_debt_key :: "party_id \<Rightarrow> string" where
  "reward_debt_key who = ''staking/reward_debt/'' @ party_name who"

definition locked_key :: "party_id \<Rightarrow> string" where
  "locked_key who = ''staking/locked/'' @ party_name who"

definition locked_of :: "'x kernel_ext_scheme \<Rightarrow> state_tree \<Rightarrow> party_id \<Rightarrow> u128" where
  "locked_of X s who = read_u128 X s (locked_key who)"

abbreviation "TOTAL_STAKE_KEY \<equiv> ''staking/total_stake''"
abbreviation "REWARD_ACC_KEY \<equiv> ''staking/reward_acc''"

definition stake_total :: "'x kernel_ext_scheme \<Rightarrow> state_tree \<Rightarrow> u128" where
  "stake_total X s = read_u128 X s TOTAL_STAKE_KEY"

text \<open>\<open>(cur as i128 + delta).max(0) as u128\<close>\<close>

definition add_clamped :: "u128 \<Rightarrow> u128 \<Rightarrow> u128" where
  "add_clamped cur delta = (if sint (cur + delta) < 0 then 0 else cur + delta)"

definition add_total_stake :: "'x kernel_ext_scheme \<Rightarrow> u128 \<Rightarrow> (state_tree, prism_error, unit) act" where
  "add_total_stake X delta = andthen (gets (stake_total X)) (\<lambda>cur.
     write_u128 X TOTAL_STAKE_KEY (add_clamped cur delta))"

definition reward_acc :: "'x kernel_ext_scheme \<Rightarrow> state_tree \<Rightarrow> u128" where
  "reward_acc X s = read_u128 X s REWARD_ACC_KEY"

definition pending_reward :: "'x kernel_ext_scheme \<Rightarrow> state_tree \<Rightarrow> party_id \<Rightarrow> u128 \<Rightarrow> u128" where
  "pending_reward X s who pw =
     (let acc = reward_acc X s; entitled = saturating_mul pw acc div ACC_SCALE;
          debt = read_u128 X s (reward_debt_key who) in
      saturating_sub entitled debt)"

definition settle_reward_debt :: "'x kernel_ext_scheme \<Rightarrow> party_id \<Rightarrow> u128 \<Rightarrow> (state_tree, prism_error, unit) act" where
  "settle_reward_debt X who pw =
     andthen (gets (reward_acc X)) (\<lambda>acc.
     write_u128 X (reward_debt_key who) (saturating_mul pw acc div ACC_SCALE))"

definition harvest_pending :: "'x kernel_ext_scheme \<Rightarrow> party_id \<Rightarrow> (state_tree, prism_error, u128) act" where
  "harvest_pending X who =
     andthen (gets (\<lambda>s. pending_reward X s who (locked_of X s who))) (\<lambda>pending.
     andthen (if pending > 0
              then move_balance X (native_token_id X) reward_pool_account who pending
              else ret ()) (\<lambda>_.
     ret pending))"

definition update_lock :: "'x kernel_ext_scheme \<Rightarrow> party_id \<Rightarrow> u128 \<Rightarrow> (state_tree, prism_error, unit) act" where
  "update_lock X who delta =
     andthen (harvest_pending X who) (\<lambda>_.
     andthen (gets (\<lambda>s. locked_of X s who)) (\<lambda>cur.
     let next = add_clamped cur delta in
     andthen (write_u128 X (locked_key who) next) (\<lambda>_.
     andthen (add_total_stake X delta) (\<lambda>_.
     settle_reward_debt X who next))))"

definition stake_of :: "'x staking_ext_scheme \<Rightarrow> state_tree \<Rightarrow> party_id \<Rightarrow> stake_record" where
  "stake_of X s who = (case get_json_opt (js_stake_record X) s (stake_key who) of
      None \<Rightarrow> stake_empty who
    | Some rec \<Rightarrow> rec)"

definition save_stake :: "'x staking_ext_scheme \<Rightarrow> stake_record \<Rightarrow> (state_tree, prism_error, unit) act" where
  "save_stake X rec = put_json_internal (js_stake_record X) (stake_key (sr_owner rec)) rec"

definition delegation :: "'x kernel_ext_scheme \<Rightarrow> state_tree \<Rightarrow> party_id \<Rightarrow> party_id \<Rightarrow> u128" where
  "delegation X s delegator validator = read_u128 X s (deleg_key delegator validator)"

definition set_delegation :: "'x kernel_ext_scheme \<Rightarrow> party_id \<Rightarrow> party_id \<Rightarrow> u128 \<Rightarrow> (state_tree, prism_error, unit) act" where
  "set_delegation X delegator validator v = write_u128 X (deleg_key delegator validator) v"

definition staking_emit :: "'x staking_ext_scheme \<Rightarrow> command \<Rightarrow> staking_event \<Rightarrow> event" where
  "staking_emit X cmd payload = emit X ''staking'' cmd (to_vec_or_default (js_staking_event X) payload)"

section \<open>Stake and delegation\<close>

definition staking_stake :: "'x staking_ext_scheme \<Rightarrow> command \<Rightarrow> u128 \<Rightarrow> (state_tree, prism_error, prism_output) act" where
  "staking_stake X cmd amount =
     (let me = cmd_submitter cmd in
      andthen (ensure (amount \<noteq> 0) (InvalidPayload ''amount must be > 0'')) (\<lambda>_.
      andthen (move_balance X (native_token_id X) me escrow_account amount) (\<lambda>_.
      andthen (gets (\<lambda>s. stake_of X s me)) (\<lambda>rec0.
      let rec = rec0\<lparr>sr_self_bonded := sr_self_bonded rec0 + amount\<rparr> in
      andthen (save_stake X rec) (\<lambda>_.
      andthen (update_lock X me amount) (\<lambda>_.
      ret (single_output (staking_emit X cmd (SkStaked me amount (sr_self_bonded rec))) 3000)))))))"

definition staking_unstake :: "'x staking_ext_scheme \<Rightarrow> command \<Rightarrow> u128 \<Rightarrow> (state_tree, prism_error, prism_output) act" where
  "staking_unstake X cmd amount =
     (let me = cmd_submitter cmd in
      andthen (gets (\<lambda>s. stake_of X s me)) (\<lambda>rec0.
      andthen (ensure (\<not> sr_self_bonded rec0 < amount) (LimitExceeded ''not enough self-bonded stake'')) (\<lambda>_.
      andthen (move_balance X (native_token_id X) escrow_account me amount) (\<lambda>_.
      let rec = rec0\<lparr>sr_self_bonded := sr_self_bonded rec0 - amount\<rparr> in
      andthen (save_stake X rec) (\<lambda>_.
      andthen (update_lock X me (- amount)) (\<lambda>_.
      ret (single_output (staking_emit X cmd (SkUnstaked me amount (sr_self_bonded rec))) 3000)))))))"

definition staking_delegate ::
  "'x staking_ext_scheme \<Rightarrow> command \<Rightarrow> party_id \<Rightarrow> u128 \<Rightarrow> (state_tree, prism_error, prism_output) act" where
  "staking_delegate X cmd validator amount =
     (let me = cmd_submitter cmd in
      andthen (ensure (amount \<noteq> 0) (InvalidPayload ''amount must be > 0'')) (\<lambda>_.
      andthen (move_balance X (native_token_id X) me escrow_account amount) (\<lambda>_.
      andthen (gets (\<lambda>s. delegation X s me validator)) (\<lambda>cur.
      andthen (set_delegation X me validator (cur + amount)) (\<lambda>_.
      andthen (gets (\<lambda>s. stake_of X s validator)) (\<lambda>vrec.
      andthen (save_stake X (vrec\<lparr>sr_delegated_in := sr_delegated_in vrec + amount\<rparr>)) (\<lambda>_.
      andthen (update_lock X me amount) (\<lambda>_.
      ret (single_output (staking_emit X cmd (SkDelegated me validator amount)) 3500)))))))))"

definition staking_undelegate ::
  "'x staking_ext_scheme \<Rightarrow> command \<Rightarrow> party_id \<Rightarrow> u128 \<Rightarrow> (state_tree, prism_error, prism_output) act" where
  "staking_undelegate X cmd validator amount =
     (let me = cmd_submitter cmd in
      andthen (gets (\<lambda>s. delegation X s me validator)) (\<lambda>cur.
      andthen (ensure (\<not> cur < amount) (LimitExceeded ''not enough delegated'')) (\<lambda>_.
      andthen (move_balance X (native_token_id X) escrow_account me amount) (\<lambda>_.
      andthen (set_delegation X me validator (cur - amount)) (\<lambda>_.
      andthen (gets (\<lambda>s. stake_of X s validator)) (\<lambda>vrec.
      andthen (save_stake X (vrec\<lparr>sr_delegated_in := saturating_sub (sr_delegated_in vrec) amount\<rparr>)) (\<lambda>_.
      andthen (update_lock X me (- amount)) (\<lambda>_.
      ret (single_output (staking_emit X cmd (SkUndelegated me validator amount)) 3500)))))))))"

section \<open>Governance\<close>

definition gov_propose ::
  "'x staking_ext_scheme \<Rightarrow> command \<Rightarrow> u64 \<Rightarrow> string \<Rightarrow> string \<Rightarrow> u64 \<Rightarrow> (state_tree, prism_error, prism_output) act" where
  "gov_propose X cmd height title description voting_period =
     (let me = cmd_submitter cmd in
      andthen (gets (\<lambda>s. stake_of X s me)) (\<lambda>rec.
      andthen (ensure (sr_self_bonded rec \<noteq> 0) (Unauthorized ''only bonded stakers can open proposals'')) (\<lambda>_.
      let i = commit X ''gov/proposal'' [as_bytes (party_name me), as_bytes title, u64_to_le_bytes (cmd_nonce cmd)] in
      andthen (gets (\<lambda>s. st_contains s (proposal_key X i))) (\<lambda>exists.
      andthen (ensure (\<not> exists) (InvalidPayload ''proposal already exists'')) (\<lambda>_.
      let deadline = height + max voting_period 1 in
      andthen (put_json_internal (js_proposal X) (proposal_key X i)
        \<lparr>gp_id = i, gp_proposer = me, gp_title = title, gp_description = description, gp_status = Active,
         gp_yes_power = 0, gp_no_power = 0, gp_deadline_height = deadline\<rparr>) (\<lambda>_.
      ret (single_output (staking_emit X cmd (SkProposalOpened i me title deadline)) 5000)))))))"

definition load_proposal :: "'x staking_ext_scheme \<Rightarrow> hash \<Rightarrow> (state_tree, prism_error, proposal) act" where
  "load_proposal X i = get_json_or (js_proposal X) (proposal_key X i) (NotFound ''proposal'')"

definition gov_vote ::
  "'x staking_ext_scheme \<Rightarrow> command \<Rightarrow> u64 \<Rightarrow> hash \<Rightarrow> bool \<Rightarrow> (state_tree, prism_error, prism_output) act" where
  "gov_vote X cmd height i approve =
     (let me = cmd_submitter cmd in
      andthen (load_proposal X i) (\<lambda>p.
      andthen (ensure (\<not> gp_status p \<noteq> Active) (InvalidPayload ''proposal not active'')) (\<lambda>_.
      andthen (ensure (\<not> height > gp_deadline_height p) (InvalidPayload ''voting period ended'')) (\<lambda>_.
      andthen (gets (\<lambda>s. st_contains s (vote_key X i me))) (\<lambda>voted.
      andthen (ensure (\<not> voted) (InvalidPayload ''already voted'')) (\<lambda>_.
      andthen (gets (\<lambda>s. voting_power (stake_of X s me))) (\<lambda>pw.
      andthen (ensure (pw \<noteq> 0) (Unauthorized ''no voting power'')) (\<lambda>_.
      let p' = (if approve then p\<lparr>gp_yes_power := gp_yes_power p + pw\<rparr>
                else p\<lparr>gp_no_power := gp_no_power p + pw\<rparr>) in
      andthen (put_json_internal (js_bool X) (vote_key X i me) approve) (\<lambda>_.
      andthen (put_json_internal (js_proposal X) (proposal_key X i) p') (\<lambda>_.
      ret (single_output (staking_emit X cmd (SkVoted i me approve pw)) 2000)))))))))))"

definition gov_finalize ::
  "'x staking_ext_scheme \<Rightarrow> command \<Rightarrow> u64 \<Rightarrow> hash \<Rightarrow> (state_tree, prism_error, prism_output) act" where
  "gov_finalize X cmd height i =
     andthen (load_proposal X i) (\<lambda>p.
     andthen (ensure (\<not> gp_status p \<noteq> Active) (InvalidPayload ''already finalized'')) (\<lambda>_.
     andthen (ensure (\<not> height \<le> gp_deadline_height p) (InvalidPayload ''voting period not over'')) (\<lambda>_.
     let p' = p\<lparr>gp_status := (if gp_yes_power p > gp_no_power p then Passed else Rejected)\<rparr> in
     andthen (put_json_internal (js_proposal X) (proposal_key X i) p') (\<lambda>_.
     ret (single_output (staking_emit X cmd (SkProposalFinalized i (gp_status p') (gp_yes_power p') (gp_no_power p'))) 2500)))))"

section \<open>Slashing\<close>

definition decode_hex :: "'x hash_ext_scheme \<Rightarrow> string \<Rightarrow> string \<Rightarrow> (state_tree, prism_error, bytes) act" where
  "decode_hex X text message = of_option (InvalidPayload message) (hex_decode X (trim_start_0x text))"

definition check_signature ::
  "'x identity_ext_scheme \<Rightarrow> bytes \<Rightarrow> bytes \<Rightarrow> bytes \<Rightarrow> string \<Rightarrow> (state_tree, prism_error, unit) act" where
  "check_signature X pk m sg message = (case verify_bytes X pk m sg of Inl _ \<Rightarrow> raise (Unauthorized message) | Inr _ \<Rightarrow> ret ())"

text \<open>The part both kinds of proof share: burn a fifth of the self-bonded stake, once per offence.\<close>

definition slash_offence ::
  "'x staking_ext_scheme \<Rightarrow> command \<Rightarrow> party_id \<Rightarrow> hash \<Rightarrow> (state_tree, prism_error, prism_output) act" where
  "slash_offence X cmd offender offence =
     andthen (gets (\<lambda>s. st_contains s (slash_key X offence))) (\<lambda>done.
     andthen (ensure (\<not> done) (InvalidPayload ''offence already slashed'')) (\<lambda>_.
     andthen (gets (\<lambda>s. stake_of X s offender)) (\<lambda>rec0.
     let burned = sr_self_bonded rec0 * ucast DEFAULT_SLASH_BPS div 10000 in
     andthen (if burned > 0
              then andthen (map_err (\<lambda>_. Internal ''slash burn failed'')
                     (burn_from X (native_token_id X) escrow_account burned)) (\<lambda>_.
                   let rec = rec0\<lparr>sr_self_bonded := sr_self_bonded rec0 - burned\<rparr> in
                   andthen (save_stake X rec) (\<lambda>_.
                   andthen (update_lock X offender (- burned)) (\<lambda>_.
                   ret rec)))
              else ret rec0) (\<lambda>rec.
     andthen (put_json_internal (js_bool X) (slash_key X offence) True) (\<lambda>_.
     ret (single_output (staking_emit X cmd (SkSlashed offender burned (sr_self_bonded rec))) 7000))))))"

definition staking_slash ::
  "'x staking_ext_scheme \<Rightarrow> command \<Rightarrow> equivocation_proof \<Rightarrow> (state_tree, prism_error, prism_output) act" where
  "staking_slash X cmd prf =
     andthen (decode_hex X (ep_public_key prf) ''bad public key hex'') (\<lambda>pk.
     andthen (decode_hex X (ep_message_a prf) ''bad message_a hex'') (\<lambda>ma.
     andthen (decode_hex X (ep_message_b prf) ''bad message_b hex'') (\<lambda>mb.
     andthen (decode_hex X (ep_signature_a prf) ''bad signature_a hex'') (\<lambda>sa.
     andthen (decode_hex X (ep_signature_b prf) ''bad signature_b hex'') (\<lambda>sb.
     andthen (ensure (\<not> ma = mb) (InvalidPayload
       (''messages are identical '' @ [CHR 0xE2, CHR 0x80, CHR 0x94] @ '' not equivocation''))) (\<lambda>_.
     andthen (check_signature X pk ma sa ''signature_a invalid'') (\<lambda>_.
     andthen (check_signature X pk mb sb ''signature_b invalid'') (\<lambda>_.
     let (lo, hi) = (if ma \<le> mb then (ma, mb) else (mb, ma));
         offence = commit X ''staking/equivocation'' [as_bytes (party_name (ep_offender prf)), lo, hi] in
     slash_offence X cmd (ep_offender prf) offence))))))))"

definition verify_stmt ::
  "'x identity_ext_scheme \<Rightarrow> hash \<Rightarrow> party_id list \<Rightarrow> attestation_statement \<Rightarrow> (state_tree, prism_error, unit) act" where
  "verify_stmt X c holders st =
     andthen (ensure (as_party st \<in> set holders)
       (Unauthorized ''attester is not a stakeholder of this confidential tx'')) (\<lambda>_.
     andthen (decode_hex X (as_root st) ''bad root hex'') (\<lambda>root.
     andthen (ensure (\<not> length root \<noteq> 32) (InvalidPayload ''root must be 32 bytes'')) (\<lambda>_.
     let expected_msg = attestation_message c (Hash root) (as_party st) in
     andthen (decode_hex X (as_public_key st) ''bad public key hex'') (\<lambda>pk.
     andthen (decode_hex X (as_signature st) ''bad signature hex'') (\<lambda>sg.
     check_signature X pk expected_msg sg ''attestation signature invalid for this commitment'')))))"

fun majority_loop ::
  "'x identity_ext_scheme \<Rightarrow> hash \<Rightarrow> party_id list \<Rightarrow> party_id \<Rightarrow> party_id list \<Rightarrow> string option \<Rightarrow>
   attestation_statement list \<Rightarrow> (state_tree, prism_error, string option) act" where
  "majority_loop X c holders offender seen canonical [] = ret canonical"
| "majority_loop X c holders offender seen canonical (st # sts) =
     andthen (verify_stmt X c holders st) (\<lambda>_.
     andthen (ensure (\<not> as_party st \<in> set seen) (InvalidPayload ''duplicate party in majority set'')) (\<lambda>_.
     andthen (ensure (\<not> as_party st = offender) (InvalidPayload ''offender cannot be in the majority set'')) (\<lambda>_.
     case canonical of
       None \<Rightarrow> majority_loop X c holders offender (seen @ [as_party st]) (Some (as_root st)) sts
     | Some r \<Rightarrow>
         if r \<noteq> as_root st then raise (InvalidPayload ''majority set does not agree on one root'')
         else majority_loop X c holders offender (seen @ [as_party st]) canonical sts)))"

text \<open>The checks on a quorum-fraud proof, before the state is looked at.\<close>

definition check_quorum_proof :: "'x identity_ext_scheme \<Rightarrow> quorum_fraud_proof \<Rightarrow> (state_tree, prism_error, unit) act" where
  "check_quorum_proof X prf =
     (let env = qp_envelope prf; c = pe_commitment env; holders = pe_stakeholders env; count = length holders;
          threshold = count div 2 + 1 in
      andthen (ensure (verify_commitment X env) (InvalidPayload ''envelope commitment does not bind its contents'')) (\<lambda>_.
      andthen (ensure (\<not> as_party (qp_offender_stmt prf) \<noteq> qp_offender prf)
        (InvalidPayload ''offender statement party mismatch'')) (\<lambda>_.
      andthen (verify_stmt X c holders (qp_offender_stmt prf)) (\<lambda>_.
      andthen (majority_loop X c holders (qp_offender prf) [] None (qp_majority prf)) (\<lambda>found.
      andthen (of_option (InvalidPayload ''empty majority set'') found) (\<lambda>canonical.
      andthen (ensure (\<not> as_root (qp_offender_stmt prf) = canonical) (InvalidPayload
        (''offender agrees with the canonical root '' @ [CHR 0xE2, CHR 0x80, CHR 0x94] @ '' nothing to slash''))) (\<lambda>_.
      ensure (\<not> length (qp_majority prf) < threshold)
        (InvalidPayload ''majority set does not meet the quorum threshold''))))))))"

definition staking_slash_quorum ::
  "'x staking_ext_scheme \<Rightarrow> command \<Rightarrow> quorum_fraud_proof \<Rightarrow> (state_tree, prism_error, prism_output) act" where
  "staking_slash_quorum X cmd prf =
     andthen (check_quorum_proof X prf) (\<lambda>_.
     let offence = commit X ''staking/quorum-fraud''
           [as_bytes (party_name (qp_offender prf)), hash_bytes (pe_commitment (qp_envelope prf)),
            as_bytes (as_root (qp_offender_stmt prf))] in
     slash_offence X cmd (qp_offender prf) offence)"

section \<open>Rewards\<close>

definition fund_rewards :: "'x staking_ext_scheme \<Rightarrow> command \<Rightarrow> u128 \<Rightarrow> (state_tree, prism_error, prism_output) act" where
  "fund_rewards X cmd amount =
     (let me = cmd_submitter cmd in
      andthen (ensure (amount \<noteq> 0) (InvalidPayload ''amount must be > 0'')) (\<lambda>_.
      andthen (gets (stake_total X)) (\<lambda>tot.
      andthen (ensure (tot \<noteq> 0) (InvalidPayload ''no stake to reward yet'')) (\<lambda>_.
      andthen (move_balance X (native_token_id X) me reward_pool_account amount) (\<lambda>_.
      andthen (gets (reward_acc X)) (\<lambda>acc.
      let added = saturating_mul amount ACC_SCALE div tot in
      andthen (write_u128 X REWARD_ACC_KEY (saturating_add acc added)) (\<lambda>_.
      ret (single_output (staking_emit X cmd (SkRewardsFunded me amount)) 2000))))))))"

definition claim_rewards :: "'x staking_ext_scheme \<Rightarrow> command \<Rightarrow> (state_tree, prism_error, prism_output) act" where
  "claim_rewards X cmd =
     (let me = cmd_submitter cmd in
      andthen (harvest_pending X me) (\<lambda>claimed.
      andthen (gets (\<lambda>s. locked_of X s me)) (\<lambda>lk.
      andthen (settle_reward_debt X me lk) (\<lambda>_.
      ret (single_output (staking_emit X cmd (SkRewardsClaimed me claimed)) 2500)))))"

section \<open>The prism\<close>

definition staking_dispatch ::
  "'x staking_ext_scheme \<Rightarrow> command \<Rightarrow> u64 \<Rightarrow> staking_command \<Rightarrow> (state_tree, prism_error, prism_output) act" where
  "staking_dispatch X cmd height c = (case c of
      ScStake amount \<Rightarrow> staking_stake X cmd amount
    | ScUnstake amount \<Rightarrow> staking_unstake X cmd amount
    | ScDelegate validator amount \<Rightarrow> staking_delegate X cmd validator amount
    | ScUndelegate validator amount \<Rightarrow> staking_undelegate X cmd validator amount
    | ScPropose title description voting_period \<Rightarrow> gov_propose X cmd height title description voting_period
    | ScVote i approve \<Rightarrow> gov_vote X cmd height i approve
    | ScFinalize i \<Rightarrow> gov_finalize X cmd height i
    | ScSlash prf \<Rightarrow> staking_slash X cmd prf
    | ScSlashQuorum prf \<Rightarrow> staking_slash_quorum X cmd prf
    | ScFundRewards amount \<Rightarrow> fund_rewards X cmd amount
    | ScClaimRewards \<Rightarrow> claim_rewards X cmd)"

definition staking_handle :: "'x staking_ext_scheme \<Rightarrow> handler" where
  "staking_handle X cmd =
     (let (body, height) = split_height (cmd_payload cmd) in
      andthen (parse_payload (js_staking_command X) body) (staking_dispatch X cmd height))"

definition staking_estimate :: "command \<Rightarrow> state_tree \<Rightarrow> u64" where
  "staking_estimate cmd s = 3000"

definition staking_prism :: "'x staking_ext_scheme \<Rightarrow> prism" where
  "staking_prism X = \<lparr>pr_info = \<lparr>info_name = ''staking'',
       info_description = ''Stake native LUX, delegate, and vote on stake-weighted governance'',
       info_version = ''1.0''\<rparr>,
     pr_handle = staking_handle X, pr_estimate = staking_estimate\<rparr>"

definition staking_command_of :: "'x staking_ext_scheme \<Rightarrow> party_id \<Rightarrow> visibility \<Rightarrow> u64 \<Rightarrow> u64 \<Rightarrow> staking_command \<Rightarrow> command" where
  "staking_command_of X submitter vis nonce height c =
     \<lparr>cmd_prism = ''staking'', cmd_submitter = submitter, cmd_visibility = vis,
      cmd_payload = to_vec_or_default (js_staking_command X) c @ u64_to_le_bytes height, cmd_nonce = nonce\<rparr>"

definition voting_power_of :: "'x staking_ext_scheme \<Rightarrow> state_tree \<Rightarrow> party_id \<Rightarrow> u128" where
  "voting_power_of X s who = voting_power (stake_of X s who)"

definition pending_rewards_of :: "'x kernel_ext_scheme \<Rightarrow> state_tree \<Rightarrow> party_id \<Rightarrow> u128" where
  "pending_rewards_of X s who = pending_reward X s who (locked_of X s who)"

section \<open>Reading the cells after a write\<close>

definition proposal_of :: "'x staking_ext_scheme \<Rightarrow> state_tree \<Rightarrow> hash \<Rightarrow> proposal option" where
  "proposal_of X s i = get_json_opt (js_proposal X) s (proposal_key X i)"

definition put_stake :: "'x staking_ext_scheme \<Rightarrow> stake_record \<Rightarrow> state_tree \<Rightarrow> state_tree" where
  "put_stake X rec s = st_put (stake_key (sr_owner rec)) (to_vec_or_default (js_stake_record X) rec) s"

lemmas staking_key_defs = stake_key_def deleg_key_def proposal_key_def vote_key_def slash_key_def reward_debt_key_def
  locked_key_def

lemma staking_ext_okD:
  assumes "staking_ext_ok X"
  shows "token_ext_ok X" "kernel_ext_ok X" "hash_ext_ok X" "codec_ok (js_stake_record X)" "codec_ok (js_proposal X)"
    "codec_ok (js_bool X)" "codec_ok (js_staking_command X)"
  using assms by (simp_all add: staking_ext_ok_def token_ext_okD)

lemma save_stake_ok: "staking_ext_ok X \<Longrightarrow> save_stake X rec = modify (put_stake X rec)"
  by (simp add: save_stake_def put_stake_def [abs_def] staking_ext_okD)

named_theorems staking_cells \<open>reading the staking cells after a write\<close>

lemma party_name_inj: "party_name p = party_name q \<longleftrightarrow> p = q"
  by (auto simp: party_id.expand)

lemma locked_reads [staking_cells]:
  "kernel_ext_ok X \<Longrightarrow> locked_of X (put_u128 X (locked_key w) v s) = (locked_of X s)(w := v)"
  "locked_of X (put_balance X t u v s) = locked_of X s" "locked_of X (put_u128 X TOTAL_STAKE_KEY v s) = locked_of X s"
  "locked_of X (put_u128 X REWARD_ACC_KEY v s) = locked_of X s" "locked_of X (put_u128 X (reward_debt_key w) v s) = locked_of X s"
  "locked_of X (put_u128 X (deleg_key d w) v s) = locked_of X s"
  "locked_of X (st_put (proposal_key X i) b s) = locked_of X s" "locked_of X (st_put (vote_key X i w) b s) = locked_of X s"
  "locked_of X (st_put (slash_key X i) b s) = locked_of X s"
  by (auto simp: fun_eq_iff locked_of_def read_u128_put put_u128_def read_u128_frame staking_key_defs bal_key_def party_name_inj
      read_u128_put [unfolded put_u128_def])

lemma total_reads [staking_cells]:
  "kernel_ext_ok X \<Longrightarrow> stake_total X (put_u128 X TOTAL_STAKE_KEY v s) = v"
  "stake_total X (put_balance X t u v s) = stake_total X s" "stake_total X (put_u128 X (locked_key w) v s) = stake_total X s"
  "stake_total X (put_u128 X REWARD_ACC_KEY v s) = stake_total X s" "stake_total X (put_u128 X (reward_debt_key w) v s) = stake_total X s"
  "stake_total X (put_u128 X (deleg_key d w) v s) = stake_total X s"
  "stake_total X (st_put (proposal_key X i) b s) = stake_total X s" "stake_total X (st_put (vote_key X i w) b s) = stake_total X s"
  "stake_total X (st_put (slash_key X i) b s) = stake_total X s"
  by (auto simp: stake_total_def read_u128_put put_u128_def read_u128_frame staking_key_defs bal_key_def
      read_u128_put [unfolded put_u128_def])

lemma delegation_reads [staking_cells]:
  "delegation X (put_balance X t u v s) = delegation X s" "delegation X (put_u128 X (locked_key w) v s) = delegation X s"
  "delegation X (put_u128 X REWARD_ACC_KEY v s) = delegation X s" "delegation X (put_u128 X (reward_debt_key w) v s) = delegation X s"
  "delegation X (put_u128 X TOTAL_STAKE_KEY v s) = delegation X s"
  "delegation X (st_put (proposal_key X i) b s) = delegation X s" "delegation X (st_put (vote_key X i w) b s) = delegation X s"
  "delegation X (st_put (slash_key X i) b s) = delegation X s"
  by (auto simp: fun_eq_iff delegation_def put_u128_def read_u128_frame staking_key_defs bal_key_def)

lemma stake_reads [staking_cells]:
  "stake_of X (put_balance X t u v s) = stake_of X s" "stake_of X (put_u128 X (locked_key w) v s) = stake_of X s"
  "stake_of X (put_u128 X REWARD_ACC_KEY v s) = stake_of X s" "stake_of X (put_u128 X (reward_debt_key w) v s) = stake_of X s"
  "stake_of X (put_u128 X TOTAL_STAKE_KEY v s) = stake_of X s" "stake_of X (put_u128 X (deleg_key d w) v s) = stake_of X s"
  "stake_of X (st_put (proposal_key X i) b s) = stake_of X s" "stake_of X (st_put (vote_key X i w) b s) = stake_of X s"
  "stake_of X (st_put (slash_key X i) b s) = stake_of X s"
  by (auto simp: fun_eq_iff stake_of_def put_u128_def staking_key_defs bal_key_def)

lemma put_stake_reads [staking_cells]:
  "locked_of X (put_stake X rec s) = locked_of X s" "stake_total X (put_stake X rec s) = stake_total X s"
  "delegation X (put_stake X rec s) = delegation X s" "balance X (put_stake X rec s) = balance X s"
  "staking_ext_ok X \<Longrightarrow> stake_of X (put_stake X rec s) = (stake_of X s)(sr_owner rec := rec)"
  by (auto simp: fun_eq_iff put_stake_def locked_of_def stake_total_def delegation_def balance_def stake_of_def read_u128_frame
      staking_key_defs bal_key_def get_json_opt_put staking_ext_okD party_name_inj)

lemma balance_reads [staking_cells]:
  "balance X (put_u128 X (locked_key w) v s) = balance X s" "balance X (put_u128 X REWARD_ACC_KEY v s) = balance X s"
  "balance X (put_u128 X (reward_debt_key w) v s) = balance X s" "balance X (put_u128 X TOTAL_STAKE_KEY v s) = balance X s"
  "balance X (put_u128 X (deleg_key d w) v s) = balance X s"
  "balance X (st_put (proposal_key X i) b s) = balance X s" "balance X (st_put (vote_key X i w) b s) = balance X s"
  "balance X (st_put (slash_key X i) b s) = balance X s"
  by (auto simp: fun_eq_iff balance_def put_u128_def read_u128_frame staking_key_defs bal_key_def)

lemma bump_supply_reads [staking_cells]:
  "locked_of X (bump_supply X t f s) = locked_of X s" "stake_total X (bump_supply X t f s) = stake_total X s"
  "delegation X (bump_supply X t f s) = delegation X s" "stake_of X (bump_supply X t f s) = stake_of X s"
  by (auto simp: bump_supply_def put_meta_def fun_eq_iff locked_of_def stake_total_def delegation_def stake_of_def read_u128_frame
      staking_key_defs meta_key_def split: option.splits)

section \<open>Books\<close>

interpretation lk: u128_book kernel_ext_ok locked_of "\<lambda>X w v s. put_u128 X (locked_key w) v s"
proof
  show "kernel_ext_ok X \<Longrightarrow> locked_of X (put_u128 X (locked_key w) v s) = (locked_of X s)(w := v)" for X :: "'a kernel_ext_scheme" and w v s
    by (rule locked_reads)
  show "finite {w. locked_of X s w \<noteq> 0}" for X :: "'a kernel_ext_scheme" and s
  proof -
    have "locked_key ` {w. locked_of X s w \<noteq> 0} \<subseteq> fmdom' (entries s)"
      by (auto simp: locked_of_def read_u128_stored)
    moreover have "inj_on locked_key A" for A by (simp add: inj_on_def locked_key_def party_name_inj)
    ultimately show ?thesis by (meson finite_fmdom' inj_on_finite)
  qed
qed

definition plain :: "party_id \<Rightarrow> bool" where
  "plain p \<longleftrightarrow> CHR ''/'' \<notin> set (party_name p)"

lemma deleg_key_inj: "deleg_key d v = deleg_key d w \<longleftrightarrow> v = w"
  by (simp add: deleg_key_def party_name_inj)

lemma deleg_key_plain: "plain d \<Longrightarrow> plain e \<Longrightarrow> deleg_key d v = deleg_key e w \<longleftrightarrow> d = e \<and> v = w"
proof
  assume p: "plain d" "plain e" and "deleg_key d v = deleg_key e w"
  then have "party_name d @ CHR ''/'' # party_name v = party_name e @ CHR ''/'' # party_name w" by (simp add: deleg_key_def)
  from split_at_marker [OF this] p show "d = e \<and> v = w" by (auto simp: plain_def party_id.expand)
qed simp

interpretation dl: u128_book "\<lambda>(X, d). kernel_ext_ok X" "\<lambda>(X, d) s. delegation X s d" "\<lambda>(X, d) w v s. put_u128 X (deleg_key d w) v s"
proof
  show "(case p of (X, d) \<Rightarrow> kernel_ext_ok X) \<Longrightarrow>
      (case p of (X, d) \<Rightarrow> \<lambda>s. delegation X s d) ((case p of (X, d) \<Rightarrow> \<lambda>w v s. put_u128 X (deleg_key d w) v s) w v s) =
      ((case p of (X, d) \<Rightarrow> \<lambda>s. delegation X s d) s)(w := v)" for p :: "'a kernel_ext_scheme \<times> party_id" and w v s
    by (cases p) (auto simp: fun_eq_iff delegation_def read_u128_put deleg_key_inj)
  show "finite {w. (case p of (X, d) \<Rightarrow> \<lambda>s. delegation X s d) s w \<noteq> 0}" for p :: "'a kernel_ext_scheme \<times> party_id" and s
  proof (cases p)
    case (Pair X d)
    have "deleg_key d ` {w. delegation X s d w \<noteq> 0} \<subseteq> fmdom' (entries s)"
      by (auto simp: delegation_def read_u128_stored)
    moreover have "inj_on (deleg_key d) A" for A by (simp add: inj_on_def deleg_key_inj)
    ultimately show ?thesis unfolding Pair by (simp, meson finite_fmdom' inj_on_finite)
  qed
qed

lemmas dl_entry = dl.entry_le_total [of "(X, d)" for X d, simplified]
lemmas dl_wr = dl.total_wr [of "(X, d)" for X d, simplified]

lemma delegation_put:
  assumes "kernel_ext_ok X" and "plain d" and "plain e"
  shows "delegation X (put_u128 X (deleg_key d w) v s) e = (if d = e then (delegation X s e)(w := v) else delegation X s e)"
  using deleg_key_plain [OF assms(2,3)] assms(1) by (auto simp: fun_eq_iff delegation_def read_u128_put)

section \<open>What each operation does when it succeeds\<close>

lemma sint_nonneg: "unat w < 2 ^ 127 \<Longrightarrow> \<not> sint (w :: u128) < 0"
proof -
  assume "unat w < 2 ^ 127"
  then have "\<not> bit (unat w) 127" by (simp add: bit_iff_odd)
  then have "\<not> bit w 127" by (simp add: bit_unsigned_iff)
  then show ?thesis using bit_last_iff [of w] by simp
qed

lemma add_clamped_up:
  assumes "unat a + unat b < 2 ^ 127"
  shows "unat (add_clamped a b) = unat a + unat b"
proof -
  have u: "unat (a + b) = unat a + unat b" using assms by (simp add: unat_word_ariths)
  with assms sint_nonneg [of "a + b"] show ?thesis by (simp add: add_clamped_def)
qed

lemma add_clamped_down:
  assumes "unat a < 2 ^ 127" and "b \<le> a"
  shows "unat (add_clamped a (- b)) = unat a - unat b"
proof -
  have u: "unat (a - b) = unat a - unat b" using assms(2) by (simp add: unat_sub)
  with assms sint_nonneg [of "a - b"] show ?thesis by (simp add: add_clamped_def)
qed

text \<open>What moving the native token between two accounts changes: balances only, and not their sum.\<close>

definition moves :: "'x kernel_ext_scheme \<Rightarrow> party_id \<Rightarrow> party_id \<Rightarrow> u128 \<Rightarrow> state_tree \<Rightarrow> state_tree \<Rightarrow> bool" where
  "moves X src dst a s s' \<longleftrightarrow>
     (let s1 = put_balance X (native_token_id X) src (balance X s (native_token_id X) src - a) s in
      a \<le> balance X s (native_token_id X) src \<and>
      (\<exists>v. checked_add (balance X s1 (native_token_id X) dst) a = Some v \<and> s' = put_balance X (native_token_id X) dst v s1))"

abbreviation native :: "'x kernel_ext_scheme \<Rightarrow> state_tree \<Rightarrow> party_id \<Rightarrow> u128" where
  "native X s who \<equiv> balance X s (native_token_id X) who"

lemma move_native: "kernel_ext_ok X \<Longrightarrow> move_balance X (native_token_id X) src dst a s = (Ok u, s') \<longleftrightarrow> moves X src dst a s s'"
  by (simp add: move_balance_Ok moves_def)

lemma moves_reads:
  assumes "moves X src dst a s s'"
  shows "locked_of X s' = locked_of X s" "stake_total X s' = stake_total X s" "delegation X s' = delegation X s"
  using assms by (auto simp: moves_def Let_def staking_cells)

lemma moves_stake_of: "moves X src dst a s s' \<Longrightarrow> stake_of X s' = stake_of X s"
  by (auto simp: moves_def Let_def staking_cells)

lemma moves_total: "kernel_ext_ok X \<Longrightarrow> moves X src dst a s s' \<Longrightarrow> circulating X s' (native_token_id X) = circulating X s (native_token_id X)"
  unfolding moves_def Let_def by (auto intro: bal_move)

lemma moves_balance:
  assumes "kernel_ext_ok X" and "moves X src dst a s s'"
  shows "src \<noteq> dst \<Longrightarrow> unat (native X s' dst) = unat (native X s dst) + unat a"
    and "src \<noteq> dst \<Longrightarrow> unat (native X s' src) + unat a = unat (native X s src)"
    and "who \<noteq> src \<Longrightarrow> who \<noteq> dst \<Longrightarrow> native X s' who = native X s who"
  using assms by (auto simp: moves_def Let_def token_cells rust_arith unat_sub word_le_nat_alt dest: unat_checked_add)

lemma harvest_Ok:
  assumes "kernel_ext_ok X"
  shows "harvest_pending X who s = (Ok p, s') \<longleftrightarrow>
    p = pending_reward X s who (locked_of X s who) \<and> (if p > 0 then moves X reward_pool_account who p s s' else s' = s)"
  unfolding harvest_pending_def by (auto simp: andthen_Ok_iff move_native [OF assms] split: if_splits)

lemma settle_ok: "kernel_ext_ok X \<Longrightarrow> settle_reward_debt X who pw s =
    (Ok (), put_u128 X (reward_debt_key who) (saturating_mul pw (reward_acc X s) div ACC_SCALE) s)"
  by (simp add: settle_reward_debt_def write_u128_ok)

text \<open>
  The effect of an operation on what the invariant reads: the locked amounts, the total, the delegations and
  stake records, and the escrow; native balances otherwise only move.
\<close>

lemma update_lock_effect:
  assumes X: "kernel_ext_ok X" and run: "update_lock X who d s = (Ok u, s')" and "who \<noteq> escrow_account"
  shows "locked_of X s' = (locked_of X s)(who := add_clamped (locked_of X s who) d)"
    and "stake_total X s' = add_clamped (stake_total X s) d" and "delegation X s' = delegation X s"
    and "native X s' escrow_account = native X s escrow_account"
    and "circulating X s' (native_token_id X) = circulating X s (native_token_id X)"
proof -
  obtain p s1 where h: "harvest_pending X who s = (Ok p, s1)"
    and s': "s' = put_u128 X (reward_debt_key who) (saturating_mul (add_clamped (locked_of X s1 who) d) (reward_acc X
        (put_u128 X TOTAL_STAKE_KEY (add_clamped (stake_total X s1) d)
           (put_u128 X (locked_key who) (add_clamped (locked_of X s1 who) d) s1))) div ACC_SCALE)
      (put_u128 X TOTAL_STAKE_KEY (add_clamped (stake_total X s1) d)
         (put_u128 X (locked_key who) (add_clamped (locked_of X s1 who) d) s1))"
    using run unfolding update_lock_def add_total_stake_def Let_def
    by (auto simp: andthen_Ok_iff write_u128_ok X settle_ok total_reads)
  have pool: "escrow_account \<noteq> reward_pool_account" by (simp add: escrow_account_def reward_pool_account_def)
  have m: "p > 0 \<Longrightarrow> moves X reward_pool_account who p s s1" "\<not> p > 0 \<Longrightarrow> s1 = s"
    using h by (auto simp: harvest_Ok [OF X] split: if_splits)
  have step: "locked_of X s1 = locked_of X s \<and> stake_total X s1 = stake_total X s \<and> delegation X s1 = delegation X s \<and>
    native X s1 escrow_account = native X s escrow_account \<and>
    circulating X s1 (native_token_id X) = circulating X s (native_token_id X)"
  proof (cases "p > 0")
    case True
    show ?thesis
      using moves_reads [OF m(1) [OF True]] moves_total [OF X m(1) [OF True]] moves_balance(3) [OF X m(1) [OF True] pool] assms(3)
      by auto
  qed (use m(2) in simp)
  then have s1: "locked_of X s1 = locked_of X s" "stake_total X s1 = stake_total X s" "delegation X s1 = delegation X s"
    "native X s1 escrow_account = native X s escrow_account"
    "circulating X s1 (native_token_id X) = circulating X s (native_token_id X)"
    using step by auto
  show "locked_of X s' = (locked_of X s)(who := add_clamped (locked_of X s who) d)"
    "stake_total X s' = add_clamped (stake_total X s) d" "delegation X s' = delegation X s"
    "native X s' escrow_account = native X s escrow_account"
    "circulating X s' (native_token_id X) = circulating X s (native_token_id X)"
    by (simp_all add: s' staking_cells X s1)
qed

lemma update_lock_stake_of: "kernel_ext_ok X \<Longrightarrow> update_lock X who d s = (Ok u, s') \<Longrightarrow> stake_of X s' = stake_of X s"
  unfolding update_lock_def add_total_stake_def Let_def
  by (auto simp: andthen_Ok_iff write_u128_ok settle_ok harvest_Ok staking_cells dest!: moves_stake_of split: if_splits)

section \<open>The staking invariant\<close>

text \<open>
  \<open>staking_ok\<close>: the recorded total is the sum of the locked amounts; the escrow covers it; stake records are
  stored under their owner; and what a party has locked is its own bond plus what it delegated. Party
  names with a slash are excluded from the last clause, because the keys of delegations join the
  two names with a slash and are ambiguous for them.
\<close>

definition own_stake :: "'x staking_ext_scheme \<Rightarrow> state_tree \<Rightarrow> party_id \<Rightarrow> nat" where
  "own_stake X s who = unat (sr_self_bonded (stake_of X s who)) + book_total (delegation X s who)"

definition staking_ok :: "'x staking_ext_scheme \<Rightarrow> state_tree \<Rightarrow> bool" where
  "staking_ok X s \<longleftrightarrow> unat (stake_total X s) = book_total (locked_of X s) \<and>
     book_total (locked_of X s) \<le> unat (native X s escrow_account) \<and>
     (\<forall>who. sr_owner (stake_of X s who) = who) \<and>
     (\<forall>who. plain who \<longrightarrow> unat (locked_of X s who) = own_stake X s who)"

lemma plain_accounts: "plain p \<Longrightarrow> p \<noteq> escrow_account \<and> p \<noteq> reward_pool_account"
  by (auto simp: plain_def escrow_account_def reward_pool_account_def)

lemma own_stake_cong: "stake_of X s' = stake_of X s \<Longrightarrow> delegation X s' = delegation X s \<Longrightarrow> own_stake X s' = own_stake X s"
  by (rule ext) (simp add: own_stake_def)

lemma staking_ok_cong:
  assumes "staking_ok X s" and "locked_of X s' = locked_of X s" "stake_total X s' = stake_total X s"
    "delegation X s' = delegation X s" "stake_of X s' = stake_of X s"
    and "unat (native X s escrow_account) \<le> unat (native X s' escrow_account)"
  shows "staking_ok X s'"
  using assms own_stake_cong [OF assms(5,4)] unfolding staking_ok_def by auto

lemma book_update:
  assumes "kernel_ext_ok X" and "locked_of X s' = (locked_of X s)(who := v)"
  shows "book_total (locked_of X s') + unat (locked_of X s who) = book_total (locked_of X s) + unat v"
  using book_total_upd [OF lk.finite_support [OF assms(1)]] by (simp add: assms(2))

lemma staking_ok_lock:
  assumes X: "staking_ext_ok X" and inv: "staking_ok X s" and run: "update_lock X me d s2 = (Ok u, s')" and me: "plain me"
    and same: "locked_of X s2 = locked_of X s" "stake_total X s2 = stake_total X s"
    and owner: "\<And>who. sr_owner (stake_of X s2 who) = who"
    and others: "\<And>who. who \<noteq> me \<Longrightarrow> plain who \<Longrightarrow> own_stake X s2 who = own_stake X s who"
    and locked: "unat (add_clamped (locked_of X s me) d) = own_stake X s2 me"
    and tot: "unat (add_clamped (stake_total X s) d) + own_stake X s me = unat (stake_total X s) + own_stake X s2 me"
    and esc: "unat (stake_total X s) + own_stake X s2 me \<le> unat (native X s2 escrow_account) + own_stake X s me"
  shows "staking_ok X s'"
proof -
  note k = staking_ext_okD(2) [OF X]
  note eff = update_lock_effect [OF k run conjunct1 [OF plain_accounts [OF me]]]
  have own: "own_stake X s' = own_stake X s2"
    using update_lock_stake_of [OF k run] eff(3) by (rule own_stake_cong)
  have sum: "unat (stake_total X s) = book_total (locked_of X s)" and mine: "unat (locked_of X s me) = own_stake X s me"
    using inv me by (auto simp: staking_ok_def)
  have book: "book_total (locked_of X s') + own_stake X s me = book_total (locked_of X s) + own_stake X s2 me"
    using book_update [OF k, of s' s me "add_clamped (locked_of X s me) d"] eff(1) same(1) locked mine by simp
  have "unat (stake_total X s') = book_total (locked_of X s')" using eff(2) same(2) tot book sum by simp
  moreover have "book_total (locked_of X s') \<le> unat (native X s' escrow_account)" using eff(4) book esc sum by simp
  moreover have "unat (locked_of X s' who) = own_stake X s' who" if "plain who" for who
  proof (cases "who = me")
    case True
    then show ?thesis using eff(1) same(1) locked own by simp
  next
    case False
    then show ?thesis using eff(1) same(1) own others [OF False that] inv that by (simp add: staking_ok_def)
  qed
  ultimately show ?thesis
    using owner update_lock_stake_of [OF k run] by (simp add: staking_ok_def)
qed

lemma staking_ok_bounds:
  assumes "staking_ext_ok X" and "staking_ok X s" and "plain me"
  shows "unat (locked_of X s me) = own_stake X s me" "unat (locked_of X s me) \<le> unat (stake_total X s)"
    "unat (stake_total X s) \<le> unat (native X s escrow_account)"
    "unat (native X s escrow_account) \<le> circulating X s (native_token_id X)"
  using assms(2,3) lk.entry_le_total [OF staking_ext_okD(2) [OF assms(1)], of s me]
    bal_le_total [OF staking_ext_okD(2) [OF assms(1)], of s "native_token_id X" escrow_account]
  by (auto simp: staking_ok_def)

lemma deposit_keeps:
  assumes X: "staking_ext_ok X" and inv: "staking_ok X s" and bound: "circulating X s (native_token_id X) < 2 ^ 127"
    and me: "plain me" and mv: "moves X me escrow_account a s s1" and run: "update_lock X me a s2 = (Ok u, s')"
    and same: "locked_of X s2 = locked_of X s" "stake_total X s2 = stake_total X s" "balance X s2 = balance X s1"
    and owner: "\<And>who. sr_owner (stake_of X s2 who) = who"
    and others: "\<And>who. who \<noteq> me \<Longrightarrow> plain who \<Longrightarrow> own_stake X s2 who = own_stake X s who"
    and up: "own_stake X s me + unat a < 2 ^ 127 \<Longrightarrow> own_stake X s2 me = own_stake X s me + unat a"
  shows "staking_ok X s' \<and> circulating X s' (native_token_id X) = circulating X s (native_token_id X)"
proof -
  note k = staking_ext_okD(2) [OF X] and b = staking_ok_bounds [OF X inv me] and acc = plain_accounts [OF me]
  have esc: "unat (native X s2 escrow_account) = unat (native X s escrow_account) + unat a"
    using moves_balance(1) [OF k mv] acc same(3) by simp
  have circ: "circulating X s2 (native_token_id X) = circulating X s (native_token_id X)"
    using moves_total [OF k mv] same(3) by simp
  have "unat (native X s2 escrow_account) < 2 ^ 127"
    using bal_le_total [OF k, of s2 "native_token_id X" escrow_account] circ bound by linarith
  then have lt: "unat (stake_total X s) + unat a < 2 ^ 127" using b(3) esc by linarith
  then have own: "own_stake X s2 me = own_stake X s me + unat a" using up b(1,2) by linarith
  have "staking_ok X s'"
    by (rule staking_ok_lock [OF X inv run me same(1,2) owner others])
      (use own lt b esc in \<open>simp_all add: add_clamped_up\<close>)
  then show ?thesis using update_lock_effect(5) [OF k run] acc circ by simp
qed

lemma withdraw_keeps:
  assumes X: "staking_ext_ok X" and inv: "staking_ok X s" and bound: "circulating X s (native_token_id X) < 2 ^ 127"
    and me: "plain me" and run: "update_lock X me (- a) s2 = (Ok u, s')"
    and esc: "unat (native X s2 escrow_account) + unat a = unat (native X s escrow_account)"
    and same: "locked_of X s2 = locked_of X s" "stake_total X s2 = stake_total X s"
    and owner: "\<And>who. sr_owner (stake_of X s2 who) = who"
    and others: "\<And>who. who \<noteq> me \<Longrightarrow> plain who \<Longrightarrow> own_stake X s2 who = own_stake X s who"
    and down: "own_stake X s2 me + unat a = own_stake X s me"
  shows "staking_ok X s' \<and> circulating X s' (native_token_id X) = circulating X s2 (native_token_id X)"
proof -
  note k = staking_ext_okD(2) [OF X] and b = staking_ok_bounds [OF X inv me] and acc = plain_accounts [OF me]
  have le: "a \<le> locked_of X s me" "a \<le> stake_total X s"
    using b(1,2) down by (simp_all add: word_le_nat_alt)
  have lt: "unat (locked_of X s me) < 2 ^ 127" "unat (stake_total X s) < 2 ^ 127" using b bound by linarith+
  have "staking_ok X s'"
    by (rule staking_ok_lock [OF X inv run me same(1,2) owner others])
      (use down lt le b esc in \<open>simp_all add: add_clamped_down word_le_nat_alt\<close>)
  then show ?thesis using update_lock_effect(5) [OF k run] acc by simp
qed

abbreviation supply_bound :: "'x kernel_ext_scheme \<Rightarrow> state_tree \<Rightarrow> bool" where
  "supply_bound X s \<equiv> circulating X s (native_token_id X) < 2 ^ 127"

abbreviation lux :: "'x kernel_ext_scheme \<Rightarrow> state_tree \<Rightarrow> nat" where
  "lux X s \<equiv> circulating X s (native_token_id X)"

lemma stake_of_owner: "staking_ok X s \<Longrightarrow> sr_owner (stake_of X s who) = who"
  by (simp add: staking_ok_def)

lemma staking_stake_keeps:
  assumes X: "staking_ext_ok X" and inv: "staking_ok X s" and bound: "supply_bound X s" and me: "plain (cmd_submitter cmd)"
    and run: "staking_stake X cmd a s = (Ok out, s')"
  shows "staking_ok X s' \<and> lux X s' = lux X s"
proof -
  note k = staking_ext_okD(2) [OF X]
  let ?me = "cmd_submitter cmd"
  obtain s1 where mv: "moves X ?me escrow_account a s s1"
    and up: "update_lock X ?me a (put_stake X ((stake_of X s1 ?me)\<lparr>sr_self_bonded := sr_self_bonded (stake_of X s1 ?me) + a\<rparr>) s1) = (Ok (), s')"
    using run unfolding staking_stake_def Let_def by (auto simp: ok_iffs move_native [OF k] save_stake_ok [OF X])
  note st = moves_stake_of [OF mv] and rd = moves_reads [OF mv]
  show ?thesis
    by (rule deposit_keeps [OF X inv bound me mv up])
      (use stake_of_owner [OF inv] in \<open>auto simp: staking_cells X rd st own_stake_def unat_word_ariths\<close>)
qed

lemma staking_delegate_keeps:
  assumes X: "staking_ext_ok X" and inv: "staking_ok X s" and bound: "supply_bound X s" and me: "plain (cmd_submitter cmd)"
    and run: "staking_delegate X cmd v a s = (Ok out, s')"
  shows "staking_ok X s' \<and> lux X s' = lux X s"
proof -
  note k = staking_ext_okD(2) [OF X]
  let ?me = "cmd_submitter cmd"
  obtain s1 where mv: "moves X ?me escrow_account a s s1"
    and up: "update_lock X ?me a (put_stake X ((stake_of X s v)\<lparr>sr_delegated_in := sr_delegated_in (stake_of X s v) + a\<rparr>)
      (put_u128 X (deleg_key ?me v) (delegation X s ?me v + a) s1)) = (Ok (), s')"
    using run unfolding staking_delegate_def Let_def
    by (auto simp: ok_iffs move_native [OF k] save_stake_ok [OF X] set_delegation_def write_u128_ok [OF k] staking_cells
        moves_stake_of moves_reads)
  note st = moves_stake_of [OF mv] and rd = moves_reads [OF mv]
  let ?s2 = "put_stake X ((stake_of X s v)\<lparr>sr_delegated_in := sr_delegated_in (stake_of X s v) + a\<rparr>)
      (put_u128 X (deleg_key ?me v) (delegation X s ?me v + a) s1)"
  have self: "sr_self_bonded (stake_of X ?s2 w) = sr_self_bonded (stake_of X s w)" and own: "sr_owner (stake_of X ?s2 w) = w" for w
    using stake_of_owner [OF inv] by (auto simp: staking_cells X st)
  have other: "own_stake X ?s2 w = own_stake X s w" if "w \<noteq> ?me" "plain w" for w
    using that by (auto simp: own_stake_def self) (simp add: staking_cells delegation_put [OF k me that(2)] rd)
  have mine: "own_stake X ?s2 ?me = own_stake X s ?me + unat a" if "own_stake X s ?me + unat a < 2 ^ 127"
  proof -
    have "unat (delegation X s ?me v) \<le> own_stake X s ?me"
      using dl_entry [OF k, of s ?me v] by (simp add: own_stake_def)
    then have "unat (delegation X s ?me v + a) = unat (delegation X s ?me v) + unat a"
      using that by (simp add: unat_word_ariths)
    then show ?thesis
      using dl_wr [OF k, of ?me v "delegation X s ?me v + a" s1] by (simp add: own_stake_def self) (simp add: staking_cells rd)
  qed
  show ?thesis
    by (rule deposit_keeps [OF X inv bound me mv up]) (use own other mine in \<open>auto simp: staking_cells rd\<close>)
qed

lemma staking_unstake_keeps:
  assumes X: "staking_ext_ok X" and inv: "staking_ok X s" and bound: "supply_bound X s" and me: "plain (cmd_submitter cmd)"
    and run: "staking_unstake X cmd a s = (Ok out, s')"
  shows "staking_ok X s' \<and> lux X s' = lux X s"
proof -
  note k = staking_ext_okD(2) [OF X]
  let ?me = "cmd_submitter cmd"
  let ?rec = "(stake_of X s ?me)\<lparr>sr_self_bonded := sr_self_bonded (stake_of X s ?me) - a\<rparr>"
  obtain s1 where le: "a \<le> sr_self_bonded (stake_of X s ?me)" and mv: "moves X escrow_account ?me a s s1"
    and up: "update_lock X ?me (- a) (put_stake X ?rec s1) = (Ok (), s')"
    using run unfolding staking_unstake_def Let_def by (auto simp: ok_iffs move_native [OF k] save_stake_ok [OF X])
  note st = moves_stake_of [OF mv] and rd = moves_reads [OF mv]
  have "lux X (put_stake X ?rec s1) = lux X s" using moves_total [OF k mv] by (simp add: staking_cells)
  moreover have "staking_ok X s' \<and> lux X s' = lux X (put_stake X ?rec s1)"
    by (rule withdraw_keeps [OF X inv bound me up])
      (use stake_of_owner [OF inv] le moves_balance(2) [OF k mv] plain_accounts [OF me] in
        \<open>auto simp: staking_cells X rd st own_stake_def unat_sub word_le_nat_alt\<close>)
  ultimately show ?thesis by simp
qed

lemma staking_undelegate_keeps:
  assumes X: "staking_ext_ok X" and inv: "staking_ok X s" and bound: "supply_bound X s" and me: "plain (cmd_submitter cmd)"
    and run: "staking_undelegate X cmd v a s = (Ok out, s')"
  shows "staking_ok X s' \<and> lux X s' = lux X s"
proof -
  note k = staking_ext_okD(2) [OF X]
  let ?me = "cmd_submitter cmd"
  let ?rec = "(stake_of X s v)\<lparr>sr_delegated_in := saturating_sub (sr_delegated_in (stake_of X s v)) a\<rparr>"
  obtain s1 where le: "a \<le> delegation X s ?me v" and mv: "moves X escrow_account ?me a s s1"
    and up: "update_lock X ?me (- a) (put_stake X ?rec (put_u128 X (deleg_key ?me v) (delegation X s ?me v - a) s1)) = (Ok (), s')"
    using run unfolding staking_undelegate_def Let_def
    by (auto simp: ok_iffs move_native [OF k] save_stake_ok [OF X] set_delegation_def write_u128_ok [OF k] staking_cells
        moves_stake_of)
  note st = moves_stake_of [OF mv] and rd = moves_reads [OF mv]
  let ?s2 = "put_stake X ?rec (put_u128 X (deleg_key ?me v) (delegation X s ?me v - a) s1)"
  have self: "sr_self_bonded (stake_of X ?s2 w) = sr_self_bonded (stake_of X s w)" and own: "sr_owner (stake_of X ?s2 w) = w" for w
    using stake_of_owner [OF inv] by (auto simp: staking_cells X st)
  have other: "own_stake X ?s2 w = own_stake X s w" if "w \<noteq> ?me" "plain w" for w
    using that by (auto simp: own_stake_def self) (simp add: staking_cells delegation_put [OF k me that(2)] rd)
  have mine: "own_stake X ?s2 ?me + unat a = own_stake X s ?me"
  proof -
    have "unat (delegation X s ?me v - a) + unat a = unat (delegation X s ?me v)"
      using le by (simp add: unat_sub word_le_nat_alt)
    then show ?thesis
      using dl_wr [OF k, of ?me v "delegation X s ?me v - a" s1] by (simp add: own_stake_def self) (simp add: staking_cells rd)
  qed
  have "lux X ?s2 = lux X s" using moves_total [OF k mv] by (simp add: staking_cells)
  moreover have "staking_ok X s' \<and> lux X s' = lux X ?s2"
    by (rule withdraw_keeps [OF X inv bound me up])
      (use own other mine moves_balance(2) [OF k mv] plain_accounts [OF me] in \<open>auto simp: staking_cells rd\<close>)
  ultimately show ?thesis by simp
qed

lemma burn_native:
  assumes X: "staking_ext_ok X" and run: "burn_from X (native_token_id X) escrow_account a s = (Ok u, s1)"
  shows "unat (native X s1 escrow_account) + unat a = unat (native X s escrow_account)"
    "lux X s1 + unat a = lux X s" "locked_of X s1 = locked_of X s" "stake_total X s1 = stake_total X s"
    "delegation X s1 = delegation X s" "stake_of X s1 = stake_of X s"
proof -
  note k = staking_ext_okD(2) [OF X]
  let ?s = "put_balance X (native_token_id X) escrow_account (native X s escrow_account - a) s"
  have le: "a \<le> native X s escrow_account"
    and s1: "s1 = bump_supply X (native_token_id X) (\<lambda>t. saturating_sub t a) ?s"
    using run by (auto simp: burn_from_Ok [OF staking_ext_okD(1) [OF X]])
  show "unat (native X s1 escrow_account) + unat a = unat (native X s escrow_account)"
    using le by (simp add: s1 token_cells k unat_sub word_le_nat_alt)
  show "lux X s1 + unat a = lux X s"
    unfolding s1 balance_fun_frame by (rule bal_debit [OF k le])
  show "locked_of X s1 = locked_of X s" "stake_total X s1 = stake_total X s"
    "delegation X s1 = delegation X s" "stake_of X s1 = stake_of X s"
    by (simp_all add: s1 staking_cells)
qed

lemma slash_offence_Ok:
  assumes X: "staking_ext_ok X" and run: "slash_offence X cmd who h s = (Ok out, s')"
  defines "burned \<equiv> sr_self_bonded (stake_of X s who) * ucast DEFAULT_SLASH_BPS div 10000"
  obtains s2 where "s' = st_put (slash_key X h) (to_vec_or_default (js_bool X) True) s2" and "\<not> st_contains s (slash_key X h)"
    and "if burned > 0
      then \<exists>s1. burn_from X (native_token_id X) escrow_account burned s = (Ok (), s1) \<and>
        update_lock X who (- burned) (put_stake X ((stake_of X s who)\<lparr>sr_self_bonded := sr_self_bonded (stake_of X s who) - burned\<rparr>) s1) = (Ok (), s2)
      else s2 = s"
    and "out = single_output (staking_emit X cmd (SkSlashed who burned (sr_self_bonded (stake_of X s who) - burned))) 7000"
  using run that unfolding slash_offence_def Let_def burned_def
  by (auto simp: ok_iffs save_stake_ok [OF X] staking_ext_okD [OF X] word_neq_0_conv [symmetric] split: if_splits)

lemma slash_offence_keeps:
  assumes X: "staking_ext_ok X" and inv: "staking_ok X s" and bound: "supply_bound X s" and who: "plain who"
    and run: "slash_offence X cmd who h s = (Ok out, s')"
  shows "staking_ok X s' \<and> lux X s' \<le> lux X s"
proof -
  note k = staking_ext_okD(2) [OF X]
  let ?b = "sr_self_bonded (stake_of X s who) * ucast DEFAULT_SLASH_BPS div 10000"
  let ?rec = "(stake_of X s who)\<lparr>sr_self_bonded := sr_self_bonded (stake_of X s who) - ?b\<rparr>"
  obtain s2 where s': "s' = st_put (slash_key X h) (to_vec_or_default (js_bool X) True) s2"
    and c: "if ?b > 0 then \<exists>s1. burn_from X (native_token_id X) escrow_account ?b s = (Ok (), s1) \<and>
        update_lock X who (- ?b) (put_stake X ?rec s1) = (Ok (), s2) else s2 = s"
    using slash_offence_Ok [OF X run] by metis
  have le: "?b \<le> sr_self_bonded (stake_of X s who)"
    by (rule burned_le_charged) (simp add: DEFAULT_SLASH_BPS_def)
  have "staking_ok X s2 \<and> lux X s2 \<le> lux X s"
  proof (cases "?b > 0")
    case True
    then obtain s1 where b: "burn_from X (native_token_id X) escrow_account ?b s = (Ok (), s1)"
      and up: "update_lock X who (- ?b) (put_stake X ?rec s1) = (Ok (), s2)" using c by auto
    note r = burn_native [OF X b]
    have "staking_ok X s2 \<and> lux X s2 = lux X (put_stake X ?rec s1)"
      by (rule withdraw_keeps [OF X inv bound who up])
        (use stake_of_owner [OF inv] le r in \<open>auto simp: staking_cells X own_stake_def unat_sub word_le_nat_alt\<close>)
    then show ?thesis using r(2) by (simp add: staking_cells)
  qed (use c inv in simp)
  moreover have "staking_ok X s'" if "staking_ok X s2"
    by (rule staking_ok_cong [OF that]) (simp_all add: s' staking_cells)
  ultimately show ?thesis by (simp add: s' staking_cells)
qed

lemma rewards_keep:
  assumes X: "staking_ext_ok X" and inv: "staking_ok X s" and me: "plain (cmd_submitter cmd)"
  shows "fund_rewards X cmd a s = (Ok out, s') \<Longrightarrow> staking_ok X s' \<and> lux X s' = lux X s"
    and "claim_rewards X cmd s = (Ok out, s') \<Longrightarrow> staking_ok X s' \<and> lux X s' = lux X s"
proof -
  note k = staking_ext_okD(2) [OF X] and acc = plain_accounts [OF me]
  let ?me = "cmd_submitter cmd"
  have pool: "escrow_account \<noteq> reward_pool_account" by (simp add: escrow_account_def reward_pool_account_def)
  have moved: "staking_ok X s1 \<and> lux X s1 = lux X s"
    if mv: "moves X src dst b s s1" and "src \<noteq> escrow_account" "dst \<noteq> escrow_account" for src dst b s1
    using staking_ok_cong [OF inv moves_reads [OF mv] moves_stake_of [OF mv]] moves_balance(3) [OF k mv, of escrow_account]
      moves_total [OF k mv] that(2,3) by simp
  show "staking_ok X s' \<and> lux X s' = lux X s" if run: "fund_rewards X cmd a s = (Ok out, s')"
  proof -
    obtain s1 w where mv: "moves X ?me reward_pool_account a s s1" and s': "s' = put_u128 X REWARD_ACC_KEY w s1"
      using run unfolding fund_rewards_def Let_def by (auto simp: ok_iffs move_native [OF k] write_u128_ok [OF k])
    have i: "staking_ok X s1 \<and> lux X s1 = lux X s" using moved [OF mv] acc pool by auto
    show ?thesis using i staking_ok_cong [of X s1 s'] by (auto simp: s' staking_cells)
  qed
  show "staking_ok X s' \<and> lux X s' = lux X s" if run: "claim_rewards X cmd s = (Ok out, s')"
  proof -
    obtain p s1 w where h: "harvest_pending X ?me s = (Ok p, s1)" and s': "s' = put_u128 X (reward_debt_key ?me) w s1"
      using run unfolding claim_rewards_def Let_def by (auto simp: ok_iffs settle_ok [OF k])
    have i: "staking_ok X s1 \<and> lux X s1 = lux X s"
      using h moved [of reward_pool_account ?me p s1] acc pool inv by (cases "p > 0") (auto simp: harvest_Ok [OF k])
    show ?thesis using i staking_ok_cong [of X s1 s'] by (auto simp: s' staking_cells)
  qed
qed

lemma gov_keeps:
  assumes X: "staking_ext_ok X" and inv: "staking_ok X s"
  shows "gov_propose X cmd h t d vp s = (Ok out, s') \<Longrightarrow> staking_ok X s' \<and> lux X s' = lux X s"
    and "gov_vote X cmd h i ap s = (Ok out, s') \<Longrightarrow> staking_ok X s' \<and> lux X s' = lux X s"
    and "gov_finalize X cmd h i s = (Ok out, s') \<Longrightarrow> staking_ok X s' \<and> lux X s' = lux X s"
proof -
  have put: "staking_ok X (st_put (proposal_key X j) b s1) \<and> lux X (st_put (proposal_key X j) b s1) = lux X s"
    if "staking_ok X s1 \<and> lux X s1 = lux X s" for j b s1
    using that staking_ok_cong [of X s1 "st_put (proposal_key X j) b s1"] by (auto simp: staking_cells)
  have vote: "staking_ok X (st_put (vote_key X j w) b s) \<and> lux X (st_put (vote_key X j w) b s) = lux X s" for j w b
    using inv staking_ok_cong [of X s "st_put (vote_key X j w) b s"] by (auto simp: staking_cells)
  note codec = staking_ext_okD [OF X]
  show "staking_ok X s' \<and> lux X s' = lux X s" if "gov_propose X cmd h t d vp s = (Ok out, s')"
    using that inv put unfolding gov_propose_def Let_def by (auto simp: ok_iffs codec)
  show "staking_ok X s' \<and> lux X s' = lux X s" if "gov_vote X cmd h i ap s = (Ok out, s')"
    using that put [OF vote] unfolding gov_vote_def Let_def load_proposal_def
    by (auto simp: ok_iffs codec get_json_or_Ok_iff)
  show "staking_ok X s' \<and> lux X s' = lux X s" if "gov_finalize X cmd h i s = (Ok out, s')"
    using that inv put unfolding gov_finalize_def Let_def load_proposal_def
    by (auto simp: ok_iffs codec get_json_or_Ok_iff)
qed

text \<open>A slashing command runs the slash on its offender, after checks that do not touch the state.\<close>

lemma decode_hex_Ok: "decode_hex X t m s = (Ok b, s') \<longleftrightarrow> s' = s \<and> hex_decode X (trim_start_0x t) = Some b"
  by (auto simp: decode_hex_def split: option.splits)

lemma check_signature_Ok: "check_signature X pk m sg e s = (Ok u, s') \<longleftrightarrow> s' = s \<and> verify_bytes X pk m sg = Inr ()"
  by (auto simp: check_signature_def split: sum.splits)

lemma staking_slash_Ok:
  assumes "staking_slash X cmd prf s = (Ok out, s')"
  obtains h where "slash_offence X cmd (ep_offender prf) h s = (Ok out, s')"
  using assms unfolding staking_slash_def Let_def
  by (auto simp: ok_iffs decode_hex_Ok check_signature_Ok split: prod.splits if_splits)

lemma verify_stmt_state: "verify_stmt X c holders st s = (Ok u, s') \<Longrightarrow> s' = s"
  unfolding verify_stmt_def Let_def by (auto simp: ok_iffs decode_hex_Ok check_signature_Ok)

lemma majority_loop_state: "majority_loop X c holders offender seen canonical sts s = (Ok r, s') \<Longrightarrow> s' = s"
  by (induction X c holders offender seen canonical sts arbitrary: s rule: majority_loop.induct)
    (auto simp: ok_iffs split: option.splits if_splits dest: verify_stmt_state)

lemma check_quorum_state: "check_quorum_proof X prf s = (Ok u, s') \<Longrightarrow> s' = s"
  unfolding check_quorum_proof_def Let_def by (auto simp: ok_iffs dest!: verify_stmt_state majority_loop_state)

lemma staking_slash_quorum_Ok:
  assumes "staking_slash_quorum X cmd prf s = (Ok out, s')"
  obtains h where "slash_offence X cmd (qp_offender prf) h s = (Ok out, s')"
  using assms check_quorum_state unfolding staking_slash_quorum_def Let_def by (auto simp: ok_iffs) blast

definition plain_target :: "staking_command \<Rightarrow> bool" where
  "plain_target c = (case c of ScSlash prf \<Rightarrow> plain (ep_offender prf) | ScSlashQuorum prf \<Rightarrow> plain (qp_offender prf) | _ \<Rightarrow> True)"

lemma staking_dispatch_keeps:
  assumes X: "staking_ext_ok X" and inv: "staking_ok X s" and bound: "supply_bound X s" and me: "plain (cmd_submitter cmd)"
    and tgt: "plain_target c" and run: "staking_dispatch X cmd h c s = (Ok out, s')"
  shows "staking_ok X s' \<and> lux X s' \<le> lux X s"
proof -
  note keep = staking_stake_keeps [OF X inv bound me] staking_unstake_keeps [OF X inv bound me]
    staking_delegate_keeps [OF X inv bound me] staking_undelegate_keeps [OF X inv bound me]
    gov_keeps [OF X inv] rewards_keep [OF X inv me]
  have le: "staking_ok X s' \<and> lux X s' \<le> lux X s" if "staking_ok X s' \<and> lux X s' = lux X s" using that by simp
  show ?thesis
  proof (cases c)
    case (ScSlash q)
    with run have "staking_slash X cmd q s = (Ok out, s')" by (simp add: staking_dispatch_def)
    then obtain j where "slash_offence X cmd (ep_offender q) j s = (Ok out, s')" using staking_slash_Ok by blast
    with slash_offence_keeps [OF X inv bound] tgt ScSlash show ?thesis by (simp add: plain_target_def)
  next
    case (ScSlashQuorum q)
    with run have "staking_slash_quorum X cmd q s = (Ok out, s')" by (simp add: staking_dispatch_def)
    then obtain j where "slash_offence X cmd (qp_offender q) j s = (Ok out, s')" using staking_slash_quorum_Ok by blast
    with slash_offence_keeps [OF X inv bound] tgt ScSlashQuorum show ?thesis by (simp add: plain_target_def)
  qed (rule le, insert run, simp only: staking_dispatch_def staking_command.case, erule keep)+
qed

end
