(* ===== verification/Staking_Properties.thy ===== *)
theory Staking_Properties
  imports Staking
begin

text \<open>
  The prism contract of staking and its properties: the escrow backs every stake; a proposal moves only
  from voting to a final decision and each party votes at most once; and what the checks on heights,
  keys and root texts do not establish.
\<close>

section \<open>The prism contract\<close>

text \<open>Every command but the three of governance writes below \<open>token/\<close> and \<open>staking/\<close> only.\<close>

definition governs :: "staking_command \<Rightarrow> bool" where
  "governs c = (case c of ScPropose _ _ _ \<Rightarrow> True | ScVote _ _ \<Rightarrow> True | ScFinalize _ \<Rightarrow> True | _ \<Rightarrow> False)"

lemma staking_keys_outside:
  assumes "\<not> prefix ''staking/'' k"
  shows "stake_key p \<noteq> k" "deleg_key p q \<noteq> k" "slash_key X h \<noteq> k" "reward_debt_key p \<noteq> k" "locked_key p \<noteq> k"
    "TOTAL_STAKE_KEY \<noteq> k" "REWARD_ACC_KEY \<noteq> k"
  using assms by (auto simp: staking_key_defs)

lemma keeps_update_lock:
  assumes "\<not> prefix ''token/'' k" and "\<not> prefix ''staking/'' k"
  shows "keeps (\<lambda>s. st_get s k = v) (harvest_pending X who)" "keeps (\<lambda>s. st_get s k = v) (settle_reward_debt X who pw)"
    "keeps (\<lambda>s. st_get s k = v) (update_lock X who d)"
proof -
  note t = token_stable_get [OF assms(1), of v] and o = staking_keys_outside [OF assms(2)]
  show h: "keeps (\<lambda>s. st_get s k = v) (harvest_pending X who)" for X :: "'b kernel_ext_scheme"
    unfolding harvest_pending_def Let_def by (intro keeps_intros t)
  show d: "keeps (\<lambda>s. st_get s k = v) (settle_reward_debt X who pw)" for X :: "'b kernel_ext_scheme" and pw
    unfolding settle_reward_debt_def by (intro keeps_intros) (use o in simp)
  show "keeps (\<lambda>s. st_get s k = v) (update_lock X who d)"
    unfolding update_lock_def add_total_stake_def Let_def by (intro keeps_intros h d) (use o in simp_all)
qed

lemma keeps_checks [keeps_intros]:
  "keeps P (decode_hex X t m)" "keeps P (check_signature Y pk b sg e)" "keeps P (verify_stmt Y c hs st)"
  unfolding verify_stmt_def decode_hex_def check_signature_def Let_def by (intro keeps_intros)+

lemma keeps_majority [keeps_intros]: "keeps P (majority_loop X c hs off seen can sts)"
  by (induction X c hs off seen can sts rule: majority_loop.induct) (auto intro!: keeps_intros split: option.splits)

lemma keeps_check_quorum [keeps_intros]: "keeps P (check_quorum_proof X q)"
  unfolding check_quorum_proof_def Let_def by (intro keeps_intros)

lemma staking_cells_frame:
  assumes "\<not> prefix ''token/'' k" and "\<not> prefix ''staking/'' k" and "\<not> governs c"
  shows "keeps (\<lambda>s. st_get s k = v) (staking_dispatch X cmd h c)"
proof -
  note t = token_stable_get [OF assms(1), of v] and o = staking_keys_outside(1,2,4-7) [OF assms(2)]
    staking_keys_outside(3) [OF assms(2), of X]
    and u = keeps_update_lock [OF assms(1,2), of v]
  have sl: "keeps (\<lambda>s. st_get s k = v) (slash_offence X cmd who j)" for who j
    unfolding slash_offence_def save_stake_def Let_def by (intro keeps_intros t u) (use o in simp_all)
  have "keeps (\<lambda>s. st_get s k = v) (staking_slash X cmd q)" "keeps (\<lambda>s. st_get s k = v) (staking_slash_quorum X cmd r)" for q r
    unfolding staking_slash_def staking_slash_quorum_def Let_def by (intro keeps_intros sl; simp)+
  then show ?thesis
    using assms(3)
    unfolding staking_dispatch_def staking_stake_def staking_unstake_def staking_delegate_def staking_undelegate_def
      fund_rewards_def claim_rewards_def save_stake_def set_delegation_def Let_def
    by (cases c) (auto simp: governs_def o intro!: keeps_intros t u)
qed

lemma gov_frame:
  assumes "\<not> prefix ''gov/'' k"
  shows "keeps (\<lambda>s. st_get s k = v) (gov_propose X cmd h ti de vp)" "keeps (\<lambda>s. st_get s k = v) (gov_vote X cmd h i ap)"
    "keeps (\<lambda>s. st_get s k = v) (gov_finalize X cmd h i)"
proof -
  have k: "proposal_key X j \<noteq> k" "vote_key X j w \<noteq> k" for j w using assms by (auto simp: staking_key_defs)
  show "keeps (\<lambda>s. st_get s k = v) (gov_propose X cmd h ti de vp)" "keeps (\<lambda>s. st_get s k = v) (gov_vote X cmd h i ap)"
    "keeps (\<lambda>s. st_get s k = v) (gov_finalize X cmd h i)"
    unfolding gov_propose_def gov_vote_def gov_finalize_def load_proposal_def Let_def
    by (intro keeps_intros; simp add: k)+
qed

lemma staking_handle_frame:
  assumes "outside [''staking/'', ''gov/'', ''token/''] k"
  shows "keeps (\<lambda>s. st_get s k = v) (staking_handle X cmd)"
proof -
  have k: "\<not> prefix ''token/'' k" "\<not> prefix ''staking/'' k" "\<not> prefix ''gov/'' k" using assms by (auto simp: outside_def)
  have "keeps (\<lambda>s. st_get s k = v) (staking_dispatch X cmd h c)" for h c
  proof (cases "governs c")
    case True
    then show ?thesis using gov_frame [OF k(3), of v] by (cases c) (auto simp: governs_def staking_dispatch_def)
  qed (rule staking_cells_frame [OF k(1,2)])
  then show ?thesis unfolding staking_handle_def Let_def by (auto intro!: keeps_intros split: prod.splits)
qed

lemma slash_offence_events:
  "slash_offence X cmd who j s = (Ok out, s') \<Longrightarrow> \<forall>e \<in> set (out_events out). event_of X ''staking'' cmd e"
  by (auto simp: slash_offence_def Let_def ok_iffs single_output_def staking_emit_def)

lemma staking_handle_events:
  assumes "staking_handle X cmd s = (Ok out, s')"
  shows "\<forall>e \<in> set (out_events out). event_of X ''staking'' cmd e"
proof -
  obtain c h s1 where d: "staking_dispatch X cmd h c s1 = (Ok out, s')"
    using assms by (auto simp: staking_handle_def andthen_Ok_iff split: prod.splits)
  show ?thesis
  proof (cases c)
    case (ScSlash q)
    with d have "staking_slash X cmd q s1 = (Ok out, s')" by (simp add: staking_dispatch_def)
    then show ?thesis by (rule staking_slash_Ok) (rule slash_offence_events)
  next
    case (ScSlashQuorum q)
    with d have "staking_slash_quorum X cmd q s1 = (Ok out, s')" by (simp add: staking_dispatch_def)
    then show ?thesis by (rule staking_slash_quorum_Ok) (rule slash_offence_events)
  qed (use d in \<open>auto simp: staking_dispatch_def staking_stake_def staking_unstake_def staking_delegate_def
      staking_undelegate_def gov_propose_def gov_vote_def gov_finalize_def fund_rewards_def claim_rewards_def Let_def ok_iffs
      single_output_def staking_emit_def\<close>)
qed

interpretation staking: prism_contract staking_handle "''staking''" "[''staking/'', ''gov/'', ''token/'']"
  by unfold_locales (use staking_handle_frame staking_handle_events in \<open>blast+\<close>)

section \<open>The life of a proposal\<close>

inductive gov_step :: "proposal \<Rightarrow> proposal \<Rightarrow> bool" where
  gov_idle: "gov_step p p"
| gov_yes: "gp_status p = Active \<Longrightarrow> gov_step p (p\<lparr>gp_yes_power := gp_yes_power p + w\<rparr>)"
| gov_no: "gp_status p = Active \<Longrightarrow> gov_step p (p\<lparr>gp_no_power := gp_no_power p + w\<rparr>)"
| gov_close: "gp_status p = Active \<Longrightarrow>
    gov_step p (p\<lparr>gp_status := (if gp_yes_power p > gp_no_power p then Passed else Rejected)\<rparr>)"

inductive_cases gov_stepE: "gov_step p q"

lemma gov_step_final: "gov_step p q \<Longrightarrow> gp_status p \<noteq> Active \<Longrightarrow> q = p"
  by (auto elim: gov_stepE)

lemma proposal_key_inj: "hash_ext_ok X \<Longrightarrow> proposal_key X i = proposal_key X j \<longleftrightarrow> i = j"
  by (simp add: proposal_key_def to_hex_inj)

lemma proposal_reads:
  "staking_ext_ok X \<Longrightarrow> proposal_of X (st_put (proposal_key X i) (to_vec_or_default (js_proposal X) p) s) j =
     (if i = j then Some p else proposal_of X s j)"
  "proposal_of X (st_put (vote_key X i w) b s) j = proposal_of X s j"
  by (auto simp: proposal_of_def get_json_opt_put proposal_key_inj staking_ext_okD) (simp add: staking_key_defs)

lemma gov_vote_Ok:
  assumes "staking_ext_ok X" and "gov_vote X cmd h i ap s = (Ok out, s')"
  shows "\<exists>p w. proposal_of X s i = Some p \<and> gp_status p = Active \<and> h \<le> gp_deadline_height p \<and>
    \<not> st_contains s (vote_key X i (cmd_submitter cmd)) \<and> w = voting_power_of X s (cmd_submitter cmd) \<and> w \<noteq> 0 \<and>
    s' = st_put (proposal_key X i) (to_vec_or_default (js_proposal X)
           (if ap then p\<lparr>gp_yes_power := gp_yes_power p + w\<rparr> else p\<lparr>gp_no_power := gp_no_power p + w\<rparr>))
         (st_put (vote_key X i (cmd_submitter cmd)) (to_vec_or_default (js_bool X) ap) s)"
  using assms(2) unfolding gov_vote_def Let_def load_proposal_def
  by (auto simp: ok_iffs get_json_or_Ok_iff staking_ext_okD [OF assms(1)] proposal_of_def voting_power_of_def)

lemma gov_finalize_Ok:
  assumes "staking_ext_ok X"
  shows "gov_finalize X cmd h i s = (Ok out, s') \<longleftrightarrow>
    (\<exists>p. proposal_of X s i = Some p \<and> gp_status p = Active \<and> gp_deadline_height p < h \<and>
      (let p' = p\<lparr>gp_status := (if gp_yes_power p > gp_no_power p then Passed else Rejected)\<rparr> in
       s' = st_put (proposal_key X i) (to_vec_or_default (js_proposal X) p') s \<and>
       out = single_output (staking_emit X cmd (SkProposalFinalized i (gp_status p') (gp_yes_power p') (gp_no_power p'))) 2500))"
  unfolding gov_finalize_def Let_def load_proposal_def
  by (auto simp: ok_iffs get_json_or_Ok_iff staking_ext_okD [OF assms] proposal_of_def not_le)

lemma gov_steps:
  assumes X: "staking_ext_ok X" and p: "proposal_of X s i = Some p"
  shows "gov_propose X cmd h ti de vp s = (Ok out, s') \<Longrightarrow> \<exists>p'. proposal_of X s' i = Some p' \<and> gov_step p p'"
    and "gov_vote X cmd h j ap s = (Ok out, s') \<Longrightarrow> \<exists>p'. proposal_of X s' i = Some p' \<and> gov_step p p'"
    and "gov_finalize X cmd h j s = (Ok out, s') \<Longrightarrow> \<exists>p'. proposal_of X s' i = Some p' \<and> gov_step p p'"
proof -
  have present: "st_contains s (proposal_key X i)"
    using p by (auto simp: proposal_of_def get_json_opt_def get_json_get st_contains_get split: option.splits)
  show "\<exists>p'. proposal_of X s' i = Some p' \<and> gov_step p p'" if "gov_propose X cmd h ti de vp s = (Ok out, s')"
    using that present p unfolding gov_propose_def Let_def
    by (auto simp: ok_iffs staking_ext_okD [OF X] proposal_reads(1) [OF X] intro: gov_idle split: if_splits)
  show "\<exists>p'. proposal_of X s' i = Some p' \<and> gov_step p p'" if run: "gov_vote X cmd h j ap s = (Ok out, s')"
    using gov_vote_Ok [OF X run] p
    by (cases "j = i") (auto simp: proposal_reads(1) [OF X] proposal_reads(2) intro: gov_yes gov_no gov_idle)
  show "\<exists>p'. proposal_of X s' i = Some p' \<and> gov_step p p'" if run: "gov_finalize X cmd h j s = (Ok out, s')"
    using run p gov_close [of p] unfolding gov_finalize_Ok [OF X] Let_def
    by (cases "j = i") (auto simp: proposal_reads(1) [OF X] intro: gov_idle split: if_splits)
qed

lemma staking_dispatch_gov:
  assumes X: "staking_ext_ok X" and p: "proposal_of X s i = Some p" and run: "staking_dispatch X cmd h c s = (Ok out, s')"
  shows "\<exists>p'. proposal_of X s' i = Some p' \<and> gov_step p p'"
proof (cases "governs c")
  case True
  then show ?thesis
    using run gov_steps [OF X p] by (cases c) (auto simp: governs_def staking_dispatch_def)
next
  case False
  have "st_get s' (proposal_key X i) = st_get s (proposal_key X i)"
    by (rule keepsD [OF staking_cells_frame [OF _ _ False] _ run]) (simp_all add: proposal_key_def)
  then have "proposal_of X s' i = proposal_of X s i" unfolding proposal_of_def by (rule get_json_opt_cong)
  then show ?thesis using p by (auto intro: gov_idle)
qed

lemma vote_mark_stays:
  assumes X: "staking_ext_ok X" and "st_contains s (vote_key X i w)" and run: "staking_dispatch X cmd h c s = (Ok out, s')"
  shows "st_contains s' (vote_key X i w)"
proof (cases "governs c")
  case True
  then show ?thesis
    using run assms(2) by (cases c) (auto simp: governs_def staking_dispatch_def gov_propose_def Let_def ok_iffs
        staking_ext_okD [OF X] gov_finalize_Ok [OF X] dest!: gov_vote_Ok [OF X])
next
  case False
  have "st_get s' (vote_key X i w) = st_get s (vote_key X i w)"
    by (rule keepsD [OF staking_cells_frame [OF _ _ False] _ run]) (simp_all add: vote_key_def)
  then show ?thesis using assms(2) by (simp add: st_contains_get)
qed

section \<open>A concrete instance of the parameters\<close>

definition status_coder :: "proposal_status coder" where
  "status_coder = iso_coder (\<lambda>x. case x of Active \<Rightarrow> 0 | Passed \<Rightarrow> 1 | Rejected \<Rightarrow> 2 | Executed \<Rightarrow> 3)
     (\<lambda>n. if n = 0 then Active else if n = 1 then Passed else if n = 2 then Rejected else Executed) nat_coder"

definition stake_record_coder :: "stake_record coder" where
  "stake_record_coder = iso_coder (\<lambda>r. (sr_owner r, sr_self_bonded r, sr_delegated_in r))
     (\<lambda>(p, a, b). \<lparr>sr_owner = p, sr_self_bonded = a, sr_delegated_in = b\<rparr>)
     (pair_coder party_coder (pair_coder word_coder word_coder))"

definition proposal_coder :: "proposal coder" where
  "proposal_coder = iso_coder
     (\<lambda>p. (gp_id p, gp_proposer p, gp_title p, gp_description p, gp_status p, gp_yes_power p, gp_no_power p, gp_deadline_height p))
     (\<lambda>(i, w, t, d, st, y, n, h). \<lparr>gp_id = i, gp_proposer = w, gp_title = t, gp_description = d, gp_status = st,
        gp_yes_power = y, gp_no_power = n, gp_deadline_height = h\<rparr>)
     (pair_coder hash_coder (pair_coder party_coder (pair_coder string_coder (pair_coder string_coder
       (pair_coder status_coder (pair_coder word_coder (pair_coder word_coder word_coder)))))))"

definition equivocation_coder :: "equivocation_proof coder" where
  "equivocation_coder = iso_coder
     (\<lambda>p. (ep_offender p, ep_public_key p, ep_message_a p, ep_signature_a p, ep_message_b p, ep_signature_b p))
     (\<lambda>(w, k, a, sa, b, sb). \<lparr>ep_offender = w, ep_public_key = k, ep_message_a = a, ep_signature_a = sa, ep_message_b = b,
        ep_signature_b = sb\<rparr>)
     (pair_coder party_coder (pair_coder string_coder (pair_coder string_coder (pair_coder string_coder
       (pair_coder string_coder string_coder)))))"

definition statement_coder :: "attestation_statement coder" where
  "statement_coder = iso_coder (\<lambda>x. (as_party x, as_public_key x, as_signature x, as_root x))
     (\<lambda>(p, k, g, r). \<lparr>as_party = p, as_public_key = k, as_signature = g, as_root = r\<rparr>)
     (pair_coder party_coder (pair_coder string_coder (pair_coder string_coder string_coder)))"

definition share_coder :: "sealed_share coder" where
  "share_coder = iso_coder (\<lambda>x. (ss_recipient x, ss_nonce x, ss_ciphertext x))
     (\<lambda>(p, n, c). \<lparr>ss_recipient = p, ss_nonce = n, ss_ciphertext = c\<rparr>)
     (pair_coder party_coder (pair_coder bytes_coder bytes_coder))"

definition envelope_coder :: "private_envelope coder" where
  "envelope_coder = iso_coder
     (\<lambda>x. (pe_commitment x, pe_salt x, pe_ephemeral_public x, pe_stakeholders x, pe_shares x))
     (\<lambda>(c, t, e, ps, sh). \<lparr>pe_commitment = c, pe_salt = t, pe_ephemeral_public = e, pe_stakeholders = ps, pe_shares = sh\<rparr>)
     (pair_coder hash_coder (pair_coder hash_coder (pair_coder bytes_coder
       (pair_coder (list_coder party_coder) (list_coder share_coder)))))"

definition quorum_proof_coder :: "quorum_fraud_proof coder" where
  "quorum_proof_coder = iso_coder (\<lambda>x. (qp_offender x, qp_envelope x, qp_offender_stmt x, qp_majority x))
     (\<lambda>(p, e, st, m). \<lparr>qp_offender = p, qp_envelope = e, qp_offender_stmt = st, qp_majority = m\<rparr>)
     (pair_coder party_coder (pair_coder envelope_coder (pair_coder statement_coder (list_coder statement_coder))))"

definition staking_command_coder :: "staking_command coder" where
  "staking_command_coder = iso_coder
     (\<lambda>c. case c of ScStake a \<Rightarrow> Inl a | ScUnstake a \<Rightarrow> Inr (Inl a) | ScDelegate v a \<Rightarrow> Inr (Inr (Inl (v, a)))
       | ScUndelegate v a \<Rightarrow> Inr (Inr (Inr (Inl (v, a)))) | ScPropose t d p \<Rightarrow> Inr (Inr (Inr (Inr (Inl (t, d, p)))))
       | ScVote i b \<Rightarrow> Inr (Inr (Inr (Inr (Inr (Inl (i, b)))))) | ScFinalize i \<Rightarrow> Inr (Inr (Inr (Inr (Inr (Inr (Inl i))))))
       | ScSlash q \<Rightarrow> Inr (Inr (Inr (Inr (Inr (Inr (Inr (Inl q)))))))
       | ScSlashQuorum q \<Rightarrow> Inr (Inr (Inr (Inr (Inr (Inr (Inr (Inr (Inl q))))))))
       | ScFundRewards a \<Rightarrow> Inr (Inr (Inr (Inr (Inr (Inr (Inr (Inr (Inr (Inl a)))))))))
       | ScClaimRewards \<Rightarrow> Inr (Inr (Inr (Inr (Inr (Inr (Inr (Inr (Inr (Inr ()))))))))))
     (\<lambda>z. case z of Inl a \<Rightarrow> ScStake a | Inr (Inl a) \<Rightarrow> ScUnstake a | Inr (Inr (Inl (v, a))) \<Rightarrow> ScDelegate v a
       | Inr (Inr (Inr (Inl (v, a)))) \<Rightarrow> ScUndelegate v a | Inr (Inr (Inr (Inr (Inl (t, d, p))))) \<Rightarrow> ScPropose t d p
       | Inr (Inr (Inr (Inr (Inr (Inl (i, b)))))) \<Rightarrow> ScVote i b | Inr (Inr (Inr (Inr (Inr (Inr (Inl i)))))) \<Rightarrow> ScFinalize i
       | Inr (Inr (Inr (Inr (Inr (Inr (Inr (Inl q))))))) \<Rightarrow> ScSlash q
       | Inr (Inr (Inr (Inr (Inr (Inr (Inr (Inr (Inl q)))))))) \<Rightarrow> ScSlashQuorum q
       | Inr (Inr (Inr (Inr (Inr (Inr (Inr (Inr (Inr (Inl a))))))))) \<Rightarrow> ScFundRewards a
       | Inr (Inr (Inr (Inr (Inr (Inr (Inr (Inr (Inr (Inr u))))))))) \<Rightarrow> ScClaimRewards)
     (sum_coder word_coder (sum_coder word_coder (sum_coder (pair_coder party_coder word_coder)
       (sum_coder (pair_coder party_coder word_coder) (sum_coder (pair_coder string_coder (pair_coder string_coder word_coder))
         (sum_coder (pair_coder hash_coder bool_coder) (sum_coder hash_coder (sum_coder equivocation_coder
           (sum_coder quorum_proof_coder (sum_coder word_coder unit_coder))))))))))"

definition staking_event_coder :: "staking_event coder" where
  "staking_event_coder = iso_coder
     (\<lambda>e. case e of SkStaked p a b \<Rightarrow> Inl (p, a, b) | SkUnstaked p a b \<Rightarrow> Inr (Inl (p, a, b))
       | SkDelegated p q a \<Rightarrow> Inr (Inr (Inl (p, q, a))) | SkUndelegated p q a \<Rightarrow> Inr (Inr (Inr (Inl (p, q, a))))
       | SkProposalOpened i p t h \<Rightarrow> Inr (Inr (Inr (Inr (Inl (i, p, t, h)))))
       | SkVoted i p b w \<Rightarrow> Inr (Inr (Inr (Inr (Inr (Inl (i, p, b, w))))))
       | SkProposalFinalized i st y n \<Rightarrow> Inr (Inr (Inr (Inr (Inr (Inr (Inl (i, st, y, n)))))))
       | SkSlashed p a b \<Rightarrow> Inr (Inr (Inr (Inr (Inr (Inr (Inr (Inl (p, a, b))))))))
       | SkRewardsFunded p a \<Rightarrow> Inr (Inr (Inr (Inr (Inr (Inr (Inr (Inr (Inl (p, a)))))))))
       | SkRewardsClaimed p a \<Rightarrow> Inr (Inr (Inr (Inr (Inr (Inr (Inr (Inr (Inr (p, a))))))))))
     (\<lambda>z. case z of Inl (p, a, b) \<Rightarrow> SkStaked p a b | Inr (Inl (p, a, b)) \<Rightarrow> SkUnstaked p a b
       | Inr (Inr (Inl (p, q, a))) \<Rightarrow> SkDelegated p q a | Inr (Inr (Inr (Inl (p, q, a)))) \<Rightarrow> SkUndelegated p q a
       | Inr (Inr (Inr (Inr (Inl (i, p, t, h))))) \<Rightarrow> SkProposalOpened i p t h
       | Inr (Inr (Inr (Inr (Inr (Inl (i, p, b, w)))))) \<Rightarrow> SkVoted i p b w
       | Inr (Inr (Inr (Inr (Inr (Inr (Inl (i, st, y, n))))))) \<Rightarrow> SkProposalFinalized i st y n
       | Inr (Inr (Inr (Inr (Inr (Inr (Inr (Inl (p, a, b)))))))) \<Rightarrow> SkSlashed p a b
       | Inr (Inr (Inr (Inr (Inr (Inr (Inr (Inr (Inl (p, a))))))))) \<Rightarrow> SkRewardsFunded p a
       | Inr (Inr (Inr (Inr (Inr (Inr (Inr (Inr (Inr (p, a))))))))) \<Rightarrow> SkRewardsClaimed p a)
     (let paa = pair_coder party_coder (pair_coder word_coder word_coder);
          ppa = pair_coder party_coder (pair_coder party_coder word_coder) in
      sum_coder paa (sum_coder paa (sum_coder ppa (sum_coder ppa
        (sum_coder (pair_coder hash_coder (pair_coder party_coder (pair_coder string_coder word_coder)))
          (sum_coder (pair_coder hash_coder (pair_coder party_coder (pair_coder bool_coder word_coder)))
            (sum_coder (pair_coder hash_coder (pair_coder status_coder (pair_coder word_coder word_coder)))
              (sum_coder paa (sum_coder (pair_coder party_coder word_coder) (pair_coder party_coder word_coder))))))))))"

lemma status_coder_ok [coder_intros]: "coder_ok status_coder"
  unfolding status_coder_def by (intro coder_intros) (simp split: proposal_status.splits)

lemma staking_coders_ok [coder_intros]:
  "coder_ok stake_record_coder" "coder_ok proposal_coder" "coder_ok equivocation_coder" "coder_ok statement_coder"
  "coder_ok share_coder"
  unfolding stake_record_coder_def proposal_coder_def equivocation_coder_def statement_coder_def share_coder_def
  by (intro coder_intros; auto)+

lemma envelope_coder_ok [coder_intros]: "coder_ok envelope_coder"
  unfolding envelope_coder_def by (intro coder_intros; auto)

lemma quorum_proof_coder_ok [coder_intros]: "coder_ok quorum_proof_coder"
  unfolding quorum_proof_coder_def by (intro coder_intros; auto)

lemma staking_command_coder_ok [coder_intros]: "coder_ok staking_command_coder"
  unfolding staking_command_coder_def by (intro coder_intros) (simp split: staking_command.splits)

lemma staking_event_coder_ok [coder_intros]: "coder_ok staking_event_coder"
  unfolding staking_event_coder_def Let_def by (intro coder_intros) (simp split: staking_event.splits)

definition ref_staking_ext :: staking_ext where
  "ref_staking_ext = token_ext.extend ref_token_ext (staking_ext.fields (codec_of bool_coder) (codec_of stake_record_coder)
     (codec_of proposal_coder) (codec_of staking_command_coder) (codec_of staking_event_coder))"

lemma ref_staking_ext_ok: "staking_ext_ok ref_staking_ext"
  using ref_token_ext_ok
  by (simp add: staking_ext_ok_def token_ext_ok_def kernel_ext_ok_def hash_ext_ok_def ref_staking_ext_def
      token_ext.defs staking_ext.defs codec_of_ok coder_intros)

lemma ref_staking_identity: "identity_ext_ok ref_staking_ext"
  using veil_ext_okD(1) [OF ref_token_veil_ok]
  by (simp add: identity_ext_ok_def kernel_ext_ok_def hash_ext_ok_def ref_staking_ext_def token_ext.defs staking_ext.defs)

section \<open>Runs\<close>

lemma update_lock_runs:
  assumes "kernel_ext_ok X" and "pending_reward X s who (locked_of X s who) = 0"
  shows "\<exists>s'. update_lock X who d s = (Ok (), s')"
  using assms by (simp add: update_lock_def harvest_pending_def add_total_stake_def write_u128_ok settle_ok Let_def andthen_def)

lemma moves_runs:
  assumes "kernel_ext_ok X" and "src \<noteq> dst" and "a \<le> native X s src" and "unat (native X s dst) + unat a < 2 ^ 128"
  shows "\<exists>s'. moves X src dst a s s'"
  using assms by (auto simp: moves_def Let_def token_cells checked_add_def)

lemma pending_none: "locked_of X s who = 0 \<Longrightarrow> pending_reward X s who (locked_of X s who) = 0"
  by (simp add: pending_reward_def Let_def saturating_mul_def saturating_sub_def word_gt_0)

lemma reward_cells:
  "moves X src dst a s s' \<Longrightarrow> reward_acc X s' = reward_acc X s \<and> read_u128 X s' (reward_debt_key w) = read_u128 X s (reward_debt_key w)"
  by (auto simp: moves_def Let_def reward_acc_def put_u128_def read_u128_frame staking_key_defs bal_key_def)

lemma put_stake_rewards:
  "reward_acc X (put_stake X rec s) = reward_acc X s"
  "read_u128 X (put_stake X rec s) (reward_debt_key w) = read_u128 X s (reward_debt_key w)"
  by (simp_all add: put_stake_def reward_acc_def read_u128_frame staking_key_defs)

lemma pending_stable:
  "moves X src dst a s s' \<Longrightarrow> pending_reward X s' who pw = pending_reward X s who pw"
  "pending_reward X (put_stake X rec s) who pw = pending_reward X s who pw"
  using reward_cells [of X src dst a s s' who] by (simp_all add: pending_reward_def Let_def put_stake_rewards)

definition staking_ledger :: state_tree where
  "staking_ledger = put_balance ref_staking_ext (native_token_id ref_staking_ext) (PartyId ''alice'') 100 st_new"

lemma staking_empty:
  "locked_of X st_new = (\<lambda>_. 0)" "stake_total X st_new = 0" "delegation X st_new = (\<lambda>_ _. 0)"
  "stake_of Y st_new = stake_empty" "balance X st_new = (\<lambda>_ _. 0)"
  by (simp_all add: fun_eq_iff locked_of_def stake_total_def delegation_def stake_of_def)

lemma staking_ledger_ok:
  "staking_ok ref_staking_ext staking_ledger" "supply_bound ref_staking_ext staking_ledger"
  "native ref_staking_ext staking_ledger who = (if who = PartyId ''alice'' then 100 else 0)"
  "locked_of ref_staking_ext staking_ledger = (\<lambda>_. 0)"
proof -
  note k = staking_ext_okD(2) [OF ref_staking_ext_ok]
  show bal: "native ref_staking_ext staking_ledger who = (if who = PartyId ''alice'' then 100 else 0)" for who
    by (auto simp: staking_ledger_def token_cells k staking_empty)
  show lk: "locked_of ref_staking_ext staking_ledger = (\<lambda>_. 0)" by (simp add: staking_ledger_def staking_cells staking_empty)
  show "staking_ok ref_staking_ext staking_ledger"
    unfolding staking_ok_def own_stake_def lk
    by (simp add: staking_ledger_def staking_cells staking_empty book_total_zero stake_empty_def)
  show "supply_bound ref_staking_ext staking_ledger"
    using bal_wr [OF k, of "native_token_id ref_staking_ext" "PartyId ''alice''" 100 st_new]
    by (simp add: staking_ledger_def staking_empty book_total_zero)
qed

lemma demo_stake_runs: "\<exists>out s'. staking_dispatch ref_staking_ext demo_command 5 (ScStake 40) staking_ledger = (Ok out, s')"
proof -
  let ?X = ref_staking_ext
  note X = ref_staking_ext_ok and k = staking_ext_okD(2) [OF ref_staking_ext_ok]
  obtain s1 where mv: "moves ?X (PartyId ''alice'') escrow_account 40 staking_ledger s1"
    using moves_runs [OF k, of "PartyId ''alice''" escrow_account 40 staking_ledger] staking_ledger_ok(3)
    by (auto simp: escrow_account_def)
  let ?s2 = "put_stake ?X ((stake_of ?X s1 (PartyId ''alice''))\<lparr>sr_self_bonded := sr_self_bonded (stake_of ?X s1 (PartyId ''alice'')) + 40\<rparr>) s1"
  have "pending_reward ?X ?s2 (PartyId ''alice'') (locked_of ?X ?s2 (PartyId ''alice'')) = 0"
    using moves_reads(1) [OF mv] by (intro pending_none) (simp add: staking_cells staking_ledger_ok(4))
  then obtain s' where "update_lock ?X (PartyId ''alice'') 40 ?s2 = (Ok (), s')" using update_lock_runs [OF k] by blast
  moreover have "move_balance ?X (native_token_id ?X) (PartyId ''alice'') escrow_account 40 staking_ledger = (Ok (), s1)"
    using mv by (simp add: move_native [OF k])
  ultimately show ?thesis
    by (simp add: staking_dispatch_def staking_stake_def Let_def andthen_def save_stake_ok [OF X])
qed

section \<open>Properties\<close>

text \<open>
  C34. Stakes are backed. While less than \<open>2 ^ 127\<close> of the native token circulates (the code computes with stakes as \<open>i128\<close>), every
  successful staking command of a party whose name has no slash (and whose slashing target has none) keeps: the recorded total is the
  sum of the locked amounts, the escrow account covers it, and what a party has locked is its bond plus its delegations. The native
  token in circulation never grows.
\<close>

theorem staking_backed:
  assumes "staking_ext_ok X" and "staking_ok X s" and "circulating X s (native_token_id X) < 2 ^ 127"
    and "plain (cmd_submitter cmd)" and "plain_target c" and "staking_dispatch X cmd height c s = (Ok out, s')"
  shows "staking_ok X s' \<and> circulating X s' (native_token_id X) \<le> circulating X s (native_token_id X)"
  using assms by (rule staking_dispatch_keeps)

theorem staking_backed_witness:
  "\<exists>out s'. staking_dispatch ref_staking_ext demo_command 5 (ScStake 40) staking_ledger = (Ok out, s') \<and>
    staking_ok ref_staking_ext s'"
proof -
  obtain out s' where run: "staking_dispatch ref_staking_ext demo_command 5 (ScStake 40) staking_ledger = (Ok out, s')"
    using demo_stake_runs by blast
  show ?thesis
    using run staking_backed [OF ref_staking_ext_ok staking_ledger_ok(1,2) _ _ run]
    by (simp add: plain_def plain_target_def)
qed

text \<open>
  A proposal is decided once. Under every successful staking command a stored proposal either stays, gains
  voting power while it is active, or is closed by comparing the two tallies; a closed proposal never
  changes again; and a party that has voted can never vote on it again.
\<close>

theorem proposal_lifecycle:
  assumes "staking_ext_ok X" and "proposal_of X s i = Some p" and "staking_dispatch X cmd height c s = (Ok out, s')"
  shows "(\<exists>p'. proposal_of X s' i = Some p' \<and> gov_step p p') \<and>
    (gp_status p \<noteq> Active \<longrightarrow> proposal_of X s' i = Some p) \<and>
    (\<forall>cmd' h ap. st_contains s (vote_key X i (cmd_submitter cmd')) \<longrightarrow>
       (\<forall>r s''. gov_vote X cmd' h i ap s' \<noteq> (Ok r, s'')))"
proof -
  note step = staking_dispatch_gov [OF assms]
  have "gov_vote X cmd' h i ap s' \<noteq> (Ok r, s'')" if "st_contains s (vote_key X i (cmd_submitter cmd'))" for cmd' h ap r s''
    using vote_mark_stays [OF assms(1) that assms(3)] gov_vote_Ok [OF assms(1), of cmd' h i ap s' r s''] by blast
  then show ?thesis using step gov_step_final by blast
qed

definition demo_proposal :: proposal where
  "demo_proposal = \<lparr>gp_id = ZERO, gp_proposer = PartyId ''alice'', gp_title = ''t'', gp_description = ''d'', gp_status = Active,
     gp_yes_power = 3, gp_no_power = 2, gp_deadline_height = 10\<rparr>"

definition gov_ledger :: state_tree where
  "gov_ledger = st_put (proposal_key ref_staking_ext ZERO) (to_vec_or_default (js_proposal ref_staking_ext) demo_proposal) st_new"

lemma gov_ledger_proposal: "proposal_of ref_staking_ext gov_ledger ZERO = Some demo_proposal"
  by (simp add: gov_ledger_def proposal_reads(1) [OF ref_staking_ext_ok])

lemma gov_ledger_finalizes:
  "\<exists>out s'. staking_dispatch ref_staking_ext demo_command 11 (ScFinalize ZERO) gov_ledger = (Ok out, s')"
  by (simp add: staking_dispatch_def gov_finalize_Ok [OF ref_staking_ext_ok] gov_ledger_proposal Let_def)
    (simp add: demo_proposal_def)

theorem proposal_lifecycle_witness:
  "\<exists>out s' p'. staking_dispatch ref_staking_ext demo_command 11 (ScFinalize ZERO) gov_ledger = (Ok out, s') \<and>
    proposal_of ref_staking_ext s' ZERO = Some p' \<and> gov_step demo_proposal p'"
  using gov_ledger_finalizes proposal_lifecycle [OF ref_staking_ext_ok gov_ledger_proposal] by blast

text \<open>
  Voting periods rest on the submitter's word. The block height that the governance commands compare with
  the deadline is the last eight bytes of the submitter's own payload: whoever submits the command can
  close an active proposal at once by declaring a height past its deadline.
\<close>

theorem finalize_at_declared_height:
  assumes "staking_ext_ok X" and "proposal_of X s i = Some p" and "gp_status p = Active" and "gp_deadline_height p \<noteq> - 1"
  shows "\<exists>out s'. staking_handle X (staking_command_of X who vis nonce (gp_deadline_height p + 1) (ScFinalize i)) s = (Ok out, s') \<and>
    proposal_of X s' i = Some (p\<lparr>gp_status := (if gp_yes_power p > gp_no_power p then Passed else Rejected)\<rparr>)"
proof -
  let ?h = "gp_deadline_height p + 1" and ?cmd = "staking_command_of X who vis nonce (gp_deadline_height p + 1) (ScFinalize i)"
  have lt: "gp_deadline_height p < ?h"
  proof -
    have "unat (gp_deadline_height p) \<noteq> 2 ^ 64 - 1"
      using assms(4) unat_minus_one_max [where 'a = 64] by (auto simp: word_unat_eq_iff)
    then show ?thesis
      using unsigned_less [of "gp_deadline_height p", where ?'a = nat] by (simp add: word_less_nat_alt unat_word_ariths)
  qed
  have "split_height (cmd_payload ?cmd) = (to_vec_or_default (js_staking_command X) (ScFinalize i), ?h)"
    by (simp add: split_height_def staking_command_of_def Let_def u64_le_roundtrip)
  then have "staking_handle X ?cmd s = gov_finalize X ?cmd ?h i s"
    by (simp add: staking_handle_def staking_dispatch_def staking_ext_okD [OF assms(1)])
  then show ?thesis
    using assms(2,3) lt by (auto simp: gov_finalize_Ok [OF assms(1)] Let_def proposal_reads(1) [OF assms(1)])
qed

theorem finalize_at_declared_height_witness:
  "\<exists>out s'. staking_handle ref_staking_ext (staking_command_of ref_staking_ext (PartyId ''mallory'') Public 0 11 (ScFinalize ZERO)) gov_ledger =
     (Ok out, s')"
  using finalize_at_declared_height [OF ref_staking_ext_ok gov_ledger_proposal, of "PartyId ''mallory''" Public 0]
  by (auto simp: demo_proposal_def)


definition forged_proof :: "'x identity_ext_scheme \<Rightarrow> party_identity \<Rightarrow> party_id \<Rightarrow> equivocation_proof" where
  "forged_proof X i victim = \<lparr>ep_offender = victim, ep_public_key = hex_encode X (public_key X i),
     ep_message_a = hex_encode X [0], ep_signature_a = hex_encode X (sign_bytes X i [0]),
     ep_message_b = hex_encode X [1], ep_signature_b = hex_encode X (sign_bytes X i [1])\<rparr>"

lemma decode_hex_encode: "hash_ext_ok X \<Longrightarrow> hex_decode X (trim_start_0x (hex_encode X b)) = Some b"
proof -
  assume h: "hash_ext_ok X"
  then have "CHR ''x'' \<notin> set (hex_encode X b)" by (auto simp: hash_ext_ok_def hex_digits_def)
  with h show ?thesis by (simp add: trim_start_0x_hex hash_ext_ok_def)
qed

text \<open>
  A slashing proof does not have to come from the offender. The proof carries the public key that its two
  signatures are checked against, and nothing ties that key to the party it accuses: with any key
  pair of one's own, two signed messages slash any party.
\<close>

theorem slash_by_anyone:
  assumes "identity_ext_ok X"
  shows "\<exists>offence. \<forall>s. staking_slash X cmd (forged_proof X i victim) s = slash_offence X cmd victim offence s"
  using verify_sign_bytes [OF assms, of i] decode_hex_encode [OF identity_ext_okD(2) [OF assms]]
  by (intro exI [of _ "commit X ''staking/equivocation'' [as_bytes (party_name victim), [0], [1]]"])
    (simp add: staking_slash_def forged_proof_def decode_hex_def check_signature_def Let_def)

definition bonded_ledger :: state_tree where
  "bonded_ledger = put_balance ref_staking_ext (native_token_id ref_staking_ext) escrow_account 100
     (put_stake ref_staking_ext \<lparr>sr_owner = PartyId ''bob'', sr_self_bonded = 100, sr_delegated_in = 0\<rparr> st_new)"

lemma bonded_ledger_cells:
  "stake_of ref_staking_ext bonded_ledger (PartyId ''bob'') = \<lparr>sr_owner = PartyId ''bob'', sr_self_bonded = 100, sr_delegated_in = 0\<rparr>"
  "native ref_staking_ext bonded_ledger escrow_account = 100" "locked_of ref_staking_ext bonded_ledger = (\<lambda>_. 0)"
  "\<not> st_contains bonded_ledger (slash_key ref_staking_ext h)"
  using staking_ext_okD(2) [OF ref_staking_ext_ok]
  by (simp_all add: bonded_ledger_def staking_cells staking_empty ref_staking_ext_ok token_cells)
    (simp add: put_u128_def put_stake_def staking_key_defs bal_key_def st_contains_get)

lemma bonded_slash_runs:
  "\<exists>out s'. slash_offence ref_staking_ext cmd (PartyId ''bob'') h bonded_ledger = (Ok out, s') \<and>
    sr_self_bonded (stake_of ref_staking_ext s' (PartyId ''bob'')) = 80"
proof -
  let ?X = ref_staking_ext and ?bob = "PartyId ''bob''"
  note X = ref_staking_ext_ok and k = staking_ext_okD(2) [OF ref_staking_ext_ok]
  obtain s1 where b: "burn_from ?X (native_token_id ?X) escrow_account 20 bonded_ledger = (Ok (), s1)"
    by (simp add: burn_from_Ok [OF staking_ext_okD(1) [OF X]] bonded_ledger_cells)
  note r = burn_native [OF X b]
  let ?rec = "\<lparr>sr_owner = ?bob, sr_self_bonded = 80, sr_delegated_in = 0\<rparr>"
  have "pending_reward ?X (put_stake ?X ?rec s1) ?bob (locked_of ?X (put_stake ?X ?rec s1) ?bob) = 0"
    by (intro pending_none) (simp add: staking_cells r bonded_ledger_cells)
  then obtain s2 where u: "update_lock ?X ?bob (- 20) (put_stake ?X ?rec s1) = (Ok (), s2)" using update_lock_runs [OF k] by blast
  then have "stake_of ?X s2 ?bob = ?rec" using update_lock_stake_of [OF k u] by (simp add: staking_cells X)
  then show ?thesis
    using b u by (simp add: slash_offence_def Let_def bonded_ledger_cells DEFAULT_SLASH_BPS_def andthen_def map_err_def
        save_stake_ok [OF X] staking_ext_okD [OF X] staking_cells)
qed

theorem slash_by_anyone_witness:
  "\<exists>out s'. staking_slash ref_staking_ext demo_command (forged_proof ref_staking_ext (from_seed ''alice'' [9]) (PartyId ''bob'')) bonded_ledger = (Ok out, s') \<and>
    sr_self_bonded (stake_of ref_staking_ext s' (PartyId ''bob'')) = 80"
proof -
  obtain h where "\<forall>s. staking_slash ref_staking_ext demo_command (forged_proof ref_staking_ext (from_seed ''alice'' [9]) (PartyId ''bob'')) s =
      slash_offence ref_staking_ext demo_command (PartyId ''bob'') h s"
    using slash_by_anyone [OF ref_staking_identity] by blast
  then show ?thesis using bonded_slash_runs by simp
qed

lemma verify_stmt_prefix:
  "verify_stmt X c hs (st\<lparr>as_root := ''0x'' @ as_root st\<rparr>) = verify_stmt X c hs st"
  by (simp add: verify_stmt_def decode_hex_def)

lemma majority_agrees:
  assumes "\<forall>st \<in> set sts. verify_stmt X c hs st s = (Ok (), s) \<and> as_root st = r \<and> as_party st \<noteq> off"
    and "distinct (seen @ map as_party sts)" and "can = None \<or> can = Some r" and "sts \<noteq> [] \<or> can = Some r"
  shows "majority_loop X c hs off seen can sts s = (Ok (Some r), s)"
  using assms
proof (induction sts arbitrary: seen can)
  case (Cons st sts)
  have "majority_loop X c hs off (seen @ [as_party st]) (Some r) sts s = (Ok (Some r), s)"
    using Cons.prems by (intro Cons.IH) auto
  with Cons.prems show ?case by (auto simp: andthen_def)
qed auto

text \<open>
  Quorum fraud compares texts, not roots. Statements sign the bytes of a root, but the roots are compared as
  the hexadecimal texts in the proof. When the accused attests the same root as the majority, writing
  its root with one more \<open>0x\<close> in front makes every check pass, and the agreeing party is slashed.
\<close>

theorem quorum_slash_of_agreeing_party:
  assumes "verify_commitment X env" and "as_party st = victim" and "verify_stmt X (pe_commitment env) (pe_stakeholders env) st s = (Ok (), s)"
    and "\<forall>m \<in> set majority. verify_stmt X (pe_commitment env) (pe_stakeholders env) m s = (Ok (), s) \<and> as_root m = as_root st \<and>
      as_party m \<noteq> victim"
    and "distinct (map as_party majority)" and "length (pe_stakeholders env) div 2 + 1 \<le> length majority"
  shows "check_quorum_proof X \<lparr>qp_offender = victim, qp_envelope = env, qp_offender_stmt = st\<lparr>as_root := ''0x'' @ as_root st\<rparr>,
    qp_majority = majority\<rparr> s = (Ok (), s)"
proof -
  have "majority_loop X (pe_commitment env) (pe_stakeholders env) victim [] None majority s = (Ok (Some (as_root st)), s)"
    using assms(4-6) by (intro majority_agrees) auto
  then show ?thesis
    using assms(1-3,6) verify_stmt_prefix [of X "pe_commitment env" "pe_stakeholders env" st]
    by (simp add: check_quorum_proof_def Let_def andthen_def)
qed

definition honest_statement :: "private_envelope \<Rightarrow> string \<Rightarrow> attestation_statement" where
  "honest_statement env name = (let X = ref_staking_ext; i = from_seed name [7]; a = attestation_create X i (pe_commitment env) ZERO in
     \<lparr>as_party = ra_party a, as_public_key = hex_encode X (ra_public_key a), as_signature = hex_encode X (ra_signature a),
      as_root = hex_encode X (hash_bytes ZERO)\<rparr>)"

definition trio_envelope :: private_envelope where
  "trio_envelope = \<lparr>pe_commitment = expected_commitment ref_staking_ext ZERO [] [PartyId ''a'', PartyId ''b'', PartyId ''c''] [],
     pe_salt = ZERO, pe_ephemeral_public = [], pe_stakeholders = [PartyId ''a'', PartyId ''b'', PartyId ''c''], pe_shares = []\<rparr>"

lemma honest_statement_verifies:
  "PartyId name \<in> set hs \<Longrightarrow> verify_stmt ref_staking_ext (pe_commitment env) hs (honest_statement env name) s = (Ok (), s)"
  using verify_sign_bytes [OF ref_staking_identity] decode_hex_encode [OF identity_ext_okD(2) [OF ref_staking_identity]]
  by (simp add: verify_stmt_def honest_statement_def Let_def attestation_create_def from_seed_def decode_hex_def
      check_signature_def ZERO_def)

theorem quorum_slash_of_agreeing_party_witness:
  "let st = honest_statement trio_envelope in
   check_quorum_proof ref_staking_ext \<lparr>qp_offender = PartyId ''c'', qp_envelope = trio_envelope,
     qp_offender_stmt = (st ''c'')\<lparr>as_root := ''0x'' @ as_root (st ''c'')\<rparr>, qp_majority = [st ''a'', st ''b'']\<rparr> st_new = (Ok (), st_new)"
proof -
  let ?st = "honest_statement trio_envelope" and ?hs = "pe_stakeholders trio_envelope"
  have v: "verify_stmt ref_staking_ext (pe_commitment trio_envelope) ?hs (?st name) st_new = (Ok (), st_new)"
    if "name \<in> {''a'', ''b'', ''c''}" for name
    using that by (intro honest_statement_verifies) (auto simp: trio_envelope_def)
  have p: "as_party (?st name) = PartyId name" "as_root (?st name) = hex_encode ref_staking_ext (hash_bytes ZERO)" for name
    by (simp_all add: honest_statement_def Let_def attestation_create_def from_seed_def)
  have "verify_commitment ref_staking_ext trio_envelope" "length ?hs = 3"
    by (simp_all add: trio_envelope_def verify_commitment_def)
  then show ?thesis
    unfolding Let_def using v p by (intro quorum_slash_of_agreeing_party) simp_all
qed

text \<open>
  Leaving depends on the reward pool. Unstaking first pays the pending reward from the pool, and fails as a
  whole when the pool cannot pay it: a staker whose pending reward exceeds the pool cannot withdraw
  any part of its own bond.
\<close>

theorem unstake_needs_reward_pool:
  assumes "staking_ext_ok X" and "cmd_submitter cmd \<noteq> reward_pool_account"
    and "native X s reward_pool_account < pending_rewards_of X s (cmd_submitter cmd)"
  shows "staking_unstake X cmd amount s \<noteq> (Ok out, s')"
proof
  assume run: "staking_unstake X cmd amount s = (Ok out, s')"
  note k = staking_ext_okD(2) [OF assms(1)]
  let ?me = "cmd_submitter cmd"
  obtain s1 rec where mv: "moves X escrow_account ?me amount s s1" and up: "update_lock X ?me (- amount) (put_stake X rec s1) = (Ok (), s')"
    using run unfolding staking_unstake_def Let_def by (auto simp: ok_iffs move_native [OF k] save_stake_ok [OF assms(1)])
  have p: "pending_reward X (put_stake X rec s1) ?me (locked_of X (put_stake X rec s1) ?me) = pending_rewards_of X s ?me"
    using pending_stable(1) [OF mv] moves_reads(1) [OF mv] by (simp add: pending_stable(2) staking_cells pending_rewards_of_def)
  have pool: "native X (put_stake X rec s1) reward_pool_account = native X s reward_pool_account"
    using moves_balance(3) [OF k mv] assms(2) by (simp add: staking_cells escrow_account_def reward_pool_account_def)
  have pos: "0 < pending_rewards_of X s ?me" using assms(3) by (simp add: word_gt_0) (metis word_not_simps(1))
  obtain q s2 where "harvest_pending X ?me (put_stake X rec s1) = (Ok q, s2)"
    using up by (auto simp: update_lock_def andthen_Ok_iff)
  then have "moves X reward_pool_account ?me (pending_rewards_of X s ?me) (put_stake X rec s1) s2"
    using pos by (auto simp: harvest_Ok [OF k] p)
  then have "pending_rewards_of X s ?me \<le> native X s reward_pool_account" using pool by (simp add: moves_def Let_def)
  then show False using assms(3) by simp
qed

definition short_pool_ledger :: state_tree where
  "short_pool_ledger = put_u128 ref_staking_ext REWARD_ACC_KEY ACC_SCALE
     (put_u128 ref_staking_ext (locked_key (PartyId ''alice'')) 1 (put_stake ref_staking_ext
       \<lparr>sr_owner = PartyId ''alice'', sr_self_bonded = 1, sr_delegated_in = 0\<rparr> st_new))"

theorem unstake_needs_reward_pool_witness:
  "\<exists>e. fst (staking_unstake ref_staking_ext demo_command 1 short_pool_ledger) = Err e \<and>
     sr_self_bonded (stake_of ref_staking_ext short_pool_ledger (PartyId ''alice'')) = 1"
proof -
  note X = ref_staking_ext_ok and k = staking_ext_okD(2) [OF ref_staking_ext_ok]
  have cells: "reward_acc ref_staking_ext short_pool_ledger = ACC_SCALE" "locked_of ref_staking_ext short_pool_ledger (PartyId ''alice'') = 1"
    "read_u128 ref_staking_ext short_pool_ledger (reward_debt_key (PartyId ''alice'')) = 0"
    "native ref_staking_ext short_pool_ledger w = 0" for w
    by (simp_all add: short_pool_ledger_def staking_cells k staking_empty reward_acc_def read_u128_put)
      (simp add: put_u128_def put_stake_def read_u128_frame staking_key_defs)
  then have "native ref_staking_ext short_pool_ledger reward_pool_account < pending_rewards_of ref_staking_ext short_pool_ledger (PartyId ''alice'')"
    by (simp add: pending_rewards_of_def pending_reward_def Let_def ACC_SCALE_def saturating_mul_def saturating_sub_def)
  then have no: "staking_unstake ref_staking_ext demo_command 1 short_pool_ledger \<noteq> (Ok out, s')" for out s'
    using unstake_needs_reward_pool [OF X, of demo_command] by (simp add: reward_pool_account_def)
  have "no_panic (staking_unstake ref_staking_ext demo_command 1) short_pool_ledger"
    unfolding staking_unstake_def update_lock_def harvest_pending_def add_total_stake_def settle_reward_debt_def save_stake_def
      write_u128_def Let_def by (intro no_panic_intros)
  with no show ?thesis
    by (cases "staking_unstake ref_staking_ext demo_command 1 short_pool_ledger"; cases "fst (staking_unstake ref_staking_ext demo_command 1 short_pool_ledger)")
      (auto simp: no_panic_def short_pool_ledger_def staking_cells X)
qed

end
