(* ===== verification/Store.thy ===== *)
theory Store
  imports Token
begin

text \<open>
  \<open>store/src/lib.rs\<close>: the files of a node. A directory is a map from file names to contents. The block log and
  the log of pending commands hold one JSON text per line; snapshots are written to a temporary file
  that is then renamed. Whether a call to the operating system fails is decided by the parameters
  \<open>os_fail\<close> (by operation and file) and \<open>os_write\<close> (a write that fails may have written any number of
  bytes). Log messages and the ignored sync of the directory are left out.
\<close>

section \<open>Parameters\<close>

record store_ext = token_ext +
  js_block :: "block codec"
  js_state_tree :: "state_tree codec"
  js_signed :: "signed_command codec"
  js_hashes :: "hash list codec"
  os_fail :: "string \<Rightarrow> string \<Rightarrow> string option"
  os_write :: "string \<Rightarrow> bytes \<Rightarrow> (nat \<times> string) option"

type_synonym directory = "string \<rightharpoonup> bytes"

datatype store_error = Io string | Serde string | Corrupt nat

definition store_error_to_string :: "store_error \<Rightarrow> string" where
  "store_error_to_string e = (case e of
      Io m \<Rightarrow> ''io error: '' @ m
    | Serde m \<Rightarrow> ''serialization error: '' @ m
    | Corrupt n \<Rightarrow> ''corrupt block log at line '' @ decimal n)"

section \<open>Text lines\<close>

text \<open>UTF-8 well-formedness, which \<open>BufRead::lines\<close> checks.\<close>

definition cont_byte :: "u8 \<Rightarrow> bool" where
  "cont_byte b \<longleftrightarrow> 128 \<le> b \<and> b \<le> 191"

fun utf8_valid :: "bytes \<Rightarrow> bool" where
  "utf8_valid [] = True"
| "utf8_valid (a # r) =
     (if a < 128 then utf8_valid r
      else if 194 \<le> a \<and> a \<le> 223 then
        (case r of b # r' \<Rightarrow> cont_byte b \<and> utf8_valid r' | [] \<Rightarrow> False)
      else if 224 \<le> a \<and> a \<le> 239 then
        (case r of b # c # r' \<Rightarrow>
             cont_byte b \<and> cont_byte c \<and> (a = 224 \<longrightarrow> 160 \<le> b) \<and> (a = 237 \<longrightarrow> b \<le> 159) \<and> utf8_valid r'
         | _ \<Rightarrow> False)
      else if 240 \<le> a \<and> a \<le> 244 then
        (case r of b # c # d # r' \<Rightarrow>
             cont_byte b \<and> cont_byte c \<and> cont_byte d \<and> (a = 240 \<longrightarrow> 144 \<le> b) \<and> (a = 244 \<longrightarrow> b \<le> 143) \<and> utf8_valid r'
         | _ \<Rightarrow> False)
      else False)"

text \<open>\<open>line.trim().is_empty()\<close>: only characters with the Unicode property White\_Space.\<close>

fun blank :: "bytes \<Rightarrow> bool" where
  "blank [] = True"
| "blank (a # r) =
     (if a = 32 \<or> 9 \<le> a \<and> a \<le> 13 then blank r
      else if a = 194 then (case r of b # r' \<Rightarrow> (b = 133 \<or> b = 160) \<and> blank r' | [] \<Rightarrow> False)
      else if a = 225 \<or> a = 226 \<or> a = 227 then
        (case r of b # c # r' \<Rightarrow>
             ((a, b, c) = (225, 154, 128) \<or> (a, b, c) = (227, 128, 128) \<or> (a, b, c) = (226, 129, 159) \<or>
              (a = 226 \<and> b = 128 \<and> (128 \<le> c \<and> c \<le> 138 \<or> c = 168 \<or> c = 169 \<or> c = 175))) \<and> blank r'
         | _ \<Rightarrow> False)
      else False)"

text \<open>Lines with a mark telling whether a line feed ended them; a carriage return before it is dropped.\<close>

fun raw_lines :: "bytes \<Rightarrow> (bytes \<times> bool) list" where
  "raw_lines [] = []"
| "raw_lines (b # bs) =
     (if b = 10 then ([], True) # raw_lines bs
      else case raw_lines bs of
          [] \<Rightarrow> [([b], False)]
        | (l, t) # ls \<Rightarrow> (b # l, t) # ls)"

definition line_of :: "bytes \<times> bool \<Rightarrow> bytes" where
  "line_of lt = (case lt of (l, t) \<Rightarrow> if t \<and> l \<noteq> [] \<and> last l = 13 then butlast l else l)"

definition text_lines :: "bytes \<Rightarrow> bytes list" where
  "text_lines b = map line_of (raw_lines b)"

section \<open>File operations\<close>

definition os_call :: "'x store_ext_scheme \<Rightarrow> string \<Rightarrow> string \<Rightarrow> (directory, store_error, unit) act" where
  "os_call X operation file = (case os_fail X operation file of None \<Rightarrow> ret () | Some m \<Rightarrow> raise (Io m))"

definition content :: "directory \<Rightarrow> string \<Rightarrow> bytes" where
  "content d file = (case d file of None \<Rightarrow> [] | Some b \<Rightarrow> b)"

definition write_all :: "'x store_ext_scheme \<Rightarrow> string \<Rightarrow> bytes \<Rightarrow> (directory, store_error, unit) act" where
  "write_all X file b = (\<lambda>d. case os_write X file b of
      None \<Rightarrow> (Ok (), d(file \<mapsto> content d file @ b))
    | Some (n, m) \<Rightarrow> (Err (Io m), d(file \<mapsto> content d file @ take n b)))"

definition create_file :: "'x store_ext_scheme \<Rightarrow> string \<Rightarrow> (directory, store_error, unit) act" where
  "create_file X file = andthen (os_call X ''create'' file) (\<lambda>_. modify (\<lambda>d. d(file \<mapsto> [])))"

definition rename_file :: "'x store_ext_scheme \<Rightarrow> string \<Rightarrow> string \<Rightarrow> (directory, store_error, unit) act" where
  "rename_file X tmp final = andthen (os_call X ''rename'' tmp) (\<lambda>_.
     modify (\<lambda>d. (d(final := d tmp))(tmp := None)))"

definition not_found :: store_error where
  "not_found = Io ''No such file or directory (os error 2)''"

definition read_file :: "'x store_ext_scheme \<Rightarrow> string \<Rightarrow> (directory, store_error, bytes) act" where
  "read_file X file = andthen (os_call X ''open'' file) (\<lambda>_.
     andthen (gets (\<lambda>d. d file)) (of_option not_found))"

definition serde :: "string + 'a \<Rightarrow> ('s, store_error, 'a) act" where
  "serde r = (case r of Inl m \<Rightarrow> raise (Serde m) | Inr v \<Rightarrow> ret v)"

definition BLOCKS :: string where "BLOCKS = ''blocks.jsonl''"
definition STATE :: string where "STATE = ''state.json''"
definition MEMPOOL :: string where "MEMPOOL = ''mempool.jsonl''"
definition PRIVATE_STATE :: string where "PRIVATE_STATE = ''private_state.json''"
definition PRIVATE_COMMITMENTS :: string where "PRIVATE_COMMITMENTS = ''private_commitments.json''"

definition tmp_of :: "string \<Rightarrow> string" where
  "tmp_of file = file @ ''.tmp''"

section \<open>The store\<close>

definition store_open :: "'x store_ext_scheme \<Rightarrow> (directory, store_error, unit) act" where
  "store_open X =
     andthen (os_call X ''create_dir'' []) (\<lambda>_.
     andthen (gets (\<lambda>d. d BLOCKS = None)) (\<lambda>missing.
     if missing then create_file X BLOCKS else ret ()))"

definition atomic_write :: "'x store_ext_scheme \<Rightarrow> string \<Rightarrow> string \<Rightarrow> bytes \<Rightarrow> (directory, store_error, unit) act" where
  "atomic_write X final_path tmp b =
     andthen (create_file X tmp) (\<lambda>_.
     andthen (write_all X tmp b) (\<lambda>_.
     andthen (os_call X ''flush'' tmp) (\<lambda>_.
     andthen (os_call X ''sync'' tmp) (\<lambda>_.
     rename_file X tmp final_path))))"

definition append_block :: "'x store_ext_scheme \<Rightarrow> block \<Rightarrow> (directory, store_error, unit) act" where
  "append_block X b =
     andthen (os_call X ''open'' BLOCKS) (\<lambda>_.
     andthen (gets (\<lambda>d. d BLOCKS \<noteq> None)) (\<lambda>there.
     andthen (ensure there not_found) (\<lambda>_.
     andthen (serde (to_vec (js_block X) b)) (\<lambda>line.
     andthen (write_all X BLOCKS (line @ [10])) (\<lambda>_.
     andthen (os_call X ''flush'' BLOCKS) (\<lambda>_.
     os_call X ''sync'' BLOCKS))))))"

definition bad_utf8 :: store_error where
  "bad_utf8 = Io ''stream did not contain valid UTF-8''"

fun block_lines :: "'x store_ext_scheme \<Rightarrow> nat \<Rightarrow> bytes list \<Rightarrow> block list \<Rightarrow> store_error + block list" where
  "block_lines X i [] blocks = Inr blocks"
| "block_lines X i (line # ls) blocks =
     (if \<not> utf8_valid line then Inl bad_utf8
      else if blank line then block_lines X (i + 1) ls blocks
      else case from_slice (js_block X) line of
          Inl _ \<Rightarrow> Inl (Corrupt (i + 1))
        | Inr b \<Rightarrow> block_lines X (i + 1) ls (blocks @ [b]))"

definition of_sum :: "'e + 'a \<Rightarrow> ('s, 'e, 'a) act" where
  "of_sum r = (case r of Inl e \<Rightarrow> raise e | Inr v \<Rightarrow> ret v)"

definition load_blocks :: "'x store_ext_scheme \<Rightarrow> (directory, store_error, block list) act" where
  "load_blocks X = andthen (read_file X BLOCKS) (\<lambda>b. of_sum (block_lines X 0 (text_lines b) []))"

definition block_count :: "'x store_ext_scheme \<Rightarrow> (directory, store_error, nat) act" where
  "block_count X = andthen (read_file X BLOCKS) (\<lambda>b.
     ret (length (filter (\<lambda>l. utf8_valid l \<and> \<not> blank l) (text_lines b))))"

definition save_state :: "'x store_ext_scheme \<Rightarrow> state_tree \<Rightarrow> (directory, store_error, unit) act" where
  "save_state X s = andthen (serde (to_vec (js_state_tree X) s)) (\<lambda>b. atomic_write X STATE (tmp_of STATE) b)"

definition load_state :: "'x store_ext_scheme \<Rightarrow> (directory, store_error, state_tree option) act" where
  "load_state X =
     andthen (gets (\<lambda>d. d STATE \<noteq> None)) (\<lambda>there.
     if \<not> there then ret None
     else andthen (read_file X STATE) (\<lambda>b.
          andthen (serde (from_slice (js_state_tree X) b)) (\<lambda>s. ret (Some s))))"

definition save_private_state :: "'x store_ext_scheme \<Rightarrow> state_tree \<Rightarrow> (directory, store_error, unit) act" where
  "save_private_state X s =
     andthen (serde (to_vec (js_state_tree X) s)) (\<lambda>b. atomic_write X PRIVATE_STATE (tmp_of PRIVATE_STATE) b)"

definition load_private_state :: "'x store_ext_scheme \<Rightarrow> (directory, store_error, state_tree option) act" where
  "load_private_state X =
     andthen (gets (\<lambda>d. d PRIVATE_STATE \<noteq> None)) (\<lambda>there.
     if \<not> there then ret None
     else andthen (read_file X PRIVATE_STATE) (\<lambda>b.
          andthen (serde (from_slice (js_state_tree X) b)) (\<lambda>s. ret (Some s))))"

definition save_private_commitments :: "'x store_ext_scheme \<Rightarrow> hash list \<Rightarrow> (directory, store_error, unit) act" where
  "save_private_commitments X cs =
     andthen (serde (to_vec (js_hashes X) cs)) (\<lambda>b. atomic_write X PRIVATE_COMMITMENTS (tmp_of PRIVATE_COMMITMENTS) b)"

definition load_private_commitments :: "'x store_ext_scheme \<Rightarrow> (directory, store_error, hash list) act" where
  "load_private_commitments X =
     andthen (gets (\<lambda>d. d PRIVATE_COMMITMENTS \<noteq> None)) (\<lambda>there.
     if \<not> there then ret []
     else andthen (read_file X PRIVATE_COMMITMENTS) (\<lambda>b. serde (from_slice (js_hashes X) b)))"

definition append_pending :: "'x store_ext_scheme \<Rightarrow> signed_command \<Rightarrow> (directory, store_error, unit) act" where
  "append_pending X sc =
     andthen (os_call X ''open'' MEMPOOL) (\<lambda>_.
     andthen (modify (\<lambda>d. d(MEMPOOL \<mapsto> content d MEMPOOL))) (\<lambda>_.
     andthen (serde (to_vec (js_signed X) sc)) (\<lambda>line.
     andthen (write_all X MEMPOOL (line @ [10])) (\<lambda>_.
     andthen (os_call X ''flush'' MEMPOOL) (\<lambda>_.
     os_call X ''sync'' MEMPOOL)))))"

fun pending_lines :: "'x store_ext_scheme \<Rightarrow> bytes list \<Rightarrow> signed_command list \<Rightarrow> store_error + signed_command list" where
  "pending_lines X [] pending = Inr pending"
| "pending_lines X (line # ls) pending =
     (if \<not> utf8_valid line then Inl bad_utf8
      else if blank line then pending_lines X ls pending
      else case from_slice (js_signed X) line of
          Inl _ \<Rightarrow> pending_lines X ls pending
        | Inr sc \<Rightarrow> pending_lines X ls (pending @ [sc]))"

definition load_pending :: "'x store_ext_scheme \<Rightarrow> (directory, store_error, signed_command list) act" where
  "load_pending X =
     andthen (gets (\<lambda>d. d MEMPOOL \<noteq> None)) (\<lambda>there.
     if \<not> there then ret []
     else andthen (read_file X MEMPOOL) (\<lambda>b. of_sum (pending_lines X (text_lines b) [])))"

fun write_lines :: "'x store_ext_scheme \<Rightarrow> string \<Rightarrow> signed_command list \<Rightarrow> (directory, store_error, unit) act" where
  "write_lines X file [] = ret ()"
| "write_lines X file (sc # scs) =
     andthen (serde (to_vec (js_signed X) sc)) (\<lambda>line.
     andthen (write_all X file (line @ [10])) (\<lambda>_.
     write_lines X file scs))"

definition rewrite_pending :: "'x store_ext_scheme \<Rightarrow> signed_command list \<Rightarrow> (directory, store_error, unit) act" where
  "rewrite_pending X pending =
     (let tmp = tmp_of MEMPOOL in
      andthen (create_file X tmp) (\<lambda>_.
      andthen (write_lines X tmp pending) (\<lambda>_.
      andthen (os_call X ''flush'' tmp) (\<lambda>_.
      andthen (os_call X ''sync'' tmp) (\<lambda>_.
      rename_file X tmp MEMPOOL)))))"

section \<open>What the libraries promise\<close>

text \<open>
  JSON text is UTF-8, is not blank and, in the compact form that \<open>serde_json::to_string\<close> writes, holds no
  line feed and does not end with a carriage return. \<open>os_ok\<close>: no call to the operating system fails.
\<close>

definition line_ok :: "bytes \<Rightarrow> bool" where
  "line_ok b \<longleftrightarrow> utf8_valid b \<and> \<not> blank b \<and> 10 \<notin> set b \<and> last b \<noteq> 13"

definition json_lines :: "'a codec \<Rightarrow> bool" where
  "json_lines c \<longleftrightarrow> codec_ok c \<and> (\<forall>x. line_ok (to_vec_or_default c x))"

definition store_ext_ok :: "'x store_ext_scheme \<Rightarrow> bool" where
  "store_ext_ok X \<longleftrightarrow> json_lines (js_block X) \<and> json_lines (js_signed X) \<and> codec_ok (js_state_tree X) \<and> codec_ok (js_hashes X)"

definition os_ok :: "'x store_ext_scheme \<Rightarrow> bool" where
  "os_ok X \<longleftrightarrow> (\<forall>operation file. os_fail X operation file = None) \<and> (\<forall>file b. os_write X file b = None)"

lemma store_ext_okD:
  assumes "store_ext_ok X"
  shows "codec_ok (js_block X)" "codec_ok (js_signed X)" "codec_ok (js_state_tree X)" "codec_ok (js_hashes X)"
    "line_ok (to_vec_or_default (js_block X) b)" "line_ok (to_vec_or_default (js_signed X) sc)"
  using assms by (simp_all add: store_ext_ok_def json_lines_def)

section \<open>Lines\<close>

text \<open>The contents of a log: every entry, written as one line.\<close>

definition log_of :: "'a codec \<Rightarrow> 'a list \<Rightarrow> bytes" where
  "log_of c xs = concat (map (\<lambda>x. to_vec_or_default c x @ [10]) xs)"

lemma log_of_simps [simp]:
  "log_of c [] = []" "log_of c (xs @ [x]) = log_of c xs @ to_vec_or_default c x @ [10]"
  "log_of c (x # xs) = to_vec_or_default c x @ 10 # log_of c xs"
  by (simp_all add: log_of_def)

lemma raw_lines_line: "10 \<notin> set l \<Longrightarrow> raw_lines (l @ 10 # r) = (l, True) # raw_lines r"
  by (induction l) auto

lemma raw_lines_tail: "10 \<notin> set l \<Longrightarrow> l \<noteq> [] \<Longrightarrow> raw_lines l = [(l, False)]"
proof (induction l)
  case (Cons b l)
  then show ?case by (cases "l = []") auto
qed simp

lemma text_lines_line: "line_ok l \<Longrightarrow> text_lines (l @ 10 # r) = l # text_lines r"
  by (simp add: text_lines_def raw_lines_line line_ok_def line_of_def)

lemma text_lines_log:
  assumes "\<And>x. line_ok (to_vec_or_default c x)"
  shows "text_lines (log_of c xs @ r) = map (to_vec_or_default c) xs @ text_lines r"
  by (induction xs) (simp_all add: text_lines_line assms)

lemma text_lines_Nil [simp]: "text_lines [] = []"
  by (simp add: text_lines_def)

lemma block_lines_log:
  assumes "store_ext_ok X"
  shows "block_lines X i (map (to_vec_or_default (js_block X)) bs @ ls) acc = block_lines X (i + length bs) ls (acc @ bs)"
proof (induction bs arbitrary: i acc)
  case (Cons b bs)
  then show ?case
    using store_ext_okD(5) [OF assms, of b]
    by (simp add: line_ok_def from_slice_ok [OF store_ext_okD(1) [OF assms]])
qed simp

lemma pending_lines_log:
  assumes "store_ext_ok X"
  shows "pending_lines X (map (to_vec_or_default (js_signed X)) scs @ ls) acc = pending_lines X ls (acc @ scs)"
proof (induction scs arbitrary: acc)
  case (Cons sc scs)
  then show ?case
    using store_ext_okD(6) [OF assms, of sc]
    by (simp add: line_ok_def from_slice_ok [OF store_ext_okD(2) [OF assms]])
qed simp

section \<open>Journals\<close>

text \<open>
  The contract of an append-only log: appending to a log that holds \<open>xs\<close> succeeds and makes it hold one more
  entry, and loading returns what it holds.
\<close>

fun append_all :: "('a \<Rightarrow> ('s, 'e, unit) act) \<Rightarrow> 'a list \<Rightarrow> ('s, 'e, unit) act" where
  "append_all f [] = ret ()"
| "append_all f (x # xs) = andthen (f x) (\<lambda>_. append_all f xs)"

locale journal =
  fixes ok :: "'e \<Rightarrow> bool"
    and holds :: "'e \<Rightarrow> directory \<Rightarrow> 'a list \<Rightarrow> bool"
    and app :: "'e \<Rightarrow> 'a \<Rightarrow> (directory, store_error, unit) act"
    and load :: "'e \<Rightarrow> (directory, store_error, 'a list) act"
  assumes append_holds: "ok e \<Longrightarrow> holds e d xs \<Longrightarrow> \<exists>d'. app e x d = (Ok (), d') \<and> holds e d' (xs @ [x])"
    and load_holds: "ok e \<Longrightarrow> holds e d xs \<Longrightarrow> load e d = (Ok xs, d)"
begin

lemma appends_hold:
  assumes "ok e" and "holds e d xs"
  shows "\<exists>d'. append_all (app e) ys d = (Ok (), d') \<and> holds e d' (xs @ ys)"
  using assms(2)
proof (induction ys arbitrary: d xs)
  case (Cons y ys)
  obtain d1 where "app e y d = (Ok (), d1)" "holds e d1 (xs @ [y])"
    using append_holds [OF assms(1) Cons.prems] by blast
  with Cons.IH [of d1 "xs @ [y]"] show ?case by (simp add: andthen_def)
qed simp

lemma appends_load:
  assumes "ok e" and "holds e d xs"
  shows "\<exists>d'. append_all (app e) ys d = (Ok (), d') \<and> load e d' = (Ok (xs @ ys), d')"
  using appends_hold [OF assms] load_holds [OF assms(1)] by blast

end

definition holds_blocks :: "'x store_ext_scheme \<Rightarrow> directory \<Rightarrow> block list \<Rightarrow> bool" where
  "holds_blocks X d bs \<longleftrightarrow> d BLOCKS = Some (log_of (js_block X) bs)"

definition holds_pending :: "'x store_ext_scheme \<Rightarrow> directory \<Rightarrow> signed_command list \<Rightarrow> bool" where
  "holds_pending X d scs \<longleftrightarrow> content d MEMPOOL = log_of (js_signed X) scs"

definition store_ready :: "'x store_ext_scheme \<Rightarrow> bool" where
  "store_ready X \<longleftrightarrow> store_ext_ok X \<and> os_ok X"

lemma os_call_ok [simp]: "os_ok X \<Longrightarrow> os_call X operation file = ret ()"
  by (simp add: os_call_def os_ok_def)

lemma write_all_ok [simp]: "os_ok X \<Longrightarrow> write_all X file b = modify (\<lambda>d. d(file \<mapsto> content d file @ b))"
  by (simp add: write_all_def os_ok_def modify_def)

lemma serde_codec [simp]: "codec_ok c \<Longrightarrow> serde (to_vec c x) = ret (to_vec_or_default c x)"
  by (simp add: serde_def to_vec_ok)

lemma serde_slice [simp]: "codec_ok c \<Longrightarrow> serde (from_slice c (to_vec_or_default c x)) = ret x"
  by (simp add: serde_def from_slice_ok)

lemma append_block_run:
  assumes "store_ready X"
  shows "append_block X b d = (case d BLOCKS of
      None \<Rightarrow> (Err not_found, d)
    | Some log \<Rightarrow> (Ok (), d(BLOCKS \<mapsto> log @ to_vec_or_default (js_block X) b @ [10])))"
  using assms by (auto simp: store_ready_def append_block_def store_ext_okD content_def andthen_assoc split: option.splits)

lemma append_pending_run:
  assumes "store_ready X"
  shows "append_pending X sc d = (Ok (), d(MEMPOOL \<mapsto> content d MEMPOOL @ to_vec_or_default (js_signed X) sc @ [10]))"
  using assms by (simp add: store_ready_def append_pending_def store_ext_okD content_def)

lemma read_file_run:
  "os_ok X \<Longrightarrow> read_file X file d = (case d file of None \<Rightarrow> (Err not_found, d) | Some b \<Rightarrow> (Ok b, d))"
  by (simp add: read_file_def split: option.splits)

interpretation blocks: journal store_ready holds_blocks append_block load_blocks
proof
  fix X :: "'x store_ext_scheme" and d bs b
  assume X: "store_ready X" and h: "holds_blocks X d bs"
  show "\<exists>d'. append_block X b d = (Ok (), d') \<and> holds_blocks X d' (bs @ [b])"
    using X h by (simp add: append_block_run holds_blocks_def)
  have "block_lines X 0 (text_lines (log_of (js_block X) bs)) [] = Inr bs"
    using X text_lines_log [of "js_block X" bs "[]"] block_lines_log [of X 0 bs "[]" "[]"]
    by (simp add: store_ready_def store_ext_okD)
  then show "load_blocks X d = (Ok bs, d)"
    using X h by (simp add: load_blocks_def andthen_def read_file_run store_ready_def holds_blocks_def of_sum_def)
qed

interpretation pending: journal store_ready holds_pending append_pending load_pending
proof
  fix X :: "'x store_ext_scheme" and d scs sc
  assume X: "store_ready X" and h: "holds_pending X d scs"
  show "\<exists>d'. append_pending X sc d = (Ok (), d') \<and> holds_pending X d' (scs @ [sc])"
    using X h by (simp add: append_pending_run holds_pending_def content_def)
  have p: "pending_lines X (text_lines (log_of (js_signed X) scs)) [] = Inr scs"
    using X text_lines_log [of "js_signed X" scs "[]"] pending_lines_log [of X scs "[]" "[]"]
    by (simp add: store_ready_def store_ext_okD)
  show "load_pending X d = (Ok scs, d)"
  proof (cases "d MEMPOOL")
    case None
    then have "log_of (js_signed X) scs = []" using h by (simp add: holds_pending_def content_def)
    then have "scs = []" by (cases scs) auto
    then show ?thesis using None by (simp add: load_pending_def)
  next
    case (Some b)
    then have "b = log_of (js_signed X) scs" using h by (simp add: holds_pending_def content_def)
    then show ?thesis
      using Some X p by (simp add: load_pending_def andthen_def read_file_run store_ready_def of_sum_def)
  qed
qed

section \<open>Snapshots\<close>

lemma rename_frame: "keeps (\<lambda>d. d f = v) (rename_file X tmp final)" if "f \<noteq> final" "f \<noteq> tmp"
  unfolding rename_file_def os_call_def using that by (intro keeps_intros) auto

lemma keeps_file [keeps_intros]:
  "f \<noteq> file \<Longrightarrow> keeps (\<lambda>d. d f = v) (write_all X file b)"
  "f \<noteq> file \<Longrightarrow> keeps (\<lambda>d. d f = v) (create_file X file)"
  "keeps P (os_call X operation file')" "keeps P (serde r)"
  by (auto simp: keeps_def write_all_def create_file_def os_call_def serde_def andthen_def split: option.splits sum.splits)

lemma write_all_OkD: "write_all X file b d = (Ok (), d') \<Longrightarrow> d' = d(file \<mapsto> content d file @ b)"
  by (auto simp: write_all_def split: option.splits)

lemma os_call_OkD: "os_call X operation file d = (Ok u, d') \<Longrightarrow> d' = d"
  by (auto simp: os_call_def split: option.splits)

text \<open>Before the rename an atomic write only touches its temporary file.\<close>

lemma atomic_write_cases:
  assumes "atomic_write X final tmp b d = (r, d')" and "final \<noteq> tmp"
  shows "(r \<noteq> Ok () \<and> d' final = d final) \<or> (r = Ok () \<and> d' final = Some b \<and> d' tmp = None)"
proof -
  let ?prep = "andthen (create_file X tmp) (\<lambda>_. andthen (write_all X tmp b) (\<lambda>_.
     andthen (os_call X ''flush'' tmp) (\<lambda>_. os_call X ''sync'' tmp)))"
  have eq: "atomic_write X final tmp b = andthen ?prep (\<lambda>_. rename_file X tmp final)"
    by (simp add: atomic_write_def andthen_assoc)
  obtain q d1 where q: "?prep d = (q, d1)" by force
  have "keeps (\<lambda>e. e final = d final) ?prep"
    using assms(2) by (intro keeps_intros) auto
  then have same: "d1 final = d final" using q by (auto dest: keepsD)
  show ?thesis
  proof (cases q)
    case (Ok u)
    then have "d1 tmp = Some b"
      using q by (auto simp: andthen_Ok_iff create_file_def content_def dest!: write_all_OkD os_call_OkD)
    moreover have "rename_file X tmp final d1 = (r, d')" using assms(1) q Ok by (simp add: eq andthen_def)
    ultimately show ?thesis using same assms(2)
      by (auto simp: rename_file_def os_call_def split: option.splits)
  qed (use assms(1) q same in \<open>auto simp: eq andthen_def\<close>)
qed

lemma atomic_write_frame:
  assumes "atomic_write X final tmp b d = (r, d')" and "f \<noteq> final" "f \<noteq> tmp"
  shows "d' f = d f"
proof -
  have "keeps (\<lambda>e. e f = d f) (atomic_write X final tmp b)"
    unfolding atomic_write_def using assms(2,3) by (intro keeps_intros rename_frame) auto
  then show ?thesis using assms(1) by (auto dest: keepsD)
qed

lemma atomic_write_ok:
  assumes "os_ok X" and "final \<noteq> tmp"
  shows "atomic_write X final tmp b d = (Ok (), (d(final \<mapsto> b))(tmp := None))"
  using assms by (simp add: atomic_write_def create_file_def rename_file_def andthen_def content_def fun_upd_twist)

lemma save_state_run:
  "store_ready X \<Longrightarrow> save_state X s d = (Ok (), (d(STATE \<mapsto> to_vec_or_default (js_state_tree X) s))(tmp_of STATE := None))"
  by (simp add: store_ready_def save_state_def store_ext_okD atomic_write_ok tmp_of_def)

lemma load_state_run:
  "store_ready X \<Longrightarrow> d STATE = Some (to_vec_or_default (js_state_tree X) s) \<Longrightarrow> load_state X d = (Ok (Some s), d)"
  by (simp add: store_ready_def load_state_def andthen_def read_file_run store_ext_okD)

lemma write_lines_run:
  "store_ready X \<Longrightarrow> d file \<noteq> None \<Longrightarrow>
   write_lines X file scs d = (Ok (), d(file \<mapsto> content d file @ log_of (js_signed X) scs))"
proof (induction scs arbitrary: d)
  case Nil
  then show ?case by (auto simp: content_def)
next
  case (Cons sc scs)
  let ?d = "d(file \<mapsto> content d file @ to_vec_or_default (js_signed X) sc @ [10])"
  have "write_lines X file (sc # scs) d = write_lines X file scs ?d"
    using Cons.prems(1) by (simp add: store_ready_def store_ext_okD)
  also have "\<dots> = (Ok (), ?d(file \<mapsto> content ?d file @ log_of (js_signed X) scs))"
    by (rule Cons.IH) (use Cons.prems(1) in simp_all)
  also have "content ?d file @ log_of (js_signed X) scs = content d file @ log_of (js_signed X) (sc # scs)"
    by (simp add: content_def)
  finally show ?case by (simp only: fun_upd_upd)
qed

lemma rewrite_pending_run:
  assumes "store_ready X"
  shows "rewrite_pending X scs d = (Ok (), (d(MEMPOOL \<mapsto> log_of (js_signed X) scs))(tmp_of MEMPOOL := None))"
  using assms write_lines_run [OF assms, of "d(tmp_of MEMPOOL \<mapsto> [])" "tmp_of MEMPOOL" scs]
  by (simp add: rewrite_pending_def Let_def create_file_def rename_file_def store_ready_def andthen_def content_def
      fun_upd_twist tmp_of_def)

section \<open>A concrete instance of the parameters\<close>

definition block_coder :: "block coder" where
  "block_coder = iso_coder (\<lambda>b. (blk_height b, blk_parent b, blk_events_root b, blk_state_root b, blk_timestamp b,
       blk_proposer b, blk_events b, blk_commands b))
     (\<lambda>(h, p, er, sr, t, q, es, cs). \<lparr>blk_height = h, blk_parent = p, blk_events_root = er, blk_state_root = sr,
       blk_timestamp = t, blk_proposer = q, blk_events = es, blk_commands = cs\<rparr>)
     (pair_coder word_coder (pair_coder hash_coder (pair_coder hash_coder (pair_coder hash_coder
       (pair_coder word_coder (pair_coder party_coder (pair_coder (list_coder event_coder) (list_coder command_coder))))))))"

definition signed_coder :: "signed_command coder" where
  "signed_coder = iso_coder (\<lambda>c. (sc_command c, sc_public_key c, sc_signature c, sc_chain_id c))
     (\<lambda>(c, k, s, i). \<lparr>sc_command = c, sc_public_key = k, sc_signature = s, sc_chain_id = i\<rparr>)
     (pair_coder command_coder (pair_coder bytes_coder (pair_coder bytes_coder word_coder)))"

definition state_coder :: "state_tree coder" where
  "state_coder = iso_coder entries (\<lambda>m. \<lparr>entries = m\<rparr>) (fmap_coder string_coder bytes_coder)"

definition ref_store_ext :: store_ext where
  "ref_store_ext = token_ext.extend ref_token_ext (store_ext.fields (codec_of block_coder) (codec_of state_coder)
     (codec_of signed_coder) (codec_of (list_coder hash_coder)) (\<lambda>_ _. None) (\<lambda>_ _. None))"

lemma store_coders_ok [coder_intros]: "coder_ok block_coder" "coder_ok signed_coder" "coder_ok state_coder"
  unfolding block_coder_def signed_coder_def state_coder_def by (intro coder_intros; auto)+

text \<open>The reference coders only write the bytes 0 and 1.\<close>

definition binary_coder :: "'a coder \<Rightarrow> bool" where
  "binary_coder p \<longleftrightarrow> (\<forall>x. set (put_one p x) \<subseteq> {0, 1} \<and> put_one p x \<noteq> [])"

lemma binary_coder_intros:
  "binary_coder nat_coder" "binary_coder p \<Longrightarrow> binary_coder (iso_coder f g p)"
  "binary_coder p \<Longrightarrow> binary_coder q \<Longrightarrow> binary_coder (pair_coder p q)"
  "binary_coder p \<Longrightarrow> binary_coder (list_coder p)"
  "binary_coder p \<Longrightarrow> binary_coder q \<Longrightarrow> binary_coder (sum_coder p q)"
  by (fastforce simp: binary_coder_def nat_coder_def iso_coder_def pair_coder_def list_coder_def sum_coder_def
      split: sum.splits)+

lemma binary_line_ok: "set b \<subseteq> {0, 1} \<Longrightarrow> b \<noteq> [] \<Longrightarrow> line_ok b"
proof -
  assume b: "set b \<subseteq> {0, 1}" "b \<noteq> []"
  have "utf8_valid b" using b(1) by (induction b) auto
  moreover have "\<not> blank b" using b by (cases b) (auto simp: word_le_nat_alt)
  moreover have "last b \<in> {0, 1}" using b last_in_set by blast
  ultimately show ?thesis using b by (auto simp: line_ok_def)
qed

lemma binary_json_lines: "coder_ok p \<Longrightarrow> binary_coder p \<Longrightarrow> json_lines (codec_of p)"
  using codec_of_ok [of p]
  by (auto simp: json_lines_def binary_coder_def to_vec_or_default_def codec_of_def [of p] intro: binary_line_ok)

lemma store_coders_binary: "binary_coder block_coder" "binary_coder signed_coder"
  unfolding block_coder_def signed_coder_def hash_coder_def party_coder_def event_coder_def command_coder_def
    visibility_coder_def string_coder_def bytes_coder_def char_coder_def word_coder_def unit_coder_def
  by (intro binary_coder_intros)+

lemma ref_store_sel [simp]:
  "js_block ref_store_ext = codec_of block_coder" "js_signed ref_store_ext = codec_of signed_coder"
  "js_state_tree ref_store_ext = codec_of state_coder" "js_hashes ref_store_ext = codec_of (list_coder hash_coder)"
  "os_fail ref_store_ext = (\<lambda>_ _. None)" "os_write ref_store_ext = (\<lambda>_ _. None)"
  by (simp_all add: ref_store_ext_def token_ext.defs store_ext.defs)

lemma ref_store_ready: "store_ready ref_store_ext"
  by (simp add: store_ready_def store_ext_ok_def os_ok_def codec_of_ok coder_intros binary_json_lines store_coders_binary)

section \<open>Properties\<close>

text \<open>
  C35. The files give back what was written. With an operating system that completes every file operation and a serialiser that reads back what it wrote, on a fresh directory the opened store, after any sequence of
  appended blocks and a state snapshot, loads exactly those blocks in order, counts them, and loads that
  state.
\<close>

theorem store_roundtrip:
  assumes "store_ready X" and "d BLOCKS = None"
  shows "\<exists>d'. andthen (store_open X) (\<lambda>_. andthen (append_all (append_block X) bs) (\<lambda>_. save_state X s)) d = (Ok (), d') \<and>
    load_blocks X d' = (Ok bs, d') \<and> block_count X d' = (Ok (length bs), d') \<and> load_state X d' = (Ok (Some s), d')"
proof -
  let ?enc = "to_vec_or_default (js_block X)"
  have os: "os_ok X" and X: "store_ext_ok X" using assms(1) by (simp_all add: store_ready_def)
  have op: "store_open X d = (Ok (), d(BLOCKS \<mapsto> []))"
    using os assms(2) by (simp add: store_open_def create_file_def)
  have "holds_blocks X (d(BLOCKS \<mapsto> [])) []" by (simp add: holds_blocks_def)
  then obtain d1 where d1: "append_all (append_block X) bs (d(BLOCKS \<mapsto> [])) = (Ok (), d1)" "holds_blocks X d1 bs"
    using blocks.appends_hold [OF assms(1), of "d(BLOCKS \<mapsto> [])" "[]" bs] by auto
  let ?d = "(d1(STATE \<mapsto> to_vec_or_default (js_state_tree X) s))(tmp_of STATE := None)"
  have h: "holds_blocks X ?d bs" using d1(2) by (simp add: holds_blocks_def BLOCKS_def STATE_def tmp_of_def)
  have "text_lines (log_of (js_block X) bs) = map ?enc bs"
    using text_lines_log [of "js_block X" bs "[]"] store_ext_okD(5) [OF X] by simp
  moreover have "filter (\<lambda>l. utf8_valid l \<and> \<not> blank l) (map ?enc bs) = map ?enc bs"
    using store_ext_okD(5) [OF X] by (simp add: line_ok_def filter_id_conv)
  ultimately have "block_count X ?d = (Ok (length bs), ?d)"
    using h os by (simp add: block_count_def andthen_def read_file_run holds_blocks_def)
  moreover have "load_state X ?d = (Ok (Some s), ?d)"
    by (rule load_state_run [OF assms(1)]) (simp add: STATE_def tmp_of_def)
  ultimately show ?thesis
    using op d1(1) blocks.load_holds [OF assms(1) h] save_state_run [OF assms(1)]
    by (intro exI [of _ ?d]) (simp add: andthen_def)
qed

theorem store_roundtrip_witness:
  "\<exists>d'. load_blocks ref_store_ext d' = (Ok [deterministic_genesis], d') \<and> load_state ref_store_ext d' = (Ok (Some st_new), d')"
  using store_roundtrip [OF ref_store_ready, of Map.empty "[deterministic_genesis]" st_new] by auto

text \<open>
  Snapshots are atomic. Whatever calls fail on the way, saving the state leaves the previous snapshot in place,
  or reports success and leaves the new one; it never leaves a partial file, and touches no file but
  the snapshot and its temporary.
\<close>

theorem save_state_atomic:
  assumes "save_state X s d = (r, d')"
  shows "((r \<noteq> Ok () \<and> d' STATE = d STATE) \<or>
          (\<exists>b. r = Ok () \<and> to_vec (js_state_tree X) s = Inr b \<and> d' STATE = Some b \<and> d' (tmp_of STATE) = None)) \<and>
         (\<forall>f. f \<noteq> STATE \<and> f \<noteq> tmp_of STATE \<longrightarrow> d' f = d f)"
proof (cases "to_vec (js_state_tree X) s")
  case (Inl m)
  with assms show ?thesis by (auto simp: save_state_def serde_def)
next
  case (Inr b)
  have ne: "STATE \<noteq> tmp_of STATE" by (simp add: STATE_def tmp_of_def)
  from assms Inr have run: "atomic_write X STATE (tmp_of STATE) b d = (r, d')" by (simp add: save_state_def serde_def)
  show ?thesis using atomic_write_cases [OF run ne] atomic_write_frame [OF run] Inr by auto
qed

theorem save_state_atomic_witness:
  "\<exists>r d'. save_state (ref_store_ext\<lparr>os_write := \<lambda>_ _. Some (3, ''disk full'')\<rparr>) st_new [STATE \<mapsto> [7]] = (r, d') \<and> d' STATE = Some [7]"
proof -
  let ?X = "ref_store_ext\<lparr>os_write := \<lambda>_ _. Some (3, ''disk full'')\<rparr>"
  obtain r d' where run: "save_state ?X st_new [STATE \<mapsto> [7]] = (r, d')" by force
  then have "r \<noteq> Ok ()"
    by (auto simp: save_state_def serde_def codec_of_def atomic_write_def create_file_def os_call_def write_all_def andthen_def)
  then show ?thesis using save_state_atomic [OF run] run by auto
qed

text \<open>
  A torn append makes the log unreadable. When the write of a block is cut short after a part of its text that is
  not itself a JSON value, every later attempt to load the log fails with \<open>Corrupt\<close> at that line,
  and the intact blocks before it are not returned.
\<close>

theorem torn_append_unreadable:
  assumes "store_ready Y" and "js_block Y = js_block X"
    and "holds_blocks X d bs" and "os_fail X ''open'' BLOCKS = None"
    and "os_write X BLOCKS (to_vec_or_default (js_block X) b @ [10]) = Some (n, m)"
    and "n \<le> length (to_vec_or_default (js_block X) b)" and "part = take n (to_vec_or_default (js_block X) b)"
    and "utf8_valid part" and "\<not> blank part" and "from_slice (js_block X) part = Inl e"
  shows "\<exists>d'. append_block X b d = (Err (Io m), d') \<and> load_blocks Y d' = (Err (Corrupt (length bs + 1)), d')"
proof -
  note Y = store_ready_def [THEN iffD1, OF assms(1)]
  have enc: "codec_ok (js_block X)" "\<And>b. line_ok (to_vec_or_default (js_block X) b)"
    using store_ext_okD(1,5) [of Y] Y assms(2) by auto
  let ?d = "d(BLOCKS \<mapsto> log_of (js_block X) bs @ part)"
  have "append_block X b d = (Err (Io m), ?d)"
    using assms(3-7) enc(1)
    by (simp add: append_block_def os_call_def andthen_def serde_def to_vec_ok write_all_def holds_blocks_def content_def)
  moreover have "part \<noteq> []" using assms(9) by auto
  moreover have "10 \<notin> set part"
    using enc(2) [of b] assms(7) by (auto simp: line_ok_def dest: in_set_takeD)
  ultimately have "text_lines part = [part]"
    by (simp add: text_lines_def raw_lines_tail line_of_def)
  then have "block_lines Y 0 (text_lines (log_of (js_block X) bs @ part)) [] = Inl (Corrupt (length bs + 1))"
    using Y assms(2,8-10) text_lines_log [of "js_block X" bs part] enc(2) block_lines_log [of Y 0 bs "[part]" "[]"] by simp
  then have "load_blocks Y ?d = (Err (Corrupt (length bs + 1)), ?d)"
    using Y by (simp add: load_blocks_def andthen_def read_file_run of_sum_def)
  with \<open>append_block X b d = (Err (Io m), ?d)\<close> show ?thesis by blast
qed

theorem torn_append_unreadable_witness:
  "\<exists>d'. append_block (ref_store_ext\<lparr>os_write := \<lambda>_ _. Some (1, ''disk full'')\<rparr>) deterministic_genesis [BLOCKS \<mapsto> []] =
      (Err (Io ''disk full''), d') \<and> load_blocks ref_store_ext d' = (Err (Corrupt 1), d')"
proof -
  let ?X = "ref_store_ext\<lparr>os_write := \<lambda>_ _. Some (1, ''disk full'')\<rparr>"
  have "take 1 (to_vec_or_default (js_block ?X) deterministic_genesis) = [0]"
    by (simp add: to_vec_or_default_def codec_of_def block_coder_def iso_coder_def pair_coder_def word_coder_def
        nat_coder_def deterministic_genesis_def)
  moreover have "from_slice (js_block ?X) [0] = Inl ''invalid input''"
    by (simp add: codec_of_def block_coder_def iso_coder_def pair_coder_def word_coder_def nat_coder_def hash_coder_def
        bytes_coder_def list_coder_def)
  moreover have "1 \<le> length (to_vec_or_default (js_block ?X) deterministic_genesis)"
    using store_ext_okD(5) [of ref_store_ext deterministic_genesis] ref_store_ready
    by (auto simp: store_ready_def line_ok_def Suc_le_eq)
  ultimately show ?thesis
    using torn_append_unreadable [OF ref_store_ready, of ?X "[BLOCKS \<mapsto> []]" "[]" deterministic_genesis 1 "''disk full''" "[0]" "''invalid input''"]
    by (simp add: holds_blocks_def)
qed

end
