(* ===== verification/Node.thy ===== *)
theory Node
  imports Store Veil_Private Staking
begin

text \<open>
  \<open>node/src/node.rs\<close>: admission of signed commands, assembly of a block from the mempool, commitment of a block
  by re-execution, projection of its events to the hosted parties, private envelopes and attestations.
  The clock of the host is an argument of the operations that read it; the store is a directory of
  the theory \<open>Store\<close>, or absent. Log messages are left out.
\<close>

section \<open>Data\<close>

datatype node_error =
    CascadeErr cascade_error
  | ViewErr view_error
  | EmptyMempool
  | BadSignatureErr string
  | UnknownPrismErr string
  | BadNonce string u64 u64
  | KeyMismatch string
  | ReservedAccount string
  | WrongChainId u64 u64
  | TooLarge nat
  | MempoolFull
  | StoreErr string
  | BadParent
  | BadTimestamp u64 u64
  | BlockGasExceeded u64 u64
  | RootMismatch string
  | BadPrivateCommitment
  | DuplicatePrivateCommitment

record limits =
  max_payload_bytes :: nat
  max_block_commands :: nat
  max_block_gas :: u64
  max_mempool :: nat

definition default_limits :: limits where
  "default_limits = \<lparr>max_payload_bytes = 1024 * 1024, max_block_commands = 10000,
     max_block_gas = 30000000, max_mempool = 100000\<rparr>"

record fee_policy =
  price_per_gas :: u128
  burn_bps :: u16
  target_gas :: u64

definition default_fee_policy :: fee_policy where
  "default_fee_policy = \<lparr>price_per_gas = 0, burn_bps = 5000, target_gas = 0\<rparr>"

definition fee_enabled :: "fee_policy \<Rightarrow> bool" where
  "fee_enabled p \<longleftrightarrow> 0 < price_per_gas p"

definition fee_dynamic :: "fee_policy \<Rightarrow> bool" where
  "fee_dynamic p \<longleftrightarrow> fee_enabled p \<and> 0 < target_gas p"

definition BASE_PRICE_KEY :: string where "BASE_PRICE_KEY = ''fee/base_price''"

definition MAX_FUTURE_DRIFT_SECS :: u64 where "MAX_FUTURE_DRIFT_SECS = 7200"

record node =
  nd_cascade :: cascade
  nd_state :: state_tree
  nd_private_state :: state_tree
  nd_private_commitments :: "hash list"
  nd_private_envelopes :: "hash \<rightharpoonup> private_envelope"
  nd_attestations :: attestation_book
  nd_blocks :: "block list"
  nd_mempool :: "command list"
  nd_keyrings :: "view_keyring list"
  nd_sub_ledgers :: "party_id \<rightharpoonup> sub_ledger"
  nd_proposer :: party_id
  nd_accounts :: "party_id \<rightharpoonup> bytes"
  nd_nonces :: "party_id \<rightharpoonup> u64"
  nd_limits :: limits
  nd_fee_policy :: fee_policy
  nd_chain_id :: u64
  nd_store :: "directory option"

record block_summary =
  bs_height :: u64
  bs_hash :: hash
  bs_events :: nat
  bs_events_root :: hash
  bs_state_root :: hash
  bs_total_cost :: u64
  bs_views_delivered :: nat

record private_outcome =
  po_commitment :: hash
  po_executed :: bool
  po_private_root :: hash
  po_attestation :: "root_attestation option"

record node_ext = store_ext +
  js_now :: "u64 codec"

type_synonym 'a node_act = "(node, node_error, 'a) act"

section \<open>Running parts of the node\<close>

text \<open>
  \<open>focus\<close> runs an action on one field of the node and converts its error; \<open>on_store\<close> is the idiom
  \<open>if let Some(store) = &self.store\<close> followed by a call whose error becomes \<open>NodeError::Store\<close>.
\<close>

definition focus :: "(node \<Rightarrow> 's) \<Rightarrow> ('s \<Rightarrow> node \<Rightarrow> node) \<Rightarrow> ('e \<Rightarrow> node_error) \<Rightarrow> ('s, 'e, 'a) act \<Rightarrow> 'a node_act" where
  "focus get put err m = (\<lambda>n. case m (get n) of
      (Ok v, s) \<Rightarrow> (Ok v, put s n)
    | (Err e, s) \<Rightarrow> (Err (err e), put s n)
    | (Panic, s) \<Rightarrow> (Panic, put s n))"

definition store_act :: "directory \<Rightarrow> (directory, store_error, 'a) act \<Rightarrow> 'a node_act" where
  "store_act d m = (\<lambda>n. case m d of
      (Ok v, d') \<Rightarrow> (Ok v, n\<lparr>nd_store := Some d'\<rparr>)
    | (Err e, d') \<Rightarrow> (Err (StoreErr (store_error_to_string e)), n\<lparr>nd_store := Some d'\<rparr>)
    | (Panic, d') \<Rightarrow> (Panic, n\<lparr>nd_store := Some d'\<rparr>))"

definition on_store :: "(directory, store_error, unit) act \<Rightarrow> unit node_act" where
  "on_store m = andthen (gets nd_store) (\<lambda>st. case st of None \<Rightarrow> ret () | Some d \<Rightarrow> store_act d m)"

text \<open>Calls on a store that is there.\<close>

definition in_store :: "(directory, store_error, 'a) act \<Rightarrow> 'a node_act" where
  "in_store m = andthen (gets nd_store) (\<lambda>st. case st of None \<Rightarrow> panic | Some d \<Rightarrow> store_act d m)"

definition of_result :: "('e \<Rightarrow> node_error) \<Rightarrow> 'e + 'a \<Rightarrow> 'a node_act" where
  "of_result err r = (case r of Inl e \<Rightarrow> raise (err e) | Inr v \<Rightarrow> ret v)"

section \<open>Construction\<close>

definition node_new :: "party_id \<Rightarrow> cascade \<Rightarrow> node" where
  "node_new proposer c = \<lparr>nd_cascade = c, nd_state = st_new, nd_private_state = st_new, nd_private_commitments = [],
     nd_private_envelopes = Map.empty, nd_attestations = [], nd_blocks = [deterministic_genesis], nd_mempool = [],
     nd_keyrings = [], nd_sub_ledgers = Map.empty, nd_proposer = proposer, nd_accounts = Map.empty,
     nd_nonces = Map.empty, nd_limits = default_limits, nd_fee_policy = default_fee_policy, nd_chain_id = 0,
     nd_store = None\<rparr>"

definition host_party :: "view_keyring \<Rightarrow> node \<Rightarrow> node" where
  "host_party k n =
     (let party = kr_party k in
      n\<lparr>nd_sub_ledgers := (case nd_sub_ledgers n party of
            None \<Rightarrow> (nd_sub_ledgers n)(party \<mapsto> sub_ledger_new party)
          | Some _ \<Rightarrow> nd_sub_ledgers n),
        nd_keyrings := nd_keyrings n @ [k]\<rparr>)"

definition is_fresh :: "node \<Rightarrow> bool" where
  "is_fresh n \<longleftrightarrow> length (nd_blocks n) = 1 \<and> st_is_empty (nd_state n)"

definition seed_genesis_state :: "'x store_ext_scheme \<Rightarrow> (state_tree, node_error, unit) act \<Rightarrow> bool node_act" where
  "seed_genesis_state X seeder =
     andthen (gets is_fresh) (\<lambda>fresh.
     if \<not> fresh then ret False
     else
       andthen (focus nd_state (\<lambda>s. nd_state_update (\<lambda>_. s)) id seeder) (\<lambda>_.
       andthen (gets nd_state) (\<lambda>s.
       andthen (on_store (save_state X s)) (\<lambda>_.
       ret True))))"

section \<open>Fees\<close>

definition base_price :: "'x kernel_ext_scheme \<Rightarrow> state_tree \<Rightarrow> fee_policy \<Rightarrow> u128" where
  "base_price X s policy =
     (case Option.bind (get_json_opt (js_string X) s BASE_PRICE_KEY) parse_u128 of
        None \<Rightarrow> price_per_gas policy
      | Some v \<Rightarrow> v)"

definition charge_fee ::
  "'x token_ext_scheme \<Rightarrow> fee_policy \<Rightarrow> u128 \<Rightarrow> party_id \<Rightarrow> party_id \<Rightarrow> u64 \<Rightarrow> state_tree \<Rightarrow> state_tree" where
  "charge_fee X policy price payer proposer gas_used s =
     (if \<not> fee_enabled policy \<or> price = 0 then s
      else
        let fee = saturating_mul price (ucast gas_used) in
        if fee = 0 then s
        else snd (collect_fee X (native_token_id X) payer proposer fee (burn_bps policy) s))"

definition next_price :: "fee_policy \<Rightarrow> u128 \<Rightarrow> u64 \<Rightarrow> u128" where
  "next_price policy current block_gas =
     (let target = ucast (target_gas policy) :: u128; used = ucast block_gas :: u128;
          delta = max current 1 div 8 in
      if used > target then
        saturating_add current (max (saturating_mul delta (used - target) div target) 1)
      else if used < target then
        max (saturating_sub current (saturating_mul delta (target - used) div target)) (max (price_per_gas policy) 1)
      else current)"

definition adjust_base_price :: "'x kernel_ext_scheme \<Rightarrow> fee_policy \<Rightarrow> u64 \<Rightarrow> state_tree \<Rightarrow> state_tree" where
  "adjust_base_price X policy block_gas s =
     (if \<not> fee_dynamic policy then s
      else snd (put_json (js_string X) BASE_PRICE_KEY (u128_to_string (next_price policy (base_price X s policy) block_gas)) s))"

definition current_base_price :: "'x kernel_ext_scheme \<Rightarrow> node \<Rightarrow> u128" where
  "current_base_price X n = base_price X (nd_state n) (nd_fee_policy n)"

section \<open>Reading the chain\<close>

definition head :: "block node_act" where
  "head = andthen (gets nd_blocks) (\<lambda>bs. if bs = [] then panic else ret (last bs))"

definition blocks_from :: "node \<Rightarrow> u64 \<Rightarrow> nat \<Rightarrow> block list" where
  "blocks_from n from_height count = take count (filter (\<lambda>b. blk_height b \<ge> from_height \<and> blk_height b > 0) (nd_blocks n))"

definition node_estimate :: "node \<Rightarrow> command \<Rightarrow> node_error + u64" where
  "node_estimate n c = map_sum CascadeErr id (cascade_estimate (nd_cascade n) c (nd_state n))"

section \<open>Admission\<close>

definition bind_account :: "party_id \<Rightarrow> bytes \<Rightarrow> unit node_act" where
  "bind_account party key =
     andthen (gets (\<lambda>n. nd_accounts n party)) (\<lambda>known.
     case known of
       Some existing \<Rightarrow> ensure (existing = key) (KeyMismatch (party_name party))
     | None \<Rightarrow> modify (\<lambda>n. n\<lparr>nd_accounts := (nd_accounts n)(party \<mapsto> key)\<rparr>))"

definition expected_nonce :: "node \<Rightarrow> party_id \<Rightarrow> u64" where
  "expected_nonce n party = (case nd_nonces n party of None \<Rightarrow> 0 | Some k \<Rightarrow> k + 1)"

definition ingest_signed :: "'x store_ext_scheme \<Rightarrow> signed_command \<Rightarrow> bool \<Rightarrow> unit node_act" where
  "ingest_signed X sc persist =
     (let cmd = sc_command sc; party = cmd_submitter cmd in
      andthen (gets nd_limits) (\<lambda>lim.
      andthen (ensure (length (cmd_payload cmd) \<le> max_payload_bytes lim) (TooLarge (length (cmd_payload cmd)))) (\<lambda>_.
      andthen (ensure (CHR ''/'' \<notin> set (party_name party) \<and> party_name party \<noteq> []) (ReservedAccount (party_name party))) (\<lambda>_.
      andthen (gets nd_chain_id) (\<lambda>chain.
      andthen (ensure (sc_chain_id sc = chain) (WrongChainId (sc_chain_id sc) chain)) (\<lambda>_.
      andthen (of_result (\<lambda>e. BadSignatureErr (identity_error_to_string e)) (verify_signed X sc)) (\<lambda>_.
      andthen (bind_account party (sc_public_key sc)) (\<lambda>_.
      andthen (gets (\<lambda>n. cascade_has (nd_cascade n) (cmd_prism cmd))) (\<lambda>known.
      andthen (ensure known (UnknownPrismErr (cmd_prism cmd))) (\<lambda>_.
      andthen (gets (\<lambda>n. expected_nonce n party)) (\<lambda>expected.
      andthen (ensure (expected \<le> cmd_nonce cmd) (BadNonce (party_name party) (cmd_nonce cmd) expected)) (\<lambda>_.
      andthen (gets (\<lambda>n. length (nd_mempool n))) (\<lambda>len.
      andthen (ensure (len < max_mempool lim) MempoolFull) (\<lambda>_.
      andthen (modify (\<lambda>n. n\<lparr>nd_nonces := (nd_nonces n)(party \<mapsto> cmd_nonce cmd)\<rparr>)) (\<lambda>_.
      andthen (if persist then on_store (append_pending X sc) else ret ()) (\<lambda>_.
      modify (\<lambda>n. n\<lparr>nd_mempool := nd_mempool n @ [cmd]\<rparr>)))))))))))))))))"

definition submit_signed :: "'x store_ext_scheme \<Rightarrow> signed_command \<Rightarrow> unit node_act" where
  "submit_signed X sc = ingest_signed X sc True"

definition sync_persisted_mempool :: "'x store_ext_scheme \<Rightarrow> unit node_act" where
  "sync_persisted_mempool X =
     andthen (gets (\<lambda>n. map (command_id X) (nd_mempool n))) (\<lambda>alive.
     on_store (andthen (load_pending X) (\<lambda>pending.
       rewrite_pending X (filter (\<lambda>s. command_id X (sc_command s) \<in> set alive) pending))))"

section \<open>Assembly\<close>

record trial =
  tr_state :: state_tree
  tr_gas :: u64
  tr_events :: "event list"
  tr_commands :: "command list"
  tr_rejected :: "hash list"

fun assemble_loop ::
  "'x token_ext_scheme \<Rightarrow> cascade \<Rightarrow> limits \<Rightarrow> fee_policy \<Rightarrow> u128 \<Rightarrow> party_id \<Rightarrow> command list \<Rightarrow> trial \<Rightarrow>
   (node_error, trial) outcome" where
  "assemble_loop X c lim policy price proposer [] t = Ok t"
| "assemble_loop X c lim policy price proposer (cmd # cmds) t =
     (case cascade_apply c cmd (tr_state t) of
        (Panic, _) \<Rightarrow> Panic
      | (Err _, _) \<Rightarrow>
          assemble_loop X c lim policy price proposer cmds (t\<lparr>tr_rejected := tr_rejected t @ [command_id X cmd]\<rparr>)
      | (Ok receipt, probe) \<Rightarrow>
          if saturating_add (tr_gas t) (rc_total_cost receipt) > max_block_gas lim then Ok t
          else
            assemble_loop X c lim policy price proposer cmds
              (t\<lparr>tr_state := charge_fee X policy price (cmd_submitter cmd) proposer (rc_total_cost receipt) probe,
                 tr_gas := saturating_add (tr_gas t) (rc_total_cost receipt),
                 tr_events := tr_events t @ rc_events receipt,
                 tr_commands := tr_commands t @ [cmd]\<rparr>))"

definition set_now :: "'x node_ext_scheme \<Rightarrow> u64 \<Rightarrow> state_tree \<Rightarrow> state_tree" where
  "set_now X ts s = snd (put_json (js_now X) ''chain/now'' ts s)"

definition assemble_block :: "'x node_ext_scheme \<Rightarrow> u64 \<Rightarrow> block node_act" where
  "assemble_block X now =
     andthen head (\<lambda>parent.
     andthen (gets id) (\<lambda>n.
     let candidates = take (min (length (nd_mempool n)) (max_block_commands (nd_limits n))) (nd_mempool n);
         block_ts = max now (blk_timestamp parent);
         start = set_now X block_ts (nd_state n);
         price = base_price X start (nd_fee_policy n) in
     andthen (Pair (assemble_loop X (nd_cascade n) (nd_limits n) (nd_fee_policy n) price (nd_proposer n) candidates
       \<lparr>tr_state = start, tr_gas = 0, tr_events = [], tr_commands = [], tr_rejected = []\<rparr>)) (\<lambda>t.
     let trial_state = adjust_base_price X (nd_fee_policy n) (tr_gas t) (tr_state t) in
     andthen (if tr_rejected t \<noteq> []
              then andthen (modify (\<lambda>n. n\<lparr>nd_mempool := filter (\<lambda>c. command_id X c \<notin> set (tr_rejected t)) (nd_mempool n)\<rparr>))
                     (\<lambda>_. sync_persisted_mempool X)
              else ret ()) (\<lambda>_.
     let b = \<lparr>blk_height = blk_height parent + 1, blk_parent = block_hash X parent, blk_events_root = ZERO,
              blk_state_root = state_root X trial_state, blk_timestamp = block_ts, blk_proposer = nd_proposer n,
              blk_events = tr_events t, blk_commands = tr_commands t\<rparr> in
     ret (b\<lparr>blk_events_root := compute_events_root X b\<rparr>)))))"

section \<open>Commitment\<close>

fun exec_commands ::
  "'x token_ext_scheme \<Rightarrow> cascade \<Rightarrow> fee_policy \<Rightarrow> u128 \<Rightarrow> party_id \<Rightarrow> command list \<Rightarrow> u64 \<times> event list \<Rightarrow>
   (state_tree, cascade_error, u64 \<times> event list) act" where
  "exec_commands X c policy price proposer [] acc = ret acc"
| "exec_commands X c policy price proposer (cmd # cmds) (gas, events) =
     andthen (cascade_apply c cmd) (\<lambda>receipt.
     andthen (modify (charge_fee X policy price (cmd_submitter cmd) proposer (rc_total_cost receipt))) (\<lambda>_.
     exec_commands X c policy price proposer cmds
       (saturating_add gas (rc_total_cost receipt), events @ rc_events receipt)))"

fun deliver ::
  "'x veil_ext_scheme \<Rightarrow> u64 \<Rightarrow> projection \<Rightarrow> view_keyring list \<Rightarrow> nat \<Rightarrow> (party_id \<rightharpoonup> sub_ledger, view_error, nat) act" where
  "deliver X height pj [] delivered = ret delivered"
| "deliver X height pj (k # ks) delivered =
     (\<lambda>ls. case (fmlookup (pj_views_by_party pj) (kr_party k), ls (kr_party k)) of
        (Some views, Some ledger) \<Rightarrow>
          (case apply_views X height (pj_events_root pj) views k ledger of
             (Ok m, ledger') \<Rightarrow> deliver X height pj ks (delivered + m) (ls(kr_party k \<mapsto> ledger'))
           | (Err e, ledger') \<Rightarrow> (Err e, ls(kr_party k \<mapsto> ledger'))
           | (Panic, ledger') \<Rightarrow> (Panic, ls(kr_party k \<mapsto> ledger')))
      | _ \<Rightarrow> deliver X height pj ks delivered ls)"

text \<open>Re-execution of a block on a copy of the state: the new state and the events, or the error.\<close>

definition reexecute ::
  "'x node_ext_scheme \<Rightarrow> cascade \<Rightarrow> limits \<Rightarrow> fee_policy \<Rightarrow> block \<Rightarrow> state_tree \<Rightarrow> (node_error, state_tree \<times> event list) outcome" where
  "reexecute X c lim policy b s =
     (let start = set_now X (blk_timestamp b) s; price = base_price X start policy in
      case exec_commands X c policy price (blk_proposer b) (blk_commands b) (0, []) start of
        (Panic, _) \<Rightarrow> Panic
      | (Err e, _) \<Rightarrow> Err (CascadeErr e)
      | (Ok (gas, events), s1) \<Rightarrow>
          if gas > max_block_gas lim then Err (BlockGasExceeded gas (max_block_gas lim))
          else
            let s2 = adjust_base_price X policy gas s1 in
            if merkle_root X (map (commitment X) events) \<noteq> blk_events_root b then Err (RootMismatch ''events_root'')
            else if state_root X s2 \<noteq> blk_state_root b then Err (RootMismatch ''state_root'')
            else Ok (s2, events))"

definition commit_block :: "'x node_ext_scheme \<Rightarrow> u64 \<Rightarrow> block \<Rightarrow> block_summary node_act" where
  "commit_block X now b0 =
     andthen head (\<lambda>parent.
     andthen (ensure (blk_parent b0 = block_hash X parent \<and> blk_height b0 = blk_height parent + 1) BadParent) (\<lambda>_.
     andthen (ensure (blk_timestamp b0 \<ge> blk_timestamp parent \<and> blk_timestamp b0 \<le> saturating_add now MAX_FUTURE_DRIFT_SECS)
                (BadTimestamp (blk_timestamp b0) (blk_timestamp parent))) (\<lambda>_.
     andthen (gets id) (\<lambda>n.
     andthen (Pair (reexecute X (nd_cascade n) (nd_limits n) (nd_fee_policy n) b0 (nd_state n))) (\<lambda>(new_state, events).
     let b = b0\<lparr>blk_events := events\<rparr> in
     andthen (of_result ViewErr (project_block X b (nd_keyrings n))) (\<lambda>pj.
     andthen (focus nd_sub_ledgers (\<lambda>l. nd_sub_ledgers_update (\<lambda>_. l)) ViewErr
                (deliver X (blk_height b) pj (nd_keyrings n) 0)) (\<lambda>delivered.
     andthen (modify (\<lambda>n. n\<lparr>nd_state := new_state,
                nd_mempool := filter (\<lambda>c. command_id X c \<notin> command_id X ` set (blk_commands b)) (nd_mempool n),
                nd_blocks := nd_blocks n @ [b]\<rparr>)) (\<lambda>_.
     andthen (on_store (andthen (append_block X b) (\<lambda>_. save_state X new_state))) (\<lambda>_.
     andthen (sync_persisted_mempool X) (\<lambda>_.
     ret \<lparr>bs_height = blk_height b, bs_hash = block_hash X b, bs_events = length events,
          bs_events_root = blk_events_root b, bs_state_root = blk_state_root b, bs_total_cost = 0,
          bs_views_delivered = delivered\<rparr>))))))))))"

definition produce_block :: "'x node_ext_scheme \<Rightarrow> u64 \<Rightarrow> block_summary node_act" where
  "produce_block X now =
     andthen (gets (\<lambda>n. nd_mempool n = [])) (\<lambda>empty.
     andthen (ensure (\<not> empty) EmptyMempool) (\<lambda>_.
     andthen (assemble_block X now) (\<lambda>b.
     commit_block X now b)))"

definition accept_external_block :: "'x node_ext_scheme \<Rightarrow> u64 \<Rightarrow> block \<Rightarrow> bool node_act" where
  "accept_external_block X now b =
     andthen head (\<lambda>parent.
     if blk_parent b \<noteq> block_hash X parent \<or> blk_height b \<noteq> blk_height parent + 1 then ret False
     else
       andthen (gets (\<lambda>n. \<exists>c \<in> set (nd_blocks n). block_hash X c = block_hash X b)) (\<lambda>known.
       if known then ret False
       else andthen (commit_block X now b) (\<lambda>_. ret True)))"

section \<open>Private envelopes\<close>

definition execute_private :: "'x store_ext_scheme \<Rightarrow> private_envelope \<Rightarrow> view_keyring \<Rightarrow> root_attestation node_act" where
  "execute_private X env kr =
     andthen (of_result ViewErr (open_private X env kr)) (\<lambda>inner.
     andthen (gets nd_cascade) (\<lambda>c.
     andthen (ensure (cascade_has c (cmd_prism inner)) (UnknownPrismErr (cmd_prism inner))) (\<lambda>_.
     andthen (focus nd_private_state (\<lambda>s. nd_private_state_update (\<lambda>_. s)) CascadeErr (cascade_apply c inner)) (\<lambda>_.
     andthen (gets nd_private_state) (\<lambda>ps.
     let identity = from_seed (party_name (kr_party kr)) (pad 32 (kr_seed kr));
         att = attestation_create X identity (pe_commitment env) (state_root X ps) in
     andthen (modify (\<lambda>n. n\<lparr>nd_attestations := snd (record_attestation X att (nd_attestations n))\<rparr>)) (\<lambda>_.
     andthen (on_store (save_private_state X ps)) (\<lambda>_.
     ret att)))))))"

definition settle_private :: "'x store_ext_scheme \<Rightarrow> private_envelope \<Rightarrow> private_outcome node_act" where
  "settle_private X env =
     andthen (gets nd_private_commitments) (\<lambda>cs.
     andthen (on_store (save_private_commitments X cs)) (\<lambda>_.
     andthen (gets (\<lambda>n. find (\<lambda>k. is_stakeholder env (kr_party k)) (nd_keyrings n))) (\<lambda>keyring.
     andthen (case keyring of
        None \<Rightarrow> ret (False, None)
      | Some kr \<Rightarrow> andthen (execute_private X env kr) (\<lambda>att. ret (True, Some att))) (\<lambda>(executed, attestation).
     andthen (gets nd_private_state) (\<lambda>ps.
     ret \<lparr>po_commitment = pe_commitment env, po_executed = executed, po_private_root = state_root X ps,
          po_attestation = attestation\<rparr>)))))"

definition apply_private_envelope :: "'x store_ext_scheme \<Rightarrow> private_envelope \<Rightarrow> private_outcome node_act" where
  "apply_private_envelope X env =
     andthen (ensure (verify_commitment X env) BadPrivateCommitment) (\<lambda>_.
     andthen (gets nd_private_commitments) (\<lambda>seen.
     andthen (ensure (pe_commitment env \<notin> set seen) DuplicatePrivateCommitment) (\<lambda>_.
     andthen (modify (\<lambda>n. n\<lparr>nd_private_commitments := nd_private_commitments n @ [pe_commitment env],
        nd_private_envelopes := (nd_private_envelopes n)(pe_commitment env \<mapsto> env)\<rparr>)) (\<lambda>_.
     settle_private X env))))"

definition node_record_attestation :: "'x identity_ext_scheme \<Rightarrow> root_attestation \<Rightarrow> attestation_outcome node_act" where
  "node_record_attestation X a =
     (\<lambda>n. let (r, book) = record_attestation X a (nd_attestations n) in (Ok r, n\<lparr>nd_attestations := book\<rparr>))"

definition private_divergence_proof :: "'x hash_ext_scheme \<Rightarrow> node \<Rightarrow> root_attestation \<Rightarrow> equivocation_proof option" where
  "private_divergence_proof X n a =
     map_option (\<lambda>pr. \<lparr>ep_offender = eq_party pr, ep_public_key = hex_encode X (eq_public_key pr),
        ep_message_a = hex_encode X (signed_message (eq_a pr)), ep_signature_a = hex_encode X (ra_signature (eq_a pr)),
        ep_message_b = hex_encode X (signed_message (eq_b pr)), ep_signature_b = hex_encode X (ra_signature (eq_b pr))\<rparr>)
       (self_equivocation (nd_attestations n) a)"

definition statement_of :: "'x hash_ext_scheme \<Rightarrow> root_attestation \<Rightarrow> attestation_statement" where
  "statement_of X e = \<lparr>as_party = ra_party e, as_public_key = hex_encode X (ra_public_key e),
     as_signature = hex_encode X (ra_signature e), as_root = to_hex X (ra_private_root e)\<rparr>"

definition private_quorum_fraud_proofs :: "'x hash_ext_scheme \<Rightarrow> node \<Rightarrow> hash \<Rightarrow> quorum_fraud_proof list" where
  "private_quorum_fraud_proofs X n c =
     (case nd_private_envelopes n c of
        None \<Rightarrow> []
      | Some env \<Rightarrow>
          let count = length (pe_stakeholders env) in
          case canonical_root (nd_attestations n) c count of
            None \<Rightarrow> []
          | Some canonical \<Rightarrow>
              let majority = map (statement_of X)
                    (filter (\<lambda>e. ra_private_root e = canonical) (agreement (nd_attestations n) c)) in
              map (\<lambda>e. \<lparr>qp_offender = ra_party e, qp_envelope = env, qp_offender_stmt = statement_of X e,
                        qp_majority = majority\<rparr>)
                (minority_offenders (nd_attestations n) c count))"

definition private_consistent :: "node \<Rightarrow> hash \<Rightarrow> bool" where
  "private_consistent n c = is_consistent (nd_attestations n) c"

section \<open>Restart\<close>

fun restore_loop :: "'x store_ext_scheme \<Rightarrow> signed_command list \<Rightarrow> unit node_act" where
  "restore_loop X [] = ret ()"
| "restore_loop X (sc # scs) = (\<lambda>n. case ingest_signed X sc False n of
      (Panic, n') \<Rightarrow> (Panic, n')
    | (_, n') \<Rightarrow> restore_loop X scs n')"

definition restore_mempool :: "'x store_ext_scheme \<Rightarrow> unit node_act" where
  "restore_mempool X =
     andthen (gets nd_store) (\<lambda>st.
     case st of
       None \<Rightarrow> ret ()
     | Some d \<Rightarrow>
         andthen (store_act d (load_pending X)) (\<lambda>pending.
         if pending = [] then ret ()
         else andthen (restore_loop X pending) (\<lambda>_. sync_persisted_mempool X)))"

definition with_store :: "'x store_ext_scheme \<Rightarrow> party_id \<Rightarrow> cascade \<Rightarrow> directory \<Rightarrow> (node_error, unit) outcome \<times> node" where
  "with_store X proposer c d0 =
     andthen (in_store (load_blocks X)) (\<lambda>existing.
     andthen (if existing \<noteq> [] then
                andthen (modify (\<lambda>n. n\<lparr>nd_blocks := existing\<rparr>)) (\<lambda>_.
                andthen (in_store (load_state X)) (\<lambda>s.
                case s of None \<Rightarrow> ret () | Some state \<Rightarrow> modify (\<lambda>n. n\<lparr>nd_state := state\<rparr>)))
              else andthen (gets (\<lambda>n. hd (nd_blocks n))) (\<lambda>g. in_store (append_block X g))) (\<lambda>_.
     andthen (in_store (load_private_state X)) (\<lambda>ps.
     andthen (case ps of None \<Rightarrow> ret () | Some p \<Rightarrow> modify (\<lambda>n. n\<lparr>nd_private_state := p\<rparr>)) (\<lambda>_.
     andthen (in_store (load_private_commitments X)) (\<lambda>cs.
     andthen (modify (\<lambda>n. n\<lparr>nd_private_commitments := cs\<rparr>)) (\<lambda>_.
     restore_mempool X))))))
     ((node_new proposer c)\<lparr>nd_store := Some d0\<rparr>)"

end
