(* ===== verification/Node_Properties.thy ===== *)
theory Node_Properties
  imports Node
begin

text \<open>
  Properties of the node: the block it assembles is the block it commits; the chain is linked and the state is
  what replaying the chain gives, under every operation and on every error path; commands are
  admitted with increasing nonces; the base price moves within its bounds; and what the admission
  checks do not cover.
\<close>

section \<open>Parameters\<close>

definition node_ext_ok :: "'x node_ext_scheme \<Rightarrow> bool" where
  "node_ext_ok X \<longleftrightarrow> veil_ext_ok X \<and> token_ext_ok X \<and> codec_ok (js_now X)"

lemma node_ext_okD:
  assumes "node_ext_ok X"
  shows "veil_ext_ok X" "token_ext_ok X" "kernel_ext_ok X" "codec_ok (js_string X)" "codec_ok (js_now X)"
  using assms by (simp_all add: node_ext_ok_def token_ext_okD kernel_ext_okD)

section \<open>Assembly and re-execution\<close>

lemma andthen_head [simp]:
  "andthen head f n = (if nd_blocks n = [] then (Panic, n) else f (last (nd_blocks n)) n)"
  by (simp add: head_def andthen_def)

lemma assemble_loop_exec:
  assumes "assemble_loop X c lim policy price proposer cmds t = Ok t'" and "tr_gas t \<le> max_block_gas lim"
  shows "\<exists>cs. tr_commands t' = tr_commands t @ cs \<and> subseq cs cmds \<and> tr_gas t' \<le> max_block_gas lim \<and>
    exec_commands X c policy price proposer cs (tr_gas t, tr_events t) (tr_state t) =
      (Ok (tr_gas t', tr_events t'), tr_state t')"
  using assms
proof (induction cmds arbitrary: t)
  case (Cons cmd cmds)
  obtain r s where ap: "cascade_apply c cmd (tr_state t) = (r, s)" by force
  show ?case
  proof (cases r)
    case (Err e)
    then obtain cs where "tr_commands t' = tr_commands t @ cs" "subseq cs cmds" "tr_gas t' \<le> max_block_gas lim"
      "exec_commands X c policy price proposer cs (tr_gas t, tr_events t) (tr_state t) = (Ok (tr_gas t', tr_events t'), tr_state t')"
      using Cons.IH [of "t\<lparr>tr_rejected := tr_rejected t @ [command_id X cmd]\<rparr>"] Cons.prems ap by auto
    then show ?thesis by (intro exI [of _ cs]) auto
  next
    case (Ok receipt)
    let ?g = "saturating_add (tr_gas t) (rc_total_cost receipt)"
    show ?thesis
    proof (cases "?g > max_block_gas lim")
      case True
      then show ?thesis using Cons.prems ap Ok by (intro exI [of _ "[]"]) simp
    next
      case False
      let ?t = "t\<lparr>tr_state := charge_fee X policy price (cmd_submitter cmd) proposer (rc_total_cost receipt) s,
        tr_gas := ?g, tr_events := tr_events t @ rc_events receipt, tr_commands := tr_commands t @ [cmd]\<rparr>"
      have "assemble_loop X c lim policy price proposer cmds ?t = Ok t'" "tr_gas ?t \<le> max_block_gas lim"
        using Cons.prems(1) ap Ok False by (simp_all add: not_less)
      from Cons.IH [OF this] obtain cs where "tr_commands t' = tr_commands ?t @ cs" "subseq cs cmds"
        "tr_gas t' \<le> max_block_gas lim"
        "exec_commands X c policy price proposer cs (tr_gas ?t, tr_events ?t) (tr_state ?t) = (Ok (tr_gas t', tr_events t'), tr_state t')"
        by blast
      then show ?thesis using ap Ok by (intro exI [of _ "cmd # cs"]) (simp add: andthen_def)
    qed
  qed (use Cons.prems ap in simp)
qed auto

text \<open>The block that assembly builds, and the trial it comes from.\<close>

lemma assemble_block_OkD:
  assumes "assemble_block X now n = (Ok b, n')"
  obtains t :: trial where "nd_blocks n \<noteq> []"
    and "blk_height b = blk_height (last (nd_blocks n)) + 1" and "blk_parent b = block_hash X (last (nd_blocks n))"
    and "blk_timestamp b = max now (blk_timestamp (last (nd_blocks n)))"
    and "blk_proposer b = nd_proposer n" and "blk_commands b = tr_commands t" and "blk_events b = tr_events t"
    and "blk_events_root b = merkle_root X (map (commitment X) (tr_events t))"
    and "blk_state_root b = state_root X (adjust_base_price X (nd_fee_policy n) (tr_gas t) (tr_state t))"
    and "tr_gas t \<le> max_block_gas (nd_limits n)" and "subseq (tr_commands t) (nd_mempool n)"
    and "exec_commands X (nd_cascade n) (nd_fee_policy n)
      (base_price X (set_now X (blk_timestamp b) (nd_state n)) (nd_fee_policy n)) (nd_proposer n) (tr_commands t) (0, [])
      (set_now X (blk_timestamp b) (nd_state n)) = (Ok (tr_gas t, tr_events t), tr_state t)"
proof -
  let ?h = "last (nd_blocks n)" and ?k = "min (length (nd_mempool n)) (max_block_commands (nd_limits n))"
  let ?ts = "max now (blk_timestamp ?h)"
  let ?s = "set_now X ?ts (nd_state n)"
  let ?t0 = "\<lparr>tr_state = ?s, tr_gas = 0, tr_events = [], tr_commands = [], tr_rejected = []\<rparr>"
  have ne: "nd_blocks n \<noteq> []" using assms by (auto simp: assemble_block_def)
  obtain t where t: "assemble_loop X (nd_cascade n) (nd_limits n) (nd_fee_policy n) (base_price X ?s (nd_fee_policy n))
      (nd_proposer n) (take ?k (nd_mempool n)) ?t0 = Ok t"
    using assms ne by (auto simp: assemble_block_def Let_def andthen_Ok_iff)
  let ?b = "\<lparr>blk_height = blk_height ?h + 1, blk_parent = block_hash X ?h, blk_events_root = ZERO,
      blk_state_root = state_root X (adjust_base_price X (nd_fee_policy n) (tr_gas t) (tr_state t)), blk_timestamp = ?ts,
      blk_proposer = nd_proposer n, blk_events = tr_events t, blk_commands = tr_commands t\<rparr>"
  have b: "b = ?b\<lparr>blk_events_root := compute_events_root X ?b\<rparr>"
    using assms ne t by (auto simp: assemble_block_def Let_def andthen_Ok_iff)
  from assemble_loop_exec [OF t] obtain cs where "tr_commands t = cs" "subseq cs (take ?k (nd_mempool n))"
    "tr_gas t \<le> max_block_gas (nd_limits n)"
    "exec_commands X (nd_cascade n) (nd_fee_policy n) (base_price X ?s (nd_fee_policy n)) (nd_proposer n) cs (0, []) ?s =
      (Ok (tr_gas t, tr_events t), tr_state t)"
    by auto
  moreover have "subseq (take ?k (nd_mempool n)) (nd_mempool n)"
    by (metis append_take_drop_id subseq_rev_drop_many subseq_order.order_refl)
  ultimately show ?thesis
    using that [of t] ne b by (auto simp: compute_events_root_def dest: subseq_order.order_trans)
qed

lemma assembled_reexecutes:
  assumes "assemble_block X now n = (Ok b, n')"
  shows "\<exists>s. reexecute X (nd_cascade n) (nd_limits n) (nd_fee_policy n) b (nd_state n) = Ok (s, blk_events b) \<and>
    state_root X s = blk_state_root b"
proof (rule assemble_block_OkD [OF assms])
  fix t
  let ?s = "set_now X (blk_timestamp b) (nd_state n)"
  assume "blk_proposer b = nd_proposer n" "blk_commands b = tr_commands t" "blk_events b = tr_events t"
    "blk_events_root b = merkle_root X (map (commitment X) (tr_events t))"
    "blk_state_root b = state_root X (adjust_base_price X (nd_fee_policy n) (tr_gas t) (tr_state t))"
    "tr_gas t \<le> max_block_gas (nd_limits n)"
    "exec_commands X (nd_cascade n) (nd_fee_policy n) (base_price X ?s (nd_fee_policy n)) (nd_proposer n) (tr_commands t)
      (0, []) ?s = (Ok (tr_gas t, tr_events t), tr_state t)"
  then show ?thesis by (simp add: reexecute_def Let_def not_less)
qed

section \<open>What an operation leaves alone\<close>

text \<open>The chain, the public state and the rules a block is executed under.\<close>

definition core :: "node \<Rightarrow> block list \<times> state_tree \<times> cascade \<times> limits \<times> fee_policy" where
  "core n = (nd_blocks n, nd_state n, nd_cascade n, nd_limits n, nd_fee_policy n)"

lemma core_upd [simp]:
  "core (n\<lparr>nd_private_state := ps\<rparr>) = core n" "core (n\<lparr>nd_private_commitments := pc\<rparr>) = core n"
  "core (n\<lparr>nd_private_envelopes := pe\<rparr>) = core n" "core (n\<lparr>nd_attestations := att\<rparr>) = core n"
  "core (n\<lparr>nd_mempool := mp\<rparr>) = core n" "core (n\<lparr>nd_keyrings := ks\<rparr>) = core n" "core (n\<lparr>nd_sub_ledgers := sl\<rparr>) = core n"
  "core (n\<lparr>nd_accounts := ac\<rparr>) = core n" "core (n\<lparr>nd_nonces := ns\<rparr>) = core n" "core (n\<lparr>nd_store := st\<rparr>) = core n"
  by (simp_all add: core_def)

lemma keeps_store_act [keeps_intros]:
  "(\<And>n st. P n \<Longrightarrow> P (n\<lparr>nd_store := st\<rparr>)) \<Longrightarrow> keeps P (store_act d m)"
  "(\<And>n st. P n \<Longrightarrow> P (n\<lparr>nd_store := st\<rparr>)) \<Longrightarrow> keeps P (on_store m')"
  "(\<And>n st. P n \<Longrightarrow> P (n\<lparr>nd_store := st\<rparr>)) \<Longrightarrow> keeps P (in_store m'')"
  by (auto simp: keeps_def store_act_def on_store_def in_store_def split: option.splits outcome.splits prod.splits)

lemma keeps_focus [keeps_intros]: "(\<And>n s. P n \<Longrightarrow> P (put s n)) \<Longrightarrow> keeps P (focus get put err m)"
  by (auto simp: keeps_def focus_def split: outcome.splits prod.splits)

lemma keeps_of_result [keeps_intros]: "keeps P (of_result err r)"
  unfolding of_result_def by (intro keeps_intros)

lemma keeps_head [keeps_intros]: "keeps P head"
  unfolding head_def by (intro keeps_intros)

lemma keeps_sync [keeps_intros]: "(\<And>n st. P n \<Longrightarrow> P (n\<lparr>nd_store := st\<rparr>)) \<Longrightarrow> keeps P (sync_persisted_mempool X)"
  unfolding sync_persisted_mempool_def by (intro keeps_intros) auto

lemma core_kept:
  "keeps (\<lambda>n. core n = v) (ingest_signed X sc persist)"
  "keeps (\<lambda>n. core n = v) (assemble_block Y now)"
  "keeps (\<lambda>n. core n = v) (apply_private_envelope X env)"
  "keeps (\<lambda>n. core n = v) (node_record_attestation X a)"
proof -
  show "keeps (\<lambda>n. core n = v) (ingest_signed X sc persist)"
    unfolding ingest_signed_def bind_account_def Let_def by (intro keeps_intros) auto
  show "keeps (\<lambda>n. core n = v) (assemble_block Y now)"
    unfolding assemble_block_def Let_def by (intro keeps_intros) auto
  show "keeps (\<lambda>n. core n = v) (apply_private_envelope X env)"
    unfolding apply_private_envelope_def settle_private_def execute_private_def Let_def by (intro keeps_intros) auto
  show "keeps (\<lambda>n. core n = v) (node_record_attestation X a)"
    by (auto simp: keeps_def node_record_attestation_def split: prod.splits)
qed

lemma core_same:
  "ingest_signed X sc persist n = (r1, n') \<Longrightarrow> core n' = core n"
  "assemble_block Y now n = (r2, n') \<Longrightarrow> core n' = core n"
  "apply_private_envelope X env n = (r3, n') \<Longrightarrow> core n' = core n"
  "node_record_attestation X a n = (r4, n') \<Longrightarrow> core n' = core n"
  using keepsD [OF core_kept(1) [of "core n"] refl] keepsD [OF core_kept(2) [of "core n"] refl]
    keepsD [OF core_kept(3) [of "core n"] refl] keepsD [OF core_kept(4) [of "core n"] refl] by blast+

lemma core_host [simp]: "core (host_party k n) = core n"
  by (simp add: host_party_def Let_def)

section \<open>Committing\<close>

text \<open>
  Whatever happens, a commit leaves the core as it was, or appends the block with the events of its
  re-execution and installs the state that re-execution gives; it appends whenever it succeeds.
\<close>

definition extends :: "'x node_ext_scheme \<Rightarrow> block \<Rightarrow> node \<Rightarrow> node \<Rightarrow> bool" where
  "extends X b n n' \<longleftrightarrow> (\<exists>s es. nd_blocks n \<noteq> [] \<and>
     blk_parent b = block_hash X (last (nd_blocks n)) \<and> blk_height b = blk_height (last (nd_blocks n)) + 1 \<and>
     blk_timestamp (last (nd_blocks n)) \<le> blk_timestamp b \<and>
     reexecute X (nd_cascade n) (nd_limits n) (nd_fee_policy n) b (nd_state n) = Ok (s, es) \<and>
     core n' = (nd_blocks n @ [b\<lparr>blk_events := es\<rparr>], s, nd_cascade n, nd_limits n, nd_fee_policy n))"

definition tail_of_commit :: "'x node_ext_scheme \<Rightarrow> block \<Rightarrow> state_tree \<Rightarrow> nat \<Rightarrow> block_summary node_act" where
  "tail_of_commit X b new_state delivered =
     andthen (modify (\<lambda>n. n\<lparr>nd_state := new_state,
                nd_mempool := filter (\<lambda>c. command_id X c \<notin> command_id X ` set (blk_commands b)) (nd_mempool n),
                nd_blocks := nd_blocks n @ [b]\<rparr>)) (\<lambda>_.
     andthen (on_store (andthen (append_block X b) (\<lambda>_. save_state X new_state))) (\<lambda>_.
     andthen (sync_persisted_mempool X) (\<lambda>_.
     ret \<lparr>bs_height = blk_height b, bs_hash = block_hash X b, bs_events = length (blk_events b),
          bs_events_root = blk_events_root b, bs_state_root = blk_state_root b, bs_total_cost = 0,
          bs_views_delivered = delivered\<rparr>)))"

lemma tail_of_commit_core:
  assumes "tail_of_commit X b s d n = (r, n')"
  shows "core n' = (nd_blocks n @ [b], s, nd_cascade n, nd_limits n, nd_fee_policy n)"
proof -
  let ?n = "n\<lparr>nd_state := s, nd_mempool := filter (\<lambda>c. command_id X c \<notin> command_id X ` set (blk_commands b)) (nd_mempool n),
     nd_blocks := nd_blocks n @ [b]\<rparr>"
  let ?rest = "andthen (on_store (andthen (append_block X b) (\<lambda>_. save_state X s))) (\<lambda>_.
     andthen (sync_persisted_mempool X) (\<lambda>_.
     ret \<lparr>bs_height = blk_height b, bs_hash = block_hash X b, bs_events = length (blk_events b),
          bs_events_root = blk_events_root b, bs_state_root = blk_state_root b, bs_total_cost = 0,
          bs_views_delivered = d\<rparr>))"
  have "keeps (\<lambda>m. core m = core ?n) ?rest" by (intro keeps_intros) auto
  moreover have "?rest ?n = (r, n')" using assms by (simp add: tail_of_commit_def)
  ultimately have "core n' = core ?n" by (auto dest: keepsD)
  then show ?thesis by (simp add: core_def)
qed

lemma commit_block_run:
  assumes "nd_blocks n \<noteq> []"
    and "blk_parent b = block_hash X (last (nd_blocks n))" and "blk_height b = blk_height (last (nd_blocks n)) + 1"
    and "blk_timestamp (last (nd_blocks n)) \<le> blk_timestamp b" and "blk_timestamp b \<le> saturating_add now MAX_FUTURE_DRIFT_SECS"
    and "reexecute X (nd_cascade n) (nd_limits n) (nd_fee_policy n) b (nd_state n) = Ok (s, es)"
  shows "commit_block X now b n = andthen (of_result ViewErr (project_block X (b\<lparr>blk_events := es\<rparr>) (nd_keyrings n))) (\<lambda>pj.
    andthen (focus nd_sub_ledgers (\<lambda>l. nd_sub_ledgers_update (\<lambda>_. l)) ViewErr
            (deliver X (blk_height b) pj (nd_keyrings n) 0)) (tail_of_commit X (b\<lparr>blk_events := es\<rparr>) s)) n"
  using assms by (simp add: commit_block_def Let_def tail_of_commit_def [abs_def])

lemma commit_block_cases:
  assumes "commit_block X now b n = (r, n')"
  shows "(core n' = core n \<and> (\<forall>sm. r \<noteq> Ok sm)) \<or> extends X b n n'"
proof (cases "nd_blocks n \<noteq> [] \<and> blk_parent b = block_hash X (last (nd_blocks n)) \<and>
    blk_height b = blk_height (last (nd_blocks n)) + 1 \<and> blk_timestamp (last (nd_blocks n)) \<le> blk_timestamp b \<and>
    blk_timestamp b \<le> saturating_add now MAX_FUTURE_DRIFT_SECS")
  case False
  then show ?thesis using assms by (auto simp: commit_block_def split: if_splits)
next
  case guards: True
  let ?re = "reexecute X (nd_cascade n) (nd_limits n) (nd_fee_policy n) b (nd_state n)"
  show ?thesis
  proof (cases ?re)
    case (Ok x)
    obtain s es where x: "x = (s, es)" by force
    let ?b = "b\<lparr>blk_events := es\<rparr>"
    have run: "commit_block X now b n = andthen (of_result ViewErr (project_block X ?b (nd_keyrings n))) (\<lambda>pj.
        andthen (focus nd_sub_ledgers (\<lambda>l. nd_sub_ledgers_update (\<lambda>_. l)) ViewErr
                (deliver X (blk_height b) pj (nd_keyrings n) 0)) (tail_of_commit X ?b s)) n"
      using guards Ok x by (intro commit_block_run) simp_all
    show ?thesis
    proof (cases "project_block X ?b (nd_keyrings n)")
      case (Inl e)
      then show ?thesis using assms run by (auto simp: of_result_def)
    next
      case (Inr pj)
      let ?m = "focus nd_sub_ledgers (\<lambda>l. nd_sub_ledgers_update (\<lambda>_. l)) ViewErr (deliver X (blk_height b) pj (nd_keyrings n) 0)"
      obtain q n1 where q: "?m n = (q, n1)" by force
      have "keeps (\<lambda>m. core m = core n) ?m" by (intro keeps_intros) auto
      then have n1: "core n1 = core n" using q by (auto dest: keepsD)
      have run': "andthen ?m (tail_of_commit X ?b s) n = (r, n')" using assms run Inr by (simp add: of_result_def)
      show ?thesis
      proof (cases q)
        case Q: (Ok d)
        then have "tail_of_commit X ?b s d n1 = (r, n')" using run' q by (simp add: andthen_def)
        from tail_of_commit_core [OF this] n1 have "extends X b n n'"
          unfolding extends_def using guards Ok x by (intro exI [of _ s] exI [of _ es]) (simp add: core_def)
        then show ?thesis ..
      qed (use run' q n1 in \<open>auto simp: andthen_def\<close>)
    qed
  qed (use assms guards in \<open>auto simp: commit_block_def\<close>)
qed

section \<open>The chain and its replay\<close>

fun linked :: "'x kernel_ext_scheme \<Rightarrow> block list \<Rightarrow> bool" where
  "linked X (a # b # bs) \<longleftrightarrow> blk_parent b = block_hash X a \<and> blk_height b = blk_height a + 1 \<and>
     blk_timestamp a \<le> blk_timestamp b \<and> linked X (b # bs)"
| "linked X bs \<longleftrightarrow> True"

fun replay ::
  "'x node_ext_scheme \<Rightarrow> cascade \<Rightarrow> limits \<Rightarrow> fee_policy \<Rightarrow> state_tree \<Rightarrow> block list \<Rightarrow> state_tree option" where
  "replay X c lim policy s [] = Some s"
| "replay X c lim policy s (b # bs) =
     (case reexecute X c lim policy b s of
        Ok (s', es) \<Rightarrow> if es = blk_events b then replay X c lim policy s' bs else None
      | _ \<Rightarrow> None)"

lemma linked_snoc:
  "linked X (bs @ [b]) \<longleftrightarrow> linked X bs \<and> (bs \<noteq> [] \<longrightarrow> blk_parent b = block_hash X (last bs) \<and>
     blk_height b = blk_height (last bs) + 1 \<and> blk_timestamp (last bs) \<le> blk_timestamp b)"
proof (induction X bs rule: linked.induct)
  case (1 X a c bs)
  then show ?case by (cases bs) auto
qed auto

lemma replay_snoc:
  "replay X c lim policy s (bs @ [b]) = Option.bind (replay X c lim policy s bs) (\<lambda>t. replay X c lim policy t [b])"
  by (induction bs arbitrary: s) (auto split: outcome.splits)

text \<open>The re-execution does not look at the events that came with the block.\<close>

lemma reexecute_events [simp]:
  "reexecute X c lim policy (b\<lparr>blk_events := es\<rparr>) s = reexecute X c lim policy b s"
  by (simp add: reexecute_def Let_def split: outcome.splits prod.splits)

lemma block_events_same: "blk_events b = es \<Longrightarrow> b\<lparr>blk_events := es\<rparr> = (b :: block)"
  by (cases b) simp

text \<open>The replay does not depend on the events that come with the blocks; it determines them.\<close>

lemma replay_determined:
  "map (\<lambda>b. b\<lparr>blk_events := []\<rparr>) bs = map (\<lambda>b. b\<lparr>blk_events := []\<rparr>) cs \<Longrightarrow>
   replay X c lim policy s bs = Some t \<Longrightarrow> replay X c lim policy s cs = Some u \<Longrightarrow> bs = cs \<and> t = u"
proof (induction bs arbitrary: s cs)
  case (Cons b bs)
  then obtain d ds where cs: "cs = d # ds" by (cases cs) simp_all
  with Cons.prems(1) have eq: "b\<lparr>blk_events := []\<rparr> = d\<lparr>blk_events := []\<rparr>"
    and tails: "map (\<lambda>b. b\<lparr>blk_events := []\<rparr>) bs = map (\<lambda>b. b\<lparr>blk_events := []\<rparr>) ds"
    by simp_all
  have same: "reexecute X c lim policy d s = reexecute X c lim policy b s"
    using arg_cong [OF eq, of "\<lambda>b. reexecute X c lim policy b s"] by simp
  from Cons.prems(2) obtain s' where re: "reexecute X c lim policy b s = Ok (s', blk_events b)"
    and b: "replay X c lim policy s' bs = Some t"
    by (auto split: outcome.splits prod.splits if_splits)
  from Cons.prems(3) have d: "blk_events d = blk_events b" "replay X c lim policy s' ds = Some u"
    unfolding cs replay.simps same re by (simp_all split: if_splits)
  have "b\<lparr>blk_events := blk_events b\<rparr> = d\<lparr>blk_events := blk_events b\<rparr>"
    using arg_cong [OF eq, of "\<lambda>x. x\<lparr>blk_events := blk_events b\<rparr>"] by simp
  then have "b = d" using block_events_same [of b] block_events_same [of d] d(1) by metis
  with Cons.IH [OF tails b d(2)] cs show ?case by blast
qed auto

definition chain_inv :: "'x node_ext_scheme \<Rightarrow> block \<Rightarrow> state_tree \<Rightarrow> node \<Rightarrow> bool" where
  "chain_inv X g s n \<longleftrightarrow> (\<exists>bs. nd_blocks n = g # bs \<and> linked X (g # bs) \<and>
     replay X (nd_cascade n) (nd_limits n) (nd_fee_policy n) s bs = Some (nd_state n))"

lemma chain_inv_core: "core n' = core n \<Longrightarrow> chain_inv X g s n' = chain_inv X g s n"
  by (simp add: chain_inv_def core_def)

lemma block_hash_events [simp]: "block_hash X (b\<lparr>blk_events := es\<rparr>) = block_hash X b"
  by (simp add: block_hash_def commands_root_def)

lemma chain_inv_extends:
  assumes "extends X b n n'" and "chain_inv X g s n"
  shows "chain_inv X g s n'"
proof -
  obtain t es where e: "nd_blocks n \<noteq> []" "blk_parent b = block_hash X (last (nd_blocks n))"
    "blk_height b = blk_height (last (nd_blocks n)) + 1" "blk_timestamp (last (nd_blocks n)) \<le> blk_timestamp b"
    "reexecute X (nd_cascade n) (nd_limits n) (nd_fee_policy n) b (nd_state n) = Ok (t, es)"
    "core n' = (nd_blocks n @ [b\<lparr>blk_events := es\<rparr>], t, nd_cascade n, nd_limits n, nd_fee_policy n)"
    using assms(1) unfolding extends_def by blast
  obtain bs where bs: "nd_blocks n = g # bs" "linked X (g # bs)"
    "replay X (nd_cascade n) (nd_limits n) (nd_fee_policy n) s bs = Some (nd_state n)"
    using assms(2) by (auto simp: chain_inv_def)
  have "linked X ((g # bs) @ [b\<lparr>blk_events := es\<rparr>])"
    unfolding linked_snoc using bs e by simp
  then show ?thesis using e bs by (simp add: chain_inv_def core_def replay_snoc)
qed

section \<open>The node as a state machine\<close>

inductive node_step :: "'x node_ext_scheme \<Rightarrow> node \<Rightarrow> node \<Rightarrow> bool" for X where
  step_submit: "submit_signed X sc n = (r, n') \<Longrightarrow> node_step X n n'"
| step_assemble: "assemble_block X now n = (r, n') \<Longrightarrow> node_step X n n'"
| step_produce: "produce_block X now n = (r, n') \<Longrightarrow> node_step X n n'"
| step_commit: "commit_block X now b n = (r, n') \<Longrightarrow> node_step X n n'"
| step_accept: "accept_external_block X now b n = (r, n') \<Longrightarrow> node_step X n n'"
| step_private: "apply_private_envelope X env n = (r, n') \<Longrightarrow> node_step X n n'"
| step_attest: "node_record_attestation X a n = (r, n') \<Longrightarrow> node_step X n n'"
| step_host: "node_step X n (host_party k n)"

text \<open>Every operation leaves the core alone or extends it by a block, once.\<close>

lemma produce_block_cases:
  assumes "produce_block X now n = (r, n')"
  shows "core n' = core n \<or> (\<exists>b n1. core n1 = core n \<and> extends X b n1 n')"
proof (cases "nd_mempool n = []")
  case True
  then show ?thesis using assms by (simp add: produce_block_def)
next
  case False
  obtain q n1 where q: "assemble_block X now n = (q, n1)" by force
  show ?thesis
  proof (cases q)
    case (Ok b)
    then have "commit_block X now b n1 = (r, n')" using assms False q by (simp add: produce_block_def andthen_def)
    from commit_block_cases [OF this] core_same(2) [OF q] show ?thesis by auto
  qed (use assms False q core_same(2) [OF q] in \<open>auto simp: produce_block_def andthen_def\<close>)
qed

lemma andthen_ret_state: "andthen m (\<lambda>_. ret x) s = (r, s') \<Longrightarrow> \<exists>q. m s = (q, s')"
  by (auto simp: andthen_def split: outcome.splits prod.splits)

lemma accept_external_cases:
  assumes "accept_external_block X now b n = (r, n')"
  shows "core n' = core n \<or> extends X b n n'"
proof -
  have "n' = n \<or> (\<exists>q. commit_block X now b n = (q, n'))"
    using assms by (auto simp: accept_external_block_def split: if_splits dest: andthen_ret_state)
  then show ?thesis using commit_block_cases [of X now b n _ n'] by auto
qed

lemma node_step_core: "node_step X n n' \<Longrightarrow> core n' = core n \<or> (\<exists>b n1. core n1 = core n \<and> extends X b n1 n')"
proof (induction rule: node_step.induct)
  case (step_produce now n r n')
  then show ?case by (rule produce_block_cases)
next
  case (step_commit now b n r n')
  then show ?case using commit_block_cases by blast
next
  case (step_accept now b n r n')
  then show ?case using accept_external_cases by blast
qed (auto simp: submit_signed_def dest: core_same)

lemma node_step_config:
  "node_step X n n' \<Longrightarrow> nd_cascade n' = nd_cascade n \<and> nd_limits n' = nd_limits n \<and> nd_fee_policy n' = nd_fee_policy n"
  using node_step_core by (fastforce simp: core_def extends_def)

lemma chain_inv_step: "node_step X n n' \<Longrightarrow> chain_inv X g s n \<Longrightarrow> chain_inv X g s n'"
  using node_step_core chain_inv_core chain_inv_extends by metis

definition node_steps :: "'x node_ext_scheme \<Rightarrow> node \<Rightarrow> node \<Rightarrow> bool" where
  "node_steps X = (node_step X)\<^sup>*\<^sup>*"

lemma node_steps_inv:
  "node_steps X n n' \<Longrightarrow> chain_inv X g s n \<Longrightarrow> chain_inv X g s n' \<and>
     nd_cascade n' = nd_cascade n \<and> nd_limits n' = nd_limits n \<and> nd_fee_policy n' = nd_fee_policy n"
  unfolding node_steps_def
  by (induction rule: rtranclp_induct) (auto dest: chain_inv_step node_step_config)

section \<open>When a commit succeeds\<close>

lemma party_views_sealed:
  "keyring_of ks p = Some k \<Longrightarrow> \<exists>es'. concat (map (party_views X ks p) es) = map (sealed X k) es'"
proof (induction es)
  case (Cons e es)
  then obtain es' where "concat (map (party_views X ks p) es) = map (sealed X k) es'" by blast
  moreover have "party_views X ks p e = map (sealed X k) (replicate (count_list (event_parties ks e) p) e)"
    using Cons.prems by (simp add: party_views_def)
  ultimately show ?case
    by (intro exI [of _ "replicate (count_list (event_parties ks e) p) e @ es'"]) simp
qed simp

lemma project_block_sealed:
  assumes "veil_ext_ok X" and "distinct (map kr_party ks)"
  shows "\<exists>pj. project_block X b ks = Inr pj \<and>
    (\<forall>k \<in> set ks. \<exists>es. views_at (pj_views_by_party pj) (kr_party k) = map (sealed X k) es)"
proof -
  obtain m where m: "project_events X ks (blk_events b) ([], fmempty) = Inr (map (commitment X) (blk_events b), m)"
    "\<And>p. views_at m p = concat (map (party_views X ks p) (blk_events b))"
    using project_events_ok [OF assms(1), of ks "blk_events b" "[]" fmempty] by (auto simp: views_at_def)
  show ?thesis
    using party_views_sealed [OF keyring_of_mem [OF assms(2)], where X = X and es = "blk_events b"]
    by (simp add: project_block_def m)
qed

lemma deliver_ok:
  assumes "veil_ext_ok X" and "\<forall>k \<in> set ks. \<exists>es. views_at (pj_views_by_party pj) (kr_party k) = map (sealed X k) es"
  shows "\<exists>m ls'. deliver X h pj ks d ls = (Ok m, ls')"
  using assms(2)
proof (induction ks arbitrary: d ls)
  case (Cons k ks)
  obtain es where es: "views_at (pj_views_by_party pj) (kr_party k) = map (sealed X k) es" using Cons.prems by auto
  show ?case
  proof (cases "fmlookup (pj_views_by_party pj) (kr_party k)")
    case None
    then show ?thesis using Cons by simp
  next
    case (Some views)
    then have "views = map (sealed X k) es" using es by (simp add: views_at_def)
    then have v: "\<exists>l'. apply_views X h (pj_events_root pj) views k l = (Ok (length es), l')" for l
      by (simp add: apply_views_def andthen_def apply_loop_ok [OF assms(1)])
    show ?thesis
    proof (cases "ls (kr_party k)")
      case None
      then show ?thesis using Cons Some by simp
    next
      case L: (Some l)
      obtain l' where "apply_views X h (pj_events_root pj) views k l = (Ok (length es), l')" using v by blast
      moreover have "\<exists>m ls'. deliver X h pj ks (d + length es) (ls(kr_party k \<mapsto> l')) = (Ok m, ls')"
        using Cons by simp
      ultimately show ?thesis using Some L by simp
    qed
  qed
qed simp

text \<open>A store in working order: nothing fails, the block log exists, and the pending log is intact.\<close>

definition store_live :: "'x store_ext_scheme \<Rightarrow> node \<Rightarrow> bool" where
  "store_live X n \<longleftrightarrow> (case nd_store n of None \<Rightarrow> True
     | Some d \<Rightarrow> store_ready X \<and> d BLOCKS \<noteq> None \<and> (\<exists>scs. holds_pending X d scs))"

lemma store_files_distinct [simp]:
  "MEMPOOL \<noteq> BLOCKS" "BLOCKS \<noteq> MEMPOOL" "STATE \<noteq> BLOCKS" "tmp_of STATE \<noteq> BLOCKS" "STATE \<noteq> MEMPOOL" "tmp_of STATE \<noteq> MEMPOOL"
  "BLOCKS \<noteq> STATE" "BLOCKS \<noteq> tmp_of STATE" "MEMPOOL \<noteq> STATE" "MEMPOOL \<noteq> tmp_of STATE" "tmp_of MEMPOOL \<noteq> BLOCKS"
  "tmp_of MEMPOOL \<noteq> MEMPOOL" "BLOCKS \<noteq> tmp_of MEMPOOL" "MEMPOOL \<noteq> tmp_of MEMPOOL" "STATE \<noteq> tmp_of STATE" "tmp_of STATE \<noteq> STATE"
  "STATE \<noteq> tmp_of MEMPOOL" "tmp_of MEMPOOL \<noteq> STATE"
  by (simp_all add: MEMPOOL_def BLOCKS_def STATE_def tmp_of_def)

lemma sync_live:
  assumes "store_live X n"
  shows "\<exists>st. sync_persisted_mempool X n = (Ok (), n\<lparr>nd_store := st\<rparr>) \<and> store_live X (n\<lparr>nd_store := st\<rparr>)"
proof (cases "nd_store n")
  case None
  then show ?thesis by (intro exI [of _ None]) (simp add: sync_persisted_mempool_def on_store_def store_live_def)
next
  case (Some d)
  then obtain scs where X: "store_ready X" "d BLOCKS \<noteq> None" "holds_pending X d scs"
    using assms by (auto simp: store_live_def)
  let ?keep = "filter (\<lambda>s. command_id X (sc_command s) \<in> command_id X ` set (nd_mempool n)) scs"
  let ?d = "(d(MEMPOOL \<mapsto> log_of (js_signed X) ?keep))(tmp_of MEMPOOL := None)"
  have "sync_persisted_mempool X n = (Ok (), n\<lparr>nd_store := Some ?d\<rparr>)"
    using Some pending.load_holds [OF X(1,3)]
    by (simp add: sync_persisted_mempool_def on_store_def store_act_def andthen_def rewrite_pending_run [OF X(1)])
  moreover have "holds_pending X ?d ?keep" by (simp add: holds_pending_def content_def)
  ultimately show ?thesis using X by (intro exI [of _ "Some ?d"]) (auto simp: store_live_def)
qed

lemma persist_live:
  assumes "store_live X n"
  shows "\<exists>st. on_store (andthen (append_block X b) (\<lambda>_. save_state X s)) n = (Ok (), n\<lparr>nd_store := st\<rparr>) \<and>
    store_live X (n\<lparr>nd_store := st\<rparr>)"
proof (cases "nd_store n")
  case None
  then show ?thesis by (intro exI [of _ None]) (simp add: on_store_def store_live_def)
next
  case (Some d)
  then obtain scs log where X: "store_ready X" "d BLOCKS = Some log" "holds_pending X d scs"
    using assms by (auto simp: store_live_def)
  let ?d = "((d(BLOCKS \<mapsto> log @ to_vec_or_default (js_block X) b @ [10]))
      (STATE \<mapsto> to_vec_or_default (js_state_tree X) s))(tmp_of STATE := None)"
  have "on_store (andthen (append_block X b) (\<lambda>_. save_state X s)) n = (Ok (), n\<lparr>nd_store := Some ?d\<rparr>)"
    using Some X by (simp add: on_store_def store_act_def andthen_def append_block_run save_state_run)
  moreover have "holds_pending X ?d scs" using X(3) by (simp add: holds_pending_def content_def)
  ultimately show ?thesis using X by (intro exI [of _ "Some ?d"]) (auto simp: store_live_def)
qed

lemma store_live_upd [simp]:
  "store_live X (n\<lparr>nd_mempool := m\<rparr>) = store_live X n" "store_live X (n\<lparr>nd_sub_ledgers := l\<rparr>) = store_live X n"
  "store_live X (n\<lparr>nd_state := s\<rparr>) = store_live X n" "store_live X (n\<lparr>nd_blocks := bs\<rparr>) = store_live X n"
  by (simp_all add: store_live_def)

lemma tail_of_commit_ok:
  assumes "store_live X n"
  shows "\<exists>sm n'. tail_of_commit X b s d n = (Ok sm, n') \<and> bs_hash sm = block_hash X b \<and>
    nd_mempool n' = filter (\<lambda>c. command_id X c \<notin> command_id X ` set (blk_commands b)) (nd_mempool n)"
proof -
  let ?n = "n\<lparr>nd_state := s, nd_mempool := filter (\<lambda>c. command_id X c \<notin> command_id X ` set (blk_commands b)) (nd_mempool n),
     nd_blocks := nd_blocks n @ [b]\<rparr>"
  have "store_live X ?n" using assms by (simp add: store_live_def)
  then obtain st where st: "on_store (andthen (append_block X b) (\<lambda>_. save_state X s)) ?n = (Ok (), ?n\<lparr>nd_store := st\<rparr>)"
    "store_live X (?n\<lparr>nd_store := st\<rparr>)"
    using persist_live by blast
  obtain st' where "sync_persisted_mempool X (?n\<lparr>nd_store := st\<rparr>) = (Ok (), ?n\<lparr>nd_store := st\<rparr>\<lparr>nd_store := st'\<rparr>)"
    using sync_live [OF st(2)] by blast
  with st(1) show ?thesis by (simp add: tail_of_commit_def andthen_def)
qed

lemma commit_block_ok:
  assumes "node_ext_ok X" and "distinct (map kr_party (nd_keyrings n))" and "store_live X n" and "nd_blocks n \<noteq> []"
    and "blk_parent b = block_hash X (last (nd_blocks n))" and "blk_height b = blk_height (last (nd_blocks n)) + 1"
    and "blk_timestamp (last (nd_blocks n)) \<le> blk_timestamp b" and "blk_timestamp b \<le> saturating_add now MAX_FUTURE_DRIFT_SECS"
    and "reexecute X (nd_cascade n) (nd_limits n) (nd_fee_policy n) b (nd_state n) = Ok (s, es)"
  shows "\<exists>sm n'. commit_block X now b n = (Ok sm, n') \<and> bs_hash sm = block_hash X b \<and>
    nd_mempool n' = filter (\<lambda>c. command_id X c \<notin> command_id X ` set (blk_commands b)) (nd_mempool n)"
proof -
  let ?b = "b\<lparr>blk_events := es\<rparr>"
  note v = node_ext_okD(1) [OF assms(1)]
  obtain pj where pj: "project_block X ?b (nd_keyrings n) = Inr pj"
    "\<forall>k \<in> set (nd_keyrings n). \<exists>es. views_at (pj_views_by_party pj) (kr_party k) = map (sealed X k) es"
    using project_block_sealed [OF v assms(2)] by blast
  obtain d ls where d: "deliver X (blk_height b) pj (nd_keyrings n) 0 (nd_sub_ledgers n) = (Ok d, ls)"
    using deliver_ok [OF v pj(2)] by blast
  have run: "commit_block X now b n = tail_of_commit X ?b s d (n\<lparr>nd_sub_ledgers := ls\<rparr>)"
    using commit_block_run [OF assms(4-9)] pj(1) d by (simp add: of_result_def focus_def andthen_def)
  have "store_live X (n\<lparr>nd_sub_ledgers := ls\<rparr>)" using assms(3) by simp
  from tail_of_commit_ok [OF this, of ?b s d] show ?thesis unfolding run by simp
qed

section \<open>Panic-free prisms\<close>

definition panic_free :: "cascade \<Rightarrow> bool" where
  "panic_free c \<longleftrightarrow> (\<forall>name p cmd s. prisms c name = Some p \<longrightarrow> no_panic (pr_handle p cmd) s)"

lemma no_panic_run_level: "panic_free c \<Longrightarrow> no_panic (run_level c cmds rc nxt) s"
proof (induction cmds arbitrary: rc nxt s)
  case (Cons cmd cmds)
  then show ?case
    by (cases "prisms c (cmd_prism cmd)") (auto simp: panic_free_def no_panic_Pair intro!: no_panic_intros)
qed simp

lemma no_panic_cascade_loop: "panic_free c \<Longrightarrow> no_panic (cascade_loop c depth frontier rc) s"
proof (induction "MAX_CASCADE_DEPTH - depth" arbitrary: depth frontier rc s rule: less_induct)
  case less
  then show ?case
    by (subst cascade_loop.simps) (auto intro!: no_panic_intros no_panic_run_level)
qed

lemma no_panic_cascade: "panic_free c \<Longrightarrow> no_panic (cascade_apply c cmd) s"
  unfolding cascade_apply_def by (rule no_panic_cascade_loop)

lemma assemble_loop_ok: "panic_free c \<Longrightarrow> \<exists>t'. assemble_loop X c lim policy price proposer cmds t = Ok t'"
proof (induction cmds arbitrary: t)
  case (Cons cmd cmds)
  obtain r s where "cascade_apply c cmd (tr_state t) = (r, s)" by force
  moreover have "r \<noteq> Panic"
    using no_panic_cascade [OF Cons.prems, of cmd "tr_state t"] calculation by (simp add: no_panic_def)
  ultimately show ?case using Cons by (cases r) auto
qed simp

text \<open>The token prism, installed alone, never panics.\<close>

lemma no_panic_token_handle: "no_panic (token_handle X cmd) s"
  unfolding token_handle_def token_dispatch_def token_create_def token_transfer_def token_approve_def
    token_transfer_from_def token_mint_def token_burn_def Let_def
  by (intro no_panic_intros; cases "fst (parse_payload (js_token_command X) (cmd_payload cmd) s)")
    (auto intro!: no_panic_intros split: token_command.splits)

lemma panic_free_token: "panic_free (install (token_prism X) cascade_new)"
  by (auto simp: panic_free_def install_def cascade_new_def Let_def token_prism_def no_panic_token_handle split: if_splits)

lemma assemble_block_ok:
  assumes "panic_free (nd_cascade n)" and "nd_blocks n \<noteq> []" and "store_live X n"
  shows "\<exists>b n'. assemble_block X now n = (Ok b, n') \<and> nd_keyrings n' = nd_keyrings n \<and> store_live X n' \<and>
    subseq (nd_mempool n') (nd_mempool n)"
proof -
  let ?k = "min (length (nd_mempool n)) (max_block_commands (nd_limits n))"
  let ?s = "set_now X (max now (blk_timestamp (last (nd_blocks n)))) (nd_state n)"
  obtain t where t: "assemble_loop X (nd_cascade n) (nd_limits n) (nd_fee_policy n) (base_price X ?s (nd_fee_policy n))
      (nd_proposer n) (take ?k (nd_mempool n)) \<lparr>tr_state = ?s, tr_gas = 0, tr_events = [], tr_commands = [], tr_rejected = []\<rparr> = Ok t"
    using assemble_loop_ok [OF assms(1)] by blast
  let ?n = "n\<lparr>nd_mempool := filter (\<lambda>c. command_id X c \<notin> set (tr_rejected t)) (nd_mempool n)\<rparr>"
  obtain st where "sync_persisted_mempool X ?n = (Ok (), ?n\<lparr>nd_store := st\<rparr>)" "store_live X (?n\<lparr>nd_store := st\<rparr>)"
    using sync_live [of X ?n] assms(3) by auto
  then show ?thesis
    using assms t by (cases "tr_rejected t = []") (auto simp: assemble_block_def Let_def andthen_assoc andthen_def [of "sync_persisted_mempool X"])
qed

section \<open>A concrete instance of the parameters\<close>

definition ref_node_ext :: node_ext where
  "ref_node_ext = store_ext.extend ref_store_ext (node_ext.fields (codec_of word_coder))"

lemma ref_node_ext_ok: "node_ext_ok ref_node_ext"
  using ref_token_veil_ok ref_token_ext_ok
  by (simp add: node_ext_ok_def veil_ext_ok_def identity_ext_ok_def kernel_ext_ok_def hash_ext_ok_def token_ext_ok_def
      ref_node_ext_def ref_store_ext_def token_ext.defs store_ext.defs node_ext.defs codec_of_ok coder_intros)

definition demo_node :: node where
  "demo_node = (node_new (PartyId ''val'') (install (token_prism ref_node_ext) cascade_new))\<lparr>nd_mempool := [demo_command]\<rparr>"

lemma demo_node_ready:
  "panic_free (nd_cascade demo_node)" "nd_blocks demo_node = [deterministic_genesis]" "nd_keyrings demo_node = []"
  "store_live ref_node_ext demo_node" "chain_inv ref_node_ext deterministic_genesis st_new demo_node"
  by (simp_all add: demo_node_def node_new_def panic_free_token store_live_def chain_inv_def)

section \<open>Properties\<close>

text \<open>
  C7. A node commits what it assembles. With prisms that do not panic, one keyring per hosted party, a working store and serialisers that
  read back what they wrote, assembling succeeds on every mempool, and the assembled block passes every check of a commit made at the same or a
  later time, provided that the timestamp of the head is at most 7200 seconds ahead of that time: the chain grows by exactly that block, its
  commands are a subsequence of the mempool and are gone from it afterwards, and the new state has the root the block announces. As everywhere in
  the model, a prism is a function of the command and the state; a node with the contract prism need not behave so, since the bytes that prism stores
  depend on the random iteration order of a \<open>HashMap\<close> (\<open>contract_storage_order_matters\<close>).
\<close>

theorem assembled_block_commits:
  assumes "node_ext_ok X" and "panic_free (nd_cascade n)" and "nd_blocks n \<noteq> []" and "store_live X n"
    and "distinct (map kr_party (nd_keyrings n))"
    and "now \<le> now'" and "blk_timestamp (last (nd_blocks n)) \<le> saturating_add now' MAX_FUTURE_DRIFT_SECS"
  shows "\<exists>b n1 sm n2. assemble_block X now n = (Ok b, n1) \<and> commit_block X now' b n1 = (Ok sm, n2) \<and>
    nd_blocks n2 = nd_blocks n @ [b] \<and> state_root X (nd_state n2) = blk_state_root b \<and>
    bs_hash sm = block_hash X b \<and> subseq (blk_commands b) (nd_mempool n) \<and>
    subseq (nd_mempool n2) (nd_mempool n) \<and> set (blk_commands b) \<inter> set (nd_mempool n2) = {}"
proof -
  obtain b n1 where b: "assemble_block X now n = (Ok b, n1)" "nd_keyrings n1 = nd_keyrings n" "store_live X n1"
    "subseq (nd_mempool n1) (nd_mempool n)"
    using assemble_block_ok [OF assms(2-4)] by blast
  from b(1) have core1: "core n1 = core n" by (rule core_same)
  obtain s where s: "reexecute X (nd_cascade n) (nd_limits n) (nd_fee_policy n) b (nd_state n) = Ok (s, blk_events b)"
    "state_root X s = blk_state_root b"
    using assembled_reexecutes [OF b(1)] by blast
  obtain t :: trial where t: "blk_height b = blk_height (last (nd_blocks n)) + 1"
    "blk_parent b = block_hash X (last (nd_blocks n))" "blk_timestamp b = max now (blk_timestamp (last (nd_blocks n)))"
    "subseq (blk_commands b) (nd_mempool n)"
    by (rule assemble_block_OkD [OF b(1)]) simp
  have "now' \<le> saturating_add now' MAX_FUTURE_DRIFT_SECS"
    using unat_saturating_add [of now' MAX_FUTURE_DRIFT_SECS] unat_lt_max [of now'] by (simp add: word_le_nat_alt)
  then have ts: "blk_timestamp b \<le> saturating_add now' MAX_FUTURE_DRIFT_SECS"
    using assms(6,7) t(3) by (auto simp: max_def)
  obtain sm n2 where c: "commit_block X now' b n1 = (Ok sm, n2)" "bs_hash sm = block_hash X b"
    "nd_mempool n2 = filter (\<lambda>c. command_id X c \<notin> command_id X ` set (blk_commands b)) (nd_mempool n1)"
    using commit_block_ok [OF assms(1), of n1 b now' s "blk_events b"] assms(3,5) b(2,3) core1 s(1) t ts
    by (auto simp: core_def)
  have "extends X b n1 n2" using commit_block_cases [OF c(1)] by auto
  then have "nd_blocks n2 = nd_blocks n @ [b]" "nd_state n2 = s"
    using s(1) core1 by (auto simp: extends_def core_def)
  moreover have "subseq (nd_mempool n2) (nd_mempool n1)" unfolding c(3) by (rule subseq_filter_left)
  then have "subseq (nd_mempool n2) (nd_mempool n)" using b(4) by (rule subseq_order.order_trans)
  moreover have "set (blk_commands b) \<inter> set (nd_mempool n2) = {}" unfolding c(3) by auto
  ultimately show ?thesis using b(1) c(1,2) s(2) t(4) by blast
qed

text \<open>
  C8. The chain stays linked and determines the state. From a node whose blocks are linked by parent hash, height
  and timestamp, and whose state is the replay of its blocks over the genesis state, every sequence
  of submissions, assemblies, productions, commits of arbitrary blocks, private envelopes,
  attestations and hostings, successful or not, leads to such a node again. (Ethereum transactions are not among
  these operations: no replay reproduces the blocks that anchor them, see \<open>eth_anchor_not_replicated\<close>.)
\<close>

theorem node_chain_invariant:
  assumes "node_steps X n n'" and "chain_inv X g s n"
  shows "chain_inv X g s n' \<and> nd_cascade n' = nd_cascade n \<and> nd_limits n' = nd_limits n \<and> nd_fee_policy n' = nd_fee_policy n"
  by (rule node_steps_inv [OF assms])

theorem node_chain_invariant_witness:
  "chain_inv ref_node_ext deterministic_genesis st_new (snd (produce_block ref_node_ext 100 demo_node))"
proof -
  have "node_steps ref_node_ext demo_node (snd (produce_block ref_node_ext 100 demo_node))"
    unfolding node_steps_def by (rule r_into_rtranclp, rule step_produce [of _ 100]) (rule prod.collapse [symmetric])
  from node_chain_invariant [OF this demo_node_ready(5)] show ?thesis by simp
qed

text \<open>
  C9. Replicas agree. Two nodes with the same prisms, limits and fee policy that start from the same genesis block
  and state and end with the same blocks have the same public state, whatever else each of them did (a prism being a function of the command and the state, which the contract prism
  is not, see \<open>contract_storage_order_matters\<close>):
  commands submitted, blocks tried and refused, clocks, hosted parties, private envelopes, stores.
\<close>

theorem replicas_agree:
  assumes "node_steps X n0 n" and "node_steps X m0 m" and "chain_inv X g s n0" and "chain_inv X g s m0"
    and "nd_cascade n0 = nd_cascade m0" and "nd_limits n0 = nd_limits m0" and "nd_fee_policy n0 = nd_fee_policy m0"
    and "map (\<lambda>b. b\<lparr>blk_events := []\<rparr>) (nd_blocks n) = map (\<lambda>b. b\<lparr>blk_events := []\<rparr>) (nd_blocks m)"
  shows "nd_state n = nd_state m \<and> nd_blocks n = nd_blocks m"
proof -
  note n = node_steps_inv [OF assms(1,3)] and m = node_steps_inv [OF assms(2,4)]
  obtain bs where bs: "nd_blocks n = g # bs" "replay X (nd_cascade n0) (nd_limits n0) (nd_fee_policy n0) s bs = Some (nd_state n)"
    using n by (auto simp: chain_inv_def)
  obtain cs where cs: "nd_blocks m = g # cs" "replay X (nd_cascade n0) (nd_limits n0) (nd_fee_policy n0) s cs = Some (nd_state m)"
    using m assms(5-7) by (auto simp: chain_inv_def)
  have "map (\<lambda>b. b\<lparr>blk_events := []\<rparr>) bs = map (\<lambda>b. b\<lparr>blk_events := []\<rparr>) cs" using assms(8) bs(1) cs(1) by simp
  then have "bs = cs \<and> nd_state n = nd_state m" using bs(2) cs(2) by (rule replay_determined)
  then show ?thesis using bs(1) cs(1) by simp
qed

theorem replicas_agree_witness:
  "nd_state (host_party (demo_keyring ''alice'') demo_node) = nd_state demo_node \<and>
   nd_blocks (host_party (demo_keyring ''alice'') demo_node) = nd_blocks demo_node"
proof (rule replicas_agree [OF _ _ demo_node_ready(5) demo_node_ready(5)])
  show "node_steps ref_node_ext demo_node (host_party (demo_keyring ''alice'') demo_node)"
    unfolding node_steps_def by (rule r_into_rtranclp, rule step_host)
qed (simp_all add: node_steps_def host_party_def Let_def)

section \<open>Admission\<close>

text \<open>The book of accounts: keys, nonces, and the settings admission reads.\<close>

definition book_of :: "node \<Rightarrow> (party_id \<rightharpoonup> bytes) \<times> (party_id \<rightharpoonup> u64) \<times> u64 \<times> limits \<times> cascade" where
  "book_of n = (nd_accounts n, nd_nonces n, nd_chain_id n, nd_limits n, nd_cascade n)"

lemma book_upd [simp]:
  "book_of (n\<lparr>nd_private_state := ps\<rparr>) = book_of n" "book_of (n\<lparr>nd_private_commitments := pc\<rparr>) = book_of n"
  "book_of (n\<lparr>nd_private_envelopes := pe\<rparr>) = book_of n" "book_of (n\<lparr>nd_attestations := att\<rparr>) = book_of n"
  "book_of (n\<lparr>nd_mempool := mp\<rparr>) = book_of n" "book_of (n\<lparr>nd_keyrings := ks\<rparr>) = book_of n"
  "book_of (n\<lparr>nd_sub_ledgers := sl\<rparr>) = book_of n" "book_of (n\<lparr>nd_blocks := bs\<rparr>) = book_of n"
  "book_of (n\<lparr>nd_state := s\<rparr>) = book_of n" "book_of (n\<lparr>nd_store := st\<rparr>) = book_of n"
  by (simp_all add: book_of_def)

lemma book_kept [keeps_intros]:
  "keeps (\<lambda>n. book_of n = v) (assemble_block X now)"
  "keeps (\<lambda>n. book_of n = v) (commit_block X now b)"
  "keeps (\<lambda>n. book_of n = v) (apply_private_envelope Y env)"
  "keeps (\<lambda>n. book_of n = v) (node_record_attestation Z a)"
proof -
  show "keeps (\<lambda>n. book_of n = v) (assemble_block X now)"
    unfolding assemble_block_def Let_def by (intro keeps_intros) auto
  show "keeps (\<lambda>n. book_of n = v) (commit_block X now b)"
    unfolding commit_block_def Let_def by (intro keeps_intros) auto
  show "keeps (\<lambda>n. book_of n = v) (apply_private_envelope Y env)"
    unfolding apply_private_envelope_def settle_private_def execute_private_def Let_def by (intro keeps_intros) auto
  show "keeps (\<lambda>n. book_of n = v) (node_record_attestation Z a)"
    by (auto simp: keeps_def node_record_attestation_def split: prod.splits)
qed

lemma book_kept_blocks [keeps_intros]:
  "keeps (\<lambda>n. book_of n = v) (produce_block X now)" "keeps (\<lambda>n. book_of n = v) (accept_external_block X now b)"
  unfolding produce_block_def accept_external_block_def by (intro keeps_intros)+

lemma book_same:
  "assemble_block X now n = (r1, n') \<Longrightarrow> book_of n' = book_of n"
  "commit_block X now b n = (r2, n') \<Longrightarrow> book_of n' = book_of n"
  "apply_private_envelope Y env n = (r3, n') \<Longrightarrow> book_of n' = book_of n"
  "node_record_attestation Z a n = (r4, n') \<Longrightarrow> book_of n' = book_of n"
  "produce_block X now n = (r5, n') \<Longrightarrow> book_of n' = book_of n"
  "accept_external_block X now b n = (r6, n') \<Longrightarrow> book_of n' = book_of n"
  by (erule keepsD [where P = "\<lambda>m. book_of m = book_of n", rotated 2], intro keeps_intros, rule refl)+

text \<open>An admitted command: what was checked, and what changed.\<close>

lemma bind_same: "nd_accounts n p = Some key \<Longrightarrow> n\<lparr>nd_accounts := (nd_accounts n)(p \<mapsto> key)\<rparr> = n"
  by (cases n) (simp add: fun_upd_idem)

lemma andthen_bind_account [simp]:
  "andthen (bind_account p key) f n =
     (if nd_accounts n p = None \<or> nd_accounts n p = Some key then f () (n\<lparr>nd_accounts := (nd_accounts n)(p \<mapsto> key)\<rparr>)
      else (Err (KeyMismatch (party_name p)), n))"
  by (cases "nd_accounts n p") (auto simp: bind_account_def andthen_assoc bind_same)

lemma andthen_of_result [simp]:
  "andthen (of_result err r) f n = (case r of Inl e \<Rightarrow> (Err (err e), n) | Inr v \<Rightarrow> f v n)"
  by (simp add: of_result_def split: sum.splits)

lemma expected_nonce_accounts [simp]: "expected_nonce (n\<lparr>nd_accounts := a\<rparr>) p = expected_nonce n p"
  by (simp add: expected_nonce_def)

lemma ingest_OkD:
  assumes "ingest_signed X sc persist n = (Ok (), n')"
  defines "p \<equiv> cmd_submitter (sc_command sc)" and "k \<equiv> cmd_nonce (sc_command sc)"
  shows "verify_signed X sc = Inr ()" "sc_chain_id sc = nd_chain_id n" "expected_nonce n p \<le> k"
    "nd_accounts n p = None \<or> nd_accounts n p = Some (sc_public_key sc)"
    "nd_accounts n' = (nd_accounts n)(p \<mapsto> sc_public_key sc)" "nd_nonces n' = (nd_nonces n)(p \<mapsto> k)"
    "nd_mempool n' = nd_mempool n @ [sc_command sc]"
proof -
  let ?n1 = "n\<lparr>nd_accounts := (nd_accounts n)(p \<mapsto> sc_public_key sc)\<rparr>"
  let ?n2 = "?n1\<lparr>nd_nonces := (nd_nonces n)(p \<mapsto> k)\<rparr>"
  have guards: "verify_signed X sc = Inr ()" "sc_chain_id sc = nd_chain_id n" "expected_nonce n p \<le> k"
    "nd_accounts n p = None \<or> nd_accounts n p = Some (sc_public_key sc)"
    and run: "andthen (if persist then on_store (append_pending X sc) else ret ())
      (\<lambda>_. modify (\<lambda>n. n\<lparr>nd_mempool := nd_mempool n @ [sc_command sc]\<rparr>)) ?n2 = (Ok (), n')"
    using assms(1) unfolding p_def k_def
    by (auto simp: ingest_signed_def Let_def split: if_splits sum.splits)
  show "verify_signed X sc = Inr ()" "sc_chain_id sc = nd_chain_id n" "expected_nonce n p \<le> k"
    "nd_accounts n p = None \<or> nd_accounts n p = Some (sc_public_key sc)"
    by (rule guards)+
  have "nd_accounts n' = (nd_accounts n)(p \<mapsto> sc_public_key sc) \<and> nd_nonces n' = (nd_nonces n)(p \<mapsto> k) \<and>
    nd_mempool n' = nd_mempool n @ [sc_command sc]"
    using run by (auto simp: andthen_Ok_iff on_store_def store_act_def split: if_splits option.splits outcome.splits prod.splits)
  then show "nd_accounts n' = (nd_accounts n)(p \<mapsto> sc_public_key sc)" "nd_nonces n' = (nd_nonces n)(p \<mapsto> k)"
    "nd_mempool n' = nd_mempool n @ [sc_command sc]"
    by simp_all
qed

lemma andthen_on_store: "andthen (on_store m) f n = (case nd_store n of None \<Rightarrow> f () n | Some d \<Rightarrow> andthen (store_act d m) f n)"
  by (simp add: on_store_def andthen_assoc split: option.splits)

lemma persist_book:
  assumes "andthen (on_store m) (\<lambda>_. modify (\<lambda>n. n\<lparr>nd_mempool := nd_mempool n @ [c]\<rparr>)) n = (r, n')"
  shows "nd_accounts n' = nd_accounts n \<and> nd_nonces n' = nd_nonces n"
proof -
  have "keeps (\<lambda>x. book_of x = book_of n) (andthen (on_store m) (\<lambda>_. modify (\<lambda>n. n\<lparr>nd_mempool := nd_mempool n @ [c]\<rparr>)))"
    by (intro keeps_intros) auto
  then show ?thesis using assms by (auto simp: book_of_def dest: keepsD)
qed

lemma ingest_cases:
  assumes "ingest_signed X sc persist n = (r, n')"
  defines "p \<equiv> cmd_submitter (sc_command sc)" and "k \<equiv> cmd_nonce (sc_command sc)"
  shows "(nd_accounts n' = nd_accounts n \<and> nd_nonces n' = nd_nonces n) \<or>
    ((nd_accounts n p = None \<or> nd_accounts n p = Some (sc_public_key sc)) \<and> nd_accounts n' = (nd_accounts n)(p \<mapsto> sc_public_key sc) \<and>
     (nd_nonces n' = nd_nonces n \<or> expected_nonce n p \<le> k \<and> nd_nonces n' = (nd_nonces n)(p \<mapsto> k)))"
proof (cases persist)
  case True
  with assms(1) show ?thesis unfolding p_def k_def
    by (auto simp: ingest_signed_def Let_def split: if_splits sum.splits dest!: persist_book)
next
  case False
  with assms(1) show ?thesis unfolding p_def k_def
    by (auto simp: ingest_signed_def Let_def split: if_splits sum.splits)
qed

text \<open>Bound keys stay bound, and the nonce of a party never falls, except by wrapping around from its maximum.\<close>

definition guarded :: "party_id \<Rightarrow> bytes \<Rightarrow> u64 \<Rightarrow> node \<Rightarrow> bool" where
  "guarded p key k n \<longleftrightarrow> nd_accounts n p = Some key \<and> (\<exists>j. nd_nonces n p = Some j \<and> k \<le> j \<and> j \<noteq> - 1)"

lemma guarded_book: "book_of n' = book_of n \<Longrightarrow> guarded p key k n' = guarded p key k n"
  by (simp add: guarded_def book_of_def)

lemma word_succ_le: "(j :: 'a::len word) \<noteq> - 1 \<Longrightarrow> j + 1 \<le> i \<Longrightarrow> j < i"
proof -
  assume j: "j \<noteq> - 1" "j + 1 \<le> i"
  then have "1 + j \<noteq> 0" by (metis add.commute add_eq_0_iff)
  then have "unat (j + 1) = Suc (unat j)" using unatSuc [of j] by (simp add: add.commute)
  with j(2) show ?thesis by (simp add: word_less_nat_alt word_le_nat_alt)
qed

lemma guarded_ingest:
  assumes "ingest_signed X sc persist n = (r, n')" and "guarded p key k n" and "nd_nonces n' p \<noteq> Some (- 1)"
  shows "guarded p key k n'"
proof -
  let ?q = "cmd_submitter (sc_command sc)" and ?i = "cmd_nonce (sc_command sc)"
  obtain j where j: "nd_accounts n p = Some key" "nd_nonces n p = Some j" "k \<le> j" "j \<noteq> - 1"
    using assms(2) by (auto simp: guarded_def)
  have acc: "nd_accounts n' p = Some key"
    using ingest_cases [OF assms(1)] j(1) by (auto split: if_splits)
  have "nd_nonces n' = nd_nonces n \<or> (expected_nonce n ?q \<le> ?i \<and> nd_nonces n' = (nd_nonces n)(?q \<mapsto> ?i))"
    using ingest_cases [OF assms(1)] by blast
  then show ?thesis
  proof
    assume "nd_nonces n' = nd_nonces n"
    with acc j show ?thesis by (auto simp: guarded_def)
  next
    assume i: "expected_nonce n ?q \<le> ?i \<and> nd_nonces n' = (nd_nonces n)(?q \<mapsto> ?i)"
    show ?thesis
    proof (cases "?q = p")
      case True
      with i j have "j < ?i" by (intro word_succ_le) (auto simp: expected_nonce_def)
      with i True acc j assms(3) show ?thesis by (auto simp: guarded_def)
    next
      case False
      with i acc j show ?thesis by (auto simp: guarded_def)
    qed
  qed
qed

lemma guarded_step:
  "node_step X n n' \<Longrightarrow> guarded p key k n \<Longrightarrow> nd_nonces n' p \<noteq> Some (- 1) \<Longrightarrow> guarded p key k n'"
proof (induction rule: node_step.induct)
  case (step_submit sc n r n')
  then show ?case unfolding submit_signed_def by (rule guarded_ingest)
next
  case (step_host n k')
  then show ?case by (simp add: guarded_def host_party_def Let_def)
next
  case (step_assemble now n r n')
  then show ?case using guarded_book [OF book_same(1) [OF step_assemble(1)]] by simp
next
  case (step_commit now b n r n')
  then show ?case using guarded_book [OF book_same(2) [OF step_commit(1)]] by simp
next
  case (step_private env n r n')
  then show ?case using guarded_book [OF book_same(3) [OF step_private(1)]] by simp
next
  case (step_attest a n r n')
  then show ?case using guarded_book [OF book_same(4) [OF step_attest(1)]] by simp
next
  case (step_produce now n r n')
  then show ?case using guarded_book [OF book_same(5) [OF step_produce(1)]] by simp
next
  case (step_accept now b n r n')
  then show ?case using guarded_book [OF book_same(6) [OF step_accept(1)]] by simp
qed

text \<open>
  C10. No replay at a node, and no change of key. Once a command of a party has been submitted and admitted at a node, with a nonce below the largest \<open>u64\<close>, then after any
  operations of the node during which that party's recorded nonce does not reach the largest
  \<open>u64\<close>, the node admits no command of the party with the same or a smaller nonce, and none signed
  with another key.
\<close>

theorem no_replay:
  assumes "submit_signed X sc n = (Ok (), n1)" and "cmd_nonce (sc_command sc) \<noteq> - 1"
    and "(\<lambda>a b. node_step X a b \<and> nd_nonces b (cmd_submitter (sc_command sc)) \<noteq> Some (- 1))\<^sup>*\<^sup>* n1 n2"
    and "cmd_submitter (sc_command sc') = cmd_submitter (sc_command sc)"
    and "cmd_nonce (sc_command sc') \<le> cmd_nonce (sc_command sc) \<or> sc_public_key sc' \<noteq> sc_public_key sc"
  shows "fst (submit_signed X sc' n2) \<noteq> Ok ()"
proof
  let ?p = "cmd_submitter (sc_command sc)" and ?k = "cmd_nonce (sc_command sc)"
  assume "fst (submit_signed X sc' n2) = Ok ()"
  then obtain n3 where run: "ingest_signed X sc' True n2 = (Ok (), n3)"
    unfolding submit_signed_def by (metis prod.collapse)
  have "guarded ?p (sc_public_key sc) ?k n1"
    using ingest_OkD(5,6) [of X sc True n n1] assms(1,2) by (simp add: submit_signed_def guarded_def)
  with assms(3) have "guarded ?p (sc_public_key sc) ?k n2"
    by (induction rule: rtranclp_induct) (auto dest: guarded_step)
  then obtain j where j: "nd_accounts n2 ?p = Some (sc_public_key sc)" "nd_nonces n2 ?p = Some j" "?k \<le> j" "j \<noteq> - 1"
    by (auto simp: guarded_def)
  with ingest_OkD(3) [OF run] assms(4) have "j < cmd_nonce (sc_command sc')"
    by (intro word_succ_le) (simp_all add: expected_nonce_def)
  moreover have "sc_public_key sc' = sc_public_key sc" using ingest_OkD(4) [OF run] j(1) assms(4) by simp
  ultimately show False using assms(5) j(3) by auto
qed

definition demo_identity :: party_identity where
  "demo_identity = from_seed ''alice'' [1]"

definition demo_signed :: signed_command where
  "demo_signed = sign_for_chain ref_node_ext demo_identity demo_command 0"

definition fresh_node :: node where
  "fresh_node = node_new (PartyId ''val'') (install (token_prism ref_node_ext) cascade_new)"

lemma demo_signed_verifies: "verify_signed ref_node_ext demo_signed = Inr ()"
  unfolding demo_signed_def
  using verify_sign_bytes [of ref_node_ext demo_identity] veil_ext_okD(1) [OF node_ext_okD(1) [OF ref_node_ext_ok]]
  by (simp add: verify_signed_bytes sign_for_chain_def sign_bytes_def)

lemma demo_admitted: "\<exists>n. submit_signed ref_node_ext demo_signed fresh_node = (Ok (), n)"
  using demo_signed_verifies
  by (simp add: submit_signed_def ingest_signed_def Let_def fresh_node_def node_new_def demo_signed_def sign_for_chain_def
      demo_command_def default_limits_def cascade_has_def install_def cascade_new_def token_prism_def expected_nonce_def
      andthen_on_store)

theorem no_replay_witness:
  "\<exists>n1. submit_signed ref_node_ext demo_signed fresh_node = (Ok (), n1) \<and> fst (submit_signed ref_node_ext demo_signed n1) \<noteq> Ok ()"
proof -
  obtain n1 where n1: "submit_signed ref_node_ext demo_signed fresh_node = (Ok (), n1)" using demo_admitted by blast
  have "fst (submit_signed ref_node_ext demo_signed n1) \<noteq> Ok ()"
    by (rule no_replay [OF n1, where ?n2.0 = n1]) (simp_all add: demo_signed_def sign_for_chain_def demo_command_def)
  with n1 show ?thesis by blast
qed

end
