(* ===== verification/Node_Behaviour.thy ===== *)
theory Node_Behaviour
  imports Node_Properties
begin

text \<open>
  Further behaviour of the node: the movement of the base price, private envelopes, and the cases that the
  checks of admission and assembly do not cover.
\<close>

section \<open>The base price\<close>

lemma set_key_price:
  assumes "codec_ok (js_string X)" and "fee_dynamic policy"
  shows "base_price X (adjust_base_price X policy gas s) policy = next_price policy (base_price X s policy) gas"
  using assms by (simp add: adjust_base_price_def base_price_def get_json_opt_put)

lemma unat_ucast_up: "unat (ucast (w :: u64) :: u128) = unat w"
  using unsigned_less [where 'a = nat and w = w] by (simp add: unsigned_ucast_eq take_bit_nat_eq_self)

lemma unat_div_word: "unat ((a :: u128) div b) = unat a div unat b"
  by (simp add: unat_div)

lemma unat_max: "unat (max a (b :: 'a::len word)) = max (unat a) (unat b)"
  by (simp add: max_def word_le_nat_alt)

definition price_scale :: "u128 \<Rightarrow> nat \<Rightarrow> nat \<Rightarrow> nat" where
  "price_scale p gap target = min (max (unat p) 1 div 8 * gap) (2 ^ 128 - 1) div target"

lemma unat_next_price:
  fixes policy p g
  defines "T \<equiv> unat (target_gas policy)" and "U \<equiv> unat g"
  shows "unat (next_price policy p g) =
    (if U > T then min (unat p + max (price_scale p (U - T) T) 1) (2 ^ 128 - 1)
     else if U < T then max (unat p - price_scale p (T - U) T) (max (unat (price_per_gas policy)) 1)
     else unat p)"
proof -
  let ?t = "ucast (target_gas policy) :: u128" and ?u = "ucast g :: u128"
  have tu: "unat ?t = T" "unat ?u = U" by (simp_all add: T_def U_def unat_ucast_up)
  have cmp: "?u > ?t \<longleftrightarrow> U > T" "?u < ?t \<longleftrightarrow> U < T" by (simp_all add: word_less_nat_alt tu)
  have sub: "U > T \<Longrightarrow> unat (?u - ?t) = U - T" "U < T \<Longrightarrow> unat (?t - ?u) = T - U"
    by (simp_all add: unat_sub word_le_nat_alt tu)
  show ?thesis
    by (auto simp: next_price_def Let_def cmp unat_saturating_add unat_saturating_sub unat_saturating_mul unat_max
        unat_div_word sub tu price_scale_def)
qed

lemma price_step_bounds:
  fixes policy p gas
  assumes "fee_dynamic policy"
  defines "p' \<equiv> next_price policy p gas"
    and "T \<equiv> unat (target_gas policy)" and "least \<equiv> max (unat (price_per_gas policy)) 1"
  shows "(T < unat gas \<longrightarrow> (p < p' \<or> p = - 1) \<and>
            unat p' \<le> unat p + max (max (unat p) 1 div 8 * (unat gas - T) div T) 1) \<and>
         (unat gas < T \<longrightarrow> least \<le> unat p' \<and> unat p' \<le> max (unat p) least \<and> unat p - max (unat p) 1 div 8 \<le> unat p') \<and>
         (unat gas = T \<longrightarrow> p' = p)"
proof -
  have T: "0 < T" using assms(1) by (auto simp: T_def fee_dynamic_def unat_gt_0)
  have scale: "price_scale p gap T \<le> max (unat p) 1 div 8 * gap div T" for gap
    unfolding price_scale_def by (rule div_le_mono) simp
  have small: "price_scale p (T - unat gas) T \<le> max (unat p) 1 div 8"
  proof -
    have "max (unat p) 1 div 8 * (T - unat gas) div T \<le> max (unat p) 1 div 8 * T div T"
      by (intro div_le_mono mult_le_mono2) simp
    with scale [of "T - unat gas"] T show ?thesis by simp
  qed
  have up: "p < p' \<or> p = - 1" if "T < unat gas"
  proof (cases "unat p = 2 ^ 128 - 1")
    case True
    then have "unat p = unat (- 1 :: u128)" by (simp add: unat_minus_one_max)
    then show ?thesis by (simp add: word_unat_eq_iff)
  next
    case False
    then have "unat p < 2 ^ 128 - 1" using unat_lt_max [of p] by simp
    then show ?thesis
      using that unat_next_price [of policy p gas] by (simp add: p'_def T_def word_less_nat_alt less_max_iff_disj)
  qed
  have least: "0 < least" by (simp add: least_def)
  consider "T < unat gas" | "unat gas < T" | "unat gas = T" by linarith
  then show ?thesis
  proof cases
    case 1
    then have "unat p' \<le> unat p + max (price_scale p (unat gas - T) T) 1"
      using unat_next_price [of policy p gas] by (simp add: p'_def T_def)
    with scale [of "unat gas - T"] up 1 show ?thesis by (simp add: max_def split: if_splits)
  next
    case 2
    then have e: "unat p' = max (unat p - price_scale p (T - unat gas) T) least"
      using unat_next_price [of policy p gas] by (simp add: p'_def T_def least_def)
    have "unat p - max (unat p) 1 div 8 \<le> unat p'"
      unfolding e using diff_le_mono2 [OF small, of "unat p"] by (rule max.coboundedI1)
    moreover have "unat p' \<le> max (unat p) least" "least \<le> unat p'" unfolding e by auto
    ultimately show ?thesis using 2 by simp
  next
    case 3
    then have "unat p' = unat p" using unat_next_price [of policy p gas] by (simp add: p'_def T_def)
    with 3 show ?thesis by (simp add: word_unat_eq_iff)
  qed
qed

text \<open>
  The base price follows the load within bounds. After a block, with a dynamic policy, the stored price is
  strictly higher when the block used more gas than the target (or already the largest value), and
  it grows by at most the eighth scaled by the excess, or one; it is lower or equal, by at most an
  eighth, when the block used less, and never below the configured price or one; it is unchanged
  on target.
\<close>

theorem base_price_bounds:
  assumes "codec_ok (js_string X)" and "fee_dynamic policy"
  shows "let p = base_price X s policy; p' = base_price X (adjust_base_price X policy gas s) policy;
             T = unat (target_gas policy); least = max (unat (price_per_gas policy)) 1 in
         (T < unat gas \<longrightarrow> (p < p' \<or> p = - 1) \<and>
            unat p' \<le> unat p + max (max (unat p) 1 div 8 * (unat gas - T) div T) 1) \<and>
         (unat gas < T \<longrightarrow> least \<le> unat p' \<and> unat p' \<le> max (unat p) least \<and> unat p - max (unat p) 1 div 8 \<le> unat p') \<and>
         (unat gas = T \<longrightarrow> p' = p)"
  unfolding Let_def set_key_price [OF assms] by (rule price_step_bounds [OF assms(2)])

definition demo_policy :: fee_policy where
  "demo_policy = \<lparr>price_per_gas = 10, burn_bps = 5000, target_gas = 100\<rparr>"

theorem base_price_bounds_witness:
  "unat (base_price ref_node_ext (adjust_base_price ref_node_ext demo_policy 150 st_new) demo_policy) \<in> {11 .. 11}"
proof -
  have "base_price ref_node_ext st_new demo_policy = 10" by (simp add: base_price_def demo_policy_def)
  then show ?thesis
    using base_price_bounds [of ref_node_ext demo_policy st_new 150] node_ext_okD(4) [OF ref_node_ext_ok]
    by (simp add: demo_policy_def fee_dynamic_def fee_enabled_def word_less_nat_alt Let_def)
qed

section \<open>Private envelopes\<close>

lemma settle_private_keeps:
  "keeps (\<lambda>n. nd_private_commitments n = cs \<and> nd_private_envelopes n = es) (settle_private X env)"
  unfolding settle_private_def execute_private_def Let_def by (intro keeps_intros) auto

lemma apply_private_records:
  assumes "apply_private_envelope X env n = (r, n')" and "verify_commitment X env"
  shows "pe_commitment env \<in> set (nd_private_commitments n')"
proof (cases "pe_commitment env \<in> set (nd_private_commitments n)")
  case True
  then show ?thesis using assms by (simp add: apply_private_envelope_def)
next
  case False
  then have "settle_private X env (n\<lparr>nd_private_commitments := nd_private_commitments n @ [pe_commitment env],
        nd_private_envelopes := (nd_private_envelopes n)(pe_commitment env \<mapsto> env)\<rparr>) = (r, n')"
    using assms by (simp add: apply_private_envelope_def)
  from keepsD [OF settle_private_keeps _ this] show ?thesis by simp
qed

lemma andthen_focus_Err:
  "m (get n) = (Err e, s) \<Longrightarrow> andthen (focus get put err m) f n = (Err (err e), put s n)"
  by (simp add: andthen_def focus_def)

text \<open>
  A private envelope runs once, even when it fails. Whatever applying a well-formed envelope returns, its
  commitment is recorded, the public chain and state are untouched, and a second application is
  refused as a duplicate. When the inner command fails part-way, the writes made before the failure
  stay in the private state although the caller gets the error.
\<close>

theorem private_envelope_once:
  assumes "apply_private_envelope X env n = (r, n')" and "verify_commitment X env"
  shows "core n' = core n \<and> apply_private_envelope X env n' = (Err DuplicatePrivateCommitment, n') \<and>
    (\<forall>kr inner e ps. nd_store n = None \<and> pe_commitment env \<notin> set (nd_private_commitments n) \<and>
       find (\<lambda>k. is_stakeholder env (kr_party k)) (nd_keyrings n) = Some kr \<and> open_private X env kr = Inr inner \<and>
       cascade_apply (nd_cascade n) inner (nd_private_state n) = (Err e, ps) \<and> cascade_has (nd_cascade n) (cmd_prism inner) \<longrightarrow>
       r = Err (CascadeErr e) \<and> nd_private_state n' = ps)"
proof -
  have "core n' = core n" using assms(1) by (rule core_same)
  moreover have "apply_private_envelope X env n' = (Err DuplicatePrivateCommitment, n')"
    using apply_private_records [OF assms] assms(2) by (simp add: apply_private_envelope_def)
  moreover have "r = Err (CascadeErr e) \<and> nd_private_state n' = ps"
    if "nd_store n = None" "pe_commitment env \<notin> set (nd_private_commitments n)"
      "find (\<lambda>k. is_stakeholder env (kr_party k)) (nd_keyrings n) = Some kr" "open_private X env kr = Inr inner"
      "cascade_apply (nd_cascade n) inner (nd_private_state n) = (Err e, ps)" "cascade_has (nd_cascade n) (cmd_prism inner)"
    for kr inner e ps
    using that assms
    by (auto simp: apply_private_envelope_def settle_private_def execute_private_def andthen_assoc andthen_on_store
        andthen_focus_Err)
  ultimately show ?thesis by blast
qed

definition demo_envelope :: private_envelope where
  "demo_envelope = \<lparr>pe_commitment = expected_commitment ref_node_ext ZERO [] [] [], pe_salt = ZERO, pe_ephemeral_public = [],
     pe_stakeholders = [], pe_shares = []\<rparr>"

theorem private_envelope_once_witness:
  "apply_private_envelope ref_node_ext demo_envelope (snd (apply_private_envelope ref_node_ext demo_envelope fresh_node)) =
     (Err DuplicatePrivateCommitment, snd (apply_private_envelope ref_node_ext demo_envelope fresh_node))"
proof -
  obtain r n' where run: "apply_private_envelope ref_node_ext demo_envelope fresh_node = (r, n')" by force
  moreover have "verify_commitment ref_node_ext demo_envelope" by (simp add: verify_commitment_def demo_envelope_def)
  ultimately show ?thesis using private_envelope_once [OF run] by simp
qed

section \<open>What admission and assembly do not cover\<close>

text \<open>
  C38. A committed command can be admitted again. Nonces and keys are recorded only when a command is submitted at
  this node; committing a block that came from elsewhere records nothing. So a node without a store that has
  accepted an external block holding a command of a party it has not seen itself admits the same
  signed command afterwards into its mempool, provided it is validly signed for the node's chain, within the limits of the node and for an installed prism.
\<close>

theorem replay_after_sync:
  assumes "accept_external_block X now b n = (Ok True, n')"
    and "sc_command sc \<in> set (blk_commands b)" and "verify_signed X sc = Inr ()" and "sc_chain_id sc = nd_chain_id n"
    and "nd_accounts n (cmd_submitter (sc_command sc)) = None" and "nd_nonces n (cmd_submitter (sc_command sc)) = None"
    and "length (cmd_payload (sc_command sc)) \<le> max_payload_bytes (nd_limits n)"
    and "CHR ''/'' \<notin> set (party_name (cmd_submitter (sc_command sc)))" and "party_name (cmd_submitter (sc_command sc)) \<noteq> []"
    and "cascade_has (nd_cascade n) (cmd_prism (sc_command sc))" and "length (nd_mempool n') < max_mempool (nd_limits n)"
    and "nd_store n' = None"
  shows "\<exists>n''. submit_signed X sc n' = (Ok (), n'') \<and> sc_command sc \<in> set (nd_mempool n'') \<and>
    (\<exists>es. last (nd_blocks n'') = b\<lparr>blk_events := es\<rparr>)"
proof -
  have book: "book_of n' = book_of n" using assms(1) by (rule book_same)
  obtain q where "commit_block X now b n = (Ok q, n')"
    using assms(1) by (auto simp: accept_external_block_def andthen_Ok_iff split: if_splits)
  from commit_block_cases [OF this] have "extends X b n n'" by blast
  then obtain es where "last (nd_blocks n') = b\<lparr>blk_events := es\<rparr>" by (auto simp: extends_def core_def)
  then show ?thesis
    using assms(3-12) book
    by (auto simp: submit_signed_def ingest_signed_def Let_def book_of_def expected_nonce_def andthen_on_store)
qed

section \<open>A block with one command\<close>

lemma cascade_apply_single:
  assumes "prisms c (cmd_prism cmd) = Some p" and "pr_handle p cmd s = (Ok out, s')" and "out_derived_commands out = []"
  shows "cascade_apply c cmd s = (Ok \<lparr>rc_events = out_events out, rc_total_cost = out_cost out, rc_depth = 1\<rparr>, s')"
  unfolding cascade_apply_def
  using assms by (subst cascade_loop.simps) (simp add: MAX_CASCADE_DEPTH_def andthen_def map_err_def cascade_loop_Nil)

definition create_cmd :: command where
  "create_cmd = \<lparr>cmd_prism = ''token'', cmd_submitter = PartyId ''alice'', cmd_visibility = Public,
     cmd_payload = to_vec_or_default (js_token_command ref_node_ext) (TkCreate ''Gold'' ''GLD'' 0 100 False), cmd_nonce = 0\<rparr>"

lemma create_cmd_runs:
  "\<exists>es s'. cascade_apply (nd_cascade fresh_node) create_cmd (set_now ref_node_ext ts st_new) =
     (Ok \<lparr>rc_events = es, rc_total_cost = 5000, rc_depth = 1\<rparr>, s')"
proof -
  let ?X = ref_node_ext
  note ok = node_ext_okD(2,4,5) [OF ref_node_ext_ok]
  have "\<exists>out s'. token_handle ?X create_cmd (set_now ?X ts st_new) = (Ok out, s') \<and> out_derived_commands out = [] \<and> out_cost out = 5000"
    using ok token_ext_okD [OF ok(1)]
    by (simp add: token_handle_def create_cmd_def token_dispatch_def token_create_def Let_def set_now_def st_contains_get
        meta_key_def save_meta_ok set_balance_def write_u128_def single_output_def token_ext_ok_def)
  then obtain out s' where out: "token_handle ?X create_cmd (set_now ?X ts st_new) = (Ok out, s')"
    "out_derived_commands out = []" "out_cost out = 5000" by blast
  have "prisms (nd_cascade fresh_node) (cmd_prism create_cmd) = Some (token_prism ?X)" "pr_handle (token_prism ?X) = token_handle ?X"
    by (simp_all add: fresh_node_def node_new_def install_def cascade_new_def token_prism_def create_cmd_def Let_def)
  from cascade_apply_single [OF this(1), unfolded this(2), OF out(1,2)] out(3) show ?thesis by simp
qed

lemma keeps_no_store:
  "keeps (\<lambda>n. nd_store n = None) (on_store m)" "keeps (\<lambda>n. nd_store n = None) (sync_persisted_mempool X)"
  by (auto simp: keeps_def on_store_def sync_persisted_mempool_def)

definition one_block :: block where
  "one_block = (case assemble_block ref_node_ext 100 (fresh_node\<lparr>nd_mempool := [create_cmd]\<rparr>) of (Ok b, _) \<Rightarrow> b | _ \<Rightarrow> deterministic_genesis)"

lemma fresh_node_fields [simp]:
  "nd_blocks fresh_node = [deterministic_genesis]" "nd_state fresh_node = st_new" "nd_mempool fresh_node = []"
  "nd_fee_policy fresh_node = default_fee_policy" "nd_limits fresh_node = default_limits" "nd_store fresh_node = None"
  "nd_keyrings fresh_node = []" "nd_accounts fresh_node = Map.empty" "nd_nonces fresh_node = Map.empty" "nd_chain_id fresh_node = 0"
  by (simp_all add: fresh_node_def node_new_def)

lemma one_block_assembled:
  "\<exists>n1. assemble_block ref_node_ext 100 (fresh_node\<lparr>nd_mempool := [create_cmd]\<rparr>) = (Ok one_block, n1)"
  "blk_commands one_block = [create_cmd]" "blk_height one_block = 1"
proof -
  let ?n = "fresh_node\<lparr>nd_mempool := [create_cmd]\<rparr>"
  obtain es s' where run: "cascade_apply (nd_cascade fresh_node) create_cmd (set_now ref_node_ext 100 st_new) =
     (Ok \<lparr>rc_events = es, rc_total_cost = 5000, rc_depth = 1\<rparr>, s')"
    using create_cmd_runs by blast
  have gas: "\<not> 30000000 < saturating_add 0 (5000 :: u64)" by (simp add: saturating_add_def word_less_nat_alt)
  have "\<exists>b. assemble_block ref_node_ext 100 ?n = (Ok b, ?n) \<and> blk_commands b = [create_cmd] \<and> blk_height b = 1"
    using run gas by (simp add: assemble_block_def Let_def default_limits_def deterministic_genesis_def max_def)
  then show "\<exists>n1. assemble_block ref_node_ext 100 ?n = (Ok one_block, n1)"
    "blk_commands one_block = [create_cmd]" "blk_height one_block = 1"
    by (auto simp: one_block_def)
qed

text \<open>A node with one command in its mempool assembles a block of that command and commits it.\<close>

theorem assembled_block_commits_witness:
  "\<exists>b n1 sm n2. assemble_block ref_node_ext 100 (fresh_node\<lparr>nd_mempool := [create_cmd]\<rparr>) = (Ok b, n1) \<and>
     commit_block ref_node_ext 101 b n1 = (Ok sm, n2) \<and> blk_commands b = [create_cmd] \<and> length (nd_blocks n2) = 2 \<and> nd_mempool n2 = []"
proof -
  let ?n = "fresh_node\<lparr>nd_mempool := [create_cmd]\<rparr>"
  have "blk_timestamp (last (nd_blocks ?n)) \<le> saturating_add 101 MAX_FUTURE_DRIFT_SECS" "(100 :: u64) \<le> 101" "panic_free (nd_cascade ?n)"
    by (simp_all add: deterministic_genesis_def fresh_node_def node_new_def panic_free_token)
  then obtain b n1 sm n2 where r: "assemble_block ref_node_ext 100 ?n = (Ok b, n1)" "commit_block ref_node_ext 101 b n1 = (Ok sm, n2)"
    "nd_blocks n2 = nd_blocks ?n @ [b]" "subseq (nd_mempool n2) [create_cmd]" "set (blk_commands b) \<inter> set (nd_mempool n2) = {}"
    using assembled_block_commits [OF ref_node_ext_ok, of ?n 100 101] by (auto simp: store_live_def)
  then have b: "blk_commands b = [create_cmd]" using one_block_assembled by auto
  then have "create_cmd \<notin> set (nd_mempool n2)" using r(5) by simp
  then have "nd_mempool n2 = []" using r(4) by (cases "nd_mempool n2") (auto split: if_splits)
  then show ?thesis using r b by auto
qed

lemma ref_block_hash_height:
  assumes "block_hash ref_node_ext a = block_hash ref_node_ext b"
  shows "blk_height a = blk_height b"
proof -
  have h: "take 22 (hash_bytes (block_hash ref_node_ext c)) = as_bytes ''block'' @ [255] @ u64_to_le_bytes 8 @ u64_to_le_bytes (blk_height c)" for c
    by (simp add: block_hash_def commit_def commit_preimage_def ref_node_ext_def ref_store_ext_def ref_token_ext_def ref_veil_ext_def
        ref_identity_ext_def ref_kernel_ext_def ref_hash_ext_def store_ext.defs node_ext.defs token_ext.defs veil_ext.defs
        identity_ext.defs kernel_ext.defs hash_ext.defs)
  from h [of a] h [of b] assms show ?thesis by simp
qed

lemma one_block_accepted:
  "\<exists>n'. accept_external_block ref_node_ext 100 one_block fresh_node = (Ok True, n') \<and> nd_mempool n' = [] \<and> nd_store n' = None"
proof -
  let ?n = "fresh_node\<lparr>nd_mempool := [create_cmd]\<rparr>"
  obtain n1 where as: "assemble_block ref_node_ext 100 ?n = (Ok one_block, n1)" using one_block_assembled(1) by blast
  obtain s where "reexecute ref_node_ext (nd_cascade fresh_node) default_limits default_fee_policy one_block st_new = Ok (s, blk_events one_block)"
    using assembled_reexecutes [OF as] by auto
  moreover have b: "blk_parent one_block = block_hash ref_node_ext deterministic_genesis" "blk_height one_block = blk_height deterministic_genesis + 1"
    "blk_timestamp one_block = max 100 (blk_timestamp deterministic_genesis)"
    by (rule assemble_block_OkD [OF as], simp)+
  moreover have "max 100 (blk_timestamp deterministic_genesis) \<le> saturating_add 100 MAX_FUTURE_DRIFT_SECS"
    by (simp add: deterministic_genesis_def MAX_FUTURE_DRIFT_SECS_def saturating_add_def word_le_nat_alt max_def)
  ultimately obtain sm n' where c: "commit_block ref_node_ext 100 one_block fresh_node = (Ok sm, n')" "nd_mempool n' = []"
    using commit_block_ok [OF ref_node_ext_ok, of fresh_node one_block 100 s "blk_events one_block"] by (auto simp: store_live_def)
  have "keeps (\<lambda>n. nd_store n = None) (commit_block ref_node_ext 100 one_block)"
    unfolding commit_block_def Let_def
    by (intro keeps_no_store keeps_andthen keeps_modify keeps_pure keeps_head keeps_prod keeps_focus keeps_of_result keeps_Pair)
      auto
  from keepsD [OF this _ c(1)] have "nd_store n' = None" by simp
  moreover have "block_hash ref_node_ext deterministic_genesis \<noteq> block_hash ref_node_ext one_block"
    using ref_block_hash_height [of deterministic_genesis one_block] b(2) by auto
  ultimately show ?thesis using c b by (simp add: accept_external_block_def andthen_def [of "commit_block X t b" for X t b])
qed

lemma create_payload_small:
  "length (to_vec_or_default (js_token_command ref_node_ext) (TkCreate ''Gold'' ''GLD'' 0 100 False)) \<le> 1048576"
proof -
  have "js_token_command ref_node_ext = codec_of token_command_coder"
    by (simp add: ref_node_ext_def ref_store_ext_def ref_token_ext_def store_ext.defs node_ext.defs token_ext.defs veil_ext.defs)
  then show ?thesis
    by (simp add: to_vec_or_default_def codec_of_def token_command_coder_def Let_def sum_coder_def iso_coder_def pair_coder_def
        string_coder_def list_coder_def char_coder_def nat_coder_def word_coder_def bool_coder_def)
qed

lemma create_cmd_sel:
  "cmd_submitter create_cmd = PartyId ''alice''" "cmd_prism create_cmd = ''token''" "cascade_has (nd_cascade fresh_node) ''token''"
  by (simp_all add: create_cmd_def cascade_has_def fresh_node_def node_new_def install_def cascade_new_def token_prism_def Let_def)

lemma signed_sel:
  "sc_command (sign_for_chain X i c k) = c" "sc_chain_id (sign_for_chain X i c k) = k"
  by (simp_all add: sign_for_chain_def)

theorem replay_after_sync_witness:
  "\<exists>n' n'' es. accept_external_block ref_node_ext 100 one_block fresh_node = (Ok True, n') \<and>
     submit_signed ref_node_ext (sign_for_chain ref_node_ext demo_identity create_cmd 0) n' = (Ok (), n'') \<and>
     create_cmd \<in> set (nd_mempool n'') \<and> last (nd_blocks n'') = one_block\<lparr>blk_events := es\<rparr> \<and> create_cmd \<in> set (blk_commands one_block)"
proof -
  let ?sc = "sign_for_chain ref_node_ext demo_identity create_cmd 0"
  obtain n' where n': "accept_external_block ref_node_ext 100 one_block fresh_node = (Ok True, n')" "nd_mempool n' = []" "nd_store n' = None"
    using one_block_accepted by blast
  have "verify_signed ref_node_ext ?sc = Inr ()"
    using verify_sign_bytes [of ref_node_ext demo_identity] veil_ext_okD(1) [OF node_ext_okD(1) [OF ref_node_ext_ok]]
    by (simp add: verify_signed_bytes sign_for_chain_def sign_bytes_def)
  moreover have "length (cmd_payload create_cmd) \<le> max_payload_bytes (nd_limits fresh_node)"
    by (simp add: create_cmd_def create_payload_small default_limits_def)
  ultimately obtain n'' es where "submit_signed ref_node_ext ?sc n' = (Ok (), n'')" "create_cmd \<in> set (nd_mempool n'')"
    "last (nd_blocks n'') = one_block\<lparr>blk_events := es\<rparr>"
    using replay_after_sync [OF n'(1), of ?sc] n'(2,3) one_block_assembled(2)
    by (auto simp: create_cmd_sel signed_sel default_limits_def)
  with n'(1) show ?thesis using one_block_assembled(2) by auto
qed

text \<open>
  An expensive command stalls the mempool. A command whose execution costs more than the block gas limit is neither
  included nor rejected: assembly stops at it. When it is first in the mempool, every assembled
  block is empty and the mempool, with everything queued behind the command, stays as it is.
\<close>

theorem expensive_command_stalls:
  assumes "nd_mempool n = cmd # rest" and "nd_blocks n \<noteq> []" and "0 < max_block_commands (nd_limits n)"
    and "cascade_apply (nd_cascade n) cmd (set_now X (max now (blk_timestamp (last (nd_blocks n)))) (nd_state n)) = (Ok receipt, s)"
    and "rc_total_cost receipt > max_block_gas (nd_limits n)"
  shows "\<exists>b. assemble_block X now n = (Ok b, n) \<and> blk_commands b = []"
proof -
  have "unat (saturating_add 0 (rc_total_cost receipt)) = unat (rc_total_cost receipt)"
    using unat_lt_max [of "rc_total_cost receipt"] by (simp add: unat_saturating_add min_def)
  then have "saturating_add 0 (rc_total_cost receipt) = rc_total_cost receipt" by (simp add: word_unat_eq_iff)
  moreover have "min (Suc (length rest)) (max_block_commands (nd_limits n)) = Suc (min (length rest) (max_block_commands (nd_limits n) - 1))"
    using assms(3) by (cases "max_block_commands (nd_limits n)") auto
  ultimately show ?thesis using assms by (simp add: assemble_block_def Let_def)
qed

theorem expensive_command_stalls_witness:
  "\<exists>b. assemble_block ref_node_ext 100 (fresh_node\<lparr>nd_mempool := [create_cmd], nd_limits := default_limits\<lparr>max_block_gas := 1000\<rparr>\<rparr>) =
     (Ok b, fresh_node\<lparr>nd_mempool := [create_cmd], nd_limits := default_limits\<lparr>max_block_gas := 1000\<rparr>\<rparr>) \<and> blk_commands b = []"
proof -
  let ?n = "fresh_node\<lparr>nd_mempool := [create_cmd], nd_limits := default_limits\<lparr>max_block_gas := 1000\<rparr>\<rparr>"
  obtain es s' where "cascade_apply (nd_cascade ?n) create_cmd
      (set_now ref_node_ext (max 100 (blk_timestamp (last (nd_blocks ?n)))) (nd_state ?n)) =
      (Ok \<lparr>rc_events = es, rc_total_cost = 5000, rc_depth = 1\<rparr>, s')"
    using create_cmd_runs [of "max 100 (blk_timestamp deterministic_genesis)"] by auto
  from expensive_command_stalls [OF _ _ _ this, of "[]"] show ?thesis
    by (simp add: default_limits_def word_less_nat_alt)
qed

section \<open>Restart\<close>

lemma in_store_ok:
  "nd_store n = Some d \<Longrightarrow> m d = (Ok v, d) \<Longrightarrow> andthen (in_store m) f n = f v n"
  by (cases n) (simp add: in_store_def store_act_def andthen_def)

lemma store_act_ok: "m d = (Ok v, d') \<Longrightarrow> andthen (store_act d m) f n = f v (n\<lparr>nd_store := Some d'\<rparr>)"
  by (simp add: store_act_def andthen_def)

lemma with_store_run:
  assumes "store_ready X" and "holds_blocks X d bs" and "bs \<noteq> []" and "d STATE = Some (to_vec_or_default (js_state_tree X) s)"
    and "holds_pending X d []" and "d PRIVATE_STATE = None" and "d PRIVATE_COMMITMENTS = None"
  shows "with_store X p c d = (Ok (), (node_new p c)\<lparr>nd_blocks := bs, nd_state := s, nd_store := Some d\<rparr>)"
proof -
  note loads = blocks.load_holds [OF assms(1,2)] load_state_run [of X d s, OF assms(1,4)] pending.load_holds [OF assms(1,5)]
  have priv: "load_private_state X d = (Ok None, d)" "load_private_commitments X d = (Ok [], d)"
    using assms(6,7) by (simp_all add: load_private_state_def load_private_commitments_def)
  show ?thesis
    using assms(3) loads priv
    by (simp add: with_store_def andthen_assoc in_store_ok [where d = d] restore_mempool_def
        store_act_ok [of "load_pending X" d "[]" d] node_new_def)
qed

text \<open>
  A restart takes the files at their word. On a log that holds the blocks of a chain and a snapshot of its state,
  with no pending commands, opening the node restores blocks and state and forgets every account key
  and nonce. When the process stopped between the append of a block and the snapshot of its state,
  which the commit writes in that order, the restarted node holds the new block with the old state:
  it does not replay, and unless the block changes nothing, its state is not the replay of its chain.
\<close>

theorem restart_after_crash:
  assumes "store_ready X" and "holds_blocks X d (g # bs)" and "d STATE = Some (to_vec_or_default (js_state_tree X) s)"
    and "holds_pending X d []" and "d PRIVATE_STATE = None" and "d PRIVATE_COMMITMENTS = None"
  shows "(\<exists>n. with_store X p c d = (Ok (), n) \<and> nd_blocks n = g # bs \<and> nd_state n = s \<and>
            nd_accounts n = Map.empty \<and> nd_nonces n = Map.empty) \<and>
         (\<exists>d' n. append_block X b d = (Ok (), d') \<and> with_store X p c d' = (Ok (), n) \<and> nd_blocks n = g # bs @ [b] \<and> nd_state n = s \<and>
            (\<forall>s0 s' es. replay X c default_limits default_fee_policy s0 bs = Some s \<and>
               reexecute X c default_limits default_fee_policy b s = Ok (s', es) \<and> s' \<noteq> s \<longrightarrow> \<not> chain_inv X g s0 n))"
proof -
  obtain d' where d': "append_block X b d = (Ok (), d')" "holds_blocks X d' ((g # bs) @ [b])"
    using blocks.append_holds [OF assms(1,2)] by blast
  have same: "d' f = d f" if "f \<noteq> BLOCKS" for f
    using d'(1) that assms(2) by (auto simp: append_block_run [OF assms(1)] holds_blocks_def)
  have files: "d' STATE = d STATE" "holds_pending X d' []" "d' PRIVATE_STATE = None" "d' PRIVATE_COMMITMENTS = None"
    using same [of STATE] same [of MEMPOOL] same [of PRIVATE_STATE] same [of PRIVATE_COMMITMENTS] assms(4-6)
    by (simp_all add: holds_pending_def content_def STATE_def MEMPOOL_def BLOCKS_def PRIVATE_STATE_def PRIVATE_COMMITMENTS_def)
  let ?n = "(node_new p c)\<lparr>nd_blocks := (g # bs) @ [b], nd_state := s, nd_store := Some d'\<rparr>"
  have run: "with_store X p c d' = (Ok (), ?n)"
    by (rule with_store_run [of X d' "(g # bs) @ [b]" s, OF assms(1) d'(2)]) (use files assms(3) in simp_all)
  have "\<not> chain_inv X g s0 ?n"
    if "replay X c default_limits default_fee_policy s0 bs = Some s"
      "reexecute X c default_limits default_fee_policy b s = Ok (s', es)" "s' \<noteq> s" for s0 s' es
    using that by (auto simp: chain_inv_def node_new_def replay_snoc split: if_splits)
  moreover have "with_store X p c d = (Ok (), (node_new p c)\<lparr>nd_blocks := g # bs, nd_state := s, nd_store := Some d\<rparr>)"
    by (rule with_store_run [of X d "g # bs" s, OF assms(1,2) _ assms(3-6)]) simp
  ultimately show ?thesis using d'(1) run by (auto simp: node_new_def)
qed

lemma ref_node_store_ready: "store_ready ref_node_ext"
  using ref_store_ready
  by (simp add: store_ready_def store_ext_ok_def os_ok_def ref_node_ext_def store_ext.defs node_ext.defs)

theorem restart_after_crash_witness:
  "\<exists>d' n. append_block ref_node_ext one_block
      [BLOCKS \<mapsto> log_of (js_block ref_node_ext) [deterministic_genesis], STATE \<mapsto> to_vec_or_default (js_state_tree ref_node_ext) st_new] =
      (Ok (), d') \<and> with_store ref_node_ext (PartyId ''val'') cascade_new d' = (Ok (), n) \<and>
    nd_blocks n = [deterministic_genesis, one_block] \<and> nd_state n = st_new"
proof -
  let ?d = "[BLOCKS \<mapsto> log_of (js_block ref_node_ext) [deterministic_genesis], STATE \<mapsto> to_vec_or_default (js_state_tree ref_node_ext) st_new]"
  have "holds_blocks ref_node_ext ?d [deterministic_genesis]" "?d STATE = Some (to_vec_or_default (js_state_tree ref_node_ext) st_new)"
    "holds_pending ref_node_ext ?d []" "?d PRIVATE_STATE = None" "?d PRIVATE_COMMITMENTS = None"
    by (simp_all add: holds_blocks_def holds_pending_def content_def STATE_def MEMPOOL_def BLOCKS_def PRIVATE_STATE_def
        PRIVATE_COMMITMENTS_def)
  from restart_after_crash [of ref_node_ext ?d deterministic_genesis "[]" st_new, OF ref_node_store_ready this]
  obtain d' n where "append_block ref_node_ext one_block ?d = (Ok (), d')"
    "with_store ref_node_ext (PartyId ''val'') cascade_new d' = (Ok (), n)"
    "nd_blocks n = deterministic_genesis # [] @ [one_block]" "nd_state n = st_new"
    by blast
  then show ?thesis by (intro exI [of _ d'] exI [of _ n]) simp
qed

end
