(* ===== verification/Genesis.thy ===== *)
theory Genesis
  imports Node_Properties
begin

text \<open>
  \<open>node/src/genesis.rs\<close>: the chain specification and the first state it seeds. Reading the specification from a
  file is the business of the JSON library. The scale \<open>10.pow(decimals)\<close> and the product with it are
  \<open>u128\<close> arithmetic, which wraps around in a release build.
\<close>

record genesis_alloc =
  ga_party :: string
  ga_amount :: u64

record chain_spec =
  cs_token_name :: string
  cs_token_symbol :: string
  cs_token_decimals :: u8
  cs_treasury :: string
  cs_allocations :: "genesis_alloc list"
  cs_fee_price_per_gas :: u128
  cs_fee_burn_bps :: u16
  cs_fee_target_gas :: u64
  cs_chain_id :: u64
  cs_network :: string

definition default_burn_bps :: u16 where "default_burn_bps = 5000"

definition default_chain_id :: u64 where "default_chain_id = 1"

definition default_network :: string where "default_network = ''veilux-dev''"

definition default_spec :: chain_spec where
  "default_spec = \<lparr>cs_token_name = ''Veilux'', cs_token_symbol = ''LUX'', cs_token_decimals = 18, cs_treasury = ''treasury'',
     cs_allocations = [\<lparr>ga_party = ''treasury'', ga_amount = 1000000000\<rparr>], cs_fee_price_per_gas = 0,
     cs_fee_burn_bps = default_burn_bps, cs_fee_target_gas = 0, cs_chain_id = default_chain_id, cs_network = default_network\<rparr>"

definition total_supply_whole :: "chain_spec \<Rightarrow> u128" where
  "total_supply_whole spec = sum_list (map (\<lambda>a. ucast (ga_amount a)) (cs_allocations spec))"

definition spec_fee_policy :: "chain_spec \<Rightarrow> fee_policy" where
  "spec_fee_policy spec = \<lparr>price_per_gas = cs_fee_price_per_gas spec, burn_bps = cs_fee_burn_bps spec, target_gas = cs_fee_target_gas spec\<rparr>"

definition scaled_allocations :: "chain_spec \<Rightarrow> (party_id \<times> u128) list" where
  "scaled_allocations spec =
     (let scale = 10 ^ unat (cs_token_decimals spec) in
      map (\<lambda>a. (PartyId (ga_party a), ucast (ga_amount a) * scale)) (cs_allocations spec))"

definition spec_seed :: "'x token_ext_scheme \<Rightarrow> chain_spec \<Rightarrow> (state_tree, prism_error, unit) act" where
  "spec_seed X spec =
     andthen (seed_native_token X (cs_token_name spec) (cs_token_symbol spec) (cs_token_decimals spec) (PartyId (cs_treasury spec))
       (scaled_allocations spec)) (\<lambda>_.
     ret ())"

end
