(* ===== verification/Consensus.thy ===== *)
theory Consensus
  imports Identity Kernel_State
begin

text \<open>
  The \<open>consensus\<close> crate: the validator set (\<open>validator.rs\<close>), votes and their tally (\<open>vote.rs\<close>), and
  the Aurora engine that turns a quorum of precommits into a commit (\<open>lib.rs\<close>). A \<open>BTreeMap\<close> is a
  finite map read in key order, a \<open>HashMap\<close> a finite map of which only lookups are used. Stake sums
  are sums of \<open>u64\<close> words, which wrap around as in a release build.
\<close>

section \<open>Validators\<close>

record validator =
  v_party :: party_id
  v_public_key :: bytes
  v_stake :: u64
  v_active :: bool
  v_missed :: u64

type_synonym validator_set = "(party_id, validator) fmap"

definition validator_new :: "party_id \<Rightarrow> bytes \<Rightarrow> u64 \<Rightarrow> validator" where
  "validator_new party pk stake =
     \<lparr>v_party = party, v_public_key = pk, v_stake = stake, v_active = True, v_missed = 0\<rparr>"

definition vset_new :: validator_set where
  "vset_new = fmempty"

definition vset_add :: "validator \<Rightarrow> validator_set \<Rightarrow> validator_set" where
  "vset_add v vs = fmupd (v_party v) v vs"

definition vset_get :: "validator_set \<Rightarrow> party_id \<Rightarrow> validator option" where
  "vset_get vs p = fmlookup vs p"

definition is_validator :: "validator_set \<Rightarrow> party_id \<Rightarrow> bool" where
  "is_validator vs p = (case fmlookup vs p of None \<Rightarrow> False | Some v \<Rightarrow> v_active v)"

definition vset_values :: "validator_set \<Rightarrow> validator list" where
  "vset_values vs = map snd (sorted_list_of_fmap vs)"

definition vset_active :: "validator_set \<Rightarrow> validator list" where
  "vset_active vs = sort_key v_party (filter v_active (vset_values vs))"

definition active_count :: "validator_set \<Rightarrow> nat" where
  "active_count vs = length (filter v_active (vset_values vs))"

definition total_stake :: "validator_set \<Rightarrow> u64" where
  "total_stake vs = sum_list (map v_stake (filter v_active (vset_values vs)))"

definition quorum_threshold :: "validator_set \<Rightarrow> u64" where
  "quorum_threshold vs = (let total = total_stake vs in total * 2 div 3 + 1)"

definition proposer_for :: "validator_set \<Rightarrow> u64 \<Rightarrow> u32 \<Rightarrow> party_id option" where
  "proposer_for vs height rnd =
     (let active = vset_active vs in
      if active = [] then None
      else
        let seed = height * 31 + ucast rnd;
            idx = unat (seed mod of_nat (length active)) in
        Some (v_party (active ! idx)))"

definition record_proposed :: "party_id \<Rightarrow> validator_set \<Rightarrow> validator_set" where
  "record_proposed p vs = (case fmlookup vs p of
      None \<Rightarrow> vs
    | Some v \<Rightarrow> fmupd p (v\<lparr>v_missed := 0\<rparr>) vs)"

definition record_missed :: "party_id \<Rightarrow> u64 \<Rightarrow> validator_set \<Rightarrow> validator_set" where
  "record_missed p jail_threshold vs = (case fmlookup vs p of
      None \<Rightarrow> vs
    | Some v \<Rightarrow>
        let missed = v_missed v + 1 in
        fmupd p (v\<lparr>v_missed := missed, v_active := (if missed \<ge> jail_threshold then False else v_active v)\<rparr>) vs)"

definition vset_hash :: "'x hash_ext_scheme \<Rightarrow> validator_set \<Rightarrow> hash" where
  "vset_hash X vs = commit X ''validator-set''
     (map (\<lambda>v. as_bytes (party_name (v_party v)) @ u64_to_le_bytes (v_stake v)) (vset_active vs))"

section \<open>Votes\<close>

datatype vote_kind = Prevote | Precommit

record vote =
  vt_height :: u64
  vt_round :: u32
  vt_block_hash :: hash
  vt_voter :: party_id
  vt_kind :: vote_kind
  vt_signature :: bytes

definition vote_signing_bytes :: "vote \<Rightarrow> bytes" where
  "vote_signing_bytes v =
     as_bytes ''veilux/vote/v1'' @ [255] @ u64_to_le_bytes (vt_height v) @ u32_to_le_bytes (vt_round v) @
     hash_bytes (vt_block_hash v) @ [case vt_kind v of Prevote \<Rightarrow> 0 | Precommit \<Rightarrow> 1] @
     as_bytes (party_name (vt_voter v))"

datatype vote_error = NotValidator string | Equivocation string

type_synonym tally = "(hash, party_id list) fmap"
type_synonym seen = "(party_id, hash) fmap"

record vote_set =
  prevotes :: tally
  precommits :: tally
  prevote_seen :: seen
  precommit_seen :: seen

definition vote_set_new :: vote_set where
  "vote_set_new = \<lparr>prevotes = fmempty, precommits = fmempty, prevote_seen = fmempty, precommit_seen = fmempty\<rparr>"

definition tally_push :: "hash \<Rightarrow> party_id \<Rightarrow> tally \<Rightarrow> tally" where
  "tally_push b p t = fmupd b ((case fmlookup t b of None \<Rightarrow> [] | Some ps \<Rightarrow> ps) @ [p]) t"

definition vote_set_add :: "vote \<Rightarrow> validator_set \<Rightarrow> vote_set \<Rightarrow> (vote_error + bool) \<times> vote_set" where
  "vote_set_add vote vset vs =
     (if \<not> is_validator vset (vt_voter vote) then (Inl (NotValidator (party_name (vt_voter vote))), vs)
      else
        let voter = vt_voter vote; b = vt_block_hash vote;
            seen = (case vt_kind vote of Prevote \<Rightarrow> prevote_seen vs | Precommit \<Rightarrow> precommit_seen vs) in
        case fmlookup seen voter of
          Some prev \<Rightarrow>
            if prev \<noteq> b then (Inl (Equivocation (party_name voter)), vs) else (Inr False, vs)
        | None \<Rightarrow>
            (Inr True,
             case vt_kind vote of
               Prevote \<Rightarrow> vs\<lparr>prevote_seen := fmupd voter b (prevote_seen vs),
                             prevotes := tally_push b voter (prevotes vs)\<rparr>
             | Precommit \<Rightarrow> vs\<lparr>precommit_seen := fmupd voter b (precommit_seen vs),
                               precommits := tally_push b voter (precommits vs)\<rparr>))"

definition power :: "tally \<Rightarrow> hash \<Rightarrow> validator_set \<Rightarrow> u64" where
  "power t b vset = (case fmlookup t b of
      None \<Rightarrow> 0
    | Some voters \<Rightarrow> sum_list (map v_stake (List.map_filter (vset_get vset) voters)))"

definition prevote_power :: "vote_set \<Rightarrow> hash \<Rightarrow> validator_set \<Rightarrow> u64" where
  "prevote_power vs b vset = power (prevotes vs) b vset"

definition precommit_power :: "vote_set \<Rightarrow> hash \<Rightarrow> validator_set \<Rightarrow> u64" where
  "precommit_power vs b vset = power (precommits vs) b vset"

definition precommitters :: "vote_set \<Rightarrow> hash \<Rightarrow> party_id list" where
  "precommitters vs b = (case fmlookup (precommits vs) b of None \<Rightarrow> [] | Some ps \<Rightarrow> ps)"

section \<open>The Aurora engine\<close>

record consensus_config =
  jail_threshold :: u64
  max_round :: u32

definition default_config :: consensus_config where
  "default_config = \<lparr>jail_threshold = 50, max_round = 8\<rparr>"

datatype consensus_error =
    NoValidators
  | WrongProposer string string
  | ProposerNotValidator string
  | ParentMismatch
  | BadHeight u64 u64
  | EventsRootMismatch
  | BadVoteSignature string
  | VoteErr vote_error

datatype commit_outcome = Pending | AlreadyCommitted | Committed u64 hash "party_id list" u64

record aurora =
  au_config :: consensus_config
  au_validators :: validator_set
  au_me :: "party_id option"
  au_rounds :: "(u64 \<times> u32, vote_set) fmap"
  au_committed :: "(u64, hash) fmap"

definition aurora_new :: "consensus_config \<Rightarrow> validator_set \<Rightarrow> party_id option \<Rightarrow> aurora" where
  "aurora_new config validators me =
     \<lparr>au_config = config, au_validators = validators, au_me = me, au_rounds = fmempty, au_committed = fmempty\<rparr>"

definition is_local_proposer :: "aurora \<Rightarrow> u64 \<Rightarrow> u32 \<Rightarrow> bool" where
  "is_local_proposer a height rnd =
     (case (au_me a, proposer_for (au_validators a) height rnd) of
        (Some me, Some p) \<Rightarrow> me = p
      | _ \<Rightarrow> False)"

definition verify_proposal ::
  "'x kernel_ext_scheme \<Rightarrow> aurora \<Rightarrow> block \<Rightarrow> hash \<Rightarrow> u32 \<Rightarrow> consensus_error + unit" where
  "verify_proposal X a b parent_hash rnd =
     (case proposer_for (au_validators a) (blk_height b) rnd of
        None \<Rightarrow> Inl NoValidators
      | Some expected \<Rightarrow>
          if blk_proposer b \<noteq> expected
          then Inl (WrongProposer (party_name expected) (party_name (blk_proposer b)))
          else if \<not> is_validator (au_validators a) (blk_proposer b)
          then Inl (ProposerNotValidator (party_name (blk_proposer b)))
          else if blk_parent b \<noteq> parent_hash then Inl ParentMismatch
          else if compute_events_root X b \<noteq> blk_events_root b then Inl EventsRootMismatch
          else Inr ())"

definition tally_vote :: "vote \<Rightarrow> (aurora, consensus_error, commit_outcome) act" where
  "tally_vote vote a =
     (if fmlookup (au_committed a) (vt_height vote) \<noteq> None then (Ok AlreadyCommitted, a)
      else
        let vset = au_validators a; quorum = quorum_threshold vset;
            slot = (vt_height vote, vt_round vote);
            entry0 = (case fmlookup (au_rounds a) slot of None \<Rightarrow> vote_set_new | Some e \<Rightarrow> e);
            (r, entry) = vote_set_add vote vset entry0;
            a1 = a\<lparr>au_rounds := fmupd slot entry (au_rounds a)\<rparr> in
        case r of
          Inl e \<Rightarrow> (Err (VoteErr e), a1)
        | Inr is_new \<Rightarrow>
            if \<not> is_new then (Ok Pending, a1)
            else if vt_kind vote = Precommit then
              let p = precommit_power entry (vt_block_hash vote) vset in
              if p \<ge> quorum
              then (Ok (Committed (vt_height vote) (vt_block_hash vote)
                     (precommitters entry (vt_block_hash vote)) p),
                    a1\<lparr>au_committed := fmupd (vt_height vote) (vt_block_hash vote) (au_committed a1)\<rparr>)
              else (Ok Pending, a1)
            else (Ok Pending, a1))"

definition add_vote :: "'x identity_ext_scheme \<Rightarrow> vote \<Rightarrow> (aurora, consensus_error, commit_outcome) act" where
  "add_vote X vote a =
     (case vset_get (au_validators a) (vt_voter vote) of
        None \<Rightarrow> (Err (VoteErr (NotValidator (party_name (vt_voter vote)))), a)
      | Some v \<Rightarrow>
          if vt_signature vote = [] then (Err (BadVoteSignature ''missing vote signature''), a)
          else case verify_bytes X (v_public_key v) (vote_signing_bytes vote) (vt_signature vote) of
            Inl e \<Rightarrow> (Err (BadVoteSignature (identity_error_to_string e)), a)
          | Inr _ \<Rightarrow> tally_vote vote a)"

definition add_local_vote :: "vote \<Rightarrow> (aurora, consensus_error, commit_outcome) act" where
  "add_local_vote vote a =
     (if au_me a = Some (vt_voter vote) then tally_vote vote a
      else (Err (BadVoteSignature ''add_local_vote called for a non-local voter''), a))"

definition has_prevote_quorum :: "aurora \<Rightarrow> u64 \<Rightarrow> u32 \<Rightarrow> hash \<Rightarrow> bool" where
  "has_prevote_quorum a height rnd b =
     (case fmlookup (au_rounds a) (height, rnd) of
        None \<Rightarrow> False
      | Some vs \<Rightarrow> prevote_power vs b (au_validators a) \<ge> quorum_threshold (au_validators a))"

definition is_committed :: "aurora \<Rightarrow> u64 \<Rightarrow> hash option" where
  "is_committed a height = fmlookup (au_committed a) height"

definition note_missed_proposer :: "u64 \<Rightarrow> u32 \<Rightarrow> aurora \<Rightarrow> aurora" where
  "note_missed_proposer height rnd a =
     (case proposer_for (au_validators a) height rnd of
        None \<Rightarrow> a
      | Some p \<Rightarrow> a\<lparr>au_validators := record_missed p (jail_threshold (au_config a)) (au_validators a)\<rparr>)"

definition prune_below :: "u64 \<Rightarrow> aurora \<Rightarrow> aurora" where
  "prune_below height a =
     a\<lparr>au_rounds := fmfilter (\<lambda>(h, _). h \<ge> height) (au_rounds a),
       au_committed := fmfilter (\<lambda>h. h \<ge> height) (au_committed a)\<rparr>"

section \<open>Stake as natural numbers\<close>

definition stake_at :: "validator_set \<Rightarrow> party_id \<Rightarrow> nat" where
  "stake_at vs p = (case fmlookup vs p of None \<Rightarrow> 0 | Some v \<Rightarrow> unat (v_stake v))"

abbreviation stake_of :: "validator_set \<Rightarrow> party_id set \<Rightarrow> nat" where
  "stake_of vs P \<equiv> sum (stake_at vs) P"

abbreviation members :: "validator_set \<Rightarrow> party_id set" where
  "members vs \<equiv> {p. is_validator vs p}"

text \<open>
  A validator set is sound when it is indexed by party, as \<open>add\<close> does, and twice its total stake fits
  in \<open>u64\<close>, so that the threshold computation does not wrap around. The source does not check the bound; \<open>quorum_threshold_wraps\<close>
  shows what happens beyond it.
\<close>

definition vset_sound :: "validator_set \<Rightarrow> bool" where
  "vset_sound vs \<longleftrightarrow> (\<forall>p v. fmlookup vs p = Some v \<longrightarrow> v_party v = p) \<and> 2 * stake_of vs (fmdom' vs) < 2 ^ 64"

lemma finite_members [simp]: "finite (members vs)"
  by (rule finite_subset [of _ "fmdom' vs"]) (auto simp: is_validator_def fmlookup_dom'_iff split: option.splits)

lemma members_dom: "members vs \<subseteq> fmdom' vs"
  by (auto simp: is_validator_def fmlookup_dom'_iff split: option.splits)

lemma stake_of_le_dom: "P \<subseteq> fmdom' vs \<Longrightarrow> stake_of vs P \<le> stake_of vs (fmdom' vs)"
  by (intro sum_mono2) auto

lemma fmap_entries_sum:
  "(\<Sum>(p, v) \<leftarrow> filter (\<lambda>(p, v). Q v) (sorted_list_of_fmap vs). f v) =
     (\<Sum>p | (\<exists>v. fmlookup vs p = Some v \<and> Q v). f (the (fmlookup vs p)))"
proof -
  let ?K = "sorted_list_of_fset (fmdom vs)"
  have dk: "distinct ?K" and sk: "set ?K = fmdom' vs"
    by (simp_all add: sorted_list_of_fset.rep_eq fmdom'_alt_def)
  have "(\<Sum>(p, v) \<leftarrow> filter (\<lambda>(p, v). Q v) (sorted_list_of_fmap vs). f v) =
      (\<Sum>p \<leftarrow> filter (\<lambda>p. Q (the (fmlookup vs p))) ?K. f (the (fmlookup vs p)))"
    by (simp add: sorted_list_of_fmap_def filter_map o_def)
  also have "\<dots> = (\<Sum>p \<in> set (filter (\<lambda>p. Q (the (fmlookup vs p))) ?K). f (the (fmlookup vs p)))"
    using dk by (simp add: sum_list_distinct_conv_sum_set del: set_filter)
  also have "set (filter (\<lambda>p. Q (the (fmlookup vs p))) ?K) = {p. \<exists>v. fmlookup vs p = Some v \<and> Q v}"
    using sk by (force simp: fmlookup_dom'_iff)
  finally show ?thesis .
qed

lemma unat_total_stake_bounded:
  assumes "stake_of vs (members vs) < 2 ^ 64"
  shows "unat (total_stake vs) = stake_of vs (members vs)"
proof -
  let ?L = "filter v_active (vset_values vs)"
  have m: "{p. \<exists>v. fmlookup vs p = Some v \<and> v_active v} = members vs"
    by (auto simp: is_validator_def split: option.splits)
  have "sum_list (map unat (map v_stake ?L)) =
      (\<Sum>(p, v) \<leftarrow> filter (\<lambda>(p, v). v_active v) (sorted_list_of_fmap vs). unat (v_stake v))"
    by (simp add: vset_values_def filter_map o_def case_prod_beta')
  also have "\<dots> = (\<Sum>p \<in> members vs. unat (v_stake (the (fmlookup vs p))))"
    by (simp only: fmap_entries_sum m)
  also have "\<dots> = stake_of vs (members vs)"
    by (rule sum.cong) (auto simp: stake_at_def is_validator_def split: option.splits)
  finally show ?thesis
    using assms unat_sum_list_words [of "map v_stake ?L"] by (simp add: total_stake_def)
qed

lemma unat_total_stake: "vset_sound vs \<Longrightarrow> unat (total_stake vs) = stake_of vs (members vs)"
  using stake_of_le_dom [OF members_dom, of vs] by (intro unat_total_stake_bounded) (simp add: vset_sound_def)

lemma unat_quorum_threshold:
  assumes "vset_sound vs"
  shows "unat (quorum_threshold vs) = 2 * stake_of vs (members vs) div 3 + 1"
proof -
  have "2 * stake_of vs (members vs) < 2 ^ 64"
    using stake_of_le_dom [OF members_dom, of vs] assms by (simp add: vset_sound_def)
  then have "unat (total_stake vs * 2) = 2 * stake_of vs (members vs)"
    using unat_total_stake [OF assms] by (simp add: unat_word_ariths mult.commute)
  with \<open>2 * stake_of vs (members vs) < 2 ^ 64\<close> show ?thesis
    by (simp add: quorum_threshold_def Let_def unat_word_ariths unat_div)
qed

lemma unat_power:
  assumes "vset_sound vs" and "fmlookup t b = Some ps" and "distinct ps" and "set ps \<subseteq> fmdom' vs"
  shows "unat (power t b vs) = stake_of vs (set ps)"
proof -
  have "sum_list (map unat (map v_stake (List.map_filter (vset_get vs) ps))) = sum_list (map (stake_at vs) ps)"
    using assms(4) by (induction ps) (auto simp: vset_get_def stake_at_def fmlookup_dom'_iff split: option.splits)
  also have "\<dots> = stake_of vs (set ps)"
    using assms(3) by (simp add: sum_list_distinct_conv_sum_set)
  finally have eq: "sum_list (map unat (map v_stake (List.map_filter (vset_get vs) ps))) = stake_of vs (set ps)" .
  also have "\<dots> < 2 ^ 64"
    using stake_of_le_dom [OF assms(4)] assms(1) by (simp add: vset_sound_def)
  finally show ?thesis
    using eq unat_sum_list_words [of "map v_stake (List.map_filter (vset_get vs) ps)"] assms(2)
    by (simp add: power_def)
qed

section \<open>Quorums\<close>

text \<open>
  The interface of a stake-weighted quorum system, indexed by the validator set: any two quorums
  share members that hold more than a third of the stake.
\<close>

locale stake_quorum =
  fixes ok :: "'v \<Rightarrow> bool"
    and mem :: "'v \<Rightarrow> 'p set"
    and wt :: "'v \<Rightarrow> 'p \<Rightarrow> nat"
    and threshold :: "'v \<Rightarrow> nat"
  assumes fin: "ok v \<Longrightarrow> finite (mem v)"
    and threshold: "ok v \<Longrightarrow> threshold v = 2 * sum (wt v) (mem v) div 3 + 1"
begin

lemma intersection:
  assumes "ok v" and "A \<subseteq> mem v" and "B \<subseteq> mem v"
    and "threshold v \<le> sum (wt v) A" and "threshold v \<le> sum (wt v) B"
  shows "sum (wt v) (mem v) < 3 * sum (wt v) (A \<inter> B)"
proof -
  have "finite A" and "finite B"
    using assms(1-3) fin finite_subset by metis+
  then have "sum (wt v) (A \<union> B) + sum (wt v) (A \<inter> B) = sum (wt v) A + sum (wt v) B"
    by (rule sum.union_inter)
  moreover have "sum (wt v) (A \<union> B) \<le> sum (wt v) (mem v)"
    using assms(1-3) fin by (intro sum_mono2) auto
  ultimately show ?thesis
    using assms(4,5) threshold [OF assms(1)] by linarith
qed

lemma meet:
  assumes "ok v" and "A \<subseteq> mem v" and "B \<subseteq> mem v"
    and "threshold v \<le> sum (wt v) A" and "threshold v \<le> sum (wt v) B"
  shows "A \<inter> B \<noteq> {}"
  using intersection [OF assms] by auto

end

interpretation vq: stake_quorum vset_sound members stake_at "\<lambda>vs. unat (quorum_threshold vs)"
  by unfold_locales (simp_all add: unat_quorum_threshold)

section \<open>Invariants of the tally and of the engine\<close>

text \<open>
  A tally agrees with its record of who voted: every voter stands once, in the list of the block it
  is recorded for, and is an active validator.
\<close>

definition votes_ok :: "validator_set \<Rightarrow> tally \<Rightarrow> seen \<Rightarrow> bool" where
  "votes_ok vset t sn \<longleftrightarrow>
     (\<forall>b ps. fmlookup t b = Some ps \<longrightarrow>
        distinct ps \<and> (\<forall>p \<in> set ps. fmlookup sn p = Some b \<and> is_validator vset p)) \<and>
     (\<forall>p b. fmlookup sn p = Some b \<longrightarrow> (\<exists>ps. fmlookup t b = Some ps \<and> p \<in> set ps))"

definition vote_set_ok :: "validator_set \<Rightarrow> vote_set \<Rightarrow> bool" where
  "vote_set_ok vset vs \<longleftrightarrow>
     votes_ok vset (prevotes vs) (prevote_seen vs) \<and> votes_ok vset (precommits vs) (precommit_seen vs)"

definition round_quorum :: "validator_set \<Rightarrow> vote_set \<Rightarrow> hash \<Rightarrow> bool" where
  "round_quorum vset vs b \<longleftrightarrow> precommit_power vs b vset \<ge> quorum_threshold vset"

definition aurora_ok :: "aurora \<Rightarrow> bool" where
  "aurora_ok a \<longleftrightarrow>
     (\<forall>slot vs. fmlookup (au_rounds a) slot = Some vs \<longrightarrow> vote_set_ok (au_validators a) vs) \<and>
     (\<forall>h b. fmlookup (au_committed a) h = Some b \<longrightarrow>
        (\<exists>r vs. fmlookup (au_rounds a) (h, r) = Some vs \<and> round_quorum (au_validators a) vs b))"

lemma votes_ok_empty: "votes_ok vset fmempty fmempty"
  by (simp add: votes_ok_def)

lemma vote_set_new_ok: "vote_set_ok vset vote_set_new"
  by (simp add: vote_set_ok_def vote_set_new_def votes_ok_empty)

lemma votes_ok_push:
  assumes "votes_ok vset t sn" and "fmlookup sn p = None" and "is_validator vset p"
  shows "votes_ok vset (tally_push b p t) (fmupd p b sn)"
proof -
  have p: "p \<notin> set ps" if "fmlookup t c = Some ps" for c ps
    using assms(1,2) that unfolding votes_ok_def by fastforce
  show ?thesis
    unfolding votes_ok_def
  proof (intro conjI allI impI)
    fix c ps assume "fmlookup (tally_push b p t) c = Some ps"
    then show "distinct ps" and "\<forall>q \<in> set ps. fmlookup (fmupd p b sn) q = Some c \<and> is_validator vset q"
      using assms p unfolding votes_ok_def tally_push_def
      by (auto split: option.splits if_splits)
  next
    fix q c assume "fmlookup (fmupd p b sn) q = Some c"
    then show "\<exists>ps. fmlookup (tally_push b p t) c = Some ps \<and> q \<in> set ps"
      using assms(1) unfolding votes_ok_def tally_push_def
      by (auto split: option.splits if_splits) (metis option.distinct(1) option.inject)+
  qed
qed

lemma vote_set_add_cases:
  obtains (rejected) e where "vote_set_add v vset vs = (Inl e, vs)"
  | (repeated) "vote_set_add v vset vs = (Inr False, vs)"
  | (prevote) "vt_kind v = Prevote" "is_validator vset (vt_voter v)" "fmlookup (prevote_seen vs) (vt_voter v) = None"
      "vote_set_add v vset vs = (Inr True, vs\<lparr>prevote_seen := fmupd (vt_voter v) (vt_block_hash v) (prevote_seen vs),
         prevotes := tally_push (vt_block_hash v) (vt_voter v) (prevotes vs)\<rparr>)"
  | (precommit) "vt_kind v = Precommit" "is_validator vset (vt_voter v)" "fmlookup (precommit_seen vs) (vt_voter v) = None"
      "vote_set_add v vset vs = (Inr True, vs\<lparr>precommit_seen := fmupd (vt_voter v) (vt_block_hash v) (precommit_seen vs),
         precommits := tally_push (vt_block_hash v) (vt_voter v) (precommits vs)\<rparr>)"
  by (cases "vt_kind v"; cases "is_validator vset (vt_voter v)";
      cases "fmlookup (prevote_seen vs) (vt_voter v)"; cases "fmlookup (precommit_seen vs) (vt_voter v)";
      cases "fmlookup (prevote_seen vs) (vt_voter v) = Some (vt_block_hash v)";
      cases "fmlookup (precommit_seen vs) (vt_voter v) = Some (vt_block_hash v)")
    (auto simp: vote_set_add_def Let_def)

lemma vote_set_add_ok:
  assumes "vote_set_ok vset vs" and "vote_set_add v vset vs = (r, vs')"
  shows "vote_set_ok vset vs'"
  using assms by (cases rule: vote_set_add_cases [of v vset vs])
    (auto simp: vote_set_ok_def intro: votes_ok_push)

lemma vote_set_ok_voters:
  assumes "vote_set_ok vset vs" and "fmlookup (precommits vs) b = Some ps"
  shows "distinct ps" and "set ps \<subseteq> members vset"
  using assms unfolding vote_set_ok_def votes_ok_def by blast+

definition precommitted :: "vote_set \<Rightarrow> hash \<Rightarrow> party_id set" where
  "precommitted vs b = {p. fmlookup (precommit_seen vs) p = Some b}"

definition prevoted :: "vote_set \<Rightarrow> hash \<Rightarrow> party_id set" where
  "prevoted vs b = {p. fmlookup (prevote_seen vs) p = Some b}"

lemma votes_ok_power:
  assumes "vset_sound vset" and "votes_ok vset t sn"
  shows "unat (power t b vset) = stake_of vset {p. fmlookup sn p = Some b}"
    and "{p. fmlookup sn p = Some b} \<subseteq> members vset"
proof -
  have sub: "{p. fmlookup sn p = Some b} = (case fmlookup t b of None \<Rightarrow> {} | Some ps \<Rightarrow> set ps)"
    using assms(2) unfolding votes_ok_def by (fastforce split: option.splits)
  show "{p. fmlookup sn p = Some b} \<subseteq> members vset"
    using assms(2) unfolding votes_ok_def by fastforce
  show "unat (power t b vset) = stake_of vset {p. fmlookup sn p = Some b}"
  proof (cases "fmlookup t b")
    case None
    then show ?thesis by (simp add: sub power_def)
  next
    case (Some ps)
    moreover have "distinct ps" and "set ps \<subseteq> members vset"
      using assms(2) Some unfolding votes_ok_def by blast+
    ultimately show ?thesis
      using unat_power [OF assms(1) Some] members_dom by (fastforce simp: sub)
  qed
qed

lemma round_quorum_stake:
  assumes "vset_sound vset" and "vote_set_ok vset vs"
  shows "round_quorum vset vs b \<longleftrightarrow> unat (quorum_threshold vset) \<le> stake_of vset (precommitted vs b)"
    and "precommitted vs b \<subseteq> members vset"
  using votes_ok_power [OF assms(1), of "precommits vs" "precommit_seen vs" b] assms(2)
  by (auto simp: round_quorum_def precommit_power_def precommitted_def vote_set_ok_def word_le_nat_alt)

lemma prevote_power_stake:
  assumes "vset_sound vset" and "vote_set_ok vset vs"
  shows "unat (prevote_power vs b vset) = stake_of vset (prevoted vs b)" and "prevoted vs b \<subseteq> members vset"
  using votes_ok_power [OF assms(1), of "prevotes vs" "prevote_seen vs" b] assms(2)
  by (auto simp: prevote_power_def prevoted_def vote_set_ok_def)

lemma tally_vote_cases:
  obtains (frozen) c where "fmlookup (au_committed a) (vt_height v) = Some c" "tally_vote v a = (Ok AlreadyCommitted, a)"
  | (counted) e0 r e a1 where "fmlookup (au_committed a) (vt_height v) = None"
      "e0 = (case fmlookup (au_rounds a) (vt_height v, vt_round v) of None \<Rightarrow> vote_set_new | Some e \<Rightarrow> e)"
      "vote_set_add v (au_validators a) e0 = (r, e)"
      "a1 = a\<lparr>au_rounds := fmupd (vt_height v, vt_round v) e (au_rounds a)\<rparr>"
      "tally_vote v a = (case r of
         Inl er \<Rightarrow> (Err (VoteErr er), a1)
       | Inr is_new \<Rightarrow>
           if is_new \<and> vt_kind v = Precommit \<and> round_quorum (au_validators a) e (vt_block_hash v)
           then (Ok (Committed (vt_height v) (vt_block_hash v) (precommitters e (vt_block_hash v))
                   (precommit_power e (vt_block_hash v) (au_validators a))),
                 a1\<lparr>au_committed := fmupd (vt_height v) (vt_block_hash v) (au_committed a)\<rparr>)
           else (Ok Pending, a1))"
proof (cases "fmlookup (au_committed a) (vt_height v)")
  case None
  define e0 where "e0 = (case fmlookup (au_rounds a) (vt_height v, vt_round v) of None \<Rightarrow> vote_set_new | Some e \<Rightarrow> e)"
  obtain r e where add: "vote_set_add v (au_validators a) e0 = (r, e)" by force
  show ?thesis
    by (rule counted [OF None e0_def add refl])
      (use None in \<open>auto simp: tally_vote_def Let_def e0_def [symmetric] add round_quorum_def split: sum.splits\<close>)
qed (auto simp: tally_vote_def intro: frozen)

lemma aurora_ok_slot:
  assumes "aurora_ok a"
  shows "vote_set_ok (au_validators a) (case fmlookup (au_rounds a) slot of None \<Rightarrow> vote_set_new | Some e \<Rightarrow> e)"
  using assms unfolding aurora_ok_def by (cases "fmlookup (au_rounds a) slot") (auto simp: vote_set_new_ok simp del: split_paired_All)

lemma aurora_ok_new: "aurora_ok (aurora_new config vset me)"
  by (simp add: aurora_ok_def aurora_new_def)

lemma aurora_ok_round:
  assumes "aurora_ok a" and "vote_set_ok (au_validators a) e" and "fmlookup (au_committed a) h = None"
    and "a1 = a\<lparr>au_rounds := fmupd (h, r) e (au_rounds a)\<rparr>"
  shows "aurora_ok a1" and "round_quorum (au_validators a) e b \<Longrightarrow>
    aurora_ok (a1\<lparr>au_committed := fmupd h b (au_committed a)\<rparr>)"
  using assms unfolding aurora_ok_def by (auto, fastforce+)

lemma tally_vote_ok:
  assumes "aurora_ok a" and "tally_vote v a = (r, a')"
  shows "aurora_ok a' \<and> au_validators a' = au_validators a"
proof (cases rule: tally_vote_cases [of a v])
  case frozen
  with assms show ?thesis by simp
next
  case (counted e0 res e a1)
  have "vote_set_ok (au_validators a) e"
    using vote_set_add_ok [OF _ counted(3)] aurora_ok_slot [OF assms(1)] counted(2) by simp
  from aurora_ok_round [OF assms(1) this counted(1,4)] show ?thesis
    using assms(2) unfolding counted(5) by (auto simp: counted(4) split: sum.splits if_splits)
qed

lemma prune_below_ok: "aurora_ok a \<Longrightarrow> aurora_ok (prune_below height a)"
  unfolding aurora_ok_def prune_below_def by (auto split: if_splits)

text \<open>
  The runs of an engine while its validator set does not change: votes from the network, its own
  votes, and pruning.
\<close>

inductive voting :: "'x identity_ext_scheme \<Rightarrow> aurora \<Rightarrow> aurora \<Rightarrow> bool" for X a0 where
  start: "voting X a0 a0"
| vote: "voting X a0 a \<Longrightarrow> add_vote X v a = (r, a') \<Longrightarrow> voting X a0 a'"
| local_vote: "voting X a0 a \<Longrightarrow> add_local_vote v a = (r, a') \<Longrightarrow> voting X a0 a'"
| prune: "voting X a0 a \<Longrightarrow> voting X a0 (prune_below height a)"

lemma add_vote_tally: "add_vote X v a = (r, a') \<Longrightarrow> a' = a \<or> tally_vote v a = (r, a')"
  by (auto simp: add_vote_def split: option.splits sum.splits if_splits)

lemma add_local_vote_tally: "add_local_vote v a = (r, a') \<Longrightarrow> a' = a \<or> tally_vote v a = (r, a')"
  by (auto simp: add_local_vote_def split: if_splits)

lemma voting_ok: "voting X a0 a \<Longrightarrow> aurora_ok a0 \<Longrightarrow> aurora_ok a \<and> au_validators a = au_validators a0"
proof (induction rule: voting.induct)
  case (vote a v r a')
  then show ?case using add_vote_tally [OF vote.hyps(2)] tally_vote_ok by metis
next
  case (local_vote a v r a')
  then show ?case using add_local_vote_tally [OF local_vote.hyps(2)] tally_vote_ok by metis
next
  case (prune a height)
  then show ?case by (simp add: prune_below_ok) (simp add: prune_below_def)
qed simp

section \<open>Collecting precommits\<close>

definition round_of :: "aurora \<Rightarrow> u64 \<times> u32 \<Rightarrow> vote_set" where
  "round_of a slot = (case fmlookup (au_rounds a) slot of None \<Rightarrow> vote_set_new | Some e \<Rightarrow> e)"

text \<open>A node feeds the votes it receives to \<open>add_vote\<close> one after the other, ignoring rejections.\<close>

fun add_votes :: "'x identity_ext_scheme \<Rightarrow> vote list \<Rightarrow> aurora \<Rightarrow> aurora" where
  "add_votes X [] a = a"
| "add_votes X (v # vs) a = add_votes X vs (snd (add_vote X v a))"

definition authentic :: "'x identity_ext_scheme \<Rightarrow> validator_set \<Rightarrow> vote \<Rightarrow> bool" where
  "authentic X vset v \<longleftrightarrow> vt_signature v \<noteq> [] \<and> (\<exists>w. fmlookup vset (vt_voter v) = Some w \<and>
     verify_bytes X (v_public_key w) (vote_signing_bytes v) (vt_signature v) = Inr ())"

lemma add_vote_authentic: "authentic X (au_validators a) v \<Longrightarrow> add_vote X v a = tally_vote v a"
  by (auto simp: add_vote_def authentic_def vset_get_def)

lemma add_vote_changes:
  assumes "add_vote X v a = (r, a')" and "a' \<noteq> a \<or> (\<exists>x. r = Ok x)"
  shows "authentic X (au_validators a) v"
  using assms by (auto simp: add_vote_def authentic_def vset_get_def split: option.splits sum.splits if_splits)

lemma tally_vote_committed:
  assumes "fmlookup (au_committed a) h = Some b" and "tally_vote v a = (r, a')"
  shows "fmlookup (au_committed a') h = Some b"
  using assms
  by (cases rule: tally_vote_cases [of a v]) (auto split: sum.splits if_splits)

lemma add_vote_committed:
  "fmlookup (au_committed a) h = Some b \<Longrightarrow> add_vote X v a = (r, a') \<Longrightarrow> fmlookup (au_committed a') h = Some b"
  using add_vote_tally tally_vote_committed by metis

lemma add_votes_committed:
  "fmlookup (au_committed a) h = Some b \<Longrightarrow> fmlookup (au_committed (add_votes X vs a)) h = Some b"
  by (induction vs arbitrary: a) (auto intro: add_vote_committed prod.collapse [symmetric])

lemma tally_vote_fresh:
  assumes "aurora_ok a" and "fmlookup (au_committed a) (vt_height v) = None" and "vt_kind v = Precommit"
    and "is_validator (au_validators a) (vt_voter v)"
    and "fmlookup (precommit_seen (round_of a (vt_height v, vt_round v))) (vt_voter v) = None"
    and "tally_vote v a = (r, a')"
  shows "precommit_seen (round_of a' (vt_height v, vt_round v)) =
      fmupd (vt_voter v) (vt_block_hash v) (precommit_seen (round_of a (vt_height v, vt_round v)))"
    and "fmlookup (au_committed a') (vt_height v) =
      (if round_quorum (au_validators a) (round_of a' (vt_height v, vt_round v)) (vt_block_hash v)
       then Some (vt_block_hash v) else None)"
proof -
  let ?slot = "(vt_height v, vt_round v)"
  obtain c res e a1 where counted: "vote_set_add v (au_validators a) (round_of a ?slot) = (res, e)"
    "a1 = a\<lparr>au_rounds := fmupd ?slot e (au_rounds a)\<rparr>"
    "tally_vote v a = (case res of Inl er \<Rightarrow> (Err (VoteErr er), a1)
       | Inr is_new \<Rightarrow>
           if is_new \<and> vt_kind v = Precommit \<and> round_quorum (au_validators a) e (vt_block_hash v)
           then (Ok c, a1\<lparr>au_committed := fmupd (vt_height v) (vt_block_hash v) (au_committed a)\<rparr>)
           else (Ok Pending, a1))"
  proof (cases rule: tally_vote_cases [of a v])
    case (counted e0 res e a1)
    show ?thesis
      by (rule that [OF _ counted(4,5)]) (use counted(2,3) in \<open>simp add: round_of_def\<close>)
  qed (use assms(2) in simp)
  have add: "res = Inr True" "precommit_seen e = fmupd (vt_voter v) (vt_block_hash v) (precommit_seen (round_of a ?slot))"
    using counted(1) assms(3-5) by (auto simp: vote_set_add_def Let_def)
  have slot: "round_of a' ?slot = e"
    using assms(6) counted(2) by (auto simp: counted(3) add(1) round_of_def split: if_splits)
  show "precommit_seen (round_of a' ?slot) =
      fmupd (vt_voter v) (vt_block_hash v) (precommit_seen (round_of a ?slot))"
    unfolding slot by (rule add(2))
  show "fmlookup (au_committed a') (vt_height v) =
      (if round_quorum (au_validators a) (round_of a' ?slot) (vt_block_hash v) then Some (vt_block_hash v) else None)"
    unfolding slot using assms(2,3,6) counted(2) by (auto simp: counted(3) add(1) split: if_splits)
qed

lemma round_of_ok: "aurora_ok a \<Longrightarrow> vote_set_ok (au_validators a) (round_of a slot)"
  unfolding round_of_def by (rule aurora_ok_slot)

text \<open>The precommits still to come complete the quorum, or it is complete already.\<close>

lemma add_votes_commits:
  assumes "aurora_ok a" and "vset_sound (au_validators a)" and "votes \<noteq> []" and "fmlookup (au_committed a) h = None"
    and "\<forall>v \<in> set votes. vt_height v = h \<and> vt_round v = r \<and> vt_block_hash v = b \<and> vt_kind v = Precommit \<and>
      authentic X (au_validators a) v \<and> is_validator (au_validators a) (vt_voter v) \<and>
      fmlookup (precommit_seen (round_of a (h, r))) (vt_voter v) = None"
    and "distinct (map vt_voter votes)"
    and "unat (quorum_threshold (au_validators a)) \<le>
      stake_of (au_validators a) (precommitted (round_of a (h, r)) b \<union> vt_voter ` set votes)"
  shows "fmlookup (au_committed (add_votes X votes a)) h = Some b"
  using assms
proof (induction votes arbitrary: a)
  case (Cons v votes)
  obtain res a' where run: "tally_vote v a = (res, a')" by force
  have v: "vt_height v = h" "vt_round v = r" "vt_block_hash v = b" "vt_kind v = Precommit"
    "is_validator (au_validators a) (vt_voter v)" "fmlookup (precommit_seen (round_of a (h, r))) (vt_voter v) = None"
    "add_vote X v a = (res, a')"
    using Cons.prems(5) run by (simp_all add: add_vote_authentic)
  have ok: "aurora_ok a'" and val: "au_validators a' = au_validators a"
    using tally_vote_ok [OF Cons.prems(1) run] by simp_all
  have seen: "precommit_seen (round_of a' (h, r)) = fmupd (vt_voter v) b (precommit_seen (round_of a (h, r)))"
    and com: "fmlookup (au_committed a') h =
      (if round_quorum (au_validators a) (round_of a' (h, r)) b then Some b else None)"
    using tally_vote_fresh [OF Cons.prems(1) _ v(4,5) _ run] Cons.prems(4) v by simp_all
  have pre: "precommitted (round_of a' (h, r)) b = insert (vt_voter v) (precommitted (round_of a (h, r)) b)"
    by (auto simp: precommitted_def seen)
  show ?case
  proof (cases "fmlookup (au_committed a') h = Some b")
    case True
    then show ?thesis by (simp add: v(7) add_votes_committed)
  next
    case False
    then have none: "fmlookup (au_committed a') h = None" and nq: "\<not> round_quorum (au_validators a) (round_of a' (h, r)) b"
      using com by (auto split: if_splits)
    then have "votes \<noteq> []"
      using Cons.prems(7) round_quorum_stake(1) [OF Cons.prems(2)] round_of_ok [OF ok] by (auto simp: val pre)
    moreover have "fmlookup (precommit_seen (round_of a' (h, r))) (vt_voter w) = None" if "w \<in> set votes" for w
      using that Cons.prems(5,6) by (auto simp: seen)
    moreover have "fmlookup (au_committed (add_votes X votes a')) h = Some b"
      by (rule Cons.IH [OF ok _ \<open>votes \<noteq> []\<close> none])
        (use Cons.prems(2,5,6,7) calculation in \<open>simp_all add: val pre\<close>)
    ultimately show ?thesis by (simp add: v(7))
  qed
qed simp

section \<open>Proposers\<close>

lemma vset_active_parties:
  assumes "vset_sound vs"
  shows "set (map v_party (vset_active vs)) = members vs" and "distinct (map v_party (vset_active vs))"
    and "length (vset_active vs) = active_count vs"
proof -
  let ?A = "filter v_active (vset_values vs)"
  have key: "map fst (sorted_list_of_fmap vs) = map v_party (vset_values vs)"
    using assms by (auto simp: vset_values_def sorted_list_of_fmap_def vset_sound_def fmlookup_dom_iff
        sorted_list_of_fset.rep_eq)
  have dist: "distinct (map v_party (vset_values vs))"
    unfolding key [symmetric] sorted_list_of_fmap_keys by (simp add: sorted_list_of_fset.rep_eq)
  have "distinct (map v_party ?A)"
    using dist by (rule distinct_map_filter)
  moreover have "set (map v_party ?A) = members vs"
    using assms unfolding vset_sound_def
    by (force simp: vset_values_def sorted_list_of_fmap_def is_validator_def fmlookup_dom_iff
        sorted_list_of_fset.rep_eq split: option.splits)
  ultimately show "set (map v_party (vset_active vs)) = members vs" and "distinct (map v_party (vset_active vs))"
    and "length (vset_active vs) = active_count vs"
    by (simp_all add: vset_active_def active_count_def distinct_map inj_on_def)
qed

lemma rotate_covers: "0 < n \<Longrightarrow> (\<lambda>i. (b + i) mod n) ` {..<n} = {..<(n::nat)}"
proof (intro subset_antisym subsetI)
  fix k assume "0 < n" and "k \<in> {..<n}"
  let ?i = "(k + (n - b mod n)) mod n"
  have "(b + ?i) mod n = (b mod n + (k + (n - b mod n))) mod n"
    by (simp add: mod_simps)
  also have "b mod n + (k + (n - b mod n)) = k + n"
    using mod_less_divisor [OF \<open>0 < n\<close>, of b] by simp
  also have "(k + n) mod n = k"
    using \<open>k \<in> {..<n}\<close> by simp
  finally show "k \<in> (\<lambda>i. (b + i) mod n) ` {..<n}"
    using \<open>0 < n\<close> by (intro image_eqI [where x = ?i]) auto
qed auto

lemma proposer_for_index:
  assumes "vset_active vs \<noteq> []" and "unat (h * 31) + unat r + length (vset_active vs) < 2 ^ 64"
    and "unat r + length (vset_active vs) < 2 ^ 32" and "i < length (vset_active vs)"
  shows "proposer_for vs h (r + of_nat i) =
    Some (v_party (vset_active vs ! ((unat (h * 31) + unat r + i) mod length (vset_active vs))))"
proof -
  let ?n = "length (vset_active vs)"
  have "unat (r + of_nat i) = unat r + i"
    using assms(3,4) by (simp add: unat_word_ariths unat_of_nat take_bit_nat_eq_self)
  then have u: "unat (ucast (r + of_nat i) :: u64) = unat r + i"
    using assms(2,4) by (simp add: unsigned_ucast_eq take_bit_nat_eq_self)
  have "unat (h * 31 + ucast (r + of_nat i) :: u64) = unat (h * 31) + unat r + i"
    using assms(2,4) unfolding unat_word_ariths(1) u by simp
  then have "unat ((h * 31 + ucast (r + of_nat i)) mod of_nat ?n :: u64) = (unat (h * 31) + unat r + i) mod ?n"
    using assms(2) by (simp add: unat_mod unat_of_nat take_bit_nat_eq_self)
  then show ?thesis
    using assms(1) by (simp add: proposer_for_def Let_def)
qed

section \<open>Jailing\<close>

lemma record_missed_lookup:
  "fmlookup (record_missed p j vs) q = (if p = q
     then map_option (\<lambda>v. v\<lparr>v_missed := v_missed v + 1, v_active := (if v_missed v + 1 \<ge> j then False else v_active v)\<rparr>)
            (fmlookup vs p)
     else fmlookup vs q)"
  by (auto simp: record_missed_def Let_def split: option.splits)

lemma record_missed_stake [simp]: "stake_at (record_missed p j vs) q = stake_at vs q"
  by (auto simp: stake_at_def record_missed_lookup split: option.splits)

lemma record_missed_members:
  "members (record_missed p j vs) = (if (\<exists>v. fmlookup vs p = Some v \<and> v_missed v + 1 \<ge> j) then members vs - {p} else members vs)"
  by (auto simp: is_validator_def record_missed_lookup split: option.splits if_splits)

lemma record_missed_dom: "fmdom' (record_missed p j vs) = fmdom' vs"
  by (auto simp: fmlookup_dom'_iff record_missed_lookup split: if_splits)

lemma record_missed_sound: "vset_sound vs \<Longrightarrow> vset_sound (record_missed p j vs)"
  by (auto simp: vset_sound_def record_missed_dom record_missed_lookup split: if_splits)

lemma record_missed_power [simp]: "power t b (record_missed p j vs) = power t b vs"
proof -
  have "map v_stake (List.map_filter (vset_get (record_missed p j vs)) ps) = map v_stake (List.map_filter (vset_get vs) ps)" for ps
    by (induction ps) (auto simp: vset_get_def record_missed_lookup split: option.splits)
  then show ?thesis by (simp add: power_def split: option.splits)
qed

section \<open>A concrete validator set\<close>

definition alice_validator :: validator where
  "alice_validator = validator_new (PartyId ''alice'') (public_key ref_identity_ext (from_seed ''alice'' [1])) 10"

definition bob_validator :: validator where
  "bob_validator = validator_new (PartyId ''bob'') (public_key ref_identity_ext (from_seed ''bob'' [2])) 10"

definition demo_vset :: validator_set where
  "demo_vset = vset_add bob_validator (vset_add alice_validator vset_new)"

definition demo_precommit :: "party_id \<Rightarrow> bytes \<Rightarrow> hash \<Rightarrow> vote" where
  "demo_precommit who seed b =
     (let v = \<lparr>vt_height = 1, vt_round = 0, vt_block_hash = b, vt_voter = who, vt_kind = Precommit, vt_signature = []\<rparr>
      in v\<lparr>vt_signature := sign_bytes ref_identity_ext (from_seed (party_name who) seed) (vote_signing_bytes v)\<rparr>)"

definition demo_votes :: "hash \<Rightarrow> vote list" where
  "demo_votes b = [demo_precommit (PartyId ''alice'') [1] b, demo_precommit (PartyId ''bob'') [2] b]"

definition demo_engine :: aurora where
  "demo_engine = aurora_new default_config demo_vset None"

definition whale_vset :: validator_set where
  "whale_vset = vset_add (validator_new (PartyId ''minnow'') [] 1) (vset_add (validator_new (PartyId ''whale'') [] (2 ^ 63)) vset_new)"

lemma demo_vset_lookup [simp]:
  "fmlookup demo_vset p = (if p = PartyId ''bob'' then Some bob_validator
     else if p = PartyId ''alice'' then Some alice_validator else None)"
  by (simp add: demo_vset_def vset_add_def vset_new_def alice_validator_def bob_validator_def validator_new_def)

lemma demo_vset_dom: "fmdom' demo_vset = {PartyId ''alice'', PartyId ''bob''}"
  by (auto simp: demo_vset_def vset_add_def vset_new_def alice_validator_def bob_validator_def validator_new_def)

lemma demo_vset_stake [simp]: "stake_at demo_vset p = (if p \<in> {PartyId ''alice'', PartyId ''bob''} then 10 else 0)"
  by (simp add: stake_at_def alice_validator_def bob_validator_def validator_new_def)

lemma demo_vset_members [simp]: "is_validator demo_vset p \<longleftrightarrow> p \<in> {PartyId ''alice'', PartyId ''bob''}"
  by (auto simp: is_validator_def alice_validator_def bob_validator_def validator_new_def)

lemma demo_vset_sound: "vset_sound demo_vset"
  unfolding vset_sound_def demo_vset_dom
  by (auto simp: alice_validator_def bob_validator_def validator_new_def)

lemma demo_threshold: "unat (quorum_threshold demo_vset) = 14"
proof -
  have "members demo_vset = {PartyId ''alice'', PartyId ''bob''}" by auto
  then show ?thesis by (simp add: unat_quorum_threshold [OF demo_vset_sound])
qed

lemma vote_signing_bytes_unsigned [simp]: "vote_signing_bytes (v\<lparr>vt_signature := s\<rparr>) = vote_signing_bytes v"
  by (simp add: vote_signing_bytes_def)

lemma authentic_signed:
  assumes "identity_ext_ok X" and "fmlookup vset (vt_voter v) = Some w" and "v_public_key w = public_key X i"
    and "vt_signature v = sign_bytes X i (vote_signing_bytes v)"
  shows "authentic X vset v"
proof -
  have "length (vt_signature v) = 64"
    using assms(1,4) by (simp add: sign_bytes_def identity_ext_okD)
  then have "vt_signature v \<noteq> []" by auto
  with assms verify_sign_bytes [OF assms(1), of i "vote_signing_bytes v"] show ?thesis
    by (auto simp: authentic_def)
qed

lemma demo_precommit_sel [simp]:
  "vt_height (demo_precommit p s b) = 1" "vt_round (demo_precommit p s b) = 0"
  "vt_block_hash (demo_precommit p s b) = b" "vt_voter (demo_precommit p s b) = p"
  "vt_kind (demo_precommit p s b) = Precommit"
  by (simp_all add: demo_precommit_def Let_def)

lemma demo_precommit_signature:
  "vt_signature (demo_precommit p s b) =
     sign_bytes ref_identity_ext (from_seed (party_name p) s) (vote_signing_bytes (demo_precommit p s b))"
  unfolding demo_precommit_def Let_def vote_signing_bytes_unsigned by simp

lemma demo_validator_keys:
  "v_public_key alice_validator = public_key ref_identity_ext (from_seed ''alice'' [1])"
  "v_public_key bob_validator = public_key ref_identity_ext (from_seed ''bob'' [2])"
  unfolding alice_validator_def bob_validator_def validator_new_def by (simp_all only: validator.select_convs)

lemma demo_votes_authentic:
  assumes "v \<in> set (demo_votes b)"
  shows "authentic ref_identity_ext demo_vset v"
proof -
  have "v = demo_precommit (PartyId ''alice'') [1] b \<or> v = demo_precommit (PartyId ''bob'') [2] b"
    using assms by (simp add: demo_votes_def)
  then show ?thesis
    using demo_validator_keys demo_precommit_signature
    by (elim disjE) (auto intro!: authentic_signed [OF ref_identity_ext_ok])
qed

section \<open>Properties\<close>

definition committed_in :: "aurora \<Rightarrow> u64 \<Rightarrow> u32 \<Rightarrow> hash \<Rightarrow> bool" where
  "committed_in a h r b \<longleftrightarrow> is_committed a h = Some b \<and> round_quorum (au_validators a) (round_of a (h, r)) b"


lemma demo_commits: "is_committed (add_votes ref_identity_ext (demo_votes b) demo_engine) 1 = Some b"
  unfolding is_committed_def
proof (rule add_votes_commits [where r = 0])
  show "aurora_ok demo_engine" unfolding demo_engine_def by (rule aurora_ok_new)
  have V: "au_validators demo_engine = demo_vset" by (simp add: demo_engine_def aurora_new_def)
  have R: "round_of demo_engine (1, 0) = vote_set_new" by (simp add: demo_engine_def aurora_new_def round_of_def)
  show "vset_sound (au_validators demo_engine)" by (simp add: V demo_vset_sound)
  show "\<forall>v \<in> set (demo_votes b). vt_height v = 1 \<and> vt_round v = 0 \<and> vt_block_hash v = b \<and> vt_kind v = Precommit \<and>
      authentic ref_identity_ext (au_validators demo_engine) v \<and> is_validator (au_validators demo_engine) (vt_voter v) \<and>
      fmlookup (precommit_seen (round_of demo_engine (1, 0))) (vt_voter v) = None"
    using demo_votes_authentic [of _ b] by (auto simp: V R vote_set_new_def demo_votes_def)
  show "unat (quorum_threshold (au_validators demo_engine)) \<le>
      stake_of (au_validators demo_engine) (precommitted (round_of demo_engine (1, 0)) b \<union> vt_voter ` set (demo_votes b))"
    by (simp add: V R demo_threshold precommitted_def vote_set_new_def demo_votes_def)
qed (simp_all add: demo_votes_def demo_engine_def aurora_new_def)

lemma voting_add_votes: "voting X a0 a \<Longrightarrow> voting X a0 (add_votes X vs a)"
  by (induction vs arbitrary: a) (auto intro: voting.vote prod.collapse [symmetric])

lemma committed_round:
  assumes "aurora_ok a" and "is_committed a h = Some b"
  obtains r where "committed_in a h r b"
proof -
  obtain r vs where "fmlookup (au_rounds a) (h, r) = Some vs" and "round_quorum (au_validators a) vs b"
    using assms unfolding aurora_ok_def is_committed_def by blast
  with assms(2) have "committed_in a h r b" by (simp add: committed_in_def round_of_def)
  then show ?thesis by (rule that)
qed

lemma tally_vote_other_slot:
  "tally_vote v a = (r, a') \<Longrightarrow> slot \<noteq> (vt_height v, vt_round v) \<Longrightarrow> round_of a' slot = round_of a slot"
  by (cases rule: tally_vote_cases [of a v]) (auto simp: round_of_def split: sum.splits if_splits)

lemma add_votes_other_slot:
  "\<forall>v \<in> set vs. slot \<noteq> (vt_height v, vt_round v) \<Longrightarrow> round_of (add_votes X vs a) slot = round_of a slot"
proof (induction vs arbitrary: a)
  case (Cons v vs)
  obtain r a' where run: "add_vote X v a = (r, a')" by force
  then have "round_of a' slot = round_of a slot"
    using add_vote_tally [OF run] tally_vote_other_slot [of v a r a' slot] Cons.prems by auto
  with Cons run show ?case by simp
qed simp

lemma demo_committed_in: "committed_in (add_votes ref_identity_ext (demo_votes b) demo_engine) 1 0 b"
proof -
  let ?a = "add_votes ref_identity_ext (demo_votes b) demo_engine"
  have ok: "aurora_ok ?a" "au_validators ?a = demo_vset"
  proof -
    have "voting ref_identity_ext demo_engine ?a" by (intro voting_add_votes voting.start)
    then show "aurora_ok ?a" "au_validators ?a = demo_vset"
      using voting_ok [of ref_identity_ext demo_engine ?a] aurora_ok_new [of default_config demo_vset None]
      unfolding demo_engine_def by (simp, simp add: aurora_new_def)
  qed
  obtain r where r: "committed_in ?a 1 r b"
    using committed_round [OF ok(1) demo_commits] .
  have "r = 0"
  proof (rule ccontr)
    assume "r \<noteq> 0"
    then have "round_of ?a (1, r) = vote_set_new"
      by (subst add_votes_other_slot) (auto simp: demo_votes_def demo_engine_def aurora_new_def round_of_def)
    with r ok(2) demo_threshold show False
      by (simp add: committed_in_def round_quorum_def precommit_power_def power_def vote_set_new_def)
  qed
  with r show ?thesis by simp
qed


text \<open>
  C2. A commit is backed by a quorum. In every run of an engine with a fixed validator set that is indexed by party and whose total stake is
  below \<open>2 ^ 63\<close> (so that the threshold does not wrap), a committed
  block has, in some round of its height, precommits of distinct active validators that hold more
  than two thirds of the stake, and no other block of that round has a quorum.
\<close>

theorem commit_backed_by_quorum:
  assumes "vset_sound V" and "voting X (aurora_new c V me) a" and "is_committed a h = Some b"
  shows "\<exists>r. 2 * stake_of V (members V) < 3 * stake_of V (precommitted (round_of a (h, r)) b) \<and>
    precommitted (round_of a (h, r)) b \<subseteq> members V \<and>
    (\<forall>b'. round_quorum V (round_of a (h, r)) b' \<longrightarrow> b' = b)"
proof -
  have ok: "aurora_ok a" "au_validators a = V"
    using voting_ok [OF assms(2) aurora_ok_new] by (simp_all add: aurora_new_def)
  obtain r where r: "committed_in a h r b"
    using committed_round [OF ok(1) assms(3)] .
  let ?e = "round_of a (h, r)"
  have e: "vote_set_ok V ?e" using round_of_ok [OF ok(1)] ok(2) by simp
  note q = round_quorum_stake [OF assms(1) e]
  have b: "unat (quorum_threshold V) \<le> stake_of V (precommitted ?e b)"
    using r ok(2) by (simp add: committed_in_def q)
  moreover have "b' = b" if "round_quorum V ?e b'" for b'
  proof -
    have "precommitted ?e b' \<inter> precommitted ?e b \<noteq> {}"
      using that by (intro vq.meet [OF assms(1) q(2) q(2) _ b]) (simp add: q(1))
    then show ?thesis by (auto simp: precommitted_def)
  qed
  ultimately show ?thesis
    using q(2) unat_quorum_threshold [OF assms(1)] by (intro exI [of _ r]) auto
qed

theorem commit_backed_by_quorum_witness:
  "\<exists>r. 2 * stake_of demo_vset (members demo_vset) <
      3 * stake_of demo_vset (precommitted (round_of (add_votes ref_identity_ext (demo_votes ZERO) demo_engine) (1, r)) ZERO)"
  using commit_backed_by_quorum [OF demo_vset_sound voting_add_votes [OF voting.start] demo_commits [unfolded demo_engine_def]]
  unfolding demo_engine_def by blast

text \<open>
  C3. Liveness of the tally. Take an engine whose recorded votes come from members of its current validator set, as in every run with
  a fixed set (jailing a validator can end this), and whose set is indexed by party with a total stake below \<open>2 ^ 63\<close>, so that neither
  the sum nor the threshold wraps. When one or more precommits for one block arrive at an uncommitted height from
  distinct active validators who have not yet precommitted in that round, carry valid signatures
  and together with the precommits already counted for the block reach the threshold, the engine
  commits the block, whatever the order of arrival.
\<close>

theorem quorum_commits:
  assumes "aurora_ok a" and "vset_sound (au_validators a)" and "votes \<noteq> []" and "is_committed a h = None"
    and "\<forall>v \<in> set votes. vt_height v = h \<and> vt_round v = r \<and> vt_block_hash v = b \<and> vt_kind v = Precommit \<and>
      authentic X (au_validators a) v \<and> is_validator (au_validators a) (vt_voter v) \<and>
      fmlookup (precommit_seen (round_of a (h, r))) (vt_voter v) = None"
    and "distinct (map vt_voter votes)"
    and "unat (quorum_threshold (au_validators a)) \<le>
      stake_of (au_validators a) (precommitted (round_of a (h, r)) b \<union> vt_voter ` set votes)"
  shows "is_committed (add_votes X votes a) h = Some b"
  using assms unfolding is_committed_def by (rule add_votes_commits)

theorem quorum_commits_witness: "is_committed (add_votes ref_identity_ext (demo_votes ZERO) demo_engine) 1 = Some ZERO"
proof (rule quorum_commits [where r = 0])
  have V: "au_validators demo_engine = demo_vset" by (simp add: demo_engine_def aurora_new_def)
  have R: "round_of demo_engine (1, 0) = vote_set_new" by (simp add: demo_engine_def aurora_new_def round_of_def)
  show "aurora_ok demo_engine" unfolding demo_engine_def by (rule aurora_ok_new)
  show "vset_sound (au_validators demo_engine)" by (simp add: V demo_vset_sound)
  show "\<forall>v \<in> set (demo_votes ZERO). vt_height v = 1 \<and> vt_round v = 0 \<and> vt_block_hash v = ZERO \<and> vt_kind v = Precommit \<and>
      authentic ref_identity_ext (au_validators demo_engine) v \<and> is_validator (au_validators demo_engine) (vt_voter v) \<and>
      fmlookup (precommit_seen (round_of demo_engine (1, 0))) (vt_voter v) = None"
    using demo_votes_authentic [of _ ZERO] by (auto simp: V R vote_set_new_def demo_votes_def)
  show "unat (quorum_threshold (au_validators demo_engine)) \<le>
      stake_of (au_validators demo_engine) (precommitted (round_of demo_engine (1, 0)) ZERO \<union> vt_voter ` set (demo_votes ZERO))"
    by (simp add: V R demo_threshold precommitted_def vote_set_new_def demo_votes_def)
qed (simp_all add: demo_votes_def demo_engine_def aurora_new_def is_committed_def)

text \<open>
  Votes are authenticated and counted once. A vote from the network changes the engine, or is
  answered without an error, only if it carries a signature that verifies under the key registered
  for its voter; a commit once made is never replaced by a later vote; and a second precommit of the
  same voter in a round adds nothing to any block.
\<close>

theorem add_vote_safe:
  assumes "add_vote X v a = (r, a')"
  shows "(a' \<noteq> a \<or> (\<exists>x. r = Ok x) \<longrightarrow> authentic X (au_validators a) v) \<and>
    (is_committed a h = Some b \<longrightarrow> is_committed a' h = Some b) \<and>
    (vt_kind v = Precommit \<and> fmlookup (precommit_seen (round_of a (vt_height v, vt_round v))) (vt_voter v) = Some c \<longrightarrow>
       round_of a' (vt_height v, vt_round v) = round_of a (vt_height v, vt_round v))"
proof (intro conjI impI)
  show "authentic X (au_validators a) v" if "a' \<noteq> a \<or> (\<exists>x. r = Ok x)"
    using add_vote_changes [OF assms that] .
  show "is_committed a' h = Some b" if "is_committed a h = Some b"
    using that add_vote_committed [OF _ assms] by (simp add: is_committed_def)
  let ?slot = "(vt_height v, vt_round v)"
  assume seen: "vt_kind v = Precommit \<and> fmlookup (precommit_seen (round_of a ?slot)) (vt_voter v) = Some c"
  then have same: "snd (vote_set_add v vset (round_of a ?slot)) = round_of a ?slot" for vset
    by (simp add: vote_set_add_def Let_def)
  show "round_of a' ?slot = round_of a ?slot"
    using add_vote_tally [OF assms]
  proof
    assume "tally_vote v a = (r, a')"
    then show ?thesis
      using same [of "au_validators a"]
      by (cases rule: tally_vote_cases [of a v]) (auto simp: round_of_def split: sum.splits if_splits)
  qed simp
qed

theorem add_vote_safe_witness:
  "authentic ref_identity_ext demo_vset (demo_precommit (PartyId ''alice'') [1] ZERO)"
proof -
  let ?v = "demo_precommit (PartyId ''alice'') [1] ZERO"
  obtain r a' where run: "add_vote ref_identity_ext ?v demo_engine = (r, a')" by force
  have V: "au_validators demo_engine = demo_vset" by (simp add: demo_engine_def aurora_new_def)
  have "add_vote ref_identity_ext ?v demo_engine = tally_vote ?v demo_engine"
    by (rule add_vote_authentic) (simp add: V demo_votes_authentic [of _ ZERO] demo_votes_def)
  moreover have "\<exists>x a'. tally_vote ?v demo_engine = (Ok x, a')"
    by (simp add: tally_vote_def demo_engine_def aurora_new_def vote_set_add_def vote_set_new_def Let_def)
  ultimately have "\<exists>x. r = Ok x" using run by auto
  then show ?thesis
    using add_vote_safe [OF run] V by simp
qed

text \<open>
  Proposer rotation is fair. While the seed does not wrap around, the proposers of as many
  consecutive rounds of a height as there are active validators are exactly the active validators,
  each once.
\<close>

theorem proposers_rotate:
  assumes "vset_sound vs" and "0 < active_count vs"
    and "unat (h * 31) + unat r + active_count vs < 2 ^ 64" and "unat r + active_count vs < 2 ^ 32"
  shows "(\<lambda>i. proposer_for vs h (r + of_nat i)) ` {..<active_count vs} = Some ` members vs \<and>
    inj_on (\<lambda>i. proposer_for vs h (r + of_nat i)) {..<active_count vs}"
proof -
  let ?n = "active_count vs" and ?A = "map v_party (vset_active vs)"
  note A = vset_active_parties [OF assms(1)]
  have ne: "vset_active vs \<noteq> []" using A(3) assms(2) by auto
  have p: "proposer_for vs h (r + of_nat i) = Some (?A ! ((unat (h * 31) + unat r + i) mod ?n))" if "i < ?n" for i
    using proposer_for_index [OF ne, of h r i] assms(2-4) that by (simp add: A(3))
  have "(\<lambda>i. proposer_for vs h (r + of_nat i)) ` {..<?n} =
      Some ` (\<lambda>k. ?A ! k) ` (\<lambda>i. (unat (h * 31) + unat r + i) mod ?n) ` {..<?n}"
    unfolding image_image by (rule image_cong) (simp_all add: p)
  also have "\<dots> = Some ` members vs"
    unfolding rotate_covers [OF assms(2)] using nth_image [of ?n ?A] A(1,3) by (simp add: lessThan_atLeast0)
  finally have img: "(\<lambda>i. proposer_for vs h (r + of_nat i)) ` {..<?n} = Some ` members vs" .
  have "card (Some ` members vs) = ?n"
    using distinct_card [OF A(2)] A(1,3) by (simp add: card_image)
  then have "inj_on (\<lambda>i. proposer_for vs h (r + of_nat i)) {..<?n}"
    by (intro eq_card_imp_inj_on) (simp_all add: img)
  with img show ?thesis by blast
qed

lemma demo_active_count: "active_count demo_vset = 2"
proof -
  have "members demo_vset = {PartyId ''alice'', PartyId ''bob''}" by auto
  then show ?thesis
    using vset_active_parties [OF demo_vset_sound] distinct_card [OF vset_active_parties(2) [OF demo_vset_sound]] by simp
qed

theorem proposers_rotate_witness:
  "(\<lambda>i. proposer_for demo_vset 7 (3 + of_nat i)) ` {..<2} = {Some (PartyId ''alice''), Some (PartyId ''bob'')}"
proof -
  have "members demo_vset = {PartyId ''alice'', PartyId ''bob''}" by auto
  then show ?thesis
    using proposers_rotate [OF demo_vset_sound, of 7 3] by (simp add: demo_active_count)
qed

text \<open>
  Jailing a validator takes its stake out of the total, and so lowers the threshold, but not out
  of the tally: precommits it cast before stay in the power of their block at full stake.
\<close>

theorem jailed_votes_still_count:
  assumes "vset_sound vs" and "is_validator vs p" and "fmlookup vs p = Some v" and "v_missed v + 1 \<ge> j"
  shows "\<not> is_validator (record_missed p j vs) p \<and>
    unat (total_stake (record_missed p j vs)) + unat (v_stake v) = unat (total_stake vs) \<and>
    precommit_power e b (record_missed p j vs) = precommit_power e b vs"
proof -
  have m: "members (record_missed p j vs) = members vs - {p}"
    using assms(3,4) by (auto simp: record_missed_members)
  then have "\<not> is_validator (record_missed p j vs) p" by blast
  moreover have "stake_of vs (members vs) = unat (v_stake v) + stake_of vs (members vs - {p})"
    using sum.remove [OF finite_members, of p vs "stake_at vs"] assms(2,3) by (simp add: stake_at_def)
  ultimately show ?thesis
    using unat_total_stake [OF assms(1)] unat_total_stake [OF record_missed_sound [OF assms(1)], of p j]
    by (simp add: m precommit_power_def)
qed

theorem jailed_votes_still_count_witness:
  "unat (total_stake (record_missed (PartyId ''alice'') 1 demo_vset)) + 10 = unat (total_stake demo_vset) \<and>
   precommit_power vote_set_new ZERO (record_missed (PartyId ''alice'') 1 demo_vset) = precommit_power vote_set_new ZERO demo_vset"
  using jailed_votes_still_count [OF demo_vset_sound, of "PartyId ''alice''" alice_validator 1 vote_set_new ZERO]
  by (simp add: alice_validator_def validator_new_def)

text \<open>
  Without the bound on the total stake the threshold is not two thirds: with a validator of stake \<open>2 ^ 63\<close> and one of stake 1 the doubled total
  wraps to 2, the threshold is 1, and the small validator is a quorum by itself.
\<close>

theorem quorum_threshold_wraps:
  "unat (total_stake whale_vset) = 2 ^ 63 + 1 \<and> unat (quorum_threshold whale_vset) = stake_at whale_vset (PartyId ''minnow'')"
proof -
  have m: "members whale_vset = {PartyId ''minnow'', PartyId ''whale''}"
    and s: "stake_at whale_vset p = (if p = PartyId ''minnow'' then 1 else if p = PartyId ''whale'' then 2 ^ 63 else 0)" for p
    by (auto simp: is_validator_def stake_at_def whale_vset_def vset_add_def vset_new_def validator_new_def split: option.splits)
  have t: "unat (total_stake whale_vset) = 2 ^ 63 + 1"
    using unat_total_stake_bounded [of whale_vset] by (simp add: m s)
  then have "total_stake whale_vset = 2 ^ 63 + 1"
    by (simp add: word_unat_eq_iff unat_word_ariths)
  then show ?thesis
    using t by (simp add: quorum_threshold_def s)
qed

text \<open>
  The signed bytes of a vote determine the vote: height, round, block, kind and voter.
\<close>

theorem vote_signing_bytes_injective:
  assumes "wf_hash (vt_block_hash v)" and "wf_hash (vt_block_hash w)" and "vote_signing_bytes v = vote_signing_bytes w"
  shows "vt_height v = vt_height w \<and> vt_round v = vt_round w \<and> vt_block_hash v = vt_block_hash w \<and>
    vt_kind v = vt_kind w \<and> vt_voter v = vt_voter w"
proof -
  have "u64_to_le_bytes (vt_height v) = u64_to_le_bytes (vt_height w) \<and>
    u32_to_le_bytes (vt_round v) = u32_to_le_bytes (vt_round w) \<and>
    hash_bytes (vt_block_hash v) = hash_bytes (vt_block_hash w) \<and>
    (case vt_kind v of Prevote \<Rightarrow> 0 | Precommit \<Rightarrow> (1 :: u8)) = (case vt_kind w of Prevote \<Rightarrow> 0 | Precommit \<Rightarrow> 1) \<and>
    as_bytes (party_name (vt_voter v)) = as_bytes (party_name (vt_voter w))"
    using assms by (simp add: vote_signing_bytes_def wf_hash_def)
  then show ?thesis
    by (auto simp: party_id.expand hash.expand split: vote_kind.splits)
qed

theorem vote_signing_bytes_injective_witness:
  "vote_signing_bytes (demo_precommit (PartyId ''a'') [1] ZERO) \<noteq> vote_signing_bytes (demo_precommit (PartyId ''b'') [1] ZERO)"
  using vote_signing_bytes_injective [of "demo_precommit (PartyId ''a'') [1] ZERO" "demo_precommit (PartyId ''b'') [1] ZERO"]
  by auto

end
