(* ===== verification/Round.thy ===== *)
theory Round
  imports Consensus
begin

text \<open>
  \<open>node/src/driver.rs\<close> and \<open>viewsync.rs\<close>: the state machine a validator runs for one height and
  round, and the coordinator that collects votes to change view. An operation of the round machine also updates the consensus engine
  it is given, so its state is the pair of both. Log messages are left out.
\<close>

section \<open>The round machine\<close>

datatype outbound = Proposal u32 block | OutVote vote

datatype action = Broadcast outbound | CommitBlock hash | NoAction

datatype phase = Idle | Prevoted | Precommitted | PhaseCommitted

record round_machine =
  rm_height :: u64
  rm_round :: u32
  rm_phase :: phase
  rm_seen_blocks :: "hash \<rightharpoonup> block"
  rm_own_block :: "hash option"
  rm_my_votes :: "vote list"

type_synonym driver = "round_machine \<times> aurora"

definition new_round :: "u64 \<Rightarrow> u32 \<Rightarrow> round_machine" where
  "new_round height rnd = \<lparr>rm_height = height, rm_round = rnd, rm_phase = Idle, rm_seen_blocks = Map.empty,
     rm_own_block = None, rm_my_votes = []\<rparr>"

definition rm_block :: "round_machine \<Rightarrow> hash \<Rightarrow> block option" where
  "rm_block m h = rm_seen_blocks m h"

definition own_proposed_block :: "round_machine \<Rightarrow> block option" where
  "own_proposed_block m = Option.bind (rm_own_block m) (rm_seen_blocks m)"

definition make_vote :: "round_machine \<Rightarrow> party_id \<Rightarrow> hash \<Rightarrow> vote_kind \<Rightarrow> vote" where
  "make_vote m me target kind = \<lparr>vt_height = rm_height m, vt_round = rm_round m, vt_block_hash = target,
     vt_voter = me, vt_kind = kind, vt_signature = []\<rparr>"

definition cast_own_vote :: "party_id \<Rightarrow> hash \<Rightarrow> vote_kind \<Rightarrow> driver \<Rightarrow> (action list \<times> commit_outcome option) \<times> driver" where
  "cast_own_vote me target kind = (\<lambda>(m, a).
     let v = make_vote m me target kind; (r, a') = add_local_vote v a;
         outcome = (case r of Ok c \<Rightarrow> Some c | _ \<Rightarrow> None) in
     (([Broadcast (OutVote v)], outcome), (m\<lparr>rm_my_votes := rm_my_votes m @ [v]\<rparr>, a')))"

definition collect_commit :: "commit_outcome \<Rightarrow> round_machine \<Rightarrow> action list \<times> round_machine" where
  "collect_commit outcome m = (case outcome of
      Committed _ target _ _ \<Rightarrow>
        if rm_phase m \<noteq> PhaseCommitted then ([CommitBlock target], m\<lparr>rm_phase := PhaseCommitted\<rparr>) else ([], m)
    | _ \<Rightarrow> ([], m))"

text \<open>The precommit step that \<open>try_advance_after_prevote\<close> and \<open>on_vote\<close> share.\<close>

definition precommit_if_quorum :: "party_id \<Rightarrow> hash \<Rightarrow> driver \<Rightarrow> action list \<times> driver" where
  "precommit_if_quorum me target = (\<lambda>(m, a).
     if rm_phase m = Prevoted \<and> has_prevote_quorum a (rm_height m) (rm_round m) target \<and> is_validator (au_validators a) me then
       let ((acts, outcome), (m1, a1)) = cast_own_vote me target Precommit (m\<lparr>rm_phase := Precommitted\<rparr>, a) in
       (case outcome of
          None \<Rightarrow> (acts, (m1, a1))
        | Some c \<Rightarrow> let (acts', m2) = collect_commit c m1 in (acts @ acts', (m2, a1)))
     else ([], (m, a)))"

definition try_advance_after_prevote :: "party_id \<Rightarrow> hash \<Rightarrow> driver \<Rightarrow> action list \<times> driver" where
  "try_advance_after_prevote me target = precommit_if_quorum me target"

definition on_local_proposal :: "'x kernel_ext_scheme \<Rightarrow> block \<Rightarrow> party_id \<Rightarrow> driver \<Rightarrow> action list \<times> driver" where
  "on_local_proposal X b me = (\<lambda>(m, a).
     let h = block_hash X b;
         m1 = m\<lparr>rm_seen_blocks := (rm_seen_blocks m)(h \<mapsto> b), rm_own_block := Some h\<rparr>;
         actions = [Broadcast (Proposal (rm_round m) b)] in
     if is_validator (au_validators a) me \<and> rm_phase m1 = Idle then
       let ((acts, _), d) = cast_own_vote me h Prevote (m1\<lparr>rm_phase := Prevoted\<rparr>, a);
           (acts', d') = try_advance_after_prevote me h d in
       (actions @ acts @ acts', d')
     else (actions, (m1, a)))"

definition on_proposal :: "'x kernel_ext_scheme \<Rightarrow> block \<Rightarrow> party_id \<Rightarrow> hash \<Rightarrow> driver \<Rightarrow> action list \<times> driver" where
  "on_proposal X b me parent_hash = (\<lambda>(m, a).
     if blk_height b \<noteq> rm_height m then ([NoAction], (m, a))
     else case verify_proposal X a b parent_hash (rm_round m) of
         Inl _ \<Rightarrow> ([NoAction], (m, a))
       | Inr _ \<Rightarrow>
           let h = block_hash X b; m1 = m\<lparr>rm_seen_blocks := (rm_seen_blocks m)(h \<mapsto> b)\<rparr> in
           if is_validator (au_validators a) me \<and> rm_phase m1 = Idle then
             let ((acts, _), d) = cast_own_vote me h Prevote (m1\<lparr>rm_phase := Prevoted\<rparr>, a);
                 (acts', d') = try_advance_after_prevote me h d in
             (acts @ acts', d')
           else ([NoAction], (m1, a)))"

definition on_vote :: "'x identity_ext_scheme \<Rightarrow> vote \<Rightarrow> party_id \<Rightarrow> driver \<Rightarrow> action list \<times> driver" where
  "on_vote X v me = (\<lambda>(m, a).
     if vt_height v \<noteq> rm_height m then ([NoAction], (m, a))
     else case add_vote X v a of
         (Ok outcome, a1) \<Rightarrow>
           let (acts, m1) = collect_commit outcome m;
               (acts', d') = (if vt_kind v = Prevote then precommit_if_quorum me (vt_block_hash v) (m1, a1) else ([], (m1, a1)));
               actions = acts @ acts' in
           (if actions = [] then [NoAction] else actions, d')
       | (_, a1) \<Rightarrow> ([NoAction], (m, a1)))"

section \<open>View changes\<close>

record view_coordinator =
  vc_height :: u64
  vc_votes :: "(u32, party_id fset) fmap"

definition view_new :: "u64 \<Rightarrow> view_coordinator" where
  "view_new height = \<lparr>vc_height = height, vc_votes = fmempty\<rparr>"

definition view_reset :: "u64 \<Rightarrow> view_coordinator \<Rightarrow> view_coordinator" where
  "view_reset height c = c\<lparr>vc_height := height, vc_votes := fmempty\<rparr>"

text \<open>The power of a set of voters; the iteration order of the hash set does not matter to the sum.\<close>

definition view_power :: "validator_set \<Rightarrow> party_id fset \<Rightarrow> u64" where
  "view_power vset voters = sum_list (map v_stake (List.map_filter (vset_get vset) (sorted_list_of_fset voters)))"

definition quorum_view :: "validator_set \<Rightarrow> view_coordinator \<Rightarrow> u32 option" where
  "quorum_view vset c =
     (let views = map fst (filter (\<lambda>(_, voters). view_power vset voters \<ge> quorum_threshold vset) (sorted_list_of_fmap (vc_votes c))) in
      if views = [] then None else Some (fold max views (hd views)))"

definition view_record :: "u64 \<Rightarrow> u32 \<Rightarrow> party_id \<Rightarrow> validator_set \<Rightarrow> view_coordinator \<Rightarrow> u32 option \<times> view_coordinator" where
  "view_record height view voter vset c =
     (if height \<noteq> vc_height c then (None, c)
      else if \<not> is_validator vset voter then (None, c)
      else
        let voters = (case fmlookup (vc_votes c) view of None \<Rightarrow> {||} | Some vs \<Rightarrow> vs);
            c' = c\<lparr>vc_votes := fmupd view (finsert voter voters) (vc_votes c)\<rparr> in
        (quorum_view vset c', c'))"

section \<open>Runs\<close>

datatype input = LocalProposal block | RemoteProposal block hash | IncomingVote vote

definition round_input :: "'x identity_ext_scheme \<Rightarrow> party_id \<Rightarrow> input \<Rightarrow> driver \<Rightarrow> action list \<times> driver" where
  "round_input X me i = (case i of
      LocalProposal b \<Rightarrow> on_local_proposal X b me
    | RemoteProposal b parent \<Rightarrow> on_proposal X b me parent
    | IncomingVote v \<Rightarrow> on_vote X v me)"

fun round_run :: "'x identity_ext_scheme \<Rightarrow> party_id \<Rightarrow> input list \<Rightarrow> driver \<Rightarrow> action list \<times> driver" where
  "round_run X me [] d = ([], d)"
| "round_run X me (i # is) d = (let (acts, d1) = round_input X me i d; (acts', d2) = round_run X me is d1 in (acts @ acts', d2))"

definition votes_of :: "action list \<Rightarrow> vote list" where
  "votes_of acts = List.map_filter (\<lambda>x. case x of Broadcast (OutVote v) \<Rightarrow> Some v | _ \<Rightarrow> None) acts"

definition commits_of :: "action list \<Rightarrow> hash list" where
  "commits_of acts = List.map_filter (\<lambda>x. case x of CommitBlock h \<Rightarrow> Some h | _ \<Rightarrow> None) acts"

lemma action_lists [simp]:
  "votes_of [] = []" "votes_of (xs @ ys) = votes_of xs @ votes_of ys" "votes_of (Broadcast (OutVote v) # xs) = v # votes_of xs"
  "votes_of (Broadcast (Proposal r b) # xs) = votes_of xs" "votes_of (CommitBlock h # xs) = votes_of xs"
  "votes_of (NoAction # xs) = votes_of xs"
  "commits_of [] = []" "commits_of (xs @ ys) = commits_of xs @ commits_of ys" "commits_of (Broadcast y # xs) = commits_of xs"
  "commits_of (CommitBlock h # xs) = h # commits_of xs" "commits_of (NoAction # xs) = commits_of xs"
  by (simp_all add: votes_of_def commits_of_def List.map_filter_def)

section \<open>The invariant of a round\<close>

text \<open>
  The votes the machine has sent, by phase: none, a prevote, a prevote and a precommit. \<open>done_ok\<close> adds the
  commits it has announced.
\<close>

definition shape :: "party_id \<Rightarrow> round_machine \<Rightarrow> vote list \<Rightarrow> bool" where
  "shape me m vs \<longleftrightarrow>
     (rm_phase m \<in> {Idle, PhaseCommitted} \<and> vs = []) \<or>
     (\<exists>b. rm_phase m \<in> {Prevoted, PhaseCommitted} \<and> vs = [make_vote m me b Prevote]) \<or>
     (\<exists>b c. rm_phase m \<in> {Precommitted, PhaseCommitted} \<and> vs = [make_vote m me b Prevote, make_vote m me c Precommit])"

definition done_ok :: "round_machine \<Rightarrow> aurora \<Rightarrow> hash list \<Rightarrow> bool" where
  "done_ok m a hs \<longleftrightarrow> (if rm_phase m = PhaseCommitted then \<exists>h. hs = [h] \<and> is_committed a (rm_height m) = Some h else hs = [])"

definition round_inv :: "party_id \<Rightarrow> driver \<Rightarrow> vote list \<Rightarrow> hash list \<Rightarrow> bool" where
  "round_inv me d vs hs \<longleftrightarrow> (case d of (m, a) \<Rightarrow> rm_my_votes m = vs \<and> shape me m vs \<and> done_ok m a hs)"

lemma tally_vote_commits:
  assumes "tally_vote v a = (r, a')"
  shows "is_committed a h = Some b \<Longrightarrow> is_committed a' h = Some b"
    and "r = Ok (Committed k c ps p) \<Longrightarrow> k = vt_height v \<and> is_committed a' k = Some c"
  using assms by (auto simp: tally_vote_def is_committed_def Let_def split: if_splits sum.splits prod.splits)

lemma add_local_commits:
  assumes "add_local_vote v a = (r, a')"
  shows "is_committed a h = Some b \<Longrightarrow> is_committed a' h = Some b"
    and "r = Ok (Committed k c ps p) \<Longrightarrow> k = vt_height v \<and> is_committed a' k = Some c"
  using assms tally_vote_commits [of v a r a'] by (auto simp: add_local_vote_def split: if_splits)

lemma add_vote_commits:
  assumes "add_vote X v a = (r, a')"
  shows "is_committed a h = Some b \<Longrightarrow> is_committed a' h = Some b"
    and "r = Ok (Committed k c ps p) \<Longrightarrow> k = vt_height v \<and> is_committed a' k = Some c"
  using assms tally_vote_commits [of v a r a'] by (auto simp: add_vote_def split: if_splits option.splits sum.splits)

lemma done_ok_mono:
  "done_ok m a hs \<Longrightarrow> (\<And>h b. is_committed a h = Some b \<Longrightarrow> is_committed a' h = Some b) \<Longrightarrow> done_ok m a' hs"
  by (auto simp: done_ok_def)

lemma make_vote_upd [simp]:
  "make_vote (m\<lparr>rm_phase := ph\<rparr>) = make_vote m" "make_vote (m\<lparr>rm_my_votes := vs\<rparr>) = make_vote m"
  "make_vote (m\<lparr>rm_seen_blocks := sb\<rparr>) = make_vote m" "make_vote (m\<lparr>rm_own_block := ob\<rparr>) = make_vote m"
  by (simp_all add: make_vote_def fun_eq_iff)

lemma round_inv_seen [simp]:
  "round_inv me (m\<lparr>rm_seen_blocks := sb\<rparr>, a) vs hs = round_inv me (m, a) vs hs"
  "round_inv me (m\<lparr>rm_own_block := ob\<rparr>, a) vs hs = round_inv me (m, a) vs hs"
  by (simp_all add: round_inv_def shape_def done_ok_def)

lemma collect_commit_inv:
  assumes "collect_commit outcome m = (acts, m')" and "round_inv me (m, a) vs hs"
    and "\<And>k c ps p. outcome = Committed k c ps p \<Longrightarrow> is_committed a (rm_height m) = Some c"
  shows "round_inv me (m', a) (vs @ votes_of acts) (hs @ commits_of acts) \<and> rm_height m' = rm_height m \<and> rm_round m' = rm_round m"
  using assms by (auto simp: collect_commit_def round_inv_def shape_def done_ok_def split: commit_outcome.splits if_splits)

lemma precommit_inv:
  assumes "precommit_if_quorum me b (m, a) = (acts, m', a')" and "round_inv me (m, a) vs hs"
  shows "round_inv me (m', a') (vs @ votes_of acts) (hs @ commits_of acts) \<and> rm_height m' = rm_height m \<and> rm_round m' = rm_round m"
proof (cases "rm_phase m = Prevoted \<and> has_prevote_quorum a (rm_height m) (rm_round m) b \<and> is_validator (au_validators a) me")
  case False
  then show ?thesis using assms by (auto simp: precommit_if_quorum_def)
next
  case True
  let ?v = "make_vote m me b Precommit"
  let ?m = "m\<lparr>rm_phase := Precommitted, rm_my_votes := rm_my_votes m @ [?v]\<rparr>"
  obtain r a1 where r: "add_local_vote ?v a = (r, a1)" by force
  have inv: "round_inv me (?m, a1) (vs @ [?v]) hs"
    using assms(2) True by (auto simp: round_inv_def shape_def done_ok_def)
  show ?thesis
  proof (cases r)
    case (Ok c)
    obtain acts' m2 where cc: "collect_commit c ?m = (acts', m2)" by force
    have "round_inv me (m2, a1) ((vs @ [?v]) @ votes_of acts') (hs @ commits_of acts') \<and> rm_height m2 = rm_height ?m \<and> rm_round m2 = rm_round ?m"
      by (rule collect_commit_inv [OF cc inv]) (use add_local_commits(2) [OF r] Ok in \<open>auto simp: make_vote_def\<close>)
    then show ?thesis using assms(1) True r Ok cc by (auto simp: precommit_if_quorum_def cast_own_vote_def Let_def)
  qed (use assms(1) True r inv in \<open>auto simp: precommit_if_quorum_def cast_own_vote_def Let_def\<close>)
qed

text \<open>The prevote that \<open>on_local_proposal\<close> and \<open>on_proposal\<close> cast, and what follows from it.\<close>

lemma prevote_inv:
  assumes "round_inv me (m, a) vs hs" and "rm_phase m = Idle"
    and "cast_own_vote me h Prevote (m\<lparr>rm_phase := Prevoted\<rparr>, a) = ((acts, oc), d)"
    and "try_advance_after_prevote me h d = (acts', m', a')"
  shows "round_inv me (m', a') (vs @ votes_of (acts @ acts')) (hs @ commits_of (acts @ acts')) \<and>
    rm_height m' = rm_height m \<and> rm_round m' = rm_round m"
proof -
  let ?v = "make_vote m me h Prevote"
  let ?m = "m\<lparr>rm_phase := Prevoted, rm_my_votes := rm_my_votes m @ [?v]\<rparr>"
  obtain r a1 where r: "add_local_vote ?v a = (r, a1)" by force
  with assms(3) have d: "d = (?m, a1)" and acts: "acts = [Broadcast (OutVote ?v)]"
    by (auto simp: cast_own_vote_def Let_def)
  have "round_inv me (?m, a1) (vs @ [?v]) hs"
    using assms(1,2) by (auto simp: round_inv_def shape_def done_ok_def)
  from precommit_inv [OF assms(4) [unfolded try_advance_after_prevote_def d] this] show ?thesis by (simp add: acts)
qed

lemma round_input_inv:
  assumes "round_input X me i (m, a) = (acts, m', a')" and "round_inv me (m, a) vs hs"
  shows "round_inv me (m', a') (vs @ votes_of acts) (hs @ commits_of acts) \<and> rm_height m' = rm_height m \<and> rm_round m' = rm_round m"
proof (cases i)
  case (LocalProposal b)
  let ?m = "m\<lparr>rm_seen_blocks := (rm_seen_blocks m)(block_hash X b \<mapsto> b), rm_own_block := Some (block_hash X b)\<rparr>"
  show ?thesis
  proof (cases "is_validator (au_validators a) me \<and> rm_phase m = Idle")
    case True
    obtain acts1 oc d where c: "cast_own_vote me (block_hash X b) Prevote (?m\<lparr>rm_phase := Prevoted\<rparr>, a) = ((acts1, oc), d)"
      by (metis prod.collapse)
    obtain acts2 m2 a2 where t: "try_advance_after_prevote me (block_hash X b) d = (acts2, m2, a2)" by (metis prod.collapse)
    from assms(1) LocalProposal True c t
    have "acts = Broadcast (Proposal (rm_round m) b) # acts1 @ acts2" "m' = m2" "a' = a2"
      by (auto simp: round_input_def on_local_proposal_def Let_def)
    moreover have "round_inv me (?m, a) vs hs" using assms(2) by simp
    note prevote_inv [OF this _ c t]
    ultimately show ?thesis using True by simp
  next
    case False
    then show ?thesis using assms LocalProposal by (auto simp: round_input_def on_local_proposal_def Let_def)
  qed
next
  case (RemoteProposal b parent)
  let ?m = "m\<lparr>rm_seen_blocks := (rm_seen_blocks m)(block_hash X b \<mapsto> b)\<rparr>"
  show ?thesis
  proof (cases "blk_height b = rm_height m \<and> verify_proposal X a b parent (rm_round m) = Inr () \<and>
      is_validator (au_validators a) me \<and> rm_phase m = Idle")
    case True
    obtain acts1 oc d where c: "cast_own_vote me (block_hash X b) Prevote (?m\<lparr>rm_phase := Prevoted\<rparr>, a) = ((acts1, oc), d)"
      by (metis prod.collapse)
    obtain acts2 m2 a2 where t: "try_advance_after_prevote me (block_hash X b) d = (acts2, m2, a2)" by (metis prod.collapse)
    from assms(1) RemoteProposal True c t have "acts = acts1 @ acts2" "m' = m2" "a' = a2"
      by (auto simp: round_input_def on_proposal_def Let_def)
    moreover have "round_inv me (?m, a) vs hs" using assms(2) by simp
    note prevote_inv [OF this _ c t]
    ultimately show ?thesis using True by simp
  next
    case False
    then show ?thesis using assms RemoteProposal
      by (auto simp: round_input_def on_proposal_def Let_def split: if_splits sum.splits)
  qed
next
  case (IncomingVote v)
  obtain r a1 where r: "add_vote X v a = (r, a1)" by force
  have mono: "round_inv me (m, a1) vs hs"
    using assms(2) done_ok_mono [of m a hs a1] add_vote_commits(1) [OF r] by (auto simp: round_inv_def)
  consider (skip) "acts = [NoAction]" "m' = m" "a' = a \<or> a' = a1" | (go) c where "r = Ok c" "vt_height v = rm_height m"
    using assms(1) IncomingVote r by (cases r) (auto simp: round_input_def on_vote_def split: if_splits)
  then show ?thesis
  proof cases
    case skip
    then show ?thesis using assms(2) mono by auto
  next
    case go
    obtain acts1 m1 where cc: "collect_commit c m = (acts1, m1)" by force
    have 1: "round_inv me (m1, a1) (vs @ votes_of acts1) (hs @ commits_of acts1) \<and> rm_height m1 = rm_height m \<and> rm_round m1 = rm_round m"
      by (rule collect_commit_inv [OF cc mono]) (use add_vote_commits(2) [OF r] go in auto)
    obtain acts2 m2 a2 where p: "(if vt_kind v = Prevote then precommit_if_quorum me (vt_block_hash v) (m1, a1) else ([], (m1, a1))) = (acts2, m2, a2)"
      by (metis prod.collapse)
    have 2: "round_inv me (m2, a2) ((vs @ votes_of acts1) @ votes_of acts2) ((hs @ commits_of acts1) @ commits_of acts2) \<and>
        rm_height m2 = rm_height m1 \<and> rm_round m2 = rm_round m1"
    proof (cases "vt_kind v = Prevote")
      case True
      with p have "precommit_if_quorum me (vt_block_hash v) (m1, a1) = (acts2, m2, a2)" by simp
      from precommit_inv [OF this conjunct1 [OF 1]] show ?thesis .
    next
      case False
      then show ?thesis using p 1 by auto
    qed
    have "acts = (if acts1 @ acts2 = [] then [NoAction] else acts1 @ acts2)" "m' = m2" "a' = a2"
      using assms(1) IncomingVote r go cc p by (auto simp: round_input_def on_vote_def Let_def split: prod.splits)
    then show ?thesis using 1 2 by auto
  qed
qed


section \<open>How the engine evolves in a round\<close>

inductive tallied :: "aurora \<Rightarrow> aurora \<Rightarrow> bool" for a where
  stop: "tallied a a"
| step: "tallied a b \<Longrightarrow> tally_vote v b = (r, c) \<Longrightarrow> tallied a c"

lemma tallied_trans: "tallied b c \<Longrightarrow> tallied a b \<Longrightarrow> tallied a c"
  by (induction rule: tallied.induct) (auto intro: tallied.step)

lemma tallied_add:
  "add_vote X v a = (r, a') \<Longrightarrow> tallied a a'" "add_local_vote v a = (r, a') \<Longrightarrow> tallied a a'"
  using add_vote_tally add_local_vote_tally tallied.intros by metis+

lemma tallied_ok: "tallied a b \<Longrightarrow> aurora_ok a \<Longrightarrow> aurora_ok b \<and> au_validators b = au_validators a"
  by (induction rule: tallied.induct) (metis tally_vote_ok)+

lemma vote_set_add_prevoted:
  "vote_set_add v vset e = (r, e') \<Longrightarrow> prevoted e b \<subseteq> prevoted e' b"
  "vote_set_add v vset e = (r, e') \<Longrightarrow> vt_kind v = Precommit \<Longrightarrow> prevotes e' = prevotes e"
  by (auto simp: vote_set_add_def prevoted_def Let_def split: if_splits option.splits vote_kind.splits)

lemma tally_vote_rounds:
  assumes "tally_vote v a = (r, a')"
  shows "au_rounds a' = au_rounds a \<or> (\<exists>res e. vote_set_add v (au_validators a) (round_of a (vt_height v, vt_round v)) = (res, e) \<and>
    au_rounds a' = fmupd (vt_height v, vt_round v) e (au_rounds a))" and "au_validators a' = au_validators a"
  by (cases rule: tally_vote_cases [of a v]; use assms in \<open>auto simp: round_of_def split: sum.splits if_splits\<close>)+

lemma tallied_prevoted: "tallied a a' \<Longrightarrow> prevoted (round_of a slot) b \<subseteq> prevoted (round_of a' slot) b"
proof (induction rule: tallied.induct)
  case (step a1 v r a2)
  then show ?case
    using tally_vote_rounds(1) [OF step.hyps(2)] vote_set_add_prevoted(1) by (fastforce simp: round_of_def)
qed simp

lemma precommit_keeps_prevotes:
  assumes "tally_vote v a = (r, a')" and "vt_kind v = Precommit" and "has_prevote_quorum a h k b"
  shows "has_prevote_quorum a' h k b"
  using assms(3) tally_vote_rounds [OF assms(1)] vote_set_add_prevoted(2) [OF _ assms(2)]
  by (fastforce simp: has_prevote_quorum_def prevote_power_def round_of_def split: option.splits if_splits)

lemma prevote_quorum_stake:
  assumes "aurora_ok a" and "vset_sound (au_validators a)" and "has_prevote_quorum a h r b"
  shows "2 * stake_of (au_validators a) (members (au_validators a)) < 3 * stake_of (au_validators a) (prevoted (round_of a (h, r)) b)"
  using assms(3) prevote_power_stake(1) [OF assms(2), of "round_of a (h, r)" b] round_of_ok [OF assms(1)] unat_quorum_threshold [OF assms(2)]
  by (auto simp: has_prevote_quorum_def round_of_def word_le_nat_alt split: option.splits)

text \<open>What one input does: it tallies votes, and a precommit leaves only after a quorum of prevotes.\<close>

definition backed :: "round_machine \<Rightarrow> aurora \<Rightarrow> action list \<Rightarrow> bool" where
  "backed m a acts \<longleftrightarrow> (\<forall>w \<in> set (votes_of acts). vt_kind w = Precommit \<longrightarrow> has_prevote_quorum a (rm_height m) (rm_round m) (vt_block_hash w))"

lemma collect_commit_votes: "collect_commit c m = (acts, m') \<Longrightarrow> votes_of acts = []"
  by (auto simp: collect_commit_def split: commit_outcome.splits if_splits)

lemma precommit_backed:
  assumes "precommit_if_quorum me b (m, a) = (acts, m', a')"
  shows "tallied a a' \<and> backed m a' acts"
proof (cases "rm_phase m = Prevoted \<and> has_prevote_quorum a (rm_height m) (rm_round m) b \<and> is_validator (au_validators a) me")
  case True
  let ?v = "make_vote m me b Precommit"
  obtain r a1 where r: "add_local_vote ?v a = (r, a1)" by force
  have "has_prevote_quorum a1 (rm_height m) (rm_round m) b"
    using add_local_vote_tally [OF r] True precommit_keeps_prevotes [of ?v a r a1] by (auto simp: make_vote_def)
  then show ?thesis
    using assms True r tallied_add(2) [OF r]
    by (auto simp: precommit_if_quorum_def cast_own_vote_def Let_def backed_def make_vote_def
        dest: collect_commit_votes split: outcome.splits prod.splits)
qed (use assms in \<open>auto simp: precommit_if_quorum_def backed_def intro: tallied.stop\<close>)

lemma prevote_backed:
  assumes "cast_own_vote me h Prevote (m, a) = ((acts, oc), d)" and "try_advance_after_prevote me h d = (acts', m', a')"
  shows "tallied a a' \<and> backed m a' (acts @ acts')"
proof -
  obtain r a1 where r: "add_local_vote (make_vote m me h Prevote) a = (r, a1)" by force
  let ?m = "m\<lparr>rm_my_votes := rm_my_votes m @ [make_vote m me h Prevote]\<rparr>"
  from assms(1) r have d: "d = (?m, a1)" and acts: "acts = [Broadcast (OutVote (make_vote m me h Prevote))]"
    by (auto simp: cast_own_vote_def Let_def)
  have "tallied a1 a' \<and> backed ?m a' acts'"
    using precommit_backed assms(2) by (auto simp: try_advance_after_prevote_def d)
  then show ?thesis using tallied_trans [OF _ tallied_add(2) [OF r]] by (auto simp: backed_def acts make_vote_def)
qed

lemma round_input_backed:
  assumes "round_input X me i (m, a) = (acts, m', a')"
  shows "tallied a a' \<and> backed m a' acts"
proof (cases i)
  case (IncomingVote v)
  obtain r a1 where r: "add_vote X v a = (r, a1)" by force
  consider (skip) "acts = [NoAction]" "a' = a \<or> a' = a1" | (go) c where "r = Ok c" "vt_height v = rm_height m"
    using assms(1) IncomingVote r by (cases r) (auto simp: round_input_def on_vote_def split: if_splits)
  then show ?thesis
  proof cases
    case skip
    then show ?thesis using tallied_add(1) [OF r] by (auto simp: backed_def intro: tallied.stop)
  next
    case go
    obtain acts1 m1 where cc: "collect_commit c m = (acts1, m1)" by force
    then have m1: "rm_height m1 = rm_height m" "rm_round m1 = rm_round m"
      by (auto simp: collect_commit_def split: commit_outcome.splits if_splits)
    obtain acts2 m2 a2 where p: "(if vt_kind v = Prevote then precommit_if_quorum me (vt_block_hash v) (m1, a1) else ([], (m1, a1))) = (acts2, m2, a2)"
      by (metis prod.collapse)
    then have "tallied a1 a2 \<and> backed m1 a2 acts2"
      using precommit_backed [of me "vt_block_hash v" m1 a1 acts2 m2 a2] by (auto simp: backed_def split: if_splits intro: tallied.stop)
    moreover have "votes_of acts = votes_of acts2" "a' = a2"
      using assms(1) IncomingVote r go cc p collect_commit_votes [OF cc]
      by (auto simp: round_input_def on_vote_def Let_def split: prod.splits if_splits)
    ultimately show ?thesis
      using tallied_trans [OF _ tallied_add(1) [OF r]] m1 by (auto simp: backed_def)
  qed
qed (use assms in \<open>auto simp: round_input_def on_local_proposal_def on_proposal_def Let_def backed_def
    dest!: prevote_backed split: if_splits prod.splits sum.splits intro: tallied.stop\<close>)

lemma round_run_inv:
  assumes "round_run X me is (m, a) = (acts, m', a')" and "round_inv me (m, a) vs hs"
  shows "round_inv me (m', a') (vs @ votes_of acts) (hs @ commits_of acts) \<and> rm_height m' = rm_height m \<and> rm_round m' = rm_round m"
  using assms
proof (induction "is" arbitrary: m a vs hs acts)
  case (Cons i "is")
  obtain acts1 m1 a1 where 1: "round_input X me i (m, a) = (acts1, m1, a1)" by (metis prod.collapse)
  obtain acts2 m2 a2 where 2: "round_run X me is (m1, a1) = (acts2, m2, a2)" by (metis prod.collapse)
  from round_input_inv [OF 1 Cons.prems(2)]
  have i: "round_inv me (m1, a1) (vs @ votes_of acts1) (hs @ commits_of acts1)" and h: "rm_height m1 = rm_height m" "rm_round m1 = rm_round m" by auto
  have "acts = acts1 @ acts2" "m2 = m'" "a2 = a'" using Cons.prems(1) 1 2 by auto
  then show ?case using Cons.IH [OF 2 [unfolded \<open>m2 = m'\<close> \<open>a2 = a'\<close>] i] h by simp
qed simp

lemma round_run_tallied: "round_run X me is (m, a) = (acts, m', a') \<Longrightarrow> tallied a a'"
proof (induction "is" arbitrary: m a acts)
  case (Cons i "is")
  obtain acts1 m1 a1 where 1: "round_input X me i (m, a) = (acts1, m1, a1)" by (metis prod.collapse)
  obtain acts2 m2 a2 where 2: "round_run X me is (m1, a1) = (acts2, m2, a2)" by (metis prod.collapse)
  have "m2 = m'" "a2 = a'" using Cons.prems 1 2 by auto
  then show ?case using tallied_trans [OF Cons.IH [of m1 a1 acts2]] round_input_backed [OF 1] 2 by blast
qed (auto intro: tallied.stop)

text \<open>More than two thirds of the stake have prevoted for a block in a round.\<close>

definition prevote_majority :: "aurora \<Rightarrow> u64 \<times> u32 \<Rightarrow> hash \<Rightarrow> bool" where
  "prevote_majority a slot b \<longleftrightarrow>
     2 * stake_of (au_validators a) (members (au_validators a)) < 3 * stake_of (au_validators a) (prevoted (round_of a slot) b)"

lemma prevote_majority_mono:
  assumes "tallied a a'" and "aurora_ok a" and "vset_sound (au_validators a)" and "prevote_majority a slot b"
  shows "prevote_majority a' slot b"
proof -
  have ok: "aurora_ok a'" "au_validators a' = au_validators a" using tallied_ok assms(1,2) by auto
  have "prevoted (round_of a' slot) b \<subseteq> members (au_validators a)"
    using prevote_power_stake(2) [OF assms(3)] round_of_ok [OF ok(1)] ok(2) by simp
  then have "finite (prevoted (round_of a' slot) b)" using finite_members finite_subset by blast
  then have "stake_of (au_validators a) (prevoted (round_of a slot) b) \<le> stake_of (au_validators a) (prevoted (round_of a' slot) b)"
    using tallied_prevoted [OF assms(1)] by (intro sum_mono2) auto
  then show ?thesis using assms(4) ok(2) by (simp add: prevote_majority_def)
qed

lemma round_run_backed:
  assumes "round_run X me is (m, a) = (acts, m', a')" and "aurora_ok a" and "vset_sound (au_validators a)"
    and "w \<in> set (votes_of acts)" and "vt_kind w = Precommit" and "round_inv me (m, a) vs hs"
  shows "prevote_majority a' (rm_height m, rm_round m) (vt_block_hash w)"
  using assms
proof (induction "is" arbitrary: m a vs hs acts)
  case (Cons i "is")
  obtain acts1 m1 a1 where 1: "round_input X me i (m, a) = (acts1, m1, a1)" by (metis prod.collapse)
  obtain acts2 m2 a2 where 2: "round_run X me is (m1, a1) = (acts2, m2, a2)" by (metis prod.collapse)
  have eq: "acts = acts1 @ acts2" "m2 = m'" "a2 = a'" using Cons.prems(1) 1 2 by auto
  note b = round_input_backed [OF 1] and j = round_input_inv [OF 1 Cons.prems(6)] and r = round_run_tallied [OF 2]
  have a1: "aurora_ok a1" "au_validators a1 = au_validators a" using tallied_ok [OF conjunct1 [OF b] Cons.prems(2)] by auto
  show ?case
  proof (cases "w \<in> set (votes_of acts1)")
    case True
    with b Cons.prems(5) have "has_prevote_quorum a1 (rm_height m) (rm_round m) (vt_block_hash w)" by (simp add: backed_def)
    from prevote_quorum_stake [OF a1(1) _ this] Cons.prems(3) a1(2)
    have "prevote_majority a1 (rm_height m, rm_round m) (vt_block_hash w)" by (simp add: prevote_majority_def)
    from prevote_majority_mono [OF r a1(1) _ this] show ?thesis using Cons.prems(3) a1(2) eq by simp
  next
    case False
    then have "w \<in> set (votes_of acts2)" using Cons.prems(4) eq by simp
    then show ?thesis
      using Cons.IH [OF 2 [unfolded eq(2,3)] a1(1) _ _ Cons.prems(5)] Cons.prems(3) a1(2) j by auto
  qed
qed simp

lemma new_round_inv: "round_inv me (new_round h r, a) [] []"
  by (simp add: round_inv_def shape_def done_ok_def new_round_def)


section \<open>Properties of a round\<close>

text \<open>
  C4. One machine votes once. Whatever proposals and votes reach the machine of a height and a round, in whatever
  order, the votes it sends are none, one prevote, or one prevote followed by one precommit, all of them its own
  and for its height and round; it keeps exactly these votes; and it announces at most one commit,
  which is the one its engine has recorded.
\<close>

theorem round_votes_once:
  "case round_run X me is (new_round h r, a) of (acts, m, a') \<Rightarrow>
     (let v = \<lambda>b k. \<lparr>vt_height = h, vt_round = r, vt_block_hash = b, vt_voter = me, vt_kind = k, vt_signature = []\<rparr> in
      \<exists>b c. votes_of acts \<in> {[], [v b Prevote], [v b Prevote, v c Precommit]}) \<and>
     rm_my_votes m = votes_of acts \<and>
     (commits_of acts = [] \<or> (\<exists>b. commits_of acts = [b] \<and> is_committed a' h = Some b))"
proof -
  obtain acts m a' where run: "round_run X me is (new_round h r, a) = (acts, m, a')" by (metis prod.collapse)
  from round_run_inv [OF this new_round_inv]
  have inv: "round_inv me (m, a') (votes_of acts) (commits_of acts)" and hr: "rm_height m = h" "rm_round m = r"
    by (simp_all add: new_round_def)
  then show ?thesis by (auto simp: run round_inv_def shape_def done_ok_def make_vote_def Let_def split: if_splits)
qed

text \<open>
  C5. A precommit needs a quorum of prevotes. Take an engine that has only processed votes since its creation with a validator set that is
  indexed by party and whose total stake is below \<open>2 ^ 63\<close> (so that the threshold does not wrap). When a machine that starts a round on this engine
  sends a precommit for a block, then validators holding more than two thirds of the active stake are on
  record in that engine with a prevote for the block in that round.
\<close>

theorem precommit_needs_quorum:
  assumes "round_run X me is (new_round h r, a) = (acts, m, a')" and "voting X (aurora_new c V self) a" and "vset_sound V"
    and "w \<in> set (votes_of acts)" and "vt_kind w = Precommit"
  shows "2 * stake_of V (members V) < 3 * stake_of V (prevoted (round_of a' (h, r)) (vt_block_hash w))"
proof -
  have a: "aurora_ok a" "au_validators a = V" using voting_ok [OF assms(2) aurora_ok_new] by (simp_all add: aurora_new_def)
  have "prevote_majority a' (h, r) (vt_block_hash w)"
    using round_run_backed [OF assms(1) a(1) _ assms(4,5) new_round_inv] assms(3) a(2) by (simp add: new_round_def)
  then show ?thesis using tallied_ok [OF round_run_tallied [OF assms(1)] a(1)] a(2) by (simp add: prevote_majority_def)
qed

definition solo_vset :: validator_set where
  "solo_vset = vset_add alice_validator vset_new"

definition solo_engine :: aurora where
  "solo_engine = aurora_new default_config solo_vset (Some (PartyId ''alice''))"

lemma solo_vset_facts:
  "fmlookup solo_vset p = (if p = PartyId ''alice'' then Some alice_validator else None)"
  "vset_sound solo_vset" "is_validator solo_vset (PartyId ''alice'')" "quorum_threshold solo_vset = 7" "v_stake alice_validator = 10"
  "vset_active solo_vset = [alice_validator]" "v_party alice_validator = PartyId ''alice''"
proof -
  have d: "fmdom' solo_vset = {PartyId ''alice''}" and fd: "fmdom solo_vset = {|PartyId ''alice''|}"
    by (auto simp: solo_vset_def vset_add_def vset_new_def alice_validator_def validator_new_def)
  show l: "fmlookup solo_vset p = (if p = PartyId ''alice'' then Some alice_validator else None)" for p
    by (simp add: solo_vset_def vset_add_def vset_new_def alice_validator_def validator_new_def)
  have "vset_values solo_vset = [alice_validator]" 
    by (simp add: vset_values_def sorted_list_of_fmap_def fd l sorted_list_of_fset.rep_eq)
  then show "vset_active solo_vset = [alice_validator]" "quorum_threshold solo_vset = 7"
    by (simp_all add: vset_active_def quorum_threshold_def total_stake_def alice_validator_def validator_new_def)
  show "vset_sound solo_vset" unfolding vset_sound_def d by (auto simp: l stake_at_def alice_validator_def validator_new_def)
qed (simp_all add: solo_vset_def is_validator_def vset_add_def vset_new_def alice_validator_def validator_new_def)

theorem precommit_needs_quorum_witness:
  "2 * stake_of solo_vset (members solo_vset) < 3 * stake_of solo_vset
     (prevoted (round_of (snd (snd (round_run ref_identity_ext (PartyId ''alice'') [LocalProposal (genesis (PartyId ''alice'') 0)]
        (new_round 1 0, solo_engine)))) (1, 0)) (block_hash ref_identity_ext (genesis (PartyId ''alice'') 0)))"
proof -
  let ?X = ref_identity_ext and ?b = "genesis (PartyId ''alice'') 0" and ?me = "PartyId ''alice''"
  obtain acts m a' where run: "round_run ?X ?me [LocalProposal ?b] (new_round 1 0, solo_engine) = (acts, m, a')" by (metis prod.collapse)
  let ?w = "\<lparr>vt_height = 1, vt_round = 0, vt_block_hash = block_hash ?X ?b, vt_voter = ?me, vt_kind = Precommit, vt_signature = []\<rparr>"
  have "?w \<in> set (votes_of acts)"
    using run by (auto simp: round_input_def on_local_proposal_def Let_def solo_engine_def aurora_new_def solo_vset_facts new_round_def
        cast_own_vote_def add_local_vote_def tally_vote_def vote_set_add_def make_vote_def vote_set_new_def
        try_advance_after_prevote_def precommit_if_quorum_def has_prevote_quorum_def prevote_power_def power_def tally_push_def
        vset_get_def map_filter_simps split: prod.splits outcome.splits)
  moreover have "voting ?X (aurora_new default_config solo_vset (Some ?me)) solo_engine" unfolding solo_engine_def by (rule voting.start)
  ultimately have "2 * stake_of solo_vset (members solo_vset) < 3 * stake_of solo_vset (prevoted (round_of a' (1, 0)) (vt_block_hash ?w))"
    by (intro precommit_needs_quorum [OF run _ solo_vset_facts(2)]) auto
  then
  show ?thesis unfolding run by simp
qed

text \<open>
  Nothing is carried from one round to the next. A validator that has precommitted a block in an earlier round of a
  height, and so may have helped to commit it elsewhere, prevotes in a later round for any other block
  that the proposer of that round sends: a machine starts each round in the same state, and no rule
  ties its prevote to its earlier precommit.
\<close>

theorem no_lock_across_rounds:
  assumes "fmlookup (precommit_seen (round_of a (h, r))) me = Some c" and "c \<noteq> block_hash X b" and "r < r'"
    and "is_validator (au_validators a) me" and "blk_height b = h" and "verify_proposal X a b parent r' = Inr ()"
  shows "\<exists>acts d. on_proposal X b me parent (new_round h r', a) = (acts, d) \<and>
    \<lparr>vt_height = h, vt_round = r', vt_block_hash = block_hash X b, vt_voter = me, vt_kind = Prevote, vt_signature = []\<rparr> \<in> set (votes_of acts)"
  using assms(4-6) by (auto simp: on_proposal_def new_round_def cast_own_vote_def make_vote_def Let_def split: prod.splits)


lemma demo_proposer: "\<exists>p. proposer_for demo_vset 1 1 = Some p \<and> is_validator demo_vset p"
proof -
  have n: "length (vset_active demo_vset) = 2"
    using demo_active_count vset_active_parties(3) [OF demo_vset_sound] by simp
  then have ne: "vset_active demo_vset \<noteq> []" by auto
  have "proposer_for demo_vset 1 (1 + of_nat 0) = Some (v_party (vset_active demo_vset ! ((unat (1 * 31 :: u64) + unat (1 :: u32) + 0) mod 2)))"
    using proposer_for_index [OF ne, of 1 1 0] n by simp
  moreover have "v_party (vset_active demo_vset ! 0) \<in> members demo_vset"
    using vset_active_parties(1) [OF demo_vset_sound] ne nth_mem [of 0 "vset_active demo_vset"] by auto
  ultimately show ?thesis by simp
qed

definition precommitted_engine :: aurora where
  "precommitted_engine = snd (add_local_vote (make_vote (new_round 1 0) (PartyId ''alice'') ZERO Precommit)
     (aurora_new default_config demo_vset (Some (PartyId ''alice''))))"

definition rival_block :: "party_id \<Rightarrow> block" where
  "rival_block p = \<lparr>blk_height = 1, blk_parent = ZERO, blk_events_root = merkle_root ref_identity_ext [], blk_state_root = ZERO,
     blk_timestamp = 0, blk_proposer = p, blk_events = [], blk_commands = []\<rparr>"

theorem no_lock_across_rounds_witness:
  "\<exists>p acts d. on_proposal ref_identity_ext (rival_block p) (PartyId ''alice'') ZERO (new_round 1 1, precommitted_engine) = (acts, d) \<and>
    \<lparr>vt_height = 1, vt_round = 1, vt_block_hash = block_hash ref_identity_ext (rival_block p), vt_voter = PartyId ''alice'', vt_kind = Prevote,
     vt_signature = []\<rparr> \<in> set (votes_of acts)"
proof -
  obtain p where p: "proposer_for demo_vset 1 1 = Some p" "is_validator demo_vset p" using demo_proposer by blast
  have e: "au_validators precommitted_engine = demo_vset"
    "fmlookup (precommit_seen (round_of precommitted_engine (1, 0))) (PartyId ''alice'') = Some ZERO"
    by (auto simp: precommitted_engine_def add_local_vote_def aurora_new_def make_vote_def new_round_def tally_vote_def vote_set_add_def
        vote_set_new_def round_of_def Let_def)
  have ne: "ZERO \<noteq> block_hash ref_identity_ext (rival_block p)"
  proof -
    have b3: "blake3 ref_identity_ext (x # xs) = x # take 31 (xs @ replicate 32 0)" for x xs
      by (simp add: ref_identity_ext_def ref_kernel_ext_def ref_hash_ext_def kernel_ext.defs hash_ext.defs numeral_eq_Suc)
    have z: "replicate 32 0 = (0 :: u8) # replicate 31 0" by (simp add: numeral_eq_Suc)
    show ?thesis unfolding block_hash_def commit_def commit_preimage_def ZERO_def hash.inject z by (simp add: b3)
  qed
  have "verify_proposal ref_identity_ext precommitted_engine (rival_block p) ZERO 1 = Inr ()"
    using p by (simp add: verify_proposal_def e rival_block_def compute_events_root_def)
  then show ?thesis
    using no_lock_across_rounds [OF e(2) ne, of 1 ZERO] by (fastforce simp: e rival_block_def)
qed


section \<open>Properties of view changes\<close>

fun view_records :: "validator_set \<Rightarrow> (u64 \<times> u32 \<times> party_id) list \<Rightarrow> view_coordinator \<Rightarrow> u32 option \<times> view_coordinator" where
  "view_records vset [] c = (None, c)"
| "view_records vset ((h, w, p) # rest) c = (let (res, c') = view_record h w p vset c in if rest = [] then (res, c') else view_records vset rest c')"

definition view_voters :: "view_coordinator \<Rightarrow> u32 \<Rightarrow> party_id set" where
  "view_voters c w = (case fmlookup (vc_votes c) w of None \<Rightarrow> {} | Some vs \<Rightarrow> fset vs)"

lemma fold_max_Max: "fold max xs (x :: 'a :: linorder) = Max (insert x (set xs))"
  by (metis List.set_simps(2) Max.set_eq_fold)

lemma view_power_stake:
  assumes "vset_sound vset" and "fset voters \<subseteq> members vset"
  shows "unat (view_power vset voters) = stake_of vset (fset voters)"
proof -
  have "unat (power (fmupd ZERO (sorted_list_of_fset voters) fmempty) ZERO vset) = stake_of vset (set (sorted_list_of_fset voters))"
    using assms members_dom by (intro unat_power) (auto simp: sorted_list_of_fset.rep_eq)
  then show ?thesis by (simp add: power_def view_power_def sorted_list_of_fset.rep_eq)
qed

lemma quorum_view_entry:
  "quorum_view vset c = Some w \<Longrightarrow> (\<exists>voters. fmlookup (vc_votes c) w = Some voters \<and> quorum_threshold vset \<le> view_power vset voters)"
  "quorum_view vset c = res \<Longrightarrow> fmlookup (vc_votes c) w' = Some voters \<Longrightarrow> quorum_threshold vset \<le> view_power vset voters \<Longrightarrow>
     \<exists>w. res = Some w \<and> w' \<le> w"
proof -
  let ?L = "map fst (filter (\<lambda>(_, voters). view_power vset voters \<ge> quorum_threshold vset) (sorted_list_of_fmap (vc_votes c)))"
  have L: "w \<in> set ?L \<longleftrightarrow> (\<exists>voters. fmlookup (vc_votes c) w = Some voters \<and> quorum_threshold vset \<le> view_power vset voters)" for w
    by (force simp: sorted_list_of_fmap_def sorted_list_of_fset.rep_eq fmlookup_dom_iff)
  have q: "quorum_view vset c = (if ?L = [] then None else Some (Max (set ?L)))"
    using hd_in_set [of ?L] unfolding quorum_view_def Let_def fold_max_Max by (simp add: insert_absorb del: set_map set_filter hd_in_set)
  show "\<exists>voters. fmlookup (vc_votes c) w = Some voters \<and> quorum_threshold vset \<le> view_power vset voters" if "quorum_view vset c = Some w"
    using that Max_in [of "set ?L"] unfolding L [symmetric] q
    by (cases "?L = []") (auto simp del: set_map set_filter)
  show "\<exists>w. res = Some w \<and> w' \<le> w"
    if "quorum_view vset c = res" "fmlookup (vc_votes c) w' = Some voters" "quorum_threshold vset \<le> view_power vset voters"
  proof -
    have "w' \<in> set ?L" using L that(2,3) by blast
    then show ?thesis using that(1) Max_ge [of "set ?L" w'] unfolding q by (cases "?L = []") (auto simp del: set_map set_filter)
  qed
qed

lemma view_record_voters:
  assumes "view_record h w p vset c = (res, c')" and "\<forall>w. view_voters c w \<subseteq> members vset"
  shows "(\<forall>w. view_voters c' w \<subseteq> members vset) \<and> (res = None \<or> res = quorum_view vset c')"
proof -
  have "view_voters c' w' \<subseteq> view_voters c w' \<union> members vset" for w'
    using assms(1) by (auto simp: view_record_def view_voters_def Let_def split: if_splits option.splits)
  moreover have "res = None \<or> res = quorum_view vset c'"
    using assms(1) by (auto simp: view_record_def Let_def split: if_splits)
  ultimately show ?thesis using assms(2) by blast
qed

lemma view_records_voters:
  assumes "view_records vset rs c = (res, c')" and "\<forall>w. view_voters c w \<subseteq> members vset"
  shows "(\<forall>w. view_voters c' w \<subseteq> members vset) \<and> (res = None \<or> res = quorum_view vset c')"
  using assms
proof (induction vset rs c rule: view_records.induct)
  case (2 vset h w p rest c)
  obtain res1 c1 where r: "view_record h w p vset c = (res1, c1)" by force
  note voters = view_record_voters [OF this "2.prems"(2)]
  show ?case
  proof (cases "rest = []")
    case True
    then show ?thesis using voters "2.prems"(1) r by simp
  next
    case False
    then show ?thesis using voters "2.IH" [OF r [symmetric] refl False] "2.prems"(1) r by simp
  qed
qed simp

text \<open>
  A change of view is backed by two thirds of the stake. Whatever view-change votes a coordinator has recorded since it
  was created, when it moves to a view then active validators with more than two thirds of the active stake have
  voted for that view, and no higher view has a quorum.
\<close>

theorem view_change_backed:
  assumes "view_records V rs (view_new h) = (Some w, c)" and "vset_sound V"
  shows "2 * stake_of V (members V) < 3 * stake_of V (view_voters c w) \<and> view_voters c w \<subseteq> members V \<and>
    (\<forall>w' > w. \<not> 2 * stake_of V (members V) < 3 * stake_of V (view_voters c w'))"
proof -
  have init: "\<forall>w. view_voters (view_new h) w \<subseteq> members V" by (simp add: view_voters_def view_new_def)
  have sub: "\<forall>w. view_voters c w \<subseteq> members V" and q: "quorum_view V c = Some w"
    using view_records_voters [OF assms(1) init] by auto
  have thr: "quorum_threshold V \<le> view_power V voters \<longleftrightarrow> 2 * stake_of V (members V) < 3 * stake_of V (fset voters)"
    if "fmlookup (vc_votes c) w' = Some voters" for w' voters
    using that sub unat_quorum_threshold [OF assms(2)] view_power_stake [OF assms(2), of voters]
    by (auto simp: view_voters_def word_le_nat_alt split: option.splits dest: spec [of _ w'])
  have "\<not> 2 * stake_of V (members V) < 3 * stake_of V (view_voters c w')" if "w < w'" for w'
    using quorum_view_entry(2) [OF q, of w'] that thr [of w'] by (auto simp: view_voters_def not_le split: option.splits)
  with quorum_view_entry(1) [OF q] thr [of w] sub show ?thesis by (auto simp: view_voters_def split: option.splits)
qed

theorem view_change_backed_witness:
  "case view_records solo_vset [(1, 3, PartyId ''alice'')] (view_new 1) of (res, c) \<Rightarrow>
     res = Some 3 \<and> 2 * stake_of solo_vset (members solo_vset) < 3 * stake_of solo_vset (view_voters c 3)"
proof -
  let ?c = "\<lparr>vc_height = 1, vc_votes = fmupd (3 :: u32) {|PartyId ''alice''|} fmempty\<rparr>"
  have run: "view_records solo_vset [(1, 3, PartyId ''alice'')] (view_new 1) = (Some 3, ?c)"
    by (simp add: view_record_def view_new_def solo_vset_facts quorum_view_def Let_def sorted_list_of_fmap_def sorted_list_of_fset.rep_eq
        view_power_def vset_get_def map_filter_simps)
  with view_change_backed [OF run solo_vset_facts(2)] show ?thesis by simp
qed

end
