(* ===== verification/Slash_Watch.thy ===== *)
theory Slash_Watch
  imports Consensus Staking_Properties
begin

text \<open>
  \<open>node/src/slash_watch.rs\<close>: the watch that remembers the first vote of every validator for a height, a
  round and a kind, and turns a second, conflicting one into the proof that the staking prism takes.
\<close>

section \<open>The equivocation watch\<close>

record seen_vote =
  sv_block_hash :: hash
  sv_message :: bytes
  sv_signature :: bytes

record equivocation_watch =
  ew_seen :: "u64 \<times> u32 \<times> u8 \<times> string \<rightharpoonup> seen_vote"
  ew_slashed :: "string set"

definition watch_new :: equivocation_watch where
  "watch_new = \<lparr>ew_seen = Map.empty, ew_slashed = {}\<rparr>"

definition watch_prune_below :: "u64 \<Rightarrow> equivocation_watch \<Rightarrow> equivocation_watch" where
  "watch_prune_below height w = w\<lparr>ew_seen := (\<lambda>k. if fst k \<ge> height then ew_seen w k else None)\<rparr>"

definition vote_slot :: "vote \<Rightarrow> u64 \<times> u32 \<times> u8 \<times> string" where
  "vote_slot v = (vt_height v, vt_round v, (case vt_kind v of Prevote \<Rightarrow> 0 | Precommit \<Rightarrow> 1), party_name (vt_voter v))"

definition observe :: "'x hash_ext_scheme \<Rightarrow> vote \<Rightarrow> bytes \<Rightarrow> equivocation_watch \<Rightarrow> equivocation_proof option \<times> equivocation_watch" where
  "observe X v pk w =
     (if vt_signature v = [] then (None, w)
      else
        let key = vote_slot v; message = vote_signing_bytes v; name = party_name (vt_voter v) in
        case ew_seen w key of
          Some prev \<Rightarrow>
            if sv_block_hash prev \<noteq> vt_block_hash v then
              if name \<in> ew_slashed w then (None, w)
              else
                (Some \<lparr>ep_offender = PartyId name, ep_public_key = hex_encode X pk,
                   ep_message_a = hex_encode X (sv_message prev), ep_signature_a = hex_encode X (sv_signature prev),
                   ep_message_b = hex_encode X message, ep_signature_b = hex_encode X (vt_signature v)\<rparr>,
                 w\<lparr>ew_slashed := insert name (ew_slashed w)\<rparr>)
            else (None, w)
        | None \<Rightarrow>
            (None, w\<lparr>ew_seen := (ew_seen w)(key \<mapsto>
               \<lparr>sv_block_hash = vt_block_hash v, sv_message = message, sv_signature = vt_signature v\<rparr>)\<rparr>))"



section \<open>Properties\<close>

text \<open>
  Signed messages of two votes differ when their blocks do.
\<close>

lemma vote_signing_bytes_block:
  assumes "vote_slot v = vote_slot w" and "vt_block_hash v \<noteq> vt_block_hash w" and "length (hash_bytes (vt_block_hash v)) = length (hash_bytes (vt_block_hash w))"
  shows "vote_signing_bytes v \<noteq> vote_signing_bytes w"
  using assms by (auto simp: vote_signing_bytes_def vote_slot_def hash.expand)



definition double_vote :: "hash \<Rightarrow> vote" where
  "double_vote b = (let v = \<lparr>vt_height = 1, vt_round = 0, vt_block_hash = b, vt_voter = PartyId ''bob'', vt_kind = Precommit, vt_signature = []\<rparr> in
     v\<lparr>vt_signature := sign_bytes ref_staking_ext (from_seed ''bob'' [2]) (vote_signing_bytes v)\<rparr>)"


end
