(* ===== verification/Validator.thy ===== *)
theory Validator
  imports Genesis Round Slash_Watch Storage
begin

text \<open>
  \<open>node/src/validator_loop.rs\<close> and \<open>network/src/message.rs\<close>: what a validator does on a tick of its clock, on a
  message from the network and on input from its own endpoints. The tasks, channels and sockets around these handlers are left
  out: a handler runs to its end before the next one starts, as in the \<open>select!\<close> loop, and a broadcast
  appends to \<open>en_outbox\<close>. The clock of the host is an argument and stands still during one handler.
\<close>

section \<open>Messages\<close>

record view_change =
  vw_height :: u64
  vw_view :: u32
  vw_voter :: party_id
  vw_public_key :: bytes
  vw_signature :: bytes

datatype net_message =
    Hello string u64
  | NmCommand signed_command
  | NmProposal u32 block
  | NmVote vote
  | NmBlock block
  | RequestBlocks u64
  | NmBlocks "block list"
  | NmViewChange view_change
  | NmPrivate private_envelope
  | PrivateRoot root_attestation

definition view_signing_bytes :: "view_change \<Rightarrow> bytes" where
  "view_signing_bytes vc = as_bytes ''veilux/view-change/v1'' @ [255] @ u64_to_le_bytes (vw_height vc) @ u32_to_le_bytes (vw_view vc) @
     as_bytes (party_name (vw_voter vc))"

fun message_kind :: "net_message \<Rightarrow> string" where
  "message_kind (Hello _ _) = ''hello''"
| "message_kind (NmCommand _) = ''command''"
| "message_kind (NmProposal _ _) = ''proposal''"
| "message_kind (NmVote _) = ''vote''"
| "message_kind (NmBlock _) = ''block''"
| "message_kind (RequestBlocks _) = ''request_blocks''"
| "message_kind (NmBlocks _) = ''blocks''"
| "message_kind (NmViewChange _) = ''view_change''"
| "message_kind (NmPrivate _) = ''private''"
| "message_kind (PrivateRoot _) = ''private_root''"

section \<open>The engine\<close>

text \<open>The serialisers of the commands a validator submits itself are those of the storage and the staking prism.\<close>

record validator_ext = node_ext +
  vx_storage :: storage_ext
  vx_staking :: staking_ext

record engine =
  en_node :: node
  en_aurora :: aurora
  en_identity :: party_identity
  en_me :: party_id
  en_height :: u64
  en_view :: u32
  en_stale_ticks :: u32
  en_machine :: round_machine
  en_viewsync :: view_coordinator
  en_slash_watch :: equivocation_watch
  en_outbox :: "net_message list"

type_synonym 'a eng_act = "(engine, node_error, 'a) act"

definition VIEW_TIMEOUT_TICKS :: u32 where "VIEW_TIMEOUT_TICKS = 3"

definition add_seeded :: "'x identity_ext_scheme \<Rightarrow> string \<times> bytes \<Rightarrow> validator_set \<Rightarrow> validator_set" where
  "add_seeded X p vs = vset_add (validator_new (PartyId (fst p)) (public_key X (from_seed (fst p) (snd p))) 100) vs"

definition seeded_validators :: "'x identity_ext_scheme \<Rightarrow> string \<times> bytes \<Rightarrow> (string \<times> bytes) list \<Rightarrow> validator_set" where
  "seeded_validators X me peers = fold (add_seeded X) peers (add_seeded X me vset_new)"

definition broadcast :: "net_message \<Rightarrow> unit eng_act" where
  "broadcast msg = modify (\<lambda>e. e\<lparr>en_outbox := en_outbox e @ [msg]\<rparr>)"

text \<open>A call on the node whose \<open>Result\<close> the caller inspects; a panic goes on.\<close>

definition on_node :: "'a node_act \<Rightarrow> (node_error + 'a) eng_act" where
  "on_node m = (\<lambda>e. case m (en_node e) of
      (Ok v, n) \<Rightarrow> (Ok (Inr v), e\<lparr>en_node := n\<rparr>)
    | (Err x, n) \<Rightarrow> (Ok (Inl x), e\<lparr>en_node := n\<rparr>)
    | (Panic, n) \<Rightarrow> (Panic, e\<lparr>en_node := n\<rparr>))"

definition node_head :: "block eng_act" where
  "node_head = (\<lambda>e. (fst (head (en_node e)), e))"

definition on_machine :: "(driver \<Rightarrow> action list \<times> driver) \<Rightarrow> action list eng_act" where
  "on_machine f = (\<lambda>e. let (acts, (m, a)) = f (en_machine e, en_aurora e) in (Ok acts, e\<lparr>en_machine := m, en_aurora := a\<rparr>))"

definition reset_height :: "unit eng_act" where
  "reset_height =
     andthen node_head (\<lambda>hd.
     modify (\<lambda>e. let height = blk_height hd + 1 in
       e\<lparr>en_height := height, en_view := 0, en_stale_ticks := 0, en_machine := new_round height 0,
         en_viewsync := view_reset height (en_viewsync e),
         en_slash_watch := watch_prune_below (saturating_sub height 8) (en_slash_watch e)\<rparr>))"

definition adopt_view :: "u32 \<Rightarrow> unit eng_act" where
  "adopt_view view = modify (\<lambda>e.
     if view > en_view e
     then e\<lparr>en_view := view, en_stale_ticks := 0, en_machine := new_round (en_height e) view\<rparr>
     else e)"

definition sign_vote :: "'x identity_ext_scheme \<Rightarrow> party_identity \<Rightarrow> vote \<Rightarrow> vote" where
  "sign_vote X i v =
     (if vt_voter v = pi_party i \<and> vt_signature v = [] then v\<lparr>vt_signature := sign_bytes X i (vote_signing_bytes v)\<rparr> else v)"

definition make_view_change :: "'x identity_ext_scheme \<Rightarrow> party_identity \<Rightarrow> u64 \<Rightarrow> u32 \<Rightarrow> view_change" where
  "make_view_change X i height view =
     (let vc = \<lparr>vw_height = height, vw_view = view, vw_voter = pi_party i, vw_public_key = public_key X i, vw_signature = []\<rparr> in
      vc\<lparr>vw_signature := sign_bytes X i (view_signing_bytes vc)\<rparr>)"

definition verify_view_change :: "'x identity_ext_scheme \<Rightarrow> view_change \<Rightarrow> validator_set \<Rightarrow> bool" where
  "verify_view_change X vc vset =
     (if \<not> is_validator vset (vw_voter vc) then False
      else case verify_bytes X (vw_public_key vc) (view_signing_bytes vc) (vw_signature vc) of Inl _ \<Rightarrow> False | Inr _ \<Rightarrow> True)"

definition record_view :: "u64 \<Rightarrow> u32 \<Rightarrow> party_id \<Rightarrow> unit eng_act" where
  "record_view height view voter = (\<lambda>e.
     let (q, c) = view_record height view voter (au_validators (en_aurora e)) (en_viewsync e); e' = e\<lparr>en_viewsync := c\<rparr> in
     case q of None \<Rightarrow> (Ok (), e') | Some w \<Rightarrow> adopt_view w e')"

section \<open>Submitting commands\<close>

definition my_nonce :: "engine \<Rightarrow> u64" where
  "my_nonce e = (case nd_nonces (en_node e) (pi_party (en_identity e)) of None \<Rightarrow> 0 | Some n \<Rightarrow> n + 1)"

text \<open>The three places that submit a slash differ in the command only.\<close>

definition submit_slash :: "'x validator_ext_scheme \<Rightarrow> staking_command \<Rightarrow> unit eng_act" where
  "submit_slash X c =
     andthen (gets id) (\<lambda>e.
     let cmd = staking_command_of (vx_staking X) (en_me e) Public (my_nonce e) (en_height e) c;
         signed = sign_for_chain X (en_identity e) cmd (nd_chain_id (en_node e)) in
     andthen (on_node (submit_signed X signed)) (\<lambda>r.
     case r of Inl _ \<Rightarrow> ret () | Inr _ \<Rightarrow> broadcast (NmCommand signed)))"

definition submit_private_slash :: "'x validator_ext_scheme \<Rightarrow> equivocation_proof \<Rightarrow> unit eng_act" where
  "submit_private_slash X pf = submit_slash X (ScSlash pf)"

definition submit_quorum_slash :: "'x validator_ext_scheme \<Rightarrow> quorum_fraud_proof \<Rightarrow> unit eng_act" where
  "submit_quorum_slash X pf = submit_slash X (ScSlashQuorum pf)"

definition detect_equivocation :: "'x validator_ext_scheme \<Rightarrow> vote \<Rightarrow> unit eng_act" where
  "detect_equivocation X v =
     andthen (gets id) (\<lambda>e.
     case vset_get (au_validators (en_aurora e)) (vt_voter v) of
       None \<Rightarrow> ret ()
     | Some w \<Rightarrow>
         let (pf, watch) = observe X v (v_public_key w) (en_slash_watch e) in
         andthen (modify (\<lambda>e. e\<lparr>en_slash_watch := watch\<rparr>)) (\<lambda>_.
         case pf of None \<Rightarrow> ret () | Some p \<Rightarrow> submit_slash X (ScSlash p)))"

section \<open>Proposing and acting\<close>

definition build_local_block :: "'x validator_ext_scheme \<Rightarrow> u64 \<Rightarrow> (node_error + block) eng_act" where
  "build_local_block X now =
     andthen (gets id) (\<lambda>e.
     let heartbeat = put_command (vx_storage X) (pi_party (en_identity e)) Public (my_nonce e) ''block-heartbeat''
           (as_bytes (''h'' @ u128_to_string (ucast (en_height e)))) in
     andthen (on_node (submit_signed X (sign_for_chain X (en_identity e) heartbeat (nd_chain_id (en_node e))))) (\<lambda>r.
     case r of
       Inl x \<Rightarrow> ret (Inl x)
     | Inr _ \<Rightarrow> on_node (assemble_block X now)))"

definition build_or_reuse_block :: "'x validator_ext_scheme \<Rightarrow> u64 \<Rightarrow> (node_error + block) eng_act" where
  "build_or_reuse_block X now =
     andthen (gets (\<lambda>e. own_proposed_block (en_machine e))) (\<lambda>own.
     case own of Some b \<Rightarrow> ret (Inr b) | None \<Rightarrow> build_local_block X now)"

fun run_actions :: "'x validator_ext_scheme \<Rightarrow> u64 \<Rightarrow> action list \<Rightarrow> unit eng_act" where
  "run_actions X now [] = ret ()"
| "run_actions X now (act # acts) =
     andthen (case act of
        Broadcast (Proposal rnd b) \<Rightarrow> broadcast (NmProposal rnd b)
      | Broadcast (OutVote v) \<Rightarrow> andthen (gets en_identity) (\<lambda>i. broadcast (NmVote (sign_vote X i v)))
      | CommitBlock h \<Rightarrow>
          andthen (gets (\<lambda>e. rm_block (en_machine e) h)) (\<lambda>found.
          case found of
            None \<Rightarrow> ret ()
          | Some b \<Rightarrow>
              andthen (on_node (commit_block X now b)) (\<lambda>r.
              case r of
                Inl _ \<Rightarrow> ret ()
              | Inr _ \<Rightarrow> andthen node_head (\<lambda>hd. andthen (broadcast (NmBlock hd)) (\<lambda>_. reset_height))))
      | NoAction \<Rightarrow> ret ()) (\<lambda>_.
     run_actions X now acts)"

fun broadcast_votes :: "'x identity_ext_scheme \<Rightarrow> vote list \<Rightarrow> unit eng_act" where
  "broadcast_votes X [] = ret ()"
| "broadcast_votes X (v # vs) =
     andthen (gets en_identity) (\<lambda>i. andthen (broadcast (NmVote (sign_vote X i v))) (\<lambda>_. broadcast_votes X vs))"

text \<open>The first part of a tick: move on after a commit, or vote for a new view when the round is stale.\<close>

definition tick_round :: "'x validator_ext_scheme \<Rightarrow> unit eng_act" where
  "tick_round X =
     andthen node_head (\<lambda>hd.
     andthen (gets id) (\<lambda>e.
     if blk_height hd \<ge> en_height e then reset_height
     else if rm_phase (en_machine e) \<noteq> PhaseCommitted then
       let stale = en_stale_ticks e + 1 in
       andthen (modify (\<lambda>e. e\<lparr>en_stale_ticks := stale\<rparr>)) (\<lambda>_.
       if stale \<ge> VIEW_TIMEOUT_TICKS then
         let next_view = en_view e + 1; vc = make_view_change X (en_identity e) (en_height e) next_view in
         andthen (modify (\<lambda>e. e\<lparr>en_stale_ticks := 0\<rparr>)) (\<lambda>_.
         andthen (record_view (en_height e) next_view (en_me e)) (\<lambda>_.
         broadcast (NmViewChange vc)))
       else ret ())
     else ret ()))"

definition tick_propose :: "'x validator_ext_scheme \<Rightarrow> u64 \<Rightarrow> unit eng_act" where
  "tick_propose X now =
     andthen (gets id) (\<lambda>e.
     if is_local_proposer (en_aurora e) (en_height e) (en_view e) \<and> rm_phase (en_machine e) \<noteq> PhaseCommitted then
       andthen (build_or_reuse_block X now) (\<lambda>r.
       case r of
         Inl _ \<Rightarrow> ret ()
       | Inr b \<Rightarrow> andthen (on_machine (on_local_proposal X b (en_me e))) (\<lambda>acts. run_actions X now acts))
     else ret ())"

definition on_tick :: "'x validator_ext_scheme \<Rightarrow> u64 \<Rightarrow> unit eng_act" where
  "on_tick X now =
     andthen (tick_round X) (\<lambda>_.
     andthen (tick_propose X now) (\<lambda>_.
     andthen (gets (\<lambda>e. rm_my_votes (en_machine e))) (\<lambda>vs.
     broadcast_votes X vs)))"

section \<open>Messages from the network\<close>

fun accept_blocks :: "'x validator_ext_scheme \<Rightarrow> u64 \<Rightarrow> block list \<Rightarrow> nat \<Rightarrow> nat eng_act" where
  "accept_blocks X now [] applied = ret applied"
| "accept_blocks X now (b # bs) applied =
     andthen (on_node (accept_external_block X now b)) (\<lambda>r.
     accept_blocks X now bs (if r = Inr True then applied + 1 else applied))"

fun submit_frauds :: "'x validator_ext_scheme \<Rightarrow> quorum_fraud_proof list \<Rightarrow> unit eng_act" where
  "submit_frauds X [] = ret ()"
| "submit_frauds X (p # ps) = andthen (submit_quorum_slash X p) (\<lambda>_. submit_frauds X ps)"

definition on_private :: "'x validator_ext_scheme \<Rightarrow> private_envelope \<Rightarrow> unit eng_act" where
  "on_private X env =
     andthen (on_node (apply_private_envelope X env)) (\<lambda>r.
     case r of
       Inl _ \<Rightarrow> ret ()
     | Inr out \<Rightarrow>
         if po_executed out
         then case po_attestation out of None \<Rightarrow> ret () | Some att \<Rightarrow> broadcast (PrivateRoot att)
         else ret ())"

definition on_private_root :: "'x validator_ext_scheme \<Rightarrow> root_attestation \<Rightarrow> unit eng_act" where
  "on_private_root X att =
     andthen (gets (\<lambda>e. private_divergence_proof X (en_node e) att)) (\<lambda>pf.
     andthen (case pf of None \<Rightarrow> ret () | Some p \<Rightarrow> submit_private_slash X p) (\<lambda>_.
     andthen (on_node (node_record_attestation X att)) (\<lambda>r.
     case r of
       Inr (Divergence _ _) \<Rightarrow>
         andthen (gets (\<lambda>e. private_quorum_fraud_proofs X (en_node e) (ra_commitment att))) (\<lambda>frauds.
         submit_frauds X frauds)
     | _ \<Rightarrow> ret ())))"

definition on_block :: "'x validator_ext_scheme \<Rightarrow> u64 \<Rightarrow> block \<Rightarrow> unit eng_act" where
  "on_block X now b =
     andthen node_head (\<lambda>hd.
     if blk_height b > blk_height hd + 1 then broadcast (RequestBlocks (blk_height hd + 1))
     else
       andthen (on_node (accept_external_block X now b)) (\<lambda>r.
       if r = Inr True then reset_height else ret ()))"

definition on_blocks :: "'x validator_ext_scheme \<Rightarrow> u64 \<Rightarrow> block list \<Rightarrow> unit eng_act" where
  "on_blocks X now bs =
     andthen (accept_blocks X now bs 0) (\<lambda>applied.
     if applied > 0 then andthen node_head (\<lambda>_. reset_height) else ret ())"

definition on_vote_message :: "'x validator_ext_scheme \<Rightarrow> u64 \<Rightarrow> vote \<Rightarrow> unit eng_act" where
  "on_vote_message X now v =
     andthen (detect_equivocation X v) (\<lambda>_.
     andthen (gets en_me) (\<lambda>me.
     andthen (on_machine (on_vote X v me)) (\<lambda>acts.
     run_actions X now acts)))"

definition on_view_change :: "'x validator_ext_scheme \<Rightarrow> view_change \<Rightarrow> unit eng_act" where
  "on_view_change X vc =
     andthen (gets (\<lambda>e. verify_view_change X vc (au_validators (en_aurora e)))) (\<lambda>valid.
     if valid then record_view (vw_height vc) (vw_view vc) (vw_voter vc) else ret ())"

definition handle_message :: "'x validator_ext_scheme \<Rightarrow> u64 \<Rightarrow> net_message \<Rightarrow> unit eng_act" where
  "handle_message X now msg =
     andthen node_head (\<lambda>hd.
     let parent = block_hash X hd in
     case msg of
       NmProposal _ b \<Rightarrow>
         andthen (gets en_me) (\<lambda>me.
         andthen (on_machine (on_proposal X b me parent)) (\<lambda>acts.
         run_actions X now acts))
     | NmVote v \<Rightarrow> on_vote_message X now v
     | NmViewChange vc \<Rightarrow> on_view_change X vc
     | NmCommand sc \<Rightarrow> andthen (on_node (submit_signed X sc)) (\<lambda>_. ret ())
     | NmPrivate env \<Rightarrow> on_private X env
     | PrivateRoot att \<Rightarrow> on_private_root X att
     | NmBlock b \<Rightarrow> on_block X now b
     | RequestBlocks from_height \<Rightarrow>
         andthen (gets (\<lambda>e. blocks_from (en_node e) from_height 256)) (\<lambda>bs.
         if bs \<noteq> [] then broadcast (NmBlocks bs) else ret ())
     | NmBlocks bs \<Rightarrow> on_blocks X now bs
     | Hello _ _ \<Rightarrow> ret ())"

section \<open>Input from the validator's own endpoints\<close>

definition on_ingress :: "'x validator_ext_scheme \<Rightarrow> signed_command \<Rightarrow> unit eng_act" where
  "on_ingress X sc =
     andthen (on_node (submit_signed X sc)) (\<lambda>r.
     case r of Inl _ \<Rightarrow> ret () | Inr _ \<Rightarrow> broadcast (NmCommand sc))"

definition on_private_ingress :: "'x validator_ext_scheme \<Rightarrow> private_envelope \<Rightarrow> unit eng_act" where
  "on_private_ingress X env =
     andthen (on_node (apply_private_envelope X env)) (\<lambda>r.
     case r of
       Inl _ \<Rightarrow> ret ()
     | Inr out \<Rightarrow>
         andthen (broadcast (NmPrivate env)) (\<lambda>_.
         case po_attestation out of None \<Rightarrow> ret () | Some att \<Rightarrow> broadcast (PrivateRoot att)))"

section \<open>Start\<close>

text \<open>
  The part of \<open>run_validator\<close> before the loop. The cascade of installed prisms and the directory of the
  store are arguments; the error of a seeding becomes that of the store, with its text left open.
\<close>

definition boot_node :: "'x validator_ext_scheme \<Rightarrow> (prism_error \<Rightarrow> string) \<Rightarrow> string \<Rightarrow> cascade \<Rightarrow> directory \<Rightarrow> chain_spec option \<Rightarrow>
   (string \<times> string) list \<Rightarrow> (node_error, unit) outcome \<times> node" where
  "boot_node X text_of name c d spec host_parties =
     (case with_store X (PartyId name) c d of
        (Ok _, n) \<Rightarrow>
          andthen (case spec of
             None \<Rightarrow> ret ()
           | Some sp \<Rightarrow>
               andthen (seed_genesis_state X (map_err (\<lambda>x. StoreErr (text_of x)) (spec_seed X sp))) (\<lambda>_.
               modify (\<lambda>n. n\<lparr>nd_fee_policy := spec_fee_policy sp, nd_chain_id := cs_chain_id sp\<rparr>))) (\<lambda>_.
          modify (fold (\<lambda>(p, pass). host_party (from_passphrase X (PartyId p) pass)) host_parties)) n
      | (Err x, n) \<Rightarrow> (Err x, n)
      | (Panic, n) \<Rightarrow> (Panic, n))"

definition start_engine :: "'x identity_ext_scheme \<Rightarrow> string \<times> bytes \<Rightarrow> (string \<times> bytes) list \<Rightarrow> node \<Rightarrow> (node_error, engine) outcome" where
  "start_engine X me peers n =
     (case fst (head n) of
        Ok tip \<Rightarrow>
          let height = blk_height tip + 1 in
          Ok \<lparr>en_node = n, en_aurora = aurora_new default_config (seeded_validators X me peers) (Some (PartyId (fst me))),
              en_identity = from_seed (fst me) (snd me), en_me = PartyId (fst me), en_height = height, en_view = 0, en_stale_ticks = 0,
              en_machine = new_round height 0, en_viewsync = view_new height, en_slash_watch = watch_new, en_outbox = []\<rparr>
      | Err x \<Rightarrow> Err x
      | Panic \<Rightarrow> Panic)"

end
