(* ===== verification/Validator_Properties.thy ===== *)
theory Validator_Properties
  imports Validator
begin

text \<open>
  What a validator does over any sequence of ticks, messages and submissions: it stays on the next height and view of
  its chain and never signs two conflicting votes; and what it accepts without a vote.
\<close>

section \<open>Triples\<close>

text \<open>
  \<open>triple R P m Q\<close>: from a state in \<open>P\<close>, the action ends in \<open>Q\<close> of its result, or stops early in \<open>R\<close>.
\<close>

definition triple :: "('s \<Rightarrow> bool) \<Rightarrow> ('s \<Rightarrow> bool) \<Rightarrow> ('s, 'e, 'a) act \<Rightarrow> ('a \<Rightarrow> 's \<Rightarrow> bool) \<Rightarrow> bool" where
  "triple R P m Q \<longleftrightarrow> (\<forall>s. P s \<longrightarrow> (case m s of (Ok x, s') \<Rightarrow> Q x s' | (Err _, s') \<Rightarrow> R s' | (Panic, s') \<Rightarrow> R s'))"

named_theorems triple_intros \<open>compositional rules for triples\<close>

lemma triple_andthen [triple_intros]:
  "triple R P m Q \<Longrightarrow> (\<And>x. triple R (Q x) (f x) T) \<Longrightarrow> triple R P (andthen m f) T"
  unfolding triple_def andthen_def by (fastforce split: outcome.splits prod.splits)

lemma triple_ret [triple_intros]: "(\<And>s. P s \<Longrightarrow> Q x s) \<Longrightarrow> triple R P (ret x) Q"
  by (simp add: triple_def ret_def)

lemma triple_modify [triple_intros]: "(\<And>s. P s \<Longrightarrow> Q () (f s)) \<Longrightarrow> triple R P (modify f) Q"
  by (simp add: triple_def modify_def)

lemma triple_gets: "triple R P (gets f) (\<lambda>x s. P s \<and> x = f s)"
  by (simp add: triple_def gets_def)

lemma triple_read: "(\<And>s. P s \<Longrightarrow> triple R P' (f s) Q) \<Longrightarrow> (\<And>s. P s \<Longrightarrow> P' s) \<Longrightarrow> triple R P (andthen (gets id) f) Q"
  by (simp add: triple_def andthen_def gets_def)

lemma triple_weaken: "triple R P m Q \<Longrightarrow> (\<And>s. P' s \<Longrightarrow> P s) \<Longrightarrow> (\<And>x s. Q x s \<Longrightarrow> Q' x s) \<Longrightarrow> triple R P' m Q'"
  unfolding triple_def by (fastforce split: outcome.splits prod.splits)

lemma triple_if [triple_intros]:
  "(c \<Longrightarrow> triple R P m Q) \<Longrightarrow> (\<not> c \<Longrightarrow> triple R P m' Q) \<Longrightarrow> triple R P (if c then m else m') Q"
  by simp

lemma triple_option [triple_intros]:
  "(z = None \<Longrightarrow> triple R P m Q) \<Longrightarrow> (\<And>x. z = Some x \<Longrightarrow> triple R P (f x) Q) \<Longrightarrow>
   triple R P (case z of None \<Rightarrow> m | Some x \<Rightarrow> f x) Q"
  by (cases z) auto

lemma triple_sum [triple_intros]:
  "(\<And>x. z = Inl x \<Longrightarrow> triple R P (g x) Q) \<Longrightarrow> (\<And>x. z = Inr x \<Longrightarrow> triple R P (f x) Q) \<Longrightarrow>
   triple R P (case z of Inl x \<Rightarrow> g x | Inr x \<Rightarrow> f x) Q"
  by (cases z) auto

lemma tripleD: "triple R P m Q \<Longrightarrow> P s \<Longrightarrow> (\<And>x s. Q x s \<Longrightarrow> R s) \<Longrightarrow> R (snd (m s))"
  unfolding triple_def by (cases "m s"; cases "fst (m s)") fastforce+

section \<open>The invariant of an engine\<close>

definition bare :: "vote \<Rightarrow> vote" where
  "bare v = v\<lparr>vt_signature := []\<rparr>"

text \<open>The votes a validator has sent, without their signatures.\<close>

definition sent_votes :: "engine \<Rightarrow> vote set" where
  "sent_votes e = {bare v | v. NmVote v \<in> set (en_outbox e)}"

definition before :: "u64 \<times> u32 \<Rightarrow> u64 \<times> u32 \<Rightarrow> bool" where
  "before k l \<longleftrightarrow> fst k < fst l \<or> (fst k = fst l \<and> snd k < snd l)"

abbreviation vkey :: "vote \<Rightarrow> u64 \<times> u32" where
  "vkey v \<equiv> (vt_height v, vt_round v)"

definition consistent :: "vote set \<Rightarrow> bool" where
  "consistent W \<longleftrightarrow> (\<forall>v \<in> W. \<forall>w \<in> W. vkey v = vkey w \<and> vt_kind v = vt_kind w \<longrightarrow> vt_block_hash v = vt_block_hash w)"

definition numbered :: "block list \<Rightarrow> bool" where
  "numbered bs \<longleftrightarrow> bs \<noteq> [] \<and> (\<forall>i < length bs. blk_height (bs ! i) = of_nat i)"

definition votes_inv :: "vote set \<Rightarrow> engine \<Rightarrow> bool" where
  "votes_inv W e \<longleftrightarrow>
     rm_height (en_machine e) = en_height e \<and> rm_round (en_machine e) = en_view e \<and>
     (\<exists>hs. round_inv (en_me e) (en_machine e, en_aurora e) (rm_my_votes (en_machine e)) hs) \<and>
     (\<forall>w \<in> W. before (vkey w) (en_height e, en_view e) \<or>
        (vkey w = (en_height e, en_view e) \<and> w \<in> set (rm_my_votes (en_machine e)))) \<and> consistent W"

text \<open>
  \<open>engine_inv P e\<close>: the votes sent and the votes \<open>P\<close> still to be sent are consistent, as long as the
  heights of the chain fit in \<open>u64\<close>.
\<close>

definition engine_inv :: "vote set \<Rightarrow> engine \<Rightarrow> bool" where
  "engine_inv P e \<longleftrightarrow> numbered (nd_blocks (en_node e)) \<and>
     (length (nd_blocks (en_node e)) < 2 ^ 64 \<longrightarrow>
        unat (en_height e) \<le> length (nd_blocks (en_node e)) \<and> votes_inv (sent_votes e \<union> bare ` P) e)"

definition advanced :: "engine \<Rightarrow> bool" where
  "advanced e \<longleftrightarrow> (length (nd_blocks (en_node e)) < 2 ^ 64 \<longrightarrow> unat (en_height e) < length (nd_blocks (en_node e)))"

lemma before_trans: "before k l \<Longrightarrow> before l m \<Longrightarrow> before k m"
  by (auto simp: before_def)

lemma consistent_mono: "consistent W \<Longrightarrow> V \<subseteq> W \<Longrightarrow> consistent V"
  by (auto simp: consistent_def)

lemma engine_inv_mono: "engine_inv P e \<Longrightarrow> Q \<subseteq> P \<Longrightarrow> engine_inv Q e"
  unfolding engine_inv_def votes_inv_def by (auto intro: consistent_mono)

lemma numbered_head: "numbered bs \<Longrightarrow> blk_height (last bs) + 1 = of_nat (length bs)"
  by (cases bs rule: rev_cases) (auto simp: numbered_def)

lemma numbered_snoc: "numbered bs \<Longrightarrow> blk_height b = blk_height (last bs) + 1 \<Longrightarrow> numbered (bs @ [b])"
  using numbered_head [of bs] by (auto simp: numbered_def nth_append less_Suc_eq)

text \<open>Two votes of one kind in what a machine has sent are the same.\<close>

lemma shape_unique:
  "round_inv me (m, a) vs hs \<Longrightarrow> v \<in> set vs \<Longrightarrow> w \<in> set vs \<Longrightarrow> vt_kind v = vt_kind w \<Longrightarrow> v = w"
  "round_inv me (m, a) vs hs \<Longrightarrow> v \<in> set vs \<Longrightarrow> bare v = v \<and> vkey v = (rm_height m, rm_round m)"
  by (auto simp: round_inv_def shape_def make_vote_def bare_def)

section \<open>Steps that do not touch the votes\<close>

text \<open>The part of an engine its invariant looks at, the chain apart.\<close>

definition focus_of :: "engine \<Rightarrow> party_id \<times> u64 \<times> u32 \<times> round_machine \<times> aurora \<times> vote set" where
  "focus_of e = (en_me e, en_height e, en_view e, en_machine e, en_aurora e, sent_votes e)"

lemma engine_inv_cong:
  "focus_of e' = focus_of e \<Longrightarrow> nd_blocks (en_node e') = nd_blocks (en_node e) \<Longrightarrow> engine_inv P e' = engine_inv P e"
  "focus_of e' = focus_of e \<Longrightarrow> nd_blocks (en_node e') = nd_blocks (en_node e) \<Longrightarrow> advanced e' = advanced e"
  by (auto simp: focus_of_def engine_inv_def votes_inv_def advanced_def)

lemma focus_of_upd [simp]:
  "focus_of (e\<lparr>en_node := n\<rparr>) = focus_of e" "focus_of (e\<lparr>en_stale_ticks := k\<rparr>) = focus_of e"
  "focus_of (e\<lparr>en_viewsync := c\<rparr>) = focus_of e" "focus_of (e\<lparr>en_slash_watch := w\<rparr>) = focus_of e"
  by (simp_all add: focus_of_def sent_votes_def)

lemma inv_upd [simp]:
  "engine_inv P (e\<lparr>en_stale_ticks := k\<rparr>) = engine_inv P e" "engine_inv P (e\<lparr>en_viewsync := c\<rparr>) = engine_inv P e"
  "engine_inv P (e\<lparr>en_slash_watch := w\<rparr>) = engine_inv P e"
  by (rule engine_inv_cong; simp)+

abbreviation stays :: "(engine \<Rightarrow> bool) \<Rightarrow> 'a eng_act \<Rightarrow> bool" where
  "stays P m \<equiv> triple (engine_inv {}) P m (\<lambda>_. P)"

lemma sent_votes_broadcast:
  "sent_votes (e\<lparr>en_outbox := en_outbox e @ [msg]\<rparr>) = (case msg of NmVote v \<Rightarrow> insert (bare v) (sent_votes e) | _ \<Rightarrow> sent_votes e)"
  by (auto simp: sent_votes_def split: net_message.splits)

lemma broadcast_inv:
  assumes "\<And>v. msg \<noteq> NmVote v"
  shows "engine_inv P (e\<lparr>en_outbox := en_outbox e @ [msg]\<rparr>) = engine_inv P e"
    "advanced (e\<lparr>en_outbox := en_outbox e @ [msg]\<rparr>) = advanced e"
  using assms by (intro engine_inv_cong; auto simp: focus_of_def sent_votes_broadcast split: net_message.splits)+

lemma stays_broadcast: "(\<And>v. msg \<noteq> NmVote v) \<Longrightarrow> stays (engine_inv P) (broadcast msg)"
  unfolding broadcast_def by (intro triple_intros) (simp add: broadcast_inv)

lemma stays_on_node:
  assumes "\<And>n r n'. m n = (r, n') \<Longrightarrow> nd_blocks n' = nd_blocks n"
  shows "stays (engine_inv P) (on_node m)"
  unfolding triple_def
proof (intro allI impI)
  fix e assume e: "engine_inv P e"
  obtain r n' where r: "m (en_node e) = (r, n')" by force
  have "engine_inv P (e\<lparr>en_node := n'\<rparr>)" using e assms [OF r] by (subst engine_inv_cong) auto
  then show "case on_node m e of (Ok x, s') \<Rightarrow> engine_inv P s' | (Err _, s') \<Rightarrow> engine_inv {} s' | (Panic, s') \<Rightarrow> engine_inv {} s'"
    using engine_inv_mono by (cases r) (auto simp: on_node_def r)
qed

lemma blocks_of_core: "core n' = core n \<Longrightarrow> nd_blocks n' = nd_blocks n"
  by (simp add: core_def)

lemma stays_node_calls:
  "stays (engine_inv P) (on_node (submit_signed X sc))" "stays (engine_inv P) (on_node (assemble_block Y now))"
  "stays (engine_inv P) (on_node (apply_private_envelope X env))" "stays (engine_inv P) (on_node (node_record_attestation X att))"
  unfolding submit_signed_def by (rule stays_on_node, erule core_same [THEN blocks_of_core])+

lemma stays_gets: "stays P (gets f)"
  by (simp add: triple_def gets_def)


section \<open>Steps of the chain\<close>

lemma engine_inv_extends:
  assumes "extends X b (en_node e) n'" and "engine_inv P e"
  shows "engine_inv P (e\<lparr>en_node := n'\<rparr>) \<and> advanced (e\<lparr>en_node := n'\<rparr>)"
proof -
  obtain s es where x: "blk_height b = blk_height (last (nd_blocks (en_node e))) + 1" "nd_blocks n' = nd_blocks (en_node e) @ [b\<lparr>blk_events := es\<rparr>]"
    using assms(1) by (auto simp: extends_def core_def)
  then have "numbered (nd_blocks n')" using assms(2) numbered_snoc by (simp add: engine_inv_def)
  then show ?thesis
    using assms(2) x(2) by (auto simp: engine_inv_def advanced_def votes_inv_def sent_votes_def)
qed

lemma commit_step:
  "triple (engine_inv {}) (engine_inv P) (on_node (commit_block X now b)) (\<lambda>r e. engine_inv P e \<and> (\<forall>sm. r = Inr sm \<longrightarrow> advanced e))"
  unfolding triple_def
proof (intro allI impI)
  fix e assume e: "engine_inv P e"
  obtain r n' where r: "commit_block X now b (en_node e) = (r, n')" by force
  from commit_block_cases [OF this] e engine_inv_extends engine_inv_cong(1) [of "e\<lparr>en_node := n'\<rparr>" e P]
  have "engine_inv P (e\<lparr>en_node := n'\<rparr>) \<and> ((\<exists>sm. r = Ok sm) \<longrightarrow> advanced (e\<lparr>en_node := n'\<rparr>))"
    by (fastforce dest: blocks_of_core)
  then show "case on_node (commit_block X now b) e of
      (Ok r, e') \<Rightarrow> engine_inv P e' \<and> (\<forall>sm. r = Inr sm \<longrightarrow> advanced e') | (Err _, e') \<Rightarrow> engine_inv {} e' | (Panic, e') \<Rightarrow> engine_inv {} e'"
    using engine_inv_mono by (cases r) (auto simp: on_node_def r)
qed

lemma accept_True:
  assumes "accept_external_block X now b n = (Ok True, n')"
  shows "extends X b n n'"
proof -
  have "\<exists>sm. commit_block X now b n = (Ok sm, n')"
    using assms by (auto simp: accept_external_block_def andthen_def [of "commit_block X now b"] split: if_splits outcome.splits prod.splits)
  then show ?thesis using commit_block_cases by blast
qed

lemma accept_step:
  "triple (engine_inv {}) (engine_inv P) (on_node (accept_external_block X now b)) (\<lambda>r e. engine_inv P e \<and> (r = Inr True \<longrightarrow> advanced e))"
  "triple (engine_inv {}) (\<lambda>e. engine_inv P e \<and> advanced e) (on_node (accept_external_block X now b)) (\<lambda>_ e. engine_inv P e \<and> advanced e)"
proof -
  have "engine_inv P (e\<lparr>en_node := n'\<rparr>) \<and> (r = Ok True \<or> advanced e \<longrightarrow> advanced (e\<lparr>en_node := n'\<rparr>))"
    if "engine_inv P e" "accept_external_block X now b (en_node e) = (r, n')" for e r n'
    using accept_external_cases [OF that(2)] that accept_True [of X now b "en_node e" n'] engine_inv_extends [of X b e n' P]
      engine_inv_cong [of "e\<lparr>en_node := n'\<rparr>" e] by (auto dest: blocks_of_core)
  then show "triple (engine_inv {}) (engine_inv P) (on_node (accept_external_block X now b)) (\<lambda>r e. engine_inv P e \<and> (r = Inr True \<longrightarrow> advanced e))"
    "triple (engine_inv {}) (\<lambda>e. engine_inv P e \<and> advanced e) (on_node (accept_external_block X now b)) (\<lambda>_ e. engine_inv P e \<and> advanced e)"
    unfolding triple_def on_node_def using engine_inv_mono [of P _ "{}"]
    by (fastforce split: outcome.splits prod.splits)+
qed

lemma node_head_step:
  "triple (engine_inv {}) (engine_inv P) node_head (\<lambda>hd e. engine_inv P e \<and> hd = last (nd_blocks (en_node e)))"
  by (auto simp: triple_def node_head_def head_def engine_inv_def numbered_def)

lemma new_round_fields: "rm_height (new_round h v) = h" "rm_round (new_round h v) = v" "rm_my_votes (new_round h v) = []"
  by (simp_all add: new_round_def)

text \<open>A new machine for a later height or view: everything sent so far lies behind it.\<close>

lemma new_machine_inv:
  assumes "votes_inv W e" and "before (en_height e, en_view e) (h, v)"
    and "en_height e' = h" "en_view e' = v" "en_machine e' = new_round h v"
  shows "votes_inv W e'"
proof -
  have "before (vkey w) (h, v)" if "w \<in> W" for w
  proof -
    have "before (vkey w) (en_height e, en_view e) \<or> vkey w = (en_height e, en_view e)"
      using assms(1) that unfolding votes_inv_def by blast
    then show ?thesis using assms(2) before_trans by auto
  qed
  moreover have "consistent W" using assms(1) by (simp add: votes_inv_def)
  ultimately show ?thesis
    unfolding votes_inv_def assms(3-5) new_round_fields by (intro conjI exI [of _ "[]"] new_round_inv) simp_all
qed

definition at_height :: "u64 \<Rightarrow> engine \<Rightarrow> engine" where
  "at_height h e = e\<lparr>en_height := h, en_view := 0, en_stale_ticks := 0, en_machine := new_round h 0,
     en_viewsync := view_reset h (en_viewsync e), en_slash_watch := watch_prune_below (saturating_sub h 8) (en_slash_watch e)\<rparr>"

lemma at_height_fields [simp]:
  "en_height (at_height h e) = h" "en_view (at_height h e) = 0" "en_machine (at_height h e) = new_round h 0"
  "en_node (at_height h e) = en_node e" "sent_votes (at_height h e) = sent_votes e"
  by (simp_all add: at_height_def sent_votes_def)

lemma reset_height_run:
  "nd_blocks (en_node e) \<noteq> [] \<Longrightarrow> reset_height e = (Ok (), at_height (blk_height (last (nd_blocks (en_node e))) + 1) e)"
  by (simp add: reset_height_def andthen_def node_head_def head_def modify_def gets_def ret_def at_height_def Let_def)

lemma unat_of_nat_64: "n < 2 ^ 64 \<Longrightarrow> unat (of_nat n :: u64) = n"
  by (simp add: unat_of_nat take_bit_nat_eq_self)

lemma reset_height_step: "triple (engine_inv {}) (\<lambda>e. engine_inv P e \<and> advanced e) reset_height (\<lambda>_. engine_inv P)"
  unfolding triple_def
proof (intro allI impI)
  fix e assume e: "engine_inv P e \<and> advanced e"
  let ?n = "length (nd_blocks (en_node e))"
  have n: "numbered (nd_blocks (en_node e))" and ne: "nd_blocks (en_node e) \<noteq> []" using e by (simp_all add: engine_inv_def numbered_def)
  have "votes_inv (sent_votes e \<union> bare ` P) (at_height (of_nat ?n) e) \<and> unat (of_nat ?n :: u64) \<le> ?n" if "?n < 2 ^ 64"
  proof -
    have u: "unat (of_nat ?n :: u64) = ?n" by (rule unat_of_nat_64 [OF that])
    have "unat (en_height e) < unat (of_nat ?n :: u64)" unfolding u using e that unfolding advanced_def by blast
    then have lt: "before (en_height e, en_view e) (of_nat ?n, 0)" unfolding before_def word_less_nat_alt by simp
    have "votes_inv (sent_votes e \<union> bare ` P) e" using e that unfolding engine_inv_def by blast
    from new_machine_inv [OF this lt, of "at_height (of_nat ?n) e"] show ?thesis unfolding u by simp
  qed
  then have "engine_inv P (at_height (of_nat ?n) e)" using n unfolding engine_inv_def at_height_fields by blast
  then show "case reset_height e of (Ok x, s') \<Rightarrow> engine_inv P s' | (Err _, s') \<Rightarrow> engine_inv {} s' | (Panic, s') \<Rightarrow> engine_inv {} s'"
    by (simp add: reset_height_run [OF ne] numbered_head [OF n])
qed


section \<open>Steps of the round machine\<close>

lemma adopt_view_inv: "engine_inv P e \<Longrightarrow> engine_inv P (snd (adopt_view w e))"
proof -
  assume e: "engine_inv P e"
  let ?e = "e\<lparr>en_view := w, en_stale_ticks := 0, en_machine := new_round (en_height e) w\<rparr>"
  have v: "votes_inv W ?e" if "votes_inv W e" "en_view e < w" for W
  proof (rule new_machine_inv [OF that(1)])
    show "before (en_height e, en_view e) (en_height e, w)" using that(2) by (simp add: before_def)
  qed simp_all
  have f: "en_node ?e = en_node e" "en_height ?e = en_height e" "sent_votes ?e = sent_votes e" by (simp_all add: sent_votes_def)
  have "engine_inv P ?e" if "en_view e < w" using e v [OF _ that] unfolding engine_inv_def f by blast
  moreover have "adopt_view w e = (Ok (), if en_view e < w then ?e else e)" by (simp add: adopt_view_def modify_def)
  ultimately show ?thesis using e by (cases "en_view e < w") (simp_all only: if_True if_False snd_conv)
qed

lemma record_view_step: "stays (engine_inv P) (record_view h w p)"
  unfolding triple_def
proof (intro allI impI)
  fix e assume e: "engine_inv P e"
  obtain q c where q: "view_record h w p (au_validators (en_aurora e)) (en_viewsync e) = (q, c)" by force
  show "case record_view h w p e of (Ok x, s') \<Rightarrow> engine_inv P s' | (Err _, s') \<Rightarrow> engine_inv {} s' | (Panic, s') \<Rightarrow> engine_inv {} s'"
    using adopt_view_inv [of P "e\<lparr>en_viewsync := c\<rparr>"] e q
    by (auto simp: record_view_def Let_def adopt_view_def modify_def split: option.splits)
qed

lemma machine_step:
  "triple (engine_inv {}) (\<lambda>e. engine_inv {} e \<and> en_me e = me) (on_machine (round_input X me i)) (\<lambda>acts. engine_inv (set (votes_of acts)))"
  unfolding triple_def
proof (intro allI impI)
  fix e assume e: "engine_inv {} e \<and> en_me e = me"
  obtain acts m a where r: "round_input X me i (en_machine e, en_aurora e) = (acts, m, a)" by (metis prod.collapse)
  let ?e = "e\<lparr>en_machine := m, en_aurora := a\<rparr>" and ?V = "set (votes_of acts)"
  have "votes_inv (sent_votes e \<union> bare ` ?V) ?e" if v: "votes_inv (sent_votes e) e"
  proof -
    obtain hs where hs: "round_inv me (en_machine e, en_aurora e) (rm_my_votes (en_machine e)) hs" using v e by (auto simp: votes_inv_def)
    from round_input_inv [OF r this] obtain hs' where inv: "round_inv me (m, a) (rm_my_votes (en_machine e) @ votes_of acts) hs'"
      and hr: "rm_height m = rm_height (en_machine e)" "rm_round m = rm_round (en_machine e)" by blast
    then have my: "rm_my_votes m = rm_my_votes (en_machine e) @ votes_of acts" by (simp add: round_inv_def)
    let ?k = "(en_height e, en_view e)"
    have k: "(rm_height m, rm_round m) = ?k" using hr v by (simp add: votes_inv_def)
    have new: "bare w = w \<and> vkey w = ?k" if "w \<in> ?V" for w using shape_unique(2) [OF inv, of w] that k by auto
    have old: "before (vkey w) ?k \<or> (vkey w = ?k \<and> w \<in> set (rm_my_votes m))" if "w \<in> sent_votes e \<union> bare ` ?V" for w
      using v that new my unfolding votes_inv_def by auto
    have behind: "w \<in> sent_votes e" if "w \<in> sent_votes e \<union> bare ` ?V" "vkey w \<noteq> ?k" for w
      using that new by auto
    have "consistent (sent_votes e \<union> bare ` ?V)"
      unfolding consistent_def
    proof (intro ballI impI)
      fix x y assume x: "x \<in> sent_votes e \<union> bare ` ?V" and y: "y \<in> sent_votes e \<union> bare ` ?V"
        and eq: "vkey x = vkey y \<and> vt_kind x = vt_kind y"
      show "vt_block_hash x = vt_block_hash y"
      proof (cases "vkey x = ?k")
        case True
        then have "x \<in> set (rm_my_votes m)" "y \<in> set (rm_my_votes m)" using old [OF x] old [OF y] eq by (auto simp: before_def)
        then show ?thesis using shape_unique(1) [OF inv, of x y] eq my by auto
      next
        case False
        then have "x \<in> sent_votes e" "y \<in> sent_votes e" using behind [OF x] behind [OF y] eq by (simp_all only: simp_thms)
        moreover have "consistent (sent_votes e)" using v by (simp add: votes_inv_def)
        ultimately show ?thesis using eq unfolding consistent_def by blast
      qed
    qed
    moreover have "round_inv (en_me e) (m, a) (rm_my_votes m) hs'" using inv my e by simp
    moreover have "rm_height m = en_height e" "rm_round m = en_view e" using k by auto
    moreover have "\<forall>w \<in> sent_votes e \<union> bare ` ?V. before (vkey w) ?k \<or> (vkey w = ?k \<and> w \<in> set (rm_my_votes m))"
      using old by blast
    moreover have "en_machine ?e = m" "en_aurora ?e = a" "en_height ?e = en_height e" "en_view ?e = en_view e" "en_me ?e = en_me e"
      by simp_all
    ultimately show ?thesis unfolding votes_inv_def by (simp only: simp_thms) blast
  qed
  moreover have "sent_votes ?e = sent_votes e" by (simp add: sent_votes_def)
  ultimately have "engine_inv ?V ?e" using e by (simp add: engine_inv_def)
  then show "case on_machine (round_input X me i) e of
      (Ok acts, e') \<Rightarrow> engine_inv (set (votes_of acts)) e' | (Err _, e') \<Rightarrow> engine_inv {} e' | (Panic, e') \<Rightarrow> engine_inv {} e'"
    by (simp add: on_machine_def r)
qed

lemma send_vote_step: "engine_inv P e \<Longrightarrow> v \<in> P \<Longrightarrow> engine_inv P (e\<lparr>en_outbox := en_outbox e @ [NmVote (sign_vote X i v)]\<rparr>)"
proof -
  assume e: "engine_inv P e" and v: "v \<in> P"
  let ?e = "e\<lparr>en_outbox := en_outbox e @ [NmVote (sign_vote X i v)]\<rparr>"
  have "bare (sign_vote X i v) = bare v" by (simp add: bare_def sign_vote_def)
  then have "sent_votes ?e \<union> bare ` P = sent_votes e \<union> bare ` P" using v by (auto simp: sent_votes_broadcast)
  then show ?thesis using e by (simp add: engine_inv_def votes_inv_def)
qed

lemma announce_step:
  "triple (engine_inv {}) (\<lambda>e. engine_inv P e \<and> advanced e)
     (andthen node_head (\<lambda>hd. andthen (broadcast (NmBlock hd)) (\<lambda>_. reset_height))) (\<lambda>_. engine_inv P)"
proof (rule triple_andthen)
  show "triple (engine_inv {}) (\<lambda>e. engine_inv P e \<and> advanced e) node_head (\<lambda>_ e. engine_inv P e \<and> advanced e)"
    by (simp add: triple_def node_head_def head_def engine_inv_def numbered_def andthen_def gets_def ret_def)
  fix hd
  have "triple (engine_inv {}) (\<lambda>e. engine_inv P e \<and> advanced e) (broadcast (NmBlock hd)) (\<lambda>_ e. engine_inv P e \<and> advanced e)"
    by (simp add: triple_def broadcast_def modify_def broadcast_inv)
  then show "triple (engine_inv {}) (\<lambda>e. engine_inv P e \<and> advanced e) (andthen (broadcast (NmBlock hd)) (\<lambda>_. reset_height)) (\<lambda>_. engine_inv P)"
    by (rule triple_andthen) (rule reset_height_step)
qed

lemma commit_action_step:
  "stays (engine_inv P) (andthen (gets (\<lambda>e. rm_block (en_machine e) h)) (\<lambda>found.
      case found of
        None \<Rightarrow> ret ()
      | Some b \<Rightarrow>
          andthen (on_node (commit_block X now b)) (\<lambda>r.
          case r of
            Inl _ \<Rightarrow> ret ()
          | Inr _ \<Rightarrow> andthen node_head (\<lambda>hd. andthen (broadcast (NmBlock hd)) (\<lambda>_. reset_height)))))"
proof (rule triple_andthen [OF stays_gets], rule triple_option)
  fix b
  show "stays (engine_inv P) (andthen (on_node (commit_block X now b)) (\<lambda>r.
          case r of
            Inl _ \<Rightarrow> ret ()
          | Inr _ \<Rightarrow> andthen node_head (\<lambda>hd. andthen (broadcast (NmBlock hd)) (\<lambda>_. reset_height))))"
  proof (rule triple_andthen [OF commit_step], rule triple_sum)
    fix r and sm assume r: "(r :: node_error + block_summary) = Inr sm"
    show "triple (engine_inv {}) (\<lambda>e. engine_inv P e \<and> (\<forall>sm. r = Inr sm \<longrightarrow> advanced e))
        (andthen node_head (\<lambda>hd. andthen (broadcast (NmBlock hd)) (\<lambda>_. reset_height))) (\<lambda>_. engine_inv P)"
      by (rule triple_weaken [OF announce_step]) (use r in auto)
  qed (rule triple_ret, simp)
qed (rule triple_ret)

lemma vote_action_step: "v \<in> P \<Longrightarrow> stays (engine_inv P) (andthen (gets en_identity) (\<lambda>i. broadcast (NmVote (sign_vote X i v))))"
  by (simp add: triple_def broadcast_def modify_def andthen_def gets_def send_vote_step)

lemma run_actions_step: "set (votes_of acts) \<subseteq> P \<Longrightarrow> stays (engine_inv P) (run_actions X now acts)"
proof (induction acts)
  case Nil
  show ?case unfolding run_actions.simps by (rule triple_ret)
next
  case (Cons act acts)
  have sub: "set (votes_of acts) \<subseteq> P" "\<And>v. act = Broadcast (OutVote v) \<Longrightarrow> v \<in> P"
  proof -
    have "votes_of (act # acts) = votes_of [act] @ votes_of acts" using action_lists(2) [of "[act]" acts] by simp
    with Cons.prems show "set (votes_of acts) \<subseteq> P" "\<And>v. act = Broadcast (OutVote v) \<Longrightarrow> v \<in> P" by auto
  qed
  show ?case
    unfolding run_actions.simps
  proof (rule triple_andthen [OF _ Cons.IH [OF sub(1)]])
    show "stays (engine_inv P) (case act of
        Broadcast (Proposal rnd b) \<Rightarrow> broadcast (NmProposal rnd b)
      | Broadcast (OutVote v) \<Rightarrow> andthen (gets en_identity) (\<lambda>i. broadcast (NmVote (sign_vote X i v)))
      | CommitBlock h \<Rightarrow>
          andthen (gets (\<lambda>e. rm_block (en_machine e) h)) (\<lambda>found.
          case found of
            None \<Rightarrow> ret ()
          | Some b \<Rightarrow>
              andthen (on_node (commit_block X now b)) (\<lambda>r.
              case r of
                Inl _ \<Rightarrow> ret ()
              | Inr _ \<Rightarrow> andthen node_head (\<lambda>hd. andthen (broadcast (NmBlock hd)) (\<lambda>_. reset_height))))
      | NoAction \<Rightarrow> ret ())"
    proof (cases act)
      case (Broadcast out)
      show ?thesis
      proof (cases out)
        case (Proposal rnd b)
        show ?thesis unfolding Broadcast Proposal action.case outbound.case by (rule stays_broadcast) simp
      next
        case (OutVote v)
        then have "v \<in> P" using sub(2) Broadcast by simp
        then show ?thesis unfolding Broadcast OutVote action.case outbound.case by (rule vote_action_step)
      qed
    next
      case (CommitBlock h)
      show ?thesis unfolding CommitBlock action.case by (rule commit_action_step)
    next
      case NoAction
      show ?thesis unfolding NoAction action.case by (rule triple_ret)
    qed
  qed
qed


section \<open>Handlers\<close>

lemma stays_andthen: "stays P m \<Longrightarrow> (\<And>x. stays P (f x)) \<Longrightarrow> stays P (andthen m f)"
  by (rule triple_andthen)

lemma stays_ret: "stays P (ret x)"
  by (rule triple_ret)

lemma submit_slash_step: "stays (engine_inv P) (submit_slash X c)"
  unfolding submit_slash_def Let_def
  by (intro stays_andthen stays_gets stays_node_calls triple_sum stays_ret stays_broadcast) simp

lemma detect_step: "stays (engine_inv P) (detect_equivocation X v)"
proof -
  have "stays (engine_inv P) (modify (\<lambda>e. e\<lparr>en_slash_watch := w\<rparr>))" for w by (rule triple_modify) simp
  then show ?thesis
    unfolding detect_equivocation_def Let_def case_prod_beta
    by (intro stays_andthen stays_gets triple_option stays_ret submit_slash_step)
qed

lemma submit_frauds_step: "stays (engine_inv P) (submit_frauds X ps)"
proof (induction ps)
  case (Cons p ps)
  show ?case unfolding submit_frauds.simps submit_quorum_slash_def by (intro stays_andthen submit_slash_step Cons)
qed (unfold submit_frauds.simps, rule stays_ret)

lemma private_steps:
  "stays (engine_inv P) (on_private X env)" "stays (engine_inv P) (on_private_root X att)" "stays (engine_inv P) (on_private_ingress X env)"
  "stays (engine_inv P) (on_ingress X sc)"
proof -
  show "stays (engine_inv P) (on_private X env)" unfolding on_private_def
    by (intro stays_andthen stays_node_calls triple_sum stays_ret triple_if triple_option stays_broadcast) simp
  show "stays (engine_inv P) (on_private_ingress X env)" unfolding on_private_ingress_def
    by (intro stays_andthen stays_node_calls triple_sum stays_ret triple_if triple_option stays_broadcast) simp_all
  show "stays (engine_inv P) (on_ingress X sc)" unfolding on_ingress_def
    by (intro stays_andthen stays_node_calls triple_sum stays_ret stays_broadcast) simp
  have div: "stays (engine_inv P) (case r of Inr (Divergence _ _) \<Rightarrow> m | _ \<Rightarrow> ret ())" if "stays (engine_inv P) m" for r m
    using that stays_ret by (cases r) (auto split: attestation_outcome.splits)
  show "stays (engine_inv P) (on_private_root X att)" unfolding on_private_root_def submit_private_slash_def
    by (intro stays_andthen stays_gets triple_option stays_ret submit_slash_step stays_node_calls div submit_frauds_step)
qed

lemma accept_blocks_step:
  "triple (engine_inv {}) (\<lambda>e. engine_inv P e \<and> (applied > 0 \<longrightarrow> advanced e)) (accept_blocks X now bs applied)
     (\<lambda>k e. engine_inv P e \<and> (k > 0 \<longrightarrow> advanced e))"
proof (induction bs arbitrary: applied)
  case (Cons b bs)
  have "triple (engine_inv {}) (\<lambda>e. engine_inv P e \<and> (applied > 0 \<longrightarrow> advanced e)) (on_node (accept_external_block X now b))
      (\<lambda>r e. engine_inv P e \<and> ((if r = Inr True then applied + 1 else applied) > 0 \<longrightarrow> advanced e))"
  proof (cases "applied = 0")
    case True
    show ?thesis by (rule triple_weaken [OF accept_step(1) [of P]]) (use True in \<open>auto split: if_splits\<close>)
  next
    case False
    show ?thesis by (rule triple_weaken [OF accept_step(2) [of P]]) (use False in auto)
  qed
  then show ?case unfolding accept_blocks.simps by (rule triple_andthen) (rule Cons)
qed (unfold accept_blocks.simps, rule triple_ret)

lemma block_steps: "stays (engine_inv P) (on_block X now b)" "stays (engine_inv P) (on_blocks X now bs)"
proof -
  show "stays (engine_inv P) (on_block X now b)"
    unfolding on_block_def
  proof (rule triple_andthen [OF node_head_step], rule triple_if)
    fix hd
    show "triple (engine_inv {}) (\<lambda>e. engine_inv P e \<and> hd = last (nd_blocks (en_node e))) (broadcast (RequestBlocks (blk_height hd + 1))) (\<lambda>_. engine_inv P)"
      by (rule triple_weaken [OF stays_broadcast [of _ P]]) simp_all
    have "triple (engine_inv {}) (engine_inv P) (andthen (on_node (accept_external_block X now b)) (\<lambda>r. if r = Inr True then reset_height else ret ())) (\<lambda>_. engine_inv P)"
      by (rule triple_andthen [OF accept_step(1)], rule triple_if, rule triple_weaken [OF reset_height_step [of P]])
        (auto intro: triple_ret)
    then show "triple (engine_inv {}) (\<lambda>e. engine_inv P e \<and> hd = last (nd_blocks (en_node e)))
        (andthen (on_node (accept_external_block X now b)) (\<lambda>r. if r = Inr True then reset_height else ret ())) (\<lambda>_. engine_inv P)"
      by (rule triple_weaken) auto
  qed
  show "stays (engine_inv P) (on_blocks X now bs)"
    unfolding on_blocks_def
  proof (rule triple_andthen)
    show "triple (engine_inv {}) (engine_inv P) (accept_blocks X now bs 0) (\<lambda>k e. engine_inv P e \<and> (k > 0 \<longrightarrow> advanced e))"
      by (rule triple_weaken [OF accept_blocks_step [of P 0]]) auto
    fix k :: nat
    have "triple (engine_inv {}) (\<lambda>e. engine_inv P e \<and> advanced e) (andthen node_head (\<lambda>_. reset_height)) (\<lambda>_. engine_inv P)"
    proof (rule triple_andthen [OF _ reset_height_step])
      show "triple (engine_inv {}) (\<lambda>e. engine_inv P e \<and> advanced e) node_head (\<lambda>_ e. engine_inv P e \<and> advanced e)"
        by (simp add: triple_def node_head_def head_def engine_inv_def numbered_def andthen_def gets_def ret_def)
    qed
    note r = this
    show "triple (engine_inv {}) (\<lambda>e. engine_inv P e \<and> (k > 0 \<longrightarrow> advanced e))
        (if k > 0 then andthen node_head (\<lambda>_. reset_height) else ret ()) (\<lambda>_. engine_inv P)"
      by (rule triple_if, rule triple_weaken [OF r]) (auto intro: triple_ret)
  qed
qed


lemma act_on_machine_step:
  "stays (engine_inv {}) (andthen (gets en_me) (\<lambda>me. andthen (on_machine (round_input X me i)) (\<lambda>acts. run_actions Y now acts)))"
proof (rule triple_andthen [OF triple_gets], rule triple_andthen)
  fix me
  show "triple (engine_inv {}) (\<lambda>e. engine_inv {} e \<and> me = en_me e) (on_machine (round_input X me i)) (\<lambda>acts. engine_inv (set (votes_of acts)))"
    by (rule triple_weaken [OF machine_step [of me]]) auto
  show "triple (engine_inv {}) (engine_inv (set (votes_of acts))) (run_actions Y now acts) (\<lambda>_. engine_inv {})" for acts
    by (rule triple_weaken [OF run_actions_step [of acts "set (votes_of acts)"]]) (auto intro: engine_inv_mono)
qed

lemma handle_message_step: "stays (engine_inv {}) (handle_message X now msg)"
proof -
  have vc: "stays (engine_inv {}) (on_view_change X vc)" for vc
    unfolding on_view_change_def by (intro stays_andthen stays_gets triple_if record_view_step stays_ret)
  have vm: "stays (engine_inv {}) (on_vote_message X now v)" for v
    using stays_andthen [OF detect_step act_on_machine_step [of X "IncomingVote v"]]
    by (simp add: on_vote_message_def round_input_def)
  have pr: "stays (engine_inv {}) (andthen (gets en_me) (\<lambda>me. andthen (on_machine (on_proposal X b me p)) (\<lambda>acts. run_actions X now acts)))" for b p
    using act_on_machine_step [of X "RemoteProposal b p"] by (simp add: round_input_def)
  have rb: "stays (engine_inv {}) (andthen (gets (\<lambda>e. blocks_from (en_node e) h 256)) (\<lambda>bs. if bs \<noteq> [] then broadcast (NmBlocks bs) else ret ()))" for h
    by (intro stays_andthen stays_gets triple_if stays_broadcast stays_ret) simp
  have sc: "stays (engine_inv {}) (andthen (on_node (submit_signed X sc)) (\<lambda>_. ret ()))" for sc
    by (intro stays_andthen stays_node_calls stays_ret)
  have nh: "stays (engine_inv {}) node_head" by (rule triple_weaken [OF node_head_step]) auto
  show ?thesis
    unfolding handle_message_def Let_def
  proof (rule stays_andthen [OF nh])
    fix hd
    show "stays (engine_inv {}) (case msg of
       NmProposal _ b \<Rightarrow>
         andthen (gets en_me) (\<lambda>me.
         andthen (on_machine (on_proposal X b me (block_hash X hd))) (\<lambda>acts.
         run_actions X now acts))
     | NmVote v \<Rightarrow> on_vote_message X now v
     | NmViewChange vc \<Rightarrow> on_view_change X vc
     | NmCommand sc \<Rightarrow> andthen (on_node (submit_signed X sc)) (\<lambda>_. ret ())
     | NmPrivate env \<Rightarrow> on_private X env
     | PrivateRoot att \<Rightarrow> on_private_root X att
     | NmBlock b \<Rightarrow> on_block X now b
     | RequestBlocks from_height \<Rightarrow>
         andthen (gets (\<lambda>e. blocks_from (en_node e) from_height 256)) (\<lambda>bs.
         if bs \<noteq> [] then broadcast (NmBlocks bs) else ret ())
     | NmBlocks bs \<Rightarrow> on_blocks X now bs
     | Hello _ _ \<Rightarrow> ret ())"
      by (cases msg; simp only: net_message.case; intro vc vm pr rb sc private_steps block_steps stays_ret)
  qed
qed

lemma tick_round_step: "stays (engine_inv {}) (tick_round X)"
proof -
  have up: "stays (engine_inv {}) (modify (\<lambda>e. e\<lparr>en_stale_ticks := k\<rparr>))" for k by (rule triple_modify) simp
  show ?thesis
    unfolding tick_round_def
  proof (rule triple_andthen [OF node_head_step], rule triple_andthen [OF triple_gets], rule triple_if)
    fix hd :: block and e :: engine
    assume le: "blk_height hd \<ge> en_height e"
    show "triple (engine_inv {}) (\<lambda>s. (engine_inv {} s \<and> hd = last (nd_blocks (en_node s))) \<and> e = id s) reset_height (\<lambda>_. engine_inv {})"
    proof (rule triple_weaken [OF reset_height_step])
      fix s assume s: "(engine_inv {} s \<and> hd = last (nd_blocks (en_node s))) \<and> e = id s"
      let ?bs = "nd_blocks (en_node s)"
      have "unat (en_height s) < length ?bs" if "length ?bs < 2 ^ 64"
      proof -
        have "numbered ?bs" using s by (simp add: engine_inv_def)
        then have "blk_height hd = of_nat (length ?bs - 1)" "?bs \<noteq> []" using s by (auto simp: numbered_def last_conv_nth)
        moreover have "unat (of_nat (length ?bs - 1) :: u64) = length ?bs - 1" using that by (intro unat_of_nat_64) simp
        ultimately have "unat (en_height s) \<le> length ?bs - 1" using le s by (simp add: word_le_nat_alt)
        with \<open>?bs \<noteq> []\<close> show ?thesis by (cases ?bs) auto
      qed
      then show "engine_inv {} s \<and> advanced s" using s by (simp add: advanced_def)
    qed auto
  next
    fix hd :: block and e :: engine
    have "stays (engine_inv {}) (if rm_phase (en_machine e) \<noteq> PhaseCommitted then
         let stale = en_stale_ticks e + 1 in
         andthen (modify (\<lambda>e. e\<lparr>en_stale_ticks := stale\<rparr>)) (\<lambda>_.
         if stale \<ge> VIEW_TIMEOUT_TICKS then
           let next_view = en_view e + 1; vc = make_view_change X (en_identity e) (en_height e) next_view in
           andthen (modify (\<lambda>e. e\<lparr>en_stale_ticks := 0\<rparr>)) (\<lambda>_.
           andthen (record_view (en_height e) next_view (en_me e)) (\<lambda>_.
           broadcast (NmViewChange vc)))
         else ret ())
       else ret ())"
      unfolding Let_def by (intro triple_if stays_andthen up record_view_step stays_broadcast stays_ret) simp
    then show "triple (engine_inv {}) (\<lambda>s. (engine_inv {} s \<and> hd = last (nd_blocks (en_node s))) \<and> e = id s)
       (if rm_phase (en_machine e) \<noteq> PhaseCommitted then
         let stale = en_stale_ticks e + 1 in
         andthen (modify (\<lambda>e. e\<lparr>en_stale_ticks := stale\<rparr>)) (\<lambda>_.
         if stale \<ge> VIEW_TIMEOUT_TICKS then
           let next_view = en_view e + 1; vc = make_view_change X (en_identity e) (en_height e) next_view in
           andthen (modify (\<lambda>e. e\<lparr>en_stale_ticks := 0\<rparr>)) (\<lambda>_.
           andthen (record_view (en_height e) next_view (en_me e)) (\<lambda>_.
           broadcast (NmViewChange vc)))
         else ret ())
       else ret ()) (\<lambda>_. engine_inv {})"
      by (rule triple_weaken) auto
  qed
qed


lemma on_node_me_step:
  assumes "stays (engine_inv P) (on_node m)"
  shows "stays (\<lambda>e. engine_inv P e \<and> en_me e = me) (on_node m)"
  using assms by (fastforce simp: triple_def on_node_def split: outcome.splits prod.splits)

lemma build_step: "stays (\<lambda>e. engine_inv {} e \<and> en_me e = me) (build_or_reuse_block X now)"
  unfolding build_or_reuse_block_def build_local_block_def Let_def
  by (intro stays_andthen stays_gets triple_option triple_sum stays_ret on_node_me_step stays_node_calls)

lemma tick_propose_step: "stays (engine_inv {}) (tick_propose X now)"
  unfolding tick_propose_def
proof (rule triple_andthen [OF triple_gets], rule triple_if)
  fix e :: engine
  let ?P = "\<lambda>s. engine_inv {} s \<and> en_me s = en_me e"
  have "triple (engine_inv {}) ?P (on_machine (on_local_proposal X b (en_me e))) (\<lambda>acts. engine_inv (set (votes_of acts)))" for b
    using machine_step [of "en_me e" X "LocalProposal b"] by (simp add: round_input_def)
  moreover have "triple (engine_inv {}) (engine_inv (set (votes_of acts))) (run_actions X now acts) (\<lambda>_. engine_inv {})" for acts
    by (rule triple_weaken [OF run_actions_step [of acts "set (votes_of acts)"]]) (auto intro: engine_inv_mono)
  ultimately have act: "triple (engine_inv {}) ?P (andthen (on_machine (on_local_proposal X b (en_me e))) (\<lambda>acts. run_actions X now acts)) (\<lambda>_. engine_inv {})" for b
    by (rule triple_andthen)
  have "triple (engine_inv {}) ?P (andthen (build_or_reuse_block X now) (\<lambda>r.
       case r of
         Inl _ \<Rightarrow> ret ()
       | Inr b \<Rightarrow> andthen (on_machine (on_local_proposal X b (en_me e))) (\<lambda>acts. run_actions X now acts))) (\<lambda>_. engine_inv {})"
    by (rule triple_andthen [OF build_step], rule triple_sum, rule triple_ret, simp, rule act)
  then show "triple (engine_inv {}) (\<lambda>s. engine_inv {} s \<and> e = id s) (andthen (build_or_reuse_block X now) (\<lambda>r.
       case r of
         Inl _ \<Rightarrow> ret ()
       | Inr b \<Rightarrow> andthen (on_machine (on_local_proposal X b (en_me e))) (\<lambda>acts. run_actions X now acts))) (\<lambda>_. engine_inv {})"
    by (rule triple_weaken) auto
qed (rule triple_ret, simp)

text \<open>The votes of the current machine may be sent again at any time.\<close>

lemma engine_inv_my_votes:
  assumes "engine_inv {} e"
  shows "engine_inv (set (rm_my_votes (en_machine e))) e"
proof -
  let ?V = "set (rm_my_votes (en_machine e))"
  have "votes_inv (sent_votes e \<union> bare ` ?V) e" if v: "votes_inv (sent_votes e) e"
  proof -
    let ?k = "(en_height e, en_view e)"
    obtain hs where inv: "round_inv (en_me e) (en_machine e, en_aurora e) (rm_my_votes (en_machine e)) hs" using v by (auto simp: votes_inv_def)
    have k: "(rm_height (en_machine e), rm_round (en_machine e)) = ?k" using v by (simp add: votes_inv_def)
    have eq: "bare ` ?V = ?V" using shape_unique(2) [OF inv] by force
    have key: "vkey w = ?k" if "w \<in> ?V" for w using shape_unique(2) [OF inv that] k by simp
    have old: "before (vkey w) ?k \<or> (vkey w = ?k \<and> w \<in> ?V)" if "w \<in> sent_votes e \<union> ?V" for w
      using v that key unfolding votes_inv_def by blast
    have "consistent (sent_votes e \<union> ?V)"
      unfolding consistent_def
    proof (intro ballI impI)
      fix x y assume x: "x \<in> sent_votes e \<union> ?V" and y: "y \<in> sent_votes e \<union> ?V" and xy: "vkey x = vkey y \<and> vt_kind x = vt_kind y"
      show "vt_block_hash x = vt_block_hash y"
      proof (cases "vkey x = ?k")
        case True
        then have "x \<in> ?V" "y \<in> ?V" using old [OF x] old [OF y] xy by (auto simp: before_def)
        then show ?thesis using shape_unique(1) [OF inv, of x y] xy by auto
      next
        case False
        then have "x \<in> sent_votes e" "y \<in> sent_votes e" using key x y xy by (metis Un_iff)+
        then show ?thesis using v xy unfolding votes_inv_def consistent_def by blast
      qed
    qed
    then show ?thesis using v old unfolding votes_inv_def eq by blast
  qed
  then show ?thesis using assms by (auto simp: engine_inv_def)
qed

lemma broadcast_votes_step: "set vs \<subseteq> P \<Longrightarrow> stays (engine_inv P) (broadcast_votes X vs)"
proof (induction vs)
  case (Cons v vs)
  have "broadcast_votes X (v # vs) = andthen (andthen (gets en_identity) (\<lambda>i. broadcast (NmVote (sign_vote X i v)))) (\<lambda>_. broadcast_votes X vs)"
    by (simp add: andthen_assoc)
  then show ?case using Cons by (auto intro!: stays_andthen vote_action_step)
qed (unfold broadcast_votes.simps, rule stays_ret)

lemma on_tick_step: "stays (engine_inv {}) (on_tick X now)"
  unfolding on_tick_def
proof (rule stays_andthen [OF tick_round_step], rule stays_andthen [OF tick_propose_step], rule triple_andthen [OF triple_gets])
  fix vs
  show "triple (engine_inv {}) (\<lambda>e. engine_inv {} e \<and> vs = rm_my_votes (en_machine e)) (broadcast_votes X vs) (\<lambda>_. engine_inv {})"
    by (rule triple_weaken [OF broadcast_votes_step [of vs "set vs"]]) (auto intro: engine_inv_my_votes engine_inv_mono)
qed


section \<open>Runs\<close>

datatype stimulus = Tick u64 | Message u64 net_message | Ingress signed_command | PrivateIngress private_envelope

fun respond :: "'x validator_ext_scheme \<Rightarrow> stimulus \<Rightarrow> unit eng_act" where
  "respond X (Tick now) = on_tick X now"
| "respond X (Message now msg) = handle_message X now msg"
| "respond X (Ingress sc) = on_ingress X sc"
| "respond X (PrivateIngress env) = on_private_ingress X env"

definition engine_run :: "'x validator_ext_scheme \<Rightarrow> stimulus list \<Rightarrow> engine \<Rightarrow> engine" where
  "engine_run X sts e = fold (\<lambda>st e. snd (respond X st e)) sts e"

lemma engine_run_keeps:
  "(\<And>st. st \<in> set sts \<Longrightarrow> triple P P (respond X st) (\<lambda>_. P)) \<Longrightarrow> P e \<Longrightarrow> P (engine_run X sts e)"
  unfolding engine_run_def
proof (induction sts arbitrary: e)
  case (Cons st sts)
  have "triple P P (respond X st) (\<lambda>_. P)" using Cons.prems(1) by simp
  from tripleD [OF this Cons.prems(2)] show ?case using Cons.IH Cons.prems(1) by simp
qed simp

lemma respond_step: "stays (engine_inv {}) (respond X st)"
  by (cases st) (simp_all add: on_tick_step handle_message_step private_steps)

lemma start_engine_inv:
  assumes "start_engine X me peers n = Ok e" and "numbered (nd_blocks n)"
  shows "engine_inv {} e"
proof -
  have ne: "nd_blocks n \<noteq> []" using assms(2) by (simp add: numbered_def)
  then have e: "en_node e = n" "en_height e = of_nat (length (nd_blocks n))" "en_view e = 0" "en_machine e = new_round (en_height e) 0"
    "sent_votes e = {}"
    using assms(1) numbered_head [OF assms(2)] by (auto simp: start_engine_def head_def andthen_def gets_def ret_def Let_def sent_votes_def)
  then have "votes_inv {} e"
    unfolding votes_inv_def consistent_def e by (intro conjI exI [of _ "[]"] new_round_inv) (simp_all add: new_round_fields new_round_inv)
  then show ?thesis
    using assms(2) e unat_of_nat_64 [of "length (nd_blocks n)"] by (simp add: engine_inv_def)
qed

section \<open>Properties\<close>

text \<open>
  C6. An honest validator never signs two conflicting votes. From its start on a chain with heights 0, 1, 2 and so on, whatever
  ticks, messages and submissions it handles in whatever order, any two votes it has broadcast for one height, round and kind
  name the same block, as long as the chain is shorter than \<open>2 ^ 64\<close> blocks.
\<close>

theorem honest_never_equivocates:
  assumes "start_engine X me peers n = Ok e" and "numbered (nd_blocks n)"
    and "length (nd_blocks (en_node (engine_run X sts e))) < 2 ^ 64"
    and "NmVote v \<in> set (en_outbox (engine_run X sts e))" and "NmVote w \<in> set (en_outbox (engine_run X sts e))"
    and "vt_height v = vt_height w" and "vt_round v = vt_round w" and "vt_kind v = vt_kind w"
  shows "vt_block_hash v = vt_block_hash w"
proof -
  have "engine_inv {} (engine_run X sts e)"
    by (rule engine_run_keeps [OF respond_step start_engine_inv [OF assms(1,2)]])
  then have "consistent (sent_votes (engine_run X sts e))" using assms(3) by (simp add: engine_inv_def votes_inv_def)
  moreover have "bare v \<in> sent_votes (engine_run X sts e)" "bare w \<in> sent_votes (engine_run X sts e)"
    using assms(4,5) unfolding sent_votes_def by blast+
  ultimately have "vkey (bare v) = vkey (bare w) \<and> vt_kind (bare v) = vt_kind (bare w) \<longrightarrow> vt_block_hash (bare v) = vt_block_hash (bare w)"
    unfolding consistent_def by blast
  then show ?thesis using assms(6-8) by (simp add: bare_def)
qed


text \<open>A validator alone, and a proposal whose time lies too far ahead to be committed.\<close>

definition ref_validator_ext :: validator_ext where
  "ref_validator_ext = node_ext.extend ref_node_ext (validator_ext.fields ref_storage_ext ref_staking_ext)"

definition lone_node :: node where
  "lone_node = node_new (PartyId ''alice'') cascade_new"

definition lone_validator :: validator where
  "lone_validator = validator_new (PartyId ''alice'') (public_key ref_validator_ext (from_seed ''alice'' [1])) 100"

definition lone_engine :: engine where
  "lone_engine = \<lparr>en_node = lone_node, en_aurora = aurora_new default_config (vset_add lone_validator vset_new) (Some (PartyId ''alice'')),
     en_identity = from_seed ''alice'' [1], en_me = PartyId ''alice'', en_height = 1, en_view = 0, en_stale_ticks = 0,
     en_machine = new_round 1 0, en_viewsync = view_new 1, en_slash_watch = watch_new, en_outbox = []\<rparr>"

definition future_block :: block where
  "future_block = \<lparr>blk_height = 1, blk_parent = block_hash ref_validator_ext deterministic_genesis,
     blk_events_root = merkle_root ref_validator_ext [], blk_state_root = ZERO, blk_timestamp = 10000, blk_proposer = PartyId ''alice'',
     blk_events = [], blk_commands = []\<rparr>"

lemma lone_start: "start_engine ref_validator_ext (''alice'', [1]) [] lone_node = Ok lone_engine"
  by (simp add: start_engine_def head_def andthen_def gets_def ret_def lone_node_def node_new_def Let_def lone_engine_def
      seeded_validators_def add_seeded_def lone_validator_def deterministic_genesis_def)

lemma lone_numbered: "numbered (nd_blocks lone_node)"
  by (simp add: lone_node_def node_new_def numbered_def deterministic_genesis_def)

lemma lone_vset:
  "fmlookup (vset_add lone_validator vset_new) p = (if p = PartyId ''alice'' then Some lone_validator else None)"
  "is_validator (vset_add lone_validator vset_new) (PartyId ''alice'')" "quorum_threshold (vset_add lone_validator vset_new) = 67"
  "vset_active (vset_add lone_validator vset_new) = [lone_validator]" "v_stake lone_validator = 100" "v_party lone_validator = PartyId ''alice''"
proof -
  let ?V = "vset_add lone_validator vset_new"
  show v: "v_stake lone_validator = 100" "v_party lone_validator = PartyId ''alice''"
    by (simp_all add: lone_validator_def validator_new_def)
  have act: "v_active lone_validator" by (simp add: lone_validator_def validator_new_def)
  show l: "fmlookup ?V p = (if p = PartyId ''alice'' then Some lone_validator else None)" for p
    by (simp add: vset_add_def vset_new_def v)
  have fd: "fmdom ?V = {|PartyId ''alice''|}" by (auto simp: vset_add_def vset_new_def v)
  have "vset_values ?V = [lone_validator]"
    by (simp add: vset_values_def sorted_list_of_fmap_def fd l sorted_list_of_fset.rep_eq)
  then show "vset_active ?V = [lone_validator]" "quorum_threshold ?V = 67"
    by (simp_all add: vset_active_def quorum_threshold_def total_stake_def v act)
  show "is_validator ?V (PartyId ''alice'')" by (simp add: is_validator_def l act)
qed

abbreviation lone_vote :: "vote_kind \<Rightarrow> vote" where
  "lone_vote k \<equiv> \<lparr>vt_height = 1, vt_round = 0, vt_block_hash = block_hash ref_validator_ext future_block, vt_voter = PartyId ''alice'',
     vt_kind = k, vt_signature = []\<rparr>"

lemma lone_round:
  "\<exists>m a. on_proposal ref_validator_ext future_block (PartyId ''alice'') (block_hash ref_validator_ext deterministic_genesis)
       (en_machine lone_engine, en_aurora lone_engine) =
     ([Broadcast (OutVote (lone_vote Prevote)), Broadcast (OutVote (lone_vote Precommit)), CommitBlock (block_hash ref_validator_ext future_block)],
      (m, a)) \<and>
   rm_block m (block_hash ref_validator_ext future_block) = Some future_block \<and> rm_height m = 1 \<and> rm_phase m = PhaseCommitted \<and>
   is_committed a 1 = Some (block_hash ref_validator_ext future_block)"
proof -
  have b: "blk_height future_block = 1" by (simp add: future_block_def)
  have "verify_proposal ref_validator_ext (en_aurora lone_engine) future_block (block_hash ref_validator_ext deterministic_genesis) 0 = Inr ()"
    by (simp add: verify_proposal_def proposer_for_def Let_def lone_engine_def aurora_new_def lone_vset future_block_def compute_events_root_def)
  then show ?thesis
    by (simp add: on_proposal_def lone_engine_def aurora_new_def new_round_def b lone_vset
        cast_own_vote_def add_local_vote_def tally_vote_def vote_set_add_def make_vote_def vote_set_new_def Let_def
        try_advance_after_prevote_def precommit_if_quorum_def has_prevote_quorum_def prevote_power_def precommit_power_def power_def tally_push_def
        precommitters_def vset_get_def map_filter_simps collect_commit_def rm_block_def is_committed_def)
qed


lemma future_block_fails: "commit_block ref_validator_ext 0 future_block lone_node = (Err (BadTimestamp 10000 0), lone_node)"
  by (simp add: commit_block_def lone_node_def node_new_def future_block_def deterministic_genesis_def saturating_add_def
      MAX_FUTURE_DRIFT_SECS_def)

definition stalled_engine :: engine where
  "stalled_engine = engine_run ref_validator_ext [Message 0 (NmProposal 0 future_block)] lone_engine"

lemma stalled_engine_facts:
  "en_outbox stalled_engine = map (\<lambda>k. NmVote (sign_vote ref_validator_ext (from_seed ''alice'' [1]) (lone_vote k))) [Prevote, Precommit]"
  "en_node stalled_engine = lone_node" "en_height stalled_engine = 1" "rm_height (en_machine stalled_engine) = 1"
  "is_committed (en_aurora stalled_engine) 1 = Some (block_hash ref_validator_ext future_block)"
proof -
  let ?X = ref_validator_ext
  obtain m a where r: "on_proposal ?X future_block (PartyId ''alice'') (block_hash ?X deterministic_genesis) (en_machine lone_engine, en_aurora lone_engine) =
      ([Broadcast (OutVote (lone_vote Prevote)), Broadcast (OutVote (lone_vote Precommit)), CommitBlock (block_hash ?X future_block)], (m, a))"
    "rm_block m (block_hash ?X future_block) = Some future_block" "rm_height m = 1"
    "is_committed a 1 = Some (block_hash ?X future_block)"
    using lone_round by blast
  have n: "nd_blocks lone_node = [deterministic_genesis]" "en_me lone_engine = PartyId ''alice''" "en_outbox lone_engine = []"
    "en_identity lone_engine = from_seed ''alice'' [1]" "en_node lone_engine = lone_node" "en_height lone_engine = 1"
    by (simp_all add: lone_engine_def lone_node_def node_new_def)
  have se: "stalled_engine = lone_engine\<lparr>en_machine := m, en_aurora := a,
      en_outbox := map (\<lambda>k. NmVote (sign_vote ?X (from_seed ''alice'' [1]) (lone_vote k))) [Prevote, Precommit]\<rparr>"
    by (simp add: stalled_engine_def engine_run_def handle_message_def node_head_def head_def andthen_def gets_def ret_def n Let_def
        on_machine_def r broadcast_def modify_def on_node_def future_block_fails)
  show "en_outbox stalled_engine = map (\<lambda>k. NmVote (sign_vote ?X (from_seed ''alice'' [1]) (lone_vote k))) [Prevote, Precommit]"
    "en_node stalled_engine = lone_node" "en_height stalled_engine = 1" "rm_height (en_machine stalled_engine) = 1"
    "is_committed (en_aurora stalled_engine) 1 = Some (block_hash ?X future_block)"
    unfolding se using r n by simp_all
qed

theorem honest_never_equivocates_witness:
  "NmVote (sign_vote ref_validator_ext (from_seed ''alice'' [1]) (lone_vote Precommit)) \<in> set (en_outbox stalled_engine) \<and>
   vt_block_hash (sign_vote ref_validator_ext (from_seed ''alice'' [1]) (lone_vote Precommit)) =
   vt_block_hash (sign_vote ref_validator_ext (from_seed ''alice'' [1]) (lone_vote Precommit))"
proof -
  let ?v = "sign_vote ref_validator_ext (from_seed ''alice'' [1]) (lone_vote Precommit)"
  have "length (nd_blocks (en_node stalled_engine)) < 2 ^ 64" by (simp add: stalled_engine_facts lone_node_def node_new_def)
  moreover have m: "NmVote ?v \<in> set (en_outbox stalled_engine)" by (simp add: stalled_engine_facts)
  ultimately show ?thesis
    using honest_never_equivocates [OF lone_start lone_numbered, of "[Message 0 (NmProposal 0 future_block)]" ?v ?v]
    unfolding stalled_engine_def by blast
qed


section \<open>After a commit that cannot be executed\<close>

lemma tally_committed: "is_committed a (vt_height v) \<noteq> None \<Longrightarrow> tally_vote v a = (Ok AlreadyCommitted, a)"
  by (simp add: tally_vote_def is_committed_def)

lemma cast_committed:
  "is_committed a (rm_height m) \<noteq> None \<Longrightarrow>
   \<exists>oc m'. cast_own_vote me b k (m, a) = (([Broadcast (OutVote (make_vote m me b k))], oc), (m', a)) \<and>
     rm_height m' = rm_height m \<and> (oc = None \<or> oc = Some AlreadyCommitted)"
  using tally_committed [of a "make_vote m me b k"] by (simp add: cast_own_vote_def add_local_vote_def make_vote_def Let_def)

text \<open>On a committed height, the machine changes no commit and asks for none.\<close>

definition quiet :: "round_machine \<Rightarrow> aurora \<Rightarrow> action list \<times> driver \<Rightarrow> bool" where
  "quiet m a r \<longleftrightarrow> (case r of (acts, m', a') \<Rightarrow> commits_of acts = [] \<and> rm_height m' = rm_height m \<and> a' = a)"

lemma precommit_quiet:
  assumes "is_committed a (rm_height m) \<noteq> None"
  shows "quiet m a (precommit_if_quorum me b (m, a))"
  using cast_committed [of a "m\<lparr>rm_phase := Precommitted\<rparr>" me b Precommit] assms
  by (auto simp: precommit_if_quorum_def quiet_def Let_def collect_commit_def)

lemma prevote_quiet:
  assumes "is_committed a (rm_height m) \<noteq> None"
    and "cast_own_vote me b Prevote (m\<lparr>rm_phase := Prevoted\<rparr>, a) = ((acts, oc), d)" and "try_advance_after_prevote me b d = (acts', d')"
  shows "quiet m a (acts @ acts', d')" "commits_of acts = []"
proof -
  obtain m' where d: "d = (m', a)" "rm_height m' = rm_height m" "acts = [Broadcast (OutVote (make_vote m me b Prevote))]"
    using cast_committed [of a "m\<lparr>rm_phase := Prevoted\<rparr>" me b Prevote] assms(1,2) by auto
  then have "quiet m' a (acts', d')" using precommit_quiet [of a m' me b] assms(1,3) by (simp add: try_advance_after_prevote_def)
  then show "quiet m a (acts @ acts', d')" "commits_of acts = []" using d by (auto simp: quiet_def)
qed

lemma input_quiet:
  assumes "is_committed a (rm_height m) \<noteq> None"
  shows "quiet m a (round_input X me i (m, a))"
proof (cases i)
  case (LocalProposal b)
  let ?m = "m\<lparr>rm_seen_blocks := (rm_seen_blocks m)(block_hash X b \<mapsto> b), rm_own_block := Some (block_hash X b)\<rparr>"
  obtain acts oc d where c: "cast_own_vote me (block_hash X b) Prevote (?m\<lparr>rm_phase := Prevoted\<rparr>, a) = ((acts, oc), d)" by (metis prod.collapse)
  obtain acts' d' where t: "try_advance_after_prevote me (block_hash X b) d = (acts', d')" by (metis prod.collapse)
  show ?thesis
    using prevote_quiet [OF _ c t] assms c t LocalProposal by (auto simp: round_input_def on_local_proposal_def Let_def quiet_def)
next
  case (RemoteProposal b parent)
  let ?m = "m\<lparr>rm_seen_blocks := (rm_seen_blocks m)(block_hash X b \<mapsto> b)\<rparr>"
  obtain acts oc d where c: "cast_own_vote me (block_hash X b) Prevote (?m\<lparr>rm_phase := Prevoted\<rparr>, a) = ((acts, oc), d)" by (metis prod.collapse)
  obtain acts' d' where t: "try_advance_after_prevote me (block_hash X b) d = (acts', d')" by (metis prod.collapse)
  show ?thesis
    using prevote_quiet [OF _ c t] assms c t RemoteProposal
    by (auto simp: round_input_def on_proposal_def Let_def quiet_def split: sum.splits)
next
  case (IncomingVote v)
  have "\<exists>r. add_vote X v a = (r, a) \<and> (\<forall>c. r = Ok c \<longrightarrow> c = AlreadyCommitted)" if "vt_height v = rm_height m"
    using that assms tally_committed [of a v] by (auto simp: add_vote_def split: option.splits sum.splits)
  then show ?thesis
    using IncomingVote precommit_quiet [OF assms, of me "vt_block_hash v"]
    by (auto simp: round_input_def on_vote_def quiet_def collect_commit_def Let_def split: outcome.splits prod.splits)
qed

definition halted :: "u64 \<Rightarrow> block list \<Rightarrow> engine \<Rightarrow> bool" where
  "halted h bs e \<longleftrightarrow> en_height e = h \<and> rm_height (en_machine e) = h \<and> is_committed (en_aurora e) h \<noteq> None \<and> nd_blocks (en_node e) = bs"

abbreviation calm :: "u64 \<Rightarrow> block list \<Rightarrow> 'a eng_act \<Rightarrow> bool" where
  "calm h bs m \<equiv> triple (halted h bs) (halted h bs) m (\<lambda>_. halted h bs)"

lemma calm_basic:
  "calm h bs (gets f)" "calm h bs (ret x)" "calm h bs (broadcast msg)" "calm h bs (modify (\<lambda>e. e\<lparr>en_slash_watch := w\<rparr>))"
  "calm h bs (modify (\<lambda>e. e\<lparr>en_stale_ticks := k\<rparr>))" "calm h bs node_head" "calm h bs (adopt_view v)"
  by (auto simp: triple_def gets_def ret_def broadcast_def modify_def node_head_def halted_def adopt_view_def new_round_def split: outcome.splits)

lemma calm_andthen: "calm h bs m \<Longrightarrow> (\<And>x. calm h bs (f x)) \<Longrightarrow> calm h bs (andthen m f)"
  by (rule triple_andthen)

lemma calm_record_view: "calm h bs (record_view k v p)"
  by (auto simp: triple_def record_view_def Let_def halted_def adopt_view_def modify_def new_round_def split: prod.splits option.splits)

lemma calm_on_node:
  assumes "\<And>n r n'. m n = (r, n') \<Longrightarrow> nd_blocks n' = nd_blocks n"
  shows "calm h bs (on_node m)"
  using assms by (fastforce simp: triple_def on_node_def halted_def split: outcome.splits prod.splits)

lemma calm_node_calls:
  "calm h bs (on_node (submit_signed X sc))" "calm h bs (on_node (assemble_block Y now))"
  "calm h bs (on_node (apply_private_envelope X env))" "calm h bs (on_node (node_record_attestation X att))"
  unfolding submit_signed_def by (rule calm_on_node, erule core_same [THEN blocks_of_core])+

lemmas calm_intros = calm_basic calm_andthen calm_record_view calm_node_calls triple_if triple_option triple_sum

lemma calm_run_actions: "commits_of acts = [] \<Longrightarrow> calm h bs (run_actions X now acts)"
proof (induction acts)
  case (Cons act acts)
  have "commits_of (act # acts) = commits_of [act] @ commits_of acts" using action_lists(8) [of "[act]" acts] by simp
  then have "commits_of acts = []" "\<And>b. act \<noteq> CommitBlock b" using Cons.prems by auto
  then show ?case unfolding run_actions.simps
    by (intro calm_andthen Cons.IH) (cases act; simp only: action.case; auto split: outbound.splits intro!: calm_basic calm_andthen)
qed (unfold run_actions.simps, rule calm_basic)

lemma calm_machine: "calm h bs (andthen (on_machine (round_input X me i)) (\<lambda>acts. run_actions Y now acts))"
proof (rule triple_andthen)
  show "triple (halted h bs) (halted h bs) (on_machine (round_input X me i)) (\<lambda>acts e. halted h bs e \<and> commits_of acts = [])"
    using input_quiet [of "en_aurora e" "en_machine e" X me i for e]
    by (fastforce simp: triple_def on_machine_def halted_def quiet_def split: prod.splits)
  show "triple (halted h bs) (\<lambda>e. halted h bs e \<and> commits_of acts = []) (run_actions Y now acts) (\<lambda>_. halted h bs)" for acts
    using calm_run_actions [of acts h bs Y now] by (cases "commits_of acts = []") (auto simp: triple_def)
qed


lemma calm_handlers:
  "calm h bs (submit_slash X c)" "calm h bs (submit_frauds X ps)" "calm h bs (detect_equivocation X v)"
  "calm h bs (on_private X env)" "calm h bs (on_private_root X att)" "calm h bs (on_private_ingress X env)" "calm h bs (on_ingress X sc)"
  "calm h bs (on_view_change X vc)" "calm h bs (on_vote_message X now v)"
proof -
  show s: "calm h bs (submit_slash X c)" for c unfolding submit_slash_def Let_def by (intro calm_intros)
  show f: "calm h bs (submit_frauds X ps)" for ps
    by (induction ps; unfold submit_frauds.simps submit_quorum_slash_def) (intro calm_intros s; assumption)+
  show d: "calm h bs (detect_equivocation X v)" unfolding detect_equivocation_def Let_def case_prod_beta by (intro calm_intros s)
  show "calm h bs (on_private X env)" unfolding on_private_def by (intro calm_intros)
  show "calm h bs (on_private_ingress X env)" unfolding on_private_ingress_def by (intro calm_intros)
  show "calm h bs (on_ingress X sc)" unfolding on_ingress_def by (intro calm_intros)
  show "calm h bs (on_view_change X vc)" unfolding on_view_change_def by (intro calm_intros)
  have div: "calm h bs (case r of Inr (Divergence _ _) \<Rightarrow> m | _ \<Rightarrow> ret ())" if "calm h bs m" for r m
    using that calm_basic(2) by (cases r) (auto split: attestation_outcome.splits)
  show "calm h bs (on_private_root X att)" unfolding on_private_root_def submit_private_slash_def by (intro calm_intros s div f)
  show "calm h bs (on_vote_message X now v)"
    using calm_andthen [OF d calm_andthen [OF calm_basic(1) [of h bs en_me] calm_machine [of h bs X _ "IncomingVote v" X now]]]
    by (simp add: on_vote_message_def round_input_def)
qed

lemma calm_tick:
  assumes "bs \<noteq> []" and "blk_height (last bs) < h"
  shows "calm h bs (on_tick X now)"
proof -
  have "calm h bs (tick_round X)"
    unfolding tick_round_def
  proof (rule triple_andthen)
    show "triple (halted h bs) (halted h bs) node_head (\<lambda>hd e. halted h bs e \<and> hd = last bs)"
      using assms(1) by (simp add: triple_def node_head_def head_def halted_def andthen_def gets_def ret_def)
    fix hd :: block
    let ?rest = "\<lambda>e. if blk_height hd \<ge> en_height e then reset_height
     else if rm_phase (en_machine e) \<noteq> PhaseCommitted then
       let stale = en_stale_ticks e + 1 in
       andthen (modify (\<lambda>e. e\<lparr>en_stale_ticks := stale\<rparr>)) (\<lambda>_.
       if stale \<ge> VIEW_TIMEOUT_TICKS then
         let next_view = en_view e + 1; vc = make_view_change X (en_identity e) (en_height e) next_view in
         andthen (modify (\<lambda>e. e\<lparr>en_stale_ticks := 0\<rparr>)) (\<lambda>_.
         andthen (record_view (en_height e) next_view (en_me e)) (\<lambda>_.
         broadcast (NmViewChange vc)))
       else ret ())
     else ret ()"
    have rest: "calm h bs (?rest e)" if "halted h bs e \<and> hd = last bs" for e
      using that assms(2) unfolding Let_def by (auto simp: halted_def intro!: calm_intros)
    show "triple (halted h bs) (\<lambda>e. halted h bs e \<and> hd = last bs) (andthen (gets id) ?rest) (\<lambda>_. halted h bs)"
      by (rule triple_read [OF rest]) auto
  qed
  moreover have "calm h bs (tick_propose X now)"
  proof -
    have lp: "calm h bs (andthen (on_machine (on_local_proposal X b me)) (\<lambda>acts. run_actions X now acts))" for b me
      using calm_machine [of h bs X me "LocalProposal b" X now] by (simp add: round_input_def)
    have build: "calm h bs (build_or_reuse_block X now)"
      unfolding build_or_reuse_block_def build_local_block_def Let_def by (intro calm_intros)
    show ?thesis unfolding tick_propose_def
      by (rule calm_andthen [OF calm_basic(1)], rule triple_if [OF calm_andthen [OF build triple_sum [OF calm_basic(2) lp]] calm_basic(2)])
  qed
  moreover have "calm h bs (broadcast_votes X vs)" for vs
    by (induction vs; unfold broadcast_votes.simps) (intro calm_intros; assumption)+
  ultimately show ?thesis unfolding on_tick_def by (intro calm_andthen calm_basic(1))
qed

definition brings_block :: "stimulus \<Rightarrow> bool" where
  "brings_block st = (case st of Message _ (NmBlock _) \<Rightarrow> True | Message _ (NmBlocks _) \<Rightarrow> True | _ \<Rightarrow> False)"

lemma calm_respond:
  assumes "bs \<noteq> []" and "blk_height (last bs) < h" and "\<not> brings_block st"
  shows "calm h bs (respond X st)"
proof (cases st)
  case (Message now msg)
  have pr: "calm h bs (andthen (gets en_me) (\<lambda>me. andthen (on_machine (on_proposal X b me p)) (\<lambda>acts. run_actions X now acts)))" for b p
    using calm_andthen [OF calm_basic(1) [of h bs en_me] calm_machine [of h bs X _ "RemoteProposal b p" X now]] by (simp add: round_input_def)
  have rb: "calm h bs (andthen (gets (\<lambda>e. blocks_from (en_node e) k 256)) (\<lambda>bs. if bs \<noteq> [] then broadcast (NmBlocks bs) else ret ()))" for k
    by (intro calm_intros)
  have sc: "calm h bs (andthen (on_node (submit_signed X sc)) (\<lambda>_. ret ()))" for sc by (intro calm_intros)
  have no: "msg \<noteq> NmBlock b" "msg \<noteq> NmBlocks bs'" for b bs' using assms(3) Message by (auto simp: brings_block_def)
  have "calm h bs (handle_message X now msg)"
    unfolding handle_message_def Let_def
    by (rule calm_andthen [OF calm_basic(6)], cases msg; simp only: net_message.case;
        ((rule pr rb sc calm_handlers calm_basic)+ | (use no in blast)))
  then show ?thesis by (simp add: Message)
qed (use calm_tick [OF assms(1,2)] calm_handlers in simp_all)

text \<open>
  C40. A block that no node can execute halts the chain. Validators vote for a proposal after checking its proposer, parent and
  events root only; a quorum of votes for it commits it in the consensus engine, and when the node then fails to execute it the
  chain stays where it was. From then on no tick, proposal, vote, view change, command or private envelope moves the chain: the
  engine holds its height for committed and counts no further vote on it. Only a block from a peer could.
\<close>

theorem unexecutable_block_halts:
  assumes "is_committed (en_aurora e) (en_height e) = Some c" and "rm_height (en_machine e) = en_height e"
    and "nd_blocks (en_node e) \<noteq> []" and "blk_height (last (nd_blocks (en_node e))) < en_height e"
    and "\<forall>st \<in> set sts. \<not> brings_block st"
  shows "nd_blocks (en_node (engine_run X sts e)) = nd_blocks (en_node e) \<and> en_height (engine_run X sts e) = en_height e"
proof -
  have "halted (en_height e) (nd_blocks (en_node e)) (engine_run X sts e)"
    by (rule engine_run_keeps, rule calm_respond) (use assms in \<open>auto simp: halted_def\<close>)
  then show ?thesis by (simp add: halted_def)
qed

theorem unexecutable_block_halts_witness:
  "is_committed (en_aurora stalled_engine) 1 = Some (block_hash ref_validator_ext future_block) \<and>
   nd_blocks (en_node (engine_run ref_validator_ext [Tick 1, Tick 2, Tick 3, Message 4 (NmProposal 1 future_block), Tick 5] stalled_engine)) =
     [deterministic_genesis]"
  using unexecutable_block_halts [of stalled_engine "block_hash ref_validator_ext future_block"
      "[Tick 1, Tick 2, Tick 3, Message 4 (NmProposal 1 future_block), Tick 5]" ref_validator_ext]
  by (simp add: stalled_engine_facts brings_block_def lone_node_def node_new_def deterministic_genesis_def)


text \<open>
  A block needs no votes. Whatever the consensus engine holds, even when not a single vote has been cast, a \<open>Block\<close>
  message from any peer that links to the head and executes is appended to the chain: neither its
  proposer nor a quorum is checked. The finality of the consensus therefore rests on every authenticated peer.
\<close>

theorem unvoted_block_accepted:
  assumes "commit_block X now b (en_node e) = (Ok sm, n')" and "\<forall>c \<in> set (nd_blocks (en_node e)). block_hash X c \<noteq> block_hash X b"
  shows "\<exists>e' es. handle_message X now (NmBlock b) (e\<lparr>en_aurora := aurora_new cfg vset_new None\<rparr>) = (Ok (), e') \<and> en_node e' = n' \<and>
    nd_blocks (en_node e') = nd_blocks (en_node e) @ [b\<lparr>blk_events := es\<rparr>] \<and> en_height e' = blk_height b + 1"
proof -
  have x: "extends X b (en_node e) n'" using commit_block_cases [OF assms(1)] by auto
  then obtain es where bs: "nd_blocks (en_node e) \<noteq> []" "nd_blocks n' = nd_blocks (en_node e) @ [b\<lparr>blk_events := es\<rparr>]"
    and b: "blk_parent b = block_hash X (last (nd_blocks (en_node e)))" "blk_height b = blk_height (last (nd_blocks (en_node e))) + 1"
    by (auto simp: extends_def core_def)
  have "accept_external_block X now b (en_node e) = (Ok True, n')"
    using assms b bs(1) by (simp add: accept_external_block_def andthen_def [of "commit_block X now b"])
  moreover have "reset_height s = (Ok (), at_height (blk_height b + 1) s)" if "en_node s = n'" for s
    using reset_height_run [of s] bs(2) that by simp
  ultimately show ?thesis
    using bs b(2) by (simp add: handle_message_def on_block_def node_head_def head_def andthen_def gets_def ret_def on_node_def Let_def) blast
qed

lemma ref_validator_ext_ok: "node_ext_ok ref_validator_ext"
  using ref_node_ext_ok
  by (simp add: node_ext_ok_def veil_ext_ok_def identity_ext_ok_def kernel_ext_ok_def hash_ext_ok_def token_ext_ok_def
      ref_validator_ext_def ref_node_ext_def ref_store_ext_def token_ext.defs store_ext.defs node_ext.defs validator_ext.defs)

text \<open>Under the reference hash the height of a block can be read off its hash.\<close>

lemma ref_hash_height: "take 8 (drop 14 (hash_bytes (block_hash ref_validator_ext b))) = u64_to_le_bytes (blk_height b)"
proof -
  let ?P = "as_bytes ''block'' @ [255] @ u64_to_le_bytes 8"
  have b3: "blake3 ref_validator_ext xs = take 32 (xs @ replicate 32 0)" for xs
    by (simp add: ref_validator_ext_def ref_node_ext_def ref_store_ext_def ref_token_ext_def ref_veil_ext_def ref_identity_ext_def
        ref_kernel_ext_def ref_hash_ext_def validator_ext.defs node_ext.defs store_ext.defs token_ext.defs veil_ext.defs identity_ext.defs
        kernel_ext.defs hash_ext.defs)
  have "\<exists>rest. hash_bytes (block_hash ref_validator_ext b) = take 32 (?P @ u64_to_le_bytes (blk_height b) @ rest)"
    by (simp add: block_hash_def commit_def commit_preimage_def b3 del: take_append) blast
  then obtain rest where r: "hash_bytes (block_hash ref_validator_ext b) = take 32 (?P @ u64_to_le_bytes (blk_height b) @ rest)" by blast
  have l: "length ?P = 14" by simp
  have "drop 14 (take 32 (?P @ u64_to_le_bytes (blk_height b) @ rest)) = take 18 (u64_to_le_bytes (blk_height b) @ rest)"
  proof -
    have "drop (length ?P) (?P @ Q) = Q" for Q by (rule append_eq_conv_conj [THEN iffD1, THEN conjunct2, symmetric, OF refl])
    then show ?thesis unfolding drop_take l by simp
  qed
  then show ?thesis unfolding r by simp
qed

lemma lone_block_commits:
  "\<exists>b sm n'. commit_block ref_validator_ext 101 b lone_node = (Ok sm, n') \<and> blk_height b = 1 \<and>
     block_hash ref_validator_ext deterministic_genesis \<noteq> block_hash ref_validator_ext b"
proof -
  let ?X = ref_validator_ext
  have n: "nd_blocks lone_node = [deterministic_genesis]" "nd_keyrings lone_node = []" "store_live ?X lone_node" "panic_free (nd_cascade lone_node)"
    by (simp_all add: lone_node_def node_new_def store_live_def panic_free_def cascade_new_def)
  obtain b n1 where a: "assemble_block ?X 100 lone_node = (Ok b, n1)" using assemble_block_ok [OF n(4) _ n(3)] n(1) by fastforce
  obtain t :: trial where b: "blk_height b = blk_height (last (nd_blocks lone_node)) + 1" "blk_parent b = block_hash ?X (last (nd_blocks lone_node))"
    "blk_timestamp b = max 100 (blk_timestamp (last (nd_blocks lone_node)))"
    by (rule assemble_block_OkD [OF a]) blast
  obtain s where r: "reexecute ?X (nd_cascade lone_node) (nd_limits lone_node) (nd_fee_policy lone_node) b (nd_state lone_node) = Ok (s, blk_events b)"
    using assembled_reexecutes [OF a] by blast
  have "\<exists>sm n'. commit_block ?X 101 b lone_node = (Ok sm, n')"
    using commit_block_ok [OF ref_validator_ext_ok _ n(3) _ b(2,1) _ _ r, of 101] n b(3)
    by (fastforce simp: deterministic_genesis_def saturating_add_def MAX_FUTURE_DRIFT_SECS_def)
  moreover have h: "blk_height b = 1" using b(1) n(1) by (simp add: deterministic_genesis_def)
  moreover have "block_hash ?X deterministic_genesis \<noteq> block_hash ?X b"
    using ref_hash_height [of deterministic_genesis] ref_hash_height [of b] h by (auto simp: deterministic_genesis_def)
  ultimately show ?thesis by blast
qed

theorem unvoted_block_accepted_witness:
  "\<exists>b e'. handle_message ref_validator_ext 101 (NmBlock b) (lone_engine\<lparr>en_aurora := aurora_new default_config vset_new None\<rparr>) = (Ok (), e') \<and>
     length (nd_blocks (en_node e')) = 2 \<and> en_height e' = 2"
proof -
  obtain b sm n' where b: "commit_block ref_validator_ext 101 b lone_node = (Ok sm, n')" "blk_height b = 1"
    "block_hash ref_validator_ext deterministic_genesis \<noteq> block_hash ref_validator_ext b"
    using lone_block_commits by blast
  have n: "en_node lone_engine = lone_node" "nd_blocks lone_node = [deterministic_genesis]"
    by (simp_all add: lone_engine_def lone_node_def node_new_def)
  show ?thesis
    using unvoted_block_accepted [of ref_validator_ext 101 b lone_engine sm n' default_config] b n by force
qed


text \<open>
  Anybody can change the view. A view change carries the key its signature is checked against, so with one key pair of
  one's own a valid message can be made in the name of every validator.
\<close>

definition forged_view_change :: "'x identity_ext_scheme \<Rightarrow> party_identity \<Rightarrow> party_id \<Rightarrow> u64 \<Rightarrow> u32 \<Rightarrow> view_change" where
  "forged_view_change X i victim height view =
     (let vc = \<lparr>vw_height = height, vw_view = view, vw_voter = victim, vw_public_key = public_key X i, vw_signature = []\<rparr> in
      vc\<lparr>vw_signature := sign_bytes X i (view_signing_bytes vc)\<rparr>)"

theorem forged_view_change_accepted:
  assumes "identity_ext_ok X"
  shows "verify_view_change X (forged_view_change X i victim h w) vset \<longleftrightarrow> is_validator vset victim"
proof -
  have "view_signing_bytes (vc\<lparr>vw_signature := s\<rparr>) = view_signing_bytes vc" for vc s by (simp add: view_signing_bytes_def)
  then show ?thesis
    using verify_sign_bytes [OF assms, of i] by (simp add: verify_view_change_def forged_view_change_def Let_def view_signing_bytes_def)
qed

theorem forged_view_change_accepted_witness:
  "verify_view_change ref_identity_ext (forged_view_change ref_identity_ext (from_seed ''mallory'' [9]) (PartyId ''bob'') 1 7) demo_vset"
  using forged_view_change_accepted [OF ref_identity_ext_ok, of "from_seed ''mallory'' [9]" "PartyId ''bob''" 1 7 demo_vset] by simp

text \<open>
  A forged vote silences the watch. A vote with any signature that is not empty takes the slot of its height, round and kind,
  because the watch sees a vote before its signature is checked. When the validator's own vote arrives, the proof that is
  built from the pair carries the forged signature, and from then on nothing more is reported about this validator.
\<close>

theorem forged_vote_silences_watch:
  assumes "vote_slot v = vote_slot w" and "vt_block_hash v \<noteq> vt_block_hash w" and "vt_signature v \<noteq> []" and "vt_signature w \<noteq> []"
    and "ew_seen s0 (vote_slot v) = None" and "party_name (vt_voter v) \<notin> ew_slashed s0"
  shows "\<exists>s1 s2 pf. observe X v pk s0 = (None, s1) \<and> observe X w pk s1 = (Some pf, s2) \<and>
    ep_signature_a pf = hex_encode X (vt_signature v) \<and> (\<forall>u. vt_voter u = vt_voter w \<longrightarrow> fst (observe X u pk s2) = None)"
proof -
  have p: "vt_voter w = vt_voter v" using assms(1) by (auto simp: vote_slot_def party_id.expand)
  then show ?thesis using assms by (auto simp: observe_def Let_def split: option.splits)
qed

theorem forged_vote_silences_watch_witness:
  "\<exists>s1 s2 pf. observe ref_staking_ext ((double_vote ZERO)\<lparr>vt_signature := [0]\<rparr>) [] watch_new = (None, s1) \<and>
     observe ref_staking_ext ((double_vote (Hash [1]))\<lparr>vt_signature := [1]\<rparr>) [] s1 = (Some pf, s2) \<and>
     ep_signature_a pf = hex_encode ref_staking_ext [0]"
proof -
  let ?v = "(double_vote ZERO)\<lparr>vt_signature := [0]\<rparr>" and ?w = "(double_vote (Hash [1]))\<lparr>vt_signature := [1]\<rparr>"
  have "vote_slot ?v = vote_slot ?w" "vt_block_hash ?v \<noteq> vt_block_hash ?w"
    by (simp_all add: double_vote_def Let_def vote_slot_def ZERO_def numeral_eq_Suc)
  from forged_vote_silences_watch [OF this, of watch_new ref_staking_ext "[]"] show ?thesis by (auto simp: watch_new_def)
qed

end
