(* ===== verification/Light_Client.thy ===== *)
theory Light_Client
  imports Node_Properties
begin

text \<open>
  \<open>lightclient/src/lib.rs\<close>: a client that follows block headers from a trusted one and checks state proofs against
  the state root of its head. The properties relate it to a full node of the theory \<open>Node\<close>.
\<close>

section \<open>The client\<close>

record header =
  hd_height :: u64
  hd_parent :: hash
  hd_events_root :: hash
  hd_state_root :: hash
  hd_commands_root :: hash
  hd_timestamp :: u64
  hd_proposer :: party_id

definition header_hash :: "'x hash_ext_scheme \<Rightarrow> header \<Rightarrow> hash" where
  "header_hash X h = commit X ''block''
     [u64_to_le_bytes (hd_height h), hash_bytes (hd_parent h), hash_bytes (hd_events_root h), hash_bytes (hd_state_root h),
      hash_bytes (hd_commands_root h), u64_to_le_bytes (hd_timestamp h), as_bytes (party_name (hd_proposer h))]"

datatype light_error = BrokenChain u64 | BadHeaderHeight nat | BadStateProof

record state_proof =
  sp_key :: string
  sp_value :: bytes
  sp_proof :: "merkle_step list"
  sp_state_root :: hash

record light_client =
  lc_trusted :: header

definition light_new :: "header \<Rightarrow> light_client" where
  "light_new trusted_genesis = \<lparr>lc_trusted = trusted_genesis\<rparr>"

definition light_head :: "light_client \<Rightarrow> header" where
  "light_head c = lc_trusted c"

fun header_loop :: "'x hash_ext_scheme \<Rightarrow> nat \<Rightarrow> header list \<Rightarrow> (light_client, light_error, unit) act" where
  "header_loop X i [] = ret ()"
| "header_loop X i (h # hs) =
     andthen (gets lc_trusted) (\<lambda>t.
     andthen (ensure (hd_height h = hd_height t + 1) (BadHeaderHeight i)) (\<lambda>_.
     andthen (ensure (hd_parent h = header_hash X t) (BrokenChain (hd_height h))) (\<lambda>_.
     andthen (modify (\<lambda>c. c\<lparr>lc_trusted := h\<rparr>)) (\<lambda>_.
     header_loop X (Suc i) hs))))"

definition apply_headers :: "'x hash_ext_scheme \<Rightarrow> header list \<Rightarrow> (light_client, light_error, unit) act" where
  "apply_headers X hs = header_loop X 0 hs"

definition verify_state_against_root :: "'x hash_ext_scheme \<Rightarrow> state_proof \<Rightarrow> bool" where
  "verify_state_against_root X p = verify_merkle_proof X (leaf_hash X (sp_key p) (sp_value p)) (sp_proof p) (sp_state_root p)"

definition verify_state :: "'x hash_ext_scheme \<Rightarrow> light_client \<Rightarrow> state_proof \<Rightarrow> light_error + unit" where
  "verify_state X c p =
     (if sp_state_root p \<noteq> hd_state_root (lc_trusted c) then Inl BadStateProof
      else if verify_merkle_proof X (leaf_hash X (sp_key p) (sp_value p)) (sp_proof p) (sp_state_root p) then Inr ()
      else Inl BadStateProof)"

section \<open>Headers of blocks\<close>

definition header_of :: "'x kernel_ext_scheme \<Rightarrow> block \<Rightarrow> header" where
  "header_of X b = \<lparr>hd_height = blk_height b, hd_parent = blk_parent b, hd_events_root = blk_events_root b,
     hd_state_root = blk_state_root b, hd_commands_root = commands_root X b, hd_timestamp = blk_timestamp b, hd_proposer = blk_proposer b\<rparr>"

lemma header_of_hash [simp]: "header_hash X (header_of X b) = block_hash X b"
  by (simp add: header_hash_def header_of_def block_hash_def)

text \<open>What the client has accepted: a chain of headers, each naming the hash of the one before it.\<close>

fun header_chain :: "'x hash_ext_scheme \<Rightarrow> header \<Rightarrow> header list \<Rightarrow> bool" where
  "header_chain X t [] \<longleftrightarrow> True"
| "header_chain X t (h # hs) \<longleftrightarrow> hd_height h = hd_height t + 1 \<and> hd_parent h = header_hash X t \<and> header_chain X h hs"

lemma header_loop_iff:
  "header_loop X i hs c = (Ok (), c') \<longleftrightarrow> header_chain X (lc_trusted c) hs \<and> c' = c\<lparr>lc_trusted := last (lc_trusted c # hs)\<rparr>"
proof (induction hs arbitrary: i c)
  case Nil
  then show ?case by (cases c) (auto simp: ret_def)
next
  case (Cons h hs)
  then show ?case by (auto simp: andthen_def gets_def ensure_def ret_def raise_def modify_def)
qed

lemma header_chain_snoc:
  "header_chain X t (hs @ [h]) \<longleftrightarrow> header_chain X t hs \<and> hd_height h = hd_height (last (t # hs)) + 1 \<and> hd_parent h = header_hash X (last (t # hs))"
  by (induction hs arbitrary: t) auto

lemma header_of_fields [simp]:
  "hd_height (header_of X b) = blk_height b" "hd_parent (header_of X b) = blk_parent b" "hd_state_root (header_of X b) = blk_state_root b"
  by (simp_all add: header_of_def)

lemma linked_header_chain: "linked X (g # bs) \<Longrightarrow> header_chain X (header_of X g) (map (header_of X) bs)"
  by (induction bs arbitrary: g) auto

section \<open>The head of a node\<close>

lemma chain_state_root:
  assumes "chain_inv X g s n" and "tl (nd_blocks n) \<noteq> []"
  shows "blk_state_root (last (nd_blocks n)) = state_root X (nd_state n)"
proof -
  obtain bs where bs: "nd_blocks n = g # bs" "bs \<noteq> []" and r: "replay X (nd_cascade n) (nd_limits n) (nd_fee_policy n) s bs = Some (nd_state n)"
    using assms by (auto simp: chain_inv_def)
  obtain cs b where b: "bs = cs @ [b]" using bs(2) by (meson rev_exhaust)
  from r [unfolded b replay_snoc] obtain t where "replay X (nd_cascade n) (nd_limits n) (nd_fee_policy n) t [b] = Some (nd_state n)"
    by (auto simp del: replay.simps split: Option.bind_splits)
  then obtain es where "reexecute X (nd_cascade n) (nd_limits n) (nd_fee_policy n) b t = Ok (nd_state n, es)"
    by (auto split: outcome.splits if_splits prod.splits)
  then show ?thesis
    using bs b by (auto simp: reexecute_def Let_def split: outcome.splits prod.splits if_splits)
qed


section \<open>Properties\<close>

definition wf_header :: "header \<Rightarrow> bool" where
  "wf_header h \<longleftrightarrow> wf_hash (hd_parent h) \<and> wf_hash (hd_events_root h) \<and> wf_hash (hd_state_root h) \<and> wf_hash (hd_commands_root h) \<and>
     length (party_name (hd_proposer h)) < 2 ^ 64"

text \<open>The string that is hashed for a header\<close>

definition header_preimage :: "header \<Rightarrow> bytes" where
  "header_preimage h = commit_preimage ''block''
     [u64_to_le_bytes (hd_height h), hash_bytes (hd_parent h), hash_bytes (hd_events_root h), hash_bytes (hd_state_root h),
      hash_bytes (hd_commands_root h), u64_to_le_bytes (hd_timestamp h), as_bytes (party_name (hd_proposer h))]"

lemma header_hash_inj:
  assumes "header_hash X a = header_hash X b" and "wf_header a" and "wf_header b"
  shows "a = b \<or> collides X [header_preimage a] [header_preimage b]"
proof -
  let ?parts = "\<lambda>h. [u64_to_le_bytes (hd_height h), hash_bytes (hd_parent h), hash_bytes (hd_events_root h), hash_bytes (hd_state_root h),
      hash_bytes (hd_commands_root h), u64_to_le_bytes (hd_timestamp h), as_bytes (party_name (hd_proposer h))]"
  show ?thesis
  proof (cases "commit_preimage ''block'' (?parts a) = commit_preimage ''block'' (?parts b)")
    case True
    have "''block'' = ''block'' \<and> ?parts a = ?parts b"
      by (rule commit_preimage_inj [OF True]) (use assms in \<open>auto simp: utf8_free_ff_def wf_hash_def wf_header_def\<close>)
    then show ?thesis by (cases a; cases b) (auto simp: hash.expand party_id.expand)
  next
    case False
    with assms(1) show ?thesis by (auto simp: header_hash_def commit_def header_preimage_def)
  qed
qed

text \<open>
  C15. A light client can follow a node. When the chain of a node satisfies its invariant and has at least one block after
  the first, a client that trusts the header of the first block accepts the headers of all later blocks and ends at the header of
  the node's head; and every entry of the node's state then verifies at the client with the proof the node makes for it. (The first block alone
  carries no state root, so entries of a state seeded at genesis do not verify before the next block.)
\<close>

theorem light_client_follows_node:
  assumes "chain_inv X g s n" and "tl (nd_blocks n) \<noteq> []" and "st_get (nd_state n) k = Some v"
  shows "\<exists>pf. apply_headers X (map (header_of X) (tl (nd_blocks n))) (light_new (header_of X g)) =
      (Ok (), \<lparr>lc_trusted = header_of X (last (nd_blocks n))\<rparr>) \<and>
    prove X (nd_state n) k = Some (v, pf) \<and>
    verify_state X \<lparr>lc_trusted = header_of X (last (nd_blocks n))\<rparr>
      \<lparr>sp_key = k, sp_value = v, sp_proof = pf, sp_state_root = state_root X (nd_state n)\<rparr> = Inr ()"
proof -
  obtain bs where bs: "nd_blocks n = g # bs" "linked X (g # bs)" using assms(1) by (auto simp: chain_inv_def)
  have "header_loop X 0 (map (header_of X) bs) (light_new (header_of X g)) = (Ok (), \<lparr>lc_trusted = header_of X (last (g # bs))\<rparr>)"
    unfolding header_loop_iff using linked_header_chain [OF bs(2)] assms(2) bs(1) by (simp add: light_new_def last_map)
  moreover obtain i where i: "i < length (state_leaves X (nd_state n))" "state_leaves X (nd_state n) ! i = leaf_hash X k v"
    "prove X (nd_state n) k = Some (v, merkle_proof X (state_leaves X (nd_state n)) i)"
    "state_root X (nd_state n) = merkle_root X (state_leaves X (nd_state n))"
    by (rule state_proof_at [OF assms(3)])
  ultimately show ?thesis
    using bs chain_state_root [OF assms(1,2)] walk_proof_loop [OF i(1), of X]
    by (auto simp: apply_headers_def verify_state_def verify_merkle_proof_def merkle_proof_def merkle_root_def)
qed

text \<open>
  C16. What a light client accepts is the node's state. When the head of a client has the hash of the head of a node, then a value that
  the client accepts for a key of the node's state, along the path of the node's own proof, is the
  value in the state, or a BLAKE3 collision is at hand: the strings hashed for the two headers collide, or the strings hashed to verify the
  value and those hashed for the node's value collide at the same level. The node has a block after the first, hashes are 32
  bytes long, and keys, values and the proposer's name are shorter than \<open>2 ^ 64\<close> bytes.
\<close>

theorem light_client_binding:
  assumes "hash_ext_ok X" and "chain_inv X g s n" and "tl (nd_blocks n) \<noteq> []"
    and "header_hash X (lc_trusted c) = block_hash X (last (nd_blocks n))" and "wf_header (lc_trusted c)" and "wf_header (header_of X (last (nd_blocks n)))"
    and "verify_state X c p = Inr ()" and "prove X (nd_state n) (sp_key p) = Some (v, pf)"
    and "map sibling_on_right (sp_proof p) = map sibling_on_right pf" and "\<forall>st \<in> set (sp_proof p). wf_hash (sibling st)"
    and "length (sp_key p) < 2 ^ 64" "length v < 2 ^ 64" "length (sp_value p) < 2 ^ 64"
  shows "st_get (nd_state n) (sp_key p) = Some (sp_value p) \<or>
    collides X [header_preimage (lc_trusted c)] [header_preimage (header_of X (last (nd_blocks n)))] \<or>
    collides X (entry_inputs X (sp_key p) (sp_value p) (sp_proof p)) (entry_inputs X (sp_key p) v pf)"
proof -
  have "lc_trusted c = header_of X (last (nd_blocks n)) \<or> collides X [header_preimage (lc_trusted c)] [header_preimage (header_of X (last (nd_blocks n)))]"
    by (rule header_hash_inj) (use assms(4-6) in simp_all)
  moreover have "st_get (nd_state n) (sp_key p) = Some (sp_value p) \<or>
      collides X (entry_inputs X (sp_key p) (sp_value p) (sp_proof p)) (entry_inputs X (sp_key p) v pf)" if "lc_trusted c = header_of X (last (nd_blocks n))"
  proof -
    have root: "sp_state_root p = state_root X (nd_state n)" and ver: "verify_merkle_proof X (leaf_hash X (sp_key p) (sp_value p)) (sp_proof p) (sp_state_root p)"
      using assms(7) that chain_state_root [OF assms(2,3)] by (auto simp: verify_state_def split: if_splits)
    have get: "st_get (nd_state n) (sp_key p) = Some v" using assms(8) by (auto simp: prove_def st_get_def split: option.splits)
    obtain i where i: "i < length (state_leaves X (nd_state n))" "state_leaves X (nd_state n) ! i = leaf_hash X (sp_key p) v"
      "pf = merkle_proof X (state_leaves X (nd_state n)) i" "state_root X (nd_state n) = merkle_root X (state_leaves X (nd_state n))"
      using state_proof_at [OF get, of X] assms(8) by auto
    have "(leaf_hash X (sp_key p) (sp_value p) = state_leaves X (nd_state n) ! i \<and> sp_proof p = pf) \<or>
        collides X (walk_inputs X (leaf_hash X (sp_key p) (sp_value p)) (sp_proof p)) (walk_inputs X (state_leaves X (nd_state n) ! i) pf)"
      unfolding i(3) using assms(1,9,10) i ver root by (intro proof_binding) (auto simp: state_leaves_def leaf_hash_def)
    then show ?thesis using leaf_hash_inj [of X "sp_key p" "sp_value p" "sp_key p" v] i(2) get assms(11-13) by (auto simp: entry_inputs_def)
  qed
  ultimately show ?thesis by blast
qed

text \<open>
  Two chains of headers of one length that lead from one trusted header to one hash are the same, or the strings hashed for
  two headers at the same position are a BLAKE3 collision.
\<close>

theorem header_chain_binding:
  assumes "header_chain X t hs" and "header_chain X t hs'" and "length hs = length hs'"
    and "header_hash X (last (t # hs)) = header_hash X (last (t # hs'))" and "\<forall>h \<in> set (hs @ hs'). wf_header h"
  shows "hs = hs' \<or> collides X (map header_preimage hs) (map header_preimage hs')"
  using assms
proof (induction hs arbitrary: hs' rule: rev_induct)
  case (snoc h hs)
  then obtain h' ks where k: "hs' = ks @ [h']" by (cases hs' rule: rev_cases) auto
  have "h = h' \<or> collides X [header_preimage h] [header_preimage h']" using snoc.prems(4,5) k by (intro header_hash_inj) auto
  moreover have "hs = ks \<or> collides X (map header_preimage hs) (map header_preimage ks)" if "h = h'"
    using snoc.prems k that by (intro snoc.IH) (auto simp: header_chain_snoc)
  moreover have "length hs = length ks" using snoc.prems(3) k by simp
  ultimately show ?case using k by (auto simp: collides_append)
qed simp

text \<open>
  A light client accepts headers that no validator has signed: any header with the next height and the hash of the trusted one
  as its parent, whatever its roots and its proposer.
\<close>

theorem unsigned_header_accepted:
  "apply_headers X [h\<lparr>hd_height := hd_height t + 1, hd_parent := header_hash X t\<rparr>] (light_new t) =
     (Ok (), light_new (h\<lparr>hd_height := hd_height t + 1, hd_parent := header_hash X t\<rparr>))"
  by (simp add: apply_headers_def header_loop_iff light_new_def)


section \<open>A concrete chain\<close>

definition clock_state :: state_tree where
  "clock_state = set_now ref_node_ext 100 st_new"

definition clock_block :: block where
  "clock_block = \<lparr>blk_height = 1, blk_parent = block_hash ref_node_ext deterministic_genesis, blk_events_root = merkle_root ref_node_ext [],
     blk_state_root = state_root ref_node_ext clock_state, blk_timestamp = 100, blk_proposer = PartyId ''val'', blk_events = [], blk_commands = []\<rparr>"

definition clock_node :: node where
  "clock_node = (node_new (PartyId ''val'') cascade_new)\<lparr>nd_blocks := [deterministic_genesis, clock_block], nd_state := clock_state\<rparr>"

abbreviation clock_value :: bytes where
  "clock_value \<equiv> to_vec_or_default (codec_of word_coder) (100 :: u64)"

lemma clock_state_get: "st_get clock_state ''chain/now'' = Some clock_value"
proof -
  have "codec_ok (js_now ref_node_ext)" "js_now ref_node_ext = codec_of word_coder"
    using node_ext_okD(5) [OF ref_node_ext_ok] by (simp_all add: ref_node_ext_def store_ext.defs node_ext.defs)
  then show ?thesis by (simp add: clock_state_def set_now_def modify_def)
qed

lemma clock_chain: "chain_inv ref_node_ext deterministic_genesis st_new clock_node"
proof -
  have "reexecute ref_node_ext cascade_new default_limits default_fee_policy clock_block st_new = Ok (clock_state, [])"
    by (simp add: reexecute_def clock_block_def clock_state_def [symmetric] ret_def Let_def adjust_base_price_def fee_dynamic_def fee_enabled_def
        default_fee_policy_def default_limits_def)
  then show ?thesis
    by (simp add: chain_inv_def clock_node_def node_new_def) (simp add: clock_block_def deterministic_genesis_def)
qed

lemma clock_tail: "tl (nd_blocks clock_node) = [clock_block]" "nd_state clock_node = clock_state" "last (nd_blocks clock_node) = clock_block"
  by (simp_all add: clock_node_def)

theorem light_client_follows_node_witness:
  "\<exists>pf. apply_headers ref_node_ext [header_of ref_node_ext clock_block] (light_new (header_of ref_node_ext deterministic_genesis)) =
      (Ok (), \<lparr>lc_trusted = header_of ref_node_ext clock_block\<rparr>) \<and>
    verify_state ref_node_ext \<lparr>lc_trusted = header_of ref_node_ext clock_block\<rparr>
      \<lparr>sp_key = ''chain/now'', sp_value = clock_value, sp_proof = pf, sp_state_root = state_root ref_node_ext clock_state\<rparr> = Inr ()"
  using light_client_follows_node [OF clock_chain, of "''chain/now''" clock_value] clock_state_get by (simp add: clock_tail) blast

lemma wf_walk: "hash_ext_ok X \<Longrightarrow> wf_hash acc \<Longrightarrow> wf_hash (walk X acc p)"
  by (induction p arbitrary: acc) auto

lemma wf_state_root: "hash_ext_ok X \<Longrightarrow> st_get s k = Some v \<Longrightarrow> wf_hash (state_root X s)"
proof -
  assume h: "hash_ext_ok X" and g: "st_get s k = Some v"
  obtain i where i: "i < length (state_leaves X s)" "state_leaves X s ! i = leaf_hash X k v" "state_root X s = merkle_root X (state_leaves X s)"
    by (rule state_proof_at [OF g])
  then have "state_root X s = walk X (leaf_hash X k v) (proof_loop X (state_leaves X s) i)"
    using walk_proof_loop [OF i(1), of X] by (auto simp: merkle_root_def)
  then show ?thesis using wf_walk [OF h] h by (simp add: leaf_hash_def)
qed

lemma clock_wf: "hash_ext_ok ref_node_ext" "wf_header (header_of ref_node_ext clock_block)"
proof -
  show h: "hash_ext_ok ref_node_ext" using node_ext_okD(3) [OF ref_node_ext_ok] by (rule kernel_ext_okD(1))
  from wf_state_root [OF h clock_state_get] show "wf_header (header_of ref_node_ext clock_block)"
    using h by (simp add: wf_header_def header_of_def clock_block_def block_hash_def commands_root_def merkle_root_def)
qed

theorem light_client_binding_witness:
  "\<exists>p. verify_state ref_node_ext \<lparr>lc_trusted = header_of ref_node_ext clock_block\<rparr> p = Inr () \<and> sp_key p = ''chain/now'' \<and>
     st_get clock_state (sp_key p) = Some (sp_value p)"
proof -
  let ?X = ref_node_ext and ?c = "\<lparr>lc_trusted = header_of ref_node_ext clock_block\<rparr>"
  obtain i where i: "i < length (state_leaves ?X clock_state)" "state_leaves ?X clock_state ! i = leaf_hash ?X ''chain/now'' clock_value"
    "prove ?X clock_state ''chain/now'' = Some (clock_value, merkle_proof ?X (state_leaves ?X clock_state) i)"
    "state_root ?X clock_state = merkle_root ?X (state_leaves ?X clock_state)"
    by (rule state_proof_at [OF clock_state_get])
  let ?pf = "merkle_proof ?X (state_leaves ?X clock_state) i"
  let ?p = "\<lparr>sp_key = ''chain/now'', sp_value = clock_value, sp_proof = ?pf, sp_state_root = state_root ?X clock_state\<rparr>"
  have v: "verify_state ?X ?c ?p = Inr ()"
    using i walk_proof_loop [OF i(1), of ?X]
    by (auto simp: verify_state_def verify_merkle_proof_def merkle_proof_def merkle_root_def clock_block_def)
  have w: "\<forall>st \<in> set ?pf. wf_hash (sibling st)"
  proof -
    have "\<forall>h \<in> set (state_leaves ?X clock_state). wf_hash h" using clock_wf(1) by (auto simp: state_leaves_def)
    from proof_loop_wf [OF clock_wf(1) this i(1)] show ?thesis using i(1) by (simp add: merkle_proof_def)
  qed
  have "length clock_value < 2 ^ 64" by (simp add: to_vec_or_default_def codec_of_def word_coder_def iso_coder_def nat_coder_def)
  then have "st_get (nd_state clock_node) (sp_key ?p) = Some (sp_value ?p) \<or>
      collides ?X [header_preimage (lc_trusted ?c)] [header_preimage (header_of ?X (last (nd_blocks clock_node)))] \<or>
      collides ?X (entry_inputs ?X (sp_key ?p) (sp_value ?p) (sp_proof ?p)) (entry_inputs ?X (sp_key ?p) clock_value ?pf)"
    using v w i(3) clock_wf by (intro light_client_binding [OF clock_wf(1) clock_chain, of ?c ?p clock_value ?pf]) (simp_all add: clock_tail)
  then show ?thesis using v by (intro exI [of _ ?p]) (simp add: clock_tail)
qed

theorem header_chain_binding_witness:
  "[header_of ref_node_ext clock_block] = [header_of ref_node_ext clock_block] \<or>
    collides ref_node_ext (map header_preimage [header_of ref_node_ext clock_block]) (map header_preimage [header_of ref_node_ext clock_block])"
  by (rule header_chain_binding [where t = "header_of ref_node_ext deterministic_genesis"])
    (use clock_wf in \<open>simp_all add: clock_block_def deterministic_genesis_def\<close>)

end
