(* ===== verification/Tables.thy ===== *)
theory Tables
  imports Kernel_Cascade
begin

text \<open>
  A prism keeps its records as JSON cells of the state, one table per kind of record, with the key built from the
  identifier. The locale \<open>json_table\<close> is the contract of such a table: a serialiser that round trips and an injective key.
  It gives reading after writing and removing once for all tables.
\<close>

definition put_cell :: "'v codec \<Rightarrow> string \<Rightarrow> 'v \<Rightarrow> state_tree \<Rightarrow> state_tree" where
  "put_cell c k v s = st_put k (to_vec_or_default c v) s"

definition del_cell :: "string \<Rightarrow> state_tree \<Rightarrow> state_tree" where
  "del_cell k s = snd (st_remove k s)"

named_theorems table_cells \<open>reading JSON cells after writes\<close>

lemma cell_frames [table_cells]:
  "k \<noteq> k' \<Longrightarrow> get_json_opt d (put_cell c k v s) k' = get_json_opt d s k'"
  "k \<noteq> k' \<Longrightarrow> get_json_opt d (del_cell k s) k' = get_json_opt d s k'"
  by (simp_all add: put_cell_def del_cell_def get_json_opt_def get_json_get)

lemma cell_gets:
  "st_get (put_cell c k v s) k' = (if k = k' then Some (to_vec_or_default c v) else st_get s k')"
  "st_get (del_cell k s) k' = (if k = k' then None else st_get s k')"
  by (simp_all add: put_cell_def del_cell_def)

lemma cell_contains:
  "st_contains (put_cell c k v s) k' \<longleftrightarrow> k = k' \<or> st_contains s k'"
  "st_contains (del_cell k s) k' \<longleftrightarrow> k \<noteq> k' \<and> st_contains s k'"
  by (simp_all add: st_contains_get cell_gets)

lemma get_json_opt_absent: "\<not> st_contains s k \<Longrightarrow> get_json_opt c s k = None"
  by (simp add: get_json_opt_def get_json_get st_contains_get)

lemma put_json_cell: "codec_ok c \<Longrightarrow> put_json_internal c k v = modify (put_cell c k v)"
  by (simp add: put_cell_def [abs_def])

locale json_table =
  fixes ok :: "'x \<Rightarrow> bool"
    and codec :: "'x \<Rightarrow> 'v codec"
    and key :: "'x \<Rightarrow> 'k \<Rightarrow> string"
  assumes codec_law: "ok X \<Longrightarrow> codec_ok (codec X)"
    and key_law: "ok X \<Longrightarrow> key X i = key X j \<longleftrightarrow> i = j"
begin

lemma run_put: "ok X \<Longrightarrow> put_json_internal (codec X) (key X i) v = modify (put_cell (codec X) (key X i) v)"
  by (rule put_json_cell) (rule codec_law)

lemma get_put:
  "ok X \<Longrightarrow> get_json_opt (codec X) (put_cell (codec X) (key X i) v s) (key X j) =
     (if i = j then Some v else get_json_opt (codec X) s (key X j))"
  by (simp add: put_cell_def get_json_opt_put codec_law key_law)

lemma get_del:
  "ok X \<Longrightarrow> get_json_opt (codec X) (del_cell (key X i) s) (key X j) =
     (if i = j then None else get_json_opt (codec X) s (key X j))"
  by (simp add: del_cell_def get_json_opt_def get_json_get key_law)

end

end
