(* ===== verification/Multisig.thy ===== *)
theory Multisig
  imports Tables Token
begin

text \<open>
  \<open>prisms/multisig/src/lib.rs\<close>: accounts shared by several owners. A command proposed by one owner is derived into the
  cascade once enough owners have confirmed it.
\<close>

section \<open>Data\<close>

record multisig_account =
  ms_id :: hash
  ms_owners :: "party_id list"
  ms_threshold :: u32
  ms_nonce :: u64

record multisig_tx =
  mt_account :: hash
  mt_seq :: u64
  mt_inner :: command
  mt_confirmations :: "string fset"
  mt_executed :: bool

datatype multisig_command =
    McCreateAccount "party_id list" u32
  | McPropose hash command
  | McConfirm hash u64
  | McRevoke hash u64

datatype multisig_event =
    MeAccountCreated hash u32 nat
  | MeProposed hash u64 party_id
  | MeConfirmed hash u64 party_id u32
  | MeRevoked hash u64 party_id
  | MeExecuted hash u64

record multisig_ext = kernel_ext +
  js_multisig_account :: "multisig_account codec"
  js_multisig_tx :: "multisig_tx codec"
  js_multisig_command :: "multisig_command codec"
  js_multisig_event :: "multisig_event codec"

definition multisig_ext_ok :: "'x multisig_ext_scheme \<Rightarrow> bool" where
  "multisig_ext_ok X \<longleftrightarrow> kernel_ext_ok X \<and> codec_ok (js_multisig_account X) \<and> codec_ok (js_multisig_tx X) \<and>
     codec_ok (js_multisig_command X) \<and> codec_ok (js_multisig_event X)"

section \<open>Operations\<close>

abbreviation (input) "MAX_OWNERS \<equiv> (64 :: nat)"

definition acc_key :: "'x kernel_ext_scheme \<Rightarrow> hash \<Rightarrow> string" where
  "acc_key X i = ''multisig/acc/'' @ to_hex X i"

definition tx_key :: "'x kernel_ext_scheme \<Rightarrow> hash \<Rightarrow> u64 \<Rightarrow> string" where
  "tx_key X account sq = ''multisig/tx/'' @ to_hex X account @ ''/'' @ decimal (unat sq)"

definition load_account :: "'x multisig_ext_scheme \<Rightarrow> hash \<Rightarrow> (state_tree, prism_error, multisig_account) act" where
  "load_account X i = get_json_or (js_multisig_account X) (acc_key X i) (NotFound (''multisig account '' @ to_hex X i))"

definition load_tx :: "'x multisig_ext_scheme \<Rightarrow> hash \<Rightarrow> u64 \<Rightarrow> (state_tree, prism_error, multisig_tx) act" where
  "load_tx X account sq = get_json_or (js_multisig_tx X) (tx_key X account sq) (NotFound (''multisig tx '' @ decimal (unat sq)))"

definition multisig_emit :: "'x multisig_ext_scheme \<Rightarrow> command \<Rightarrow> multisig_event \<Rightarrow> event" where
  "multisig_emit X cmd payload = emit X ''multisig'' cmd (to_vec_or_default (js_multisig_event X) payload)"

fun unique_owners :: "party_id list \<Rightarrow> party_id list \<Rightarrow> party_id list" where
  "unique_owners unique [] = unique"
| "unique_owners unique (p # ps) = unique_owners (if p \<in> set unique then unique else unique @ [p]) ps"

definition multisig_create ::
  "'x multisig_ext_scheme \<Rightarrow> command \<Rightarrow> party_id list \<Rightarrow> u32 \<Rightarrow> (state_tree, prism_error, prism_output) act" where
  "multisig_create X cmd owners threshold =
     (let unique = unique_owners [] owners in
      andthen (ensure (\<not> (unique = [] \<or> length unique > MAX_OWNERS)) (InvalidPayload ''owners must be 1..=64 distinct parties'')) (\<lambda>_.
      andthen (ensure (\<not> (threshold = 0 \<or> unat threshold > length unique)) (InvalidPayload ''threshold must be 1..=owners'')) (\<lambda>_.
      let i = commit X ''multisig/acc-id'' [as_bytes (party_name (cmd_submitter cmd)), u32_to_be_bytes threshold,
            as_bytes (join_with '','' (map party_name unique))] in
      andthen (gets (\<lambda>s. st_contains s (acc_key X i))) (\<lambda>exists.
      andthen (ensure (\<not> exists) (InvalidPayload ''account already exists'')) (\<lambda>_.
      andthen (put_json_internal (js_multisig_account X) (acc_key X i)
        \<lparr>ms_id = i, ms_owners = unique, ms_threshold = threshold, ms_nonce = 0\<rparr>) (\<lambda>_.
      ret (single_output (multisig_emit X cmd (MeAccountCreated i threshold (length unique))) 4000)))))))"

definition require_ms_owner :: "multisig_account \<Rightarrow> party_id \<Rightarrow> (state_tree, prism_error, unit) act" where
  "require_ms_owner acc caller = ensure (caller \<in> set (ms_owners acc)) (Unauthorized ''not an account owner'')"

definition multisig_propose ::
  "'x multisig_ext_scheme \<Rightarrow> command \<Rightarrow> hash \<Rightarrow> command \<Rightarrow> (state_tree, prism_error, prism_output) act" where
  "multisig_propose X cmd account inner =
     (let caller = cmd_submitter cmd in
      andthen (load_account X account) (\<lambda>acc.
      andthen (require_ms_owner acc caller) (\<lambda>_.
      let sq = ms_nonce acc; reached = (ms_threshold acc \<le> 1) in
      andthen (put_json_internal (js_multisig_account X) (acc_key X account) (acc\<lparr>ms_nonce := sq + 1\<rparr>)) (\<lambda>_.
      andthen (put_json_internal (js_multisig_tx X) (tx_key X account sq)
        \<lparr>mt_account = account, mt_seq = sq, mt_inner = inner, mt_confirmations = {|party_name caller|}, mt_executed = reached\<rparr>) (\<lambda>_.
      ret \<lparr>out_events = multisig_emit X cmd (MeProposed account sq caller) #
             (if reached then [multisig_emit X cmd (MeExecuted account sq)] else []),
           out_derived_commands = (if reached then [inner] else []), out_cost = 3000\<rparr>)))))"

definition multisig_confirm ::
  "'x multisig_ext_scheme \<Rightarrow> command \<Rightarrow> hash \<Rightarrow> u64 \<Rightarrow> (state_tree, prism_error, prism_output) act" where
  "multisig_confirm X cmd account sq =
     (let caller = cmd_submitter cmd in
      andthen (load_account X account) (\<lambda>acc.
      andthen (require_ms_owner acc caller) (\<lambda>_.
      andthen (load_tx X account sq) (\<lambda>tx.
      andthen (ensure (\<not> mt_executed tx) (InvalidPayload ''tx already executed'')) (\<lambda>_.
      let tx1 = tx\<lparr>mt_confirmations := finsert (party_name caller) (mt_confirmations tx)\<rparr>;
          count = of_nat (fcard (mt_confirmations tx1)) :: u32;
          reached = (count \<ge> ms_threshold acc) in
      andthen (put_json_internal (js_multisig_tx X) (tx_key X account sq)
        (if reached then tx1\<lparr>mt_executed := True\<rparr> else tx1)) (\<lambda>_.
      ret \<lparr>out_events = multisig_emit X cmd (MeConfirmed account sq caller count) #
             (if reached then [multisig_emit X cmd (MeExecuted account sq)] else []),
           out_derived_commands = (if reached then [mt_inner tx1] else []), out_cost = 1500\<rparr>))))))"

definition multisig_revoke ::
  "'x multisig_ext_scheme \<Rightarrow> command \<Rightarrow> hash \<Rightarrow> u64 \<Rightarrow> (state_tree, prism_error, prism_output) act" where
  "multisig_revoke X cmd account sq =
     (let caller = cmd_submitter cmd in
      andthen (load_account X account) (\<lambda>acc.
      andthen (require_ms_owner acc caller) (\<lambda>_.
      andthen (load_tx X account sq) (\<lambda>tx.
      andthen (ensure (\<not> mt_executed tx) (InvalidPayload ''cannot revoke an executed tx'')) (\<lambda>_.
      andthen (put_json_internal (js_multisig_tx X) (tx_key X account sq)
        (tx\<lparr>mt_confirmations := mt_confirmations tx |-| {|party_name caller|}\<rparr>)) (\<lambda>_.
      ret (single_output (multisig_emit X cmd (MeRevoked account sq caller)) 800)))))))"

definition multisig_dispatch ::
  "'x multisig_ext_scheme \<Rightarrow> command \<Rightarrow> multisig_command \<Rightarrow> (state_tree, prism_error, prism_output) act" where
  "multisig_dispatch X cmd c = (case c of
      McCreateAccount owners threshold \<Rightarrow> multisig_create X cmd owners threshold
    | McPropose account inner \<Rightarrow> multisig_propose X cmd account inner
    | McConfirm account sq \<Rightarrow> multisig_confirm X cmd account sq
    | McRevoke account sq \<Rightarrow> multisig_revoke X cmd account sq)"

definition multisig_handle :: "'x multisig_ext_scheme \<Rightarrow> handler" where
  "multisig_handle X cmd =
     andthen (parse_payload (js_multisig_command X) (cmd_payload cmd)) (multisig_dispatch X cmd)"

definition multisig_estimate :: "'x multisig_ext_scheme \<Rightarrow> command \<Rightarrow> state_tree \<Rightarrow> u64" where
  "multisig_estimate X cmd s =
     (case from_slice (js_multisig_command X) (cmd_payload cmd) of
        Inr (McCreateAccount _ _) \<Rightarrow> 4000
      | Inr (McPropose _ _) \<Rightarrow> 3000
      | Inr (McConfirm _ _) \<Rightarrow> 1500
      | Inr _ \<Rightarrow> 800
      | Inl _ \<Rightarrow> 1000)"

definition multisig_prism :: "'x multisig_ext_scheme \<Rightarrow> prism" where
  "multisig_prism X = \<lparr>pr_info = \<lparr>info_name = ''multisig'',
       info_description = ''M-of-N shared accounts: propose, confirm and execute commands'',
       info_version = ''1.0''\<rparr>,
     pr_handle = multisig_handle X, pr_estimate = multisig_estimate X\<rparr>"

definition account_of :: "'x multisig_ext_scheme \<Rightarrow> state_tree \<Rightarrow> hash \<Rightarrow> multisig_account option" where
  "account_of X s i = get_json_opt (js_multisig_account X) s (acc_key X i)"

definition pending_tx :: "'x multisig_ext_scheme \<Rightarrow> state_tree \<Rightarrow> hash \<Rightarrow> u64 \<Rightarrow> multisig_tx option" where
  "pending_tx X s account sq = get_json_opt (js_multisig_tx X) s (tx_key X account sq)"

definition multisig_command_of :: "'x multisig_ext_scheme \<Rightarrow> party_id \<Rightarrow> visibility \<Rightarrow> u64 \<Rightarrow> multisig_command \<Rightarrow> command" where
  "multisig_command_of X submitter vis nonce c =
     \<lparr>cmd_prism = ''multisig'', cmd_submitter = submitter, cmd_visibility = vis,
      cmd_payload = to_vec_or_default (js_multisig_command X) c, cmd_nonce = nonce\<rparr>"

definition create_account_command ::
  "'x multisig_ext_scheme \<Rightarrow> party_id \<Rightarrow> visibility \<Rightarrow> u64 \<Rightarrow> party_id list \<Rightarrow> u32 \<Rightarrow> command" where
  "create_account_command X submitter vis nonce owners threshold =
     multisig_command_of X submitter vis nonce (McCreateAccount owners threshold)"

definition propose_command ::
  "'x multisig_ext_scheme \<Rightarrow> party_id \<Rightarrow> visibility \<Rightarrow> u64 \<Rightarrow> hash \<Rightarrow> command \<Rightarrow> command" where
  "propose_command X submitter vis nonce account inner =
     multisig_command_of X submitter vis nonce (McPropose account inner)"

definition confirm_command ::
  "'x multisig_ext_scheme \<Rightarrow> party_id \<Rightarrow> visibility \<Rightarrow> u64 \<Rightarrow> hash \<Rightarrow> u64 \<Rightarrow> command" where
  "confirm_command X submitter vis nonce account sq =
     multisig_command_of X submitter vis nonce (McConfirm account sq)"

section \<open>Accounts and transactions in the state\<close>

lemma multisig_ext_okD:
  assumes "multisig_ext_ok X"
  shows "kernel_ext_ok X" "hash_ext_ok X" "codec_ok (js_multisig_account X)" "codec_ok (js_multisig_tx X)"
    "codec_ok (js_multisig_command X)"
  using assms by (simp_all add: multisig_ext_ok_def kernel_ext_okD)

lemma multisig_keys [simp]: "acc_key X i \<noteq> tx_key X j q" "tx_key X j q \<noteq> acc_key X i"
  by (simp_all add: acc_key_def tx_key_def)

lemma tx_key_inj: "hash_ext_ok X \<Longrightarrow> tx_key X i q = tx_key X j r \<longleftrightarrow> i = j \<and> q = r"
  using hex_slash_split [of X i "decimal (unat q)" j "decimal (unat r)"] by (auto simp: tx_key_def)

interpretation accounts: json_table multisig_ext_ok js_multisig_account acc_key
  by unfold_locales (simp_all add: multisig_ext_okD acc_key_def to_hex_inj)

interpretation txs: json_table multisig_ext_ok js_multisig_tx "\<lambda>X (i, q). tx_key X i q"
  by unfold_locales (auto simp: multisig_ext_okD tx_key_inj)

definition put_account :: "'x multisig_ext_scheme \<Rightarrow> hash \<Rightarrow> multisig_account \<Rightarrow> state_tree \<Rightarrow> state_tree" where
  "put_account X i = put_cell (js_multisig_account X) (acc_key X i)"

definition put_tx :: "'x multisig_ext_scheme \<Rightarrow> hash \<Rightarrow> u64 \<Rightarrow> multisig_tx \<Rightarrow> state_tree \<Rightarrow> state_tree" where
  "put_tx X i q = put_cell (js_multisig_tx X) (tx_key X i q)"

lemma multisig_cells [table_cells]:
  "multisig_ext_ok X \<Longrightarrow> account_of X (put_account X i a s) j = (if i = j then Some a else account_of X s j)"
  "account_of X (put_tx X i q t s) j = account_of X s j"
  "pending_tx X (put_account X i a s) j r = pending_tx X s j r"
  "multisig_ext_ok X \<Longrightarrow> pending_tx X (put_tx X i q t s) j r = (if i = j \<and> q = r then Some t else pending_tx X s j r)"
  using accounts.get_put [of X i a s j] txs.get_put [of X "(i, q)" t s "(j, r)"]
  by (simp_all add: account_of_def pending_tx_def put_account_def put_tx_def cell_frames)

lemma multisig_runs:
  assumes "multisig_ext_ok X"
  shows "load_account X i s = (Ok a, s1) \<longleftrightarrow> s1 = s \<and> account_of X s i = Some a"
    and "load_tx X i q s = (Ok t, s1) \<longleftrightarrow> s1 = s \<and> pending_tx X s i q = Some t"
    and "put_json_internal (js_multisig_account X) (acc_key X i) a = modify (put_account X i a)"
    and "put_json_internal (js_multisig_tx X) (tx_key X i q) t = modify (put_tx X i q t)"
  using accounts.run_put [OF assms] txs.run_put [OF assms, of "(i, q)"]
  by (simp_all add: load_account_def load_tx_def get_json_or_Ok_iff account_of_def pending_tx_def put_account_def [abs_def]
      put_tx_def [abs_def])

lemma unique_owners_spec:
  "distinct u \<Longrightarrow> distinct (unique_owners u ps) \<and> set (unique_owners u ps) = set u \<union> set ps"
  by (induction u ps rule: unique_owners.induct) auto

section \<open>What each command does\<close>

lemma multisig_create_Ok:
  assumes "multisig_ext_ok X" and "multisig_create X cmd owners threshold s = (Ok out, s')"
  shows "out_derived_commands out = [] \<and> (\<exists>i. account_of X s i = None \<and>
    s' = put_account X i \<lparr>ms_id = i, ms_owners = unique_owners [] owners, ms_threshold = threshold, ms_nonce = 0\<rparr> s \<and>
    length (unique_owners [] owners) \<le> 64 \<and> threshold \<noteq> 0 \<and> unat threshold \<le> length (unique_owners [] owners))"
proof -
  let ?i = "commit X ''multisig/acc-id'' [as_bytes (party_name (cmd_submitter cmd)), u32_to_be_bytes threshold,
    as_bytes (join_with '','' (map party_name (unique_owners [] owners)))]"
  have "out_derived_commands out = [] \<and> account_of X s ?i = None \<and>
    s' = put_account X ?i \<lparr>ms_id = ?i, ms_owners = unique_owners [] owners, ms_threshold = threshold, ms_nonce = 0\<rparr> s \<and>
    length (unique_owners [] owners) \<le> 64 \<and> threshold \<noteq> 0 \<and> unat threshold \<le> length (unique_owners [] owners)"
    using assms(2) unfolding multisig_create_def Let_def
    by (auto simp: ok_iffs multisig_runs [OF assms(1)] single_output_def account_of_def get_json_opt_absent)
  then show ?thesis by blast
qed

lemma multisig_propose_Ok:
  assumes "multisig_ext_ok X"
  shows "multisig_propose X cmd i inner s = (Ok out, s') \<longleftrightarrow> (\<exists>acc. account_of X s i = Some acc \<and>
    cmd_submitter cmd \<in> set (ms_owners acc) \<and>
    s' = put_tx X i (ms_nonce acc) \<lparr>mt_account = i, mt_seq = ms_nonce acc, mt_inner = inner,
           mt_confirmations = {|party_name (cmd_submitter cmd)|}, mt_executed = (ms_threshold acc \<le> 1)\<rparr>
         (put_account X i (acc\<lparr>ms_nonce := ms_nonce acc + 1\<rparr>) s) \<and>
    out = \<lparr>out_events = multisig_emit X cmd (MeProposed i (ms_nonce acc) (cmd_submitter cmd)) #
             (if ms_threshold acc \<le> 1 then [multisig_emit X cmd (MeExecuted i (ms_nonce acc))] else []),
           out_derived_commands = (if ms_threshold acc \<le> 1 then [inner] else []), out_cost = 3000\<rparr>)"
  unfolding multisig_propose_def Let_def require_ms_owner_def
  by (auto simp: ok_iffs multisig_runs [OF assms])

lemma multisig_confirm_Ok:
  assumes "multisig_ext_ok X" and "multisig_confirm X cmd i q s = (Ok out, s')"
  shows "\<exists>acc tx. account_of X s i = Some acc \<and> pending_tx X s i q = Some tx \<and> cmd_submitter cmd \<in> set (ms_owners acc) \<and>
    \<not> mt_executed tx \<and>
    (let conf = finsert (party_name (cmd_submitter cmd)) (mt_confirmations tx); reached = (of_nat (fcard conf) \<ge> ms_threshold acc) in
     s' = put_tx X i q (tx\<lparr>mt_confirmations := conf, mt_executed := reached\<rparr>) s \<and>
     out_derived_commands out = (if reached then [mt_inner tx] else []))"
proof -
  have e: "\<not> mt_executed tx \<Longrightarrow> tx\<lparr>mt_confirmations := c, mt_executed := False\<rparr> = tx\<lparr>mt_confirmations := c\<rparr>" for tx :: multisig_tx and c
    by simp
  obtain acc tx where a: "account_of X s i = Some acc" "pending_tx X s i q = Some tx" "cmd_submitter cmd \<in> set (ms_owners acc)"
    "\<not> mt_executed tx"
    using assms(2) unfolding multisig_confirm_def Let_def require_ms_owner_def
    by (auto simp: ok_iffs multisig_runs [OF assms(1)])
  have "load_account X i s = (Ok acc, s)" "load_tx X i q s = (Ok tx, s)"
    using a by (simp_all add: multisig_runs [OF assms(1)])
  with assms(2) a show ?thesis
    unfolding multisig_confirm_def Let_def require_ms_owner_def
    by (intro exI [of _ acc] exI [of _ tx]) (auto simp: andthen_simps multisig_runs [OF assms(1)] e)
qed

lemma multisig_revoke_Ok:
  assumes "multisig_ext_ok X" and "multisig_revoke X cmd i q s = (Ok out, s')"
  shows "\<exists>acc tx. account_of X s i = Some acc \<and> pending_tx X s i q = Some tx \<and> cmd_submitter cmd \<in> set (ms_owners acc) \<and>
    \<not> mt_executed tx \<and> out_derived_commands out = [] \<and>
    s' = put_tx X i q (tx\<lparr>mt_confirmations := mt_confirmations tx |-| {|party_name (cmd_submitter cmd)|}\<rparr>) s"
  using assms(2) unfolding multisig_revoke_def Let_def require_ms_owner_def
  by (auto simp: ok_iffs multisig_runs [OF assms(1)] single_output_def)

section \<open>Reachable states\<close>

definition account_ok :: "multisig_account \<Rightarrow> bool" where
  "account_ok acc \<longleftrightarrow> distinct (ms_owners acc) \<and> length (ms_owners acc) \<le> 64 \<and> ms_threshold acc \<noteq> 0 \<and>
     unat (ms_threshold acc) \<le> length (ms_owners acc)"

definition tx_ok :: "multisig_account \<Rightarrow> u64 \<Rightarrow> multisig_tx \<Rightarrow> bool" where
  "tx_ok acc q tx \<longleftrightarrow> q < ms_nonce acc \<and> fset (mt_confirmations tx) \<subseteq> party_name ` set (ms_owners acc) \<and>
     (mt_executed tx \<longrightarrow> unat (ms_threshold acc) \<le> fcard (mt_confirmations tx))"

definition multisig_ok :: "'x multisig_ext_scheme \<Rightarrow> state_tree \<Rightarrow> bool" where
  "multisig_ok X s \<longleftrightarrow> (\<forall>i acc. account_of X s i = Some acc \<longrightarrow> account_ok acc) \<and>
     (\<forall>i q tx. pending_tx X s i q = Some tx \<longrightarrow> (\<exists>acc. account_of X s i = Some acc \<and> tx_ok acc q tx))"

text \<open>The approvals a command adds: who confirmed which transaction of which account.\<close>

definition approvals :: "'x multisig_ext_scheme \<Rightarrow> state_tree \<Rightarrow> command \<Rightarrow> multisig_command \<Rightarrow> (hash \<times> u64 \<times> string) set" where
  "approvals X s cmd c = (case c of
      McPropose i _ \<Rightarrow> {(i, ms_nonce acc, party_name (cmd_submitter cmd)) | acc. account_of X s i = Some acc}
    | McConfirm i q \<Rightarrow> {(i, q, party_name (cmd_submitter cmd))}
    | _ \<Rightarrow> {})"

text \<open>
  Runs of the prism between the writes of other prisms. A run goes on as long as no account has used up its \<open>2\<^sup>6\<^sup>4\<close>
  sequence numbers.
\<close>

inductive multisig_reach :: "'x multisig_ext_scheme \<Rightarrow> state_tree \<Rightarrow> (hash \<times> u64 \<times> string) set \<Rightarrow> bool" for X where
  ms_init: "(\<And>i. account_of X s i = None) \<Longrightarrow> (\<And>i q. pending_tx X s i q = None) \<Longrightarrow> multisig_reach X s {}"
| ms_step: "multisig_reach X s A \<Longrightarrow> \<forall>i acc. account_of X s i = Some acc \<longrightarrow> ms_nonce acc \<noteq> - 1 \<Longrightarrow>
    multisig_dispatch X cmd c s = (Ok out, s') \<Longrightarrow> multisig_reach X s' (A \<union> approvals X s cmd c)"
| ms_other: "multisig_reach X s A \<Longrightarrow> (\<And>k. prefix ''multisig/'' k \<Longrightarrow> st_get s' k = st_get s k) \<Longrightarrow> multisig_reach X s' A"

lemma multisig_okD:
  assumes "multisig_ok X s"
  shows "account_of X s i = Some acc \<Longrightarrow> account_ok acc"
    and "pending_tx X s i q = Some tx \<Longrightarrow> account_of X s i = Some acc \<Longrightarrow> tx_ok acc q tx"
  using assms unfolding multisig_ok_def by fastforce+

lemma confirmations_few:
  assumes "account_ok acc" and "fset c \<subseteq> party_name ` set (ms_owners acc)"
  shows "unat (of_nat (fcard c) :: u32) = fcard c"
proof -
  have "fcard c \<le> card (party_name ` set (ms_owners acc))"
    using assms(2) by (simp add: fcard.rep_eq card_mono)
  also have "\<dots> \<le> 64"
    using card_image_le [of "set (ms_owners acc)" party_name] assms(1) card_length [of "ms_owners acc"]
    by (simp add: account_ok_def)
  finally show ?thesis by (simp add: unat_of_nat)
qed

lemma multisig_ok_put_account:
  assumes "multisig_ext_ok X" and "multisig_ok X s" and "account_ok acc"
    and "\<And>q tx. pending_tx X s i q = Some tx \<Longrightarrow> tx_ok acc q tx"
  shows "multisig_ok X (put_account X i acc s)"
  using assms unfolding multisig_ok_def by (auto simp: table_cells)

lemma multisig_ok_put_tx:
  assumes "multisig_ext_ok X" and "multisig_ok X s" and "account_of X s i = Some acc" and "tx_ok acc q tx"
  shows "multisig_ok X (put_tx X i q tx s)"
  using assms unfolding multisig_ok_def by (auto simp: table_cells)

lemma multisig_step_ok:
  assumes "multisig_ext_ok X" and "multisig_ok X s" and "\<forall>i acc. account_of X s i = Some acc \<longrightarrow> ms_nonce acc \<noteq> - 1"
    and "multisig_dispatch X cmd c s = (Ok out, s')"
  shows "multisig_ok X s'"
proof (cases c)
  case (McCreateAccount owners threshold)
  then obtain i where i: "account_of X s i = None"
    "s' = put_account X i \<lparr>ms_id = i, ms_owners = unique_owners [] owners, ms_threshold = threshold, ms_nonce = 0\<rparr> s"
    "length (unique_owners [] owners) \<le> 64" "threshold \<noteq> 0" "unat threshold \<le> length (unique_owners [] owners)"
    using assms(4) multisig_create_Ok [OF assms(1), of cmd owners threshold s out s'] by (auto simp: multisig_dispatch_def)
  moreover have "pending_tx X s i q = None" for q
    using assms(2) i(1) unfolding multisig_ok_def by (metis not_None_eq)
  ultimately show ?thesis
    using unique_owners_spec [of "[]" owners] by (auto simp: account_ok_def intro!: multisig_ok_put_account [OF assms(1,2)])
next
  case (McPropose i inner)
  then obtain acc where a: "account_of X s i = Some acc" "cmd_submitter cmd \<in> set (ms_owners acc)"
    "s' = put_tx X i (ms_nonce acc) \<lparr>mt_account = i, mt_seq = ms_nonce acc, mt_inner = inner,
           mt_confirmations = {|party_name (cmd_submitter cmd)|}, mt_executed = (ms_threshold acc \<le> 1)\<rparr>
         (put_account X i (acc\<lparr>ms_nonce := ms_nonce acc + 1\<rparr>) s)"
    using assms(4) by (auto simp: multisig_dispatch_def multisig_propose_Ok [OF assms(1)])
  have n: "ms_nonce acc < ms_nonce acc + 1" using assms(3) a(1) word_succ(1) [of "ms_nonce acc"] by blast
  have "multisig_ok X (put_account X i (acc\<lparr>ms_nonce := ms_nonce acc + 1\<rparr>) s)"
    using multisig_okD [OF assms(2)] a(1) n
    by (intro multisig_ok_put_account [OF assms(1,2)]) (fastforce simp: account_ok_def tx_ok_def)+
  then show ?thesis
    unfolding a(3) using a n assms(1)
    by (auto simp: table_cells tx_ok_def word_le_nat_alt fcard.rep_eq intro!: multisig_ok_put_tx)
next
  case (McConfirm i q)
  then obtain acc tx where a: "account_of X s i = Some acc" "pending_tx X s i q = Some tx" "cmd_submitter cmd \<in> set (ms_owners acc)"
    and s': "s' = put_tx X i q (tx\<lparr>mt_confirmations := finsert (party_name (cmd_submitter cmd)) (mt_confirmations tx),
      mt_executed := (of_nat (fcard (finsert (party_name (cmd_submitter cmd)) (mt_confirmations tx))) \<ge> ms_threshold acc)\<rparr>) s"
    using assms(4) multisig_confirm_Ok [OF assms(1), of cmd i q s out s'] by (auto simp: multisig_dispatch_def Let_def)
  have t: "tx_ok acc q tx" "account_ok acc" using multisig_okD [OF assms(2)] a by blast+
  let ?c = "finsert (party_name (cmd_submitter cmd)) (mt_confirmations tx)"
  have sub: "fset ?c \<subseteq> party_name ` set (ms_owners acc)" using t(1) a(3) by (auto simp: tx_ok_def)
  show ?thesis
    unfolding s' using t(1) sub confirmations_few [OF t(2) sub]
    by (intro multisig_ok_put_tx [OF assms(1,2) a(1)]) (simp add: tx_ok_def word_le_nat_alt)
next
  case (McRevoke i q)
  then obtain acc tx where a: "account_of X s i = Some acc" "pending_tx X s i q = Some tx" "\<not> mt_executed tx"
    "s' = put_tx X i q (tx\<lparr>mt_confirmations := mt_confirmations tx |-| {|party_name (cmd_submitter cmd)|}\<rparr>) s"
    using assms(4) multisig_revoke_Ok [OF assms(1), of cmd i q s out s'] by (auto simp: multisig_dispatch_def)
  have "tx_ok acc q tx" using multisig_okD(2) [OF assms(2)] a by blast
  with a show ?thesis by (auto simp: tx_ok_def intro!: multisig_ok_put_tx [OF assms(1,2)])
qed

lemma multisig_cells_cong:
  assumes "\<And>k. prefix ''multisig/'' k \<Longrightarrow> st_get s' k = st_get s k"
  shows "account_of X s' i = account_of X s i" "pending_tx X s' i q = pending_tx X s i q"
  unfolding account_of_def pending_tx_def by (rule get_json_opt_cong, rule assms, simp add: acc_key_def tx_key_def)+

lemma multisig_reach_inv:
  assumes "multisig_ext_ok X" and "multisig_reach X s A"
  shows "multisig_ok X s \<and> (\<forall>i q tx n. pending_tx X s i q = Some tx \<and> n |\<in>| mt_confirmations tx \<longrightarrow> (i, q, n) \<in> A)"
  using assms(2)
proof induction
  case (ms_init s)
  then show ?case by (simp add: multisig_ok_def)
next
  case (ms_step s A cmd c out s')
  then have ok: "multisig_ok X s'" using multisig_step_ok [OF assms(1)] by blast
  have "(i, q, n) \<in> A \<union> approvals X s cmd c" if "pending_tx X s' i q = Some tx" "n |\<in>| mt_confirmations tx" for i q tx n
    using ms_step.IH ms_step.hyps(3) that assms(1)
    by (cases c) (auto simp: multisig_dispatch_def approvals_def multisig_propose_Ok table_cells Let_def
        dest!: multisig_create_Ok [OF assms(1)] multisig_confirm_Ok [OF assms(1)] multisig_revoke_Ok [OF assms(1)] split: if_splits)
  with ok show ?case by blast
next
  case (ms_other s A s')
  then have eq: "account_of X s' i = account_of X s i" "pending_tx X s' i q = pending_tx X s i q" for i q
    using multisig_cells_cong by blast+
  show ?case using ms_other.IH unfolding multisig_ok_def eq .
qed

lemma multisig_execution:
  assumes "multisig_ext_ok X" and "multisig_ok X s" and "multisig_dispatch X cmd c s = (Ok out, s')"
    and "inner \<in> set (out_derived_commands out)"
  shows "\<exists>i q tx. pending_tx X s' i q = Some tx \<and> mt_executed tx \<and> mt_inner tx = inner \<and> out_derived_commands out = [inner] \<and>
    (\<forall>tx0. pending_tx X s i q = Some tx0 \<longrightarrow> \<not> mt_executed tx0 \<and> mt_inner tx0 = inner)"
proof (cases c)
  case (McCreateAccount owners threshold)
  then show ?thesis
    using assms(3,4) multisig_create_Ok [OF assms(1), of cmd owners threshold s out s'] by (simp add: multisig_dispatch_def)
next
  case (McPropose i x)
  then obtain acc where "account_of X s i = Some acc" "ms_threshold acc \<le> 1" "inner = x" "out_derived_commands out = [inner]"
    "pending_tx X s' i (ms_nonce acc) = Some \<lparr>mt_account = i, mt_seq = ms_nonce acc, mt_inner = x,
       mt_confirmations = {|party_name (cmd_submitter cmd)|}, mt_executed = True\<rparr>"
    using assms by (auto simp: multisig_dispatch_def multisig_propose_Ok table_cells split: if_splits)
  moreover have "pending_tx X s i (ms_nonce acc) = None"
    using multisig_okD(2) [OF assms(2)] \<open>account_of X s i = Some acc\<close> by (metis less_irrefl not_None_eq tx_ok_def)
  ultimately show ?thesis by (intro exI [of _ i] exI [of _ "ms_nonce acc"]) simp
next
  case (McConfirm i q)
  then show ?thesis
    using assms(1,3,4)
    by (intro exI [of _ i] exI [of _ q])
      (auto simp: multisig_dispatch_def table_cells Let_def dest!: multisig_confirm_Ok [OF assms(1)] split: if_splits)
next
  case (McRevoke i q)
  then show ?thesis
    using assms(3,4) multisig_revoke_Ok [OF assms(1), of cmd i q s out s'] by (auto simp: multisig_dispatch_def)
qed

lemma multisig_error_unchanged:
  assumes "multisig_ext_ok X" and "multisig_dispatch X cmd c s = (r, s')" and "\<And>out. r \<noteq> Ok out"
  shows "s' = s"
proof -
  have l: "load_account X i s = (r, s1) \<Longrightarrow> s1 = s" "load_tx X i q s = (r', s1) \<Longrightarrow> s1 = s" for i q r r' s1
    by (auto simp: load_account_def load_tx_def get_json_or_run split: sum.splits option.splits)
  show ?thesis
    using assms(2,3)
    by (cases c) (auto simp: multisig_dispatch_def multisig_create_def multisig_propose_def multisig_confirm_def multisig_revoke_def
        require_ms_owner_def Let_def andthen_def multisig_runs [OF assms(1)] dest: l split: outcome.splits prod.splits if_splits)
qed

lemma multisig_executed_stays:
  assumes "multisig_ext_ok X" and "multisig_ok X s" and "multisig_dispatch X cmd c s = (r, s')"
    and "pending_tx X s i q = Some tx" and "mt_executed tx"
  shows "pending_tx X s' i q = Some tx"
proof (cases "\<exists>out. r = Ok out")
  case True
  have "account_of X s i = Some acc \<Longrightarrow> q < ms_nonce acc" for acc
    using multisig_okD(2) [OF assms(2,4)] by (auto simp: tx_ok_def)
  with True assms show ?thesis
    by (cases c) (auto simp: multisig_dispatch_def multisig_propose_Ok table_cells Let_def
        dest!: multisig_create_Ok [OF assms(1)] multisig_confirm_Ok [OF assms(1)] multisig_revoke_Ok [OF assms(1)] split: if_splits)
next
  case False
  then show ?thesis using multisig_error_unchanged [OF assms(1,3)] assms(4) by blast
qed

section \<open>The prism contract\<close>

lemma multisig_handle_frame:
  assumes "outside [''multisig/''] k"
  shows "keeps (\<lambda>s. st_get s k = v) (multisig_handle X cmd)"
proof -
  have k: "acc_key X a \<noteq> k" "tx_key X a q \<noteq> k" for a q
    using assms by (auto simp: outside_def acc_key_def tx_key_def)
  have "keeps (\<lambda>s. st_get s k = v) (multisig_dispatch X cmd c)" for c
    unfolding multisig_dispatch_def multisig_create_def multisig_propose_def multisig_confirm_def multisig_revoke_def
      load_account_def load_tx_def require_ms_owner_def Let_def
    by (cases c) (auto intro!: keeps_intros simp: k)
  then show ?thesis
    unfolding multisig_handle_def by (intro keeps_intros)
qed

lemma multisig_handle_events:
  assumes "multisig_handle X cmd s = (Ok out, s')"
  shows "\<forall>e \<in> set (out_events out). event_of X ''multisig'' cmd e"
proof -
  obtain c s1 where "multisig_dispatch X cmd c s1 = (Ok out, s')"
    using assms by (auto simp: multisig_handle_def andthen_Ok_iff)
  then show ?thesis
    by (cases c) (auto simp: multisig_dispatch_def multisig_create_def multisig_propose_def multisig_confirm_def multisig_revoke_def
        Let_def ok_iffs single_output_def multisig_emit_def split: if_splits)
qed

interpretation multisig: prism_contract multisig_handle "''multisig''" "[''multisig/'']"
  by unfold_locales (use multisig_handle_frame multisig_handle_events in \<open>blast+\<close>)

section \<open>A concrete instance of the parameters\<close>

definition fset_coder :: "'a::linorder coder \<Rightarrow> 'a fset coder" where
  "fset_coder p = iso_coder sorted_list_of_fset fset_of_list (list_coder p)"

definition multisig_account_coder :: "multisig_account coder" where
  "multisig_account_coder = iso_coder (\<lambda>a. (ms_id a, ms_owners a, ms_threshold a, ms_nonce a))
     (\<lambda>(i, w, t, n). \<lparr>ms_id = i, ms_owners = w, ms_threshold = t, ms_nonce = n\<rparr>)
     (pair_coder hash_coder (pair_coder (list_coder party_coder) (pair_coder word_coder word_coder)))"

definition multisig_tx_coder :: "multisig_tx coder" where
  "multisig_tx_coder = iso_coder (\<lambda>t. (mt_account t, mt_seq t, mt_inner t, mt_confirmations t, mt_executed t))
     (\<lambda>(a, q, c, n, e). \<lparr>mt_account = a, mt_seq = q, mt_inner = c, mt_confirmations = n, mt_executed = e\<rparr>)
     (pair_coder hash_coder (pair_coder word_coder (pair_coder command_coder (pair_coder (fset_coder string_coder) bool_coder))))"

definition multisig_command_coder :: "multisig_command coder" where
  "multisig_command_coder = iso_coder
     (\<lambda>c. case c of McCreateAccount w t \<Rightarrow> Inl (w, t) | McPropose a c \<Rightarrow> Inr (Inl (a, c))
      | McConfirm a q \<Rightarrow> Inr (Inr (Inl (a, q))) | McRevoke a q \<Rightarrow> Inr (Inr (Inr (a, q))))
     (\<lambda>z. case z of Inl (w, t) \<Rightarrow> McCreateAccount w t | Inr (Inl (a, c)) \<Rightarrow> McPropose a c
      | Inr (Inr (Inl (a, q))) \<Rightarrow> McConfirm a q | Inr (Inr (Inr (a, q))) \<Rightarrow> McRevoke a q)
     (sum_coder (pair_coder (list_coder party_coder) word_coder) (sum_coder (pair_coder hash_coder command_coder)
       (sum_coder (pair_coder hash_coder word_coder) (pair_coder hash_coder word_coder))))"

definition multisig_event_coder :: "multisig_event coder" where
  "multisig_event_coder = iso_coder
     (\<lambda>e. case e of MeAccountCreated a t n \<Rightarrow> Inl (a, t, n) | MeProposed a q p \<Rightarrow> Inr (Inl (a, q, p))
      | MeConfirmed a q p n \<Rightarrow> Inr (Inr (Inl (a, q, p, n))) | MeRevoked a q p \<Rightarrow> Inr (Inr (Inr (Inl (a, q, p))))
      | MeExecuted a q \<Rightarrow> Inr (Inr (Inr (Inr (a, q)))))
     (\<lambda>z. case z of Inl (a, t, n) \<Rightarrow> MeAccountCreated a t n | Inr (Inl (a, q, p)) \<Rightarrow> MeProposed a q p
      | Inr (Inr (Inl (a, q, p, n))) \<Rightarrow> MeConfirmed a q p n | Inr (Inr (Inr (Inl (a, q, p)))) \<Rightarrow> MeRevoked a q p
      | Inr (Inr (Inr (Inr (a, q)))) \<Rightarrow> MeExecuted a q)
     (sum_coder (pair_coder hash_coder (pair_coder word_coder nat_coder)) (sum_coder (pair_coder hash_coder (pair_coder word_coder party_coder))
       (sum_coder (pair_coder hash_coder (pair_coder word_coder (pair_coder party_coder word_coder)))
         (sum_coder (pair_coder hash_coder (pair_coder word_coder party_coder)) (pair_coder hash_coder word_coder)))))"

lemma fset_coder_ok [coder_intros]: "coder_ok p \<Longrightarrow> coder_ok (fset_coder p)"
  unfolding fset_coder_def by (intro coder_intros) (simp_all add: fset_eq_iff fset_of_list_elem)

lemma multisig_coders_ok [coder_intros]:
  "coder_ok multisig_account_coder" "coder_ok multisig_tx_coder" "coder_ok multisig_command_coder" "coder_ok multisig_event_coder"
  unfolding multisig_account_coder_def multisig_tx_coder_def multisig_command_coder_def multisig_event_coder_def
  by (intro coder_intros; auto split: multisig_command.splits multisig_event.splits)+

definition ref_multisig_ext :: multisig_ext where
  "ref_multisig_ext = kernel_ext.extend ref_kernel_ext
     (multisig_ext.fields (codec_of multisig_account_coder) (codec_of multisig_tx_coder) (codec_of multisig_command_coder)
       (codec_of multisig_event_coder))"

lemma ref_multisig_ext_ok: "multisig_ext_ok ref_multisig_ext"
  using ref_kernel_ext_ok
  by (simp add: multisig_ext_ok_def kernel_ext_ok_def hash_ext_ok_def ref_multisig_ext_def
      kernel_ext.defs multisig_ext.defs codec_of_ok coder_intros)

section \<open>Together with the cascade and the token\<close>

lemma cascade_derives_one:
  assumes "prisms c (cmd_prism cmd) = Some p" and "pr_handle p cmd s = (Ok out, s1)" and "out_derived_commands out = [cmd']"
    and "prisms c (cmd_prism cmd') = Some p'" and "pr_handle p' cmd' s1 = (Ok out', s2)" and "out_derived_commands out' = []"
  shows "\<exists>receipt. cascade_apply c cmd s = (Ok receipt, s2)"
proof -
  have "cascade_run c [cmd] s [[out], [out']] s2"
    using assms by (intro cascade_run.intros level_run.intros) (auto intro!: cascade_run.intros level_run.intros)
  then show ?thesis
    unfolding cascade_apply_def cascade_loop_iff by (auto simp: MAX_CASCADE_DEPTH_def intro!: exI [of _ "[[out], [out']]"])
qed

lemma token_cells_cong:
  assumes "\<And>k. prefix ''token/'' k \<Longrightarrow> st_get s' k = st_get s k"
  shows "balance Y s' tid w = balance Y s tid w" and "meta_of Y s' tid = meta_of Y s tid"
proof -
  have "get_json_opt d s' (bal_key Y tid w) = get_json_opt d s (bal_key Y tid w)"
    and "get_json_opt e s' (meta_key Y tid) = get_json_opt e s (meta_key Y tid)" for d :: "string codec" and e :: "token_meta codec"
    by (rule get_json_opt_cong, rule assms, simp add: bal_key_def meta_key_def)+
  then show "balance Y s' tid w = balance Y s tid w" and "meta_of Y s' tid = meta_of Y s tid"
    by (simp_all add: balance_def read_u128_def meta_of_def)
qed

section \<open>Properties\<close>

text \<open>
  C28. Multisig commands run only with the approval of enough owners. In every reachable state in which no account has used up its \<open>u64\<close> transaction numbers, a command that a multisig
  account derives into the cascade was proposed in a transaction of that account which had not been executed before and is marked
  executed now, and at least \<open>threshold\<close> distinct owners of the account have each submitted a proposal or
  confirmation of exactly this transaction.
\<close>

theorem multisig_execution_authorised:
  assumes "multisig_ext_ok X" and "multisig_reach X s A"
    and "\<forall>i acc. account_of X s i = Some acc \<longrightarrow> ms_nonce acc \<noteq> - 1"
    and "multisig_dispatch X cmd c s = (Ok out, s')" and "inner \<in> set (out_derived_commands out)"
  shows "\<exists>i q acc tx. account_of X s' i = Some acc \<and> pending_tx X s' i q = Some tx \<and> mt_inner tx = inner \<and> mt_executed tx \<and>
    (\<forall>tx0. pending_tx X s i q = Some tx0 \<longrightarrow> \<not> mt_executed tx0 \<and> mt_inner tx0 = inner) \<and>
    0 < unat (ms_threshold acc) \<and>
    unat (ms_threshold acc) \<le> card {p \<in> set (ms_owners acc). (i, q, party_name p) \<in> A \<union> approvals X s cmd c}"
proof -
  have inv: "multisig_ok X s'" "\<forall>i q tx n. pending_tx X s' i q = Some tx \<and> n |\<in>| mt_confirmations tx \<longrightarrow> (i, q, n) \<in> A \<union> approvals X s cmd c"
    using multisig_reach_inv [OF assms(1) ms_step [OF assms(2-4)]] by blast+
  obtain i q tx where t: "pending_tx X s' i q = Some tx" "mt_executed tx" "mt_inner tx = inner"
    "\<forall>tx0. pending_tx X s i q = Some tx0 \<longrightarrow> \<not> mt_executed tx0 \<and> mt_inner tx0 = inner"
    using multisig_execution [OF assms(1) _ assms(4,5)] multisig_reach_inv [OF assms(1,2)] by blast
  obtain acc where acc: "account_of X s' i = Some acc" "tx_ok acc q tx"
    using inv(1) t(1) unfolding multisig_ok_def by blast
  let ?P = "{p \<in> set (ms_owners acc). (i, q, party_name p) \<in> A \<union> approvals X s cmd c}"
  have "fset (mt_confirmations tx) \<subseteq> party_name ` ?P"
    using acc(2) inv(2) t(1) unfolding tx_ok_def by blast
  then have "fcard (mt_confirmations tx) \<le> card (party_name ` ?P)" by (simp add: fcard.rep_eq card_mono)
  also have "\<dots> \<le> card ?P" by (rule card_image_le) simp
  finally have "unat (ms_threshold acc) \<le> card ?P" using acc(2) t(2) by (simp add: tx_ok_def)
  moreover have "0 < unat (ms_threshold acc)"
    using multisig_okD(1) [OF inv(1) acc(1)] by (simp add: account_ok_def unat_gt_0)
  ultimately show ?thesis using t acc(1) by blast
qed

text \<open>
  A multisig transaction is executed at most once. An executed transaction stays as it is under every later
  command, successful or not, and confirming or revoking it again fails without any effect.
\<close>

theorem multisig_executes_once:
  assumes "multisig_ext_ok X" and "multisig_reach X s A" and "pending_tx X s i q = Some tx" and "mt_executed tx"
    and "multisig_dispatch X cmd c s = (r, s')"
  shows "pending_tx X s' i q = Some tx \<and> (c = McConfirm i q \<or> c = McRevoke i q \<longrightarrow> (\<exists>e. r = Err e) \<and> s' = s)"
proof
  have ok: "multisig_ok X s" using multisig_reach_inv [OF assms(1,2)] by blast
  show "pending_tx X s' i q = Some tx"
    using multisig_executed_stays [OF assms(1) ok assms(5,3,4)] .
  obtain acc where acc: "account_of X s i = Some acc" using ok assms(3) unfolding multisig_ok_def by blast
  have "load_account X i s = (Ok acc, s)" "load_tx X i q s = (Ok tx, s)"
    using acc assms(3) by (simp_all add: multisig_runs [OF assms(1)])
  then show "c = McConfirm i q \<or> c = McRevoke i q \<longrightarrow> (\<exists>e. r = Err e) \<and> s' = s"
    using assms(4,5)
    by (auto simp: multisig_dispatch_def multisig_confirm_def multisig_revoke_def require_ms_owner_def Let_def andthen_simps
        split: if_splits)
qed

text \<open>
  A multisig account speaks in anybody's name. The inner command keeps the submitter its proposer wrote into it, and
  the cascade runs it as such: whoever owns an account with threshold one runs any command that succeeds for
  any other party, here a transfer of that party's tokens to himself.
\<close>

theorem multisig_impersonates:
  assumes "multisig_ext_ok X" and "token_ext_ok Y"
    and "prisms c ''multisig'' = Some (multisig_prism X)" and "prisms c ''token'' = Some (token_prism Y)"
    and "account_of X s i = Some acc" and "mallory \<in> set (ms_owners acc)" and "ms_threshold acc = 1"
    and "meta_of Y s tid = Some m" and "amount \<le> balance Y s tid victim" and "mallory \<noteq> victim"
    and "unat (balance Y s tid mallory) + unat amount < 2 ^ 128"
  shows "\<exists>receipt s'. cascade_apply c (propose_command X mallory vis n i (transfer_command Y victim vis n' tid mallory amount)) s =
      (Ok receipt, s') \<and>
    balance Y s' tid victim = balance Y s tid victim - amount \<and> balance Y s' tid mallory = balance Y s tid mallory + amount"
proof -
  let ?inner = "transfer_command Y victim vis n' tid mallory amount"
  let ?cmd = "propose_command X mallory vis n i ?inner"
  have cmd: "cmd_submitter ?cmd = mallory" "cmd_prism ?cmd = ''multisig''" "cmd_submitter ?inner = victim" "cmd_prism ?inner = ''token''"
    by (simp_all add: propose_command_def multisig_command_of_def transfer_command_def)
  obtain out s1 where step1: "multisig_propose X ?cmd i ?inner s = (Ok out, s1)" and out: "out_derived_commands out = [?inner]"
    using multisig_propose_Ok [OF assms(1), of ?cmd i ?inner s] assms(5-7) cmd(1) by auto
  have h1: "multisig_handle X ?cmd s = (Ok out, s1)"
    using step1 by (simp add: multisig_handle_def propose_command_def multisig_command_of_def
        multisig_ext_okD [OF assms(1)] multisig_dispatch_def)
  have keep: "st_get s1 k = st_get s k" if "prefix ''token/'' k" for k
    using multisig.get_outside [OF _ h1, of k] that by (auto simp: outside_def prefix_def)
  note eq = token_cells_cong [OF keep]
  obtain out2 s2 where tr: "token_transfer Y ?inner tid mallory amount s1 = (Ok out2, s2)" "out_derived_commands out2 = []"
    "balance Y s2 tid victim = balance Y s tid victim - amount" "balance Y s2 tid mallory = balance Y s tid mallory + amount"
    using token_transfer_Ok [OF assms(2), of ?inner tid mallory amount s1] assms(8-11) token_ext_okD [OF assms(2)]
    by (auto simp: Let_def cmd eq checked_add_def single_output_def token_cells)
  have "token_handle Y ?inner s1 = (Ok out2, s2)"
    using tr(1) by (simp add: token_handle_def transfer_command_def token_ext_okD [OF assms(2)] token_dispatch_def)
  then have "\<exists>receipt. cascade_apply c ?cmd s = (Ok receipt, s2)"
    using h1 out tr(2) assms(3,4) cmd
    by (intro cascade_derives_one) (auto simp: multisig_prism_def token_prism_def)
  then show ?thesis using tr by blast
qed

section \<open>A two-of-two account\<close>

definition shared_account :: hash where
  "shared_account = commit ref_multisig_ext ''multisig/acc-id'' [as_bytes ''alice'', u32_to_be_bytes 2, as_bytes ''alice,bob'']"

definition shared_state :: "u64 \<Rightarrow> state_tree" where
  "shared_state n = put_account ref_multisig_ext shared_account
     \<lparr>ms_id = shared_account, ms_owners = [PartyId ''alice'', PartyId ''bob''], ms_threshold = 2, ms_nonce = n\<rparr> st_new"

definition shared_tx :: multisig_tx where
  "shared_tx = \<lparr>mt_account = shared_account, mt_seq = 0, mt_inner = demo_command, mt_confirmations = {|''alice''|}, mt_executed = False\<rparr>"

lemmas ref_multisig_cells = multisig_cells(1,4) [OF ref_multisig_ext_ok] multisig_cells(2,3)

lemma empty_multisig [simp]: "account_of X st_new i = None" "pending_tx X st_new i q = None"
  by (simp_all add: account_of_def pending_tx_def)

lemma shared_create: "\<exists>out. multisig_dispatch ref_multisig_ext demo_command (McCreateAccount [PartyId ''alice'', PartyId ''bob''] 2) st_new =
    (Ok out, shared_state 0)"
  by (simp add: multisig_dispatch_def multisig_create_def Let_def multisig_runs [OF ref_multisig_ext_ok] shared_state_def
      shared_account_def st_contains_get demo_command_def)

lemma shared_propose: "\<exists>out. multisig_dispatch ref_multisig_ext demo_command (McPropose shared_account demo_command) (shared_state 0) =
    (Ok out, put_tx ref_multisig_ext shared_account 0 shared_tx (shared_state 1))"
proof -
  have "put_account X i b (put_account X i a s) = put_account X i b s" for X :: multisig_ext and i a b s
    by (simp add: put_account_def put_cell_def)
  moreover have "\<not> (2 :: u32) \<le> 1" by (simp add: word_le_nat_alt)
  ultimately show ?thesis
    by (simp add: multisig_dispatch_def multisig_propose_Ok [OF ref_multisig_ext_ok] shared_state_def ref_multisig_cells demo_command_def
        shared_tx_def)
qed

lemma shared_confirm: "multisig_dispatch ref_multisig_ext (demo_command\<lparr>cmd_submitter := PartyId ''bob''\<rparr>) (McConfirm shared_account 0)
      (put_tx ref_multisig_ext shared_account 0 shared_tx (shared_state 1)) = (r, s') \<Longrightarrow>
    \<exists>out. r = Ok out \<and> out_derived_commands out = [demo_command]"
proof -
  let ?s = "put_tx ref_multisig_ext shared_account 0 shared_tx (shared_state 1)"
  have "fcard {|''bob'', ''alice''|} = 2" by (simp add: fcard.rep_eq)
  moreover have "load_account ref_multisig_ext shared_account ?s =
      (Ok \<lparr>ms_id = shared_account, ms_owners = [PartyId ''alice'', PartyId ''bob''], ms_threshold = 2, ms_nonce = 1\<rparr>, ?s)"
    "load_tx ref_multisig_ext shared_account 0 ?s = (Ok shared_tx, ?s)"
    by (simp_all add: multisig_runs [OF ref_multisig_ext_ok] ref_multisig_cells shared_state_def)
  moreover assume "multisig_dispatch ref_multisig_ext (demo_command\<lparr>cmd_submitter := PartyId ''bob''\<rparr>) (McConfirm shared_account 0) ?s = (r, s')"
  ultimately show ?thesis
    by (auto simp: multisig_dispatch_def multisig_confirm_def Let_def andthen_simps require_ms_owner_def
        multisig_runs [OF ref_multisig_ext_ok] shared_tx_def)
qed

lemma shared_reach:
  "\<exists>A. multisig_reach ref_multisig_ext (put_tx ref_multisig_ext shared_account 0 shared_tx (shared_state 1)) A"
proof -
  have "multisig_reach ref_multisig_ext st_new {}" by (rule ms_init) simp_all
  then obtain A where "multisig_reach ref_multisig_ext (shared_state 0) A"
    using ms_step [of ref_multisig_ext st_new "{}"] shared_create by force
  moreover have "\<forall>i acc. account_of ref_multisig_ext (shared_state 0) i = Some acc \<longrightarrow> ms_nonce acc \<noteq> - 1"
    by (auto simp: shared_state_def ref_multisig_cells split: if_splits)
  ultimately show ?thesis using ms_step shared_propose by blast
qed

theorem multisig_execution_authorised_witness:
  "\<exists>A out s'. let X = ref_multisig_ext; s = put_tx X shared_account 0 shared_tx (shared_state 1);
       cmd = demo_command\<lparr>cmd_submitter := PartyId ''bob''\<rparr> in
     multisig_reach X s A \<and> multisig_dispatch X cmd (McConfirm shared_account 0) s = (Ok out, s') \<and>
     out_derived_commands out = [demo_command] \<and>
     (\<exists>i q acc tx. account_of X s' i = Some acc \<and> pending_tx X s' i q = Some tx \<and> mt_inner tx = demo_command \<and> mt_executed tx \<and>
        (\<forall>tx0. pending_tx X s i q = Some tx0 \<longrightarrow> \<not> mt_executed tx0 \<and> mt_inner tx0 = demo_command) \<and>
        0 < unat (ms_threshold acc) \<and>
        unat (ms_threshold acc) \<le> card {p \<in> set (ms_owners acc). (i, q, party_name p) \<in> A \<union> approvals X s cmd (McConfirm shared_account 0)})"
proof -
  let ?X = ref_multisig_ext and ?s = "put_tx ref_multisig_ext shared_account 0 shared_tx (shared_state 1)"
    and ?cmd = "demo_command\<lparr>cmd_submitter := PartyId ''bob''\<rparr>"
  obtain A where A: "multisig_reach ?X ?s A" using shared_reach by blast
  obtain out s' where run: "multisig_dispatch ?X ?cmd (McConfirm shared_account 0) ?s = (Ok out, s')"
    and out: "out_derived_commands out = [demo_command]"
    using shared_confirm by (metis surj_pair)
  have n: "\<forall>i acc. account_of ?X ?s i = Some acc \<longrightarrow> ms_nonce acc \<noteq> - 1"
    by (auto simp: shared_state_def ref_multisig_cells split: if_splits)
  show ?thesis
    unfolding Let_def using A run out multisig_execution_authorised [OF ref_multisig_ext_ok A n run, of demo_command]
    by (intro exI [of _ A] exI [of _ out] exI [of _ s']) simp
qed

theorem multisig_executes_once_witness:
  "\<exists>s A tx r. let X = ref_multisig_ext; cmd = demo_command in
     multisig_reach X s A \<and> pending_tx X s shared_account 0 = Some tx \<and> mt_executed tx \<and>
     (\<exists>e. multisig_dispatch X cmd (McConfirm shared_account 0) s = (r, s) \<and> r = Err e)"
proof -
  let ?X = ref_multisig_ext and ?s = "put_tx ref_multisig_ext shared_account 0 shared_tx (shared_state 1)"
    and ?cmd = "demo_command\<lparr>cmd_submitter := PartyId ''bob''\<rparr>"
  obtain A where A: "multisig_reach ?X ?s A" using shared_reach by blast
  obtain out s where run: "multisig_dispatch ?X ?cmd (McConfirm shared_account 0) ?s = (Ok out, s)"
    and out: "out_derived_commands out = [demo_command]"
    using shared_confirm by (metis surj_pair)
  have n: "\<forall>i acc. account_of ?X ?s i = Some acc \<longrightarrow> ms_nonce acc \<noteq> - 1"
    by (auto simp: shared_state_def ref_multisig_cells split: if_splits)
  have "multisig_confirm ?X ?cmd shared_account 0 ?s = (Ok out, s)" using run by (simp add: multisig_dispatch_def)
  then obtain tx where tx: "pending_tx ?X s shared_account 0 = Some tx" "mt_executed tx"
    using multisig_confirm_Ok [OF ref_multisig_ext_ok] out
    by (fastforce simp: Let_def ref_multisig_cells split: if_splits)
  have reach: "multisig_reach ?X s (A \<union> approvals ?X ?s ?cmd (McConfirm shared_account 0))"
    using A n run by (rule ms_step)
  obtain r s' where again: "multisig_dispatch ?X demo_command (McConfirm shared_account 0) s = (r, s')" by force
  show ?thesis
    unfolding Let_def using reach tx again multisig_executes_once [OF ref_multisig_ext_ok reach tx again] by blast
qed

definition mallory_account :: multisig_account where
  "mallory_account = \<lparr>ms_id = ZERO, ms_owners = [PartyId ''mallory''], ms_threshold = 1, ms_nonce = 0\<rparr>"

theorem multisig_impersonates_witness:
  "let X = ref_multisig_ext; Y = ref_token_ext; s = put_account X ZERO mallory_account demo_ledger;
       c = install (multisig_prism X) (install (token_prism Y) cascade_new) in
   \<exists>receipt s'. cascade_apply c (propose_command X (PartyId ''mallory'') Public 0 ZERO
       (transfer_command Y (PartyId ''alice'') Public 0 ZERO (PartyId ''mallory'') 100)) s = (Ok receipt, s') \<and>
     balance Y s' ZERO (PartyId ''alice'') = 0 \<and> balance Y s' ZERO (PartyId ''mallory'') = 100"
proof -
  let ?X = ref_multisig_ext and ?Y = ref_token_ext and ?s = "put_account ref_multisig_ext ZERO mallory_account demo_ledger"
  let ?c = "install (multisig_prism ?X) (install (token_prism ?Y) cascade_new)"
  have c: "prisms ?c ''multisig'' = Some (multisig_prism ?X)" "prisms ?c ''token'' = Some (token_prism ?Y)"
    by (simp_all add: install_def multisig_prism_def token_prism_def Let_def)
  have "st_get ?s k = st_get demo_ledger k" if "prefix ''token/'' k" for k
    using that by (auto simp: put_account_def cell_gets acc_key_def prefix_def)
  note eq = token_cells_cong [OF this, of ?Y]
  have acc: "account_of ?X ?s ZERO = Some mallory_account" by (simp add: ref_multisig_cells)
  have m: "PartyId ''mallory'' \<in> set (ms_owners mallory_account)" "ms_threshold mallory_account = 1"
    by (simp_all add: mallory_account_def)
  have "\<exists>receipt s'. cascade_apply ?c (propose_command ?X (PartyId ''mallory'') Public 0 ZERO
       (transfer_command ?Y (PartyId ''alice'') Public 0 ZERO (PartyId ''mallory'') 100)) ?s = (Ok receipt, s') \<and>
     balance ?Y s' ZERO (PartyId ''alice'') = balance ?Y ?s ZERO (PartyId ''alice'') - 100 \<and>
     balance ?Y s' ZERO (PartyId ''mallory'') = balance ?Y ?s ZERO (PartyId ''mallory'') + 100"
    by (rule multisig_impersonates [OF ref_multisig_ext_ok ref_token_ext_ok c acc m, where m = demo_meta]) (simp_all add: eq)
  then show ?thesis by (simp add: Let_def eq)
qed

end
