(* ===== verification/Oracle.thy ===== *)
theory Oracle
  imports Tables Identity
begin

text \<open>
  \<open>prisms/oracle/src/lib.rs\<close>: data feeds whose values are accepted with the signatures of enough registered reporters.
\<close>

section \<open>Data\<close>

record feed =
  fd_id :: hash
  fd_name :: string
  fd_admin :: party_id
  fd_reporters :: "string list"
  fd_quorum :: u32
  fd_round :: u64

record feed_value =
  fv_feed :: hash
  fv_round :: u64
  fv_value :: bytes
  fv_reporters :: "string list"

record reporter_sig =
  rs_public_key :: string
  rs_signature :: string

datatype oracle_command =
    OcRegisterFeed string "string list" u32
  | OcReport hash u64 bytes "reporter_sig list"

datatype oracle_event =
    OeFeedRegistered hash string u32
  | OeValueUpdated hash u64 bytes u32

record oracle_ext = identity_ext +
  js_feed :: "feed codec"
  js_feed_value :: "feed_value codec"
  js_oracle_command :: "oracle_command codec"
  js_oracle_event :: "oracle_event codec"

definition oracle_ext_ok :: "'x oracle_ext_scheme \<Rightarrow> bool" where
  "oracle_ext_ok X \<longleftrightarrow> identity_ext_ok X \<and> codec_ok (js_feed X) \<and> codec_ok (js_feed_value X) \<and>
     codec_ok (js_oracle_command X) \<and> codec_ok (js_oracle_event X)"

section \<open>Operations\<close>

definition report_digest :: "hash \<Rightarrow> u64 \<Rightarrow> bytes \<Rightarrow> bytes" where
  "report_digest feed_id rnd v =
     as_bytes ''veilux/oracle/report/v1'' @ [255] @ hash_bytes feed_id @ u64_to_le_bytes rnd @ [255] @ v"

definition feed_key :: "'x kernel_ext_scheme \<Rightarrow> hash \<Rightarrow> string" where
  "feed_key X i = ''oracle/feed/'' @ to_hex X i"

definition value_key :: "'x kernel_ext_scheme \<Rightarrow> hash \<Rightarrow> string" where
  "value_key X i = ''oracle/value/'' @ to_hex X i"

definition load_feed :: "'x oracle_ext_scheme \<Rightarrow> hash \<Rightarrow> (state_tree, prism_error, feed) act" where
  "load_feed X i = get_json_or (js_feed X) (feed_key X i) (NotFound (''feed '' @ to_hex X i))"

definition oracle_emit :: "'x oracle_ext_scheme \<Rightarrow> command \<Rightarrow> oracle_event \<Rightarrow> event" where
  "oracle_emit X cmd payload = emit X ''oracle'' cmd (to_vec_or_default (js_oracle_event X) payload)"

definition oracle_register ::
  "'x oracle_ext_scheme \<Rightarrow> command \<Rightarrow> string \<Rightarrow> string list \<Rightarrow> u32 \<Rightarrow> (state_tree, prism_error, prism_output) act" where
  "oracle_register X cmd name reporters quorum =
     andthen (ensure (\<not> (quorum = 0 \<or> unat quorum > length reporters)) (InvalidPayload ''quorum must be in 1..=reporters'')) (\<lambda>_.
     let feed_id = commit X ''oracle/feed'' [as_bytes (party_name (cmd_submitter cmd)), as_bytes name] in
     andthen (gets (\<lambda>s. st_contains s (feed_key X feed_id))) (\<lambda>exists.
     andthen (ensure (\<not> exists) (InvalidPayload ''feed already exists'')) (\<lambda>_.
     andthen (put_json_internal (js_feed X) (feed_key X feed_id)
       \<lparr>fd_id = feed_id, fd_name = name, fd_admin = cmd_submitter cmd, fd_reporters = reporters, fd_quorum = quorum, fd_round = 0\<rparr>) (\<lambda>_.
     ret (single_output (oracle_emit X cmd (OeFeedRegistered feed_id name quorum)) 5000)))))"

text \<open>The loop over the signatures of a report: who is counted.\<close>

fun count_reporters :: "'x identity_ext_scheme \<Rightarrow> string list \<Rightarrow> bytes \<Rightarrow> string list \<Rightarrow> reporter_sig list \<Rightarrow> string list" where
  "count_reporters X reporters dg counted [] = counted"
| "count_reporters X reporters dg counted (sg # sigs) =
     count_reporters X reporters dg
       (if rs_public_key sg \<notin> set reporters then counted
        else if rs_public_key sg \<in> set counted then counted
        else case hex_decode X (trim_start_0x (rs_public_key sg)) of
            None \<Rightarrow> counted
          | Some pk \<Rightarrow> (case hex_decode X (trim_start_0x (rs_signature sg)) of
                None \<Rightarrow> counted
              | Some sb \<Rightarrow> (case verify_bytes X pk dg sb of
                    Inr _ \<Rightarrow> counted @ [rs_public_key sg]
                  | Inl _ \<Rightarrow> counted))) sigs"

definition oracle_report ::
  "'x oracle_ext_scheme \<Rightarrow> command \<Rightarrow> hash \<Rightarrow> u64 \<Rightarrow> bytes \<Rightarrow> reporter_sig list \<Rightarrow> (state_tree, prism_error, prism_output) act" where
  "oracle_report X cmd feed_id rnd v sigs =
     andthen (load_feed X feed_id) (\<lambda>fd.
     andthen (ensure (\<not> rnd \<le> fd_round fd) (InvalidPayload ''round must strictly advance'')) (\<lambda>_.
     let counted = count_reporters X (fd_reporters fd) (report_digest feed_id rnd v) [] sigs in
     andthen (ensure (\<not> (of_nat (length counted) :: u32) < fd_quorum fd)
       (Unauthorized (''insufficient reporter quorum: '' @ decimal (length counted) @ ''/'' @ decimal (unat (fd_quorum fd))))) (\<lambda>_.
     andthen (put_json_internal (js_feed X) (feed_key X feed_id) (fd\<lparr>fd_round := rnd\<rparr>)) (\<lambda>_.
     andthen (put_json_internal (js_feed_value X) (value_key X feed_id)
       \<lparr>fv_feed = feed_id, fv_round = rnd, fv_value = v, fv_reporters = counted\<rparr>) (\<lambda>_.
     ret (single_output (oracle_emit X cmd (OeValueUpdated feed_id rnd v (of_nat (length counted)))) 6000))))))"

definition oracle_dispatch ::
  "'x oracle_ext_scheme \<Rightarrow> command \<Rightarrow> oracle_command \<Rightarrow> (state_tree, prism_error, prism_output) act" where
  "oracle_dispatch X cmd c = (case c of
      OcRegisterFeed name reporters quorum \<Rightarrow> oracle_register X cmd name reporters quorum
    | OcReport feed_id rnd v sigs \<Rightarrow> oracle_report X cmd feed_id rnd v sigs)"

definition oracle_handle :: "'x oracle_ext_scheme \<Rightarrow> handler" where
  "oracle_handle X cmd =
     andthen (parse_payload (js_oracle_command X) (cmd_payload cmd)) (oracle_dispatch X cmd)"

definition oracle_estimate :: "command \<Rightarrow> state_tree \<Rightarrow> u64" where
  "oracle_estimate cmd s = 6000"

definition oracle_prism :: "'x oracle_ext_scheme \<Rightarrow> prism" where
  "oracle_prism X = \<lparr>pr_info = \<lparr>info_name = ''oracle'',
       info_description = ''Quorum-attested external data feeds (prices, AI outputs, off-chain facts)'',
       info_version = ''1.0''\<rparr>,
     pr_handle = oracle_handle X, pr_estimate = oracle_estimate\<rparr>"

definition latest_value :: "'x oracle_ext_scheme \<Rightarrow> state_tree \<Rightarrow> hash \<Rightarrow> feed_value option" where
  "latest_value X s i = get_json_opt (js_feed_value X) s (value_key X i)"

definition register_feed_command ::
  "'x oracle_ext_scheme \<Rightarrow> party_id \<Rightarrow> visibility \<Rightarrow> u64 \<Rightarrow> string \<Rightarrow> string list \<Rightarrow> u32 \<Rightarrow> command" where
  "register_feed_command X submitter vis nonce name reporters quorum =
     \<lparr>cmd_prism = ''oracle'', cmd_submitter = submitter, cmd_visibility = vis,
      cmd_payload = to_vec_or_default (js_oracle_command X) (OcRegisterFeed name reporters quorum), cmd_nonce = nonce\<rparr>"

section \<open>Feeds and values in the state\<close>

definition feed_of :: "'x oracle_ext_scheme \<Rightarrow> state_tree \<Rightarrow> hash \<Rightarrow> feed option" where
  "feed_of X s i = get_json_opt (js_feed X) s (feed_key X i)"

definition put_feed :: "'x oracle_ext_scheme \<Rightarrow> hash \<Rightarrow> feed \<Rightarrow> state_tree \<Rightarrow> state_tree" where
  "put_feed X i = put_cell (js_feed X) (feed_key X i)"

definition put_value :: "'x oracle_ext_scheme \<Rightarrow> hash \<Rightarrow> feed_value \<Rightarrow> state_tree \<Rightarrow> state_tree" where
  "put_value X i = put_cell (js_feed_value X) (value_key X i)"

lemma oracle_ext_okD:
  assumes "oracle_ext_ok X"
  shows "identity_ext_ok X" "hash_ext_ok X" "codec_ok (js_feed X)" "codec_ok (js_feed_value X)" "codec_ok (js_oracle_command X)"
  using assms by (simp_all add: oracle_ext_ok_def identity_ext_okD)

interpretation feeds: json_table oracle_ext_ok js_feed feed_key
  by unfold_locales (simp_all add: oracle_ext_okD feed_key_def to_hex_inj)

interpretation feed_values: json_table oracle_ext_ok js_feed_value value_key
  by unfold_locales (simp_all add: oracle_ext_okD value_key_def to_hex_inj)

lemma oracle_keys [simp]: "feed_key X i \<noteq> value_key X j" "value_key X j \<noteq> feed_key X i"
  by (simp_all add: feed_key_def value_key_def)

lemma oracle_cells [table_cells]:
  "oracle_ext_ok X \<Longrightarrow> feed_of X (put_feed X i f s) j = (if i = j then Some f else feed_of X s j)"
  "feed_of X (put_value X i v s) j = feed_of X s j"
  "latest_value X (put_feed X i f s) j = latest_value X s j"
  "oracle_ext_ok X \<Longrightarrow> latest_value X (put_value X i v s) j = (if i = j then Some v else latest_value X s j)"
  by (simp_all add: feed_of_def latest_value_def put_feed_def put_value_def cell_frames feeds.get_put feed_values.get_put)

lemma oracle_runs:
  assumes "oracle_ext_ok X"
  shows "load_feed X i s = (Ok f, s1) \<longleftrightarrow> s1 = s \<and> feed_of X s i = Some f"
    and "put_json_internal (js_feed X) (feed_key X i) f = modify (put_feed X i f)"
    and "put_json_internal (js_feed_value X) (value_key X i) v = modify (put_value X i v)"
  by (simp_all add: load_feed_def get_json_or_Ok_iff feed_of_def feeds.run_put [OF assms] feed_values.run_put [OF assms]
      put_feed_def [abs_def] put_value_def [abs_def])

section \<open>Who is counted\<close>

definition signs_report :: "'x identity_ext_scheme \<Rightarrow> bytes \<Rightarrow> reporter_sig \<Rightarrow> bool" where
  "signs_report X dg sg \<longleftrightarrow> (\<exists>pk sb. hex_decode X (trim_start_0x (rs_public_key sg)) = Some pk \<and>
     hex_decode X (trim_start_0x (rs_signature sg)) = Some sb \<and> verify_bytes X pk dg sb = Inr ())"

lemma count_reporters_spec:
  "distinct counted \<Longrightarrow> distinct (count_reporters X reporters dg counted sigs) \<and>
   set (count_reporters X reporters dg counted sigs) =
     set counted \<union> {rs_public_key sg | sg. sg \<in> set sigs \<and> rs_public_key sg \<in> set reporters \<and> signs_report X dg sg}"
proof (induction X reporters dg counted sigs rule: count_reporters.induct)
  case (2 X reporters dg counted sg sigs)
  let ?c = "if rs_public_key sg \<notin> set reporters then counted
        else if rs_public_key sg \<in> set counted then counted
        else case hex_decode X (trim_start_0x (rs_public_key sg)) of
            None \<Rightarrow> counted
          | Some pk \<Rightarrow> (case hex_decode X (trim_start_0x (rs_signature sg)) of
                None \<Rightarrow> counted
              | Some sb \<Rightarrow> (case verify_bytes X pk dg sb of Inr _ \<Rightarrow> counted @ [rs_public_key sg] | Inl _ \<Rightarrow> counted))"
  have c: "distinct ?c"
    "set ?c = set counted \<union> {rs_public_key sg | x. rs_public_key sg \<in> set reporters \<and> signs_report X dg sg}"
    using "2.prems" by (auto simp: signs_report_def split: option.splits sum.splits)
  have "count_reporters X reporters dg counted (sg # sigs) = count_reporters X reporters dg ?c sigs" by simp
  with "2.IH" [OF c(1)] c(2) show ?case by auto
qed simp

lemma length_counted:
  assumes "fd_quorum f \<le> (of_nat (length counted) :: u32)"
  shows "unat (fd_quorum f) \<le> length counted"
proof -
  have "unat (fd_quorum f) \<le> length counted mod 2 ^ 32" using assms by (simp add: word_le_nat_alt unat_of_nat)
  also have "\<dots> \<le> length counted" by simp
  finally show ?thesis .
qed

section \<open>The invariant\<close>

text \<open>
  A value is attested when enough distinct registered reporters are listed with it, and for each of them there is a signature of this feed, round and
  value under the reporter's key; the state keeps the list of reporters and not the signatures.
\<close>

definition attested :: "'x identity_ext_scheme \<Rightarrow> feed \<Rightarrow> hash \<Rightarrow> feed_value \<Rightarrow> bool" where
  "attested X f i v \<longleftrightarrow> distinct (fv_reporters v) \<and> unat (fd_quorum f) \<le> length (fv_reporters v) \<and>
     (\<forall>n \<in> set (fv_reporters v). n \<in> set (fd_reporters f) \<and>
        (\<exists>sg. rs_public_key sg = n \<and> signs_report X (report_digest i (fv_round v) (fv_value v)) sg))"

definition oracle_ok :: "'x oracle_ext_scheme \<Rightarrow> state_tree \<Rightarrow> bool" where
  "oracle_ok X s \<longleftrightarrow> (\<forall>i f. feed_of X s i = Some f \<longrightarrow> fd_quorum f \<noteq> 0 \<and> unat (fd_quorum f) \<le> length (fd_reporters f)) \<and>
     (\<forall>i v. latest_value X s i = Some v \<longrightarrow> (\<exists>f. feed_of X s i = Some f \<and> fd_round f = fv_round v \<and> attested X f i v))"

lemma oracle_register_Ok:
  assumes "oracle_ext_ok X"
  shows "oracle_register X cmd name reporters quorum s = (Ok out, s') \<longleftrightarrow>
    (let i = commit X ''oracle/feed'' [as_bytes (party_name (cmd_submitter cmd)), as_bytes name] in
     quorum \<noteq> 0 \<and> unat quorum \<le> length reporters \<and> \<not> st_contains s (feed_key X i) \<and>
     s' = put_feed X i \<lparr>fd_id = i, fd_name = name, fd_admin = cmd_submitter cmd, fd_reporters = reporters, fd_quorum = quorum,
       fd_round = 0\<rparr> s \<and>
     out = single_output (oracle_emit X cmd (OeFeedRegistered i name quorum)) 5000)"
  unfolding oracle_register_def Let_def by (auto simp: ok_iffs oracle_runs [OF assms])

lemma oracle_register_new:
  assumes "oracle_ext_ok X" and "oracle_register X cmd name reporters quorum s = (Ok out, s')"
  obtains i f where "feed_of X s i = None" "s' = put_feed X i f s" "fd_quorum f \<noteq> 0" "unat (fd_quorum f) \<le> length (fd_reporters f)"
proof -
  let ?i = "commit X ''oracle/feed'' [as_bytes (party_name (cmd_submitter cmd)), as_bytes name]"
  let ?f = "\<lparr>fd_id = ?i, fd_name = name, fd_admin = cmd_submitter cmd, fd_reporters = reporters, fd_quorum = quorum, fd_round = 0\<rparr>"
  show thesis
    by (rule that [of ?i ?f]) (use assms(2) in \<open>simp_all add: oracle_register_Ok [OF assms(1)] Let_def feed_of_def get_json_opt_absent\<close>)
qed

lemma oracle_report_Ok:
  assumes "oracle_ext_ok X"
  shows "oracle_report X cmd i rnd v sigs s = (Ok out, s') \<longleftrightarrow>
    (\<exists>f. let counted = count_reporters X (fd_reporters f) (report_digest i rnd v) [] sigs in
     feed_of X s i = Some f \<and> fd_round f < rnd \<and> fd_quorum f \<le> of_nat (length counted) \<and>
     s' = put_value X i \<lparr>fv_feed = i, fv_round = rnd, fv_value = v, fv_reporters = counted\<rparr> (put_feed X i (f\<lparr>fd_round := rnd\<rparr>) s) \<and>
     out = single_output (oracle_emit X cmd (OeValueUpdated i rnd v (of_nat (length counted)))) 6000)"
  unfolding oracle_report_def Let_def by (auto simp: ok_iffs oracle_runs [OF assms] not_le)

lemma load_feed_state: "load_feed X i s = (r, s1) \<Longrightarrow> s1 = s"
  by (auto simp: load_feed_def get_json_or_run split: sum.splits option.splits)

lemma oracle_error_unchanged:
  assumes "oracle_ext_ok X" and "oracle_dispatch X cmd c s = (r, s')" and "\<And>out. r \<noteq> Ok out"
  shows "s' = s"
  using assms(2,3)
  by (cases c) (auto simp: oracle_dispatch_def oracle_register_def oracle_report_def Let_def andthen_def oracle_runs [OF assms(1)]
      dest: load_feed_state split: outcome.splits prod.splits if_splits)

lemma counted_attested:
  assumes "fd_quorum f \<le> of_nat (length counted)" and "counted = count_reporters X (fd_reporters f) (report_digest i rnd v) [] sigs"
  shows "attested X f i \<lparr>fv_feed = i, fv_round = rnd, fv_value = v, fv_reporters = counted\<rparr>"
  using length_counted [OF assms(1)] count_reporters_spec [of "[]" X "fd_reporters f" "report_digest i rnd v" sigs]
  unfolding attested_def assms(2) by auto

lemma attested_round: "attested X (f\<lparr>fd_round := r\<rparr>) i v \<longleftrightarrow> attested X f i v"
  by (simp add: attested_def)

lemma oracle_step_ok:
  assumes "oracle_ext_ok X" and "oracle_ok X s" and "oracle_dispatch X cmd c s = (Ok out, s')"
  shows "oracle_ok X s'"
proof (cases c)
  case (OcRegisterFeed name reporters quorum)
  then obtain i f where f: "feed_of X s i = None" "s' = put_feed X i f s" "fd_quorum f \<noteq> 0" "unat (fd_quorum f) \<le> length (fd_reporters f)"
    using oracle_register_new [OF assms(1), of cmd name reporters quorum s out s'] assms(3)
    by (auto simp: oracle_dispatch_def)
  moreover have "latest_value X s i = None"
    using assms(2) f(1) unfolding oracle_ok_def by (metis not_None_eq)
  ultimately show ?thesis
    using assms(2) unfolding oracle_ok_def by (auto simp: table_cells assms(1))
next
  case (OcReport i rnd v sigs)
  then obtain f counted where f: "feed_of X s i = Some f" "fd_quorum f \<le> of_nat (length counted)"
    "counted = count_reporters X (fd_reporters f) (report_digest i rnd v) [] sigs"
    "s' = put_value X i \<lparr>fv_feed = i, fv_round = rnd, fv_value = v, fv_reporters = counted\<rparr> (put_feed X i (f\<lparr>fd_round := rnd\<rparr>) s)"
    using assms(3) by (auto simp: oracle_dispatch_def oracle_report_Ok [OF assms(1)] Let_def)
  show ?thesis
    using assms(2) f(1) counted_attested [OF f(2,3)] unfolding oracle_ok_def f(4)
    by (auto simp: table_cells assms(1) attested_round)
qed

section \<open>The prism contract\<close>

lemma oracle_handle_frame:
  assumes "outside [''oracle/''] k"
  shows "keeps (\<lambda>s. st_get s k = v) (oracle_handle X cmd)"
proof -
  have k: "feed_key X a \<noteq> k" "value_key X a \<noteq> k" for a
    using assms by (auto simp: outside_def feed_key_def value_key_def)
  have "keeps (\<lambda>s. st_get s k = v) (oracle_dispatch X cmd c)" for c
    unfolding oracle_dispatch_def oracle_register_def oracle_report_def load_feed_def Let_def
    by (cases c) (auto intro!: keeps_intros simp: k)
  then show ?thesis
    unfolding oracle_handle_def by (intro keeps_intros)
qed

lemma oracle_handle_events:
  assumes "oracle_handle X cmd s = (Ok out, s')"
  shows "\<forall>e \<in> set (out_events out). event_of X ''oracle'' cmd e"
proof -
  obtain c s1 where "oracle_dispatch X cmd c s1 = (Ok out, s')"
    using assms by (auto simp: oracle_handle_def andthen_Ok_iff)
  then show ?thesis
    by (cases c) (auto simp: oracle_dispatch_def oracle_register_def oracle_report_def Let_def ok_iffs single_output_def oracle_emit_def)
qed

interpretation oracle_contract: prism_contract oracle_handle "''oracle''" "[''oracle/'']"
  by unfold_locales (use oracle_handle_frame oracle_handle_events in \<open>blast+\<close>)

section \<open>A concrete instance of the parameters\<close>

definition feed_coder :: "feed coder" where
  "feed_coder = iso_coder (\<lambda>f. (fd_id f, fd_name f, fd_admin f, fd_reporters f, fd_quorum f, fd_round f))
     (\<lambda>(i, n, a, r, q, k). \<lparr>fd_id = i, fd_name = n, fd_admin = a, fd_reporters = r, fd_quorum = q, fd_round = k\<rparr>)
     (pair_coder hash_coder (pair_coder string_coder (pair_coder party_coder (pair_coder (list_coder string_coder)
       (pair_coder word_coder word_coder)))))"

definition feed_value_coder :: "feed_value coder" where
  "feed_value_coder = iso_coder (\<lambda>v. (fv_feed v, fv_round v, fv_value v, fv_reporters v))
     (\<lambda>(i, k, b, r). \<lparr>fv_feed = i, fv_round = k, fv_value = b, fv_reporters = r\<rparr>)
     (pair_coder hash_coder (pair_coder word_coder (pair_coder bytes_coder (list_coder string_coder))))"

definition reporter_sig_coder :: "reporter_sig coder" where
  "reporter_sig_coder = iso_coder (\<lambda>g. (rs_public_key g, rs_signature g)) (\<lambda>(p, s). \<lparr>rs_public_key = p, rs_signature = s\<rparr>)
     (pair_coder string_coder string_coder)"

definition oracle_command_coder :: "oracle_command coder" where
  "oracle_command_coder = iso_coder
     (\<lambda>c. case c of OcRegisterFeed n r q \<Rightarrow> Inl (n, r, q) | OcReport i k v g \<Rightarrow> Inr (i, k, v, g))
     (\<lambda>z. case z of Inl (n, r, q) \<Rightarrow> OcRegisterFeed n r q | Inr (i, k, v, g) \<Rightarrow> OcReport i k v g)
     (sum_coder (pair_coder string_coder (pair_coder (list_coder string_coder) word_coder))
       (pair_coder hash_coder (pair_coder word_coder (pair_coder bytes_coder (list_coder reporter_sig_coder)))))"

definition oracle_event_coder :: "oracle_event coder" where
  "oracle_event_coder = iso_coder
     (\<lambda>e. case e of OeFeedRegistered i n q \<Rightarrow> Inl (i, n, q) | OeValueUpdated i k v n \<Rightarrow> Inr (i, k, v, n))
     (\<lambda>z. case z of Inl (i, n, q) \<Rightarrow> OeFeedRegistered i n q | Inr (i, k, v, n) \<Rightarrow> OeValueUpdated i k v n)
     (sum_coder (pair_coder hash_coder (pair_coder string_coder word_coder))
       (pair_coder hash_coder (pair_coder word_coder (pair_coder bytes_coder word_coder))))"

lemma oracle_coders_ok [coder_intros]:
  "coder_ok feed_coder" "coder_ok feed_value_coder" "coder_ok reporter_sig_coder"
  unfolding feed_coder_def feed_value_coder_def reporter_sig_coder_def by (intro coder_intros; auto)+

lemma oracle_command_coders_ok [coder_intros]: "coder_ok oracle_command_coder" "coder_ok oracle_event_coder"
  unfolding oracle_command_coder_def oracle_event_coder_def
  by (intro coder_intros; auto split: oracle_command.splits oracle_event.splits)+

definition ref_oracle_ext :: oracle_ext where
  "ref_oracle_ext = identity_ext.extend ref_identity_ext
     (oracle_ext.fields (codec_of feed_coder) (codec_of feed_value_coder) (codec_of oracle_command_coder) (codec_of oracle_event_coder))"

lemma ref_oracle_ext_ok: "oracle_ext_ok ref_oracle_ext"
  using ref_identity_ext_ok
  by (simp add: oracle_ext_ok_def identity_ext_ok_def kernel_ext_ok_def hash_ext_ok_def ref_oracle_ext_def
      identity_ext.defs oracle_ext.defs codec_of_ok coder_intros)

section \<open>Properties\<close>

lemma length_count_reporters:
  "length (count_reporters X reporters dg [] sigs) =
     card {rs_public_key sg | sg. sg \<in> set sigs \<and> rs_public_key sg \<in> set reporters \<and> signs_report X dg sg}"
  using count_reporters_spec [of "[]" X reporters dg sigs] by (auto simp: distinct_card [symmetric])

lemma length_count_reporters_le: "length (count_reporters X reporters dg [] sigs) \<le> length sigs"
proof -
  have "{rs_public_key sg | sg. sg \<in> set sigs \<and> rs_public_key sg \<in> set reporters \<and> signs_report X dg sg} \<subseteq> rs_public_key ` set sigs"
    by auto
  then have "length (count_reporters X reporters dg [] sigs) \<le> card (rs_public_key ` set sigs)"
    unfolding length_count_reporters by (rule card_mono [rotated]) simp
  also have "\<dots> \<le> length sigs" using card_image_le [of "set sigs" rs_public_key] card_length [of sigs] by simp
  finally show ?thesis .
qed

text \<open>
  C30. Oracle values are attested. Every command of the oracle prism, successful or not, keeps the invariant that each
  feed has a quorum between one and the number of its reporters, and that the stored value of a feed carries the
  feed's current round and at least a quorum of distinct registered reporters, for each of whom a signature of this
  feed, round and value exists that verifies under the reporter's key. The rounds
  of a feed never go back, and its reporters and quorum never change.
\<close>

theorem oracle_values_attested:
  assumes "oracle_ext_ok X" and "oracle_ok X s" and "oracle_dispatch X cmd c s = (r, s')"
  shows "oracle_ok X s' \<and> (\<forall>i f. feed_of X s i = Some f \<longrightarrow>
    (\<exists>f'. feed_of X s' i = Some f' \<and> fd_round f \<le> fd_round f' \<and> fd_reporters f' = fd_reporters f \<and> fd_quorum f' = fd_quorum f))"
proof (cases "\<exists>out. r = Ok out")
  case True
  then obtain out where run: "oracle_dispatch X cmd c s = (Ok out, s')" using assms(3) by blast
  have "\<exists>f'. feed_of X s' i = Some f' \<and> fd_round f \<le> fd_round f' \<and> fd_reporters f' = fd_reporters f \<and> fd_quorum f' = fd_quorum f"
    if "feed_of X s i = Some f" for i f
    using run that get_json_opt_absent [of s "feed_key X i" "js_feed X"]
    by (cases c) (auto simp: oracle_dispatch_def oracle_register_Ok [OF assms(1)] oracle_report_Ok [OF assms(1)] Let_def
        table_cells assms(1) feed_of_def [of X s])
  with oracle_step_ok [OF assms(1,2) run] show ?thesis by blast
next
  case False
  then show ?thesis using oracle_error_unchanged [OF assms(1,3)] assms(2) by blast
qed

text \<open>
  A report is accepted exactly when it should be: the feed exists, the round is later than the last one, and
  the registered reporters with a valid signature in the list are at least the quorum, each counted once
  however often he signs. Then the value is the latest one.
\<close>

theorem oracle_report_accepts_iff:
  assumes "oracle_ext_ok X" and "length sigs < 2 ^ 32"
  shows "(\<exists>out s'. oracle_report X cmd i rnd v sigs s = (Ok out, s') \<and>
      map_option fv_value (latest_value X s' i) = Some v \<and> map_option fv_round (latest_value X s' i) = Some rnd) \<longleftrightarrow>
    (\<exists>f. feed_of X s i = Some f \<and> fd_round f < rnd \<and>
       unat (fd_quorum f) \<le> card {rs_public_key sg | sg. sg \<in> set sigs \<and> rs_public_key sg \<in> set (fd_reporters f) \<and>
         signs_report X (report_digest i rnd v) sg})"
proof -
  have "fd_quorum f \<le> of_nat (length (count_reporters X (fd_reporters f) (report_digest i rnd v) [] sigs)) \<longleftrightarrow>
      unat (fd_quorum f) \<le> length (count_reporters X (fd_reporters f) (report_digest i rnd v) [] sigs)" for f
    using length_count_reporters_le [of X "fd_reporters f" "report_digest i rnd v" sigs] assms(2)
    by (simp add: word_le_nat_alt unat_of_nat)
  then show ?thesis
    unfolding length_count_reporters [symmetric] by (auto simp: oracle_report_Ok [OF assms(1)] Let_def table_cells assms(1))
qed

text \<open>
  The bytes a reporter signs determine the feed, the round and the value.
\<close>

theorem report_digest_binding:
  assumes "wf_hash i" and "wf_hash j" and "report_digest i r v = report_digest j q w"
  shows "i = j \<and> r = q \<and> v = w"
proof -
  have "hash_bytes i @ u64_to_le_bytes r @ 255 # v = hash_bytes j @ u64_to_le_bytes q @ 255 # w"
    using assms(3) by (simp add: report_digest_def)
  moreover have "length (hash_bytes i) = length (hash_bytes j)" using assms(1,2) by (simp add: wf_hash_def)
  ultimately show ?thesis by (simp add: append_eq_append_conv hash.expand)
qed

section \<open>A feed with one reporter\<close>

definition reporter_seed :: bytes where "reporter_seed = replicate 32 7"

definition reporter_key :: string where "reporter_key = hex_encode ref_oracle_ext (ed_public ref_oracle_ext reporter_seed)"

definition price_feed :: feed where
  "price_feed = \<lparr>fd_id = ZERO, fd_name = ''price'', fd_admin = PartyId ''alice'', fd_reporters = [reporter_key], fd_quorum = 1, fd_round = 0\<rparr>"

definition price_report :: "reporter_sig" where
  "price_report = \<lparr>rs_public_key = reporter_key,
     rs_signature = hex_encode ref_oracle_ext (ed_sign ref_oracle_ext reporter_seed (report_digest ZERO 1 [42]))\<rparr>"

definition price_state :: state_tree where
  "price_state = put_feed ref_oracle_ext ZERO price_feed st_new"

lemma trim_start_hex: "hash_ext_ok X \<Longrightarrow> trim_start_0x (hex_encode X b) = hex_encode X b"
  using hex_encode_no_x [of X b] by (cases "hex_encode X b" rule: trim_start_0x.cases) auto

lemma price_report_signs: "signs_report ref_oracle_ext (report_digest ZERO 1 [42]) price_report"
proof -
  note ok = oracle_ext_okD [OF ref_oracle_ext_ok]
  have "hex_decode ref_oracle_ext (hex_encode ref_oracle_ext b) = Some b" for b
    using ok(2) by (simp add: hash_ext_ok_def)
  then show ?thesis
    using identity_ext_okD [OF ok(1)]
    by (simp add: signs_report_def price_report_def reporter_key_def trim_start_hex [OF ok(2)] verify_bytes_Inr_iff)
qed

lemma price_state_cells: "feed_of ref_oracle_ext price_state i = (if i = ZERO then Some price_feed else None)"
  "latest_value ref_oracle_ext price_state i = None"
  by (auto simp: price_state_def table_cells ref_oracle_ext_ok) (auto simp: feed_of_def latest_value_def)

theorem oracle_values_attested_witness:
  "oracle_ok ref_oracle_ext price_state \<and>
   oracle_ok ref_oracle_ext (snd (oracle_dispatch ref_oracle_ext demo_command (OcReport ZERO 1 [42] [price_report]) price_state))"
proof
  show ok: "oracle_ok ref_oracle_ext price_state"
    by (auto simp: oracle_ok_def price_state_cells price_feed_def split: if_splits)
  show "oracle_ok ref_oracle_ext (snd (oracle_dispatch ref_oracle_ext demo_command (OcReport ZERO 1 [42] [price_report]) price_state))"
    using oracle_values_attested [OF ref_oracle_ext_ok ok] by (metis prod.collapse)
qed

theorem oracle_report_accepts_iff_witness:
  "\<exists>out s'. oracle_report ref_oracle_ext demo_command ZERO 1 [42] [price_report] price_state = (Ok out, s') \<and>
     map_option fv_value (latest_value ref_oracle_ext s' ZERO) = Some [42] \<and>
     map_option fv_round (latest_value ref_oracle_ext s' ZERO) = Some 1"
proof -
  have "{rs_public_key sg | sg. sg \<in> set [price_report] \<and> rs_public_key sg \<in> set (fd_reporters price_feed) \<and>
      signs_report ref_oracle_ext (report_digest ZERO 1 [42]) sg} = {reporter_key}"
    using price_report_signs by (auto simp: price_feed_def price_report_def)
  moreover have "fd_round price_feed < 1" "unat (fd_quorum price_feed) = 1" by (simp_all add: price_feed_def)
  ultimately have "\<exists>f. feed_of ref_oracle_ext price_state ZERO = Some f \<and> fd_round f < 1 \<and>
      unat (fd_quorum f) \<le> card {rs_public_key sg | sg. sg \<in> set [price_report] \<and> rs_public_key sg \<in> set (fd_reporters f) \<and>
        signs_report ref_oracle_ext (report_digest ZERO 1 [42]) sg}"
    by (simp add: price_state_cells)
  then show ?thesis
    using oracle_report_accepts_iff [OF ref_oracle_ext_ok, of "[price_report]" demo_command ZERO 1 "[42]" price_state] by simp
qed

theorem report_digest_binding_witness: "report_digest ZERO 1 [2] \<noteq> report_digest ZERO 1 [3]"
proof
  assume "report_digest ZERO 1 [2] = report_digest ZERO 1 [3]"
  then have "ZERO = ZERO \<and> (1 :: u64) = 1 \<and> [2 :: u8] = [3]"
    by (rule report_digest_binding [rotated 2]) (simp_all add: wf_hash_def ZERO_def)
  then show False by simp
qed

end
