(* ===== verification/Bridge.thy ===== *)
theory Bridge
  imports Tables Token
begin

text \<open>
  \<open>prisms/bridge/src/lib.rs\<close> and \<open>prisms/bridge/src/types.rs\<close>: transfers to and from foreign chains, attested by guardians. The
  prism keeps its own copy of the token's balance cells' keys.
\<close>

section \<open>Data\<close>

datatype foreign_chain = Cosmos | Solana | Ethereum | CustomChain

record bridge_config =
  bc_chain :: foreign_chain
  bc_guardians :: "string list"
  bc_quorum :: nat
  bc_admin :: party_id

record outbound_transfer =
  ot_sequence :: u64
  ot_chain :: foreign_chain
  ot_sender :: party_id
  ot_recipient :: string
  ot_token_id :: hash
  ot_amount :: u128

record inbound_transfer =
  it_chain :: foreign_chain
  it_sequence :: u64
  it_foreign_sender :: string
  it_recipient :: party_id
  it_token_id :: hash
  it_amount :: u128

record guardian_signature =
  gs_public_key :: string
  gs_signature :: string

datatype bridge_command =
    BcRegisterChain foreign_chain "string list" nat
  | BcSend foreign_chain string hash u128
  | BcRedeem inbound_transfer "guardian_signature list"

datatype bridge_event =
    BeChainRegistered foreign_chain nat nat
  | BeOutboundLocked u64 foreign_chain string hash u128 hash
  | BeInboundRedeemed foreign_chain u64 party_id hash u128 nat

record bridge_ext = identity_ext +
  js_sequence :: "u64 codec"
  js_bridge_config :: "bridge_config codec"
  js_bridge_command :: "bridge_command codec"
  js_bridge_event :: "bridge_event codec"

definition bridge_ext_ok :: "'x bridge_ext_scheme \<Rightarrow> bool" where
  "bridge_ext_ok X \<longleftrightarrow> identity_ext_ok X \<and> codec_ok (js_sequence X) \<and> codec_ok (js_bridge_config X) \<and>
     codec_ok (js_bridge_command X) \<and> codec_ok (js_bridge_event X)"

section \<open>Operations\<close>

fun as_u16 :: "foreign_chain \<Rightarrow> u16" where
  "as_u16 Cosmos = 1"
| "as_u16 Solana = 2"
| "as_u16 Ethereum = 3"
| "as_u16 CustomChain = 999"

definition config_key :: "foreign_chain \<Rightarrow> string" where
  "config_key chain = ''bridge/config/'' @ decimal (unat (as_u16 chain))"

definition seq_key :: "foreign_chain \<Rightarrow> string" where
  "seq_key chain = ''bridge/seq/'' @ decimal (unat (as_u16 chain))"

definition out_seq_key :: "foreign_chain \<Rightarrow> string" where
  "out_seq_key chain = ''bridge/outseq/'' @ decimal (unat (as_u16 chain))"

definition outbound_digest :: "'x hash_ext_scheme \<Rightarrow> outbound_transfer \<Rightarrow> hash" where
  "outbound_digest X t = commit X ''bridge/outbound''
     [u64_to_le_bytes (ot_sequence t), u16_to_le_bytes (as_u16 (ot_chain t)), as_bytes (party_name (ot_sender t)),
      as_bytes (ot_recipient t), hash_bytes (ot_token_id t), u128_to_le_bytes (ot_amount t)]"

definition inbound_digest :: "'x hash_ext_scheme \<Rightarrow> inbound_transfer \<Rightarrow> hash" where
  "inbound_digest X t = commit X ''bridge/inbound''
     [u16_to_le_bytes (as_u16 (it_chain t)), u64_to_le_bytes (it_sequence t), as_bytes (it_foreign_sender t),
      as_bytes (party_name (it_recipient t)), hash_bytes (it_token_id t), u128_to_le_bytes (it_amount t)]"

definition bridge_bal_key :: "'x kernel_ext_scheme \<Rightarrow> hash \<Rightarrow> party_id \<Rightarrow> string" where
  "bridge_bal_key X token_id who = ''token/bal/'' @ to_hex X token_id @ ''/'' @ party_name who"

definition bridge_get_balance :: "'x kernel_ext_scheme \<Rightarrow> state_tree \<Rightarrow> hash \<Rightarrow> party_id \<Rightarrow> u128" where
  "bridge_get_balance X s token_id who =
     (case Option.bind (get_json_opt (js_string X) s (bridge_bal_key X token_id who)) parse_u128 of None \<Rightarrow> 0 | Some v \<Rightarrow> v)"

definition bridge_set_balance :: "'x kernel_ext_scheme \<Rightarrow> hash \<Rightarrow> party_id \<Rightarrow> u128 \<Rightarrow> (state_tree, prism_error, unit) act" where
  "bridge_set_balance X token_id who v = put_json_internal (js_string X) (bridge_bal_key X token_id who) (u128_to_string v)"

definition load_config :: "'x bridge_ext_scheme \<Rightarrow> foreign_chain \<Rightarrow> (state_tree, prism_error, bridge_config) act" where
  "load_config X chain = get_json_or (js_bridge_config X) (config_key chain)
     (NotFound (''bridge for chain '' @ decimal (unat (as_u16 chain))))"

definition bridge_emit :: "'x bridge_ext_scheme \<Rightarrow> command \<Rightarrow> bridge_event \<Rightarrow> event" where
  "bridge_emit X cmd payload = emit X ''bridge'' cmd (to_vec_or_default (js_bridge_event X) payload)"

text \<open>\<open>strip_prefix("0x")\<close> removes the prefix once.\<close>

fun strip_0x :: "string \<Rightarrow> string" where
  "strip_0x (a # b # s) = (if a = CHR ''0'' \<and> b = CHR ''x'' then s else a # b # s)"
| "strip_0x s = s"

definition hex_to_bytes :: "'x hash_ext_scheme \<Rightarrow> string \<Rightarrow> bytes option" where
  "hex_to_bytes X s = hex_decode X (strip_0x s)"

fun guardian_loop :: "'x identity_ext_scheme \<Rightarrow> string list \<Rightarrow> hash \<Rightarrow> string list \<Rightarrow> nat \<Rightarrow> guardian_signature list \<Rightarrow>
   prism_error + nat" where
  "guardian_loop X guardians dg seen valid [] = Inr valid"
| "guardian_loop X guardians dg seen valid (sg # sigs) =
     (if gs_public_key sg \<notin> set guardians then guardian_loop X guardians dg seen valid sigs
      else if gs_public_key sg \<in> set seen then guardian_loop X guardians dg seen valid sigs
      else case hex_to_bytes X (gs_public_key sg) of
          None \<Rightarrow> Inl (InvalidPayload ''bad guardian pubkey hex'')
        | Some pk \<Rightarrow> (case hex_to_bytes X (gs_signature sg) of
              None \<Rightarrow> Inl (InvalidPayload ''bad signature hex'')
            | Some sb \<Rightarrow> (case verify_bytes X pk (hash_bytes dg) sb of
                  Inr _ \<Rightarrow> guardian_loop X guardians dg (seen @ [gs_public_key sg]) (valid + 1) sigs
                | Inl _ \<Rightarrow> guardian_loop X guardians dg seen valid sigs)))"

definition verify_quorum :: "'x identity_ext_scheme \<Rightarrow> bridge_config \<Rightarrow> hash \<Rightarrow> guardian_signature list \<Rightarrow>
   (state_tree, prism_error, nat) act" where
  "verify_quorum X config dg sigs =
     (case guardian_loop X (bc_guardians config) dg [] 0 sigs of
        Inl e \<Rightarrow> raise e
      | Inr valid \<Rightarrow>
          andthen (ensure (\<not> valid < bc_quorum config) (Unauthorized (''guardian quorum not met: '' @ decimal valid @ ''/'' @
            decimal (length (bc_guardians config)) @ '' valid (need '' @ decimal (bc_quorum config) @ '')''))) (\<lambda>_.
          ret valid))"

definition bridge_register ::
  "'x bridge_ext_scheme \<Rightarrow> command \<Rightarrow> foreign_chain \<Rightarrow> string list \<Rightarrow> nat \<Rightarrow> (state_tree, prism_error, prism_output) act" where
  "bridge_register X cmd chain guardians quorum =
     andthen (ensure (\<not> (quorum = 0 \<or> quorum > length guardians)) (InvalidPayload ''quorum must be in 1..=guardians.len()'')) (\<lambda>_.
     andthen (gets (\<lambda>s. get_json_opt (js_bridge_config X) s (config_key chain))) (\<lambda>existing.
     andthen (case existing of
        None \<Rightarrow> ret ()
      | Some c \<Rightarrow> ensure (\<not> bc_admin c \<noteq> cmd_submitter cmd) (Unauthorized ''only bridge admin may update'')) (\<lambda>_.
     andthen (put_json_internal (js_bridge_config X) (config_key chain)
       \<lparr>bc_chain = chain, bc_guardians = guardians, bc_quorum = quorum, bc_admin = cmd_submitter cmd\<rparr>) (\<lambda>_.
     ret (single_output (bridge_emit X cmd (BeChainRegistered chain (length guardians) quorum)) 5000)))))"

definition read_sequence :: "'x bridge_ext_scheme \<Rightarrow> state_tree \<Rightarrow> string \<Rightarrow> u64" where
  "read_sequence X s key = (case get_json_opt (js_sequence X) s key of None \<Rightarrow> 0 | Some n \<Rightarrow> n)"

definition bridge_send ::
  "'x bridge_ext_scheme \<Rightarrow> command \<Rightarrow> foreign_chain \<Rightarrow> string \<Rightarrow> hash \<Rightarrow> u128 \<Rightarrow> (state_tree, prism_error, prism_output) act" where
  "bridge_send X cmd chain recipient token_id amount =
     andthen (load_config X chain) (\<lambda>_.
     let sender = cmd_submitter cmd in
     andthen (gets (\<lambda>s. bridge_get_balance X s token_id sender)) (\<lambda>bal.
     andthen (ensure (\<not> bal < amount) (LimitExceeded ''insufficient balance to bridge'')) (\<lambda>_.
     andthen (bridge_set_balance X token_id sender (bal - amount)) (\<lambda>_.
     andthen (gets (\<lambda>s. read_sequence X s (out_seq_key chain))) (\<lambda>sq.
     andthen (put_json_internal (js_sequence X) (out_seq_key chain) (sq + 1)) (\<lambda>_.
     let t = \<lparr>ot_sequence = sq, ot_chain = chain, ot_sender = sender, ot_recipient = recipient, ot_token_id = token_id,
           ot_amount = amount\<rparr> in
     ret (single_output (bridge_emit X cmd
       (BeOutboundLocked sq chain recipient token_id amount (outbound_digest X t))) 3000)))))))"

definition bridge_redeem ::
  "'x bridge_ext_scheme \<Rightarrow> command \<Rightarrow> inbound_transfer \<Rightarrow> guardian_signature list \<Rightarrow> (state_tree, prism_error, prism_output) act" where
  "bridge_redeem X cmd t sigs =
     andthen (load_config X (it_chain t)) (\<lambda>config.
     andthen (gets (\<lambda>s. read_sequence X s (seq_key (it_chain t)))) (\<lambda>expected.
     andthen (ensure (\<not> it_sequence t \<noteq> expected) (InvalidPayload (''bad inbound sequence: got '' @ decimal (unat (it_sequence t)) @
       '', expected '' @ decimal (unat expected)))) (\<lambda>_.
     andthen (verify_quorum X config (inbound_digest X t) sigs) (\<lambda>verified.
     andthen (gets (\<lambda>s. bridge_get_balance X s (it_token_id t) (it_recipient t))) (\<lambda>bal.
     andthen (of_option (Internal ''balance overflow'') (checked_add bal (it_amount t))) (\<lambda>new_bal.
     andthen (bridge_set_balance X (it_token_id t) (it_recipient t) new_bal) (\<lambda>_.
     andthen (put_json_internal (js_sequence X) (seq_key (it_chain t)) (expected + 1)) (\<lambda>_.
     ret (single_output (bridge_emit X cmd
       (BeInboundRedeemed (it_chain t) (it_sequence t) (it_recipient t) (it_token_id t) (it_amount t) verified)) 8000)))))))))"

definition bridge_dispatch ::
  "'x bridge_ext_scheme \<Rightarrow> command \<Rightarrow> bridge_command \<Rightarrow> (state_tree, prism_error, prism_output) act" where
  "bridge_dispatch X cmd c = (case c of
      BcRegisterChain chain guardians quorum \<Rightarrow> bridge_register X cmd chain guardians quorum
    | BcSend chain recipient token_id amount \<Rightarrow> bridge_send X cmd chain recipient token_id amount
    | BcRedeem t sigs \<Rightarrow> bridge_redeem X cmd t sigs)"

definition bridge_handle :: "'x bridge_ext_scheme \<Rightarrow> handler" where
  "bridge_handle X cmd =
     andthen (parse_payload (js_bridge_command X) (cmd_payload cmd)) (bridge_dispatch X cmd)"

definition bridge_estimate :: "'x bridge_ext_scheme \<Rightarrow> command \<Rightarrow> state_tree \<Rightarrow> u64" where
  "bridge_estimate X cmd s =
     (case from_slice (js_bridge_command X) (cmd_payload cmd) of
        Inr (BcRegisterChain _ _ _) \<Rightarrow> 5000
      | Inr (BcSend _ _ _ _) \<Rightarrow> 3000
      | Inr (BcRedeem _ _) \<Rightarrow> 8000
      | Inl _ \<Rightarrow> 1000)"

definition bridge_prism :: "'x bridge_ext_scheme \<Rightarrow> prism" where
  "bridge_prism X = \<lparr>pr_info = \<lparr>info_name = ''bridge'',
       info_description = ''Guardian-attested cross-chain transfers (Cosmos, Solana, EVM)'',
       info_version = ''1.0''\<rparr>,
     pr_handle = bridge_handle X, pr_estimate = bridge_estimate X\<rparr>"

definition bridge_command_of :: "'x bridge_ext_scheme \<Rightarrow> party_id \<Rightarrow> visibility \<Rightarrow> u64 \<Rightarrow> bridge_command \<Rightarrow> command" where
  "bridge_command_of X submitter vis nonce c =
     \<lparr>cmd_prism = ''bridge'', cmd_submitter = submitter, cmd_visibility = vis,
      cmd_payload = to_vec_or_default (js_bridge_command X) c, cmd_nonce = nonce\<rparr>"

definition register_chain_command ::
  "'x bridge_ext_scheme \<Rightarrow> party_id \<Rightarrow> visibility \<Rightarrow> u64 \<Rightarrow> foreign_chain \<Rightarrow> string list \<Rightarrow> nat \<Rightarrow> command" where
  "register_chain_command X submitter vis nonce chain guardians quorum =
     bridge_command_of X submitter vis nonce (BcRegisterChain chain guardians quorum)"

definition send_command ::
  "'x bridge_ext_scheme \<Rightarrow> party_id \<Rightarrow> visibility \<Rightarrow> u64 \<Rightarrow> foreign_chain \<Rightarrow> string \<Rightarrow> hash \<Rightarrow> u128 \<Rightarrow> command" where
  "send_command X submitter vis nonce chain recipient token_id amount =
     bridge_command_of X submitter vis nonce (BcSend chain recipient token_id amount)"

section \<open>Configurations, sequences and balances in the state\<close>

definition config_of :: "'x bridge_ext_scheme \<Rightarrow> state_tree \<Rightarrow> foreign_chain \<Rightarrow> bridge_config option" where
  "config_of X s chain = get_json_opt (js_bridge_config X) s (config_key chain)"

definition in_seq :: "'x bridge_ext_scheme \<Rightarrow> state_tree \<Rightarrow> foreign_chain \<Rightarrow> u64" where
  "in_seq X s chain = read_sequence X s (seq_key chain)"

definition put_config :: "'x bridge_ext_scheme \<Rightarrow> foreign_chain \<Rightarrow> bridge_config \<Rightarrow> state_tree \<Rightarrow> state_tree" where
  "put_config X chain = put_cell (js_bridge_config X) (config_key chain)"

definition put_in_seq :: "'x bridge_ext_scheme \<Rightarrow> foreign_chain \<Rightarrow> u64 \<Rightarrow> state_tree \<Rightarrow> state_tree" where
  "put_in_seq X chain = put_cell (js_sequence X) (seq_key chain)"

definition put_out_seq :: "'x bridge_ext_scheme \<Rightarrow> foreign_chain \<Rightarrow> u64 \<Rightarrow> state_tree \<Rightarrow> state_tree" where
  "put_out_seq X chain = put_cell (js_sequence X) (out_seq_key chain)"

lemma bridge_ext_okD:
  assumes "bridge_ext_ok X"
  shows "identity_ext_ok X" "kernel_ext_ok X" "hash_ext_ok X" "codec_ok (js_sequence X)" "codec_ok (js_bridge_config X)"
    "codec_ok (js_bridge_command X)"
  using assms by (simp_all add: bridge_ext_ok_def identity_ext_okD)

lemma chain_text_inj: "decimal (unat (as_u16 a)) = decimal (unat (as_u16 b)) \<longleftrightarrow> a = b"
  by (cases a; cases b) (simp_all add: decimal.simps)

interpretation configs: json_table bridge_ext_ok js_bridge_config "\<lambda>X. config_key"
  by unfold_locales (simp_all add: bridge_ext_okD config_key_def chain_text_inj)

interpretation in_seqs: json_table bridge_ext_ok js_sequence "\<lambda>X. seq_key"
  by unfold_locales (simp_all add: bridge_ext_okD seq_key_def chain_text_inj)

interpretation out_seqs: json_table bridge_ext_ok js_sequence "\<lambda>X. out_seq_key"
  by unfold_locales (simp_all add: bridge_ext_okD out_seq_key_def chain_text_inj)

lemma bridge_bal_key: "bridge_bal_key = bal_key"
  by (simp add: fun_eq_iff bridge_bal_key_def bal_key_def)

lemma bridge_balance: "bridge_get_balance X s tid w = balance X s tid w"
  by (simp add: bridge_get_balance_def balance_def read_u128_def bridge_bal_key)

lemma bridge_set_balance_ok: "bridge_ext_ok X \<Longrightarrow> bridge_set_balance X tid w v = modify (put_balance X tid w v)"
  by (simp add: bridge_set_balance_def bridge_bal_key put_u128_def [abs_def] kernel_ext_okD bridge_ext_okD)

lemma bridge_keys [simp]:
  "config_key a \<noteq> seq_key b" "seq_key b \<noteq> config_key a" "config_key a \<noteq> out_seq_key b" "out_seq_key b \<noteq> config_key a"
  "seq_key a \<noteq> out_seq_key b" "out_seq_key b \<noteq> seq_key a"
  "config_key a \<noteq> bal_key X i w" "bal_key X i w \<noteq> config_key a" "seq_key a \<noteq> bal_key X i w" "bal_key X i w \<noteq> seq_key a"
  "out_seq_key a \<noteq> bal_key X i w" "bal_key X i w \<noteq> out_seq_key a"
  by (simp_all add: config_key_def seq_key_def out_seq_key_def bal_key_def)

lemma bridge_cells [table_cells]:
  "bridge_ext_ok X \<Longrightarrow> config_of X (put_config X a c s) b = (if a = b then Some c else config_of X s b)"
  "config_of X (put_in_seq X a n s) b = config_of X s b"
  "config_of X (put_out_seq X a n s) b = config_of X s b"
  "config_of X (put_balance X i w v s) b = config_of X s b"
  "bridge_ext_ok X \<Longrightarrow> in_seq X (put_in_seq X a n s) b = (if a = b then n else in_seq X s b)"
  "in_seq X (put_config X a c s) b = in_seq X s b"
  "in_seq X (put_out_seq X a n s) b = in_seq X s b"
  "in_seq X (put_balance X i w v s) b = in_seq X s b"
  "balance X (put_config X a c s) i w = balance X s i w"
  "balance X (put_in_seq X a n s) i w = balance X s i w"
  "balance X (put_out_seq X a n s) i w = balance X s i w"
  using configs.get_put [of X a c s b] in_seqs.get_put [of X a n s b]
  by (simp_all add: config_of_def in_seq_def read_sequence_def put_config_def put_in_seq_def put_out_seq_def cell_frames
      put_u128_def balance_def read_u128_def)

lemma bridge_runs:
  assumes "bridge_ext_ok X"
  shows "load_config X a s = (Ok c, s1) \<longleftrightarrow> s1 = s \<and> config_of X s a = Some c"
    and "put_json_internal (js_bridge_config X) (config_key a) c = modify (put_config X a c)"
    and "put_json_internal (js_sequence X) (seq_key a) n = modify (put_in_seq X a n)"
    and "put_json_internal (js_sequence X) (out_seq_key a) n = modify (put_out_seq X a n)"
  by (simp_all add: load_config_def get_json_or_Ok_iff config_of_def configs.run_put [OF assms] in_seqs.run_put [OF assms]
      out_seqs.run_put [OF assms] put_config_def [abs_def] put_in_seq_def [abs_def] put_out_seq_def [abs_def])

section \<open>The guardians\<close>

definition guardian_signed :: "'x identity_ext_scheme \<Rightarrow> hash \<Rightarrow> guardian_signature \<Rightarrow> bool" where
  "guardian_signed X dg sg \<longleftrightarrow> (\<exists>pk sb. hex_to_bytes X (gs_public_key sg) = Some pk \<and> hex_to_bytes X (gs_signature sg) = Some sb \<and>
     verify_bytes X pk (hash_bytes dg) sb = Inr ())"

lemma guardian_loop_spec:
  assumes "guardian_loop X guardians dg seen n sigs = Inr m"
  shows "\<exists>names. m = n + length names \<and> distinct names \<and> set names \<inter> set seen = {} \<and>
    (\<forall>g \<in> set names. g \<in> set guardians \<and> (\<exists>sg \<in> set sigs. gs_public_key sg = g \<and> guardian_signed X dg sg))"
  using assms
proof (induction sigs arbitrary: seen n)
  case Nil
  then show ?case by (intro exI [of _ "[]"]) simp
next
  case (Cons sg sigs)
  let ?g = "gs_public_key sg"
  show ?case
  proof (cases "?g \<in> set guardians \<and> ?g \<notin> set seen \<and> guardian_signed X dg sg")
    case True
    with Cons.prems have "guardian_loop X guardians dg (seen @ [?g]) (n + 1) sigs = Inr m"
      by (auto simp: guardian_signed_def)
    from Cons.IH [OF this] obtain names where
      "m = n + 1 + length names" "distinct names" "set names \<inter> set (seen @ [?g]) = {}"
      "\<forall>g \<in> set names. g \<in> set guardians \<and> (\<exists>sg \<in> set sigs. gs_public_key sg = g \<and> guardian_signed X dg sg)"
      by blast
    with True show ?thesis by (intro exI [of _ "?g # names"]) auto
  next
    case False
    with Cons.prems have "guardian_loop X guardians dg seen n sigs = Inr m"
      by (auto simp: guardian_signed_def split: if_splits option.splits sum.splits)
    from Cons.IH [OF this] show ?thesis by fastforce
  qed
qed

lemma hex_to_bytes_encode:
  assumes "hash_ext_ok X"
  shows "hex_to_bytes X (hex_encode X b) = Some b"
proof -
  have "strip_0x (hex_encode X b) = hex_encode X b"
    using hex_encode_no_x [OF assms, of b] by (cases "hex_encode X b" rule: strip_0x.cases) auto
  then show ?thesis using assms by (simp add: hex_to_bytes_def hash_ext_ok_def)
qed

lemma sole_guardian:
  assumes "bridge_ext_ok X"
  shows "guardian_loop X [hex_encode X (ed_public X seed)] dg [] 0
    [\<lparr>gs_public_key = hex_encode X (ed_public X seed), gs_signature = hex_encode X (ed_sign X seed (hash_bytes dg))\<rparr>] = Inr 1"
  using identity_ext_okD [OF bridge_ext_okD(1) [OF assms]]
  by (simp add: hex_to_bytes_encode [OF bridge_ext_okD(3) [OF assms]] verify_bytes_def)

section \<open>What each command does\<close>

lemma bridge_register_Ok:
  assumes "bridge_ext_ok X"
  shows "bridge_register X cmd chain guardians quorum s = (Ok out, s') \<longleftrightarrow>
    quorum \<noteq> 0 \<and> quorum \<le> length guardians \<and> (\<forall>c. config_of X s chain = Some c \<longrightarrow> bc_admin c = cmd_submitter cmd) \<and>
    s' = put_config X chain \<lparr>bc_chain = chain, bc_guardians = guardians, bc_quorum = quorum, bc_admin = cmd_submitter cmd\<rparr> s \<and>
    out = single_output (bridge_emit X cmd (BeChainRegistered chain (length guardians) quorum)) 5000"
  unfolding bridge_register_def config_of_def [symmetric]
  by (cases "config_of X s chain") (auto simp: ok_iffs bridge_runs [OF assms])

lemma bridge_send_Ok:
  assumes "bridge_ext_ok X" and "bridge_send X cmd chain recipient tid amount s = (Ok out, s')"
  shows "amount \<le> balance X s tid (cmd_submitter cmd) \<and>
    (\<exists>n. s' = put_out_seq X chain n (put_balance X tid (cmd_submitter cmd) (balance X s tid (cmd_submitter cmd) - amount) s))"
  using assms(2) unfolding bridge_send_def Let_def
  by (auto simp: ok_iffs bridge_runs [OF assms(1)] bridge_balance bridge_set_balance_ok [OF assms(1)])

lemma verify_quorum_Ok:
  "verify_quorum X config dg sigs s = (Ok n, s') \<longleftrightarrow>
     s' = s \<and> guardian_loop X (bc_guardians config) dg [] 0 sigs = Inr n \<and> bc_quorum config \<le> n"
  by (auto simp: verify_quorum_def ok_iffs split: sum.splits)

lemma bridge_redeem_Ok:
  assumes "bridge_ext_ok X"
  shows "bridge_redeem X cmd t sigs s = (Ok out, s') \<longleftrightarrow>
    (\<exists>config n v. config_of X s (it_chain t) = Some config \<and> it_sequence t = in_seq X s (it_chain t) \<and>
       guardian_loop X (bc_guardians config) (inbound_digest X t) [] 0 sigs = Inr n \<and> bc_quorum config \<le> n \<and>
       checked_add (balance X s (it_token_id t) (it_recipient t)) (it_amount t) = Some v \<and>
       s' = put_in_seq X (it_chain t) (it_sequence t + 1) (put_balance X (it_token_id t) (it_recipient t) v s) \<and>
       out = single_output (bridge_emit X cmd
         (BeInboundRedeemed (it_chain t) (it_sequence t) (it_recipient t) (it_token_id t) (it_amount t) n)) 8000)"
  unfolding bridge_redeem_def in_seq_def [symmetric]
  by (auto simp: ok_iffs bridge_runs [OF assms] bridge_balance bridge_set_balance_ok [OF assms] verify_quorum_Ok)

lemma load_config_state: "load_config X a s = (r, s1) \<Longrightarrow> s1 = s"
  by (auto simp: load_config_def get_json_or_run split: sum.splits option.splits)

lemma verify_quorum_state: "verify_quorum X config dg sigs s = (r, s1) \<Longrightarrow> s1 = s"
  by (auto simp: verify_quorum_def split: sum.splits if_splits)

lemma bridge_error_unchanged:
  assumes "bridge_ext_ok X" and "bridge_dispatch X cmd c s = (r, s')" and "\<And>out. r \<noteq> Ok out"
  shows "s' = s"
  using assms(2,3)
  by (cases c) (auto simp: bridge_dispatch_def bridge_register_def bridge_send_def bridge_redeem_def Let_def andthen_def
      bridge_runs [OF assms(1)] bridge_set_balance_ok [OF assms(1)] dest!: load_config_state verify_quorum_state
      split: outcome.splits prod.splits if_splits option.splits)

section \<open>Later states\<close>

text \<open>
  What may happen after a command: further commands of the bridge, whatever their outcome, and writes of other prisms to other
  cells, as long as no chain has used up its \<open>2\<^sup>6\<^sup>4\<close> inbound sequence numbers.
\<close>

inductive bridge_later :: "'x bridge_ext_scheme \<Rightarrow> state_tree \<Rightarrow> state_tree \<Rightarrow> bool" for X s where
  br_now: "bridge_later X s s"
| br_step: "bridge_later X s s1 \<Longrightarrow> \<forall>chain. in_seq X s1 chain \<noteq> - 1 \<Longrightarrow> bridge_dispatch X cmd c s1 = (r, s2) \<Longrightarrow> bridge_later X s s2"
| br_other: "bridge_later X s s1 \<Longrightarrow> (\<And>k. prefix ''bridge/'' k \<Longrightarrow> st_get s2 k = st_get s1 k) \<Longrightarrow> bridge_later X s s2"

lemma in_seq_step:
  assumes "bridge_ext_ok X" and "\<forall>chain. in_seq X s chain \<noteq> - 1" and "bridge_dispatch X cmd c s = (r, s')"
  shows "in_seq X s chain \<le> in_seq X s' chain"
proof (cases "\<exists>out. r = Ok out")
  case True
  then show ?thesis
    using assms word_succ(2) [of "in_seq X s chain"]
    by (cases c) (auto simp: bridge_dispatch_def bridge_register_Ok bridge_redeem_Ok table_cells
        dest!: bridge_send_Ok [OF assms(1)])
next
  case False
  then show ?thesis using bridge_error_unchanged [OF assms(1,3)] by fastforce
qed

lemma in_seq_later:
  assumes "bridge_ext_ok X" and "bridge_later X s s'"
  shows "in_seq X s chain \<le> in_seq X s' chain"
  using assms(2)
proof induction
  case (br_step s1 cmd c r s2)
  then show ?case using in_seq_step [OF assms(1), of s1 cmd c r s2 chain] by (auto intro: order_trans)
next
  case (br_other s1 s2)
  have "in_seq X s2 chain = in_seq X s1 chain"
    unfolding in_seq_def read_sequence_def
    by (subst get_json_opt_cong [OF br_other.hyps(2)]) (simp_all add: seq_key_def)
  with br_other.IH show ?case by simp
qed simp

section \<open>The prism contract\<close>

lemma bridge_handle_frame:
  assumes "outside [''bridge/'', ''token/bal/''] k"
  shows "keeps (\<lambda>s. st_get s k = v) (bridge_handle X cmd)"
proof -
  have k: "config_key a \<noteq> k" "seq_key a \<noteq> k" "out_seq_key a \<noteq> k" "bridge_bal_key X i w \<noteq> k" for a i w
    using assms by (auto simp: outside_def config_key_def seq_key_def out_seq_key_def bridge_bal_key_def)
  have "keeps (\<lambda>s. st_get s k = v) (verify_quorum X config dg sigs)" for config dg sigs
    unfolding verify_quorum_def by (auto intro!: keeps_intros split: sum.splits)
  then have "keeps (\<lambda>s. st_get s k = v) (bridge_dispatch X cmd c)" for c
    unfolding bridge_dispatch_def bridge_register_def bridge_send_def bridge_redeem_def load_config_def bridge_set_balance_def Let_def
    by (cases c) (auto intro!: keeps_intros simp: k split: option.splits)
  then show ?thesis
    unfolding bridge_handle_def by (intro keeps_intros)
qed

lemma bridge_handle_events:
  assumes "bridge_handle X cmd s = (Ok out, s')"
  shows "\<forall>e \<in> set (out_events out). event_of X ''bridge'' cmd e"
proof -
  obtain c s1 where "bridge_dispatch X cmd c s1 = (Ok out, s')"
    using assms by (auto simp: bridge_handle_def andthen_Ok_iff)
  then show ?thesis
    by (cases c) (auto simp: bridge_dispatch_def bridge_register_def bridge_send_def bridge_redeem_def Let_def ok_iffs single_output_def
        bridge_emit_def split: option.splits)
qed

interpretation bridge: prism_contract bridge_handle "''bridge''" "[''bridge/'', ''token/bal/'']"
  by unfold_locales (use bridge_handle_frame bridge_handle_events in \<open>blast+\<close>)

section \<open>A concrete instance of the parameters\<close>

definition chain_coder :: "foreign_chain coder" where
  "chain_coder = iso_coder (\<lambda>c. case c of Cosmos \<Rightarrow> 0 | Solana \<Rightarrow> 1 | Ethereum \<Rightarrow> 2 | CustomChain \<Rightarrow> 3)
     (\<lambda>n. if n = 0 then Cosmos else if n = 1 then Solana else if n = 2 then Ethereum else CustomChain) nat_coder"

definition bridge_config_coder :: "bridge_config coder" where
  "bridge_config_coder = iso_coder (\<lambda>c. (bc_chain c, bc_guardians c, bc_quorum c, bc_admin c))
     (\<lambda>(c, g, q, a). \<lparr>bc_chain = c, bc_guardians = g, bc_quorum = q, bc_admin = a\<rparr>)
     (pair_coder chain_coder (pair_coder (list_coder string_coder) (pair_coder nat_coder party_coder)))"

definition inbound_coder :: "inbound_transfer coder" where
  "inbound_coder = iso_coder (\<lambda>t. (it_chain t, it_sequence t, it_foreign_sender t, it_recipient t, it_token_id t, it_amount t))
     (\<lambda>(c, n, f, r, i, a). \<lparr>it_chain = c, it_sequence = n, it_foreign_sender = f, it_recipient = r, it_token_id = i, it_amount = a\<rparr>)
     (pair_coder chain_coder (pair_coder word_coder (pair_coder string_coder (pair_coder party_coder (pair_coder hash_coder word_coder)))))"

definition guardian_sig_coder :: "guardian_signature coder" where
  "guardian_sig_coder = iso_coder (\<lambda>g. (gs_public_key g, gs_signature g)) (\<lambda>(p, s). \<lparr>gs_public_key = p, gs_signature = s\<rparr>)
     (pair_coder string_coder string_coder)"

definition bridge_command_coder :: "bridge_command coder" where
  "bridge_command_coder = iso_coder
     (\<lambda>c. case c of BcRegisterChain h g q \<Rightarrow> Inl (h, g, q) | BcSend h r i a \<Rightarrow> Inr (Inl (h, r, i, a)) | BcRedeem t g \<Rightarrow> Inr (Inr (t, g)))
     (\<lambda>z. case z of Inl (h, g, q) \<Rightarrow> BcRegisterChain h g q | Inr (Inl (h, r, i, a)) \<Rightarrow> BcSend h r i a | Inr (Inr (t, g)) \<Rightarrow> BcRedeem t g)
     (sum_coder (pair_coder chain_coder (pair_coder (list_coder string_coder) nat_coder))
       (sum_coder (pair_coder chain_coder (pair_coder string_coder (pair_coder hash_coder word_coder)))
         (pair_coder inbound_coder (list_coder guardian_sig_coder))))"

definition bridge_event_coder :: "bridge_event coder" where
  "bridge_event_coder = iso_coder
     (\<lambda>e. case e of BeChainRegistered h g q \<Rightarrow> Inl (h, g, q) | BeOutboundLocked n h r i a d \<Rightarrow> Inr (Inl (n, h, r, i, a, d))
      | BeInboundRedeemed h n p i a g \<Rightarrow> Inr (Inr (h, n, p, i, a, g)))
     (\<lambda>z. case z of Inl (h, g, q) \<Rightarrow> BeChainRegistered h g q | Inr (Inl (n, h, r, i, a, d)) \<Rightarrow> BeOutboundLocked n h r i a d
      | Inr (Inr (h, n, p, i, a, g)) \<Rightarrow> BeInboundRedeemed h n p i a g)
     (sum_coder (pair_coder chain_coder (pair_coder nat_coder nat_coder))
       (sum_coder (pair_coder word_coder (pair_coder chain_coder (pair_coder string_coder (pair_coder hash_coder (pair_coder word_coder hash_coder)))))
         (pair_coder chain_coder (pair_coder word_coder (pair_coder party_coder (pair_coder hash_coder (pair_coder word_coder nat_coder)))))))"

lemma bridge_part_coders_ok [coder_intros]: "coder_ok chain_coder"
  unfolding chain_coder_def by (intro coder_intros) (auto split: foreign_chain.splits)

lemma bridge_record_coders_ok [coder_intros]: "coder_ok bridge_config_coder" "coder_ok inbound_coder" "coder_ok guardian_sig_coder"
  unfolding bridge_config_coder_def inbound_coder_def guardian_sig_coder_def by (intro coder_intros; auto)+

lemma bridge_coders_ok [coder_intros]: "coder_ok bridge_command_coder" "coder_ok bridge_event_coder"
  unfolding bridge_command_coder_def bridge_event_coder_def
  by (intro coder_intros; auto split: bridge_command.splits bridge_event.splits)+

definition ref_bridge_ext :: bridge_ext where
  "ref_bridge_ext = identity_ext.extend ref_identity_ext
     (bridge_ext.fields (codec_of word_coder) (codec_of bridge_config_coder) (codec_of bridge_command_coder) (codec_of bridge_event_coder))"

lemma ref_bridge_ext_ok: "bridge_ext_ok ref_bridge_ext"
  using ref_identity_ext_ok
  by (simp add: bridge_ext_ok_def identity_ext_ok_def kernel_ext_ok_def hash_ext_ok_def ref_bridge_ext_def
      identity_ext.defs bridge_ext.defs codec_of_ok coder_intros)

section \<open>Properties\<close>

text \<open>
  Bridge redemptions need the guardians. A successful redemption carries the next inbound sequence number of its chain
  and valid signatures of at least the configured quorum of distinct guardians over the digest of exactly this transfer; it credits the
  recipient with the amount, advances the sequence and changes no other balance.
\<close>

theorem bridge_redeem_authorised:
  assumes "bridge_ext_ok X" and "bridge_redeem X cmd t sigs s = (Ok out, s')"
  shows "(\<exists>config names. config_of X s (it_chain t) = Some config \<and> distinct names \<and> bc_quorum config \<le> length names \<and>
      (\<forall>g \<in> set names. g \<in> set (bc_guardians config) \<and>
         (\<exists>sg \<in> set sigs. gs_public_key sg = g \<and> guardian_signed X (inbound_digest X t) sg))) \<and>
    it_sequence t = in_seq X s (it_chain t) \<and> in_seq X s' (it_chain t) = it_sequence t + 1 \<and>
    unat (balance X s' (it_token_id t) (it_recipient t)) = unat (balance X s (it_token_id t) (it_recipient t)) + unat (it_amount t) \<and>
    (\<forall>i w. (i, w) \<noteq> (it_token_id t, it_recipient t) \<longrightarrow> balance X s' i w = balance X s i w)"
proof -
  obtain config n v where r: "config_of X s (it_chain t) = Some config" "it_sequence t = in_seq X s (it_chain t)"
    "guardian_loop X (bc_guardians config) (inbound_digest X t) [] 0 sigs = Inr n" "bc_quorum config \<le> n"
    "checked_add (balance X s (it_token_id t) (it_recipient t)) (it_amount t) = Some v"
    "s' = put_in_seq X (it_chain t) (it_sequence t + 1) (put_balance X (it_token_id t) (it_recipient t) v s)"
    using assms(2) unfolding bridge_redeem_Ok [OF assms(1)] by blast
  obtain names where names: "n = 0 + length names" "distinct names"
    "\<forall>g \<in> set names. g \<in> set (bc_guardians config) \<and> (\<exists>sg \<in> set sigs. gs_public_key sg = g \<and> guardian_signed X (inbound_digest X t) sg)"
    using guardian_loop_spec [OF r(3)] by blast
  have "\<exists>config names. config_of X s (it_chain t) = Some config \<and> distinct names \<and> bc_quorum config \<le> length names \<and>
      (\<forall>g \<in> set names. g \<in> set (bc_guardians config) \<and>
         (\<exists>sg \<in> set sigs. gs_public_key sg = g \<and> guardian_signed X (inbound_digest X t) sg))"
    using r(1,4) names by auto
  moreover have "unat v = unat (balance X s (it_token_id t) (it_recipient t)) + unat (it_amount t)"
    using unat_checked_add [OF r(5)] .
  ultimately show ?thesis
    using r(2,6) assms(1) bridge_ext_okD(2) [OF assms(1)] by (auto simp: table_cells token_cells)
qed

text \<open>
  C29. A transfer is redeemed once. After a successful redemption of a transfer with a sequence number below the largest \<open>u64\<close>, no later state of the chain accepts a transfer with the
  same source chain and sequence number, whatever else it says and whoever signs it.
\<close>

theorem bridge_redeem_once:
  assumes "bridge_ext_ok X" and "bridge_redeem X cmd t sigs s = (Ok out, s1)" and "it_sequence t \<noteq> - 1"
    and "bridge_later X s1 s2" and "it_chain t' = it_chain t" and "it_sequence t' = it_sequence t"
  shows "\<not> (\<exists>out' s'. bridge_redeem X cmd' t' sigs' s2 = (Ok out', s'))"
proof
  assume "\<exists>out' s'. bridge_redeem X cmd' t' sigs' s2 = (Ok out', s')"
  then have "it_sequence t = in_seq X s2 (it_chain t)"
    using assms(5,6) unfolding bridge_redeem_Ok [OF assms(1)] by auto
  moreover have "in_seq X s1 (it_chain t) = it_sequence t + 1"
    using assms(1,2) unfolding bridge_redeem_Ok [OF assms(1)] by (auto simp: table_cells)
  ultimately show False
    using in_seq_later [OF assms(1,4), of "it_chain t"] word_succ(1) [OF assms(3)] by simp
qed

text \<open>
  The bridge mints unbacked tokens for anyone. On a chain nobody has registered, a party registers itself as
  the only guardian and redeems any amount of any token with its own signature: its balance and the circulating amount grow by the amount, and
  the token's record with its total supply is not touched.
\<close>

theorem bridge_mints_unbacked:
  assumes "bridge_ext_ok X" and "config_of X s chain = None"
    and "unat (balance X s tid (cmd_submitter cmd)) + unat amount < 2 ^ 128"
  shows "\<exists>guardians sigs out1 s1 out2 s2. bridge_register X cmd chain guardians 1 s = (Ok out1, s1) \<and>
    bridge_redeem X cmd \<lparr>it_chain = chain, it_sequence = in_seq X s chain, it_foreign_sender = [], it_recipient = cmd_submitter cmd,
      it_token_id = tid, it_amount = amount\<rparr> sigs s1 = (Ok out2, s2) \<and>
    unat (balance X s2 tid (cmd_submitter cmd)) = unat (balance X s tid (cmd_submitter cmd)) + unat amount \<and>
    circulating X s2 tid = circulating X s tid + unat amount \<and> st_get s2 (meta_key X tid) = st_get s (meta_key X tid)"
proof -
  note ok = bridge_ext_okD [OF assms(1)]
  let ?seed = "[] :: bytes" and ?me = "cmd_submitter cmd"
  let ?t = "\<lparr>it_chain = chain, it_sequence = in_seq X s chain, it_foreign_sender = [], it_recipient = ?me, it_token_id = tid,
    it_amount = amount\<rparr>"
  let ?g = "hex_encode X (ed_public X ?seed)" and ?dg = "inbound_digest X ?t"
  let ?sg = "\<lparr>gs_public_key = ?g, gs_signature = hex_encode X (ed_sign X ?seed (hash_bytes ?dg))\<rparr>"
  let ?c = "\<lparr>bc_chain = chain, bc_guardians = [?g], bc_quorum = 1, bc_admin = ?me\<rparr>"
  let ?s1 = "put_config X chain ?c s" and ?v = "balance X s tid ?me + amount"
  let ?s2 = "put_in_seq X chain (in_seq X s chain + 1) (put_balance X tid ?me ?v ?s1)"
  have reg: "bridge_register X cmd chain [?g] 1 s = (Ok (single_output (bridge_emit X cmd (BeChainRegistered chain 1 1)) 5000), ?s1)"
    using assms(2) by (simp add: bridge_register_Ok [OF assms(1)])
  have chk: "checked_add (balance X s tid ?me) amount = Some ?v" using assms(3) by (simp add: checked_add_def)
  have red: "\<exists>out. bridge_redeem X cmd ?t [?sg] ?s1 = (Ok out, ?s2)"
    using chk assms(1) sole_guardian [OF assms(1), of ?seed ?dg] by (simp add: bridge_redeem_Ok table_cells del: guardian_loop.simps)
  have "circulating X ?s2 tid = circulating X (put_balance X tid ?me ?v s) tid"
    using ok(2) by (intro arg_cong [where f = book_total]) (simp add: fun_eq_iff table_cells token_cells)
  also have "\<dots> = circulating X s tid + unat amount"
    using bal_wr [OF ok(2), of tid ?me ?v s] unat_checked_add [OF chk] by simp
  finally have "circulating X ?s2 tid = circulating X s tid + unat amount" .
  moreover have "unat (balance X ?s2 tid ?me) = unat (balance X s tid ?me) + unat amount"
    using unat_checked_add [OF chk] ok(2) by (simp add: table_cells token_cells)
  moreover have "st_get ?s2 (meta_key X tid) = st_get s (meta_key X tid)"
    by (simp add: put_in_seq_def put_config_def cell_gets put_u128_def seq_key_def config_key_def meta_key_def bal_key_def)
  ultimately show ?thesis using reg red by blast
qed

section \<open>A bridge with one guardian\<close>

definition guardian_key :: string where
  "guardian_key = hex_encode ref_bridge_ext (ed_public ref_bridge_ext [])"

definition solana_state :: state_tree where
  "solana_state = put_config ref_bridge_ext Solana
     \<lparr>bc_chain = Solana, bc_guardians = [guardian_key], bc_quorum = 1, bc_admin = PartyId ''alice''\<rparr> st_new"

definition solana_transfer :: inbound_transfer where
  "solana_transfer = \<lparr>it_chain = Solana, it_sequence = 0, it_foreign_sender = ''sol1'', it_recipient = PartyId ''bob'',
     it_token_id = ZERO, it_amount = 5\<rparr>"

definition solana_sig :: guardian_signature where
  "solana_sig = \<lparr>gs_public_key = guardian_key,
     gs_signature = hex_encode ref_bridge_ext (ed_sign ref_bridge_ext [] (hash_bytes (inbound_digest ref_bridge_ext solana_transfer)))\<rparr>"

lemma bridge_empty [simp]: "config_of X st_new c = None" "in_seq X st_new c = 0" "balance Y st_new i w = 0"
  by (simp_all add: config_of_def in_seq_def read_sequence_def balance_def read_u128_def)

lemma solana_redeem: "\<exists>out s'. bridge_redeem ref_bridge_ext demo_command solana_transfer [solana_sig] solana_state = (Ok out, s')"
proof -
  note ok = bridge_ext_okD [OF ref_bridge_ext_ok]
  have "guardian_loop ref_bridge_ext [guardian_key] (inbound_digest ref_bridge_ext solana_transfer) [] 0 [solana_sig] = Inr 1"
    using sole_guardian [OF ref_bridge_ext_ok] unfolding solana_sig_def guardian_key_def .
  then show ?thesis
    by (simp add: bridge_redeem_Ok [OF ref_bridge_ext_ok] solana_state_def table_cells ref_bridge_ext_ok del: guardian_loop.simps)
      (simp add: solana_transfer_def checked_add_def)
qed

theorem bridge_redeem_authorised_witness:
  "\<exists>out s'. bridge_redeem ref_bridge_ext demo_command solana_transfer [solana_sig] solana_state = (Ok out, s') \<and>
     in_seq ref_bridge_ext s' Solana = 1 \<and> unat (balance ref_bridge_ext s' ZERO (PartyId ''bob'')) = 5"
proof -
  obtain out s' where run: "bridge_redeem ref_bridge_ext demo_command solana_transfer [solana_sig] solana_state = (Ok out, s')"
    using solana_redeem by blast
  have "balance ref_bridge_ext solana_state ZERO (PartyId ''bob'') = 0" by (simp add: solana_state_def table_cells)
  then show ?thesis
    using run bridge_redeem_authorised [OF ref_bridge_ext_ok run] by (simp add: solana_transfer_def)
qed

theorem bridge_redeem_once_witness:
  "\<exists>out s1. bridge_redeem ref_bridge_ext demo_command solana_transfer [solana_sig] solana_state = (Ok out, s1) \<and>
     \<not> (\<exists>out' s'. bridge_redeem ref_bridge_ext demo_command solana_transfer [solana_sig] s1 = (Ok out', s'))"
proof -
  obtain out s1 where run: "bridge_redeem ref_bridge_ext demo_command solana_transfer [solana_sig] solana_state = (Ok out, s1)"
    using solana_redeem by blast
  have "it_sequence solana_transfer \<noteq> - 1" by (simp add: solana_transfer_def)
  then show ?thesis
    using run bridge_redeem_once [OF ref_bridge_ext_ok run _ br_now refl refl] by blast
qed

theorem bridge_mints_unbacked_witness:
  "\<exists>guardians sigs out1 s1 out2 s2. bridge_register ref_bridge_ext demo_command Cosmos guardians 1 st_new = (Ok out1, s1) \<and>
    bridge_redeem ref_bridge_ext demo_command \<lparr>it_chain = Cosmos, it_sequence = 0, it_foreign_sender = [],
      it_recipient = PartyId ''alice'', it_token_id = ZERO, it_amount = 1000\<rparr> sigs s1 = (Ok out2, s2) \<and>
    unat (balance ref_bridge_ext s2 ZERO (PartyId ''alice'')) = 1000"
  using bridge_mints_unbacked [OF ref_bridge_ext_ok, of st_new Cosmos ZERO demo_command 1000]
  by (simp add: demo_command_def) blast

end
