(* ===== verification/Nft.thy ===== *)
theory Nft
  imports Tables
begin

text \<open>
  \<open>prisms/nft/src/lib.rs\<close>: collections of non-fungible tokens with owners and approvals. The abstract specification at the end
  sees owners and approvals as maps.
\<close>

section \<open>Data\<close>

record nft_collection =
  nc_id :: hash
  nc_name :: string
  nc_symbol :: string
  nc_creator :: party_id
  nc_minted :: u64
  nc_max_supply :: "u64 option"

record nft_token =
  nt_collection_id :: hash
  nt_index :: u64
  nt_metadata_uri :: string
  nt_content_hash :: hash

datatype nft_command =
    NcCreateCollection string string "u64 option"
  | NcMint hash party_id string hash
  | NcTransfer hash u64 party_id
  | NcApprove hash u64 party_id
  | NcBurn hash u64

datatype nft_event =
    NeCollectionCreated hash string
  | NeMinted hash u64 party_id
  | NeTransfer hash u64 party_id party_id
  | NeApproval hash u64 party_id party_id
  | NeBurned hash u64

record nft_ext = kernel_ext +
  js_collection :: "nft_collection codec"
  js_nft_token :: "nft_token codec"
  js_party :: "party_id codec"
  js_nft_command :: "nft_command codec"
  js_nft_event :: "nft_event codec"

definition nft_ext_ok :: "'x nft_ext_scheme \<Rightarrow> bool" where
  "nft_ext_ok X \<longleftrightarrow> kernel_ext_ok X \<and> codec_ok (js_collection X) \<and> codec_ok (js_nft_token X) \<and> codec_ok (js_party X) \<and>
     codec_ok (js_nft_command X) \<and> codec_ok (js_nft_event X)"

section \<open>Operations\<close>

definition coll_key :: "'x kernel_ext_scheme \<Rightarrow> hash \<Rightarrow> string" where
  "coll_key X i = ''nft/coll/'' @ to_hex X i"

definition owner_key :: "'x kernel_ext_scheme \<Rightarrow> hash \<Rightarrow> u64 \<Rightarrow> string" where
  "owner_key X i n = ''nft/owner/'' @ to_hex X i @ ''/'' @ decimal (unat n)"

definition nft_meta_key :: "'x kernel_ext_scheme \<Rightarrow> hash \<Rightarrow> u64 \<Rightarrow> string" where
  "nft_meta_key X i n = ''nft/token/'' @ to_hex X i @ ''/'' @ decimal (unat n)"

definition approve_key :: "'x kernel_ext_scheme \<Rightarrow> hash \<Rightarrow> u64 \<Rightarrow> string" where
  "approve_key X i n = ''nft/approve/'' @ to_hex X i @ ''/'' @ decimal (unat n)"

definition load_collection :: "'x nft_ext_scheme \<Rightarrow> hash \<Rightarrow> (state_tree, prism_error, nft_collection) act" where
  "load_collection X i = get_json_or (js_collection X) (coll_key X i) (NotFound (''collection '' @ to_hex X i))"

definition owner_of :: "'x nft_ext_scheme \<Rightarrow> state_tree \<Rightarrow> hash \<Rightarrow> u64 \<Rightarrow> party_id option" where
  "owner_of X s i n = get_json_opt (js_party X) s (owner_key X i n)"

definition nft_emit :: "'x nft_ext_scheme \<Rightarrow> command \<Rightarrow> nft_event \<Rightarrow> event" where
  "nft_emit X cmd payload = emit X ''nft'' cmd (to_vec_or_default (js_nft_event X) payload)"

definition nft_create ::
  "'x nft_ext_scheme \<Rightarrow> command \<Rightarrow> string \<Rightarrow> string \<Rightarrow> u64 option \<Rightarrow> (state_tree, prism_error, prism_output) act" where
  "nft_create X cmd name symbol max_supply =
     (let i = commit X ''nft/coll-id'' [as_bytes (party_name (cmd_submitter cmd)), as_bytes symbol, as_bytes name] in
      andthen (gets (\<lambda>s. st_contains s (coll_key X i))) (\<lambda>exists.
      andthen (ensure (\<not> exists) (InvalidPayload ''collection exists'')) (\<lambda>_.
      andthen (put_json_internal (js_collection X) (coll_key X i)
        \<lparr>nc_id = i, nc_name = name, nc_symbol = symbol, nc_creator = cmd_submitter cmd, nc_minted = 0, nc_max_supply = max_supply\<rparr>) (\<lambda>_.
      ret (single_output (nft_emit X cmd (NeCollectionCreated i symbol)) 5000)))))"

definition nft_mint ::
  "'x nft_ext_scheme \<Rightarrow> command \<Rightarrow> hash \<Rightarrow> party_id \<Rightarrow> string \<Rightarrow> hash \<Rightarrow> (state_tree, prism_error, prism_output) act" where
  "nft_mint X cmd i to uri content =
     andthen (load_collection X i) (\<lambda>coll.
     andthen (ensure (\<not> nc_creator coll \<noteq> cmd_submitter cmd) (Unauthorized ''only creator can mint'')) (\<lambda>_.
     andthen (case nc_max_supply coll of
        None \<Rightarrow> ret ()
      | Some m \<Rightarrow> ensure (\<not> nc_minted coll \<ge> m) (LimitExceeded ''max supply reached'')) (\<lambda>_.
     let n = nc_minted coll in
     andthen (put_json_internal (js_nft_token X) (nft_meta_key X i n)
       \<lparr>nt_collection_id = i, nt_index = n, nt_metadata_uri = uri, nt_content_hash = content\<rparr>) (\<lambda>_.
     andthen (put_json_internal (js_party X) (owner_key X i n) to) (\<lambda>_.
     andthen (put_json_internal (js_collection X) (coll_key X i) (coll\<lparr>nc_minted := nc_minted coll + 1\<rparr>)) (\<lambda>_.
     ret (single_output (nft_emit X cmd (NeMinted i n to)) 3000)))))))"

definition nft_transfer ::
  "'x nft_ext_scheme \<Rightarrow> command \<Rightarrow> hash \<Rightarrow> u64 \<Rightarrow> party_id \<Rightarrow> (state_tree, prism_error, prism_output) act" where
  "nft_transfer X cmd i n to =
     andthen (gets (\<lambda>s. owner_of X s i n)) (\<lambda>r.
     andthen (of_option (NotFound ''token'') r) (\<lambda>owner.
     andthen (gets (\<lambda>s. get_json_opt (js_party X) s (approve_key X i n))) (\<lambda>approved.
     let caller = cmd_submitter cmd in
     andthen (ensure (\<not> (owner \<noteq> caller \<and> approved \<noteq> Some caller)) (Unauthorized ''not owner or approved'')) (\<lambda>_.
     andthen (put_json_internal (js_party X) (owner_key X i n) to) (\<lambda>_.
     andthen (modify (\<lambda>s. snd (st_remove (approve_key X i n) s))) (\<lambda>_.
     ret (single_output (nft_emit X cmd (NeTransfer i n owner to)) 1200)))))))"

definition nft_approve ::
  "'x nft_ext_scheme \<Rightarrow> command \<Rightarrow> hash \<Rightarrow> u64 \<Rightarrow> party_id \<Rightarrow> (state_tree, prism_error, prism_output) act" where
  "nft_approve X cmd i n spender =
     andthen (gets (\<lambda>s. owner_of X s i n)) (\<lambda>r.
     andthen (of_option (NotFound ''token'') r) (\<lambda>owner.
     andthen (ensure (\<not> owner \<noteq> cmd_submitter cmd) (Unauthorized ''only owner can approve'')) (\<lambda>_.
     andthen (put_json_internal (js_party X) (approve_key X i n) spender) (\<lambda>_.
     ret (single_output (nft_emit X cmd (NeApproval i n owner spender)) 800)))))"

definition nft_burn :: "'x nft_ext_scheme \<Rightarrow> command \<Rightarrow> hash \<Rightarrow> u64 \<Rightarrow> (state_tree, prism_error, prism_output) act" where
  "nft_burn X cmd i n =
     andthen (gets (\<lambda>s. owner_of X s i n)) (\<lambda>r.
     andthen (of_option (NotFound ''token'') r) (\<lambda>owner.
     andthen (ensure (\<not> owner \<noteq> cmd_submitter cmd) (Unauthorized ''only owner can burn'')) (\<lambda>_.
     andthen (modify (\<lambda>s. snd (st_remove (owner_key X i n) s))) (\<lambda>_.
     andthen (modify (\<lambda>s. snd (st_remove (nft_meta_key X i n) s))) (\<lambda>_.
     andthen (modify (\<lambda>s. snd (st_remove (approve_key X i n) s))) (\<lambda>_.
     ret (single_output (nft_emit X cmd (NeBurned i n)) 1000)))))))"

definition nft_dispatch ::
  "'x nft_ext_scheme \<Rightarrow> command \<Rightarrow> nft_command \<Rightarrow> (state_tree, prism_error, prism_output) act" where
  "nft_dispatch X cmd c = (case c of
      NcCreateCollection name symbol max_supply \<Rightarrow> nft_create X cmd name symbol max_supply
    | NcMint i to uri content \<Rightarrow> nft_mint X cmd i to uri content
    | NcTransfer i n to \<Rightarrow> nft_transfer X cmd i n to
    | NcApprove i n spender \<Rightarrow> nft_approve X cmd i n spender
    | NcBurn i n \<Rightarrow> nft_burn X cmd i n)"

definition nft_handle :: "'x nft_ext_scheme \<Rightarrow> handler" where
  "nft_handle X cmd =
     andthen (parse_payload (js_nft_command X) (cmd_payload cmd)) (nft_dispatch X cmd)"

definition nft_estimate :: "'x nft_ext_scheme \<Rightarrow> command \<Rightarrow> state_tree \<Rightarrow> u64" where
  "nft_estimate X cmd s =
     (case from_slice (js_nft_command X) (cmd_payload cmd) of
        Inr (NcCreateCollection _ _ _) \<Rightarrow> 5000
      | Inr (NcMint _ _ _ _) \<Rightarrow> 3000
      | Inr _ \<Rightarrow> 1200
      | Inl _ \<Rightarrow> 1000)"

definition nft_prism :: "'x nft_ext_scheme \<Rightarrow> prism" where
  "nft_prism X = \<lparr>pr_info = \<lparr>info_name = ''nft'',
       info_description = ''Non-fungible tokens: collections, mint, transfer, approve, burn'',
       info_version = ''1.0''\<rparr>,
     pr_handle = nft_handle X, pr_estimate = nft_estimate X\<rparr>"

definition create_collection_command ::
  "'x nft_ext_scheme \<Rightarrow> party_id \<Rightarrow> visibility \<Rightarrow> u64 \<Rightarrow> string \<Rightarrow> string \<Rightarrow> u64 option \<Rightarrow> command" where
  "create_collection_command X submitter vis nonce name symbol max_supply =
     \<lparr>cmd_prism = ''nft'', cmd_submitter = submitter, cmd_visibility = vis,
      cmd_payload = to_vec_or_default (js_nft_command X) (NcCreateCollection name symbol max_supply), cmd_nonce = nonce\<rparr>"

section \<open>Collections, tokens, owners and approvals in the state\<close>

definition collection_of :: "'x nft_ext_scheme \<Rightarrow> state_tree \<Rightarrow> hash \<Rightarrow> nft_collection option" where
  "collection_of X s i = get_json_opt (js_collection X) s (coll_key X i)"

definition token_of :: "'x nft_ext_scheme \<Rightarrow> state_tree \<Rightarrow> hash \<Rightarrow> u64 \<Rightarrow> nft_token option" where
  "token_of X s i n = get_json_opt (js_nft_token X) s (nft_meta_key X i n)"

definition approved_of :: "'x nft_ext_scheme \<Rightarrow> state_tree \<Rightarrow> hash \<Rightarrow> u64 \<Rightarrow> party_id option" where
  "approved_of X s i n = get_json_opt (js_party X) s (approve_key X i n)"

lemma nft_ext_okD:
  assumes "nft_ext_ok X"
  shows "kernel_ext_ok X" "hash_ext_ok X" "codec_ok (js_collection X)" "codec_ok (js_nft_token X)" "codec_ok (js_party X)"
    "codec_ok (js_nft_command X)"
  using assms by (simp_all add: nft_ext_ok_def kernel_ext_okD)

lemma nft_key_inj:
  assumes "hash_ext_ok X"
  shows "owner_key X i n = owner_key X j m \<longleftrightarrow> i = j \<and> n = m" "nft_meta_key X i n = nft_meta_key X j m \<longleftrightarrow> i = j \<and> n = m"
    "approve_key X i n = approve_key X j m \<longleftrightarrow> i = j \<and> n = m" "coll_key X i = coll_key X j \<longleftrightarrow> i = j"
  using hex_slash_split [OF assms, of i "decimal (unat n)" j "decimal (unat m)"]
  by (auto simp: owner_key_def nft_meta_key_def approve_key_def coll_key_def to_hex_inj [OF assms])

lemma nft_keys [simp]:
  "coll_key X i \<noteq> owner_key X j n" "coll_key X i \<noteq> nft_meta_key X j n" "coll_key X i \<noteq> approve_key X j n"
  "owner_key X j n \<noteq> coll_key X i" "owner_key X j n \<noteq> nft_meta_key X k m" "owner_key X j n \<noteq> approve_key X k m"
  "nft_meta_key X j n \<noteq> coll_key X i" "nft_meta_key X j n \<noteq> owner_key X k m" "nft_meta_key X j n \<noteq> approve_key X k m"
  "approve_key X j n \<noteq> coll_key X i" "approve_key X j n \<noteq> owner_key X k m" "approve_key X j n \<noteq> nft_meta_key X k m"
  by (simp_all add: coll_key_def owner_key_def nft_meta_key_def approve_key_def)

interpretation collections: json_table nft_ext_ok js_collection coll_key
  by unfold_locales (simp_all add: nft_ext_okD nft_key_inj)

interpretation tokens: json_table nft_ext_ok js_nft_token "\<lambda>X (i, n). nft_meta_key X i n"
  by unfold_locales (auto simp: nft_ext_okD nft_key_inj)

interpretation owners: json_table nft_ext_ok js_party "\<lambda>X (i, n). owner_key X i n"
  by unfold_locales (auto simp: nft_ext_okD nft_key_inj)

interpretation approvals: json_table nft_ext_ok js_party "\<lambda>X (i, n). approve_key X i n"
  by unfold_locales (auto simp: nft_ext_okD nft_key_inj)

definition put_collection :: "'x nft_ext_scheme \<Rightarrow> hash \<Rightarrow> nft_collection \<Rightarrow> state_tree \<Rightarrow> state_tree" where
  "put_collection X i = put_cell (js_collection X) (coll_key X i)"

definition put_token :: "'x nft_ext_scheme \<Rightarrow> hash \<Rightarrow> u64 \<Rightarrow> nft_token \<Rightarrow> state_tree \<Rightarrow> state_tree" where
  "put_token X i n = put_cell (js_nft_token X) (nft_meta_key X i n)"

definition put_owner :: "'x nft_ext_scheme \<Rightarrow> hash \<Rightarrow> u64 \<Rightarrow> party_id \<Rightarrow> state_tree \<Rightarrow> state_tree" where
  "put_owner X i n = put_cell (js_party X) (owner_key X i n)"

definition put_approved :: "'x nft_ext_scheme \<Rightarrow> hash \<Rightarrow> u64 \<Rightarrow> party_id \<Rightarrow> state_tree \<Rightarrow> state_tree" where
  "put_approved X i n = put_cell (js_party X) (approve_key X i n)"

named_theorems nft_cells \<open>reading NFT cells after writes\<close>

lemma collection_of_writes [nft_cells]:
  "nft_ext_ok X \<Longrightarrow> collection_of X (put_collection X i c s) j = (if i = j then Some c else collection_of X s j)"
  "collection_of X (put_token X i n t s) j = collection_of X s j"
  "collection_of X (put_owner X i n w s) j = collection_of X s j"
  "collection_of X (put_approved X i n w s) j = collection_of X s j"
  "collection_of X (del_cell (owner_key X i n) s) j = collection_of X s j"
  "collection_of X (del_cell (nft_meta_key X i n) s) j = collection_of X s j"
  "collection_of X (del_cell (approve_key X i n) s) j = collection_of X s j"
  by (simp_all add: collection_of_def put_collection_def put_token_def put_owner_def put_approved_def cell_frames collections.get_put)

lemma token_of_writes [nft_cells]:
  "token_of X (put_collection X i c s) j m = token_of X s j m"
  "nft_ext_ok X \<Longrightarrow> token_of X (put_token X i n t s) j m = (if i = j \<and> n = m then Some t else token_of X s j m)"
  "token_of X (put_owner X i n w s) j m = token_of X s j m"
  "token_of X (put_approved X i n w s) j m = token_of X s j m"
  "token_of X (del_cell (owner_key X i n) s) j m = token_of X s j m"
  "nft_ext_ok X \<Longrightarrow> token_of X (del_cell (nft_meta_key X i n) s) j m = (if i = j \<and> n = m then None else token_of X s j m)"
  "token_of X (del_cell (approve_key X i n) s) j m = token_of X s j m"
  using tokens.get_put [of X "(i, n)" t s "(j, m)"] tokens.get_del [of X "(i, n)" s "(j, m)"]
  by (simp_all add: token_of_def put_collection_def put_token_def put_owner_def put_approved_def cell_frames)

lemma owner_of_writes [nft_cells]:
  "owner_of X (put_collection X i c s) j m = owner_of X s j m"
  "owner_of X (put_token X i n t s) j m = owner_of X s j m"
  "nft_ext_ok X \<Longrightarrow> owner_of X (put_owner X i n w s) j m = (if i = j \<and> n = m then Some w else owner_of X s j m)"
  "owner_of X (put_approved X i n w s) j m = owner_of X s j m"
  "nft_ext_ok X \<Longrightarrow> owner_of X (del_cell (owner_key X i n) s) j m = (if i = j \<and> n = m then None else owner_of X s j m)"
  "owner_of X (del_cell (nft_meta_key X i n) s) j m = owner_of X s j m"
  "owner_of X (del_cell (approve_key X i n) s) j m = owner_of X s j m"
  using owners.get_put [of X "(i, n)" w s "(j, m)"] owners.get_del [of X "(i, n)" s "(j, m)"]
  by (simp_all add: owner_of_def put_collection_def put_token_def put_owner_def put_approved_def cell_frames)

lemma approved_of_writes [nft_cells]:
  "approved_of X (put_collection X i c s) j m = approved_of X s j m"
  "approved_of X (put_token X i n t s) j m = approved_of X s j m"
  "approved_of X (put_owner X i n w s) j m = approved_of X s j m"
  "nft_ext_ok X \<Longrightarrow> approved_of X (put_approved X i n w s) j m = (if i = j \<and> n = m then Some w else approved_of X s j m)"
  "approved_of X (del_cell (owner_key X i n) s) j m = approved_of X s j m"
  "approved_of X (del_cell (nft_meta_key X i n) s) j m = approved_of X s j m"
  "nft_ext_ok X \<Longrightarrow> approved_of X (del_cell (approve_key X i n) s) j m = (if i = j \<and> n = m then None else approved_of X s j m)"
  using approvals.get_put [of X "(i, n)" w s "(j, m)"] approvals.get_del [of X "(i, n)" s "(j, m)"]
  by (simp_all add: approved_of_def put_collection_def put_token_def put_owner_def put_approved_def cell_frames)

lemma nft_runs:
  assumes "nft_ext_ok X"
  shows "load_collection X i s = (Ok c, s1) \<longleftrightarrow> s1 = s \<and> collection_of X s i = Some c"
    and "put_json_internal (js_collection X) (coll_key X i) c = modify (put_collection X i c)"
    and "put_json_internal (js_nft_token X) (nft_meta_key X i n) t = modify (put_token X i n t)"
    and "put_json_internal (js_party X) (owner_key X i n) w = modify (put_owner X i n w)"
    and "put_json_internal (js_party X) (approve_key X i n) w = modify (put_approved X i n w)"
  using collections.run_put [OF assms] tokens.run_put [OF assms, of "(i, n)"] owners.run_put [OF assms, of "(i, n)"]
    approvals.run_put [OF assms, of "(i, n)"]
  by (simp_all add: load_collection_def get_json_or_Ok_iff collection_of_def put_collection_def [abs_def] put_token_def [abs_def]
      put_owner_def [abs_def] put_approved_def [abs_def])

section \<open>Specification: owners and approvals as maps\<close>

record nft_view =
  nv_owners :: "hash \<times> u64 \<Rightarrow> party_id option"
  nv_approved :: "hash \<times> u64 \<Rightarrow> party_id option"
  nv_collections :: "hash \<Rightarrow> (party_id \<times> u64 \<times> u64 option) option"

definition nft_abs :: "'x nft_ext_scheme \<Rightarrow> state_tree \<Rightarrow> nft_view" where
  "nft_abs X s = \<lparr>nv_owners = (\<lambda>(i, n). owner_of X s i n), nv_approved = (\<lambda>(i, n). approved_of X s i n),
     nv_collections = (\<lambda>i. map_option (\<lambda>c. (nc_creator c, nc_minted c, nc_max_supply c)) (collection_of X s i))\<rparr>"

text \<open>One command of \<open>who\<close> on the maps; \<open>None\<close> when it is refused. \<open>fresh\<close> is the identifier of a collection to be created.\<close>

definition nft_spec :: "hash \<Rightarrow> party_id \<Rightarrow> nft_command \<Rightarrow> nft_view \<Rightarrow> nft_view option" where
  "nft_spec fresh who c v = (case c of
      NcCreateCollection _ _ cap \<Rightarrow>
        if nv_collections v fresh = None then Some (v\<lparr>nv_collections := (nv_collections v)(fresh \<mapsto> (who, 0, cap))\<rparr>) else None
    | NcMint i to _ _ \<Rightarrow> (case nv_collections v i of
          None \<Rightarrow> None
        | Some (creator, k, cap) \<Rightarrow>
            if creator = who \<and> (\<forall>m. cap = Some m \<longrightarrow> k < m)
            then Some (v\<lparr>nv_owners := (nv_owners v)((i, k) \<mapsto> to), nv_collections := (nv_collections v)(i \<mapsto> (creator, k + 1, cap))\<rparr>)
            else None)
    | NcTransfer i n to \<Rightarrow> (case nv_owners v (i, n) of
          None \<Rightarrow> None
        | Some w \<Rightarrow>
            if w = who \<or> nv_approved v (i, n) = Some who
            then Some (v\<lparr>nv_owners := (nv_owners v)((i, n) \<mapsto> to), nv_approved := (nv_approved v)((i, n) := None)\<rparr>) else None)
    | NcApprove i n spender \<Rightarrow>
        if nv_owners v (i, n) = Some who then Some (v\<lparr>nv_approved := (nv_approved v)((i, n) \<mapsto> spender)\<rparr>) else None
    | NcBurn i n \<Rightarrow>
        if nv_owners v (i, n) = Some who
        then Some (v\<lparr>nv_owners := (nv_owners v)((i, n) := None), nv_approved := (nv_approved v)((i, n) := None)\<rparr>) else None)"

definition new_collection_id :: "'x nft_ext_scheme \<Rightarrow> command \<Rightarrow> nft_command \<Rightarrow> hash" where
  "new_collection_id X cmd c = (case c of
      NcCreateCollection name symbol _ \<Rightarrow>
        commit X ''nft/coll-id'' [as_bytes (party_name (cmd_submitter cmd)), as_bytes symbol, as_bytes name]
    | _ \<Rightarrow> ZERO)"

definition collections_readable :: "'x nft_ext_scheme \<Rightarrow> state_tree \<Rightarrow> bool" where
  "collections_readable X s \<longleftrightarrow> (\<forall>i. st_contains s (coll_key X i) \<longrightarrow> collection_of X s i \<noteq> None)"

lemma nft_remove: "snd (st_remove k s) = del_cell k s"
  by (simp add: del_cell_def)

lemma load_collection_run:
  assumes "collections_readable X s"
  shows "load_collection X i s = (case collection_of X s i of
      None \<Rightarrow> (Err (NotFound (''collection '' @ to_hex X i)), s) | Some c \<Rightarrow> (Ok c, s))"
  using assms
  by (auto simp: load_collection_def get_json_or_run collections_readable_def collection_of_def get_json_opt_def get_json_get
      st_contains_get split: sum.splits option.splits)

lemma readable_contains: "collections_readable X s \<Longrightarrow> st_contains s (coll_key X i) \<longleftrightarrow> collection_of X s i \<noteq> None"
  using get_json_opt_absent [of s "coll_key X i" "js_collection X"] unfolding collections_readable_def collection_of_def by metis

lemma nft_abs_eqI:
  assumes "\<And>i n. owner_of X s i n = nv_owners v (i, n)" and "\<And>i n. approved_of X s i n = nv_approved v (i, n)"
    and "\<And>i. map_option (\<lambda>c. (nc_creator c, nc_minted c, nc_max_supply c)) (collection_of X s i) = nv_collections v i"
  shows "nft_abs X s = v"
  using assms by (cases v) (auto simp: nft_abs_def fun_eq_iff)

lemma nft_abs_sel [simp]:
  "nv_owners (nft_abs X s) (i, n) = owner_of X s i n" "nv_approved (nft_abs X s) (i, n) = approved_of X s i n"
  "nv_collections (nft_abs X s) i = map_option (\<lambda>c. (nc_creator c, nc_minted c, nc_max_supply c)) (collection_of X s i)"
  by (simp_all add: nft_abs_def)

definition refines_step :: "'x nft_ext_scheme \<Rightarrow> nft_view option \<Rightarrow> state_tree \<Rightarrow> (prism_error, prism_output) outcome \<times> state_tree \<Rightarrow> bool" where
  "refines_step X v s r \<longleftrightarrow> (case v of
      None \<Rightarrow> (\<exists>e. r = (Err e, s))
    | Some w \<Rightarrow> (\<exists>out s'. r = (Ok out, s') \<and> nft_abs X s' = w))"

lemma nft_create_refines:
  assumes "nft_ext_ok X" and "collections_readable X s"
  shows "refines_step X (nft_spec (new_collection_id X cmd (NcCreateCollection name symbol cap)) (cmd_submitter cmd)
    (NcCreateCollection name symbol cap) (nft_abs X s)) s (nft_create X cmd name symbol cap s)"
  using assms
  by (auto simp: refines_step_def nft_spec_def new_collection_id_def nft_create_def Let_def readable_contains nft_runs nft_cells
      intro!: nft_abs_eqI)

lemma nft_mint_refines:
  assumes "nft_ext_ok X" and "collections_readable X s"
  shows "refines_step X (nft_spec fresh (cmd_submitter cmd) (NcMint i to uri content) (nft_abs X s)) s (nft_mint X cmd i to uri content s)"
proof (cases "collection_of X s i")
  case None
  then show ?thesis
    by (simp add: refines_step_def nft_spec_def nft_mint_def andthen_def load_collection_run [OF assms(2)])
next
  case (Some c)
  then show ?thesis
    using assms(1)
    by (cases "nc_max_supply c") (auto simp: refines_step_def nft_spec_def nft_mint_def andthen_simps load_collection_run [OF assms(2)] Let_def
        nft_runs nft_cells not_le intro!: nft_abs_eqI)
qed

lemma nft_token_refines:
  assumes "nft_ext_ok X"
  shows "refines_step X (nft_spec fresh (cmd_submitter cmd) (NcTransfer i n to) (nft_abs X s)) s (nft_transfer X cmd i n to s)"
    and "refines_step X (nft_spec fresh (cmd_submitter cmd) (NcApprove i n to) (nft_abs X s)) s (nft_approve X cmd i n to s)"
    and "refines_step X (nft_spec fresh (cmd_submitter cmd) (NcBurn i n) (nft_abs X s)) s (nft_burn X cmd i n s)"
  using assms
  by (cases "owner_of X s i n"; auto simp: refines_step_def nft_spec_def nft_transfer_def nft_approve_def nft_burn_def Let_def nft_runs
      nft_cells nft_remove approved_of_def [symmetric] intro!: nft_abs_eqI)+

lemma nft_step_refines:
  assumes "nft_ext_ok X" and "collections_readable X s"
  shows "refines_step X (nft_spec (new_collection_id X cmd c) (cmd_submitter cmd) c (nft_abs X s)) s (nft_dispatch X cmd c s)"
  using nft_create_refines [OF assms] nft_mint_refines [OF assms] nft_token_refines [OF assms(1)]
  by (cases c) (simp_all add: nft_dispatch_def)

lemma nft_spec_consent:
  assumes "nft_spec fresh who c v = Some v'" and "\<forall>i p k cap. nv_collections v i = Some (p, k, cap) \<longrightarrow> nv_owners v (i, k) = None"
  shows "nv_owners v t = Some w \<Longrightarrow> nv_owners v' t \<noteq> Some w \<Longrightarrow> w = who \<or> nv_approved v t = Some who"
    and "nv_approved v' t = Some p \<Longrightarrow> nv_approved v t \<noteq> Some p \<Longrightarrow> nv_owners v t = Some who"
  using assms by (cases c; auto simp: nft_spec_def split: option.splits if_splits prod.splits)+

section \<open>The invariant\<close>

definition nft_ok :: "'x nft_ext_scheme \<Rightarrow> state_tree \<Rightarrow> bool" where
  "nft_ok X s \<longleftrightarrow> collections_readable X s \<and>
     (\<forall>i c m. collection_of X s i = Some c \<and> nc_max_supply c = Some m \<longrightarrow> nc_minted c \<le> m) \<and>
     (\<forall>i n. owner_of X s i n \<noteq> None \<longrightarrow> (\<exists>c. collection_of X s i = Some c \<and> n < nc_minted c)) \<and>
     (\<forall>i n. approved_of X s i n \<noteq> None \<longrightarrow> owner_of X s i n \<noteq> None) \<and>
     (\<forall>i n. token_of X s i n \<noteq> None \<longleftrightarrow> owner_of X s i n \<noteq> None)"

text \<open>An open-ended collection has not used up its \<open>2\<^sup>6\<^sup>4\<close> indices.\<close>

definition nft_headroom :: "'x nft_ext_scheme \<Rightarrow> state_tree \<Rightarrow> bool" where
  "nft_headroom X s \<longleftrightarrow> (\<forall>i c. collection_of X s i = Some c \<longrightarrow> nc_minted c \<noteq> - 1)"

lemma readable_writes:
  assumes "nft_ext_ok X" and "collections_readable X s"
  shows "collections_readable X (put_collection X i c s)" "collections_readable X (put_token X i n t s)"
    "collections_readable X (put_owner X i n w s)" "collections_readable X (put_approved X i n w s)"
    "collections_readable X (del_cell (owner_key X i n) s)" "collections_readable X (del_cell (nft_meta_key X i n) s)"
    "collections_readable X (del_cell (approve_key X i n) s)"
  using assms unfolding collections_readable_def
  by (auto simp: nft_cells) (auto simp: put_collection_def put_token_def put_owner_def put_approved_def cell_contains nft_key_inj nft_ext_okD)

lemma nft_create_Ok:
  assumes "nft_ext_ok X" and "nft_create X cmd name symbol cap s = (Ok out, s')"
  obtains i where "\<not> st_contains s (coll_key X i)" "s' = put_collection X i \<lparr>nc_id = i, nc_name = name, nc_symbol = symbol,
    nc_creator = cmd_submitter cmd, nc_minted = 0, nc_max_supply = cap\<rparr> s"
proof -
  let ?i = "commit X ''nft/coll-id'' [as_bytes (party_name (cmd_submitter cmd)), as_bytes symbol, as_bytes name]"
  show thesis
    by (rule that [of ?i]) (use assms(2) in \<open>simp_all add: nft_create_def Let_def nft_runs [OF assms(1)] split: if_splits\<close>)
qed

lemma nft_mint_Ok:
  assumes "nft_ext_ok X"
  shows "nft_mint X cmd i to uri content s = (Ok out, s') \<longleftrightarrow> (\<exists>c. collection_of X s i = Some c \<and> nc_creator c = cmd_submitter cmd \<and>
    (\<forall>m. nc_max_supply c = Some m \<longrightarrow> nc_minted c < m) \<and>
    s' = put_collection X i (c\<lparr>nc_minted := nc_minted c + 1\<rparr>) (put_owner X i (nc_minted c) to (put_token X i (nc_minted c)
      \<lparr>nt_collection_id = i, nt_index = nc_minted c, nt_metadata_uri = uri, nt_content_hash = content\<rparr> s)) \<and>
    out = single_output (nft_emit X cmd (NeMinted i (nc_minted c) to)) 3000)"
  unfolding nft_mint_def Let_def
  by (auto simp: ok_iffs nft_runs [OF assms] not_le split: option.splits)

lemma nft_transfer_Ok:
  assumes "nft_ext_ok X" and "nft_transfer X cmd i n to s = (Ok out, s')"
  shows "\<exists>w. owner_of X s i n = Some w \<and> (w = cmd_submitter cmd \<or> approved_of X s i n = Some (cmd_submitter cmd)) \<and>
    s' = del_cell (approve_key X i n) (put_owner X i n to s)"
  using assms(2) unfolding nft_transfer_def Let_def
  by (auto simp: ok_iffs nft_runs [OF assms(1)] nft_remove approved_of_def)

lemma nft_approve_Ok:
  assumes "nft_ext_ok X" and "nft_approve X cmd i n spender s = (Ok out, s')"
  shows "owner_of X s i n = Some (cmd_submitter cmd) \<and> s' = put_approved X i n spender s"
  using assms(2) unfolding nft_approve_def by (auto simp: ok_iffs nft_runs [OF assms(1)])

lemma nft_burn_Ok:
  assumes "nft_ext_ok X" and "nft_burn X cmd i n s = (Ok out, s')"
  shows "owner_of X s i n = Some (cmd_submitter cmd) \<and>
    s' = del_cell (approve_key X i n) (del_cell (nft_meta_key X i n) (del_cell (owner_key X i n) s))"
  using assms(2) unfolding nft_burn_def by (auto simp: ok_iffs nft_remove)

lemma nft_okD:
  assumes "nft_ok X s"
  shows "collections_readable X s" "collection_of X s i = Some c \<Longrightarrow> nc_max_supply c = Some m \<Longrightarrow> nc_minted c \<le> m"
    "owner_of X s i n = Some w \<Longrightarrow> \<exists>c. collection_of X s i = Some c \<and> n < nc_minted c"
    "approved_of X s i n = Some w \<Longrightarrow> owner_of X s i n \<noteq> None"
    "token_of X s i n \<noteq> None \<longleftrightarrow> owner_of X s i n \<noteq> None"
  using assms unfolding nft_ok_def by blast+

lemma nft_create_ok:
  assumes "nft_ext_ok X" and "nft_ok X s" and "nft_create X cmd name symbol cap s = (Ok out, s')"
  shows "nft_ok X s'"
proof -
  obtain i where i: "\<not> st_contains s (coll_key X i)" "s' = put_collection X i \<lparr>nc_id = i, nc_name = name, nc_symbol = symbol,
    nc_creator = cmd_submitter cmd, nc_minted = 0, nc_max_supply = cap\<rparr> s"
    using nft_create_Ok [OF assms(1,3)] by blast
  have none: "collection_of X s i = None" using i(1) by (simp add: collection_of_def get_json_opt_absent)
  note d = nft_okD [OF assms(2)]
  have "owner_of X s i n = None" for n using d(3) [of i n] none by (cases "owner_of X s i n") auto
  then show ?thesis
    using assms(1) d readable_writes(1) [OF assms(1) d(1)] unfolding nft_ok_def i(2)
    by (auto simp: nft_cells)
qed

lemma nft_mint_ok:
  assumes "nft_ext_ok X" and "nft_ok X s" and "nft_headroom X s" and "nft_mint X cmd i to uri content s = (Ok out, s')"
  shows "nft_ok X s'"
proof -
  obtain c t where c: "collection_of X s i = Some c" "\<forall>m. nc_max_supply c = Some m \<longrightarrow> nc_minted c < m"
    "s' = put_collection X i (c\<lparr>nc_minted := nc_minted c + 1\<rparr>) (put_owner X i (nc_minted c) to (put_token X i (nc_minted c) t s))"
    using assms(4) unfolding nft_mint_Ok [OF assms(1)] by blast
  have up: "nc_minted c < nc_minted c + 1" using assms(3) c(1) unfolding nft_headroom_def by (metis word_succ(1))
  note d = nft_okD [OF assms(2)]
  have le: "nc_minted c + 1 \<le> m" if "nc_max_supply c = Some m" for m
    using c(2) that up unat_succ [of "nc_minted c"] assms(3) c(1)
    unfolding nft_headroom_def word_le_nat_alt word_less_nat_alt by (metis Suc_leI)
  have old: "n < nc_minted c + 1" if "owner_of X s i n = Some w" for n w
    using d(3) [OF that] c(1) up by (auto intro: less_trans)
  show ?thesis
    using assms(1) d readable_writes [OF assms(1)] up le old unfolding nft_ok_def c(3)
    by (auto simp: nft_cells)
qed

lemma nft_other_ok:
  assumes "nft_ext_ok X" and "nft_ok X s"
  shows "nft_transfer X cmd i n to s = (Ok out, s') \<Longrightarrow> nft_ok X s'"
    and "nft_approve X cmd i n to s = (Ok out, s') \<Longrightarrow> nft_ok X s'"
    and "nft_burn X cmd i n s = (Ok out, s') \<Longrightarrow> nft_ok X s'"
proof -
  note w = readable_writes [OF assms(1)]
  show "nft_ok X s'" if "nft_transfer X cmd i n to s = (Ok out, s')"
    using nft_transfer_Ok [OF assms(1) that] assms w unfolding nft_ok_def
    by (auto simp: nft_cells split: if_splits; blast)
  show "nft_ok X s'" if "nft_approve X cmd i n to s = (Ok out, s')"
    using nft_approve_Ok [OF assms(1) that] assms w unfolding nft_ok_def
    by (auto simp: nft_cells split: if_splits; blast)
  show "nft_ok X s'" if "nft_burn X cmd i n s = (Ok out, s')"
    using nft_burn_Ok [OF assms(1) that] assms w unfolding nft_ok_def
    by (auto simp: nft_cells split: if_splits; blast)
qed

lemma nft_step_ok:
  assumes "nft_ext_ok X" and "nft_ok X s" and "nft_headroom X s" and "nft_dispatch X cmd c s = (r, s')"
  shows "nft_ok X s'"
proof (cases "\<exists>out. r = Ok out")
  case True
  then show ?thesis
    using assms nft_create_ok [OF assms(1,2)] nft_mint_ok [OF assms(1-3)] nft_other_ok [OF assms(1,2)]
    by (cases c) (auto simp: nft_dispatch_def)
next
  case False
  then show ?thesis
    using nft_step_refines [OF assms(1) nft_okD(1) [OF assms(2)], of cmd c] assms(2,4)
    by (auto simp: refines_step_def split: option.splits)
qed

section \<open>The prism contract\<close>

lemma nft_handle_frame:
  assumes "outside [''nft/''] k"
  shows "keeps (\<lambda>s. st_get s k = v) (nft_handle X cmd)"
proof -
  have k: "coll_key X a \<noteq> k" "owner_key X a n \<noteq> k" "nft_meta_key X a n \<noteq> k" "approve_key X a n \<noteq> k" for a n
    using assms by (auto simp: outside_def coll_key_def owner_key_def nft_meta_key_def approve_key_def)
  have "keeps (\<lambda>s. st_get s k = v) (nft_dispatch X cmd c)" for c
    unfolding nft_dispatch_def nft_create_def nft_mint_def nft_transfer_def nft_approve_def nft_burn_def load_collection_def Let_def
    by (cases c) (auto intro!: keeps_intros simp: k split: option.splits)
  then show ?thesis
    unfolding nft_handle_def by (intro keeps_intros)
qed

lemma nft_handle_events:
  assumes "nft_handle X cmd s = (Ok out, s')"
  shows "\<forall>e \<in> set (out_events out). event_of X ''nft'' cmd e"
proof -
  obtain c s1 where "nft_dispatch X cmd c s1 = (Ok out, s')"
    using assms by (auto simp: nft_handle_def andthen_Ok_iff)
  then show ?thesis
    by (cases c) (auto simp: nft_dispatch_def nft_create_def nft_mint_def nft_transfer_def nft_approve_def nft_burn_def Let_def ok_iffs
        single_output_def nft_emit_def split: option.splits)
qed

interpretation nft: prism_contract nft_handle "''nft''" "[''nft/'']"
  by unfold_locales (use nft_handle_frame nft_handle_events in \<open>blast+\<close>)

section \<open>A concrete instance of the parameters\<close>

definition collection_coder :: "nft_collection coder" where
  "collection_coder = iso_coder (\<lambda>c. (nc_id c, nc_name c, nc_symbol c, nc_creator c, nc_minted c, nc_max_supply c))
     (\<lambda>(i, n, y, p, k, m). \<lparr>nc_id = i, nc_name = n, nc_symbol = y, nc_creator = p, nc_minted = k, nc_max_supply = m\<rparr>)
     (pair_coder hash_coder (pair_coder string_coder (pair_coder string_coder (pair_coder party_coder
       (pair_coder word_coder (option_coder word_coder))))))"

definition nft_token_coder :: "nft_token coder" where
  "nft_token_coder = iso_coder (\<lambda>t. (nt_collection_id t, nt_index t, nt_metadata_uri t, nt_content_hash t))
     (\<lambda>(i, n, u, h). \<lparr>nt_collection_id = i, nt_index = n, nt_metadata_uri = u, nt_content_hash = h\<rparr>)
     (pair_coder hash_coder (pair_coder word_coder (pair_coder string_coder hash_coder)))"

definition nft_command_coder :: "nft_command coder" where
  "nft_command_coder = iso_coder
     (\<lambda>c. case c of NcCreateCollection n y m \<Rightarrow> Inl (n, y, m) | NcMint i t u h \<Rightarrow> Inr (Inl (i, t, u, h))
      | NcTransfer i n t \<Rightarrow> Inr (Inr (Inl (i, n, t))) | NcApprove i n t \<Rightarrow> Inr (Inr (Inr (Inl (i, n, t)))) | NcBurn i n \<Rightarrow> Inr (Inr (Inr (Inr (i, n)))))
     (\<lambda>z. case z of Inl (n, y, m) \<Rightarrow> NcCreateCollection n y m | Inr (Inl (i, t, u, h)) \<Rightarrow> NcMint i t u h
      | Inr (Inr (Inl (i, n, t))) \<Rightarrow> NcTransfer i n t | Inr (Inr (Inr (Inl (i, n, t)))) \<Rightarrow> NcApprove i n t | Inr (Inr (Inr (Inr (i, n)))) \<Rightarrow> NcBurn i n)
     (sum_coder (pair_coder string_coder (pair_coder string_coder (option_coder word_coder)))
       (sum_coder (pair_coder hash_coder (pair_coder party_coder (pair_coder string_coder hash_coder)))
         (sum_coder (pair_coder hash_coder (pair_coder word_coder party_coder))
           (sum_coder (pair_coder hash_coder (pair_coder word_coder party_coder)) (pair_coder hash_coder word_coder)))))"

definition nft_event_coder :: "nft_event coder" where
  "nft_event_coder = iso_coder
     (\<lambda>e. case e of NeCollectionCreated i y \<Rightarrow> Inl (i, y) | NeMinted i n t \<Rightarrow> Inr (Inl (i, n, t))
      | NeTransfer i n f t \<Rightarrow> Inr (Inr (Inl (i, n, f, t))) | NeApproval i n f t \<Rightarrow> Inr (Inr (Inr (Inl (i, n, f, t)))) | NeBurned i n \<Rightarrow> Inr (Inr (Inr (Inr (i, n)))))
     (\<lambda>z. case z of Inl (i, y) \<Rightarrow> NeCollectionCreated i y | Inr (Inl (i, n, t)) \<Rightarrow> NeMinted i n t
      | Inr (Inr (Inl (i, n, f, t))) \<Rightarrow> NeTransfer i n f t | Inr (Inr (Inr (Inl (i, n, f, t)))) \<Rightarrow> NeApproval i n f t | Inr (Inr (Inr (Inr (i, n)))) \<Rightarrow> NeBurned i n)
     (sum_coder (pair_coder hash_coder string_coder) (sum_coder (pair_coder hash_coder (pair_coder word_coder party_coder))
       (sum_coder (pair_coder hash_coder (pair_coder word_coder (pair_coder party_coder party_coder)))
         (sum_coder (pair_coder hash_coder (pair_coder word_coder (pair_coder party_coder party_coder))) (pair_coder hash_coder word_coder)))))"

lemma nft_coders_ok [coder_intros]: "coder_ok collection_coder" "coder_ok nft_token_coder" "coder_ok nft_command_coder" "coder_ok nft_event_coder"
  unfolding collection_coder_def nft_token_coder_def nft_command_coder_def nft_event_coder_def
  by (intro coder_intros; auto split: nft_command.splits nft_event.splits)+

definition ref_nft_ext :: nft_ext where
  "ref_nft_ext = kernel_ext.extend ref_kernel_ext
     (nft_ext.fields (codec_of collection_coder) (codec_of nft_token_coder) (codec_of party_coder) (codec_of nft_command_coder)
       (codec_of nft_event_coder))"

lemma ref_nft_ext_ok: "nft_ext_ok ref_nft_ext"
  using ref_kernel_ext_ok
  by (simp add: nft_ext_ok_def kernel_ext_ok_def hash_ext_ok_def ref_nft_ext_def
      kernel_ext.defs nft_ext.defs codec_of_ok coder_intros)

lemma nft_empty:
  "owner_of X st_new i n = None" "approved_of X st_new i n = None" "token_of X st_new i n = None" "collection_of X st_new i = None"
  "collections_readable X st_new" "nft_ok X st_new" "nft_headroom X st_new"
  by (simp_all add: owner_of_def approved_of_def token_of_def collection_of_def collections_readable_def nft_ok_def nft_headroom_def
      st_contains_get)

section \<open>Properties\<close>

text \<open>
  C31. The NFT prism implements its specification on maps. On every readable state each command of the prism does what \<open>nft_spec\<close> says of the
  maps of owners, approvals and collections: it is accepted exactly when the specification accepts it, and then the maps afterwards are the
  specified ones; a refused command changes nothing.
\<close>

theorem nft_refines:
  assumes "nft_ext_ok X" and "collections_readable X s"
  shows "case nft_spec (new_collection_id X cmd c) (cmd_submitter cmd) c (nft_abs X s) of
      None \<Rightarrow> \<exists>e. nft_dispatch X cmd c s = (Err e, s)
    | Some v \<Rightarrow> \<exists>out s'. nft_dispatch X cmd c s = (Ok out, s') \<and> nft_abs X s' = v"
  using nft_step_refines [OF assms, of cmd c] by (simp add: refines_step_def)

text \<open>
  Tokens stay within their collection and change hands by consent only. Every NFT command keeps the invariant that a
  collection never exceeds its cap, that an owned token has an index below the number minted, that a token has metadata exactly when it has an owner, and that only
  owned tokens carry an approval. The owner of a token changes only by a command of the owner or of the party he approved, and an
  approval appears only by a command of the owner.
\<close>

theorem nft_ownership:
  assumes "nft_ext_ok X" and "nft_ok X s" and "nft_headroom X s" and "nft_dispatch X cmd c s = (r, s')"
  shows "nft_ok X s' \<and>
    (\<forall>i n w. owner_of X s i n = Some w \<and> owner_of X s' i n \<noteq> Some w \<longrightarrow>
       w = cmd_submitter cmd \<or> approved_of X s i n = Some (cmd_submitter cmd)) \<and>
    (\<forall>i n p. approved_of X s' i n = Some p \<and> approved_of X s i n \<noteq> Some p \<longrightarrow> owner_of X s i n = Some (cmd_submitter cmd))"
proof (intro conjI allI impI)
  show "nft_ok X s'" using assms by (rule nft_step_ok)
  have fresh: "\<forall>i p k cap. nv_collections (nft_abs X s) i = Some (p, k, cap) \<longrightarrow> nv_owners (nft_abs X s) (i, k) = None"
  proof (intro allI impI)
    fix i p k cap assume "nv_collections (nft_abs X s) i = Some (p, k, cap)"
    then show "nv_owners (nft_abs X s) (i, k) = None"
      using nft_okD(3) [OF assms(2), of i k] by (cases "owner_of X s i k") auto
  qed
  have step: "s' = s \<or> nft_spec (new_collection_id X cmd c) (cmd_submitter cmd) c (nft_abs X s) = Some (nft_abs X s')"
    using nft_step_refines [OF assms(1) nft_okD(1) [OF assms(2)], of cmd c] assms(4)
    by (auto simp: refines_step_def split: option.splits)
  show "w = cmd_submitter cmd \<or> approved_of X s i n = Some (cmd_submitter cmd)"
    if "owner_of X s i n = Some w \<and> owner_of X s' i n \<noteq> Some w" for i n w
    using step nft_spec_consent(1) [OF _ fresh, where t = "(i, n)" and w = w and v' = "nft_abs X s'"] that by auto
  show "owner_of X s i n = Some (cmd_submitter cmd)"
    if "approved_of X s' i n = Some p \<and> approved_of X s i n \<noteq> Some p" for i n p
    using step nft_spec_consent(2) [OF _ fresh, where t = "(i, n)" and p = p and v' = "nft_abs X s'"] that by auto
qed

definition art_state :: state_tree where
  "art_state = put_collection ref_nft_ext ZERO \<lparr>nc_id = ZERO, nc_name = ''Art'', nc_symbol = ''ART'', nc_creator = PartyId ''alice'',
     nc_minted = 0, nc_max_supply = Some 1\<rparr> st_new"

lemma art_state_ok: "nft_ok ref_nft_ext art_state" "nft_headroom ref_nft_ext art_state"
  using readable_writes(1) [OF ref_nft_ext_ok nft_empty(5)]
  by (auto simp: nft_ok_def nft_headroom_def art_state_def nft_cells ref_nft_ext_ok nft_empty split: if_splits)

theorem nft_refines_witness:
  "\<exists>out s'. nft_dispatch ref_nft_ext demo_command (NcMint ZERO (PartyId ''bob'') ''ipfs'' ZERO) art_state = (Ok out, s') \<and>
     nv_owners (nft_abs ref_nft_ext s') = [(ZERO, 0) \<mapsto> PartyId ''bob'']"
proof -
  let ?X = ref_nft_ext and ?c = "NcMint ZERO (PartyId ''bob'') ''ipfs'' ZERO"
  have v: "nv_owners (nft_abs ?X art_state) = Map.empty"
    by (simp add: fun_eq_iff nft_abs_def art_state_def nft_cells nft_empty)
  have spec: "nft_spec (new_collection_id ?X demo_command ?c) (cmd_submitter demo_command) ?c (nft_abs ?X art_state) =
      Some ((nft_abs ?X art_state)\<lparr>nv_owners := [(ZERO, 0) \<mapsto> PartyId ''bob''],
        nv_collections := (nv_collections (nft_abs ?X art_state))(ZERO \<mapsto> (PartyId ''alice'', 1, Some 1))\<rparr>)"
    unfolding nft_spec_def v [symmetric]
    by (simp add: art_state_def nft_cells ref_nft_ext_ok demo_command_def)
  show ?thesis
    using nft_refines [OF ref_nft_ext_ok nft_okD(1) [OF art_state_ok(1)], of demo_command ?c] unfolding spec
    by (auto simp: v)
qed

theorem nft_ownership_witness:
  "nft_ok ref_nft_ext art_state \<and>
   nft_ok ref_nft_ext (snd (nft_dispatch ref_nft_ext demo_command (NcMint ZERO (PartyId ''bob'') ''ipfs'' ZERO) art_state))"
proof -
  obtain r s' where run: "nft_dispatch ref_nft_ext demo_command (NcMint ZERO (PartyId ''bob'') ''ipfs'' ZERO) art_state = (r, s')"
    by force
  show ?thesis using nft_ownership [OF ref_nft_ext_ok art_state_ok run] art_state_ok(1) by (simp add: run)
qed

end
