(* ===== verification/Name_Service.thy ===== *)
theory Name_Service
  imports Tables
begin

text \<open>
  \<open>prisms/name/src/lib.rs\<close>: names below \<open>.veil\<close> that resolve to parties, with expiry, text records and a reverse index from
  parties to names. The chain time is read from the state cell \<open>chain/now\<close>.
\<close>

section \<open>Text\<close>

text \<open>The UTF-8 encodings of the characters \<open>str::trim\<close> removes (Unicode \<open>White_Space\<close>).\<close>

definition white_space :: "string list" where
  "white_space = map (map char_of)
     ([[9], [10], [11], [12], [13], [32], [0xC2, 0x85], [0xC2, 0xA0], [0xE1, 0x9A, 0x80]] @
      map (\<lambda>b. [0xE2, 0x80, b]) [0x80, 0x81, 0x82, 0x83, 0x84, 0x85, 0x86, 0x87, 0x88, 0x89, 0x8A, 0xA8, 0xA9, 0xAF] @
      [[0xE2, 0x81, 0x9F], [0xE3, 0x80, 0x80]] :: nat list list)"

text \<open>Remove any of the given texts from the front as long as one is there.\<close>

function strip_front :: "string list \<Rightarrow> string \<Rightarrow> string" where
  "strip_front ws s =
     (case find (\<lambda>w. w \<noteq> [] \<and> prefix w s) ws of None \<Rightarrow> s | Some w \<Rightarrow> strip_front ws (drop (length w) s))"
  by pat_completeness auto
termination
proof (relation "measure (\<lambda>(ws, s). length s)")
  fix ws :: "string list" and s w assume "find (\<lambda>w. w \<noteq> [] \<and> prefix w s) ws = Some w"
  then have "w \<noteq> []" "prefix w s" by (auto simp: find_Some_iff)
  then show "((ws, drop (length w) s), (ws, s)) \<in> measure (\<lambda>(ws, s). length s)"
    by (cases s) auto
qed simp

declare strip_front.simps [simp del]

text \<open>From the other end the same characters are met with their bytes reversed.\<close>

definition str_trim :: "string \<Rightarrow> string" where
  "str_trim s = rev (strip_front (map rev white_space) (rev (strip_front white_space s)))"

definition to_ascii_lowercase :: "string \<Rightarrow> string" where
  "to_ascii_lowercase = map (\<lambda>c. let n = (of_char c :: nat) in if 65 \<le> n \<and> n \<le> 90 then char_of (n + 32) else c)"

definition strip_tld :: "string \<Rightarrow> string" where
  "strip_tld name = (if suffix ''.veil'' name then take (length name - 5) name else name)"

definition label_char :: "char \<Rightarrow> bool" where
  "label_char c \<longleftrightarrow> (let n = (of_char c :: nat) in (97 \<le> n \<and> n \<le> 122) \<or> (48 \<le> n \<and> n \<le> 57) \<or> n = 45)"

section \<open>Data\<close>

record name_record =
  nr_name :: string
  nr_owner :: party_id
  nr_target :: "party_id option"
  nr_registered_at :: u64
  nr_expires_at :: u64
  nr_records :: "(string, string) fmap"

datatype name_command =
    NmRegister string u64 "party_id option"
  | NmRenew string u64
  | NmTransfer string party_id
  | NmSetTarget string "party_id option"
  | NmSetRecord string string string
  | NmClearRecord string string
  | NmRelease string

datatype name_event =
    EvRegistered string party_id u64
  | EvRenewed string u64
  | EvTransferred string party_id party_id
  | EvTargetSet string "party_id option"
  | EvRecordSet string string
  | EvRecordCleared string string
  | EvReleased string

record name_ext = kernel_ext +
  js_clock :: "u64 codec"
  js_name_record :: "name_record codec"
  js_name_command :: "name_command codec"
  js_name_event :: "name_event codec"

definition name_ext_ok :: "'x name_ext_scheme \<Rightarrow> bool" where
  "name_ext_ok X \<longleftrightarrow> kernel_ext_ok X \<and> codec_ok (js_clock X) \<and> codec_ok (js_name_record X) \<and> codec_ok (js_name_command X) \<and>
     codec_ok (js_name_event X)"

section \<open>Operations\<close>

abbreviation (input) "MAX_LABEL_LEN \<equiv> (63 :: nat)"
abbreviation (input) "MAX_RECORDS \<equiv> (32 :: nat)"
abbreviation (input) "MAX_VALUE_LEN \<equiv> (320 :: nat)"

definition is_expired :: "name_record \<Rightarrow> u64 \<Rightarrow> bool" where
  "is_expired rec now \<longleftrightarrow> nr_expires_at rec \<noteq> 0 \<and> now \<ge> nr_expires_at rec"

definition rec_key :: "string \<Rightarrow> string" where
  "rec_key name = ''name/rec/'' @ name"

definition rev_key :: "party_id \<Rightarrow> string" where
  "rev_key target = ''name/rev/'' @ party_name target"

definition name_normalize :: "string \<Rightarrow> prism_error + string" where
  "name_normalize raw =
     (let name = to_ascii_lowercase (str_trim raw); label = strip_tld name in
      if label = [] \<or> length label > MAX_LABEL_LEN then Inl (InvalidPayload ''name label must be 1..=63 chars'')
      else if \<not> list_all label_char label then Inl (InvalidPayload (''name may only contain a-z, 0-9 and '' @ [CHR 0x27, CHR ''-'', CHR 0x27]))
      else if hd label = CHR ''-'' \<or> last label = CHR ''-'' then Inl (InvalidPayload (''name must not start or end with '' @ [CHR 0x27, CHR ''-'', CHR 0x27]))
      else Inr (label @ ''.veil''))"

definition normalized :: "string \<Rightarrow> (state_tree, prism_error, string) act" where
  "normalized raw = (case name_normalize raw of Inl e \<Rightarrow> raise e | Inr name \<Rightarrow> ret name)"

definition name_load :: "'x name_ext_scheme \<Rightarrow> string \<Rightarrow> (state_tree, prism_error, name_record option) act" where
  "name_load X name = andthen (gets (\<lambda>s. get_json (js_name_record X) s (rec_key name))) (\<lambda>r.
     case r of Inl e \<Rightarrow> raise (Internal (state_error_to_string e)) | Inr v \<Rightarrow> ret v)"

text \<open>The idiom \<open>load(..)?.ok_or_else(|| NotFound(..))?\<close>.\<close>

definition name_must :: "'x name_ext_scheme \<Rightarrow> string \<Rightarrow> (state_tree, prism_error, name_record) act" where
  "name_must X name = andthen (name_load X name) (of_option (NotFound ''name not registered''))"

definition name_store :: "'x name_ext_scheme \<Rightarrow> name_record \<Rightarrow> (state_tree, prism_error, unit) act" where
  "name_store X rec = put_json_internal (js_name_record X) (rec_key (nr_name rec)) rec"

definition set_reverse :: "'x name_ext_scheme \<Rightarrow> party_id option \<Rightarrow> string \<Rightarrow> (state_tree, prism_error, unit) act" where
  "set_reverse X target name = (case target of
      None \<Rightarrow> ret ()
    | Some t \<Rightarrow> put_json_internal (js_string X) (rev_key t) name)"

definition clear_reverse :: "'x name_ext_scheme \<Rightarrow> party_id option \<Rightarrow> string \<Rightarrow> state_tree \<Rightarrow> state_tree" where
  "clear_reverse X target name s = (case target of
      None \<Rightarrow> s
    | Some t \<Rightarrow> if get_json_opt (js_string X) s (rev_key t) = Some name then snd (st_remove (rev_key t) s) else s)"

definition name_now :: "'x name_ext_scheme \<Rightarrow> state_tree \<Rightarrow> u64" where
  "name_now X s = (case get_json_opt (js_clock X) s ''chain/now'' of None \<Rightarrow> 0 | Some t \<Rightarrow> t)"

definition name_emit :: "'x name_ext_scheme \<Rightarrow> command \<Rightarrow> name_event \<Rightarrow> event" where
  "name_emit X cmd payload = emit X ''name'' cmd (to_vec_or_default (js_name_event X) payload)"

definition require_owner :: "name_record \<Rightarrow> party_id \<Rightarrow> u64 \<Rightarrow> (state_tree, prism_error, unit) act" where
  "require_owner rec caller now =
     andthen (ensure (\<not> is_expired rec now) (NotFound ''name has expired'')) (\<lambda>_.
     ensure (\<not> nr_owner rec \<noteq> caller) (Unauthorized ''not the name owner''))"

definition name_register ::
  "'x name_ext_scheme \<Rightarrow> command \<Rightarrow> u64 \<Rightarrow> string \<Rightarrow> u64 \<Rightarrow> party_id option \<Rightarrow> (state_tree, prism_error, prism_output) act" where
  "name_register X cmd now raw duration target =
     andthen (normalized raw) (\<lambda>name.
     andthen (name_load X name) (\<lambda>found.
     andthen (case found of
        None \<Rightarrow> ret ()
      | Some existing \<Rightarrow>
          andthen (ensure (is_expired existing now) (InvalidPayload ''name already taken'')) (\<lambda>_.
          modify (clear_reverse X (nr_target existing) name))) (\<lambda>_.
     let expires_at = (if duration = 0 then 0 else saturating_add now duration) in
     andthen (name_store X \<lparr>nr_name = name, nr_owner = cmd_submitter cmd, nr_target = target, nr_registered_at = now,
       nr_expires_at = expires_at, nr_records = fmempty\<rparr>) (\<lambda>_.
     andthen (set_reverse X target name) (\<lambda>_.
     ret (single_output (name_emit X cmd (EvRegistered name (cmd_submitter cmd) expires_at)) 5000))))))"

definition name_renew ::
  "'x name_ext_scheme \<Rightarrow> command \<Rightarrow> u64 \<Rightarrow> string \<Rightarrow> u64 \<Rightarrow> (state_tree, prism_error, prism_output) act" where
  "name_renew X cmd now raw duration =
     andthen (normalized raw) (\<lambda>name.
     andthen (name_must X name) (\<lambda>rec.
     andthen (ensure (\<not> nr_owner rec \<noteq> cmd_submitter cmd) (Unauthorized ''not the name owner'')) (\<lambda>_.
     let base = (if is_expired rec now then now else nr_expires_at rec);
         rec' = rec\<lparr>nr_expires_at := (if nr_expires_at rec = 0 then 0 else saturating_add base duration)\<rparr> in
     andthen (name_store X rec') (\<lambda>_.
     ret (single_output (name_emit X cmd (EvRenewed name (nr_expires_at rec'))) 2000)))))"

definition name_transfer ::
  "'x name_ext_scheme \<Rightarrow> command \<Rightarrow> u64 \<Rightarrow> string \<Rightarrow> party_id \<Rightarrow> (state_tree, prism_error, prism_output) act" where
  "name_transfer X cmd now raw to =
     andthen (normalized raw) (\<lambda>name.
     andthen (name_must X name) (\<lambda>rec.
     andthen (require_owner rec (cmd_submitter cmd) now) (\<lambda>_.
     andthen (name_store X (rec\<lparr>nr_owner := to\<rparr>)) (\<lambda>_.
     ret (single_output (name_emit X cmd (EvTransferred name (nr_owner rec) to)) 1500)))))"

definition name_set_target ::
  "'x name_ext_scheme \<Rightarrow> command \<Rightarrow> u64 \<Rightarrow> string \<Rightarrow> party_id option \<Rightarrow> (state_tree, prism_error, prism_output) act" where
  "name_set_target X cmd now raw target =
     andthen (normalized raw) (\<lambda>name.
     andthen (name_must X name) (\<lambda>rec.
     andthen (require_owner rec (cmd_submitter cmd) now) (\<lambda>_.
     andthen (modify (clear_reverse X (nr_target rec) name)) (\<lambda>_.
     andthen (name_store X (rec\<lparr>nr_target := target\<rparr>)) (\<lambda>_.
     andthen (set_reverse X target name) (\<lambda>_.
     ret (single_output (name_emit X cmd (EvTargetSet name target)) 1000)))))))"

definition name_set_record ::
  "'x name_ext_scheme \<Rightarrow> command \<Rightarrow> u64 \<Rightarrow> string \<Rightarrow> string \<Rightarrow> string \<Rightarrow> (state_tree, prism_error, prism_output) act" where
  "name_set_record X cmd now raw key v =
     andthen (normalized raw) (\<lambda>name.
     andthen (ensure (\<not> (key = [] \<or> length key > 64)) (InvalidPayload ''record key must be 1..=64 chars'')) (\<lambda>_.
     andthen (ensure (\<not> length v > MAX_VALUE_LEN) (LimitExceeded ''record value too long'')) (\<lambda>_.
     andthen (name_must X name) (\<lambda>rec.
     andthen (require_owner rec (cmd_submitter cmd) now) (\<lambda>_.
     andthen (ensure (\<not> (fmlookup (nr_records rec) key = None \<and> fcard (fmdom (nr_records rec)) \<ge> MAX_RECORDS))
       (LimitExceeded ''too many records'')) (\<lambda>_.
     andthen (name_store X (rec\<lparr>nr_records := fmupd key v (nr_records rec)\<rparr>)) (\<lambda>_.
     ret (single_output (name_emit X cmd (EvRecordSet name key)) 900))))))))"

definition name_clear_record ::
  "'x name_ext_scheme \<Rightarrow> command \<Rightarrow> u64 \<Rightarrow> string \<Rightarrow> string \<Rightarrow> (state_tree, prism_error, prism_output) act" where
  "name_clear_record X cmd now raw key =
     andthen (normalized raw) (\<lambda>name.
     andthen (name_must X name) (\<lambda>rec.
     andthen (require_owner rec (cmd_submitter cmd) now) (\<lambda>_.
     andthen (name_store X (rec\<lparr>nr_records := fmdrop key (nr_records rec)\<rparr>)) (\<lambda>_.
     ret (single_output (name_emit X cmd (EvRecordCleared name key)) 700)))))"

definition name_release :: "'x name_ext_scheme \<Rightarrow> command \<Rightarrow> string \<Rightarrow> (state_tree, prism_error, prism_output) act" where
  "name_release X cmd raw =
     andthen (normalized raw) (\<lambda>name.
     andthen (name_must X name) (\<lambda>rec.
     andthen (ensure (\<not> nr_owner rec \<noteq> cmd_submitter cmd) (Unauthorized ''not the name owner'')) (\<lambda>_.
     andthen (modify (clear_reverse X (nr_target rec) name)) (\<lambda>_.
     andthen (modify (\<lambda>s. snd (st_remove (rec_key name) s))) (\<lambda>_.
     ret (single_output (name_emit X cmd (EvReleased name)) 500))))))"

definition name_dispatch ::
  "'x name_ext_scheme \<Rightarrow> command \<Rightarrow> name_command \<Rightarrow> (state_tree, prism_error, prism_output) act" where
  "name_dispatch X cmd c =
     andthen (gets (name_now X)) (\<lambda>now.
     case c of
       NmRegister raw duration target \<Rightarrow> name_register X cmd now raw duration target
     | NmRenew raw duration \<Rightarrow> name_renew X cmd now raw duration
     | NmTransfer raw to \<Rightarrow> name_transfer X cmd now raw to
     | NmSetTarget raw target \<Rightarrow> name_set_target X cmd now raw target
     | NmSetRecord raw key v \<Rightarrow> name_set_record X cmd now raw key v
     | NmClearRecord raw key \<Rightarrow> name_clear_record X cmd now raw key
     | NmRelease raw \<Rightarrow> name_release X cmd raw)"

definition name_handle :: "'x name_ext_scheme \<Rightarrow> handler" where
  "name_handle X cmd =
     andthen (parse_payload (js_name_command X) (cmd_payload cmd)) (name_dispatch X cmd)"

definition name_estimate :: "'x name_ext_scheme \<Rightarrow> command \<Rightarrow> state_tree \<Rightarrow> u64" where
  "name_estimate X cmd s =
     (case from_slice (js_name_command X) (cmd_payload cmd) of
        Inr (NmRegister _ _ _) \<Rightarrow> 5000
      | Inr (NmRenew _ _) \<Rightarrow> 2000
      | Inr (NmTransfer _ _) \<Rightarrow> 1500
      | Inr _ \<Rightarrow> 1000
      | Inl _ \<Rightarrow> 1000)"

definition name_prism :: "'x name_ext_scheme \<Rightarrow> prism" where
  "name_prism X = \<lparr>pr_info = \<lparr>info_name = ''name'',
       info_description = ''Name service (VNS): human-readable names that resolve to parties'',
       info_version = ''1.0''\<rparr>,
     pr_handle = name_handle X, pr_estimate = name_estimate X\<rparr>"

definition name_id_of :: "'x kernel_ext_scheme \<Rightarrow> string \<Rightarrow> hash" where
  "name_id_of X name = commit X ''name/id'' [as_bytes name]"

definition name_lookup :: "'x name_ext_scheme \<Rightarrow> state_tree \<Rightarrow> string \<Rightarrow> name_record option" where
  "name_lookup X s raw = (case name_normalize raw of
      Inl _ \<Rightarrow> None
    | Inr name \<Rightarrow> get_json_opt (js_name_record X) s (rec_key name))"

definition resolve :: "'x name_ext_scheme \<Rightarrow> state_tree \<Rightarrow> string \<Rightarrow> party_id option" where
  "resolve X s raw = (case name_lookup X s raw of
      None \<Rightarrow> None
    | Some rec \<Rightarrow>
        if is_expired rec (name_now X s) then None
        else (case nr_target rec of None \<Rightarrow> Some (nr_owner rec) | Some t \<Rightarrow> Some t))"

definition reverse_lookup :: "'x name_ext_scheme \<Rightarrow> state_tree \<Rightarrow> party_id \<Rightarrow> string option" where
  "reverse_lookup X s target = (case get_json_opt (js_string X) s (rev_key target) of
      None \<Rightarrow> None
    | Some name \<Rightarrow> (case name_lookup X s name of
          None \<Rightarrow> None
        | Some rec \<Rightarrow> if is_expired rec (name_now X s) \<or> nr_target rec \<noteq> Some target then None else Some name))"

definition register_command ::
  "'x name_ext_scheme \<Rightarrow> party_id \<Rightarrow> visibility \<Rightarrow> u64 \<Rightarrow> string \<Rightarrow> u64 \<Rightarrow> party_id option \<Rightarrow> command" where
  "register_command X submitter vis nonce name duration target =
     \<lparr>cmd_prism = ''name'', cmd_submitter = submitter, cmd_visibility = vis,
      cmd_payload = to_vec_or_default (js_name_command X) (NmRegister name duration target), cmd_nonce = nonce\<rparr>"

section \<open>Normal forms\<close>

definition valid_label :: "string \<Rightarrow> bool" where
  "valid_label l \<longleftrightarrow> l \<noteq> [] \<and> length l \<le> 63 \<and> list_all label_char l \<and> hd l \<noteq> CHR ''-'' \<and> last l \<noteq> CHR ''-''"

lemma strip_front_id:
  assumes "\<forall>w \<in> set ws. w = [] \<or> hd w \<noteq> c"
  shows "strip_front ws (c # s) = c # s"
proof -
  have "find (\<lambda>w. w \<noteq> [] \<and> prefix w (c # s)) ws = None"
    unfolding find_None_iff using assms by (auto simp: prefix_def neq_Nil_conv)
  then show ?thesis by (subst strip_front.simps) simp
qed

lemma normalize_shape: "name_normalize raw = Inr n \<Longrightarrow> \<exists>l. valid_label l \<and> n = l @ ''.veil''"
  by (auto simp: name_normalize_def valid_label_def Let_def not_less split: if_splits)

lemma label_char_codes:
  "label_char c \<longleftrightarrow> (of_char c :: nat) \<in> {97..122} \<union> {48..57} \<union> {45}"
  by (auto simp: label_char_def Let_def)

lemma lowercase_label: "list_all label_char l \<Longrightarrow> to_ascii_lowercase (l @ ''.veil'') = l @ ''.veil''"
proof -
  assume "list_all label_char l"
  then have "to_ascii_lowercase l = l"
    by (induction l) (auto simp: to_ascii_lowercase_def label_char_codes Let_def)
  then show ?thesis by (simp add: to_ascii_lowercase_def)
qed

lemma trim_label:
  assumes "l \<noteq> []" and "label_char (hd l)"
  shows "str_trim (l @ ''.veil'') = l @ ''.veil''"
proof -
  obtain c cs where l: "l = c # cs" using assms(1) by (cases l) auto
  have "(of_char c :: nat) \<notin> {9, 10, 11, 12, 13, 32, 0xC2, 0xE1, 0xE2, 0xE3}"
    using assms(2) unfolding l label_char_codes by auto
  then have "\<forall>w \<in> set white_space. w = [] \<or> hd w \<noteq> c"
    by (auto simp: white_space_def)
  then have front: "strip_front white_space (l @ ''.veil'') = l @ ''.veil''"
    unfolding l by (simp add: strip_front_id)
  have "\<forall>w \<in> set (map rev white_space). w = [] \<or> hd w \<noteq> CHR ''l''"
    by (simp add: white_space_def char_of_eq_iff)
  then have "strip_front (map rev white_space) (CHR ''l'' # ''iev.'' @ rev l) = CHR ''l'' # ''iev.'' @ rev l"
    by (rule strip_front_id)
  then show ?thesis by (simp add: str_trim_def front)
qed

lemma normalize_normal:
  assumes "valid_label l"
  shows "name_normalize (l @ ''.veil'') = Inr (l @ ''.veil'')"
proof -
  have "l \<noteq> []" "label_char (hd l)" "list_all label_char l" using assms by (cases l; auto simp: valid_label_def)+
  then have "to_ascii_lowercase (str_trim (l @ ''.veil'')) = l @ ''.veil''"
    by (simp add: trim_label lowercase_label)
  moreover have "strip_tld (l @ ''.veil'') = l" by (simp add: strip_tld_def suffix_def)
  ultimately show ?thesis using assms by (simp add: name_normalize_def Let_def valid_label_def)
qed

lemma normalize_idem: "name_normalize raw = Inr n \<Longrightarrow> name_normalize n = Inr n"
  using normalize_shape normalize_normal by blast

section \<open>Records and reverse entries in the state\<close>

definition record_of :: "'x name_ext_scheme \<Rightarrow> state_tree \<Rightarrow> string \<Rightarrow> name_record option" where
  "record_of X s name = get_json_opt (js_name_record X) s (rec_key name)"

definition reverse_of :: "'x name_ext_scheme \<Rightarrow> state_tree \<Rightarrow> party_id \<Rightarrow> string option" where
  "reverse_of X s t = get_json_opt (js_string X) s (rev_key t)"

definition put_record :: "'x name_ext_scheme \<Rightarrow> name_record \<Rightarrow> state_tree \<Rightarrow> state_tree" where
  "put_record X rec = put_cell (js_name_record X) (rec_key (nr_name rec)) rec"

definition put_reverse :: "'x name_ext_scheme \<Rightarrow> party_id option \<Rightarrow> string \<Rightarrow> state_tree \<Rightarrow> state_tree" where
  "put_reverse X target name s = (case target of None \<Rightarrow> s | Some t \<Rightarrow> put_cell (js_string X) (rev_key t) name s)"

lemma name_ext_okD:
  assumes "name_ext_ok X"
  shows "kernel_ext_ok X" "codec_ok (js_string X)" "codec_ok (js_clock X)" "codec_ok (js_name_record X)" "codec_ok (js_name_command X)"
  using assms by (simp_all add: name_ext_ok_def kernel_ext_okD)

interpretation name_records: json_table name_ext_ok js_name_record "\<lambda>X. rec_key"
  by unfold_locales (simp_all add: name_ext_okD rec_key_def)

interpretation reverses: json_table name_ext_ok js_string "\<lambda>X. rev_key"
  by unfold_locales (auto simp: name_ext_okD rev_key_def party_id.expand)

lemma name_keys [simp]:
  "rec_key n \<noteq> rev_key t" "rev_key t \<noteq> rec_key n" "rec_key n \<noteq> ''chain/now''" "rev_key t \<noteq> ''chain/now''"
  by (simp_all add: rec_key_def rev_key_def)

named_theorems name_cells \<open>reading names after writes\<close>

lemma record_of_writes [name_cells]:
  "name_ext_ok X \<Longrightarrow> record_of X (put_record X rec s) n = (if nr_name rec = n then Some rec else record_of X s n)"
  "record_of X (put_reverse X t m s) n = record_of X s n"
  "record_of X (clear_reverse X t m s) n = record_of X s n"
  "name_ext_ok X \<Longrightarrow> record_of X (del_cell (rec_key m) s) n = (if m = n then None else record_of X s n)"
  by (auto simp: record_of_def put_record_def put_reverse_def clear_reverse_def cell_frames name_records.get_put name_records.get_del
      del_cell_def [symmetric] split: option.splits)

lemma reverse_of_writes [name_cells]:
  "reverse_of X (put_record X rec s) t = reverse_of X s t"
  "name_ext_ok X \<Longrightarrow> reverse_of X (put_reverse X u m s) t = (if u = Some t then Some m else reverse_of X s t)"
  "name_ext_ok X \<Longrightarrow> reverse_of X (clear_reverse X u m s) t =
     (if u = Some t \<and> reverse_of X s t = Some m then None else reverse_of X s t)"
  "reverse_of X (del_cell (rec_key m) s) t = reverse_of X s t"
  by (auto simp: reverse_of_def put_record_def put_reverse_def clear_reverse_def cell_frames reverses.get_put reverses.get_del
      del_cell_def [symmetric] split: option.splits)

lemma name_now_writes [name_cells]:
  "name_now X (put_record X rec s) = name_now X s" "name_now X (put_reverse X u m s) = name_now X s"
  "name_now X (clear_reverse X u m s) = name_now X s" "name_now X (del_cell (rec_key m) s) = name_now X s"
  by (auto simp: name_now_def put_record_def put_reverse_def clear_reverse_def cell_frames del_cell_def [symmetric] split: option.splits)

lemma normalized_Ok: "normalized raw s = (Ok n, s') \<longleftrightarrow> s' = s \<and> name_normalize raw = Inr n"
  by (auto simp: normalized_def split: sum.splits)

lemma name_load_Ok: "name_load X n s = (Ok v, s') \<Longrightarrow> s' = s \<and> record_of X s n = v"
  by (auto simp: name_load_def record_of_def get_json_opt_def split: sum.splits)

lemma name_must_Ok: "name_must X n s = (Ok rec, s') \<longleftrightarrow> s' = s \<and> record_of X s n = Some rec"
  by (auto simp: name_must_def andthen_Ok_iff name_load_def record_of_def get_json_opt_def split: sum.splits option.splits)

lemma require_owner_Ok: "require_owner rec p now s = (Ok u, s') \<longleftrightarrow> s' = s \<and> \<not> is_expired rec now \<and> nr_owner rec = p"
  by (auto simp: require_owner_def)

lemma name_writes_ok:
  assumes "name_ext_ok X"
  shows "name_store X rec = modify (put_record X rec)" "set_reverse X t n = modify (put_reverse X t n)"
  using name_records.run_put [OF assms] reverses.run_put [OF assms]
  by (auto simp: name_store_def put_record_def [abs_def] set_reverse_def put_reverse_def [abs_def] fun_eq_iff split: option.splits)

lemmas name_run = ok_iffs normalized_Ok name_must_Ok require_owner_Ok name_writes_ok

section \<open>What each command does\<close>

lemma name_register_Ok:
  assumes "name_ext_ok X" and "name_register X cmd now raw duration target s = (Ok out, s')"
  shows "\<exists>n. name_normalize raw = Inr n \<and> (\<forall>e. record_of X s n = Some e \<longrightarrow> is_expired e now) \<and>
    s' = put_reverse X target n (put_record X \<lparr>nr_name = n, nr_owner = cmd_submitter cmd, nr_target = target, nr_registered_at = now,
       nr_expires_at = (if duration = 0 then 0 else saturating_add now duration), nr_records = fmempty\<rparr>
      (case record_of X s n of None \<Rightarrow> s | Some e \<Rightarrow> clear_reverse X (nr_target e) n s))"
proof -
  obtain n where n: "name_normalize raw = Inr n"
    using assms(2) unfolding name_register_def by (auto simp: name_run)
  have "normalized raw s = (Ok n, s)" using n by (simp add: normalized_Ok)
  then show ?thesis
    using assms(2) n unfolding name_register_def Let_def
    by (intro exI [of _ n]) (auto simp: andthen_simps name_run assms(1) dest!: name_load_Ok split: option.splits)
qed

lemma name_renew_Ok:
  assumes "name_ext_ok X" and "name_renew X cmd now raw duration s = (Ok out, s')"
  shows "\<exists>n rec e. name_normalize raw = Inr n \<and> record_of X s n = Some rec \<and> nr_owner rec = cmd_submitter cmd \<and>
    s' = put_record X (rec\<lparr>nr_expires_at := e\<rparr>) s"
  using assms(2) unfolding name_renew_def Let_def by (auto simp: name_run assms(1))

lemma name_transfer_Ok:
  assumes "name_ext_ok X" and "name_transfer X cmd now raw to s = (Ok out, s')"
  shows "\<exists>n rec. name_normalize raw = Inr n \<and> record_of X s n = Some rec \<and> nr_owner rec = cmd_submitter cmd \<and> \<not> is_expired rec now \<and>
    s' = put_record X (rec\<lparr>nr_owner := to\<rparr>) s"
  using assms(2) unfolding name_transfer_def by (auto simp: name_run assms(1))

lemma name_set_target_Ok:
  assumes "name_ext_ok X" and "name_set_target X cmd now raw target s = (Ok out, s')"
  shows "\<exists>n rec. name_normalize raw = Inr n \<and> record_of X s n = Some rec \<and> nr_owner rec = cmd_submitter cmd \<and> \<not> is_expired rec now \<and>
    s' = put_reverse X target n (put_record X (rec\<lparr>nr_target := target\<rparr>) (clear_reverse X (nr_target rec) n s))"
  using assms(2) unfolding name_set_target_def by (auto simp: name_run assms(1))

lemma name_records_Ok:
  assumes "name_ext_ok X"
    and "name_set_record X cmd now raw key v s = (Ok out, s') \<or> name_clear_record X cmd now raw key s = (Ok out, s')"
  shows "\<exists>n rec m. name_normalize raw = Inr n \<and> record_of X s n = Some rec \<and> nr_owner rec = cmd_submitter cmd \<and> \<not> is_expired rec now \<and>
    s' = put_record X (rec\<lparr>nr_records := m\<rparr>) s"
  using assms(2) unfolding name_set_record_def name_clear_record_def by (auto simp: name_run assms(1))

lemma name_release_Ok:
  assumes "name_ext_ok X" and "name_release X cmd raw s = (Ok out, s')"
  shows "\<exists>n rec. name_normalize raw = Inr n \<and> record_of X s n = Some rec \<and> nr_owner rec = cmd_submitter cmd \<and>
    s' = del_cell (rec_key n) (clear_reverse X (nr_target rec) n s)"
  using assms(2) unfolding name_release_def by (auto simp: name_run assms(1) del_cell_def)

lemma name_reads_state:
  "normalized raw s = (r, s1) \<Longrightarrow> s1 = s" "name_load X n s = (r', s1) \<Longrightarrow> s1 = s" "name_must X n s = (r'', s1) \<Longrightarrow> s1 = s"
  "require_owner rec p now s = (r''', s1) \<Longrightarrow> s1 = s"
  by (auto simp: normalized_def name_load_def name_must_def require_owner_def andthen_def split: sum.splits option.splits if_splits)

lemma name_error_unchanged:
  assumes "name_ext_ok X" and "name_dispatch X cmd c s = (r, s')" and "\<And>out. r \<noteq> Ok out"
  shows "s' = s"
  using assms(2,3)
  by (cases c) (auto simp: name_dispatch_def name_register_def name_renew_def name_transfer_def name_set_target_def name_set_record_def
      name_clear_record_def name_release_def Let_def andthen_def name_writes_ok [OF assms(1)] dest!: name_reads_state
      split: outcome.splits prod.splits if_splits option.splits)

section \<open>The invariant\<close>

definition names_ok :: "'x name_ext_scheme \<Rightarrow> state_tree \<Rightarrow> bool" where
  "names_ok X s \<longleftrightarrow> (\<forall>n rec. record_of X s n = Some rec \<longrightarrow> nr_name rec = n \<and> name_normalize n = Inr n) \<and>
     (\<forall>t n. reverse_of X s t = Some n \<longrightarrow> (\<exists>rec. record_of X s n = Some rec \<and> nr_target rec = Some t))"

lemma names_okD:
  assumes "names_ok X s"
  shows "record_of X s n = Some rec \<Longrightarrow> nr_name rec = n" "record_of X s n = Some rec \<Longrightarrow> name_normalize n = Inr n"
    "reverse_of X s t = Some n \<Longrightarrow> \<exists>rec. record_of X s n = Some rec \<and> nr_target rec = Some t"
  using assms unfolding names_ok_def by blast+

lemma names_ok_update:
  assumes "name_ext_ok X" and "names_ok X s" and "record_of X s n = Some rec" and "nr_name rec' = nr_name rec" and "nr_target rec' = nr_target rec"
  shows "names_ok X (put_record X rec' s)"
  using assms names_okD [OF assms(2)] unfolding names_ok_def by (auto simp: name_cells) (metis option.inject)+

lemma names_ok_retarget:
  assumes "name_ext_ok X" and "names_ok X s" and "name_normalize n = Inr n" and "nr_name rec = n"
    and "\<forall>e. record_of X s n = Some e \<longrightarrow> old = nr_target e"
  shows "names_ok X (put_reverse X (nr_target rec) n (put_record X rec (clear_reverse X old n s)))"
  using assms names_okD [OF assms(2)] unfolding names_ok_def by (auto simp: name_cells split: if_splits) (metis option.inject)+

lemma clear_none: "clear_reverse X None n s = s"
  by (simp add: clear_reverse_def)

lemma names_register_ok:
  assumes "name_ext_ok X" and "names_ok X s" and "name_register X cmd now raw duration target s = (Ok out, s')"
  shows "names_ok X s'"
proof -
  obtain n where n: "name_normalize raw = Inr n"
    "s' = put_reverse X target n (put_record X \<lparr>nr_name = n, nr_owner = cmd_submitter cmd, nr_target = target, nr_registered_at = now,
       nr_expires_at = (if duration = 0 then 0 else saturating_add now duration), nr_records = fmempty\<rparr>
      (case record_of X s n of None \<Rightarrow> s | Some e \<Rightarrow> clear_reverse X (nr_target e) n s))"
    using name_register_Ok [OF assms(1,3)] by blast
  note ret = names_ok_retarget [OF assms(1,2) normalize_idem [OF n(1)], where rec = "\<lparr>nr_name = n, nr_owner = cmd_submitter cmd,
    nr_target = target, nr_registered_at = now, nr_expires_at = (if duration = 0 then 0 else saturating_add now duration), nr_records = fmempty\<rparr>"]
  show ?thesis
  proof (cases "record_of X s n")
    case None
    then show ?thesis using ret [of None] n(2) by (simp add: clear_none)
  next
    case (Some e)
    then show ?thesis using ret [of "nr_target e"] n(2) by simp
  qed
qed

lemma names_change_ok:
  assumes "name_ext_ok X" and "names_ok X s"
  shows "name_set_target X cmd now raw target s = (Ok out, s') \<Longrightarrow> names_ok X s'"
    and "name_release X cmd raw s = (Ok out, s') \<Longrightarrow> names_ok X s'"
proof -
  note d = names_okD [OF assms(2)]
  show "names_ok X s'" if run: "name_set_target X cmd now raw target s = (Ok out, s')"
  proof -
    obtain n rec where r: "name_normalize raw = Inr n" "record_of X s n = Some rec"
      "s' = put_reverse X target n (put_record X (rec\<lparr>nr_target := target\<rparr>) (clear_reverse X (nr_target rec) n s))"
      using name_set_target_Ok [OF assms(1) run] by blast
    show ?thesis
      using names_ok_retarget [OF assms normalize_idem [OF r(1)], where rec = "rec\<lparr>nr_target := target\<rparr>" and old = "nr_target rec"]
        r(2) d(1) [OF r(2)] unfolding r(3) by simp
  qed
  show "names_ok X s'" if run: "name_release X cmd raw s = (Ok out, s')"
  proof -
    obtain n rec where r: "record_of X s n = Some rec" "s' = del_cell (rec_key n) (clear_reverse X (nr_target rec) n s)"
      using name_release_Ok [OF assms(1) run] by blast
    show ?thesis
      using d r(1) assms(1) unfolding names_ok_def r(2) by (auto simp: name_cells split: if_splits) (metis option.inject)+
  qed
qed

lemma names_step_ok:
  assumes "name_ext_ok X" and "names_ok X s" and "name_dispatch X cmd c s = (r, s')"
  shows "names_ok X s'"
proof (cases "\<exists>out. r = Ok out")
  case True
  have upd: "names_ok X (put_record X (rec\<lparr>nr_expires_at := e\<rparr>) s)" "names_ok X (put_record X (rec\<lparr>nr_owner := w\<rparr>) s)"
    "names_ok X (put_record X (rec\<lparr>nr_records := m\<rparr>) s)" if "record_of X s n = Some rec" for n rec e w m
    using names_ok_update [OF assms(1,2) that] by simp_all
  show ?thesis
    using True assms(3) names_register_ok [OF assms(1,2)] names_change_ok [OF assms(1,2)]
    by (cases c)
      (auto simp: name_dispatch_def dest!: name_renew_Ok [OF assms(1)] name_transfer_Ok [OF assms(1)]
         name_records_Ok [OF assms(1), OF disjI1] name_records_Ok [OF assms(1), OF disjI2] intro: upd)
next
  case False
  then show ?thesis using name_error_unchanged [OF assms(1,3)] assms(2) by blast
qed

section \<open>The prism contract\<close>

lemma name_handle_frame:
  assumes "outside [''name/''] k"
  shows "keeps (\<lambda>s. st_get s k = v) (name_handle X cmd)"
proof -
  have k: "rec_key n \<noteq> k" "rev_key t \<noteq> k" for n t
    using assms by (auto simp: outside_def rec_key_def rev_key_def)
  have c: "st_get (clear_reverse X t n s) k = st_get s k" for t n s
    by (auto simp: clear_reverse_def k split: option.splits)
  have "keeps (\<lambda>s. st_get s k = v) (normalized raw)" "keeps (\<lambda>s. st_get s k = v) (name_load X n)" for raw n
    unfolding normalized_def name_load_def by (auto intro!: keeps_intros split: sum.splits)
  then have "keeps (\<lambda>s. st_get s k = v) (name_dispatch X cmd c)" for c
    unfolding name_dispatch_def name_register_def name_renew_def name_transfer_def name_set_target_def name_set_record_def
      name_clear_record_def name_release_def name_must_def require_owner_def name_store_def set_reverse_def Let_def
    by (cases c) (auto intro!: keeps_intros simp: k c split: option.splits)
  then show ?thesis
    unfolding name_handle_def by (intro keeps_intros)
qed

lemma name_handle_events:
  assumes "name_handle X cmd s = (Ok out, s')"
  shows "\<forall>e \<in> set (out_events out). event_of X ''name'' cmd e"
proof -
  obtain c s1 where "name_dispatch X cmd c s1 = (Ok out, s')"
    using assms by (auto simp: name_handle_def andthen_Ok_iff)
  then show ?thesis
    by (cases c) (auto simp: name_dispatch_def name_register_def name_renew_def name_transfer_def name_set_target_def name_set_record_def
        name_clear_record_def name_release_def Let_def ok_iffs single_output_def name_emit_def)
qed

interpretation name_service: prism_contract name_handle "''name''" "[''name/'']"
  by unfold_locales (use name_handle_frame name_handle_events in \<open>blast+\<close>)

section \<open>A concrete instance of the parameters\<close>

definition name_record_coder :: "name_record coder" where
  "name_record_coder = iso_coder (\<lambda>r. (nr_name r, nr_owner r, nr_target r, nr_registered_at r, nr_expires_at r, nr_records r))
     (\<lambda>(n, w, t, a, e, m). \<lparr>nr_name = n, nr_owner = w, nr_target = t, nr_registered_at = a, nr_expires_at = e, nr_records = m\<rparr>)
     (pair_coder string_coder (pair_coder party_coder (pair_coder (option_coder party_coder) (pair_coder word_coder
       (pair_coder word_coder (fmap_coder string_coder string_coder))))))"

definition name_command_coder :: "name_command coder" where
  "name_command_coder = iso_coder
     (\<lambda>c. case c of NmRegister n d t \<Rightarrow> Inl (n, d, t) | NmRenew n d \<Rightarrow> Inr (Inl (n, d)) | NmTransfer n p \<Rightarrow> Inr (Inr (Inl (n, p)))
      | NmSetTarget n t \<Rightarrow> Inr (Inr (Inr (Inl (n, t)))) | NmSetRecord n k v \<Rightarrow> Inr (Inr (Inr (Inr (Inl (n, k, v)))))
      | NmClearRecord n k \<Rightarrow> Inr (Inr (Inr (Inr (Inr (Inl (n, k)))))) | NmRelease n \<Rightarrow> Inr (Inr (Inr (Inr (Inr (Inr n))))))
     (\<lambda>z. case z of Inl (n, d, t) \<Rightarrow> NmRegister n d t | Inr (Inl (n, d)) \<Rightarrow> NmRenew n d | Inr (Inr (Inl (n, p))) \<Rightarrow> NmTransfer n p
      | Inr (Inr (Inr (Inl (n, t)))) \<Rightarrow> NmSetTarget n t | Inr (Inr (Inr (Inr (Inl (n, k, v))))) \<Rightarrow> NmSetRecord n k v
      | Inr (Inr (Inr (Inr (Inr (Inl (n, k)))))) \<Rightarrow> NmClearRecord n k | Inr (Inr (Inr (Inr (Inr (Inr n))))) \<Rightarrow> NmRelease n)
     (sum_coder (pair_coder string_coder (pair_coder word_coder (option_coder party_coder))) (sum_coder (pair_coder string_coder word_coder)
       (sum_coder (pair_coder string_coder party_coder) (sum_coder (pair_coder string_coder (option_coder party_coder))
         (sum_coder (pair_coder string_coder (pair_coder string_coder string_coder))
           (sum_coder (pair_coder string_coder string_coder) string_coder))))))"

definition name_event_coder :: "name_event coder" where
  "name_event_coder = iso_coder
     (\<lambda>c. case c of EvRegistered n p d \<Rightarrow> Inl (n, p, d) | EvRenewed n d \<Rightarrow> Inr (Inl (n, d)) | EvTransferred n p q \<Rightarrow> Inr (Inr (Inl (n, p, q)))
      | EvTargetSet n t \<Rightarrow> Inr (Inr (Inr (Inl (n, t)))) | EvRecordSet n k \<Rightarrow> Inr (Inr (Inr (Inr (Inl (n, k)))))
      | EvRecordCleared n k \<Rightarrow> Inr (Inr (Inr (Inr (Inr (Inl (n, k)))))) | EvReleased n \<Rightarrow> Inr (Inr (Inr (Inr (Inr (Inr n))))))
     (\<lambda>z. case z of Inl (n, p, d) \<Rightarrow> EvRegistered n p d | Inr (Inl (n, d)) \<Rightarrow> EvRenewed n d | Inr (Inr (Inl (n, p, q))) \<Rightarrow> EvTransferred n p q
      | Inr (Inr (Inr (Inl (n, t)))) \<Rightarrow> EvTargetSet n t | Inr (Inr (Inr (Inr (Inl (n, k))))) \<Rightarrow> EvRecordSet n k
      | Inr (Inr (Inr (Inr (Inr (Inl (n, k)))))) \<Rightarrow> EvRecordCleared n k | Inr (Inr (Inr (Inr (Inr (Inr n))))) \<Rightarrow> EvReleased n)
     (sum_coder (pair_coder string_coder (pair_coder party_coder word_coder)) (sum_coder (pair_coder string_coder word_coder)
       (sum_coder (pair_coder string_coder (pair_coder party_coder party_coder)) (sum_coder (pair_coder string_coder (option_coder party_coder))
         (sum_coder (pair_coder string_coder string_coder) (sum_coder (pair_coder string_coder string_coder) string_coder))))))"

lemma name_coders_ok [coder_intros]: "coder_ok name_record_coder" "coder_ok name_command_coder" "coder_ok name_event_coder"
  unfolding name_record_coder_def name_command_coder_def name_event_coder_def
  by (intro coder_intros; auto split: name_command.splits name_event.splits)+

definition ref_name_ext :: name_ext where
  "ref_name_ext = kernel_ext.extend ref_kernel_ext
     (name_ext.fields (codec_of word_coder) (codec_of name_record_coder) (codec_of name_command_coder) (codec_of name_event_coder))"

lemma ref_name_ext_ok: "name_ext_ok ref_name_ext"
  using ref_kernel_ext_ok
  by (simp add: name_ext_ok_def kernel_ext_ok_def hash_ext_ok_def ref_name_ext_def
      kernel_ext.defs name_ext.defs codec_of_ok coder_intros)

lemma names_empty [simp]: "record_of X st_new n = None" "reverse_of X st_new t = None" "name_now X st_new = 0" "names_ok X st_new"
  by (simp_all add: record_of_def reverse_of_def name_now_def names_ok_def)

section \<open>Properties\<close>

text \<open>
  C33. Names have one spelling. What normalisation accepts becomes a label of one to 63 lower-case letters, digits and hyphens, neither
  first nor last a hyphen, below \<open>.veil\<close>; normalising the result again gives it back, so every record is stored and found under one key.
\<close>

theorem name_normalize_canonical:
  assumes "name_normalize raw = Inr n"
  shows "name_normalize n = Inr n \<and> (\<exists>l. n = l @ ''.veil'' \<and> 0 < length l \<and> length l \<le> 63 \<and>
    (\<forall>c \<in> set l. (of_char c :: nat) \<in> {97..122} \<union> {48..57} \<union> {45}) \<and> hd l \<noteq> CHR ''-'' \<and> last l \<noteq> CHR ''-'')"
  using normalize_idem [OF assms] normalize_shape [OF assms] unfolding valid_label_def label_char_codes list_all_iff by auto

text \<open>
  C32. The reverse index is consistent. Every command of the name service, successful or not, keeps the invariant that each record is stored
  under its own normal name and that each reverse entry of a party names a record whose target is that party.
\<close>

theorem name_reverse_consistent:
  assumes "name_ext_ok X" and "names_ok X s" and "name_dispatch X cmd c s = (r, s')"
  shows "names_ok X s' \<and> (\<forall>t n. reverse_lookup X s' t = Some n \<longrightarrow> resolve X s' n = Some t)"
proof
  show ok: "names_ok X s'" using assms by (rule names_step_ok)
  show "\<forall>t n. reverse_lookup X s' t = Some n \<longrightarrow> resolve X s' n = Some t"
    by (auto simp: reverse_lookup_def resolve_def split: option.splits if_splits)
qed

text \<open>
  Names belong to their owners. While the record of a name has not expired, no command of anybody but its owner changes it in any
  way, whatever the outcome of the command.
\<close>

theorem name_owner_protected:
  assumes "name_ext_ok X" and "names_ok X s" and "record_of X s n = Some rec" and "\<not> is_expired rec (name_now X s)"
    and "nr_owner rec \<noteq> cmd_submitter cmd" and "name_dispatch X cmd c s = (r, s')"
  shows "record_of X s' n = Some rec"
proof (cases "\<exists>out. r = Ok out")
  case True
  note d = names_okD(1) [OF assms(2)]
  show ?thesis
    using True assms d
    by (cases c)
      (auto simp: name_dispatch_def name_cells dest!: name_register_Ok [OF assms(1)] name_renew_Ok [OF assms(1)] name_transfer_Ok [OF assms(1)]
         name_set_target_Ok [OF assms(1)] name_release_Ok [OF assms(1)] name_records_Ok [OF assms(1), OF disjI1]
         name_records_Ok [OF assms(1), OF disjI2] split: option.splits)
next
  case False
  then show ?thesis using name_error_unchanged [OF assms(1,6)] assms(3) by blast
qed

text \<open>
  A registered name resolves. A name whose record is missing or expired can be registered by anyone; right afterwards it resolves to its target,
  or to its owner when it has none, and the target's reverse entry leads back to the name. The time must not be at the end of the \<open>u64\<close> range, where
  a lease is over as soon as it starts.
\<close>

theorem name_register_resolves:
  assumes "name_ext_ok X" and "name_normalize raw = Inr n" and "get_json (js_name_record X) s (rec_key n) = Inr found"
    and "\<forall>e. found = Some e \<longrightarrow> is_expired e (name_now X s)" and "duration = 0 \<or> name_now X s \<noteq> - 1"
  shows "\<exists>out s'. name_dispatch X cmd (NmRegister raw duration target) s = (Ok out, s') \<and>
    resolve X s' raw = Some (case target of None \<Rightarrow> cmd_submitter cmd | Some t \<Rightarrow> t) \<and>
    (\<forall>t. target = Some t \<longrightarrow> reverse_lookup X s' t = Some n)"
proof -
  let ?now = "name_now X s"
  let ?rec = "\<lparr>nr_name = n, nr_owner = cmd_submitter cmd, nr_target = target, nr_registered_at = ?now,
       nr_expires_at = (if duration = 0 then 0 else saturating_add ?now duration), nr_records = fmempty\<rparr>"
  let ?s0 = "case found of None \<Rightarrow> s | Some e \<Rightarrow> clear_reverse X (nr_target e) n s"
  let ?s' = "put_reverse X target n (put_record X ?rec ?s0)"
  have load: "normalized raw s = (Ok n, s)" "name_load X n s = (Ok found, s)"
    using assms(2,3) by (simp_all add: normalized_Ok name_load_def)
  have run: "\<exists>out. name_dispatch X cmd (NmRegister raw duration target) s = (Ok out, ?s')"
    using load assms(4)
    by (cases found) (simp_all add: name_dispatch_def name_register_def andthen_simps Let_def name_writes_ok [OF assms(1)] andthen_def)
  have live: "\<not> is_expired ?rec ?now"
  proof (cases "duration = 0")
    case False
    then have "?now \<noteq> - 1" using assms(5) by simp
    then have "unat ?now \<noteq> 2 ^ 64 - 1" using unat_minus_one_max [where 'a = 64] by (auto simp: word_unat_eq_iff)
    then have "unat ?now < 2 ^ 64 - 1" using unat_lt_max [of ?now] by simp
    moreover have "0 < unat duration" using False by (simp add: unat_gt_0)
    ultimately have "unat ?now < unat (saturating_add ?now duration)" by (simp add: unat_saturating_add)
    then show ?thesis by (simp add: is_expired_def word_le_nat_alt not_le)
  qed (simp add: is_expired_def)
  have "name_now X ?s' = ?now" "record_of X ?s' n = Some ?rec" "target = Some t \<Longrightarrow> reverse_of X ?s' t = Some n" for t
    using assms(1) by (cases found; simp add: name_cells)+
  then have "resolve X ?s' raw = Some (case target of None \<Rightarrow> cmd_submitter cmd | Some t \<Rightarrow> t)"
    and "target = Some t \<Longrightarrow> reverse_lookup X ?s' t = Some n" for t
    using live assms(2) normalize_idem [OF assms(2)]
    by (auto simp: resolve_def reverse_lookup_def name_lookup_def record_of_def reverse_of_def split: option.splits)
  with run show ?thesis by blast
qed

text \<open>
  Anyone can claim another party's reverse name. Registering a free name with a target does not ask the target: whatever the reverse entry of
  the target was, afterwards reverse lookup of the target returns the new name, and the owner of the old name cannot prevent it.
\<close>

theorem name_reverse_hijack:
  assumes "name_ext_ok X" and "name_normalize raw = Inr n" and "st_get s (rec_key n) = None"
    and "reverse_lookup X s victim = Some old" and "n \<noteq> old"
  shows "\<exists>out s'. name_dispatch X cmd (NmRegister raw 0 (Some victim)) s = (Ok out, s') \<and>
    reverse_lookup X s' victim = Some n \<and> resolve X s' old = Some victim"
proof -
  let ?rec = "\<lparr>nr_name = n, nr_owner = cmd_submitter cmd, nr_target = Some victim, nr_registered_at = name_now X s,
       nr_expires_at = 0, nr_records = fmempty\<rparr>"
  let ?s' = "put_reverse X (Some victim) n (put_record X ?rec s)"
  have "normalized raw s = (Ok n, s)" "name_load X n s = (Ok None, s)"
    using assms(2,3) by (simp_all add: normalized_Ok name_load_def get_json_get)
  then have run: "\<exists>out. name_dispatch X cmd (NmRegister raw 0 (Some victim)) s = (Ok out, ?s')"
    by (simp add: name_dispatch_def name_register_def andthen_simps Let_def name_writes_ok [OF assms(1)])
  have cells: "name_now X ?s' = name_now X s" "record_of X ?s' m = (if m = n then Some ?rec else record_of X s m)"
    "reverse_of X ?s' victim = Some n" for m
    using assms(1) by (auto simp: name_cells)
  have "reverse_lookup X ?s' victim = Some n"
    using cells normalize_idem [OF assms(2)]
    by (simp add: reverse_lookup_def name_lookup_def record_of_def reverse_of_def is_expired_def)
  moreover obtain rec m where old: "name_normalize old = Inr m" "record_of X s m = Some rec" "\<not> is_expired rec (name_now X s)" "nr_target rec = Some victim"
    using assms(4) by (auto simp: reverse_lookup_def name_lookup_def record_of_def split: option.splits sum.splits if_splits)
  then have "resolve X ?s' old = Some victim"
    using cells by (auto simp: resolve_def name_lookup_def record_of_def is_expired_def)
  ultimately show ?thesis using run by blast
qed

section \<open>Witnesses\<close>

lemma alice_label: "valid_label ''alice''" "valid_label ''shop''"
  by (simp_all add: valid_label_def label_char_codes)

lemma alice_veil: "name_normalize ''alice.veil'' = Inr ''alice.veil''" "name_normalize ''shop.veil'' = Inr ''shop.veil''"
  using normalize_normal [OF alice_label(1)] normalize_normal [OF alice_label(2)] by simp_all

definition alice_record :: name_record where
  "alice_record = \<lparr>nr_name = ''alice.veil'', nr_owner = PartyId ''alice'', nr_target = Some (PartyId ''alice''), nr_registered_at = 0,
     nr_expires_at = 0, nr_records = fmempty\<rparr>"

definition alice_names :: state_tree where
  "alice_names = put_reverse ref_name_ext (Some (PartyId ''alice'')) ''alice.veil'' (put_record ref_name_ext alice_record st_new)"

lemma alice_cells:
  "record_of ref_name_ext alice_names n = (if n = ''alice.veil'' then Some alice_record else None)"
  "reverse_of ref_name_ext alice_names t = (if t = PartyId ''alice'' then Some ''alice.veil'' else None)"
  "name_now ref_name_ext alice_names = 0" "names_ok ref_name_ext alice_names"
  by (auto simp: alice_names_def name_cells ref_name_ext_ok alice_record_def names_ok_def alice_veil)

theorem name_normalize_canonical_witness: "name_normalize ''alice.veil'' = Inr ''alice.veil'' \<and> (\<exists>l. ''alice.veil'' = l @ ''.veil'' \<and> length l \<le> 63)"
  using name_normalize_canonical [OF alice_veil(1)] by blast

theorem name_reverse_consistent_witness:
  "names_ok ref_name_ext (snd (name_dispatch ref_name_ext demo_command (NmRelease ''alice.veil'') alice_names))"
proof -
  obtain r s' where run: "name_dispatch ref_name_ext demo_command (NmRelease ''alice.veil'') alice_names = (r, s')" by force
  show ?thesis using name_reverse_consistent [OF ref_name_ext_ok alice_cells(4) run] by (simp add: run)
qed

theorem name_owner_protected_witness:
  "record_of ref_name_ext (snd (name_dispatch ref_name_ext (demo_command\<lparr>cmd_submitter := PartyId ''mallory''\<rparr>)
     (NmTransfer ''alice.veil'' (PartyId ''mallory'')) alice_names)) ''alice.veil'' = Some alice_record"
proof -
  obtain r s' where run: "name_dispatch ref_name_ext (demo_command\<lparr>cmd_submitter := PartyId ''mallory''\<rparr>)
     (NmTransfer ''alice.veil'' (PartyId ''mallory'')) alice_names = (r, s')" by force
  have "record_of ref_name_ext s' ''alice.veil'' = Some alice_record"
    by (rule name_owner_protected [OF ref_name_ext_ok alice_cells(4) _ _ _ run])
      (simp_all add: alice_cells is_expired_def, simp_all add: alice_record_def)
  then show ?thesis by (simp add: run)
qed

theorem name_register_resolves_witness:
  "\<exists>out s'. name_dispatch ref_name_ext demo_command (NmRegister ''shop.veil'' 60 None) st_new = (Ok out, s') \<and>
     resolve ref_name_ext s' ''shop.veil'' = Some (PartyId ''alice'')"
  using name_register_resolves [OF ref_name_ext_ok alice_veil(2), of st_new None 60 demo_command None]
  by (simp add: demo_command_def)

theorem name_reverse_hijack_witness:
  "reverse_lookup ref_name_ext alice_names (PartyId ''alice'') = Some ''alice.veil'' \<and>
   (\<exists>out s'. name_dispatch ref_name_ext (demo_command\<lparr>cmd_submitter := PartyId ''mallory''\<rparr>)
      (NmRegister ''shop.veil'' 0 (Some (PartyId ''alice''))) alice_names = (Ok out, s') \<and>
     reverse_lookup ref_name_ext s' (PartyId ''alice'') = Some ''shop.veil'')"
proof -
  have rev: "reverse_lookup ref_name_ext alice_names (PartyId ''alice'') = Some ''alice.veil''"
    using alice_cells alice_veil
    by (simp add: reverse_lookup_def name_lookup_def reverse_of_def record_of_def is_expired_def alice_record_def)
  have free: "st_get alice_names (rec_key ''shop.veil'') = None"
    by (simp add: alice_names_def put_reverse_def put_record_def cell_gets alice_record_def) (simp add: rec_key_def)
  show ?thesis
    using rev name_reverse_hijack [OF ref_name_ext_ok alice_veil(2) free rev, of "demo_command\<lparr>cmd_submitter := PartyId ''mallory''\<rparr>"] by auto
qed

end
