(* ===== verification/Evm_U256.thy ===== *)
theory Evm_U256
  imports Prelude
begin

unbundle bit_operations_syntax

text \<open>
  The 256-bit integers of the EVM (\<open>evm/src/u256.rs\<close>): four \<open>u64\<close> limbs, least significant first, with the
  carry, borrow and shift loops of the source. The reference is the type \<open>256 word\<close>: \<open>to_word\<close> reads the limbs,
  and every operation is proved to be the operation of that type.

  A loop \<open>for i in 0..4\<close> over the limbs of one or two arguments is a recursion over the list of limbs; a loop that
  writes to other positions is a \<open>fold\<close> of list updates over the indices. The signed 128-bit difference of
  \<open>overflowing_sub\<close> stays within \<open>2 ^ 65\<close> and is an \<open>int\<close>.
\<close>

datatype u256 = U256 u64 u64 u64 u64

fun limbs :: "u256 \<Rightarrow> u64 list" where
  "limbs (U256 a b c d) = [a, b, c, d]"

definition of_limbs :: "u64 list \<Rightarrow> u256" where
  "of_limbs xs = U256 (xs ! 0) (xs ! 1) (xs ! 2) (xs ! 3)"

datatype ordering = OrdLess | OrdEqual | OrdGreater

section \<open>Operations\<close>

definition U_ZERO :: u256 where
  "U_ZERO = U256 0 0 0 0"

definition U_ONE :: u256 where
  "U_ONE = U256 1 0 0 0"

definition from_u64 :: "u64 \<Rightarrow> u256" where
  "from_u64 v = U256 v 0 0 0"

definition be_limb :: "bytes \<Rightarrow> u64" where
  "be_limb bs = foldl (\<lambda>x b. push_bit 8 x OR ucast b) 0 bs"

definition from_big_endian :: "bytes \<Rightarrow> u256" where
  "from_big_endian bs =
     (let n = min (length bs) 32; buf = replicate (32 - n) 0 @ drop (length bs - n) bs;
          limb = (\<lambda>i. be_limb (take 8 (drop (i * 8) buf)))
      in U256 (limb 3) (limb 2) (limb 1) (limb 0))"

definition limb_be_bytes :: "u64 \<Rightarrow> bytes" where
  "limb_be_bytes x = map (\<lambda>j. ucast (drop_bit (56 - j * 8) x)) [0..<8]"

definition to_big_endian :: "u256 \<Rightarrow> bytes" where
  "to_big_endian v = concat (map (\<lambda>i. limb_be_bytes (limbs v ! (3 - i))) [0..<4])"

definition u_is_zero :: "u256 \<Rightarrow> bool" where
  "u_is_zero v \<longleftrightarrow> limbs v = [0, 0, 0, 0]"

definition low_u64 :: "u256 \<Rightarrow> u64" where
  "low_u64 v = limbs v ! 0"

definition low_u64_saturating :: "u256 \<Rightarrow> u64" where
  "low_u64_saturating v = (if limbs v ! 1 = 0 \<and> limbs v ! 2 = 0 \<and> limbs v ! 3 = 0 then limbs v ! 0 else - 1)"

text \<open>\<open>usize\<close> is 64 bits wide, as on every platform the node is built for; it is read as a \<open>nat\<close> below \<open>2 ^ 64\<close>.\<close>

definition low_usize :: "u256 \<Rightarrow> nat" where
  "low_usize v = unat (limbs v ! 0)"

definition bits_fit_usize :: "u256 \<Rightarrow> bool" where
  "bits_fit_usize v \<longleftrightarrow> limbs v ! 1 = 0 \<and> limbs v ! 2 = 0 \<and> limbs v ! 3 = 0 \<and> unat (limbs v ! 0) \<le> 2 ^ 64 - 1"

fun add_limbs :: "u64 list \<Rightarrow> u64 list \<Rightarrow> u128 \<Rightarrow> u64 list \<times> u128" where
  "add_limbs (x # xs) (y # ys) carry =
     (let sum = ucast x + ucast y + carry; (res, c) = add_limbs xs ys (drop_bit 64 sum) in (ucast sum # res, c))"
| "add_limbs _ _ carry = ([], carry)"

definition overflowing_add :: "u256 \<Rightarrow> u256 \<Rightarrow> u256 \<times> bool" where
  "overflowing_add a b = (case add_limbs (limbs a) (limbs b) 0 of (res, carry) \<Rightarrow> (of_limbs res, carry \<noteq> 0))"

definition u_wrapping_add :: "u256 \<Rightarrow> u256 \<Rightarrow> u256" where
  "u_wrapping_add a b = fst (overflowing_add a b)"

fun sub_limbs :: "u64 list \<Rightarrow> u64 list \<Rightarrow> int \<Rightarrow> u64 list \<times> int" where
  "sub_limbs (x # xs) (y # ys) borrow =
     (let diff = uint x - uint y - borrow in
      if diff < 0 then (let (res, b) = sub_limbs xs ys 1 in (word_of_int (diff + 2 ^ 64) # res, b))
      else (let (res, b) = sub_limbs xs ys 0 in (word_of_int diff # res, b)))"
| "sub_limbs _ _ borrow = ([], borrow)"

definition overflowing_sub :: "u256 \<Rightarrow> u256 \<Rightarrow> u256 \<times> bool" where
  "overflowing_sub a b = (case sub_limbs (limbs a) (limbs b) 0 of (res, borrow) \<Rightarrow> (of_limbs res, borrow \<noteq> 0))"

definition u_wrapping_sub :: "u256 \<Rightarrow> u256 \<Rightarrow> u256" where
  "u_wrapping_sub a b = fst (overflowing_sub a b)"

text \<open>One row of the schoolbook product: \<open>k\<close> is the position \<open>i + j\<close>.\<close>

fun mul_row :: "u64 \<Rightarrow> u64 list \<Rightarrow> nat \<Rightarrow> u128 \<Rightarrow> u64 list \<Rightarrow> u64 list" where
  "mul_row x (y # ys) k carry res =
     (let cur = ucast (res ! k) + ucast x * ucast y + carry in mul_row x ys (Suc k) (drop_bit 64 cur) (res[k := ucast cur]))"
| "mul_row x [] k carry res = res[k := res ! k + ucast carry]"

fun mul_rows :: "u64 list \<Rightarrow> u64 list \<Rightarrow> nat \<Rightarrow> u64 list \<Rightarrow> u64 list" where
  "mul_rows (x # xs) ys i res = mul_rows xs ys (Suc i) (mul_row x ys i 0 res)"
| "mul_rows [] ys i res = res"

definition u_wrapping_mul :: "u256 \<Rightarrow> u256 \<Rightarrow> u256" where
  "u_wrapping_mul a b = of_limbs (mul_rows (limbs a) (limbs b) 0 (replicate 8 0))"

fun cmp_limbs :: "u64 list \<Rightarrow> u64 list \<Rightarrow> ordering" where
  "cmp_limbs (x # xs) (y # ys) = (if x = y then cmp_limbs xs ys else if x < y then OrdLess else OrdGreater)"
| "cmp_limbs _ _ = OrdEqual"

definition cmp_u :: "u256 \<Rightarrow> u256 \<Rightarrow> ordering" where
  "cmp_u a b = cmp_limbs (rev (limbs a)) (rev (limbs b))"

definition u_lt :: "u256 \<Rightarrow> u256 \<Rightarrow> bool" where
  "u_lt a b \<longleftrightarrow> cmp_u a b = OrdLess"

definition u_bit :: "u256 \<Rightarrow> nat \<Rightarrow> bool" where
  "u_bit v i \<longleftrightarrow> (if 256 \<le> i then False else drop_bit (i mod 64) (limbs v ! (i div 64)) AND 1 = 1)"

fun bit_len_from :: "u256 \<Rightarrow> nat \<Rightarrow> nat" where
  "bit_len_from v 0 = 0"
| "bit_len_from v (Suc i) = (if u_bit v i then i + 1 else bit_len_from v i)"

definition bit_len :: "u256 \<Rightarrow> nat" where
  "bit_len v = bit_len_from v 256"

definition u_shl :: "u256 \<Rightarrow> nat \<Rightarrow> u256" where
  "u_shl v sh =
     (if 256 \<le> sh then U_ZERO
      else let word = sh div 64; b = sh mod 64;
               put = (\<lambda>i out. if i + word < 4 then
                        (let out1 = out[i + word := out ! (i + word) OR push_bit b (limbs v ! i)] in
                         if 0 < b \<and> i + word + 1 < 4
                         then out1[i + word + 1 := out1 ! (i + word + 1) OR drop_bit (64 - b) (limbs v ! i)] else out1)
                      else out)
           in of_limbs (fold put [0..<4] [0, 0, 0, 0]))"

definition u_shr :: "u256 \<Rightarrow> nat \<Rightarrow> u256" where
  "u_shr v sh =
     (if 256 \<le> sh then U_ZERO
      else let word = sh div 64; b = sh mod 64;
               put = (\<lambda>i out. if word \<le> i then
                        (let out1 = out[i - word := out ! (i - word) OR drop_bit b (limbs v ! i)] in
                         if 0 < b \<and> 1 \<le> i - word
                         then out1[i - word - 1 := out1 ! (i - word - 1) OR push_bit (64 - b) (limbs v ! i)] else out1)
                      else out)
           in of_limbs (fold put [0..<4] [0, 0, 0, 0]))"

text \<open>The bit by bit long division: the loop goes from the highest bit of the dividend down.\<close>

definition set_low_bit :: "u256 \<Rightarrow> u256" where
  "set_low_bit v = of_limbs ((limbs v)[0 := limbs v ! 0 OR 1])"

definition set_bit_at :: "u256 \<Rightarrow> nat \<Rightarrow> u256" where
  "set_bit_at q i = of_limbs ((limbs q)[i div 64 := limbs q ! (i div 64) OR push_bit (i mod 64) 1])"

fun div_loop :: "u256 \<Rightarrow> u256 \<Rightarrow> nat \<Rightarrow> u256 \<times> u256 \<Rightarrow> u256 \<times> u256" where
  "div_loop v rhs 0 (q, rem) = (q, rem)"
| "div_loop v rhs (Suc i) (q, rem) =
     (let rem1 = u_shl rem 1; rem2 = (if u_bit v i then set_low_bit rem1 else rem1) in
      if cmp_u rem2 rhs \<noteq> OrdLess then div_loop v rhs i (set_bit_at q i, u_wrapping_sub rem2 rhs)
      else div_loop v rhs i (q, rem2))"

definition div_mod :: "u256 \<Rightarrow> u256 \<Rightarrow> u256 \<times> u256" where
  "div_mod v rhs =
     (if u_is_zero rhs then (U_ZERO, U_ZERO)
      else if u_lt v rhs then (U_ZERO, v)
      else div_loop v rhs (bit_len v) (U_ZERO, U_ZERO))"

definition u_and :: "u256 \<Rightarrow> u256 \<Rightarrow> u256" where
  "u_and a b = of_limbs (map2 (AND) (limbs a) (limbs b))"

definition u_or :: "u256 \<Rightarrow> u256 \<Rightarrow> u256" where
  "u_or a b = of_limbs (map2 (OR) (limbs a) (limbs b))"

definition u_xor :: "u256 \<Rightarrow> u256 \<Rightarrow> u256" where
  "u_xor a b = of_limbs (map2 (XOR) (limbs a) (limbs b))"

definition u_not :: "u256 \<Rightarrow> u256" where
  "u_not a = of_limbs (map (\<lambda>x. NOT x) (limbs a))"

definition is_neg :: "u256 \<Rightarrow> bool" where
  "is_neg a \<longleftrightarrow> u_bit a 255"

definition u_neg :: "u256 \<Rightarrow> u256" where
  "u_neg a = u_wrapping_add (u_not a) U_ONE"

section \<open>Limbs as a number\<close>

fun limbs_val :: "u64 list \<Rightarrow> nat" where
  "limbs_val [] = 0"
| "limbs_val (x # xs) = unat x + 2 ^ 64 * limbs_val xs"

definition u_val :: "u256 \<Rightarrow> nat" where
  "u_val v = limbs_val (limbs v)"

definition to_word :: "u256 \<Rightarrow> 256 word" where
  "to_word v = of_nat (u_val v)"

lemma length_limbs [simp]: "length (limbs v) = 4"
  by (cases v) simp

lemma limbs_of_limbs: "length xs = 4 \<Longrightarrow> limbs (of_limbs xs) = xs"
  by (auto simp: of_limbs_def numeral_eq_Suc length_Suc_conv)

lemma of_limbs_limbs [simp]: "of_limbs (limbs v) = v"
  by (cases v) (simp add: of_limbs_def)

lemma limbs_inj: "limbs v = limbs w \<longleftrightarrow> v = w"
  by (metis of_limbs_limbs)

lemma limbs_val_less: "limbs_val xs < 2 ^ (64 * length xs)"
proof (induction xs)
  case (Cons x xs)
  have "unat x < 2 ^ 64" using unsigned_less [of x, where 'a = nat] by simp
  with Cons have "unat x + 2 ^ 64 * limbs_val xs < 2 ^ 64 * (limbs_val xs + 1)" "limbs_val xs + 1 \<le> 2 ^ (64 * length xs)"
    by (simp_all add: algebra_simps)
  then have "unat x + 2 ^ 64 * limbs_val xs < 2 ^ 64 * 2 ^ (64 * length xs)"
    by (meson less_le_trans mult_le_mono2)
  then show ?case by (simp add: power_add)
qed simp

lemma limb_bits:
  fixes a m :: nat
  assumes "a < 2 ^ n"
  shows "bit (a + 2 ^ n * m) i = (if i < n then bit a i else bit m (i - n))"
proof (cases "i < n")
  case True
  then have "(2::nat) ^ n = 2 ^ i * (2 * 2 ^ (n - i - 1))"
    by (metis Suc_diff_Suc diff_Suc_eq_diff_pred le_add_diff_inverse less_imp_le_nat mult.left_commute mult_2 power_Suc power_add diff_Suc_1 minus_nat.diff_0)
  then have "a + 2 ^ n * m = a + 2 ^ i * (2 * (2 ^ (n - i - 1) * m))" by (simp only: mult.assoc)
  then have "(a + 2 ^ n * m) div 2 ^ i = a div 2 ^ i + 2 * (2 ^ (n - i - 1) * m)" by (metis add.commute div_mult_self2 power_not_zero zero_neq_numeral)
  then show ?thesis using True by (simp add: bit_iff_odd)
next
  case False
  then have "(2::nat) ^ i = 2 ^ n * 2 ^ (i - n)" by (simp flip: power_add)
  then have "(a + 2 ^ n * m) div 2 ^ i = m div 2 ^ (i - n)" using assms by (simp add: div_mult2_eq)
  then show ?thesis using False by (simp add: bit_iff_odd)
qed

lemma limbs_val_bit: "bit (limbs_val xs) i \<longleftrightarrow> i div 64 < length xs \<and> bit (xs ! (i div 64)) (i mod 64)"
proof (induction xs arbitrary: i)
  case (Cons x xs)
  have b: "bit (limbs_val (x # xs)) i = (if i < 64 then bit (unat x) i else bit (limbs_val xs) (i - 64))"
    using limb_bits [of "unat x" 64 "limbs_val xs" i] unsigned_less [of x, where 'a = nat] by simp
  show ?case
  proof (cases "i < 64")
    case False
    then have "i div 64 = Suc ((i - 64) div 64)" "i mod 64 = (i - 64) mod 64" by (simp_all add: div_if mod_if)
    with False b Cons show ?thesis by simp
  qed (use b in \<open>simp add: bit_unsigned_iff\<close>)
qed simp

lemma u_val_less: "u_val v < 2 ^ 256"
  using limbs_val_less [of "limbs v"] by (simp add: u_val_def)

lemma unat_to_word [simp]: "unat (to_word v) = u_val v"
  using u_val_less [of v] by (simp add: to_word_def unsigned_of_nat take_bit_nat_eq_self)

lemma bit_to_word: "bit (to_word v) i \<longleftrightarrow> i < 256 \<and> bit (limbs v ! (i div 64)) (i mod 64)"
proof -
  have "bit (to_word v) i \<longleftrightarrow> bit (u_val v) i" using bit_unsigned_iff [of "to_word v" i, where 'a = nat] by (auto simp: dest: bit_imp_possible_bit)
  then show ?thesis by (auto simp: u_val_def limbs_val_bit)
qed

lemma u256_eqI:
  assumes "\<And>q. q < 4 \<Longrightarrow> limbs v ! q = limbs w ! q"
  shows "v = w"
proof -
  have "limbs v = limbs w" by (rule nth_equalityI) (simp_all add: assms)
  then show ?thesis by (simp add: limbs_inj)
qed

lemma to_word_inj [simp]: "to_word v = to_word w \<longleftrightarrow> v = w"
proof
  assume e: "to_word v = to_word w"
  show "v = w"
  proof (rule u256_eqI, rule bit_word_eqI)
    fix q i :: nat
    assume "q < 4" "i < LENGTH(64)"
    then have "(64 * q + i) div 64 = q" "(64 * q + i) mod 64 = i" "64 * q + i < 256" by simp_all
    then show "bit (limbs v ! q) i = bit (limbs w ! q) i" using e bit_to_word [of v "64 * q + i"] bit_to_word [of w "64 * q + i"] by simp
  qed
qed simp

lemma to_word_of_val: "u_val v = n \<Longrightarrow> to_word v = of_nat n"
  by (simp add: to_word_def)

section \<open>Addition, subtraction and multiplication\<close>

lemma u64_unat_less: "unat (x :: u64) < 18446744073709551616"
  using unsigned_less [of x, where 'a = nat] by simp

lemma u64_uint_range: "0 \<le> uint (x :: u64) \<and> uint x < 18446744073709551616"
  using unsigned_less [of x, where 'a = int] by simp

lemma int_unat_word: "0 \<le> z \<Longrightarrow> z < 2 ^ 64 \<Longrightarrow> int (unat (word_of_int z :: u64)) = z"
  by (simp add: unsigned_of_int take_bit_int_eq_self)

lemma unat_widen: "unat (ucast (x :: u64) :: u128) = unat x"
  using u64_unat_less [of x] by (simp add: unsigned_ucast_eq take_bit_nat_eq_self)

lemma unat_wide_parts:
  "unat (drop_bit 64 (s :: u128)) = unat s div 2 ^ 64" "unat (ucast s :: u64) = unat s mod 2 ^ 64"
  by (simp_all add: unsigned_ucast_eq take_bit_eq_mod drop_bit_eq_div unat_div)

lemma add_limbs_val:
  "length xs = length ys \<Longrightarrow> unat carry \<le> 1 \<Longrightarrow> add_limbs xs ys carry = (res, c) \<Longrightarrow>
   length res = length xs \<and> unat c \<le> 1 \<and>
   limbs_val res + 2 ^ (64 * length xs) * unat c = limbs_val xs + limbs_val ys + unat carry"
proof (induction xs ys carry arbitrary: res c rule: add_limbs.induct)
  case (1 x xs y ys carry)
  let ?s = "ucast x + ucast y + carry :: u128"
  let ?n = "unat x + unat y + unat carry"
  obtain rs where r: "add_limbs xs ys (drop_bit 64 ?s) = (rs, c)" "res = ucast ?s # rs"
    using 1(4) by (auto simp: Let_def split: prod.splits)
  have n: "unat ?s = ?n"
    using 1(3) u64_unat_less [of x] u64_unat_less [of y] by (simp add: unat_word_ariths unsigned_ucast_eq take_bit_nat_eq_self)
  then have d: "unat (drop_bit 64 ?s) = ?n div 2 ^ 64" "unat (ucast ?s :: u64) = ?n mod 2 ^ 64"
    by (simp_all only: unat_wide_parts)
  have "unat (drop_bit 64 ?s) \<le> 1" using 1(3) u64_unat_less [of x] u64_unat_less [of y] unfolding d by simp
  from 1(1) [OF refl _ this r(1)] 1(2)
  have IH: "length rs = length xs" "unat c \<le> 1"
    "limbs_val rs + 2 ^ (64 * length xs) * unat c = limbs_val xs + limbs_val ys + ?n div 2 ^ 64" by (simp_all add: d)
  have "2 ^ 64 * (limbs_val rs + 2 ^ (64 * length xs) * unat c) = 2 ^ 64 * (limbs_val xs + limbs_val ys + ?n div 2 ^ 64)"
    unfolding IH(3) ..
  moreover have "?n = ?n mod 2 ^ 64 + 2 ^ 64 * (?n div 2 ^ 64)" by simp
  ultimately have "?n mod 2 ^ 64 + 2 ^ 64 * limbs_val rs + 2 ^ (64 + 64 * length xs) * unat c =
      ?n + 2 ^ 64 * limbs_val xs + 2 ^ 64 * limbs_val ys"
    unfolding power_add distrib_left by linarith
  then show ?case using IH(1,2) by (simp add: r(2) d)
qed auto

lemma overflowing_add_val:
  "u_val (fst (overflowing_add a b)) = (u_val a + u_val b) mod 2 ^ 256"
  "snd (overflowing_add a b) \<longleftrightarrow> 2 ^ 256 \<le> u_val a + u_val b"
proof -
  obtain res c where r: "add_limbs (limbs a) (limbs b) 0 = (res, c)" by fastforce
  from add_limbs_val [OF _ _ r]
  have e: "length res = 4" "unat c \<le> 1" "limbs_val res + 2 ^ 256 * unat c = u_val a + u_val b" by (simp_all add: u_val_def)
  have less: "limbs_val res < 2 ^ 256" using limbs_val_less [of res] e(1) by simp
  show "u_val (fst (overflowing_add a b)) = (u_val a + u_val b) mod 2 ^ 256"
    using less by (simp add: overflowing_add_def r u_val_def [of "of_limbs res"] limbs_of_limbs e(1) e(3) [symmetric] del: power_numeral)
  have "c \<noteq> 0 \<longleftrightarrow> unat c = 1" using e(2) by (auto simp: unat_eq_0 [symmetric] le_Suc_eq)
  then show "snd (overflowing_add a b) \<longleftrightarrow> 2 ^ 256 \<le> u_val a + u_val b"
    using less e(2) unfolding e(3) [symmetric] by (auto simp: overflowing_add_def r le_Suc_eq)
qed

lemma sub_limbs_val:
  "length xs = length ys \<Longrightarrow> borrow \<in> {0, 1} \<Longrightarrow> sub_limbs xs ys borrow = (res, b) \<Longrightarrow>
   length res = length xs \<and> b \<in> {0, 1} \<and>
   int (limbs_val res) = int (limbs_val xs) - int (limbs_val ys) - borrow + 2 ^ (64 * length xs) * b"
proof (induction xs ys borrow arbitrary: res b rule: sub_limbs.induct)
  case (1 x xs y ys borrow)
  let ?d = "uint x - uint y - borrow"
  let ?c = "if ?d < 0 then 1 else 0 :: int"
  obtain rs where r: "sub_limbs xs ys ?c = (rs, b)" "res = word_of_int (?d + 2 ^ 64 * ?c) # rs"
    using 1(5) by (auto simp: Let_def split: prod.splits if_splits)
  have bounds: "0 \<le> ?d + 2 ^ 64 * ?c" "?d + 2 ^ 64 * ?c < 2 ^ 64"
    using 1(4) by (auto; use u64_uint_range [of x] u64_uint_range [of y] in linarith)+
  then have d: "int (unat (word_of_int (?d + 2 ^ 64 * ?c) :: u64)) = ?d + 2 ^ 64 * ?c"
    by (rule int_unat_word)
  have IH: "length rs = length xs \<and> b \<in> {0, 1} \<and>
      int (limbs_val rs) = int (limbs_val xs) - int (limbs_val ys) - ?c + 2 ^ (64 * length xs) * b"
    using 1(1) [of ?d] 1(2) [of ?d] r(1) 1(3) by (auto split: if_splits)
  then have "2 ^ 64 * int (limbs_val rs) = 2 ^ 64 * (int (limbs_val xs) - int (limbs_val ys) - ?c + 2 ^ (64 * length xs) * b)" by simp
  then have "int (unat (word_of_int (?d + 2 ^ 64 * ?c) :: u64)) + 2 ^ 64 * int (limbs_val rs) =
      ?d + 2 ^ 64 * int (limbs_val xs) - 2 ^ 64 * int (limbs_val ys) + 2 ^ (64 + 64 * length xs) * b"
    unfolding d power_add by (simp only: algebra_simps)
  then show ?case using IH by (simp add: r(2))
qed auto

lemma overflowing_sub_val:
  "int (u_val (fst (overflowing_sub a b))) = (int (u_val a) - int (u_val b)) mod 2 ^ 256"
  "snd (overflowing_sub a b) \<longleftrightarrow> u_val a < u_val b"
proof -
  obtain res c where r: "sub_limbs (limbs a) (limbs b) 0 = (res, c)" by fastforce
  from sub_limbs_val [OF _ _ r]
  have e: "length res = 4" "c \<in> {0, 1}" "int (limbs_val res) = int (u_val a) - int (u_val b) + 2 ^ 256 * c" by (simp_all add: u_val_def)
  have less: "limbs_val res < 2 ^ 256" using limbs_val_less [of res] e(1) by simp
  then have "int (limbs_val res) = int (limbs_val res) mod 2 ^ 256" by simp
  also have "\<dots> = (int (u_val a) - int (u_val b)) mod 2 ^ 256" unfolding e(3) by (rule mod_mult_self2)
  finally show "int (u_val (fst (overflowing_sub a b))) = (int (u_val a) - int (u_val b)) mod 2 ^ 256"
    by (simp add: overflowing_sub_def r u_val_def [of "of_limbs res"] limbs_of_limbs e(1) del: power_numeral)
  show "snd (overflowing_sub a b) \<longleftrightarrow> u_val a < u_val b"
    using less e(2,3) u_val_less [of a] u_val_less [of b] by (auto simp: overflowing_sub_def r)
qed

lemma limbs_val_update:
  "k < length xs \<Longrightarrow> limbs_val (xs[k := v]) + 2 ^ (64 * k) * unat (xs ! k) = limbs_val xs + 2 ^ (64 * k) * unat v"
proof (induction xs arbitrary: k)
  case (Cons x xs)
  show ?case
  proof (cases k)
    case (Suc j)
    then have "limbs_val (xs[j := v]) + 2 ^ (64 * j) * unat (xs ! j) = limbs_val xs + 2 ^ (64 * j) * unat v" using Cons by simp
    then have "2 ^ 64 * (limbs_val (xs[j := v]) + 2 ^ (64 * j) * unat (xs ! j)) = 2 ^ 64 * (limbs_val xs + 2 ^ (64 * j) * unat v)" by (simp only:)
    then show ?thesis using Suc by (simp add: power_add algebra_simps)
  qed simp
qed simp

lemma length_mul_row [simp]: "length (mul_row x ys k carry res) = length res"
  by (induction x ys k carry res rule: mul_row.induct) (simp_all add: Let_def)

lemma mul_step_fits:
  fixes r x y c :: nat
  assumes "r < 2 ^ 64" "x < 2 ^ 64" "y < 2 ^ 64" "c < 2 ^ 64"
  shows "r + x * y + c < 2 ^ 128"
proof -
  have "x * y \<le> (2 ^ 64 - 1) * (2 ^ 64 - 1)" using assms by (intro mult_le_mono) simp_all
  then show ?thesis using assms by simp
qed

lemma mul_row_val:
  "k + length ys < length res \<Longrightarrow> res ! (k + length ys) = 0 \<Longrightarrow> unat carry < 2 ^ 64 \<Longrightarrow>
   limbs_val (mul_row x ys k carry res) = limbs_val res + 2 ^ (64 * k) * (unat x * limbs_val ys + unat carry)"
proof (induction x ys k carry res rule: mul_row.induct)
  case (1 x y ys k carry res)
  let ?cur = "ucast (res ! k) + ucast x * ucast y + carry :: u128"
  let ?n = "unat (res ! k) + unat x * unat y + unat carry"
  have "?n < 2 ^ 128" using 1(4) u64_unat_less by (intro mul_step_fits) simp_all
  moreover have "unat x * unat y < 2 ^ 128" using \<open>?n < 2 ^ 128\<close> by simp
  ultimately have n: "unat ?cur = ?n" by (simp add: unat_word_ariths unat_widen)
  have d: "unat (drop_bit 64 ?cur) = ?n div 2 ^ 64" "unat (ucast ?cur :: u64) = ?n mod 2 ^ 64"
    unfolding unat_wide_parts n by simp_all
  let ?r = "res[k := ucast ?cur]"
  have "limbs_val ?r + 2 ^ (64 * k) * unat (res ! k) = limbs_val res + 2 ^ (64 * k) * (?n mod 2 ^ 64)"
    using limbs_val_update [of k res "ucast ?cur"] 1(2) by (simp add: d)
  moreover have "2 ^ (64 * k) * ?n = 2 ^ (64 * k) * (?n mod 2 ^ 64) + 2 ^ (64 * Suc k) * (?n div 2 ^ 64)"
  proof -
    have "2 ^ (64 * k) * ?n = 2 ^ (64 * k) * (?n mod 2 ^ 64 + 2 ^ 64 * (?n div 2 ^ 64))" by simp
    then show ?thesis unfolding distrib_left mult_Suc_right power_add by (simp only: ac_simps)
  qed
  ultimately have e: "limbs_val ?r + 2 ^ (64 * Suc k) * (unat x * limbs_val ys + ?n div 2 ^ 64) =
      limbs_val res + 2 ^ (64 * k) * (unat x * limbs_val (y # ys) + unat carry)"
    unfolding limbs_val.simps mult_Suc_right power_add distrib_left distrib_right by (simp only: ac_simps)
  have "limbs_val (mul_row x ys (Suc k) (drop_bit 64 ?cur) ?r) =
      limbs_val ?r + 2 ^ (64 * Suc k) * (unat x * limbs_val ys + unat (drop_bit 64 ?cur))"
    by (rule 1(1) [OF refl]) (use 1(2,3) \<open>?n < 2 ^ 128\<close> in \<open>simp_all add: d less_mult_imp_div_less\<close>)
  then show ?case unfolding d e by (simp add: Let_def)
next
  case (2 x k carry res)
  then have "unat (ucast carry :: u64) = unat carry" by (simp add: unat_wide_parts)
  then show ?case using limbs_val_update [of k res "ucast carry"] 2 by simp
qed

lemma limbs_val_append: "limbs_val (xs @ ys) = limbs_val xs + 2 ^ (64 * length xs) * limbs_val ys"
  by (induction xs) (simp_all add: power_add algebra_simps)

lemma high_limb_zero:
  assumes "limbs_val xs < 2 ^ (64 * n)" "n < length xs"
  shows "xs ! n = 0"
proof -
  have "xs = take n xs @ xs ! n # drop (Suc n) xs" using assms(2) by (rule id_take_nth_drop)
  then have v: "limbs_val xs = limbs_val (take n xs) + 2 ^ (64 * n) * (unat (xs ! n) + 2 ^ 64 * limbs_val (drop (Suc n) xs))"
    using assms(2) limbs_val_append [of "take n xs" "xs ! n # drop (Suc n) xs"] by simp
  have "unat (xs ! n) = 0"
  proof (rule ccontr)
    assume "unat (xs ! n) \<noteq> 0"
    then have "2 ^ (64 * n) * 1 \<le> 2 ^ (64 * n) * (unat (xs ! n) + 2 ^ 64 * limbs_val (drop (Suc n) xs))"
      by (intro mult_le_mono2) linarith
    with v assms(1) show False by linarith
  qed
  then show ?thesis by (simp add: unat_eq_0)
qed

lemma mul_rows_val:
  "length ys = 4 \<Longrightarrow> i + length xs + 4 \<le> length res \<Longrightarrow> limbs_val res < 2 ^ (64 * (i + 4)) \<Longrightarrow>
   limbs_val (mul_rows xs ys i res) = limbs_val res + 2 ^ (64 * i) * (limbs_val xs * limbs_val ys) \<and>
   length (mul_rows xs ys i res) = length res"
proof (induction xs ys i res rule: mul_rows.induct)
  case (1 x xs ys i res)
  let ?r = "mul_row x ys i 0 res"
  have r: "limbs_val ?r = limbs_val res + 2 ^ (64 * i) * (unat x * limbs_val ys)"
    using mul_row_val [of i ys res 0 x] high_limb_zero [OF 1(4)] 1(2,3) by simp
  have "limbs_val ?r < 2 ^ (64 * (Suc i + 4))"
  proof -
    have ys: "limbs_val ys < 2 ^ 256" using limbs_val_less [of ys] 1(2) by simp
    have "unat x * limbs_val ys \<le> (2 ^ 64 - 1) * 2 ^ 256"
      using ys u64_unat_less [of x] by (intro mult_le_mono) simp_all
    then have "2 ^ (64 * i) * (unat x * limbs_val ys) \<le> 2 ^ (64 * i) * ((2 ^ 64 - 1) * 2 ^ 256)" by (rule mult_le_mono2)
    moreover have "limbs_val res < 2 ^ (64 * i) * 2 ^ 256" using 1(4) by (simp add: power_add)
    moreover have "(2::nat) ^ (64 * (Suc i + 4)) = 2 ^ (64 * i) * 2 ^ 256 + 2 ^ (64 * i) * ((2 ^ 64 - 1) * 2 ^ 256)"
      by (simp add: power_add)
    ultimately show ?thesis unfolding r by linarith
  qed
  then have IH: "limbs_val (mul_rows xs ys (Suc i) ?r) = limbs_val ?r + 2 ^ (64 * Suc i) * (limbs_val xs * limbs_val ys)"
    "length (mul_rows xs ys (Suc i) ?r) = length res" using 1(1) [of] 1(2,3) by simp_all
  have "limbs_val res + 2 ^ (64 * i) * (unat x * limbs_val ys) + 2 ^ (64 * Suc i) * (limbs_val xs * limbs_val ys) =
      limbs_val res + 2 ^ (64 * i) * (limbs_val (x # xs) * limbs_val ys)"
    unfolding limbs_val.simps mult_Suc_right power_add distrib_left distrib_right by (simp only: ac_simps)
  then show ?case using IH r by simp
qed simp

lemma full_product:
  "limbs_val (mul_rows (limbs a) (limbs b) 0 (replicate 8 0)) = u_val a * u_val b"
  "length (mul_rows (limbs a) (limbs b) 0 (replicate 8 0)) = 8"
proof -
  have "limbs_val (replicate n 0) = 0" for n by (induction n) simp_all
  then show "limbs_val (mul_rows (limbs a) (limbs b) 0 (replicate 8 0)) = u_val a * u_val b"
    "length (mul_rows (limbs a) (limbs b) 0 (replicate 8 0)) = 8"
    using mul_rows_val [of "limbs b" 0 "limbs a" "replicate 8 0"] by (simp_all add: u_val_def)
qed

lemma wrapping_mul_val: "u_val (u_wrapping_mul a b) = (u_val a * u_val b) mod 2 ^ 256"
proof -
  let ?r = "mul_rows (limbs a) (limbs b) 0 (replicate 8 0)"
  have "limbs_val ?r mod 2 ^ 256 = limbs_val (take 4 ?r @ drop 4 ?r) mod 2 ^ 256" by simp
  also have "\<dots> = limbs_val (take 4 ?r) mod 2 ^ 256" unfolding limbs_val_append using full_product(2) [of a b] by simp
  also have "\<dots> = limbs_val (take 4 ?r)" using limbs_val_less [of "take 4 ?r"] full_product(2) [of a b] by simp
  also have "take 4 ?r = limbs (of_limbs ?r)" using full_product(2) [of a b] by (auto simp: of_limbs_def numeral_eq_Suc length_Suc_conv)
  finally show ?thesis using full_product(1) [of a b] by (simp add: u_val_def u_wrapping_mul_def)
qed

section \<open>Bits, comparison and shifts\<close>

lemma to_word_zero: "to_word U_ZERO = 0" "to_word U_ONE = 1"
  by (simp_all add: to_word_def u_val_def U_ZERO_def U_ONE_def)

lemma of_nat_mod_word: "(of_nat (n mod 2 ^ 256) :: 256 word) = of_nat n" "(of_int (z mod 2 ^ 256) :: 256 word) = of_int z"
  by (simp_all add: word_eq_iff_unsigned [where 'a = int] unsigned_of_nat unsigned_of_int take_bit_eq_mod)

lemma to_word_add: "to_word (u_wrapping_add a b) = to_word a + to_word b"
  unfolding to_word_def u_wrapping_add_def overflowing_add_val of_nat_mod_word by (rule of_nat_add)

lemma to_word_mul: "to_word (u_wrapping_mul a b) = to_word a * to_word b"
  unfolding to_word_def wrapping_mul_val of_nat_mod_word by (rule of_nat_mult)

lemma to_word_sub: "to_word (u_wrapping_sub a b) = to_word a - to_word b"
proof -
  have "to_word v = of_int (int (u_val v))" for v by (simp add: to_word_def)
  then show ?thesis by (simp only: u_wrapping_sub_def overflowing_sub_val of_nat_mod_word of_int_diff)
qed

lemma u_bit_word: "u_bit v i \<longleftrightarrow> bit (to_word v) i"
  by (cases "256 \<le> i") (simp_all add: u_bit_def bit_to_word and_one_eq odd_iff_mod_2_eq_one [symmetric] bit_iff_odd_drop_bit [of "limbs v ! (i div 64)"])

lemma to_word_bitwise:
  "to_word (u_and a b) = to_word a AND to_word b" "to_word (u_or a b) = to_word a OR to_word b"
  "to_word (u_xor a b) = to_word a XOR to_word b" "to_word (u_not a) = NOT (to_word a)"
  by (rule bit_word_eqI; auto simp: bit_to_word u_and_def u_or_def u_xor_def u_not_def limbs_of_limbs bit_simps)+

lemma to_word_neg: "to_word (u_neg a) = - to_word a"
  by (simp add: u_neg_def to_word_add to_word_bitwise to_word_zero minus_eq_not_plus_1)

lemma cmp_limbs_val:
  "length xs = length ys \<Longrightarrow>
   cmp_limbs (rev xs) (rev ys) = (if limbs_val xs < limbs_val ys then OrdLess else if limbs_val xs = limbs_val ys then OrdEqual else OrdGreater)"
proof (induction xs arbitrary: ys rule: rev_induct)
  case (snoc x xs)
  then obtain y zs where y: "ys = zs @ [y]" "length zs = length xs" by (metis length_append_singleton length_Suc_conv_rev)
  have a: "limbs_val (xs @ [x]) = limbs_val xs + 2 ^ (64 * length xs) * unat x"
    "limbs_val (zs @ [y]) = limbs_val zs + 2 ^ (64 * length xs) * unat y" by (simp_all add: limbs_val_append y(2))
  have b: "limbs_val xs < 2 ^ (64 * length xs)" "limbs_val zs < 2 ^ (64 * length xs)"
    using limbs_val_less [of xs] limbs_val_less [of zs] y(2) by simp_all
  have lt: "m + p * i < n + p * j" if "m < p" "i < j" for m n p i j :: nat
  proof -
    have "p * i + p \<le> p * j" using that(2) by (metis Suc_leI add.commute mult_Suc_right mult_le_mono2)
    then show ?thesis using that(1) by linarith
  qed
  show ?case
  proof (cases "x = y")
    case True
    then show ?thesis using snoc.IH [OF y(2) [symmetric]] unfolding y(1) a by simp
  next
    case False
    then have "unat x \<noteq> unat y" by (simp add: word_eq_iff_unsigned [where 'a = nat])
    then show ?thesis
      using False lt [OF b(1), of "unat x" "unat y" "limbs_val zs"] lt [OF b(2), of "unat y" "unat x" "limbs_val xs"]
      unfolding y(1) a by (cases "unat x < unat y") (auto simp: word_less_nat_alt)
  qed
qed simp

lemma cmp_u_val: "cmp_u a b = (if u_val a < u_val b then OrdLess else if u_val a = u_val b then OrdEqual else OrdGreater)"
  using cmp_limbs_val [of "limbs a" "limbs b"] by (simp add: cmp_u_def u_val_def)

lemma u_val_inj: "u_val a = u_val b \<longleftrightarrow> a = b"
  by (metis to_word_inj to_word_def)

lemma u_lt_word: "u_lt a b \<longleftrightarrow> to_word a < to_word b"
  by (simp add: u_lt_def cmp_u_val word_less_nat_alt)

lemma u_is_zero_word: "u_is_zero a \<longleftrightarrow> to_word a = 0"
proof -
  have "u_is_zero a \<longleftrightarrow> a = U_ZERO" by (cases a) (simp add: u_is_zero_def U_ZERO_def)
  then show ?thesis by (metis to_word_inj to_word_zero(1))
qed

text \<open>The limb that a shift leaves at position \<open>q\<close>.\<close>

lemma fold_four: "fold f [0..<4] s = f 3 (f 2 (f 1 (f (0::nat) s)))"
  by (simp add: upt_rec numeral_eq_Suc)

lemma shl_limbs:
  assumes "sh < 256" "q < 4"
  shows "limbs (u_shl v sh) ! q =
    (if sh div 64 \<le> q then push_bit (sh mod 64) (limbs v ! (q - sh div 64)) else 0) OR
    (if 0 < sh mod 64 \<and> sh div 64 + 1 \<le> q then drop_bit (64 - sh mod 64) (limbs v ! (q - sh div 64 - 1)) else 0)"
proof -
  have "sh div 64 = 0 \<or> sh div 64 = 1 \<or> sh div 64 = 2 \<or> sh div 64 = 3" "q = 0 \<or> q = 1 \<or> q = 2 \<or> q = 3" using assms by linarith+
  then show ?thesis
    using assms(1) unfolding u_shl_def Let_def fold_four
    by (cases v) (elim disjE; simp add: of_limbs_def or.commute)
qed

lemma shr_limbs:
  assumes "sh < 256" "q < 4"
  shows "limbs (u_shr v sh) ! q =
    (if q + sh div 64 < 4 then drop_bit (sh mod 64) (limbs v ! (q + sh div 64)) else 0) OR
    (if 0 < sh mod 64 \<and> q + sh div 64 + 1 < 4 then push_bit (64 - sh mod 64) (limbs v ! (q + sh div 64 + 1)) else 0)"
proof -
  have "sh div 64 = 0 \<or> sh div 64 = 1 \<or> sh div 64 = 2 \<or> sh div 64 = 3" "q = 0 \<or> q = 1 \<or> q = 2 \<or> q = 3" using assms by linarith+
  then show ?thesis
    using assms(1) unfolding u_shr_def Let_def fold_four
    by (cases v) (elim disjE; simp add: of_limbs_def or.commute)
qed

lemma limb_index:
  assumes "i < (256::nat)"
  obtains q r where "q < 4" "r < 64" "i = 64 * q + r" "i div 64 = q" "i mod 64 = r"
  by (rule that [of "i div 64" "i mod 64"]) (use assms in simp_all)

lemma split_64: "b < 64 \<Longrightarrow> (64 * a + b) div 64 = a" "b < 64 \<Longrightarrow> (64 * a + b) mod 64 = b" for a b :: nat
  by simp_all

lemma no_high_bit: "64 \<le> n \<Longrightarrow> \<not> bit (x :: u64) n"
  by (rule notI, drule bit_imp_possible_bit) simp

lemma to_word_shl: "to_word (u_shl v sh) = push_bit sh (to_word v)"
proof (cases "sh < 256")
  case False
  then show ?thesis by (intro bit_word_eqI) (simp add: u_shl_def to_word_zero bit_push_bit_iff)
next
  case True
  show ?thesis
  proof (rule bit_word_eqI)
    fix i :: nat
    assume "i < LENGTH(256)"
    then have i: "i < 256" by simp
    then obtain q r where q: "q < 4" "r < 64" "i = 64 * q + r" "i div 64 = q" "i mod 64 = r" by (rule limb_index)
    from True obtain w s where w: "w < 4" "s < 64" "sh = 64 * w + s" "sh div 64 = w" "sh mod 64 = s" by (rule limb_index)
    have "bit (to_word (u_shl v sh)) i \<longleftrightarrow> w \<le> q \<and> s \<le> r \<and> bit (limbs v ! (q - w)) (r - s) \<or>
        0 < s \<and> w + 1 \<le> q \<and> bit (limbs v ! (q - w - 1)) (64 - s + r)"
      using q(2) by (simp add: bit_to_word i q(4,5) shl_limbs [OF True q(1)] w(4,5) bit_or_iff bit_push_bit_iff bit_drop_bit_eq)
    also have "\<dots> \<longleftrightarrow> sh \<le> i \<and> bit (to_word v) (i - sh)"
    proof (cases "s \<le> r")
      case s: True
      then have "sh \<le> i \<longleftrightarrow> w \<le> q" "i - sh = 64 * (q - w) + (r - s) \<or> q < w" using q(2,3) w(3) by auto
      moreover have "\<not> bit (limbs v ! (q - w - 1)) (64 - s + r)" "i - sh < 256" using s w(2) i by (auto intro!: no_high_bit)
      moreover have "(64 * (q - w) + (r - s)) div 64 = q - w" "(64 * (q - w) + (r - s)) mod 64 = r - s" using q(2) by (simp_all add: split_64)
      ultimately show ?thesis using s i by (auto simp: bit_to_word)
    next
      case s: False
      then have "sh \<le> i \<longleftrightarrow> w + 1 \<le> q" "i - sh = 64 * (q - w - 1) + (64 - s + r) \<or> q < w + 1" using q(2,3) w(2,3) by auto
      moreover have "(64 * (q - w - 1) + (64 - s + r)) div 64 = q - w - 1" "(64 * (q - w - 1) + (64 - s + r)) mod 64 = 64 - s + r"
        using s w(2) by (intro split_64; simp)+
      ultimately show ?thesis using s i by (auto simp: bit_to_word)
    qed
    finally show "bit (to_word (u_shl v sh)) i = bit (push_bit sh (to_word v)) i" using i by (auto simp: bit_push_bit_iff)
  qed
qed

lemma to_word_shr: "to_word (u_shr v sh) = drop_bit sh (to_word v)"
proof (cases "sh < 256")
  case False
  then have "\<not> bit (to_word v) (sh + i)" for i by (simp add: bit_to_word)
  with False show ?thesis by (intro bit_word_eqI) (simp add: u_shr_def to_word_zero bit_drop_bit_eq)
next
  case True
  show ?thesis
  proof (rule bit_word_eqI)
    fix i :: nat
    assume "i < LENGTH(256)"
    then have i: "i < 256" by simp
    then obtain q r where q: "q < 4" "r < 64" "i = 64 * q + r" "i div 64 = q" "i mod 64 = r" by (rule limb_index)
    from True obtain w s where w: "w < 4" "s < 64" "sh = 64 * w + s" "sh div 64 = w" "sh mod 64 = s" by (rule limb_index)
    have "bit (to_word (u_shr v sh)) i \<longleftrightarrow> q + w < 4 \<and> bit (limbs v ! (q + w)) (s + r) \<or>
        0 < s \<and> q + w + 1 < 4 \<and> 64 - s \<le> r \<and> bit (limbs v ! (q + w + 1)) (r - (64 - s))"
      using q(2) by (simp add: bit_to_word i q(4,5) shr_limbs [OF True q(1)] w(4,5) bit_or_iff bit_push_bit_iff bit_drop_bit_eq)
    also have "\<dots> \<longleftrightarrow> bit (to_word v) (sh + i)"
    proof (cases "s + r < 64")
      case s: True
      then have "sh + i = 64 * (q + w) + (s + r)" "sh + i < 256 \<longleftrightarrow> q + w < 4" using q(3) w(3) by auto
      moreover have "(64 * (q + w) + (s + r)) div 64 = q + w" "(64 * (q + w) + (s + r)) mod 64 = s + r" using s by (rule split_64)+
      ultimately show ?thesis using s by (auto simp: bit_to_word)
    next
      case s: False
      then have "sh + i = 64 * (q + w + 1) + (r - (64 - s))" "sh + i < 256 \<longleftrightarrow> q + w + 1 < 4" using q(2,3) w(2,3) by auto
      moreover have "(64 * (q + w + 1) + (r - (64 - s))) div 64 = q + w + 1" "(64 * (q + w + 1) + (r - (64 - s))) mod 64 = r - (64 - s)"
        using q(2) by (intro split_64; simp)+
      moreover have "\<not> bit (limbs v ! (q + w)) (s + r)" "64 - s \<le> r" "0 < s" using s q(2) by (auto intro!: no_high_bit)
      ultimately show ?thesis using s q(2) by (auto simp: bit_to_word)
    qed
    finally show "bit (to_word (u_shr v sh)) i = bit (drop_bit sh (to_word v)) i" by (simp add: bit_drop_bit_eq)
  qed
qed

section \<open>Division\<close>

lemma u_val_bit: "u_bit v i \<longleftrightarrow> odd (u_val v div 2 ^ i)"
proof -
  have "u_bit v i \<longleftrightarrow> bit (u_val v) i"
    using bit_unsigned_iff [of "to_word v" i, where 'a = nat] by (auto simp: u_bit_word dest: bit_imp_possible_bit)
  then show ?thesis by (simp add: bit_iff_odd)
qed

lemma bit_len_from_val: "u_val v < 2 ^ n \<Longrightarrow> bit_len_from v n \<le> n \<and> u_val v < 2 ^ bit_len_from v n"
proof (induction n)
  case (Suc n)
  show ?case
  proof (cases "u_bit v n")
    case False
    have "u_val v div 2 ^ n < 2" using Suc.prems by (simp add: less_mult_imp_div_less)
    with False have "u_val v div 2 ^ n = 0" by (auto simp: u_val_bit less_2_cases_iff)
    then have "u_val v < 2 ^ n" by (simp add: div_eq_0_iff)
    with Suc.IH False show ?thesis by auto
  qed (use Suc.prems in simp)
qed simp

lemma shl_one_val: "u_val v < 2 ^ 255 \<Longrightarrow> u_val (u_shl v 1) = 2 * u_val v"
proof -
  assume "u_val v < 2 ^ 255"
  then have "unat (2 * to_word v) = 2 * u_val v" by (simp add: unat_word_ariths)
  moreover have "to_word (u_shl v 1) = 2 * to_word v" by (simp add: to_word_shl push_bit_eq_mult mult.commute)
  ultimately show ?thesis by (metis unat_to_word)
qed

lemma div_mod_eq: "i div 64 = j div 64 \<Longrightarrow> i mod 64 = j mod 64 \<Longrightarrow> i = (j :: nat)"
  by (metis div_mult_mod_eq)

lemma unat_p2: "i < 256 \<Longrightarrow> unat (2 ^ i :: 256 word) = 2 ^ i"
  using unsigned_push_bit_eq [of i "1 :: 256 word", where 'a = nat]
  power_strict_increasing [of i 256 "2 :: nat"] by (simp add: push_bit_eq_mult take_bit_nat_eq_self)

lemma u_val_or:
  assumes "to_word w = to_word v OR push_bit i 1" "i < 256" "\<not> u_bit v i"
  shows "u_val w = u_val v + 2 ^ i"
proof -
  have "u_val w = unat (to_word v OR push_bit i 1)" by (simp only: assms(1) [symmetric] unat_to_word)
  also have "\<dots> = u_val v OR 2 ^ i"
    using assms(2) by (simp add: unsigned_or_eq unat_p2)
  also have "\<dots> = u_val v + 2 ^ i"
    by (rule disjunctive_add_eq_or [symmetric], rule bit_eqI) (use assms(3) in \<open>auto simp: bit_simps u_val_bit bit_iff_odd [of "u_val v"]\<close>)
  finally show ?thesis .
qed

lemma to_word_set_bit: "i < 256 \<Longrightarrow> to_word (set_bit_at q i) = to_word q OR push_bit i 1"
  by (rule bit_word_eqI)
    (auto simp: bit_to_word set_bit_at_def limbs_of_limbs nth_list_update bit_simps intro: div_mod_eq)

lemma set_low_bit_at: "set_low_bit v = set_bit_at v 0"
  by (simp add: set_low_bit_def set_bit_at_def)

lemma shift_in_val:
  "u_val rem < 2 ^ 255 \<Longrightarrow> u_val (if c then set_low_bit (u_shl rem 1) else u_shl rem 1) = 2 * u_val rem + of_bool c"
  using u_val_or [OF to_word_set_bit, of 0 "u_shl rem 1"] shl_one_val [of rem] by (simp add: set_low_bit_at u_val_bit)

lemma wrapping_sub_val: "u_val b \<le> u_val a \<Longrightarrow> u_val (u_wrapping_sub a b) = u_val a - u_val b"
proof -
  assume le: "u_val b \<le> u_val a"
  then have "int (u_val (u_wrapping_sub a b)) = int (u_val a - u_val b) mod 2 ^ 256"
    by (simp add: u_wrapping_sub_def overflowing_sub_val of_nat_diff)
  moreover have "u_val a - u_val b < 2 ^ 256" using u_val_less [of a] by simp
  ultimately show ?thesis by (simp add: mod_pos_pos_trivial)
qed

lemma long_division_step:
  fixes X Y d b :: nat
  assumes "Y = 2 * X + b" "b < 2" "0 < d"
  shows "d \<le> 2 * (X mod d) + b \<Longrightarrow> Y mod d = 2 * (X mod d) + b - d \<and> Y div d = 2 * (X div d) + 1"
    and "\<not> d \<le> 2 * (X mod d) + b \<Longrightarrow> Y mod d = 2 * (X mod d) + b \<and> Y div d = 2 * (X div d)"
proof -
  let ?r = "2 * (X mod d) + b"
  have Y: "Y = d * (2 * (X div d)) + ?r"
  proof -
    have "2 * X = 2 * (d * (X div d) + X mod d)" by simp
    then show ?thesis using assms(1) by (simp only: distrib_left ac_simps)
  qed
  have r: "?r < 2 * d" using mod_less_divisor [OF assms(3), of X] assms(2) by linarith
  show "Y mod d = ?r \<and> Y div d = 2 * (X div d)" if "\<not> d \<le> ?r" unfolding Y using that by simp
  show "Y mod d = ?r - d \<and> Y div d = 2 * (X div d) + 1" if "d \<le> ?r"
  proof -
    have "Y = d * (2 * (X div d) + 1) + (?r - d)" using Y that by simp
    moreover have "?r - d < d" using r that by simp
    ultimately show ?thesis using div_mult_self2 [of d "?r - d" "2 * (X div d) + 1"] mod_mult_self4 [of d "2 * (X div d) + 1" "?r - d"]
      by (simp only: add.commute div_less mod_less add_0_left add_0_right)
  qed
qed

lemma div_loop_val:
  "i \<le> 256 \<Longrightarrow> 0 < u_val rhs \<Longrightarrow> u_val q = (u_val v div 2 ^ i div u_val rhs) * 2 ^ i \<Longrightarrow>
   u_val rem = u_val v div 2 ^ i mod u_val rhs \<Longrightarrow> div_loop v rhs i (q, rem) = (q', rem') \<Longrightarrow>
   u_val q' = u_val v div u_val rhs \<and> u_val rem' = u_val v mod u_val rhs"
proof (induction i arbitrary: q rem)
  case (Suc i)
  let ?x = "u_val v" and ?d = "u_val rhs"
  let ?X = "?x div 2 ^ Suc i" and ?Y = "?x div 2 ^ i" and ?b = "of_bool (u_bit v i) :: nat"
  define rem2 where "rem2 = (if u_bit v i then set_low_bit (u_shl rem 1) else u_shl rem 1)"
  have Y: "?Y = 2 * ?X + ?b"
  proof -
    have "?X = ?Y div 2" by (simp add: div_mult2_eq mult.commute [of 2])
    then show ?thesis by (simp add: u_val_bit mod_2_eq_odd [symmetric])
  qed
  have "?X < 2 ^ 255"
  proof -
    have "?X \<le> ?x div 2" by (simp add: div_le_mono2)
    then show ?thesis using u_val_less [of v] by simp
  qed
  then have "u_val rem < 2 ^ 255" using Suc.prems(4) by (metis le_less_trans mod_less_eq_dividend)
  then have r2: "u_val rem2 = 2 * (?X mod ?d) + ?b" unfolding rem2_def by (simp add: shift_in_val Suc.prems(4))
  have q: "u_val q = ?X div ?d * 2 ^ Suc i" by (rule Suc.prems(3))
  have step: "div_loop v rhs (Suc i) (q, rem) =
      (if ?d \<le> u_val rem2 then div_loop v rhs i (set_bit_at q i, u_wrapping_sub rem2 rhs) else div_loop v rhs i (q, rem2))"
    by (simp add: Let_def rem2_def cmp_u_val)
  show ?case
  proof (cases "?d \<le> u_val rem2")
    case True
    then have ys: "?Y mod ?d = 2 * (?X mod ?d) + ?b - ?d" "?Y div ?d = 2 * (?X div ?d) + 1"
      using long_division_step(1) [OF Y _ Suc.prems(2)] r2 by simp_all
    have "u_val (u_wrapping_sub rem2 rhs) = u_val rem2 - ?d" using True by (rule wrapping_sub_val)
    moreover have "u_val (set_bit_at q i) = u_val q + 2 ^ i"
      using Suc.prems(1) q by (intro u_val_or [OF to_word_set_bit]) (simp_all add: u_val_bit)
    ultimately show ?thesis
      using Suc.IH [of "set_bit_at q i" "u_wrapping_sub rem2 rhs"] Suc.prems(1,2,5) True q ys r2 step by (simp add: algebra_simps)
  next
    case False
    then have ys: "?Y mod ?d = 2 * (?X mod ?d) + ?b" "?Y div ?d = 2 * (?X div ?d)"
      using long_division_step(2) [OF Y _ Suc.prems(2)] r2 by simp_all
    then show ?thesis using Suc.IH [of q rem2] Suc.prems(1,2,5) False q r2 step by simp
  qed
qed simp

lemma div_mod_val:
  "u_val (fst (div_mod v w)) = u_val v div u_val w" "u_val (snd (div_mod v w)) = (if u_val w = 0 then 0 else u_val v mod u_val w)"
proof -
  have z: "u_val U_ZERO = 0" "u_is_zero w \<longleftrightarrow> u_val w = 0"
    using unat_eq_0 [of "to_word w"] by (simp_all add: u_is_zero_word) (simp add: u_val_def U_ZERO_def)
  have "u_val v < 2 ^ 256" by (rule u_val_less)
  from bit_len_from_val [OF this] have b: "bit_len v \<le> 256" "u_val v < 2 ^ bit_len v" by (simp_all add: bit_len_def)
  obtain q r where l: "div_loop v w (bit_len v) (U_ZERO, U_ZERO) = (q, r)" by fastforce
  have "0 < u_val w \<Longrightarrow> u_val q = u_val v div u_val w \<and> u_val r = u_val v mod u_val w"
    by (rule div_loop_val [OF b(1) _ _ _ l]) (use b(2) z(1) in simp_all)
  then show "u_val (fst (div_mod v w)) = u_val v div u_val w" "u_val (snd (div_mod v w)) = (if u_val w = 0 then 0 else u_val v mod u_val w)"
    by (auto simp: div_mod_def z u_lt_def cmp_u_val l)
qed

lemma to_word_div: "to_word (fst (div_mod v w)) = to_word v div to_word w"
  by (simp add: to_word_def div_mod_val(1) word_arith_nat_div unat_to_word [unfolded to_word_def])

lemma to_word_mod: "to_word (snd (div_mod v w)) = (if to_word w = 0 then 0 else to_word v mod to_word w)"
  by (simp add: to_word_def div_mod_val(2) word_arith_nat_mod unat_to_word [unfolded to_word_def] unat_eq_0 [symmetric])

section \<open>Bytes\<close>

lemma le_value_append: "le_value (xs @ ys) = le_value xs + 256 ^ length xs * le_value ys"
  by (induction xs) (simp_all add: algebra_simps)

lemma le_value_less: "le_value bs < 256 ^ length bs"
proof (induction bs)
  case (Cons b bs)
  then have "unat b + 256 * le_value bs < 256 * (le_value bs + 1)" using unsigned_less [of b, where 'a = nat] by simp
  also have "\<dots> \<le> 256 * 256 ^ length bs" using Cons by (intro mult_le_mono2) simp
  finally show ?case by simp
qed simp

lemma le_bytes_le_value: "le_bytes (length bs) (le_value bs) = bs"
proof (induction bs)
  case (Cons b bs)
  have "unat b < 256" using unsigned_less [of b, where 'a = nat] by simp
  then have "(unat b + 256 * le_value bs) mod 256 = unat b" "(unat b + 256 * le_value bs) div 256 = le_value bs" by simp_all
  with Cons show ?case by simp
qed simp

lemma be_limb_value: "be_limb bs = of_nat (le_value (rev bs))"
proof (induction bs rule: rev_induct)
  case (snoc b bs)
  have "push_bit 8 x OR ucast b = push_bit 8 x + ucast b" for x :: u64
    by (rule disjunctive_add_eq_or [symmetric], rule bit_word_eqI)
      (auto simp: bit_simps dest: bit_imp_possible_bit)
  then have "be_limb (bs @ [b]) = 256 * be_limb bs + ucast b" by (simp add: be_limb_def push_bit_eq_mult)
  then show ?case using snoc by (simp add: unsigned_of_nat)
qed (simp add: be_limb_def)

lemma nth_le_bytes: "k < n \<Longrightarrow> le_bytes n x ! k = of_nat (x div 256 ^ k)"
proof (induction n arbitrary: k x)
  case (Suc n)
  have "(of_nat (x mod 256) :: u8) = of_nat x" by (rule bit_word_eqI) (simp add: bit_simps take_bit_eq_mod [of 8, symmetric, simplified])
  with Suc show ?case by (cases k) (simp_all add: div_mult2_eq)
qed simp

lemma limb_be_bytes_le: "limb_be_bytes x = u64_to_be_bytes x"
proof -
  have "(ucast (drop_bit s x) :: u8) = of_nat (unat x div 2 ^ s)" for s
    by (rule bit_word_eqI) (simp add: bit_simps drop_bit_eq_div [symmetric] bit_unsigned_iff)
  moreover have "(256::nat) ^ k = 2 ^ (8 * k)" for k by (simp add: power_mult)
  ultimately show ?thesis
    by (intro nth_equalityI) (simp_all add: limb_be_bytes_def u64_to_be_bytes_def length_le_bytes rev_nth nth_le_bytes diff_mult_distrib2 mult.commute)
qed

lemma big_endian_limb: "length bs = 8 \<Longrightarrow> limb_be_bytes (be_limb bs) = bs" "be_limb (limb_be_bytes x) = x"
proof -
  assume l: "length bs = 8"
  then have "unat (be_limb bs) = le_value (rev bs)"
    using le_value_less [of "rev bs"] by (simp add: be_limb_value unsigned_of_nat take_bit_nat_eq_self)
  then show "limb_be_bytes (be_limb bs) = bs" using le_bytes_le_value [of "rev bs"] l by (simp add: limb_be_bytes_le u64_to_be_bytes_def)
qed (use u64_be_roundtrip [of x] in \<open>simp add: be_limb_value limb_be_bytes_le u64_from_be_bytes_def\<close>)

lemma length_limb_be_bytes [simp]: "length (limb_be_bytes x) = 8"
  by (simp add: limb_be_bytes_def)

lemma to_big_endian_limbs:
  "to_big_endian (U256 a b c d) = limb_be_bytes d @ limb_be_bytes c @ limb_be_bytes b @ limb_be_bytes a"
  by (simp add: to_big_endian_def upt_rec)

lemma length_to_big_endian [simp]: "length (to_big_endian v) = 32"
  by (cases v) (simp add: to_big_endian_limbs)

lemma from_big_endian_32:
  "length bs = 32 \<Longrightarrow> from_big_endian bs =
    U256 (be_limb (take 8 (drop 24 bs))) (be_limb (take 8 (drop 16 bs))) (be_limb (take 8 (drop 8 bs))) (be_limb (take 8 bs))"
  unfolding from_big_endian_def Let_def
  by (simp only: min.idem diff_self_eq_0 replicate_0 drop_0 append_Nil mult_0 mult_1 arith_simps)

lemma from_to_big_endian [simp]: "from_big_endian (to_big_endian v) = v"
proof (cases v)
  case (U256 a b c d)
  let ?A = "limb_be_bytes a" and ?B = "limb_be_bytes b" and ?C = "limb_be_bytes c" and ?D = "limb_be_bytes d"
  have "take 8 (?D @ ?C @ ?B @ ?A) = ?D" "take 8 (drop 8 (?D @ ?C @ ?B @ ?A)) = ?C" "take 8 (drop 16 (?D @ ?C @ ?B @ ?A)) = ?B"
    "take 8 (drop 24 (?D @ ?C @ ?B @ ?A)) = ?A" by (simp_all only: take_append drop_append length_limb_be_bytes) simp_all
  moreover have "length (?D @ ?C @ ?B @ ?A) = 32" by simp
  ultimately show ?thesis unfolding U256 to_big_endian_limbs by (simp only: from_big_endian_32 big_endian_limb)
qed

lemma to_from_big_endian:
  assumes "length bs = 32"
  shows "to_big_endian (from_big_endian bs) = bs"
proof -
  have "to_big_endian (from_big_endian bs) =
      take 8 bs @ take 8 (drop 8 bs) @ take 8 (drop 16 bs) @ take 8 (drop 24 bs)"
    unfolding from_big_endian_32 [OF assms] to_big_endian_limbs by (simp add: big_endian_limb(1) assms)
  also have "take 8 (drop 24 bs) = drop 24 bs" using assms by simp
  also have "take 8 (drop 16 bs) @ drop 24 bs = drop 16 bs" using append_take_drop_id [of 8 "drop 16 bs"] by (simp add: drop_drop)
  also have "take 8 (drop 8 bs) @ drop 16 bs = drop 8 bs" using append_take_drop_id [of 8 "drop 8 bs"] by (simp add: drop_drop)
  finally show ?thesis by simp
qed

section \<open>Properties\<close>

text \<open>
  C21. The four-limb arithmetic of \<open>U256\<close> is the arithmetic of 256-bit machine words: addition, subtraction, multiplication and negation wrap
  modulo \<open>2 ^ 256\<close>, \<open>div_mod\<close> gives quotient and remainder (both zero for a zero divisor), shifts by any amount, the bitwise operations,
  the comparison and the test of a bit are those of the word, the carry and borrow flags tell whether the exact result leaves the range, and
  the limbs determine the word.
\<close>

theorem u256_is_word_arithmetic:
  "to_word (u_wrapping_add a b) = to_word a + to_word b \<and> (snd (overflowing_add a b) \<longleftrightarrow> 2 ^ 256 \<le> unat (to_word a) + unat (to_word b)) \<and>
   to_word (u_wrapping_sub a b) = to_word a - to_word b \<and> (snd (overflowing_sub a b) \<longleftrightarrow> to_word a < to_word b) \<and>
   to_word (u_wrapping_mul a b) = to_word a * to_word b \<and> to_word (u_neg a) = - to_word a \<and>
   to_word (fst (div_mod a b)) = to_word a div to_word b \<and>
   to_word (snd (div_mod a b)) = (if to_word b = 0 then 0 else to_word a mod to_word b) \<and>
   to_word (u_shl a n) = push_bit n (to_word a) \<and> to_word (u_shr a n) = drop_bit n (to_word a) \<and>
   to_word (u_and a b) = to_word a AND to_word b \<and> to_word (u_or a b) = to_word a OR to_word b \<and>
   to_word (u_xor a b) = to_word a XOR to_word b \<and> to_word (u_not a) = NOT (to_word a) \<and>
   (u_lt a b \<longleftrightarrow> to_word a < to_word b) \<and> (u_bit a n \<longleftrightarrow> bit (to_word a) n) \<and> (to_word a = to_word b \<longleftrightarrow> a = b)"
  by (intro conjI to_word_add to_word_sub to_word_mul to_word_neg to_word_div to_word_mod to_word_shl to_word_shr to_word_bitwise
      u_lt_word u_bit_word to_word_inj)
    (simp_all add: overflowing_add_val overflowing_sub_val word_less_nat_alt del: power_numeral)

text \<open>
  The 32 big-endian bytes of a \<open>U256\<close> round trip in both directions.
\<close>

theorem u256_bytes_roundtrip:
  assumes "length bs = 32"
  shows "from_big_endian (to_big_endian v) = v \<and> length (to_big_endian v) = 32 \<and> to_big_endian (from_big_endian bs) = bs"
  using to_from_big_endian [OF assms] by simp

theorem u256_bytes_roundtrip_witness:
  "from_big_endian (to_big_endian U_ONE) = U_ONE \<and> length (to_big_endian U_ONE) = 32 \<and>
   to_big_endian (from_big_endian (replicate 31 0 @ [7])) = replicate 31 0 @ [7]"
  by (rule u256_bytes_roundtrip) simp

end
