(* ===== verification/Evm_Field.thy ===== *)
theory Evm_Field
  imports Evm_U256
begin

unbundle bit_operations_syntax

text \<open>
  The BN254 curve arithmetic behind the precompiled contracts 6 and 7 (\<open>evm/src/bn254.rs\<close>): arithmetic modulo the field prime on \<open>U256\<close>
  with the full 512-bit product, and the affine group operations. The field operations are proved to be arithmetic modulo \<open>p\<close>; that
  the affine formulas form a group is not shown, as it needs the primality of the modulus.
\<close>

definition bn_modulus :: u256 where
  "bn_modulus = from_big_endian
     [0x30, 0x64, 0x4e, 0x72, 0xe1, 0x31, 0xa0, 0x29, 0xb8, 0x50, 0x45, 0xb6, 0x81, 0x81, 0x58,
      0x5d, 0x97, 0x81, 0x6a, 0x91, 0x68, 0x71, 0xca, 0x8d, 0x3c, 0x20, 0x8c, 0x16, 0xd8, 0x7c,
      0xfd, 0x47]"

definition bn_addmod :: "u256 \<Rightarrow> u256 \<Rightarrow> u256 \<Rightarrow> u256" where
  "bn_addmod a b p =
     (let (sum, carry) = overflowing_add a b in if carry \<or> cmp_u sum p \<noteq> OrdLess then u_wrapping_sub sum p else sum)"

definition bn_submod :: "u256 \<Rightarrow> u256 \<Rightarrow> u256 \<Rightarrow> u256" where
  "bn_submod a b p = (if cmp_u a b = OrdLess then u_wrapping_sub (u_wrapping_add a p) b else u_wrapping_sub a b)"

text \<open>The loops of \<open>full_mul\<close> are those of \<open>wrapping_mul\<close>, with all eight limbs kept.\<close>

definition full_mul :: "u256 \<Rightarrow> u256 \<Rightarrow> u64 list" where
  "full_mul a b = mul_rows (limbs a) (limbs b) 0 (replicate 8 0)"

definition prod_bit :: "u64 list \<Rightarrow> nat \<Rightarrow> bool" where
  "prod_bit prd i \<longleftrightarrow> drop_bit (i mod 64) (prd ! (i div 64)) AND 1 = 1"

fun reduce_loop :: "u64 list \<Rightarrow> u256 \<Rightarrow> nat \<Rightarrow> u256 \<Rightarrow> u256" where
  "reduce_loop prd p 0 rem = rem"
| "reduce_loop prd p (Suc i) rem =
     (let rem1 = (if prod_bit prd i then set_low_bit (u_shl rem 1) else u_shl rem 1) in
      reduce_loop prd p i (if cmp_u rem1 p \<noteq> OrdLess then u_wrapping_sub rem1 p else rem1))"

definition reduce_512 :: "u64 list \<Rightarrow> u256 \<Rightarrow> u256" where
  "reduce_512 prd p = reduce_loop prd p 512 U_ZERO"

definition bn_mulmod :: "u256 \<Rightarrow> u256 \<Rightarrow> u256 \<Rightarrow> u256" where
  "bn_mulmod a b p = reduce_512 (full_mul a b) p"

lemma shr_one_val: "u_val (u_shr v (Suc 0)) = u_val v div 2"
proof -
  have "u_val (u_shr v (Suc 0)) = unat (drop_bit (Suc 0) (to_word v))" by (metis to_word_shr unat_to_word)
  then show ?thesis by (simp add: unsigned_drop_bit_eq drop_bit_eq_div take_bit_eq_mod unat_div)
qed

lemma u_is_zero_val: "u_is_zero v \<longleftrightarrow> u_val v = 0"
  using unat_eq_0 [of "to_word v"] by (simp add: u_is_zero_word)

function pow_loop :: "(u256 \<Rightarrow> u256 \<Rightarrow> u256) \<Rightarrow> u256 \<Rightarrow> u256 \<Rightarrow> u256 \<Rightarrow> u256" where
  "pow_loop mul result base exp =
     (if u_is_zero exp then result
      else pow_loop mul (if u_bit exp 0 then mul result base else result) (mul base base) (u_shr exp 1))"
  by pat_completeness auto

termination
  by (relation "measure (\<lambda>(_, _, _, e). u_val e)") (auto simp: u_is_zero_val shr_one_val)

declare pow_loop.simps [simp del]

definition powmod :: "u256 \<Rightarrow> u256 \<Rightarrow> u256 \<Rightarrow> u256" where
  "powmod a e p = pow_loop (\<lambda>x y. bn_mulmod x y p) U_ONE (snd (div_mod a p)) e"

definition invmod :: "u256 \<Rightarrow> u256 \<Rightarrow> u256" where
  "invmod a p = powmod a (u_wrapping_sub p (from_u64 2)) p"

record g1 =
  g1_x :: u256
  g1_y :: u256
  g1_infinity :: bool

definition g1_inf :: g1 where
  "g1_inf = \<lparr>g1_x = U_ZERO, g1_y = U_ZERO, g1_infinity = True\<rparr>"

definition g1_new :: "u256 \<Rightarrow> u256 \<Rightarrow> g1" where
  "g1_new x y = (if u_is_zero x \<and> u_is_zero y then g1_inf else \<lparr>g1_x = x, g1_y = y, g1_infinity = False\<rparr>)"

definition is_on_curve :: "g1 \<Rightarrow> bool" where
  "is_on_curve g \<longleftrightarrow> g1_infinity g \<or>
     (let p = bn_modulus; y2 = bn_mulmod (g1_y g) (g1_y g) p; x3 = bn_mulmod (bn_mulmod (g1_x g) (g1_x g) p) (g1_x g) p;
          rhs = bn_addmod x3 (from_u64 3) p
      in y2 = rhs)"

definition g1_double :: "g1 \<Rightarrow> g1" where
  "g1_double g =
     (if g1_infinity g \<or> u_is_zero (g1_y g) then g1_inf
      else let p = bn_modulus; three = from_u64 3; two = from_u64 2;
               num = bn_mulmod three (bn_mulmod (g1_x g) (g1_x g) p) p;
               den = invmod (bn_mulmod two (g1_y g) p) p;
               lambda = bn_mulmod num den p;
               x3 = bn_submod (bn_mulmod lambda lambda p) (bn_mulmod two (g1_x g) p) p;
               y3 = bn_submod (bn_mulmod lambda (bn_submod (g1_x g) x3 p) p) (g1_y g) p
           in g1_new x3 y3)"

definition g1_add :: "g1 \<Rightarrow> g1 \<Rightarrow> g1" where
  "g1_add g other =
     (if g1_infinity g then other
      else if g1_infinity other then g
      else let p = bn_modulus in
        if g1_x g = g1_x other then (if g1_y g = g1_y other then g1_double g else g1_inf)
        else let num = bn_submod (g1_y other) (g1_y g) p;
                 den = invmod (bn_submod (g1_x other) (g1_x g) p) p;
                 lambda = bn_mulmod num den p;
                 x3 = bn_submod (bn_submod (bn_mulmod lambda lambda p) (g1_x g) p) (g1_x other) p;
                 y3 = bn_submod (bn_mulmod lambda (bn_submod (g1_x g) x3 p) p) (g1_y g) p
             in g1_new x3 y3)"

function g1_mul_loop :: "g1 \<Rightarrow> g1 \<Rightarrow> u256 \<Rightarrow> g1" where
  "g1_mul_loop result base k =
     (if u_is_zero k then result
      else g1_mul_loop (if u_bit k 0 then g1_add result base else result) (g1_double base) (u_shr k 1))"
  by pat_completeness auto

termination
  by (relation "measure (\<lambda>(_, _, k). u_val k)") (auto simp: u_is_zero_val shr_one_val)

declare g1_mul_loop.simps [simp del]

definition g1_mul :: "g1 \<Rightarrow> u256 \<Rightarrow> g1" where
  "g1_mul g scalar = g1_mul_loop g1_inf g scalar"

definition g1_to_bytes :: "g1 \<Rightarrow> bytes" where
  "g1_to_bytes g = (if g1_infinity g then replicate 64 0 else to_big_endian (g1_x g) @ to_big_endian (g1_y g))"

text \<open>Copying at most \<open>n\<close> bytes of the input from an offset into a buffer of zeros\<close>

definition zero_padded :: "bytes \<Rightarrow> nat \<Rightarrow> nat \<Rightarrow> bytes" where
  "zero_padded input offset n = (let s = take n (drop offset input) in s @ replicate (n - length s) 0)"

definition read_point :: "bytes \<Rightarrow> nat \<Rightarrow> g1 option" where
  "read_point input offset =
     (let buf = zero_padded input offset 64; x = from_big_endian (take 32 buf); y = from_big_endian (drop 32 buf);
          pt = g1_new x y
      in if is_on_curve pt then Some pt else None)"

definition ec_add :: "bytes \<Rightarrow> bytes option" where
  "ec_add input = (case read_point input 0 of None \<Rightarrow> None | Some a \<Rightarrow>
     (case read_point input 64 of None \<Rightarrow> None | Some b \<Rightarrow> Some (g1_to_bytes (g1_add a b))))"

definition ec_mul :: "bytes \<Rightarrow> bytes option" where
  "ec_mul input = (case read_point input 0 of None \<Rightarrow> None | Some a \<Rightarrow>
     Some (g1_to_bytes (g1_mul a (from_big_endian (zero_padded input 64 32)))))"
section \<open>Field arithmetic\<close>

lemma prod_bit_val: "length prd = 8 \<Longrightarrow> i < 512 \<Longrightarrow> prod_bit prd i \<longleftrightarrow> odd (limbs_val prd div 2 ^ i)"
proof -
  assume "length prd = 8" "i < 512"
  then have "i div 64 < length prd" by simp
  then have "bit (limbs_val prd) i \<longleftrightarrow> bit (prd ! (i div 64)) (i mod 64)" by (simp only: limbs_val_bit simp_thms)
  then show ?thesis
    by (simp add: prod_bit_def and_one_eq odd_iff_mod_2_eq_one [symmetric] bit_iff_odd_drop_bit [of "prd ! (i div 64)"] bit_iff_odd [of "limbs_val prd"])
qed

lemma reduce_loop_val:
  "i \<le> 512 \<Longrightarrow> length prd = 8 \<Longrightarrow> 0 < u_val p \<Longrightarrow> u_val p \<le> 2 ^ 255 \<Longrightarrow> u_val rem = limbs_val prd div 2 ^ i mod u_val p \<Longrightarrow>
   u_val (reduce_loop prd p i rem) = limbs_val prd mod u_val p"
proof (induction i arbitrary: rem)
  case (Suc i)
  let ?P = "limbs_val prd" and ?d = "u_val p"
  let ?X = "?P div 2 ^ Suc i" and ?Y = "?P div 2 ^ i" and ?b = "of_bool (prod_bit prd i) :: nat"
  define rem1 where "rem1 = (if prod_bit prd i then set_low_bit (u_shl rem 1) else u_shl rem 1)"
  have Y: "?Y = 2 * ?X + ?b"
  proof -
    have "?X = ?Y div 2" by (simp add: div_mult2_eq mult.commute [of 2])
    then show ?thesis using Suc.prems(1,2) by (simp add: prod_bit_val mod_2_eq_odd [symmetric])
  qed
  have "u_val rem < 2 ^ 255" using mod_less_divisor [OF Suc.prems(3), of ?X] Suc.prems(4,5) by linarith
  then have r1: "u_val rem1 = 2 * (?X mod ?d) + ?b" unfolding rem1_def by (simp add: shift_in_val Suc.prems(5))
  let ?r = "if cmp_u rem1 p \<noteq> OrdLess then u_wrapping_sub rem1 p else rem1"
  have "u_val ?r = ?Y mod ?d"
    using long_division_step [OF Y _ Suc.prems(3)] r1 wrapping_sub_val [of p rem1] by (auto simp: cmp_u_val)
  moreover have "reduce_loop prd p (Suc i) rem = reduce_loop prd p i ?r" by (simp only: reduce_loop.simps Let_def rem1_def)
  ultimately show ?case using Suc.IH [of ?r] Suc.prems(1-4) by simp
qed simp

lemma u_val_consts [simp]: "u_val U_ZERO = 0" "u_val U_ONE = 1" "u_val (from_u64 v) = unat v"
  by (simp_all add: u_val_def U_ZERO_def U_ONE_def from_u64_def)

lemma bn_mulmod_val: "0 < u_val p \<Longrightarrow> u_val p \<le> 2 ^ 255 \<Longrightarrow> u_val (bn_mulmod a b p) = u_val a * u_val b mod u_val p"
proof -
  assume p: "0 < u_val p" "u_val p \<le> 2 ^ 255"
  have "limbs_val (full_mul a b) < 2 ^ 512" "length (full_mul a b) = 8"
    using limbs_val_less [of "full_mul a b"] by (simp_all add: full_mul_def full_product(2))
  then show ?thesis
    using reduce_loop_val [of 512 "full_mul a b" p U_ZERO] p
    by (simp add: bn_mulmod_def reduce_512_def) (simp add: full_mul_def full_product(1))
qed

lemma bn_addmod_val:
  assumes "u_val a < u_val p" "u_val b < u_val p" "u_val p \<le> 2 ^ 255"
  shows "u_val (bn_addmod a b p) = (u_val a + u_val b) mod u_val p"
proof -
  let ?s = "fst (overflowing_add a b)"
  have s: "u_val ?s = u_val a + u_val b" "\<not> snd (overflowing_add a b)" using assms by (simp_all add: overflowing_add_val)
  then have "bn_addmod a b p = (if u_val p \<le> u_val ?s then u_wrapping_sub ?s p else ?s)"
    by (simp add: bn_addmod_def Let_def split_beta cmp_u_val)
  moreover have "(u_val a + u_val b) mod u_val p = (if u_val p \<le> u_val a + u_val b then u_val a + u_val b - u_val p else u_val a + u_val b)"
    using assms by (simp add: mod_if)
  ultimately show ?thesis using wrapping_sub_val [of p ?s] s(1) by simp
qed

lemma bn_submod_val:
  assumes "u_val a < u_val p" "u_val b < u_val p" "u_val p \<le> 2 ^ 255"
  shows "u_val (bn_submod a b p) = (u_val a + (u_val p - u_val b)) mod u_val p"
proof (cases "u_val a < u_val b")
  case True
  have "u_val a + u_val p < 2 ^ 255 + 2 ^ 255" using assms by linarith
  then have "u_val a + u_val p < 2 ^ 256" by simp
  then have add: "u_val (u_wrapping_add a p) = u_val a + u_val p" by (simp add: u_wrapping_add_def overflowing_add_val)
  have "u_val (bn_submod a b p) = u_val (u_wrapping_add a p) - u_val b"
    using True assms(2) wrapping_sub_val [of b "u_wrapping_add a p"] by (simp only: bn_submod_def cmp_u_val if_True refl add)
  moreover have "u_val a + (u_val p - u_val b) < u_val p" using True assms(2) by linarith
  ultimately show ?thesis using assms(2) unfolding add by (simp only: mod_less)
next
  case False
  then have "u_val (bn_submod a b p) = u_val a - u_val b" by (simp add: bn_submod_def cmp_u_val wrapping_sub_val)
  moreover have "u_val a + (u_val p - u_val b) = (u_val a - u_val b) + u_val p" "u_val a - u_val b < u_val p"
    using False assms(1,2) by linarith+
  ultimately show ?thesis by (simp only: mod_add_self2 mod_less)
qed

lemma square_power: "(x :: nat) ^ n = (if odd n then x else 1) * (x * x) ^ (n div 2)"
proof -
  have "x ^ n = x ^ (2 * (n div 2) + n mod 2)" by simp
  also have "\<dots> = (x * x) ^ (n div 2) * x ^ (n mod 2)" unfolding power_add power_mult by (simp add: power2_eq_square)
  finally show ?thesis by (auto simp: mod_2_eq_odd)
qed

text \<open>Square and multiply with any multiplication that is exact modulo \<open>m\<close> on reduced operands\<close>

lemma pow_loop_val:
  assumes "0 < m" and "\<And>x y. u_val x < m \<Longrightarrow> u_val y < m \<Longrightarrow> u_val (mul x y) = u_val x * u_val y mod m"
  shows "u_val r < m \<Longrightarrow> u_val b < m \<Longrightarrow> u_val (pow_loop mul r b e) = u_val r * u_val b ^ u_val e mod m"
proof (induction "u_val e" arbitrary: r b e rule: less_induct)
  case less
  show ?case
  proof (cases "u_val e = 0")
    case False
    let ?r = "if u_bit e 0 then mul r b else r"
    have r: "u_val ?r = u_val r * (if odd (u_val e) then u_val b else 1) mod m" "u_val ?r < m"
      and b: "u_val (mul b b) = u_val b * u_val b mod m" "u_val (mul b b) < m"
      using assms less.prems by (simp_all add: u_val_bit)
    have "u_val (pow_loop mul r b e) = u_val (pow_loop mul ?r (mul b b) (u_shr e (Suc 0)))"
      using False by (subst pow_loop.simps) (simp add: u_is_zero_val)
    also have "\<dots> = u_val ?r * u_val (mul b b) ^ (u_val e div 2) mod m"
      using less.hyps [of "u_shr e (Suc 0)" ?r "mul b b"] False r(2) b(2) by (simp add: shr_one_val)
    also have "\<dots> = u_val r * (if odd (u_val e) then u_val b else 1) * (u_val b * u_val b) ^ (u_val e div 2) mod m"
      by (rule mod_mult_cong) (simp_all add: r(1) b(1) power_mod)
    finally show ?thesis using square_power [of "u_val b" "u_val e"] by (simp add: mult.assoc)
  qed (use less.prems in \<open>simp add: pow_loop.simps u_is_zero_val\<close>)
qed

lemma powmod_val:
  assumes "1 < u_val p" "u_val p \<le> 2 ^ 255"
  shows "u_val (powmod a e p) = u_val a ^ u_val e mod u_val p"
proof -
  have p: "0 < u_val p" using assms(1) by simp
  show ?thesis
    using pow_loop_val [where mul = "\<lambda>x y. bn_mulmod x y p", OF p bn_mulmod_val [OF p assms(2)], of U_ONE "snd (div_mod a p)" e] assms(1)
    by (simp add: powmod_def div_mod_val(2) power_mod)
qed

lemma bn_modulus_val: "u_val bn_modulus = 21888242871839275222246405745257275088696311157297823662689037894645226208583"
  by (simp add: bn_modulus_def from_big_endian_32 be_limb_value u_val_def)

lemma on_curve_iff:
  "is_on_curve g \<longleftrightarrow> g1_infinity g \<or>
   u_val (g1_y g) ^ 2 mod u_val bn_modulus = (u_val (g1_x g) ^ 3 + 3) mod u_val bn_modulus"
proof -
  let ?p = "u_val bn_modulus" and ?x = "u_val (g1_x g)" and ?y = "u_val (g1_y g)"
  have b: "0 < ?p" "?p \<le> 2 ^ 255" "3 < ?p" by (simp_all add: bn_modulus_val)
  note mul = bn_mulmod_val [OF b(1,2)]
  let ?x3 = "bn_mulmod (bn_mulmod (g1_x g) (g1_x g) bn_modulus) (g1_x g) bn_modulus"
  have x3: "u_val ?x3 = ?x ^ 3 mod ?p" by (simp add: mul mod_mult_left_eq power3_eq_cube)
  have "u_val (bn_addmod ?x3 (from_u64 3) bn_modulus) = (u_val ?x3 + 3) mod ?p"
    using bn_addmod_val [of ?x3 bn_modulus "from_u64 3"] b x3 by simp
  also have "\<dots> = (?x ^ 3 + 3) mod ?p" unfolding x3 by (rule mod_add_left_eq)
  finally have "u_val (bn_addmod ?x3 (from_u64 3) bn_modulus) = (?x ^ 3 + 3) mod ?p" .
  moreover have "u_val (bn_mulmod (g1_y g) (g1_y g) bn_modulus) = ?y ^ 2 mod ?p" by (simp add: mul power2_eq_square)
  ultimately show ?thesis unfolding is_on_curve_def Let_def u_val_inj [symmetric] by simp
qed

section \<open>Properties\<close>

text \<open>
  The field arithmetic of the curve precompiles is exact: for every modulus \<open>p\<close> with \<open>1 < p \<le> 2 ^ 255\<close>, multiplication with its 512-bit
  intermediate product and bitwise reduction is multiplication modulo \<open>p\<close>, the power loop is exponentiation modulo \<open>p\<close>, and on
  reduced operands addition and subtraction are those modulo \<open>p\<close>.
\<close>

theorem bn254_field_arithmetic:
  assumes "1 < u_val p" "u_val p \<le> 2 ^ 255"
  shows "u_val (bn_mulmod a b p) = u_val a * u_val b mod u_val p \<and> u_val (powmod a e p) = u_val a ^ u_val e mod u_val p \<and>
    (u_val a < u_val p \<and> u_val b < u_val p \<longrightarrow>
      u_val (bn_addmod a b p) = (u_val a + u_val b) mod u_val p \<and>
      u_val (bn_submod a b p) = (u_val a + (u_val p - u_val b)) mod u_val p)"
proof -
  have "0 < u_val p" using assms(1) by simp
  from bn_mulmod_val [OF this assms(2)] powmod_val [OF assms] bn_addmod_val [OF _ _ assms(2)] bn_submod_val [OF _ _ assms(2)]
  show ?thesis by blast
qed

theorem bn254_field_arithmetic_witness:
  "u_val (bn_mulmod U_ONE (from_u64 5) bn_modulus) = 5 \<and> u_val (powmod (from_u64 2) (from_u64 3) bn_modulus) = 8 \<and>
   u_val (bn_submod U_ONE (from_u64 5) bn_modulus) = u_val bn_modulus - 4"
  using bn254_field_arithmetic [of bn_modulus U_ONE "from_u64 5" "from_u64 3"] bn254_field_arithmetic [of bn_modulus "from_u64 2" U_ONE "from_u64 3"]
  by (simp add: bn_modulus_val)

text \<open>
  \<open>read_point\<close> does not require coordinates below the field modulus: the generator \<open>(1, 2)\<close> written with \<open>x = p + 1\<close> is accepted as
  a point of the curve that differs from the generator.
\<close>

theorem unreduced_point_accepted:
  "is_on_curve (g1_new U_ONE (from_u64 2)) \<and> is_on_curve (g1_new (u_wrapping_add bn_modulus U_ONE) (from_u64 2)) \<and>
   g1_new (u_wrapping_add bn_modulus U_ONE) (from_u64 2) \<noteq> g1_new U_ONE (from_u64 2)"
proof -
  have v: "u_val (u_wrapping_add bn_modulus U_ONE) = u_val bn_modulus + 1"
    by (simp add: u_wrapping_add_def overflowing_add_val bn_modulus_val)
  have "((P + 1) ^ 3 + 3) mod P = 4 mod P" for P :: nat
  proof -
    have "(P + 1) ^ 3 + 3 = 4 + P * (P * P + 3 * P + 3)" by (simp add: power3_eq_cube algebra_simps)
    then show ?thesis by (simp only: mod_mult_self2)
  qed
  note m = this [of "u_val bn_modulus"]
  have n: "g1_new x (from_u64 2) = \<lparr>g1_x = x, g1_y = from_u64 2, g1_infinity = False\<rparr>" for x by (simp add: g1_new_def u_is_zero_val)
  have "u_val (u_wrapping_add bn_modulus U_ONE) \<noteq> u_val U_ONE" unfolding v by (simp add: bn_modulus_val)
  then have "u_wrapping_add bn_modulus U_ONE \<noteq> U_ONE" by auto
  then show ?thesis unfolding on_curve_iff n by (simp only: g1.simps v m) simp
qed

end
