(* ===== verification/Evm_Rlp.thy ===== *)
theory Evm_Rlp
  imports Evm_U256
begin

unbundle bit_operations_syntax

text \<open>
  The recursive length prefix codec of the EVM crate (\<open>evm/src/rlp.rs\<close>): decoding with every error of the source, and the encoders
  of strings and lists. \<open>usize\<close> values are natural numbers below \<open>2 ^ 64\<close>; a checked addition and \<open>slice::get\<close> fail as in the source.
\<close>

datatype rlp_error = Eof | ExpectedString | ExpectedList | Trailing | NonCanonical

datatype rlp = RStr bytes | RList "rlp list"

definition usize_checked_add :: "nat \<Rightarrow> nat \<Rightarrow> nat option" where
  "usize_checked_add a b = (if a + b < 2 ^ 64 then Some (a + b) else None)"

definition get_range :: "'a list \<Rightarrow> nat \<Rightarrow> nat \<Rightarrow> 'a list option" where
  "get_range xs a b = (if a \<le> b \<and> b \<le> length xs then Some (take (b - a) (drop a xs)) else None)"

fun rlp_as_bytes :: "rlp \<Rightarrow> rlp_error + bytes" where
  "rlp_as_bytes (RStr b) = Inr b"
| "rlp_as_bytes (RList _) = Inl ExpectedString"

fun rlp_as_list :: "rlp \<Rightarrow> rlp_error + rlp list" where
  "rlp_as_list (RList items) = Inr items"
| "rlp_as_list (RStr _) = Inl ExpectedList"

definition rlp_as_u64 :: "rlp \<Rightarrow> rlp_error + u64" where
  "rlp_as_u64 r = (case rlp_as_bytes r of
      Inl e \<Rightarrow> Inl e
    | Inr b \<Rightarrow> if 8 < length b then Inl NonCanonical else Inr (foldl (\<lambda>v x. push_bit 8 v OR ucast x) 0 b))"

definition be_to_usize :: "bytes \<Rightarrow> rlp_error + nat" where
  "be_to_usize bs = (if bs = [] \<or> 8 < length bs then Inl NonCanonical
     else Inr (unat (foldl (\<lambda>v b. push_bit 8 v OR ucast b) (0 :: u64) bs)))"

text \<open>The bounds of an item with a long header: the length of the length, the length, then the body.\<close>

definition long_body :: "bytes \<Rightarrow> nat \<Rightarrow> rlp_error + bytes \<times> bytes" where
  "long_body input len_of_len = (case get_range input 1 (1 + len_of_len) of
      None \<Rightarrow> Inl Eof
    | Some len_bytes \<Rightarrow> (case be_to_usize len_bytes of
        Inl e \<Rightarrow> Inl e
      | Inr len \<Rightarrow> (case usize_checked_add (1 + len_of_len) len of
          None \<Rightarrow> Inl Eof
        | Some stop \<Rightarrow> (case get_range input (1 + len_of_len) stop of
            None \<Rightarrow> Inl Eof
          | Some body \<Rightarrow> Inr (body, drop stop input)))))"

definition short_body :: "bytes \<Rightarrow> nat \<Rightarrow> rlp_error + bytes \<times> bytes" where
  "short_body input len = (case usize_checked_add 1 len of
      None \<Rightarrow> Inl Eof
    | Some stop \<Rightarrow> (case get_range input 1 stop of None \<Rightarrow> Inl Eof | Some body \<Rightarrow> Inr (body, drop stop input)))"

lemma body_lengths:
  "short_body input n = Inr (body, rest) \<Longrightarrow> length body < length input \<and> length rest < length input"
  "long_body input n = Inr (body, rest) \<Longrightarrow> length body < length input \<and> length rest < length input"
  by (auto simp: short_body_def long_body_def get_range_def usize_checked_add_def split: option.splits sum.splits if_splits)

text \<open>
  The mutual recursion of the decoder. It ends because every call is on a shorter input; the depth of the recursion is the nesting of the input,
  which the source does not limit, so the native call stack, not modelled here, bounds what the source can decode.
\<close>

function (sequential) decode_item :: "bytes \<Rightarrow> rlp_error + rlp \<times> bytes"
  and decode_list_body :: "bytes \<Rightarrow> rlp_error + rlp list" where
  "decode_item [] = Inl Eof"
| "decode_item (first # tail) =
     (let input = first # tail in
      if first \<le> 0x7f then Inr (RStr [first], tail)
      else if first \<le> 0xb7 then
        (case short_body input (unat (first - 0x80)) of Inl e \<Rightarrow> Inl e | Inr (body, rest) \<Rightarrow> Inr (RStr body, rest))
      else if first \<le> 0xbf then
        (case long_body input (unat (first - 0xb7)) of Inl e \<Rightarrow> Inl e | Inr (body, rest) \<Rightarrow> Inr (RStr body, rest))
      else
        (case (if first \<le> 0xf7 then short_body input (unat (first - 0xc0)) else long_body input (unat (first - 0xf7))) of
          Inl e \<Rightarrow> Inl e
        | Inr (body, rest) \<Rightarrow> (case decode_list_body body of Inl e \<Rightarrow> Inl e | Inr items \<Rightarrow> Inr (RList items, rest))))"
| "decode_list_body [] = Inr []"
| "decode_list_body (b # bs) = (case decode_item (b # bs) of
      Inl e \<Rightarrow> Inl e
    | Inr (item, rest) \<Rightarrow> (case decode_list_body rest of Inl e \<Rightarrow> Inl e | Inr items \<Rightarrow> Inr (item # items)))"
  by pat_completeness auto

termination
proof -
  have rest: "length rest < length input" if "decode_item_decode_list_body_dom (Inl input)" "decode_item input = Inr (item, rest)" for input item rest
    using that by (cases input) (auto simp: decode_item.psimps Let_def split: if_splits sum.splits dest: body_lengths)
  show ?thesis
    by (relation "measure (\<lambda>x. case x of Inl b \<Rightarrow> 2 * length b | Inr b \<Rightarrow> 2 * length b + 1)")
      (auto dest!: body_lengths rest split: if_splits)
qed

definition rlp_decode :: "bytes \<Rightarrow> rlp_error + rlp" where
  "rlp_decode input = (case decode_item input of
      Inl e \<Rightarrow> Inl e
    | Inr (item, rest) \<Rightarrow> if rest \<noteq> [] then Inl Trailing else Inr item)"

text \<open>\<open>to_be_bytes\<close> without its leading zeros\<close>

definition be_trimmed :: "u64 \<Rightarrow> bytes" where
  "be_trimmed v = dropWhile (\<lambda>b. b = 0) (u64_to_be_bytes v)"

definition encode_length :: "nat \<Rightarrow> u8 \<Rightarrow> bytes" where
  "encode_length len offset =
     (if len < 56 then [offset + of_nat len]
      else let trimmed = be_trimmed (of_nat len) in (offset + 55 + of_nat (length trimmed)) # trimmed)"

definition encode_str :: "bytes \<Rightarrow> bytes" where
  "encode_str bs = (if length bs = 1 \<and> bs ! 0 \<le> 0x7f then [bs ! 0] else encode_length (length bs) 0x80 @ bs)"

definition encode_list :: "bytes list \<Rightarrow> bytes" where
  "encode_list items = (let body = concat items in encode_length (length body) 0xc0 @ body)"

text \<open>An item encoded with the two encoders, the way the callers nest them.\<close>

fun rlp_encode :: "rlp \<Rightarrow> bytes" where
  "rlp_encode (RStr b) = encode_str b"
| "rlp_encode (RList items) = encode_list (map rlp_encode items)"

section \<open>Round trip\<close>

lemma fold_be: "foldl (\<lambda>v b. push_bit 8 v OR ucast b) 0 bs = (of_nat (le_value (rev bs)) :: u64)"
  using be_limb_value [of bs] by (simp add: be_limb_def)

lemma le_value_rev_dropWhile: "le_value (rev (dropWhile (\<lambda>b. b = 0) bs)) = le_value (rev bs)"
  by (induction bs) (simp_all add: le_value_append)

lemma fold_be_trimmed: "foldl (\<lambda>v b. push_bit 8 v OR ucast b) 0 (be_trimmed v) = v"
  using u64_be_roundtrip [of v] by (simp add: fold_be be_trimmed_def le_value_rev_dropWhile u64_from_be_bytes_def)

lemma be_trimmed_bounds: "length (be_trimmed v) \<le> 8" "be_trimmed v = [] \<longleftrightarrow> v = 0"
proof -
  show "length (be_trimmed v) \<le> 8"
    unfolding be_trimmed_def by (rule order_trans [OF length_dropWhile_le]) (simp add: u64_to_be_bytes_def length_le_bytes)
  have "le_bytes n 0 = replicate n 0" for n by (induction n) simp_all
  then have "be_trimmed 0 = []" by (simp add: be_trimmed_def u64_to_be_bytes_def)
  then show "be_trimmed v = [] \<longleftrightarrow> v = 0" using fold_be_trimmed [of v] by auto
qed
lemma unat_u8_add: "unat off + n < 256 \<Longrightarrow> unat (off + of_nat n :: u8) = unat off + n"
  by (simp add: unat_word_ariths unsigned_of_nat take_bit_eq_mod)

lemma u8_offset: "unat off + n < 256 \<Longrightarrow> unat (off + of_nat n - off :: u8) = n"
  by (simp add: unsigned_of_nat take_bit_nat_eq_self)

lemma short_body_encoded:
  "length body < 56 \<Longrightarrow> short_body (first # body @ rest) (length body) = Inr (body, rest)"
  by (simp add: short_body_def usize_checked_add_def get_range_def)

lemma long_body_encoded:
  assumes "56 \<le> length body" "9 + length body < 2 ^ 64" and t: "t = be_trimmed (of_nat (length body))"
  shows "long_body (first # t @ body @ rest) (length t) = Inr (body, rest)"
proof -
  have u: "unat (of_nat (length body) :: u64) = length body" using assms(2) by (simp add: unsigned_of_nat take_bit_nat_eq_self)
  then have "of_nat (length body) \<noteq> (0 :: u64)" using assms(1) by (metis not_numeral_le_zero unsigned_0)
  then have b: "t \<noteq> []" "length t \<le> 8" by (simp_all add: t be_trimmed_bounds)
  then have "be_to_usize t = Inr (length body)" by (simp add: be_to_usize_def t fold_be_trimmed u)
  moreover have "1 + length t + length body < 2 ^ 64" using assms(2) b(2) by simp
  ultimately show ?thesis by (simp add: long_body_def get_range_def usize_checked_add_def)
qed

lemma encode_length_cases:
  assumes "9 + len < 2 ^ 64"
  obtains (short) "len < 56" "encode_length len off = [off + of_nat len]"
  | (long) t where "56 \<le> len" "t = be_trimmed (of_nat len)" "t \<noteq> []" "length t \<le> 8" "encode_length len off = (off + 55 + of_nat (length t)) # t"
proof (cases "len < 56")
  case False
  have "unat (of_nat len :: u64) = len" using assms by (simp add: unsigned_of_nat take_bit_nat_eq_self)
  then have "of_nat len \<noteq> (0 :: u64)" using False by (metis not_numeral_le_zero not_less unsigned_0)
  then show ?thesis using False by (intro long [OF _ refl]) (simp_all add: encode_length_def Let_def be_trimmed_bounds)
qed (use short in \<open>simp add: encode_length_def\<close>)

lemma decode_encode_str:
  assumes "9 + length bs < 2 ^ 64"
  shows "decode_item (encode_str bs @ rest) = Inr (RStr bs, rest)"
proof (cases "length bs = 1 \<and> bs ! 0 \<le> 0x7f")
  case True
  then show ?thesis by (cases bs) (auto simp: encode_str_def)
next
  case False
  then have e: "encode_str bs = encode_length (length bs) 0x80 @ bs" by (auto simp: encode_str_def)
  from assms show ?thesis
  proof (cases rule: encode_length_cases [where off = "0x80"])
    case short
    let ?f = "0x80 + of_nat (length bs) :: u8"
    have f: "unat ?f = 128 + length bs" using unat_u8_add [of "0x80" "length bs"] short by simp
    have "\<not> ?f \<le> 0x7f" "?f \<le> 0xb7" unfolding word_le_nat_alt f using short by simp_all
    then show ?thesis
      using short short_body_encoded [OF short(1), of ?f rest] u8_offset [of "0x80" "length bs"] by (simp add: e Let_def)
  next
    case (long t)
    let ?f = "0xb7 + of_nat (length t) :: u8"
    have f: "unat ?f = 183 + length t" using unat_u8_add [of "0xb7" "length t"] long by simp
    have "\<not> ?f \<le> 0x7f" "\<not> ?f \<le> 0xb7" "?f \<le> 0xbf" unfolding word_le_nat_alt f using long by simp_all
    then show ?thesis
      using long long_body_encoded [OF long(1) assms long(2), of ?f rest] u8_offset [of "0xb7" "length t"] by (simp add: e Let_def)
  qed
qed

lemma decode_encode_list:
  assumes "9 + length (concat items) < 2 ^ 64" and "decode_list_body (concat items) = Inr rs"
  shows "decode_item (encode_list items @ rest) = Inr (RList rs, rest)"
  using assms(1)
proof (cases rule: encode_length_cases [where off = "0xc0"])
  case short
  let ?b = "concat items"
  let ?f = "0xc0 + of_nat (length ?b) :: u8"
  have f: "unat ?f = 192 + length ?b" using unat_u8_add [of "0xc0" "length ?b"] short by simp
  have "\<not> ?f \<le> 0x7f" "\<not> ?f \<le> 0xb7" "\<not> ?f \<le> 0xbf" "?f \<le> 0xf7" unfolding word_le_nat_alt f using short by simp_all
  then show ?thesis
    using short assms(2) short_body_encoded [OF short(1), of ?f rest] u8_offset [of "0xc0" "length ?b"] by (simp add: encode_list_def Let_def)
next
  case (long t)
  let ?f = "0xf7 + of_nat (length t) :: u8"
  have f: "unat ?f = 247 + length t" using unat_u8_add [of "0xf7" "length t"] long by simp
  have "\<not> ?f \<le> 0x7f" "\<not> ?f \<le> 0xb7" "\<not> ?f \<le> 0xbf" "\<not> ?f \<le> 0xf7" unfolding word_le_nat_alt f using long by (cases "length t"; simp)+
  then show ?thesis
    using long assms(2) long_body_encoded [OF long(1) assms(1) long(2), of ?f rest] u8_offset [of "0xf7" "length t"]
    by (simp add: encode_list_def Let_def)
qed

lemma encode_not_empty: "encode_str b \<noteq> []" "encode_list xs \<noteq> []"
  by (simp_all add: encode_str_def encode_list_def encode_length_def Let_def)

lemma decode_list_concat:
  assumes "\<And>r rest. r \<in> set rs \<Longrightarrow> enc r \<noteq> [] \<and> decode_item (enc r @ rest) = Inr (f r, rest)"
  shows "decode_list_body (concat (map enc rs)) = Inr (map f rs)"
  using assms
proof (induction rs)
  case (Cons r rs)
  have "enc r \<noteq> []" "decode_item (enc r @ concat (map enc rs)) = Inr (f r, concat (map enc rs))"
    using Cons.prems [of r] by (simp_all add: list.set_intros)
  moreover obtain c cs where "enc r = c # cs" using calculation by (cases "enc r") auto
  moreover have "decode_list_body (concat (map enc rs)) = Inr (map f rs)" by (rule Cons.IH) (simp add: Cons.prems)
  ultimately show ?case by simp
qed simp

lemma decode_rlp_encode: "9 + length (rlp_encode r) < 2 ^ 64 \<Longrightarrow> decode_item (rlp_encode r @ rest) = Inr (r, rest)"
proof (induction r arbitrary: rest)
  case (RStr b)
  have "length b \<le> length (encode_str b)" by (auto simp: encode_str_def)
  then show ?case using RStr decode_encode_str [of b rest] by simp
next
  case (RList items)
  let ?b = "concat (map rlp_encode items)"
  have len: "9 + length ?b < 2 ^ 64" using RList.prems by (simp add: encode_list_def Let_def)
  have item: "rlp_encode r \<noteq> [] \<and> decode_item (rlp_encode r @ rest) = Inr (r, rest)" if r: "r \<in> set items" for r rest
  proof -
    obtain xs ys where "items = xs @ r # ys" using r by (auto dest: split_list)
    then have "length (rlp_encode r) \<le> length ?b" by simp
    then show ?thesis using RList.IH [OF r] len by (cases r) (simp_all add: encode_not_empty)
  qed
  have "decode_list_body ?b = Inr items"
    using decode_list_concat [of items rlp_encode "\<lambda>r. r"] item by simp
  then show ?case using decode_encode_list [OF len] by simp
qed

section \<open>Properties\<close>

text \<open>
  C23. Decoding what was encoded gives the item back, for every item whose encoding is shorter than \<open>2 ^ 64 - 9\<close> bytes: strings of any length, the
  empty string and nested lists. (The call stack is not modelled: the source recurses once per level of nesting without a limit.)
\<close>

theorem rlp_roundtrip:
  assumes "length (rlp_encode r) < 2 ^ 64 - 9"
  shows "rlp_decode (rlp_encode r) = Inr r"
  using decode_rlp_encode [of r "[]"] assms by (simp add: rlp_decode_def)

theorem rlp_roundtrip_witness:
  "rlp_decode (rlp_encode (RList [RStr [0x63, 0x61, 0x74], RList [RStr []], RStr [7]])) = Inr (RList [RStr [0x63, 0x61, 0x74], RList [RStr []], RStr [7]])"
  by (rule rlp_roundtrip) (simp add: encode_str_def encode_list_def encode_length_def)

end
