(* ===== verification/Evm_Tx.thy ===== *)
theory Evm_Tx
  imports Evm_Rlp Kernel_Crypto
begin

unbundle bit_operations_syntax

text \<open>
  Ethereum transactions (\<open>evm/src/lib.rs\<close>): addresses, the decoder of legacy and EIP-155 transactions with recovery of the sender, and the
  signer. Keccak-256, SHA-256, RIPEMD-160 and the secp256k1 operations of the \<open>k256\<close> crate are fields of \<open>evm_lib\<close>;
  \<open>evm_lib_ok\<close> states what the code relies on: output lengths, and that a key recovered from a signature made with a secret key is the public
  key of that secret key.
\<close>

record evm_lib =
  keccak :: "bytes \<Rightarrow> bytes"
  sha256_fn :: "bytes \<Rightarrow> bytes"
  ripemd_fn :: "bytes \<Rightarrow> bytes"
  k_sig_ok :: "bytes \<Rightarrow> bool"
  k_recid_ok :: "u8 \<Rightarrow> bool"
  k_recover :: "bytes \<Rightarrow> bytes \<Rightarrow> u8 \<Rightarrow> bytes option"
  k_key_ok :: "bytes \<Rightarrow> bool"
  k_sign :: "bytes \<Rightarrow> bytes \<Rightarrow> (bytes \<times> u8) option"
  k_normalize_s :: "bytes \<Rightarrow> bytes option"
  k_public :: "bytes \<Rightarrow> bytes"

datatype evm_error = RlpErr rlp_error | BadShape | UnsupportedType u8 | BadRecoveryId | RecoveryFailed | EvmOverflow

section \<open>Addresses\<close>

definition keccak256 :: "evm_lib \<Rightarrow> bytes \<Rightarrow> bytes" where
  "keccak256 E bs = keccak E bs"

definition address_from_pubkey :: "evm_lib \<Rightarrow> bytes \<Rightarrow> bytes" where
  "address_from_pubkey E uncompressed =
     (let body = (if length uncompressed = 65 then drop 1 uncompressed else uncompressed); hash = keccak256 E body
      in drop 12 hash)"

definition is_ascii_digit :: "char \<Rightarrow> bool" where
  "is_ascii_digit c \<longleftrightarrow> (of_char c :: nat) \<in> {48..57}"

definition to_ascii_uppercase :: "char \<Rightarrow> char" where
  "to_ascii_uppercase c = (let n = (of_char c :: nat) in if 97 \<le> n \<and> n \<le> 122 then char_of (n - 32) else c)"

definition checksum_char :: "bytes \<Rightarrow> nat \<Rightarrow> char \<Rightarrow> char" where
  "checksum_char hash i c =
     (if is_ascii_digit c then c
      else let nibble = drop_bit (if i mod 2 = 0 then 4 else 0) (hash ! (i div 2)) AND 0xf in
        if 8 \<le> nibble then to_ascii_uppercase c else c)"

definition to_checksum_address :: "'x hash_ext_scheme \<Rightarrow> evm_lib \<Rightarrow> bytes \<Rightarrow> string" where
  "to_checksum_address X E addr =
     (let hex_addr = hex_encode X addr; hash = keccak256 E (as_bytes hex_addr)
      in ''0x'' @ map (\<lambda>(i, c). checksum_char hash i c) (enumerate 0 hex_addr))"

section \<open>Transactions\<close>

record eth_tx =
  tx_nonce :: u64
  tx_gas_price :: u128
  tx_gas_limit :: u64
  tx_to :: "bytes option"
  tx_value :: u128
  tx_data :: bytes
  tx_chain_id :: "u64 option"
  tx_from :: bytes
  tx_hash :: bytes

definition be_to_u128 :: "bytes \<Rightarrow> evm_error + u128" where
  "be_to_u128 bs = (if 16 < length bs then Inl EvmOverflow else Inr (foldl (\<lambda>v b. push_bit 8 v OR ucast b) 0 bs))"

definition split_v :: "u64 \<Rightarrow> evm_error + u64 option \<times> u8" where
  "split_v v =
     (if v = 27 \<or> v = 28 then Inr (None, ucast (v - 27))
      else if 35 \<le> v then Inr (Some ((v - 35) div 2), ucast ((v - 35) mod 2))
      else if v = 0 \<or> v = 1 then Inr (None, ucast v)
      else Inl BadRecoveryId)"

definition left_pad_32 :: "bytes \<Rightarrow> evm_error + bytes" where
  "left_pad_32 bs = (if 32 < length bs then Inl EvmOverflow else Inr (replicate (32 - length bs) 0 @ bs))"

definition recover_address :: "evm_lib \<Rightarrow> bytes \<Rightarrow> bytes \<Rightarrow> bytes \<Rightarrow> u8 \<Rightarrow> evm_error + bytes" where
  "recover_address E sighash r s rc =
     (case left_pad_32 r of Inl e \<Rightarrow> Inl e | Inr r32 \<Rightarrow>
      case left_pad_32 s of Inl e \<Rightarrow> Inl e | Inr s32 \<Rightarrow>
        if \<not> k_sig_ok E (r32 @ s32) then Inl RecoveryFailed
        else if \<not> k_recid_ok E rc then Inl BadRecoveryId
        else (case k_recover E sighash (r32 @ s32) rc of
            None \<Rightarrow> Inl RecoveryFailed
          | Some point \<Rightarrow> Inr (address_from_pubkey E point)))"

definition u128_be_trimmed :: "u128 \<Rightarrow> bytes" where
  "u128_be_trimmed v = (if v = 0 then [] else dropWhile (\<lambda>b. b = 0) (u128_to_be_bytes v))"

definition u64_be_trimmed :: "u64 \<Rightarrow> bytes" where
  "u64_be_trimmed v = (if v = 0 then [] else dropWhile (\<lambda>b. b = 0) (u64_to_be_bytes v))"

definition to_field :: "bytes option \<Rightarrow> bytes" where
  "to_field to = (case to of Some a \<Rightarrow> a | None \<Rightarrow> [])"

definition encode_signing_list_eip155 :: "u64 \<Rightarrow> u128 \<Rightarrow> u64 \<Rightarrow> bytes option \<Rightarrow> u128 \<Rightarrow> bytes \<Rightarrow> u64 \<Rightarrow> bytes" where
  "encode_signing_list_eip155 nonce gas_price gas_limit to value data chain_id =
     encode_list [encode_str (u64_be_trimmed nonce), encode_str (u128_be_trimmed gas_price), encode_str (u64_be_trimmed gas_limit),
       encode_str (to_field to), encode_str (u128_be_trimmed value), encode_str data, encode_str (u64_be_trimmed chain_id),
       encode_str [], encode_str []]"

definition encode_signing_list_legacy :: "u64 \<Rightarrow> u128 \<Rightarrow> u64 \<Rightarrow> bytes option \<Rightarrow> u128 \<Rightarrow> bytes \<Rightarrow> bytes" where
  "encode_signing_list_legacy nonce gas_price gas_limit to value data =
     encode_list [encode_str (u64_be_trimmed nonce), encode_str (u128_be_trimmed gas_price), encode_str (u64_be_trimmed gas_limit),
       encode_str (to_field to), encode_str (u128_be_trimmed value), encode_str data]"

text \<open>The question mark operator on results, and on results of the RLP decoder, whose error is wrapped\<close>

definition bind_sum :: "('e + 'a) \<Rightarrow> ('a \<Rightarrow> 'e + 'b) \<Rightarrow> 'e + 'b" where
  "bind_sum m f = (case m of Inl e \<Rightarrow> Inl e | Inr x \<Rightarrow> f x)"

definition rlp_try :: "(rlp_error + 'a) \<Rightarrow> evm_error + 'a" where
  "rlp_try m = (case m of Inl e \<Rightarrow> Inl (RlpErr e) | Inr x \<Rightarrow> Inr x)"

definition decode_legacy_tx :: "evm_lib \<Rightarrow> bytes \<Rightarrow> evm_error + eth_tx" where
  "decode_legacy_tx E raw =
     (if raw \<noteq> [] \<and> hd raw < 0x80 then Inl (UnsupportedType (hd raw))
      else bind_sum (rlp_try (rlp_decode raw)) (\<lambda>decoded.
       bind_sum (rlp_try (rlp_as_list decoded)) (\<lambda>items.
        if length items \<noteq> 9 then Inl BadShape
        else bind_sum (rlp_try (rlp_as_u64 (items ! 0))) (\<lambda>nonce.
         bind_sum (bind_sum (rlp_try (rlp_as_bytes (items ! 1))) be_to_u128) (\<lambda>gas_price.
          bind_sum (rlp_try (rlp_as_u64 (items ! 2))) (\<lambda>gas_limit.
           bind_sum (rlp_try (rlp_as_bytes (items ! 3))) (\<lambda>to_bytes.
            bind_sum (if to_bytes = [] then Inr None else if length to_bytes = 20 then Inr (Some to_bytes) else Inl BadShape) (\<lambda>to.
             bind_sum (bind_sum (rlp_try (rlp_as_bytes (items ! 4))) be_to_u128) (\<lambda>value.
              bind_sum (rlp_try (rlp_as_bytes (items ! 5))) (\<lambda>data.
               bind_sum (rlp_try (rlp_as_u64 (items ! 6))) (\<lambda>v.
                bind_sum (rlp_try (rlp_as_bytes (items ! 7))) (\<lambda>r.
                 bind_sum (rlp_try (rlp_as_bytes (items ! 8))) (\<lambda>s.
                  bind_sum (split_v v) (\<lambda>(chain_id, recovery_id).
                   let signing_payload = (case chain_id of
                          Some cid \<Rightarrow> encode_signing_list_eip155 nonce gas_price gas_limit to value data cid
                        | None \<Rightarrow> encode_signing_list_legacy nonce gas_price gas_limit to value data);
                       sighash = keccak256 E signing_payload
                   in bind_sum (recover_address E sighash r s recovery_id) (\<lambda>from.
                     Inr \<lparr>tx_nonce = nonce, tx_gas_price = gas_price, tx_gas_limit = gas_limit, tx_to = to, tx_value = value,
                          tx_data = data, tx_chain_id = chain_id, tx_from = from, tx_hash = keccak256 E raw\<rparr>)))))))))))))))"

definition trim_left :: "bytes \<Rightarrow> bytes" where
  "trim_left b = dropWhile (\<lambda>x. x = 0) b"

definition sign_legacy_tx ::
  "evm_lib \<Rightarrow> bytes \<Rightarrow> u64 \<Rightarrow> u128 \<Rightarrow> u64 \<Rightarrow> bytes option \<Rightarrow> u128 \<Rightarrow> bytes \<Rightarrow> u64 \<Rightarrow> evm_error + bytes" where
  "sign_legacy_tx E secret_key nonce gas_price gas_limit to value data chain_id =
     (if \<not> k_key_ok E secret_key then Inl RecoveryFailed
      else let payload = encode_signing_list_eip155 nonce gas_price gas_limit to value data chain_id; sighash = keccak256 E payload in
        (case k_sign E secret_key sighash of
           None \<Rightarrow> Inl RecoveryFailed
         | Some (sig0, recid) \<Rightarrow>
             let sig = (case k_normalize_s E sig0 of Some s \<Rightarrow> s | None \<Rightarrow> sig0);
                 recid_byte = recid AND 1; v = chain_id * 2 + 35 + ucast recid_byte;
                 r = take 32 sig; s = drop 32 sig
             in Inr (encode_list [encode_str (u64_be_trimmed nonce), encode_str (u128_be_trimmed gas_price),
                  encode_str (u64_be_trimmed gas_limit), encode_str (to_field to), encode_str (u128_be_trimmed value), encode_str data,
                  encode_str (u64_be_trimmed v), encode_str (trim_left r), encode_str (trim_left s)])))"

definition address_from_secret :: "evm_lib \<Rightarrow> bytes \<Rightarrow> evm_error + bytes" where
  "address_from_secret E secret_key =
     (if \<not> k_key_ok E secret_key then Inl RecoveryFailed else Inr (address_from_pubkey E (k_public E secret_key)))"

text \<open>
  The documented behaviour of the libraries: digest lengths, and for the signer of \<open>k256\<close> that its signatures have 64 bytes, are
  already normalised, carry a recovery identifier that is the parity bit, and recover to the public key of the signer. The identifiers 2 and 3, for
  an \<open>x\<close> coordinate above the group order, occur with negligible probability and are left out.
\<close>

definition evm_lib_ok :: "evm_lib \<Rightarrow> bool" where
  "evm_lib_ok E \<longleftrightarrow>
     (\<forall>b. length (keccak E b) = 32) \<and> (\<forall>b. length (sha256_fn E b) = 32) \<and> (\<forall>b. length (ripemd_fn E b) = 20) \<and>
     (\<forall>sk h sig rc. k_key_ok E sk \<and> k_sign E sk h = Some (sig, rc) \<longrightarrow>
        length sig = 64 \<and> k_sig_ok E sig \<and> k_normalize_s E sig = None \<and> (rc = 0 \<or> rc = 1) \<and> k_recid_ok E rc \<and>
        k_recover E h sig rc = Some (k_public E sk))"

section \<open>Reading back the fields\<close>

lemma fold_be_word: "foldl (\<lambda>v b. push_bit 8 v OR ucast b) 0 (bs :: bytes) = (of_nat (le_value (rev bs)) :: 'a::len word)"
proof (induction bs rule: rev_induct)
  case (snoc b bs)
  have "push_bit 8 x OR ucast b = push_bit 8 x + ucast b" for x :: "'a word"
    by (rule disjunctive_add_eq_or [symmetric], rule bit_word_eqI) (auto simp: bit_simps dest: bit_imp_possible_bit)
  then show ?case using snoc by (simp add: push_bit_eq_mult)
qed simp

lemma u64_trimmed: "rlp_as_u64 (RStr (u64_be_trimmed v)) = Inr v"
  using be_trimmed_bounds [of v] fold_be_trimmed [of v] by (auto simp: rlp_as_u64_def u64_be_trimmed_def be_trimmed_def [symmetric])

lemma u128_trimmed: "be_to_u128 (u128_be_trimmed v) = Inr v"
proof -
  let ?b = "dropWhile (\<lambda>b. b = 0) (u128_to_be_bytes v)"
  have v: "unat v < 256 ^ 16" using unsigned_less [of v, where 'a = nat] by simp
  have "le_value (rev ?b) = unat v"
    using v unfolding le_value_rev_dropWhile by (simp add: u128_to_be_bytes_def le_value_le_bytes)
  moreover have "length ?b \<le> 16"
    by (rule order_trans [OF length_dropWhile_le]) (simp add: u128_to_be_bytes_def length_le_bytes)
  ultimately show ?thesis by (simp add: be_to_u128_def u128_be_trimmed_def fold_be_word)
qed

lemma pad_dropWhile: "replicate (length xs - length (dropWhile (\<lambda>x. x = c) xs)) c @ dropWhile (\<lambda>x. x = c) xs = xs"
proof (induction xs)
  case (Cons x xs)
  have "length (dropWhile (\<lambda>x. x = c) xs) \<le> length xs" by (rule length_dropWhile_le)
  with Cons show ?case by (simp add: Suc_diff_le)
qed simp

lemma left_pad_trim: "length r = 32 \<Longrightarrow> left_pad_32 (trim_left r) = Inr r"
  using pad_dropWhile [of r 0] length_dropWhile_le [of "\<lambda>x. x = 0" r] by (simp add: left_pad_32_def trim_left_def)

lemma split_v_eip155:
  assumes "unat chain_id * 2 + 36 < 2 ^ 64" "rc = 0 \<or> rc = 1"
  shows "split_v (chain_id * 2 + 35 + ucast rc) = Inr (Some chain_id, rc)"
proof -
  define w where "w = (chain_id * 2 + 35 + ucast rc :: u64)"
  have rc: "unat (ucast rc :: u64) = unat rc" "unat rc \<le> 1" using assms(2) by auto
  have m: "unat (chain_id * 2 :: u64) = unat chain_id * 2" using assms(1) by (simp add: unat_word_ariths)
  have v: "unat w = unat chain_id * 2 + 35 + unat rc"
    using assms(1) rc by (simp add: w_def unat_word_ariths m)
  then have big: "35 \<le> w" "w \<noteq> 27" "w \<noteq> 28" by (auto simp: word_le_nat_alt)
  then have s: "unat (w - 35) = unat chain_id * 2 + unat rc" by (simp add: unat_sub v)
  have "unat ((w - 35) div 2) = unat chain_id" "unat ((w - 35) mod 2) = unat (ucast rc :: u64)"
    using rc(2) unfolding unat_div unat_mod s rc(1) by simp_all
  then have "(w - 35) div 2 = chain_id" "(w - 35) mod 2 = ucast rc" by (simp_all only: word_unat_eq_iff)
  then show ?thesis using big assms(2) unfolding w_def [symmetric] by (auto simp: split_v_def)
qed

lemma decode_str_list:
  assumes "9 + length (concat (map encode_str fs)) < 2 ^ 64"
  shows "rlp_decode (encode_list (map encode_str fs)) = Inr (RList (map RStr fs))"
proof -
  have "encode_str f \<noteq> [] \<and> decode_item (encode_str f @ rest) = Inr (RStr f, rest)" if f: "f \<in> set fs" for f rest
  proof -
    obtain xs ys where "fs = xs @ f # ys" using f by (auto dest: split_list)
    then have "length (encode_str f) \<le> length (concat (map encode_str fs))" by simp
    moreover have "length f \<le> length (encode_str f)" by (auto simp: encode_str_def)
    ultimately show ?thesis using assms by (simp add: encode_not_empty decode_encode_str)
  qed
  then have "decode_list_body (concat (map encode_str fs)) = Inr (map RStr fs)" by (rule decode_list_concat)
  then show ?thesis using decode_encode_list [OF assms, of _ "[]"] by (simp add: rlp_decode_def)
qed

lemma encode_list_head:
  assumes "9 + length (concat items) < 2 ^ 64"
  shows "\<not> hd (encode_list items) < 0x80"
  using assms
proof (cases rule: encode_length_cases [where off = "0xc0"])
  case short
  then show ?thesis using unat_u8_add [of "0xc0" "length (concat items)"] by (simp add: encode_list_def Let_def word_less_nat_alt)
next
  case (long t)
  then show ?thesis using unat_u8_add [of "0xf7" "length t"] by (simp add: encode_list_def Let_def word_less_nat_alt)
qed

lemma encode_str_bound: "length (encode_str b) \<le> length b + 9"
  using be_trimmed_bounds(1) [of "of_nat (length b)"] by (simp add: encode_str_def encode_length_def Let_def)

lemma trimmed_length: "length (u64_be_trimmed v) \<le> 8" "length (u128_be_trimmed w) \<le> 16" "length (trim_left r) \<le> length r"
  using length_dropWhile_le [of _ "u64_to_be_bytes v"] length_dropWhile_le [of _ "u128_to_be_bytes w"] length_dropWhile_le [of _ r]
  by (simp_all add: u64_be_trimmed_def u128_be_trimmed_def trim_left_def u64_to_be_bytes_def u128_to_be_bytes_def length_le_bytes)

lemma evm_lib_okD:
  assumes "evm_lib_ok E"
  shows "length (keccak E b) = 32" "length (sha256_fn E b) = 32" "length (ripemd_fn E b) = 20"
    and "k_key_ok E sk \<Longrightarrow> k_sign E sk h = Some (sig, rc) \<Longrightarrow>
      length sig = 64 \<and> k_sig_ok E sig \<and> k_normalize_s E sig = None \<and> (rc = 0 \<or> rc = 1) \<and> k_recid_ok E rc \<and>
      k_recover E h sig rc = Some (k_public E sk)"
  using assms unfolding evm_lib_ok_def by blast+

lemma to_field_decode:
  "to = None \<or> (\<exists>a. to = Some a \<and> length a = 20) \<Longrightarrow>
   (if to_field to = [] then Inr None else if length (to_field to) = 20 then Inr (Some (to_field to)) else Inl BadShape) = Inr to"
  by (auto simp: to_field_def)

section \<open>Properties\<close>

lemma signed_tx_decodes:
  assumes "evm_lib_ok E" and "sign_legacy_tx E sk nonce gas_price gas_limit to value data chain_id = Inr raw"
    and "to = None \<or> (\<exists>a. to = Some a \<and> length a = 20)" and "unat chain_id * 2 + 36 < 2 ^ 64" and "length data < 2 ^ 63"
  shows "\<exists>addr. address_from_secret E sk = Inr addr \<and> decode_legacy_tx E raw =
    Inr \<lparr>tx_nonce = nonce, tx_gas_price = gas_price, tx_gas_limit = gas_limit, tx_to = to, tx_value = value, tx_data = data,
      tx_chain_id = Some chain_id, tx_from = addr, tx_hash = keccak256 E raw\<rparr>"
proof -
  let ?h = "keccak256 E (encode_signing_list_eip155 nonce gas_price gas_limit to value data chain_id)"
  obtain sig rc where key: "k_key_ok E sk" and sign: "k_sign E sk ?h = Some (sig, rc)"
    using assms(2) by (auto simp: sign_legacy_tx_def Let_def split: if_splits option.splits)
  note ok = evm_lib_okD(4) [OF assms(1) key sign]
  let ?v = "chain_id * 2 + 35 + ucast (rc AND 1) :: u64"
  define fs where "fs = [u64_be_trimmed nonce, u128_be_trimmed gas_price, u64_be_trimmed gas_limit, to_field to, u128_be_trimmed value,
    data, u64_be_trimmed ?v, trim_left (take 32 sig), trim_left (drop 32 sig)]"
  have raw: "raw = encode_list (map encode_str fs)"
    using assms(2) key sign ok by (simp add: sign_legacy_tx_def Let_def fs_def)
  have "length (concat (map encode_str fs)) \<le> length data + 400"
  proof -
    have "length (to_field to) \<le> 20" using assms(3) by (auto simp: to_field_def)
    moreover have "length (trim_left (take 32 sig)) \<le> 32" "length (trim_left (drop 32 sig)) \<le> 32"
      using trimmed_length(3) [of "take 32 sig"] trimmed_length(3) [of "drop 32 sig"] ok by simp_all
    ultimately show ?thesis
      unfolding fs_def list.map concat.simps length_append
      using encode_str_bound [of "u64_be_trimmed nonce"] encode_str_bound [of "u128_be_trimmed gas_price"]
        encode_str_bound [of "u64_be_trimmed gas_limit"] encode_str_bound [of "to_field to"] encode_str_bound [of "u128_be_trimmed value"]
        encode_str_bound [of "data"] encode_str_bound [of "u64_be_trimmed ?v"] encode_str_bound [of "trim_left (take 32 sig)"]
        encode_str_bound [of "trim_left (drop 32 sig)"] trimmed_length(1) [of nonce] trimmed_length(1) [of gas_limit]
        trimmed_length(1) [of ?v] trimmed_length(2) [of gas_price] trimmed_length(2) [of "value"] by simp
  qed
  then have len: "9 + length (concat (map encode_str fs)) < 2 ^ 64" using assms(5) by simp
  have rc: "rc AND 1 = rc" using ok by auto
  have rec: "recover_address E ?h (trim_left (take 32 sig)) (trim_left (drop 32 sig)) rc = Inr (address_from_pubkey E (k_public E sk))"
    using ok by (simp add: recover_address_def left_pad_trim)
  have v: "split_v ?v = Inr (Some chain_id, rc)" unfolding rc by (rule split_v_eip155 [OF assms(4)]) (use ok in simp)
  have "decode_legacy_tx E raw = Inr \<lparr>tx_nonce = nonce, tx_gas_price = gas_price, tx_gas_limit = gas_limit, tx_to = to, tx_value = value,
      tx_data = data, tx_chain_id = Some chain_id, tx_from = address_from_pubkey E (k_public E sk), tx_hash = keccak256 E raw\<rparr>"
    using decode_str_list [OF len] encode_list_head [OF len] to_field_decode [OF assms(3)] rec v
    unfolding decode_legacy_tx_def raw [symmetric]
    by (simp add: rlp_try_def bind_sum_def fs_def u64_trimmed u128_trimmed)
  then show ?thesis using key by (simp add: address_from_secret_def)
qed

text \<open>
  C22. A transaction made by \<open>sign_legacy_tx\<close> is accepted by \<open>decode_legacy_tx\<close>, which gives back every field, the chain identifier among them,
  the Keccak hash of the raw bytes, and as sender the address of the secret key. The recipient is absent or has 20 bytes, the data is shorter
  than \<open>2 ^ 63\<close> bytes, and the chain identifier is small enough for \<open>2 * chain_id + 36\<close> to fit into 64 bits; the
  signer returns recovery identifiers 0 and 1 (the identifiers 2 and 3 of a reduced coordinate, which have negligible probability, are masked by the source).
\<close>

theorem sign_decode_roundtrip:
  assumes "evm_lib_ok E" and "sign_legacy_tx E sk nonce gas_price gas_limit to value data chain_id = Inr raw"
    and "to = None \<or> (\<exists>a. to = Some a \<and> length a = 20)" and "unat chain_id * 2 + 36 < 2 ^ 64" and "length data < 2 ^ 63"
  shows "\<exists>addr. address_from_secret E sk = Inr addr \<and> decode_legacy_tx E raw =
    Inr \<lparr>tx_nonce = nonce, tx_gas_price = gas_price, tx_gas_limit = gas_limit, tx_to = to, tx_value = value, tx_data = data,
      tx_chain_id = Some chain_id, tx_from = addr, tx_hash = keccak256 E raw\<rparr>"
  using assms by (rule signed_tx_decodes)

text \<open>A library of toy functions that satisfies the assumptions: the signature carries the key itself.\<close>

definition ref_digest :: "nat \<Rightarrow> bytes \<Rightarrow> bytes" where
  "ref_digest n b = take n (b @ replicate n 0)"

definition ref_evm_lib :: evm_lib where
  "ref_evm_lib = \<lparr>keccak = ref_digest 32, sha256_fn = ref_digest 32, ripemd_fn = ref_digest 20, k_sig_ok = (\<lambda>_. True),
     k_recid_ok = (\<lambda>rc. rc < 4), k_recover = (\<lambda>h sig rc. Some (take 32 sig)), k_key_ok = (\<lambda>sk. length sk = 32),
     k_sign = (\<lambda>sk h. Some (sk @ replicate 32 0, 0)), k_normalize_s = (\<lambda>_. None), k_public = (\<lambda>sk. sk)\<rparr>"

lemma ref_evm_lib_ok: "evm_lib_ok ref_evm_lib"
  by (auto simp: evm_lib_ok_def ref_evm_lib_def ref_digest_def min_def)

theorem sign_decode_roundtrip_witness:
  "\<exists>raw addr. sign_legacy_tx ref_evm_lib (replicate 32 7) 3 1000000000 21000 (Some (replicate 20 0x35)) 5000 [] 42 = Inr raw \<and>
    decode_legacy_tx ref_evm_lib raw =
      Inr \<lparr>tx_nonce = 3, tx_gas_price = 1000000000, tx_gas_limit = 21000, tx_to = Some (replicate 20 0x35), tx_value = 5000, tx_data = [],
        tx_chain_id = Some 42, tx_from = addr, tx_hash = keccak256 ref_evm_lib raw\<rparr>"
proof -
  obtain raw where raw: "sign_legacy_tx ref_evm_lib (replicate 32 7) 3 1000000000 21000 (Some (replicate 20 0x35)) 5000 [] 42 = Inr raw"
    by (simp add: sign_legacy_tx_def ref_evm_lib_def)
  show ?thesis using sign_decode_roundtrip [OF ref_evm_lib_ok raw] raw by auto
qed

end
