(* ===== verification/Evm_Precompile.thy ===== *)
theory Evm_Precompile
  imports Evm_Field Evm_Tx
begin

unbundle bit_operations_syntax

text \<open>
  The precompiled contracts 1 to 7 of the EVM (\<open>evm/src/precompile.rs\<close>): recovery of a signer, the hashes, identity, modular exponentiation
  and the curve operations of \<open>Evm_Field\<close>, with their gas costs.
\<close>

definition low_address :: "u256 \<Rightarrow> u64" where
  "low_address address =
     (let b = to_big_endian address in if \<exists>x \<in> set (take 24 b). x \<noteq> 0 then 0 else u64_from_be_bytes (drop 24 b))"

definition is_precompile :: "u256 \<Rightarrow> bool" where
  "is_precompile address \<longleftrightarrow> low_address address \<in> {1..7}"

definition ripemd160 :: "evm_lib \<Rightarrow> bytes \<Rightarrow> bytes" where
  "ripemd160 E input = replicate 12 0 @ ripemd_fn E input"

definition sha256 :: "evm_lib \<Rightarrow> bytes \<Rightarrow> bytes" where
  "sha256 E input = sha256_fn E input"

definition ecrecover :: "evm_lib \<Rightarrow> bytes \<Rightarrow> bytes" where
  "ecrecover E input =
     (let buf = zero_padded input 0 128; hash = take 32 buf; v = buf ! 63; r = take 32 (drop 64 buf); s = drop 96 buf in
      if v \<noteq> 27 \<and> v \<noteq> 28 then []
      else let rc = v - 27 in
        if \<not> k_sig_ok E (r @ s) then []
        else if \<not> k_recid_ok E rc then []
        else (case k_recover E hash (r @ s) rc of
            None \<Rightarrow> []
          | Some uncompressed \<Rightarrow> replicate 12 0 @ drop 12 (keccak256 E (drop 1 uncompressed))))"

text \<open>\<open>saturating_mul(256).saturating_add(b)\<close> on \<open>usize\<close>\<close>

definition be_usize :: "bytes \<Rightarrow> nat" where
  "be_usize bs = foldl (\<lambda>v b. min (2 ^ 64 - 1) (min (2 ^ 64 - 1) (v * 256) + unat b)) 0 bs"

definition read_u256 :: "bytes \<Rightarrow> nat \<Rightarrow> nat \<Rightarrow> u256" where
  "read_u256 data offset len =
     (if len = 0 then U_ZERO
      else let start = min offset (length data); stop = min (offset + len) (length data);
               slice = (if start < stop then take (stop - start) (drop start data) else [])
           in from_big_endian (replicate (32 - length slice) 0 @ slice))"

definition mod_exp :: "u256 \<Rightarrow> u256 \<Rightarrow> u256 \<Rightarrow> u256" where
  "mod_exp base exp modulus =
     (if modulus = U_ONE then U_ZERO
      else pow_loop (\<lambda>x y. snd (div_mod (u_wrapping_mul x y) modulus)) U_ONE (snd (div_mod base modulus)) exp)"

definition modexp :: "bytes \<Rightarrow> bytes" where
  "modexp input =
     (let buf = zero_padded input 0 96; blen = be_usize (take 32 buf); elen = be_usize (take 32 (drop 32 buf)); mlen = be_usize (drop 64 buf) in
      if 32 < blen \<or> 32 < elen \<or> 32 < mlen then replicate (min mlen 32) 0
      else let data = drop (min 96 (length input)) input;
               base = read_u256 data 0 blen; exp = read_u256 data blen elen; modulus = read_u256 data (blen + elen) mlen;
               result = (if u_is_zero modulus then U_ZERO else mod_exp base exp modulus)
           in drop (32 - mlen) (to_big_endian result))"

definition precompile_execute :: "evm_lib \<Rightarrow> u256 \<Rightarrow> bytes \<Rightarrow> bytes option" where
  "precompile_execute E address input =
     (let n = low_address address in
      if n = 1 then Some (ecrecover E input)
      else if n = 2 then Some (sha256 E input)
      else if n = 3 then Some (ripemd160 E input)
      else if n = 4 then Some input
      else if n = 5 then Some (modexp input)
      else if n = 6 then Some (case ec_add input of Some out \<Rightarrow> out | None \<Rightarrow> replicate 64 0)
      else if n = 7 then Some (case ec_mul input of Some out \<Rightarrow> out | None \<Rightarrow> replicate 64 0)
      else None)"

definition precompile_gas :: "u256 \<Rightarrow> bytes \<Rightarrow> u64" where
  "precompile_gas address input =
     (let words = (of_nat (length input) + 31) div 32; n = low_address address in
      if n = 1 then 3000
      else if n = 2 then 60 + 12 * words
      else if n = 3 then 600 + 120 * words
      else if n = 4 then 15 + 3 * words
      else if n = 5 then 200
      else if n = 6 then 150
      else if n = 7 then 6000
      else 0)"

section \<open>Properties\<close>

text \<open>
  The exponentiation of precompile 5 is exact for moduli up to \<open>2 ^ 128\<close>, where the product of two reduced numbers fits into 256 bits.
\<close>

theorem mod_exp_exact:
  assumes "0 < u_val m" "u_val m \<le> 2 ^ 128"
  shows "u_val (mod_exp b e m) = u_val b ^ u_val e mod u_val m"
proof (cases "m = U_ONE")
  case False
  then have m: "1 < u_val m" using assms(1) u_val_inj [of m U_ONE] by simp
  have mul: "u_val (snd (div_mod (u_wrapping_mul x y) m)) = u_val x * u_val y mod u_val m" if "u_val x < u_val m" "u_val y < u_val m" for x y
  proof -
    have "u_val x * u_val y \<le> (2 ^ 128 - 1) * (2 ^ 128 - 1)" using that assms(2) by (intro mult_le_mono) linarith+
    also have "\<dots> < 2 ^ 256" by simp
    finally have "u_val (u_wrapping_mul x y) = u_val x * u_val y" unfolding wrapping_mul_val by (rule mod_less)
    then show ?thesis using assms(1) by (simp add: div_mod_val(2))
  qed
  show ?thesis
    using pow_loop_val [where mul = "\<lambda>x y. snd (div_mod (u_wrapping_mul x y) m)", OF assms(1) mul, of U_ONE "snd (div_mod b m)" e] m False
    by (simp add: mod_exp_def div_mod_val(2) power_mod)
qed (simp add: mod_exp_def)

theorem mod_exp_exact_witness: "u_val (mod_exp (from_u64 3) (from_u64 4) (from_u64 7)) = 3 ^ 4 mod 7"
  using mod_exp_exact [of "from_u64 7" "from_u64 3" "from_u64 4"] by simp

text \<open>
  For larger moduli precompile 5 reduces products after they have wrapped modulo \<open>2 ^ 256\<close>: the square of \<open>2 ^ 128\<close> modulo
  \<open>2 ^ 256 - 1\<close> is one, and the code computes zero.
\<close>

theorem mod_exp_wraps:
  "u_val (mod_exp (U256 0 0 1 0) (from_u64 2) (U256 (- 1) (- 1) (- 1) (- 1))) = 0 \<and>
   u_val (U256 0 0 1 0) ^ 2 mod u_val (U256 (- 1) (- 1) (- 1) (- 1)) = 1"
proof -
  let ?m = "U256 (- 1) (- 1) (- 1) (- 1)" and ?b = "U256 0 0 1 0"
  let ?f = "\<lambda>x y. snd (div_mod (u_wrapping_mul x y) ?m)"
  have m: "u_val ?m = 2 ^ 256 - 1" and b: "u_val ?b = 2 ^ 128" by (simp_all add: u_val_def unat_minus_one_max)
  have "?m \<noteq> U_ONE" by (simp add: U_ONE_def)
  moreover have "snd (div_mod ?b ?m) = ?b" unfolding u_val_inj [symmetric] div_mod_val(2) m b by simp
  moreover have "pow_loop ?f U_ONE ?b (from_u64 2) = pow_loop ?f (?f U_ONE (?f ?b ?b)) (?f (?f ?b ?b) (?f ?b ?b)) (from_u64 0)"
  proof -
    have "u_shr (from_u64 2) (Suc 0) = from_u64 1" "u_shr (from_u64 1) (Suc 0) = from_u64 0"
      unfolding u_val_inj [symmetric] shr_one_val by simp_all
    then show ?thesis by (subst pow_loop.simps, subst pow_loop.simps) (simp add: u_is_zero_val u_val_bit)
  qed
  moreover have "u_val (?f ?b ?b) = 0" unfolding div_mod_val(2) wrapping_mul_val b m by simp
  ultimately have "u_val (mod_exp ?b (from_u64 2) ?m) = 0"
    by (simp add: mod_exp_def pow_loop.simps [of _ _ _ "from_u64 0"] u_is_zero_val div_mod_val(2) wrapping_mul_val m)
  then show ?thesis unfolding b m by simp
qed

end
