(* ===== verification/Evm_Vm.thy ===== *)
theory Evm_Vm
  imports Evm_Precompile
begin

unbundle bit_operations_syntax

text \<open>
  The EVM interpreter (\<open>evm/src/vm.rs\<close>): the host interface, call frames with stack, memory, gas and program counter, every opcode, and
  nested calls and contract creation with snapshots of the host.

  The trait \<open>Host\<close> is a record of operations on a host state of any type; its in-memory implementation is \<open>mem_host_ops\<close>. The stack is a list
  with its top first. \<open>usize\<close> values are natural numbers, reduced modulo \<open>2 ^ 64\<close> where the source adds without a check. Allocating more than
  \<open>isize::MAX\<close> bytes and slicing out of bounds are panics.

  A nested frame is run by an argument of the step function, so that the depth of calls is a structural recursion: a frame at depth \<open>d\<close> runs its
  callees at depth \<open>d + 1\<close>, and none at depth 64. The loop of one frame is a partial function into an option; \<open>None\<close> is a loop that does
  not end.
\<close>

datatype evm_vm_error =
    VStackUnderflow
  | VStackOverflow
  | VOutOfGas
  | VInvalidOpcode u8
  | VInvalidJump nat
  | VReverted
  | VMemoryLimit
  | VStaticViolation
  | VCallDepth

definition EVM_MAX_STACK :: nat where "EVM_MAX_STACK = 1024"
definition EVM_MAX_MEMORY :: nat where "EVM_MAX_MEMORY = 2 ^ 20"
definition MAX_CALL_DEPTH :: u32 where "MAX_CALL_DEPTH = 64"
definition MAX_CODE_SIZE :: nat where "MAX_CODE_SIZE = 24576"

record evm_log =
  lg_address :: u256
  lg_topics :: "u256 list"
  lg_data :: bytes

datatype call_kind = KCall | KCallCode | KDelegateCall | KStaticCall

record call_context =
  cc_caller :: u256
  cc_address :: u256
  cc_value :: u256
  cc_calldata :: bytes
  cc_gas_limit :: u64

record 'h evm_host =
  host_sload :: "'h \<Rightarrow> u256 \<Rightarrow> u256 \<Rightarrow> u256"
  host_sstore :: "u256 \<Rightarrow> u256 \<Rightarrow> u256 \<Rightarrow> 'h \<Rightarrow> 'h"
  host_balance :: "'h \<Rightarrow> u256 \<Rightarrow> u256"
  host_block_number :: "'h \<Rightarrow> u64"
  host_block_timestamp :: "'h \<Rightarrow> u64"
  host_chain_id :: "'h \<Rightarrow> u64"
  host_code :: "'h \<Rightarrow> u256 \<Rightarrow> bytes"
  host_set_code :: "u256 \<Rightarrow> bytes \<Rightarrow> 'h \<Rightarrow> 'h"
  host_account_nonce :: "'h \<Rightarrow> u256 \<Rightarrow> u64"
  host_bump_nonce :: "u256 \<Rightarrow> 'h \<Rightarrow> 'h"
  host_transfer :: "u256 \<Rightarrow> u256 \<Rightarrow> u256 \<Rightarrow> 'h \<Rightarrow> bool \<times> 'h"
  host_snapshot :: "'h \<Rightarrow> nat \<times> 'h"
  host_revert :: "nat \<Rightarrow> 'h \<Rightarrow> 'h"
  host_commit_snapshot :: "nat \<Rightarrow> 'h \<Rightarrow> 'h"

record exec_outcome =
  eo_success :: bool
  eo_return_data :: bytes
  eo_gas_used :: u64
  eo_logs :: "evm_log list"

text \<open>The fields of \<open>Interpreter\<close> that a frame never changes, and those it does\<close>

record frame_env =
  fe_code :: bytes
  fe_ctx :: call_context
  fe_depth :: u32
  fe_static :: bool

record 'h frame =
  fr_stack :: "u256 list"
  fr_memory :: bytes
  fr_pc :: nat
  fr_gas :: u64
  fr_host :: 'h
  fr_logs :: "evm_log list"
  fr_return_data :: bytes
  fr_ret_buffer :: bytes

type_synonym ('h, 'a) evm_act = "('h frame, evm_vm_error, 'a) act"

type_synonym 'h sub_exec =
  "bytes \<Rightarrow> call_context \<Rightarrow> 'h \<Rightarrow> u32 \<Rightarrow> bool \<Rightarrow> ((evm_vm_error, exec_outcome) outcome \<times> 'h) option"

fun jumpdests_from :: "bytes \<Rightarrow> nat \<Rightarrow> bool list" where
  "jumpdests_from [] skip = []"
| "jumpdests_from (op # rest) (Suc skip) = False # jumpdests_from rest skip"
| "jumpdests_from (op # rest) 0 =
     (op = 0x5b) # jumpdests_from rest (if 0x60 \<le> op \<and> op \<le> 0x7f then unat (op - 0x60) + 1 else 0)"

definition analyze_jumpdests :: "bytes \<Rightarrow> bool list" where
  "analyze_jumpdests code = jumpdests_from code 0"

definition addr20 :: "u256 \<Rightarrow> bytes" where
  "addr20 v = drop 12 (to_big_endian v)"

definition addr_to_u256 :: "bytes \<Rightarrow> u256" where
  "addr_to_u256 addr = from_big_endian (replicate 12 0 @ addr)"

definition create_address :: "evm_lib \<Rightarrow> u256 \<Rightarrow> u64 \<Rightarrow> u256" where
  "create_address E sender nonce =
     (let s = addr20 sender; nonce_bytes = (if nonce = 0 then [] else dropWhile (\<lambda>b. b = 0) (u64_to_be_bytes nonce));
          h = keccak256 E (encode_list [encode_str s, encode_str nonce_bytes])
      in addr_to_u256 (drop 12 h))"

definition create2_address :: "evm_lib \<Rightarrow> u256 \<Rightarrow> u256 \<Rightarrow> bytes \<Rightarrow> u256" where
  "create2_address E sender salt init_code =
     (let h = keccak256 E (0xff # addr20 sender @ to_big_endian salt @ keccak256 E init_code) in addr_to_u256 (drop 12 h))"

section \<open>Gas, stack and memory\<close>

definition evm_gas_limit :: "frame_env \<Rightarrow> u64" where
  "evm_gas_limit env = cc_gas_limit (fe_ctx env)"

definition evm_charge :: "frame_env \<Rightarrow> u64 \<Rightarrow> ('h, unit) evm_act" where
  "evm_charge env amount = andthen (modify (\<lambda>f. f\<lparr>fr_gas := saturating_add (fr_gas f) amount\<rparr>)) (\<lambda>_.
     andthen (gets fr_gas) (\<lambda>g. ensure (g \<le> evm_gas_limit env) VOutOfGas))"

definition evm_push :: "u256 \<Rightarrow> ('h, unit) evm_act" where
  "evm_push v = andthen (gets fr_stack) (\<lambda>st.
     if EVM_MAX_STACK \<le> length st then raise VStackOverflow else modify (\<lambda>f. f\<lparr>fr_stack := v # st\<rparr>))"

definition evm_pop :: "('h, u256) evm_act" where
  "evm_pop = andthen (gets fr_stack) (\<lambda>st. case st of
     [] \<Rightarrow> raise VStackUnderflow | v # rest \<Rightarrow> andthen (modify (\<lambda>f. f\<lparr>fr_stack := rest\<rparr>)) (\<lambda>_. ret v))"

definition pop_usize :: "('h, nat) evm_act" where
  "pop_usize = andthen evm_pop (\<lambda>v. ret (low_usize v))"

definition ensure_mem :: "frame_env \<Rightarrow> nat \<Rightarrow> nat \<Rightarrow> ('h, unit) evm_act" where
  "ensure_mem env offset len =
     (if len = 0 then ret ()
      else case usize_checked_add offset len of
        None \<Rightarrow> raise VMemoryLimit
      | Some stop \<Rightarrow>
          if EVM_MAX_MEMORY < stop then raise VMemoryLimit
          else andthen (gets (\<lambda>f. length (fr_memory f))) (\<lambda>m.
            if m < stop then
              (let new_len = ((stop + 31) div 32) * 32; words_added = (new_len - m) div 32 in
               andthen (evm_charge env (of_nat words_added * 3)) (\<lambda>_.
                 modify (\<lambda>f. f\<lparr>fr_memory := fr_memory f @ replicate (new_len - m) 0\<rparr>)))
            else ret ()))"

definition mem_store :: "frame_env \<Rightarrow> nat \<Rightarrow> bytes \<Rightarrow> ('h, unit) evm_act" where
  "mem_store env offset data = andthen (ensure_mem env offset (length data)) (\<lambda>_.
     andthen (gets fr_memory) (\<lambda>m.
       if offset + length data \<le> length m
       then modify (\<lambda>f. f\<lparr>fr_memory := take offset m @ data @ drop (offset + length data) m\<rparr>) else panic))"

definition mem_load :: "frame_env \<Rightarrow> nat \<Rightarrow> nat \<Rightarrow> ('h, bytes) evm_act" where
  "mem_load env offset len =
     (if len = 0 then ret []
      else andthen (ensure_mem env offset len) (\<lambda>_. gets (\<lambda>f. take len (drop offset (fr_memory f)))))"

text \<open>\<open>data[i] = source.get(off + i)\<close>, zero where there is no byte; the sum wraps\<close>

definition source_byte :: "bytes \<Rightarrow> nat \<Rightarrow> nat \<Rightarrow> u8" where
  "source_byte src off i = (let k = (off + i) mod 2 ^ 64 in if k < length src then src ! k else 0)"

text \<open>\<open>vec![0u8; len]\<close>: a length of \<open>2 ^ 63\<close> or more panics; below it the allocation is taken to succeed\<close>

definition copied :: "bytes \<Rightarrow> nat \<Rightarrow> nat \<Rightarrow> ('h, bytes) evm_act" where
  "copied src off len = (if 2 ^ 63 \<le> len then panic else ret (map (source_byte src off) [0..<len]))"

definition get_host :: "('h \<Rightarrow> 'a) \<Rightarrow> ('h, 'a) evm_act" where
  "get_host g = gets (\<lambda>f. g (fr_host f))"

definition upd_host :: "('h \<Rightarrow> 'h) \<Rightarrow> ('h, unit) evm_act" where
  "upd_host u = modify (\<lambda>f. f\<lparr>fr_host := u (fr_host f)\<rparr>)"

definition take_snapshot :: "('h evm_host) \<Rightarrow> ('h, nat) evm_act" where
  "take_snapshot H = (\<lambda>f. let (n, h) = host_snapshot H (fr_host f) in (Ok n, f\<lparr>fr_host := h\<rparr>))"

section \<open>Opcodes\<close>

definition bool_u :: "bool \<Rightarrow> u256" where
  "bool_u b = (if b then U_ONE else U_ZERO)"

definition u_signed_lt :: "u256 \<Rightarrow> u256 \<Rightarrow> bool" where
  "u_signed_lt a b = (case (is_neg a, is_neg b) of (True, False) \<Rightarrow> True | (False, True) \<Rightarrow> False | _ \<Rightarrow> u_lt a b)"

definition shift_l :: "u256 \<Rightarrow> u256 \<Rightarrow> u256" where
  "shift_l sh v = (if \<not> bits_fit_usize sh \<or> 256 \<le> low_usize sh then U_ZERO else u_shl v (low_usize sh))"

definition shift_r :: "u256 \<Rightarrow> u256 \<Rightarrow> u256" where
  "shift_r sh v = (if \<not> bits_fit_usize sh \<or> 256 \<le> low_usize sh then U_ZERO else u_shr v (low_usize sh))"

definition base_gas :: "u8 \<Rightarrow> u64" where
  "base_gas op =
     (if op = 0x00 \<or> op = 0x5b then 1
      else if op = 0x54 then 200
      else if 0x60 \<le> op \<and> op \<le> 0x9f then 3
      else if op = 0x01 \<or> op = 0x02 \<or> op = 0x03 \<or> 0x10 \<le> op \<and> op \<le> 0x1d then 3
      else if op = 0x20 then 30
      else if 0x51 \<le> op \<and> op \<le> 0x53 then 3
      else if op = 0x56 \<or> op = 0x57 then 8
      else if op = 0x3b \<or> op = 0x3c \<or> op = 0x3f then 100
      else 2)"

definition evm_bin :: "(u256 \<Rightarrow> u256 \<Rightarrow> u256) \<Rightarrow> ('h, unit) evm_act" where
  "evm_bin g = andthen evm_pop (\<lambda>a. andthen evm_pop (\<lambda>b. evm_push (g a b)))"

definition evm_sdiv :: "u256 \<Rightarrow> u256 \<Rightarrow> u256" where
  "evm_sdiv a b =
     (if u_is_zero b then U_ZERO
      else let na = is_neg a; nb = is_neg b; ua = (if na then u_neg a else a); ub = (if nb then u_neg b else b);
               q = fst (div_mod ua ub)
           in if na \<noteq> nb then u_neg q else q)"

definition evm_smod :: "u256 \<Rightarrow> u256 \<Rightarrow> u256" where
  "evm_smod a b =
     (if u_is_zero b then U_ZERO
      else let na = is_neg a; ua = (if na then u_neg a else a); ub = (if is_neg b then u_neg b else b); r = snd (div_mod ua ub)
           in if na then u_neg r else r)"

definition evm_addmod :: "u256 \<Rightarrow> u256 \<Rightarrow> u256 \<Rightarrow> u256" where
  "evm_addmod a b m = (if u_is_zero m then U_ZERO else snd (div_mod (fst (overflowing_add a b)) m))"

definition evm_mulmod :: "u256 \<Rightarrow> u256 \<Rightarrow> u256 \<Rightarrow> u256" where
  "evm_mulmod a b m = (if u_is_zero m then U_ZERO else snd (div_mod (u_wrapping_mul a b) m))"

definition evm_tri :: "(u256 \<Rightarrow> u256 \<Rightarrow> u256 \<Rightarrow> u256) \<Rightarrow> ('h, unit) evm_act" where
  "evm_tri g = andthen evm_pop (\<lambda>a. andthen evm_pop (\<lambda>b. andthen evm_pop (\<lambda>m. evm_push (g a b m))))"

definition evm_exp :: "u256 \<Rightarrow> u256 \<Rightarrow> u256" where
  "evm_exp base e = pow_loop u_wrapping_mul U_ONE base e"

definition evm_signextend :: "u256 \<Rightarrow> u256 \<Rightarrow> u256" where
  "evm_signextend i x =
     (if 31 \<le> low_u64 i then x
      else let b = low_usize i * 8 + 7; mask = u_wrapping_sub (u_shl U_ONE (b + 1)) U_ONE
           in if u_bit x b then u_or x (u_not mask) else u_and x mask)"

definition evm_sar :: "u256 \<Rightarrow> u256 \<Rightarrow> u256" where
  "evm_sar sh v =
     (let neg = is_neg v; s = low_usize sh in
      if \<not> bits_fit_usize sh \<or> 256 \<le> s then (if neg then u_not U_ZERO else U_ZERO)
      else let r = u_shr v s in
        if neg then u_or r (u_not (u_wrapping_sub (u_shl U_ONE (256 - s)) U_ONE)) else r)"

definition evm_byte :: "u256 \<Rightarrow> u256 \<Rightarrow> u256" where
  "evm_byte i x = (if 32 \<le> low_u64 i then U_ZERO else from_u64 (ucast (to_big_endian x ! low_usize i)))"

text \<open>Arithmetic and comparison, \<open>0x01\<close> to \<open>0x1d\<close>\<close>

definition arith_op :: "u8 \<Rightarrow> ('h, unit) evm_act" where
  "arith_op op =
     (if op = 0x01 then evm_bin u_wrapping_add
      else if op = 0x02 then evm_bin u_wrapping_mul
      else if op = 0x03 then evm_bin u_wrapping_sub
      else if op = 0x04 then evm_bin (\<lambda>a b. fst (div_mod a b))
      else if op = 0x05 then evm_bin evm_sdiv
      else if op = 0x06 then evm_bin (\<lambda>a b. snd (div_mod a b))
      else if op = 0x07 then evm_bin evm_smod
      else if op = 0x08 then evm_tri evm_addmod
      else if op = 0x09 then evm_tri evm_mulmod
      else if op = 0x0a then evm_bin evm_exp
      else if op = 0x0b then evm_bin evm_signextend
      else if op = 0x10 then evm_bin (\<lambda>a b. bool_u (u_lt a b))
      else if op = 0x11 then evm_bin (\<lambda>a b. bool_u (u_lt b a))
      else if op = 0x12 then evm_bin (\<lambda>a b. bool_u (u_signed_lt a b))
      else if op = 0x13 then evm_bin (\<lambda>a b. bool_u (u_signed_lt b a))
      else if op = 0x14 then evm_bin (\<lambda>a b. bool_u (a = b))
      else if op = 0x15 then andthen evm_pop (\<lambda>a. evm_push (bool_u (u_is_zero a)))
      else if op = 0x16 then evm_bin u_and
      else if op = 0x17 then evm_bin u_or
      else if op = 0x18 then evm_bin u_xor
      else if op = 0x19 then andthen evm_pop (\<lambda>a. evm_push (u_not a))
      else if op = 0x1a then evm_bin evm_byte
      else if op = 0x1b then evm_bin shift_l
      else if op = 0x1c then evm_bin shift_r
      else if op = 0x1d then evm_bin evm_sar
      else raise (VInvalidOpcode op))"
text \<open>Hashing and the environment, \<open>0x20\<close> to \<open>0x47\<close>\<close>

definition evm_keccak :: "evm_lib \<Rightarrow> frame_env \<Rightarrow> ('h, unit) evm_act" where
  "evm_keccak E env = andthen evm_pop (\<lambda>off. andthen evm_pop (\<lambda>len.
     andthen (mem_load env (low_usize off) (low_usize len)) (\<lambda>data.
       andthen (evm_charge env (30 + 6 * ((of_nat (low_usize len) + 31) div 32))) (\<lambda>_.
         evm_push (from_big_endian (keccak256 E data))))))"

definition copy_to_memory :: "frame_env \<Rightarrow> bytes \<Rightarrow> ('h, unit) evm_act" where
  "copy_to_memory env src = andthen pop_usize (\<lambda>dest. andthen pop_usize (\<lambda>off. andthen pop_usize (\<lambda>len.
     andthen (copied src off len) (\<lambda>data. mem_store env dest data))))"

definition extcodecopy :: "'h evm_host \<Rightarrow> frame_env \<Rightarrow> ('h, unit) evm_act" where
  "extcodecopy H env = andthen evm_pop (\<lambda>a. andthen pop_usize (\<lambda>dest. andthen pop_usize (\<lambda>off. andthen pop_usize (\<lambda>len.
     andthen (get_host (\<lambda>h. host_code H h a)) (\<lambda>code. andthen (copied code off len) (\<lambda>data. mem_store env dest data))))))"

definition extcodehash :: "evm_lib \<Rightarrow> 'h evm_host \<Rightarrow> ('h, unit) evm_act" where
  "extcodehash E H = andthen evm_pop (\<lambda>a. andthen (get_host (\<lambda>h. host_code H h a)) (\<lambda>code.
     if code = [] then evm_push U_ZERO else evm_push (from_big_endian (keccak256 E code))))"

definition env_op :: "evm_lib \<Rightarrow> 'h evm_host \<Rightarrow> frame_env \<Rightarrow> u8 \<Rightarrow> ('h, unit) evm_act" where
  "env_op E H env op =
     (let ctx = fe_ctx env in
      if op = 0x20 then evm_keccak E env
      else if op = 0x30 then evm_push (cc_address ctx)
      else if op = 0x31 then andthen evm_pop (\<lambda>a. andthen (get_host (\<lambda>h. host_balance H h a)) evm_push)
      else if op = 0x32 \<or> op = 0x33 then evm_push (cc_caller ctx)
      else if op = 0x34 then evm_push (cc_value ctx)
      else if op = 0x35 then
        andthen pop_usize (\<lambda>off. evm_push (from_big_endian (map (source_byte (cc_calldata ctx) off) [0..<32])))
      else if op = 0x36 then evm_push (from_u64 (of_nat (length (cc_calldata ctx))))
      else if op = 0x37 then copy_to_memory env (cc_calldata ctx)
      else if op = 0x38 then evm_push (from_u64 (of_nat (length (fe_code env))))
      else if op = 0x39 then copy_to_memory env (fe_code env)
      else if op = 0x3a then evm_push U_ZERO
      else if op = 0x3b then
        andthen evm_pop (\<lambda>a. andthen (get_host (\<lambda>h. host_code H h a)) (\<lambda>code. evm_push (from_u64 (of_nat (length code)))))
      else if op = 0x3c then extcodecopy H env
      else if op = 0x3d then andthen (gets fr_ret_buffer) (\<lambda>rb. evm_push (from_u64 (of_nat (length rb))))
      else if op = 0x3e then andthen (gets fr_ret_buffer) (copy_to_memory env)
      else if op = 0x3f then extcodehash E H
      else if op = 0x43 then andthen (get_host (host_block_number H)) (\<lambda>n. evm_push (from_u64 n))
      else if op = 0x42 then andthen (get_host (host_block_timestamp H)) (\<lambda>n. evm_push (from_u64 n))
      else if op = 0x46 then andthen (get_host (host_chain_id H)) (\<lambda>n. evm_push (from_u64 n))
      else if op = 0x47 then andthen (get_host (\<lambda>h. host_balance H h (cc_address ctx))) evm_push
      else raise (VInvalidOpcode op))"

text \<open>Stack, memory, storage and logs, \<open>0x50\<close> to \<open>0x5b\<close> without the jumps, and \<open>0x80\<close> to \<open>0xa4\<close>\<close>

definition evm_mload :: "frame_env \<Rightarrow> ('h, unit) evm_act" where
  "evm_mload env = andthen pop_usize (\<lambda>off. andthen (mem_load env off 32) (\<lambda>data. evm_push (from_big_endian data)))"

definition evm_mstore :: "frame_env \<Rightarrow> ('h, unit) evm_act" where
  "evm_mstore env = andthen pop_usize (\<lambda>off. andthen evm_pop (\<lambda>val. mem_store env off (to_big_endian val)))"

definition evm_mstore8 :: "frame_env \<Rightarrow> ('h, unit) evm_act" where
  "evm_mstore8 env = andthen pop_usize (\<lambda>off. andthen evm_pop (\<lambda>val. mem_store env off [to_big_endian val ! 31]))"

definition evm_sstore :: "'h evm_host \<Rightarrow> frame_env \<Rightarrow> ('h, unit) evm_act" where
  "evm_sstore H env =
     (if fe_static env then raise VStaticViolation
      else andthen (evm_charge env 20000) (\<lambda>_. andthen evm_pop (\<lambda>key. andthen evm_pop (\<lambda>val.
        upd_host (host_sstore H (cc_address (fe_ctx env)) key val)))))"

primrec pop_many :: "nat \<Rightarrow> ('h, u256 list) evm_act" where
  "pop_many 0 = ret []"
| "pop_many (Suc n) = andthen evm_pop (\<lambda>v. andthen (pop_many n) (\<lambda>vs. ret (v # vs)))"

definition log_op :: "frame_env \<Rightarrow> u8 \<Rightarrow> ('h, unit) evm_act" where
  "log_op env topic_count = andthen pop_usize (\<lambda>off. andthen pop_usize (\<lambda>len.
     andthen (pop_many (unat topic_count)) (\<lambda>topics. andthen (mem_load env off len) (\<lambda>data.
       andthen (evm_charge env (375 * ucast topic_count + 8 * of_nat len)) (\<lambda>_.
         modify (\<lambda>f. f\<lparr>fr_logs := fr_logs f @ [\<lparr>lg_address = cc_address (fe_ctx env), lg_topics = topics, lg_data = data\<rparr>]\<rparr>))))))"

definition evm_dup :: "nat \<Rightarrow> ('h, unit) evm_act" where
  "evm_dup n = andthen (gets fr_stack) (\<lambda>st. if length st \<le> n then raise VStackUnderflow else evm_push (st ! n))"

definition evm_swap :: "nat \<Rightarrow> ('h, unit) evm_act" where
  "evm_swap n = andthen (gets fr_stack) (\<lambda>st.
     if length st \<le> n then raise VStackUnderflow else modify (\<lambda>f. f\<lparr>fr_stack := st[0 := st ! n, n := st ! 0]\<rparr>))"

definition data_op :: "'h evm_host \<Rightarrow> frame_env \<Rightarrow> u8 \<Rightarrow> ('h, unit) evm_act" where
  "data_op H env op =
     (if op = 0x50 then andthen evm_pop (\<lambda>_. ret ())
      else if op = 0x51 then evm_mload env
      else if op = 0x52 then evm_mstore env
      else if op = 0x53 then evm_mstore8 env
      else if op = 0x54 then andthen evm_pop (\<lambda>key. andthen (get_host (\<lambda>h. host_sload H h (cc_address (fe_ctx env)) key)) evm_push)
      else if op = 0x55 then evm_sstore H env
      else if op = 0x58 then andthen (gets fr_pc) (\<lambda>pc. evm_push (from_u64 (of_nat pc)))
      else if op = 0x59 then andthen (gets fr_memory) (\<lambda>m. evm_push (from_u64 (of_nat (length m))))
      else if op = 0x5a then andthen (gets fr_gas) (\<lambda>g. evm_push (from_u64 (saturating_sub (evm_gas_limit env) g)))
      else if op = 0x5b then ret ()
      else if 0x80 \<le> op \<and> op \<le> 0x8f then evm_dup (unat (op - 0x80))
      else if 0x90 \<le> op \<and> op \<le> 0x9f then evm_swap (unat (op - 0x90) + 1)
      else if 0xa0 \<le> op \<and> op \<le> 0xa4 then (if fe_static env then raise VStaticViolation else log_op env (op - 0xa0))
      else raise (VInvalidOpcode op))"

text \<open>Control flow: stop, jumps, pushes, return, revert and self-destruction\<close>

datatype evm_flow = Next | Jumped | Stopped

definition evm_jump :: "frame_env \<Rightarrow> u256 \<Rightarrow> ('h, unit) evm_act" where
  "evm_jump env dest =
     (let d = low_usize dest; dests = analyze_jumpdests (fe_code env) in
      if \<not> bits_fit_usize dest \<or> length dests \<le> d \<or> \<not> dests ! d then raise (VInvalidJump d)
      else modify (\<lambda>f. f\<lparr>fr_pc := d\<rparr>))"

definition push_op :: "frame_env \<Rightarrow> u8 \<Rightarrow> ('h, unit) evm_act" where
  "push_op env op = andthen (gets fr_pc) (\<lambda>pc.
     let n = unat (op - 0x60) + 1; start = pc + 1; stop = min (start + n) (length (fe_code env));
         slice = take (stop - start) (drop start (fe_code env)); bs = replicate (32 - length slice) 0 @ slice
     in andthen (evm_push (from_big_endian (drop (32 - n) bs))) (\<lambda>_. modify (\<lambda>f. f\<lparr>fr_pc := start + n\<rparr>)))"

definition return_memory :: "frame_env \<Rightarrow> ('h, unit) evm_act" where
  "return_memory env = andthen evm_pop (\<lambda>off. andthen evm_pop (\<lambda>len.
     andthen (mem_load env (low_usize off) (low_usize len)) (\<lambda>data. modify (\<lambda>f. f\<lparr>fr_return_data := data\<rparr>))))"

definition selfdestruct :: "'h evm_host \<Rightarrow> frame_env \<Rightarrow> ('h, unit) evm_act" where
  "selfdestruct H env =
     (if fe_static env then raise VStaticViolation
      else andthen evm_pop (\<lambda>beneficiary. andthen (get_host (\<lambda>h. host_balance H h (cc_address (fe_ctx env)))) (\<lambda>bal.
        if u_is_zero bal then ret ()
        else upd_host (\<lambda>h. snd (host_transfer H (cc_address (fe_ctx env)) beneficiary bal h)))))"

definition flow_op :: "'h evm_host \<Rightarrow> frame_env \<Rightarrow> u8 \<Rightarrow> ('h, evm_flow) evm_act" where
  "flow_op H env op =
     (if op = 0x00 then ret Stopped
      else if op = 0x56 then andthen evm_pop (\<lambda>dest. andthen (evm_jump env dest) (\<lambda>_. ret Jumped))
      else if op = 0x57 then andthen evm_pop (\<lambda>dest. andthen evm_pop (\<lambda>cond.
        if \<not> u_is_zero cond then andthen (evm_jump env dest) (\<lambda>_. ret Jumped) else ret Next))
      else if 0x60 \<le> op \<and> op \<le> 0x7f then andthen (push_op env op) (\<lambda>_. ret Jumped)
      else if op = 0xf3 then andthen (return_memory env) (\<lambda>_. ret Stopped)
      else if op = 0xfd then andthen (return_memory env) (\<lambda>_. raise VReverted)
      else if op = 0xff then andthen (selfdestruct H env) (\<lambda>_. ret Stopped)
      else raise (VInvalidOpcode op))"

definition plain_op :: "evm_lib \<Rightarrow> 'h evm_host \<Rightarrow> frame_env \<Rightarrow> u8 \<Rightarrow> ('h, evm_flow) evm_act" where
  "plain_op E H env op =
     (if op = 0x00 \<or> op = 0x56 \<or> op = 0x57 \<or> 0x60 \<le> op \<and> op \<le> 0x7f \<or> 0xf3 \<le> op then flow_op H env op
      else andthen (if op \<le> 0x1f then arith_op op else if op \<le> 0x4f then env_op E H env op else data_op H env op) (\<lambda>_. ret Next))"

section \<open>Calls and creation\<close>

text \<open>What a call or creation leads to: it is settled, or a frame has to run with the given code, context and snapshot.\<close>

datatype call_plan = Settled | RunFrame bytes call_context bool nat

definition clear_ret_buffer :: "('h, unit) evm_act" where
  "clear_ret_buffer = modify (\<lambda>f. f\<lparr>fr_ret_buffer := []\<rparr>)"

definition call_fails :: "('h, call_plan) evm_act" where
  "call_fails = andthen clear_ret_buffer (\<lambda>_. andthen (evm_push U_ZERO) (\<lambda>_. ret Settled))"

definition store_output :: "frame_env \<Rightarrow> nat \<Rightarrow> nat \<Rightarrow> bytes \<Rightarrow> ('h, unit) evm_act" where
  "store_output env ret_off ret_len output = andthen (modify (\<lambda>f. f\<lparr>fr_ret_buffer := output\<rparr>)) (\<lambda>_.
     let n = min ret_len (length output) in if 0 < n then mem_store env ret_off (take n output) else ret ())"

text \<open>The storage address, code address, caller, value and static flag of the callee\<close>

definition call_target :: "frame_env \<Rightarrow> call_kind \<Rightarrow> u256 \<Rightarrow> u256 \<Rightarrow> u256 \<times> u256 \<times> u256 \<times> u256 \<times> bool" where
  "call_target env kind target value =
     (let ctx = fe_ctx env; self = cc_address ctx in
      case kind of
        KCall \<Rightarrow> (target, target, self, value, fe_static env)
      | KStaticCall \<Rightarrow> (target, target, self, U_ZERO, True)
      | KDelegateCall \<Rightarrow> (self, target, cc_caller ctx, cc_value ctx, fe_static env)
      | KCallCode \<Rightarrow> (self, target, self, value, fe_static env))"

text \<open>The operands of a call: gas, target, value, and the ranges of arguments and output in memory\<close>

definition call_operands :: "call_kind \<Rightarrow> ('h, u256 \<times> u256 \<times> u256 \<times> nat \<times> nat \<times> nat \<times> nat) evm_act" where
  "call_operands kind = andthen evm_pop (\<lambda>gas. andthen evm_pop (\<lambda>target.
     andthen (if kind = KCall \<or> kind = KCallCode then evm_pop else ret U_ZERO) (\<lambda>value.
       andthen pop_usize (\<lambda>args_off. andthen pop_usize (\<lambda>args_len. andthen pop_usize (\<lambda>ret_off. andthen pop_usize (\<lambda>ret_len.
         ret (gas, target, value, args_off, args_len, ret_off, ret_len))))))))"

definition run_precompile :: "evm_lib \<Rightarrow> 'h evm_host \<Rightarrow> frame_env \<Rightarrow> u256 \<Rightarrow> bytes \<Rightarrow> nat \<Rightarrow> nat \<Rightarrow> nat \<Rightarrow> ('h, call_plan) evm_act" where
  "run_precompile E H env code_addr calldata snap ret_off ret_len =
     andthen (evm_charge env (precompile_gas code_addr calldata)) (\<lambda>_.
       case precompile_execute E code_addr calldata of
         Some output \<Rightarrow> andthen (upd_host (host_commit_snapshot H snap)) (\<lambda>_.
           andthen (store_output env ret_off ret_len output) (\<lambda>_. andthen (evm_push U_ONE) (\<lambda>_. ret Settled)))
       | None \<Rightarrow> andthen (upd_host (host_revert H snap)) (\<lambda>_. call_fails))"

definition start_callee :: "'h evm_host \<Rightarrow> frame_env \<Rightarrow> u256 \<Rightarrow> u256 \<times> u256 \<times> u256 \<times> u256 \<times> bool \<Rightarrow> bytes \<Rightarrow> nat \<Rightarrow> ('h, call_plan) evm_act" where
  "start_callee H env gas callee calldata snap =
     (let (storage_addr, code_addr, caller, call_value, sub_static) = callee in
      andthen (get_host (\<lambda>h. host_code H h code_addr)) (\<lambda>code.
        if code = [] then andthen (upd_host (host_commit_snapshot H snap)) (\<lambda>_.
          andthen clear_ret_buffer (\<lambda>_. andthen (evm_push U_ONE) (\<lambda>_. ret Settled)))
        else andthen (gets fr_gas) (\<lambda>used.
          let forwarded = min (saturating_sub (evm_gas_limit env) used) (low_u64_saturating gas) in
          ret (RunFrame code \<lparr>cc_caller = caller, cc_address = storage_addr, cc_value = call_value, cc_calldata = calldata,
                 cc_gas_limit = max forwarded 1\<rparr> sub_static snap))))"

text \<open>Entering the callee: the snapshot, the transfer of value, and a precompiled contract or a frame\<close>

definition call_enter ::
  "evm_lib \<Rightarrow> 'h evm_host \<Rightarrow> frame_env \<Rightarrow> call_kind \<Rightarrow> u256 \<Rightarrow> u256 \<Rightarrow> u256 \<Rightarrow> bytes \<Rightarrow> nat \<Rightarrow> nat \<Rightarrow> ('h, call_plan) evm_act" where
  "call_enter E H env kind gas target value calldata ret_off ret_len =
     (let callee = call_target env kind target value; (storage_addr, code_addr, caller, call_value, sub_static) = callee;
          self = cc_address (fe_ctx env) in
      andthen (take_snapshot H) (\<lambda>snap. andthen (get_host (\<lambda>h. host_balance H h self)) (\<lambda>bal.
        if kind = KCall \<and> \<not> u_is_zero call_value \<and> u_lt bal call_value
        then andthen (upd_host (host_revert H snap)) (\<lambda>_. call_fails)
        else andthen (if kind = KCall \<and> \<not> u_is_zero call_value
                      then upd_host (\<lambda>h. snd (host_transfer H self target call_value h)) else ret ()) (\<lambda>_.
          if is_precompile code_addr then run_precompile E H env code_addr calldata snap ret_off ret_len
          else start_callee H env gas callee calldata snap))))"

definition call_prepare :: "evm_lib \<Rightarrow> 'h evm_host \<Rightarrow> frame_env \<Rightarrow> call_kind \<Rightarrow> ('h, call_plan \<times> nat \<times> nat) evm_act" where
  "call_prepare E H env kind = andthen (evm_charge env 100) (\<lambda>_. andthen (call_operands kind) (\<lambda>(gas, target, value, args_off, args_len, ret_off, ret_len).
     if fe_static env \<and> \<not> u_is_zero value then raise VStaticViolation
     else andthen (mem_load env args_off args_len) (\<lambda>calldata.
       andthen (if MAX_CALL_DEPTH \<le> fe_depth env then call_fails
                else call_enter E H env kind gas target value calldata ret_off ret_len) (\<lambda>plan. ret (plan, ret_off, ret_len)))))"

definition call_finish :: "'h evm_host \<Rightarrow> frame_env \<Rightarrow> nat \<Rightarrow> nat \<Rightarrow> nat \<Rightarrow> exec_outcome \<Rightarrow> ('h, unit) evm_act" where
  "call_finish H env snap ret_off ret_len out = andthen (evm_charge env (eo_gas_used out)) (\<lambda>_.
     andthen (if eo_success out
              then andthen (upd_host (host_commit_snapshot H snap)) (\<lambda>_. modify (\<lambda>f. f\<lparr>fr_logs := fr_logs f @ eo_logs out\<rparr>))
              else upd_host (host_revert H snap)) (\<lambda>_.
       andthen (store_output env ret_off ret_len (eo_return_data out)) (\<lambda>_. evm_push (bool_u (eo_success out)))))"

text \<open>Creating an account: the nonce, the snapshot, the transfer of value, and the frame of the initialisation code\<close>

definition create_enter :: "evm_lib \<Rightarrow> 'h evm_host \<Rightarrow> frame_env \<Rightarrow> u256 \<Rightarrow> u256 option \<Rightarrow> bytes \<Rightarrow> ('h, call_plan \<times> u256) evm_act" where
  "create_enter E H env value salt init =
     (let sender = cc_address (fe_ctx env) in
      andthen (get_host (\<lambda>h. case salt of Some s \<Rightarrow> create2_address E sender s init
                             | None \<Rightarrow> create_address E sender (host_account_nonce H h sender))) (\<lambda>new_addr.
      andthen (upd_host (host_bump_nonce H sender)) (\<lambda>_.
      andthen (take_snapshot H) (\<lambda>snap. andthen (get_host (\<lambda>h. host_balance H h sender)) (\<lambda>bal.
        if \<not> u_is_zero value \<and> u_lt bal value
        then andthen (upd_host (host_revert H snap)) (\<lambda>_. andthen call_fails (\<lambda>plan. ret (plan, U_ZERO)))
        else andthen (if \<not> u_is_zero value then upd_host (\<lambda>h. snd (host_transfer H sender new_addr value h)) else ret ()) (\<lambda>_.
          andthen (gets fr_gas) (\<lambda>used.
            ret (RunFrame init \<lparr>cc_caller = sender, cc_address = new_addr, cc_value = value, cc_calldata = [],
                   cc_gas_limit = max (saturating_sub (evm_gas_limit env) used) 1\<rparr> False snap, new_addr))))))))"

definition create_prepare :: "evm_lib \<Rightarrow> 'h evm_host \<Rightarrow> frame_env \<Rightarrow> bool \<Rightarrow> ('h, call_plan \<times> u256) evm_act" where
  "create_prepare E H env is_create2 =
     (if fe_static env then raise VStaticViolation
      else andthen (evm_charge env 32000) (\<lambda>_. andthen evm_pop (\<lambda>value. andthen pop_usize (\<lambda>off. andthen pop_usize (\<lambda>len.
        andthen (if is_create2 then andthen evm_pop (\<lambda>s. ret (Some s)) else ret None) (\<lambda>salt.
          andthen (mem_load env off len) (\<lambda>init.
            if MAX_CALL_DEPTH \<le> fe_depth env then andthen call_fails (\<lambda>plan. ret (plan, U_ZERO))
            else create_enter E H env value salt init)))))))"

definition create_finish :: "'h evm_host \<Rightarrow> frame_env \<Rightarrow> nat \<Rightarrow> u256 \<Rightarrow> exec_outcome \<Rightarrow> ('h, unit) evm_act" where
  "create_finish H env snap new_addr out = andthen (evm_charge env (eo_gas_used out)) (\<lambda>_.
     if eo_success out \<and> length (eo_return_data out) \<le> MAX_CODE_SIZE then
       andthen (upd_host (host_set_code H new_addr (eo_return_data out))) (\<lambda>_.
       andthen (upd_host (host_commit_snapshot H snap)) (\<lambda>_.
       andthen (modify (\<lambda>f. f\<lparr>fr_logs := fr_logs f @ eo_logs out\<rparr>)) (\<lambda>_.
       andthen clear_ret_buffer (\<lambda>_. evm_push new_addr))))
     else andthen (upd_host (host_revert H snap)) (\<lambda>_.
       andthen (modify (\<lambda>f. f\<lparr>fr_ret_buffer := eo_return_data out\<rparr>)) (\<lambda>_. evm_push U_ZERO)))"

text \<open>Running the callee of a plan: an error of the callee other than a revert ends the caller too.\<close>

definition run_plan ::
  "'h sub_exec \<Rightarrow> frame_env \<Rightarrow> (nat \<Rightarrow> exec_outcome \<Rightarrow> ('h, unit) evm_act) \<Rightarrow> call_plan \<Rightarrow> 'h frame \<Rightarrow>
   ((evm_vm_error, unit) outcome \<times> 'h frame) option" where
  "run_plan sub env finish plan f = (case plan of
      Settled \<Rightarrow> Some (Ok (), f)
    | RunFrame code ctx static snap \<Rightarrow> (case sub code ctx (fr_host f) (fe_depth env + 1) static of
        None \<Rightarrow> None
      | Some (Ok out, h) \<Rightarrow> Some (finish snap out (f\<lparr>fr_host := h\<rparr>))
      | Some (Err e, h) \<Rightarrow> Some (Err e, f\<lparr>fr_host := h\<rparr>)
      | Some (Panic, h) \<Rightarrow> Some (Panic, f\<lparr>fr_host := h\<rparr>)))"

definition do_call ::
  "evm_lib \<Rightarrow> 'h evm_host \<Rightarrow> 'h sub_exec \<Rightarrow> frame_env \<Rightarrow> call_kind \<Rightarrow> 'h frame \<Rightarrow> ((evm_vm_error, unit) outcome \<times> 'h frame) option" where
  "do_call E H sub env kind f = (case call_prepare E H env kind f of
      (Ok (plan, ret_off, ret_len), f') \<Rightarrow> run_plan sub env (\<lambda>snap. call_finish H env snap ret_off ret_len) plan f'
    | (Err e, f') \<Rightarrow> Some (Err e, f')
    | (Panic, f') \<Rightarrow> Some (Panic, f'))"

definition do_create ::
  "evm_lib \<Rightarrow> 'h evm_host \<Rightarrow> 'h sub_exec \<Rightarrow> frame_env \<Rightarrow> bool \<Rightarrow> 'h frame \<Rightarrow> ((evm_vm_error, unit) outcome \<times> 'h frame) option" where
  "do_create E H sub env is_create2 f = (case create_prepare E H env is_create2 f of
      (Ok (plan, new_addr), f') \<Rightarrow> run_plan sub env (\<lambda>snap. create_finish H env snap new_addr) plan f'
    | (Err e, f') \<Rightarrow> Some (Err e, f')
    | (Panic, f') \<Rightarrow> Some (Panic, f'))"

section \<open>The loop of a frame\<close>

text \<open>One turn of the loop: the base charge, then the opcode.\<close>

definition evm_dispatch ::
  "evm_lib \<Rightarrow> 'h evm_host \<Rightarrow> 'h sub_exec \<Rightarrow> frame_env \<Rightarrow> u8 \<Rightarrow> 'h frame \<Rightarrow> ((evm_vm_error, evm_flow) outcome \<times> 'h frame) option" where
  "evm_dispatch E H sub env op f =
     (let next = map_option (\<lambda>(r, f'). (case r of Ok _ \<Rightarrow> Ok Next | Err e \<Rightarrow> Err e | Panic \<Rightarrow> Panic, f')) in
      if op = 0xf0 then next (do_create E H sub env False f)
      else if op = 0xf5 then next (do_create E H sub env True f)
      else if op = 0xf1 then next (do_call E H sub env KCall f)
      else if op = 0xf2 then next (do_call E H sub env KCallCode f)
      else if op = 0xf4 then next (do_call E H sub env KDelegateCall f)
      else if op = 0xfa then next (do_call E H sub env KStaticCall f)
      else Some (plain_op E H env op f))"

definition evm_step ::
  "evm_lib \<Rightarrow> 'h evm_host \<Rightarrow> 'h sub_exec \<Rightarrow> frame_env \<Rightarrow> 'h frame \<Rightarrow> ((evm_vm_error, evm_flow) outcome \<times> 'h frame) option" where
  "evm_step E H sub env f =
     (if length (fe_code env) \<le> fr_pc f then Some (Ok Stopped, f)
      else let op = fe_code env ! fr_pc f in
        (case evm_charge env (base_gas op) f of
           (Ok _, f1) \<Rightarrow> evm_dispatch E H sub env op f1
         | (Err e, f1) \<Rightarrow> Some (Err e, f1)
         | (Panic, f1) \<Rightarrow> Some (Panic, f1)))"

partial_function (option) exec_loop ::
  "evm_lib \<Rightarrow> 'h evm_host \<Rightarrow> 'h sub_exec \<Rightarrow> frame_env \<Rightarrow> 'h frame \<Rightarrow> ((evm_vm_error, unit) outcome \<times> 'h frame) option" where
  "exec_loop E H sub env f = (case evm_step E H sub env f of
      None \<Rightarrow> None
    | Some (r, f') \<Rightarrow> (case r of
        Ok Next \<Rightarrow> exec_loop E H sub env (f'\<lparr>fr_pc := fr_pc f' + 1\<rparr>)
      | Ok Jumped \<Rightarrow> exec_loop E H sub env f'
      | Ok Stopped \<Rightarrow> Some (Ok (), f')
      | Err e \<Rightarrow> Some (Err e, f')
      | Panic \<Rightarrow> Some (Panic, f')))"

definition frame_new :: "'h \<Rightarrow> 'h frame" where
  "frame_new h = \<lparr>fr_stack = [], fr_memory = [], fr_pc = 0, fr_gas = 0, fr_host = h, fr_logs = [], fr_return_data = [], fr_ret_buffer = []\<rparr>"

text \<open>\<open>Interpreter::run\<close>: a revert is an outcome, every other error is returned\<close>

definition frame_result :: "(evm_vm_error, unit) outcome \<Rightarrow> 'h frame \<Rightarrow> (evm_vm_error, exec_outcome) outcome" where
  "frame_result r f = (case r of
      Ok _ \<Rightarrow> Ok \<lparr>eo_success = True, eo_return_data = fr_return_data f, eo_gas_used = fr_gas f, eo_logs = fr_logs f\<rparr>
    | Err e \<Rightarrow> if e = VReverted
        then Ok \<lparr>eo_success = False, eo_return_data = fr_return_data f, eo_gas_used = fr_gas f, eo_logs = []\<rparr> else Err e
    | Panic \<Rightarrow> Panic)"

definition run_frame :: "evm_lib \<Rightarrow> 'h evm_host \<Rightarrow> 'h sub_exec \<Rightarrow> 'h sub_exec" where
  "run_frame E H sub code ctx h depth static =
     map_option (\<lambda>(r, f). (frame_result r f, fr_host f))
       (exec_loop E H sub \<lparr>fe_code = code, fe_ctx = ctx, fe_depth = depth, fe_static = static\<rparr> (frame_new h))"

text \<open>
  \<open>frames_below n\<close> runs a frame that has \<open>n\<close> levels of calls below it; a frame at the depth limit starts no callee, and the argument
  that would run one is never consulted.
\<close>

primrec frames_below :: "evm_lib \<Rightarrow> 'h evm_host \<Rightarrow> nat \<Rightarrow> 'h sub_exec" where
  "frames_below E H 0 = run_frame E H (\<lambda>_ _ _ _ _. None)"
| "frames_below E H (Suc n) = run_frame E H (frames_below E H n)"

definition execute_frame :: "evm_lib \<Rightarrow> 'h evm_host \<Rightarrow> 'h sub_exec" where
  "execute_frame E H code ctx h depth static = frames_below E H (unat (saturating_sub MAX_CALL_DEPTH depth)) code ctx h depth static"

section \<open>The in-memory host\<close>

type_synonym mem_snapshot = "(u256 \<times> u256 \<rightharpoonup> u256) \<times> (u256 \<rightharpoonup> u256) \<times> (u256 \<rightharpoonup> bytes) \<times> (u256 \<rightharpoonup> u64)"

record mem_host =
  mh_storage :: "u256 \<times> u256 \<rightharpoonup> u256"
  mh_balances :: "u256 \<rightharpoonup> u256"
  mh_codes :: "u256 \<rightharpoonup> bytes"
  mh_nonces :: "u256 \<rightharpoonup> u64"
  mh_block_number :: u64
  mh_timestamp :: u64
  mh_chain_id :: u64
  mh_snapshots :: "mem_snapshot list"

definition or_default :: "'a \<Rightarrow> 'a option \<Rightarrow> 'a" where
  "or_default d x = (case x of None \<Rightarrow> d | Some v \<Rightarrow> v)"

definition mem_core :: "mem_host \<Rightarrow> mem_snapshot" where
  "mem_core h = (mh_storage h, mh_balances h, mh_codes h, mh_nonces h)"

definition mem_balance :: "mem_host \<Rightarrow> u256 \<Rightarrow> u256" where
  "mem_balance h a = or_default U_ZERO (mh_balances h a)"

definition mem_transfer :: "u256 \<Rightarrow> u256 \<Rightarrow> u256 \<Rightarrow> mem_host \<Rightarrow> bool \<times> mem_host" where
  "mem_transfer from to value h =
     (let bal = mem_balance h from in
      if u_lt bal value then (False, h)
      else let h1 = h\<lparr>mh_balances := (mh_balances h)(from \<mapsto> u_wrapping_sub bal value)\<rparr>; tb = mem_balance h1 to
           in (True, h1\<lparr>mh_balances := (mh_balances h1)(to \<mapsto> u_wrapping_add tb value)\<rparr>))"

definition mem_snapshot_op :: "mem_host \<Rightarrow> nat \<times> mem_host" where
  "mem_snapshot_op h = (let snaps = mh_snapshots h @ [mem_core h] in (length snaps, h\<lparr>mh_snapshots := snaps\<rparr>))"

function mem_revert :: "nat \<Rightarrow> mem_host \<Rightarrow> mem_host" where
  "mem_revert snapshot h =
     (if snapshot \<le> length (mh_snapshots h) \<and> mh_snapshots h \<noteq> [] then
        (let (s, b, c, n) = last (mh_snapshots h); h1 = h\<lparr>mh_snapshots := butlast (mh_snapshots h)\<rparr> in
         if length (mh_snapshots h1) + 1 = snapshot
         then h1\<lparr>mh_storage := s, mh_balances := b, mh_codes := c, mh_nonces := n\<rparr>
         else mem_revert snapshot h1)
      else h)"
  by pat_completeness auto

termination
  by (relation "measure (\<lambda>(_, h). length (mh_snapshots h))") auto

declare mem_revert.simps [simp del]

text \<open>\<open>truncate(snapshot - 1)\<close>; the subtraction wraps for zero, which leaves the list as it is\<close>

definition mem_commit :: "nat \<Rightarrow> mem_host \<Rightarrow> mem_host" where
  "mem_commit snapshot h =
     (if snapshot \<le> length (mh_snapshots h) \<and> mh_snapshots h \<noteq> []
      then h\<lparr>mh_snapshots := take (if snapshot = 0 then 2 ^ 64 - 1 else snapshot - 1) (mh_snapshots h)\<rparr> else h)"

definition mem_host_ops :: "mem_host evm_host" where
  "mem_host_ops = \<lparr>
     host_sload = (\<lambda>h a k. or_default U_ZERO (mh_storage h (a, k))),
     host_sstore = (\<lambda>a k v h. h\<lparr>mh_storage := (mh_storage h)((a, k) \<mapsto> v)\<rparr>),
     host_balance = mem_balance,
     host_block_number = mh_block_number,
     host_block_timestamp = mh_timestamp,
     host_chain_id = mh_chain_id,
     host_code = (\<lambda>h a. or_default [] (mh_codes h a)),
     host_set_code = (\<lambda>a c h. h\<lparr>mh_codes := (mh_codes h)(a \<mapsto> c)\<rparr>),
     host_account_nonce = (\<lambda>h a. or_default 0 (mh_nonces h a)),
     host_bump_nonce = (\<lambda>a h. h\<lparr>mh_nonces := (mh_nonces h)(a \<mapsto> or_default 0 (mh_nonces h a) + 1)\<rparr>),
     host_transfer = mem_transfer,
     host_snapshot = mem_snapshot_op,
     host_revert = mem_revert,
     host_commit_snapshot = mem_commit\<rparr>"

section \<open>The contract of a host\<close>

text \<open>
  What the interpreter relies on: a host has a content and a stack of saved contents; a snapshot saves the content, reverting to it restores
  the content and drops it with all later ones, committing drops them and keeps the content, and the other operations leave the saved
  contents alone.
\<close>

locale evm_host_laws =
  fixes H :: "'h evm_host" and core :: "'h \<Rightarrow> 'c" and snaps :: "'h \<Rightarrow> 'c list"
  assumes snapshot_law: "host_snapshot H h = (n, h') \<Longrightarrow> n = length (snaps h) + 1 \<and> core h' = core h \<and> snaps h' = snaps h @ [core h]"
    and revert_core: "1 \<le> n \<Longrightarrow> core (host_revert H n h) = (if n \<le> length (snaps h) then snaps h ! (n - 1) else core h)"
    and revert_snaps: "1 \<le> n \<Longrightarrow> snaps (host_revert H n h) = (if n \<le> length (snaps h) then take (n - 1) (snaps h) else snaps h)"
    and commit_core: "core (host_commit_snapshot H n h) = core h"
    and commit_snaps: "1 \<le> n \<Longrightarrow> snaps (host_commit_snapshot H n h) = take (n - 1) (snaps h)"
    and mutator_snaps: "snaps (host_sstore H a k v h) = snaps h" "snaps (host_set_code H a c h) = snaps h"
      "snaps (host_bump_nonce H a h) = snaps h" "snaps (snd (host_transfer H a b v h)) = snaps h"
begin

text \<open>Reverting to a snapshot restores the content it was taken of, whatever was saved and changed since.\<close>

lemma revert_after_snapshot:
  assumes "host_snapshot H h = (n, h1)" and "\<exists>ys. snaps h2 = snaps h1 @ ys"
  shows "core (host_revert H n h2) = core h" "snaps (host_revert H n h2) = snaps h"
  using snapshot_law [OF assms(1)] assms(2) by (auto simp: revert_core revert_snaps nth_append)

end

lemma mem_revert_law:
  assumes "1 \<le> n"
  shows "mem_core (mem_revert n h) = (if n \<le> length (mh_snapshots h) then mh_snapshots h ! (n - 1) else mem_core h) \<and>
    mh_snapshots (mem_revert n h) = (if n \<le> length (mh_snapshots h) then take (n - 1) (mh_snapshots h) else mh_snapshots h)"
proof (induction "mh_snapshots h" arbitrary: h rule: rev_induct)
  case Nil
  then have "mem_revert n h = h" by (subst mem_revert.simps) simp
  then show ?case using Nil assms by (simp flip: Nil)
next
  case (snoc x xs)
  obtain s b c m where x: "x = (s, b, c, m)" by (cases x)
  have h: "mh_snapshots h = xs @ [(s, b, c, m)]" using snoc(2) x by simp
  consider "length xs + 1 < n" | "length xs + 1 = n" | "n < length xs + 1" by linarith
  then show ?case
  proof cases
    case 1
    then have "mem_revert n h = h" using h by (subst mem_revert.simps) simp
    then show ?thesis using 1 h by simp
  next
    case 2
    then have "mem_revert n h = h\<lparr>mh_snapshots := xs, mh_storage := s, mh_balances := b, mh_codes := c, mh_nonces := m\<rparr>"
      using h by (subst mem_revert.simps) (simp add: Let_def)
    then show ?thesis using h 2 by (auto simp: mem_core_def)
  next
    case 3
    then have "mem_revert n h = mem_revert n (h\<lparr>mh_snapshots := xs\<rparr>)" using h by (subst mem_revert.simps) (simp add: Let_def)
    moreover have "n - 1 < length xs" using 3 assms by simp
    ultimately show ?thesis using snoc(1) [of "h\<lparr>mh_snapshots := xs\<rparr>"] 3 h by (simp add: nth_append)
  qed
qed

interpretation mem_host: evm_host_laws mem_host_ops mem_core mh_snapshots
  by unfold_locales
    (auto simp: mem_host_ops_def mem_snapshot_op_def mem_core_def Let_def mem_revert_law [unfolded mem_core_def] mem_commit_def mem_transfer_def)

end
