(* ===== verification/Evm_Arith.thy ===== *)
theory Evm_Arith
  imports Evm_Vm "HOL-Library.Signed_Division"
begin

unbundle bit_operations_syntax

text \<open>
  The arithmetic opcodes of the EVM interpreter (\<open>src/evm/src/vm.rs\<close>) against the arithmetic of 256-bit words: signed division and
  remainder truncate towards zero, signed comparison and the arithmetic shift read two's complement, exponentiation is modulo
  \<open>2 ^ 256\<close>, and ADDMOD and MULMOD reduce after the sum or product has wrapped.
\<close>

section \<open>Two's complement\<close>

lemma is_neg_sint: "is_neg a \<longleftrightarrow> sint (to_word a) < 0"
  by (simp add: is_neg_def u_bit_word sint_uint bit_uint_iff)

text \<open>The magnitude the signed opcodes compute with\<close>

lemma magnitude_uint: "uint (to_word (if is_neg a then u_neg a else a)) = \<bar>sint (to_word a)\<bar>"
proof (cases "is_neg a")
  case True
  let ?w = "to_word a"
  have neg: "sint ?w < 0" using True by (simp add: is_neg_sint)
  have "- sint ?w \<le> 2 ^ 255" using sint_greater_eq [of ?w] by simp
  moreover have "uint (- ?w) = (- sint ?w) mod 2 ^ 256"
    using uint_sint [of ?w] by (simp add: uint_word_ariths take_bit_eq_mod mod_minus_eq del: power_numeral)
  ultimately have "uint (- ?w) = - sint ?w" using neg by simp
  then show ?thesis using True neg by (simp add: to_word_neg)
next
  case False
  then have "0 \<le> sint (to_word a)" by (simp add: is_neg_sint)
  then have "sint (to_word a) mod 2 ^ 256 = sint (to_word a)" using sint_less [of "to_word a"] by simp
  then have "sint (to_word a) = uint (to_word a)" by (simp add: uint_sint take_bit_eq_mod)
  then show ?thesis using False by simp
qed
lemma magnitude_word: "to_word (if is_neg a then u_neg a else a) = word_of_int \<bar>sint (to_word a)\<bar>"
  by (simp add: magnitude_uint [symmetric] del: sint_uint)

lemma sdiv_word:
  "to_word (evm_sdiv a b) = (if to_word b = 0 then 0 else word_of_int (sint (to_word a) sdiv sint (to_word b)))"
proof (cases "to_word b = 0")
  case False
  let ?A = "sint (to_word a)" and ?B = "sint (to_word b)"
  let ?q = "fst (div_mod (if is_neg a then u_neg a else a) (if is_neg b then u_neg b else b))"
  have q: "to_word ?q = word_of_int (\<bar>?A\<bar> div \<bar>?B\<bar>)"
    unfolding to_word_div word_div_def magnitude_uint ..
  have e: "evm_sdiv a b = (if is_neg a \<noteq> is_neg b then u_neg ?q else ?q)"
    using False by (simp add: evm_sdiv_def u_is_zero_word Let_def)
  have "?A sdiv ?B = (if ?A < 0 \<longleftrightarrow> ?B < 0 then \<bar>?A\<bar> div \<bar>?B\<bar> else - (\<bar>?A\<bar> div \<bar>?B\<bar>))"
    using False by (auto simp: signed_divide_int_def sgn_if)
  then have "?A sdiv ?B = (if is_neg a \<noteq> is_neg b then - (\<bar>?A\<bar> div \<bar>?B\<bar>) else \<bar>?A\<bar> div \<bar>?B\<bar>)" unfolding is_neg_sint by argo
  then show ?thesis using False q unfolding e by (cases "is_neg a \<noteq> is_neg b") (simp_all only: if_True if_False not_False_eq_True not_True_eq_False to_word_neg wi_hom_neg)
qed (simp add: evm_sdiv_def u_is_zero_word to_word_zero)

lemma smod_word:
  "to_word (evm_smod a b) = (if to_word b = 0 then 0 else word_of_int (sint (to_word a) smod sint (to_word b)))"
proof (cases "to_word b = 0")
  case False
  let ?A = "sint (to_word a)" and ?B = "sint (to_word b)"
  let ?r = "snd (div_mod (if is_neg a then u_neg a else a) (if is_neg b then u_neg b else b))"
  have nz: "to_word (if is_neg b then u_neg b else b) \<noteq> 0" using False by (simp add: to_word_neg)
  have r: "to_word ?r = word_of_int (\<bar>?A\<bar> mod \<bar>?B\<bar>)"
    unfolding to_word_mod if_not_P [OF nz] word_mod_def magnitude_uint ..
  have e: "evm_smod a b = (if is_neg a then u_neg ?r else ?r)"
    using False by (simp add: evm_smod_def u_is_zero_word Let_def)
  have "?A smod ?B = (if ?A < 0 then - (\<bar>?A\<bar> mod \<bar>?B\<bar>) else \<bar>?A\<bar> mod \<bar>?B\<bar>)"
    by (auto simp: signed_modulo_int_def sgn_if)
  then have "?A smod ?B = (if is_neg a then - (\<bar>?A\<bar> mod \<bar>?B\<bar>) else \<bar>?A\<bar> mod \<bar>?B\<bar>)" unfolding is_neg_sint .
  then show ?thesis using False r unfolding e by (cases "is_neg a") (simp_all only: if_True if_False to_word_neg wi_hom_neg)
qed (simp add: evm_smod_def u_is_zero_word to_word_zero)

lemma sint_eq_uint: "0 \<le> sint (w :: 256 word) \<Longrightarrow> uint w = sint w" "sint w < 0 \<Longrightarrow> uint w = sint w + 2 ^ 256"
proof -
  have u: "uint w = sint w mod 2 ^ 256" by (simp add: uint_sint take_bit_eq_mod)
  show "uint w = sint w" if "0 \<le> sint w" using that sint_less [of w] unfolding u by simp
  show "uint w = sint w + 2 ^ 256" if "sint w < 0"
  proof -
    have "sint w mod 2 ^ 256 = (sint w + 2 ^ 256) mod 2 ^ 256" by simp
    also have "\<dots> = sint w + 2 ^ 256" using that sint_greater_eq [of w] by (intro mod_pos_pos_trivial) simp_all
    finally show ?thesis unfolding u .
  qed
qed

lemma signed_lt_word: "u_signed_lt a b \<longleftrightarrow> sint (to_word a) < sint (to_word b)"
  using sint_eq_uint [of "to_word a"] sint_eq_uint [of "to_word b"]
  by (auto simp: u_signed_lt_def is_neg_sint u_lt_word word_less_def split: bool.splits)

section \<open>Shifts and powers\<close>

lemma shift_amount:
  "\<not> bits_fit_usize sh \<or> 256 \<le> low_usize sh \<longleftrightarrow> 256 \<le> unat (to_word sh)" "unat (to_word sh) < 256 \<Longrightarrow> low_usize sh = unat (to_word sh)"
proof -
  obtain a b c d where sh: "sh = U256 a b c d" by (cases sh)
  have v: "u_val sh = unat a + 2 ^ 64 * (unat b + 2 ^ 64 * (unat c + 2 ^ 64 * unat d))" by (simp add: u_val_def sh algebra_simps)
  have z: "unat b = 0 \<longleftrightarrow> b = 0" "unat c = 0 \<longleftrightarrow> c = 0" "unat d = 0 \<longleftrightarrow> d = 0" by (simp_all add: unat_eq_0)
  have u: "unat a \<le> 2 ^ 64 - 1" using u64_unat_less [of a] by simp
  show "\<not> bits_fit_usize sh \<or> 256 \<le> low_usize sh \<longleftrightarrow> 256 \<le> unat (to_word sh)" "unat (to_word sh) < 256 \<Longrightarrow> low_usize sh = unat (to_word sh)"
    using u z word_gt_0 [of b] unfolding bits_fit_usize_def low_usize_def unat_to_word v by (cases "b = 0"; cases "c = 0"; cases "d = 0"; auto simp: sh)+
qed

lemma shift_words:
  "to_word (shift_l sh v) = push_bit (unat (to_word sh)) (to_word v)" "to_word (shift_r sh v) = drop_bit (unat (to_word sh)) (to_word v)"
proof (atomize (full), cases "256 \<le> unat (to_word sh)")
  case True
  have "push_bit (unat (to_word sh)) (to_word v) = 0" "drop_bit (unat (to_word sh)) (to_word v) = 0"
    using True by (auto intro!: bit_word_eqI simp: bit_simps simp del: unat_to_word dest: bit_imp_le_length)
  then show "to_word (shift_l sh v) = push_bit (unat (to_word sh)) (to_word v) \<and> to_word (shift_r sh v) = drop_bit (unat (to_word sh)) (to_word v)"
    using True unfolding shift_l_def shift_r_def shift_amount(1) by (simp add: to_word_zero del: unat_to_word)
next
  case False
  then show "to_word (shift_l sh v) = push_bit (unat (to_word sh)) (to_word v) \<and> to_word (shift_r sh v) = drop_bit (unat (to_word sh)) (to_word v)"
    unfolding shift_l_def shift_r_def shift_amount(1) by (simp add: shift_amount(2) to_word_shl to_word_shr del: unat_to_word)
qed

lemma sar_word: "to_word (evm_sar sh v) = signed_drop_bit (unat (to_word sh)) (to_word v)"
proof (cases "256 \<le> unat (to_word sh)")
  case True
  then show ?thesis
    unfolding evm_sar_def Let_def shift_amount(1)
    by (intro bit_word_eqI) (auto simp: is_neg_def u_bit_word to_word_bitwise to_word_zero bit_signed_drop_bit_iff simp del: unat_to_word)
next
  case False
  let ?s = "unat (to_word sh)" and ?w = "to_word v"
  have m: "to_word (u_wrapping_sub (u_shl U_ONE (256 - ?s)) U_ONE) = mask (256 - ?s)"
    by (simp add: to_word_sub to_word_shl to_word_zero mask_eq_exp_minus_1 del: unat_to_word)
  have e: "to_word (evm_sar sh v) = (if bit ?w 255 then drop_bit ?s ?w OR NOT (mask (256 - ?s)) else drop_bit ?s ?w)"
    using False shift_amount [of sh]
    by (simp add: evm_sar_def Let_def is_neg_def u_bit_word to_word_bitwise to_word_shr m del: unat_to_word)
  show ?thesis
    unfolding e by (intro bit_word_eqI) (use False in \<open>auto simp: bit_simps bit_signed_drop_bit_iff simp del: unat_to_word dest: bit_imp_le_length\<close>)
qed

lemma exp_word: "to_word (evm_exp b e) = to_word b ^ unat (to_word e)"
proof -
  have "u_val (evm_exp b e) = u_val b ^ u_val e mod 2 ^ 256"
    using pow_loop_val [where mul = u_wrapping_mul and m = "2 ^ 256", OF _ wrapping_mul_val, of U_ONE b e] u_val_less [of b]
    by (simp add: evm_exp_def)
  then have "to_word (evm_exp b e) = of_nat (u_val b ^ u_val e)" by (simp add: to_word_def of_nat_mod_word(1) del: power_numeral)
  then show ?thesis by (simp add: to_word_def unat_to_word [unfolded to_word_def])
qed

section \<open>The opcodes\<close>

text \<open>
  The arithmetic opcodes compute on 256-bit words: SDIV and SMOD truncate towards zero and give zero for the divisor zero, SLT reads two's
  complement, SHL, SHR and SAR shift by any amount, and EXP is the power modulo \<open>2 ^ 256\<close>.
\<close>

theorem evm_signed_arithmetic:
  "to_word (evm_sdiv a b) = (if to_word b = 0 then 0 else word_of_int (sint (to_word a) sdiv sint (to_word b))) \<and>
   to_word (evm_smod a b) = (if to_word b = 0 then 0 else word_of_int (sint (to_word a) smod sint (to_word b))) \<and>
   (u_signed_lt a b \<longleftrightarrow> sint (to_word a) < sint (to_word b)) \<and>
   to_word (shift_l a b) = push_bit (unat (to_word a)) (to_word b) \<and> to_word (shift_r a b) = drop_bit (unat (to_word a)) (to_word b) \<and>
   to_word (evm_sar a b) = signed_drop_bit (unat (to_word a)) (to_word b) \<and>
   to_word (evm_exp a b) = to_word a ^ unat (to_word b)"
  by (intro conjI sdiv_word smod_word signed_lt_word shift_words sar_word exp_word)

text \<open>
  ADDMOD and MULMOD reduce the sum and the product after they have wrapped modulo \<open>2 ^ 256\<close>, where the instructions are defined on
  unbounded intermediate values: \<open>(2 ^ 256 - 1) + 1\<close> modulo \<open>7\<close> is \<open>2\<close> and the code computes zero, and \<open>2 ^ 128\<close> squared modulo \<open>7\<close> is \<open>2\<close> and
  the code computes zero.
\<close>

theorem evm_addmod_wraps:
  "u_val (evm_addmod a b m) = (if u_val m = 0 then 0 else (u_val a + u_val b) mod 2 ^ 256 mod u_val m) \<and>
   u_val (evm_mulmod a b m) = (if u_val m = 0 then 0 else (u_val a * u_val b) mod 2 ^ 256 mod u_val m) \<and>
   u_val (evm_addmod (u_not U_ZERO) U_ONE (from_u64 7)) = 0 \<and> (u_val (u_not U_ZERO) + u_val U_ONE) mod u_val (from_u64 7) = 2 \<and>
   u_val (evm_mulmod (u_shl U_ONE 128) (u_shl U_ONE 128) (from_u64 7)) = 0 \<and>
   (u_val (u_shl U_ONE 128) * u_val (u_shl U_ONE 128)) mod u_val (from_u64 7) = 2"
proof -
  have add: "u_val (evm_addmod a b m) = (if u_val m = 0 then 0 else (u_val a + u_val b) mod 2 ^ 256 mod u_val m)" for a b m
    by (simp add: evm_addmod_def u_is_zero_val div_mod_val(2) overflowing_add_val del: power_numeral)
  have mul: "u_val (evm_mulmod a b m) = (if u_val m = 0 then 0 else (u_val a * u_val b) mod 2 ^ 256 mod u_val m)" for a b m
    by (simp add: evm_mulmod_def u_is_zero_val div_mod_val(2) wrapping_mul_val del: power_numeral)
  have big: "u_val (u_not U_ZERO) = 2 ^ 256 - 1" "u_val (u_shl U_ONE 128) = 2 ^ 128"
    unfolding unat_to_word [symmetric] by (simp_all add: to_word_bitwise to_word_shl to_word_zero unsigned_minus_1_eq_mask mask_eq_exp_minus_1 del: unat_to_word)
  show ?thesis unfolding add mul big by simp
qed

end
