(* ===== verification/Evm_Vm_Properties.thy ===== *)
theory Evm_Vm_Properties
  imports Evm_Vm
begin

unbundle bit_operations_syntax

text \<open>
  Properties of the EVM interpreter: it returns for every gas limit below \<open>u64::MAX\<close> and stays within its limits on gas, stack and memory; a
  static frame leaves the host as it was; a call that reports failure leaves the host as it was; arithmetic opcodes against
  their definition; and inputs that make the interpreter panic.

  The proofs run through one locale: a predicate on frames that the primitive operations keep is kept by every opcode, every step and the
  whole loop.
\<close>

section \<open>Invariants of actions\<close>

text \<open>
  \<open>inv_act G P m Q\<close>: from a state with \<open>P\<close>, a result of \<open>m\<close> satisfies \<open>Q\<close> and leaves \<open>P\<close>; an error in \<open>G\<close> leaves \<open>P\<close> too.
\<close>

definition inv_act :: "('e \<Rightarrow> bool) \<Rightarrow> ('s \<Rightarrow> bool) \<Rightarrow> ('s, 'e, 'a) act \<Rightarrow> ('a \<Rightarrow> bool) \<Rightarrow> bool" where
  "inv_act G P m Q \<longleftrightarrow> (\<forall>s. P s \<longrightarrow> (case m s of (Ok x, s') \<Rightarrow> P s' \<and> Q x | (Err e, s') \<Rightarrow> G e \<longrightarrow> P s' | (Panic, s') \<Rightarrow> True))"

lemma inv_ret: "Q x \<Longrightarrow> inv_act G P (ret x) Q"
  by (simp add: inv_act_def ret_def)

lemma inv_raise: "inv_act G P (raise e) Q"
  by (simp add: inv_act_def raise_def)

lemma inv_panic: "inv_act G P panic Q"
  by (simp add: inv_act_def panic_def)

lemma inv_gets: "(\<And>s. P s \<Longrightarrow> Q (g s)) \<Longrightarrow> inv_act G P (gets g) Q"
  by (simp add: inv_act_def gets_def)

lemma inv_modify: "(\<And>s. P s \<Longrightarrow> P (g s)) \<Longrightarrow> inv_act G P (modify g) (\<lambda>_. True)"
  by (simp add: inv_act_def modify_def)

lemma inv_ensure: "inv_act G P (ensure b e) (\<lambda>_. True)"
  by (simp add: ensure_def inv_ret inv_raise)

lemma inv_andthen:
  assumes "inv_act G P m R" and "\<And>x. R x \<Longrightarrow> inv_act G P (f x) Q"
  shows "inv_act G P (andthen m f) Q"
  unfolding inv_act_def
proof (intro allI impI)
  fix s
  assume "P s"
  obtain r s1 where r: "m s = (r, s1)" by force
  show "case andthen m f s of (Ok x, s') \<Rightarrow> P s' \<and> Q x | (Err e, s') \<Rightarrow> G e \<longrightarrow> P s' | (Panic, s') \<Rightarrow> True"
  proof (cases r)
    case (Ok x)
    then have "P s1" "R x" using assms(1) \<open>P s\<close> r unfolding inv_act_def by force+
    then show ?thesis using assms(2) [of x] r Ok unfolding inv_act_def andthen_def by simp
  next
    case (Err e)
    then have "G e \<longrightarrow> P s1" using assms(1) \<open>P s\<close> r unfolding inv_act_def by force
    then show ?thesis using r Err by (simp add: andthen_def)
  qed (use r in \<open>simp add: andthen_def\<close>)
qed

lemma inv_weaken: "inv_act G P m R \<Longrightarrow> (\<And>x. R x \<Longrightarrow> Q x) \<Longrightarrow> inv_act G P m Q"
  unfolding inv_act_def by (intro allI impI, drule spec, drule mp, assumption) (auto split: prod.splits outcome.splits)

lemma inv_True: "inv_act G P m R \<Longrightarrow> inv_act G P m (\<lambda>_. True)"
  by (erule inv_weaken) simp

lemma inv_if: "(b \<Longrightarrow> inv_act G P m Q) \<Longrightarrow> (\<not> b \<Longrightarrow> inv_act G P n Q) \<Longrightarrow> inv_act G P (if b then m else n) Q"
  by simp

lemma inv_actD:
  assumes "inv_act G P m Q" and "P s"
  shows "m s = (Ok x, s') \<Longrightarrow> P s' \<and> Q x" "m s = (Err e, s') \<Longrightarrow> G e \<Longrightarrow> P s'"
  using assms unfolding inv_act_def by force+

text \<open>The same reading of a result for steps and loops, which may not return\<close>

definition result_ok :: "('e \<Rightarrow> bool) \<Rightarrow> ('s \<Rightarrow> bool) \<Rightarrow> (('e, 'a) outcome \<times> 's) option \<Rightarrow> bool" where
  "result_ok G P r \<longleftrightarrow> (case r of
      None \<Rightarrow> True | Some (Ok _, s) \<Rightarrow> P s | Some (Err e, s) \<Rightarrow> G e \<longrightarrow> P s | Some (Panic, s) \<Rightarrow> True)"

lemma result_okD:
  "result_ok G P r \<Longrightarrow> r = Some (Ok x, s) \<Longrightarrow> P s" "result_ok G P r \<Longrightarrow> r = Some (Err e, s) \<Longrightarrow> G e \<Longrightarrow> P s"
  by (simp_all add: result_ok_def)

lemma act_result_ok: "inv_act G P m Q \<Longrightarrow> P s \<Longrightarrow> result_ok G P (Some (m s))"
proof -
  assume a: "inv_act G P m Q" "P s"
  obtain r s' where r: "m s = (r, s')" by force
  show ?thesis
  proof (cases r)
    case (Ok x)
    then show ?thesis using inv_actD(1) [OF a, of x s'] r by (simp add: result_ok_def)
  next
    case (Err e)
    then show ?thesis using inv_actD(2) [OF a, of e s'] r by (simp add: result_ok_def)
  qed (simp add: r result_ok_def)
qed

section \<open>Invariants of frames\<close>

text \<open>
  A plan to run a frame carries a fresh snapshot, a static caller has a static callee, the caller is above the depth limit, and
  the callee gets at most the gas of the caller.
\<close>

definition plan_ok :: "(nat \<Rightarrow> bool) \<Rightarrow> frame_env \<Rightarrow> call_plan \<Rightarrow> bool" where
  "plan_ok fresh env plan = (case plan of Settled \<Rightarrow> True | RunFrame code ctx static snap \<Rightarrow>
     fresh snap \<and> (fe_static env \<longrightarrow> static) \<and> fe_depth env < MAX_CALL_DEPTH \<and> cc_gas_limit ctx \<le> max (evm_gas_limit env) 1)"

lemma capped_gas: "min (saturating_sub limit used) g \<le> max limit (1 :: u64)" "saturating_sub limit used \<le> max limit (1 :: u64)"
proof -
  have "saturating_sub limit used \<le> limit" by (simp add: word_le_nat_alt unat_saturating_sub)
  then show "saturating_sub limit used \<le> max limit (1 :: u64)" "min (saturating_sub limit used) g \<le> max limit (1 :: u64)"
    by (simp_all add: le_max_iff_disj min.coboundedI1)
qed

text \<open>The operations on gas, stack and memory keep the predicate.\<close>

locale frame_base =
  fixes env :: frame_env and G :: "evm_vm_error \<Rightarrow> bool" and P :: "'h frame \<Rightarrow> bool"
  assumes inv_charge: "inv_act G P (evm_charge env a) (\<lambda>_. True)"
    and inv_push: "inv_act G P (evm_push v) (\<lambda>_. True)"
    and inv_pop: "inv_act G P evm_pop (\<lambda>_. True)"
    and inv_ensure_mem: "inv_act G P (ensure_mem env off len) (\<lambda>_. True)"
    and same_memory: "P f \<Longrightarrow> length m = length (fr_memory f) \<Longrightarrow> P (f\<lparr>fr_memory := m\<rparr>)"
    and same_stack: "P f \<Longrightarrow> length st = length (fr_stack f) \<Longrightarrow> P (f\<lparr>fr_stack := st\<rparr>)"
    and other_fields: "P f \<Longrightarrow> P (f\<lparr>fr_pc := pc\<rparr>)" "P f \<Longrightarrow> P (f\<lparr>fr_logs := ls\<rparr>)" "P f \<Longrightarrow> P (f\<lparr>fr_return_data := d\<rparr>)"
      "P f \<Longrightarrow> P (f\<lparr>fr_ret_buffer := d\<rparr>)"
begin

lemma inv_get: "inv_act G P (gets g) (\<lambda>_. True)" "inv_act G P (get_host k) (\<lambda>_. True)"
  by (simp_all add: inv_gets get_host_def)

lemma inv_list: "inv_act G P m Q \<Longrightarrow> (\<And>x xs'. inv_act G P (g x xs') Q) \<Longrightarrow> inv_act G P (case xs of [] \<Rightarrow> m | x # xs' \<Rightarrow> g x xs') Q"
  by (cases xs) auto

lemma inv_set:
  "inv_act G P (modify (\<lambda>f. f\<lparr>fr_pc := k f\<rparr>)) (\<lambda>_. True)" "inv_act G P (modify (\<lambda>f. f\<lparr>fr_logs := l f\<rparr>)) (\<lambda>_. True)"
  "inv_act G P (modify (\<lambda>f. f\<lparr>fr_return_data := d f\<rparr>)) (\<lambda>_. True)" "inv_act G P (modify (\<lambda>f. f\<lparr>fr_ret_buffer := d f\<rparr>)) (\<lambda>_. True)"
  by (rule inv_modify, erule other_fields)+

lemma inv_pop_usize: "inv_act G P pop_usize (\<lambda>_. True)"
  unfolding pop_usize_def by (intro inv_andthen [OF inv_pop] inv_ret) simp

lemma inv_copied: "inv_act G P (copied src off len) (\<lambda>_. True)"
  unfolding copied_def by (intro inv_if inv_panic inv_ret) simp

lemma inv_mem_store: "inv_act G P (mem_store env off data) (\<lambda>_. True)"
proof -
  have "inv_act G P (andthen (gets fr_memory) (\<lambda>m. if off + length data \<le> length m
      then modify (\<lambda>f. f\<lparr>fr_memory := take off m @ data @ drop (off + length data) m\<rparr>) else panic)) (\<lambda>_. True)"
    unfolding inv_act_def by (auto simp: andthen_def gets_def modify_def panic_def intro: same_memory)
  then show ?thesis unfolding mem_store_def by (intro inv_andthen [OF inv_ensure_mem])
qed

lemma inv_mem_load: "inv_act G P (mem_load env off len) (\<lambda>_. True)"
  unfolding mem_load_def by (intro inv_if inv_ret inv_andthen [OF inv_ensure_mem] inv_get) simp

lemma inv_swap: "inv_act G P (evm_swap n) (\<lambda>_. True)"
  unfolding inv_act_def evm_swap_def by (auto simp: andthen_def gets_def modify_def raise_def intro: same_stack)

text \<open>Sequencing without a condition on the intermediate result\<close>

lemma inv_seq: "inv_act G P m (\<lambda>_. True) \<Longrightarrow> (\<And>x. inv_act G P (g x) Q) \<Longrightarrow> inv_act G P (andthen m g) Q"
  by (rule inv_andthen)

lemmas base_rules = inv_seq inv_if inv_charge inv_push inv_pop inv_ensure_mem inv_ret inv_raise inv_panic inv_ensure
  inv_get inv_list inv_set inv_pop_usize inv_copied inv_mem_store inv_mem_load inv_swap TrueI

lemma inv_store_output: "inv_act G P (store_output env off len out) (\<lambda>_. True)"
  unfolding store_output_def Let_def by (intro base_rules)

lemma inv_operands: "inv_act G P (call_operands kind) (\<lambda>_. True)"
  unfolding call_operands_def by (intro base_rules)

end

text \<open>So do the operations on the host that a frame may use, and its callees.\<close>

locale frame_invariant = frame_base env G P for env :: frame_env and G and P :: "'h frame \<Rightarrow> bool" +
  fixes E :: evm_lib and H :: "'h evm_host" and sub :: "'h sub_exec" and fresh :: "nat \<Rightarrow> bool"
  assumes inv_snapshot: "inv_act G P (take_snapshot H) fresh"
    and inv_revert: "fresh n \<Longrightarrow> inv_act G P (upd_host (host_revert H n)) (\<lambda>_. True)"
    and inv_commit: "fresh n \<Longrightarrow> inv_act G P (upd_host (host_commit_snapshot H n)) (\<lambda>_. True)"
    and mutators: "\<not> fe_static env \<Longrightarrow> P f \<Longrightarrow> P (f\<lparr>fr_host := host_sstore H x k v (fr_host f)\<rparr>)"
      "\<not> fe_static env \<Longrightarrow> P f \<Longrightarrow> P (f\<lparr>fr_host := host_set_code H x c (fr_host f)\<rparr>)"
      "\<not> fe_static env \<Longrightarrow> P f \<Longrightarrow> P (f\<lparr>fr_host := host_bump_nonce H x (fr_host f)\<rparr>)"
      "\<not> fe_static env \<Longrightarrow> P f \<Longrightarrow> P (f\<lparr>fr_host := snd (host_transfer H x y v (fr_host f))\<rparr>)"
    and callee: "P f \<Longrightarrow> (fe_static env \<Longrightarrow> static) \<Longrightarrow>
      result_ok G (\<lambda>h. P (f\<lparr>fr_host := h\<rparr>)) (sub code ctx (fr_host f) (fe_depth env + 1) static)"
begin

lemma inv_host_upd:
  assumes "\<not> fe_static env"
  shows "inv_act G P (upd_host (host_sstore H x k v)) (\<lambda>_. True)" "inv_act G P (upd_host (host_set_code H x c)) (\<lambda>_. True)"
    "inv_act G P (upd_host (host_bump_nonce H x)) (\<lambda>_. True)" "inv_act G P (upd_host (\<lambda>h. snd (host_transfer H x y v h))) (\<lambda>_. True)"
  unfolding upd_host_def by (rule inv_modify, erule mutators [OF assms])+

lemmas inv_rules = base_rules inv_snapshot inv_revert inv_commit inv_host_upd

lemma inv_bin: "inv_act G P (evm_bin g) (\<lambda>_. True)"
  unfolding evm_bin_def by (intro inv_rules)

lemma inv_tri: "inv_act G P (evm_tri g') (\<lambda>_. True)"
  unfolding evm_tri_def by (intro inv_rules)

lemma inv_arith: "inv_act G P (arith_op op) (\<lambda>_. True)"
  unfolding arith_op_def by (intro inv_if inv_bin inv_tri inv_raise inv_seq [OF inv_pop] inv_push)

lemma inv_copy: "inv_act G P (copy_to_memory env src) (\<lambda>_. True)" "inv_act G P (extcodecopy H env) (\<lambda>_. True)"
  unfolding copy_to_memory_def extcodecopy_def by (intro inv_rules)+

lemma inv_hash: "inv_act G P (evm_keccak E env) (\<lambda>_. True)" "inv_act G P (extcodehash E H) (\<lambda>_. True)"
  unfolding evm_keccak_def extcodehash_def by (intro inv_rules)+

lemma inv_env: "inv_act G P (env_op E H env op) (\<lambda>_. True)"
  unfolding env_op_def Let_def by (intro inv_if inv_hash inv_copy inv_seq inv_get inv_pop inv_pop_usize inv_push inv_raise)

lemma inv_pop_many: "inv_act G P (pop_many n) (\<lambda>_. True)"
proof (induction n)
  case 0
  show ?case unfolding pop_many.simps by (intro inv_ret TrueI)
next
  case (Suc n)
  then show ?case unfolding pop_many.simps by (intro inv_seq inv_pop inv_ret TrueI)
qed

lemma inv_log: "inv_act G P (log_op env n) (\<lambda>_. True)"
  unfolding log_op_def by (intro inv_rules inv_pop_many)

lemma inv_memory_ops:
  "inv_act G P (evm_mload env) (\<lambda>_. True)" "inv_act G P (evm_mstore env) (\<lambda>_. True)" "inv_act G P (evm_mstore8 env) (\<lambda>_. True)"
  "inv_act G P (evm_sstore H env) (\<lambda>_. True)" "inv_act G P (evm_dup n) (\<lambda>_. True)"
  unfolding evm_mload_def evm_mstore_def evm_mstore8_def evm_sstore_def evm_dup_def by (intro inv_rules; simp)+

lemma inv_data: "inv_act G P (data_op H env op) (\<lambda>_. True)"
  unfolding data_op_def by (intro inv_if inv_memory_ops inv_swap inv_log inv_seq inv_get inv_pop inv_push inv_raise inv_ret TrueI)

lemma inv_jump: "inv_act G P (evm_jump env dest) (\<lambda>_. True)"
  unfolding evm_jump_def Let_def by (intro inv_rules)

lemma inv_push_op: "inv_act G P (push_op env op) (\<lambda>_. True)"
  unfolding push_op_def Let_def by (intro inv_rules)

lemma inv_return: "inv_act G P (return_memory env) (\<lambda>_. True)"
  unfolding return_memory_def by (intro inv_rules)

lemma inv_destruct: "inv_act G P (selfdestruct H env) (\<lambda>_. True)"
  unfolding selfdestruct_def by (intro inv_rules; simp)

lemma inv_flow: "inv_act G P (flow_op H env op) (\<lambda>_. True)"
  unfolding flow_op_def by (intro inv_if inv_seq inv_jump inv_push_op inv_return inv_destruct inv_pop inv_raise inv_ret TrueI)

lemma inv_plain: "inv_act G P (plain_op E H env op) (\<lambda>_. True)"
  unfolding plain_op_def by (intro inv_if inv_seq inv_flow inv_arith inv_env inv_data inv_ret TrueI)

lemma inv_call_fails: "inv_act G P call_fails (plan_ok fresh env)"
  unfolding call_fails_def clear_ret_buffer_def by (intro inv_seq inv_set inv_push inv_ret) (simp add: plan_ok_def)

lemma inv_precompile: "fresh snap \<Longrightarrow> inv_act G P (run_precompile E H env a d snap off len) (plan_ok fresh env)"
  unfolding run_precompile_def
  by (cases "precompile_execute E a d")
    (auto intro!: inv_seq inv_charge inv_revert inv_commit inv_call_fails inv_store_output inv_push inv_ret simp: plan_ok_def simp del: ret_run)

lemma inv_start_callee:
  assumes "fresh snap" and "fe_static env \<longrightarrow> static" and "fe_depth env < MAX_CALL_DEPTH"
  shows "inv_act G P (start_callee H env gas (sa, ca, cl, cv, static) d snap) (plan_ok fresh env)"
  unfolding start_callee_def Let_def prod.case clear_ret_buffer_def
  by (intro inv_seq inv_if inv_get inv_commit inv_set inv_push inv_ret) (use assms in \<open>simp_all add: plan_ok_def capped_gas\<close>)

lemma call_target_static: "call_target env kind t v = (sa, ca, cl, cv, st) \<Longrightarrow> fe_static env \<longrightarrow> st"
  by (cases kind) (auto simp: call_target_def Let_def)

lemma inv_call_enter:
  assumes "fe_static env \<longrightarrow> u_is_zero v" and depth: "fe_depth env < MAX_CALL_DEPTH"
  shows "inv_act G P (call_enter E H env kind gas target v d ro rl) (plan_ok fresh env)"
proof -
  obtain sa ca cl cv st where c: "call_target env kind target v = (sa, ca, cl, cv, st)" by (metis surj_pair)
  have "\<not> fe_static env" if "kind = KCall \<and> \<not> u_is_zero cv" using that assms(1) c by (auto simp: call_target_def Let_def)
  then show ?thesis
    unfolding call_enter_def c Let_def prod.case
    by (intro inv_andthen [OF inv_snapshot] inv_seq inv_get inv_if inv_revert inv_call_fails inv_host_upd(4) inv_precompile
        inv_start_callee call_target_static [OF c] depth inv_ret TrueI) blast+
qed

lemma inv_call_prepare: "inv_act G P (call_prepare E H env kind) (\<lambda>(plan, _, _). plan_ok fresh env plan)"
  unfolding call_prepare_def
  by (intro inv_seq [OF inv_charge] inv_seq [OF inv_operands])
    (auto intro!: inv_if inv_raise inv_seq [OF inv_mem_load] inv_andthen [where R = "plan_ok fresh env"] inv_call_fails inv_call_enter inv_ret
      simp: not_le simp del: ret_run)

lemma inv_call_finish: "fresh snap \<Longrightarrow> inv_act G P (call_finish H env snap off len out) (\<lambda>_. True)"
  unfolding call_finish_def by (intro inv_seq inv_if inv_charge inv_commit inv_set inv_revert inv_store_output inv_push)

lemma inv_create_enter: "\<not> fe_static env \<Longrightarrow> fe_depth env < MAX_CALL_DEPTH \<Longrightarrow> inv_act G P (create_enter E H env v salt init) (\<lambda>(plan, _). plan_ok fresh env plan)"
  unfolding create_enter_def Let_def
  by (intro inv_seq [OF inv_get(2)] inv_seq [OF inv_host_upd(3)] inv_andthen [OF inv_snapshot] inv_if inv_seq [OF inv_revert]
      inv_andthen [OF inv_call_fails] inv_seq [OF inv_if] inv_host_upd(4) inv_seq [OF inv_get(1)] inv_ret TrueI) (simp_all add: plan_ok_def capped_gas)

lemma inv_create_prepare: "inv_act G P (create_prepare E H env c2) (\<lambda>(plan, _). plan_ok fresh env plan \<and> \<not> fe_static env)"
  unfolding create_prepare_def
  by (intro inv_if inv_raise inv_seq [OF inv_charge] inv_seq [OF inv_pop] inv_seq [OF inv_pop_usize] inv_seq [OF inv_if] inv_seq [OF inv_mem_load]
      inv_andthen [OF inv_call_fails] inv_weaken [OF inv_create_enter] inv_ret TrueI) (auto simp: not_le)

lemma inv_create_finish: "fresh snap \<Longrightarrow> \<not> fe_static env \<Longrightarrow> inv_act G P (create_finish H env snap a out) (\<lambda>_. True)"
  unfolding create_finish_def clear_ret_buffer_def by (intro inv_seq inv_if inv_charge inv_host_upd inv_commit inv_set inv_revert inv_push)

lemma run_plan_ok:
  assumes "P f" and "plan_ok fresh env plan" and "\<And>snap out. fresh snap \<Longrightarrow> inv_act G P (finish snap out) (\<lambda>_. True)"
  shows "result_ok G P (run_plan sub env finish plan f)"
proof (cases plan)
  case (RunFrame code ctx static snap)
  let ?r = "sub code ctx (fr_host f) (fe_depth env + 1) static"
  have c: "result_ok G (\<lambda>h. P (f\<lparr>fr_host := h\<rparr>)) ?r" using assms(1,2) RunFrame by (intro callee) (auto simp: plan_ok_def)
  have "fresh snap" using assms(2) RunFrame by (simp add: plan_ok_def)
  show ?thesis
  proof (cases ?r)
    case (Some p)
    obtain r h where p: "p = (r, h)" by force
    show ?thesis
    proof (cases r)
      case (Ok out)
      then have "P (f\<lparr>fr_host := h\<rparr>)" using c Some p by (simp add: result_ok_def)
      then have "result_ok G P (Some (finish snap out (f\<lparr>fr_host := h\<rparr>)))" by (rule act_result_ok [OF assms(3) [OF \<open>fresh snap\<close>]])
      then show ?thesis using RunFrame Some p Ok by (simp add: run_plan_def)
    qed (use c RunFrame Some p in \<open>simp_all add: run_plan_def result_ok_def\<close>)
  qed (simp add: RunFrame run_plan_def result_ok_def)
qed (use assms(1) in \<open>simp add: run_plan_def result_ok_def\<close>)

lemma do_call_ok: "P f \<Longrightarrow> result_ok G P (do_call E H sub env kind f)"
proof -
  assume f: "P f"
  obtain r f' where r: "call_prepare E H env kind f = (r, f')" by force
  note ok = inv_actD [OF inv_call_prepare [of kind] f]
  show ?thesis
  proof (cases r)
    case (Ok x)
    obtain plan ro rl where x: "x = (plan, ro, rl)" by (metis surj_pair)
    have "P f'" "plan_ok fresh env plan" using ok(1) r Ok x by auto
    then show ?thesis using run_plan_ok [OF _ _ inv_call_finish] r Ok x by (simp add: do_call_def)
  qed (use ok r in \<open>simp_all add: do_call_def result_ok_def\<close>)
qed

lemma do_create_ok: "P f \<Longrightarrow> result_ok G P (do_create E H sub env c2 f)"
proof -
  assume f: "P f"
  obtain r f' where r: "create_prepare E H env c2 f = (r, f')" by force
  note ok = inv_actD [OF inv_create_prepare [of c2] f]
  show ?thesis
  proof (cases r)
    case (Ok x)
    obtain plan a where x: "x = (plan, a)" by (metis surj_pair)
    have "P f'" "plan_ok fresh env plan" "\<not> fe_static env" using ok(1) r Ok x by auto
    then show ?thesis using run_plan_ok [OF _ _ inv_create_finish] r Ok x by (simp add: do_create_def)
  qed (use ok r in \<open>simp_all add: do_create_def result_ok_def\<close>)
qed

lemma dispatch_ok: "P f \<Longrightarrow> result_ok G P (evm_dispatch E H sub env op f)"
proof -
  assume f: "P f"
  have nx: "result_ok G P (map_option (\<lambda>(r, f'). (case r of Ok _ \<Rightarrow> Ok Next | Err e \<Rightarrow> Err e | Panic \<Rightarrow> Panic, f')) x)"
    if "result_ok G P x" for x using that by (auto simp: result_ok_def split: option.splits outcome.splits)
  have "result_ok G P (Some (plain_op E H env op f))" using f by (rule act_result_ok [OF inv_plain])
  then show ?thesis unfolding evm_dispatch_def Let_def using f by (auto intro!: nx do_call_ok do_create_ok)
qed

lemma step_ok: "P f \<Longrightarrow> result_ok G P (evm_step E H sub env f)"
proof -
  assume f: "P f"
  obtain r f1 where r: "evm_charge env (base_gas (fe_code env ! fr_pc f)) f = (r, f1)" by force
  note ok = act_result_ok [OF inv_charge [of "base_gas (fe_code env ! fr_pc f)"] f, unfolded r]
  then show ?thesis using f r dispatch_ok [of f1] by (cases r) (simp_all add: evm_step_def Let_def result_ok_def)
qed

lemma loop_ok:
  assumes "exec_loop E H sub env f = Some r" and "P f"
  shows "result_ok G P (Some r)"
proof -
  have "E' = E \<and> H' = H \<and> sub' = sub \<and> env' = env \<and> P f \<longrightarrow> result_ok G P (Some r)"
    if "exec_loop E' H' sub' env' f = Some r" for E' H' sub' env' f r
  proof (rule exec_loop.raw_induct [where P = "\<lambda>E' H' sub' env' f r. E' = E \<and> H' = H \<and> sub' = sub \<and> env' = env \<and> P f \<longrightarrow> result_ok G P (Some r)",
        OF _ that])
    fix rec E' H' sub' env' f r
    assume 1: "\<And>E' H' sub' env' f r. rec E' H' sub' env' f = Some r \<Longrightarrow>
        E' = E \<and> H' = H \<and> sub' = sub \<and> env' = env \<and> P f \<longrightarrow> result_ok G P (Some r)"
      "(case evm_step E' H' sub' env' f of
         None \<Rightarrow> None
       | Some (r, f') \<Rightarrow> (case r of
           Ok Next \<Rightarrow> rec E' H' sub' env' (f'\<lparr>fr_pc := fr_pc f' + 1\<rparr>)
         | Ok Jumped \<Rightarrow> rec E' H' sub' env' f'
         | Ok Stopped \<Rightarrow> Some (Ok (), f')
         | Err e \<Rightarrow> Some (Err e, f')
         | Panic \<Rightarrow> Some (Panic, f'))) = Some r"
    show "E' = E \<and> H' = H \<and> sub' = sub \<and> env' = env \<and> P f \<longrightarrow> result_ok G P (Some r)"
    proof (intro impI, elim conjE)
      assume eq: "E' = E" "H' = H" "sub' = sub" "env' = env" and f: "P f"
      from 1(2) obtain r1 f1 where s: "evm_step E H sub env f = Some (r1, f1)" by (auto simp: eq split: option.splits)
      note ok = step_ok [OF f, unfolded s]
      show "result_ok G P (Some r)"
      proof (cases r1)
        case (Ok flow)
        then have "P f1" using ok by (simp add: result_ok_def)
        then have "P (f1\<lparr>fr_pc := fr_pc f1 + 1\<rparr>)" "P f1" by (simp_all add: other_fields)
        then show ?thesis using 1(1) [of E H sub env _ r] 1(2) s Ok eq by (cases flow) (auto simp: result_ok_def)
      qed (use 1(2) s ok eq in \<open>auto simp: result_ok_def\<close>)
    qed
  qed
  then show ?thesis using assms by blast
qed

end

section \<open>Bounds and termination\<close>

definition frame_ok :: "frame_env \<Rightarrow> nat \<Rightarrow> 'h frame \<Rightarrow> bool" where
  "frame_ok env g f \<longleftrightarrow> g \<le> unat (fr_gas f) \<and> fr_gas f \<le> evm_gas_limit env \<and> length (fr_stack f) \<le> EVM_MAX_STACK \<and>
     length (fr_memory f) \<le> EVM_MAX_MEMORY"

lemma charge_ok:
  "evm_charge env a f = (Ok u, f') \<longleftrightarrow> f' = f\<lparr>fr_gas := saturating_add (fr_gas f) a\<rparr> \<and> saturating_add (fr_gas f) a \<le> evm_gas_limit env"
  by (auto simp: evm_charge_def andthen_def modify_def gets_def ensure_def ret_def raise_def)

lemma charge_error: "evm_charge env a f = (Err e, f') \<Longrightarrow> e = VOutOfGas" "evm_charge env a f \<noteq> (Panic, f')"
  by (auto simp: evm_charge_def andthen_def modify_def gets_def ensure_def ret_def raise_def split: if_splits)

lemma inv_frame_charge: "inv_act (\<lambda>e. e = VReverted) (frame_ok env g) (evm_charge env a) (\<lambda>_. True)"
proof -
  have "unat (fr_gas f) \<le> unat (saturating_add (fr_gas f) a)" for f :: "'h frame"
    using u64_unat_less [of "fr_gas f"] by (simp add: unat_saturating_add)
  then show ?thesis
    unfolding inv_act_def by (auto simp: frame_ok_def charge_ok dest!: charge_error(1) split: prod.splits outcome.splits intro: order_trans)
qed

lemma inv_frame_ensure_mem: "inv_act (\<lambda>e. e = VReverted) (frame_ok env g) (ensure_mem env off len) (\<lambda>_. True)"
proof (cases "len = 0 \<or> 2 ^ 64 \<le> off + len \<or> EVM_MAX_MEMORY < off + len")
  case True
  then show ?thesis by (auto simp: ensure_mem_def usize_checked_add_def inv_ret inv_raise simp del: ret_run raise_run)
next
  case False
  let ?stop = "off + len" and ?new = "((off + len + 31) div 32) * 32"
  have new: "?new \<le> EVM_MAX_MEMORY"
  proof -
    have "(off + len + 31) div 32 \<le> (2 ^ 20 + 31) div 32" using False by (intro div_le_mono) (simp add: EVM_MAX_MEMORY_def)
    then show ?thesis by (simp add: EVM_MAX_MEMORY_def)
  qed
  have e: "ensure_mem env off len = andthen (gets (\<lambda>f. length (fr_memory f))) (\<lambda>m. if m < ?stop then
      andthen (evm_charge env (of_nat ((?new - m) div 32) * 3)) (\<lambda>_. modify (\<lambda>f. f\<lparr>fr_memory := fr_memory f @ replicate (?new - m) 0\<rparr>)) else ret ())"
    using False unfolding ensure_mem_def usize_checked_add_def Let_def by simp
  show ?thesis
    unfolding inv_act_def
  proof (intro allI impI)
    fix f :: "'h frame"
    assume f: "frame_ok env g f"
    let ?m = "length (fr_memory f)"
    obtain r f1 where r: "evm_charge env (of_nat ((?new - ?m) div 32) * 3) f = (r, f1)" by force
    show "case ensure_mem env off len f of (Ok x, s') \<Rightarrow> frame_ok env g s' \<and> True | (Err e, s') \<Rightarrow> e = VReverted \<longrightarrow> frame_ok env g s' | (Panic, s') \<Rightarrow> True"
    proof (cases "?m < ?stop")
      case True
      show ?thesis
      proof (cases r)
        case (Ok u)
        then have "frame_ok env g f1" "fr_memory f1 = fr_memory f"
          using inv_actD(1) [OF inv_frame_charge f] r by (auto simp: charge_ok)
        then show ?thesis using True r Ok f new unfolding e by (auto simp: andthen_def gets_def modify_def frame_ok_def)
      qed (use True r in \<open>auto simp: e andthen_def gets_def dest!: charge_error(1)\<close>)
    qed (simp add: e andthen_def gets_def f)
  qed
qed

interpretation evm_bounds: frame_invariant env "\<lambda>e. e = VReverted" "frame_ok env g" E H sub "\<lambda>_. True" for E H sub env g
proof unfold_locales
  show "inv_act (\<lambda>e. e = VReverted) (frame_ok env g) (evm_push v) (\<lambda>_. True)" for v
    by (auto simp: inv_act_def evm_push_def andthen_def gets_def modify_def raise_def frame_ok_def)
  show "inv_act (\<lambda>e. e = VReverted) (frame_ok env g) evm_pop (\<lambda>_. True)"
    by (auto simp: inv_act_def evm_pop_def andthen_def gets_def modify_def raise_def ret_def frame_ok_def split: list.splits)
  show "inv_act (\<lambda>e. e = VReverted) (frame_ok env g) (take_snapshot H) (\<lambda>_. True)"
    by (auto simp: inv_act_def take_snapshot_def frame_ok_def split: prod.splits)
  show "result_ok (\<lambda>e. e = VReverted) (\<lambda>h. frame_ok env g (f\<lparr>fr_host := h\<rparr>)) (sub code ctx (fr_host f) (fe_depth env + 1) static)"
    if "frame_ok env g f" for f code ctx static
    using that by (auto simp: result_ok_def frame_ok_def split: option.splits prod.splits outcome.splits)
  show "inv_act (\<lambda>e. e = VReverted) (frame_ok env g) (upd_host u) (\<lambda>_. True)" for u
    unfolding upd_host_def by (rule inv_modify) (simp add: frame_ok_def)
  then show "inv_act (\<lambda>e. e = VReverted) (frame_ok env g) (upd_host u) (\<lambda>_. True)" for u .
qed (simp_all add: inv_frame_charge inv_frame_ensure_mem frame_ok_def)

lemma base_gas_bounds: "1 \<le> unat (base_gas op)" "unat (base_gas op) \<le> 200"
  by (simp_all add: base_gas_def)

text \<open>A step that goes on uses gas.\<close>

lemma step_uses_gas:
  assumes "evm_step E H sub env f = Some (Ok flow, f')" and "flow \<noteq> Stopped" and "frame_ok env g f"
    and "unat (evm_gas_limit env) < 2 ^ 64 - 1"
  shows "unat (fr_gas f) < unat (fr_gas f') \<and> frame_ok env g f'"
proof -
  let ?op = "fe_code env ! fr_pc f"
  obtain f1 where c: "evm_charge env (base_gas ?op) f = (Ok (), f1)" and d: "evm_dispatch E H sub env ?op f1 = Some (Ok flow, f')"
    using assms(1,2) by (auto simp: evm_step_def Let_def split: if_splits prod.splits outcome.splits)
  have s: "unat (saturating_add (fr_gas f) (base_gas ?op)) \<le> unat (evm_gas_limit env)" "fr_gas f1 = saturating_add (fr_gas f) (base_gas ?op)"
    using c by (auto simp: charge_ok word_le_nat_alt)
  then have less: "unat (fr_gas f) < unat (fr_gas f1)"
    using assms(4) base_gas_bounds(1) [of ?op] by (auto simp: unat_saturating_add min_def split: if_splits)
  have "frame_ok env g f1" using inv_actD(1) [OF inv_frame_charge assms(3) c] by simp
  then have "frame_ok env (unat (fr_gas f1)) f1" by (simp add: frame_ok_def)
  then have "frame_ok env (unat (fr_gas f1)) f'" by (rule result_okD(1) [OF evm_bounds.dispatch_ok d])
  then show ?thesis using less assms(3) by (simp add: frame_ok_def)
qed

text \<open>The callees a frame at depth \<open>d\<close> may start\<close>

definition returns_below :: "'h sub_exec \<Rightarrow> frame_env \<Rightarrow> bool" where
  "returns_below sub env \<longleftrightarrow> (\<forall>code ctx h static. fe_depth env < MAX_CALL_DEPTH \<longrightarrow> unat (cc_gas_limit ctx) < 2 ^ 64 - 1 \<longrightarrow>
     sub code ctx h (fe_depth env + 1) static \<noteq> None)"

lemma run_plan_returns:
  assumes "returns_below sub env" and "plan_ok fresh env plan" and "unat (evm_gas_limit env) < 2 ^ 64 - 1"
  shows "run_plan sub env finish plan f \<noteq> None"
proof (cases plan)
  case (RunFrame code ctx static snap)
  have "cc_gas_limit ctx \<le> max (evm_gas_limit env) 1" "fe_depth env < MAX_CALL_DEPTH" using assms(2) RunFrame by (simp_all add: plan_ok_def)
  then have "unat (cc_gas_limit ctx) < 2 ^ 64 - 1" using assms(3) by (auto simp: word_le_nat_alt max_def split: if_splits)
  then have "sub code ctx (fr_host f) (fe_depth env + 1) static \<noteq> None"
    using assms(1) \<open>fe_depth env < MAX_CALL_DEPTH\<close> unfolding returns_below_def by blast
  then show ?thesis using RunFrame by (auto simp: run_plan_def split: prod.splits outcome.splits)
qed (simp add: run_plan_def)

lemma step_returns:
  assumes "returns_below sub env" and "frame_ok env g f" and "unat (evm_gas_limit env) < 2 ^ 64 - 1"
  shows "evm_step E H sub env f \<noteq> None"
proof -
  have call: "do_call E H sub env kind f1 \<noteq> None" if "frame_ok env g f1" for kind f1
    using run_plan_returns [OF assms(1) _ assms(3)] inv_actD(1) [OF evm_bounds.inv_call_prepare [where E = E and H = H and kind = kind] that]
    by (fastforce simp: do_call_def split: prod.splits outcome.splits)
  have create: "do_create E H sub env c2 f1 \<noteq> None" if "frame_ok env g f1" for c2 f1
    using run_plan_returns [OF assms(1) _ assms(3)] inv_actD(1) [OF evm_bounds.inv_create_prepare [where E = E and H = H, of _ _ c2] that]
    by (fastforce simp: do_create_def split: prod.splits outcome.splits)
  have "evm_dispatch E H sub env op f1 \<noteq> None" if "frame_ok env g f1" for op f1
    using call [OF that] create [OF that] by (simp add: evm_dispatch_def Let_def del: not_None_eq)
  then show ?thesis
    using inv_actD(1) [OF inv_frame_charge assms(2)] by (auto simp: evm_step_def Let_def split: prod.splits outcome.splits)
qed

lemma exec_loop_returns:
  assumes "returns_below sub env" and "unat (evm_gas_limit env) < 2 ^ 64 - 1"
  shows "frame_ok env 0 f \<Longrightarrow> exec_loop E H sub env f \<noteq> None"
proof (induction "unat (evm_gas_limit env) - unat (fr_gas f)" arbitrary: f rule: less_induct)
  case less
  obtain r f1 where s: "evm_step E H sub env f = Some (r, f1)" using step_returns [OF assms(1) less.prems assms(2)] by force
  have go: "exec_loop E H sub env f2 \<noteq> None" if "r = Ok flow" "flow \<noteq> Stopped" "f2 = f1 \<or> f2 = f1\<lparr>fr_pc := fr_pc f1 + 1\<rparr>" for flow f2
  proof -
    have "unat (fr_gas f) < unat (fr_gas f1)" "frame_ok env 0 f1" using step_uses_gas [OF _ that(2) less.prems assms(2)] s that(1) by simp_all
    then have "unat (fr_gas f) < unat (fr_gas f2)" "frame_ok env 0 f2" using that(3) by (auto simp: frame_ok_def)
    moreover have "unat (fr_gas f2) \<le> unat (evm_gas_limit env)" using \<open>frame_ok env 0 f2\<close> by (simp add: frame_ok_def word_le_nat_alt)
    ultimately show ?thesis by (intro less.hyps) linarith
  qed
  show ?case
  proof (cases r)
    case (Ok flow)
    then show ?thesis using go [OF Ok] s by (subst exec_loop.simps) (auto split: evm_flow.splits)
  qed (use s in \<open>simp_all add: exec_loop.simps\<close>)
qed

lemma run_frame_returns:
  assumes "returns_below sub \<lparr>fe_code = code, fe_ctx = ctx, fe_depth = depth, fe_static = static\<rparr>" and "unat (cc_gas_limit ctx) < 2 ^ 64 - 1"
  shows "run_frame E H sub code ctx h depth static \<noteq> None"
  using exec_loop_returns [OF assms(1), of "frame_new h" E H] assms(2)
  by (simp add: run_frame_def evm_gas_limit_def frame_ok_def frame_new_def)

lemma frames_return:
  "unat MAX_CALL_DEPTH - unat depth \<le> n \<Longrightarrow> unat (cc_gas_limit ctx) < 2 ^ 64 - 1 \<Longrightarrow> frames_below E H n code ctx h depth static \<noteq> None"
proof (induction n arbitrary: code ctx h depth static)
  case 0
  have "returns_below (\<lambda>_ _ _ _ _. None) \<lparr>fe_code = code, fe_ctx = ctx, fe_depth = depth, fe_static = static\<rparr>"
    using 0(1) by (simp add: returns_below_def word_less_nat_alt)
  then show ?case unfolding frames_below.simps by (rule run_frame_returns [OF _ 0(2)])
next
  case (Suc n)
  have "unat MAX_CALL_DEPTH - unat (depth + 1) \<le> n" if "depth < MAX_CALL_DEPTH"
  proof -
    have "unat depth < 64" using that by (simp add: word_less_nat_alt MAX_CALL_DEPTH_def)
    then have "unat (depth + 1) = unat depth + 1" by (simp add: unat_word_ariths)
    then show ?thesis using Suc.prems(1) by simp
  qed
  then have "returns_below (frames_below E H n) \<lparr>fe_code = code, fe_ctx = ctx, fe_depth = depth, fe_static = static\<rparr>"
    using Suc.IH unfolding returns_below_def by simp
  then show ?case unfolding frames_below.simps by (rule run_frame_returns [OF _ Suc.prems(2)])
qed

text \<open>A frame that returns, also by reverting, has used at most its gas.\<close>

lemma run_frame_gas:
  assumes "run_frame E H sub code ctx h depth static = Some (Ok out, h')"
  shows "eo_gas_used out \<le> cc_gas_limit ctx"
proof -
  let ?env = "\<lparr>fe_code = code, fe_ctx = ctx, fe_depth = depth, fe_static = static\<rparr>"
  obtain r f where l: "exec_loop E H sub ?env (frame_new h) = Some (r, f)" and o: "frame_result r f = Ok out"
    using assms by (auto simp: run_frame_def)
  have "frame_ok ?env 0 (frame_new h)" by (simp add: frame_ok_def frame_new_def)
  from evm_bounds.loop_ok [OF l this] have "result_ok (\<lambda>e. e = VReverted) (frame_ok ?env 0) (Some (r, f))" .
  then show ?thesis using o by (auto simp: frame_result_def result_ok_def frame_ok_def evm_gas_limit_def split: outcome.splits if_splits)
qed

lemma frames_gas: "frames_below E H n code ctx h depth static = Some (Ok out, h') \<Longrightarrow> eo_gas_used out \<le> cc_gas_limit ctx"
  by (cases n) (auto dest: run_frame_gas)

lemma execute_frame_returns: "unat (cc_gas_limit ctx) < 2 ^ 64 - 1 \<Longrightarrow> execute_frame E H code ctx h depth static \<noteq> None"
  unfolding execute_frame_def by (rule frames_return) (simp add: unat_saturating_sub)

text \<open>
  C18. Execution ends (memory permitting: the allocator is not modelled): with a gas limit below \<open>u64::MAX\<close>, whatever the code, the host and the nesting of calls and creations, \<open>execute_frame\<close>
  returns a result, an error or a panic, and a result, reverted or not, reports at most the gas limit as used.
\<close>

theorem evm_terminates:
  assumes "unat (cc_gas_limit ctx) < 2 ^ 64 - 1"
  shows "\<exists>r h'. execute_frame E H code ctx h depth static = Some (r, h') \<and> (\<forall>out. r = Ok out \<longrightarrow> eo_gas_used out \<le> cc_gas_limit ctx)"
  using execute_frame_returns [OF assms] frames_gas unfolding execute_frame_def by fastforce

text \<open>The loop \<open>JUMPDEST; PUSH1 0; JUMP\<close> on an empty host\<close>

definition empty_host :: mem_host where
  "empty_host = \<lparr>mh_storage = Map.empty, mh_balances = Map.empty, mh_codes = Map.empty, mh_nonces = Map.empty, mh_block_number = 1,
     mh_timestamp = 0, mh_chain_id = 1, mh_snapshots = []\<rparr>"

definition demo_context :: call_context where
  "demo_context = \<lparr>cc_caller = U_ZERO, cc_address = from_u64 0x1234, cc_value = U_ZERO, cc_calldata = [], cc_gas_limit = 1000000\<rparr>"

theorem evm_terminates_witness:
  "\<exists>r h'. execute_frame ref_evm_lib mem_host_ops [0x5b, 0x60, 0, 0x56] demo_context empty_host 0 False = Some (r, h')"
  using evm_terminates [of demo_context ref_evm_lib mem_host_ops "[0x5b, 0x60, 0, 0x56]" empty_host 0 False] by (auto simp: demo_context_def)

section \<open>Static frames and failed calls\<close>

text \<open>A predicate on hosts that snapshots, reverts to fresh snapshots, commits and callees keep is a frame invariant.\<close>

interpretation host_base: frame_base env "\<lambda>_. True" "\<lambda>f. Q (fr_host f)" for env and Q :: "'h \<Rightarrow> bool"
proof
  let ?P = "\<lambda>f :: 'h frame. Q (fr_host f)"
  show charge: "inv_act (\<lambda>_. True) ?P (evm_charge env a) (\<lambda>_. True)" for a
    unfolding evm_charge_def by (intro inv_andthen [OF inv_modify] inv_andthen [OF inv_gets [where Q = "\<lambda>_. True"]] inv_ensure) simp_all
  show "inv_act (\<lambda>_. True) ?P (evm_push v) (\<lambda>_. True)" for v
    by (auto simp: inv_act_def evm_push_def andthen_def gets_def modify_def raise_def)
  show "inv_act (\<lambda>_. True) ?P evm_pop (\<lambda>_. True)"
    by (auto simp: inv_act_def evm_pop_def andthen_def gets_def modify_def raise_def ret_def split: list.splits)
  show "inv_act (\<lambda>_. True) ?P (ensure_mem env off len) (\<lambda>_. True)" for off len
    unfolding ensure_mem_def Let_def
    by (cases "usize_checked_add off len")
      (auto intro!: inv_ret inv_raise inv_andthen [OF inv_gets [where Q = "\<lambda>_. True"]] inv_andthen [OF charge] inv_modify simp del: ret_run raise_run)
qed simp_all

lemma frame_invariant_host:
  fixes H :: "'h evm_host"
  assumes snap: "\<And>h n h'. Q h \<Longrightarrow> host_snapshot H h = (n, h') \<Longrightarrow> fresh n \<and> Q h'"
    and undo: "\<And>n h. fresh n \<Longrightarrow> Q h \<Longrightarrow> Q (host_revert H n h) \<and> Q (host_commit_snapshot H n h)"
    and mut: "\<And>h x k v c y. \<not> fe_static env \<Longrightarrow> Q h \<Longrightarrow> Q (host_sstore H x k v h) \<and> Q (host_set_code H x c h) \<and> Q (host_bump_nonce H x h) \<and>
      Q (snd (host_transfer H x y v h))"
    and sub: "\<And>code ctx h static. Q h \<Longrightarrow> (fe_static env \<Longrightarrow> static) \<Longrightarrow> result_ok (\<lambda>_. True) Q (sub code ctx h (fe_depth env + 1) static)"
  shows "frame_invariant env (\<lambda>_. True) (\<lambda>f. Q (fr_host f)) H sub fresh"
proof
  let ?P = "\<lambda>f :: 'h frame. Q (fr_host f)"
  show "inv_act (\<lambda>_. True) ?P (take_snapshot H) fresh"
    using snap by (auto simp: inv_act_def take_snapshot_def split: prod.splits)
  show "inv_act (\<lambda>_. True) ?P (upd_host (host_revert H n)) (\<lambda>_. True)" "inv_act (\<lambda>_. True) ?P (upd_host (host_commit_snapshot H n)) (\<lambda>_. True)"
    if "fresh n" for n unfolding upd_host_def by (rule inv_modify, simp add: undo that)+
  show "result_ok (\<lambda>_. True) (\<lambda>h. ?P (f\<lparr>fr_host := h\<rparr>)) (sub code ctx (fr_host f) (fe_depth env + 1) static)"
    if "?P f" "fe_static env \<Longrightarrow> static" for f code ctx static using sub [of "fr_host f"] that by simp
qed (use mut in simp_all)

text \<open>Such a predicate, kept by the host operations a frame may use, is kept by frames at every depth.\<close>

lemma run_frame_keeps:
  assumes "frame_invariant \<lparr>fe_code = code, fe_ctx = ctx, fe_depth = depth, fe_static = static\<rparr> (\<lambda>_. True) (\<lambda>f. Q (fr_host f)) H sub fresh"
    and "Q h"
  shows "result_ok (\<lambda>_. True) Q (run_frame E H sub code ctx h depth static)"
proof (cases "exec_loop E H sub \<lparr>fe_code = code, fe_ctx = ctx, fe_depth = depth, fe_static = static\<rparr> (frame_new h)")
  case (Some p)
  obtain r f where p: "p = (r, f)" by force
  have new: "fr_host (frame_new h) = h" by (simp add: frame_new_def)
  have "result_ok (\<lambda>_. True) (\<lambda>f. Q (fr_host f)) (Some (r, f))"
    by (rule frame_invariant.loop_ok [OF assms(1)]) (rule Some [unfolded p], simp add: new assms(2))
  then show ?thesis using Some p by (cases r) (auto simp: run_frame_def result_ok_def frame_result_def)
qed (simp add: run_frame_def result_ok_def)

lemma frames_keep:
  assumes "\<And>h n h'. Q h \<Longrightarrow> host_snapshot H h = (n, h') \<Longrightarrow> fresh n \<and> Q h'"
    and "\<And>n h. fresh n \<Longrightarrow> Q h \<Longrightarrow> Q (host_revert H n h) \<and> Q (host_commit_snapshot H n h)"
    and "\<And>h x k v c y. \<not> only_static \<Longrightarrow> Q h \<Longrightarrow> Q (host_sstore H x k v h) \<and> Q (host_set_code H x c h) \<and> Q (host_bump_nonce H x h) \<and>
      Q (snd (host_transfer H x y v h))"
  shows "Q h \<Longrightarrow> (only_static \<Longrightarrow> static) \<Longrightarrow> result_ok (\<lambda>_. True) Q (frames_below E H n code ctx h depth static)"
proof (induction n arbitrary: code ctx h depth static)
  case 0
  show ?case unfolding frames_below.simps
    by (rule run_frame_keeps [OF frame_invariant_host [where fresh = fresh]])
      (use assms(1,2) in blast, use assms(2) in blast, rule assms(3), use 0 in auto, simp add: result_ok_def)
next
  case (Suc n)
  show ?case unfolding frames_below.simps
    by (rule run_frame_keeps [OF frame_invariant_host [where fresh = fresh]])
      (use assms(1,2) in blast, use assms(2) in blast, rule assms(3), use Suc in auto)
qed

context evm_host_laws
begin

text \<open>Frames never touch the contents that were saved before they started.\<close>

lemma frames_prefix:
  "result_ok (\<lambda>_. True) (\<lambda>h'. \<exists>ys. snaps h' = snaps h @ ys) (frames_below E H n code ctx h depth static)"
proof (rule frames_keep [where fresh = "\<lambda>n. length (snaps h) < n" and only_static = False])
  show "\<exists>ys. snaps h = snaps h @ ys" by simp
  show "length (snaps h) < n \<and> (\<exists>ys. snaps h2 = snaps h @ ys)" if pre: "\<exists>ys. snaps h1 = snaps h @ ys" and sn: "host_snapshot H h1 = (n, h2)" for h1 n h2
    using snapshot_law [OF sn] pre by auto
  show "(\<exists>ys. snaps (host_revert H n h1) = snaps h @ ys) \<and> (\<exists>ys. snaps (host_commit_snapshot H n h1) = snaps h @ ys)"
    if n: "length (snaps h) < n" and pre: "\<exists>ys. snaps h1 = snaps h @ ys" for n h1
  proof -
    obtain ys where ys: "snaps h1 = snaps h @ ys" using pre by blast
    have "take (n - 1) (snaps h1) = snaps h @ take (n - 1 - length (snaps h)) ys" using n by (simp add: ys)
    then show ?thesis using n ys by (auto simp: revert_snaps commit_snaps)
  qed
qed (simp_all add: mutator_snaps)

text \<open>A static frame keeps the content and saves no other.\<close>

lemma static_frames:
  "result_ok (\<lambda>_. True) (\<lambda>h'. core h' = core h) (frames_below E H n code ctx h depth True)"
proof -
  let ?n0 = "length (snaps h)"
  let ?Q = "\<lambda>h'. core h' = core h \<and> ?n0 \<le> length (snaps h') \<and> (\<forall>i. ?n0 \<le> i \<and> i < length (snaps h') \<longrightarrow> snaps h' ! i = core h)"
  have "result_ok (\<lambda>_. True) ?Q (frames_below E H n code ctx h depth True)"
  proof (rule frames_keep [where fresh = "\<lambda>n. ?n0 < n" and only_static = True])
    show "?n0 < n \<and> ?Q h2" if q: "?Q h1" and sn: "host_snapshot H h1 = (n, h2)" for h1 n h2
      using snapshot_law [OF sn] q by (auto simp: nth_append)
    show "?Q (host_revert H n h1) \<and> ?Q (host_commit_snapshot H n h1)" if n: "?n0 < n" and q: "?Q h1" for n h1
    proof -
      have "snaps h1 ! (n - 1) = core h" if "n \<le> length (snaps h1)"
        using conjunct2 [OF conjunct2 [OF q], THEN spec, of "n - 1"] n that by (cases n) auto
      then show ?thesis using n q by (auto simp: revert_core revert_snaps commit_core commit_snaps)
    qed
  qed auto
  then show ?thesis by (auto simp: result_ok_def split: option.splits prod.splits outcome.splits)
qed

lemma static_execution:
  assumes "execute_frame E H code ctx h depth True = Some (r, h')" and "r \<noteq> Panic"
  shows "core h' = core h"
  using static_frames [of h E "unat (saturating_sub MAX_CALL_DEPTH depth)" code ctx depth] assms
  by (cases r) (auto simp: execute_frame_def result_ok_def)

end

section \<open>Calls that fail\<close>

text \<open>From \<open>P\<close>, a result \<open>x\<close> of \<open>m\<close> is reached in a state with \<open>R x\<close>.\<close>

definition leads :: "('s \<Rightarrow> bool) \<Rightarrow> ('s, 'e, 'a) act \<Rightarrow> ('a \<Rightarrow> 's \<Rightarrow> bool) \<Rightarrow> bool" where
  "leads P m R \<longleftrightarrow> (\<forall>s x s'. P s \<longrightarrow> m s = (Ok x, s') \<longrightarrow> R x s')"

lemma leadsD: "leads P m R \<Longrightarrow> P s \<Longrightarrow> m s = (Ok x, s') \<Longrightarrow> R x s'"
  unfolding leads_def by blast

lemma leads_ret: "(\<And>s. P s \<Longrightarrow> R x s) \<Longrightarrow> leads P (ret x) R"
  by (simp add: leads_def ret_def)

lemma leads_raise: "leads P (raise e) R"
  by (simp add: leads_def raise_def)

lemma leads_inv: "inv_act (\<lambda>_. True) P m Q \<Longrightarrow> leads P m (\<lambda>_. P)"
  unfolding leads_def by (intro allI impI, drule inv_actD(1), assumption+, erule conjunct1)

lemma leads_bind: "leads P m S \<Longrightarrow> (\<And>x. leads (S x) (g x) R) \<Longrightarrow> leads P (andthen m g) R"
  unfolding leads_def andthen_def by (auto split: prod.splits outcome.splits)

lemma leads_andthen: "leads P m (\<lambda>_. S) \<Longrightarrow> (\<And>x. leads S (g x) R) \<Longrightarrow> leads P (andthen m g) R"
  by (rule leads_bind)

lemma leads_if: "(b \<Longrightarrow> leads P m R) \<Longrightarrow> (\<not> b \<Longrightarrow> leads P n R) \<Longrightarrow> leads P (if b then m else n) R"
  by simp

text \<open>After pushing one, the call has not failed.\<close>

definition failure_keeps :: "('h \<Rightarrow> bool) \<Rightarrow> 'h frame \<Rightarrow> bool" where
  "failure_keeps K f \<longleftrightarrow> fr_stack f \<noteq> [] \<and> (hd (fr_stack f) = U_ZERO \<longrightarrow> K (fr_host f))"

lemma leads_push_one: "leads P (evm_push U_ONE) (\<lambda>_. failure_keeps K)"
  by (auto simp: leads_def failure_keeps_def evm_push_def andthen_def gets_def modify_def raise_def U_ONE_def U_ZERO_def split: if_splits)

lemma leads_push: "leads (\<lambda>f. K (fr_host f)) (evm_push v) (\<lambda>_. failure_keeps K)"
  by (auto simp: leads_def failure_keeps_def evm_push_def andthen_def gets_def modify_def raise_def split: if_splits)

lemma leads_pre: "leads P m R \<Longrightarrow> (\<And>s. P' s \<Longrightarrow> P s) \<Longrightarrow> leads P' m R"
  unfolding leads_def by blast

lemma leads_any: "leads P m (\<lambda>_ _. True)"
  by (simp add: leads_def)

text \<open>\<open>saved H snaps h0 n h\<close>: the content of \<open>h0\<close> is still saved in \<open>h\<close> under the number \<open>n\<close> it got.\<close>

definition saved :: "'h evm_host \<Rightarrow> ('h \<Rightarrow> 'c list) \<Rightarrow> 'h \<Rightarrow> nat \<Rightarrow> 'h \<Rightarrow> bool" where
  "saved H snaps h0 n h \<longleftrightarrow> (\<exists>h1 ys. host_snapshot H h0 = (n, h1) \<and> snaps h = snaps h1 @ ys)"

text \<open>A settled plan that failed keeps \<open>K\<close>; a frame that has to run has \<open>S\<close> of its snapshot.\<close>

definition plan_leads :: "('h \<Rightarrow> bool) \<Rightarrow> (nat \<Rightarrow> 'h \<Rightarrow> bool) \<Rightarrow> call_plan \<Rightarrow> 'h frame \<Rightarrow> bool" where
  "plan_leads K S plan f = (case plan of Settled \<Rightarrow> failure_keeps K f | RunFrame code ctx static snap \<Rightarrow> S snap (fr_host f))"

lemma leads_settled: "leads (failure_keeps K) (ret Settled) (plan_leads K S)"
  by (rule leads_ret) (simp add: plan_leads_def)

lemma leads_call_fails: "leads (\<lambda>f. K (fr_host f)) call_fails (plan_leads K S)"
  unfolding call_fails_def clear_ret_buffer_def
  by (intro leads_andthen [OF leads_inv [OF host_base.inv_set(4)]] leads_andthen [OF leads_push] leads_settled)

context evm_host_laws
begin

lemma leads_revert: "leads (\<lambda>f. saved H snaps h0 n (fr_host f)) (upd_host (host_revert H n)) (\<lambda>_ f. core (fr_host f) = core h0)"
  using revert_after_snapshot(1) by (fastforce simp: leads_def upd_host_def modify_def saved_def)

lemma leads_snapshot: "leads (\<lambda>f. fr_host f = h0) (take_snapshot H) (\<lambda>n f. saved H snaps h0 n (fr_host f))"
  by (auto simp: leads_def take_snapshot_def saved_def split: prod.splits)

lemma leads_precompile:
  "leads (\<lambda>f. saved H snaps h0 n (fr_host f)) (run_precompile E H env a d n off len) (plan_leads (\<lambda>h. core h = core h0) (saved H snaps h0))"
proof -
  have "leads (\<lambda>f. saved H snaps h0 n (fr_host f)) (case precompile_execute E a d of
         Some output \<Rightarrow> andthen (upd_host (host_commit_snapshot H n)) (\<lambda>_.
           andthen (store_output env off len output) (\<lambda>_. andthen (evm_push U_ONE) (\<lambda>_. ret Settled)))
       | None \<Rightarrow> andthen (upd_host (host_revert H n)) (\<lambda>_. call_fails)) (plan_leads (\<lambda>h. core h = core h0) (saved H snaps h0))"
    by (cases "precompile_execute E a d")
      (simp_all add: leads_andthen [OF leads_revert leads_call_fails]
        leads_andthen [OF leads_any leads_andthen [OF leads_any leads_andthen [OF leads_push_one leads_settled]]] del: ret_run)
  then show ?thesis unfolding run_precompile_def by (rule leads_andthen [OF leads_inv [OF host_base.inv_charge]])
qed

lemma leads_start_callee:
  "leads (\<lambda>f. saved H snaps h0 n (fr_host f)) (start_callee H env gas callee d n) (plan_leads (\<lambda>h. core h = core h0) (saved H snaps h0))"
proof -
  obtain sa ca cl cv st where c: "callee = (sa, ca, cl, cv, st)" by (metis surj_pair)
  show ?thesis
    unfolding start_callee_def c Let_def prod.case
    by (intro leads_andthen [OF leads_inv [OF host_base.inv_get(2)]] leads_if leads_andthen [OF leads_any leads_andthen [OF leads_any leads_andthen [OF leads_push_one leads_settled]]]
        leads_andthen [OF leads_inv [OF host_base.inv_get(1)]] leads_ret) (simp add: plan_leads_def)
qed

lemma leads_call_enter:
  "leads (\<lambda>f. fr_host f = h0) (call_enter E H env kind gas target v d ro rl) (plan_leads (\<lambda>h. core h = core h0) (saved H snaps h0))"
proof -
  obtain sa ca cl cv st where c: "call_target env kind target v = (sa, ca, cl, cv, st)" by (metis surj_pair)
  let ?S = "\<lambda>n f. saved H snaps h0 n (fr_host f)" and ?R = "plan_leads (\<lambda>h. core h = core h0) (saved H snaps h0)"
  have transfer: "leads (?S n) (if b then upd_host (\<lambda>h. snd (host_transfer H x y w h)) else ret ()) (\<lambda>_. ?S n)" for n b x y w
    by (auto simp: leads_def upd_host_def modify_def ret_def saved_def mutator_snaps)
  have after: "leads (?S n) (andthen (get_host (\<lambda>h. host_balance H h x)) (\<lambda>bal.
        if kind = KCall \<and> \<not> u_is_zero cv \<and> u_lt bal cv
        then andthen (upd_host (host_revert H n)) (\<lambda>_. call_fails)
        else andthen (if kind = KCall \<and> \<not> u_is_zero cv then upd_host (\<lambda>h. snd (host_transfer H x target cv h)) else ret ()) (\<lambda>_.
          if is_precompile ca then run_precompile E H env ca d n ro rl
          else start_callee H env gas (sa, ca, cl, cv, st) d n))) ?R" for n x
    by (intro leads_andthen [OF leads_inv [OF host_base.inv_get(2)]] leads_if leads_andthen [OF leads_revert leads_call_fails]
        leads_andthen [OF transfer] leads_precompile leads_start_callee)
  show ?thesis
    unfolding call_enter_def c Let_def prod.case
    by (rule leads_bind [OF leads_snapshot after])
qed

lemma leads_call_prepare:
  "leads (\<lambda>f. fr_host f = h0) (call_prepare E H env kind) (\<lambda>(plan, _, _). plan_leads (\<lambda>h. core h = core h0) (saved H snaps h0) plan)"
proof -
  let ?P = "\<lambda>f. fr_host f = h0" and ?R = "plan_leads (\<lambda>h. core h = core h0) (saved H snaps h0)"
  have fails: "leads ?P call_fails ?R"
    by (rule leads_pre [OF leads_call_fails]) simp
  have wrap: "leads ?P (andthen (if b then call_fails else call_enter E H env kind gas target v d ro rl) (\<lambda>plan. ret (plan, ro, rl))) (\<lambda>(plan, _, _). ?R plan)"
    for b gas target v d ro rl
    by (rule leads_bind [OF leads_if [OF fails leads_call_enter]]) (rule leads_ret, simp)
  show ?thesis
    unfolding call_prepare_def
    by (intro leads_andthen [OF leads_inv [OF host_base.inv_charge]] leads_andthen [OF leads_inv [OF host_base.inv_operands]])
      (auto intro!: leads_if leads_raise leads_andthen [OF leads_inv [OF host_base.inv_mem_load]] wrap simp del: ret_run raise_run)
qed

lemma leads_call_finish:
  "leads (\<lambda>f. saved H snaps h0 n (fr_host f)) (call_finish H env n ro rl out) (\<lambda>_. failure_keeps (\<lambda>h. core h = core h0))"
proof (cases "eo_success out")
  case True
  then show ?thesis
    unfolding call_finish_def bool_u_def by (auto intro!: leads_andthen [OF leads_any] leads_push_one)
next
  case False
  then have e: "call_finish H env n ro rl out = andthen (evm_charge env (eo_gas_used out)) (\<lambda>_. andthen (upd_host (host_revert H n)) (\<lambda>_.
      andthen (store_output env ro rl (eo_return_data out)) (\<lambda>_. evm_push (bool_u False))))" by (simp add: call_finish_def)
  show ?thesis
    unfolding e by (rule leads_andthen [OF leads_inv [OF host_base.inv_charge] leads_andthen [OF leads_revert
        leads_andthen [OF leads_inv [OF host_base.inv_store_output] leads_push]]])
qed

lemma failed_call_keeps:
  assumes "do_call E H (frames_below E H n) env kind f = Some (Ok (), f')"
  shows "failure_keeps (\<lambda>h. core h = core (fr_host f)) f'"
proof -
  let ?S = "saved H snaps (fr_host f)" and ?K = "\<lambda>h. core h = core (fr_host f)"
  obtain plan ro rl f1 where c: "call_prepare E H env kind f = (Ok (plan, ro, rl), f1)"
    and r: "run_plan (frames_below E H n) env (\<lambda>snap. call_finish H env snap ro rl) plan f1 = Some (Ok (), f')"
    using assms by (auto simp: do_call_def split: prod.splits outcome.splits)
  have p: "plan_leads ?K ?S plan f1" using leadsD [OF leads_call_prepare refl c] by simp
  show ?thesis
  proof (cases plan)
    case Settled
    then show ?thesis using p r by (simp add: plan_leads_def run_plan_def)
  next
    case (RunFrame code ctx static snap)
    then obtain out h where s: "frames_below E H n code ctx (fr_host f1) (fe_depth env + 1) static = Some (Ok out, h)"
      and fin: "call_finish H env snap ro rl out (f1\<lparr>fr_host := h\<rparr>) = (Ok (), f')"
      using r by (auto simp: run_plan_def split: option.splits prod.splits outcome.splits)
    have "\<exists>ys. snaps h = snaps (fr_host f1) @ ys" using result_okD(1) [OF frames_prefix s] .
    then have "?S snap h" using p RunFrame by (auto simp: plan_leads_def saved_def)
    then show ?thesis using leadsD [OF leads_call_finish _ fin] by simp
  qed
qed

end

section \<open>Runs of small programs\<close>

text \<open>A frame at a point of its code with the given gas used and stack, empty memory and no output\<close>

definition frame_at :: "nat \<Rightarrow> u64 \<Rightarrow> u256 list \<Rightarrow> 'h \<Rightarrow> 'h frame" where
  "frame_at pc gas st h = \<lparr>fr_stack = st, fr_memory = [], fr_pc = pc, fr_gas = gas, fr_host = h, fr_logs = [], fr_return_data = [], fr_ret_buffer = []\<rparr>"

lemma loop_step:
  assumes "evm_step E H sub env f = Some (r, f')"
  shows "exec_loop E H sub env f = (case r of Ok Next \<Rightarrow> exec_loop E H sub env (f'\<lparr>fr_pc := fr_pc f' + 1\<rparr>)
      | Ok Jumped \<Rightarrow> exec_loop E H sub env f' | Ok Stopped \<Rightarrow> Some (Ok (), f') | Err e \<Rightarrow> Some (Err e, f') | Panic \<Rightarrow> Some (Panic, f'))"
  using assms by (subst exec_loop.simps) simp

lemmas act_simps = andthen_def gets_def modify_def ret_def raise_def panic_def ensure_def Let_def

lemma loop_push1:
  assumes "pc + 1 < length (fe_code env)" and "fe_code env ! pc = 0x60" and "gas + 3 \<le> evm_gas_limit env" and "unat gas < 2 ^ 32" and "length st < EVM_MAX_STACK"
  shows "exec_loop E H sub env (frame_at pc gas st h) =
    exec_loop E H sub env (frame_at (pc + 2) (gas + 3) (from_big_endian [fe_code env ! (pc + 1)] # st) h)"
proof -
  have g: "saturating_add gas 3 = gas + 3" using assms(4) by (simp add: saturating_add_def)
  have s: "take (Suc 0) (drop (Suc pc) (fe_code env)) = [fe_code env ! (pc + 1)]" using assms(1) by (simp add: take_Suc_conv_app_nth hd_drop_conv_nth take_Suc)
  have "min (Suc (Suc pc)) (length (fe_code env)) = Suc (Suc pc)" using assms(1) by simp
  then have "evm_step E H sub env (frame_at pc gas st h) =
      Some (Ok Jumped, frame_at (pc + 2) (gas + 3) (from_big_endian [fe_code env ! (pc + 1)] # st) h)"
    using assms g s by (simp add: frame_at_def evm_step_def evm_dispatch_def plain_op_def flow_op_def push_op_def evm_push_def evm_charge_def base_gas_def act_simps)
  then show ?thesis by (simp add: loop_step)
qed

lemma execute_frame_run: "\<exists>sub. execute_frame E H code ctx h depth static = run_frame E H sub code ctx h depth static"
  by (cases "unat (saturating_sub MAX_CALL_DEPTH depth)") (auto simp: execute_frame_def)

lemma byte_words: "from_big_endian [0] = U_ZERO" "from_big_endian [1] = U_ONE" "from_big_endian [2] = from_u64 2"
  by code_simp+

lemma frame_new_at: "frame_new h = frame_at 0 0 [] h"
  by (simp add: frame_new_def frame_at_def)

text \<open>
  C39. A program of seven bytes panics the interpreter: \<open>PUSH1 0, PUSH1 0, PUSH1 1, CALLDATACOPY\<close> copies no bytes to offset one of an empty
  memory; growing the memory for zero bytes does nothing, and the slice \<open>[1..1]\<close> that the copy then takes is out of range. The host is left as it
  is, the gas limit of 21000 is not reached, and any library functions and host behave the same.
\<close>

theorem zero_length_copy_panics:
  "execute_frame E H [0x60, 0, 0x60, 0, 0x60, 1, 0x37] (ctx\<lparr>cc_gas_limit := 21000\<rparr>) h depth static = Some (Panic, h)"
proof -
  let ?code = "[0x60, 0, 0x60, 0, 0x60, 1, 0x37] :: bytes" and ?ctx = "ctx\<lparr>cc_gas_limit := 21000\<rparr>"
  let ?env = "\<lparr>fe_code = ?code, fe_ctx = ?ctx, fe_depth = depth, fe_static = static\<rparr>"
  obtain sub where s: "execute_frame E H ?code ?ctx h depth static = run_frame E H sub ?code ?ctx h depth static" by (rule exE [OF execute_frame_run])
  note push = loop_push1 [where env = ?env and E = E and H = H and sub = sub and h = h]
  have "exec_loop E H sub ?env (frame_new h) = exec_loop E H sub ?env (frame_at 6 9 [U_ONE, U_ZERO, U_ZERO] h)"
    using push [of 0 0 "[]"] push [of 2 3 "[U_ZERO]"] push [of 4 6 "[U_ZERO, U_ZERO]"]
    by (simp add: frame_new_at byte_words evm_gas_limit_def EVM_MAX_STACK_def flip: numeral_2_eq_2)
  moreover have "evm_step E H sub ?env (frame_at 6 9 [U_ONE, U_ZERO, U_ZERO] h) = Some (Panic, frame_at 6 11 [] h)"
    by (simp add: frame_at_def evm_step_def evm_dispatch_def plain_op_def env_op_def copy_to_memory_def mem_store_def ensure_mem_def copied_def
        pop_usize_def evm_pop_def evm_charge_def base_gas_def evm_gas_limit_def saturating_add_def low_usize_def U_ONE_def U_ZERO_def act_simps)
  ultimately have "exec_loop E H sub ?env (frame_new h) = Some (Panic, frame_at 6 11 [] h)" by (simp add: loop_step)
  then show ?thesis unfolding s by (simp add: run_frame_def frame_result_def frame_at_def)
qed

text \<open>The program \<open>PUSH1 1, PUSH1 2, SSTORE\<close> in a static frame is refused\<close>

lemma static_store_refused:
  "execute_frame E H [0x60, 1, 0x60, 2, 0x55] (ctx\<lparr>cc_gas_limit := 21000\<rparr>) h depth True = Some (Err VStaticViolation, h)"
proof -
  let ?code = "[0x60, 1, 0x60, 2, 0x55] :: bytes" and ?ctx = "ctx\<lparr>cc_gas_limit := 21000\<rparr>"
  let ?env = "\<lparr>fe_code = ?code, fe_ctx = ?ctx, fe_depth = depth, fe_static = True\<rparr>"
  obtain sub where s: "execute_frame E H ?code ?ctx h depth True = run_frame E H sub ?code ?ctx h depth True" by (rule exE [OF execute_frame_run])
  note push = loop_push1 [where env = ?env and E = E and H = H and sub = sub and h = h]
  have "exec_loop E H sub ?env (frame_new h) = exec_loop E H sub ?env (frame_at 4 6 [from_u64 2, U_ONE] h)"
    using push [of 0 0 "[]"] push [of 2 3 "[U_ONE]"]
    by (simp add: frame_new_at byte_words evm_gas_limit_def EVM_MAX_STACK_def flip: numeral_2_eq_2)
  moreover have "evm_step E H sub ?env (frame_at 4 6 [from_u64 2, U_ONE] h) = Some (Err VStaticViolation, frame_at 4 8 [from_u64 2, U_ONE] h)"
    by (simp add: frame_at_def evm_step_def evm_dispatch_def plain_op_def data_op_def evm_sstore_def evm_charge_def base_gas_def evm_gas_limit_def
        saturating_add_def act_simps)
  ultimately have "exec_loop E H sub ?env (frame_new h) = Some (Err VStaticViolation, frame_at 4 8 [from_u64 2, U_ONE] h)" by (simp add: loop_step)
  then show ?thesis unfolding s by (simp add: run_frame_def frame_result_def frame_at_def)
qed

text \<open>The program \<open>PUSH1 1, PUSH1 2, SSTORE, PUSH1 0, PUSH1 0, REVERT\<close> stores and reverts\<close>

lemma store_and_revert:
  "run_frame E H sub [0x60, 1, 0x60, 2, 0x55, 0x60, 0, 0x60, 0, 0xfd] (ctx\<lparr>cc_gas_limit := 21000\<rparr>) h depth False =
    Some (Ok \<lparr>eo_success = False, eo_return_data = [], eo_gas_used = 20016, eo_logs = []\<rparr>, host_sstore H (cc_address ctx) (from_u64 2) U_ONE h)"
proof -
  let ?env = "\<lparr>fe_code = [0x60, 1, 0x60, 2, 0x55, 0x60, 0, 0x60, 0, 0xfd], fe_ctx = ctx\<lparr>cc_gas_limit := 21000\<rparr>, fe_depth = depth, fe_static = False\<rparr>"
  let ?h = "host_sstore H (cc_address ctx) (from_u64 2) U_ONE h"
  note push = loop_push1 [where env = ?env and E = E and H = H and sub = sub]
  note simps = frame_at_def evm_step_def evm_dispatch_def plain_op_def evm_pop_def evm_charge_def base_gas_def evm_gas_limit_def saturating_add_def act_simps
  have store: "evm_step E H sub ?env (frame_at 4 6 [from_u64 2, U_ONE] h) = Some (Ok Next, frame_at 4 20008 [] ?h)"
    by (simp add: data_op_def evm_sstore_def upd_host_def simps)
  have halt: "evm_step E H sub ?env (frame_at 9 20014 [U_ZERO, U_ZERO] ?h) = Some (Err VReverted, frame_at 9 20016 [] ?h)"
    by (simp add: flow_op_def return_memory_def mem_load_def low_usize_def U_ZERO_def simps)
  have pc: "frame_at 4 20008 [] ?h\<lparr>fr_pc := Suc (fr_pc (frame_at 4 20008 [] ?h))\<rparr> = frame_at 5 20008 [] ?h" by (simp add: frame_at_def)
  have "exec_loop E H sub ?env (frame_new h) = exec_loop E H sub ?env (frame_at 4 6 [from_u64 2, U_ONE] h)"
    using push [of 0 0 "[]" h] push [of 2 3 "[U_ONE]" h]
    by (simp add: frame_new_at byte_words evm_gas_limit_def EVM_MAX_STACK_def flip: numeral_2_eq_2)
  also have "\<dots> = exec_loop E H sub ?env (frame_at 5 20008 [] ?h)" using loop_step [OF store] by (simp add: pc)
  also have "\<dots> = exec_loop E H sub ?env (frame_at 9 20014 [U_ZERO, U_ZERO] ?h)"
    using loop_push1 [where env = ?env and E = E and H = H and sub = sub, of 5 20008 "[]" ?h]
      loop_push1 [where env = ?env and E = E and H = H and sub = sub, of 7 20011 "[U_ZERO]" ?h]
    by (simp add: byte_words evm_gas_limit_def EVM_MAX_STACK_def)
  also have "\<dots> = Some (Err VReverted, frame_at 9 20016 [] ?h)" using loop_step [OF halt] by simp
  finally show ?thesis by (simp add: run_frame_def frame_result_def frame_at_def)
qed

section \<open>A call that reverts\<close>

text \<open>A caller that sends five of its ten units to a contract that stores and reverts\<close>

definition revert_host :: mem_host where
  "revert_host = empty_host\<lparr>mh_balances := [from_u64 0x1234 \<mapsto> from_u64 10],
     mh_codes := [from_u64 0x5678 \<mapsto> [0x60, 1, 0x60, 2, 0x55, 0x60, 0, 0x60, 0, 0xfd]]\<rparr>"

definition revert_env :: frame_env where
  "revert_env = \<lparr>fe_code = [0xf1], fe_ctx = demo_context, fe_depth = 0, fe_static = False\<rparr>"

definition revert_frame :: "mem_host frame" where
  "revert_frame = frame_at 0 2 [from_u64 21000, from_u64 0x5678, from_u64 5, U_ZERO, U_ZERO, U_ZERO, U_ZERO] revert_host"

lemma reverting_call:
  "\<exists>h. do_call E mem_host_ops (frames_below E mem_host_ops 3) revert_env KCall revert_frame = Some (Ok (), frame_at 0 20118 [U_ZERO] h)"
proof -
  have z: "from_u64 (v :: u64) = U256 v 0 0 0" for v by (simp add: from_u64_def)
  have np: "\<not> is_precompile (U256 22136 0 0 0)" by code_simp
  let ?ctx = "\<lparr>cc_caller = from_u64 0x1234, cc_address = from_u64 0x5678, cc_value = from_u64 5, cc_calldata = [], cc_gas_limit = 21000\<rparr>"
  obtain h1 where p: "call_prepare E mem_host_ops revert_env KCall revert_frame = (Ok (RunFrame [0x60, 1, 0x60, 2, 0x55, 0x60, 0, 0x60, 0, 0xfd] ?ctx False 1, 0, 0), frame_at 0 102 [] h1)"
    by (simp add: call_prepare_def call_operands_def call_enter_def start_callee_def revert_env_def revert_frame_def demo_context_def frame_at_def
        revert_host_def empty_host_def z U_ZERO_def act_simps
        evm_charge_def evm_gas_limit_def saturating_add_def pop_usize_def evm_pop_def low_usize_def mem_load_def MAX_CALL_DEPTH_def u_is_zero_def
        call_target_def take_snapshot_def mem_host_ops_def mem_snapshot_op_def get_host_def mem_balance_def or_default_def
        u_lt_def cmp_u_def upd_host_def np mem_transfer_def saturating_sub_def low_u64_saturating_def low_u64_def)
  have finish: "\<exists>h2. call_finish mem_host_ops revert_env 1 0 0 \<lparr>eo_success = False, eo_return_data = [], eo_gas_used = 20016, eo_logs = []\<rparr> (frame_at 0 102 [] h) =
      (Ok (), frame_at 0 20118 [U_ZERO] h2)" for h
    by (simp add: call_finish_def frame_at_def revert_env_def demo_context_def evm_charge_def evm_gas_limit_def saturating_add_def upd_host_def
        store_output_def evm_push_def EVM_MAX_STACK_def bool_u_def act_simps)
  have upd: "frame_at 0 102 [] h1\<lparr>fr_host := h\<rparr> = frame_at 0 102 [] h" for h by (simp add: frame_at_def)
  have "frames_below E mem_host_ops 3 = run_frame E mem_host_ops (frames_below E mem_host_ops 2)" by (simp add: numeral_3_eq_3 numeral_2_eq_2)
  then show ?thesis
    using store_and_revert [of E mem_host_ops "frames_below E mem_host_ops 2" ?ctx "fr_host (frame_at 0 102 [] h1)" 1] finish
    unfolding do_call_def p by (simp add: run_plan_def revert_env_def upd)
qed

end
