(* ===== verification/Eth_Node.thy ===== *)
theory Eth_Node
  imports Node_Properties Evm_Vm_Properties
begin

text \<open>
  The Ethereum interface of a node (\<open>node/src/eth.rs\<close>): accounts, code and storage of contracts in the state tree, the host on that
  state which the EVM interpreter runs against, read-only calls, and the application of a signed transaction followed by a block that anchors the
  new state. The host satisfies the contract \<open>evm_host_laws\<close> of the interpreter. JSON texts of receipts are values of the datatype
  \<open>json\<close>, whose serialiser is a parameter; whether the interpreter returns is part of the result (an option).
\<close>

section \<open>Parameters, keys and reads\<close>

datatype json = JNull | JNum nat | JStr string | JArr "json list" | JObj "(string \<times> json) list"

text \<open>The values that the library can hold: an object lists its members in the order of the keys, each once, as the ordered map of \<open>serde_json\<close> does\<close>

fun json_ok :: "json \<Rightarrow> bool" where
  "json_ok (JArr xs) \<longleftrightarrow> (\<forall>x \<in> set xs. json_ok x)"
| "json_ok (JObj xs) \<longleftrightarrow> sorted_wrt (<) (map fst xs) \<and> (\<forall>(k, v) \<in> set xs. json_ok v)"
| "json_ok _ \<longleftrightarrow> True"

record eth_ext = node_ext +
  js_value :: "json codec"

definition MAX_EVM_GAS :: u64 where "MAX_EVM_GAS = 30000000"

text \<open>\<open>str::parse::<u64>\<close>: as for u128, with the smaller bound\<close>

definition parse_u64 :: "string \<Rightarrow> u64 option" where
  "parse_u64 s = (case parse_u128 s of None \<Rightarrow> None | Some v \<Rightarrow> if unat v < 2 ^ 64 then Some (ucast v) else None)"

definition u64_to_string :: "u64 \<Rightarrow> string" where
  "u64_to_string v = decimal (unat v)"

definition hex0x :: "'x hash_ext_scheme \<Rightarrow> bytes \<Rightarrow> string" where
  "hex0x X b = ''0x'' @ hex_encode X b"

definition eth_party :: "'x hash_ext_scheme \<Rightarrow> bytes \<Rightarrow> party_id" where
  "eth_party X addr = PartyId (''eth:'' @ hex0x X addr)"

definition eth_addr_to_u256 :: "bytes \<Rightarrow> u256" where
  "eth_addr_to_u256 addr = from_big_endian (replicate 12 0 @ addr)"

definition u256_to_addr :: "u256 \<Rightarrow> bytes" where
  "u256_to_addr v = drop 12 (to_big_endian v)"

definition value_u256 :: "u128 \<Rightarrow> u256" where
  "value_u256 v = from_big_endian (u128_to_be_bytes v)"

definition nonce_key :: "'x hash_ext_scheme \<Rightarrow> bytes \<Rightarrow> string" where
  "nonce_key X addr = ''eth/nonce/'' @ hex0x X addr"

definition eth_code_key :: "'x hash_ext_scheme \<Rightarrow> bytes \<Rightarrow> string" where
  "eth_code_key X addr = ''eth/code/'' @ hex0x X addr"

definition eth_storage_key :: "'x hash_ext_scheme \<Rightarrow> bytes \<Rightarrow> u256 \<Rightarrow> string" where
  "eth_storage_key X addr slot = ''eth/store/'' @ hex0x X addr @ ''/'' @ hex0x X (to_big_endian slot)"

definition receipt_key :: "'x hash_ext_scheme \<Rightarrow> bytes \<Rightarrow> string" where
  "receipt_key X hash = ''eth/receipt/'' @ hex0x X hash"

definition txmeta_key :: "'x hash_ext_scheme \<Rightarrow> bytes \<Rightarrow> string" where
  "txmeta_key X hash = ''eth/tx/'' @ hex0x X hash"

definition eth_tx_of :: "'x eth_ext_scheme \<Rightarrow> state_tree \<Rightarrow> bytes \<Rightarrow> json option" where
  "eth_tx_of X s hash = get_json_opt (js_value X) s (txmeta_key X hash)"

definition eth_nonce :: "'x kernel_ext_scheme \<Rightarrow> state_tree \<Rightarrow> bytes \<Rightarrow> u64" where
  "eth_nonce X s addr = (case Option.bind (get_json_opt (js_string X) s (nonce_key X addr)) parse_u64 of None \<Rightarrow> 0 | Some v \<Rightarrow> v)"

definition eth_balance :: "'x kernel_ext_scheme \<Rightarrow> state_tree \<Rightarrow> bytes \<Rightarrow> u128" where
  "eth_balance X s addr = balance_of X s (native_token_id X) (eth_party X addr)"

definition eth_code :: "'x kernel_ext_scheme \<Rightarrow> state_tree \<Rightarrow> bytes \<Rightarrow> bytes" where
  "eth_code X s addr = (case Option.bind (get_json_opt (js_string X) s (eth_code_key X addr)) (hex_decode X) of None \<Rightarrow> [] | Some b \<Rightarrow> b)"

definition eth_receipt :: "'x eth_ext_scheme \<Rightarrow> state_tree \<Rightarrow> bytes \<Rightarrow> json option" where
  "eth_receipt X s hash = get_json_opt (js_value X) s (receipt_key X hash)"

definition contract_address :: "evm_lib \<Rightarrow> bytes \<Rightarrow> u64 \<Rightarrow> bytes" where
  "contract_address E deployer nonce =
     (let nonce_bytes = (if nonce = 0 then [] else dropWhile (\<lambda>b. b = 0) (u64_to_be_bytes nonce));
          rlp = encode_list [encode_str deployer, encode_str nonce_bytes]
      in drop 12 (keccak256 E rlp))"

section \<open>The host\<close>

record state_host =
  sh_state :: state_tree
  sh_chain_id :: u64
  sh_block_number :: u64
  sh_timestamp :: u64
  sh_snapshots :: "state_tree list"

definition state_host_new :: "state_tree \<Rightarrow> u64 \<Rightarrow> u64 \<Rightarrow> u64 \<Rightarrow> state_host" where
  "state_host_new s chain_id block_number timestamp =
     \<lparr>sh_state = s, sh_chain_id = chain_id, sh_block_number = block_number, sh_timestamp = timestamp, sh_snapshots = []\<rparr>"

text \<open>\<open>let _ = self.state.put_json(..)\<close>: the result is ignored\<close>

definition host_put :: "'x kernel_ext_scheme \<Rightarrow> string \<Rightarrow> string \<Rightarrow> state_host \<Rightarrow> state_host" where
  "host_put X key v h = h\<lparr>sh_state := snd (put_json (js_string X) key v (sh_state h))\<rparr>"

definition u256_low_u128 :: "u256 \<Rightarrow> u128" where
  "u256_low_u128 v = of_nat (fold (\<lambda>b a. a * 256 + unat b) (drop 16 (to_big_endian v)) 0)"

definition sh_sload :: "'x kernel_ext_scheme \<Rightarrow> state_host \<Rightarrow> u256 \<Rightarrow> u256 \<Rightarrow> u256" where
  "sh_sload X h address key =
     (case Option.bind (get_json_opt (js_string X) (sh_state h) (eth_storage_key X (u256_to_addr address) key)) (hex_decode X) of
        None \<Rightarrow> U_ZERO | Some b \<Rightarrow> from_big_endian b)"

definition sh_sstore :: "'x kernel_ext_scheme \<Rightarrow> u256 \<Rightarrow> u256 \<Rightarrow> u256 \<Rightarrow> state_host \<Rightarrow> state_host" where
  "sh_sstore X address key val = host_put X (eth_storage_key X (u256_to_addr address) key) (hex_encode X (to_big_endian val))"

definition sh_balance :: "'x kernel_ext_scheme \<Rightarrow> state_host \<Rightarrow> u256 \<Rightarrow> u256" where
  "sh_balance X h address = value_u256 (balance_of X (sh_state h) (native_token_id X) (eth_party X (u256_to_addr address)))"

definition sh_set_code :: "'x kernel_ext_scheme \<Rightarrow> u256 \<Rightarrow> bytes \<Rightarrow> state_host \<Rightarrow> state_host" where
  "sh_set_code X address code = host_put X (eth_code_key X (u256_to_addr address)) (hex_encode X code)"

definition sh_bump_nonce :: "'x kernel_ext_scheme \<Rightarrow> u256 \<Rightarrow> state_host \<Rightarrow> state_host" where
  "sh_bump_nonce X address h =
     (let addr = u256_to_addr address in host_put X (nonce_key X addr) (u64_to_string (eth_nonce X (sh_state h) addr + 1)) h)"

definition sh_transfer :: "'x kernel_ext_scheme \<Rightarrow> u256 \<Rightarrow> u256 \<Rightarrow> u256 \<Rightarrow> state_host \<Rightarrow> bool \<times> state_host" where
  "sh_transfer X from to val h =
     (if u_is_zero val then (True, h)
      else case move_balance X (native_token_id X) (eth_party X (u256_to_addr from)) (eth_party X (u256_to_addr to)) (u256_low_u128 val) (sh_state h) of
        (r, s) \<Rightarrow> (case r of Ok _ \<Rightarrow> True | _ \<Rightarrow> False, h\<lparr>sh_state := s\<rparr>))"

definition sh_snapshot :: "state_host \<Rightarrow> nat \<times> state_host" where
  "sh_snapshot h = (let snaps = sh_snapshots h @ [sh_state h] in (length snaps, h\<lparr>sh_snapshots := snaps\<rparr>))"

definition sh_revert :: "nat \<Rightarrow> state_host \<Rightarrow> state_host" where
  "sh_revert snapshot h =
     (if 1 \<le> snapshot \<and> snapshot \<le> length (sh_snapshots h)
      then h\<lparr>sh_state := sh_snapshots h ! (snapshot - 1), sh_snapshots := take (snapshot - 1) (sh_snapshots h)\<rparr> else h)"

definition sh_commit_snapshot :: "nat \<Rightarrow> state_host \<Rightarrow> state_host" where
  "sh_commit_snapshot snapshot h =
     (if 1 \<le> snapshot \<and> snapshot \<le> length (sh_snapshots h) then h\<lparr>sh_snapshots := take (snapshot - 1) (sh_snapshots h)\<rparr> else h)"

definition state_host_ops :: "'x kernel_ext_scheme \<Rightarrow> state_host evm_host" where
  "state_host_ops X = \<lparr>
     host_sload = sh_sload X,
     host_sstore = sh_sstore X,
     host_balance = sh_balance X,
     host_block_number = sh_block_number,
     host_block_timestamp = sh_timestamp,
     host_chain_id = sh_chain_id,
     host_code = (\<lambda>h a. eth_code X (sh_state h) (u256_to_addr a)),
     host_set_code = sh_set_code X,
     host_account_nonce = (\<lambda>h a. eth_nonce X (sh_state h) (u256_to_addr a)),
     host_bump_nonce = sh_bump_nonce X,
     host_transfer = sh_transfer X,
     host_snapshot = sh_snapshot,
     host_revert = sh_revert,
     host_commit_snapshot = sh_commit_snapshot\<rparr>"

interpretation state_host: evm_host_laws "state_host_ops X" sh_state sh_snapshots for X :: "'x kernel_ext_scheme"
  by unfold_locales
    (auto simp: state_host_ops_def sh_snapshot_def sh_revert_def sh_commit_snapshot_def sh_sstore_def sh_set_code_def sh_bump_nonce_def
      sh_transfer_def host_put_def Let_def split: prod.splits)

section \<open>Transactions\<close>

datatype eth_error =
    EDecode evm_error
  | WrongChainId "u64 option" u64
  | EBadNonce u64 u64
  | EVm string
  | EReverted
  | ENode string

record eth_applied =
  ea_hash :: bytes
  ea_from :: bytes
  ea_to :: "bytes option"
  ea_contract_address :: "bytes option"
  ea_value :: u128
  ea_nonce :: u64
  ea_gas_used :: u64
  ea_logs :: "evm_log list"

definition prism_error_to_string :: "prism_error \<Rightarrow> string" where
  "prism_error_to_string e = (case e of
      InvalidPayload m \<Rightarrow> ''invalid payload: '' @ m
    | Unauthorized m \<Rightarrow> ''unauthorized: '' @ m
    | LimitExceeded m \<Rightarrow> ''resource limit exceeded: '' @ m
    | NotFound m \<Rightarrow> ''not found: '' @ m
    | Internal m \<Rightarrow> ''prism internal error: '' @ m)"

definition vm_error_to_string :: "'x hash_ext_scheme \<Rightarrow> evm_vm_error \<Rightarrow> string" where
  "vm_error_to_string X e = (case e of
      VStackUnderflow \<Rightarrow> ''stack underflow''
    | VStackOverflow \<Rightarrow> ''stack overflow''
    | VOutOfGas \<Rightarrow> ''out of gas''
    | VInvalidOpcode op \<Rightarrow> ''invalid opcode '' @ hex0x X [op]
    | VInvalidJump dest \<Rightarrow> ''invalid jump destination '' @ decimal dest
    | VReverted \<Rightarrow> ''reverted''
    | VMemoryLimit \<Rightarrow> ''memory limit exceeded''
    | VStaticViolation \<Rightarrow> ''state-modifying opcode in a static call''
    | VCallDepth \<Rightarrow> ''call depth limit exceeded'')"

text \<open>An execution of the interpreter on a state, with its error as an \<open>EthError\<close>\<close>

definition run_evm ::
  "'x kernel_ext_scheme \<Rightarrow> evm_lib \<Rightarrow> u64 \<Rightarrow> u64 \<Rightarrow> u64 \<Rightarrow> bytes \<Rightarrow> call_context \<Rightarrow> state_tree \<Rightarrow>
   ((eth_error, exec_outcome) outcome \<times> state_tree) option" where
  "run_evm X E chain_id block_number timestamp code ctx s =
     map_option (\<lambda>(r, h). (case r of Ok out \<Rightarrow> Ok out | Err e \<Rightarrow> Err (EVm (vm_error_to_string X e)) | Panic \<Rightarrow> Panic, sh_state h))
       (execute_frame E (state_host_ops X) code ctx (state_host_new s chain_id block_number timestamp) 0 False)"

definition opt_then ::
  "(('e, 'a) outcome \<times> 's) option \<Rightarrow> ('a \<Rightarrow> ('s, 'e, 'b) act) \<Rightarrow> (('e, 'b) outcome \<times> 's) option" where
  "opt_then m g = map_option (\<lambda>(r, s). case r of Ok x \<Rightarrow> g x s | Err e \<Rightarrow> (Err e, s) | Panic \<Rightarrow> (Panic, s)) m"

definition eth_call_state ::
  "'x kernel_ext_scheme \<Rightarrow> evm_lib \<Rightarrow> state_tree \<Rightarrow> u64 \<Rightarrow> u64 \<Rightarrow> u64 \<Rightarrow> bytes \<Rightarrow> bytes \<Rightarrow> (eth_error, bytes) outcome option" where
  "eth_call_state X E s chain_id height timestamp to calldata =
     (let to_word = eth_addr_to_u256 to in
      if is_precompile to_word then Some (Ok (case precompile_execute E to_word calldata of None \<Rightarrow> [] | Some out \<Rightarrow> out))
      else let code = eth_code X s to in
        if code = [] then Some (Ok [])
        else let ctx = \<lparr>cc_caller = U_ZERO, cc_address = to_word, cc_value = U_ZERO, cc_calldata = calldata, cc_gas_limit = MAX_EVM_GAS\<rparr> in
          map_option (\<lambda>(r, _). case r of Ok out \<Rightarrow> Ok (eo_return_data out) | Err e \<Rightarrow> Err e | Panic \<Rightarrow> Panic)
            (run_evm X E chain_id height timestamp code ctx s))"

definition eth_call :: "'x kernel_ext_scheme \<Rightarrow> evm_lib \<Rightarrow> node \<Rightarrow> bytes \<Rightarrow> bytes \<Rightarrow> (eth_error, bytes) outcome option" where
  "eth_call X E n to calldata =
     (if nd_blocks n = [] then Some Panic
      else let b = last (nd_blocks n) in eth_call_state X E (nd_state n) (nd_chain_id n) (blk_height b) (blk_timestamp b) to calldata)"

definition tx_context :: "eth_tx \<Rightarrow> bytes \<Rightarrow> call_context" where
  "tx_context tx addr =
     \<lparr>cc_caller = eth_addr_to_u256 (tx_from tx), cc_address = eth_addr_to_u256 addr, cc_value = value_u256 (tx_value tx),
      cc_calldata = tx_data tx, cc_gas_limit = max 21000 (min MAX_EVM_GAS (tx_gas_limit tx))\<rparr>"

definition eth_put :: "'a codec \<Rightarrow> string \<Rightarrow> 'a \<Rightarrow> (state_tree, eth_error, unit) act" where
  "eth_put c key v = map_err (\<lambda>e. ENode (state_error_to_string e)) (put_json c key v)"

definition eth_pay :: "'x kernel_ext_scheme \<Rightarrow> eth_tx \<Rightarrow> bytes \<Rightarrow> (state_tree, eth_error, unit) act" where
  "eth_pay X tx to =
     (if 0 < tx_value tx
      then map_err (\<lambda>e. ENode (prism_error_to_string e))
             (move_balance X (native_token_id X) (eth_party X (tx_from tx)) (eth_party X to) (tx_value tx))
      else ret ())"

text \<open>Deployment and call of a contract: the gas used, the logs and the address of a created contract\<close>

definition eth_deploy ::
  "'x kernel_ext_scheme \<Rightarrow> evm_lib \<Rightarrow> u64 \<Rightarrow> u64 \<Rightarrow> u64 \<Rightarrow> eth_tx \<Rightarrow> state_tree \<Rightarrow>
   ((eth_error, u64 \<times> evm_log list \<times> bytes option) outcome \<times> state_tree) option" where
  "eth_deploy X E chain_id block_number timestamp tx s =
     (let new_addr = contract_address E (tx_from tx) (tx_nonce tx) in
      opt_then (run_evm X E chain_id block_number timestamp (tx_data tx) (tx_context tx new_addr) s) (\<lambda>out.
        andthen (ensure (eo_success out) EReverted) (\<lambda>_.
        andthen (ensure (length (eo_return_data out) \<le> MAX_CODE_SIZE)
          (EVm (''contract code size '' @ decimal (length (eo_return_data out)) @ '' exceeds limit '' @ decimal MAX_CODE_SIZE))) (\<lambda>_.
        andthen (eth_put (js_string X) (eth_code_key X new_addr) (hex_encode X (eo_return_data out))) (\<lambda>_.
        ret (saturating_add 21000 (eo_gas_used out), eo_logs out, Some new_addr))))))"

definition eth_invoke ::
  "'x kernel_ext_scheme \<Rightarrow> evm_lib \<Rightarrow> u64 \<Rightarrow> u64 \<Rightarrow> u64 \<Rightarrow> eth_tx \<Rightarrow> bytes \<Rightarrow> state_tree \<Rightarrow>
   ((eth_error, u64 \<times> evm_log list \<times> bytes option) outcome \<times> state_tree) option" where
  "eth_invoke X E chain_id block_number timestamp tx to s =
     (let code = eth_code X s to in
      if code = [] then
        Some (andthen (ensure (tx_data tx = []) (EVm ''call to account with no code'')) (\<lambda>_.
              andthen (eth_pay X tx to) (\<lambda>_. ret (21000, [], None))) s)
      else case eth_pay X tx to s of
        (Ok _, s1) \<Rightarrow> opt_then (run_evm X E chain_id block_number timestamp code (tx_context tx to) s1) (\<lambda>out.
          andthen (ensure (eo_success out) EReverted) (\<lambda>_. ret (saturating_add 21000 (eo_gas_used out), eo_logs out, None)))
      | (Err e, s1) \<Rightarrow> Some (Err e, s1)
      | (Panic, s1) \<Rightarrow> Some (Panic, s1))"

definition eth_execute ::
  "'x kernel_ext_scheme \<Rightarrow> evm_lib \<Rightarrow> u64 \<Rightarrow> u64 \<Rightarrow> u64 \<Rightarrow> eth_tx \<Rightarrow> state_tree \<Rightarrow>
   ((eth_error, u64 \<times> evm_log list \<times> bytes option) outcome \<times> state_tree) option" where
  "eth_execute X E chain_id block_number timestamp tx s = (case tx_to tx of
      None \<Rightarrow> eth_deploy X E chain_id block_number timestamp tx s
    | Some to \<Rightarrow> eth_invoke X E chain_id block_number timestamp tx to s)"

section \<open>Receipts and the anchor block\<close>

fun hex_digits_of :: "nat \<Rightarrow> string" where
  "hex_digits_of n = (if n < 16 then [''0123456789abcdef'' ! n] else hex_digits_of (n div 16) @ [''0123456789abcdef'' ! (n mod 16)])"

declare hex_digits_of.simps [simp del]

definition opt_address :: "'x hash_ext_scheme \<Rightarrow> bytes option \<Rightarrow> json" where
  "opt_address X a = (case a of None \<Rightarrow> JNull | Some b \<Rightarrow> JStr (hex0x X b))"

definition log_json :: "'x hash_ext_scheme \<Rightarrow> nat \<Rightarrow> evm_log \<Rightarrow> json" where
  "log_json X i l = JObj
     [(''address'', JStr (hex0x X (u256_to_addr (lg_address l)))),
      (''data'', JStr (hex0x X (lg_data l))),
      (''logIndex'', JStr (''0x'' @ hex_digits_of i)),
      (''topics'', JArr (map (\<lambda>t. JStr (hex0x X (to_big_endian t))) (lg_topics l)))]"

definition receipt_json :: "'x hash_ext_scheme \<Rightarrow> eth_tx \<Rightarrow> bytes option \<Rightarrow> u64 \<Rightarrow> u64 \<Rightarrow> evm_log list \<Rightarrow> json" where
  "receipt_json X tx created block_number gas_used logs = JObj
     [(''block_number'', JNum (unat block_number)), (''contract_address'', opt_address X created), (''from'', JStr (hex0x X (tx_from tx))),
      (''gas_used'', JNum (unat gas_used)), (''logs'', JArr (map (\<lambda>(i, l). log_json X i l) (enumerate 0 logs))),
      (''nonce'', JNum (unat (tx_nonce tx))), (''status'', JNum 1), (''to'', opt_address X (tx_to tx)),
      (''value'', JStr (u128_to_string (tx_value tx)))]"

definition txmeta_json :: "'x hash_ext_scheme \<Rightarrow> eth_tx \<Rightarrow> u64 \<Rightarrow> json" where
  "txmeta_json X tx block_number = JObj
     [(''block_number'', JNum (unat block_number)), (''from'', JStr (hex0x X (tx_from tx))), (''gas'', JNum (unat (tx_gas_limit tx))),
      (''gas_price'', JStr (u128_to_string (tx_gas_price tx))), (''hash'', JStr (hex0x X (tx_hash tx))), (''input'', JStr (hex0x X (tx_data tx))),
      (''nonce'', JNum (unat (tx_nonce tx))), (''to'', opt_address X (tx_to tx)), (''value'', JStr (u128_to_string (tx_value tx)))]"

definition eth_record :: "'x eth_ext_scheme \<Rightarrow> eth_tx \<Rightarrow> u64 \<Rightarrow> u64 \<Rightarrow> u64 \<times> evm_log list \<times> bytes option \<Rightarrow> (state_tree, eth_error, unit) act" where
  "eth_record X tx expected block_number = (\<lambda>(gas_used, logs, created).
     andthen (eth_put (js_string X) (nonce_key X (tx_from tx)) (u64_to_string (expected + 1))) (\<lambda>_.
     andthen (eth_put (js_value X) (receipt_key X (tx_hash tx)) (receipt_json X tx created block_number gas_used logs)) (\<lambda>_.
     eth_put (js_value X) (txmeta_key X (tx_hash tx)) (txmeta_json X tx block_number))))"

definition eth_store :: "(directory, store_error, unit) act \<Rightarrow> (node, eth_error, unit) act" where
  "eth_store m = (\<lambda>n. case nd_store n of
      None \<Rightarrow> (Ok (), n)
    | Some d \<Rightarrow> (case m d of
        (Ok _, d') \<Rightarrow> (Ok (), n\<lparr>nd_store := Some d'\<rparr>)
      | (Err e, d') \<Rightarrow> (Err (ENode (store_error_to_string e)), n\<lparr>nd_store := Some d'\<rparr>)
      | (Panic, d') \<Rightarrow> (Panic, n\<lparr>nd_store := Some d'\<rparr>)))"

definition anchor_block :: "'x kernel_ext_scheme \<Rightarrow> u64 \<Rightarrow> u64 \<Rightarrow> node \<Rightarrow> block" where
  "anchor_block X now timestamp n =
     (let parent = last (nd_blocks n);
          b = \<lparr>blk_height = blk_height parent + 1, blk_parent = block_hash X parent, blk_events_root = ZERO, blk_state_root = state_root X (nd_state n),
               blk_timestamp = max (max now (blk_timestamp parent)) timestamp, blk_proposer = nd_proposer n, blk_events = [], blk_commands = []\<rparr>
      in b\<lparr>blk_events_root := compute_events_root X b\<rparr>)"

definition seal_anchor_block :: "'x store_ext_scheme \<Rightarrow> u64 \<Rightarrow> u64 \<Rightarrow> (node, eth_error, unit) act" where
  "seal_anchor_block X now timestamp =
     andthen (gets id) (\<lambda>n.
     if nd_blocks n = [] then panic
     else let b = anchor_block X now timestamp n in
       andthen (modify (\<lambda>n. n\<lparr>nd_blocks := nd_blocks n @ [b]\<rparr>)) (\<lambda>_.
       eth_store (andthen (append_block X b) (\<lambda>_. save_state X (nd_state n)))))"

definition eth_apply_tx ::
  "'x eth_ext_scheme \<Rightarrow> evm_lib \<Rightarrow> u64 \<Rightarrow> eth_tx \<Rightarrow> u64 \<Rightarrow> node \<Rightarrow> ((eth_error, eth_applied) outcome \<times> node) option" where
  "eth_apply_tx X E now tx expected n =
     (let parent = last (nd_blocks n); block_number = blk_height parent + 1; timestamp = blk_timestamp parent in
      case opt_then (eth_execute X E (nd_chain_id n) block_number timestamp tx (nd_state n))
             (\<lambda>res. andthen (eth_record X tx expected block_number res) (\<lambda>_. ret res)) of
        None \<Rightarrow> None
      | Some (Err e, _) \<Rightarrow> Some (Err e, n)
      | Some (Panic, _) \<Rightarrow> Some (Panic, n)
      | Some (Ok (gas_used, logs, created), new_state) \<Rightarrow>
          Some (andthen (seal_anchor_block X now timestamp) (\<lambda>_.
            ret \<lparr>ea_hash = tx_hash tx, ea_from = tx_from tx, ea_to = tx_to tx, ea_contract_address = created, ea_value = tx_value tx,
                 ea_nonce = tx_nonce tx, ea_gas_used = gas_used, ea_logs = logs\<rparr>) (n\<lparr>nd_state := new_state\<rparr>)))"

definition eth_apply_raw ::
  "'x eth_ext_scheme \<Rightarrow> evm_lib \<Rightarrow> u64 \<Rightarrow> bytes \<Rightarrow> node \<Rightarrow> ((eth_error, eth_applied) outcome \<times> node) option" where
  "eth_apply_raw X E now raw n = (case decode_legacy_tx E raw of
      Inl e \<Rightarrow> Some (Err (EDecode e), n)
    | Inr tx \<Rightarrow>
        if tx_chain_id tx \<noteq> None \<and> tx_chain_id tx \<noteq> Some (nd_chain_id n) then Some (Err (WrongChainId (tx_chain_id tx) (nd_chain_id n)), n)
        else let expected = eth_nonce X (nd_state n) (tx_from tx) in
          if tx_nonce tx \<noteq> expected then Some (Err (EBadNonce (tx_nonce tx) expected), n)
          else if nd_blocks n = [] then Some (Panic, n)
          else eth_apply_tx X E now tx expected n)"

section \<open>Lemmas\<close>

definition json_codec_laws :: "json codec \<Rightarrow> bool" where
  "json_codec_laws c \<longleftrightarrow> (\<forall>v. \<exists>b. to_vec c v = Inr b \<and> (json_ok v \<longrightarrow> from_slice c b = Inr v))"

definition eth_ext_ok :: "'x eth_ext_scheme \<Rightarrow> bool" where
  "eth_ext_ok X \<longleftrightarrow> kernel_ext_ok X \<and> json_codec_laws (js_value X)"

lemma eth_ext_okD:
  assumes "eth_ext_ok X"
  shows "kernel_ext_ok X" "json_codec_laws (js_value X)" "codec_ok (js_string X)" "hash_ext_ok X"
  using assms by (simp_all add: eth_ext_ok_def kernel_ext_ok_def)

lemma get_json_put_value:
  "json_codec_laws c \<Longrightarrow> json_ok v \<Longrightarrow> get_json_opt c (st_put k (to_vec_or_default c v) s) k = Some v"
  unfolding json_codec_laws_def by (drule spec [of _ v]) (auto simp: get_json_opt_def get_json_def to_vec_or_default_def st_put_def)

lemma receipts_ok: "json_ok (receipt_json X tx created bn gas logs)" "json_ok (txmeta_json X tx bn)"
  by (auto simp: receipt_json_def txmeta_json_def log_json_def opt_address_def less_char_def split: option.splits)

lemma hex0x_inj: "hash_ext_ok X \<Longrightarrow> hex0x X a = hex0x X b \<longleftrightarrow> a = b"
  unfolding hex0x_def hash_ext_ok_def by (metis append_same_eq option.inject same_append_eq)

lemma eth_party_inj: "hash_ext_ok X \<Longrightarrow> eth_party X a = eth_party X b \<longleftrightarrow> a = b"
  by (simp add: eth_party_def hex0x_inj)

lemma parse_u64_to_string [simp]: "parse_u64 (u64_to_string v) = Some v"
proof -
  have w: "unat (ucast v :: u128) = unat v" by (rule unat_widen)
  have "u64_to_string v = u128_to_string (ucast v)" using w by (simp add: u64_to_string_def u128_to_string_def)
  moreover have "(ucast (ucast v :: u128) :: u64) = v" by (rule bit_word_eqI) (simp add: bit_simps)
  ultimately show ?thesis using u64_unat_less [of v] w by (simp add: parse_u64_def)
qed

lemma eth_keys:
  "nonce_key X a \<noteq> receipt_key X b" "nonce_key X a \<noteq> txmeta_key X b" "nonce_key X a \<noteq> eth_code_key X b" "nonce_key X a \<noteq> bal_key X t w"
  "receipt_key X a \<noteq> txmeta_key X b" "receipt_key X b \<noteq> bal_key X t w" "txmeta_key X b \<noteq> bal_key X t w" "eth_code_key X b \<noteq> bal_key X t w"
  by (simp_all add: nonce_key_def receipt_key_def txmeta_key_def eth_code_key_def bal_key_def)

lemma eth_put_ok: "codec_ok c \<Longrightarrow> eth_put c k v s = (Ok (), st_put k (to_vec_or_default c v) s)"
  by (simp add: eth_put_def map_err_def modify_def)

lemma eth_put_value: "json_codec_laws c \<Longrightarrow> eth_put c k v s = (Ok (), st_put k (to_vec_or_default c v) s)"
  unfolding json_codec_laws_def
  by (drule spec [of _ v]) (auto simp: eth_put_def put_json_def map_err_def modify_def to_vec_or_default_def)

text \<open>What the record of a transaction writes\<close>

definition recorded :: "'x eth_ext_scheme \<Rightarrow> eth_tx \<Rightarrow> u64 \<Rightarrow> u64 \<Rightarrow> u64 \<times> evm_log list \<times> bytes option \<Rightarrow> state_tree \<Rightarrow> state_tree" where
  "recorded X tx expected block_number res s = (case res of (gas, logs, created) \<Rightarrow>
     st_put (txmeta_key X (tx_hash tx)) (to_vec_or_default (js_value X) (txmeta_json X tx block_number))
    (st_put (receipt_key X (tx_hash tx)) (to_vec_or_default (js_value X) (receipt_json X tx created block_number gas logs))
    (st_put (nonce_key X (tx_from tx)) (to_vec_or_default (js_string X) (u64_to_string (expected + 1))) s)))"

lemma eth_record_ok: "eth_ext_ok X \<Longrightarrow> eth_record X tx expected bn res s = (Ok (), recorded X tx expected bn res s)"
  by (cases res) (simp add: eth_record_def recorded_def andthen_def eth_put_ok eth_put_value eth_ext_okD)

lemma recorded_nonce: "eth_ext_ok X \<Longrightarrow> eth_nonce X (recorded X tx expected bn res s) (tx_from tx) = expected + 1"
  using eth_keys [of X] by (cases res) (simp add: recorded_def eth_nonce_def get_json_opt_put eth_ext_okD not_sym)

lemma recorded_receipt:
  assumes "eth_ext_ok X"
  shows "eth_receipt X (recorded X tx expected bn (gas, logs, created) s) (tx_hash tx) = Some (receipt_json X tx created bn gas logs)"
    "eth_tx_of X (recorded X tx expected bn (gas, logs, created) s) (tx_hash tx) = Some (txmeta_json X tx bn)"
  using eth_keys [of X] get_json_put_value [OF eth_ext_okD(2) [OF assms] receipts_ok(1)] get_json_put_value [OF eth_ext_okD(2) [OF assms] receipts_ok(2)]
  by (simp_all add: recorded_def eth_receipt_def eth_tx_of_def not_sym)

lemma empty_block_nonce:
  "node_ext_ok X \<Longrightarrow> eth_nonce X (adjust_base_price X policy gas (set_now X ts s)) a = eth_nonce X s a"
  by (simp add: eth_nonce_def adjust_base_price_def set_now_def put_json_def nonce_key_def BASE_PRICE_KEY_def modify_def raise_def split: sum.splits)

lemma accept_external_Ok:
  assumes "accept_external_block X now b n = (Ok True, n')"
  shows "extends X b n n'"
proof -
  have "\<exists>sm. commit_block X now b n = (Ok sm, n')"
    using assms by (auto simp: accept_external_block_def head_def gets_def panic_def andthen_def ret_def split: if_splits prod.splits outcome.splits)
  then show ?thesis using commit_block_cases by blast
qed

lemma recorded_balance: "eth_balance X (recorded X tx expected bn res s) a = eth_balance X s a"
  using eth_keys [of X] by (cases res) (simp add: recorded_def eth_balance_def balance_of_def balance_def read_u128_frame)

lemma run_evm_returns: "unat (cc_gas_limit ctx) < 2 ^ 64 - 1 \<Longrightarrow> run_evm X E chain bn ts code ctx s \<noteq> None"
  unfolding run_evm_def using execute_frame_returns by simp

lemma tx_gas_bounded: "unat (cc_gas_limit (tx_context tx a)) < 2 ^ 64 - 1"
proof -
  have "cc_gas_limit (tx_context tx a) \<le> 30000000" by (simp add: tx_context_def MAX_EVM_GAS_def)
  then show ?thesis by (simp add: word_le_nat_alt)
qed

lemma opt_then_None: "opt_then m g = None \<longleftrightarrow> m = None"
  by (simp add: opt_then_def)

lemma eth_execute_returns: "eth_execute X E chain bn ts tx s \<noteq> None"
  by (simp add: eth_execute_def eth_deploy_def eth_invoke_def opt_then_None Let_def run_evm_returns [OF tx_gas_bounded]
      split: option.splits prod.splits outcome.splits del: not_None_eq)

text \<open>Sealing only adds the anchor block, and fails only in the store.\<close>

lemma seal_cases:
  assumes "seal_anchor_block X now ts n = (r, n')" and "nd_blocks n \<noteq> []"
  shows "nd_state n' = nd_state n \<and> nd_blocks n' = nd_blocks n @ [anchor_block X now ts n] \<and> nd_chain_id n' = nd_chain_id n \<and>
    (nd_store n = None \<longrightarrow> r = Ok ())"
  using assms
  by (auto simp: seal_anchor_block_def andthen_def gets_def modify_def Let_def eth_store_def split: option.splits prod.splits outcome.splits)

text \<open>An applied transaction: it was decoded, had the expected nonce, ran, and its record is the state that the new block anchors.\<close>

lemma eth_raw_Ok:
  assumes "eth_apply_raw X E now raw n = Some (Ok a, n')"
  shows "\<exists>tx. decode_legacy_tx E raw = Inr tx \<and> tx_nonce tx = eth_nonce X (nd_state n) (tx_from tx) \<and>
    (tx_chain_id tx = None \<or> tx_chain_id tx = Some (nd_chain_id n)) \<and> nd_blocks n \<noteq> [] \<and>
    eth_apply_tx X E now tx (tx_nonce tx) n = Some (Ok a, n')"
proof (cases "decode_legacy_tx E raw")
  case (Inr tx)
  let ?e = "eth_nonce X (nd_state n) (tx_from tx)"
  have c: "\<not> (tx_chain_id tx \<noteq> None \<and> tx_chain_id tx \<noteq> Some (nd_chain_id n))" "tx_nonce tx = ?e" "nd_blocks n \<noteq> []"
    using assms by (auto simp only: eth_apply_raw_def Inr Let_def sum.case option.inject prod.inject outcome.distinct split: if_split_asm)
  then have "eth_apply_raw X E now raw n = eth_apply_tx X E now tx (tx_nonce tx) n"
    by (simp only: eth_apply_raw_def Inr Let_def sum.case if_False if_True refl not_True_eq_False)
  then have "eth_apply_tx X E now tx (tx_nonce tx) n = Some (Ok a, n')" using assms by (rule trans [OF sym])
  then show ?thesis using Inr c by auto
qed (use assms in \<open>simp add: eth_apply_raw_def\<close>)

definition reports :: "eth_applied \<Rightarrow> eth_tx \<Rightarrow> u64 \<times> evm_log list \<times> bytes option \<Rightarrow> bool" where
  "reports a tx res \<longleftrightarrow> ea_from a = tx_from tx \<and> ea_nonce a = tx_nonce tx \<and> ea_hash a = tx_hash tx \<and> ea_to a = tx_to tx \<and>
     ea_value a = tx_value tx \<and> res = (ea_gas_used a, ea_logs a, ea_contract_address a)"

lemma eth_tx_Ok:
  assumes "eth_ext_ok X" and "eth_apply_tx X E now tx expected n = Some (Ok a, n')"
  shows "\<exists>res s1. eth_execute X E (nd_chain_id n) (blk_height (last (nd_blocks n)) + 1) (blk_timestamp (last (nd_blocks n))) tx (nd_state n) = Some (Ok res, s1) \<and>
    seal_anchor_block X now (blk_timestamp (last (nd_blocks n)))
      (n\<lparr>nd_state := recorded X tx expected (blk_height (last (nd_blocks n)) + 1) res s1\<rparr>) = (Ok (), n') \<and>
    reports a tx res"
proof -
  let ?p = "last (nd_blocks n)"
  let ?x = "eth_execute X E (nd_chain_id n) (blk_height ?p + 1) (blk_timestamp ?p) tx (nd_state n)"
  have x: "?x \<noteq> None" by (rule eth_execute_returns)
  then obtain r s1 where ex: "?x = Some (r, s1)" by auto
  show ?thesis
  proof (cases r)
    case (Ok res)
    obtain gas logs created where res: "res = (gas, logs, created)" by (metis surj_pair)
    let ?n = "n\<lparr>nd_state := recorded X tx expected (blk_height ?p + 1) (gas, logs, created) s1\<rparr>"
    obtain q n1 where s: "seal_anchor_block X now (blk_timestamp ?p) ?n = (q, n1)" by force
    have "Some (Ok a, n') = (case q of Ok u \<Rightarrow> Some (Ok \<lparr>ea_hash = tx_hash tx, ea_from = tx_from tx, ea_to = tx_to tx, ea_contract_address = created,
        ea_value = tx_value tx, ea_nonce = tx_nonce tx, ea_gas_used = gas, ea_logs = logs\<rparr>, n1) | Err e \<Rightarrow> Some (Err e, n1) | Panic \<Rightarrow> Some (Panic, n1))"
      using assms(2) unfolding eth_apply_tx_def Let_def opt_then_def ex Ok res option.map prod.case outcome.case option.case andthen_def eth_record_ok [OF assms(1)] ret_def s
      by (cases q) simp_all
    then show ?thesis using s Ok ex res by (cases q) (auto simp: reports_def)
  qed (use assms(2) ex in \<open>simp_all add: eth_apply_tx_def opt_then_def Let_def\<close>)
qed

lemma eth_apply_Ok:
  assumes "eth_ext_ok X" and "eth_apply_raw X E now raw n = Some (Ok a, n')"
  obtains tx res s1 where "decode_legacy_tx E raw = Inr tx" "tx_nonce tx = eth_nonce X (nd_state n) (tx_from tx)"
    "tx_chain_id tx = None \<or> tx_chain_id tx = Some (nd_chain_id n)" "reports a tx res" "nd_blocks n \<noteq> []"
    "eth_execute X E (nd_chain_id n) (blk_height (last (nd_blocks n)) + 1) (blk_timestamp (last (nd_blocks n))) tx (nd_state n) = Some (Ok res, s1)"
    "nd_state n' = recorded X tx (tx_nonce tx) (blk_height (last (nd_blocks n)) + 1) res s1"
    "nd_blocks n' = nd_blocks n @ [anchor_block X now (blk_timestamp (last (nd_blocks n))) (n\<lparr>nd_state := nd_state n'\<rparr>)]"
    "nd_chain_id n' = nd_chain_id n"
proof -
  let ?p = "last (nd_blocks n)"
  obtain tx where tx: "decode_legacy_tx E raw = Inr tx" "tx_nonce tx = eth_nonce X (nd_state n) (tx_from tx)"
      "tx_chain_id tx = None \<or> tx_chain_id tx = Some (nd_chain_id n)" "nd_blocks n \<noteq> []"
      "eth_apply_tx X E now tx (tx_nonce tx) n = Some (Ok a, n')"
    using eth_raw_Ok [OF assms(2)] by (elim exE conjE)
  obtain res s1 where x: "eth_execute X E (nd_chain_id n) (blk_height ?p + 1) (blk_timestamp ?p) tx (nd_state n) = Some (Ok res, s1)"
    and s: "seal_anchor_block X now (blk_timestamp ?p) (n\<lparr>nd_state := recorded X tx (tx_nonce tx) (blk_height ?p + 1) res s1\<rparr>) = (Ok (), n')"
    and a: "reports a tx res"
    using eth_tx_Ok [OF assms(1) tx(5)] by (elim exE conjE)
  have n': "nd_state n' = recorded X tx (tx_nonce tx) (blk_height ?p + 1) res s1"
    "nd_blocks n' = nd_blocks n @ [anchor_block X now (blk_timestamp ?p) (n\<lparr>nd_state := recorded X tx (tx_nonce tx) (blk_height ?p + 1) res s1\<rparr>)]"
    "nd_chain_id n' = nd_chain_id n"
    using seal_cases [OF s] tx(4) by simp_all
  show thesis by (rule that [OF tx(1-3) a tx(4) x n'(1) _ n'(3)]) (unfold n'(1), rule n'(2))
qed

section \<open>A reference instance\<close>

text \<open>A serialiser of JSON values: a tag, and the number of elements before the elements of arrays and objects\<close>

fun put_jv :: "json \<Rightarrow> bytes" where
  "put_jv JNull = [0]"
| "put_jv (JNum n) = 1 # put_one nat_coder n"
| "put_jv (JStr s) = 2 # put_one string_coder s"
| "put_jv (JArr xs) = 3 # put_one nat_coder (length xs) @ concat (map put_jv xs)"
| "put_jv (JObj xs) = 4 # put_one nat_coder (length xs) @ concat (map (\<lambda>(k, v). put_one string_coder k @ put_jv v) xs)"

primrec get_jv :: "nat \<Rightarrow> bytes \<Rightarrow> (json \<times> bytes) option" where
  "get_jv 0 = (\<lambda>b. None)"
| "get_jv (Suc k) = (\<lambda>b. case b of
      [] \<Rightarrow> None
    | t # c \<Rightarrow>
        if t = 0 then Some (JNull, c)
        else if t = 1 then map_option (map_prod JNum id) (get_one nat_coder c)
        else if t = 2 then map_option (map_prod JStr id) (get_one string_coder c)
        else if t = 3 then Option.bind (get_one nat_coder c) (\<lambda>(n, r). map_option (map_prod JArr id) (get_many \<lparr>put_one = put_jv, get_one = get_jv k\<rparr> n r))
        else Option.bind (get_one nat_coder c) (\<lambda>(n, r).
          map_option (map_prod JObj id) (get_many (pair_coder string_coder \<lparr>put_one = put_jv, get_one = get_jv k\<rparr>) n r)))"

definition json_codec :: "json codec" where
  "json_codec = \<lparr>to_vec = (\<lambda>v. Inr (put_jv v)),
     from_slice = (\<lambda>b. case get_jv (length b) b of Some (v, []) \<Rightarrow> Inr v | _ \<Rightarrow> Inl ''invalid input'')\<rparr>"

lemma get_many_on:
  "(\<And>x r. x \<in> set xs \<Longrightarrow> get_one p (put_one p x @ r) = Some (x, r)) \<Longrightarrow> get_many p (length xs) (concat (map (put_one p) xs) @ r) = Some (xs, r)"
  by (induction xs) auto

lemma length_concat_le: "x \<in> set xs \<Longrightarrow> length (g x) \<le> length (concat (map g xs))"
  by (induction xs) auto

lemma get_jv_Suc:
  assumes "length (put_jv j) \<le> k"
  obtains k' where "k = Suc k'" "length (put_jv j) \<le> Suc k'"
  using assms by (cases k; cases j) auto

lemma get_put_jv: "length (put_jv j) \<le> k \<Longrightarrow> get_jv k (put_jv j @ r) = Some (j, r)"
proof (induction j arbitrary: k r)
  case JNull
  then show ?case by (cases k) simp_all
next
  case (JNum n)
  then show ?case using nat_coder_ok by (cases k) (simp_all add: coder_ok_def)
next
  case (JStr s)
  then show ?case using string_coder_ok by (cases k) (simp_all add: coder_ok_def)
next
  case (JArr xs)
  obtain k' where k: "k = Suc k'" "length (put_jv (JArr xs)) \<le> Suc k'" using JArr.prems by (rule get_jv_Suc)
  have "get_jv k' (put_jv x @ q) = Some (x, q)" if "x \<in> set xs" for x q
    using JArr.IH [OF that] k(2) length_concat_le [OF that, of put_jv] by simp
  then have "get_many \<lparr>put_one = put_jv, get_one = get_jv k'\<rparr> (length xs) (concat (map put_jv xs) @ r) = Some (xs, r)"
    using get_many_on [of xs "\<lparr>put_one = put_jv, get_one = get_jv k'\<rparr>" r] by simp
  then show ?case using nat_coder_ok by (simp add: k(1) coder_ok_def)
next
  case (JObj xs)
  obtain k' where k: "k = Suc k'" "length (put_jv (JObj xs)) \<le> Suc k'" using JObj.prems by (rule get_jv_Suc)
  let ?f = "\<lambda>(a, v). put_one string_coder a @ put_jv v" and ?c = "pair_coder string_coder \<lparr>put_one = put_jv, get_one = get_jv k'\<rparr>"
  have "get_one ?c (put_one ?c x @ q) = Some (x, q)" if x: "x \<in> set xs" for x q
  proof -
    obtain a v where av: "x = (a, v)" by force
    have l: "length (put_jv v) \<le> k'" using k(2) length_concat_le [OF x, of ?f] by (simp add: av)
    have "v \<in> Basic_BNFs.snds x" by (simp add: av)
    then have "get_jv k' (put_jv v @ q) = Some (v, q)" for q using JObj.IH [OF x _ l] by simp
    then show ?thesis using string_coder_ok by (simp add: av pair_coder_def coder_ok_def)
  qed
  then have "get_many ?c (length xs) (concat (map (put_one ?c) xs) @ r) = Some (xs, r)" by (rule get_many_on)
  moreover have "put_one ?c = ?f" by (simp add: pair_coder_def)
  ultimately show ?case using nat_coder_ok by (simp add: k(1) coder_ok_def)
qed

lemma json_codec_ok: "json_codec_laws json_codec"
  using get_put_jv [of _ _ "[]"] by (simp add: json_codec_laws_def json_codec_def)

definition ref_eth_ext :: eth_ext where
  "ref_eth_ext = node_ext.extend ref_node_ext (eth_ext.fields json_codec)"

text \<open>A node without blocks besides the first, and a transaction for it\<close>

lemma ref_eth_ext_ok: "eth_ext_ok ref_eth_ext" "node_ext_ok ref_eth_ext"
  using node_ext_okD [OF ref_node_ext_ok] ref_node_ext_ok json_codec_ok
  by (simp_all add: eth_ext_ok_def ref_eth_ext_def node_ext_ok_def veil_ext_ok_def identity_ext_ok_def kernel_ext_ok_def hash_ext_ok_def token_ext_ok_def eth_ext.defs node_ext.defs)

definition eth_demo_node :: node where
  "eth_demo_node = (node_new (PartyId ''eth-test'') cascade_new)\<lparr>nd_chain_id := 7\<rparr>"

lemma eth_demo_applies:
  "\<exists>raw a n'. eth_apply_raw ref_eth_ext ref_evm_lib 100 raw eth_demo_node = Some (Ok a, n') \<and> ea_nonce a = 0"
proof -
  obtain raw where raw: "sign_legacy_tx ref_evm_lib (replicate 32 7) 0 1 21000 (Some (replicate 20 0x44)) 0 [] 7 = Inr raw"
    by (simp add: sign_legacy_tx_def ref_evm_lib_def)
  obtain addr where tx: "decode_legacy_tx ref_evm_lib raw = Inr \<lparr>tx_nonce = 0, tx_gas_price = 1, tx_gas_limit = 21000, tx_to = Some (replicate 20 0x44),
      tx_value = 0, tx_data = [], tx_chain_id = Some 7, tx_from = addr, tx_hash = keccak256 ref_evm_lib raw\<rparr>"
    using signed_tx_decodes [OF ref_evm_lib_ok raw] by auto
  have empty: "eth_nonce X st_new b = 0" "eth_code X st_new b = []" for X :: "eth_ext" and b
    by (simp_all add: eth_nonce_def eth_code_def get_json_opt_def get_json_def st_new_def)
  have node: "nd_state eth_demo_node = st_new" "nd_chain_id eth_demo_node = 7" "nd_blocks eth_demo_node = [deterministic_genesis]" "nd_store eth_demo_node = None"
    by (simp_all add: eth_demo_node_def node_new_def)
  show ?thesis
    by (rule exI [of _ raw]) (simp add: eth_apply_raw_def tx node empty Let_def eth_apply_tx_def eth_execute_def eth_invoke_def eth_pay_def andthen_def ret_def ensure_def
      opt_then_def eth_record_ok [OF ref_eth_ext_ok(1)] seal_anchor_block_def gets_def modify_def eth_store_def)
qed

section \<open>Properties\<close>

text \<open>
  Applying a transaction always returns, whatever the code it runs, and it is atomic: after an error or a panic the node is what
  it was, unless its store failed after the block had been added.
\<close>

theorem eth_apply_atomic:
  "\<exists>r n'. eth_apply_raw X E now raw n = Some (r, n') \<and>
     ((\<exists>a. r = Ok a) \<or> n' = n \<or> (nd_store n \<noteq> None \<and> (\<exists>b. nd_blocks n' = nd_blocks n @ [b])))"
proof (cases "decode_legacy_tx E raw")
  case (Inr tx)
  let ?p = "last (nd_blocks n)" and ?e = "eth_nonce X (nd_state n) (tx_from tx)"
  let ?o = "opt_then (eth_execute X E (nd_chain_id n) (blk_height ?p + 1) (blk_timestamp ?p) tx (nd_state n))
      (\<lambda>res. andthen (eth_record X tx ?e (blk_height ?p + 1) res) (\<lambda>_. ret res))"
  have "?o \<noteq> None" by (simp add: opt_then_None eth_execute_returns del: not_None_eq)
  then obtain p where "?o = Some p" by blast
  then obtain r s1 where ex: "?o = Some (r, s1)" by (cases p) simp
  have "\<exists>r n'. eth_apply_tx X E now tx ?e n = Some (r, n') \<and>
     ((\<exists>a. r = Ok a) \<or> n' = n \<or> (nd_store n \<noteq> None \<and> (\<exists>b. nd_blocks n' = nd_blocks n @ [b])))" if "nd_blocks n \<noteq> []"
  proof (cases r)
    case (Ok res)
    obtain gas logs created where res: "res = (gas, logs, created)" by (metis surj_pair)
    obtain q n1 where sl: "seal_anchor_block X now (blk_timestamp ?p) (n\<lparr>nd_state := s1\<rparr>) = (q, n1)" by force
    then show ?thesis using seal_cases [OF sl] that Ok ex res
      by (cases q) (auto simp: eth_apply_tx_def Let_def andthen_def ret_def)
  qed (use ex in \<open>simp_all add: eth_apply_tx_def Let_def\<close>)
  then show ?thesis using Inr by (auto simp: eth_apply_raw_def Let_def)
qed (simp add: eth_apply_raw_def)

text \<open>
  An applied transaction raises the nonce of its sender by one, is refused when it is submitted again, and ends in a block that
  extends the chain and carries the root of the new state; its receipt and its description can be read back from that state.
\<close>

theorem eth_apply_once:
  assumes "eth_ext_ok X" and "eth_apply_raw X E now raw n = Some (Ok a, n')"
  shows "eth_nonce X (nd_state n') (ea_from a) = eth_nonce X (nd_state n) (ea_from a) + 1 \<and>
    eth_apply_raw X E now2 raw n' = Some (Err (EBadNonce (ea_nonce a) (ea_nonce a + 1)), n') \<and>
    (\<exists>b. nd_blocks n' = nd_blocks n @ [b] \<and> blk_state_root b = state_root X (nd_state n') \<and>
      blk_height b = blk_height (last (nd_blocks n)) + 1 \<and> blk_parent b = block_hash X (last (nd_blocks n))) \<and>
    (\<exists>tx. decode_legacy_tx E raw = Inr tx \<and> eth_tx_of X (nd_state n') (ea_hash a) = Some (txmeta_json X tx (blk_height (last (nd_blocks n)) + 1)) \<and>
      eth_receipt X (nd_state n') (ea_hash a) =
        Some (receipt_json X tx (ea_contract_address a) (blk_height (last (nd_blocks n)) + 1) (ea_gas_used a) (ea_logs a)))"
proof -
  obtain tx res s1 where tx: "decode_legacy_tx E raw = Inr tx" "tx_nonce tx = eth_nonce X (nd_state n) (tx_from tx)"
      "tx_chain_id tx = None \<or> tx_chain_id tx = Some (nd_chain_id n)" and a: "reports a tx res"
    and s: "nd_state n' = recorded X tx (tx_nonce tx) (blk_height (last (nd_blocks n)) + 1) res s1"
      "nd_blocks n' = nd_blocks n @ [anchor_block X now (blk_timestamp (last (nd_blocks n))) (n\<lparr>nd_state := nd_state n'\<rparr>)]" "nd_chain_id n' = nd_chain_id n"
    by (rule eth_apply_Ok [OF assms])
  have nonce: "eth_nonce X (nd_state n') (tx_from tx) = tx_nonce tx + 1" by (simp add: s(1) recorded_nonce [OF assms(1)])
  have again: "eth_apply_raw X E now2 raw n' = Some (Err (EBadNonce (tx_nonce tx) (tx_nonce tx + 1)), n')"
    using tx(3) by (simp add: eth_apply_raw_def tx(1) s(3) nonce Let_def)
  have "eth_tx_of X (nd_state n') (tx_hash tx) = Some (txmeta_json X tx (blk_height (last (nd_blocks n)) + 1)) \<and>
      eth_receipt X (nd_state n') (tx_hash tx) =
        Some (receipt_json X tx (ea_contract_address a) (blk_height (last (nd_blocks n)) + 1) (ea_gas_used a) (ea_logs a))"
    unfolding s(1) using a by (simp add: reports_def recorded_receipt [OF assms(1)])
  then show ?thesis using nonce again tx(1,2) s(2) a by (simp add: reports_def anchor_block_def Let_def)
qed

theorem eth_apply_once_witness:
  "\<exists>raw a n'. eth_apply_raw ref_eth_ext ref_evm_lib 100 raw eth_demo_node = Some (Ok a, n') \<and>
     eth_apply_raw ref_eth_ext ref_evm_lib 200 raw n' = Some (Err (EBadNonce 0 1), n')"
proof -
  obtain raw a n' where r: "eth_apply_raw ref_eth_ext ref_evm_lib 100 raw eth_demo_node = Some (Ok a, n')" "ea_nonce a = 0"
    using eth_demo_applies by blast
  then show ?thesis using eth_apply_once [OF ref_eth_ext_ok(1) r(1), of 200] by auto
qed

text \<open>
  The block that anchors a transaction carries no command, so another node cannot reproduce it: a replica with the same state that accepts
  the block ends in a different state, which then has the same root, that is, a hash collision in the state tree. Short of that it refuses the block.
\<close>

theorem eth_anchor_not_replicated:
  assumes "eth_ext_ok X" and "node_ext_ok X" and "eth_apply_raw X E now raw n = Some (Ok a, n')" and "nd_state m = nd_state n"
    and "accept_external_block X now2 (last (nd_blocks n')) m = (Ok True, m')"
  shows "state_root X (nd_state m') = state_root X (nd_state n') \<and> nd_state m' \<noteq> nd_state n'"
proof -
  let ?b = "last (nd_blocks n')"
  obtain tx res s1 where tx: "tx_nonce tx = eth_nonce X (nd_state n) (tx_from tx)"
    and s: "nd_state n' = recorded X tx (tx_nonce tx) (blk_height (last (nd_blocks n)) + 1) res s1"
      "nd_blocks n' = nd_blocks n @ [anchor_block X now (blk_timestamp (last (nd_blocks n))) (n\<lparr>nd_state := nd_state n'\<rparr>)]"
    by (rule eth_apply_Ok [OF assms(1,3)])
  have b: "blk_commands ?b = []" "blk_state_root ?b = state_root X (nd_state n')" by (simp_all add: s(2) anchor_block_def Let_def)
  have "extends X ?b m m'" by (rule accept_external_Ok [OF assms(5)])
  then have m': "state_root X (nd_state m') = state_root X (nd_state n')"
      "nd_state m' = adjust_base_price X (nd_fee_policy m) 0 (set_now X (blk_timestamp ?b) (nd_state m))"
    by (auto simp: extends_def reexecute_def b core_def Let_def split: if_splits)
  have "eth_nonce X (nd_state m') (tx_from tx) = tx_nonce tx"
    by (simp add: m'(2) assms(4) tx empty_block_nonce [OF assms(2)])
  moreover have "eth_nonce X (nd_state n') (tx_from tx) = tx_nonce tx + 1" by (simp add: s(1) recorded_nonce [OF assms(1)])
  ultimately show ?thesis using m'(1) by auto
qed

text \<open>
  A transaction that creates a contract does not pay its value: with empty initialisation code and any value it is applied, and no balance changes.
\<close>

theorem eth_deploy_ignores_value:
  assumes "eth_ext_ok X" and "tx_to tx = None" and "tx_data tx = []"
  shows "\<exists>gas s'. eth_execute X E chain bn ts tx s = Some (Ok (gas, [], Some (contract_address E (tx_from tx) (tx_nonce tx))), s') \<and>
    (\<forall>a. eth_balance X s' a = eth_balance X s a)"
proof -
  let ?c = "contract_address E (tx_from tx) (tx_nonce tx)"
  have run: "run_evm X E chain bn ts [] ctx s = Some (Ok \<lparr>eo_success = True, eo_return_data = [], eo_gas_used = 0, eo_logs = []\<rparr>, s)" for ctx
  proof -
    obtain sub where "execute_frame E (state_host_ops X) [] ctx (state_host_new s chain bn ts) 0 False =
        run_frame E (state_host_ops X) sub [] ctx (state_host_new s chain bn ts) 0 False" by (rule exE [OF execute_frame_run])
    then show ?thesis
      by (simp add: run_evm_def run_frame_def exec_loop.simps evm_step_def frame_new_def frame_result_def state_host_new_def act_simps)
  qed
  have "eth_execute X E chain bn ts tx s = Some (Ok (21000, [], Some ?c), st_put (eth_code_key X ?c) (to_vec_or_default (js_string X) (hex_encode X [])) s)"
    using eth_put_ok [OF eth_ext_okD(3) [OF assms(1)]]
    by (simp add: eth_execute_def assms(2,3) eth_deploy_def Let_def run opt_then_def ensure_def andthen_def ret_def saturating_add_def)
  then show ?thesis using eth_keys [of X] by (simp add: eth_balance_def balance_of_def balance_def read_u128_frame)
qed

section \<open>The two hosts\<close>

text \<open>
  C19. A static frame cannot change the world, neither on the in-memory host nor on the host that the node runs transactions on: whatever its code calls,
  and however it ends short of a panic, the storage, balances, codes and nonces are what they were.
\<close>

theorem evm_static_safe:
  "(execute_frame E mem_host_ops code ctx h depth True = Some (r, h') \<and> r \<noteq> Panic \<longrightarrow> mem_core h' = mem_core h) \<and>
   (execute_frame E (state_host_ops X) code ctx g depth True = Some (q, g') \<and> q \<noteq> Panic \<longrightarrow> sh_state g' = sh_state g)"
  using mem_host.static_execution state_host.static_execution by blast

theorem evm_static_safe_witness:
  "\<exists>h' g'. execute_frame ref_evm_lib mem_host_ops [0x60, 1, 0x60, 2, 0x55] (demo_context\<lparr>cc_gas_limit := 21000\<rparr>) empty_host 0 True =
      Some (Err VStaticViolation, h') \<and> mem_core h' = mem_core empty_host \<and>
    execute_frame ref_evm_lib (state_host_ops ref_eth_ext) [0x60, 1, 0x60, 2, 0x55] (demo_context\<lparr>cc_gas_limit := 21000\<rparr>) (state_host_new st_new 7 1 100) 0 True =
      Some (Err VStaticViolation, g') \<and> sh_state g' = st_new"
proof -
  note refused = static_store_refused [of ref_evm_lib _ demo_context _ 0]
  show ?thesis
    using evm_static_safe [of ref_evm_lib "[0x60, 1, 0x60, 2, 0x55]" "demo_context\<lparr>cc_gas_limit := 21000\<rparr>" empty_host 0 "Err VStaticViolation" empty_host
        ref_eth_ext "state_host_new st_new 7 1 100" "Err VStaticViolation" "state_host_new st_new 7 1 100"]
      refused [of mem_host_ops empty_host] refused [of "state_host_ops ref_eth_ext" "state_host_new st_new 7 1 100"]
    by (simp add: state_host_new_def)
qed

text \<open>
  C20. Calls are atomic, on the in-memory host and on the host of the node: when CALL, CALLCODE, DELEGATECALL or STATICCALL goes on with zero on the stack, at
  any depth, for want of balance, at the depth limit, in a precompiled contract or because the callee reverted, the storage, balances, codes and nonces
  are those from before the call.
\<close>

theorem evm_failed_call_restores:
  "(do_call E mem_host_ops (frames_below E mem_host_ops n) env kind f = Some (Ok (), f') \<and> hd (fr_stack f') = U_ZERO \<longrightarrow>
     mem_core (fr_host f') = mem_core (fr_host f)) \<and>
   (do_call E (state_host_ops X) (frames_below E (state_host_ops X) n) env kind g = Some (Ok (), g') \<and> hd (fr_stack g') = U_ZERO \<longrightarrow>
     sh_state (fr_host g') = sh_state (fr_host g))"
  using mem_host.failed_call_keeps [of E n env kind f f'] state_host.failed_call_keeps [of E X n env kind g g'] by (auto simp: failure_keeps_def)

text \<open>On the node: a caller with nothing that sends five units\<close>

definition poor_frame :: "state_host frame" where
  "poor_frame = frame_at 0 2 [from_u64 21000, from_u64 0x5678, from_u64 5, U_ZERO, U_ZERO, U_ZERO, U_ZERO] (state_host_new st_new 7 1 100)"

lemma poor_call:
  "\<exists>h. do_call E (state_host_ops ref_eth_ext) sub revert_env KCall poor_frame = Some (Ok (), frame_at 0 102 [U_ZERO] h)"
proof -
  have z: "from_u64 (v :: u64) = U256 v 0 0 0" for v by (simp add: from_u64_def)
  have "balance_of ref_eth_ext st_new t p = 0" for t p by (simp add: balance_of_def balance_def read_u128_def get_json_opt_def get_json_def st_new_def)
  moreover have "value_u256 0 = U256 0 0 0 0" by code_simp
  ultimately have b: "sh_balance ref_eth_ext h a = U256 0 0 0 0" if "sh_state h = st_new" for h a using that by (simp add: sh_balance_def)
  show ?thesis
    by (simp add: do_call_def call_prepare_def call_operands_def call_enter_def revert_env_def poor_frame_def demo_context_def frame_at_def
        state_host_new_def z U_ZERO_def act_simps call_fails_def clear_ret_buffer_def run_plan_def
        evm_charge_def evm_gas_limit_def saturating_add_def pop_usize_def evm_pop_def low_usize_def mem_load_def MAX_CALL_DEPTH_def u_is_zero_def
        call_target_def take_snapshot_def state_host_ops_def sh_snapshot_def sh_revert_def get_host_def b evm_push_def EVM_MAX_STACK_def
        u_lt_def cmp_u_def upd_host_def low_u64_def)
qed

theorem evm_failed_call_restores_witness:
  "\<exists>f' g'. do_call ref_evm_lib mem_host_ops (frames_below ref_evm_lib mem_host_ops 3) revert_env KCall revert_frame = Some (Ok (), f') \<and>
     mem_core (fr_host f') = mem_core revert_host \<and>
     do_call ref_evm_lib (state_host_ops ref_eth_ext) (frames_below ref_evm_lib (state_host_ops ref_eth_ext) 3) revert_env KCall poor_frame = Some (Ok (), g') \<and>
     sh_state (fr_host g') = st_new"
proof -
  obtain h where c: "do_call ref_evm_lib mem_host_ops (frames_below ref_evm_lib mem_host_ops 3) revert_env KCall revert_frame = Some (Ok (), frame_at 0 20118 [U_ZERO] h)"
    by (rule exE [OF reverting_call])
  obtain g where d: "do_call ref_evm_lib (state_host_ops ref_eth_ext) (frames_below ref_evm_lib (state_host_ops ref_eth_ext) 3) revert_env KCall poor_frame =
      Some (Ok (), frame_at 0 102 [U_ZERO] g)"
    by (rule exE [OF poor_call])
  have "fr_host revert_frame = revert_host" "sh_state (fr_host poor_frame) = st_new"
    by (simp_all add: revert_frame_def poor_frame_def frame_at_def state_host_new_def)
  then show ?thesis
    using c d evm_failed_call_restores [of ref_evm_lib 3 revert_env KCall revert_frame "frame_at 0 20118 [U_ZERO] h" ref_eth_ext poor_frame "frame_at 0 102 [U_ZERO] g"]
    by (intro exI [of _ "frame_at 0 20118 [U_ZERO] h"] exI [of _ "frame_at 0 102 [U_ZERO] g"]) (simp add: frame_at_def)
qed

end
