(* ===== verification/Spec2Isabelle.thy ===== *)
theory Spec2Isabelle
  imports Dex Vesting Contract Storage Staking_Properties Node_Behaviour Validator_Properties Light_Client
    Multisig Oracle Bridge Nft Name_Service Evm_Arith Eth_Node
begin

text \<open>
  Veilux is a node for a permissioned ledger with private sub-ledgers. Clients sign commands; a node admits them to its
  mempool, executes them with deterministic modules (prisms) on a key-value state, and puts them into blocks; validators agree on
  the blocks by weighted voting; parties see the events that concern them through encrypted views, and may run commands on private
  state among stakeholders. The sources are the Rust crates under \<open>src/\<close>.

  \<^bold>\<open>How the parts interact.\<close> A \<open>Command\<close> names a prism and carries a payload. \<open>Cascade::apply\<close> looks the prism up, runs its
  \<open>handle\<close> on the state and then the commands the prism derived, level by level. \<open>Node\<close> owns the state, the chain and the mempool, checks
  signatures and nonces on submission, charges fees through the token prism, and builds, re-executes and commits blocks; \<open>Store\<close> keeps blocks
  and state in files. \<open>RoundMachine\<close>, \<open>ViewSync\<close> and \<open>SlashWatch\<close> drive the \<open>Aurora\<close> engine that counts votes, and the validator
  loop ties these to messages, ticks and the node. Conflicting votes become a proof that the staking prism slashes. A light client
  follows headers and checks state proofs against them.

  \<^bold>\<open>Theories and the code they model.\<close>
  \<^item> \<open>Prelude\<close>: integers with the checked, saturating and wrapping operations of Rust, byte and decimal encodings, results as values
    (\<open>Ok\<close>, \<open>Err\<close>, \<open>Panic\<close>) with the state-passing sequencing \<open>andthen\<close>, and the rules \<open>keeps\<close> and \<open>no_panic\<close>. \<open>Codecs\<close>: concrete
    serialisers that show the assumptions on \<open>serde_json\<close> can hold; they are used by witnesses only.
  \<^item> \<open>Kernel_Crypto\<close> (\<open>kernel/src/crypto.rs\<close>), \<open>Kernel_Types\<close> (\<open>types.rs\<close>), \<open>Kernel_State\<close> (\<open>state.rs\<close>), \<open>Kernel_Cascade\<close>
    (\<open>prism.rs\<close>, \<open>cascade.rs\<close>): hashes, Merkle trees, commands, blocks, the state tree, prisms and the cascade. \<open>Tables\<close> holds the laws
    of typed JSON cells as the locale \<open>json_table\<close>, \<open>Ledger\<close> the sum of an account book.
  \<^item> One theory per prism: \<open>Token\<close>, \<open>Dex\<close>, \<open>Contract_VM\<close> with \<open>Contract\<close>, \<open>Storage\<close>, \<open>Vesting\<close>, \<open>Staking\<close> with
    \<open>Staking_Properties\<close>, \<open>Multisig\<close>, \<open>Oracle\<close>, \<open>Bridge\<close>, \<open>Nft\<close> and \<open>Name_Service\<close> (\<open>prisms/*/src\<close>). The prism contract of
    \<open>Kernel_Cascade\<close> is a locale; every prism theory interprets it with its own operations.
  \<^item> \<open>Identity\<close>, \<open>Veil\<close>, \<open>Veil_Private\<close> (\<open>veil/src\<close>): keys and signatures, sealed views, projections, disclosure, private envelopes,
    attestations.
  \<^item> \<open>Consensus\<close> (\<open>consensus/src\<close>): validator set, votes, the engine. \<open>Round\<close> (\<open>node/src/driver.rs\<close>, \<open>viewsync.rs\<close>),
    \<open>Slash_Watch\<close> (\<open>slash_watch.rs\<close>), \<open>Genesis\<close> (\<open>genesis.rs\<close>), \<open>Validator\<close> with \<open>Validator_Properties\<close>
    (\<open>validator_loop.rs\<close>, \<open>network/src/message.rs\<close>).
  \<^item> \<open>Store\<close> (\<open>store/src/lib.rs\<close>); \<open>Node\<close>, \<open>Node_Properties\<close>, \<open>Node_Behaviour\<close> (\<open>node/src/node.rs\<close>); \<open>Light_Client\<close>
    (\<open>lightclient/src/lib.rs\<close>).
  \<^item> The EVM crate (\<open>evm/src\<close>): \<open>Evm_U256\<close> (\<open>u256.rs\<close>, four limbs of 64 bits), \<open>Evm_Rlp\<close> (\<open>rlp.rs\<close>), \<open>Evm_Field\<close>
    (\<open>bn254.rs\<close>), \<open>Evm_Tx\<close> (\<open>lib.rs\<close>, signed legacy transactions), \<open>Evm_Precompile\<close> (\<open>precompile.rs\<close>), \<open>Evm_Vm\<close> (\<open>vm.rs\<close>, the
    interpreter with every opcode, calls, creations and the in-memory host), and the theorems on it in \<open>Evm_Arith\<close> and
    \<open>Evm_Vm_Properties\<close>. What the interpreter relies on in a host is the locale \<open>evm_host_laws\<close>; a predicate that the primitive
    operations of a frame keep is kept by every opcode and the whole loop in the locales \<open>frame_base\<close> and \<open>frame_invariant\<close>.
    \<open>Eth_Node\<close> (\<open>node/src/eth.rs\<close>) is the host on the state of a node, read-only calls, signed transactions and the blocks that anchor them.

  Structs are records with the prefix of their type, enums are datatypes, \<open>HashMap\<close> and \<open>BTreeMap\<close> are finite maps or functions to options, and a
  method is the definition of the same name, with a prefix where two types share a method name. The iteration order of a \<open>HashMap\<close> is a
  parameter wherever the result depends on it.

  \<^bold>\<open>What the theorems show.\<close>
  \<^item> Agreement: two conflicting commits of one round need validators with more than a third of the stake that signed both; a commit has a quorum
    behind it and a quorum commits; a round machine votes at most once per kind and precommits only after a quorum of prevotes; a running
    validator never signs two conflicting votes, whatever it receives; the watch turns conflicting votes into a proof that slashes.
  \<^item> Execution: a block assembled by a node passes the checks of its commit; the chain stays linked and its blocks determine the state, so that
    replicas with the same blocks agree (Ethereum transactions excepted, see \<open>eth_anchor_not_replicated\<close>); a node admits a submitted
    command once; the cascade refines a breadth-first specification, and a handler that keeps an
    invariant gives a cascade that keeps it.
  \<^item> Authentication of data: Merkle and state proofs are complete, and a proof for a wrong value is a collision of the hash; the light
    client accepts the headers of a node and what it accepts is bound to the trusted root; signing bytes determine the command.
  \<^item> Prisms: supply of a token, backing of stakes, conservation of vesting, constant product and pool invariants, termination
    and gas bounds of the contract machine, authorised and unique execution in multisig and bridge, attested oracle values, ownership of NFTs
    as a refinement of a specification on maps, and canonical names with consistent reverse entries.
  \<^item> Privacy and storage: a party opens exactly the views that concern it; private envelopes round trip; blocks and state survive
    a restart; saving the state is atomic.
  \<^item> EVM: the limb arithmetic is that of 256-bit words and the signed opcodes read two's complement; the field operations of bn254 are those modulo its
    prime; RLP and signed transactions round trip; execution ends for every gas limit below \<open>u64::MAX\<close>; a static frame changes nothing; a
    call that reports failure leaves storage, balances, codes and nonces as they were, on the in-memory host and on the host of the node; a
    transaction is applied as a whole or not at all, once, and leaves its receipt.
  \<^item> Errors: the theorems on defects (for example \<open>replay_after_sync\<close>, \<open>restart_after_crash\<close>, \<open>unexecutable_block_halts\<close>,
    \<open>multisig_impersonates\<close>) state the behaviour the code has and give the run that shows it.

  \<^bold>\<open>Parameters.\<close> BLAKE3, Ed25519, X25519 and the cipher, \<open>serde_json\<close>, hex text, and for the EVM Keccak-256, SHA-256, RIPEMD-160 and secp256k1 (record \<open>evm_lib\<close>) are code of other packages. They are fields of the
  \<open>*_ext\<close> records that the definitions take as their argument \<open>X\<close>; the predicates \<open>*_ext_ok\<close> name what is relied on: reading back what was
  written, verification of what was signed, output lengths. Collision freedom is never assumed, and no theorem ends in the mere existence of a collision, which
  holds of every hash function: \<open>collides X xs ys\<close> says that among two explicit lists of strings, those hashed for the presented data and those
  hashed for the honest data, the strings at one position differ and have the same digest. The \<open>ref_*_ext\<close> instances satisfy these predicates and serve the witnesses. The wall clock is an argument of the handlers that read
  it, and messages to send are appended to an outbox.

  \<^bold>\<open>Arithmetic, bounds and fuel.\<close> Integers keep their width, and plain operators wrap as in the release profile; a division by zero is
  \<open>Panic\<close>. Where a theorem needs a bound (a total stake below \<open>2 ^ 63\<close>, say), its text names it, and where the source has no such bound a further theorem
  shows what happens beyond it (\<open>quorum_threshold_wraps\<close>, \<open>add_liquidity_panics\<close>, \<open>zero_duration_vests_at_once\<close>). Loops are structural recursions or have a termination measure. The loop of the contract machine is a \<open>partial_function\<close> into an option, so
  that not returning is the value \<open>None\<close>; \<open>vm_run_terminates\<close> shows that it returns, since every opcode costs at least one unit of gas. The
  cascade stops at the depth limit of the source. The loop of an EVM frame is a \<open>partial_function\<close> too. \<open>frames_below n\<close> runs a frame with at most \<open>n\<close> levels of
  calls below it; \<open>execute_frame\<close> takes the number of levels the depth limit leaves, so no callee is cut off, and \<open>evm_terminates\<close> shows that the
  value is never \<open>None\<close>.

  \<^bold>\<open>Not modelled.\<close> The confidential prism rests on curve arithmetic of another package; the AI prism wraps an inference service; the
  Ethereum RPC layer (\<open>eth_rpc.rs\<close>); HTTP, websocket and command-line code (\<open>rpc\<close>, \<open>sdk\<close>, \<open>main.rs\<close>, \<open>rpc_service.rs\<close>, \<open>ingress.rs\<close>);
  sockets and the handshake of \<open>network\<close>; logging, display text and random key generation; the allocator and
  the call stack, so a model function returns where the source may run out of memory or stack (copies of huge length in the interpreter, deeply nested RLP).
\<close>

end
